(* ===== verification/Prelude.thy ===== *)
theory Prelude
  imports Main
begin

text \<open>
  Shared vocabulary of the development: Python text as lists of code points, SQLite
  tables as lists of rows in insertion order, and the lemma collections the component
  theories extend.
\<close>

named_theorems table_simps \<open>how lookups and counts read an updated table\<close>
named_theorems inv_intros \<open>operations that keep a component's invariant\<close>

section \<open>Python text\<close>

text \<open>
  A Python \<open>str\<close> is a sequence of Unicode code points. Text whose characters matter is a
  list of code points; \<open>lit\<close> turns a HOL literal into one. Identifiers and tags that are
  only compared are HOL strings.
\<close>

type_synonym pystr = "nat list"

definition lit :: "string \<Rightarrow> pystr" where
  "lit s = map of_char s"

text \<open>The code points for which \<open>str.isspace\<close> is true, that is, what \<open>str.strip()\<close> removes.\<close>

definition py_isspace :: "nat \<Rightarrow> bool" where
  "py_isspace c \<longleftrightarrow>
     (9 \<le> c \<and> c \<le> 13) \<or> (28 \<le> c \<and> c \<le> 32) \<or> c = 133 \<or> c = 160 \<or> c = 5760
     \<or> (8192 \<le> c \<and> c \<le> 8202) \<or> c = 8232 \<or> c = 8233 \<or> c = 8239 \<or> c = 8287 \<or> c = 12288"

definition py_strip :: "pystr \<Rightarrow> pystr" where
  "py_strip s = rev (dropWhile py_isspace (rev (dropWhile py_isspace s)))"

text \<open>SQLite's \<open>COLLATE NOCASE\<close> folds the 26 ASCII upper case letters and nothing else.\<close>

definition nocase_char :: "nat \<Rightarrow> nat" where
  "nocase_char c = (if 65 \<le> c \<and> c \<le> 90 then c + 32 else c)"

definition nocase :: "pystr \<Rightarrow> pystr" where
  "nocase s = map nocase_char s"

lemma dropWhile_idem_last:
  "xs \<noteq> [] \<Longrightarrow> \<not> P (hd xs) \<Longrightarrow> dropWhile P xs = xs"
  by (cases xs) auto

lemma hd_dropWhile_rev_dropWhile:
  "dropWhile P (rev (dropWhile P (rev (dropWhile P s)))) = rev (dropWhile P (rev (dropWhile P s)))"
proof (cases "rev (dropWhile P (rev (dropWhile P s))) = []")
  case True
  then have "rev (dropWhile P (rev (dropWhile P s))) = []" .
  then show ?thesis by (simp only: rev_is_Nil_conv dropWhile.simps rev.simps)
next
  case False
  define t where "t = dropWhile P s"
  have sub: "\<exists>zs. t = rev (dropWhile P (rev t)) @ zs"
    by (metis rev_append rev_rev_ident takeWhile_dropWhile_id)
  then obtain zs where zs: "t = rev (dropWhile P (rev t)) @ zs" by blast
  have ne: "rev (dropWhile P (rev t)) \<noteq> []" using False by (simp add: t_def)
  then have "t \<noteq> []" by auto
  then have "\<not> P (hd t)" unfolding t_def by (rule hd_dropWhile)
  moreover have "hd (rev (dropWhile P (rev t))) = hd t"
    using zs ne by (metis hd_append2)
  ultimately show ?thesis
    using ne dropWhile_idem_last [of "rev (dropWhile P (rev t))" P] by (simp add: t_def)
qed

lemma py_strip_idem [simp]: "py_strip (py_strip s) = py_strip s"
  by (simp add: py_strip_def hd_dropWhile_rev_dropWhile)

lemma nocase_idem [simp]: "nocase (nocase s) = nocase s"
  by (simp add: nocase_def nocase_char_def)

section \<open>Route errors\<close>

text \<open>
  A FastAPI handler raises \<open>HTTPException(status_code=..)\<close>. Inside \<open>transaction_context\<close> the
  exception rolls the transaction back, so a handler is a function from the database to
  either the error or the new database: on \<open>Inl\<close> the stored state is the old one.
\<close>

datatype http_error = Http nat

section \<open>Tables\<close>

text \<open>
  A table is the list of its rows in rowid order. \<open>UPDATE t SET .. WHERE p\<close> maps over it,
  its \<open>rowcount\<close> is the number of rows that satisfied \<open>p\<close>, and \<open>DELETE\<close> filters.
\<close>

definition update_rows :: "('r \<Rightarrow> bool) \<Rightarrow> ('r \<Rightarrow> 'r) \<Rightarrow> 'r list \<Rightarrow> 'r list" where
  "update_rows p f rs = map (\<lambda>r. if p r then f r else r) rs"

definition rowcount :: "('r \<Rightarrow> bool) \<Rightarrow> 'r list \<Rightarrow> nat" where
  "rowcount p rs = length (filter p rs)"

lemma rowcount_pos [table_simps]: "0 < rowcount p rs \<longleftrightarrow> (\<exists>r \<in> set rs. p r)"
  by (auto simp: rowcount_def filter_empty_conv)

lemma rowcount_zero [table_simps]: "rowcount p rs = 0 \<longleftrightarrow> (\<forall>r \<in> set rs. \<not> p r)"
  by (auto simp: rowcount_def filter_empty_conv)

lemma set_update_rows [table_simps]:
  "set (update_rows p f rs) = (\<lambda>r. if p r then f r else r) ` set rs"
  by (simp add: update_rows_def)

lemma in_update_rows: "r \<in> set rs \<Longrightarrow> (if p r then f r else r) \<in> set (update_rows p f rs)"
  by (simp add: set_update_rows)

lemma update_rows_none: "\<forall>r \<in> set rs. \<not> p r \<Longrightarrow> update_rows p f rs = rs"
  by (simp add: update_rows_def map_idI)

lemma map_key_update_rows:
  "(\<And>r. p r \<Longrightarrow> k (f r) = k r) \<Longrightarrow> map k (update_rows p f rs) = map k rs"
  by (induction rs) (auto simp: update_rows_def)

lemma length_update_rows [simp]: "length (update_rows p f rs) = length rs"
  by (simp add: update_rows_def)

lemma update_rows_Nil [simp]: "update_rows p f [] = []"
  by (simp add: update_rows_def)

lemma update_rows_Cons [simp]:
  "update_rows p f (r # rs) = (if p r then f r else r) # update_rows p f rs"
  by (simp add: update_rows_def)

text \<open>Updating the one row that matches keeps a unique column if its new value is free.\<close>

lemma distinct_map_update_one:
  assumes "distinct (map k rs)"
    and "\<And>r r'. r \<in> set rs \<Longrightarrow> r' \<in> set rs \<Longrightarrow> p r \<Longrightarrow> p r' \<Longrightarrow> r = r'"
    and "\<And>r r'. r \<in> set rs \<Longrightarrow> r' \<in> set rs \<Longrightarrow> p r \<Longrightarrow> \<not> p r' \<Longrightarrow> k (f r) \<noteq> k r'"
  shows "distinct (map k (update_rows p f rs))"
  using assms
proof (induction rs)
  case Nil
  then show ?case by simp
next
  case (Cons x rs)
  have IH: "distinct (map k (update_rows p f rs))"
    by (rule Cons.IH) (use Cons.prems in auto)
  have new: "x \<notin> set rs" "k x \<notin> k ` set rs" using Cons.prems(1) by auto
  have "k (if p x then f x else x) \<noteq> k (if p y then f y else y)" if "y \<in> set rs" for y
  proof -
    have "y \<noteq> x" using that new by auto
    moreover have "k x \<noteq> k y" using that new by auto
    moreover have "p x \<Longrightarrow> p y \<Longrightarrow> x = y" using Cons.prems(2) [of x y] that by simp
    moreover have "p x \<Longrightarrow> \<not> p y \<Longrightarrow> k (f x) \<noteq> k y" using Cons.prems(3) [of x y] that by simp
    moreover have "p y \<Longrightarrow> \<not> p x \<Longrightarrow> k (f y) \<noteq> k x" using Cons.prems(3) [of y x] that by simp
    ultimately show ?thesis by auto
  qed
  then have "k (if p x then f x else x) \<notin> k ` set (update_rows p f rs)"
    unfolding set_update_rows by blast
  then show ?case using IH by (auto split: if_splits)
qed

text \<open>\<open>SELECT .. WHERE p\<close> followed by \<open>fetchone()\<close>: the first row in rowid order.\<close>

lemma find_SomeD: "find p rs = Some r \<Longrightarrow> r \<in> set rs \<and> p r"
  by (induction rs) (auto split: if_splits)

lemma find_NoneD: "find p rs = None \<Longrightarrow> r \<in> set rs \<Longrightarrow> \<not> p r"
  by (induction rs) (auto split: if_splits)

lemma find_unique_key:
  assumes "distinct (map k rs)" and "r \<in> set rs"
  shows "find (\<lambda>x. k x = k r) rs = Some r"
  using assms by (induction rs) (auto simp: image_iff)

lemma distinct_key_eq:
  "distinct (map k rs) \<Longrightarrow> r \<in> set rs \<Longrightarrow> r' \<in> set rs \<Longrightarrow> k r = k r' \<Longrightarrow> r = r'"
  by (simp add: distinct_map inj_on_def)

lemma find_map_update_rows:
  assumes "\<And>r. k (f r) = k r"
  shows "find (\<lambda>x. k x = i) (update_rows p f rs)
         = map_option (\<lambda>r. if p r then f r else r) (find (\<lambda>x. k x = i) rs)"
  using assms by (induction rs) auto

end
