(* ===== verification/Fencing.thy ===== *)
theory Fencing
  imports Prelude
begin

text \<open>
  The contract every fenced table offers its workers: a write by somebody who does not hold
  the item is refused and changes nothing, and nothing but a grant makes somebody a holder.
  The job lease (fenced by worker id) and the enrichment stage rows (fenced by input
  fingerprint) both provide it; what a stale writer can still do is proved here once.
\<close>

locale fenced_store =
  fixes inv :: "'t \<Rightarrow> bool"
    and holds :: "'t \<Rightarrow> 'i \<Rightarrow> 'w \<Rightarrow> bool"
    and fwrite :: "'x \<Rightarrow> 'i \<Rightarrow> 'w \<Rightarrow> 't \<Rightarrow> bool \<times> 't"
    and step :: "'e \<Rightarrow> 't \<Rightarrow> 't"
    and grants :: "'e \<Rightarrow> 'i \<Rightarrow> 'w \<Rightarrow> bool"
  assumes step_inv: "inv t \<Longrightarrow> inv (step e t)"
    and refused: "\<not> holds t i w \<Longrightarrow> fwrite x i w t = (False, t)"
    and only_grants: "inv t \<Longrightarrow> \<not> holds t i w \<Longrightarrow> \<not> grants e i w \<Longrightarrow> \<not> holds (step e t) i w"
begin

lemma fold_inv: "inv t \<Longrightarrow> inv (fold step es t)"
  by (induction es arbitrary: t) (auto intro: step_inv)

lemma stays_fenced:
  "inv t \<Longrightarrow> \<not> holds t i w \<Longrightarrow> (\<And>e. e \<in> set es \<Longrightarrow> \<not> grants e i w)
   \<Longrightarrow> \<not> holds (fold step es t) i w"
proof (induction es arbitrary: t)
  case Nil
  then show ?case by simp
next
  case (Cons e es)
  then show ?case by (simp add: step_inv only_grants)
qed

lemma stale_write_refused:
  "inv t \<Longrightarrow> \<not> holds t i w \<Longrightarrow> (\<And>e. e \<in> set es \<Longrightarrow> \<not> grants e i w)
   \<Longrightarrow> fwrite x i w (fold step es t) = (False, fold step es t)"
  by (rule refused) (rule stays_fenced)

end

end
