(* ===== verification/Interleaving.thy ===== *)
theory Interleaving
  imports Prelude
begin

text \<open>
  Runs of requests whose readings may be old. \<open>trace exec allowed init\<close> are the lists of
  states of a run, the newest first; a request runs on the newest state, and \<open>allowed\<close> says
  what it may have read, given all states so far.
\<close>

inductive trace :: "('c \<Rightarrow> 's \<Rightarrow> 's) \<Rightarrow> ('c \<Rightarrow> 's list \<Rightarrow> bool) \<Rightarrow> 's \<Rightarrow> 's list \<Rightarrow> bool"
  for exec allowed init where
  trace_start: "trace exec allowed init [init]"
| trace_step: "trace exec allowed init tr \<Longrightarrow> allowed c tr \<Longrightarrow>
    trace exec allowed init (exec c (hd tr) # tr)"

inductive_cases trace_ConsE: "trace exec allowed init (s # tr)"

lemma trace_nonempty: "trace exec allowed init tr \<Longrightarrow> tr \<noteq> []"
  by (induction rule: trace.induct) simp_all

lemma trace_hd:
  assumes "trace exec allowed init tr"
  shows "hd tr \<in> set tr"
  using trace_nonempty [OF assms] by simp

lemma trace_suffix:
  "trace exec allowed init (newer @ older) \<Longrightarrow> older \<noteq> [] \<Longrightarrow> trace exec allowed init older"
  by (induction newer) (auto elim: trace_ConsE)

lemma trace_invariant:
  assumes "trace exec allowed init tr" and "P init"
    and "\<And>c tr. trace exec allowed init tr \<Longrightarrow> (\<And>s. s \<in> set tr \<Longrightarrow> P s) \<Longrightarrow> allowed c tr \<Longrightarrow>
        P (exec c (hd tr))"
  shows "s \<in> set tr \<Longrightarrow> P s"
  using assms(1)
proof (induction arbitrary: s rule: trace.induct)
  case trace_start
  then show ?case using assms(2) by simp
next
  case (trace_step tr c)
  then show ?case using assms(3) [of tr c] by auto
qed

text \<open>
  Runs that keep \<open>P\<close> and go up in a preorder \<open>R\<close>: a request may rely on both for all states
  so far, its own readings among them.
\<close>

locale monotone_run =
  fixes exec :: "'c \<Rightarrow> 's \<Rightarrow> 's" and allowed :: "'c \<Rightarrow> 's list \<Rightarrow> bool" and init :: 's
    and P :: "'s \<Rightarrow> bool" and R :: "'s \<Rightarrow> 's \<Rightarrow> bool"
  assumes init_ok: "P init"
    and refl_R: "P s \<Longrightarrow> R s s"
    and trans_R: "P s \<Longrightarrow> P t \<Longrightarrow> R s t \<Longrightarrow> R t u \<Longrightarrow> R s u"
    and step_ok: "\<lbrakk>tr \<noteq> []; \<And>s. s \<in> set tr \<Longrightarrow> P s;
        \<And>n m. m \<le> n \<Longrightarrow> n < length tr \<Longrightarrow> R (tr ! n) (tr ! m); allowed c tr\<rbrakk>
      \<Longrightarrow> P (exec c (hd tr)) \<and> R (hd tr) (exec c (hd tr))"
begin

lemma ordered:
  assumes "trace exec allowed init tr"
  shows "(\<forall>s \<in> set tr. P s) \<and> (\<forall>n m. m \<le> n \<longrightarrow> n < length tr \<longrightarrow> R (tr ! n) (tr ! m))"
  using assms
proof (induction rule: trace.induct)
  case trace_start
  then show ?case using init_ok refl_R by simp
next
  case (trace_step tr c)
  let ?s = "exec c (hd tr)"
  have ok: "P s" if "s \<in> set tr" for s using trace_step.IH that by blast
  have ord: "R (tr ! n) (tr ! m)" if "m \<le> n" "n < length tr" for n m using trace_step.IH that by blast
  note ne = trace_nonempty [OF trace_step.hyps(1)]
  have new: "P ?s \<and> R (hd tr) ?s" by (rule step_ok [OF ne ok ord trace_step.hyps(2)])
  have "R ((?s # tr) ! n) ((?s # tr) ! m)" if nm: "m \<le> n" "n < length (?s # tr)" for n m
  proof (cases m)
    case (Suc m')
    then show ?thesis using nm ord [of m' "n - 1"] by (cases n) auto
  next
    case 0
    show ?thesis
    proof (cases n)
      case 0
      then show ?thesis using \<open>m = 0\<close> new refl_R by simp
    next
      case (Suc n')
      then have "n' < length tr" using nm(2) by simp
      then have "R (tr ! n') (hd tr)" using ord [of 0 n'] ne by (simp add: hd_conv_nth)
      moreover have "P (tr ! n')" "P (hd tr)" using ok \<open>n' < length tr\<close> ne by simp_all
      ultimately have "R (tr ! n') ?s" using new trans_R by blast
      then show ?thesis using Suc \<open>m = 0\<close> by simp
    qed
  qed
  then have "\<forall>n m. m \<le> n \<longrightarrow> n < length (?s # tr) \<longrightarrow> R ((?s # tr) ! n) ((?s # tr) ! m)" by blast
  moreover have "\<forall>s \<in> set (?s # tr). P s" using new ok by simp
  ultimately show ?case by (rule conjI [rotated])
qed

lemma run_ok: "trace exec allowed init tr \<Longrightarrow> s \<in> set tr \<Longrightarrow> P s"
  using ordered by blast

lemma run_mono: "trace exec allowed init tr \<Longrightarrow> m \<le> n \<Longrightarrow> n < length tr \<Longrightarrow> R (tr ! n) (tr ! m)"
  using ordered by blast

lemma later:
  assumes "trace exec allowed init (newer @ s # older)" and "t \<in> set (newer @ [s])"
  shows "R s t"
proof -
  from assms(2) obtain m where "m < length (newer @ [s])" "t = (newer @ [s]) ! m" by (metis in_set_conv_nth)
  then have m: "m \<le> length newer" "t = (newer @ s # older) ! m" by (auto simp: nth_append)
  then show ?thesis using run_mono [OF assms(1) m(1)] by simp
qed

end

end
