(* ===== verification/Circuit_Breaker.thy ===== *)
theory Circuit_Breaker
  imports Complex_Main Prelude
begin

text \<open>
  \<^verbatim>\<open>backend/app/services/circuit_breaker.py\<close>: the asynchronous circuit breaker that
  guards every outbound model call. The breaker object is the record \<open>breaker\<close>; each
  method is a function on it that takes the monotonic clock reading it makes. A call of the
  breaker runs in two critical sections (admission, then recording and slot release) with
  the wrapped coroutine awaited between them, so the concurrent system is a step relation
  whose steps are those two sections, the clock and \<open>reset\<close>. Floats are exact rationals.
\<close>

section \<open>Data\<close>

datatype py_status = IntStatus int | NonIntStatus

definition is_outage_status :: "py_status \<Rightarrow> bool" where
  "is_outage_status s =
     (case s of NonIntStatus \<Rightarrow> False
      | IntStatus code \<Rightarrow> code \<ge> 500 \<or> code = 429)"

datatype cb_state = CLOSED | OPEN | HALF_OPEN

datatype cb_error =
    ValueError string
  | BreakerOpen string
  | BreakerTrialInFlight string

record breaker =
  fail_max :: int
  reset_timeout :: rat
  success_threshold :: int
  cb_name :: string
  cb_state :: cb_state
  fail_counter :: int
  success_counter :: int
  last_failure_time :: "rat option"
  half_open_trial :: bool

definition new_breaker ::
  "int \<Rightarrow> rat \<Rightarrow> int \<Rightarrow> string option \<Rightarrow> cb_error + breaker" where
  "new_breaker fm rt sth nm =
     (if fm < 1 then Inl (ValueError ''fail_max'')
      else if rt \<le> 0 then Inl (ValueError ''reset_timeout'')
      else if sth < 1 then Inl (ValueError ''success_threshold'')
      else Inr \<lparr>fail_max = fm, reset_timeout = rt, success_threshold = sth,
                cb_name = (case nm of None \<Rightarrow> ''unnamed''
                           | Some n \<Rightarrow> if n = [] then ''unnamed'' else n),
                cb_state = CLOSED, fail_counter = 0, success_counter = 0,
                last_failure_time = None, half_open_trial = False\<rparr>)"

section \<open>State transitions\<close>

definition transition_to_open :: "rat \<Rightarrow> breaker \<Rightarrow> breaker" where
  "transition_to_open now b = b\<lparr>cb_state := OPEN, last_failure_time := Some now\<rparr>"

definition transition_to_half_open :: "breaker \<Rightarrow> breaker" where
  "transition_to_half_open b = b\<lparr>cb_state := HALF_OPEN, success_counter := 0\<rparr>"

definition transition_to_closed :: "breaker \<Rightarrow> breaker" where
  "transition_to_closed b =
     b\<lparr>cb_state := CLOSED, fail_counter := 0, success_counter := 0,
       last_failure_time := None, half_open_trial := False\<rparr>"

definition reset_breaker :: "breaker \<Rightarrow> breaker" where
  "reset_breaker b =
     b\<lparr>cb_state := CLOSED, fail_counter := 0, success_counter := 0,
       last_failure_time := None, half_open_trial := False\<rparr>"

definition check_timeout :: "rat \<Rightarrow> breaker \<Rightarrow> breaker" where
  "check_timeout now b =
     (if cb_state b = OPEN then
        (case last_failure_time b of
           None \<Rightarrow> b
         | Some t \<Rightarrow> if now - t \<ge> reset_timeout b then transition_to_half_open b else b)
      else b)"

definition record_success :: "breaker \<Rightarrow> breaker" where
  "record_success b =
     (case cb_state b of
        HALF_OPEN \<Rightarrow>
          (let b' = b\<lparr>success_counter := success_counter b + 1\<rparr>
           in if success_counter b' \<ge> success_threshold b' then transition_to_closed b' else b')
      | CLOSED \<Rightarrow> if fail_counter b > 0 then b\<lparr>fail_counter := 0\<rparr> else b
      | OPEN \<Rightarrow> b)"

definition record_failure :: "rat \<Rightarrow> breaker \<Rightarrow> breaker" where
  "record_failure now b =
     (case cb_state b of
        HALF_OPEN \<Rightarrow> transition_to_open now b
      | CLOSED \<Rightarrow>
          (let b' = b\<lparr>fail_counter := fail_counter b + 1\<rparr>
           in if fail_counter b' \<ge> fail_max b' then transition_to_open now b' else b')
      | OPEN \<Rightarrow> b)"

section \<open>Admission, the call, and its release\<close>

text \<open>
  \<open>acquire_trial_or_raise\<close> returns whether the caller holds the half-open trial slot, or
  the error it raises; the breaker is returned in both cases because the timeout check runs
  first and may have moved the breaker to half-open.
\<close>

definition acquire_trial_or_raise :: "rat \<Rightarrow> breaker \<Rightarrow> (cb_error + bool) \<times> breaker" where
  "acquire_trial_or_raise now b0 =
     (let b = check_timeout now b0 in
      if cb_state b = OPEN then (Inl (BreakerOpen (cb_name b)), b)
      else if cb_state b = HALF_OPEN then
        (if half_open_trial b then (Inl (BreakerTrialInFlight (cb_name b)), b)
         else (Inr True, b\<lparr>half_open_trial := True\<rparr>))
      else (Inr False, b))"

definition release_trial :: "breaker \<Rightarrow> breaker" where
  "release_trial b = b\<lparr>half_open_trial := False\<rparr>"

text \<open>
  How the awaited coroutine ends: it returns, raises \<open>BreakerNeutralError\<close>, raises another
  \<open>Exception\<close>, or ends with a \<open>BaseException\<close> such as a cancellation, which the
  \<open>except Exception\<close> clause does not see.
\<close>

datatype ('a, 'e) outcome = Returned 'a | NeutralError 'e | Raised 'e | Aborted 'e

definition record_outcome :: "rat \<Rightarrow> ('a, 'e) outcome \<Rightarrow> breaker \<Rightarrow> breaker" where
  "record_outcome now oc b =
     (case oc of Returned _ \<Rightarrow> record_success b | NeutralError _ \<Rightarrow> b
      | Raised _ \<Rightarrow> record_failure now b | Aborted _ \<Rightarrow> b)"

definition finish_call :: "rat \<Rightarrow> bool \<Rightarrow> ('a, 'e) outcome \<Rightarrow> breaker \<Rightarrow> breaker" where
  "finish_call now holds_trial oc b =
     (let b' = record_outcome now oc b in if holds_trial then release_trial b' else b')"

datatype 'e call_error = Rejected cb_error | Propagated 'e

definition call_result :: "('a, 'e) outcome \<Rightarrow> 'e call_error + 'a" where
  "call_result oc =
     (case oc of Returned v \<Rightarrow> Inr v | NeutralError e \<Rightarrow> Inl (Propagated e)
      | Raised e \<Rightarrow> Inl (Propagated e) | Aborted e \<Rightarrow> Inl (Propagated e))"

text \<open>An uninterrupted \<open>call\<close>: the coroutine is awaited from clock \<open>now\<close> to clock \<open>now'\<close>.\<close>

definition breaker_call ::
  "rat \<Rightarrow> rat \<Rightarrow> ('a, 'e) outcome \<Rightarrow> breaker \<Rightarrow> ('e call_error + 'a) \<times> breaker" where
  "breaker_call now now' oc b =
     (case acquire_trial_or_raise now b of
        (Inl e, b1) \<Rightarrow> (Inl (Rejected e), b1)
      | (Inr holds_trial, b1) \<Rightarrow> (call_result oc, finish_call now' holds_trial oc b1))"

lemmas transition_defs =
  transition_to_open_def transition_to_half_open_def transition_to_closed_def
  reset_breaker_def release_trial_def

lemmas breaker_op_defs =
  transition_defs check_timeout_def record_success_def record_failure_def
  acquire_trial_or_raise_def record_outcome_def finish_call_def

section \<open>The breaker's invariant\<close>

definition breaker_ok :: "breaker \<Rightarrow> bool" where
  "breaker_ok b \<longleftrightarrow>
     1 \<le> fail_max b \<and> 0 < reset_timeout b \<and> 1 \<le> success_threshold b
     \<and> 0 \<le> fail_counter b \<and> fail_counter b \<le> fail_max b
     \<and> 0 \<le> success_counter b \<and> success_counter b < success_threshold b
     \<and> (cb_state b = CLOSED \<longrightarrow> fail_counter b < fail_max b \<and> success_counter b = 0)
     \<and> (cb_state b = OPEN \<longrightarrow> last_failure_time b \<noteq> None)"

lemma new_breaker_ok: "new_breaker fm rt sth nm = Inr b \<Longrightarrow> breaker_ok b"
  by (auto simp: new_breaker_def breaker_ok_def split: if_splits)

lemma check_timeout_ok [inv_intros]: "breaker_ok b \<Longrightarrow> breaker_ok (check_timeout now b)"
  by (auto simp: breaker_ok_def check_timeout_def transition_to_half_open_def split: option.splits)

lemma record_success_ok [inv_intros]: "breaker_ok b \<Longrightarrow> breaker_ok (record_success b)"
  by (auto simp: breaker_ok_def record_success_def transition_to_closed_def Let_def
      split: cb_state.splits)

lemma record_failure_ok [inv_intros]: "breaker_ok b \<Longrightarrow> breaker_ok (record_failure now b)"
  by (auto simp: breaker_ok_def record_failure_def transition_to_open_def Let_def
      split: cb_state.splits)

lemma reset_breaker_ok [inv_intros]: "breaker_ok b \<Longrightarrow> breaker_ok (reset_breaker b)"
  by (auto simp: breaker_ok_def reset_breaker_def)

lemma breaker_ok_trial [simp]: "breaker_ok (b\<lparr>half_open_trial := x\<rparr>) = breaker_ok b"
  by (simp add: breaker_ok_def)

lemma acquire_ok [inv_intros]:
  "breaker_ok b \<Longrightarrow> breaker_ok (snd (acquire_trial_or_raise now b))"
  by (simp add: acquire_trial_or_raise_def Let_def check_timeout_ok)

lemma finish_call_ok [inv_intros]: "breaker_ok b \<Longrightarrow> breaker_ok (finish_call now h oc b)"
  by (cases oc) (simp_all add: finish_call_def record_outcome_def release_trial_def Let_def
      record_success_ok record_failure_ok)

section \<open>Concurrent callers\<close>

text \<open>
  The system is the breaker, the monotonic clock and the calls in flight, each with the
  \<open>holds_trial\<close> flag its admission returned.
\<close>

record cb_system =
  brk :: breaker
  clock :: rat
  in_flight :: "(nat \<times> bool) list"

datatype cb_event = Tick rat | Begin nat | Finish nat "(unit, unit) outcome" | ResetBreaker

definition begin_call :: "nat \<Rightarrow> cb_system \<Rightarrow> cb_system" where
  "begin_call i s =
     (case acquire_trial_or_raise (clock s) (brk s) of
        (Inl _, b) \<Rightarrow> s\<lparr>brk := b\<rparr>
      | (Inr h, b) \<Rightarrow> s\<lparr>brk := b, in_flight := (i, h) # in_flight s\<rparr>)"

definition end_call :: "nat \<Rightarrow> bool \<Rightarrow> (unit, unit) outcome \<Rightarrow> cb_system \<Rightarrow> cb_system" where
  "end_call i h oc s =
     s\<lparr>brk := finish_call (clock s) h oc (brk s),
       in_flight := remove1 (i, h) (in_flight s)\<rparr>"

inductive cb_step :: "cb_system \<Rightarrow> cb_event \<Rightarrow> cb_system \<Rightarrow> bool" where
  tick: "0 \<le> d \<Longrightarrow> cb_step s (Tick d) (s\<lparr>clock := clock s + d\<rparr>)"
| begin_step: "i \<notin> fst ` set (in_flight s) \<Longrightarrow> cb_step s (Begin i) (begin_call i s)"
| finish_step: "(i, h) \<in> set (in_flight s) \<Longrightarrow> cb_step s (Finish i oc) (end_call i h oc s)"
| reset_step: "cb_step s ResetBreaker (s\<lparr>brk := reset_breaker (brk s)\<rparr>)"

inductive_cases cb_stepE: "cb_step s e t"

definition cb_init :: "breaker \<Rightarrow> rat \<Rightarrow> cb_system" where
  "cb_init b t = \<lparr>brk = b, clock = t, in_flight = []\<rparr>"

inductive cb_reachable :: "breaker \<Rightarrow> cb_system \<Rightarrow> bool" for b0 where
  init: "cb_reachable b0 (cb_init b0 t)"
| step: "cb_reachable b0 s \<Longrightarrow> cb_step s e s' \<Longrightarrow> cb_reachable b0 s'"

text \<open>The same steps as a function, to run a concrete schedule.\<close>

fun cb_exec :: "cb_system \<Rightarrow> cb_event \<Rightarrow> cb_system option" where
  "cb_exec s (Tick d) = (if 0 \<le> d then Some (s\<lparr>clock := clock s + d\<rparr>) else None)"
| "cb_exec s (Begin i) =
     (if i \<in> set (map fst (in_flight s)) then None else Some (begin_call i s))"
| "cb_exec s (Finish i oc) =
     (case map_of (in_flight s) i of None \<Rightarrow> None | Some h \<Rightarrow> Some (end_call i h oc s))"
| "cb_exec s ResetBreaker = Some (s\<lparr>brk := reset_breaker (brk s)\<rparr>)"

fun cb_run :: "cb_system \<Rightarrow> cb_event list \<Rightarrow> cb_system option" where
  "cb_run s [] = Some s"
| "cb_run s (e # es) = (case cb_exec s e of None \<Rightarrow> None | Some s' \<Rightarrow> cb_run s' es)"

lemma cb_exec_step: "cb_exec s e = Some s' \<Longrightarrow> cb_step s e s'"
  by (cases e) (auto split: if_splits option.splits intro: cb_step.intros dest: map_of_SomeD)

lemma cb_run_reachable: "cb_reachable b0 s \<Longrightarrow> cb_run s es = Some s' \<Longrightarrow> cb_reachable b0 s'"
  by (induction es arbitrary: s)
    (auto split: option.splits intro: cb_reachable.step dest: cb_exec_step)

definition trial_holders :: "cb_system \<Rightarrow> nat list" where
  "trial_holders s = map fst (filter snd (in_flight s))"

text \<open>
  What holds of every reachable system: the breaker is well formed, the last failure is not
  in the future, and a raised trial flag always belongs to a call still in flight. The last
  part is what keeps the breaker from wedging in half-open.
\<close>

definition cb_inv :: "cb_system \<Rightarrow> bool" where
  "cb_inv s \<longleftrightarrow>
     breaker_ok (brk s)
     \<and> distinct (map fst (in_flight s))
     \<and> (\<forall>t. last_failure_time (brk s) = Some t \<longrightarrow> t \<le> clock s)
     \<and> (half_open_trial (brk s) \<longrightarrow> trial_holders s \<noteq> [])"

lemma last_failure_check_timeout [simp]:
  "last_failure_time (check_timeout now b) = last_failure_time b"
  by (simp add: check_timeout_def transition_to_half_open_def split: option.splits)

lemma trial_check_timeout [simp]: "half_open_trial (check_timeout now b) = half_open_trial b"
  by (simp add: check_timeout_def transition_to_half_open_def split: option.splits)

lemma last_failure_acquire [simp]:
  "last_failure_time (snd (acquire_trial_or_raise now b)) = last_failure_time b"
  by (simp add: acquire_trial_or_raise_def Let_def)

lemma begin_call_inv:
  assumes "cb_inv s" and "i \<notin> fst ` set (in_flight s)"
  shows "cb_inv (begin_call i s)"
proof -
  have "breaker_ok (check_timeout (clock s) (brk s))"
    using assms(1) by (auto simp: cb_inv_def intro: inv_intros)
  with assms show ?thesis
    by (auto simp: cb_inv_def begin_call_def acquire_trial_or_raise_def Let_def
        trial_holders_def)
qed

lemma last_failure_finish_call:
  "last_failure_time (finish_call now h oc b) = Some t
   \<Longrightarrow> last_failure_time b = Some t \<or> t = now"
  by (cases oc)
    (auto simp: finish_call_def record_outcome_def record_success_def record_failure_def
      transition_defs Let_def split: cb_state.splits if_splits)

lemma trial_finish_call:
  "half_open_trial (finish_call now h oc b) \<Longrightarrow> \<not> h \<and> half_open_trial b"
  by (cases oc)
    (auto simp: finish_call_def record_outcome_def record_success_def record_failure_def
      transition_defs Let_def split: cb_state.splits if_splits)

lemma trial_holders_remove1_False:
  "(i, False) \<in> set xs \<Longrightarrow> filter snd (remove1 (i, False) xs) = filter snd xs"
  by (induction xs) auto

lemma end_call_inv:
  assumes "cb_inv s" and "(i, h) \<in> set (in_flight s)"
  shows "cb_inv (end_call i h oc s)"
proof -
  have "breaker_ok (finish_call (clock s) h oc (brk s))"
    using assms(1) by (auto simp: cb_inv_def intro: inv_intros)
  moreover have "distinct (map fst (remove1 (i, h) (in_flight s)))"
    using assms(1) by (auto simp: cb_inv_def distinct_map inj_on_def distinct_remove1
        dest: notin_set_remove1)
  moreover have "half_open_trial (finish_call (clock s) h oc (brk s))
      \<Longrightarrow> filter snd (remove1 (i, h) (in_flight s)) \<noteq> []"
    using assms trial_finish_call [of "clock s" h oc "brk s"]
      trial_holders_remove1_False [of i "in_flight s"]
    by (auto simp: cb_inv_def trial_holders_def)
  ultimately show ?thesis
    using assms(1) last_failure_finish_call [of "clock s" h oc "brk s"]
    by (fastforce simp: cb_inv_def end_call_def trial_holders_def)
qed

lemma cb_step_inv: "cb_step s e s' \<Longrightarrow> cb_inv s \<Longrightarrow> cb_inv s'"
proof (induction rule: cb_step.induct)
  case (tick d s)
  then show ?case by (force simp: cb_inv_def trial_holders_def)
next
  case (begin_step i s)
  then show ?case by (simp add: begin_call_inv)
next
  case (finish_step i h s oc)
  then show ?case by (simp add: end_call_inv)
next
  case (reset_step s)
  then show ?case
    by (auto simp: cb_inv_def reset_breaker_def breaker_ok_def)
qed

lemma reachable_cb_inv:
  assumes "new_breaker fm rt sth nm = Inr b0" and "cb_reachable b0 s"
  shows "cb_inv s"
  using assms(2)
proof (induction rule: cb_reachable.induct)
  case (init t)
  then show ?case
    using new_breaker_ok [OF assms(1)] assms(1)
    by (auto simp: cb_inv_def cb_init_def new_breaker_def split: if_splits)
next
  case (step s e s')
  then show ?case by (blast intro: cb_step_inv)
qed

section \<open>Properties\<close>

text \<open>
  Every state the concurrent system can reach is well formed: the counters stay within
  their thresholds, an OPEN breaker has a failure time that is not in the future, and a
  raised half-open flag belongs to a trial that is still in flight.
\<close>

theorem breaker_invariant:
  assumes "new_breaker fm rt sth nm = Inr b0" and "cb_reachable b0 s"
  shows "breaker_ok (brk s)
    \<and> (\<forall>t. last_failure_time (brk s) = Some t \<longrightarrow> t \<le> clock s)
    \<and> (half_open_trial (brk s) \<longrightarrow> trial_holders s \<noteq> [])"
  using reachable_cb_inv [OF assms] by (simp add: cb_inv_def)

definition demo_breaker :: breaker where
  "demo_breaker = \<lparr>fail_max = 1, reset_timeout = 30, success_threshold = 1,
     cb_name = ''demo'', cb_state = CLOSED, fail_counter = 0, success_counter = 0,
     last_failure_time = None, half_open_trial = False\<rparr>"

lemma demo_breaker_new: "new_breaker 1 30 1 (Some ''demo'') = Inr demo_breaker"
  by (simp add: new_breaker_def demo_breaker_def)

theorem breaker_invariant_witness:
  "\<exists>s. cb_run (cb_init demo_breaker 5) [Begin 1, Finish 1 (Raised ()), Tick 30, Begin 2] = Some s
     \<and> breaker_ok (brk s) \<and> trial_holders s \<noteq> []"
proof -
  obtain s where s: "cb_run (cb_init demo_breaker 5)
      [Begin 1, Finish 1 (Raised ()), Tick 30, Begin 2] = Some s"
    and h: "half_open_trial (brk s)"
    by (simp add: cb_init_def demo_breaker_def begin_call_def end_call_def Let_def breaker_op_defs)
  from breaker_invariant [OF demo_breaker_new cb_run_reachable [OF cb_reachable.init s]] h
  have "breaker_ok (brk s) \<and> trial_holders s \<noteq> []" by simp
  with s show ?thesis by blast
qed

text \<open>A run of failing calls, each given by the times at which it is admitted and fails.\<close>

definition failing_calls :: "'e \<Rightarrow> (rat \<times> rat) list \<Rightarrow> breaker \<Rightarrow> breaker" where
  "failing_calls e ts b =
     fold (\<lambda>(t, t') b. snd (breaker_call t t' (Raised e :: (unit, 'e) outcome) b)) ts b"

lemma failing_call_closed:
  assumes "cb_state b = CLOSED"
  shows "snd (breaker_call t t' (Raised e) b) = record_failure t' b"
  using assms by (simp add: breaker_call_def acquire_trial_or_raise_def check_timeout_def
      finish_call_def record_outcome_def Let_def)

lemma failing_calls_count:
  assumes "cb_state b = CLOSED" and "0 \<le> fail_counter b"
    and "int (length ts) + fail_counter b < fail_max b"
  shows "failing_calls e ts b = b\<lparr>fail_counter := fail_counter b + int (length ts)\<rparr>"
  using assms
proof (induction ts arbitrary: b)
  case Nil
  then show ?case by (simp add: failing_calls_def)
next
  case (Cons p ts)
  obtain t t' where p: "p = (t, t')" by (cases p)
  have step: "record_failure t' b = b\<lparr>fail_counter := fail_counter b + 1\<rparr>"
    using Cons.prems by (simp add: record_failure_def Let_def)
  show ?case
    using Cons.IH [of "b\<lparr>fail_counter := fail_counter b + 1\<rparr>"] Cons.prems
    by (simp add: failing_calls_def p failing_call_closed step algebra_simps)
qed

text \<open>
  A closed breaker tolerates exactly \<open>fail_max - 1\<close> consecutive failing calls: it stays
  CLOSED and counts them, and the \<open>fail_max\<close>-th opens it.
\<close>

theorem opens_after_fail_max:
  assumes "new_breaker fm rt sth nm = Inr b"
  shows "(int (length ts) < fm \<longrightarrow>
            cb_state (failing_calls e ts b) = CLOSED
            \<and> fail_counter (failing_calls e ts b) = int (length ts))
       \<and> (int (length ts) = fm \<longrightarrow> cb_state (failing_calls e ts b) = OPEN)"
proof -
  have b: "cb_state b = CLOSED" "fail_counter b = 0" "fail_max b = fm" "1 \<le> fm"
    using assms by (auto simp: new_breaker_def split: if_splits)
  have "cb_state (failing_calls e ts b) = OPEN" if len: "int (length ts) = fm"
  proof -
    from len b(4) obtain us t t' where us: "ts = us @ [(t, t')]"
      by (cases ts rule: rev_cases) auto
    have pre: "failing_calls e us b = b\<lparr>fail_counter := int (length us)\<rparr>"
      using failing_calls_count [of b us e] b us len by simp
    then show ?thesis
      using b us len
      by (simp add: failing_calls_def failing_call_closed record_failure_def
          transition_to_open_def Let_def)
  qed
  then show ?thesis using failing_calls_count [of b ts e] b by auto
qed

theorem opens_after_fail_max_witness:
  "cb_state (failing_calls () [(0, 1)] demo_breaker) = OPEN"
  using opens_after_fail_max [OF demo_breaker_new, of "[(0, 1)]" "()"] by simp

text \<open>
  While an OPEN breaker's timeout has not elapsed every call is rejected without running
  the coroutine and without changing the breaker; once it has elapsed the next admission is
  granted as the half-open trial unless one is already in flight.
\<close>

theorem open_breaker_gate:
  assumes "cb_state b = OPEN" and "last_failure_time b = Some t"
  shows "(now - t < reset_timeout b \<longrightarrow>
            breaker_call now now' oc b = (Inl (Rejected (BreakerOpen (cb_name b))), b))
       \<and> (now - t \<ge> reset_timeout b \<longrightarrow>
            fst (acquire_trial_or_raise now b)
            = (if half_open_trial b then Inl (BreakerTrialInFlight (cb_name b)) else Inr True))"
  using assms
  by (auto simp: breaker_call_def acquire_trial_or_raise_def check_timeout_def
      transition_to_half_open_def Let_def)

theorem open_breaker_gate_witness:
  "breaker_call 20 21 (Returned ()) (demo_breaker\<lparr>cb_state := OPEN, last_failure_time := Some 5\<rparr>)
   = (Inl (Rejected (BreakerOpen ''demo'')) :: unit call_error + unit,
      demo_breaker\<lparr>cb_state := OPEN, last_failure_time := Some 5\<rparr>)"
  using open_breaker_gate [of "demo_breaker\<lparr>cb_state := OPEN, last_failure_time := Some 5\<rparr>" 5 20 21
      "Returned () :: (unit, unit) outcome"]
  by (simp add: demo_breaker_def)

text \<open>
  The breaker never wedges: from every reachable state in which no call is in flight, a
  caller that arrives once \<open>reset_timeout\<close> has passed is admitted.
\<close>

theorem breaker_recovers:
  assumes "new_breaker fm rt sth nm = Inr b0" and "cb_reachable b0 s" and "in_flight s = []"
    and "reset_timeout (brk s) \<le> d"
  shows "\<exists>h. in_flight (begin_call i (s\<lparr>clock := clock s + d\<rparr>)) = [(i, h)]"
proof -
  have inv: "cb_inv s" using reachable_cb_inv [OF assms(1,2)] .
  then have "\<not> half_open_trial (brk s)"
    using assms(3) by (auto simp: cb_inv_def trial_holders_def)
  moreover have "\<exists>t. last_failure_time (brk s) = Some t \<and> t \<le> clock s"
    if "cb_state (brk s) = OPEN"
    using inv that by (auto simp: cb_inv_def breaker_ok_def)
  ultimately show ?thesis
    using assms(3,4)
    by (cases "cb_state (brk s)")
      (auto simp: begin_call_def acquire_trial_or_raise_def check_timeout_def
        transition_to_half_open_def Let_def)
qed

theorem breaker_recovers_witness:
  "\<exists>h. in_flight (begin_call 7 (cb_init demo_breaker 5\<lparr>clock := clock (cb_init demo_breaker 5) + 40\<rparr>))
       = [(7, h)]"
  by (rule breaker_recovers [OF demo_breaker_new cb_reachable.init])
    (simp_all add: cb_init_def demo_breaker_def)

text \<open>
  A call admitted while CLOSED may still be in flight when the breaker is half-open, and its
  outcome is then recorded as if it were the trial's. Runs without such stragglers (and
  without \<open>reset\<close> under load, which the method's documentation excludes) admit one trial at
  a time.
\<close>

definition calm_event :: "cb_system \<Rightarrow> cb_event \<Rightarrow> bool" where
  "calm_event s e =
     (case e of
        Finish i _ \<Rightarrow> cb_state (brk s) = HALF_OPEN \<longrightarrow> (i, True) \<in> set (in_flight s)
      | ResetBreaker \<Rightarrow> in_flight s = []
      | _ \<Rightarrow> True)"

inductive calm_reachable :: "breaker \<Rightarrow> cb_system \<Rightarrow> bool" for b0 where
  calm_init: "calm_reachable b0 (cb_init b0 t)"
| calm_step:
    "calm_reachable b0 s \<Longrightarrow> cb_step s e s' \<Longrightarrow> calm_event s e \<Longrightarrow> calm_reachable b0 s'"

definition one_trial :: "cb_system \<Rightarrow> bool" where
  "one_trial s \<longleftrightarrow>
     distinct (map fst (in_flight s)) \<and> length (trial_holders s) \<le> 1
     \<and> (trial_holders s \<noteq> [] \<longrightarrow> cb_state (brk s) = HALF_OPEN \<and> half_open_trial (brk s))"

lemma one_trial_begin:
  assumes "one_trial s" and "i \<notin> fst ` set (in_flight s)"
  shows "one_trial (begin_call i s)"
  using assms
  by (auto simp: one_trial_def begin_call_def acquire_trial_or_raise_def check_timeout_def
      transition_to_half_open_def trial_holders_def Let_def split: option.splits)

lemma filter_snd_remove1_True:
  "(i, True) \<in> set xs \<Longrightarrow> length (filter snd xs) \<le> Suc 0 \<Longrightarrow> filter snd (remove1 (i, True) xs) = []"
proof (induction xs)
  case Nil
  then show ?case by simp
next
  case (Cons x xs)
  show ?case
  proof (cases "snd x")
    case True
    with Cons.prems have "filter snd xs = []" by simp
    then have "(i, True) \<notin> set xs" by (auto simp: filter_empty_conv)
    with Cons.prems \<open>filter snd xs = []\<close> show ?thesis by auto
  next
    case False
    with Cons show ?thesis by auto
  qed
qed

lemma one_trial_finish:
  assumes "one_trial s" and "(i, h) \<in> set (in_flight s)" and "calm_event s (Finish i oc)"
  shows "one_trial (end_call i h oc s)"
proof (cases h)
  case True
  then have "filter snd (remove1 (i, h) (in_flight s)) = []"
    using assms filter_snd_remove1_True [of i "in_flight s"]
    by (simp add: one_trial_def trial_holders_def)
  then show ?thesis
    using assms(1) by (auto simp: one_trial_def end_call_def trial_holders_def distinct_map
        inj_on_def distinct_remove1 dest: notin_set_remove1)
next
  case False
  have "cb_state (brk s) \<noteq> HALF_OPEN"
  proof
    assume "cb_state (brk s) = HALF_OPEN"
    with assms(3) have "(i, True) \<in> set (in_flight s)" by (simp add: calm_event_def)
    with assms(1,2) False show False
      using distinct_key_eq [of fst "in_flight s" "(i, True)" "(i, False)"]
      by (simp add: one_trial_def)
  qed
  then have "trial_holders s = []" using assms(1) by (auto simp: one_trial_def)
  then have "trial_holders (end_call i h oc s) = []"
    using False assms(2) trial_holders_remove1_False [of i "in_flight s"]
    by (simp add: trial_holders_def end_call_def)
  then show ?thesis
    using assms(1) by (auto simp: one_trial_def end_call_def distinct_map inj_on_def
        distinct_remove1 dest: notin_set_remove1)
qed

lemma one_trial_step: "cb_step s e s' \<Longrightarrow> calm_event s e \<Longrightarrow> one_trial s \<Longrightarrow> one_trial s'"
proof (induction rule: cb_step.induct)
  case (tick d s)
  then show ?case by (simp add: one_trial_def trial_holders_def)
next
  case (begin_step i s)
  then show ?case by (simp add: one_trial_begin)
next
  case (finish_step i h s oc)
  then show ?case by (simp add: one_trial_finish)
next
  case (reset_step s)
  then show ?case by (simp add: one_trial_def trial_holders_def calm_event_def)
qed

text \<open>
  Without stragglers, at most one half-open trial is in flight in every reachable state.
\<close>

theorem single_half_open_trial:
  assumes "calm_reachable b0 s"
  shows "length (trial_holders s) \<le> 1"
proof -
  have "one_trial s"
    using assms
  proof (induction rule: calm_reachable.induct)
    case (calm_init t)
    then show ?case by (simp add: one_trial_def cb_init_def trial_holders_def)
  next
    case (calm_step s e s')
    then show ?case by (blast intro: one_trial_step)
  qed
  then show ?thesis by (simp add: one_trial_def)
qed

theorem single_half_open_trial_witness:
  "length (trial_holders (begin_call 3 (cb_init demo_breaker 5))) \<le> 1"
  by (rule single_half_open_trial, rule calm_reachable.calm_step [OF calm_reachable.calm_init])
    (auto intro!: cb_step.begin_step simp: cb_init_def calm_event_def)

text \<open>A run with a straggler, starting from a breaker of threshold one.\<close>

definition straggler_run :: "cb_event list" where
  "straggler_run =
     [Begin 1, Begin 2, Finish 1 (Raised ()), Tick 30, Begin 3, Finish 2 (Returned ()),
      Begin 4, Finish 4 (Raised ()), Tick 30, Begin 5, Finish 3 (NeutralError ()), Begin 6]"

text \<open>
  With a straggler the documented bound fails: calls 1 and 2 are admitted while CLOSED,
  call 1 fails and opens the breaker, call 3 takes the half-open trial, the straggler 2
  succeeds and closes the breaker, call 4 opens it again, call 5 takes the next trial, and
  when call 3 ends it clears the flag that call 5 holds, so call 6 becomes a second
  concurrent trial.
\<close>

theorem two_concurrent_trials:
  "\<exists>s. cb_reachable demo_breaker s \<and> trial_holders s = [6, 5]"
proof -
  obtain s where s: "cb_run (cb_init demo_breaker 0) straggler_run = Some s"
    and h: "trial_holders s = [6, 5]"
    by (simp add: straggler_run_def cb_init_def demo_breaker_def trial_holders_def
        begin_call_def end_call_def Let_def breaker_op_defs)
  from s have "cb_reachable demo_breaker s" by (rule cb_run_reachable [OF cb_reachable.init])
  with h show ?thesis by blast
qed

end
