(* ===== verification/Job_Lease.thy ===== *)
theory Job_Lease
  imports Prelude Fencing
begin

text \<open>
  \<^verbatim>\<open>backend/app/services/job_lease.py\<close>: the lease primitive behind every background
  queue. A \<open>jobs\<close> (or \<open>draft_jobs\<close>) row is the record \<open>job\<close>; every method is one SQL
  statement inside \<open>BEGIN IMMEDIATE\<close>, hence one function from table to table. The clock
  \<open>now\<close> is in milliseconds: \<open>CURRENT_TIMESTAMP\<close> and \<open>datetime('now', ..)\<close> truncate it to
  seconds, \<open>strftime('%f')\<close> keeps the milliseconds. Timeouts are in milliseconds too.
\<close>

section \<open>Rows and shapes\<close>

datatype job_status = JPending | JRunning | JCompleted | JFailed | JCancelled

definition terminal :: "job_status \<Rightarrow> bool" where
  "terminal st \<longleftrightarrow> st = JCompleted \<or> st = JFailed \<or> st = JCancelled"

type_synonym json_obj = "string \<rightharpoonup> string"

record job =
  job_id :: nat
  job_queue :: string
  payload :: json_obj
  job_status :: job_status
  worker_id :: "string option"
  lease_generation :: nat
  attempts :: nat
  run_after :: "int option"
  job_error :: "string option"
  job_result :: json_obj
  created_at :: int
  started_at :: "int option"
  heartbeat_at :: "int option"
  completed_at :: "int option"
  progress_at :: "int option"

record jobs_table =
  rows :: "job list"
  next_id :: nat

record table_shape =
  has_run_after :: bool
  supports_enqueue :: bool
  reclaim_clears_started :: bool
  has_progress :: bool

definition jobs_shape :: table_shape where
  "jobs_shape = \<lparr>has_run_after = True, supports_enqueue = True,
     reclaim_clears_started = True, has_progress = True\<rparr>"

definition draft_jobs_shape :: table_shape where
  "draft_jobs_shape = \<lparr>has_run_after = False, supports_enqueue = False,
     reclaim_clears_started = False, has_progress = False\<rparr>"

datatype claim_order = ById | ByCreatedThenId
datatype claim_started = FreshStart | KeepStart

record lease =
  shape :: table_shape
  reclaim_timeout :: int
  max_attempts :: "int option"
  order :: claim_order
  start_mode :: claim_started
  stall_timeout :: "int option"

datatype lease_error = UnsupportedTable string | NoPayloadColumn | NoRunAfterColumn

text \<open>\<open>JobLease.__init__\<close>: only an allowlisted table yields a lease object.\<close>

definition new_lease ::
  "string \<Rightarrow> int \<Rightarrow> int option \<Rightarrow> claim_order \<Rightarrow> claim_started \<Rightarrow> int option
   \<Rightarrow> lease_error + lease" where
  "new_lease table timeout cap ord sm stall =
     (case (if table = ''jobs'' then Some jobs_shape
            else if table = ''draft_jobs'' then Some draft_jobs_shape else None) of
        None \<Rightarrow> Inl (UnsupportedTable table)
      | Some sh \<Rightarrow> Inr \<lparr>shape = sh, reclaim_timeout = timeout, max_attempts = cap,
                       order = ord, start_mode = sm, stall_timeout = stall\<rparr>)"

definition secs :: "int \<Rightarrow> int" where
  "secs now = now div 1000"

section \<open>Enqueue\<close>

definition fresh_job :: "nat \<Rightarrow> int \<Rightarrow> string \<Rightarrow> json_obj \<Rightarrow> int option \<Rightarrow> job" where
  "fresh_job i now q p ra =
     \<lparr>job_id = i, job_queue = q, payload = p, job_status = JPending, worker_id = None,
      lease_generation = 0, attempts = 0, run_after = ra, job_error = None,
      job_result = Map.empty, created_at = secs now, started_at = None, heartbeat_at = None,
      completed_at = None, progress_at = None\<rparr>"

definition insert_job :: "int \<Rightarrow> string \<Rightarrow> json_obj \<Rightarrow> int option \<Rightarrow> jobs_table \<Rightarrow> jobs_table" where
  "insert_job now q p ra t =
     t\<lparr>rows := rows t @ [fresh_job (next_id t) now q p ra], next_id := Suc (next_id t)\<rparr>"

definition enqueue ::
  "lease \<Rightarrow> int \<Rightarrow> string \<Rightarrow> json_obj \<Rightarrow> int option \<Rightarrow> jobs_table
   \<Rightarrow> (lease_error + nat) \<times> jobs_table" where
  "enqueue l now q p ra t =
     (if \<not> supports_enqueue (shape l) then (Inl NoPayloadColumn, t)
      else (Inr (next_id t), insert_job now q p ra t))"

definition active :: "job \<Rightarrow> bool" where
  "active r \<longleftrightarrow> job_status r = JPending \<or> job_status r = JRunning"

definition same_path :: "string \<Rightarrow> string \<Rightarrow> job \<Rightarrow> bool" where
  "same_path q pk r \<longleftrightarrow> job_queue r = q \<and> active r \<and> payload r ''path_key'' = Some pk"

definition enqueue_deduped ::
  "lease \<Rightarrow> int \<Rightarrow> string \<Rightarrow> json_obj \<Rightarrow> string \<Rightarrow> jobs_table
   \<Rightarrow> (lease_error + nat option) \<times> jobs_table" where
  "enqueue_deduped l now q p pk t =
     (if \<not> supports_enqueue (shape l) then (Inl NoPayloadColumn, t)
      else if \<exists>r \<in> set (rows t). same_path q pk r then (Inr None, t)
      else (Inr (Some (next_id t)), insert_job now q p None t))"

section \<open>Claim\<close>

definition claimable :: "lease \<Rightarrow> int \<Rightarrow> string \<Rightarrow> job \<Rightarrow> bool" where
  "claimable l now q r \<longleftrightarrow>
     job_queue r = q \<and> job_status r = JPending
     \<and> (has_run_after (shape l) \<longrightarrow>
          (case run_after r of None \<Rightarrow> True | Some t \<Rightarrow> t \<le> secs now))"

definition claim_candidates :: "lease \<Rightarrow> int \<Rightarrow> string \<Rightarrow> jobs_table \<Rightarrow> job list" where
  "claim_candidates l now q t =
     (let by_id = sort_key job_id (filter (claimable l now q) (rows t))
      in case order l of ById \<Rightarrow> by_id | ByCreatedThenId \<Rightarrow> sort_key created_at by_id)"

definition claimed_row :: "lease \<Rightarrow> int \<Rightarrow> string \<Rightarrow> job \<Rightarrow> job" where
  "claimed_row l now w r =
     r\<lparr>job_status := JRunning, worker_id := Some w,
       lease_generation := lease_generation r + 1, attempts := attempts r + 1,
       started_at := (case start_mode l of FreshStart \<Rightarrow> Some (secs now)
                      | KeepStart \<Rightarrow> (case started_at r of None \<Rightarrow> Some (secs now)
                                     | Some s \<Rightarrow> Some s)),
       heartbeat_at := Some (secs now),
       progress_at := (if has_progress (shape l) then Some now else progress_at r)\<rparr>"

definition claim ::
  "lease \<Rightarrow> int \<Rightarrow> string \<Rightarrow> string \<Rightarrow> jobs_table \<Rightarrow> job option \<times> jobs_table" where
  "claim l now q w t =
     (case claim_candidates l now q t of
        [] \<Rightarrow> (None, t)
      | c # _ \<Rightarrow>
          (let p = (\<lambda>r. job_id r = job_id c \<and> job_status r = JPending)
           in (map_option (claimed_row l now w) (find p (rows t)),
               t\<lparr>rows := update_rows p (claimed_row l now w) (rows t)\<rparr>)))"

definition attempts_of :: "nat \<Rightarrow> jobs_table \<Rightarrow> nat option" where
  "attempts_of i t = map_option attempts (find (\<lambda>r. job_id r = i) (rows t))"

section \<open>Fenced writes\<close>

text \<open>Every write of a worker carries the guard \<open>id = ? AND worker_id = ? AND status = 'running'\<close>.\<close>

definition holds_lease :: "nat \<Rightarrow> string \<Rightarrow> job \<Rightarrow> bool" where
  "holds_lease i w r \<longleftrightarrow> job_id r = i \<and> worker_id r = Some w \<and> job_status r = JRunning"

definition fenced_write ::
  "nat \<Rightarrow> string \<Rightarrow> (job \<Rightarrow> job) \<Rightarrow> jobs_table \<Rightarrow> bool \<times> jobs_table" where
  "fenced_write i w f t =
     (rowcount (holds_lease i w) (rows t) > 0,
      t\<lparr>rows := update_rows (holds_lease i w) f (rows t)\<rparr>)"

definition heartbeat :: "int \<Rightarrow> nat \<Rightarrow> string \<Rightarrow> jobs_table \<Rightarrow> bool \<times> jobs_table" where
  "heartbeat now i w = fenced_write i w (\<lambda>r. r\<lparr>heartbeat_at := Some (secs now)\<rparr>)"

definition complete ::
  "int \<Rightarrow> nat \<Rightarrow> string \<Rightarrow> json_obj option \<Rightarrow> jobs_table \<Rightarrow> bool \<times> jobs_table" where
  "complete now i w res =
     fenced_write i w (\<lambda>r. r\<lparr>job_status := JCompleted,
       job_result := (case res of None \<Rightarrow> Map.empty | Some m \<Rightarrow> m),
       completed_at := Some (secs now), heartbeat_at := Some (secs now)\<rparr>)"

definition fail_job :: "int \<Rightarrow> nat \<Rightarrow> string \<Rightarrow> string \<Rightarrow> jobs_table \<Rightarrow> bool \<times> jobs_table" where
  "fail_job now i w e =
     fenced_write i w (\<lambda>r. r\<lparr>job_status := JFailed, job_error := Some e,
       completed_at := Some (secs now), heartbeat_at := Some (secs now)\<rparr>)"

definition cancel :: "int \<Rightarrow> nat \<Rightarrow> string \<Rightarrow> string \<Rightarrow> jobs_table \<Rightarrow> bool \<times> jobs_table" where
  "cancel now i w reason =
     fenced_write i w (\<lambda>r. r\<lparr>job_status := JCancelled, job_error := Some reason,
       completed_at := Some (secs now), heartbeat_at := Some (secs now)\<rparr>)"

definition requeue ::
  "lease \<Rightarrow> int \<Rightarrow> nat \<Rightarrow> string \<Rightarrow> int option \<Rightarrow> string option \<Rightarrow> jobs_table
   \<Rightarrow> (lease_error + bool) \<times> jobs_table" where
  "requeue l now i w delay e t =
     (if delay \<noteq> None \<and> \<not> has_run_after (shape l) then (Inl NoRunAfterColumn, t)
      else
        (let (b, t') = fenced_write i w (\<lambda>r. r\<lparr>job_status := JPending, worker_id := None,
               job_error := e,
               run_after := (if has_run_after (shape l)
                             then map_option (\<lambda>d. secs (now + d)) delay else run_after r),
               heartbeat_at := None\<rparr>) t
         in (Inr b, t')))"

definition release :: "nat \<Rightarrow> string \<Rightarrow> jobs_table \<Rightarrow> bool \<times> jobs_table" where
  "release i w =
     fenced_write i w (\<lambda>r. r\<lparr>job_status := JPending, worker_id := None,
       lease_generation := lease_generation r + 1, attempts := attempts r - 1,
       heartbeat_at := None\<rparr>)"

section \<open>The janitor\<close>

definition expired :: "lease \<Rightarrow> int \<Rightarrow> job \<Rightarrow> bool" where
  "expired l now r \<longleftrightarrow>
     (case heartbeat_at r of None \<Rightarrow> False
      | Some h \<Rightarrow> h < secs (now - reclaim_timeout l))
     \<or> (case stall_timeout l of None \<Rightarrow> False
        | Some st \<Rightarrow> has_progress (shape l)
            \<and> (case progress_at r of None \<Rightarrow> False | Some p \<Rightarrow> p < now - st))"

definition over_cap :: "lease \<Rightarrow> job \<Rightarrow> bool" where
  "over_cap l r \<longleftrightarrow>
     (case max_attempts l of None \<Rightarrow> False | Some m \<Rightarrow> int (attempts r) \<ge> m)"

definition reclaimed_row :: "lease \<Rightarrow> int \<Rightarrow> job \<Rightarrow> job" where
  "reclaimed_row l now r =
     r\<lparr>job_status := (if over_cap l r then JFailed else JPending),
       job_error := (if over_cap l r then
                       (case job_error r of None \<Rightarrow> Some ''lease_attempt_cap_exceeded''
                        | Some e \<Rightarrow> if e = '''' then Some ''lease_attempt_cap_exceeded''
                                   else Some e)
                     else job_error r),
       worker_id := None,
       lease_generation := lease_generation r + 1,
       started_at := (if reclaim_clears_started (shape l) then None else started_at r),
       completed_at := (if over_cap l r then Some (secs now) else completed_at r),
       heartbeat_at := None\<rparr>"

definition in_reclaim_scope :: "lease \<Rightarrow> int \<Rightarrow> string option \<Rightarrow> job \<Rightarrow> bool" where
  "in_reclaim_scope l now q r \<longleftrightarrow>
     job_queue r = (case q of None \<Rightarrow> job_queue r | Some q' \<Rightarrow> q')
     \<and> job_status r = JRunning \<and> expired l now r"

definition reclaim_expired ::
  "lease \<Rightarrow> int \<Rightarrow> string option \<Rightarrow> jobs_table \<Rightarrow> nat \<times> jobs_table" where
  "reclaim_expired l now q t =
     (rowcount (in_reclaim_scope l now q) (rows t),
      t\<lparr>rows := update_rows (in_reclaim_scope l now q) (reclaimed_row l now) (rows t)\<rparr>)"

section \<open>Sequences of operations\<close>

text \<open>
  Workers, producers and the janitor interleave at statement granularity. An operation is
  one method call with the lease object it goes through; a run is a list of operations,
  each with the clock reading it makes.
\<close>

datatype lease_op =
    Enqueue string json_obj "int option"
  | EnqueueDeduped string json_obj string
  | Claim string string
  | Heartbeat nat string
  | Complete nat string "json_obj option"
  | FailJob nat string string
  | Cancel nat string string
  | Requeue nat string "int option" "string option"
  | Release nat string
  | Reclaim "string option"

fun lease_exec :: "lease \<Rightarrow> int \<Rightarrow> lease_op \<Rightarrow> jobs_table \<Rightarrow> jobs_table" where
  "lease_exec l now (Enqueue q p ra) t = snd (enqueue l now q p ra t)"
| "lease_exec l now (EnqueueDeduped q p pk) t = snd (enqueue_deduped l now q p pk t)"
| "lease_exec l now (Claim q w) t = snd (claim l now q w t)"
| "lease_exec l now (Heartbeat i w) t = snd (heartbeat now i w t)"
| "lease_exec l now (Complete i w res) t = snd (complete now i w res t)"
| "lease_exec l now (FailJob i w e) t = snd (fail_job now i w e t)"
| "lease_exec l now (Cancel i w e) t = snd (cancel now i w e t)"
| "lease_exec l now (Requeue i w d e) t = snd (requeue l now i w d e t)"
| "lease_exec l now (Release i w) t = snd (release i w t)"
| "lease_exec l now (Reclaim q) t = snd (reclaim_expired l now q t)"

type_synonym lease_run = "(lease \<times> int \<times> lease_op) list"

fun lease_run :: "lease_run \<Rightarrow> jobs_table \<Rightarrow> jobs_table" where
  "lease_run [] t = t"
| "lease_run ((l, now, x) # xs) t = lease_run xs (lease_exec l now x t)"

lemma lease_run_append: "lease_run (xs @ ys) t = lease_run ys (lease_run xs t)"
  by (induction xs arbitrary: t) auto

definition empty_jobs :: jobs_table where
  "empty_jobs = \<lparr>rows = [], next_id = 1\<rparr>"

subsection \<open>Every operation is an insertion or a guarded update\<close>

lemma claim_is_update:
  "snd (claim l now q w t) = t \<or>
   (\<exists>c \<in> set (rows t). claimable l now q c \<and>
      snd (claim l now q w t)
      = t\<lparr>rows := update_rows (\<lambda>r. job_id r = job_id c \<and> job_status r = JPending)
            (claimed_row l now w) (rows t)\<rparr>)"
proof (cases "claim_candidates l now q t")
  case Nil
  then show ?thesis by (simp add: claim_def)
next
  case (Cons c cs)
  then have "c \<in> set (claim_candidates l now q t)" by simp
  then have "c \<in> set (rows t)" and "claimable l now q c"
    by (auto simp: claim_candidates_def Let_def split: claim_order.splits)
  with Cons show ?thesis by (auto simp: claim_def Let_def)
qed

text \<open>
  A row of the table after an operation is a new pending row, an untouched row, or the image
  of a row that was pending or running. Most invariants need no more than this.
\<close>

definition step_image :: "lease \<Rightarrow> int \<Rightarrow> lease_op \<Rightarrow> job \<Rightarrow> job set" where
  "step_image l now x r = {r} \<union>
     (case x of
        Claim q w \<Rightarrow> {r'. claimable l now q r \<and> r' = claimed_row l now w r}
      | Reclaim q \<Rightarrow> {r'. in_reclaim_scope l now q r \<and> r' = reclaimed_row l now r}
      | Heartbeat i w \<Rightarrow> {r'. holds_lease i w r \<and> r' = r\<lparr>heartbeat_at := Some (secs now)\<rparr>}
      | Complete i w res \<Rightarrow> {r'. holds_lease i w r \<and>
          (\<exists>m c h. r' = r\<lparr>job_status := JCompleted, job_result := m, completed_at := c,
                          heartbeat_at := h\<rparr>)}
      | FailJob i w e \<Rightarrow> {r'. holds_lease i w r \<and>
          (\<exists>c h. r' = r\<lparr>job_status := JFailed, job_error := Some e, completed_at := c,
                          heartbeat_at := h\<rparr>)}
      | Cancel i w e \<Rightarrow> {r'. holds_lease i w r \<and>
          (\<exists>c h. r' = r\<lparr>job_status := JCancelled, job_error := Some e, completed_at := c,
                          heartbeat_at := h\<rparr>)}
      | Requeue i w d e \<Rightarrow> {r'. holds_lease i w r \<and>
          r' = r\<lparr>job_status := JPending, worker_id := None, job_error := e,
                 run_after := (if has_run_after (shape l)
                               then map_option (\<lambda>d. secs (now + d)) d else run_after r),
                 heartbeat_at := None\<rparr>}
      | Release i w \<Rightarrow> {r'. holds_lease i w r \<and>
          r' = r\<lparr>job_status := JPending, worker_id := None,
                 lease_generation := lease_generation r + 1, attempts := attempts r - 1,
                 heartbeat_at := None\<rparr>}
      | _ \<Rightarrow> {})"

lemmas fenced_defs = heartbeat_def complete_def fail_job_def cancel_def requeue_def release_def
  fenced_write_def

lemma Claim_exec_cases:
  assumes "distinct (map job_id (rows t))"
  obtains "lease_exec l now (Claim q w) t = t"
  | c where "c \<in> set (rows t)" "claimable l now q c"
      "lease_exec l now (Claim q w) t
       = t\<lparr>rows := update_rows (\<lambda>r. r = c) (claimed_row l now w) (rows t)\<rparr>"
proof -
  have "update_rows (\<lambda>r. job_id r = job_id c \<and> job_status r = JPending) f (rows t)
        = update_rows (\<lambda>r. r = c) f (rows t)"
    if "c \<in> set (rows t)" "claimable l now q c" for c f
    using that distinct_key_eq [OF assms] unfolding update_rows_def claimable_def
    by (intro map_cong) auto
  with claim_is_update [of l now q w t] that show thesis by auto
qed

definition inserted :: "lease_op \<Rightarrow> job \<Rightarrow> bool" where
  "inserted x r \<longleftrightarrow>
     (case x of Enqueue q p ra \<Rightarrow> job_queue r = q \<and> payload r = p
      | EnqueueDeduped q p pk \<Rightarrow> job_queue r = q \<and> payload r = p
      | _ \<Rightarrow> False)
     \<and> job_status r = JPending \<and> worker_id r = None \<and> heartbeat_at r = None
     \<and> lease_generation r = 0 \<and> attempts r = 0"

lemma lease_exec_cases:
  assumes "distinct (map job_id (rows t))"
  shows "(\<exists>r. inserted x r \<and> job_id r = next_id t
             \<and> lease_exec l now x t = \<lparr>rows = rows t @ [r], next_id = Suc (next_id t)\<rparr>)
       \<or> (\<exists>f. (\<forall>r \<in> set (rows t). f r \<in> step_image l now x r)
             \<and> lease_exec l now x t = t\<lparr>rows := map f (rows t)\<rparr>)"
proof -
  have id: "\<exists>f. (\<forall>r \<in> set (rows t). f r \<in> step_image l now x r) \<and> t = t\<lparr>rows := map f (rows t)\<rparr>"
    by (rule exI [of _ id]) (simp add: step_image_def)
  have upd: "\<exists>f. (\<forall>r \<in> set (rows t). f r \<in> step_image l now x r)
        \<and> t\<lparr>rows := update_rows p g (rows t)\<rparr> = t\<lparr>rows := map f (rows t)\<rparr>"
    if "\<And>r. r \<in> set (rows t) \<Longrightarrow> p r \<Longrightarrow> g r \<in> step_image l now x r" for x p g
    by (rule exI [of _ "\<lambda>r. if p r then g r else r"])
      (use that in \<open>auto simp: update_rows_def step_image_def\<close>)
  have ins: "\<exists>r. inserted x r \<and> job_id r = next_id t
             \<and> insert_job now q p ra t = \<lparr>rows = rows t @ [r], next_id = Suc (next_id t)\<rparr>"
    if "x = Enqueue q p ra \<or> (\<exists>pk. x = EnqueueDeduped q p pk)" for q p ra
    by (rule exI [of _ "fresh_job (next_id t) now q p ra"])
      (use that in \<open>auto simp: insert_job_def inserted_def fresh_job_def\<close>)
  show ?thesis
  proof (cases x)
    case (Enqueue q p ra)
    then show ?thesis using id ins by (simp add: enqueue_def)
  next
    case (EnqueueDeduped q p pk)
    then show ?thesis using id ins by (auto simp add: enqueue_deduped_def)
  next
    case (Claim q w)
    show ?thesis
    proof (rule Claim_exec_cases [OF assms, of l now q w])
      assume "lease_exec l now (Claim q w) t = t"
      with id show ?thesis by (simp only: Claim) blast
    next
      fix c
      assume c: "claimable l now q c"
        and e: "lease_exec l now (Claim q w) t
            = t\<lparr>rows := update_rows (\<lambda>r. r = c) (claimed_row l now w) (rows t)\<rparr>"
      show ?thesis unfolding Claim e
        by (rule disjI2, rule upd) (use c in \<open>simp add: step_image_def\<close>)
    qed
  next
    case (Reclaim q)
    show ?thesis
      unfolding Reclaim lease_exec.simps reclaim_expired_def snd_conv
      by (intro disjI2 upd) (simp add: step_image_def)
  next
    case (Requeue i w d e)
    show ?thesis
    proof (cases "d \<noteq> None \<and> \<not> has_run_after (shape l)")
      case True
      then have "lease_exec l now x t = t" by (simp add: Requeue requeue_def)
      with id show ?thesis by (simp only:) blast
    next
      case False
      then show ?thesis
        unfolding Requeue lease_exec.simps requeue_def fenced_write_def if_not_P [OF False] Let_def
          prod.case snd_conv
        by (intro disjI2 upd) (auto simp: step_image_def)
    qed
  qed (simp only: lease_exec.simps fenced_defs snd_conv,
      intro disjI2 upd, force simp: step_image_def)+
qed

lemma step_image_key: "r' \<in> step_image l now x r \<Longrightarrow>
    job_id r' = job_id r \<and> job_queue r' = job_queue r \<and> payload r' = payload r
    \<and> created_at r' = created_at r"
  by (cases x) (auto simp: step_image_def claimed_row_def reclaimed_row_def)

section \<open>Ownership invariant\<close>

text \<open>
  Ids are unique and below the autoincrement counter, a running row has an owner and a
  heartbeat, and a pending row has neither.
\<close>

definition row_owned :: "job \<Rightarrow> bool" where
  "row_owned r \<longleftrightarrow>
     (job_status r = JRunning \<longrightarrow> worker_id r \<noteq> None \<and> heartbeat_at r \<noteq> None)
     \<and> (job_status r = JPending \<longrightarrow> worker_id r = None \<and> heartbeat_at r = None)"

definition lease_inv :: "jobs_table \<Rightarrow> bool" where
  "lease_inv t \<longleftrightarrow>
     distinct (map job_id (rows t))
     \<and> (\<forall>r \<in> set (rows t). job_id r < next_id t \<and> row_owned r)"

lemma empty_jobs_inv: "lease_inv empty_jobs"
  by (simp add: lease_inv_def empty_jobs_def)

lemma step_image_owned: "row_owned r \<Longrightarrow> r' \<in> step_image l now x r \<Longrightarrow> row_owned r'"
  by (cases x)
    (auto simp: step_image_def row_owned_def claimed_row_def reclaimed_row_def holds_lease_def
      split: if_splits)

lemma lease_exec_inv [inv_intros]:
  assumes "lease_inv t"
  shows "lease_inv (lease_exec l now x t)"
proof -
  have d: "distinct (map job_id (rows t))" using assms by (simp add: lease_inv_def)
  from lease_exec_cases [OF d, of x l now] show ?thesis
  proof (elim disjE exE conjE)
    fix r
    assume "inserted x r" "job_id r = next_id t"
      and e: "lease_exec l now x t = \<lparr>rows = rows t @ [r], next_id = Suc (next_id t)\<rparr>"
    then show ?thesis
      using assms by (auto simp: lease_inv_def inserted_def row_owned_def less_Suc_eq)
  next
    fix f
    assume f: "\<forall>r \<in> set (rows t). f r \<in> step_image l now x r"
      and e: "lease_exec l now x t = t\<lparr>rows := map f (rows t)\<rparr>"
    have "map (job_id \<circ> f) (rows t) = map job_id (rows t)"
      using f step_image_key by (intro map_cong) auto
    moreover have "job_id (f r) < next_id t \<and> row_owned (f r)" if "r \<in> set (rows t)" for r
      using that f assms step_image_key [of "f r" l now x r] step_image_owned [of r "f r" l now x]
      by (simp add: lease_inv_def)
    ultimately show ?thesis
      using d unfolding lease_inv_def e by (simp del: map_eq_conv)
  qed
qed

lemma lease_run_inv: "lease_inv t \<Longrightarrow> lease_inv (lease_run xs t)"
  by (induction xs t rule: lease_run.induct) (simp_all add: lease_exec_inv)

text \<open>
  C32 A job is never running while owned by nothing: whatever enqueues, claims, heartbeats,
  settles, requeues, releases and janitor passes have run, every running row carries a
  worker and a heartbeat, every pending row carries neither, and ids stay unique.
\<close>

theorem lease_ownership_invariant:
  "lease_inv (lease_run xs empty_jobs)"
  by (rule lease_run_inv [OF empty_jobs_inv])

section \<open>Fencing\<close>

datatype write_kind =
    WHeartbeat
  | WComplete "json_obj option"
  | WFail string
  | WCancel string
  | WRequeue "int option" "string option"
  | WRelease

fun worker_write ::
  "lease \<times> int \<times> write_kind \<Rightarrow> nat \<Rightarrow> string \<Rightarrow> jobs_table \<Rightarrow> bool \<times> jobs_table" where
  "worker_write (l, now, WHeartbeat) i w t = heartbeat now i w t"
| "worker_write (l, now, WComplete res) i w t = complete now i w res t"
| "worker_write (l, now, WFail e) i w t = fail_job now i w e t"
| "worker_write (l, now, WCancel e) i w t = cancel now i w e t"
| "worker_write (l, now, WRequeue d e) i w t =
     (case requeue l now i w d e t of (Inl _, t') \<Rightarrow> (False, t') | (Inr b, t') \<Rightarrow> (b, t'))"
| "worker_write (l, now, WRelease) i w t = release i w t"

definition leased_to :: "jobs_table \<Rightarrow> nat \<Rightarrow> string \<Rightarrow> bool" where
  "leased_to t i w \<longleftrightarrow> (\<exists>r \<in> set (rows t). holds_lease i w r)"

fun run_step :: "lease \<times> int \<times> lease_op \<Rightarrow> jobs_table \<Rightarrow> jobs_table" where
  "run_step (l, now, x) t = lease_exec l now x t"

fun grants_lease :: "lease \<times> int \<times> lease_op \<Rightarrow> nat \<Rightarrow> string \<Rightarrow> bool" where
  "grants_lease (l, now, x) i w = (\<exists>q. x = Claim q w)"

lemma lease_run_fold: "lease_run xs t = fold run_step xs t"
  by (induction xs t rule: lease_run.induct) auto

lemma fenced_write_refused:
  "\<not> leased_to t i w \<Longrightarrow> fenced_write i w f t = (False, t)"
  by (auto simp: fenced_write_def leased_to_def table_simps update_rows_none)

lemma worker_write_refused: "\<not> leased_to t i w \<Longrightarrow> worker_write x i w t = (False, t)"
  by (cases "(x, i, w, t)" rule: worker_write.cases)
    (auto simp: heartbeat_def complete_def fail_job_def cancel_def requeue_def release_def
      fenced_write_refused)

lemma step_image_lease:
  assumes "holds_lease i w r'" and "r' \<in> step_image l now x r" and "\<forall>q. x \<noteq> Claim q w"
  shows "holds_lease i w r"
  using assms
  by (cases x) (auto simp: step_image_def holds_lease_def claimed_row_def reclaimed_row_def
      split: if_splits)

lemma lease_only_grants:
  assumes "lease_inv t" and "\<not> leased_to t i w" and "\<forall>q. x \<noteq> Claim q w"
  shows "\<not> leased_to (lease_exec l now x t) i w"
proof -
  have d: "distinct (map job_id (rows t))" using assms by (simp add: lease_inv_def)
  from lease_exec_cases [OF d, of x l now] show ?thesis
  proof (elim disjE exE conjE)
    fix r
    assume "inserted x r"
      and e: "lease_exec l now x t = \<lparr>rows = rows t @ [r], next_id = Suc (next_id t)\<rparr>"
    then show ?thesis using assms(2)
      by (auto simp: leased_to_def inserted_def holds_lease_def)
  next
    fix f
    assume f: "\<forall>r \<in> set (rows t). f r \<in> step_image l now x r"
      and e: "lease_exec l now x t = t\<lparr>rows := map f (rows t)\<rparr>"
    show ?thesis using assms(2,3) f step_image_lease unfolding leased_to_def e by fastforce
  qed
qed

interpretation lease_fence:
  fenced_store lease_inv leased_to worker_write run_step grants_lease
proof
  fix t e
  assume "lease_inv t"
  then show "lease_inv (run_step e t)" by (cases e) (simp add: lease_exec_inv)
next
  fix t i w e
  assume "lease_inv t" "\<not> leased_to t i w" "\<not> grants_lease e i w"
  then show "\<not> leased_to (run_step e t) i w" by (cases e) (simp add: lease_only_grants)
qed (rule worker_write_refused)

text \<open>
  C3 Fencing of reclaimed workers: once a janitor pass has settled the expired lease that
  worker \<open>w\<close> held on job \<open>i\<close>, every late heartbeat, completion, failure, cancellation,
  requeue or release by \<open>w\<close> is refused and changes nothing, however many operations of other
  workers, producers and janitors come in between, until \<open>w\<close> itself claims again.
\<close>

theorem reclaimed_worker_is_fenced:
  assumes "lease_inv t" and "r \<in> set (rows t)" and "holds_lease i w r"
    and "in_reclaim_scope l now q r"
    and "\<forall>(l', now', x) \<in> set xs. \<forall>q'. x \<noteq> Claim q' w"
  shows "worker_write wx i w (lease_run xs (snd (reclaim_expired l now q t)))
         = (False, lease_run xs (snd (reclaim_expired l now q t)))"
proof -
  let ?t = "snd (reclaim_expired l now q t)"
  have "lease_inv ?t" using lease_exec_inv [OF assms(1), of l now "Reclaim q"] by simp
  moreover have "\<not> leased_to ?t i w"
  proof
    assume "leased_to ?t i w"
    then obtain x where x: "x \<in> set (rows t)" "job_id x = i"
      and h: "holds_lease i w (if in_reclaim_scope l now q x then reclaimed_row l now x else x)"
      by (auto simp: leased_to_def reclaim_expired_def table_simps holds_lease_def
          reclaimed_row_def split: if_splits)
    have "x = r"
      using distinct_key_eq [of job_id "rows t" x r] assms(1,2,3) x
      by (simp add: lease_inv_def holds_lease_def)
    with h assms(4) show False by (simp add: holds_lease_def reclaimed_row_def)
  qed
  moreover have "\<not> grants_lease e i w" if "e \<in> set xs" for e
    using assms(5) that by (cases e) auto
  ultimately show ?thesis
    using lease_fence.stale_write_refused [of ?t i w xs wx] by (simp add: lease_run_fold)
qed

definition demo_lease :: lease where
  "demo_lease = \<lparr>shape = jobs_shape, reclaim_timeout = 300000, max_attempts = Some 3,
     order = ById, start_mode = FreshStart, stall_timeout = Some 600000\<rparr>"

definition demo_claimed :: jobs_table where
  "demo_claimed = lease_run [(demo_lease, 0, Enqueue ''ingest'' Map.empty None),
                             (demo_lease, 1000, Claim ''ingest'' ''w1'')] empty_jobs"

lemmas lease_eval =
  demo_lease_def jobs_shape_def empty_jobs_def enqueue_def insert_job_def fresh_job_def
  claim_def claim_candidates_def claimable_def claimed_row_def secs_def Let_def
  reclaim_expired_def in_reclaim_scope_def expired_def over_cap_def reclaimed_row_def
  holds_lease_def fenced_defs

lemma demo_claimed_eq:
  "demo_claimed = \<lparr>rows = [(fresh_job 1 0 ''ingest'' Map.empty None)
      \<lparr>job_status := JRunning, worker_id := Some ''w1'', lease_generation := 1, attempts := 1,
       started_at := Some 1, heartbeat_at := Some 1, progress_at := Some 1000\<rparr>],
     next_id = 2\<rparr>"
  by (simp add: demo_claimed_def lease_eval)

theorem reclaimed_worker_is_fenced_witness:
  "worker_write (demo_lease, 500001, WComplete None) 1 ''w1''
     (lease_run [(demo_lease, 500000, Claim ''ingest'' ''w2'')]
       (snd (reclaim_expired demo_lease 400000 None demo_claimed)))
   = (False, lease_run [(demo_lease, 500000, Claim ''ingest'' ''w2'')]
       (snd (reclaim_expired demo_lease 400000 None demo_claimed)))"
proof (rule reclaimed_worker_is_fenced)
  show "lease_inv demo_claimed"
    unfolding demo_claimed_def by (rule lease_run_inv [OF empty_jobs_inv])
  show "hd (rows demo_claimed) \<in> set (rows demo_claimed)"
    and "holds_lease 1 ''w1'' (hd (rows demo_claimed))"
    and "in_reclaim_scope demo_lease 400000 None (hd (rows demo_claimed))"
    by (simp_all add: demo_claimed_eq lease_eval)
qed simp

section \<open>What each operation does\<close>

definition claim_before :: "lease \<Rightarrow> job \<Rightarrow> job \<Rightarrow> bool" where
  "claim_before l a b \<longleftrightarrow>
     (case order l of ById \<Rightarrow> job_id a \<le> job_id b
      | ByCreatedThenId \<Rightarrow>
          created_at a < created_at b \<or> created_at a = created_at b \<and> job_id a \<le> job_id b)"

lemma sort_key_Nil_iff [simp]: "sort_key f xs = [] \<longleftrightarrow> xs = []"
  by (metis length_0_conv length_sort)

lemma hd_sort_key_least:
  "xs \<noteq> [] \<Longrightarrow> y \<in> set xs \<Longrightarrow> f (hd (sort_key f xs)) \<le> f y"
proof -
  assume ne: "xs \<noteq> []" and y: "y \<in> set xs"
  have s: "sorted (map f (sort_key f xs))" by simp
  have ne': "sort_key f xs \<noteq> []" using ne by (metis length_0_conv length_sort)
  have y': "y \<in> set (sort_key f xs)" using y by simp
  from s ne' y' show ?thesis by (cases "sort_key f xs") auto
qed

lemma hd_filter_min:
  "filter P xs \<noteq> [] \<Longrightarrow> sorted (map g xs) \<Longrightarrow> y \<in> set xs \<Longrightarrow> P y \<Longrightarrow> g (hd (filter P xs)) \<le> g y"
  by (induction xs) auto

text \<open>Sorting by the second key after the first breaks ties by the first.\<close>

lemma hd_sort_key_lex:
  assumes "xs \<noteq> []" and "y \<in> set xs"
    and "f (hd (sort_key f (sort_key g xs))) = f y"
  shows "g (hd (sort_key f (sort_key g xs))) \<le> g y"
proof -
  let ?ys = "sort_key f (sort_key g xs)"
  have ne: "?ys \<noteq> []" using assms(1) by (metis length_0_conv length_sort)
  have "filter (\<lambda>z. f z = f y) ?ys = filter (\<lambda>z. f z = f y) (sort_key g xs)"
    by (simp only: sort_key_stable)
  moreover have "hd (filter (\<lambda>z. f z = f y) ?ys) = hd ?ys"
    using ne assms(3) by (cases ?ys) auto
  moreover have "filter (\<lambda>z. f z = f y) (sort_key g xs) \<noteq> []"
    using assms(2) by (auto simp: filter_empty_conv)
  ultimately show ?thesis
    using hd_filter_min [of "\<lambda>z. f z = f y" "sort_key g xs" g y] assms(2) by simp
qed

lemma claim_candidates_hd:
  assumes "claim_candidates l now q t = c # cs"
  shows "c \<in> set (rows t) \<and> claimable l now q c
    \<and> (\<forall>r \<in> set (rows t). claimable l now q r \<longrightarrow> claim_before l c r)"
proof -
  let ?xs = "filter (claimable l now q) (rows t)"
  have "c \<in> set (claim_candidates l now q t)" using assms by simp
  then have c: "c \<in> set ?xs"
    by (auto simp: claim_candidates_def Let_def split: claim_order.splits)
  then have ne: "?xs \<noteq> []" by (auto simp: filter_empty_conv)
  have "claim_before l c r" if "r \<in> set ?xs" for r
  proof (cases "order l")
    case ById
    then have "c = hd (sort_key job_id ?xs)"
      using assms by (simp add: claim_candidates_def)
    then show ?thesis
      using hd_sort_key_least [OF ne that, of job_id] ById by (simp add: claim_before_def)
  next
    case ByCreatedThenId
    then have h: "c = hd (sort_key created_at (sort_key job_id ?xs))"
      using assms by (simp add: claim_candidates_def)
    have "sort_key job_id ?xs \<noteq> []" using ne by (metis length_0_conv length_sort)
    then have "created_at c \<le> created_at r"
      using hd_sort_key_least [of "sort_key job_id ?xs" r created_at] that h by simp
    moreover have "created_at c = created_at r \<Longrightarrow> job_id c \<le> job_id r"
      using hd_sort_key_lex [OF ne that, of created_at job_id] h by simp
    ultimately show ?thesis using ByCreatedThenId by (auto simp: claim_before_def)
  qed
  with c show ?thesis by simp
qed

text \<open>
  Claim takes the first claimable row of the queue in the configured order, and only that
  row: it becomes running under this worker with generation and attempts incremented, all
  other rows are untouched, and with no claimable row the table is unchanged.
\<close>

theorem claim_takes_first:
  assumes "lease_inv t"
  shows "case claim l now q w t of
      (None, t') \<Rightarrow> t' = t \<and> (\<forall>r \<in> set (rows t). \<not> claimable l now q r)
    | (Some r', t') \<Rightarrow>
        (\<exists>c \<in> set (rows t). claimable l now q c \<and> r' = claimed_row l now w c
           \<and> (\<forall>r \<in> set (rows t). claimable l now q r \<longrightarrow> claim_before l c r)
           \<and> t' = t\<lparr>rows := update_rows (\<lambda>r. r = c) (\<lambda>_. r') (rows t)\<rparr>)"
proof (cases "claim_candidates l now q t")
  case Nil
  then have "set (claim_candidates l now q t) = {}" by simp
  then have "\<forall>r \<in> set (rows t). \<not> claimable l now q r"
    by (auto simp: claim_candidates_def Let_def filter_empty_conv split: claim_order.splits)
  with Nil show ?thesis by (simp add: claim_def)
next
  case (Cons c cs)
  note c = claim_candidates_hd [OF Cons]
  have d: "distinct (map job_id (rows t))" using assms by (simp add: lease_inv_def)
  let ?p = "\<lambda>r. job_id r = job_id c \<and> job_status r = JPending"
  have p: "?p r = (r = c)" if "r \<in> set (rows t)" for r
    using distinct_key_eq [OF d that] c by (auto simp: claimable_def)
  have "find ?p (rows t) = Some c"
  proof (cases "find ?p (rows t)")
    case None
    then show ?thesis using find_NoneD [OF None, of c] c by (simp add: claimable_def)
  next
    case (Some r)
    with find_SomeD [OF Some] p [of r] show ?thesis by blast
  qed
  moreover have "update_rows ?p (claimed_row l now w) (rows t)
      = update_rows (\<lambda>r. r = c) (\<lambda>_. claimed_row l now w c) (rows t)"
    unfolding update_rows_def by (rule map_cong) (simp_all add: p)
  ultimately show ?thesis using Cons c by (auto simp: claim_def Let_def)
qed

theorem claim_takes_first_witness:
  "\<exists>r' t'. claim demo_lease 500 ''ingest'' ''w'' (lease_run
       [(demo_lease, 0, Enqueue ''ingest'' Map.empty None)] empty_jobs) = (Some r', t')
     \<and> job_id r' = 1 \<and> worker_id r' = Some ''w'' \<and> rows t' = [r']"
proof -
  let ?t = "lease_run [(demo_lease, 0, Enqueue ''ingest'' Map.empty None)] empty_jobs"
  let ?r = "fresh_job 1 0 ''ingest'' Map.empty None"
  have rows: "rows ?t = [?r]"
    by (simp add: demo_lease_def jobs_shape_def enqueue_def insert_job_def empty_jobs_def)
  have c: "claimable demo_lease 500 ''ingest'' ?r"
    by (simp add: claimable_def fresh_job_def demo_lease_def jobs_shape_def)
  have "lease_inv ?t" by (rule lease_run_inv [OF empty_jobs_inv])
  from claim_takes_first [OF this, of demo_lease 500 "''ingest''" "''w''"] rows c show ?thesis
    by (auto simp: claimed_row_def fresh_job_def update_rows_def split: prod.splits option.splits)
qed

text \<open>
  A janitor pass leaves no expired lease in its scope running: every such row is pending
  again, or failed with a reason and a completion time when it has used up its attempts; its
  generation is bumped and its worker cleared. Rows out of scope are untouched, and the
  returned count is the number of rows settled.
\<close>

theorem reclaim_settles_all:
  shows "let (n, t') = reclaim_expired l now q t in
      (\<forall>r \<in> set (rows t'). \<not> in_reclaim_scope l now q r)
      \<and> n = length (filter (in_reclaim_scope l now q) (rows t))
      \<and> (\<forall>k < length (rows t). let r = rows t ! k; r' = rows t' ! k in
           if in_reclaim_scope l now q r
           then worker_id r' = None \<and> lease_generation r' = lease_generation r + 1
                \<and> attempts r' = attempts r
                \<and> (if over_cap l r then job_status r' = JFailed \<and> completed_at r' \<noteq> None
                      \<and> job_error r' \<noteq> None \<and> job_error r' \<noteq> Some ''''
                   else job_status r' = JPending)
           else r' = r)"
proof -
  have 1: "\<not> in_reclaim_scope l now q (reclaimed_row l now r)" for r
    by (simp add: in_reclaim_scope_def reclaimed_row_def)
  have 2: "(if over_cap l r then job_status (reclaimed_row l now r) = JFailed
              \<and> completed_at (reclaimed_row l now r) \<noteq> None
              \<and> job_error (reclaimed_row l now r) \<noteq> None
              \<and> job_error (reclaimed_row l now r) \<noteq> Some ''''
            else job_status (reclaimed_row l now r) = JPending)" for r
    by (simp add: reclaimed_row_def split: option.splits)
  have 3: "worker_id (reclaimed_row l now r) = None
      \<and> lease_generation (reclaimed_row l now r) = lease_generation r + 1
      \<and> attempts (reclaimed_row l now r) = attempts r" for r
    by (simp add: reclaimed_row_def)
  show ?thesis
    using 1 2 3 by (auto simp: reclaim_expired_def rowcount_def table_simps Let_def update_rows_def)
qed

theorem reclaim_settles_all_witness:
  "fst (reclaim_expired demo_lease 400000 None demo_claimed) = 1
     \<and> map job_status (rows (snd (reclaim_expired demo_lease 400000 None demo_claimed))) = [JPending]"
proof -
  have "map job_status (rows (snd (reclaim_expired demo_lease 400000 None demo_claimed))) = [JPending]"
    by (simp add: demo_claimed_eq reclaim_expired_def update_rows_def in_reclaim_scope_def
        expired_def reclaimed_row_def over_cap_def demo_lease_def jobs_shape_def fresh_job_def
        secs_def)
  moreover have "length (filter (in_reclaim_scope demo_lease 400000 None) (rows demo_claimed)) = 1"
    by (simp add: demo_claimed_eq in_reclaim_scope_def expired_def demo_lease_def
        jobs_shape_def fresh_job_def secs_def)
  ultimately show ?thesis
    using reclaim_settles_all [of demo_lease 400000 None demo_claimed]
    by (simp add: Let_def split: prod.splits)
qed

section \<open>Histories\<close>

lemma step_image_terminal:
  "terminal (job_status r) \<Longrightarrow> r' \<in> step_image l now x r \<Longrightarrow> r' = r"
  by (cases x) (auto simp: step_image_def terminal_def claimable_def in_reclaim_scope_def
      holds_lease_def)

lemma step_image_generation:
  "r' \<in> step_image l now x r \<Longrightarrow> lease_generation r \<le> lease_generation r'"
  by (cases x) (auto simp: step_image_def claimed_row_def reclaimed_row_def)

lemma lease_exec_history:
  assumes "lease_inv t" and "r \<in> set (rows t)"
  shows "\<exists>r' \<in> set (rows (lease_exec l now x t)).
      job_id r' = job_id r \<and> lease_generation r \<le> lease_generation r'
      \<and> (terminal (job_status r) \<longrightarrow> r' = r)"
proof -
  have d: "distinct (map job_id (rows t))" using assms by (simp add: lease_inv_def)
  from lease_exec_cases [OF d, of x l now] show ?thesis
  proof (elim disjE exE conjE)
    fix r1
    assume "lease_exec l now x t = \<lparr>rows = rows t @ [r1], next_id = Suc (next_id t)\<rparr>"
    with assms(2) show ?thesis by auto
  next
    fix f
    assume f: "\<forall>r \<in> set (rows t). f r \<in> step_image l now x r"
      and e: "lease_exec l now x t = t\<lparr>rows := map f (rows t)\<rparr>"
    have "f r \<in> step_image l now x r" using f assms(2) by blast
    then show ?thesis
      using assms(2) step_image_key step_image_terminal step_image_generation
      unfolding e by (intro bexI [of _ "f r"]) auto
  qed
qed

text \<open>
  Histories only move forward: a row never disappears, its lease generation never
  decreases, and once it is completed, failed or cancelled no later operation of anybody
  changes it.
\<close>

theorem settled_rows_are_final:
  assumes "lease_inv t" and "r \<in> set (rows t)"
  shows "\<exists>r' \<in> set (rows (lease_run xs t)).
      job_id r' = job_id r \<and> lease_generation r \<le> lease_generation r'
      \<and> (terminal (job_status r) \<longrightarrow> r' = r)"
  using assms
proof (induction xs t arbitrary: r rule: lease_run.induct)
  case (1 t)
  then show ?case by auto
next
  case (2 l now x xs t)
  obtain r1 where r1: "r1 \<in> set (rows (lease_exec l now x t))" "job_id r1 = job_id r"
      "lease_generation r \<le> lease_generation r1" "terminal (job_status r) \<longrightarrow> r1 = r"
    using lease_exec_history [OF "2.prems", of l now x] by blast
  from "2.IH" [OF lease_exec_inv [OF "2.prems"(1)] r1(1)] r1 show ?case by force
qed

theorem settled_rows_are_final_witness:
  "\<exists>r' \<in> set (rows (lease_run [(demo_lease, 2000, Complete 1 ''w1'' None)] demo_claimed)).
      job_id r' = 1 \<and> 1 \<le> lease_generation r'"
proof -
  have "lease_inv demo_claimed"
    unfolding demo_claimed_def by (rule lease_run_inv [OF empty_jobs_inv])
  from settled_rows_are_final [OF this, of "hd (rows demo_claimed)"
      "[(demo_lease, 2000, Complete 1 ''w1'' None)]"]
  show ?thesis by (auto simp: demo_claimed_eq fresh_job_def simp del: lease_run.simps)
qed

section \<open>Path deduplication\<close>

definition path_unique :: "string \<Rightarrow> jobs_table \<Rightarrow> bool" where
  "path_unique q t \<longleftrightarrow>
     (\<forall>pk. \<forall>r \<in> set (rows t). \<forall>r' \<in> set (rows t).
        same_path q pk r \<longrightarrow> same_path q pk r' \<longrightarrow> r = r')"

text \<open>The producers of the queue go through \<open>enqueue_deduped\<close> with the key in the payload.\<close>

definition deduped_producer :: "string \<Rightarrow> lease_op \<Rightarrow> bool" where
  "deduped_producer q x =
     (case x of Enqueue q' p ra \<Rightarrow> q' \<noteq> q
      | EnqueueDeduped q' p pk \<Rightarrow> q' = q \<longrightarrow> p ''path_key'' = Some pk
      | _ \<Rightarrow> True)"

lemma step_image_active: "active r' \<Longrightarrow> r' \<in> step_image l now x r \<Longrightarrow> active r"
  by (cases x) (auto simp: step_image_def active_def claimable_def in_reclaim_scope_def
      holds_lease_def)

lemma step_image_same_path:
  "same_path q pk r' \<Longrightarrow> r' \<in> step_image l now x r \<Longrightarrow> same_path q pk r"
  using step_image_active [of r' l now x r] step_image_key [of r' l now x r]
  by (simp add: same_path_def)

lemma path_unique_insert:
  assumes "path_unique q t" and "\<And>pk. same_path q pk r \<Longrightarrow> \<forall>r' \<in> set (rows t). \<not> same_path q pk r'"
  shows "path_unique q \<lparr>rows = rows t @ [r], next_id = n\<rparr>"
  using assms unfolding path_unique_def by auto

lemma path_unique_exec:
  assumes "lease_inv t" and "path_unique q t" and "deduped_producer q x"
  shows "path_unique q (lease_exec l now x t)"
proof -
  have d: "distinct (map job_id (rows t))" using assms(1) by (simp add: lease_inv_def)
  from lease_exec_cases [OF d, of x l now] show ?thesis
  proof (elim disjE exE conjE)
    fix r
    assume r: "inserted x r"
      and e: "lease_exec l now x t = \<lparr>rows = rows t @ [r], next_id = Suc (next_id t)\<rparr>"
    have "\<forall>r' \<in> set (rows t). \<not> same_path q pk r'" if pk: "same_path q pk r" for pk
    proof (cases x)
      case (EnqueueDeduped q' p pk')
      have "q' = q" "pk' = pk"
        using r pk assms(3) EnqueueDeduped
        by (auto simp: inserted_def same_path_def deduped_producer_def)
      moreover have "lease_exec l now x t \<noteq> t"
        by (metis (lifting) e append_self_conv jobs_table.select_convs(1) not_Cons_self2)
      ultimately show ?thesis using EnqueueDeduped by (auto simp: enqueue_deduped_def split: if_splits)
    qed (use r pk assms(3) in \<open>auto simp: inserted_def same_path_def deduped_producer_def\<close>)
    with assms(2) show ?thesis unfolding e by (rule path_unique_insert)
  next
    fix f
    assume f: "\<forall>r \<in> set (rows t). f r \<in> step_image l now x r"
      and e: "lease_exec l now x t = t\<lparr>rows := map f (rows t)\<rparr>"
    have "f a = f b" if "a \<in> set (rows t)" "b \<in> set (rows t)" "same_path q pk (f a)"
      "same_path q pk (f b)" for pk a b
      using that f step_image_same_path assms(2) unfolding path_unique_def by metis
    then show ?thesis unfolding e path_unique_def by auto
  qed
qed

text \<open>
  Path deduplication: if every producer of a queue uses \<open>enqueue_deduped\<close>, then at no
  time do two pending or running jobs of the queue carry the same path, through any
  interleaving of claims, requeues, releases and reclaims.
\<close>

theorem dedupe_at_most_one_active:
  assumes "\<forall>(l, now, x) \<in> set xs. deduped_producer q x"
    and "r \<in> set (rows (lease_run xs empty_jobs))" and "r' \<in> set (rows (lease_run xs empty_jobs))"
    and "same_path q pk r" and "same_path q pk r'"
  shows "r = r'"
proof -
  have "path_unique q (lease_run xs t)" if "lease_inv t" "path_unique q t" for t
    using that assms(1)
    by (induction xs t rule: lease_run.induct) (auto simp: lease_exec_inv path_unique_exec)
  moreover have "path_unique q empty_jobs" by (simp add: path_unique_def empty_jobs_def)
  ultimately have "path_unique q (lease_run xs empty_jobs)" using empty_jobs_inv by blast
  with assms(2-5) show ?thesis unfolding path_unique_def by blast
qed

definition demo_path :: json_obj where
  "demo_path = [''path_key'' \<mapsto> ''/a'']"

definition demo_producers :: lease_run where
  "demo_producers = [(demo_lease, 0, EnqueueDeduped ''ingest'' demo_path ''/a''),
                     (demo_lease, 1, EnqueueDeduped ''ingest'' demo_path ''/a'')]"

definition demo_deduped :: jobs_table where
  "demo_deduped = lease_run demo_producers empty_jobs"

lemma demo_deduped_eq:
  "demo_deduped = \<lparr>rows = [fresh_job 1 0 ''ingest'' demo_path None], next_id = 2\<rparr>"
  by (simp add: demo_deduped_def demo_producers_def enqueue_deduped_def insert_job_def
      demo_lease_def jobs_shape_def empty_jobs_def fresh_job_def same_path_def active_def
      demo_path_def)

theorem dedupe_at_most_one_active_witness:
  "hd (rows demo_deduped) = last (rows demo_deduped) \<and> rows demo_deduped \<noteq> []"
proof -
  have "\<forall>(l, now, x) \<in> set demo_producers. deduped_producer ''ingest'' x"
    by (simp add: demo_producers_def deduped_producer_def demo_path_def)
  moreover have "hd (rows demo_deduped) \<in> set (rows demo_deduped)"
      "last (rows demo_deduped) \<in> set (rows demo_deduped)"
      "same_path ''ingest'' ''/a'' (hd (rows demo_deduped))"
      "same_path ''ingest'' ''/a'' (last (rows demo_deduped))"
    by (simp_all add: demo_deduped_eq fresh_job_def same_path_def active_def demo_path_def)
  ultimately have "hd (rows demo_deduped) = last (rows demo_deduped)"
    using dedupe_at_most_one_active [of demo_producers "''ingest''"]
    unfolding demo_deduped_def by blast
  then show ?thesis by (simp add: demo_deduped_eq)
qed

section \<open>Crash loops end\<close>

text \<open>How often a run hands job \<open>i\<close> out: the claims that return it.\<close>

fun hands_out :: "nat \<Rightarrow> lease \<times> int \<times> lease_op \<Rightarrow> jobs_table \<Rightarrow> bool" where
  "hands_out i (l, now, Claim q w) t = (map_option job_id (fst (claim l now q w t)) = Some i)"
| "hands_out i _ t = False"

fun hand_outs :: "nat \<Rightarrow> lease_run \<Rightarrow> jobs_table \<Rightarrow> nat" where
  "hand_outs i [] t = 0"
| "hand_outs i (x # xs) t = (if hands_out i x t then 1 else 0) + hand_outs i xs (run_step x t)"

text \<open>
  No worker of job \<open>i\<close> lives long enough to settle it or to give it back, and a janitor pass
  over its queue works with the cap \<open>m\<close>. Everything else is free: heartbeats of \<open>i\<close>, and any
  operation of any lease object on the other jobs and queues.
\<close>

fun abandons :: "nat \<Rightarrow> string \<Rightarrow> int \<Rightarrow> lease \<times> int \<times> lease_op \<Rightarrow> bool" where
  "abandons i q m (l, now, Complete j w res) = (j \<noteq> i)"
| "abandons i q m (l, now, FailJob j w e) = (j \<noteq> i)"
| "abandons i q m (l, now, Cancel j w e) = (j \<noteq> i)"
| "abandons i q m (l, now, Requeue j w d e) = (j \<noteq> i)"
| "abandons i q m (l, now, Release j w) = (j \<noteq> i)"
| "abandons i q m (l, now, Reclaim q') =
     (max_attempts l = Some m \<or> (case q' of None \<Rightarrow> False | Some q'' \<Rightarrow> q'' \<noteq> q))"
| "abandons i q m _ = True"

definition crash_state :: "int \<Rightarrow> nat \<Rightarrow> job \<Rightarrow> bool" where
  "crash_state m n r \<longleftrightarrow> attempts r = n \<and>
     (case job_status r of JPending \<Rightarrow> int n < m | JRunning \<Rightarrow> 1 \<le> n \<and> int n \<le> m
      | JFailed \<Rightarrow> int n = m | _ \<Rightarrow> False)"

lemma crash_state_reclaimed:
  "crash_state m n r \<Longrightarrow> job_status r = JRunning \<Longrightarrow> max_attempts l = Some m
   \<Longrightarrow> crash_state m n (reclaimed_row l now r)"
  by (cases "m \<le> int n") (simp_all add: crash_state_def reclaimed_row_def over_cap_def)

lemma crash_state_image:
  assumes "crash_state m n r" and "abandons (job_id r) (job_queue r) m (l, now, x)"
    and "\<forall>q w. x \<noteq> Claim q w" and "r' \<in> step_image l now x r"
  shows "crash_state m n r'"
proof (cases x)
  case (Heartbeat i w)
  then show ?thesis using assms(1,4) by (auto simp: step_image_def crash_state_def)
next
  case (Reclaim q)
  then consider "r' = r" | "in_reclaim_scope l now q r" "r' = reclaimed_row l now r"
    using assms(4) by (auto simp: step_image_def)
  then show ?thesis
  proof cases
    case 2
    then have "max_attempts l = Some m" and "job_status r = JRunning"
      using assms(2) by (auto simp: Reclaim in_reclaim_scope_def split: option.splits)
    then show ?thesis using 2 crash_state_reclaimed [OF assms(1)] by simp
  qed (use assms(1) in simp)
qed (use assms in \<open>auto simp: step_image_def holds_lease_def\<close>)

lemma step_has_image:
  assumes "lease_inv t" and "r \<in> set (rows t)"
  obtains r' where "r' \<in> set (rows (lease_exec l now x t))" "r' \<in> step_image l now x r"
proof -
  have d: "distinct (map job_id (rows t))" using assms(1) by (simp add: lease_inv_def)
  from lease_exec_cases [OF d, of x l now] show thesis
  proof (elim disjE exE conjE)
    fix r1
    assume "lease_exec l now x t = \<lparr>rows = rows t @ [r1], next_id = Suc (next_id t)\<rparr>"
    then show thesis using assms(2) by (intro that [of r]) (simp_all add: step_image_def)
  next
    fix f
    assume "\<forall>r \<in> set (rows t). f r \<in> step_image l now x r"
      and "lease_exec l now x t = t\<lparr>rows := map f (rows t)\<rparr>"
    then show thesis using assms(2) by (intro that [of "f r"]) simp_all
  qed
qed

lemma hands_out_effect:
  assumes "lease_inv t" and "r \<in> set (rows t)"
  shows "if hands_out (job_id r) (l, now, Claim q w) t
    then job_status r = JPending \<and> claimed_row l now w r \<in> set (rows (run_step (l, now, Claim q w) t))
    else r \<in> set (rows (run_step (l, now, Claim q w) t))"
proof (cases "claim l now q w t")
  case (Pair o' t')
  have d: "distinct (map job_id (rows t))" using assms(1) by (simp add: lease_inv_def)
  show ?thesis
  proof (cases o')
    case None
    then show ?thesis using claim_takes_first [OF assms(1), of l now q w] assms(2) Pair by simp
  next
    case (Some r1)
    then obtain c where c: "c \<in> set (rows t)" "claimable l now q c" "r1 = claimed_row l now w c"
        "t' = t\<lparr>rows := update_rows (\<lambda>r. r = c) (\<lambda>_. r1) (rows t)\<rparr>"
      using claim_takes_first [OF assms(1), of l now q w] Pair by auto
    have "job_id c = job_id r \<longleftrightarrow> c = r" using distinct_key_eq [OF d c(1) assms(2)] by auto
    then show ?thesis
      using c assms(2) Pair Some
      by (auto simp: claimed_row_def update_rows_def claimable_def image_iff)
  qed
qed

lemma crash_state_step:
  assumes "lease_inv t" and "r \<in> set (rows t)" and "crash_state m n r"
    and "abandons (job_id r) (job_queue r) m x"
  shows "\<exists>r' \<in> set (rows (run_step x t)). job_id r' = job_id r \<and> job_queue r' = job_queue r
    \<and> crash_state m (n + (if hands_out (job_id r) x t then 1 else 0)) r'"
proof -
  obtain l now y where x: "x = (l, now, y)" by (cases x)
  show ?thesis
  proof (cases "\<exists>q w. y = Claim q w")
    case True
    then obtain q w where y: "y = Claim q w" by blast
    note e = hands_out_effect [OF assms(1,2), of l now q w]
    show ?thesis
    proof (cases "hands_out (job_id r) (l, now, Claim q w) t")
      case True
      then have "claimed_row l now w r \<in> set (rows (run_step x t))" and "job_status r = JPending"
        using e by (simp_all add: x y del: run_step.simps hands_out.simps)
      then show ?thesis using True assms(3)
        by (intro bexI [of _ "claimed_row l now w r"])
          (simp_all add: x y crash_state_def claimed_row_def del: run_step.simps hands_out.simps)
    next
      case False
      then have "r \<in> set (rows (run_step x t))"
        using e by (simp add: x y del: run_step.simps hands_out.simps)
      then show ?thesis using False assms(3)
        by (intro bexI [of _ r]) (simp_all add: x y del: run_step.simps hands_out.simps)
    qed
  next
    case False
    then have "\<not> hands_out (job_id r) x t" unfolding x by (cases y) auto
    moreover obtain r' where r': "r' \<in> set (rows (run_step x t))" "r' \<in> step_image l now y r"
      using step_has_image [OF assms(1,2), of l now y] x by auto
    moreover have "crash_state m n r'"
      using crash_state_image [OF assms(3)] assms(4) False r'(2) x by blast
    ultimately show ?thesis using step_image_key [OF r'(2)] by (intro bexI [of _ r']) simp_all
  qed
qed

lemma crash_state_run:
  assumes "lease_inv t" and "r \<in> set (rows t)" and "crash_state m n r"
    and "\<forall>x \<in> set xs. abandons (job_id r) (job_queue r) m x"
  shows "\<exists>r' \<in> set (rows (lease_run xs t)). job_id r' = job_id r \<and> job_queue r' = job_queue r
    \<and> crash_state m (n + hand_outs (job_id r) xs t) r'"
  using assms
proof (induction xs arbitrary: t r n)
  case (Cons x xs)
  obtain r1 where r1: "r1 \<in> set (rows (run_step x t))" "job_id r1 = job_id r"
      "job_queue r1 = job_queue r"
      "crash_state m (n + (if hands_out (job_id r) x t then 1 else 0)) r1"
    using crash_state_step [of t r m n x] Cons.prems by auto
  have "lease_inv (run_step x t)" using Cons.prems(1) by (cases x) (simp add: lease_exec_inv)
  from Cons.IH [OF this r1(1,4)] r1 Cons.prems(4) show ?case
    by (cases x) (auto simp: add.assoc)
qed auto

lemma reclaim_settles:
  assumes "lease_inv t" and "r \<in> set (rows t)" and "crash_state m n r" and "job_status r = JRunning"
    and "max_attempts l = Some m" and "expired l later r" and "q = None \<or> q = Some (job_queue r)"
  shows "\<exists>r' \<in> set (rows (snd (reclaim_expired l later q t))). job_id r' = job_id r
    \<and> attempts r' = n \<and> job_status r' = (if int n = m then JFailed else JPending)"
proof (rule bexI [of _ "reclaimed_row l later r"])
  show "job_id (reclaimed_row l later r) = job_id r \<and> attempts (reclaimed_row l later r) = n
    \<and> job_status (reclaimed_row l later r) = (if int n = m then JFailed else JPending)"
    using assms(3,4,5) by (simp add: reclaimed_row_def crash_state_def over_cap_def)
  show "reclaimed_row l later r \<in> set (rows (snd (reclaim_expired l later q t)))"
    using assms(2,4,6,7)
    by (auto simp: reclaim_expired_def update_rows_def in_reclaim_scope_def image_iff)
qed

lemma first_in_line_is_handed_out:
  assumes "lease_inv t" and "r \<in> set (rows t)" and "claimable l now q r"
    and "\<forall>r' \<in> set (rows t). claimable l now q r' \<longrightarrow> claim_before l r r'"
  shows "hands_out (job_id r) (l, now, Claim q w) t"
proof (cases "claim l now q w t")
  case (Pair o' t')
  then obtain c where c: "c \<in> set (rows t)" "claimable l now q c" "o' = Some (claimed_row l now w c)"
      "claim_before l c r"
    using claim_takes_first [OF assms(1), of l now q w] assms(2,3) by (cases o') auto
  then have "job_id c = job_id r"
    using assms(4) by (auto simp: claim_before_def split: claim_order.splits)
  then show ?thesis using Pair c by (simp add: claimed_row_def)
qed

text \<open>
  C39 A poison job is bounded. Let the workers that get job \<open>i\<close> all die, in any run in which
  other jobs, queues, producers and janitor passes interleave. The attempts of the job count
  how often it was handed out; with a cap of \<open>m\<close> it is handed out at most \<open>m\<close> times; it waits
  only below the cap and is failed only at the cap; a janitor pass that finds its last worker
  expired fails it if that was the \<open>m\<close>-th hand-out and puts it back in line otherwise; and
  while it waits, the next claim for which it is first in line hands it out again.
\<close>

theorem poison_job_settles:
  assumes "lease_inv t" and "r \<in> set (rows t)" and "job_status r = JPending" and "attempts r = 0"
    and "1 \<le> m" and "\<forall>x \<in> set xs. abandons (job_id r) (job_queue r) m x"
  defines "n \<equiv> hand_outs (job_id r) xs t" and "t' \<equiv> lease_run xs t"
  shows "int n \<le> m \<and> (\<exists>r' \<in> set (rows t'). job_id r' = job_id r \<and> attempts r' = n
    \<and> (job_status r' = JPending \<and> int n < m \<or> job_status r' = JRunning
        \<or> job_status r' = JFailed \<and> int n = m)
    \<and> (\<forall>l later q. job_status r' = JRunning \<longrightarrow> max_attempts l = Some m \<longrightarrow> expired l later r'
        \<longrightarrow> q = None \<or> q = Some (job_queue r)
        \<longrightarrow> (\<exists>r'' \<in> set (rows (snd (reclaim_expired l later q t'))). job_id r'' = job_id r
              \<and> attempts r'' = n \<and> job_status r'' = (if int n = m then JFailed else JPending)))
    \<and> (\<forall>l now w. claimable l now (job_queue r) r'
        \<longrightarrow> (\<forall>r2 \<in> set (rows t'). claimable l now (job_queue r) r2 \<longrightarrow> claim_before l r' r2)
        \<longrightarrow> hands_out (job_id r) (l, now, Claim (job_queue r) w) t'))"
proof -
  have "crash_state m 0 r" using assms(3-5) by (simp add: crash_state_def)
  from crash_state_run [OF assms(1,2) this assms(6)]
  obtain r' where r': "r' \<in> set (rows t')" "job_id r' = job_id r" "job_queue r' = job_queue r"
      "crash_state m n r'"
    by (auto simp: n_def t'_def)
  have i: "lease_inv t'" unfolding t'_def by (rule lease_run_inv [OF assms(1)])
  have "attempts r' = n \<and> int n \<le> m \<and> (job_status r' = JPending \<and> int n < m
      \<or> job_status r' = JRunning \<or> job_status r' = JFailed \<and> int n = m)"
    using r'(4) by (auto simp: crash_state_def split: job_status.splits)
  moreover note reclaim_settles [OF i r'(1,4), unfolded r'(2,3)]
    first_in_line_is_handed_out [OF i r'(1), unfolded r'(2)]
  ultimately show ?thesis using r'(1,2) by blast
qed

text \<open>A job next to another one in its queue, with a cap of one: its first death fails it.\<close>

definition demo_poison :: lease where
  "demo_poison = demo_lease\<lparr>max_attempts := Some 1\<rparr>"

definition demo_pair :: jobs_table where
  "demo_pair = lease_run [(demo_poison, 0, Enqueue ''ingest'' Map.empty None),
                          (demo_poison, 0, Enqueue ''ingest'' Map.empty (Some 5))] empty_jobs"

lemma demo_pair_eq:
  "demo_pair = \<lparr>rows = [fresh_job 1 0 ''ingest'' Map.empty None,
                       fresh_job 2 0 ''ingest'' Map.empty (Some 5)], next_id = 3\<rparr>"
  by (simp add: demo_pair_def demo_poison_def enqueue_def insert_job_def empty_jobs_def
      demo_lease_def jobs_shape_def eval_nat_numeral)

theorem poison_job_settles_witness:
  "\<exists>r' \<in> set (rows (lease_run [(demo_poison, 0, Claim ''ingest'' ''w1''),
        (demo_poison, 900000, Reclaim None), (demo_poison, 900000, Claim ''ingest'' ''w2'')] demo_pair)).
     job_id r' = 1 \<and> attempts r' \<le> 1"
proof -
  let ?xs = "[(demo_poison, 0, Claim ''ingest'' ''w1''), (demo_poison, 900000, Reclaim None),
      (demo_poison, 900000, Claim ''ingest'' ''w2'')]"
  have "lease_inv demo_pair" unfolding demo_pair_def by (rule lease_run_inv [OF empty_jobs_inv])
  from poison_job_settles [OF this, of "fresh_job 1 0 ''ingest'' Map.empty None" 1 ?xs]
  have "\<exists>r' \<in> set (rows (lease_run ?xs demo_pair)). job_id r' = 1 \<and> int (attempts r') \<le> 1"
    by (auto simp: demo_pair_eq fresh_job_def demo_poison_def simp del: lease_run.simps hand_outs.simps)
  then show ?thesis by auto
qed

end
