(* ===== verification/Admission_Store.thy ===== *)
theory Admission_Store
  imports Complex_Main Prelude
begin

text \<open>
  The store seam of \<^verbatim>\<open>backend/app/services/admission.py\<close>: budgets per device key, held by
  holders that expire. The interface is a locale; the in-process \<open>MemoryAdmissionStore\<close> and
  the \<open>RedisAdmissionStore\<close> (the effect of its Lua scripts, each of which Redis runs
  atomically) both interpret it. Clocks and their sums with a TTL are exact rationals; the
  Redis scripts store an expiry as a decimal string, whose rounding is modelled.
\<close>

section \<open>Holder tables\<close>

text \<open>One budget key's holders: a dict or a Redis hash from holder to expiry epoch.\<close>

type_synonym holders = "(string \<times> rat) list"

definition names :: "holders \<Rightarrow> string set" where
  "names e = fst ` set e"

definition sweep :: "rat \<Rightarrow> holders \<Rightarrow> holders" where
  "sweep now e = filter (\<lambda>(h, x). \<not> x \<le> now) e"

definition set_expiry :: "string \<Rightarrow> rat \<Rightarrow> holders \<Rightarrow> holders" where
  "set_expiry h x e = map (\<lambda>(h', x'). (h', if h' = h then x else x')) e"

definition wf_holders :: "holders \<Rightarrow> bool" where
  "wf_holders e \<longleftrightarrow> distinct (map fst e)"

lemma names_sweep [table_simps]: "names (sweep now e) = {h. \<exists>x. (h, x) \<in> set e \<and> now < x}"
  by (force simp: names_def sweep_def)

lemma names_sweep_subset: "names (sweep now e) \<subseteq> names e"
  by (auto simp: names_def sweep_def)

lemma length_filter_bound: "int (length e) \<le> b \<Longrightarrow> int (length (filter P e)) \<le> b"
  by (meson length_filter_le of_nat_mono order_trans)

lemma length_sweep_bound: "int (length e) \<le> b \<Longrightarrow> int (length (sweep now e)) \<le> b"
  by (simp add: sweep_def length_filter_bound)

lemma names_set_expiry [simp]: "names (set_expiry h x e) = names e"
  by (force simp: names_def set_expiry_def)

lemma wf_sweep [intro]: "wf_holders e \<Longrightarrow> wf_holders (sweep now e)"
  unfolding wf_holders_def sweep_def by (induction e) (auto simp: image_iff)

lemma map_fst_set_expiry [simp]: "map fst (set_expiry h x e) = map fst e"
  by (simp add: set_expiry_def case_prod_unfold)

lemma wf_set_expiry [simp]: "wf_holders (set_expiry h x e) = wf_holders e"
  by (simp add: wf_holders_def)

lemma wf_snoc: "wf_holders e \<Longrightarrow> h \<notin> names e \<Longrightarrow> wf_holders (e @ [(h, x)])"
  by (auto simp: wf_holders_def names_def)

lemma card_names: "wf_holders e \<Longrightarrow> card (names e) = length e"
  by (metis distinct_card length_map list.set_map names_def wf_holders_def)

lemma names_snoc [simp]: "names (e @ [(h, x)]) = insert h (names e)"
  by (simp add: names_def)

lemma names_Nil [simp]: "names [] = {}"
  by (simp add: names_def)

section \<open>The in-process store\<close>

text \<open>Each key maps to a non-empty dict of holders, or is absent.\<close>

type_synonym mem_store = "string \<Rightarrow> holders option"

definition put_entry :: "string \<Rightarrow> holders \<Rightarrow> mem_store \<Rightarrow> mem_store" where
  "put_entry k e s = s(k := if e = [] then None else Some e)"

definition mem_live :: "rat \<Rightarrow> string \<Rightarrow> mem_store \<Rightarrow> holders \<times> mem_store" where
  "mem_live now k s =
     (case s k of None \<Rightarrow> ([], s)
      | Some e \<Rightarrow> (let e' = sweep now e in (e', put_entry k e' s)))"

definition mem_try_acquire ::
  "rat \<Rightarrow> string \<Rightarrow> string \<Rightarrow> rat \<Rightarrow> int \<Rightarrow> mem_store \<Rightarrow> bool \<times> mem_store" where
  "mem_try_acquire now k h ttl budget s =
     (let (e, s1) = mem_live now k s in
      if budget > 0 \<and> int (length e) \<ge> budget then (False, s1)
      else if h \<in> names e then (False, s1)
      else (True, s1(k \<mapsto> e @ [(h, now + max ttl 0)])))"

definition mem_release :: "string \<Rightarrow> string \<Rightarrow> mem_store \<Rightarrow> mem_store" where
  "mem_release k h s =
     (case s k of None \<Rightarrow> s | Some e \<Rightarrow> put_entry k (filter (\<lambda>p. fst p \<noteq> h) e) s)"

definition mem_occupancy :: "rat \<Rightarrow> string \<Rightarrow> mem_store \<Rightarrow> nat \<times> mem_store" where
  "mem_occupancy now k s = (let (e, s1) = mem_live now k s in (length e, s1))"

definition mem_sweep_expired :: "rat \<Rightarrow> string \<Rightarrow> mem_store \<Rightarrow> nat \<times> mem_store" where
  "mem_sweep_expired now k s =
     (case s k of None \<Rightarrow> (0, s)
      | Some e \<Rightarrow> if e = [] then (0, s)
          else (length e - length (sweep now e), put_entry k (sweep now e) s))"

definition mem_refresh ::
  "rat \<Rightarrow> string \<Rightarrow> string \<Rightarrow> rat \<Rightarrow> mem_store \<Rightarrow> bool \<times> mem_store" where
  "mem_refresh now k h ttl s =
     (let (e, s1) = mem_live now k s in
      if h \<notin> names e then (False, s1)
      else (True, s1(k \<mapsto> set_expiry h (now + max ttl 0) e)))"

section \<open>Lua numbers\<close>

text \<open>
  The scripts write an expiry with \<open>tostring\<close>, which formats a number with \<open>%.14g\<close>: fourteen
  significant decimal digits, a tie going to the even digit. \<open>lua_number x\<close> is the number that
  reading the string back gives, for \<open>x\<close> at least 1 (the scripts store Unix times).
\<close>

fun decimal_digits :: "nat \<Rightarrow> nat" where
  "decimal_digits n = (if n < 10 then 1 else Suc (decimal_digits (n div 10)))"

declare decimal_digits.simps [simp del]

lemma decimal_digits_step:
  "n < 10 \<Longrightarrow> decimal_digits n = 1"
  "10 \<le> n \<Longrightarrow> decimal_digits n = Suc (decimal_digits (n div 10))"
  by (subst decimal_digits.simps, simp)+

definition round_half_even :: "rat \<Rightarrow> int" where
  "round_half_even y =
     (let f = \<lfloor>y\<rfloor>; d = y - of_int f in
      if d < 1 / 2 then f else if 1 / 2 < d then f + 1 else if even f then f else f + 1)"

definition lua_number :: "rat \<Rightarrow> rat" where
  "lua_number x =
     (let d = decimal_digits (nat \<lfloor>x\<rfloor>) in
      if d \<le> 14 then of_int (round_half_even (x * 10 ^ (14 - d))) / 10 ^ (14 - d)
      else of_int (round_half_even (x / 10 ^ (d - 14))) * 10 ^ (d - 14))"

lemma decimal_digits_le: "n < 10 ^ k \<Longrightarrow> 0 < k \<Longrightarrow> decimal_digits n \<le> k"
proof (induction k arbitrary: n)
  case (Suc k)
  show ?case
  proof (cases "n < 10")
    case False
    then have "n div 10 < 10 ^ k" and "0 < k" using Suc.prems by (cases k; auto)+
    then show ?thesis using Suc.IH False by (subst decimal_digits.simps) simp
  qed (subst decimal_digits.simps, simp)
qed simp

lemma round_half_even_error: "\<bar>of_int (round_half_even y) - y\<bar> \<le> 1 / 2"
proof -
  have "of_int \<lfloor>y\<rfloor> \<le> y" "y < of_int \<lfloor>y\<rfloor> + 1" by linarith+
  then show ?thesis unfolding round_half_even_def Let_def abs_le_iff by (auto; linarith)
qed

text \<open>Up to the year 2286 an expiry moves by at most half of the fourth decimal.\<close>

lemma lua_number_error:
  assumes "x < 10 ^ 10"
  shows "\<bar>lua_number x - x\<bar> \<le> 1 / 20000"
proof -
  define n where "n = 14 - decimal_digits (nat \<lfloor>x\<rfloor>)"
  define u where "u = (10::rat) ^ n"
  have "\<lfloor>x\<rfloor> < 10 ^ 10" using assms by (simp add: floor_less_iff)
  then have "nat \<lfloor>x\<rfloor> < nat (10 ^ 10)" by (simp only: zless_nat_conj) simp
  then have "nat \<lfloor>x\<rfloor> < 10 ^ 10" by (simp only: nat_power_eq) simp
  then have d: "decimal_digits (nat \<lfloor>x\<rfloor>) \<le> 10" by (rule decimal_digits_le) simp
  then have "(10::rat) ^ 4 \<le> u" unfolding u_def by (intro power_increasing) (simp_all add: n_def)
  then have u: "10000 \<le> u" by simp
  have "lua_number x = of_int (round_half_even (x * u)) / u"
    using d by (simp add: lua_number_def Let_def n_def u_def)
  then have "lua_number x - x = (of_int (round_half_even (x * u)) - x * u) / u"
    using u by (simp add: field_simps)
  then have "\<bar>lua_number x - x\<bar> = \<bar>of_int (round_half_even (x * u)) - x * u\<bar> / u"
    using u by simp
  also have "\<dots> \<le> (1 / 2) / 10000"
    using u round_half_even_error [of "x * u"] by (intro frac_le) auto
  finally show ?thesis by simp
qed

section \<open>The Redis store\<close>

text \<open>
  One hash per key; an empty hash does not exist. \<open>now\<close> is the server clock read inside the
  script. \<open>HSETNX\<close> returns 1 exactly when the field was absent.
\<close>

type_synonym redis_store = "string \<Rightarrow> holders"

definition redis_try_acquire ::
  "rat \<Rightarrow> string \<Rightarrow> string \<Rightarrow> rat \<Rightarrow> int \<Rightarrow> redis_store \<Rightarrow> bool \<times> redis_store" where
  "redis_try_acquire now k h ttl budget s =
     (let e = sweep now (s k); s1 = s(k := e) in
      if budget > 0 \<and> int (length e) \<ge> budget then (False, s1)
      else if h \<in> names e then (False, s1)
      else (True, s1(k := e @ [(h, lua_number (now + max ttl 0))])))"

definition redis_release :: "string \<Rightarrow> string \<Rightarrow> redis_store \<Rightarrow> redis_store" where
  "redis_release k h s = s(k := filter (\<lambda>p. fst p \<noteq> h) (s k))"

definition redis_occupancy :: "rat \<Rightarrow> string \<Rightarrow> redis_store \<Rightarrow> nat \<times> redis_store" where
  "redis_occupancy now k s = (length (sweep now (s k)), s(k := sweep now (s k)))"

definition redis_sweep_expired :: "rat \<Rightarrow> string \<Rightarrow> redis_store \<Rightarrow> nat \<times> redis_store" where
  "redis_sweep_expired now k s =
     (length (s k) - length (sweep now (s k)), s(k := sweep now (s k)))"

definition redis_refresh ::
  "rat \<Rightarrow> string \<Rightarrow> string \<Rightarrow> rat \<Rightarrow> redis_store \<Rightarrow> bool \<times> redis_store" where
  "redis_refresh now k h ttl s =
     (if h \<in> names (s k) then (True, s(k := set_expiry h (lua_number (now + max ttl 0)) (s k)))
      else (False, s))"

section \<open>The contract\<close>

text \<open>
  \<open>table s k\<close> is what the store has registered for key \<open>k\<close>, live or not. An acquire is
  granted exactly when the live holders leave room and do not include the caller; nothing
  but a granted acquire registers a holder; a key's table is touched only by its own calls.
  \<open>stamp\<close> is what the store keeps of an expiry: all of it, or what \<open>tostring\<close> leaves.
\<close>

locale admission_store =
  fixes stamp :: "rat \<Rightarrow> rat"
    and table :: "'s \<Rightarrow> string \<Rightarrow> holders"
    and try_acquire :: "rat \<Rightarrow> string \<Rightarrow> string \<Rightarrow> rat \<Rightarrow> int \<Rightarrow> 's \<Rightarrow> bool \<times> 's"
    and release :: "string \<Rightarrow> string \<Rightarrow> 's \<Rightarrow> 's"
    and occupancy :: "rat \<Rightarrow> string \<Rightarrow> 's \<Rightarrow> nat \<times> 's"
    and sweep_expired :: "rat \<Rightarrow> string \<Rightarrow> 's \<Rightarrow> nat \<times> 's"
    and refresh :: "rat \<Rightarrow> string \<Rightarrow> string \<Rightarrow> rat \<Rightarrow> 's \<Rightarrow> bool \<times> 's"
  assumes acquire_granted:
      "fst (try_acquire now k h ttl b s) \<longleftrightarrow>
         \<not> (0 < b \<and> b \<le> int (length (sweep now (table s k)))) \<and> h \<notin> names (sweep now (table s k))"
    and acquire_table:
      "table (snd (try_acquire now k h ttl b s)) =
         (table s)(k := (if fst (try_acquire now k h ttl b s)
                         then sweep now (table s k) @ [(h, stamp (now + max ttl 0))]
                         else sweep now (table s k)))"
    and release_table:
      "table (release k h s) = (table s)(k := filter (\<lambda>p. fst p \<noteq> h) (table s k))"
    and occupancy_live: "fst (occupancy now k s) = length (sweep now (table s k))"
    and occupancy_table: "table (snd (occupancy now k s)) = (table s)(k := sweep now (table s k))"
    and sweep_count:
      "fst (sweep_expired now k s) = length (table s k) - length (sweep now (table s k))"
    and sweep_table: "table (snd (sweep_expired now k s)) = (table s)(k := sweep now (table s k))"
    and refresh_live:
      "h \<in> names (sweep now (table s k)) \<Longrightarrow> fst (refresh now k h ttl s)"
    and refresh_registered: "fst (refresh now k h ttl s) \<Longrightarrow> h \<in> names (table s k)"
    and refresh_others: "k' \<noteq> k \<Longrightarrow> table (snd (refresh now k h ttl s)) k' = table s k'"
    and refresh_table:
      "\<exists>e \<in> {table s k, sweep now (table s k)}. table (snd (refresh now k h ttl s)) k =
         (if fst (refresh now k h ttl s) then set_expiry h (stamp (now + max ttl 0)) e else e)"
begin

definition bounded :: "string \<Rightarrow> int \<Rightarrow> 's \<Rightarrow> bool" where
  "bounded k b s \<longleftrightarrow> wf_holders (table s k) \<and> int (length (table s k)) \<le> b"

lemma bounded_acquire:
  assumes "bounded k b s" and "0 < b" and "k' = k \<longrightarrow> b' = b"
  shows "bounded k b (snd (try_acquire now k' h ttl b' s))"
  using assms acquire_granted [of now k' h ttl b' s] length_sweep_bound [of "table s k" b now]
  by (auto simp: bounded_def acquire_table wf_snoc wf_sweep)

lemma bounded_release: "bounded k b s \<Longrightarrow> bounded k b (release k' h s)"
  by (auto simp: bounded_def release_table wf_holders_def distinct_map_filter length_filter_bound)

lemma bounded_swept:
  "bounded k b s \<Longrightarrow> table s' = (table s)(k' := sweep now (table s k')) \<Longrightarrow> bounded k b s'"
  by (auto simp: bounded_def length_sweep_bound)

lemma bounded_refresh:
  assumes "bounded k b s"
  shows "bounded k b (snd (refresh now k' h ttl s))"
proof (cases "k' = k")
  case True
  have "length (set_expiry h x e) = length e" for x e by (simp add: set_expiry_def)
  then show ?thesis
    using refresh_table [where s = s and k = k and now = now and h = h and ttl = ttl] assms True
    by (auto simp: bounded_def wf_sweep length_sweep_bound)
next
  case False
  then show ?thesis using assms by (simp add: bounded_def refresh_others)
qed

lemma dead_holders_do_not_block:
  assumes "\<forall>(h', x) \<in> set (table s k). x \<le> now"
  shows "fst (try_acquire now k h ttl b s)"
proof -
  have "sweep now (table s k) = []" using assms by (auto simp: sweep_def filter_empty_conv)
  then show ?thesis by (simp add: acquire_granted)
qed

lemma released_slot_is_free:
  assumes "bounded k b s" and "0 < b" and "h \<in> names (table s k)" and "h' \<notin> names (table s k)"
  shows "fst (try_acquire now k h' ttl b (release k h s))"
proof -
  let ?e = "filter (\<lambda>p. fst p \<noteq> h) (table s k)"
  have "length ?e < length (table s k)"
    using assms(3) by (auto simp: names_def intro!: length_filter_less)
  then have "int (length (sweep now ?e)) \<le> b - 1"
    using assms(1) by (intro length_sweep_bound) (simp add: bounded_def)
  moreover have "h' \<notin> names (sweep now ?e)"
    using assms(4) by (auto simp: names_def sweep_def)
  ultimately show ?thesis by (simp add: acquire_granted release_table)
qed

end

section \<open>Both stores keep the contract\<close>

definition mem_table :: "mem_store \<Rightarrow> string \<Rightarrow> holders" where
  "mem_table s k = (case s k of None \<Rightarrow> [] | Some e \<Rightarrow> e)"

lemma mem_table_put [simp]: "mem_table (put_entry k e s) = (mem_table s)(k := e)"
  by (auto simp: mem_table_def put_entry_def fun_eq_iff)

lemma mem_table_upd [simp]: "mem_table (s(k \<mapsto> e)) = (mem_table s)(k := e)"
  by (auto simp: mem_table_def fun_eq_iff)

lemma mem_live_eq:
  "mem_live now k s = (let e = sweep now (mem_table s k) in
     (e, if s k = None then s else put_entry k e s))"
  by (auto simp: mem_live_def mem_table_def Let_def sweep_def split: option.splits)

lemma mem_table_live [simp]:
  "mem_table (snd (mem_live now k s)) = (mem_table s)(k := sweep now (mem_table s k))"
  by (auto simp: mem_live_eq Let_def) (auto simp: mem_table_def sweep_def fun_eq_iff)

lemma fst_mem_live [simp]: "fst (mem_live now k s) = sweep now (mem_table s k)"
  by (simp add: mem_live_eq Let_def)

interpretation mem: admission_store "\<lambda>x. x" mem_table mem_try_acquire mem_release mem_occupancy
  mem_sweep_expired mem_refresh
proof
  fix now k h ttl b and s :: mem_store
  show "fst (mem_try_acquire now k h ttl b s) \<longleftrightarrow>
         \<not> (0 < b \<and> b \<le> int (length (sweep now (mem_table s k))))
         \<and> h \<notin> names (sweep now (mem_table s k))"
    by (auto simp: mem_try_acquire_def Let_def case_prod_unfold)
  show "mem_table (snd (mem_try_acquire now k h ttl b s)) =
         (mem_table s)(k := (if fst (mem_try_acquire now k h ttl b s)
                         then sweep now (mem_table s k) @ [(h, now + max ttl 0)]
                         else sweep now (mem_table s k)))"
    by (simp add: mem_try_acquire_def Let_def case_prod_unfold)
next
  fix k h and s :: mem_store
  show "mem_table (mem_release k h s) = (mem_table s)(k := filter (\<lambda>p. fst p \<noteq> h) (mem_table s k))"
    by (cases "s k") (auto simp: mem_release_def mem_table_def fun_eq_iff put_entry_def)
next
  fix now k and s :: mem_store
  show "fst (mem_occupancy now k s) = length (sweep now (mem_table s k))"
    and "mem_table (snd (mem_occupancy now k s)) = (mem_table s)(k := sweep now (mem_table s k))"
    by (simp_all add: mem_occupancy_def Let_def case_prod_unfold)
  show "fst (mem_sweep_expired now k s)
        = length (mem_table s k) - length (sweep now (mem_table s k))"
    and "mem_table (snd (mem_sweep_expired now k s))
        = (mem_table s)(k := sweep now (mem_table s k))"
    by (cases "s k"; auto simp: mem_sweep_expired_def mem_table_def sweep_def fun_eq_iff
        put_entry_def)+
next
  fix now k h ttl and s :: mem_store
  show "h \<in> names (sweep now (mem_table s k)) \<Longrightarrow> fst (mem_refresh now k h ttl s)"
    by (simp add: mem_refresh_def Let_def case_prod_unfold)
  show "fst (mem_refresh now k h ttl s) \<Longrightarrow> h \<in> names (mem_table s k)"
    using names_sweep_subset [of now "mem_table s k"]
    by (auto simp: mem_refresh_def Let_def case_prod_unfold split: if_splits)
  show "\<exists>e \<in> {mem_table s k, sweep now (mem_table s k)}. mem_table (snd (mem_refresh now k h ttl s)) k =
         (if fst (mem_refresh now k h ttl s) then set_expiry h (now + max ttl 0) e else e)"
    by (simp add: mem_refresh_def Let_def case_prod_unfold)
  fix k'
  show "k' \<noteq> k \<Longrightarrow> mem_table (snd (mem_refresh now k h ttl s)) k' = mem_table s k'"
    by (simp add: mem_refresh_def Let_def case_prod_unfold)
qed

interpretation redis: admission_store lua_number "\<lambda>s. s" redis_try_acquire redis_release redis_occupancy
  redis_sweep_expired redis_refresh
  by unfold_locales
    (auto simp: redis_try_acquire_def redis_release_def redis_occupancy_def
      redis_sweep_expired_def redis_refresh_def Let_def
      dest: subsetD [OF names_sweep_subset] split: if_splits)

section \<open>Runs\<close>

datatype store_op =
    TryAcquire string string rat int
  | ReleaseSlot string string
  | Occupancy string
  | SweepExpired string
  | Refresh string string rat

fun mem_exec :: "rat \<times> store_op \<Rightarrow> mem_store \<Rightarrow> mem_store" where
  "mem_exec (now, TryAcquire k h ttl b) s = snd (mem_try_acquire now k h ttl b s)"
| "mem_exec (now, ReleaseSlot k h) s = mem_release k h s"
| "mem_exec (now, Occupancy k) s = snd (mem_occupancy now k s)"
| "mem_exec (now, SweepExpired k) s = snd (mem_sweep_expired now k s)"
| "mem_exec (now, Refresh k h ttl) s = snd (mem_refresh now k h ttl s)"

fun redis_exec :: "rat \<times> store_op \<Rightarrow> redis_store \<Rightarrow> redis_store" where
  "redis_exec (now, TryAcquire k h ttl b) s = snd (redis_try_acquire now k h ttl b s)"
| "redis_exec (now, ReleaseSlot k h) s = redis_release k h s"
| "redis_exec (now, Occupancy k) s = snd (redis_occupancy now k s)"
| "redis_exec (now, SweepExpired k) s = snd (redis_sweep_expired now k s)"
| "redis_exec (now, Refresh k h ttl) s = snd (redis_refresh now k h ttl s)"

text \<open>Every caller acquires key \<open>k\<close> against the same budget.\<close>

fun uses_budget :: "string \<Rightarrow> int \<Rightarrow> rat \<times> store_op \<Rightarrow> bool" where
  "uses_budget k b (now, TryAcquire k' h ttl b') = (k' = k \<longrightarrow> b' = b)"
| "uses_budget k b _ = True"

lemma mem_exec_bounded:
  "mem.bounded k b s \<Longrightarrow> 0 < b \<Longrightarrow> uses_budget k b x \<Longrightarrow> mem.bounded k b (mem_exec x s)"
  by (cases "(x, s)" rule: mem_exec.cases)
    (auto intro: mem.bounded_acquire mem.bounded_release mem.bounded_refresh
      mem.bounded_swept mem.occupancy_table mem.sweep_table)

lemma redis_exec_bounded:
  "redis.bounded k b s \<Longrightarrow> 0 < b \<Longrightarrow> uses_budget k b x \<Longrightarrow> redis.bounded k b (redis_exec x s)"
  by (cases "(x, s)" rule: redis_exec.cases)
    (auto intro: redis.bounded_acquire redis.bounded_release redis.bounded_refresh
      redis.bounded_swept redis.occupancy_table redis.sweep_table)

lemma mem_empty_bounded: "0 < b \<Longrightarrow> mem.bounded k b Map.empty"
  by (simp add: mem.bounded_def wf_holders_def) (simp add: mem_table_def)

lemma redis_empty_bounded: "0 < b \<Longrightarrow> redis.bounded k b (\<lambda>_. [])"
  by (simp add: redis.bounded_def wf_holders_def)

lemma fold_bounded:
  assumes "\<And>x s. P s \<Longrightarrow> Q x \<Longrightarrow> P (f x s)" and "P s" and "\<forall>x \<in> set xs. Q x"
  shows "P (fold f xs s)"
  using assms(2,3) by (induction xs arbitrary: s) (auto intro: assms(1))

text \<open>
  C35 No oversubscription: from an empty store, whatever acquires, releases, sweeps,
  occupancy reads and renewals are run, a key acquired against budget \<open>b > 0\<close> never has
  more than \<open>b\<close> registered holders, in the in-process store and in the Redis store.
\<close>

theorem budget_never_exceeded:
  assumes "0 < b" and "\<forall>x \<in> set xs. uses_budget k b x"
  shows "int (length (mem_table (fold mem_exec xs Map.empty) k)) \<le> b
       \<and> int (length (fold redis_exec xs (\<lambda>_. []) k)) \<le> b"
proof -
  have "mem.bounded k b (fold mem_exec xs Map.empty)"
    by (rule fold_bounded [where P = "mem.bounded k b" and Q = "uses_budget k b"])
      (use assms in \<open>auto simp: mem_exec_bounded mem_empty_bounded\<close>)
  moreover have "redis.bounded k b (fold redis_exec xs (\<lambda>_. []))"
    by (rule fold_bounded [where P = "redis.bounded k b" and Q = "uses_budget k b"])
      (use assms in \<open>auto simp: redis_exec_bounded redis_empty_bounded\<close>)
  ultimately show ?thesis by (simp add: mem.bounded_def redis.bounded_def)
qed

theorem budget_never_exceeded_witness:
  "int (length (fold redis_exec [(0, TryAcquire ''llm'' ''a'' 30 1), (1, TryAcquire ''llm'' ''b'' 30 1)]
     (\<lambda>_. []) ''llm'')) \<le> 1"
  using budget_never_exceeded [of 1 "[(0, TryAcquire ''llm'' ''a'' 30 1),
      (1, TryAcquire ''llm'' ''b'' 30 1)]" "''llm''"] by simp

section \<open>Refinement\<close>

text \<open>What a call answers, in both stores; a release answers nothing.\<close>

datatype answer = Done bool | Counted nat | Silent

fun mem_answer :: "rat \<times> store_op \<Rightarrow> mem_store \<Rightarrow> answer" where
  "mem_answer (now, TryAcquire k h ttl b) s = Done (fst (mem_try_acquire now k h ttl b s))"
| "mem_answer (now, ReleaseSlot k h) s = Silent"
| "mem_answer (now, Occupancy k) s = Counted (fst (mem_occupancy now k s))"
| "mem_answer (now, SweepExpired k) s = Counted (fst (mem_sweep_expired now k s))"
| "mem_answer (now, Refresh k h ttl) s = Done (fst (mem_refresh now k h ttl s))"

fun redis_answer :: "rat \<times> store_op \<Rightarrow> redis_store \<Rightarrow> answer" where
  "redis_answer (now, TryAcquire k h ttl b) s = Done (fst (redis_try_acquire now k h ttl b s))"
| "redis_answer (now, ReleaseSlot k h) s = Silent"
| "redis_answer (now, Occupancy k) s = Counted (fst (redis_occupancy now k s))"
| "redis_answer (now, SweepExpired k) s = Counted (fst (redis_sweep_expired now k s))"
| "redis_answer (now, Refresh k h ttl) s = Done (fst (redis_refresh now k h ttl s))"

fun answers :: "(rat \<times> store_op \<Rightarrow> 's \<Rightarrow> answer) \<Rightarrow> (rat \<times> store_op \<Rightarrow> 's \<Rightarrow> 's)
    \<Rightarrow> (rat \<times> store_op) list \<Rightarrow> 's \<Rightarrow> answer list" where
  "answers ans ex [] s = []"
| "answers ans ex (x # xs) s = ans x s # answers ans ex xs (ex x s)"

text \<open>
  Two things tell the stores apart. A renewal: the in-process store sweeps before it looks,
  the Redis script does not; \<open>timely\<close> excludes renewals of a key with an expired holder. And
  the rounding of expiries: \<open>timely\<close> excludes calls that look at a key within the rounding of
  one of its expiries. Expiries lie before the year 2286.
\<close>

definition off_expiries :: "rat \<Rightarrow> holders \<Rightarrow> bool" where
  "off_expiries now e \<longleftrightarrow>
     list_all (\<lambda>(h, x). x + 1 / 20000 \<le> now \<or> now + 1 / 20000 < x) e"

fun timely :: "rat \<times> store_op \<Rightarrow> mem_store \<Rightarrow> bool" where
  "timely (now, TryAcquire k h ttl b) s =
     (off_expiries now (mem_table s k) \<and> now + max ttl 0 < 10 ^ 10)"
| "timely (now, ReleaseSlot k h) s = True"
| "timely (now, Occupancy k) s = off_expiries now (mem_table s k)"
| "timely (now, SweepExpired k) s = off_expiries now (mem_table s k)"
| "timely (now, Refresh k h ttl) s =
     (list_all (\<lambda>(h, x). now < x) (mem_table s k) \<and> now + max ttl 0 < 10 ^ 10)"

fun timely_run :: "(rat \<times> store_op) list \<Rightarrow> mem_store \<Rightarrow> bool" where
  "timely_run [] s = True"
| "timely_run (x # xs) s = (timely x s \<and> timely_run xs (mem_exec x s))"

text \<open>The abstraction: the Redis table is the in-process one with every expiry rounded.\<close>

definition rounded :: "holders \<Rightarrow> holders" where
  "rounded e = map (\<lambda>(h, x). (h, lua_number x)) e"

definition epochs_ok :: "mem_store \<Rightarrow> bool" where
  "epochs_ok s \<longleftrightarrow> (\<forall>k. \<forall>(h, x) \<in> set (mem_table s k). x < 10 ^ 10)"

definition rounds_to :: "mem_store \<Rightarrow> redis_store \<Rightarrow> bool" where
  "rounds_to s r \<longleftrightarrow> (\<forall>k. r k = rounded (mem_table s k))"

lemma names_rounded [simp]: "names (rounded e) = names e"
  by (force simp: names_def rounded_def)

lemma rounded_simps [simp]:
  "rounded [] = []" "rounded (e @ [(h, x)]) = rounded e @ [(h, lua_number x)]"
  "length (rounded e) = length e"
  "filter (\<lambda>p. fst p \<noteq> h) (rounded e) = rounded (filter (\<lambda>p. fst p \<noteq> h) e)"
  "set_expiry h (lua_number x) (rounded e) = rounded (set_expiry h x e)"
  by (simp_all add: rounded_def filter_map comp_def case_prod_unfold set_expiry_def)

lemma sweep_rounded:
  assumes "off_expiries now e" and "\<forall>(h, x) \<in> set e. x < 10 ^ 10"
  shows "sweep now (rounded e) = rounded (sweep now e)"
proof -
  have "lua_number x \<le> now \<longleftrightarrow> x \<le> now" if "(h, x) \<in> set e" for h x
  proof -
    have "\<bar>lua_number x - x\<bar> \<le> 1 / 20000" using assms(2) that by (intro lua_number_error) auto
    moreover have "x + 1 / 20000 \<le> now \<or> now + 1 / 20000 < x"
      using assms(1) that by (auto simp: off_expiries_def list_all_iff)
    ultimately show ?thesis by (auto simp: abs_if split: if_splits)
  qed
  then show ?thesis
    by (auto simp: sweep_def rounded_def filter_map comp_def case_prod_unfold
        intro!: map_cong filter_cong)
qed

lemma sweep_live: "list_all (\<lambda>(h, x). now < x) e \<Longrightarrow> sweep now e = e"
  by (auto simp: sweep_def filter_id_conv list_all_iff)

lemma in_set_expiry: "(h', y) \<in> set (set_expiry h x e) \<Longrightarrow> y = x \<or> (h', y) \<in> set e"
  by (auto simp: set_expiry_def split: if_splits)

lemma timely_epochs: "timely x s \<Longrightarrow> epochs_ok s \<Longrightarrow> epochs_ok (mem_exec x s)"
proof (induction x s rule: mem_exec.induct)
  case (5 now k h ttl s)
  then have "mem_table (snd (mem_refresh now k h ttl s)) =
      (if h \<in> names (mem_table s k)
       then (mem_table s)(k := set_expiry h (now + max ttl 0) (mem_table s k)) else mem_table s)"
    using sweep_live [of now "mem_table s k"]
    by (auto simp: mem_refresh_def Let_def case_prod_unfold fun_eq_iff)
  then show ?case using 5 by (auto simp: epochs_ok_def dest!: in_set_expiry)
qed (auto simp: epochs_ok_def mem.acquire_table mem.release_table mem.occupancy_table
      mem.sweep_table, auto simp: sweep_def)

lemma rounds_to_step:
  assumes "timely x s" and "epochs_ok s" and "rounds_to s r"
  shows "redis_answer x r = mem_answer x s \<and> rounds_to (mem_exec x s) (redis_exec x r)"
proof -
  have r: "r k = rounded (mem_table s k)" for k using assms(3) by (simp add: rounds_to_def)
  have sw: "sweep now (r k) = rounded (sweep now (mem_table s k))"
    if "off_expiries now (mem_table s k)" for now k
    unfolding r using assms(2) that by (intro sweep_rounded) (auto simp: epochs_ok_def)
  obtain now op where x: "x = (now, op)" by (cases x)
  show ?thesis
  proof (cases op)
    case (TryAcquire k h ttl b)
    then have "off_expiries now (mem_table s k)" using assms(1) x by simp
    from sw [OF this] show ?thesis
      by (auto simp: x TryAcquire rounds_to_def redis.acquire_table redis.acquire_granted
          mem.acquire_table mem.acquire_granted r)
  next
    case (ReleaseSlot k h)
    then show ?thesis by (simp add: x rounds_to_def mem.release_table redis_release_def r)
  next
    case (Occupancy k)
    then have "off_expiries now (mem_table s k)" using assms(1) x by simp
    from sw [OF this] show ?thesis
      by (simp add: x Occupancy rounds_to_def redis.occupancy_table redis.occupancy_live
          mem.occupancy_table mem.occupancy_live r)
  next
    case (SweepExpired k)
    then have "off_expiries now (mem_table s k)" using assms(1) x by simp
    from sw [OF this] show ?thesis
      by (simp add: x SweepExpired rounds_to_def redis.sweep_table redis.sweep_count
          mem.sweep_table mem.sweep_count r)
  next
    case (Refresh k h ttl)
    then have "sweep now (mem_table s k) = mem_table s k"
      using assms(1) x by (simp add: sweep_live)
    then show ?thesis
      by (auto simp: x Refresh rounds_to_def mem_refresh_def redis_refresh_def Let_def
          case_prod_unfold r)
  qed
qed

text \<open>
  C38 The Redis store refines the in-process reference store up to the rounding of its
  expiries: as long as renewals reach a key before any of its holders has expired and no
  other call looks at a key within 1/20000 of a second of one of its expiries, every call
  has the same answer in both, and the tables hold the same holders in the same order, in
  Redis with the expiries that \<open>tostring\<close> leaves, less than a ten-thousandth of a second off.
\<close>

theorem redis_refines_memory:
  assumes "timely_run xs s" and "epochs_ok s" and "rounds_to s r"
  shows "answers redis_answer redis_exec xs r = answers mem_answer mem_exec xs s
       \<and> (\<forall>k. fold redis_exec xs r k = rounded (mem_table (fold mem_exec xs s) k))
       \<and> (\<forall>k. \<forall>(h, x) \<in> set (mem_table (fold mem_exec xs s) k). \<bar>lua_number x - x\<bar> \<le> 1 / 20000)"
  using assms
proof (induction xs arbitrary: s r)
  case Nil
  then show ?case using lua_number_error by (force simp: rounds_to_def epochs_ok_def)
next
  case (Cons x xs)
  then have "redis_answer x r = mem_answer x s" and "rounds_to (mem_exec x s) (redis_exec x r)"
    using rounds_to_step by auto
  moreover have "epochs_ok (mem_exec x s)" using Cons.prems timely_epochs by simp
  ultimately show ?case using Cons.IH [of "mem_exec x s" "redis_exec x r"] Cons.prems by simp
qed

theorem redis_refines_memory_witness:
  "answers redis_answer redis_exec
     [(17 * 10 ^ 8 + 1 / 3, TryAcquire ''llm'' ''a'' 30 1), (17 * 10 ^ 8 + 20, Refresh ''llm'' ''a'' 30)]
     (\<lambda>_. [])
   = answers mem_answer mem_exec
     [(17 * 10 ^ 8 + 1 / 3, TryAcquire ''llm'' ''a'' 30 1), (17 * 10 ^ 8 + 20, Refresh ''llm'' ''a'' 30)]
     Map.empty"
  using redis_refines_memory [of "[(17 * 10 ^ 8 + 1 / 3, TryAcquire ''llm'' ''a'' 30 1),
      (17 * 10 ^ 8 + 20, Refresh ''llm'' ''a'' 30)]" Map.empty "\<lambda>_. []"]
  by (simp add: mem_table_def epochs_ok_def rounds_to_def off_expiries_def mem_try_acquire_def
      mem_live_def)

text \<open>The rounding is real: this expiry is stored a thirtieth of a millisecond early.\<close>

lemma lua_number_rounds: "lua_number (17 * 10 ^ 8 + 91 / 3) = 17 * 10 ^ 8 + 303333 / 10000"
proof -
  let ?x = "17 * 10 ^ 8 + 91 / 3 :: rat"
  have "\<lfloor>?x\<rfloor> = 1700000030" and f: "\<lfloor>?x * 10 ^ 4\<rfloor> = 17000000303333"
    by (simp_all add: floor_eq_iff)
  moreover have "decimal_digits 1700000030 = 10" by (simp add: decimal_digits_step)
  ultimately have "lua_number ?x = of_int (round_half_even (?x * 10 ^ 4)) / 10 ^ 4"
    by (simp only: lua_number_def Let_def nat_numeral) simp
  also have "round_half_even (?x * 10 ^ 4) = 17000000303333"
    unfolding round_half_even_def Let_def f by simp
  finally show ?thesis by simp
qed

text \<open>
  A late renewal does resurrect a dead holder in Redis: its TTL passed at 30, nothing
  swept it, and the renewal at 40 reports it alive and extends it, where the in-process
  store refuses. The script's comment promises that a dead holder is never resurrected.
\<close>

theorem redis_refresh_resurrects:
  "let xs = [(0, TryAcquire ''llm'' ''a'' 30 1)] in
     mem_table (fold mem_exec xs Map.empty) = fold redis_exec xs (\<lambda>_. [])
     \<and> fst (mem_refresh 40 ''llm'' ''a'' 30 (fold mem_exec xs Map.empty)) = False
     \<and> redis_refresh 40 ''llm'' ''a'' 30 (fold redis_exec xs (\<lambda>_. []))
        = (True, (\<lambda>_. [])(''llm'' := [(''a'', 70)]))"
  by (simp add: Let_def mem_try_acquire_def mem_live_def redis_try_acquire_def mem_refresh_def
      redis_refresh_def sweep_def names_def put_entry_def set_expiry_def mem_table_def fun_eq_iff
      lua_number_def decimal_digits_step round_half_even_def)

text \<open>
  Crash recovery and reuse: holders whose TTL has passed never block an acquire, and a
  released slot is free for another holder at once, in both stores.
\<close>

theorem dead_and_released_slots_are_free:
  assumes "\<forall>(h', x) \<in> set (mem_table s k). x \<le> now"
  shows "fst (mem_try_acquire now k h ttl b s)
       \<and> fst (redis_try_acquire now k h ttl b (mem_table s))"
  using assms mem.dead_holders_do_not_block redis.dead_holders_do_not_block by blast

theorem dead_and_released_slots_are_free_witness:
  "fst (mem_try_acquire 40 ''llm'' ''b'' 30 1 [''llm'' \<mapsto> [(''a'', 30)]])"
  using dead_and_released_slots_are_free [of "[''llm'' \<mapsto> [(''a'', 30)]]" "''llm''" 40 "''b''" 30 1]
  by (simp add: mem_table_def)

end
