(* ===== verification/Authz_Policy.thy ===== *)
theory Authz_Policy
  imports Prelude
begin

text \<open>
  \<^verbatim>\<open>backend/app/services/authz_policy.py\<close> and the permission helpers of
  \<^verbatim>\<open>backend/app/api/deps.py\<close>: who may do what on a vault. The tables are lists of rows;
  the four grant queries are comprehensions over them. Roles, permissions and actions stay
  strings, because the code looks them up with defaults.
\<close>

section \<open>Tables and principals\<close>

record vault_row =
  vlt_id :: nat
  vlt_visibility :: string
  vlt_org :: "nat option"

record member_row =
  vm_vault :: nat
  vm_user :: nat
  vm_permission :: string
  vm_granted_by :: "nat option"

record access_row =
  vga_vault :: nat
  vga_group :: nat
  vga_permission :: string
  vga_granted_by :: "nat option"

record authz_db =
  vaults :: "vault_row list"
  vault_members :: "member_row list"
  group_access :: "access_row list"
  group_members :: "(nat \<times> nat) list"   \<comment> \<open>group, user\<close>
  groups :: "(nat \<times> nat) list"   \<comment> \<open>group, org\<close>
  organizations :: "nat list"
  org_member_rows :: "(nat \<times> nat \<times> string) list"   \<comment> \<open>org, user, role\<close>
  users :: "(nat \<times> bool) list"   \<comment> \<open>user, is_active\<close>
  removed_flags :: "nat list"   \<comment> \<open>users with a \<open>vault_members.removed.user\<close> flag\<close>

definition org_members :: "authz_db \<Rightarrow> (nat \<times> nat) list" where
  "org_members db = map (\<lambda>(org, u, role). (org, u)) (org_member_rows db)"

datatype principal_id = UserId nat | OtherId string | NoId

record principal =
  p_id :: principal_id
  p_role :: string

definition permission_level :: "string \<Rightarrow> nat" where
  "permission_level p =
     (if p = ''read'' then 1 else if p = ''write'' then 2 else if p = ''admin'' then 3 else 0)"

definition permission_name :: "nat \<Rightarrow> string option" where
  "permission_name n =
     (if n = 1 then Some ''read'' else if n = 2 then Some ''write''
      else if n = 3 then Some ''admin'' else None)"

definition action_level :: "string \<Rightarrow> nat" where
  "action_level a =
     (if a = ''read'' then 1 else if a = ''write'' then 2 else if a = ''delete'' then 3
      else if a = ''admin'' then 3 else 1)"

section \<open>The admin inventory\<close>

definition excluded :: "nat option \<Rightarrow> nat \<Rightarrow> bool" where
  "excluded x n \<longleftrightarrow> x = Some n"

definition in_org :: "authz_db \<Rightarrow> nat \<Rightarrow> nat \<Rightarrow> bool" where
  "in_org db org u \<longleftrightarrow> (\<exists>(o', u') \<in> set (org_members db). o' = org \<and> u' = u)"

definition direct_vault_admin_ids :: "authz_db \<Rightarrow> nat \<Rightarrow> nat option \<Rightarrow> nat set" where
  "direct_vault_admin_ids db v excl_user =
     set [vm_user r. r \<leftarrow> vault_members db, vm_vault r = v \<and> vm_permission r = ''admin''
            \<and> \<not> excluded excl_user (vm_user r)]"

definition group_derived_vault_admin_ids ::
  "authz_db \<Rightarrow> nat \<Rightarrow> nat option \<Rightarrow> nat option \<Rightarrow> nat set" where
  "group_derived_vault_admin_ids db v excl_user excl_group =
     set [u. a \<leftarrow> group_access db, (g, u) \<leftarrow> group_members db, (g', org) \<leftarrow> groups db,
            vga_group a = g \<and> g' = g \<and> vga_vault a = v \<and> vga_permission a = ''admin''
            \<and> \<not> excluded excl_group (vga_group a)
            \<and> in_org db org u \<and> \<not> excluded excl_user u]"

section \<open>Effective permissions\<close>

definition is_user :: "principal \<Rightarrow> nat \<Rightarrow> bool" where
  "is_user p u \<longleftrightarrow> p_id p = UserId u"

definition principal_in_org :: "authz_db \<Rightarrow> principal \<Rightarrow> nat \<Rightarrow> bool" where
  "principal_in_org db p org \<longleftrightarrow>
     (\<exists>(o', u') \<in> set (org_members db). o' = org \<and> is_user p u')"

definition query_vault_members :: "authz_db \<Rightarrow> principal \<Rightarrow> nat list \<Rightarrow> (nat \<times> string) list" where
  "query_vault_members db p vs =
     [(vm_vault r, vm_permission r). r \<leftarrow> vault_members db,
        is_user p (vm_user r) \<and> vm_vault r \<in> set vs]"

definition query_group_access :: "authz_db \<Rightarrow> principal \<Rightarrow> nat list \<Rightarrow> (nat \<times> string) list" where
  "query_group_access db p vs =
     [(vga_vault a, vga_permission a). a \<leftarrow> group_access db, (g, u) \<leftarrow> group_members db,
        (g', org) \<leftarrow> groups db,
        vga_group a = g \<and> g' = g \<and> is_user p u \<and> vga_vault a \<in> set vs
        \<and> principal_in_org db p org]"

definition query_public_vaults :: "authz_db \<Rightarrow> principal \<Rightarrow> nat list \<Rightarrow> nat list" where
  "query_public_vaults db p vs =
     [vlt_id v. v \<leftarrow> vaults db, vlt_visibility v = ''public'' \<and> vlt_id v \<in> set vs
        \<and> (case vlt_org v of None \<Rightarrow> True | Some org \<Rightarrow> principal_in_org db p org)]"

definition query_org_vaults :: "authz_db \<Rightarrow> principal \<Rightarrow> nat list \<Rightarrow> nat list" where
  "query_org_vaults db p vs =
     [vlt_id v. v \<leftarrow> vaults db, vlt_visibility v = ''org'' \<and> vlt_id v \<in> set vs
        \<and> (case vlt_org v of None \<Rightarrow> False | Some org \<Rightarrow> principal_in_org db p org)]"

text \<open>\<open>list(dict.fromkeys(xs))\<close>: the first occurrences, in order.\<close>

definition dict_fromkeys :: "'a list \<Rightarrow> 'a list" where
  "dict_fromkeys xs = rev (remdups (rev xs))"

fun raise_level :: "nat \<times> nat \<Rightarrow> (nat \<Rightarrow> nat) \<Rightarrow> (nat \<Rightarrow> nat)" where
  "raise_level (v, l) levels = levels(v := max (levels v) l)"

text \<open>The result dict as an association list in insertion order.\<close>

definition get_effective_vault_permissions ::
  "authz_db \<Rightarrow> principal \<Rightarrow> nat list \<Rightarrow> (nat \<times> string option) list" where
  "get_effective_vault_permissions db p vault_ids =
     (let ids = dict_fromkeys vault_ids in
      if p_id p = NoId \<or> ids = [] then []
      else if p_role p = ''superadmin'' then map (\<lambda>v. (v, Some ''admin'')) ids
      else
        (let baseline = (if p_role p = ''admin'' then 2 else 0);
             l1 = fold raise_level
                    (map (\<lambda>(v, m). (v, permission_level m)) (query_vault_members db p ids))
                    (\<lambda>_. baseline);
             l2 = fold raise_level
                    (map (\<lambda>(v, m). (v, permission_level m)) (query_group_access db p ids)) l1;
             l3 = fold raise_level (map (\<lambda>v. (v, 1)) (query_public_vaults db p ids)) l2;
             l4 = fold raise_level (map (\<lambda>v. (v, 1)) (query_org_vaults db p ids)) l3
         in map (\<lambda>v. (v, permission_name (l4 v))) ids))"

definition get_effective_vault_permission ::
  "authz_db \<Rightarrow> principal \<Rightarrow> nat option \<Rightarrow> string option" where
  "get_effective_vault_permission db p vault_id =
     (case vault_id of None \<Rightarrow> None
      | Some v \<Rightarrow> (case map_of (get_effective_vault_permissions db p [v]) v of
                   None \<Rightarrow> None | Some m \<Rightarrow> m))"

definition evaluate_policy ::
  "authz_db \<Rightarrow> principal \<Rightarrow> string \<Rightarrow> nat option \<Rightarrow> string \<Rightarrow> bool" where
  "evaluate_policy db p resource_type resource_id action =
     (if p_id p = NoId then False
      else if resource_type \<noteq> ''vault'' \<and> resource_type \<noteq> ''group''
        then p_role p = ''superadmin''
      else if resource_type = ''group'' then p_role p = ''superadmin'' \<or> p_role p = ''admin''
      else if resource_id = None then False
      else if p_role p = ''superadmin'' then True
      else
        (let eff = (case get_effective_vault_permission db p resource_id of
                      None \<Rightarrow> permission_level '''' | Some m \<Rightarrow> permission_level m)
         in eff \<ge> action_level action))"

section \<open>Helpers of the dependency layer\<close>

text \<open>\<open>UserRole.level\<close>, on the ASCII role names the application stores.\<close>

definition role_level :: "string \<Rightarrow> nat" where
  "role_level r =
     (let n = nocase (lit r) in
      if n = lit ''viewer'' then 1 else if n = lit ''member'' then 2
      else if n = lit ''admin'' then 3 else if n = lit ''superadmin'' then 4 else 0)"

definition require_vault_permission ::
  "authz_db \<Rightarrow> string list \<Rightarrow> principal \<Rightarrow> nat \<Rightarrow> http_error + principal" where
  "require_vault_permission db actions p v =
     (if list_ex (evaluate_policy db p ''vault'' (Some v)) actions then Inr p else Inl (Http 403))"

definition require_role :: "string \<Rightarrow> principal \<Rightarrow> http_error + principal" where
  "require_role role p = (if role_level (p_role p) < role_level role then Inl (Http 403) else Inr p)"

definition require_admin_role :: "principal \<Rightarrow> http_error + principal" where
  "require_admin_role p = (if role_level (p_role p) < 3 then Inl (Http 403) else Inr p)"

definition get_user_accessible_vault_ids :: "authz_db \<Rightarrow> principal \<Rightarrow> nat list" where
  "get_user_accessible_vault_ids db p =
     (if p_role p = ''superadmin'' \<or> p_role p = ''admin'' then []
      else map fst (filter (\<lambda>(v, m). m \<noteq> None)
             (get_effective_vault_permissions db p (map vlt_id (vaults db)))))"

definition get_user_orgs :: "nat \<Rightarrow> authz_db \<Rightarrow> nat list" where
  "get_user_orgs u db = map fst (filter (\<lambda>(_, u'). u' = u) (org_members db))"

datatype org_error = MultipleOrgError "nat list"

definition get_user_primary_org :: "nat \<Rightarrow> authz_db \<Rightarrow> org_error + nat option" where
  "get_user_primary_org u db =
     (let orgs = get_user_orgs u db in
      if length orgs = 0 then Inr None
      else if length orgs = 1 then Inr (Some (orgs ! 0))
      else Inl (MultipleOrgError orgs))"

definition resolve_granted_by :: "principal \<Rightarrow> nat option" where
  "resolve_granted_by p =
     (case p_id p of UserId u \<Rightarrow> if u \<noteq> 0 then Some u else None | _ \<Rightarrow> None)"

section \<open>The effective level\<close>

lemma fold_raise_level:
  "n \<le> fold raise_level rs m v \<longleftrightarrow> n \<le> m v \<or> (\<exists>l. (v, l) \<in> set rs \<and> n \<le> l)"
proof (induction rs arbitrary: m)
  case Nil
  then show ?case by simp
next
  case (Cons r rs)
  obtain a b where r: "r = (a, b)" by (cases r)
  have "n \<le> (m(a := max (m a) b)) v \<longleftrightarrow> n \<le> m v \<or> (v = a \<and> n \<le> b)"
    by (auto simp: le_max_iff_disj)
  then show ?case by (auto simp: r Cons.IH)
qed

lemma set_dict_fromkeys [simp]: "set (dict_fromkeys xs) = set xs"
  by (simp add: dict_fromkeys_def)

lemma distinct_dict_fromkeys [simp]: "distinct (dict_fromkeys xs)"
  by (simp add: dict_fromkeys_def)

lemma dict_fromkeys_Nil_iff [simp]: "dict_fromkeys xs = [] \<longleftrightarrow> xs = []"
  by (simp add: dict_fromkeys_def)

text \<open>The grants that give a user level \<open>n\<close> on a vault, stated without the code's loops.\<close>

definition grant_level :: "authz_db \<Rightarrow> nat \<Rightarrow> nat \<Rightarrow> nat \<Rightarrow> bool" where
  "grant_level db u v n \<longleftrightarrow>
     (\<exists>r \<in> set (vault_members db). vm_user r = u \<and> vm_vault r = v
        \<and> n \<le> permission_level (vm_permission r))
     \<or> (\<exists>a \<in> set (group_access db). \<exists>org. vga_vault a = v
          \<and> (vga_group a, u) \<in> set (group_members db) \<and> (vga_group a, org) \<in> set (groups db)
          \<and> (org, u) \<in> set (org_members db) \<and> n \<le> permission_level (vga_permission a))
     \<or> (n \<le> 1 \<and> (\<exists>w \<in> set (vaults db). vlt_id w = v
          \<and> (vlt_visibility w = ''public'' \<and> vlt_org w = None
             \<or> (vlt_visibility w = ''public'' \<or> vlt_visibility w = ''org'')
                 \<and> (\<exists>org. vlt_org w = Some org \<and> (org, u) \<in> set (org_members db)))))"

definition effective_level :: "authz_db \<Rightarrow> principal \<Rightarrow> nat \<Rightarrow> nat" where
  "effective_level db p v =
     (case get_effective_vault_permission db p (Some v) of None \<Rightarrow> 0 | Some m \<Rightarrow> permission_level m)"

lemma permission_level_le: "permission_level m \<le> 3"
  by (simp add: permission_level_def)

lemma permission_name_level:
  "n \<le> 3 \<Longrightarrow> (case permission_name n of None \<Rightarrow> 0 | Some m \<Rightarrow> permission_level m) = n"
  by (auto simp: permission_name_def permission_level_def)

definition query_levels :: "authz_db \<Rightarrow> principal \<Rightarrow> nat list \<Rightarrow> (nat \<times> nat) list" where
  "query_levels db p ids =
     map (\<lambda>(v, m). (v, permission_level m)) (query_vault_members db p ids)
     @ map (\<lambda>(v, m). (v, permission_level m)) (query_group_access db p ids)
     @ map (\<lambda>v. (v, 1)) (query_public_vaults db p ids)
     @ map (\<lambda>v. (v, 1)) (query_org_vaults db p ids)"

definition baseline_level :: "principal \<Rightarrow> nat" where
  "baseline_level p = (if p_role p = ''admin'' then 2 else 0)"

lemma effective_permissions_levels:
  assumes "p_id p \<noteq> NoId" and "p_role p \<noteq> ''superadmin''"
  shows "get_effective_vault_permissions db p vs =
     map (\<lambda>v. (v, permission_name (fold raise_level (query_levels db p (dict_fromkeys vs))
                                 (\<lambda>_. baseline_level p) v))) (dict_fromkeys vs)"
  using assms
  by (auto simp: get_effective_vault_permissions_def query_levels_def baseline_level_def Let_def)

lemma query_vault_members_iff:
  "p_id p = UserId u \<Longrightarrow> v \<in> set ids \<Longrightarrow>
   (v, m) \<in> set (query_vault_members db p ids) \<longleftrightarrow>
     (\<exists>r \<in> set (vault_members db). vm_user r = u \<and> vm_vault r = v \<and> vm_permission r = m)"
  by (auto simp: query_vault_members_def is_user_def)

lemma query_group_access_iff:
  "p_id p = UserId u \<Longrightarrow> v \<in> set ids \<Longrightarrow>
   (v, m) \<in> set (query_group_access db p ids) \<longleftrightarrow>
     (\<exists>a \<in> set (group_access db). \<exists>org. vga_vault a = v
          \<and> (vga_group a, u) \<in> set (group_members db) \<and> (vga_group a, org) \<in> set (groups db)
          \<and> (org, u) \<in> set (org_members db) \<and> vga_permission a = m)"
  unfolding query_group_access_def is_user_def principal_in_org_def
  by (auto simp: Bex_def)

lemma query_public_vaults_iff:
  "p_id p = UserId u \<Longrightarrow> v \<in> set ids \<Longrightarrow>
   v \<in> set (query_public_vaults db p ids) \<longleftrightarrow>
     (\<exists>w \<in> set (vaults db). vlt_id w = v \<and> vlt_visibility w = ''public''
        \<and> (vlt_org w = None \<or> (\<exists>org. vlt_org w = Some org \<and> (org, u) \<in> set (org_members db))))"
  by (auto simp: query_public_vaults_def is_user_def principal_in_org_def Bex_def split: option.splits)

lemma query_org_vaults_iff:
  "p_id p = UserId u \<Longrightarrow> v \<in> set ids \<Longrightarrow>
   v \<in> set (query_org_vaults db p ids) \<longleftrightarrow>
     (\<exists>w \<in> set (vaults db). vlt_id w = v \<and> vlt_visibility w = ''org''
        \<and> (\<exists>org. vlt_org w = Some org \<and> (org, u) \<in> set (org_members db)))"
  by (auto simp: query_org_vaults_def is_user_def principal_in_org_def Bex_def split: option.splits)

lemma some_keys:
  "v \<in> set (map fst (filter (\<lambda>(v, m). m \<noteq> None) (map (\<lambda>v. (v, g v)) xs)))
   \<longleftrightarrow> v \<in> set xs \<and> g v \<noteq> None"
  by (induction xs) auto

lemma ex_level_map:
  "(\<exists>l. (v, l) \<in> set (map (\<lambda>(v, m). (v, f m)) q) \<and> n \<le> (l::nat))
   \<longleftrightarrow> (\<exists>m. (v, m) \<in> set q \<and> n \<le> f m)"
  by force

lemma ex_level_one:
  "(\<exists>l. (v, l) \<in> set (map (\<lambda>v. (v, 1)) q) \<and> n \<le> (l::nat)) \<longleftrightarrow> v \<in> set q \<and> n \<le> 1"
  by auto

lemma query_levels_iff:
  assumes "p_id p = UserId u" and "v \<in> set ids"
  shows "(\<exists>l. (v, l) \<in> set (query_levels db p ids) \<and> n \<le> l) \<longleftrightarrow> grant_level db u v n"
proof -
  have split: "(\<exists>l. (v, l) \<in> set (a @ b @ c @ d) \<and> n \<le> l) \<longleftrightarrow>
      (\<exists>l. (v, l) \<in> set a \<and> n \<le> l) \<or> (\<exists>l. (v, l) \<in> set b \<and> n \<le> l)
      \<or> (\<exists>l. (v, l) \<in> set c \<and> n \<le> l) \<or> (\<exists>l. (v, l) \<in> set d \<and> n \<le> l)"
    for a b c d :: "(nat \<times> nat) list"
    by auto
  show ?thesis
    unfolding query_levels_def split ex_level_map ex_level_one grant_level_def
      query_vault_members_iff [OF assms] query_group_access_iff [OF assms]
      query_public_vaults_iff [OF assms] query_org_vaults_iff [OF assms]
    by blast
qed

lemma query_levels_le: "(x, l) \<in> set (query_levels db p ids) \<Longrightarrow> l \<le> 3"
  using permission_level_le by (auto simp: query_levels_def)

lemma folded_level_le:
  "fold raise_level (query_levels db p ids) (\<lambda>_. baseline_level p) v \<le> 3"
proof (rule ccontr)
  assume "\<not> ?thesis"
  then have "4 \<le> fold raise_level (query_levels db p ids) (\<lambda>_. baseline_level p) v" by simp
  then obtain l where "(v, l) \<in> set (query_levels db p ids)" "4 \<le> l"
    by (auto simp: fold_raise_level baseline_level_def split: if_splits)
  then show False using query_levels_le by fastforce
qed

lemma query_levels_other:
  assumes "p_id p = OtherId x" and "v \<in> set ids"
  shows "(\<exists>l. (v, l) \<in> set (query_levels db p ids) \<and> n \<le> l) \<longleftrightarrow>
     n \<le> 1 \<and> (\<exists>w \<in> set (vaults db). vlt_id w = v \<and> vlt_visibility w = ''public'' \<and> vlt_org w = None)"
proof -
  have "query_vault_members db p ids = []" "query_group_access db p ids = []"
      "query_org_vaults db p ids = []"
    using assms(1)
    by (auto simp: query_vault_members_def query_group_access_def query_org_vaults_def is_user_def
        principal_in_org_def split: option.splits)
  moreover have "v \<in> set (query_public_vaults db p ids) \<longleftrightarrow>
      (\<exists>w \<in> set (vaults db). vlt_id w = v \<and> vlt_visibility w = ''public'' \<and> vlt_org w = None)"
    using assms
    by (auto simp: query_public_vaults_def is_user_def principal_in_org_def Bex_def
        split: option.splits)
  ultimately show ?thesis
    using ex_level_one [of v "query_public_vaults db p ids" n] by (auto simp: query_levels_def)
qed

lemma policy_fold:
  assumes "p_id p \<noteq> NoId" and "p_role p \<noteq> ''superadmin''"
  shows "evaluate_policy db p ''vault'' (Some v) action \<longleftrightarrow>
     action_level action \<le> baseline_level p
     \<or> (\<exists>l. (v, l) \<in> set (query_levels db p [v]) \<and> action_level action \<le> l)"
proof -
  let ?f = "fold raise_level (query_levels db p [v]) (\<lambda>_. baseline_level p) v"
  have ids: "dict_fromkeys [v] = [v]" by (simp add: dict_fromkeys_def)
  have "evaluate_policy db p ''vault'' (Some v) action \<longleftrightarrow> action_level action \<le> ?f"
    using assms permission_name_level [OF folded_level_le, of db p "[v]" v]
    by (auto simp: evaluate_policy_def get_effective_vault_permission_def
        effective_permissions_levels ids permission_level_def [of "''''"] split: option.splits)
  then show ?thesis by (simp add: fold_raise_level)
qed

lemma policy_level_iff:
  assumes "p_id p = UserId u" and "p_role p \<noteq> ''superadmin''"
  shows "evaluate_policy db p ''vault'' (Some v) action \<longleftrightarrow>
     action_level action \<le> baseline_level p \<or> grant_level db u v (action_level action)"
  using policy_fold [of p db v action] query_levels_iff [OF assms(1), of v "[v]"] assms by simp

text \<open>
  C36 The evaluator grants exactly what the grants give, for every principal, vault and action.
  Without an id nothing is allowed. Otherwise an action is allowed on a vault if and only if
  the principal is a superadmin, or the admin role's write baseline covers the action, or one
  grant of the user does: a membership row, a group grant through a group of an organisation
  the user belongs to, or, for level-one actions, the vault's visibility. A principal whose id
  is no user's gets level one on public vaults of no organisation.
\<close>

theorem policy_grants_exactly:
  "evaluate_policy db p ''vault'' (Some v) action \<longleftrightarrow>
     p_id p \<noteq> NoId
     \<and> (p_role p = ''superadmin'' \<or> action_level action \<le> baseline_level p
        \<or> (\<exists>u. p_id p = UserId u \<and> grant_level db u v (action_level action))
        \<or> (\<exists>x. p_id p = OtherId x) \<and> action_level action \<le> 1
            \<and> (\<exists>w \<in> set (vaults db). vlt_id w = v \<and> vlt_visibility w = ''public''
                 \<and> vlt_org w = None))"
proof (cases "p_role p = ''superadmin'' \<or> p_id p = NoId")
  case True
  then show ?thesis by (auto simp: evaluate_policy_def)
next
  case False
  then show ?thesis
    using query_levels_iff [of p _ v "[v]" db "action_level action"]
      query_levels_other [of p _ v "[v]" db "action_level action"]
    by (cases "p_id p") (simp_all add: policy_fold)
qed

definition demo_authz :: authz_db where
  "demo_authz = \<lparr>vaults = [\<lparr>vlt_id = 1, vlt_visibility = ''private'', vlt_org = None\<rparr>],
     vault_members = [\<lparr>vm_vault = 1, vm_user = 7, vm_permission = ''admin'', vm_granted_by = None\<rparr>],
     group_access = [\<lparr>vga_vault = 1, vga_group = 5, vga_permission = ''admin'', vga_granted_by = None\<rparr>],
     group_members = [(5, 8)], groups = [(5, 2)], organizations = [2],
     org_member_rows = [(2, 8, ''member'')],
     users = [(7, True), (8, True), (9, True)], removed_flags = []\<rparr>"

section \<open>The inventory and the evaluator agree\<close>

lemma direct_admin_iff:
  "u \<in> direct_vault_admin_ids db v x \<longleftrightarrow>
     x \<noteq> Some u \<and> (\<exists>r \<in> set (vault_members db). vm_user r = u \<and> vm_vault r = v
        \<and> vm_permission r = ''admin'')"
  by (auto simp: direct_vault_admin_ids_def excluded_def)

lemma group_admin_iff:
  "u \<in> group_derived_vault_admin_ids db v x y \<longleftrightarrow>
     x \<noteq> Some u \<and> (\<exists>a \<in> set (group_access db). \<exists>org. vga_vault a = v \<and> y \<noteq> Some (vga_group a)
          \<and> (vga_group a, u) \<in> set (group_members db) \<and> (vga_group a, org) \<in> set (groups db)
          \<and> (org, u) \<in> set (org_members db) \<and> vga_permission a = ''admin'')"
  by (auto simp: group_derived_vault_admin_ids_def excluded_def in_org_def Bex_def)

lemma admin_level_iff: "3 \<le> permission_level m \<longleftrightarrow> m = ''admin''"
  by (simp add: permission_level_def)

text \<open>
  A grant counted in the admin inventory is a grant the policy evaluator honours, and
  vice versa: a user who is not a superadmin may administer (or delete in) a vault exactly
  when the union of the direct and the group-derived inventory lists them.
\<close>

theorem inventory_matches_policy:
  assumes "p_id p = UserId u" and "p_role p \<noteq> ''superadmin''"
    and "action = ''admin'' \<or> action = ''delete''"
  shows "evaluate_policy db p ''vault'' (Some v) action \<longleftrightarrow>
     u \<in> direct_vault_admin_ids db v None \<union> group_derived_vault_admin_ids db v None None"
proof -
  have "action_level action = 3" using assms(3) by (auto simp: action_level_def)
  moreover have "\<not> 3 \<le> baseline_level p" by (simp add: baseline_level_def)
  moreover have "grant_level db u v 3 \<longleftrightarrow>
      u \<in> direct_vault_admin_ids db v None \<union> group_derived_vault_admin_ids db v None None"
    unfolding grant_level_def Un_iff direct_admin_iff group_admin_iff admin_level_iff
    by (simp add: conj_assoc)
  ultimately show ?thesis using policy_level_iff [OF assms(1,2)] by simp
qed

theorem inventory_matches_policy_witness:
  "evaluate_policy demo_authz \<lparr>p_id = UserId 8, p_role = ''member''\<rparr> ''vault'' (Some 1) ''admin''
   \<longleftrightarrow> 8 \<in> direct_vault_admin_ids demo_authz 1 None \<union> group_derived_vault_admin_ids demo_authz 1 None None"
  by (rule inventory_matches_policy) simp_all

text \<open>
  The vault list of an ordinary user is the set of existing vaults on which the
  evaluator allows reading.
\<close>

theorem accessible_vaults_agree:
  assumes "p_id p = UserId u" and "p_role p \<noteq> ''superadmin''" and "p_role p \<noteq> ''admin''"
  shows "v \<in> set (get_user_accessible_vault_ids db p) \<longleftrightarrow>
     v \<in> vlt_id ` set (vaults db) \<and> evaluate_policy db p ''vault'' (Some v) ''read''"
proof -
  let ?ids = "dict_fromkeys (map vlt_id (vaults db))"
  let ?f = "\<lambda>v. fold raise_level (query_levels db p ?ids) (\<lambda>_. baseline_level p) v"
  have b: "baseline_level p = 0" using assms(3) by (simp add: baseline_level_def)
  have pos: "permission_name n \<noteq> None \<longleftrightarrow> 1 \<le> n" if "n \<le> 3" for n
    using that by (auto simp: permission_name_def)
  have "v \<in> set (get_user_accessible_vault_ids db p) \<longleftrightarrow>
      v \<in> set ?ids \<and> permission_name (?f v) \<noteq> None"
    using assms
    by (simp only: get_user_accessible_vault_ids_def effective_permissions_levels some_keys
        principal_id.distinct if_False not_False_eq_True simp_thms)
  also have "\<dots> \<longleftrightarrow> v \<in> set ?ids \<and> grant_level db u v 1"
  proof (rule conj_cong [OF refl])
    assume v: "v \<in> set ?ids"
    have "permission_name (?f v) \<noteq> None \<longleftrightarrow> 1 \<le> ?f v"
      by (rule pos) (rule folded_level_le)
    also have "\<dots> \<longleftrightarrow> grant_level db u v 1"
      unfolding fold_raise_level b query_levels_iff [OF assms(1) v] by simp
    finally show "permission_name (?f v) \<noteq> None \<longleftrightarrow> grant_level db u v 1" .
  qed
  also have "\<dots> \<longleftrightarrow> v \<in> vlt_id ` set (vaults db) \<and> evaluate_policy db p ''vault'' (Some v) ''read''"
    using policy_level_iff [OF assms(1,2)] b by (auto simp: action_level_def)
  finally show ?thesis .
qed

theorem accessible_vaults_agree_witness:
  "1 \<in> set (get_user_accessible_vault_ids demo_authz \<lparr>p_id = UserId 8, p_role = ''viewer''\<rparr>)
   \<longleftrightarrow> 1 \<in> vlt_id ` set (vaults demo_authz)
      \<and> evaluate_policy demo_authz \<lparr>p_id = UserId 8, p_role = ''viewer''\<rparr> ''vault'' (Some 1) ''read''"
  by (rule accessible_vaults_agree) simp_all

end
