(* ===== verification/Vault_Membership.thy ===== *)
theory Vault_Membership
  imports Authz_Policy
begin

text \<open>
  The routes that change who may administer a vault:
  \<^verbatim>\<open>backend/app/api/routes/vault_members.py\<close> (members and group grants of one vault),
  \<open>update_vault_groups\<close> of \<^verbatim>\<open>routes/vaults.py\<close>, the group routes of
  \<^verbatim>\<open>routes/groups.py\<close> and the organisation routes of \<^verbatim>\<open>routes/organizations.py\<close> that
  remove grants by cascade. Every handler is the whole mutation: dependency guards,
  validation, the last-effective-admin guard and the writes, in the code's order. A handler
  runs between two commits, so handlers are atomic steps.
\<close>

section \<open>The admin inventory of a vault\<close>

definition effective_admins :: "authz_db \<Rightarrow> nat \<Rightarrow> nat set" where
  "effective_admins db v =
     direct_vault_admin_ids db v None \<union> group_derived_vault_admin_ids db v None None"

definition effective_admin_post_state ::
  "authz_db \<Rightarrow> nat \<Rightarrow> nat option \<Rightarrow> nat option \<Rightarrow> nat set" where
  "effective_admin_post_state db v excl_direct_user excl_group =
     direct_vault_admin_ids db v excl_direct_user
     \<union> group_derived_vault_admin_ids db v None excl_group"

text \<open>True when the code raises its 409.\<close>

definition refuse_if_last_effective_admin :: "authz_db \<Rightarrow> nat \<Rightarrow> nat set \<Rightarrow> bool" where
  "refuse_if_last_effective_admin db v post_admins \<longleftrightarrow>
     (if post_admins \<noteq> {} then False
      else let pre_admins = effective_admins db v in pre_admins \<noteq> {})"

definition valid_permission :: "string \<Rightarrow> bool" where
  "valid_permission p \<longleftrightarrow> p \<in> {''read'', ''write'', ''admin''}"

definition vault_exists :: "authz_db \<Rightarrow> nat \<Rightarrow> bool" where
  "vault_exists db v \<longleftrightarrow> v \<in> set (map vlt_id (vaults db))"

definition vault_org :: "authz_db \<Rightarrow> nat \<Rightarrow> nat option" where
  "vault_org db v = (case find (\<lambda>r. vlt_id r = v) (vaults db) of None \<Rightarrow> None | Some r \<Rightarrow> vlt_org r)"

definition user_exists :: "authz_db \<Rightarrow> nat \<Rightarrow> bool" where
  "user_exists db u \<longleftrightarrow> u \<in> set (map fst (users db))"

text \<open>The \<open>granted_by\<close> foreign key: NULL or an existing user.\<close>

definition granted_by_known :: "authz_db \<Rightarrow> nat option \<Rightarrow> bool" where
  "granted_by_known db g \<longleftrightarrow> (case g of None \<Rightarrow> True | Some u \<Rightarrow> user_exists db u)"

definition member_at :: "nat \<Rightarrow> nat \<Rightarrow> member_row \<Rightarrow> bool" where
  "member_at v u r \<longleftrightarrow> vm_vault r = v \<and> vm_user r = u"

definition access_at :: "nat \<Rightarrow> nat \<Rightarrow> access_row \<Rightarrow> bool" where
  "access_at v g a \<longleftrightarrow> vga_vault a = v \<and> vga_group a = g"

section \<open>Members of a vault\<close>

definition add_vault_member ::
  "principal \<Rightarrow> nat \<Rightarrow> nat \<Rightarrow> string \<Rightarrow> authz_db \<Rightarrow> http_error + authz_db" where
  "add_vault_member p v u perm db =
     (if u = 0 \<or> \<not> valid_permission perm then Inl (Http 422)
      else if require_vault_permission db [''admin''] p v \<noteq> Inr p then Inl (Http 403)
      else if \<not> vault_exists db v then Inl (Http 404)
      else if (u, True) \<notin> set (users db) then Inl (Http 404)
      else if list_ex (member_at v u) (vault_members db) then Inl (Http 409)
      else if \<not> granted_by_known db (resolve_granted_by p) then Inl (Http 409)
      else Inr (db\<lparr>vault_members := vault_members db
             @ [\<lparr>vm_vault = v, vm_user = u, vm_permission = perm,
                 vm_granted_by = resolve_granted_by p\<rparr>]\<rparr>))"

definition set_member_permission ::
  "nat \<Rightarrow> nat \<Rightarrow> string \<Rightarrow> nat option \<Rightarrow> authz_db \<Rightarrow> authz_db" where
  "set_member_permission v u perm g db =
     db\<lparr>vault_members := update_rows (member_at v u)
          (\<lambda>r. r\<lparr>vm_permission := perm, vm_granted_by := g\<rparr>) (vault_members db)\<rparr>"

definition update_vault_member ::
  "principal \<Rightarrow> nat \<Rightarrow> nat \<Rightarrow> string \<Rightarrow> authz_db \<Rightarrow> http_error + authz_db" where
  "update_vault_member p v u perm db =
     (if \<not> valid_permission perm then Inl (Http 422)
      else if require_vault_permission db [''admin''] p v \<noteq> Inr p then Inl (Http 403)
      else if \<not> vault_exists db v then Inl (Http 404)
      else case find (member_at v u) (vault_members db) of
        None \<Rightarrow> Inl (Http 404)
      | Some row \<Rightarrow>
          if vm_permission row = ''admin'' \<and> perm \<noteq> ''admin''
             \<and> refuse_if_last_effective_admin db v (effective_admin_post_state db v (Some u) None)
            then Inl (Http 409)
          else if \<not> granted_by_known db (resolve_granted_by p) then Inl (Http 500)
          else Inr (set_member_permission v u perm (resolve_granted_by p) db))"

definition delete_member :: "nat \<Rightarrow> nat \<Rightarrow> authz_db \<Rightarrow> authz_db" where
  "delete_member v u db =
     db\<lparr>vault_members := filter (\<lambda>r. \<not> member_at v u r) (vault_members db)\<rparr>"

definition set_removed_flag :: "nat \<Rightarrow> authz_db \<Rightarrow> authz_db" where
  "set_removed_flag u db =
     db\<lparr>removed_flags := (if u \<in> set (removed_flags db) then removed_flags db
                         else removed_flags db @ [u])\<rparr>"

definition remove_vault_member ::
  "principal \<Rightarrow> nat \<Rightarrow> nat \<Rightarrow> authz_db \<Rightarrow> http_error + authz_db" where
  "remove_vault_member p v u db =
     (if require_vault_permission db [''admin''] p v \<noteq> Inr p then Inl (Http 403)
      else if \<not> vault_exists db v then Inl (Http 404)
      else if is_user p u then Inl (Http 400)
      else case find (member_at v u) (vault_members db) of
        None \<Rightarrow> Inl (Http 404)
      | Some row \<Rightarrow>
          if vm_permission row = ''admin''
             \<and> refuse_if_last_effective_admin db v (effective_admin_post_state db v (Some u) None)
            then Inl (Http 409)
          else Inr (set_removed_flag u (delete_member v u db)))"

section \<open>Group grants of a vault\<close>

definition group_org :: "authz_db \<Rightarrow> nat \<Rightarrow> nat option" where
  "group_org db g = map_of (groups db) g"

definition insert_access ::
  "nat \<Rightarrow> nat option \<Rightarrow> nat \<times> string \<Rightarrow> authz_db \<Rightarrow> authz_db" where
  "insert_access v granted_by item db =
     db\<lparr>group_access := group_access db
        @ [\<lparr>vga_vault = v, vga_group = fst item, vga_permission = snd item,
            vga_granted_by = granted_by\<rparr>]\<rparr>"

definition other_org :: "nat option \<Rightarrow> nat option \<Rightarrow> bool" where
  "other_org group_org_id vault_org_id \<longleftrightarrow>
     group_org_id \<noteq> None \<and> vault_org_id \<noteq> None \<and> group_org_id \<noteq> vault_org_id"

definition grant_vault_group_access ::
  "principal \<Rightarrow> nat \<Rightarrow> nat \<Rightarrow> string \<Rightarrow> authz_db \<Rightarrow> http_error + authz_db" where
  "grant_vault_group_access p v g perm db =
     (if g = 0 \<or> \<not> valid_permission perm then Inl (Http 422)
      else if require_vault_permission db [''admin''] p v \<noteq> Inr p then Inl (Http 403)
      else if \<not> vault_exists db v then Inl (Http 404)
      else if group_org db g = None then Inl (Http 404)
      else if list_ex (access_at v g) (group_access db) then Inl (Http 409)
      else if other_org (group_org db g) (vault_org db v) then Inl (Http 400)
      else if \<not> granted_by_known db (resolve_granted_by p) then Inl (Http 409)
      else Inr (insert_access v (resolve_granted_by p) (g, perm) db))"

definition set_access_permission ::
  "nat \<Rightarrow> nat \<Rightarrow> string \<Rightarrow> nat option \<Rightarrow> authz_db \<Rightarrow> authz_db" where
  "set_access_permission v g perm gb db =
     db\<lparr>group_access := update_rows (access_at v g)
          (\<lambda>a. a\<lparr>vga_permission := perm, vga_granted_by := gb\<rparr>) (group_access db)\<rparr>"

definition update_vault_group_access ::
  "principal \<Rightarrow> nat \<Rightarrow> nat \<Rightarrow> string \<Rightarrow> authz_db \<Rightarrow> http_error + authz_db" where
  "update_vault_group_access p v g perm db =
     (if \<not> valid_permission perm then Inl (Http 422)
      else if require_vault_permission db [''admin''] p v \<noteq> Inr p then Inl (Http 403)
      else if \<not> vault_exists db v then Inl (Http 404)
      else case find (access_at v g) (group_access db) of
        None \<Rightarrow> Inl (Http 404)
      | Some row \<Rightarrow>
          if vga_permission row = ''admin'' \<and> perm \<noteq> ''admin''
             \<and> refuse_if_last_effective_admin db v (effective_admin_post_state db v None (Some g))
            then Inl (Http 409)
          else if \<not> granted_by_known db (resolve_granted_by p) then Inl (Http 500)
          else Inr (set_access_permission v g perm (resolve_granted_by p) db))"

definition delete_access :: "nat \<Rightarrow> nat \<Rightarrow> authz_db \<Rightarrow> authz_db" where
  "delete_access v g db =
     db\<lparr>group_access := filter (\<lambda>a. \<not> access_at v g a) (group_access db)\<rparr>"

definition revoke_vault_group_access ::
  "principal \<Rightarrow> nat \<Rightarrow> nat \<Rightarrow> authz_db \<Rightarrow> http_error + authz_db" where
  "revoke_vault_group_access p v g db =
     (if require_vault_permission db [''admin''] p v \<noteq> Inr p then Inl (Http 403)
      else if \<not> vault_exists db v then Inl (Http 404)
      else case find (access_at v g) (group_access db) of
        None \<Rightarrow> Inl (Http 404)
      | Some row \<Rightarrow>
          if vga_permission row = ''admin''
             \<and> refuse_if_last_effective_admin db v (effective_admin_post_state db v None (Some g))
            then Inl (Http 409)
          else Inr (delete_access v g db))"

text \<open>
  The two shapes of a replace request: the canonical list of pairs, or the legacy list of
  ids, which means \<open>read\<close>; with neither field the request is refused with 422.
\<close>

definition resolved_access ::
  "(nat \<times> string) list option \<Rightarrow> nat list option \<Rightarrow> (nat \<times> string) list" where
  "resolved_access access ids =
     (case access of Some items \<Rightarrow> items
      | None \<Rightarrow> (case ids of None \<Rightarrow> [] | Some gs \<Rightarrow> map (\<lambda>g. (g, ''read'')) gs))"

fun dedupe_items :: "nat list \<Rightarrow> (nat \<times> string) list \<Rightarrow> (nat \<times> string) list" where
  "dedupe_items seen [] = []"
| "dedupe_items seen (item # items) =
     (if fst item \<in> set seen then dedupe_items seen items
      else item # dedupe_items (fst item # seen) items)"

definition update_vault_groups ::
  "principal \<Rightarrow> nat \<Rightarrow> (nat \<times> string) list option \<Rightarrow> nat list option \<Rightarrow> authz_db
     \<Rightarrow> http_error + authz_db" where
  "update_vault_groups p v access group_ids db =
     (let items = resolved_access access group_ids;
          pre_nonempty = effective_admins db v \<noteq> {};
          cleared = db\<lparr>group_access := filter (\<lambda>a. vga_vault a \<noteq> v) (group_access db)\<rparr>;
          db' = fold (insert_access v (resolve_granted_by p)) (dedupe_items [] items) cleared
      in if \<not> list_all (\<lambda>item. valid_permission (snd item)) items then Inl (Http 422)
      else if require_vault_permission db [''admin''] p v \<noteq> Inr p then Inl (Http 403)
      else if \<not> vault_exists db v then Inl (Http 404)
      else if access = None \<and> group_ids = None then Inl (Http 422)
      else if \<not> list_all (\<lambda>item. group_org db (fst item) \<noteq> None) items then Inl (Http 400)
      else if list_ex (\<lambda>item. other_org (group_org db (fst item)) (vault_org db v)) items
        then Inl (Http 400)
      else if items \<noteq> [] \<and> \<not> granted_by_known db (resolve_granted_by p) then Inl (Http 500)
      else if pre_nonempty \<and> effective_admins db' v = {} then Inl (Http 409)
      else Inr db')"

section \<open>Groups\<close>

definition covered_vault_ids :: "authz_db \<Rightarrow> nat list \<Rightarrow> nat list" where
  "covered_vault_ids db vs = filter (\<lambda>v. effective_admins db v \<noteq> {}) vs"

definition group_admin_grant_vault_ids :: "nat \<Rightarrow> authz_db \<Rightarrow> nat list" where
  "group_admin_grant_vault_ids g db =
     [vga_vault a. a \<leftarrow> group_access db, vga_group a = g \<and> vga_permission a = ''admin'']"

text \<open>
  The guarded transaction the cascade routes share: candidates and their coverage are read,
  the rows are written, the coverage is read again from the persisted rows, and any covered
  candidate that lost its coverage rolls everything back with a 409.
\<close>

definition guarded_transaction ::
  "(authz_db \<Rightarrow> nat list) \<Rightarrow> (authz_db \<Rightarrow> authz_db) \<Rightarrow> authz_db \<Rightarrow> http_error + authz_db" where
  "guarded_transaction candidates mutate db =
     (let candidate_vault_ids = candidates db;
          covered_before = covered_vault_ids db candidate_vault_ids;
          db' = mutate db;
          refused = filter (\<lambda>v. v \<notin> set (covered_vault_ids db' candidate_vault_ids)) covered_before
      in if refused \<noteq> [] then Inl (Http 409) else Inr db')"

definition may_manage_group :: "authz_db \<Rightarrow> principal \<Rightarrow> nat \<Rightarrow> string \<Rightarrow> nat \<Rightarrow> bool" where
  "may_manage_group db p g action org \<longleftrightarrow>
     evaluate_policy db p ''group'' (Some g) action
     \<and> (p_role p = ''superadmin'' \<or> principal_in_org db p org)"

definition delete_group_rows :: "nat \<Rightarrow> authz_db \<Rightarrow> authz_db" where
  "delete_group_rows g db =
     db\<lparr>groups := filter (\<lambda>(g', _). g' \<noteq> g) (groups db),
        group_members := filter (\<lambda>(g', _). g' \<noteq> g) (group_members db),
        group_access := filter (\<lambda>a. vga_group a \<noteq> g) (group_access db)\<rparr>"

definition delete_group :: "principal \<Rightarrow> nat \<Rightarrow> authz_db \<Rightarrow> http_error + authz_db" where
  "delete_group p g db =
     (if require_role ''admin'' p \<noteq> Inr p then Inl (Http 403)
      else case group_org db g of
        None \<Rightarrow> Inl (Http 404)
      | Some org \<Rightarrow>
          if \<not> may_manage_group db p g ''delete'' org then Inl (Http 403)
          else guarded_transaction (group_admin_grant_vault_ids g) (delete_group_rows g) db)"

definition replace_group_members :: "nat \<Rightarrow> nat list \<Rightarrow> authz_db \<Rightarrow> authz_db" where
  "replace_group_members g us db =
     db\<lparr>group_members := filter (\<lambda>(g', _). g' \<noteq> g) (group_members db)
          @ map (\<lambda>u. (g, u)) (dict_fromkeys us)\<rparr>"

definition update_group_members ::
  "principal \<Rightarrow> nat \<Rightarrow> nat list \<Rightarrow> authz_db \<Rightarrow> http_error + authz_db" where
  "update_group_members p g us db =
     (if require_role ''admin'' p \<noteq> Inr p then Inl (Http 403)
      else case group_org db g of
        None \<Rightarrow> Inl (Http 404)
      | Some org \<Rightarrow>
          if \<not> may_manage_group db p g ''update'' org then Inl (Http 403)
          else if \<not> list_all (user_exists db) us then Inl (Http 400)
          else if \<not> list_all (in_org db org) us then Inl (Http 400)
          else guarded_transaction (group_admin_grant_vault_ids g) (replace_group_members g us) db)"

definition insert_group_access ::
  "nat \<Rightarrow> nat option \<Rightarrow> nat \<times> string \<Rightarrow> authz_db \<Rightarrow> authz_db" where
  "insert_group_access g granted_by item db = insert_access (fst item) granted_by (g, snd item) db"

definition replace_group_vaults ::
  "nat \<Rightarrow> nat option \<Rightarrow> (nat \<times> string) list \<Rightarrow> authz_db \<Rightarrow> authz_db" where
  "replace_group_vaults g granted_by items db =
     fold (insert_group_access g granted_by) (dedupe_items [] items)
       (db\<lparr>group_access := filter (\<lambda>a. vga_group a \<noteq> g) (group_access db)\<rparr>)"

definition affected_vault_ids :: "nat \<Rightarrow> (nat \<times> string) list \<Rightarrow> authz_db \<Rightarrow> nat list" where
  "affected_vault_ids g items db =
     [vga_vault a. a \<leftarrow> group_access db, vga_group a = g] @ map fst items"

definition update_group_vaults ::
  "principal \<Rightarrow> nat \<Rightarrow> (nat \<times> string) list option \<Rightarrow> nat list option \<Rightarrow> authz_db
     \<Rightarrow> http_error + authz_db" where
  "update_group_vaults p g access vault_ids db =
     (let items = resolved_access access vault_ids
      in if \<not> list_all (\<lambda>item. valid_permission (snd item)) items then Inl (Http 422)
      else if require_role ''admin'' p \<noteq> Inr p then Inl (Http 403)
      else case group_org db g of
        None \<Rightarrow> Inl (Http 404)
      | Some org \<Rightarrow>
          if \<not> may_manage_group db p g ''update'' org then Inl (Http 403)
          else if access = None \<and> vault_ids = None then Inl (Http 422)
          else if \<not> list_all (\<lambda>item. vault_exists db (fst item)) items then Inl (Http 400)
          else if list_ex (\<lambda>item. vault_org db (fst item) \<noteq> None
                               \<and> vault_org db (fst item) \<noteq> Some org) items
            then Inl (Http 400)
          else if items \<noteq> [] \<and> \<not> granted_by_known db (resolve_granted_by p) then Inl (Http 500)
          else guarded_transaction (affected_vault_ids g items)
                 (replace_group_vaults g (resolve_granted_by p) items) db)"

section \<open>Organisations\<close>

definition org_role :: "authz_db \<Rightarrow> nat \<Rightarrow> nat \<Rightarrow> string option" where
  "org_role db org u =
     map_option (\<lambda>(_, _, r). r) (find (\<lambda>(o', u', _). o' = org \<and> u' = u) (org_member_rows db))"

definition is_org_admin_or_owner :: "authz_db \<Rightarrow> nat \<Rightarrow> principal \<Rightarrow> bool" where
  "is_org_admin_or_owner db org p \<longleftrightarrow>
     (case p_id p of
        UserId u \<Rightarrow> org_role db org u = Some ''owner'' \<or> org_role db org u = Some ''admin''
      | _ \<Rightarrow> False)"

definition user_derived_admin_vault_ids :: "nat \<Rightarrow> authz_db \<Rightarrow> nat list" where
  "user_derived_admin_vault_ids u db =
     [vga_vault a. a \<leftarrow> group_access db, (g, u') \<leftarrow> group_members db,
        vga_group a = g \<and> u' = u \<and> vga_permission a = ''admin'']"

definition org_group_admin_grant_vault_ids :: "nat \<Rightarrow> authz_db \<Rightarrow> nat list" where
  "org_group_admin_grant_vault_ids org db =
     [vga_vault a. a \<leftarrow> group_access db, (g, o') \<leftarrow> groups db,
        g = vga_group a \<and> o' = org \<and> vga_permission a = ''admin'']"

definition delete_org_member_rows :: "nat \<Rightarrow> nat \<Rightarrow> authz_db \<Rightarrow> authz_db" where
  "delete_org_member_rows org u db =
     db\<lparr>org_member_rows := filter (\<lambda>(o', u', _). \<not> (o' = org \<and> u' = u)) (org_member_rows db),
        group_members := filter (\<lambda>(g, u'). \<not> (u' = u \<and> (g, org) \<in> set (groups db)))
                           (group_members db)\<rparr>"

definition remove_org_member ::
  "principal \<Rightarrow> nat \<Rightarrow> nat \<Rightarrow> authz_db \<Rightarrow> http_error + authz_db" where
  "remove_org_member p org u db =
     (if require_role ''member'' p \<noteq> Inr p then Inl (Http 403)
      else if org \<notin> set (organizations db) then Inl (Http 404)
      else if \<not> is_org_admin_or_owner db org p then Inl (Http 403)
      else case org_role db org u of
        None \<Rightarrow> Inl (Http 404)
      | Some role \<Rightarrow>
          if role = ''owner'' then Inl (Http 403)
          else if is_user p u then Inl (Http 400)
          else guarded_transaction (user_derived_admin_vault_ids u)
                 (delete_org_member_rows org u) db)"

text \<open>The foreign keys cascade from the organisation to its groups and from there on.\<close>

definition delete_org_rows :: "nat \<Rightarrow> authz_db \<Rightarrow> authz_db" where
  "delete_org_rows org db =
     (let gone = map fst (filter (\<lambda>(_, o'). o' = org) (groups db)) in
      db\<lparr>organizations := filter (\<lambda>o'. o' \<noteq> org) (organizations db),
         org_member_rows := filter (\<lambda>(o', _). o' \<noteq> org) (org_member_rows db),
         groups := filter (\<lambda>(_, o'). o' \<noteq> org) (groups db),
         group_members := filter (\<lambda>(g, _). g \<notin> set gone) (group_members db),
         group_access := filter (\<lambda>a. vga_group a \<notin> set gone) (group_access db)\<rparr>)"

definition delete_organization :: "principal \<Rightarrow> nat \<Rightarrow> authz_db \<Rightarrow> http_error + authz_db" where
  "delete_organization p org db =
     (if require_role ''superadmin'' p \<noteq> Inr p then Inl (Http 403)
      else if org \<notin> set (organizations db) then Inl (Http 404)
      else guarded_transaction (org_group_admin_grant_vault_ids org) (delete_org_rows org) db)"

section \<open>Sequences of mutations\<close>

datatype access_op =
    AddMember nat nat string
  | UpdateMember nat nat string
  | RemoveMember nat nat
  | GrantGroup nat nat string
  | UpdateGroupGrant nat nat string
  | RevokeGroup nat nat
  | ReplaceVaultGroups nat "(nat \<times> string) list option" "nat list option"
  | DeleteGroup nat
  | ReplaceGroupMembers nat "nat list"
  | ReplaceGroupVaults nat "(nat \<times> string) list option" "nat list option"
  | RemoveOrgMember nat nat
  | DeleteOrganization nat

fun apply_access :: "principal \<Rightarrow> access_op \<Rightarrow> authz_db \<Rightarrow> http_error + authz_db" where
  "apply_access p (AddMember v u perm) db = add_vault_member p v u perm db"
| "apply_access p (UpdateMember v u perm) db = update_vault_member p v u perm db"
| "apply_access p (RemoveMember v u) db = remove_vault_member p v u db"
| "apply_access p (GrantGroup v g perm) db = grant_vault_group_access p v g perm db"
| "apply_access p (UpdateGroupGrant v g perm) db = update_vault_group_access p v g perm db"
| "apply_access p (RevokeGroup v g) db = revoke_vault_group_access p v g db"
| "apply_access p (ReplaceVaultGroups v acc gs) db = update_vault_groups p v acc gs db"
| "apply_access p (DeleteGroup g) db = delete_group p g db"
| "apply_access p (ReplaceGroupMembers g us) db = update_group_members p g us db"
| "apply_access p (ReplaceGroupVaults g acc vs) db = update_group_vaults p g acc vs db"
| "apply_access p (RemoveOrgMember org u) db = remove_org_member p org u db"
| "apply_access p (DeleteOrganization org) db = delete_organization p org db"

text \<open>A request that fails leaves the database as it was.\<close>

fun run_access :: "(principal \<times> access_op) list \<Rightarrow> authz_db \<Rightarrow> authz_db" where
  "run_access [] db = db"
| "run_access ((p, c) # cs) db =
     run_access cs (case apply_access p c db of Inl _ \<Rightarrow> db | Inr db' \<Rightarrow> db')"

text \<open>The UNIQUE constraints of the two grant tables.\<close>

definition member_key :: "member_row \<Rightarrow> nat \<times> nat" where
  "member_key r = (vm_vault r, vm_user r)"

definition access_key :: "access_row \<Rightarrow> nat \<times> nat" where
  "access_key a = (vga_vault a, vga_group a)"

definition access_wf :: "authz_db \<Rightarrow> bool" where
  "access_wf db \<longleftrightarrow> distinct (map member_key (vault_members db))
     \<and> distinct (map access_key (group_access db))"

definition keeps_admins :: "authz_db \<Rightarrow> authz_db \<Rightarrow> bool" where
  "keeps_admins db db' \<longleftrightarrow>
     (\<forall>v. effective_admins db v \<noteq> {} \<longrightarrow> effective_admins db' v \<noteq> {})"

section \<open>Reading the inventory\<close>

definition direct_admin :: "authz_db \<Rightarrow> nat \<Rightarrow> nat \<Rightarrow> bool" where
  "direct_admin db v u \<longleftrightarrow> (\<exists>r \<in> set (vault_members db).
     vm_user r = u \<and> vm_vault r = v \<and> vm_permission r = ''admin'')"

definition group_admin :: "authz_db \<Rightarrow> nat \<Rightarrow> nat \<Rightarrow> nat \<Rightarrow> nat \<Rightarrow> bool" where
  "group_admin db v g org u \<longleftrightarrow> (\<exists>a \<in> set (group_access db). vga_vault a = v \<and> vga_group a = g
       \<and> vga_permission a = ''admin'')
     \<and> (g, u) \<in> set (group_members db) \<and> (g, org) \<in> set (groups db)
     \<and> (\<exists>role. (org, u, role) \<in> set (org_member_rows db))"

lemma in_org_members: "(org, u) \<in> set (org_members db) \<longleftrightarrow>
    (\<exists>role. (org, u, role) \<in> set (org_member_rows db))"
  by (force simp: org_members_def)

lemma direct_ids_iff:
  "u \<in> direct_vault_admin_ids db v x \<longleftrightarrow> x \<noteq> Some u \<and> direct_admin db v u"
  by (simp add: direct_admin_iff direct_admin_def)

lemma group_ids_iff:
  "u \<in> group_derived_vault_admin_ids db v None y \<longleftrightarrow>
     (\<exists>g org. y \<noteq> Some g \<and> group_admin db v g org u)"
  unfolding group_admin_iff group_admin_def in_org_members by auto

lemma effective_admins_iff:
  "u \<in> effective_admins db v \<longleftrightarrow>
     direct_admin db v u \<or> (\<exists>g org. group_admin db v g org u)"
  by (simp add: effective_admins_def direct_ids_iff group_ids_iff)

lemma post_state_iff:
  "u \<in> effective_admin_post_state db v x y \<longleftrightarrow>
     (x \<noteq> Some u \<and> direct_admin db v u) \<or> (\<exists>g org. y \<noteq> Some g \<and> group_admin db v g org u)"
  by (simp add: effective_admin_post_state_def direct_ids_iff group_ids_iff)

lemma keeps_adminsI:
  assumes "\<And>v u. u \<in> effective_admins db v \<Longrightarrow> effective_admins db' v \<noteq> {}"
  shows "keeps_admins db db'"
  using assms by (auto simp: keeps_admins_def ex_in_conv [symmetric] simp del: ex_in_conv)

lemma keeps_admins_mono:
  assumes "\<And>v u. direct_admin db v u \<Longrightarrow> direct_admin db' v u"
    and "\<And>v g org u. group_admin db v g org u \<Longrightarrow> group_admin db' v g org u"
  shows "keeps_admins db db'"
proof (rule keeps_adminsI)
  fix v u assume "u \<in> effective_admins db v"
  then have "u \<in> effective_admins db' v" using assms unfolding effective_admins_iff by blast
  then show "effective_admins db' v \<noteq> {}" by blast
qed

section \<open>Mutations guarded by the post-state the route computes\<close>

lemma delete_member_admins:
  "effective_admins (set_removed_flag u (delete_member v u db)) w =
     (if w = v then effective_admin_post_state db v (Some u) None else effective_admins db w)"
proof (rule set_eqI)
  fix x
  have d: "direct_admin (set_removed_flag u (delete_member v u db)) w x
      \<longleftrightarrow> direct_admin db w x \<and> \<not> (w = v \<and> x = u)"
    by (auto simp: direct_admin_def set_removed_flag_def delete_member_def member_at_def)
  have g: "group_admin (set_removed_flag u (delete_member v u db)) w g org x
      \<longleftrightarrow> group_admin db w g org x" for g org
    by (simp add: group_admin_def set_removed_flag_def delete_member_def)
  show "x \<in> effective_admins (set_removed_flag u (delete_member v u db)) w \<longleftrightarrow>
      x \<in> (if w = v then effective_admin_post_state db v (Some u) None else effective_admins db w)"
    by (auto simp: effective_admins_iff post_state_iff d g)
qed

lemma delete_access_admins:
  "effective_admins (delete_access v g db) w =
     (if w = v then effective_admin_post_state db v None (Some g) else effective_admins db w)"
proof (rule set_eqI)
  fix x
  have d: "direct_admin (delete_access v g db) w x \<longleftrightarrow> direct_admin db w x"
    by (simp add: direct_admin_def delete_access_def)
  have g: "group_admin (delete_access v g db) w h org x
      \<longleftrightarrow> group_admin db w h org x \<and> \<not> (w = v \<and> h = g)" for h org
    by (auto simp: group_admin_def delete_access_def access_at_def)
  show "x \<in> effective_admins (delete_access v g db) w \<longleftrightarrow>
      x \<in> (if w = v then effective_admin_post_state db v None (Some g) else effective_admins db w)"
    by (auto simp: effective_admins_iff post_state_iff d g)
qed

lemma set_member_permission_admins:
  assumes "perm \<noteq> ''admin''"
  shows "effective_admins (set_member_permission v u perm gb db) w =
     (if w = v then effective_admin_post_state db v (Some u) None else effective_admins db w)"
proof (rule set_eqI)
  fix x
  have d: "direct_admin (set_member_permission v u perm gb db) w x
      \<longleftrightarrow> direct_admin db w x \<and> \<not> (w = v \<and> x = u)"
    using assms
    by (auto simp: direct_admin_def set_member_permission_def member_at_def table_simps
        split: if_splits)
  have g: "group_admin (set_member_permission v u perm gb db) w g org x
      \<longleftrightarrow> group_admin db w g org x" for g org
    by (simp add: group_admin_def set_member_permission_def)
  show "x \<in> effective_admins (set_member_permission v u perm gb db) w \<longleftrightarrow>
      x \<in> (if w = v then effective_admin_post_state db v (Some u) None else effective_admins db w)"
    by (auto simp: effective_admins_iff post_state_iff d g)
qed

lemma set_access_permission_admins:
  assumes "perm \<noteq> ''admin''"
  shows "effective_admins (set_access_permission v g perm gb db) w =
     (if w = v then effective_admin_post_state db v None (Some g) else effective_admins db w)"
proof (rule set_eqI)
  fix x
  have d: "direct_admin (set_access_permission v g perm gb db) w x \<longleftrightarrow> direct_admin db w x"
    by (simp add: direct_admin_def set_access_permission_def)
  have g: "group_admin (set_access_permission v g perm gb db) w h org x
      \<longleftrightarrow> group_admin db w h org x \<and> \<not> (w = v \<and> h = g)" for h org
    using assms
    by (auto simp: group_admin_def set_access_permission_def access_at_def table_simps
        split: if_splits)
  show "x \<in> effective_admins (set_access_permission v g perm gb db) w \<longleftrightarrow>
      x \<in> (if w = v then effective_admin_post_state db v None (Some g) else effective_admins db w)"
    by (auto simp: effective_admins_iff post_state_iff d g)
qed

text \<open>The row the guard reads is the only row of its key.\<close>

lemma member_row_unique:
  assumes "access_wf db" and "find (member_at v u) (vault_members db) = Some r"
  shows "direct_admin db v u \<longleftrightarrow> vm_permission r = ''admin''"
proof -
  have r: "r \<in> set (vault_members db)" "vm_vault r = v" "vm_user r = u"
    using find_SomeD [OF assms(2)] by (auto simp: member_at_def)
  have "r' = r" if "r' \<in> set (vault_members db)" "vm_vault r' = v" "vm_user r' = u" for r'
    using assms(1) that r distinct_key_eq [of member_key "vault_members db" r' r]
    by (simp add: access_wf_def member_key_def)
  then show ?thesis using r unfolding direct_admin_def by blast
qed

lemma access_row_unique:
  assumes "access_wf db" and "find (access_at v g) (group_access db) = Some a"
    and "group_admin db v g org u"
  shows "vga_permission a = ''admin''"
proof -
  have a: "a \<in> set (group_access db)" "vga_vault a = v" "vga_group a = g"
    using find_SomeD [OF assms(2)] by (auto simp: access_at_def)
  have "a' = a" if "a' \<in> set (group_access db)" "vga_vault a' = v" "vga_group a' = g" for a'
    using assms(1) that a distinct_key_eq [of access_key "group_access db" a' a]
    by (simp add: access_wf_def access_key_def)
  then show ?thesis using assms(3) unfolding group_admin_def by blast
qed

lemma post_state_not_admin:
  "\<not> direct_admin db v u \<Longrightarrow> effective_admin_post_state db v (Some u) None = effective_admins db v"
  by (rule set_eqI) (auto simp: post_state_iff effective_admins_iff)

lemma post_state_no_grant:
  "(\<And>org u. \<not> group_admin db v g org u) \<Longrightarrow>
   effective_admin_post_state db v None (Some g) = effective_admins db v"
  by (rule set_eqI) (simp add: post_state_iff effective_admins_iff, metis)

lemma keeps_adminsI_one_vault:
  assumes "\<And>w. effective_admins db' w = (if w = v then post else effective_admins db w)"
    and "effective_admins db v \<noteq> {} \<Longrightarrow> post \<noteq> {}"
  shows "keeps_admins db db'"
  using assms by (simp add: keeps_admins_def)

lemma member_post_state_kept:
  assumes "access_wf db" and "find (member_at v u) (vault_members db) = Some r"
    and "\<not> (vm_permission r = ''admin''
            \<and> refuse_if_last_effective_admin db v (effective_admin_post_state db v (Some u) None))"
    and "effective_admins db v \<noteq> {}"
  shows "effective_admin_post_state db v (Some u) None \<noteq> {}"
  using assms post_state_not_admin [of db v u] member_row_unique [OF assms(1,2)]
  by (auto simp: refuse_if_last_effective_admin_def split: if_splits)

lemma access_post_state_kept:
  assumes "access_wf db" and "find (access_at v g) (group_access db) = Some a"
    and "\<not> (vga_permission a = ''admin''
            \<and> refuse_if_last_effective_admin db v (effective_admin_post_state db v None (Some g)))"
    and "effective_admins db v \<noteq> {}"
  shows "effective_admin_post_state db v None (Some g) \<noteq> {}"
  using assms post_state_no_grant [of db v g] access_row_unique [OF assms(1,2)]
  by (auto simp: refuse_if_last_effective_admin_def split: if_splits)

lemma remove_vault_member_keeps:
  assumes "access_wf db" and "remove_vault_member p v u db = Inr db'"
  shows "keeps_admins db db'"
proof -
  obtain r where r: "find (member_at v u) (vault_members db) = Some r"
    "\<not> (vm_permission r = ''admin''
      \<and> refuse_if_last_effective_admin db v (effective_admin_post_state db v (Some u) None))"
    "db' = set_removed_flag u (delete_member v u db)"
    using assms(2) by (auto simp: remove_vault_member_def split: if_splits option.splits)
  show ?thesis unfolding r(3)
    by (rule keeps_adminsI_one_vault [OF delete_member_admins member_post_state_kept [OF assms(1) r(1,2)]])
qed

lemma revoke_vault_group_access_keeps:
  assumes "access_wf db" and "revoke_vault_group_access p v g db = Inr db'"
  shows "keeps_admins db db'"
proof -
  obtain a where a: "find (access_at v g) (group_access db) = Some a"
    "\<not> (vga_permission a = ''admin''
      \<and> refuse_if_last_effective_admin db v (effective_admin_post_state db v None (Some g)))"
    "db' = delete_access v g db"
    using assms(2) by (auto simp: revoke_vault_group_access_def split: if_splits option.splits)
  show ?thesis unfolding a(3)
    by (rule keeps_adminsI_one_vault [OF delete_access_admins access_post_state_kept [OF assms(1) a(1,2)]])
qed

lemma promote_member_keeps:
  "keeps_admins db (set_member_permission v u ''admin'' gb db)"
proof (rule keeps_admins_mono)
  fix w x assume "direct_admin db w x"
  then obtain r where "r \<in> set (vault_members db)" "vm_user r = x" "vm_vault r = w"
    "vm_permission r = ''admin''" by (auto simp: direct_admin_def)
  then show "direct_admin (set_member_permission v u ''admin'' gb db) w x"
    by (auto simp: direct_admin_def set_member_permission_def
        intro!: bexI [OF _ in_update_rows [of r]])
qed (simp add: group_admin_def set_member_permission_def)

lemma promote_access_keeps:
  "keeps_admins db (set_access_permission v g ''admin'' gb db)"
proof (rule keeps_admins_mono)
  fix w h org x assume "group_admin db w h org x"
  moreover from this obtain a where "a \<in> set (group_access db)" "vga_group a = h" "vga_vault a = w"
    "vga_permission a = ''admin''" by (auto simp: group_admin_def)
  ultimately show "group_admin (set_access_permission v g ''admin'' gb db) w h org x"
    by (auto simp: group_admin_def set_access_permission_def
        intro!: bexI [OF _ in_update_rows [of a]])
qed (simp add: direct_admin_def set_access_permission_def)

lemma update_vault_member_keeps:
  assumes "access_wf db" and "update_vault_member p v u perm db = Inr db'"
  shows "keeps_admins db db'"
proof (cases "perm = ''admin''")
  case True
  then have "db' = set_member_permission v u ''admin'' (resolve_granted_by p) db"
    using assms(2) by (auto simp: update_vault_member_def split: if_splits option.splits)
  then show ?thesis by (simp add: promote_member_keeps)
next
  case False
  then obtain r where r: "find (member_at v u) (vault_members db) = Some r"
    "\<not> (vm_permission r = ''admin''
      \<and> refuse_if_last_effective_admin db v (effective_admin_post_state db v (Some u) None))"
    "db' = set_member_permission v u perm (resolve_granted_by p) db"
    using assms(2) by (auto simp: update_vault_member_def split: if_splits option.splits)
  show ?thesis unfolding r(3)
    by (rule keeps_adminsI_one_vault
        [OF set_member_permission_admins [OF False] member_post_state_kept [OF assms(1) r(1,2)]])
qed

lemma update_vault_group_access_keeps:
  assumes "access_wf db" and "update_vault_group_access p v g perm db = Inr db'"
  shows "keeps_admins db db'"
proof (cases "perm = ''admin''")
  case True
  then have "db' = set_access_permission v g ''admin'' (resolve_granted_by p) db"
    using assms(2) by (auto simp: update_vault_group_access_def split: if_splits option.splits)
  then show ?thesis by (simp add: promote_access_keeps)
next
  case False
  then obtain a where a: "find (access_at v g) (group_access db) = Some a"
    "\<not> (vga_permission a = ''admin''
      \<and> refuse_if_last_effective_admin db v (effective_admin_post_state db v None (Some g)))"
    "db' = set_access_permission v g perm (resolve_granted_by p) db"
    using assms(2) by (auto simp: update_vault_group_access_def split: if_splits option.splits)
  show ?thesis unfolding a(3)
    by (rule keeps_adminsI_one_vault
        [OF set_access_permission_admins [OF False] access_post_state_kept [OF assms(1) a(1,2)]])
qed

lemma add_vault_member_keeps:
  "add_vault_member p v u perm db = Inr db' \<Longrightarrow> keeps_admins db db'"
  by (rule keeps_admins_mono)
    (auto simp: add_vault_member_def direct_admin_def group_admin_def split: if_splits)

lemma grant_vault_group_access_keeps:
  "grant_vault_group_access p v g perm db = Inr db' \<Longrightarrow> keeps_admins db db'"
  by (rule keeps_admins_mono)
    (auto simp: grant_vault_group_access_def insert_access_def direct_admin_def group_admin_def
      split: if_splits)

lemma update_vault_groups_keeps:
  assumes "update_vault_groups p v access gs db = Inr db'"
  shows "keeps_admins db db'"
proof -
  define cleared where
    "cleared = db\<lparr>group_access := filter (\<lambda>a. vga_vault a \<noteq> v) (group_access db)\<rparr>"
  have db': "db' = fold (insert_access v (resolve_granted_by p))
      (dedupe_items [] (resolved_access access gs)) cleared"
    and guard: "effective_admins db v \<noteq> {} \<Longrightarrow> effective_admins db' v \<noteq> {}"
    using assms by (auto simp: update_vault_groups_def Let_def cleared_def split: if_splits)
  have mono: "direct_admin (fold (insert_access v gb) items d) w u = direct_admin d w u"
    "group_admin d w g org u \<Longrightarrow> group_admin (fold (insert_access v gb) items d) w g org u"
    for gb items d w u g org
    by (induction items arbitrary: d) (auto simp: insert_access_def direct_admin_def group_admin_def)
  have other: "effective_admins db' w \<noteq> {}" if "w \<noteq> v" "u \<in> effective_admins db w" for w u
  proof -
    have "direct_admin cleared w u \<or> (\<exists>g org. group_admin cleared w g org u)"
      using that by (auto simp: effective_admins_iff cleared_def direct_admin_def group_admin_def)
    then have "u \<in> effective_admins db' w" unfolding db' effective_admins_iff using mono by blast
    then show ?thesis by blast
  qed
  show ?thesis using guard other by (intro keeps_adminsI) (metis empty_iff)
qed


section \<open>Guarded transactions\<close>

text \<open>
  The contract of the cascade routes: a mutation that takes the last effective admin from a
  vault has that vault among its candidates. The guard then loses no coverage, although it
  looks at the candidates only.
\<close>

locale guarded_mutation =
  fixes candidates :: "authz_db \<Rightarrow> nat list"
    and mutate :: "authz_db \<Rightarrow> authz_db"
  assumes loss_is_candidate:
    "u \<in> effective_admins db v \<Longrightarrow> effective_admins (mutate db) v = {} \<Longrightarrow> v \<in> set (candidates db)"
begin

lemma guarded_keeps:
  assumes "guarded_transaction candidates mutate db = Inr db'"
  shows "keeps_admins db db'"
proof (rule keeps_adminsI)
  fix v u assume u: "u \<in> effective_admins db v"
  have db': "db' = mutate db"
    and kept: "\<And>v. v \<in> set (candidates db) \<Longrightarrow> effective_admins db v \<noteq> {}
                \<Longrightarrow> effective_admins db' v \<noteq> {}"
    using assms
    by (auto simp: guarded_transaction_def covered_vault_ids_def Let_def filter_empty_conv
        split: if_splits)
  show "effective_admins db' v \<noteq> {}"
  proof
    assume none: "effective_admins db' v = {}"
    then have "v \<in> set (candidates db)" using loss_is_candidate [OF u] db' by simp
    then show False using kept u none by blast
  qed
qed

lemma guarded_success_iff:
  "(\<exists>db'. guarded_transaction candidates mutate db = Inr db') \<longleftrightarrow> keeps_admins db (mutate db)"
proof
  assume "\<exists>db'. guarded_transaction candidates mutate db = Inr db'"
  then obtain db' where db': "guarded_transaction candidates mutate db = Inr db'" by blast
  then have "db' = mutate db" by (auto simp: guarded_transaction_def Let_def split: if_splits)
  then show "keeps_admins db (mutate db)" using guarded_keeps [OF db'] by simp
next
  assume "keeps_admins db (mutate db)"
  then show "\<exists>db'. guarded_transaction candidates mutate db = Inr db'"
    by (auto simp: guarded_transaction_def covered_vault_ids_def keeps_admins_def Let_def
        filter_empty_conv)
qed

end

lemma guarded_mutationI:
  assumes "\<And>db v u. direct_admin db v u \<Longrightarrow> direct_admin (mutate db) v u"
    and "\<And>db v g org u. group_admin db v g org u \<Longrightarrow> v \<notin> set (candidates db)
           \<Longrightarrow> group_admin (mutate db) v g org u"
  shows "guarded_mutation candidates mutate"
proof
  fix u db v assume "u \<in> effective_admins db v" and none: "effective_admins (mutate db) v = {}"
  moreover have "u \<notin> effective_admins (mutate db) v" using none by simp
  ultimately show "v \<in> set (candidates db)" using assms unfolding effective_admins_iff by blast
qed

interpretation group_deletion:
  guarded_mutation "group_admin_grant_vault_ids g" "delete_group_rows g" for g
  by (rule guarded_mutationI)
    (auto simp: direct_admin_def group_admin_def delete_group_rows_def group_admin_grant_vault_ids_def)

interpretation group_member_replacement:
  guarded_mutation "group_admin_grant_vault_ids g" "replace_group_members g us" for g us
  by (rule guarded_mutationI)
    (auto simp: direct_admin_def group_admin_def replace_group_members_def
      group_admin_grant_vault_ids_def)

lemma insert_group_access_mono:
  "direct_admin (fold (insert_group_access g gb) items db) v u = direct_admin db v u"
  "group_admin db v h org u \<Longrightarrow> group_admin (fold (insert_group_access g gb) items db) v h org u"
  by (induction items arbitrary: db)
    (auto simp: insert_group_access_def insert_access_def direct_admin_def group_admin_def)

interpretation group_vault_replacement:
  guarded_mutation "affected_vault_ids g items" "replace_group_vaults g gb items" for g gb items
proof (rule guarded_mutationI)
  fix db v u assume "direct_admin db v u"
  then show "direct_admin (replace_group_vaults g gb items db) v u"
    by (simp add: replace_group_vaults_def insert_group_access_mono) (simp add: direct_admin_def)
next
  fix db v h org u
  assume "group_admin db v h org u" and "v \<notin> set (affected_vault_ids g items db)"
  then show "group_admin (replace_group_vaults g gb items db) v h org u"
    unfolding replace_group_vaults_def
    by (intro insert_group_access_mono) (auto simp: group_admin_def affected_vault_ids_def)
qed

interpretation org_member_removal:
  guarded_mutation "user_derived_admin_vault_ids u" "delete_org_member_rows org u" for org u
proof (rule guarded_mutationI)
  fix db v w assume "direct_admin db v w"
  then show "direct_admin (delete_org_member_rows org u db) v w"
    by (simp add: direct_admin_def delete_org_member_rows_def)
next
  fix db v g org' w
  assume a: "group_admin db v g org' w" and c: "v \<notin> set (user_derived_admin_vault_ids u db)"
  then have "w \<noteq> u" by (auto simp: group_admin_def user_derived_admin_vault_ids_def)
  then show "group_admin (delete_org_member_rows org u db) v g org' w"
    using a by (auto simp: group_admin_def delete_org_member_rows_def)
qed

interpretation org_deletion:
  guarded_mutation "org_group_admin_grant_vault_ids org" "delete_org_rows org" for org
proof (rule guarded_mutationI)
  fix db v w assume "direct_admin db v w"
  then show "direct_admin (delete_org_rows org db) v w"
    by (simp add: direct_admin_def delete_org_rows_def Let_def)
next
  fix db v g org' w
  assume a: "group_admin db v g org' w" and c: "v \<notin> set (org_group_admin_grant_vault_ids org db)"
  then have "(g, org) \<notin> set (groups db)"
    by (auto simp: group_admin_def org_group_admin_grant_vault_ids_def)
  then show "group_admin (delete_org_rows org db) v g org' w"
    using a by (auto simp: group_admin_def delete_org_rows_def Let_def)
qed

lemma guarded_routes_keep:
  "delete_group p g db = Inr db' \<Longrightarrow> keeps_admins db db'"
  "update_group_members p g us db = Inr db' \<Longrightarrow> keeps_admins db db'"
  "update_group_vaults p g acc vs db = Inr db' \<Longrightarrow> keeps_admins db db'"
  "remove_org_member p org u db = Inr db' \<Longrightarrow> keeps_admins db db'"
  "delete_organization p org db = Inr db' \<Longrightarrow> keeps_admins db db'"
  by (auto simp: delete_group_def update_group_members_def update_group_vaults_def
      remove_org_member_def delete_organization_def Let_def split: if_splits option.splits
      intro: group_deletion.guarded_keeps group_member_replacement.guarded_keeps
        group_vault_replacement.guarded_keeps org_member_removal.guarded_keeps
        org_deletion.guarded_keeps)

lemma apply_access_keeps:
  assumes "access_wf db" and "apply_access p c db = Inr db'"
  shows "keeps_admins db db'"
  using assms
  by (cases c) (auto intro: add_vault_member_keeps update_vault_member_keeps
      remove_vault_member_keeps grant_vault_group_access_keeps update_vault_group_access_keeps
      revoke_vault_group_access_keeps update_vault_groups_keeps guarded_routes_keep)


section \<open>The UNIQUE constraints\<close>

lemma dedupe_items_fst:
  "distinct (map fst (dedupe_items seen items))
   \<and> fst ` set (dedupe_items seen items) \<inter> set seen = {}"
  by (induction seen items rule: dedupe_items.induct) auto

lemma insert_access_fold:
  "group_access (fold (insert_access v gb) items db) = group_access db
     @ map (\<lambda>item. \<lparr>vga_vault = v, vga_group = fst item, vga_permission = snd item,
                     vga_granted_by = gb\<rparr>) items"
  "vault_members (fold (insert_access v gb) items db) = vault_members db"
  by (induction items arbitrary: db) (simp_all add: insert_access_def)

lemma insert_group_access_fold:
  "group_access (fold (insert_group_access g gb) items db) = group_access db
     @ map (\<lambda>item. \<lparr>vga_vault = fst item, vga_group = g, vga_permission = snd item,
                     vga_granted_by = gb\<rparr>) items"
  "vault_members (fold (insert_group_access g gb) items db) = vault_members db"
  by (induction items arbitrary: db) (simp_all add: insert_group_access_def insert_access_def)

lemma distinct_map_filter_key: "distinct (map k rs) \<Longrightarrow> distinct (map k (filter p rs))"
  by (simp add: distinct_map_filter)

lemma update_vault_groups_wf:
  assumes "access_wf db" and "update_vault_groups p v access gs db = Inr db'"
  shows "access_wf db'"
proof -
  let ?items = "dedupe_items [] (resolved_access access gs)"
  let ?cleared = "db\<lparr>group_access := filter (\<lambda>a. vga_vault a \<noteq> v) (group_access db)\<rparr>"
  have db': "db' = fold (insert_access v (resolve_granted_by p)) ?items ?cleared"
    using assms(2) by (auto simp: update_vault_groups_def Let_def split: if_splits)
  have "distinct (map (Pair v) (map fst ?items))"
    using dedupe_items_fst [of "[]" "resolved_access access gs"]
    by (simp add: distinct_map inj_on_def)
  then show ?thesis
    using assms(1) distinct_map_filter_key [of access_key "group_access db" "\<lambda>a. vga_vault a \<noteq> v"]
    unfolding db' access_wf_def insert_access_fold
    by (auto simp: access_key_def o_def)
qed

lemma replace_group_vaults_wf:
  assumes "access_wf db"
  shows "access_wf (replace_group_vaults g gb items db)"
proof -
  let ?items = "dedupe_items [] items"
  have "distinct (map (\<lambda>v. (v, g)) (map fst ?items))"
    using dedupe_items_fst [of "[]" items] by (simp add: distinct_map inj_on_def)
  then show ?thesis
    using assms distinct_map_filter_key [of access_key "group_access db" "\<lambda>a. vga_group a \<noteq> g"]
    unfolding replace_group_vaults_def access_wf_def insert_group_access_fold
    by (auto simp: access_key_def o_def)
qed

lemma guarded_transaction_result:
  "guarded_transaction candidates mutate db = Inr db' \<Longrightarrow> db' = mutate db"
  by (auto simp: guarded_transaction_def Let_def split: if_splits)

lemma row_mutations_wf [inv_intros]:
  "access_wf db \<Longrightarrow> access_wf (set_member_permission v u perm gb db)"
  "access_wf db \<Longrightarrow> access_wf (set_access_permission v g perm gb db)"
  "access_wf db \<Longrightarrow> access_wf (delete_member v u db)"
  "access_wf db \<Longrightarrow> access_wf (delete_access v g db)"
  "access_wf db \<Longrightarrow> access_wf (set_removed_flag u db)"
  "access_wf db \<Longrightarrow> access_wf (delete_group_rows g db)"
  "access_wf db \<Longrightarrow> access_wf (replace_group_members g us db)"
  "access_wf db \<Longrightarrow> access_wf (delete_org_member_rows org u db)"
  "access_wf db \<Longrightarrow> access_wf (delete_org_rows org db)"
  by (simp_all add: access_wf_def set_member_permission_def set_access_permission_def
      delete_member_def delete_access_def set_removed_flag_def delete_group_rows_def
      replace_group_members_def delete_org_member_rows_def delete_org_rows_def Let_def
      map_key_update_rows member_key_def access_key_def distinct_map_filter_key)

lemma insert_routes_wf:
  assumes "access_wf db"
  shows "add_vault_member p v u perm db = Inr db' \<Longrightarrow> access_wf db'"
    and "grant_vault_group_access p v g perm db = Inr db' \<Longrightarrow> access_wf db'"
  using assms
  by (auto simp: access_wf_def add_vault_member_def grant_vault_group_access_def insert_access_def
      member_key_def access_key_def list_ex_iff member_at_def access_at_def split: if_splits)

lemma update_routes_wf:
  assumes "access_wf db"
  shows "update_vault_member p v u perm db = Inr db' \<Longrightarrow> access_wf db'"
    and "remove_vault_member p v u db = Inr db' \<Longrightarrow> access_wf db'"
    and "update_vault_group_access p v g perm db = Inr db' \<Longrightarrow> access_wf db'"
    and "revoke_vault_group_access p v g db = Inr db' \<Longrightarrow> access_wf db'"
  using assms
  by (auto simp: update_vault_member_def remove_vault_member_def update_vault_group_access_def
      revoke_vault_group_access_def split: if_splits option.splits intro: inv_intros)

lemma guarded_routes_wf:
  assumes "access_wf db"
  shows "delete_group p g db = Inr db' \<Longrightarrow> access_wf db'"
    and "update_group_members p g us db = Inr db' \<Longrightarrow> access_wf db'"
    and "update_group_vaults p g acc vs db = Inr db' \<Longrightarrow> access_wf db'"
    and "remove_org_member p org u db = Inr db' \<Longrightarrow> access_wf db'"
    and "delete_organization p org db = Inr db' \<Longrightarrow> access_wf db'"
  using assms
  by (auto simp: delete_group_def update_group_members_def update_group_vaults_def
      remove_org_member_def delete_organization_def Let_def split: if_splits option.splits
      dest!: guarded_transaction_result intro: inv_intros replace_group_vaults_wf)

lemma apply_access_wf:
  assumes "access_wf db" and "apply_access p c db = Inr db'"
  shows "access_wf db'"
  using assms
  by (cases c) (auto intro: insert_routes_wf update_routes_wf guarded_routes_wf
      update_vault_groups_wf)

lemma run_access_keeps:
  assumes "access_wf db"
  shows "access_wf (run_access cs db) \<and> keeps_admins db (run_access cs db)"
  using assms
proof (induction cs db rule: run_access.induct)
  case (1 db)
  then show ?case by (simp add: keeps_admins_def)
next
  case (2 p c cs db)
  show ?case
  proof (cases "apply_access p c db")
    case (Inl e)
    then show ?thesis using 2 by simp
  next
    case (Inr db')
    then have "access_wf db'" "keeps_admins db db'"
      using 2(2) apply_access_wf apply_access_keeps by blast+
    then show ?thesis using 2(1) Inr by (simp add: keeps_admins_def)
  qed
qed

section \<open>Properties\<close>

text \<open>
  No sequence of membership, grant, group and organisation requests, by any callers and
  whichever of them fail, leaves a vault that had an effective admin without one.
\<close>

theorem vault_never_orphaned:
  assumes "access_wf db" and "effective_admins db v \<noteq> {}"
  shows "effective_admins (run_access cs db) v \<noteq> {}"
  using run_access_keeps [OF assms(1)] assms(2) by (simp add: keeps_admins_def)

theorem vault_never_orphaned_witness:
  "effective_admins (run_access
     [(\<lparr>p_id = UserId 7, p_role = ''member''\<rparr>, RevokeGroup 1 5),
      (\<lparr>p_id = UserId 0, p_role = ''superadmin''\<rparr>, RemoveMember 1 7)] demo_authz) 1 \<noteq> {}"
proof (rule vault_never_orphaned)
  show "access_wf demo_authz" by (simp add: access_wf_def demo_authz_def)
  show "effective_admins demo_authz 1 \<noteq> {}"
    by (simp add: effective_admins_def direct_vault_admin_ids_def demo_authz_def excluded_def)
qed

text \<open>
  The last-admin guard of a member removal is exact: for an authorised caller removing
  somebody else's admin row, the request is refused with 409 if and only if deleting the row
  would have left the vault without an effective admin; otherwise the row is gone, and the
  user's removal is flagged.
\<close>

theorem remove_member_guard_exact:
  assumes "access_wf db"
    and "require_vault_permission db [''admin''] p v = Inr p" and "vault_exists db v"
    and "\<not> is_user p u" and "direct_admin db v u"
  shows "if effective_admins (delete_member v u db) v = {}
         then remove_vault_member p v u db = Inl (Http 409)
         else \<exists>db'. remove_vault_member p v u db = Inr db' \<and> \<not> direct_admin db' v u
                  \<and> u \<in> set (removed_flags db')"
proof -
  obtain r where f: "find (member_at v u) (vault_members db) = Some r"
    using assms(5) find_NoneD [of "member_at v u" "vault_members db"]
    by (cases "find (member_at v u) (vault_members db)") (auto simp: direct_admin_def member_at_def)
  have adm: "vm_permission r = ''admin''" using member_row_unique [OF assms(1) f] assms(5) by simp
  have pre: "effective_admins db v \<noteq> {}" using assms(5) by (auto simp: effective_admins_iff)
  have "effective_admins (set_removed_flag u d) v = effective_admins d v" for d
    by (simp add: set_removed_flag_def effective_admins_def direct_vault_admin_ids_def
        group_derived_vault_admin_ids_def in_org_def org_members_def)
  then have post: "effective_admins (delete_member v u db) v
      = effective_admin_post_state db v (Some u) None"
    using delete_member_admins [of u v db v] by simp
  have gone: "\<not> direct_admin (set_removed_flag u (delete_member v u db)) v u"
    by (simp add: direct_admin_def set_removed_flag_def delete_member_def member_at_def)
  have flag: "u \<in> set (removed_flags (set_removed_flag u d))" for d
    by (simp add: set_removed_flag_def)
  show ?thesis
    using assms f adm pre gone flag
    by (simp add: post remove_vault_member_def refuse_if_last_effective_admin_def)
qed

theorem remove_member_guard_exact_witness:
  "remove_vault_member \<lparr>p_id = UserId 0, p_role = ''superadmin''\<rparr> 1 7
     (demo_authz\<lparr>group_access := []\<rparr>) = Inl (Http 409)"
proof -
  let ?db = "demo_authz\<lparr>group_access := []\<rparr>"
  have "if effective_admins (delete_member 1 7 ?db) 1 = {}
      then remove_vault_member \<lparr>p_id = UserId 0, p_role = ''superadmin''\<rparr> 1 7 ?db = Inl (Http 409)
      else \<exists>db'. remove_vault_member \<lparr>p_id = UserId 0, p_role = ''superadmin''\<rparr> 1 7 ?db = Inr db'
         \<and> \<not> direct_admin db' 1 7 \<and> 7 \<in> set (removed_flags db')"
    by (rule remove_member_guard_exact)
      (simp_all add: access_wf_def demo_authz_def require_vault_permission_def evaluate_policy_def
        vault_exists_def is_user_def direct_admin_def)
  moreover have "effective_admins (delete_member 1 7 ?db) 1 = {}"
    by (simp add: effective_admins_def direct_vault_admin_ids_def delete_member_def member_at_def
        group_derived_vault_admin_ids_def demo_authz_def)
  ultimately show ?thesis by simp
qed

end
