(* ===== verification/Folder_Store.thy ===== *)
theory Folder_Store
  imports Prelude "HOL-Library.List_Lexorder"
begin

text \<open>
  \<^verbatim>\<open>backend/app/services/folder_store.py\<close>: the folder tree of a vault and the filing of
  documents. SQLite enforces the foreign keys (a deleted folder takes its subfolders along,
  its files become unfiled); the store itself enforces unique names, existing parents and
  acyclicity. Every store method is one transaction.
\<close>

section \<open>Tables\<close>

record folder_row =
  fld_id :: nat
  fld_vault :: nat
  fld_parent :: "nat option"
  fld_name :: pystr
  fld_description :: pystr
  fld_created :: nat
  fld_updated :: nat

record file_row =
  fil_id :: nat
  fil_vault :: nat
  fil_folder :: "nat option"

record folder_db =
  f_vaults :: "nat list"
  folders :: "folder_row list"
  files :: "file_row list"
  next_folder :: nat   \<comment> \<open>AUTOINCREMENT\<close>

datatype folder_error =
  FolderDuplicateError | FolderCycleError | FolderNotFoundError | EmptyNameError

text \<open>\<open>_UNSET\<close> differs from an explicit \<open>None\<close>, which means the root.\<close>

datatype parent_arg = Unset | SetParent "nat option"

section \<open>Reads\<close>

definition document_count :: "folder_db \<Rightarrow> nat \<Rightarrow> nat" where
  "document_count db f = rowcount (\<lambda>x. fil_folder x = Some f) (files db)"

definition folder_at :: "nat \<Rightarrow> nat \<Rightarrow> folder_row \<Rightarrow> bool" where
  "folder_at f v r \<longleftrightarrow> fld_id r = f \<and> fld_vault r = v"

definition get_folder :: "nat \<Rightarrow> nat \<Rightarrow> folder_db \<Rightarrow> (folder_row \<times> nat) option" where
  "get_folder f v db =
     map_option (\<lambda>r. (r, document_count db (fld_id r))) (find (folder_at f v) (folders db))"

definition list_folders :: "nat \<Rightarrow> folder_db \<Rightarrow> (folder_row \<times> nat) list" where
  "list_folders v db =
     map (\<lambda>r. (r, document_count db (fld_id r)))
       (sort_key (\<lambda>r. nocase (fld_name r)) (filter (\<lambda>r. fld_vault r = v) (folders db)))"

definition name_exists :: "folder_db \<Rightarrow> nat \<Rightarrow> nat option \<Rightarrow> pystr \<Rightarrow> nat option \<Rightarrow> bool" where
  "name_exists db v parent name exclude =
     list_ex (\<lambda>r. fld_vault r = v \<and> fld_parent r = parent \<and> nocase (fld_name r) = nocase name
                \<and> exclude \<noteq> Some (fld_id r)) (folders db)"

definition folder_in_vault :: "folder_db \<Rightarrow> nat \<Rightarrow> nat \<Rightarrow> bool" where
  "folder_in_vault db v f = list_ex (folder_at f v) (folders db)"

text \<open>One query of the breadth-first walk: the rows whose parent is in the frontier.\<close>

definition child_ids :: "(folder_row \<Rightarrow> bool) \<Rightarrow> folder_row list \<Rightarrow> nat list \<Rightarrow> nat list" where
  "child_ids q rs frontier =
     map fld_id (filter (\<lambda>r. q r \<and> (case fld_parent r of None \<Rightarrow> False
                                     | Some p \<Rightarrow> p \<in> set frontier)) rs)"

lemma child_ids_subset: "set (child_ids q rs frontier) \<subseteq> fld_id ` set rs"
  by (auto simp: child_ids_def)

function descend :: "(folder_row \<Rightarrow> bool) \<Rightarrow> folder_row list \<Rightarrow> nat list \<Rightarrow> nat list \<Rightarrow> nat list" where
  "descend q rs result frontier =
     (if frontier = [] then result
      else let children = filter (\<lambda>i. i \<notin> set result) (child_ids q rs frontier)
           in descend q rs (result @ children) children)"
  by pat_completeness auto

termination
proof (relation "measure (\<lambda>(q, rs, result, frontier).
         2 * card (fld_id ` set rs - set result) + (if frontier = [] then 0 else 1))")
  fix q rs and result frontier children :: "nat list"
  assume ne: "frontier \<noteq> []"
    and c: "children = filter (\<lambda>i. i \<notin> set result) (child_ids q rs frontier)"
  show "((q, rs, result @ children, children), (q, rs, result, frontier))
      \<in> measure (\<lambda>(q, rs, result, frontier).
         2 * card (fld_id ` set rs - set result) + (if frontier = [] then 0 else 1))"
  proof (cases "children = []")
    case True
    then show ?thesis using ne by simp
  next
    case False
    then obtain i where "i \<in> set children" by (cases children) auto
    then have "i \<in> fld_id ` set rs - set result"
      using c child_ids_subset [of q rs frontier] by auto
    then have "fld_id ` set rs - set (result @ children) \<subset> fld_id ` set rs - set result"
      using \<open>i \<in> set children\<close> by auto
    then have "card (fld_id ` set rs - set (result @ children)) < card (fld_id ` set rs - set result)"
      by (intro psubset_card_mono) auto
    then show ?thesis using ne by simp
  qed
qed simp

declare descend.simps [simp del]

definition descendant_ids :: "folder_db \<Rightarrow> nat \<Rightarrow> nat \<Rightarrow> nat list" where
  "descendant_ids db v f = descend (\<lambda>r. fld_vault r = v) (folders db) [] [f]"

text \<open>\<open>store_utils.vault_file_ids\<close>: the ids among the given ones that belong to the vault.\<close>

definition vault_file_ids :: "folder_db \<Rightarrow> nat \<Rightarrow> nat list \<Rightarrow> nat list" where
  "vault_file_ids db v ids =
     map fil_id (filter (\<lambda>x. fil_vault x = v \<and> fil_id x \<in> set ids) (files db))"

section \<open>Writes\<close>

definition create_folder ::
  "nat \<Rightarrow> nat \<Rightarrow> pystr \<Rightarrow> pystr \<Rightarrow> nat option \<Rightarrow> folder_db
     \<Rightarrow> folder_error + ((folder_row \<times> nat) option \<times> folder_db)" where
  "create_folder now v raw_name description parent db =
     (let name = py_strip raw_name in
      if name = [] then Inl EmptyNameError
      else if (case parent of None \<Rightarrow> False | Some p \<Rightarrow> \<not> folder_in_vault db v p)
        then Inl FolderNotFoundError
      else if name_exists db v parent name None then Inl FolderDuplicateError
      else if v \<notin> set (f_vaults db) then Inl FolderNotFoundError
      else (let i = next_folder db;
                db' = db\<lparr>folders := folders db @ [\<lparr>fld_id = i, fld_vault = v, fld_parent = parent,
                          fld_name = name, fld_description = description,
                          fld_created = now, fld_updated = now\<rparr>],
                         next_folder := i + 1\<rparr>
            in Inr (get_folder i v db', db')))"

text \<open>The checks that reparent a folder, in the code's order.\<close>

definition check_parent :: "folder_db \<Rightarrow> nat \<Rightarrow> nat \<Rightarrow> parent_arg \<Rightarrow> folder_error option" where
  "check_parent db f v arg =
     (case arg of
        Unset \<Rightarrow> None
      | SetParent None \<Rightarrow> None
      | SetParent (Some p) \<Rightarrow>
          if p = f then Some FolderCycleError
          else if \<not> folder_in_vault db v p then Some FolderNotFoundError
          else if p \<in> set (descendant_ids db v f) then Some FolderCycleError
          else None)"

definition update_folder ::
  "nat \<Rightarrow> nat \<Rightarrow> nat \<Rightarrow> pystr option \<Rightarrow> pystr option \<Rightarrow> parent_arg \<Rightarrow> folder_db
     \<Rightarrow> folder_error + ((folder_row \<times> nat) option \<times> folder_db)" where
  "update_folder now f v name_arg description parent_folder_id db =
     (case get_folder f v db of
        None \<Rightarrow> Inr (None, db)
      | Some (current, cnt) \<Rightarrow>
          (case check_parent db f v parent_folder_id of
             Some e \<Rightarrow> Inl e
           | None \<Rightarrow>
              (let new_parent = (case parent_folder_id of Unset \<Rightarrow> fld_parent current
                                 | SetParent p \<Rightarrow> p);
                   new_name = (case name_arg of None \<Rightarrow> fld_name current | Some n \<Rightarrow> py_strip n);
                   renames = name_arg \<noteq> None \<or> parent_folder_id \<noteq> Unset
               in if name_arg \<noteq> None \<and> new_name = [] then Inl EmptyNameError
                  else if \<not> renames \<and> description = None then Inr (Some (current, cnt), db)
                  else if renames \<and> name_exists db v new_parent new_name (Some f)
                    then Inl FolderDuplicateError
                  else (let db' = db\<lparr>folders := update_rows (folder_at f v)
                              (\<lambda>r. r\<lparr>fld_parent := new_parent, fld_name := new_name,
                                    fld_description := (case description of
                                      None \<Rightarrow> fld_description r | Some d \<Rightarrow> d),
                                    fld_updated := now\<rparr>) (folders db)\<rparr>
                        in Inr (get_folder f v db', db')))))"

text \<open>
  \<open>DELETE FROM folders\<close> with the two foreign-key actions: \<open>ON DELETE CASCADE\<close> takes the whole
  subtree, \<open>ON DELETE SET NULL\<close> unfiles the documents.
\<close>

definition delete_folder :: "nat \<Rightarrow> nat \<Rightarrow> folder_db \<Rightarrow> bool \<times> folder_db" where
  "delete_folder f v db =
     (if \<not> folder_in_vault db v f then (False, db)
      else (let gone = f # descend (\<lambda>_. True) (folders db) [] [f]
            in (True, db\<lparr>folders := filter (\<lambda>r. fld_id r \<notin> set gone) (folders db),
                 files := update_rows (\<lambda>x. case fil_folder x of None \<Rightarrow> False
                                              | Some g \<Rightarrow> g \<in> set gone)
                            (\<lambda>x. x\<lparr>fil_folder := None\<rparr>) (files db)\<rparr>)))"

definition move_documents ::
  "nat \<Rightarrow> nat list \<Rightarrow> nat option \<Rightarrow> folder_db \<Rightarrow> folder_error + (nat \<times> folder_db)" where
  "move_documents v file_ids folder_id db =
     (if (case folder_id of None \<Rightarrow> False | Some f \<Rightarrow> \<not> folder_in_vault db v f)
        then Inl FolderNotFoundError
      else (let valid = vault_file_ids db v file_ids
            in if valid = [] then Inr (0, db)
               else Inr (rowcount (\<lambda>x. fil_id x \<in> set valid) (files db),
                      db\<lparr>files := update_rows (\<lambda>x. fil_id x \<in> set valid)
                                    (\<lambda>x. x\<lparr>fil_folder := folder_id\<rparr>) (files db)\<rparr>)))"

section \<open>The walk computes the transitive closure\<close>

definition parent_edges :: "(folder_row \<Rightarrow> bool) \<Rightarrow> folder_row list \<Rightarrow> (nat \<times> nat) set" where
  "parent_edges q rs = {(fld_id r, p) | r p. r \<in> set rs \<and> q r \<and> fld_parent r = Some p}"

lemma child_ids_iff: "i \<in> set (child_ids q rs fr) \<longleftrightarrow> (\<exists>p \<in> set fr. (i, p) \<in> parent_edges q rs)"
  by (auto simp: child_ids_def parent_edges_def split: option.splits)

lemma descend_sound:
  "set (descend q rs res fr) \<subseteq> set res \<union> {i. \<exists>p \<in> set fr. (i, p) \<in> (parent_edges q rs)\<^sup>+}"
proof (induction q rs res fr rule: descend.induct)
  case (1 q rs res fr)
  show ?case
  proof (cases "fr = []")
    case True
    then show ?thesis by (simp add: descend.simps)
  next
    case False
    let ?c = "filter (\<lambda>i. i \<notin> set res) (child_ids q rs fr)"
    have step: "\<exists>p \<in> set fr. (j, p) \<in> (parent_edges q rs)\<^sup>+"
      if i: "i \<in> set ?c" and "j = i \<or> (j, i) \<in> (parent_edges q rs)\<^sup>+" for i j
    proof -
      obtain p where "p \<in> set fr" "(i, p) \<in> parent_edges q rs"
        using i by (auto simp: child_ids_iff)
      then show ?thesis using that by (auto intro: trancl_into_trancl)
    qed
    have "set (descend q rs res fr) \<subseteq> set (res @ ?c) \<union> {i. \<exists>p \<in> set ?c. (i, p) \<in> (parent_edges q rs)\<^sup>+}"
      using 1 [OF False refl] False by (subst descend.simps) (simp add: Let_def)
    also have "\<dots> \<subseteq> set res \<union> {i. \<exists>p \<in> set fr. (i, p) \<in> (parent_edges q rs)\<^sup>+}"
      using step by auto
    finally show ?thesis .
  qed
qed

text \<open>The loop invariant: a child of a collected node is collected or hangs off the frontier.\<close>

lemma descend_complete:
  assumes "\<And>i p. (i, p) \<in> parent_edges q rs \<Longrightarrow> p \<in> set res \<Longrightarrow> p \<notin> set fr \<Longrightarrow> i \<in> set res"
  shows "set res \<subseteq> set (descend q rs res fr)
    \<and> (\<forall>i p. (i, p) \<in> parent_edges q rs \<longrightarrow> p \<in> set (descend q rs res fr) \<union> set fr
          \<longrightarrow> i \<in> set (descend q rs res fr))"
  using assms
proof (induction q rs res fr rule: descend.induct)
  case (1 q rs res fr)
  show ?case
  proof (cases "fr = []")
    case True
    then show ?thesis using 1(2) by (simp add: descend.simps)
  next
    case False
    let ?c = "filter (\<lambda>i. i \<notin> set res) (child_ids q rs fr)"
    have eq: "descend q rs res fr = descend q rs (res @ ?c) ?c"
      using False by (subst descend.simps) (simp add: Let_def)
    have c: "i \<in> set (res @ ?c)" if "(i, p) \<in> parent_edges q rs" "p \<in> set fr" for i p
      using that by (auto simp: child_ids_iff)
    have IH: "set (res @ ?c) \<subseteq> set (descend q rs (res @ ?c) ?c)
      \<and> (\<forall>i p. (i, p) \<in> parent_edges q rs \<longrightarrow> p \<in> set (descend q rs (res @ ?c) ?c) \<union> set ?c
            \<longrightarrow> i \<in> set (descend q rs (res @ ?c) ?c))"
    proof (rule 1(1) [OF False refl])
      fix i p assume e: "(i, p) \<in> parent_edges q rs" and p: "p \<in> set (res @ ?c)" "p \<notin> set ?c"
      then have "p \<in> set res" by auto
      then show "i \<in> set (res @ ?c)" using 1(2) [OF e] c [OF e] by auto
    qed
    have "i \<in> set (descend q rs (res @ ?c) ?c)"
      if "(i, p) \<in> parent_edges q rs" "p \<in> set (descend q rs (res @ ?c) ?c) \<union> set fr" for i p
      using IH c [OF that(1)] that by (cases "p \<in> set fr") blast+
    then show ?thesis unfolding eq using IH by simp
  qed
qed

lemma descend_closure: "set (descend q rs [] [f]) = {i. (i, f) \<in> (parent_edges q rs)\<^sup>+}"
proof
  show "set (descend q rs [] [f]) \<subseteq> {i. (i, f) \<in> (parent_edges q rs)\<^sup>+}"
    using descend_sound [of q rs "[]" "[f]"] by simp
  have closed: "i \<in> set (descend q rs [] [f])"
    if "(i, p) \<in> parent_edges q rs" "p = f \<or> p \<in> set (descend q rs [] [f])" for i p
    using descend_complete [of q rs "[]" "[f]"] that by auto
  have "i \<in> set (descend q rs [] [f])" if "(i, f) \<in> (parent_edges q rs)\<^sup>+" for i
    using that by (induction rule: converse_trancl_induct) (use closed in blast)+
  then show "{i. (i, f) \<in> (parent_edges q rs)\<^sup>+} \<subseteq> set (descend q rs [] [f])" by blast
qed


section \<open>Invariant\<close>

abbreviation folder_edges :: "folder_db \<Rightarrow> (nat \<times> nat) set" where
  "folder_edges db \<equiv> parent_edges (\<lambda>_. True) (folders db)"

definition sibling_key :: "folder_row \<Rightarrow> nat \<times> nat option \<times> pystr" where
  "sibling_key r = (fld_vault r, fld_parent r, nocase (fld_name r))"

definition folder_keys_ok :: "folder_db \<Rightarrow> bool" where
  "folder_keys_ok db \<longleftrightarrow> distinct (map fld_id (folders db))
     \<and> (\<forall>r \<in> set (folders db). fld_id r < next_folder db)"

definition parents_ok :: "folder_db \<Rightarrow> bool" where
  "parents_ok db \<longleftrightarrow> (\<forall>r \<in> set (folders db). \<forall>p. fld_parent r = Some p
     \<longrightarrow> (\<exists>r' \<in> set (folders db). fld_id r' = p \<and> fld_vault r' = fld_vault r))"

definition names_ok :: "folder_db \<Rightarrow> bool" where
  "names_ok db \<longleftrightarrow> distinct (map sibling_key (folders db))
     \<and> (\<forall>r \<in> set (folders db). fld_name r \<noteq> [] \<and> py_strip (fld_name r) = fld_name r)"

definition filing_ok :: "folder_db \<Rightarrow> bool" where
  "filing_ok db \<longleftrightarrow> distinct (map fil_id (files db)) \<and> (\<forall>x \<in> set (files db). \<forall>f. fil_folder x = Some f
     \<longrightarrow> (\<exists>r \<in> set (folders db). fld_id r = f \<and> fld_vault r = fil_vault x))"

definition folder_inv :: "folder_db \<Rightarrow> bool" where
  "folder_inv db \<longleftrightarrow> folder_keys_ok db \<and> parents_ok db \<and> acyclic (folder_edges db)
     \<and> names_ok db \<and> filing_ok db"

datatype folder_op =
    Create nat nat pystr pystr "nat option"
  | Update nat nat nat "pystr option" "pystr option" parent_arg
  | Delete nat nat
  | Move nat "nat list" "nat option"
  | Upload nat nat   \<comment> \<open>an ingestion adds a file row, unfiled\<close>

definition state_of :: "folder_db \<Rightarrow> folder_error + ('a \<times> folder_db) \<Rightarrow> folder_db" where
  "state_of db res = (case res of Inl _ \<Rightarrow> db | Inr (_, db') \<Rightarrow> db')"

fun apply_folder :: "folder_op \<Rightarrow> folder_db \<Rightarrow> folder_db" where
  "apply_folder (Create now v name d p) db = state_of db (create_folder now v name d p db)"
| "apply_folder (Update now f v name d p) db = state_of db (update_folder now f v name d p db)"
| "apply_folder (Delete f v) db = snd (delete_folder f v db)"
| "apply_folder (Move v ids f) db = state_of db (move_documents v ids f db)"
| "apply_folder (Upload i v) db =
     (if i \<in> fil_id ` set (files db) then db
      else db\<lparr>files := files db @ [\<lparr>fil_id = i, fil_vault = v, fil_folder = None\<rparr>]\<rparr>)"

definition folder_init :: "nat list \<Rightarrow> folder_db" where
  "folder_init vs = \<lparr>f_vaults = vs, folders = [], files = [], next_folder = 1\<rparr>"

lemma parent_edges_append: "parent_edges q (rs @ rs') = parent_edges q rs \<union> parent_edges q rs'"
  by (auto simp: parent_edges_def)

lemma parent_edges_single:
  "parent_edges q [r] = (if q r then (case fld_parent r of None \<Rightarrow> {} | Some p \<Rightarrow> {(fld_id r, p)}) else {})"
  by (auto simp: parent_edges_def split: option.splits)

lemma folder_in_vault_iff:
  "folder_in_vault db v f \<longleftrightarrow> (\<exists>r \<in> set (folders db). fld_id r = f \<and> fld_vault r = v)"
  by (auto simp: folder_in_vault_def folder_at_def list_ex_iff)

lemma name_exists_iff:
  "name_exists db v parent name x \<longleftrightarrow>
     (\<exists>r \<in> set (folders db). sibling_key r = (v, parent, nocase name) \<and> x \<noteq> Some (fld_id r))"
  by (auto simp: name_exists_def sibling_key_def list_ex_iff)

lemma edges_same_vault:
  assumes "folder_keys_ok db" and "parents_ok db" and "(a, b) \<in> (folder_edges db)\<^sup>+"
    and "\<exists>r \<in> set (folders db). fld_id r = a \<and> fld_vault r = v"
  shows "(a, b) \<in> (parent_edges (\<lambda>r. fld_vault r = v) (folders db))\<^sup>+"
  using assms(3,4)
proof (induction rule: converse_trancl_induct)
  case (base a)
  then show ?case using assms(1)
    by (auto simp: parent_edges_def folder_keys_ok_def dest: distinct_key_eq)
next
  case (step a c)
  obtain r where r: "r \<in> set (folders db)" "fld_id r = a" "fld_vault r = v" using step(4) by blast
  have "fld_parent r = Some c"
    using step(1) r assms(1)
    by (auto simp: parent_edges_def folder_keys_ok_def dest: distinct_key_eq)
  then have "\<exists>r' \<in> set (folders db). fld_id r' = c \<and> fld_vault r' = v"
    using assms(2) r by (auto simp: parents_ok_def)
  then have "(c, b) \<in> (parent_edges (\<lambda>r. fld_vault r = v) (folders db))\<^sup>+" using step(3) by blast
  moreover have "(a, c) \<in> parent_edges (\<lambda>r. fld_vault r = v) (folders db)"
    using r \<open>fld_parent r = Some c\<close> by (auto simp: parent_edges_def)
  ultimately show ?case by (rule trancl_into_trancl2 [rotated])
qed

lemma descendant_ids_iff:
  assumes "folder_keys_ok db" and "parents_ok db" and "folder_in_vault db v p"
  shows "p \<in> set (descendant_ids db v f) \<longleftrightarrow> (p, f) \<in> (folder_edges db)\<^sup>+"
proof
  assume "p \<in> set (descendant_ids db v f)"
  then have "(p, f) \<in> (parent_edges (\<lambda>r. fld_vault r = v) (folders db))\<^sup>+"
    by (simp add: descendant_ids_def descend_closure)
  then show "(p, f) \<in> (folder_edges db)\<^sup>+"
    by (rule trancl_mono) (auto simp: parent_edges_def)
next
  assume "(p, f) \<in> (folder_edges db)\<^sup>+"
  then have "(p, f) \<in> (parent_edges (\<lambda>r. fld_vault r = v) (folders db))\<^sup>+"
    using edges_same_vault [OF assms(1,2)] assms(3) by (simp add: folder_in_vault_iff)
  then show "p \<in> set (descendant_ids db v f)" by (simp add: descendant_ids_def descend_closure)
qed

section \<open>Creation\<close>

lemma create_folder_inv:
  assumes inv: "folder_inv db" and ok: "create_folder now v name d parent db = Inr (res, db')"
  shows "folder_inv db'"
proof -
  let ?r = "\<lparr>fld_id = next_folder db, fld_vault = v, fld_parent = parent,
              fld_name = py_strip name, fld_description = d, fld_created = now, fld_updated = now\<rparr>"
  have db': "db' = db\<lparr>folders := folders db @ [?r], next_folder := next_folder db + 1\<rparr>"
    and ne: "py_strip name \<noteq> []"
    and par: "\<And>p. parent = Some p \<Longrightarrow> folder_in_vault db v p"
    and uniq: "\<not> name_exists db v parent (py_strip name) None"
    using ok by (auto simp: create_folder_def Let_def split: if_splits option.splits)
  have keys: "folder_keys_ok db'"
    using inv by (auto simp: folder_inv_def folder_keys_ok_def db')
  have parents: "parents_ok db'"
    using inv par by (fastforce simp: folder_inv_def parents_ok_def db' folder_in_vault_iff)
  have names: "names_ok db'"
    using inv uniq ne by (auto simp: folder_inv_def names_ok_def db' name_exists_iff sibling_key_def)
  have filing: "filing_ok db'"
    using inv by (fastforce simp: folder_inv_def filing_ok_def db')
  have fresh: "(x, next_folder db) \<notin> folder_edges db" for x
    using inv by (fastforce simp: folder_inv_def parents_ok_def folder_keys_ok_def parent_edges_def)
  have "acyclic (folder_edges db')"
  proof (cases parent)
    case None
    then have "folder_edges db' = folder_edges db"
      by (simp add: parent_edges_append parent_edges_single db')
    then show ?thesis using inv by (simp add: folder_inv_def)
  next
    case (Some p)
    have "p \<noteq> next_folder db"
      using inv par [OF Some] by (auto simp: folder_inv_def folder_keys_ok_def folder_in_vault_iff)
    then have "(p, next_folder db) \<notin> (folder_edges db)\<^sup>*"
      using fresh by (auto elim: rtranclE)
    moreover have "folder_edges db' = insert (next_folder db, p) (folder_edges db)"
      using Some by (simp add: parent_edges_append parent_edges_single db')
    ultimately show ?thesis using inv by (simp add: folder_inv_def acyclic_insert)
  qed
  then show ?thesis using keys parents names filing by (simp add: folder_inv_def)
qed


section \<open>Renaming and moving\<close>

text \<open>What a successful \<open>update_folder\<close> did, and what its checks had established.\<close>

lemma update_folder_cases:
  assumes "update_folder now f v name d arg db = Inr (res, db')"
  obtains "db' = db"
  | current new_parent new_name g where
    "current \<in> set (folders db)" "fld_id current = f" "fld_vault current = v"
    "db' = db\<lparr>folders := update_rows (folder_at f v) g (folders db)\<rparr>"
    "\<And>r. fld_id (g r) = fld_id r" "\<And>r. fld_vault (g r) = fld_vault r"
    "\<And>r. fld_parent (g r) = new_parent" "\<And>r. fld_name (g r) = new_name"
    "check_parent db f v arg = None"
    "new_parent = (case arg of Unset \<Rightarrow> fld_parent current | SetParent p \<Rightarrow> p)"
    "name = None \<longrightarrow> new_name = fld_name current"
    "name \<noteq> None \<longrightarrow> new_name \<noteq> [] \<and> py_strip new_name = new_name"
    "name = None \<and> arg = Unset \<or> \<not> name_exists db v new_parent new_name (Some f)"
proof (cases "get_folder f v db")
  case None
  then show ?thesis using assms that(1) by (simp add: update_folder_def)
next
  case (Some x)
  obtain current cnt where x: "x = (current, cnt)" by (cases x)
  let ?new_parent = "case arg of Unset \<Rightarrow> fld_parent current | SetParent p \<Rightarrow> p"
  let ?new_name = "case name of None \<Rightarrow> fld_name current | Some n \<Rightarrow> py_strip n"
  let ?g = "\<lambda>r. r\<lparr>fld_parent := ?new_parent, fld_name := ?new_name,
     fld_description := (case d of None \<Rightarrow> fld_description r | Some d \<Rightarrow> d), fld_updated := now\<rparr>"
  have cur: "current \<in> set (folders db)" "fld_id current = f" "fld_vault current = v"
    using Some find_SomeD [of "folder_at f v" "folders db" current]
    by (auto simp: get_folder_def x folder_at_def)
  have check: "check_parent db f v arg = None"
    using assms Some by (auto simp: update_folder_def x split: option.splits)
  have ne: "name \<noteq> None \<longrightarrow> ?new_name \<noteq> []"
    using assms Some check by (auto simp: update_folder_def x Let_def split: if_splits)
  show ?thesis
  proof (cases "name = None \<and> arg = Unset \<and> d = None")
    case True
    then have "db' = db" using assms Some check by (auto simp: update_folder_def x Let_def)
    then show ?thesis by (rule that(1))
  next
    case False
    have free: "name = None \<and> arg = Unset \<or> \<not> name_exists db v ?new_parent ?new_name (Some f)"
      and db': "db' = db\<lparr>folders := update_rows (folder_at f v) ?g (folders db)\<rparr>"
      using assms Some check ne False
      by (auto simp: update_folder_def x Let_def split: if_splits)
    show ?thesis
      by (rule that(2) [OF cur db' _ _ _ _ check _ _ _ free]) (use ne in \<open>auto split: option.splits\<close>)
  qed
qed

lemma updated_names_ok:
  assumes inv: "folder_keys_ok db" "names_ok db"
    and cur: "current \<in> set (folders db)" "fld_id current = f" "fld_vault current = v"
    and g: "\<And>r. fld_vault (g r) = fld_vault r" "\<And>r. fld_parent (g r) = new_parent"
      "\<And>r. fld_name (g r) = new_name"
    and name: "new_name \<noteq> []" "py_strip new_name = new_name"
    and free: "sibling_key current = (v, new_parent, nocase new_name)
       \<or> \<not> name_exists db v new_parent new_name (Some f)"
  shows "names_ok (db\<lparr>folders := update_rows (folder_at f v) g (folders db)\<rparr>)"
proof -
  have one: "folder_at f v r \<longleftrightarrow> r = current" if "r \<in> set (folders db)" for r
    using inv(1) cur that by (auto simp: folder_at_def folder_keys_ok_def dest: distinct_key_eq)
  have "distinct (map sibling_key (update_rows (folder_at f v) g (folders db)))"
  proof (rule distinct_map_update_one)
    show "distinct (map sibling_key (folders db))" using inv(2) by (simp add: names_ok_def)
    show "r = r'" if "r \<in> set (folders db)" "r' \<in> set (folders db)"
      "folder_at f v r" "folder_at f v r'" for r r'
      using one that by simp
    show "sibling_key (g r) \<noteq> sibling_key r'" if "r \<in> set (folders db)" "r' \<in> set (folders db)"
      "folder_at f v r" "\<not> folder_at f v r'" for r r'
    proof
      assume eq: "sibling_key (g r) = sibling_key r'"
      have k: "sibling_key (g r) = (v, new_parent, nocase new_name)"
        using g that(3) by (simp add: sibling_key_def folder_at_def)
      have "fld_id r' \<noteq> f"
        using that inv(1) cur one by (auto simp: folder_keys_ok_def dest: distinct_key_eq)
      then have "name_exists db v new_parent new_name (Some f)"
        using that(2) eq k by (auto simp: name_exists_iff)
      moreover have "sibling_key current \<noteq> (v, new_parent, nocase new_name)"
      proof
        assume "sibling_key current = (v, new_parent, nocase new_name)"
        then have "r' = current"
          using inv(2) that(2) cur(1) eq k by (auto simp: names_ok_def dest: distinct_key_eq)
        then show False using one that by simp
      qed
      ultimately show False using free by blast
    qed
  qed
  then show ?thesis using inv(2) g name by (auto simp: names_ok_def table_simps)
qed

lemma update_folder_inv:
  assumes inv: "folder_inv db" and ok: "update_folder now f v name d arg db = Inr (res, db')"
  shows "folder_inv db'"
  using ok
proof (cases rule: update_folder_cases)
  case 1
  then show ?thesis using inv by simp
next
  case (2 current new_parent new_name g)
  note cur = 2(1-3) and db' = 2(4) and g = 2(5-8) and check = 2(9) and np = 2(10)
  have keysI: "folder_keys_ok db" and parentsI: "parents_ok db" and namesI: "names_ok db"
    using inv by (simp_all add: folder_inv_def)
  have one: "folder_at f v r \<longleftrightarrow> r = current" if "r \<in> set (folders db)" for r
    using keysI cur that by (auto simp: folder_at_def folder_keys_ok_def dest: distinct_key_eq)
  have rows: "r \<in> set (folders db') \<Longrightarrow>
      (r \<in> set (folders db) \<and> r \<noteq> current) \<or> r = g current" for r
    using one by (auto simp: db' table_simps split: if_splits)
  have pres: "\<exists>r' \<in> set (folders db'). fld_id r' = i \<and> fld_vault r' = w"
    if ex: "\<exists>r' \<in> set (folders db). fld_id r' = i \<and> fld_vault r' = w" for i w
  proof -
    obtain r' where "r' \<in> set (folders db)" "fld_id r' = i" "fld_vault r' = w" using ex by blast
    then show ?thesis
      using g(1,2) in_update_rows [of r' "folders db" "folder_at f v" g]
      by (intro bexI [of _ "if folder_at f v r' then g r' else r'"]) (simp_all add: db')
  qed
  have parent: "\<exists>r' \<in> set (folders db). fld_id r' = p \<and> fld_vault r' = v"
    if "new_parent = Some p" for p
    using that np check cur parentsI
    by (auto simp: check_parent_def folder_in_vault_iff parents_ok_def
        split: parent_arg.splits if_splits)
  have keys: "folder_keys_ok db'"
    using keysI g(1) by (auto simp: folder_keys_ok_def db' map_key_update_rows table_simps)
  have parents: "parents_ok db'"
    unfolding parents_ok_def
  proof (intro ballI allI impI)
    fix r p assume r: "r \<in> set (folders db')" and p: "fld_parent r = Some p"
    show "\<exists>r' \<in> set (folders db'). fld_id r' = p \<and> fld_vault r' = fld_vault r"
      using rows [OF r] p parentsI parent g cur(3) by (intro pres) (auto simp: parents_ok_def)
  qed
  have free: "sibling_key current = (v, new_parent, nocase new_name)
       \<or> \<not> name_exists db v new_parent new_name (Some f)"
    using 2(11-13) np cur by (auto simp: sibling_key_def)
  have "new_name \<noteq> []" "py_strip new_name = new_name"
    using 2(11,12) namesI cur(1) by (cases name; auto simp: names_ok_def)+
  then have names: "names_ok db'"
    unfolding db' by (intro updated_names_ok [OF keysI namesI cur g(2-4) _ _ free])
  have filing: "filing_ok db'"
    using inv pres by (simp add: folder_inv_def filing_ok_def db')
  have edges: "(a, b) \<in> folder_edges db' \<Longrightarrow>
      (a, b) \<in> folder_edges db \<and> a \<noteq> f \<or> a = f \<and> new_parent = Some b" for a b
  proof -
    assume "(a, b) \<in> folder_edges db'"
    then obtain r where r: "r \<in> set (folders db')" "a = fld_id r" "fld_parent r = Some b"
      by (auto simp: parent_edges_def)
    from rows [OF r(1)] show ?thesis
    proof
      assume old: "r \<in> set (folders db) \<and> r \<noteq> current"
      then have "a \<noteq> f"
        using keysI cur r(2) distinct_key_eq [of fld_id "folders db" r current]
        by (auto simp: folder_keys_ok_def)
      then show ?thesis using old r by (auto simp: parent_edges_def)
    next
      assume "r = g current"
      then show ?thesis using r g(1,3) cur(2) by simp
    qed
  qed
  have "acyclic (folder_edges db')"
  proof (cases new_parent)
    case None
    then have "folder_edges db' \<subseteq> folder_edges db" using edges by auto
    then show ?thesis using inv acyclic_subset by (auto simp: folder_inv_def)
  next
    case (Some p)
    have "folder_edges db' \<subseteq> insert (f, p) (folder_edges db)" using edges Some by auto
    moreover have "acyclic (insert (f, p) (folder_edges db))"
    proof (cases arg)
      case Unset
      then have "(f, p) \<in> folder_edges db" using np Some cur by (auto simp: parent_edges_def)
      then show ?thesis using inv by (simp add: folder_inv_def insert_absorb)
    next
      case (SetParent p')
      then have c: "p \<noteq> f" "folder_in_vault db v p" "p \<notin> set (descendant_ids db v f)"
        using np Some check by (auto simp: check_parent_def split: if_splits)
      then have "(p, f) \<notin> (folder_edges db)\<^sup>*"
        using descendant_ids_iff [OF keysI parentsI c(2), of f] by (simp add: rtrancl_eq_or_trancl)
      then show ?thesis using inv by (simp add: folder_inv_def acyclic_insert)
    qed
    ultimately show ?thesis using acyclic_subset by blast
  qed
  then show ?thesis using keys parents names filing by (simp add: folder_inv_def)
qed


section \<open>Deleting and filing\<close>

definition subtree :: "folder_db \<Rightarrow> nat \<Rightarrow> nat set" where
  "subtree db f = {i. (i, f) \<in> (folder_edges db)\<^sup>*}"

lemma gone_subtree: "set (f # descend (\<lambda>_. True) (folders db) [] [f]) = subtree db f"
  by (auto simp: subtree_def descend_closure rtrancl_eq_or_trancl)

lemma case_option_ex:
  "(case x of None \<Rightarrow> False | Some g \<Rightarrow> g \<in> A) \<longleftrightarrow> (\<exists>g \<in> A. x = Some g)"
  by (cases x) auto

lemma delete_folder_eq:
  "folder_in_vault db v f \<Longrightarrow> delete_folder f v db =
     (True, db\<lparr>folders := filter (\<lambda>r. fld_id r \<notin> subtree db f) (folders db),
        files := update_rows (\<lambda>x. \<exists>g \<in> subtree db f. fil_folder x = Some g)
                   (\<lambda>x. x\<lparr>fil_folder := None\<rparr>) (files db)\<rparr>)"
  unfolding delete_folder_def Let_def gone_subtree
  by (simp add: case_option_ex)

lemma subtree_closed: "(i, p) \<in> folder_edges db \<Longrightarrow> p \<in> subtree db f \<Longrightarrow> i \<in> subtree db f"
  by (auto simp: subtree_def intro: converse_rtrancl_into_rtrancl)

lemma delete_folder_inv:
  assumes inv: "folder_inv db"
  shows "folder_inv (snd (delete_folder f v db))"
proof (cases "folder_in_vault db v f")
  case False
  then show ?thesis using inv by (simp add: delete_folder_def)
next
  case True
  define db' where "db' = snd (delete_folder f v db)"
  have rows: "folders db' = filter (\<lambda>r. fld_id r \<notin> subtree db f) (folders db)"
    and next_id: "next_folder db' = next_folder db"
    and fls: "files db' = update_rows (\<lambda>x. \<exists>g \<in> subtree db f. fil_folder x = Some g)
                   (\<lambda>x. x\<lparr>fil_folder := None\<rparr>) (files db)"
    using delete_folder_eq [OF True] by (simp_all add: db'_def)
  have keys: "folder_keys_ok db'"
    using inv by (auto simp: folder_inv_def folder_keys_ok_def rows next_id distinct_map_filter)
  have stays: "\<exists>r' \<in> set (folders db'). fld_id r' = p \<and> fld_vault r' = w"
    if "p \<notin> subtree db f" "\<exists>r' \<in> set (folders db). fld_id r' = p \<and> fld_vault r' = w" for p w
    using that by (auto simp: rows)
  have parents: "parents_ok db'"
    unfolding parents_ok_def
  proof (intro ballI allI impI)
    fix r p assume r: "r \<in> set (folders db')" and p: "fld_parent r = Some p"
    have "(fld_id r, p) \<in> folder_edges db" using r p by (auto simp: parent_edges_def rows)
    then have "p \<notin> subtree db f" using r subtree_closed by (auto simp: rows)
    then show "\<exists>r' \<in> set (folders db'). fld_id r' = p \<and> fld_vault r' = fld_vault r"
      using r p inv by (intro stays) (auto simp: rows folder_inv_def parents_ok_def)
  qed
  have "folder_edges db' \<subseteq> folder_edges db" by (auto simp: parent_edges_def rows)
  then have acyc: "acyclic (folder_edges db')"
    using inv acyclic_subset by (auto simp: folder_inv_def)
  have names: "names_ok db'"
    using inv by (auto simp: folder_inv_def names_ok_def rows distinct_map_filter)
  have "filing_ok db'"
    unfolding filing_ok_def
  proof (intro conjI ballI allI impI)
    show "distinct (map fil_id (files db'))"
      using inv by (simp add: fls map_key_update_rows folder_inv_def filing_ok_def)
  next
    fix x g assume x: "x \<in> set (files db')" and g: "fil_folder x = Some g"
    have x': "x \<in> set (files db)" "g \<notin> subtree db f"
      using x g by (auto simp: fls table_simps split: if_splits)
    then show "\<exists>r \<in> set (folders db'). fld_id r = g \<and> fld_vault r = fil_vault x"
      using g inv by (intro stays) (auto simp: folder_inv_def filing_ok_def)
  qed
  then show ?thesis using keys parents acyc names by (simp add: folder_inv_def db'_def)
qed

lemma move_documents_inv:
  assumes inv: "folder_inv db" and ok: "move_documents v ids folder_id db = Inr (n, db')"
  shows "folder_inv db'"
proof (cases "vault_file_ids db v ids = []")
  case True
  then show ?thesis using ok inv by (auto simp: move_documents_def split: if_splits)
next
  case False
  then have db': "db' = db\<lparr>files := update_rows (\<lambda>x. fil_id x \<in> set (vault_file_ids db v ids))
                                    (\<lambda>x. x\<lparr>fil_folder := folder_id\<rparr>) (files db)\<rparr>"
    and target: "\<And>f. folder_id = Some f \<Longrightarrow> folder_in_vault db v f"
    using ok by (auto simp: move_documents_def Let_def split: if_splits option.splits)
  have "filing_ok db'"
    unfolding filing_ok_def
  proof (intro conjI ballI allI impI)
    show "distinct (map fil_id (files db'))"
      using inv by (simp add: db' map_key_update_rows folder_inv_def filing_ok_def)
  next
    fix x f assume x: "x \<in> set (files db')" and f: "fil_folder x = Some f"
    obtain y where y: "y \<in> set (files db)" and xy: "x = (if fil_id y \<in> set (vault_file_ids db v ids)
        then y\<lparr>fil_folder := folder_id\<rparr> else y)"
      using x by (auto simp: db' table_simps split: if_splits)
    show "\<exists>r \<in> set (folders db'). fld_id r = f \<and> fld_vault r = fil_vault x"
    proof (cases "fil_id y \<in> set (vault_file_ids db v ids)")
      case True
      then have "fil_vault y = v"
        using inv y by (auto simp: vault_file_ids_def folder_inv_def filing_ok_def dest: distinct_key_eq)
      then show ?thesis using True xy f target by (simp add: db' folder_in_vault_iff)
    next
      case False
      then show ?thesis using xy f y inv by (auto simp: db' folder_inv_def filing_ok_def)
    qed
  qed
  then show ?thesis
    using inv by (simp add: folder_inv_def db' folder_keys_ok_def parents_ok_def names_ok_def)
qed

lemma apply_folder_inv:
  assumes "folder_inv db"
  shows "folder_inv (apply_folder c db)"
proof (cases c)
  case (Create now v name d p)
  then show ?thesis
    using assms create_folder_inv [of db now v name d p]
    by (auto simp: state_of_def split: sum.splits)
next
  case (Update now f v name d p)
  then show ?thesis
    using assms update_folder_inv [of db now f v name d p]
    by (auto simp: state_of_def split: sum.splits)
next
  case (Delete f v)
  then show ?thesis using assms delete_folder_inv by simp
next
  case (Move v ids f)
  then show ?thesis
    using assms move_documents_inv [of db v ids f]
    by (auto simp: state_of_def split: sum.splits)
next
  case (Upload i v)
  then show ?thesis
    using assms
    by (auto simp: folder_inv_def folder_keys_ok_def parents_ok_def names_ok_def filing_ok_def)
qed

lemma folder_init_inv: "folder_inv (folder_init vs)"
  by (simp add: folder_init_def folder_inv_def folder_keys_ok_def parents_ok_def names_ok_def
      filing_ok_def parent_edges_def acyclic_def)

lemma run_folder_inv: "folder_inv db \<Longrightarrow> folder_inv (fold apply_folder cs db)"
  by (induction cs arbitrary: db) (simp_all add: apply_folder_inv)

section \<open>Properties\<close>

text \<open>
  C31 Every database the store can produce, by any sequence of creations, renames, moves,
  deletions, uploads and filings in any vaults, is a forest: ids are unique, parents exist
  and lie in the same vault, the parent relation is acyclic, sibling names are unique up to
  case and never blank, and a document is only ever filed in a folder of its own vault.
\<close>

theorem folder_forest_invariant:
  "folder_inv (fold apply_folder cs (folder_init vs))"
  by (rule run_folder_inv [OF folder_init_inv])

text \<open>
  The breadth-first descendant walk ends on every table, cyclic ones included, and
  returns exactly the folders of the vault from which the start is reached by following
  parents.
\<close>

theorem descendant_walk_closure:
  "set (descendant_ids db v f) =
     {i. (i, f) \<in> (parent_edges (\<lambda>r. fld_vault r = v) (folders db))\<^sup>+}"
  by (simp add: descendant_ids_def descend_closure)

text \<open>
  A move into an existing folder of the vault is refused as a cycle exactly when the
  target is the folder itself or lies below it in the tree.
\<close>

theorem reparent_cycle_exact:
  assumes "folder_inv db" and "folder_in_vault db v f" and "folder_in_vault db v p"
  shows "update_folder now f v name d (SetParent (Some p)) db = Inl FolderCycleError
     \<longleftrightarrow> p \<in> subtree db f"
proof -
  obtain x where g: "get_folder f v db = Some x"
    using assms(2) find_NoneD [of "folder_at f v" "folders db"]
    by (cases "get_folder f v db") (auto simp: get_folder_def folder_in_vault_iff folder_at_def)
  have "p \<in> set (descendant_ids db v f) \<longleftrightarrow> (p, f) \<in> (folder_edges db)\<^sup>+"
    using assms(1,3) by (intro descendant_ids_iff) (simp_all add: folder_inv_def)
  then have "p \<in> subtree db f \<longleftrightarrow> check_parent db f v (SetParent (Some p)) = Some FolderCycleError"
    using assms(3) by (auto simp: subtree_def rtrancl_eq_or_trancl check_parent_def)
  then show ?thesis
    using g by (cases x; cases "check_parent db f v (SetParent (Some p))")
      (auto simp: update_folder_def Let_def)
qed

definition demo_folders :: folder_db where
  "demo_folders = fold apply_folder
     [Create 0 1 (lit ''a'') [] None, Create 0 1 (lit ''b'') [] (Some 1), Upload 5 1,
      Move 1 [5] (Some 2)] (folder_init [1])"

lemma demo_folders_eq:
  "demo_folders = \<lparr>f_vaults = [1],
     folders = [\<lparr>fld_id = 1, fld_vault = 1, fld_parent = None, fld_name = [97],
                 fld_description = [], fld_created = 0, fld_updated = 0\<rparr>,
                \<lparr>fld_id = 2, fld_vault = 1, fld_parent = Some 1, fld_name = [98],
                 fld_description = [], fld_created = 0, fld_updated = 0\<rparr>],
     files = [\<lparr>fil_id = 5, fil_vault = 1, fil_folder = Some 2\<rparr>], next_folder = 3\<rparr>"
  by (simp add: demo_folders_def folder_init_def create_folder_def state_of_def lit_def py_strip_def
      py_isspace_def folder_in_vault_def folder_at_def name_exists_def get_folder_def
      move_documents_def vault_file_ids_def Let_def update_rows_def)

theorem reparent_cycle_exact_witness:
  "update_folder 0 1 1 None None (SetParent (Some 2)) demo_folders = Inl FolderCycleError
   \<longleftrightarrow> 2 \<in> subtree demo_folders 1"
proof (rule reparent_cycle_exact)
  show "folder_inv demo_folders"
    unfolding demo_folders_def by (rule run_folder_inv [OF folder_init_inv])
qed (simp_all add: demo_folders_eq folder_in_vault_iff)

text \<open>
  Deleting a folder removes its subtree and nothing else, loses no document, and
  unfiles exactly the documents that were filed in the subtree.
\<close>

theorem delete_removes_subtree:
  assumes "folder_in_vault db v f"
  shows "\<exists>db'. delete_folder f v db = (True, db')
     \<and> fld_id ` set (folders db') = fld_id ` set (folders db) - subtree db f
     \<and> map fil_id (files db') = map fil_id (files db)
     \<and> map fil_vault (files db') = map fil_vault (files db)
     \<and> map fil_folder (files db') = map (\<lambda>x. case fil_folder x of None \<Rightarrow> None
           | Some g \<Rightarrow> if g \<in> subtree db f then None else Some g) (files db)"
  unfolding delete_folder_eq [OF assms]
  by (auto simp: map_key_update_rows update_rows_def split: option.splits)

theorem delete_removes_subtree_witness:
  "\<exists>db'. delete_folder 1 1 demo_folders = (True, db')
     \<and> fld_id ` set (folders db') = fld_id ` set (folders demo_folders) - subtree demo_folders 1
     \<and> map fil_id (files db') = map fil_id (files demo_folders)
     \<and> map fil_vault (files db') = map fil_vault (files demo_folders)
     \<and> map fil_folder (files db') = map (\<lambda>x. case fil_folder x of None \<Rightarrow> None
           | Some g \<Rightarrow> if g \<in> subtree demo_folders 1 then None else Some g) (files demo_folders)"
  by (rule delete_removes_subtree) (simp add: demo_folders_eq folder_in_vault_iff)

end
