(* ===== verification/Tag_Store.thy ===== *)
theory Tag_Store
  imports Prelude "HOL-Library.List_Lexorder"
begin

text \<open>
  \<^verbatim>\<open>backend/app/services/tag_store.py\<close>: the tags of a vault and their assignment to
  documents. \<open>UNIQUE(vault_id, name)\<close> and \<open>PRIMARY KEY (file_id, tag_id)\<close> are the schema's;
  keeping an assignment inside one vault is the store's own duty.
\<close>

section \<open>Tables\<close>

record tag_row =
  tag_id :: nat
  tag_vault :: nat
  tag_name :: pystr
  tag_color :: pystr
  tag_created :: nat
  tag_updated :: nat

record tag_db =
  t_vaults :: "nat list"
  t_files :: "(nat \<times> nat) list"   \<comment> \<open>file, vault\<close>
  tags :: "tag_row list"
  document_tags :: "(nat \<times> nat) list"   \<comment> \<open>file, tag\<close>
  next_tag :: nat

datatype tag_error = TagDuplicateError | TagEmptyName

section \<open>Operations\<close>

definition tag_at :: "nat \<Rightarrow> nat \<Rightarrow> tag_row \<Rightarrow> bool" where
  "tag_at i v r \<longleftrightarrow> tag_id r = i \<and> tag_vault r = v"

definition tag_document_count :: "tag_db \<Rightarrow> nat \<Rightarrow> nat" where
  "tag_document_count db i = rowcount (\<lambda>(_, t). t = i) (document_tags db)"

definition get_tag :: "nat \<Rightarrow> nat \<Rightarrow> tag_db \<Rightarrow> (tag_row \<times> nat) option" where
  "get_tag i v db =
     map_option (\<lambda>r. (r, tag_document_count db (tag_id r))) (find (tag_at i v) (tags db))"

definition list_tags :: "nat \<Rightarrow> tag_db \<Rightarrow> (tag_row \<times> nat) list" where
  "list_tags v db =
     map (\<lambda>r. (r, tag_document_count db (tag_id r)))
       (sort_key (\<lambda>r. nocase (tag_name r)) (filter (\<lambda>r. tag_vault r = v) (tags db)))"

definition tag_key :: "tag_row \<Rightarrow> nat \<times> pystr" where
  "tag_key r = (tag_vault r, tag_name r)"

text \<open>
  Every constraint failure of the INSERT, the missing vault included, is reported as a
  duplicate.
\<close>

definition create_tag ::
  "nat \<Rightarrow> nat \<Rightarrow> pystr \<Rightarrow> pystr \<Rightarrow> tag_db \<Rightarrow> tag_error + ((tag_row \<times> nat) option \<times> tag_db)" where
  "create_tag now v raw_name color db =
     (let name = py_strip raw_name in
      if name = [] then Inl TagEmptyName
      else if (v, name) \<in> set (map tag_key (tags db)) \<or> v \<notin> set (t_vaults db)
        then Inl TagDuplicateError
      else (let i = next_tag db;
                db' = db\<lparr>tags := tags db @ [\<lparr>tag_id = i, tag_vault = v, tag_name = name,
                           tag_color = color, tag_created = now, tag_updated = now\<rparr>],
                         next_tag := i + 1\<rparr>
            in Inr (get_tag i v db', db')))"

definition update_tag ::
  "nat \<Rightarrow> nat \<Rightarrow> nat \<Rightarrow> pystr option \<Rightarrow> pystr option \<Rightarrow> tag_db
     \<Rightarrow> tag_error + ((tag_row \<times> nat) option \<times> tag_db)" where
  "update_tag now i v name_arg color db =
     (let name = map_option py_strip name_arg in
      if name = Some [] then Inl TagEmptyName
      else if name = None \<and> color = None then Inr (get_tag i v db, db)
      else if rowcount (tag_at i v) (tags db) = 0 then Inr (None, db)
      else if (case name of None \<Rightarrow> False
               | Some n \<Rightarrow> list_ex (\<lambda>r. tag_key r = (v, n) \<and> tag_id r \<noteq> i) (tags db))
        then Inl TagDuplicateError
      else (let db' = db\<lparr>tags := update_rows (tag_at i v)
                 (\<lambda>r. r\<lparr>tag_name := (case name of None \<Rightarrow> tag_name r | Some n \<Rightarrow> n),
                       tag_color := (case color of None \<Rightarrow> tag_color r | Some c \<Rightarrow> c),
                       tag_updated := now\<rparr>) (tags db)\<rparr>
            in Inr (get_tag i v db', db')))"

text \<open>\<open>ON DELETE CASCADE\<close> removes the assignments with the tag.\<close>

definition delete_tag :: "nat \<Rightarrow> nat \<Rightarrow> tag_db \<Rightarrow> bool \<times> tag_db" where
  "delete_tag i v db =
     (if rowcount (tag_at i v) (tags db) = 0 then (False, db)
      else (True, db\<lparr>tags := filter (\<lambda>r. \<not> tag_at i v r) (tags db),
                     document_tags := filter (\<lambda>(_, t). t \<noteq> i) (document_tags db)\<rparr>))"

definition vault_tag_ids :: "tag_db \<Rightarrow> nat \<Rightarrow> nat list \<Rightarrow> nat list" where
  "vault_tag_ids db v ids =
     map tag_id (filter (\<lambda>r. tag_vault r = v \<and> tag_id r \<in> set ids) (tags db))"

definition vault_files_among :: "tag_db \<Rightarrow> nat \<Rightarrow> nat list \<Rightarrow> nat list" where
  "vault_files_among db v ids =
     map fst (filter (\<lambda>(f, w). w = v \<and> f \<in> set ids) (t_files db))"

text \<open>\<open>INSERT OR IGNORE\<close> and its \<open>rowcount\<close>.\<close>

definition insert_or_ignore :: "nat \<times> nat \<Rightarrow> (nat \<times> nat) list \<times> nat \<Rightarrow> (nat \<times> nat) list \<times> nat" where
  "insert_or_ignore k acc =
     (case acc of (rows, n) \<Rightarrow> if k \<in> set rows then (rows, n) else (rows @ [k], n + 1))"

definition assign_tags :: "nat \<Rightarrow> nat list \<Rightarrow> nat list \<Rightarrow> tag_db \<Rightarrow> nat \<times> tag_db" where
  "assign_tags v file_ids tag_ids db =
     (let valid_files = vault_files_among db v file_ids;
          valid_tags = vault_tag_ids db v tag_ids
      in if valid_files = [] \<or> valid_tags = [] then (0, db)
         else (case fold insert_or_ignore [(f, t). f \<leftarrow> valid_files, t \<leftarrow> valid_tags]
                      (document_tags db, 0) of
                 (rows, created) \<Rightarrow> (created, db\<lparr>document_tags := rows\<rparr>)))"

definition unassign_tag :: "nat \<Rightarrow> nat \<Rightarrow> nat \<Rightarrow> tag_db \<Rightarrow> bool \<times> tag_db" where
  "unassign_tag v f t db =
     (if vault_files_among db v [f] = [] then (False, db)
      else if vault_tag_ids db v [t] = [] then (False, db)
      else ((f, t) \<in> set (document_tags db),
            db\<lparr>document_tags := filter (\<lambda>k. k \<noteq> (f, t)) (document_tags db)\<rparr>))"

text \<open>The read side joins the file's own vault again.\<close>

definition get_tags_for_document :: "nat \<Rightarrow> tag_db \<Rightarrow> tag_row list" where
  "get_tags_for_document f db =
     sort_key (\<lambda>r. nocase (tag_name r))
       [r. r \<leftarrow> tags db, (f', t) \<leftarrow> document_tags db, (g, w) \<leftarrow> t_files db,
          t = tag_id r \<and> f' = f \<and> g = f' \<and> tag_vault r = w]"

definition set_document_tags :: "nat \<Rightarrow> nat \<Rightarrow> nat list \<Rightarrow> tag_db \<Rightarrow> tag_row list \<times> tag_db" where
  "set_document_tags v f tag_ids db =
     (if vault_files_among db v [f] = [] then ([], db)
      else (let valid_tags = vault_tag_ids db v tag_ids;
                kept = filter (\<lambda>(f', _). f' \<noteq> f) (document_tags db);
                rows = fst (fold insert_or_ignore (map (Pair f) valid_tags) (kept, 0));
                db' = db\<lparr>document_tags := rows\<rparr>
            in (get_tags_for_document f db', db')))"

definition file_ids_for_tag :: "nat \<Rightarrow> nat \<Rightarrow> tag_db \<Rightarrow> nat list" where
  "file_ids_for_tag v t db =
     [f. (f, t') \<leftarrow> document_tags db, (g, w) \<leftarrow> t_files db, g = f \<and> t' = t \<and> w = v]"

section \<open>Sequences of operations\<close>

datatype tag_op =
    CreateTag nat nat pystr pystr
  | UpdateTag nat nat nat "pystr option" "pystr option"
  | DeleteTag nat nat
  | AssignTags nat "nat list" "nat list"
  | UnassignTag nat nat nat
  | SetDocumentTags nat nat "nat list"
  | UploadFile nat nat

definition tag_state :: "tag_db \<Rightarrow> tag_error + ('a \<times> tag_db) \<Rightarrow> tag_db" where
  "tag_state db res = (case res of Inl _ \<Rightarrow> db | Inr (_, db') \<Rightarrow> db')"

fun apply_tag :: "tag_op \<Rightarrow> tag_db \<Rightarrow> tag_db" where
  "apply_tag (CreateTag now v n c) db = tag_state db (create_tag now v n c db)"
| "apply_tag (UpdateTag now i v n c) db = tag_state db (update_tag now i v n c db)"
| "apply_tag (DeleteTag i v) db = snd (delete_tag i v db)"
| "apply_tag (AssignTags v fs ts) db = snd (assign_tags v fs ts db)"
| "apply_tag (UnassignTag v f t) db = snd (unassign_tag v f t db)"
| "apply_tag (SetDocumentTags v f ts) db = snd (set_document_tags v f ts db)"
| "apply_tag (UploadFile f v) db =
     (if f \<in> fst ` set (t_files db) then db else db\<lparr>t_files := t_files db @ [(f, v)]\<rparr>)"

definition tag_init :: "nat list \<Rightarrow> tag_db" where
  "tag_init vs = \<lparr>t_vaults = vs, t_files = [], tags = [], document_tags = [], next_tag = 1\<rparr>"

section \<open>Invariant\<close>

definition tag_rows_ok :: "tag_db \<Rightarrow> bool" where
  "tag_rows_ok db \<longleftrightarrow> distinct (map tag_id (tags db)) \<and> distinct (map tag_key (tags db))
     \<and> distinct (map fst (t_files db))
     \<and> (\<forall>r \<in> set (tags db). tag_id r < next_tag db \<and> tag_name r \<noteq> []
          \<and> py_strip (tag_name r) = tag_name r)"

definition same_vault :: "tag_db \<Rightarrow> nat \<times> nat \<Rightarrow> bool" where
  "same_vault db k \<longleftrightarrow> (\<exists>r \<in> set (tags db). tag_id r = snd k \<and> (fst k, tag_vault r) \<in> set (t_files db))"

definition tag_inv :: "tag_db \<Rightarrow> bool" where
  "tag_inv db \<longleftrightarrow> tag_rows_ok db \<and> distinct (document_tags db)
     \<and> (\<forall>k \<in> set (document_tags db). same_vault db k)"

lemma insert_or_ignore_fold:
  "set (fst (fold insert_or_ignore ks (rows, n))) = set rows \<union> set ks
   \<and> (distinct rows \<longrightarrow> distinct (fst (fold insert_or_ignore ks (rows, n))))
   \<and> length (fst (fold insert_or_ignore ks (rows, n))) + n
       = length rows + snd (fold insert_or_ignore ks (rows, n))"
proof (induction ks arbitrary: rows n)
  case Nil
  then show ?case by simp
next
  case (Cons k ks)
  show ?case
    using Cons.IH [of rows n] Cons.IH [of "rows @ [k]" "n + 1"]
    by (auto simp: insert_or_ignore_def)
qed

lemma vault_tag_idsD:
  "t \<in> set (vault_tag_ids db v ts) \<longleftrightarrow> t \<in> set ts \<and> (\<exists>r \<in> set (tags db). tag_id r = t \<and> tag_vault r = v)"
  by (auto simp: vault_tag_ids_def)

lemma vault_files_amongD:
  "f \<in> set (vault_files_among db v fs) \<longleftrightarrow> f \<in> set fs \<and> (f, v) \<in> set (t_files db)"
  by (force simp: vault_files_among_def)

lemma same_vault_valid:
  "f \<in> set (vault_files_among db v fs) \<Longrightarrow> t \<in> set (vault_tag_ids db v ts) \<Longrightarrow> same_vault db (f, t)"
  by (auto simp: same_vault_def vault_tag_idsD vault_files_amongD)

lemma same_vault_more:
  assumes "\<And>r. r \<in> set (tags db) \<Longrightarrow> \<exists>r' \<in> set (tags db'). tag_id r' = tag_id r \<and> tag_vault r' = tag_vault r"
    and "set (t_files db) \<subseteq> set (t_files db')" and "same_vault db k"
  shows "same_vault db' k"
  using assms unfolding same_vault_def by (metis subsetD)

lemma create_tag_inv:
  assumes "tag_inv db" and "create_tag now v n c db = Inr (res, db')"
  shows "tag_inv db'"
proof -
  have db': "db' = db\<lparr>tags := tags db @ [\<lparr>tag_id = next_tag db, tag_vault = v, tag_name = py_strip n,
       tag_color = c, tag_created = now, tag_updated = now\<rparr>], next_tag := next_tag db + 1\<rparr>"
    and new: "(v, py_strip n) \<notin> tag_key ` set (tags db)" "py_strip n \<noteq> []"
    using assms(2) by (auto simp: create_tag_def Let_def split: if_splits)
  have "same_vault db' k" if "same_vault db k" for k
    by (rule same_vault_more [OF _ _ that]) (auto simp: db')
  then show ?thesis using assms(1) new
    by (auto simp: tag_inv_def tag_rows_ok_def db' tag_key_def)
qed

lemma update_tag_inv:
  assumes inv: "tag_inv db" and ok: "update_tag now i v n c db = Inr (res, db')"
  shows "tag_inv db'"
proof (cases "db' = db")
  case True
  then show ?thesis using inv by simp
next
  case False
  define name where "name = map_option py_strip n"
  define g :: "tag_row \<Rightarrow> tag_row" where "g = (\<lambda>r. r\<lparr>tag_name := (case name of None \<Rightarrow> tag_name r | Some n \<Rightarrow> n),
      tag_color := (case c of None \<Rightarrow> tag_color r | Some c \<Rightarrow> c), tag_updated := now\<rparr>)"
  have db': "db' = db\<lparr>tags := update_rows (tag_at i v) g (tags db)\<rparr>"
    and ne: "name \<noteq> Some []"
    and free: "\<And>n r. name = Some n \<Longrightarrow> r \<in> set (tags db) \<Longrightarrow> tag_key r = (v, n) \<Longrightarrow> tag_id r = i"
    using ok False unfolding update_tag_def Let_def name_def [symmetric] g_def [symmetric]
    by (auto simp: list_ex_iff split: if_splits option.splits)
  have g: "tag_id (g r) = tag_id r" "tag_vault (g r) = tag_vault r" for r
    by (simp_all add: g_def)
  have uniq: "r = r'" if "r \<in> set (tags db)" "r' \<in> set (tags db)" "tag_id r = tag_id r'" for r r'
    using inv that by (auto simp: tag_inv_def tag_rows_ok_def dest: distinct_key_eq)
  have "distinct (map tag_key (update_rows (tag_at i v) g (tags db)))"
  proof (rule distinct_map_update_one)
    show "distinct (map tag_key (tags db))" using inv by (simp add: tag_inv_def tag_rows_ok_def)
    show "r = r'" if "r \<in> set (tags db)" "r' \<in> set (tags db)" "tag_at i v r" "tag_at i v r'" for r r'
      using that uniq by (simp add: tag_at_def)
    show "tag_key (g r) \<noteq> tag_key r'" if "r \<in> set (tags db)" "r' \<in> set (tags db)"
      "tag_at i v r" "\<not> tag_at i v r'" for r r'
    proof (cases name)
      case None
      then have "tag_key (g r) = tag_key r" by (simp add: g_def tag_key_def)
      then show ?thesis
        using inv that by (auto simp: tag_inv_def tag_rows_ok_def dest: distinct_key_eq)
    next
      case (Some m)
      then have k: "tag_key (g r) = (v, m)" using that(3) by (simp add: g_def tag_key_def tag_at_def)
      show ?thesis
      proof
        assume "tag_key (g r) = tag_key r'"
        then have "tag_key r' = (v, m)" using k by simp
        then have "tag_at i v r'" using free [OF Some that(2)] by (simp add: tag_at_def tag_key_def)
        then show False using that(4) by simp
      qed
    qed
  qed
  moreover have "map tag_id (update_rows (tag_at i v) g (tags db)) = map tag_id (tags db)"
    by (simp add: map_key_update_rows g)
  moreover have "tag_name r \<noteq> [] \<and> py_strip (tag_name r) = tag_name r \<and> tag_id r < next_tag db"
    if "r \<in> set (update_rows (tag_at i v) g (tags db))" for r
    using that inv ne unfolding name_def
    by (auto simp: table_simps tag_inv_def tag_rows_ok_def g_def name_def split: option.splits if_splits)
  moreover have "same_vault db' k" if "same_vault db k" for k
    by (rule same_vault_more [OF _ _ that])
      (auto simp: db' g intro!: bexI [OF _ in_update_rows])
  ultimately show ?thesis using inv by (simp add: tag_inv_def tag_rows_ok_def db')
qed

lemma delete_tag_inv:
  assumes inv: "tag_inv db"
  shows "tag_inv (snd (delete_tag i v db))"
proof (cases "rowcount (tag_at i v) (tags db) = 0")
  case True
  then show ?thesis using inv by (simp add: delete_tag_def)
next
  case False
  then have db': "snd (delete_tag i v db) = db\<lparr>tags := filter (\<lambda>r. \<not> tag_at i v r) (tags db),
      document_tags := filter (\<lambda>(_, t). t \<noteq> i) (document_tags db)\<rparr>" (is "_ = ?db'")
    by (simp add: delete_tag_def)
  have "same_vault ?db' k" if "same_vault db k" "snd k \<noteq> i" for k
    using that by (auto simp: same_vault_def tag_at_def)
  then show ?thesis
    using inv unfolding db' by (auto simp: tag_inv_def tag_rows_ok_def distinct_map_filter)
qed

lemma with_assignments_inv:
  assumes "tag_inv db" and "distinct rows" and "\<And>k. k \<in> set rows \<Longrightarrow> same_vault db k"
  shows "tag_inv (db\<lparr>document_tags := rows\<rparr>)"
  using assms by (simp add: tag_inv_def tag_rows_ok_def same_vault_def)

lemma assign_tags_eq:
  assumes "vault_files_among db v fs \<noteq> []" and "vault_tag_ids db v ts \<noteq> []"
  shows "assign_tags v fs ts db =
     (let r = fold insert_or_ignore
                [(f, t). f \<leftarrow> vault_files_among db v fs, t \<leftarrow> vault_tag_ids db v ts]
                (document_tags db, 0)
      in (snd r, db\<lparr>document_tags := fst r\<rparr>))"
  using assms by (simp add: assign_tags_def Let_def split: prod.split)

lemma assign_tags_inv:
  assumes inv: "tag_inv db"
  shows "tag_inv (snd (assign_tags v fs ts db))"
proof (cases "vault_files_among db v fs = [] \<or> vault_tag_ids db v ts = []")
  case True
  then show ?thesis using inv by (auto simp: assign_tags_def)
next
  case False
  let ?ks = "[(f, t). f \<leftarrow> vault_files_among db v fs, t \<leftarrow> vault_tag_ids db v ts]"
  let ?rows = "fst (fold insert_or_ignore ?ks (document_tags db, 0))"
  have "tag_inv (db\<lparr>document_tags := ?rows\<rparr>)"
  proof (rule with_assignments_inv [OF inv])
    show "distinct ?rows"
      using inv insert_or_ignore_fold [of ?ks "document_tags db" 0] by (simp add: tag_inv_def)
    fix k assume "k \<in> set ?rows"
    then have "k \<in> set (document_tags db) \<or> k \<in> set ?ks"
      using insert_or_ignore_fold [of ?ks "document_tags db" 0] by blast
    then show "same_vault db k" using inv same_vault_valid by (auto simp: tag_inv_def)
  qed
  then show ?thesis using False by (simp add: assign_tags_eq Let_def)
qed

lemma set_document_tags_inv:
  assumes inv: "tag_inv db"
  shows "tag_inv (snd (set_document_tags v f ts db))"
proof (cases "vault_files_among db v [f] = []")
  case True
  then show ?thesis using inv by (simp add: set_document_tags_def)
next
  case False
  let ?kept = "filter (\<lambda>(f', _). f' \<noteq> f) (document_tags db)"
  let ?ks = "map (Pair f) (vault_tag_ids db v ts)"
  let ?rows = "fst (fold insert_or_ignore ?ks (?kept, 0))"
  have f: "f \<in> set (vault_files_among db v [f])"
  proof -
    obtain x where x: "x \<in> set (vault_files_among db v [f])"
      using False by (cases "vault_files_among db v [f]") auto
    then have "x = f" by (simp add: vault_files_amongD)
    then show ?thesis using x by simp
  qed
  have "tag_inv (db\<lparr>document_tags := ?rows\<rparr>)"
  proof (rule with_assignments_inv [OF inv])
    show "distinct ?rows"
      using inv insert_or_ignore_fold [of ?ks ?kept 0] by (simp add: tag_inv_def)
    fix k assume "k \<in> set ?rows"
    then have "k \<in> set ?kept \<or> k \<in> set ?ks"
      using insert_or_ignore_fold [of ?ks ?kept 0] by blast
    then show "same_vault db k" using inv f same_vault_valid by (auto simp: tag_inv_def)
  qed
  then show ?thesis using False by (simp add: set_document_tags_def Let_def)
qed

lemma unassign_tag_inv: "tag_inv db \<Longrightarrow> tag_inv (snd (unassign_tag v f t db))"
  by (auto simp: unassign_tag_def tag_inv_def tag_rows_ok_def same_vault_def)

lemma upload_inv:
  assumes "tag_inv db" and "f \<notin> fst ` set (t_files db)"
  shows "tag_inv (db\<lparr>t_files := t_files db @ [(f, v)]\<rparr>)"
proof -
  have "same_vault (db\<lparr>t_files := t_files db @ [(f, v)]\<rparr>) k" if "same_vault db k" for k
    by (rule same_vault_more [OF _ _ that]) auto
  then show ?thesis using assms by (auto simp: tag_inv_def tag_rows_ok_def)
qed

lemma apply_tag_inv: "tag_inv db \<Longrightarrow> tag_inv (apply_tag c db)"
proof (cases c)
  case (CreateTag now v n col)
  then show "tag_inv db \<Longrightarrow> ?thesis" using create_tag_inv [of db now v n col]
    by (auto simp: tag_state_def split: sum.splits)
next
  case (UpdateTag now i v n col)
  then show "tag_inv db \<Longrightarrow> ?thesis" using update_tag_inv [of db now i v n col]
    by (auto simp: tag_state_def split: sum.splits)
qed (auto intro: delete_tag_inv assign_tags_inv unassign_tag_inv set_document_tags_inv upload_inv)

lemma tag_init_inv: "tag_inv (tag_init vs)"
  by (simp add: tag_init_def tag_inv_def tag_rows_ok_def)

lemma run_tag_inv: "tag_inv db \<Longrightarrow> tag_inv (fold apply_tag cs db)"
  by (induction cs arbitrary: db) (simp_all add: apply_tag_inv)

section \<open>Properties\<close>

text \<open>
  Whatever ids its callers pass, the store never links a document to a tag of another
  vault or to a tag that does not exist, never links the same pair twice, and keeps tag
  names unique within a vault, stripped and not blank.
\<close>

theorem tags_never_cross_vaults: "tag_inv (fold apply_tag cs (tag_init vs))"
  by (rule run_tag_inv [OF tag_init_inv])

text \<open>
  Assigning tags adds exactly the pairs of the vault's own files and tags among the
  requested ones, leaves everything else alone, and reports the number of pairs that are
  new.
\<close>

theorem assign_tags_exact:
  assumes "distinct (document_tags db)"
  shows "set (document_tags (snd (assign_tags v fs ts db))) = set (document_tags db)
         \<union> set (vault_files_among db v fs) \<times> set (vault_tag_ids db v ts)
     \<and> fst (assign_tags v fs ts db)
         = card (set (vault_files_among db v fs) \<times> set (vault_tag_ids db v ts)
                 - set (document_tags db))"
proof (cases "vault_files_among db v fs = [] \<or> vault_tag_ids db v ts = []")
  case True
  then show ?thesis by (auto simp: assign_tags_def)
next
  case False
  let ?new = "set (vault_files_among db v fs) \<times> set (vault_tag_ids db v ts)"
  let ?ks = "[(f, t). f \<leftarrow> vault_files_among db v fs, t \<leftarrow> vault_tag_ids db v ts]"
  let ?r = "fold insert_or_ignore ?ks (document_tags db, 0)"
  have ks: "set ?ks = ?new" by auto
  have all: "set (fst ?r) = set (document_tags db) \<union> set ?ks
     \<and> (distinct (document_tags db) \<longrightarrow> distinct (fst ?r))
     \<and> length (fst ?r) + 0 = length (document_tags db) + snd ?r"
    by (rule insert_or_ignore_fold)
  have rows: "set (fst ?r) = set (document_tags db) \<union> ?new" "distinct (fst ?r)"
    "length (fst ?r) = length (document_tags db) + snd ?r"
    using all assms unfolding ks by simp_all
  have "length (fst ?r) = card (set (document_tags db) \<union> ?new)"
    using rows(1,2) distinct_card by metis
  also have "\<dots> = card (set (document_tags db) \<union> (?new - set (document_tags db)))" by simp
  also have "\<dots> = card (set (document_tags db)) + card (?new - set (document_tags db))"
    by (rule card_Un_disjoint) auto
  finally have "snd ?r = card (?new - set (document_tags db))"
    using rows(3) distinct_card [OF assms] by simp
  then show ?thesis using False rows(1) by (simp add: assign_tags_eq Let_def)
qed

definition demo_tags :: tag_db where
  "demo_tags = \<lparr>t_vaults = [1, 2], t_files = [(5, 1), (6, 2)],
     tags = [\<lparr>tag_id = 1, tag_vault = 1, tag_name = [97], tag_color = [], tag_created = 0,
              tag_updated = 0\<rparr>], document_tags = [], next_tag = 2\<rparr>"

theorem assign_tags_exact_witness:
  "set (document_tags (snd (assign_tags 1 [5, 6] [1] demo_tags))) = {(5, 1)}
   \<and> fst (assign_tags 1 [5, 6] [1] demo_tags) = 1"
  using assign_tags_exact [of demo_tags 1 "[5, 6]" "[1]"]
  by (simp add: demo_tags_def vault_files_among_def vault_tag_ids_def)

end
