(* ===== verification/Prompt_Store.thy ===== *)
theory Prompt_Store
  imports Prelude
begin

text \<open>
  \<^verbatim>\<open>backend/app/services/prompt_store.py\<close> and \<^verbatim>\<open>backend/app/services/ab_testing.py\<close>:
  prompt versions with at most one active row, per-organisation overrides, and the A/B
  experiments that split traffic between two versions. A failing mutation leaves the stored
  tables as they were: the connection pool rolls an open transaction back on release.
\<close>

section \<open>Prompt versions\<close>

record prompt_row =
  pv_id :: nat
  pv_version :: string
  pv_content :: string
  pv_created_at :: nat
  pv_active :: bool
  pv_created_by :: "string option"

record override_row =
  ov_org :: nat
  ov_version :: string
  ov_set_at :: nat
  ov_set_by :: "string option"

record prompt_db =
  prompt_orgs :: "nat list"
  prompt_versions :: "prompt_row list"
  overrides :: "override_row list"
  next_prompt :: nat

datatype prompt_error = UnknownVersion string | PromptIntegrityError

definition get_active :: "prompt_db \<Rightarrow> prompt_row option" where
  "get_active db = find pv_active (prompt_versions db)"

definition list_versions :: "prompt_db \<Rightarrow> prompt_row list" where
  "list_versions db = rev (sort_key pv_created_at (rev (prompt_versions db)))"

definition get_version :: "string \<Rightarrow> prompt_db \<Rightarrow> prompt_row option" where
  "get_version v db = find (\<lambda>r. pv_version r = v) (prompt_versions db)"

definition get_for_org :: "nat \<Rightarrow> prompt_db \<Rightarrow> prompt_row option" where
  "get_for_org org db =
     (case [r. o' \<leftarrow> overrides db, ov_org o' = org,
              r \<leftarrow> prompt_versions db, pv_version r = ov_version o'] of
        [] \<Rightarrow> None | r # _ \<Rightarrow> Some r)"

definition resolve_for_org :: "nat \<Rightarrow> prompt_db \<Rightarrow> prompt_row option" where
  "resolve_for_org org db =
     (case get_for_org org db of Some r \<Rightarrow> Some r | None \<Rightarrow> get_active db)"

text \<open>The upsert on \<open>UNIQUE(org_id)\<close>; the foreign key asks for an existing organisation.\<close>

definition set_org_override ::
  "nat \<Rightarrow> nat \<Rightarrow> string \<Rightarrow> string option \<Rightarrow> prompt_db \<Rightarrow> prompt_error + (prompt_row \<times> prompt_db)" where
  "set_org_override now org v set_by db =
     (case get_version v db of
        None \<Rightarrow> Inl (UnknownVersion v)
      | Some pv \<Rightarrow>
          if org \<notin> set (prompt_orgs db) then Inl PromptIntegrityError
          else (let row = \<lparr>ov_org = org, ov_version = v, ov_set_at = now, ov_set_by = set_by\<rparr>;
                    rows = (if list_ex (\<lambda>o'. ov_org o' = org) (overrides db)
                            then update_rows (\<lambda>o'. ov_org o' = org) (\<lambda>_. row) (overrides db)
                            else overrides db @ [row])
                in Inr (pv, db\<lparr>overrides := rows\<rparr>)))"

definition clear_org_override :: "nat \<Rightarrow> prompt_db \<Rightarrow> prompt_db" where
  "clear_org_override org db = db\<lparr>overrides := filter (\<lambda>o'. ov_org o' \<noteq> org) (overrides db)\<rparr>"

definition deactivate_all :: "prompt_row list \<Rightarrow> prompt_row list" where
  "deactivate_all rs = map (\<lambda>r. r\<lparr>pv_active := False\<rparr>) rs"

definition create_version ::
  "nat \<Rightarrow> string \<Rightarrow> string \<Rightarrow> bool \<Rightarrow> string option \<Rightarrow> nat option \<Rightarrow> prompt_db
     \<Rightarrow> prompt_error + (prompt_row \<times> prompt_db)" where
  "create_version now v content activate created_by created_at db =
     (let rows = (if activate then deactivate_all (prompt_versions db) else prompt_versions db);
          row = \<lparr>pv_id = next_prompt db, pv_version = v, pv_content = content,
                 pv_created_at = (case created_at of None \<Rightarrow> now | Some t \<Rightarrow> t),
                 pv_active = activate, pv_created_by = created_by\<rparr>
      in if v \<in> set (map pv_version rows) then Inl PromptIntegrityError
         else Inr (row, db\<lparr>prompt_versions := rows @ [row], next_prompt := next_prompt db + 1\<rparr>))"

definition activate_version ::
  "string \<Rightarrow> prompt_db \<Rightarrow> prompt_error + (prompt_row option \<times> prompt_db)" where
  "activate_version v db =
     (case get_version v db of
        None \<Rightarrow> Inl (UnknownVersion v)
      | Some _ \<Rightarrow>
          (let db' = db\<lparr>prompt_versions := update_rows (\<lambda>r. pv_version r = v)
                 (\<lambda>r. r\<lparr>pv_active := True\<rparr>) (deactivate_all (prompt_versions db))\<rparr>
           in Inr (get_version v db', db')))"

section \<open>Experiments\<close>

datatype variant = Control | Challenger

record experiment_row =
  ex_id :: nat
  ex_name :: pystr
  ex_control :: string
  ex_challenger :: string
  ex_split_pct :: nat
  ex_active :: bool   \<comment> \<open>\<open>status = 'active'\<close>\<close>
  ex_winner :: "variant option"
  ex_created_at :: nat
  ex_ended_at :: "nat option"

record exposure_row =
  xp_experiment :: nat
  xp_subject :: pystr
  xp_variant :: variant

record ab_db =
  experiments :: "experiment_row list"
  exposures :: "exposure_row list"
  next_experiment :: nat

datatype ab_error = ActiveExperimentExists | NoExperiment | AlreadyEnded | AbIntegrityError

text \<open>\<open>md5\<close> stands for the integer value of \<open>hashlib.md5(..).hexdigest()\<close>.\<close>

definition assign_variant :: "(pystr \<Rightarrow> nat) \<Rightarrow> pystr \<Rightarrow> nat \<Rightarrow> pystr \<Rightarrow> variant" where
  "assign_variant md5 name split_pct subject_key =
     (let bucket = md5 (name @ subject_key) mod 100
      in if bucket < split_pct then Challenger else Control)"

text \<open>\<open>ORDER BY created_at ASC LIMIT 1\<close>; ties in rowid order.\<close>

definition get_active_experiment :: "ab_db \<Rightarrow> experiment_row option" where
  "get_active_experiment db =
     (case sort_key ex_created_at (filter ex_active (experiments db)) of
        [] \<Rightarrow> None | r # _ \<Rightarrow> Some r)"

definition get_experiment :: "nat \<Rightarrow> ab_db \<Rightarrow> experiment_row option" where
  "get_experiment i db = find (\<lambda>r. ex_id r = i) (experiments db)"

definition exposure_count :: "ab_db \<Rightarrow> nat \<Rightarrow> variant \<Rightarrow> nat" where
  "exposure_count db i v = rowcount (\<lambda>x. xp_experiment x = i \<and> xp_variant x = v) (exposures db)"

definition list_experiments :: "ab_db \<Rightarrow> (experiment_row \<times> nat \<times> nat) list" where
  "list_experiments db =
     map (\<lambda>r. (r, exposure_count db (ex_id r) Control, exposure_count db (ex_id r) Challenger))
       (rev (sort_key ex_created_at (rev (experiments db))))"

text \<open>The CHECK constraint bounds the split; the name is UNIQUE.\<close>

definition create_experiment ::
  "nat \<Rightarrow> pystr \<Rightarrow> string \<Rightarrow> string \<Rightarrow> nat \<Rightarrow> ab_db \<Rightarrow> ab_error + (experiment_row option \<times> ab_db)" where
  "create_experiment now name control challenger split_pct db =
     (if list_ex ex_active (experiments db) then Inl ActiveExperimentExists
      else if name \<in> set (map ex_name (experiments db)) \<or> 100 < split_pct
        then Inl AbIntegrityError
      else (let i = next_experiment db;
                db' = db\<lparr>experiments := experiments db @ [\<lparr>ex_id = i, ex_name = name,
                          ex_control = control, ex_challenger = challenger,
                          ex_split_pct = split_pct, ex_active = True, ex_winner = None,
                          ex_created_at = now, ex_ended_at = None\<rparr>],
                         next_experiment := i + 1\<rparr>
            in Inr (get_experiment i db', db')))"

definition end_experiment ::
  "nat \<Rightarrow> nat \<Rightarrow> variant \<Rightarrow> ab_db \<Rightarrow> ab_error + (experiment_row option \<times> ab_db)" where
  "end_experiment now i winner db =
     (let hit = (\<lambda>r. ex_id r = i \<and> ex_active r);
          db' = db\<lparr>experiments := update_rows hit
                     (\<lambda>r. r\<lparr>ex_active := False, ex_winner := Some winner, ex_ended_at := Some now\<rparr>)
                     (experiments db)\<rparr>
      in if rowcount hit (experiments db) = 0
         then (if get_experiment i db = None then Inl NoExperiment else Inl AlreadyEnded)
         else Inr (get_experiment i db', db'))"

text \<open>\<open>INSERT OR IGNORE\<close> on \<open>UNIQUE(experiment_id, subject_key)\<close>; a missing experiment fails.\<close>

definition record_exposure :: "nat \<Rightarrow> pystr \<Rightarrow> variant \<Rightarrow> ab_db \<Rightarrow> ab_error + ab_db" where
  "record_exposure i subject v db =
     (if list_ex (\<lambda>x. xp_experiment x = i \<and> xp_subject x = subject) (exposures db) then Inr db
      else if get_experiment i db = None then Inl AbIntegrityError
      else Inr (db\<lparr>exposures := exposures db
                 @ [\<lparr>xp_experiment = i, xp_subject = subject, xp_variant = v\<rparr>]\<rparr>))"

section \<open>Sequences of operations\<close>

datatype prompt_op =
    CreateVersion nat string string bool "string option" "nat option"
  | Activate string
  | SetOverride nat nat string "string option"
  | ClearOverride nat

definition keep_on_error :: "'db \<Rightarrow> 'e + ('a \<times> 'db) \<Rightarrow> 'db" where
  "keep_on_error db res = (case res of Inl _ \<Rightarrow> db | Inr (_, db') \<Rightarrow> db')"

fun apply_prompt :: "prompt_op \<Rightarrow> prompt_db \<Rightarrow> prompt_db" where
  "apply_prompt (CreateVersion now v c a by at) db = keep_on_error db (create_version now v c a by at db)"
| "apply_prompt (Activate v) db = keep_on_error db (activate_version v db)"
| "apply_prompt (SetOverride now org v by) db = keep_on_error db (set_org_override now org v by db)"
| "apply_prompt (ClearOverride org) db = clear_org_override org db"

datatype ab_op =
    CreateExperiment nat pystr string string nat
  | EndExperiment nat nat variant
  | RecordExposure nat pystr variant

fun apply_ab :: "ab_op \<Rightarrow> ab_db \<Rightarrow> ab_db" where
  "apply_ab (CreateExperiment now n c h s) db = keep_on_error db (create_experiment now n c h s db)"
| "apply_ab (EndExperiment now i w) db = keep_on_error db (end_experiment now i w db)"
| "apply_ab (RecordExposure i s v) db =
     (case record_exposure i s v db of Inl _ \<Rightarrow> db | Inr db' \<Rightarrow> db')"

definition prompt_inv :: "prompt_db \<Rightarrow> bool" where
  "prompt_inv db \<longleftrightarrow> distinct (map pv_version (prompt_versions db))
     \<and> length (filter pv_active (prompt_versions db)) \<le> 1
     \<and> distinct (map ov_org (overrides db))
     \<and> (\<forall>o' \<in> set (overrides db). ov_version o' \<in> pv_version ` set (prompt_versions db))"

definition exposure_key :: "exposure_row \<Rightarrow> nat \<times> pystr" where
  "exposure_key x = (xp_experiment x, xp_subject x)"

definition experiment_ok :: "nat \<Rightarrow> experiment_row \<Rightarrow> bool" where
  "experiment_ok n r \<longleftrightarrow> ex_id r < n \<and> ex_split_pct r \<le> 100
     \<and> (ex_active r \<longleftrightarrow> ex_winner r = None) \<and> (ex_active r \<longleftrightarrow> ex_ended_at r = None)"

definition ab_inv :: "ab_db \<Rightarrow> bool" where
  "ab_inv db \<longleftrightarrow> distinct (map ex_id (experiments db)) \<and> distinct (map ex_name (experiments db))
     \<and> (\<forall>r \<in> set (experiments db). experiment_ok (next_experiment db) r)
     \<and> length (filter ex_active (experiments db)) \<le> 1
     \<and> distinct (map exposure_key (exposures db))
     \<and> (\<forall>x \<in> set (exposures db). xp_experiment x \<in> ex_id ` set (experiments db))"

section \<open>Versions: invariant\<close>

lemma no_active_deactivated [simp]: "filter pv_active (deactivate_all rs) = []"
  by (induction rs) (simp_all add: deactivate_all_def)

lemma versions_deactivated [simp]: "map pv_version (deactivate_all rs) = map pv_version rs"
  by (simp add: deactivate_all_def)

lemma image_versions_deactivated [simp]:
  "pv_version ` set (deactivate_all rs) = pv_version ` set rs"
  by (metis versions_deactivated set_map)

lemma active_after_update:
  assumes "distinct (map pv_version rs)" and "v \<in> pv_version ` set rs"
  shows "map pv_version (filter pv_active (update_rows (\<lambda>r. pv_version r = v)
           (\<lambda>r. r\<lparr>pv_active := True\<rparr>) (deactivate_all rs))) = [v]"
  using assms
proof (induction rs)
  case Nil
  then show ?case by simp
next
  case (Cons r rs)
  have none: "filter pv_active (update_rows (\<lambda>r. pv_version r = v) (\<lambda>r. r\<lparr>pv_active := True\<rparr>)
      (deactivate_all qs)) = []" if "v \<notin> pv_version ` set qs" for qs
    using that by (induction qs) (auto simp: deactivate_all_def)
  show ?case
  proof (cases "pv_version r = v")
    case True
    then have "v \<notin> pv_version ` set rs" using Cons.prems(1) by auto
    then show ?thesis using none [of rs] True by (simp add: deactivate_all_def)
  next
    case False
    then show ?thesis using Cons by (simp add: deactivate_all_def)
  qed
qed

lemma activate_version_active:
  assumes "prompt_inv db" and "activate_version v db = Inr (res, db')"
  shows "map pv_version (filter pv_active (prompt_versions db')) = [v]"
  using assms find_SomeD [of "\<lambda>r. pv_version r = v" "prompt_versions db"]
  by (auto simp: activate_version_def get_version_def prompt_inv_def Let_def
      intro!: active_after_update split: option.splits)


lemma set_org_override_inv:
  assumes inv: "prompt_inv db" and ok: "set_org_override now org v by db = Inr (res, db')"
  shows "prompt_inv db'"
proof -
  let ?row = "\<lparr>ov_org = org, ov_version = v, ov_set_at = now, ov_set_by = by\<rparr>"
  have v: "v \<in> pv_version ` set (prompt_versions db)"
    using ok find_SomeD [of "\<lambda>r. pv_version r = v" "prompt_versions db"]
    by (auto simp: set_org_override_def get_version_def split: option.splits)
  have db': "db' = db\<lparr>overrides := (if list_ex (\<lambda>o'. ov_org o' = org) (overrides db)
       then update_rows (\<lambda>o'. ov_org o' = org) (\<lambda>_. ?row) (overrides db) else overrides db @ [?row])\<rparr>"
    using ok by (auto simp: set_org_override_def Let_def split: option.splits if_splits)
  have "map ov_org (update_rows (\<lambda>o'. ov_org o' = org) (\<lambda>_. ?row) rs) = map ov_org rs" for rs
    by (induction rs) auto
  then have "distinct (map ov_org (overrides db'))"
    using inv by (auto simp: db' prompt_inv_def list_ex_iff)
  then show ?thesis using inv v by (auto simp: db' prompt_inv_def table_simps)
qed

lemma create_version_inv:
  assumes "prompt_inv db" and "create_version now v c a by at db = Inr (res, db')"
  shows "prompt_inv db'"
  using assms
  by (auto simp: create_version_def prompt_inv_def Let_def simp del: set_map split: if_splits)

lemma activate_version_inv:
  assumes inv: "prompt_inv db" and ok: "activate_version v db = Inr (res, db')"
  shows "prompt_inv db'"
proof -
  have "length (filter pv_active (prompt_versions db')) = 1"
    using activate_version_active [OF assms] by (metis length_map list.size(3,4) One_nat_def add_0)
  moreover have vs: "map pv_version (prompt_versions db') = map pv_version (prompt_versions db)"
    and "overrides db' = overrides db"
    using ok by (auto simp: activate_version_def Let_def map_key_update_rows split: option.splits)
  moreover have "pv_version ` set (prompt_versions db') = pv_version ` set (prompt_versions db)"
    using vs by (metis set_map)
  ultimately show ?thesis using inv by (simp add: prompt_inv_def)
qed

lemma apply_prompt_inv: "prompt_inv db \<Longrightarrow> prompt_inv (apply_prompt c db)"
proof (cases c)
  case (CreateVersion now v x a by' at)
  then show "prompt_inv db \<Longrightarrow> ?thesis" using create_version_inv [of db now v x a by' at]
    by (auto simp: keep_on_error_def split: sum.splits)
next
  case (Activate v)
  then show "prompt_inv db \<Longrightarrow> ?thesis" using activate_version_inv [of db v]
    by (auto simp: keep_on_error_def split: sum.splits)
next
  case (SetOverride now org v by')
  then show "prompt_inv db \<Longrightarrow> ?thesis" using set_org_override_inv [of db now org v by']
    by (auto simp: keep_on_error_def split: sum.splits)
next
  case (ClearOverride org)
  then show "prompt_inv db \<Longrightarrow> ?thesis"
    by (auto simp: clear_org_override_def prompt_inv_def distinct_map_filter)
qed

definition prompt_init :: "nat list \<Rightarrow> prompt_db" where
  "prompt_init orgs = \<lparr>prompt_orgs = orgs, prompt_versions = [], overrides = [], next_prompt = 1\<rparr>"

lemma run_prompt_inv: "prompt_inv db \<Longrightarrow> prompt_inv (fold apply_prompt cs db)"
  by (induction cs arbitrary: db) (simp_all add: apply_prompt_inv)

lemma prompt_reachable_inv: "prompt_inv (fold apply_prompt cs (prompt_init orgs))"
  by (rule run_prompt_inv) (simp add: prompt_init_def prompt_inv_def)

section \<open>Experiments: invariant\<close>

lemma create_experiment_inv:
  assumes "ab_inv db" and "create_experiment now n c h s db = Inr (res, db')"
  shows "ab_inv db'"
proof -
  have none: "filter ex_active (experiments db) = []"
    using assms(2) by (auto simp: create_experiment_def filter_empty_conv list_ex_iff split: if_splits)
  have db': "db' = db\<lparr>experiments := experiments db @ [\<lparr>ex_id = next_experiment db, ex_name = n,
       ex_control = c, ex_challenger = h, ex_split_pct = s, ex_active = True, ex_winner = None,
       ex_created_at = now, ex_ended_at = None\<rparr>], next_experiment := next_experiment db + 1\<rparr>"
    and "n \<notin> ex_name ` set (experiments db)" "s \<le> 100"
    using assms(2) by (auto simp: create_experiment_def Let_def split: if_splits)
  then show ?thesis using assms(1) none
    by (auto simp: ab_inv_def experiment_ok_def)
qed

lemma end_experiment_inv:
  assumes "ab_inv db" and "end_experiment now i w db = Inr (res, db')"
  shows "ab_inv db'"
proof -
  let ?hit = "\<lambda>r. ex_id r = i \<and> ex_active r"
  let ?f = "\<lambda>r. r\<lparr>ex_active := False, ex_winner := Some w, ex_ended_at := Some now\<rparr>"
  have db': "db' = db\<lparr>experiments := update_rows ?hit ?f (experiments db)\<rparr>"
    using assms(2) by (auto simp: end_experiment_def Let_def split: if_splits)
  have "length (filter ex_active (update_rows ?hit ?f rs)) \<le> length (filter ex_active rs)" for rs
    by (induction rs) auto
  then have "length (filter ex_active (experiments db')) \<le> 1"
    using assms(1) by (auto simp: db' ab_inv_def intro: le_trans)
  moreover have id_list: "map ex_id (experiments db') = map ex_id (experiments db)"
    by (simp add: db' map_key_update_rows)
  moreover from id_list have "ex_id ` set (experiments db') = ex_id ` set (experiments db)"
    by (metis set_map)
  moreover have "map ex_name (experiments db') = map ex_name (experiments db)"
    by (simp add: db' map_key_update_rows)
  moreover have "experiment_ok (next_experiment db) r" if "r \<in> set (experiments db')" for r
    using that assms(1)
    by (auto simp: db' table_simps ab_inv_def experiment_ok_def split: if_splits)
  moreover have "exposures db' = exposures db" "next_experiment db' = next_experiment db"
    by (simp_all add: db')
  ultimately show ?thesis
    using assms(1) unfolding ab_inv_def by simp
qed

lemma record_exposure_inv:
  assumes inv: "ab_inv db" and ok: "record_exposure i s v db = Inr db'"
  shows "ab_inv db'"
proof (cases "list_ex (\<lambda>x. xp_experiment x = i \<and> xp_subject x = s) (exposures db)")
  case True
  then show ?thesis using assms by (simp add: record_exposure_def)
next
  case False
  then obtain r where r: "get_experiment i db = Some r"
    and db': "db' = db\<lparr>exposures := exposures db
        @ [\<lparr>xp_experiment = i, xp_subject = s, xp_variant = v\<rparr>]\<rparr>"
    using ok by (auto simp: record_exposure_def split: if_splits)
  have "i \<in> ex_id ` set (experiments db)"
    using find_SomeD [OF r [unfolded get_experiment_def]] by auto
  moreover have "(i, s) \<notin> exposure_key ` set (exposures db)"
    using False by (auto simp: exposure_key_def list_ex_iff)
  ultimately show ?thesis using inv by (auto simp: ab_inv_def db' exposure_key_def)
qed

lemma apply_ab_inv: "ab_inv db \<Longrightarrow> ab_inv (apply_ab c db)"
proof (cases c)
  case (CreateExperiment now n x h s)
  then show "ab_inv db \<Longrightarrow> ?thesis" using create_experiment_inv [of db now n x h s]
    by (auto simp: keep_on_error_def split: sum.splits)
next
  case (EndExperiment now i w)
  then show "ab_inv db \<Longrightarrow> ?thesis" using end_experiment_inv [of db now i w]
    by (auto simp: keep_on_error_def split: sum.splits)
next
  case (RecordExposure i s v)
  then show "ab_inv db \<Longrightarrow> ?thesis" using record_exposure_inv [of db i s v]
    by (auto split: sum.splits)
qed

definition ab_init :: ab_db where
  "ab_init = \<lparr>experiments = [], exposures = [], next_experiment = 1\<rparr>"

lemma ab_reachable_inv: "ab_inv (fold apply_ab cs ab_init)"
proof -
  have "ab_inv db \<Longrightarrow> ab_inv (fold apply_ab cs db)" for db
    by (induction cs arbitrary: db) (simp_all add: apply_ab_inv)
  then show ?thesis by (simp add: ab_init_def ab_inv_def)
qed

lemma experiment_ops_exposures:
  "create_experiment now n c h s db = Inr (res, db') \<Longrightarrow> exposures db' = exposures db"
  "end_experiment now i w db = Inr (res, db') \<Longrightarrow> exposures db' = exposures db"
  by (auto simp: create_experiment_def end_experiment_def Let_def split: if_splits)

lemma apply_ab_exposures: "x \<in> set (exposures db) \<Longrightarrow> x \<in> set (exposures (apply_ab c db))"
  by (cases c)
    (auto simp: keep_on_error_def record_exposure_def dest: experiment_ops_exposures
      split: sum.splits if_splits)

lemma exposure_counts_subjects:
  assumes "distinct (map exposure_key rs)"
  shows "rowcount (\<lambda>x. xp_experiment x = i \<and> xp_variant x = Control) rs
       + rowcount (\<lambda>x. xp_experiment x = i \<and> xp_variant x = Challenger) rs
       = card {s. \<exists>x \<in> set rs. xp_experiment x = i \<and> xp_subject x = s}"
  using assms
proof (induction rs)
  case Nil
  then show ?case by (simp add: rowcount_def)
next
  case (Cons r rs)
  let ?S = "{s. \<exists>x \<in> set rs. xp_experiment x = i \<and> xp_subject x = s}"
  have fin: "finite ?S" by (rule finite_subset [of _ "xp_subject ` set rs"]) auto
  have "{s. \<exists>x \<in> set (r # rs). xp_experiment x = i \<and> xp_subject x = s}
      = (if xp_experiment r = i then insert (xp_subject r) ?S else ?S)" by auto
  moreover have "xp_subject r \<notin> ?S" if exp: "xp_experiment r = i"
  proof
    assume "xp_subject r \<in> ?S"
    then obtain x where "x \<in> set rs" "exposure_key x = exposure_key r"
      using exp by (auto simp: exposure_key_def)
    then show False using Cons.prems by (metis distinct.simps(2) image_eqI list.simps(9) set_map)
  qed
  ultimately show ?case
    using Cons fin by (cases "xp_variant r") (auto simp: rowcount_def)
qed

section \<open>Properties\<close>

text \<open>
  At every moment at most one prompt version is active, version names are unique and
  every override names an existing version; and a successful activation makes the requested
  version the active one.
\<close>

theorem prompt_single_active:
  "let db = fold apply_prompt cs (prompt_init orgs) in
     prompt_inv db
     \<and> (case activate_version v db of
          Inl _ \<Rightarrow> v \<notin> pv_version ` set (prompt_versions db)
        | Inr (_, db') \<Rightarrow> map_option pv_version (get_active db') = Some v)"
proof -
  define db where "db = fold apply_prompt cs (prompt_init orgs)"
  have inv: "prompt_inv db" by (simp add: db_def prompt_reachable_inv)
  have "case activate_version v db of
          Inl _ \<Rightarrow> v \<notin> pv_version ` set (prompt_versions db)
        | Inr (_, db') \<Rightarrow> map_option pv_version (get_active db') = Some v"
  proof (cases "activate_version v db")
    case (Inl e)
    then show ?thesis using find_NoneD [of "\<lambda>r. pv_version r = v" "prompt_versions db"]
      by (auto simp: activate_version_def get_version_def Let_def split: option.splits)
  next
    case (Inr res)
    obtain r db' where res: "res = (r, db')" by (cases res)
    have act: "map pv_version (filter pv_active (prompt_versions db')) = [v]"
      using activate_version_active [OF inv] Inr res by simp
    have "map_option pv_version (get_active db') = Some v"
    proof (cases "get_active db'")
      case None
      then show ?thesis using act find_NoneD [of pv_active "prompt_versions db'"]
        by (auto simp: get_active_def filter_empty_conv)
    next
      case (Some a)
      then have "a \<in> set (filter pv_active (prompt_versions db'))"
        using find_SomeD [of pv_active "prompt_versions db'"] by (auto simp: get_active_def)
      then have "pv_version a \<in> set (map pv_version (filter pv_active (prompt_versions db')))"
        by (metis image_eqI set_map)
      then show ?thesis using act Some by simp
    qed
    then show ?thesis using Inr res by simp
  qed
  then show ?thesis using inv by (simp add: db_def [symmetric])
qed

text \<open>
  In every reachable state at most one experiment is active, an experiment is ended
  exactly when it has a winner, every exposure belongs to an existing experiment, and the
  two reported counts add up to the number of distinct subjects exposed.
\<close>

theorem experiment_counts_each_subject_once:
  "let db = fold apply_ab cs ab_init in
     ab_inv db
     \<and> exposure_count db i Control + exposure_count db i Challenger
         = card {s. \<exists>x \<in> set (exposures db). xp_experiment x = i \<and> xp_subject x = s}"
  using ab_reachable_inv [of cs] exposure_counts_subjects
  by (auto simp: Let_def exposure_count_def ab_inv_def)

text \<open>
  A subject's first recorded variant sticks: no later operation changes or removes it,
  and no second one is recorded; and widening the split never moves a subject from the
  challenger back to the control.
\<close>

theorem exposure_sticky:
  assumes "x \<in> set (exposures (fold apply_ab cs ab_init))"
    and "y \<in> set (exposures (fold apply_ab cs' (fold apply_ab cs ab_init)))"
    and "exposure_key y = exposure_key x"
  shows "y = x \<and> (s \<le> s' \<longrightarrow> assign_variant md5 n s k = Challenger
     \<longrightarrow> assign_variant md5 n s' k = Challenger)"
proof -
  have "x \<in> set (exposures db) \<Longrightarrow> x \<in> set (exposures (fold apply_ab cs' db))" for db
    by (induction cs' arbitrary: db) (simp_all add: apply_ab_exposures)
  then have "x \<in> set (exposures (fold apply_ab cs' (fold apply_ab cs ab_init)))"
    using assms(1) by blast
  moreover have "distinct (map exposure_key (exposures (fold apply_ab cs' (fold apply_ab cs ab_init))))"
    using ab_reachable_inv [of "cs @ cs'"] by (simp add: ab_inv_def)
  ultimately have "y = x" using assms(2,3) distinct_key_eq by metis
  then show ?thesis by (auto simp: assign_variant_def Let_def split: if_splits)
qed

definition demo_ab :: "ab_op list" where
  "demo_ab = [CreateExperiment 0 (lit ''e'') ''1'' ''2'' 50, RecordExposure 1 (lit ''u'') Control]"

lemma demo_ab_exposures:
  "exposures (fold apply_ab demo_ab ab_init)
     = [\<lparr>xp_experiment = 1, xp_subject = lit ''u'', xp_variant = Control\<rparr>]"
  "exposures (fold apply_ab [RecordExposure 1 (lit ''u'') Challenger] (fold apply_ab demo_ab ab_init))
     = [\<lparr>xp_experiment = 1, xp_subject = lit ''u'', xp_variant = Control\<rparr>]"
  by (simp_all add: demo_ab_def ab_init_def create_experiment_def keep_on_error_def Let_def
      record_exposure_def get_experiment_def)

theorem exposure_sticky_witness:
  "assign_variant (\<lambda>k. 30) (lit ''e'') 40 (lit ''u'') = Challenger
   \<and> assign_variant (\<lambda>k. 30) (lit ''e'') 60 (lit ''u'') = Challenger"
  using exposure_sticky [of "\<lparr>xp_experiment = 1, xp_subject = lit ''u'', xp_variant = Control\<rparr>"
      demo_ab "\<lparr>xp_experiment = 1, xp_subject = lit ''u'', xp_variant = Control\<rparr>"
      "[RecordExposure 1 (lit ''u'') Challenger]" 40 60 "\<lambda>k. 30" "lit ''e''" "lit ''u''"]
  unfolding demo_ab_exposures by (simp add: assign_variant_def)

end
