(* ===== verification/Enrichment_State.thy ===== *)
theory Enrichment_State
  imports Prelude Fencing
begin

text \<open>
  \<^verbatim>\<open>backend/app/services/enrichment_state.py\<close>: the per-atom enrichment stage rows and the
  derived records, with the completion transaction of
  \<^verbatim>\<open>backend/app/services/multimodal_enrichment.py\<close>. A stage row is fenced by the input
  fingerprint of its claim: a worker that comes back with another fingerprint must not
  publish anything. Provider calls, prompts and assets are outside. The foreign keys of a
  row are assumed to exist, since its writers have just read them.
\<close>

section \<open>Tables\<close>

datatype stage_status =
  Pending | Running | Succeeded | Partial | FailedRetryable | FailedPermanent
  | SkippedPolicy | SkippedNotApplicable

definition all_statuses :: "stage_status list" where
  "all_statuses = [Pending, Running, Succeeded, Partial, FailedRetryable, FailedPermanent,
     SkippedPolicy, SkippedNotApplicable]"

record stage_row =
  sr_file :: nat
  sr_atom :: "nat option"
  sr_gen :: string
  sr_stage :: string
  sr_status :: stage_status
  sr_fp :: "string option"
  sr_impl :: "string option"
  sr_model :: "string option"
  sr_prompt :: "string option"
  sr_config :: "string option"
  sr_attempts :: nat
  sr_error_code :: "string option"
  sr_error_message :: "string option"
  sr_started :: "nat option"
  sr_updated :: nat
  sr_completed :: "nat option"

record atom_row =
  at_pk :: nat
  at_file :: nat
  at_gen :: string
  at_atom :: string   \<comment> \<open>the opaque id\<close>
  at_kind :: string
  at_ordinal :: nat

record derived_row =
  dv_file :: nat
  dv_gen :: string
  dv_atom :: string
  dv_fp :: string
  dv_description :: string
  dv_aids :: "string list"
  dv_proxy :: "string option"
  dv_updated :: nat
  dv_completed :: "nat option"

record enrich_db =
  stages :: "stage_row list"
  atoms :: "atom_row list"
  derived :: "derived_row list"

text \<open>file, generation, atom row, stage\<close>

type_synonym stage_key = "nat \<times> string \<times> nat \<times> string"

definition enrich_stage :: string where
  "enrich_stage = ''enrich''"

fun at_key :: "stage_key \<Rightarrow> stage_row \<Rightarrow> bool" where
  "at_key (f, g, a, s) r \<longleftrightarrow> sr_file r = f \<and> sr_gen r = g \<and> sr_atom r = Some a \<and> sr_stage r = s"

definition atom_stage_status :: "stage_key \<Rightarrow> stage_row list \<Rightarrow> stage_row option" where
  "atom_stage_status k rs = find (at_key k) rs"

section \<open>Claim and completion\<close>

record claim_args =
  ca_impl :: string
  ca_model :: "string option"
  ca_prompt :: "string option"
  ca_config :: "string option"

text \<open>
  The compare-and-set condition \<open>NOT (status = 'running' AND input_fingerprint = ?)\<close> in SQL's
  three-valued logic: with a NULL fingerprint it is true only when the row is not running.
\<close>

definition claimable :: "string \<Rightarrow> stage_row \<Rightarrow> bool" where
  "claimable fp r \<longleftrightarrow>
     (case sr_fp r of None \<Rightarrow> sr_status r \<noteq> Running
      | Some f \<Rightarrow> \<not> (sr_status r = Running \<and> f = fp))"

fun claim_atom_stage ::
  "nat \<Rightarrow> stage_key \<Rightarrow> string \<Rightarrow> claim_args \<Rightarrow> stage_row list \<Rightarrow> bool \<times> stage_row list" where
  "claim_atom_stage now (f, g, a, s) fp args rs =
     (if \<not> list_ex (at_key (f, g, a, s)) rs then
        (True, rs @ [\<lparr>sr_file = f, sr_atom = Some a, sr_gen = g, sr_stage = s,
                      sr_status = Running, sr_fp = Some fp, sr_impl = Some (ca_impl args),
                      sr_model = ca_model args, sr_prompt = ca_prompt args,
                      sr_config = ca_config args, sr_attempts = 0, sr_error_code = None,
                      sr_error_message = None, sr_started = Some now, sr_updated = now,
                      sr_completed = None\<rparr>])
      else let hit = (\<lambda>r. at_key (f, g, a, s) r \<and> claimable fp r)
           in (0 < rowcount hit rs,
               update_rows hit
                 (\<lambda>r. r\<lparr>sr_status := Running, sr_fp := Some fp, sr_impl := Some (ca_impl args),
                       sr_model := ca_model args, sr_prompt := ca_prompt args,
                       sr_config := ca_config args, sr_attempts := 0, sr_error_code := None,
                       sr_error_message := None, sr_started := Some now, sr_completed := None\<rparr>) rs))"

record completion =
  cp_status :: stage_status
  cp_error_code :: "string option"
  cp_error_message :: "string option"
  cp_attempts :: nat
  cp_now :: nat

definition completed_at :: "completion \<Rightarrow> nat option" where
  "completed_at c =
     (if cp_status c \<in> {Pending, Running, FailedRetryable} then None else Some (cp_now c))"

definition complete_atom_stage ::
  "completion \<Rightarrow> stage_key \<Rightarrow> string \<Rightarrow> stage_row list \<Rightarrow> bool \<times> stage_row list" where
  "complete_atom_stage c k fp rs =
     (let existing_fp = (case atom_stage_status k rs of None \<Rightarrow> None | Some r \<Rightarrow> sr_fp r)
      in if existing_fp \<noteq> None \<and> existing_fp \<noteq> Some fp then (False, rs)
         else let hit = (\<lambda>r. at_key k r \<and> sr_fp r = Some fp)
              in (0 < rowcount hit rs,
                  update_rows hit
                    (\<lambda>r. r\<lparr>sr_status := cp_status c, sr_error_code := cp_error_code c,
                          sr_error_message := cp_error_message c, sr_attempts := cp_attempts c,
                          sr_updated := cp_now c,
                          sr_completed := (case completed_at c of None \<Rightarrow> sr_completed r
                                           | Some t \<Rightarrow> Some t)\<rparr>) rs))"

definition is_atom_stage_current :: "nat \<Rightarrow> string \<Rightarrow> nat \<Rightarrow> string \<Rightarrow> stage_row list \<Rightarrow> bool" where
  "is_atom_stage_current f g a fp rs =
     (case atom_stage_status (f, g, a, enrich_stage) rs of None \<Rightarrow> False | Some r \<Rightarrow> sr_fp r = Some fp)"

text \<open>\<open>None\<close> stands for the empty string: no transition was made.\<close>

definition mark_proxy_missing_retryable ::
  "nat \<Rightarrow> nat \<Rightarrow> string \<Rightarrow> nat \<Rightarrow> int \<Rightarrow> stage_row list \<Rightarrow> stage_status option \<times> stage_row list" where
  "mark_proxy_missing_retryable now f g a max_attempts rs =
     (let k = (f, g, a, enrich_stage) in
      case atom_stage_status k rs of
        None \<Rightarrow> (None, rs)
      | Some r \<Rightarrow>
          (case sr_fp r of
             None \<Rightarrow> (None, rs)
           | Some fp \<Rightarrow>
               (let attempts = sr_attempts r + 1;
                    status = (if int attempts > max 1 max_attempts then FailedPermanent
                              else FailedRetryable)
                in (case complete_atom_stage \<lparr>cp_status = status,
                          cp_error_code = Some ''proxy_embedding_failed'',
                          cp_error_message = Some ''Derived proxy embedding failed; atom reverted for retry'',
                          cp_attempts = attempts, cp_now = now\<rparr> k fp rs of
                      (ok, rs') \<Rightarrow> (if ok then Some status else None, rs')))))"

definition recover_stranded_atom_stages ::
  "nat \<Rightarrow> nat option \<Rightarrow> stage_row list \<Rightarrow> nat \<times> stage_row list" where
  "recover_stranded_atom_stages now cutoff rs =
     (let hit = (\<lambda>r. sr_stage r = enrich_stage \<and> sr_status r = Running \<and> sr_atom r \<noteq> None
            \<and> (case cutoff of None \<Rightarrow> True
                | Some c \<Rightarrow> (case sr_started r of None \<Rightarrow> sr_updated r | Some t \<Rightarrow> t) < c))
      in (rowcount hit rs, update_rows hit (\<lambda>r. r\<lparr>sr_status := Pending, sr_updated := now\<rparr>) rs))"

definition aggregate_stage_status :: "nat \<Rightarrow> string \<Rightarrow> stage_row list \<Rightarrow> (stage_status \<times> nat) list" where
  "aggregate_stage_status f s rs =
     map (\<lambda>st. (st, rowcount (\<lambda>r. sr_file r = f \<and> sr_stage r = s \<and> sr_atom r \<noteq> None
                                  \<and> sr_status r = st) rs)) all_statuses"

text \<open>\<open>ArtifactEnrichmentService._skip\<close>: \<open>INSERT OR REPLACE\<close>, with a NULL fingerprint.\<close>

fun skip_atom :: "nat \<Rightarrow> stage_key \<Rightarrow> stage_status \<Rightarrow> string \<Rightarrow> stage_row list \<Rightarrow> stage_row list" where
  "skip_atom now (f, g, a, s) status reason rs =
     filter (\<lambda>r. \<not> at_key (f, g, a, s) r) rs
     @ [\<lparr>sr_file = f, sr_atom = Some a, sr_gen = g, sr_stage = s, sr_status = status,
         sr_fp = None, sr_impl = None, sr_model = None, sr_prompt = None, sr_config = None,
         sr_attempts = 0, sr_error_code = Some reason, sr_error_message = None,
         sr_started = None, sr_updated = now, sr_completed = None\<rparr>]"

section \<open>Derived records\<close>

definition derived_at :: "nat \<Rightarrow> string \<Rightarrow> string \<Rightarrow> derived_row \<Rightarrow> bool" where
  "derived_at f g atom d \<longleftrightarrow> dv_file d = f \<and> dv_gen d = g \<and> dv_atom d = atom"

definition upsert_derived ::
  "nat \<Rightarrow> nat \<Rightarrow> string \<Rightarrow> string \<Rightarrow> string \<Rightarrow> string \<Rightarrow> string list \<Rightarrow> derived_row list \<Rightarrow> derived_row list" where
  "upsert_derived now f g atom fp description aids ds =
     filter (\<lambda>d. \<not> derived_at f g atom d) ds
     @ [\<lparr>dv_file = f, dv_gen = g, dv_atom = atom, dv_fp = fp, dv_description = description,
         dv_aids = aids, dv_proxy = None, dv_updated = now, dv_completed = Some now\<rparr>]"

definition set_proxy_vector_id ::
  "nat \<Rightarrow> nat \<Rightarrow> string \<Rightarrow> string \<Rightarrow> string \<Rightarrow> string \<Rightarrow> derived_row list \<Rightarrow> nat \<times> derived_row list" where
  "set_proxy_vector_id now f g atom fp proxy ds =
     (let hit = (\<lambda>d. derived_at f g atom d \<and> dv_fp d = fp)
      in (rowcount hit ds, update_rows hit (\<lambda>d. d\<lparr>dv_proxy := Some proxy, dv_updated := now\<rparr>) ds))"

definition clear_proxy_vector_id ::
  "nat \<Rightarrow> nat \<Rightarrow> string \<Rightarrow> string \<Rightarrow> derived_row list \<Rightarrow> derived_row list" where
  "clear_proxy_vector_id now f g atom ds =
     update_rows (derived_at f g atom) (\<lambda>d. d\<lparr>dv_proxy := None, dv_updated := now\<rparr>) ds"

definition prior_proxy_ids_for_atoms ::
  "nat \<Rightarrow> string \<Rightarrow> string list \<Rightarrow> derived_row list \<Rightarrow> string list" where
  "prior_proxy_ids_for_atoms f g ids ds =
     List.map_filter (\<lambda>atom. case find (\<lambda>d. derived_at f g atom d \<and> dv_proxy d \<noteq> None) ds of
                          None \<Rightarrow> None | Some d \<Rightarrow> dv_proxy d) ids"

definition resolve_atom_pk :: "nat \<Rightarrow> string \<Rightarrow> string \<Rightarrow> enrich_db \<Rightarrow> nat option" where
  "resolve_atom_pk f g atom db =
     map_option at_pk (find (\<lambda>a. at_file a = f \<and> at_gen a = g \<and> at_atom a = atom) (atoms db))"

definition enrichable :: "nat \<Rightarrow> string \<Rightarrow> string \<Rightarrow> enrich_db \<Rightarrow> atom_row \<Rightarrow> bool" where
  "enrichable f g s db a =
     (let status = (case atom_stage_status (f, g, at_pk a, s) (stages db) of
                      None \<Rightarrow> Pending | Some r \<Rightarrow> sr_status r)
      in if status \<in> {Pending, FailedRetryable, SkippedNotApplicable} then True
         else if status = Succeeded then
           (case find (derived_at f g (at_atom a)) (derived db) of
              None \<Rightarrow> False | Some d \<Rightarrow> dv_proxy d = None)
         else False)"

definition list_enrichable_atoms :: "nat \<Rightarrow> string \<Rightarrow> string \<Rightarrow> enrich_db \<Rightarrow> atom_row list" where
  "list_enrichable_atoms f g s db =
     filter (enrichable f g s db)
       (sort_key at_ordinal
          (filter (\<lambda>a. at_file a = f \<and> at_gen a = g
                     \<and> at_kind a \<in> {''image'', ''chart'', ''table'', ''equation''}) (atoms db)))"

text \<open>
  The completion transaction of \<open>ArtifactEnrichmentService\<close>: the derived row is written
  only if the stage accepted the completion, in the same commit.
\<close>

definition persist_completion ::
  "nat \<Rightarrow> nat \<Rightarrow> string \<Rightarrow> nat \<Rightarrow> string \<Rightarrow> string \<Rightarrow> string \<Rightarrow> string list \<Rightarrow> enrich_db
     \<Rightarrow> bool \<times> enrich_db" where
  "persist_completion now f g pk atom fp description aids db =
     (case complete_atom_stage \<lparr>cp_status = Succeeded, cp_error_code = None,
              cp_error_message = None, cp_attempts = 1, cp_now = now\<rparr>
            (f, g, pk, enrich_stage) fp (stages db) of
        (True, rs) \<Rightarrow> (True, db\<lparr>stages := rs,
             derived := upsert_derived now f g atom fp description aids (derived db)\<rparr>)
      | (False, rs) \<Rightarrow> (False, db\<lparr>stages := rs\<rparr>))"

definition fail_atom :: "nat \<Rightarrow> stage_key \<Rightarrow> string \<Rightarrow> string \<Rightarrow> bool \<Rightarrow> stage_row list \<Rightarrow> stage_row list" where
  "fail_atom now k fp code retryable rs =
     snd (complete_atom_stage \<lparr>cp_status = (if retryable then FailedRetryable else FailedPermanent),
            cp_error_code = Some code, cp_error_message = None, cp_attempts = 1, cp_now = now\<rparr> k fp rs)"


section \<open>Histories\<close>

datatype stage_event =
    ClaimE nat stage_key string claim_args
  | CompleteE completion stage_key string
  | ProxyMissingE nat nat string nat int
  | RecoverE nat "nat option"
  | SkipE nat stage_key stage_status string

fun run_stage :: "stage_event \<Rightarrow> stage_row list \<Rightarrow> stage_row list" where
  "run_stage (ClaimE now k fp args) rs = snd (claim_atom_stage now k fp args rs)"
| "run_stage (CompleteE c k fp) rs = snd (complete_atom_stage c k fp rs)"
| "run_stage (ProxyMissingE now f g a m) rs = snd (mark_proxy_missing_retryable now f g a m rs)"
| "run_stage (RecoverE now cutoff) rs = snd (recover_stranded_atom_stages now cutoff rs)"
| "run_stage (SkipE now k st reason) rs = skip_atom now k st reason rs"

fun grants_stage :: "stage_event \<Rightarrow> stage_key \<Rightarrow> string \<Rightarrow> bool" where
  "grants_stage (ClaimE now k fp args) k' w \<longleftrightarrow> k = k' \<and> fp = w"
| "grants_stage _ k' w \<longleftrightarrow> False"

definition holds_stage :: "stage_row list \<Rightarrow> stage_key \<Rightarrow> string \<Rightarrow> bool" where
  "holds_stage rs k w \<longleftrightarrow> (\<exists>r \<in> set rs. at_key k r \<and> sr_fp r = Some w)"

text \<open>The partial unique index on atom-scoped rows.\<close>

definition stage_inv :: "stage_row list \<Rightarrow> bool" where
  "stage_inv rs \<longleftrightarrow> (\<forall>k. rowcount (at_key k) rs \<le> 1)"

lemma rowcount_update_rows:
  "(\<And>r. q (f r) = q r) \<Longrightarrow> rowcount q (update_rows p f rs) = rowcount q rs"
  by (induction rs) (auto simp: rowcount_def)

lemma rowcount_append [simp]: "rowcount q (rs @ rs') = rowcount q rs + rowcount q rs'"
  by (simp add: rowcount_def)

lemma rowcount_single [simp]: "rowcount q [r] = (if q r then 1 else 0)"
  by (simp add: rowcount_def)

lemma at_key_unique: "at_key k r \<Longrightarrow> at_key k' r \<Longrightarrow> k = k'"
  by (cases k; cases k') auto

text \<open>Every write but an insert keeps the key columns; only a claim writes a fingerprint.\<close>

lemma complete_shape:
  obtains p f where "snd (complete_atom_stage c k fp rs) = update_rows p f rs"
    and "\<And>r k'. at_key k' (f r) = at_key k' r" and "\<And>r. sr_fp (f r) = sr_fp r"
proof -
  let ?f = "\<lambda>r. r\<lparr>sr_status := cp_status c, sr_error_code := cp_error_code c,
     sr_error_message := cp_error_message c, sr_attempts := cp_attempts c, sr_updated := cp_now c,
     sr_completed := (case completed_at c of None \<Rightarrow> sr_completed r | Some t \<Rightarrow> Some t)\<rparr>"
  have keep: "at_key k' (?f r) = at_key k' r" for r :: stage_row and k' by (cases k') simp
  have none: "update_rows (\<lambda>_. False) ?f rs = rs" by (simp add: update_rows_none)
  show ?thesis
  proof (cases "snd (complete_atom_stage c k fp rs) = rs")
    case True
    then show ?thesis using that [of "\<lambda>_. False" ?f] none keep by simp
  next
    case False
    then show ?thesis
      using that [of "\<lambda>r. at_key k r \<and> sr_fp r = Some fp" ?f] keep
      by (auto simp: complete_atom_stage_def Let_def split: if_splits)
  qed
qed

lemma mark_shape:
  "\<exists>c k fp. snd (mark_proxy_missing_retryable now f g a m rs) = rs
     \<or> snd (mark_proxy_missing_retryable now f g a m rs) = snd (complete_atom_stage c k fp rs)"
proof (cases "atom_stage_status (f, g, a, enrich_stage) rs")
  case None
  then show ?thesis by (simp add: mark_proxy_missing_retryable_def)
next
  case (Some r)
  show ?thesis
  proof (cases "sr_fp r")
    case None
    then show ?thesis using Some by (simp add: mark_proxy_missing_retryable_def)
  next
    case (Some fp)
    show ?thesis
      unfolding mark_proxy_missing_retryable_def Let_def
        \<open>atom_stage_status (f, g, a, enrich_stage) rs = Some r\<close> option.case Some
      by (intro exI disjI2) (simp add: case_prod_beta)
  qed
qed

lemma update_shape_facts:
  assumes "rs' = update_rows p f rs" and "\<And>r k'. at_key k' (f r) = at_key k' r"
    and "\<And>r. sr_fp (f r) = sr_fp r"
  shows "stage_inv rs \<Longrightarrow> stage_inv rs'" and "holds_stage rs' k w \<longleftrightarrow> holds_stage rs k w"
proof -
  show "stage_inv rs \<Longrightarrow> stage_inv rs'"
    using assms by (simp add: stage_inv_def rowcount_update_rows)
  have "holds_stage (update_rows p f rs) k w \<longleftrightarrow> holds_stage rs k w" for rs
    using assms(2,3) by (induction rs) (auto simp: holds_stage_def)
  then show "holds_stage rs' k w \<longleftrightarrow> holds_stage rs k w" using assms(1) by simp
qed

lemma claim_insert:
  "\<not> list_ex (at_key k) rs \<Longrightarrow> \<exists>r. claim_atom_stage now k fp args rs = (True, rs @ [r])
     \<and> at_key k r \<and> sr_fp r = Some fp \<and> sr_status r = Running"
  by (cases k) auto

lemma claim_update:
  assumes "list_ex (at_key k) rs"
  shows "\<exists>f. claim_atom_stage now k fp args rs
       = (0 < rowcount (\<lambda>r. at_key k r \<and> claimable fp r) rs,
          update_rows (\<lambda>r. at_key k r \<and> claimable fp r) f rs)
     \<and> (\<forall>r k'. at_key k' (f r) = at_key k' r) \<and> (\<forall>r. sr_fp (f r) = Some fp)
     \<and> (\<forall>r. sr_status (f r) = Running) \<and> (\<forall>r. sr_attempts (f r) = 0)"
proof -
  obtain f' g a s where k: "k = (f', g, a, s)" by (cases k)
  have "at_key k' (r\<lparr>sr_status := Running, sr_fp := Some fp, sr_impl := Some (ca_impl args),
       sr_model := ca_model args, sr_prompt := ca_prompt args, sr_config := ca_config args,
       sr_attempts := 0, sr_error_code := None, sr_error_message := None, sr_started := Some now,
       sr_completed := None\<rparr>) = at_key k' r" for r :: stage_row and k'
    by (cases k') simp
  then show ?thesis using assms unfolding k claim_atom_stage.simps Let_def by force
qed

lemma claim_facts:
  assumes "stage_inv rs"
  shows "stage_inv (snd (claim_atom_stage now k fp args rs))"
    and "holds_stage (snd (claim_atom_stage now k fp args rs)) k' w \<Longrightarrow> \<not> (k = k' \<and> fp = w)
         \<Longrightarrow> holds_stage rs k' w"
proof (atomize (full), cases "list_ex (at_key k) rs")
  case False
  then obtain r where r: "claim_atom_stage now k fp args rs = (True, rs @ [r])" "at_key k r"
    "sr_fp r = Some fp" using claim_insert by blast
  have "rowcount (at_key j) (rs @ [r]) \<le> 1" for j
  proof (cases "j = k")
    case True
    then have "rowcount (at_key j) rs = 0"
      using False by (auto simp: rowcount_zero list_ex_iff)
    then show ?thesis by simp
  next
    case False
    then have "\<not> at_key j r" using r(2) at_key_unique by blast
    then show ?thesis using assms by (simp add: stage_inv_def del: split_paired_All)
  qed
  then show "stage_inv (snd (claim_atom_stage now k fp args rs)) \<and>
      (holds_stage (snd (claim_atom_stage now k fp args rs)) k' w \<longrightarrow> \<not> (k = k' \<and> fp = w)
        \<longrightarrow> holds_stage rs k' w)"
    using r at_key_unique by (auto simp: stage_inv_def holds_stage_def)
next
  case True
  from claim_update [OF True, of now fp args]
  obtain f where f: "claim_atom_stage now k fp args rs
       = (0 < rowcount (\<lambda>r. at_key k r \<and> claimable fp r) rs,
          update_rows (\<lambda>r. at_key k r \<and> claimable fp r) f rs)"
    "\<And>r k'. at_key k' (f r) = at_key k' r" "\<And>r. sr_fp (f r) = Some fp"
    by blast
  have "rowcount (at_key j) (update_rows (\<lambda>r. at_key k r \<and> claimable fp r) f rs)
      = rowcount (at_key j) rs" for j
    by (rule rowcount_update_rows) (simp add: f(2))
  then have "stage_inv (update_rows (\<lambda>r. at_key k r \<and> claimable fp r) f rs)"
    using assms by (simp add: stage_inv_def del: split_paired_All)
  moreover have "holds_stage rs k' w"
    if h: "holds_stage (update_rows (\<lambda>r. at_key k r \<and> claimable fp r) f rs) k' w"
      and other: "\<not> (k = k' \<and> fp = w)"
  proof -
    obtain x where x: "x \<in> set rs"
      and at: "at_key k' (if at_key k x \<and> claimable fp x then f x else x)"
      and fp: "sr_fp (if at_key k x \<and> claimable fp x then f x else x) = Some w"
      using h by (auto simp only: holds_stage_def set_update_rows image_iff bex_simps)
    show ?thesis
    proof (cases "at_key k x \<and> claimable fp x")
      case True
      then have "at_key k x" "at_key k' x" "fp = w" using at fp f(2,3) by simp_all
      then show ?thesis using other at_key_unique by blast
    next
      case False
      then show ?thesis using x at fp unfolding holds_stage_def by auto
    qed
  qed
  ultimately show "stage_inv (snd (claim_atom_stage now k fp args rs)) \<and>
      (holds_stage (snd (claim_atom_stage now k fp args rs)) k' w \<longrightarrow> \<not> (k = k' \<and> fp = w)
        \<longrightarrow> holds_stage rs k' w)"
    unfolding f(1) snd_conv by blast
qed

lemma recover_facts:
  "stage_inv rs \<Longrightarrow> stage_inv (snd (recover_stranded_atom_stages now cutoff rs))"
  "holds_stage (snd (recover_stranded_atom_stages now cutoff rs)) k w \<longleftrightarrow> holds_stage rs k w"
proof -
  let ?f = "\<lambda>r. r\<lparr>sr_status := Pending, sr_updated := now\<rparr>"
  have keep: "at_key j (?f r) = at_key j r" for j and r :: stage_row by (cases j) simp
  obtain p where p: "snd (recover_stranded_atom_stages now cutoff rs) = update_rows p ?f rs"
    by (simp add: recover_stranded_atom_stages_def Let_def)
  show "stage_inv rs \<Longrightarrow> stage_inv (snd (recover_stranded_atom_stages now cutoff rs))"
    by (rule update_shape_facts(1) [OF p keep]) simp_all
  show "holds_stage (snd (recover_stranded_atom_stages now cutoff rs)) k w \<longleftrightarrow> holds_stage rs k w"
    by (rule update_shape_facts(2) [OF p keep]) simp
qed

lemma skip_facts:
  assumes "stage_inv rs"
  shows "stage_inv (skip_atom now k st reason rs)"
    and "holds_stage (skip_atom now k st reason rs) k' w \<Longrightarrow> holds_stage rs k' w"
proof -
  obtain r where r: "skip_atom now k st reason rs = filter (\<lambda>r. \<not> at_key k r) rs @ [r]"
    "at_key k r" "sr_fp r = None" by (cases k) auto
  have "rowcount (at_key j) (filter (\<lambda>r. \<not> at_key k r) rs @ [r]) \<le> 1" for j
  proof (cases "j = k")
    case True
    then have "rowcount (at_key j) (filter (\<lambda>r. \<not> at_key k r) rs) = 0"
      by (simp add: rowcount_zero)
    then show ?thesis by simp
  next
    case False
    then have "\<not> at_key j r" using r(2) at_key_unique by blast
    moreover have "rowcount (at_key j) (filter q rs) \<le> rowcount (at_key j) rs" for q
      by (induction rs) (auto simp: rowcount_def)
    ultimately show ?thesis
      using assms by (auto simp: stage_inv_def intro: le_trans simp del: split_paired_All)
  qed
  then show "stage_inv (skip_atom now k st reason rs)"
    unfolding r(1) stage_inv_def by blast
  show "holds_stage (skip_atom now k st reason rs) k' w \<Longrightarrow> holds_stage rs k' w"
    using r by (auto simp: holds_stage_def)
qed

lemma complete_facts:
  "stage_inv rs \<Longrightarrow> stage_inv (snd (complete_atom_stage c k fp rs))"
  "holds_stage (snd (complete_atom_stage c k fp rs)) k' w \<longleftrightarrow> holds_stage rs k' w"
proof -
  obtain p f where pf: "snd (complete_atom_stage c k fp rs) = update_rows p f rs"
    "\<And>r k'. at_key k' (f r) = at_key k' r" "\<And>r. sr_fp (f r) = sr_fp r"
    using complete_shape [of c k fp rs] by metis
  show "stage_inv rs \<Longrightarrow> stage_inv (snd (complete_atom_stage c k fp rs))"
    by (rule update_shape_facts(1) [OF pf])
  show "holds_stage (snd (complete_atom_stage c k fp rs)) k' w \<longleftrightarrow> holds_stage rs k' w"
    by (rule update_shape_facts(2) [OF pf])
qed

lemma complete_refused:
  assumes "\<not> holds_stage rs k fp"
  shows "complete_atom_stage c k fp rs = (False, rs)"
proof -
  have "\<forall>r \<in> set rs. \<not> (at_key k r \<and> sr_fp r = Some fp)"
    using assms by (auto simp: holds_stage_def)
  then show ?thesis
    by (simp add: complete_atom_stage_def Let_def rowcount_zero update_rows_none)
qed

interpretation stage_fence:
  fenced_store stage_inv holds_stage complete_atom_stage run_stage grants_stage
proof
  fix t e
  assume inv: "stage_inv t"
  show "stage_inv (run_stage e t)"
  proof (cases e)
    case (ProxyMissingE now f g a m)
    then show ?thesis using inv mark_shape [of now f g a m t] complete_facts(1) by fastforce
  qed (use inv claim_facts(1) complete_facts(1) recover_facts(1) skip_facts(1) in simp_all)
next
  fix t k w e
  assume inv: "stage_inv t" and no: "\<not> holds_stage t k w" "\<not> grants_stage e k w"
  show "\<not> holds_stage (run_stage e t) k w"
  proof (cases e)
    case (ClaimE now k' fp args)
    then show ?thesis using no claim_facts(2) [OF inv, of now k' fp args k w] by auto
  next
    case (ProxyMissingE now f g a m)
    then show ?thesis using no mark_shape [of now f g a m t] complete_facts(2) by fastforce
  next
    case (SkipE now k' st reason)
    then show ?thesis using no skip_facts(2) [OF inv, of now k' st reason k w] by (simp del: skip_atom.simps) blast
  qed (use no complete_facts(2) recover_facts(2) in simp_all)
qed (rule complete_refused)

section \<open>One row at a time\<close>

lemma find_update_rows:
  assumes "\<And>r. q (f r) = q r"
  shows "find q (update_rows p f rs) = map_option (\<lambda>r. if p r then f r else r) (find q rs)"
  using assms by (induction rs) auto

lemma stage_status_mem: "atom_stage_status k rs = Some r \<Longrightarrow> r \<in> set rs \<and> at_key k r"
  by (simp add: atom_stage_status_def find_SomeD)

lemma claim_status:
  assumes "\<And>r. atom_stage_status k rs = Some r \<Longrightarrow> claimable fp r"
  obtains r where "atom_stage_status k (snd (claim_atom_stage now k fp args rs)) = Some r"
    and "sr_fp r = Some fp" and "sr_attempts r = 0" and "sr_status r = Running"
proof (cases "list_ex (at_key k) rs")
  case False
  obtain f g a s where k: "k = (f, g, a, s)" by (cases k)
  have none: "find (at_key k) rs = None"
    using False by (auto simp: find_None_iff list_ex_iff)
  have app: "find q xs = None \<Longrightarrow> q x \<Longrightarrow> find q (xs @ [x]) = Some x"
    for q and xs :: "stage_row list" and x
    by (induction xs) (auto split: if_splits)
  show ?thesis
  proof (rule that)
    show "atom_stage_status k (snd (claim_atom_stage now k fp args rs))
        = Some \<lparr>sr_file = f, sr_atom = Some a, sr_gen = g, sr_stage = s, sr_status = Running,
            sr_fp = Some fp, sr_impl = Some (ca_impl args), sr_model = ca_model args,
            sr_prompt = ca_prompt args, sr_config = ca_config args, sr_attempts = 0,
            sr_error_code = None, sr_error_message = None, sr_started = Some now,
            sr_updated = now, sr_completed = None\<rparr>"
      using False app [OF none] by (simp add: atom_stage_status_def k)
  qed simp_all
next
  case True
  then have "atom_stage_status k rs \<noteq> None"
    by (auto simp: atom_stage_status_def find_None_iff list_ex_iff)
  then obtain r where r: "atom_stage_status k rs = Some r" by blast
  from claim_update [OF True, of now fp args]
  obtain f where f: "claim_atom_stage now k fp args rs
       = (0 < rowcount (\<lambda>r. at_key k r \<and> claimable fp r) rs,
          update_rows (\<lambda>r. at_key k r \<and> claimable fp r) f rs)"
    "\<And>r k'. at_key k' (f r) = at_key k' r" "\<And>r. sr_fp (f r) = Some fp"
    "\<And>r. sr_status (f r) = Running" "\<And>r. sr_attempts (f r) = 0"
    by blast
  have "find (at_key k) (snd (claim_atom_stage now k fp args rs))
      = map_option (\<lambda>r. if at_key k r \<and> claimable fp r then f r else r) (find (at_key k) rs)"
    unfolding f(1) snd_conv by (rule find_update_rows) (rule f(2))
  then have "atom_stage_status k (snd (claim_atom_stage now k fp args rs)) = Some (f r)"
    using r assms [OF r] stage_status_mem [OF r] by (simp add: atom_stage_status_def)
  then show ?thesis using f(3-5) by (intro that [of "f r"])
qed

lemma complete_status:
  assumes "atom_stage_status k rs = Some r" and "sr_fp r = Some fp"
  shows "\<exists>r'. complete_atom_stage c k fp rs = (True, snd (complete_atom_stage c k fp rs))
     \<and> atom_stage_status k (snd (complete_atom_stage c k fp rs)) = Some r'
     \<and> sr_fp r' = Some fp \<and> sr_attempts r' = cp_attempts c \<and> sr_status r' = cp_status c"
proof -
  let ?f = "\<lambda>r. r\<lparr>sr_status := cp_status c, sr_error_code := cp_error_code c,
     sr_error_message := cp_error_message c, sr_attempts := cp_attempts c, sr_updated := cp_now c,
     sr_completed := (case completed_at c of None \<Rightarrow> sr_completed r | Some t \<Rightarrow> Some t)\<rparr>"
  let ?p = "\<lambda>r. at_key k r \<and> sr_fp r = Some fp"
  have eq: "complete_atom_stage c k fp rs = (0 < rowcount ?p rs, update_rows ?p ?f rs)"
    using assms by (simp add: complete_atom_stage_def Let_def)
  have "at_key k (?f r) = at_key k r" for r :: stage_row by (cases k) simp
  then have "find (at_key k) (update_rows ?p ?f rs)
      = map_option (\<lambda>r. if ?p r then ?f r else r) (find (at_key k) rs)"
    by (rule find_update_rows)
  then show ?thesis
    using assms stage_status_mem [OF assms(1)] unfolding eq
    by (auto simp: atom_stage_status_def rowcount_pos)
qed

lemma mark_status:
  assumes "atom_stage_status (f, g, a, enrich_stage) rs = Some r" and "sr_fp r = Some fp"
  shows "\<exists>r'. atom_stage_status (f, g, a, enrich_stage)
       (snd (mark_proxy_missing_retryable now f g a m rs)) = Some r'
     \<and> sr_fp r' = Some fp \<and> sr_attempts r' = sr_attempts r + 1
     \<and> sr_status r' = (if int (sr_attempts r + 1) > max 1 m then FailedPermanent else FailedRetryable)"
  using assms complete_status [OF assms, of "\<lparr>cp_status = (if int (sr_attempts r + 1) > max 1 m
         then FailedPermanent else FailedRetryable),
       cp_error_code = Some ''proxy_embedding_failed'',
       cp_error_message = Some ''Derived proxy embedding failed; atom reverted for retry'',
       cp_attempts = sr_attempts r + 1, cp_now = now\<rparr>"]
  by (simp add: mark_proxy_missing_retryable_def Let_def case_prod_beta)

text \<open>
  One round of an atom whose provider answer is fine and whose proxy embedding fails: claim,
  completion, and the transition \<open>_write_atom_proxies\<close> makes for a missing vector.
\<close>

definition proxy_round ::
  "nat \<Rightarrow> nat \<Rightarrow> string \<Rightarrow> nat \<Rightarrow> string \<Rightarrow> claim_args \<Rightarrow> int \<Rightarrow> stage_row list \<Rightarrow> stage_row list" where
  "proxy_round now f g a fp args m rs =
     (let k = (f, g, a, enrich_stage);
          rs1 = snd (claim_atom_stage now k fp args rs);
          rs2 = snd (complete_atom_stage \<lparr>cp_status = Succeeded, cp_error_code = None,
                  cp_error_message = None, cp_attempts = 1, cp_now = now\<rparr> k fp rs1)
      in snd (mark_proxy_missing_retryable now f g a m rs2))"

lemma proxy_round_status:
  assumes "\<And>r. atom_stage_status (f, g, a, enrich_stage) rs = Some r \<Longrightarrow> claimable fp r"
    and "2 \<le> m"
  shows "\<exists>r. atom_stage_status (f, g, a, enrich_stage) (proxy_round now f g a fp args m rs) = Some r
     \<and> sr_fp r = Some fp \<and> sr_attempts r = 2 \<and> sr_status r = FailedRetryable"
proof -
  obtain r1 where r1: "atom_stage_status (f, g, a, enrich_stage)
      (snd (claim_atom_stage now (f, g, a, enrich_stage) fp args rs)) = Some r1" "sr_fp r1 = Some fp"
    using claim_status [OF assms(1), where now = now and args = args] by blast
  obtain r2 where r2: "atom_stage_status (f, g, a, enrich_stage)
      (snd (complete_atom_stage \<lparr>cp_status = Succeeded, cp_error_code = None, cp_error_message = None,
         cp_attempts = 1, cp_now = now\<rparr> (f, g, a, enrich_stage) fp
         (snd (claim_atom_stage now (f, g, a, enrich_stage) fp args rs)))) = Some r2"
    "sr_fp r2 = Some fp" "sr_attempts r2 = 1"
    using complete_status [OF r1, of "\<lparr>cp_status = Succeeded, cp_error_code = None,
        cp_error_message = None, cp_attempts = 1, cp_now = now\<rparr>"] by auto
  show ?thesis
    using mark_status [OF r2(1,2), of now m] r2(3) assms(2)
    by (auto simp: proxy_round_def Let_def)
qed

lemma rowcount_le_one:
  "rowcount q rs \<le> 1 \<Longrightarrow> x \<in> set rs \<Longrightarrow> y \<in> set rs \<Longrightarrow> q x \<Longrightarrow> q y \<Longrightarrow> x = y"
proof -
  assume le: "rowcount q rs \<le> 1" and x: "x \<in> set rs" "q x" and y: "y \<in> set rs" "q y"
  have "x \<in> set (filter q rs)" "y \<in> set (filter q rs)" using x y by simp_all
  then show "x = y" using le
    by (cases "filter q rs" rule: remdups_adj.cases) (auto simp: rowcount_def)
qed

lemma claim_leaves_running:
  assumes "claim_atom_stage now k fp args rs = (True, rs')"
  shows "\<exists>x \<in> set rs'. at_key k x \<and> sr_fp x = Some fp \<and> sr_status x = Running"
proof (cases "list_ex (at_key k) rs")
  case False
  then show ?thesis using claim_insert [OF False, of now fp args] assms by auto
next
  case True
  from claim_update [OF True, of now fp args]
  obtain f where f: "claim_atom_stage now k fp args rs
       = (0 < rowcount (\<lambda>r. at_key k r \<and> claimable fp r) rs,
          update_rows (\<lambda>r. at_key k r \<and> claimable fp r) f rs)"
    "\<And>r k'. at_key k' (f r) = at_key k' r" "\<And>r. sr_fp (f r) = Some fp"
    "\<And>r. sr_status (f r) = Running"
    by blast
  then obtain x where x: "x \<in> set rs" "at_key k x" "claimable fp x"
    using assms by (auto simp: rowcount_pos)
  then have "f x \<in> set rs'"
    using assms f(1) in_update_rows [of x rs "\<lambda>r. at_key k r \<and> claimable fp r" f] by simp
  then show ?thesis using f(2-4) x(2) by blast
qed

section \<open>Properties\<close>

text \<open>
  C37 Once the stage row carries another fingerprint, a worker's completion is refused and
  publishes nothing, whatever claims by others, completions, recoveries and skips happen in
  between: neither the stage nor the derived record changes, and the check before the vector
  insert fails.
\<close>

theorem stale_completion_publishes_nothing:
  assumes "stage_inv rs" and "\<not> holds_stage rs (f, g, pk, enrich_stage) w"
    and "\<And>e. e \<in> set es \<Longrightarrow> \<not> grants_stage e (f, g, pk, enrich_stage) w"
    and "stages db = fold run_stage es rs"
  shows "persist_completion now f g pk atom w d aids db = (False, db)
     \<and> \<not> is_atom_stage_current f g pk w (stages db)"
proof -
  have no: "\<not> holds_stage (stages db) (f, g, pk, enrich_stage) w"
    unfolding assms(4) by (rule stage_fence.stays_fenced [OF assms(1-3)])
  then have "persist_completion now f g pk atom w d aids db = (False, db)"
    by (simp add: persist_completion_def complete_refused)
  moreover have "\<not> is_atom_stage_current f g pk w (stages db)"
    using no by (auto simp: is_atom_stage_current_def holds_stage_def split: option.splits
        dest!: stage_status_mem simp del: at_key.simps)
  ultimately show ?thesis by blast
qed

definition demo_claim :: claim_args where
  "demo_claim = \<lparr>ca_impl = ''v1'', ca_model = None, ca_prompt = None, ca_config = None\<rparr>"

definition demo_events :: "stage_event list" where
  "demo_events = [ClaimE 2 (1, ''g'', 9, enrich_stage) ''new'' demo_claim, RecoverE 2 None]"

definition demo_enrich :: enrich_db where
  "demo_enrich = \<lparr>stages = fold run_stage demo_events [], atoms = [], derived = []\<rparr>"

theorem stale_completion_publishes_nothing_witness:
  "persist_completion 3 1 ''g'' 9 ''atom'' ''old'' ''text'' [] demo_enrich = (False, demo_enrich)
   \<and> \<not> is_atom_stage_current 1 ''g'' 9 ''old'' (stages demo_enrich)"
proof (rule stale_completion_publishes_nothing [where rs = "[]" and es = demo_events])
  show "\<not> grants_stage e (1, ''g'', 9, enrich_stage) ''old''" if "e \<in> set demo_events" for e
    using that by (auto simp: demo_events_def)
qed (simp_all add: stage_inv_def holds_stage_def rowcount_def demo_enrich_def)

text \<open>
  Two workers never both win the same atom and fingerprint: after a successful claim a
  second claim with the same fingerprint fails and leaves the row to its owner.
\<close>

theorem claim_exclusive:
  assumes "stage_inv rs" and "claim_atom_stage now k fp args rs = (True, rs')"
  shows "claim_atom_stage now' k fp args' rs' = (False, rs')"
proof -
  have inv: "stage_inv rs'" using claim_facts(1) [OF assms(1)] assms(2) by (metis snd_conv)
  obtain x where x: "x \<in> set rs'" "at_key k x" "sr_fp x = Some fp" "sr_status x = Running"
    using claim_leaves_running [OF assms(2)] by blast
  have "\<not> (at_key k y \<and> claimable fp y)" if "y \<in> set rs'" for y
    using rowcount_le_one [of "at_key k" rs' x y] inv x that
    by (auto simp: stage_inv_def claimable_def simp del: split_paired_All at_key.simps)
  then have none: "rowcount (\<lambda>r. at_key k r \<and> claimable fp r) rs' = 0"
    "update_rows (\<lambda>r. at_key k r \<and> claimable fp r) h rs' = rs'" for h
    by (simp_all add: rowcount_zero update_rows_none)
  have "list_ex (at_key k) rs'" using x by (auto simp: list_ex_iff)
  from claim_update [OF this, of now' fp args'] show ?thesis using none by auto
qed

theorem claim_exclusive_witness:
  "claim_atom_stage 2 (1, ''g'', 9, enrich_stage) ''fp'' demo_claim
     (snd (claim_atom_stage 1 (1, ''g'', 9, enrich_stage) ''fp'' demo_claim []))
   = (False, snd (claim_atom_stage 1 (1, ''g'', 9, enrich_stage) ''fp'' demo_claim []))"
  by (rule claim_exclusive [of "[]" 1]) (simp_all add: stage_inv_def rowcount_def)

text \<open>
  C40 With a limit of at least two attempts a new atom whose proxy embedding keeps failing is
  never settled: the claim resets the attempt counter and the completion sets it to one, so
  the row is \<open>failed_retryable\<close> with two attempts after every round, however many there are.
  The docstring of \<open>mark_proxy_missing_retryable\<close> promises \<open>failed_permanent\<close> past the limit;
  only with a limit below two does the row get there.
\<close>

theorem failing_proxy_never_permanent:
  assumes "2 \<le> m" and "atom_stage_status (f, g, a, enrich_stage) rs = None"
  shows "map_option (\<lambda>r. (sr_status r, sr_attempts r)) (atom_stage_status (f, g, a, enrich_stage)
       ((proxy_round now f g a fp args m ^^ Suc n) rs)) = Some (FailedRetryable, 2)"
proof -
  have "\<exists>r. atom_stage_status (f, g, a, enrich_stage)
         ((proxy_round now f g a fp args m ^^ Suc n) rs) = Some r
     \<and> sr_fp r = Some fp \<and> sr_attempts r = 2 \<and> sr_status r = FailedRetryable"
  proof (induction n)
    case 0
    then show ?case using proxy_round_status [of f g a rs fp m now args] assms by simp
  next
    case (Suc n)
    then show ?case
      using proxy_round_status [of f g a "(proxy_round now f g a fp args m ^^ Suc n) rs" fp m now args]
        assms(1)
      by (auto simp: claimable_def)
  qed
  then show ?thesis by auto
qed

theorem failing_proxy_never_permanent_witness:
  "map_option (\<lambda>r. (sr_status r, sr_attempts r)) (atom_stage_status (1, ''g'', 9, enrich_stage)
       ((proxy_round 0 1 ''g'' 9 ''fp'' demo_claim 3 ^^ Suc 9) [])) = Some (FailedRetryable, 2)"
  by (rule failing_proxy_never_permanent) (simp_all add: atom_stage_status_def)

end
