(* ===== verification/Draft_Room.thy ===== *)
theory Draft_Room
  imports Prelude
begin

text \<open>
  The Draft Room: \<^verbatim>\<open>backend/app/services/draft_store.py\<close>, the compile, apply and ready
  transactions of \<^verbatim>\<open>api/routes/draft_room.py\<close>, and the settling writes of
  \<^verbatim>\<open>draft_pipeline.py\<close> and \<^verbatim>\<open>draft_job_processor.py\<close>. Every operation is one
  \<open>BEGIN IMMEDIATE\<close> transaction and rolls back when it raises, so it is a function that
  either fails or returns the new tables. The audit rows of \<open>draft_events\<close>, the timestamps
  nothing decides on and the files on disk are left out; SHA-256 and the evidence pass are
  parameters.
\<close>

section \<open>Status tables\<close>

datatype draft_status =
  SDraft | SQueued | SRunning | SNeedsReview | SReady | SFailed | SCancelled | SArchived

datatype draft_job_status = DPending | DRunning | DCompleted | DFailed | DCancelled

datatype input_status = IPending | IParsing | IReady | IFailed | ICancelled

datatype finding_status = FOpen | FApplied | FDismissed | FWaived | FResolvedByRevision

datatype fact_status = NotRun | FactRunning | FactPassed | FactFindings | FactInvalidated

fun draft_transitions :: "draft_status \<Rightarrow> draft_status list" where
  "draft_transitions SDraft = [SQueued, SNeedsReview, SArchived]"
| "draft_transitions SQueued = [SRunning, SFailed, SCancelled]"
| "draft_transitions SRunning = [SNeedsReview, SFailed, SCancelled]"
| "draft_transitions SNeedsReview = [SQueued, SReady, SArchived]"
| "draft_transitions SReady = [SNeedsReview, SArchived]"
| "draft_transitions SFailed = [SQueued, SNeedsReview, SArchived]"
| "draft_transitions SCancelled = [SQueued, SNeedsReview, SArchived]"
| "draft_transitions SArchived = [SDraft, SNeedsReview]"

fun draft_recovery_transitions :: "draft_status \<Rightarrow> draft_status list" where
  "draft_recovery_transitions SRunning = [SQueued]"
| "draft_recovery_transitions _ = []"

fun job_transitions :: "draft_job_status \<Rightarrow> draft_job_status list" where
  "job_transitions DPending = [DRunning, DCancelled]"
| "job_transitions DRunning = [DCompleted, DFailed, DCancelled]"
| "job_transitions _ = []"

fun job_recovery_transitions :: "draft_job_status \<Rightarrow> draft_job_status list" where
  "job_recovery_transitions DRunning = [DPending]"
| "job_recovery_transitions _ = []"

fun input_transitions :: "input_status \<Rightarrow> input_status list" where
  "input_transitions IPending = [IParsing, IFailed, ICancelled]"
| "input_transitions IParsing = [IReady, IFailed, ICancelled]"
| "input_transitions IReady = []"
| "input_transitions IFailed = [IPending]"
| "input_transitions ICancelled = [IPending]"

fun input_recovery_transitions :: "input_status \<Rightarrow> input_status list" where
  "input_recovery_transitions IParsing = [IPending]"
| "input_recovery_transitions _ = []"

fun finding_transitions :: "finding_status \<Rightarrow> finding_status list" where
  "finding_transitions FOpen = [FApplied, FDismissed, FWaived, FResolvedByRevision]"
| "finding_transitions _ = []"

definition transition_ok ::
  "'s \<Rightarrow> 's \<Rightarrow> ('s \<Rightarrow> 's list) \<Rightarrow> ('s \<Rightarrow> 's list) \<Rightarrow> bool \<Rightarrow> bool" where
  "transition_ok current target table recovery allow_recovery \<longleftrightarrow>
     target = current \<or> target \<in> set (table current)
     \<or> allow_recovery \<and> target \<in> set (recovery current)"

definition draft_move_ok :: "draft_status \<Rightarrow> draft_status \<Rightarrow> bool" where
  "draft_move_ok current target =
     transition_ok current target draft_transitions draft_recovery_transitions False"

section \<open>Rows\<close>

record draft_row =
  dr_id :: nat
  dr_vault :: nat
  dr_owner :: nat
  dr_title :: pystr
  dr_mode :: string
  dr_status :: draft_status
  dr_tier :: string
  dr_brief :: string
  dr_lock :: int
  dr_ready_rev :: "nat option"
  dr_ready_by :: "nat option"
  dr_archived :: bool

record input_row =
  in_id :: nat
  in_draft :: nat
  in_role :: string
  in_authority :: string
  in_as_of :: "string option"
  in_size :: int
  in_sha :: string
  in_text :: "pystr option"
  in_status :: input_status
  in_error :: "string option"
  in_locked_spans :: string

record revision_row =
  rv_id :: nat
  rv_draft :: nat
  rv_parent :: "nat option"
  rv_job :: "nat option"
  rv_no :: nat
  rv_source :: string
  rv_content :: pystr
  rv_sha :: string
  rv_source_only :: bool   \<comment> \<open>what \<open>qa_summary_json\<close> is read for\<close>
  rv_fact :: fact_status
  rv_current :: bool
  rv_by :: "nat option"

datatype job_type = ParseInput | Compile

record draft_job =
  dj_id :: nat
  dj_draft :: nat
  dj_owner :: nat
  dj_type :: job_type
  dj_input :: "nat option"
  dj_parent :: "nat option"
  dj_attempt_no :: nat
  dj_key :: "string option"
  dj_status :: draft_job_status
  dj_base :: "nat option"
  dj_output :: "nat option"
  dj_fingerprint :: "string option"   \<comment> \<open>\<open>request_fingerprint\<close> and \<open>inputs\<close> of \<open>input_json\<close>\<close>
  dj_snapshot :: "nat list"
  dj_retry_count :: nat
  dj_cancel_requested :: bool
  dj_heartbeat :: "int option"
  dj_worker :: "string option"
  dj_generation :: nat
  dj_attempts :: nat
  dj_error :: "string option"
  dj_created :: int

record finding_row =
  fn_id :: nat
  fn_draft :: nat
  fn_revision :: "nat option"
  fn_job :: "nat option"
  fn_rule :: string
  fn_rule_version :: string
  fn_severity :: string
  fn_status :: finding_status
  fn_waivable :: bool
  fn_suggestion :: "pystr option"
  fn_start :: "int option"
  fn_end :: "int option"
  fn_span_sha :: "string option"
  fn_resolved_by :: "nat option"
  fn_note :: "pystr option"
  fn_waiver_version :: "string option"
  fn_waiver_sha :: "string option"

text \<open>
  The pipeline's own ledger is read here and written by it alone: the claims of a revision
  with their verdict, the completed Fact attempts of a job with the candidate they checked,
  and the evidence of a job that cites an input.
\<close>

record draft_db =
  drafts :: "draft_row list"
  inputs :: "input_row list"
  revisions :: "revision_row list"
  djobs :: "draft_job list"
  findings :: "finding_row list"
  claims :: "(nat \<times> string) list"
  fact_stages :: "(nat \<times> nat \<times> string option) list"
  evidence :: "(nat \<times> nat) list"
  next_draft :: nat
  next_input :: nat
  next_revision :: nat
  next_job :: nat
  next_finding :: nat

datatype draft_error =
  NotFound | Conflict string | Validation | LimitExceeded | LeaseLost | NotApplicable
| CompileFailure | IntegrityError

section \<open>Projects\<close>

definition coalesce :: "'a option \<Rightarrow> 'a \<Rightarrow> 'a" where
  "coalesce x y = (case x of None \<Rightarrow> y | Some z \<Rightarrow> z)"

definition draft_at :: "nat \<Rightarrow> nat \<Rightarrow> draft_row \<Rightarrow> bool" where
  "draft_at i owner d \<longleftrightarrow> dr_id d = i \<and> dr_owner d = owner"

definition update_drafts ::
  "(draft_row \<Rightarrow> bool) \<Rightarrow> (draft_row \<Rightarrow> draft_row) \<Rightarrow> draft_db \<Rightarrow> draft_db" where
  "update_drafts p f db = db\<lparr>drafts := update_rows p f (drafts db)\<rparr>"

definition draft_status_of :: "draft_db \<Rightarrow> nat \<Rightarrow> draft_status option" where
  "draft_status_of db i = map_option dr_status (find (\<lambda>d. dr_id d = i) (drafts db))"

definition locked_draft ::
  "draft_db \<Rightarrow> nat \<Rightarrow> nat \<Rightarrow> int option \<Rightarrow> draft_error + draft_row" where
  "locked_draft db i owner lock =
     (case find (draft_at i owner) (drafts db) of
        None \<Rightarrow> Inl NotFound
      | Some d \<Rightarrow>
          if lock \<noteq> None \<and> lock \<noteq> Some (dr_lock d) then Inl (Conflict ''stale_lock_version'')
          else Inr d)"

definition active_job :: "draft_job \<Rightarrow> bool" where
  "active_job j \<longleftrightarrow> dj_status j = DPending \<or> dj_status j = DRunning"

definition active_compile :: "draft_job \<Rightarrow> bool" where
  "active_compile j \<longleftrightarrow> dj_type j = Compile \<and> active_job j"

definition has_active_compile :: "draft_db \<Rightarrow> nat \<Rightarrow> bool" where
  "has_active_compile db i \<longleftrightarrow> list_ex (\<lambda>j. dj_draft j = i \<and> active_compile j) (djobs db)"

definition has_active_job :: "draft_db \<Rightarrow> nat \<Rightarrow> bool" where
  "has_active_job db i \<longleftrightarrow> list_ex (\<lambda>j. dj_draft j = i \<and> active_job j) (djobs db)"

definition current_revision :: "draft_db \<Rightarrow> nat \<Rightarrow> revision_row option" where
  "current_revision db i = find (\<lambda>v. rv_draft v = i \<and> rv_current v) (revisions db)"

definition clear_ready :: "draft_row \<Rightarrow> draft_row" where
  "clear_ready d = d\<lparr>dr_ready_rev := None, dr_ready_by := None\<rparr>"

definition bump_lock :: "draft_row \<Rightarrow> draft_row" where
  "bump_lock d = d\<lparr>dr_lock := dr_lock d + 1\<rparr>"

definition valid_title :: "pystr \<Rightarrow> bool" where
  "valid_title t \<longleftrightarrow> t \<noteq> [] \<and> length t \<le> 300"

definition draft_tiers :: "string list" where
  "draft_tiers = [''standard'', ''high_stakes'', ''sensitive'']"

definition create_draft ::
  "nat \<Rightarrow> nat \<Rightarrow> pystr \<Rightarrow> string \<Rightarrow> string \<Rightarrow> string \<Rightarrow> draft_db \<Rightarrow> draft_error + draft_db" where
  "create_draft vault owner title0 mode tier brief db =
     (let title = py_strip title0 in
      if \<not> valid_title title then Inl Validation
      else if mode \<notin> {''rewrite'', ''compose''} then Inl Validation
      else if tier \<notin> set draft_tiers then Inl Validation
      else Inr (db\<lparr>drafts := drafts db @
             [\<lparr>dr_id = next_draft db, dr_vault = vault, dr_owner = owner, dr_title = title,
               dr_mode = mode, dr_status = SDraft, dr_tier = tier, dr_brief = brief,
               dr_lock = 1, dr_ready_rev = None, dr_ready_by = None, dr_archived = False\<rparr>],
           next_draft := Suc (next_draft db)\<rparr>))"

text \<open>
  \<open>_invalidate_ready_on_material_change\<close>, inside the caller's transaction: \<open>d\<close> is the row
  the transaction read before its own writes.
\<close>

definition invalidate_ready :: "draft_row \<Rightarrow> nat \<Rightarrow> draft_db \<Rightarrow> draft_error + draft_db" where
  "invalidate_ready d owner db =
     (if dr_status d \<noteq> SNeedsReview \<and> \<not> draft_move_ok (dr_status d) SNeedsReview
        then Inl (Conflict ''invalid_transition'')
      else Inr (update_drafts (draft_at (dr_id d) owner)
                  (\<lambda>d. clear_ready (d\<lparr>dr_status := SNeedsReview\<rparr>)) db))"

definition update_draft ::
  "nat \<Rightarrow> nat \<Rightarrow> int \<Rightarrow> pystr option \<Rightarrow> string option \<Rightarrow> string option \<Rightarrow> draft_db
   \<Rightarrow> draft_error + draft_db" where
  "update_draft i owner lock title0 brief tier db =
     (let title = map_option py_strip title0 in
      if tier \<noteq> None \<and> the tier \<notin> set draft_tiers then Inl Validation
      else if title \<noteq> None \<and> \<not> valid_title (the title) then Inl Validation
      else case locked_draft db i owner (Some lock) of
        Inl e \<Rightarrow> Inl e
      | Inr d \<Rightarrow>
          if dr_status d = SArchived then Inl (Conflict ''invalid_transition'')
          else if has_active_compile db i then Inl (Conflict ''active_job'')
          else (let db' = update_drafts (draft_at i owner)
                      (\<lambda>d. bump_lock (d\<lparr>dr_title := coalesce title (dr_title d),
                             dr_brief := coalesce brief (dr_brief d),
                             dr_tier := coalesce tier (dr_tier d)\<rparr>)) db
                in if dr_ready_rev d \<noteq> None
                      \<and> (brief \<noteq> None \<and> brief \<noteq> Some (dr_brief d)
                         \<or> tier \<noteq> None \<and> tier \<noteq> Some (dr_tier d))
                   then invalidate_ready d owner db' else Inr db'))"

definition archive_draft :: "nat \<Rightarrow> nat \<Rightarrow> int \<Rightarrow> draft_db \<Rightarrow> draft_error + draft_db" where
  "archive_draft i owner lock db =
     (case locked_draft db i owner (Some lock) of
        Inl e \<Rightarrow> Inl e
      | Inr d \<Rightarrow>
          if \<not> draft_move_ok (dr_status d) SArchived then Inl (Conflict ''invalid_transition'')
          else if has_active_job db i then Inl (Conflict ''conflict'')
          else Inr (update_drafts (draft_at i owner)
                      (\<lambda>d. bump_lock (clear_ready (d\<lparr>dr_status := SArchived,
                                                    dr_archived := True\<rparr>))) db))"

definition restore_draft :: "nat \<Rightarrow> nat \<Rightarrow> int \<Rightarrow> draft_db \<Rightarrow> draft_error + draft_db" where
  "restore_draft i owner lock db =
     (case locked_draft db i owner (Some lock) of
        Inl e \<Rightarrow> Inl e
      | Inr d \<Rightarrow>
          if dr_status d \<noteq> SArchived then Inl (Conflict ''invalid_transition'')
          else (let target = (if current_revision db i \<noteq> None then SNeedsReview else SDraft)
                in if \<not> draft_move_ok (dr_status d) target
                     then Inl (Conflict ''invalid_transition'')
                   else Inr (update_drafts (draft_at i owner)
                          (\<lambda>d. bump_lock (clear_ready (d\<lparr>dr_status := target,
                                                        dr_archived := False\<rparr>))) db)))"

text \<open>
  Deleting the row takes its children along (foreign keys). The ledger rows of its jobs and
  revisions go too; ids are never reused, so keeping them here changes no later read.
\<close>

definition delete_draft_row :: "nat \<Rightarrow> nat \<Rightarrow> draft_db \<Rightarrow> draft_error + draft_db" where
  "delete_draft_row i owner db =
     (if find (draft_at i owner) (drafts db) = None then Inl NotFound
      else Inr (db\<lparr>drafts := filter (\<lambda>d. \<not> draft_at i owner d) (drafts db),
           inputs := filter (\<lambda>x. in_draft x \<noteq> i) (inputs db),
           revisions := filter (\<lambda>v. rv_draft v \<noteq> i) (revisions db),
           djobs := filter (\<lambda>j. dj_draft j \<noteq> i) (djobs db),
           findings := filter (\<lambda>f. fn_draft f \<noteq> i) (findings db)\<rparr>))"

definition cancel_pending_jobs :: "nat \<Rightarrow> nat \<Rightarrow> draft_db \<Rightarrow> draft_error + nat \<times> draft_db" where
  "cancel_pending_jobs i owner db =
     (case locked_draft db i owner None of
        Inl e \<Rightarrow> Inl e
      | Inr _ \<Rightarrow>
          (let hit = (\<lambda>j. dj_draft j = i \<and> dj_status j = DPending)
           in Inr (rowcount hit (djobs db),
                   db\<lparr>djobs := update_rows hit (\<lambda>j. j\<lparr>dj_status := DCancelled,
                         dj_cancel_requested := True\<rparr>) (djobs db)\<rparr>)))"

section \<open>Inputs\<close>

definition input_roles :: "string list" where
  "input_roles = [''manuscript'', ''reference'', ''style'', ''background'', ''challenge'']"

definition input_authorities :: "string list" where
  "input_authorities = [''primary'', ''official'', ''secondary'', ''user_asserted'', ''unknown'']"

definition input_at :: "nat \<Rightarrow> nat \<Rightarrow> input_row \<Rightarrow> bool" where
  "input_at n i x \<longleftrightarrow> in_id x = n \<and> in_draft x = i"

definition update_inputs ::
  "(input_row \<Rightarrow> bool) \<Rightarrow> (input_row \<Rightarrow> input_row) \<Rightarrow> draft_db \<Rightarrow> draft_db" where
  "update_inputs p f db = db\<lparr>inputs := update_rows p f (inputs db)\<rparr>"

definition update_jobs ::
  "(draft_job \<Rightarrow> bool) \<Rightarrow> (draft_job \<Rightarrow> draft_job) \<Rightarrow> draft_db \<Rightarrow> draft_db" where
  "update_jobs p f db = db\<lparr>djobs := update_rows p f (djobs db)\<rparr>"

definition reserve_input ::
  "nat \<Rightarrow> nat \<Rightarrow> string \<Rightarrow> string \<Rightarrow> string option \<Rightarrow> int \<Rightarrow> string \<Rightarrow> nat \<Rightarrow> int \<Rightarrow> draft_db
   \<Rightarrow> draft_error + nat \<times> draft_db" where
  "reserve_input i owner role authority as_of bytes sha max_inputs max_bytes db =
     (if role \<notin> set input_roles then Inl Validation
      else if authority \<notin> set input_authorities then Inl Validation
      else if bytes < 0 then Inl Validation
      else case locked_draft db i owner None of
        Inl e \<Rightarrow> Inl e
      | Inr d \<Rightarrow>
          (let mine = filter (\<lambda>x. in_draft x = i) (inputs db) in
           if dr_status d = SArchived then Inl (Conflict ''invalid_transition'')
           else if has_active_compile db i then Inl (Conflict ''active_job'')
           else if list_ex (\<lambda>x. in_sha x = sha) mine then Inl (Conflict ''duplicate_input'')
           else if length mine \<ge> max_inputs then Inl LimitExceeded
           else if sum_list (map in_size mine) + bytes > max_bytes then Inl LimitExceeded
           else Inr (next_input db, db\<lparr>inputs := inputs db @
                [\<lparr>in_id = next_input db, in_draft = i, in_role = role, in_authority = authority,
                  in_as_of = as_of, in_size = bytes, in_sha = sha, in_text = None,
                  in_status = IPending, in_error = None, in_locked_spans = ''[]''\<rparr>],
              next_input := Suc (next_input db)\<rparr>)))"

definition update_input_metadata ::
  "nat \<Rightarrow> nat \<Rightarrow> nat \<Rightarrow> string option \<Rightarrow> string option \<Rightarrow> string option \<Rightarrow> bool \<Rightarrow> string option
   \<Rightarrow> draft_db \<Rightarrow> draft_error + draft_db" where
  "update_input_metadata i owner n role authority as_of clear spans db =
     (if role \<noteq> None \<and> the role \<notin> set input_roles then Inl Validation
      else if authority \<noteq> None \<and> the authority \<notin> set input_authorities then Inl Validation
      else case locked_draft db i owner None of
        Inl e \<Rightarrow> Inl e
      | Inr d \<Rightarrow>
          if dr_status d = SArchived then Inl (Conflict ''invalid_transition'')
          else if has_active_compile db i then Inl (Conflict ''active_job'')
          else case find (input_at n i) (inputs db) of
            None \<Rightarrow> Inl NotFound
          | Some x \<Rightarrow>
              (let db' = update_inputs (input_at n i)
                     (\<lambda>x. x\<lparr>in_role := coalesce role (in_role x),
                           in_authority := coalesce authority (in_authority x),
                           in_as_of := (case as_of of Some a \<Rightarrow> Some a
                                        | None \<Rightarrow> if clear then None else in_as_of x),
                           in_locked_spans := coalesce spans (in_locked_spans x)\<rparr>) db;
                   changed = (role \<noteq> None \<and> role \<noteq> Some (in_role x)
                     \<or> authority \<noteq> None \<and> authority \<noteq> Some (in_authority x)
                     \<or> as_of \<noteq> None \<and> as_of \<noteq> in_as_of x
                     \<or> clear \<and> in_as_of x \<noteq> None
                     \<or> spans \<noteq> None \<and> spans \<noteq> Some (in_locked_spans x))
               in if dr_ready_rev d \<noteq> None \<and> changed then invalidate_ready d owner db'
                  else Inr db'))"

definition set_input_parse_status ::
  "nat \<Rightarrow> input_status \<Rightarrow> pystr option \<Rightarrow> string option \<Rightarrow> bool \<Rightarrow> draft_db
   \<Rightarrow> draft_error + draft_db" where
  "set_input_parse_status n target text err allow_recovery db =
     (case find (\<lambda>x. in_id x = n) (inputs db) of
        None \<Rightarrow> Inl NotFound
      | Some x \<Rightarrow>
          if \<not> transition_ok (in_status x) target input_transitions input_recovery_transitions
                  allow_recovery
            then Inl (Conflict ''invalid_transition'')
          else Inr (update_inputs (\<lambda>x. in_id x = n)
                 (\<lambda>x. x\<lparr>in_status := target,
                       in_text := (case text of None \<Rightarrow> in_text x | Some s \<Rightarrow> Some s),
                       in_error := err\<rparr>) db))"

definition terminal_job :: "draft_job \<Rightarrow> bool" where
  "terminal_job j \<longleftrightarrow> \<not> active_job j"

definition input_is_in_use :: "draft_db \<Rightarrow> nat \<Rightarrow> nat \<Rightarrow> bool" where
  "input_is_in_use db i n \<longleftrightarrow>
     list_ex (\<lambda>j. dj_draft j = i \<and> dj_type j = Compile \<and> terminal_job j
        \<and> ((dj_id j, n) \<in> set (evidence db) \<or> n \<in> set (dj_snapshot j) \<or> dj_input j = Some n))
       (djobs db)
     \<or> list_ex (\<lambda>v. rv_draft v = i
          \<and> list_ex (\<lambda>j. rv_job v = Some (dj_id j) \<and> dj_input j = Some n) (djobs db))
       (revisions db)"

definition active_parse :: "draft_db \<Rightarrow> nat \<Rightarrow> bool" where
  "active_parse db n \<longleftrightarrow>
     list_ex (\<lambda>j. dj_type j = ParseInput \<and> active_job j \<and> dj_input j = Some n) (djobs db)"

text \<open>
  The delete cascades to the input's parse jobs; an evidence row citing the input makes it
  fail (its \<open>ON DELETE SET NULL\<close> violates the table's CHECK).
\<close>

definition delete_input_row ::
  "nat \<Rightarrow> nat \<Rightarrow> nat \<Rightarrow> bool \<Rightarrow> draft_db \<Rightarrow> draft_error + draft_db" where
  "delete_input_row i owner n best_effort db =
     (case locked_draft db i owner None of
        Inl e \<Rightarrow> Inl e
      | Inr _ \<Rightarrow>
          if \<not> best_effort \<and> (input_is_in_use db i n \<or> active_parse db n)
            then Inl (Conflict ''input_in_use'')
          else if \<not> best_effort \<and> has_active_compile db i then Inl (Conflict ''active_job'')
          else if find (input_at n i) (inputs db) = None then Inl NotFound
          else if n \<in> snd ` set (evidence db) then Inl (Conflict ''input_in_use'')
          else Inr (db\<lparr>inputs := filter (\<lambda>x. \<not> input_at n i x) (inputs db),
                       djobs := filter (\<lambda>j. dj_input j \<noteq> Some n) (djobs db)\<rparr>))"

section \<open>Jobs\<close>

definition fresh_draft_job :: "nat \<Rightarrow> nat \<Rightarrow> nat \<Rightarrow> job_type \<Rightarrow> int \<Rightarrow> draft_job" where
  "fresh_draft_job j i owner ty now =
     \<lparr>dj_id = j, dj_draft = i, dj_owner = owner, dj_type = ty, dj_input = None,
      dj_parent = None, dj_attempt_no = 1, dj_key = None, dj_status = DPending,
      dj_base = None, dj_output = None, dj_fingerprint = None, dj_snapshot = [],
      dj_retry_count = 0, dj_cancel_requested = False, dj_heartbeat = None, dj_worker = None,
      dj_generation = 0, dj_attempts = 0, dj_error = None, dj_created = now\<rparr>"

definition add_job :: "draft_job \<Rightarrow> draft_db \<Rightarrow> draft_db" where
  "add_job j db = db\<lparr>djobs := djobs db @ [j], next_job := Suc (next_job db)\<rparr>"

text \<open>The partial unique index allows one active parse job per input.\<close>

definition insert_parse_job ::
  "draft_row \<Rightarrow> nat \<Rightarrow> nat option \<Rightarrow> nat \<Rightarrow> int \<Rightarrow> draft_db \<Rightarrow> draft_error + draft_db" where
  "insert_parse_job d n parent attempt_no now db =
     (if active_parse db n then Inl (Conflict ''conflict'')
      else Inr (add_job ((fresh_draft_job (next_job db) (dr_id d) (dr_owner d) ParseInput now)
             \<lparr>dj_input := Some n, dj_parent := parent, dj_attempt_no := attempt_no\<rparr>) db))"

definition enqueue_parse_job ::
  "nat \<Rightarrow> nat \<Rightarrow> nat \<Rightarrow> int \<Rightarrow> draft_db \<Rightarrow> draft_error + draft_db" where
  "enqueue_parse_job i owner n now db =
     (case locked_draft db i owner None of
        Inl e \<Rightarrow> Inl e
      | Inr d \<Rightarrow>
          if find (input_at n i) (inputs db) = None then Inl NotFound
          else insert_parse_job d n None 1 now db)"

definition job_at :: "nat \<Rightarrow> nat \<Rightarrow> draft_job \<Rightarrow> bool" where
  "job_at j i r \<longleftrightarrow> dj_id r = j \<and> dj_draft r = i"

definition retry_parse_job ::
  "nat \<Rightarrow> nat \<Rightarrow> nat \<Rightarrow> int \<Rightarrow> draft_db \<Rightarrow> draft_error + draft_db" where
  "retry_parse_job i owner j now db =
     (case locked_draft db i owner None of
        Inl e \<Rightarrow> Inl e
      | Inr d \<Rightarrow>
          (case find (job_at j i) (djobs db) of
             None \<Rightarrow> Inl NotFound
           | Some r \<Rightarrow>
               if dj_type r \<noteq> ParseInput then Inl Validation
               else if dj_status r \<noteq> DFailed \<and> dj_status r \<noteq> DCancelled
                 then Inl (Conflict ''conflict'')
               else (case dj_input r of
                  None \<Rightarrow> Inl Validation
                | Some n \<Rightarrow>
                    (case find (input_at n i) (inputs db) of
                       None \<Rightarrow> Inl NotFound
                     | Some x \<Rightarrow>
                         if \<not> transition_ok (in_status x) IPending input_transitions
                                 input_recovery_transitions False
                           then Inl (Conflict ''invalid_transition'')
                         else insert_parse_job d n (Some j) (dj_attempt_no r + 1) now
                                (update_inputs (\<lambda>x. in_id x = n)
                                   (\<lambda>x. x\<lparr>in_status := IPending, in_error := None\<rparr>) db)))))"

definition enqueue_parse_job_for_recovery :: "nat \<Rightarrow> int \<Rightarrow> draft_db \<Rightarrow> nat option \<times> draft_db" where
  "enqueue_parse_job_for_recovery n now db =
     (case find (\<lambda>x. in_id x = n) (inputs db) of
        None \<Rightarrow> (None, db)
      | Some x \<Rightarrow>
          (case find (\<lambda>d. dr_id d = in_draft x) (drafts db) of
             None \<Rightarrow> (None, db)
           | Some d \<Rightarrow>
               (case insert_parse_job d n None 1 now db of
                  Inl _ \<Rightarrow> (None, db)
                | Inr db' \<Rightarrow> (Some (next_job db), db'))))"

text \<open>
  Claiming: the oldest pending job of the type. \<open>w\<close> is the worker id in lease mode, where
  the shared \<open>JobLease\<close> claim also records the owner and counts the attempt, and \<open>None\<close> in
  legacy mode. Rows are kept in id order, so the stable sort breaks ties by id.
\<close>

definition claim_job ::
  "job_type \<Rightarrow> string option \<Rightarrow> int \<Rightarrow> draft_db \<Rightarrow> (draft_job \<times> draft_db) option" where
  "claim_job ty w now db =
     (case sort_key dj_created (filter (\<lambda>j. dj_status j = DPending \<and> dj_type j = ty) (djobs db)) of
        [] \<Rightarrow> None
      | c # _ \<Rightarrow>
          (let claimed = (\<lambda>j. case w of
                  None \<Rightarrow> j\<lparr>dj_status := DRunning, dj_heartbeat := Some now\<rparr>
                | Some _ \<Rightarrow> j\<lparr>dj_status := DRunning, dj_heartbeat := Some now, dj_worker := w,
                      dj_generation := dj_generation j + 1, dj_attempts := dj_attempts j + 1\<rparr>)
           in Some (claimed c, update_jobs (\<lambda>j. dj_id j = dj_id c \<and> dj_status j = DPending)
                                 claimed db)))"

definition claim_next_parse_job ::
  "string option \<Rightarrow> int \<Rightarrow> draft_db \<Rightarrow> draft_job option \<times> draft_db" where
  "claim_next_parse_job w now db =
     (case claim_job ParseInput w now db of None \<Rightarrow> (None, db) | Some (c, db') \<Rightarrow> (Some c, db'))"

definition mark_draft_running :: "nat \<Rightarrow> draft_db \<Rightarrow> draft_db" where
  "mark_draft_running i db =
     (if draft_status_of db i = Some SQueued
      then update_drafts (\<lambda>d. dr_id d = i) (\<lambda>d. d\<lparr>dr_status := SRunning\<rparr>) db else db)"

definition claim_next_compile_job ::
  "string option \<Rightarrow> int \<Rightarrow> draft_db \<Rightarrow> draft_job option \<times> draft_db" where
  "claim_next_compile_job w now db =
     (case claim_job Compile w now db of
        None \<Rightarrow> (None, db)
      | Some (c, db') \<Rightarrow> (Some c, mark_draft_running (dj_draft c) db'))"

text \<open>
  \<open>set_job_status\<close>: the transition is checked on the status just read, the fence only in
  the \<open>WHERE\<close> clause of the write. An empty worker id is no fence.
\<close>

definition job_fence :: "nat \<Rightarrow> string option \<Rightarrow> draft_job \<Rightarrow> bool" where
  "job_fence j w r \<longleftrightarrow> dj_id r = j
     \<and> (w = None \<or> w = Some '''' \<or> dj_worker r = w \<and> dj_status r = DRunning)"

definition set_job_status ::
  "nat \<Rightarrow> draft_job_status \<Rightarrow> string option \<Rightarrow> bool \<Rightarrow> string option \<Rightarrow> int \<Rightarrow> draft_db
   \<Rightarrow> draft_error + draft_db" where
  "set_job_status j target err allow_recovery w now db =
     (case find (\<lambda>r. dj_id r = j) (djobs db) of
        None \<Rightarrow> Inl NotFound
      | Some r \<Rightarrow>
          if \<not> transition_ok (dj_status r) target job_transitions job_recovery_transitions
                  allow_recovery
            then Inl (Conflict ''invalid_transition'')
          else if rowcount (job_fence j w) (djobs db) = 0 then Inl LeaseLost
          else Inr (update_jobs (job_fence j w)
                 (\<lambda>r. r\<lparr>dj_status := target, dj_error := err, dj_heartbeat := Some now\<rparr>) db))"

definition request_job_cancel :: "nat \<Rightarrow> nat \<Rightarrow> nat \<Rightarrow> draft_db \<Rightarrow> draft_error + draft_db" where
  "request_job_cancel i owner j db =
     (case locked_draft db i owner None of
        Inl e \<Rightarrow> Inl e
      | Inr _ \<Rightarrow>
          (case find (job_at j i) (djobs db) of
             None \<Rightarrow> Inl NotFound
           | Some r \<Rightarrow>
               if terminal_job r then Inl (Conflict ''conflict'')
               else if dj_status r = DPending then
                 (let db1 = update_jobs (\<lambda>r. dj_id r = j)
                        (\<lambda>r. r\<lparr>dj_status := DCancelled, dj_cancel_requested := True\<rparr>) db
                  in Inr (if dj_type r = Compile
                             \<and> draft_status_of db i \<in> {Some SQueued, Some SRunning}
                          then update_drafts (\<lambda>d. dr_id d = i)
                                 (\<lambda>d. d\<lparr>dr_status := SCancelled\<rparr>) db1
                          else db1))
               else Inr (update_jobs (\<lambda>r. dj_id r = j)
                      (\<lambda>r. r\<lparr>dj_cancel_requested := True\<rparr>) db)))"

section \<open>Recovery and settlement\<close>

definition lease_expired :: "int option \<Rightarrow> int \<Rightarrow> draft_job \<Rightarrow> bool" where
  "lease_expired cutoff now j \<longleftrightarrow>
     (case cutoff of None \<Rightarrow> True
      | Some t \<Rightarrow> (case dj_heartbeat j of None \<Rightarrow> False | Some h \<Rightarrow> h < now - t))"

definition settle_draft_after_lost_compile ::
  "nat \<Rightarrow> draft_status \<Rightarrow> bool \<Rightarrow> draft_db \<Rightarrow> draft_error + draft_db" where
  "settle_draft_after_lost_compile i target allow_recovery db =
     (case draft_status_of db i of
        None \<Rightarrow> Inr db
      | Some s \<Rightarrow>
          if s \<noteq> SQueued \<and> s \<noteq> SRunning then Inr db
          else if \<not> transition_ok s target draft_transitions draft_recovery_transitions
                       allow_recovery
            then Inl (Conflict ''invalid_transition'')
          else Inr (update_drafts (\<lambda>d. dr_id d = i) (\<lambda>d. d\<lparr>dr_status := target\<rparr>) db))"

definition settle_expired_job_at_lease_cap ::
  "nat \<Rightarrow> nat \<Rightarrow> job_type \<Rightarrow> draft_db \<Rightarrow> draft_error + draft_db" where
  "settle_expired_job_at_lease_cap j i ty db =
     (let db1 = update_jobs (\<lambda>r. dj_id r = j \<and> dj_status r = DRunning)
            (\<lambda>r. r\<lparr>dj_status := DFailed, dj_error := Some ''lease_attempt_cap_exceeded'',
                  dj_heartbeat := None, dj_worker := None\<rparr>) db
      in case ty of
           Compile \<Rightarrow> settle_draft_after_lost_compile i SFailed False db1
         | ParseInput \<Rightarrow>
             (case find (\<lambda>r. dj_id r = j) (djobs db1) of
                None \<Rightarrow> Inr db1
              | Some r \<Rightarrow> Inr (update_inputs (\<lambda>x. dj_input r = Some (in_id x))
                     (\<lambda>x. x\<lparr>in_status := IFailed,
                           in_error := Some ''lease_attempt_cap_exceeded''\<rparr>) db1)))"

text \<open>One row of \<open>recover_orphaned_parse_jobs\<close>; \<open>st\<close> is the input's status in the query.\<close>

definition recover_parse_row ::
  "draft_job \<Rightarrow> input_status option \<Rightarrow> nat \<times> draft_db \<Rightarrow> nat \<times> draft_db" where
  "recover_parse_row r st acc =
     (case acc of (n, db) \<Rightarrow>
        let at = (\<lambda>j. dj_id j = dj_id r);
            unparse = (\<lambda>target. update_inputs
              (\<lambda>x. dj_input r = Some (in_id x) \<and> in_status x = IParsing)
              (\<lambda>x. x\<lparr>in_status := target\<rparr>))
        in if st = Some IReady then (n, update_jobs at (\<lambda>j. j\<lparr>dj_status := DCompleted\<rparr>) db)
           else if st = Some IFailed then (n, update_jobs at (\<lambda>j. j\<lparr>dj_status := DFailed\<rparr>) db)
           else if st = Some ICancelled
             then (n, update_jobs at (\<lambda>j. j\<lparr>dj_status := DCancelled\<rparr>) db)
           else if dj_cancel_requested r
             then (n, unparse ICancelled (update_jobs at
                    (\<lambda>j. j\<lparr>dj_status := DCancelled, dj_error := Some ''worker_restart''\<rparr>) db))
           else (n + 1, unparse IPending (update_jobs at
                    (\<lambda>j. j\<lparr>dj_status := DPending, dj_error := Some ''worker_restart''\<rparr>) db)))"

definition orphans :: "job_type \<Rightarrow> int option \<Rightarrow> int \<Rightarrow> draft_db \<Rightarrow> draft_job list" where
  "orphans ty cutoff now db =
     filter (\<lambda>j. dj_status j = DRunning \<and> dj_type j = ty \<and> lease_expired cutoff now j) (djobs db)"

definition recover_orphaned_parse_jobs ::
  "int option \<Rightarrow> int \<Rightarrow> draft_db \<Rightarrow> nat \<times> draft_db" where
  "recover_orphaned_parse_jobs cutoff now db =
     fold (\<lambda>r. recover_parse_row r (case dj_input r of None \<Rightarrow> None
              | Some n \<Rightarrow> map_option in_status (find (\<lambda>x. in_id x = n) (inputs db))))
       (orphans ParseInput cutoff now db) (0, db)"

definition recover_compile_row ::
  "draft_job \<Rightarrow> draft_error + nat \<times> draft_db \<Rightarrow> draft_error + nat \<times> draft_db" where
  "recover_compile_row r acc =
     (case acc of Inl e \<Rightarrow> Inl e
      | Inr (n, db) \<Rightarrow>
          if dj_cancel_requested r then
            (case settle_draft_after_lost_compile (dj_draft r) SCancelled False
                    (update_jobs (\<lambda>j. dj_id j = dj_id r) (\<lambda>j. j\<lparr>dj_status := DCancelled\<rparr>) db) of
               Inl e \<Rightarrow> Inl e | Inr db' \<Rightarrow> Inr (n, db'))
          else
            (case settle_draft_after_lost_compile (dj_draft r) SQueued True
                    (update_jobs (\<lambda>j. dj_id j = dj_id r)
                       (\<lambda>j. j\<lparr>dj_status := DPending, dj_error := Some ''worker_restart''\<rparr>) db) of
               Inl e \<Rightarrow> Inl e | Inr db' \<Rightarrow> Inr (n + 1, db')))"

definition recover_orphaned_compile_jobs ::
  "int option \<Rightarrow> int \<Rightarrow> draft_db \<Rightarrow> draft_error + nat \<times> draft_db" where
  "recover_orphaned_compile_jobs cutoff now db =
     fold recover_compile_row (orphans Compile cutoff now db) (Inr (0, db))"

text \<open>
  The worker's ends of a compile: \<open>_move_draft\<close>, \<open>_persist_failure\<close>, \<open>_persist_cancelled\<close>
  and \<open>_persist_completed\<close> of the pipeline, \<open>_fail_compile_job_sync\<close> of the processor. Any
  error of \<open>set_job_status\<close> but the lost lease is logged and swallowed (the processor
  swallows that one too), and the draft is moved.
\<close>

definition move_draft :: "nat \<Rightarrow> draft_status \<Rightarrow> draft_db \<Rightarrow> draft_db" where
  "move_draft i target db =
     (if draft_status_of db i \<in> {Some SQueued, Some SRunning}
      then update_drafts (\<lambda>d. dr_id d = i) (\<lambda>d. d\<lparr>dr_status := target\<rparr>) db else db)"

definition persist_settlement ::
  "draft_job_status \<Rightarrow> draft_status \<Rightarrow> nat \<Rightarrow> nat \<Rightarrow> string option \<Rightarrow> string option \<Rightarrow> int
   \<Rightarrow> draft_db \<Rightarrow> draft_error + draft_db" where
  "persist_settlement js ds j i err w now db =
     (case set_job_status j js err False w now db of
        Inl LeaseLost \<Rightarrow> Inl LeaseLost
      | Inl _ \<Rightarrow> Inr (move_draft i ds db)
      | Inr db' \<Rightarrow> Inr (move_draft i ds db'))"

definition persist_failure ::
  "nat \<Rightarrow> nat \<Rightarrow> string \<Rightarrow> string option \<Rightarrow> int \<Rightarrow> draft_db \<Rightarrow> draft_error + draft_db" where
  "persist_failure j i code w now db = persist_settlement DFailed SFailed j i (Some code) w now db"

definition persist_cancelled ::
  "nat \<Rightarrow> nat \<Rightarrow> string option \<Rightarrow> int \<Rightarrow> draft_db \<Rightarrow> draft_error + draft_db" where
  "persist_cancelled j i w now db = persist_settlement DCancelled SCancelled j i None w now db"

definition persist_completed ::
  "nat \<Rightarrow> string option \<Rightarrow> int \<Rightarrow> draft_db \<Rightarrow> draft_error + draft_db" where
  "persist_completed j w now db = set_job_status j DCompleted None False w now db"

definition fail_compile_job ::
  "nat \<Rightarrow> nat \<Rightarrow> string \<Rightarrow> string option \<Rightarrow> int \<Rightarrow> draft_db \<Rightarrow> draft_db" where
  "fail_compile_job j i code w now db =
     (case set_job_status j DFailed (Some code) False w now db of
        Inl _ \<Rightarrow> move_draft i SFailed db
      | Inr db' \<Rightarrow> move_draft i SFailed db')"

text \<open>
  The automatic retry; the one-active-compile index refuses the child when another compile
  is active (\<open>IntegrityError\<close>, rolled back).
\<close>

definition schedule_compile_retry ::
  "nat \<Rightarrow> nat \<Rightarrow> int \<Rightarrow> draft_db \<Rightarrow> draft_error + bool \<times> draft_db" where
  "schedule_compile_retry j i now db =
     (if draft_status_of db i \<noteq> Some SFailed then Inr (False, db)
      else (let db1 = update_drafts (\<lambda>d. dr_id d = i) (\<lambda>d. d\<lparr>dr_status := SQueued\<rparr>) db
            in case find (\<lambda>r. dj_id r = j) (djobs db) of
                 None \<Rightarrow> Inr (True, db1)
               | Some r \<Rightarrow>
                   if has_active_compile db (dj_draft r) then Inl IntegrityError
                   else Inr (True, add_job ((fresh_draft_job (next_job db) (dj_draft r)
                          (dj_owner r) Compile now)
                       \<lparr>dj_parent := Some j, dj_attempt_no := dj_attempt_no r + 1,
                        dj_retry_count := dj_retry_count r + 1,
                        dj_fingerprint := dj_fingerprint r, dj_snapshot := dj_snapshot r\<rparr>) db1)))"

definition commit_parse_success ::
  "nat \<Rightarrow> nat \<Rightarrow> pystr \<Rightarrow> string option \<Rightarrow> int \<Rightarrow> draft_db \<Rightarrow> draft_error + bool \<times> draft_db" where
  "commit_parse_success j n text w now db =
     (if list_ex (\<lambda>r. dj_id r = j \<and> dj_cancel_requested r) (djobs db) then
        Inr (False, update_jobs (\<lambda>r. dj_id r = j)
                 (\<lambda>r. r\<lparr>dj_status := DCancelled, dj_error := None, dj_heartbeat := Some now\<rparr>)
               (update_inputs (\<lambda>x. in_id x = n)
                 (\<lambda>x. x\<lparr>in_status := ICancelled, in_error := None\<rparr>) db))
      else
        (let hit = (\<lambda>r. dj_id r = j
               \<and> (case w of None \<Rightarrow> True | Some _ \<Rightarrow> dj_worker r = w \<and> dj_status r = DRunning))
         in if w \<noteq> None \<and> rowcount hit (djobs db) = 0 then Inl LeaseLost
            else Inr (True, update_jobs hit
                   (\<lambda>r. r\<lparr>dj_status := DCompleted, dj_error := None, dj_heartbeat := Some now\<rparr>)
                 (update_inputs (\<lambda>x. in_id x = n)
                   (\<lambda>x. x\<lparr>in_status := IReady, in_text := Some text, in_error := None\<rparr>) db))))"

section \<open>Revisions and findings\<close>

definition update_revisions ::
  "(revision_row \<Rightarrow> bool) \<Rightarrow> (revision_row \<Rightarrow> revision_row) \<Rightarrow> draft_db \<Rightarrow> draft_db" where
  "update_revisions p f db = db\<lparr>revisions := update_rows p f (revisions db)\<rparr>"

definition add_revision :: "revision_row \<Rightarrow> draft_db \<Rightarrow> draft_db" where
  "add_revision v db =
     db\<lparr>revisions := revisions db @ [v], next_revision := Suc (next_revision db)\<rparr>"

text \<open>\<open>COALESCE(MAX(revision_no), 0) + 1\<close>\<close>

definition next_revision_no :: "draft_db \<Rightarrow> nat \<Rightarrow> nat" where
  "next_revision_no db i =
     fold max (map rv_no (filter (\<lambda>v. rv_draft v = i) (revisions db))) 0 + 1"

definition manual_revision ::
  "(pystr \<Rightarrow> string) \<Rightarrow> nat \<Rightarrow> nat \<Rightarrow> nat option \<Rightarrow> pystr \<Rightarrow> draft_db \<Rightarrow> revision_row" where
  "manual_revision sha256_text i owner parent content db =
     \<lparr>rv_id = next_revision db, rv_draft = i, rv_parent = parent, rv_job = None,
      rv_no = next_revision_no db i, rv_source = ''manual'', rv_content = content,
      rv_sha = sha256_text content, rv_source_only = False, rv_fact = NotRun,
      rv_current = True, rv_by = Some owner\<rparr>"

definition create_manual_revision ::
  "(pystr \<Rightarrow> string) \<Rightarrow> nat \<Rightarrow> nat \<Rightarrow> int \<Rightarrow> nat option \<Rightarrow> pystr \<Rightarrow> draft_db
   \<Rightarrow> draft_error + draft_db" where
  "create_manual_revision sha256_text i owner lock base content db =
     (case locked_draft db i owner (Some lock) of
        Inl e \<Rightarrow> Inl e
      | Inr d \<Rightarrow>
          if dr_status d = SArchived then Inl (Conflict ''invalid_transition'')
          else if has_active_compile db i then Inl (Conflict ''active_job'')
          else (let current = map_option rv_id (current_revision db i) in
            if base \<noteq> current then Inl (Conflict ''conflict'')
            else if dr_status d \<noteq> SNeedsReview \<and> \<not> draft_move_ok (dr_status d) SNeedsReview
              then Inl (Conflict ''invalid_transition'')
            else Inr (update_drafts (draft_at i owner)
                   (\<lambda>d. bump_lock (clear_ready (d\<lparr>dr_status := SNeedsReview\<rparr>)))
                   (add_revision (manual_revision sha256_text i owner current content db)
                     (update_revisions (\<lambda>v. current = Some (rv_id v))
                        (\<lambda>v. v\<lparr>rv_current := False\<rparr>) db)))))"

text \<open>
  The end of a compile: the candidate is stored invisibly, then published. Publication
  checks neither the job nor the draft; its audit row makes it fail when the draft is gone.
\<close>

definition commit_revision ::
  "nat \<Rightarrow> nat \<Rightarrow> nat \<Rightarrow> pystr \<Rightarrow> string \<Rightarrow> fact_status \<Rightarrow> bool \<Rightarrow> draft_db
   \<Rightarrow> draft_error + nat \<times> draft_db" where
  "commit_revision i owner j content sha verdict source_only db =
     (case find (draft_at i owner) (drafts db) of
        None \<Rightarrow> Inl CompileFailure
      | Some d \<Rightarrow>
          if dr_status d \<notin> {SQueued, SRunning, SNeedsReview} then Inl CompileFailure
          else Inr (next_revision db, add_revision
             \<lparr>rv_id = next_revision db, rv_draft = i,
              rv_parent = map_option rv_id (current_revision db i), rv_job = Some j,
              rv_no = next_revision_no db i, rv_source = ''pipeline'', rv_content = content,
              rv_sha = sha, rv_source_only = source_only, rv_fact = verdict, rv_current = False,
              rv_by = Some owner\<rparr> db))"

definition publish_revision :: "nat \<Rightarrow> nat \<Rightarrow> nat \<Rightarrow> draft_db \<Rightarrow> draft_error + draft_db" where
  "publish_revision i j r db =
     (if draft_status_of db i = None then Inl IntegrityError
      else Inr (update_jobs (\<lambda>x. dj_id x = j) (\<lambda>x. x\<lparr>dj_output := Some r\<rparr>)
           (update_drafts (\<lambda>d. dr_id d = i)
              (\<lambda>d. bump_lock (clear_ready (d\<lparr>dr_status := SNeedsReview\<rparr>)))
              (update_revisions (\<lambda>v. rv_id v = r) (\<lambda>v. v\<lparr>rv_current := True\<rparr>)
                (update_revisions (\<lambda>v. rv_draft v = i \<and> rv_current v)
                   (\<lambda>v. v\<lparr>rv_current := False\<rparr>) db)))))"

definition finding_at :: "nat \<Rightarrow> nat \<Rightarrow> finding_row \<Rightarrow> bool" where
  "finding_at f i x \<longleftrightarrow> fn_id x = f \<and> fn_draft x = i"

definition update_findings ::
  "(finding_row \<Rightarrow> bool) \<Rightarrow> (finding_row \<Rightarrow> finding_row) \<Rightarrow> draft_db \<Rightarrow> draft_db" where
  "update_findings p f db = db\<lparr>findings := update_rows p f (findings db)\<rparr>"

definition add_finding :: "finding_row \<Rightarrow> draft_db \<Rightarrow> draft_db" where
  "add_finding f db =
     db\<lparr>findings := findings db @ [f], next_finding := Suc (next_finding db)\<rparr>"

text \<open>Python's \<open>xs[a:b]\<close>, negative bounds counting from the end.\<close>

definition py_slice :: "'a list \<Rightarrow> int \<Rightarrow> int \<Rightarrow> 'a list" where
  "py_slice xs a b =
     (let n = int (length xs);
          norm = (\<lambda>k. if k < 0 then max 0 (k + n) else min k n)
      in take (nat (norm b) - nat (norm a)) (drop (nat (norm a)) xs))"

definition validate_claim_span ::
  "(pystr \<Rightarrow> string) \<Rightarrow> pystr \<Rightarrow> int \<Rightarrow> int \<Rightarrow> draft_error + string" where
  "validate_claim_span sha256_text content s e =
     (if s < 0 \<or> e \<le> s \<or> e > int (length content) then Inl Validation
      else Inr (sha256_text (py_slice content s e)))"

definition fresh_finding ::
  "nat \<Rightarrow> nat \<Rightarrow> nat option \<Rightarrow> nat option \<Rightarrow> string \<Rightarrow> string \<Rightarrow> string \<Rightarrow> bool \<Rightarrow> finding_row" where
  "fresh_finding f i r j rule version severity waivable =
     \<lparr>fn_id = f, fn_draft = i, fn_revision = r, fn_job = j, fn_rule = rule,
      fn_rule_version = version, fn_severity = severity, fn_status = FOpen,
      fn_waivable = waivable, fn_suggestion = None, fn_start = None, fn_end = None,
      fn_span_sha = None, fn_resolved_by = None, fn_note = None, fn_waiver_version = None,
      fn_waiver_sha = None\<rparr>"

definition finding_categories :: "string list" where
  "finding_categories = [''boilerplate'', ''style'', ''preservation'', ''factuality'', ''quote'',
     ''conflict'', ''security'', ''operational'']"

definition insert_finding ::
  "(pystr \<Rightarrow> string) \<Rightarrow> nat \<Rightarrow> nat option \<Rightarrow> nat option \<Rightarrow> string \<Rightarrow> string \<Rightarrow> string \<Rightarrow> string \<Rightarrow> bool
   \<Rightarrow> pystr option \<Rightarrow> int option \<Rightarrow> int option \<Rightarrow> draft_db \<Rightarrow> draft_error + nat \<times> draft_db" where
  "insert_finding sha256_text i rid j rule version category severity waivable suggestion s e db =
     (let row = (\<lambda>h. (fresh_finding (next_finding db) i rid j rule version severity waivable)
                 \<lparr>fn_suggestion := suggestion, fn_start := s, fn_end := e, fn_span_sha := h\<rparr>);
          ok = (\<lambda>h. Inr (next_finding db, add_finding (row h) db))
      in if category \<notin> set finding_categories then Inl Validation
         else if severity \<notin> {''info'', ''warning'', ''blocker''} then Inl Validation
         else if draft_status_of db i = None then Inl NotFound
         else case rid of
           None \<Rightarrow> ok None
         | Some r \<Rightarrow>
             (case find (\<lambda>v. rv_id v = r \<and> rv_draft v = i) (revisions db) of
                None \<Rightarrow> Inl NotFound
              | Some v \<Rightarrow>
                  (case (s, e) of
                     (Some a, Some b) \<Rightarrow>
                       (case validate_claim_span sha256_text (rv_content v) a b of
                          Inl x \<Rightarrow> Inl x | Inr h \<Rightarrow> ok (Some h))
                   | _ \<Rightarrow> ok None)))"

text \<open>\<open>_guard_draft_for_disposition\<close>, shared by the two dispositions.\<close>

definition disposition_guard ::
  "nat \<Rightarrow> nat \<Rightarrow> int option \<Rightarrow> draft_db \<Rightarrow> draft_error + draft_row" where
  "disposition_guard i owner lock db =
     (case locked_draft db i owner lock of
        Inl e \<Rightarrow> Inl e
      | Inr d \<Rightarrow> if dr_status d = SArchived then Inl (Conflict ''invalid_state'') else Inr d)"

definition dismiss_finding ::
  "nat \<Rightarrow> nat \<Rightarrow> nat \<Rightarrow> pystr option \<Rightarrow> int option \<Rightarrow> draft_db \<Rightarrow> draft_error + draft_db" where
  "dismiss_finding i f owner note lock db =
     (case disposition_guard i owner lock db of
        Inl e \<Rightarrow> Inl e
      | Inr _ \<Rightarrow>
          (case find (finding_at f i) (findings db) of
             None \<Rightarrow> Inl NotFound
           | Some x \<Rightarrow>
               if fn_severity x = ''blocker'' then Inl Validation
               else if \<not> transition_ok (fn_status x) FDismissed finding_transitions (\<lambda>_. []) False
                 then Inl (Conflict ''invalid_transition'')
               else Inr (update_drafts (draft_at i owner) bump_lock
                      (update_findings (finding_at f i)
                        (\<lambda>x. x\<lparr>fn_status := FDismissed, fn_resolved_by := Some owner,
                              fn_note := note\<rparr>) db))))"

definition waive_finding ::
  "nat \<Rightarrow> nat \<Rightarrow> nat \<Rightarrow> pystr \<Rightarrow> string \<Rightarrow> string option \<Rightarrow> int option \<Rightarrow> draft_db
   \<Rightarrow> draft_error + draft_db" where
  "waive_finding i f owner note version sha lock db =
     (if py_strip note = [] then Inl Validation
      else case disposition_guard i owner lock db of
        Inl e \<Rightarrow> Inl e
      | Inr _ \<Rightarrow>
          (case find (finding_at f i) (findings db) of
             None \<Rightarrow> Inl NotFound
           | Some x \<Rightarrow>
               if \<not> fn_waivable x then Inl Validation
               else if \<not> transition_ok (fn_status x) FWaived finding_transitions (\<lambda>_. []) False
                 then Inl (Conflict ''invalid_transition'')
               else Inr (update_drafts (draft_at i owner) bump_lock
                      (update_findings (finding_at f i)
                        (\<lambda>x. x\<lparr>fn_status := FWaived, fn_resolved_by := Some owner,
                              fn_note := Some note, fn_waiver_version := Some version,
                              fn_waiver_sha := sha\<rparr>) db))))"

text \<open>\<open>_sync_apply_finding\<close>: the checks in order, then the splice.\<close>

definition splice :: "pystr \<Rightarrow> int \<Rightarrow> int \<Rightarrow> pystr \<Rightarrow> pystr" where
  "splice content s e suggestion = take (nat s) content @ suggestion @ drop (nat e) content"

definition apply_finding ::
  "(pystr \<Rightarrow> string) \<Rightarrow> nat \<Rightarrow> nat \<Rightarrow> nat \<Rightarrow> int \<Rightarrow> nat option \<Rightarrow> pystr option \<Rightarrow> draft_db
   \<Rightarrow> draft_error + nat \<times> draft_db" where
  "apply_finding sha256_text i owner f lock base note db =
     (case locked_draft db i owner (Some lock) of
        Inl e \<Rightarrow> Inl e
      | Inr d \<Rightarrow>
          if dr_status d = SArchived then Inl (Conflict ''invalid_state'')
          else if has_active_compile db i then Inl (Conflict ''active_job'')
          else (case find (finding_at f i) (findings db) of
             None \<Rightarrow> Inl NotFound
           | Some x \<Rightarrow>
               if fn_status x \<noteq> FOpen then Inl (Conflict ''finding_not_open'')
               else (case (fn_suggestion x, fn_start x, fn_end x) of
                  (Some suggestion, Some s, Some e) \<Rightarrow>
                    (case current_revision db i of
                       None \<Rightarrow> Inl (Conflict ''stale_base_revision'')
                     | Some v \<Rightarrow>
                         if base \<noteq> Some (rv_id v) then Inl (Conflict ''stale_base_revision'')
                         else if fn_revision x \<noteq> Some (rv_id v)
                           then Inl (Conflict ''finding_revision_stale'')
                         else if \<not> (0 \<le> s \<and> s < e \<and> e \<le> int (length (rv_content v)))
                           then Inl (Conflict ''stale_span'')
                         else if fn_span_sha x \<noteq> None
                           \<and> fn_span_sha x \<noteq> Some (sha256_text (py_slice (rv_content v) s e))
                           then Inl (Conflict ''stale_span'')
                         else if dr_status d
                             \<notin> {SDraft, SNeedsReview, SReady, SFailed, SCancelled}
                           then Inl (Conflict ''invalid_draft_status'')
                         else Inr (next_revision db,
                            update_drafts (draft_at i owner)
                              (\<lambda>d. bump_lock (clear_ready (d\<lparr>dr_status := SNeedsReview\<rparr>)))
                            (update_findings (\<lambda>x. fn_id x = f)
                              (\<lambda>x. x\<lparr>fn_status := FApplied, fn_resolved_by := Some owner,
                                    fn_note := note\<rparr>)
                            (add_revision (manual_revision sha256_text i owner (Some (rv_id v))
                                (splice (rv_content v) s e suggestion) db)
                            (update_revisions (\<lambda>u. rv_id u = rv_id v)
                              (\<lambda>u. u\<lparr>rv_current := False\<rparr>) db)))))
                | _ \<Rightarrow> Inl NotApplicable)))"

section \<open>Compile and approval\<close>

text \<open>
  \<open>_sync_enqueue_compile\<close>. The two unique indexes cannot fail here, because the same
  transaction has just looked for an active job and for the idempotency key.
\<close>

definition enqueue_compile ::
  "nat \<Rightarrow> nat \<Rightarrow> int \<Rightarrow> nat option \<Rightarrow> string option \<Rightarrow> string \<Rightarrow> nat list \<Rightarrow> nat option \<Rightarrow> nat
   \<Rightarrow> int \<Rightarrow> draft_db \<Rightarrow> draft_error + (nat \<times> bool) \<times> draft_db" where
  "enqueue_compile i owner lock base key fingerprint snapshot parent attempt_no now db =
     (case find (draft_at i owner) (drafts db) of
        None \<Rightarrow> Inl NotFound
      | Some d \<Rightarrow>
          (case (case key of None \<Rightarrow> None
                 | Some _ \<Rightarrow> find (\<lambda>j. dj_owner j = owner \<and> dj_key j = key) (djobs db)) of
             Some j \<Rightarrow>
               if dj_draft j = i \<and> dj_fingerprint j = Some fingerprint
               then Inr ((dj_id j, False), db)
               else Inl (Conflict ''idempotency_key_conflict'')
           | None \<Rightarrow>
               (let mine = filter (\<lambda>x. in_draft x = i) (inputs db) in
                if dr_lock d \<noteq> lock then Inl (Conflict ''stale_lock_version'')
                else if dr_status d \<notin> {SDraft, SNeedsReview, SFailed, SCancelled, SReady}
                  then Inl (Conflict ''invalid_state'')
                else if has_active_job db i then Inl (Conflict ''active_job'')
                else if mine = [] then Inl (Conflict ''inputs_not_ready'')
                else if list_ex (\<lambda>x. in_status x \<noteq> IReady) mine
                  then Inl (Conflict ''inputs_not_ready'')
                else if base \<noteq> map_option rv_id (current_revision db i)
                  then Inl (Conflict ''stale_base_revision'')
                else (let db1 = (if dr_status d = SReady \<or> dr_ready_rev d \<noteq> None
                            then update_drafts (\<lambda>d. dr_id d = i)
                                   (\<lambda>d. clear_ready (d\<lparr>dr_status := SNeedsReview\<rparr>)) db
                            else db);
                          j = (fresh_draft_job (next_job db) i owner Compile now)
                            \<lparr>dj_parent := parent, dj_attempt_no := attempt_no, dj_key := key,
                             dj_base := base, dj_fingerprint := Some fingerprint,
                             dj_snapshot := snapshot\<rparr>
                      in Inr ((next_job db, True),
                           update_drafts (draft_at i owner)
                             (\<lambda>d. bump_lock (d\<lparr>dr_status := SQueued\<rparr>)) (add_job j db1))))))"

definition invalidation_reasons :: "string list" where
  "invalidation_reasons = [''source_deleted'', ''evidence_changed'']"

definition apply_evidence_invalidation ::
  "nat \<Rightarrow> nat \<Rightarrow> nat option \<Rightarrow> string \<Rightarrow> draft_db \<Rightarrow> draft_error + bool \<times> draft_db" where
  "apply_evidence_invalidation i r j reason db =
     (if reason \<notin> set invalidation_reasons then Inl Validation
      else (let
          hit = (\<lambda>v. rv_id v = r \<and> rv_draft v = i \<and> rv_fact v \<noteq> FactInvalidated);
          db1 = update_revisions hit (\<lambda>v. v\<lparr>rv_fact := FactInvalidated\<rparr>) db;
          opened = list_ex (\<lambda>f. fn_draft f = i \<and> fn_revision f = Some r \<and> fn_rule f = reason
                     \<and> fn_status f = FOpen) (findings db);
          db2 = (if opened then db1 else add_finding
                   (fresh_finding (next_finding db) i (Some r) j reason ''1'' ''blocker'' False) db1);
          ready = (draft_status_of db i = Some SReady);
          db3 = (if ready then update_drafts (\<lambda>d. dr_id d = i \<and> dr_status d = SReady)
                   (\<lambda>d. bump_lock (clear_ready (d\<lparr>dr_status := SNeedsReview\<rparr>))) db2 else db2)
        in Inr (0 < rowcount hit (revisions db) \<or> \<not> opened \<or> ready, db3)))"

text \<open>
  The freshness pass over a job's evidence is a parameter: whether a source was deleted and
  whether one changed (or the pass was truncated). Its consequences are the code's.
\<close>

type_synonym freshness = "nat \<Rightarrow> bool \<times> bool"

definition freshness_reasons :: "bool \<times> bool \<Rightarrow> string list" where
  "freshness_reasons r = (if fst r then [''source_deleted''] else [])
                       @ (if snd r then [''evidence_changed''] else [])"

definition enforce_evidence_freshness ::
  "freshness \<Rightarrow> nat \<Rightarrow> nat \<Rightarrow> nat \<Rightarrow> draft_db \<Rightarrow> string list \<times> draft_db" where
  "enforce_evidence_freshness fresh i r j db =
     (let reasons = freshness_reasons (fresh j)
      in (reasons, fold (\<lambda>reason db. case apply_evidence_invalidation i r (Some j) reason db of
                           Inl _ \<Rightarrow> db | Inr (_, db') \<Rightarrow> db') reasons db))"

definition fact_current :: "revision_row \<Rightarrow> bool" where
  "fact_current v \<longleftrightarrow> rv_fact v = FactPassed \<or> rv_fact v = FactFindings"

text \<open>The latest completed Fact attempt of a job and the candidate it checked.\<close>

definition fact_candidate :: "draft_db \<Rightarrow> nat \<Rightarrow> string option option" where
  "fact_candidate db j =
     (case sort_key (\<lambda>(_, attempt, _). - int attempt)
             (filter (\<lambda>(j', _, _). j' = j) (fact_stages db)) of
        [] \<Rightarrow> None | (_, _, sha) # _ \<Rightarrow> Some sha)"

definition blockers :: "draft_db \<Rightarrow> nat \<Rightarrow> nat \<Rightarrow> finding_status \<Rightarrow> finding_row list" where
  "blockers db i r st = filter (\<lambda>f. fn_draft f = i \<and> fn_revision f = Some r
     \<and> fn_severity f = ''blocker'' \<and> fn_status f = st) (findings db)"

definition waiver_error :: "(pystr \<Rightarrow> string) \<Rightarrow> pystr \<Rightarrow> finding_row \<Rightarrow> draft_error option" where
  "waiver_error sha256_text content f =
     (if fn_resolved_by f = None \<or> py_strip (coalesce (fn_note f) []) = []
         \<or> fn_waiver_version f \<noteq> Some (fn_rule_version f)
      then Some (Conflict ''invalid_waiver'')
      else (case (fn_start f, fn_end f) of
              (Some s, Some e) \<Rightarrow>
                if fn_waiver_sha f \<noteq> Some (sha256_text (py_slice content s e))
                then Some (Conflict ''stale_waiver'') else None
            | _ \<Rightarrow> None))"

definition blocking_claims :: "draft_db \<Rightarrow> nat \<Rightarrow> nat" where
  "blocking_claims db r = length (filter (\<lambda>(r', st). r' = r
     \<and> st \<in> {''contradicted'', ''unsupported'', ''ambiguous'', ''stale''}) (claims db))"

text \<open>
  \<open>_sync_mark_ready\<close>: the only writer of \<open>SReady\<close>. A stale evidence pass commits the
  invalidation before the request is refused, so failures too return the tables.
\<close>

definition mark_ready ::
  "(pystr \<Rightarrow> string) \<Rightarrow> freshness \<Rightarrow> nat \<Rightarrow> nat \<Rightarrow> nat \<Rightarrow> int \<Rightarrow> bool \<Rightarrow> draft_db
   \<Rightarrow> (draft_error + unit) \<times> draft_db" where
  "mark_ready sha256_text fresh i owner r lock ack db =
     (let refuse = (\<lambda>e. (Inl e, db)) in
      case locked_draft db i owner (Some lock) of
        Inl e \<Rightarrow> refuse e
      | Inr d \<Rightarrow>
          if dr_status d \<noteq> SNeedsReview then refuse (Conflict ''invalid_state'')
          else if has_active_job db i then refuse (Conflict ''active_job'')
          else (case find (\<lambda>v. rv_id v = r \<and> rv_draft v = i) (revisions db) of
             None \<Rightarrow> refuse NotFound
           | Some v \<Rightarrow>
               if \<not> rv_current v then refuse (Conflict ''not_current_revision'')
               else if \<not> fact_current v then refuse (Conflict ''fact_not_current'')
               else (case rv_job v of
                  None \<Rightarrow> refuse (Conflict ''fact_not_current'')
                | Some j \<Rightarrow>
                    if fact_candidate db j \<noteq> Some (Some (rv_sha v))
                      then refuse (Conflict ''fact_candidate_mismatch'')
                    else if list_ex (\<lambda>f. \<not> fn_waivable f) (blockers db i r FOpen)
                      then refuse (Conflict ''non_waivable_blocker'')
                    else if blockers db i r FOpen \<noteq> []
                      then refuse (Conflict ''unresolved_blocker'')
                    else (case List.map_filter (waiver_error sha256_text (rv_content v))
                                 (blockers db i r FWaived) of
                       e # _ \<Rightarrow> refuse e
                     | [] \<Rightarrow>
                         if blocking_claims db r \<noteq> 0
                           then refuse (Conflict ''unresolved_claim_blocker'')
                         else (case enforce_evidence_freshness fresh i r j db of
                            (reason # _, db') \<Rightarrow> (Inl (Conflict reason), db')
                          | ([], _) \<Rightarrow>
                              if rv_source_only v \<and> \<not> ack
                                then refuse (Conflict ''source_only_acknowledgment_required'')
                              else (Inr (), update_drafts (draft_at i owner)
                                     (\<lambda>d. bump_lock (d\<lparr>dr_status := SReady,
                                        dr_ready_rev := Some r, dr_ready_by := Some owner\<rparr>))
                                     db))))))"

text \<open>
  \<open>_map_store_error\<close>. A finding that is not applicable is answered with 422 by its route, and
  an error that is none of the store with 500.
\<close>

definition map_store_error :: "draft_error \<Rightarrow> http_error" where
  "map_store_error e =
     Http (case e of NotFound \<Rightarrow> 404 | LimitExceeded \<Rightarrow> 413 | Validation \<Rightarrow> 422
           | NotApplicable \<Rightarrow> 422 | Conflict code \<Rightarrow> 409 | _ \<Rightarrow> 500)"

text \<open>
  The route around it, up to its final reading of the draft: the switch of the feature, the
  owner's draft as it was in \<open>db0\<close> before the transaction, and the policy on its vault, whose
  evaluator is given to the route. The transaction does not look at the vault again.
\<close>

definition mark_revision_ready ::
  "bool \<Rightarrow> (nat \<Rightarrow> bool) \<Rightarrow> (pystr \<Rightarrow> string) \<Rightarrow> freshness \<Rightarrow> nat \<Rightarrow> nat \<Rightarrow> nat \<Rightarrow> int \<Rightarrow> bool
   \<Rightarrow> draft_db \<Rightarrow> draft_db \<Rightarrow> (http_error + unit) \<times> draft_db" where
  "mark_revision_ready enabled may_read sha256_text fresh i owner r lock ack db0 db =
     (if \<not> enabled then (Inl (Http 503), db)
      else case find (draft_at i owner) (drafts db0) of
        None \<Rightarrow> (Inl (map_store_error NotFound), db)
      | Some d \<Rightarrow>
          if \<not> may_read (dr_vault d) then (Inl (Http 403), db)
          else (case mark_ready sha256_text fresh i owner r lock ack db of
             (Inl e, db') \<Rightarrow> (Inl (map_store_error e), db')
           | (Inr _, db') \<Rightarrow> (Inr (), db')))"

section \<open>Sequences of operations\<close>

text \<open>
  Everything that writes the modelled tables, by any user, worker or janitor, in any order
  and with any arguments. \<open>WriteLedger\<close> stands for the pipeline's writes of claims, Fact
  stages and evidence. A worker publishes only a revision that it has stored for its own
  draft and job, and retries a job under the draft of its record.
\<close>

datatype project_op =
  CreateDraft nat nat pystr string string string
| UpdateDraft nat nat int "pystr option" "string option" "string option"
| ArchiveDraft nat nat int
| RestoreDraft nat nat int
| DeleteDraft nat nat
| CancelPending nat nat
| InvalidateEvidence nat nat "nat option" string
| MarkReady "nat \<Rightarrow> bool \<times> bool" nat nat nat int bool

datatype input_op =
  ReserveInput nat nat string string "string option" int string nat int
| UpdateInput nat nat nat "string option" "string option" "string option" bool "string option"
| SetParseStatus nat input_status "pystr option" "string option" bool
| DeleteInput nat nat nat bool
| EnqueueParse nat nat nat int
| RetryParse nat nat nat int
| RecoverInput nat int
| ClaimParse "string option" int
| RecoverParse "int option" int
| CommitParse nat nat pystr "string option" int

datatype compile_op =
  EnqueueCompile nat nat int "nat option" "string option" string "nat list" "nat option" nat int
| ClaimCompile "string option" int
| SetJobStatus nat draft_job_status "string option" bool "string option" int
| CancelJob nat nat nat
| SettleAtCap nat nat job_type
| RecoverCompile "int option" int
| PersistFailure nat nat string "string option" int
| PersistCancelled nat nat "string option" int
| PersistCompleted nat "string option" int
| FailCompile nat nat string "string option" int
| ScheduleRetry nat nat int

datatype text_op =
  ManualRevision nat nat int "nat option" pystr
| CommitRevision nat nat nat pystr string fact_status bool
| PublishRevision nat nat nat
| InsertFinding nat "nat option" "nat option" string string string string bool "pystr option" "int option" "int option"
| DismissFinding nat nat nat "pystr option" "int option"
| WaiveFinding nat nat nat pystr string "string option" "int option"
| ApplyFinding nat nat nat int "nat option" "pystr option"
| WriteLedger "(nat \<times> string) list" "(nat \<times> nat \<times> string option) list" "(nat \<times> nat) list"

datatype draft_op = Project project_op | Input input_op | Compiling compile_op | Text text_op

definition keep :: "draft_db \<Rightarrow> draft_error + draft_db \<Rightarrow> draft_db" where
  "keep db res = (case res of Inl _ \<Rightarrow> db | Inr db' \<Rightarrow> db')"

definition keep_snd :: "draft_db \<Rightarrow> draft_error + 'a \<times> draft_db \<Rightarrow> draft_db" where
  "keep_snd db res = (case res of Inl _ \<Rightarrow> db | Inr (_, db') \<Rightarrow> db')"

fun exec_project :: "(pystr \<Rightarrow> string) \<Rightarrow> project_op \<Rightarrow> draft_db \<Rightarrow> draft_db" where
  "exec_project h (CreateDraft v u t m ti b) db = keep db (create_draft v u t m ti b db)"
| "exec_project h (UpdateDraft i u l t b ti) db = keep db (update_draft i u l t b ti db)"
| "exec_project h (ArchiveDraft i u l) db = keep db (archive_draft i u l db)"
| "exec_project h (RestoreDraft i u l) db = keep db (restore_draft i u l db)"
| "exec_project h (DeleteDraft i u) db = keep db (delete_draft_row i u db)"
| "exec_project h (CancelPending i u) db = keep_snd db (cancel_pending_jobs i u db)"
| "exec_project h (InvalidateEvidence i r j re) db =
     keep_snd db (apply_evidence_invalidation i r j re db)"
| "exec_project h (MarkReady fr i u r l a) db = snd (mark_ready h fr i u r l a db)"

fun exec_input :: "input_op \<Rightarrow> draft_db \<Rightarrow> draft_db" where
  "exec_input (ReserveInput i u r a d s sh m mb) db =
     keep_snd db (reserve_input i u r a d s sh m mb db)"
| "exec_input (UpdateInput i u n r a d c sp) db =
     keep db (update_input_metadata i u n r a d c sp db)"
| "exec_input (SetParseStatus n t x e al) db = keep db (set_input_parse_status n t x e al db)"
| "exec_input (DeleteInput i u n be) db = keep db (delete_input_row i u n be db)"
| "exec_input (EnqueueParse i u n now) db = keep db (enqueue_parse_job i u n now db)"
| "exec_input (RetryParse i u j now) db = keep db (retry_parse_job i u j now db)"
| "exec_input (RecoverInput n now) db = snd (enqueue_parse_job_for_recovery n now db)"
| "exec_input (ClaimParse w now) db = snd (claim_next_parse_job w now db)"
| "exec_input (RecoverParse c now) db = snd (recover_orphaned_parse_jobs c now db)"
| "exec_input (CommitParse j n t w now) db = keep_snd db (commit_parse_success j n t w now db)"

fun exec_compile :: "compile_op \<Rightarrow> draft_db \<Rightarrow> draft_db" where
  "exec_compile (EnqueueCompile i u l b k fp sn p a now) db =
     keep_snd db (enqueue_compile i u l b k fp sn p a now db)"
| "exec_compile (ClaimCompile w now) db = snd (claim_next_compile_job w now db)"
| "exec_compile (SetJobStatus j t e al w now) db = keep db (set_job_status j t e al w now db)"
| "exec_compile (CancelJob i u j) db = keep db (request_job_cancel i u j db)"
| "exec_compile (SettleAtCap j i ty) db = keep db (settle_expired_job_at_lease_cap j i ty db)"
| "exec_compile (RecoverCompile c now) db = keep_snd db (recover_orphaned_compile_jobs c now db)"
| "exec_compile (PersistFailure j i c w now) db = keep db (persist_failure j i c w now db)"
| "exec_compile (PersistCancelled j i w now) db = keep db (persist_cancelled j i w now db)"
| "exec_compile (PersistCompleted j w now) db = keep db (persist_completed j w now db)"
| "exec_compile (FailCompile j i c w now) db = fail_compile_job j i c w now db"
| "exec_compile (ScheduleRetry j i now) db =
     (if list_all (\<lambda>r. dj_id r = j \<longrightarrow> dj_draft r = i) (djobs db)
      then keep_snd db (schedule_compile_retry j i now db) else db)"

fun exec_text :: "(pystr \<Rightarrow> string) \<Rightarrow> text_op \<Rightarrow> draft_db \<Rightarrow> draft_db" where
  "exec_text h (ManualRevision i u l b c) db = keep db (create_manual_revision h i u l b c db)"
| "exec_text h (CommitRevision i u j c s f so) db =
     keep_snd db (commit_revision i u j c s f so db)"
| "exec_text h (PublishRevision i j r) db =
     (if list_ex (\<lambda>v. rv_id v = r \<and> rv_draft v = i \<and> rv_job v = Some j) (revisions db)
      then keep db (publish_revision i j r db) else db)"
| "exec_text h (InsertFinding i r j ru ve c s w su a b) db =
     keep_snd db (insert_finding h i r j ru ve c s w su a b db)"
| "exec_text h (DismissFinding i f u n l) db = keep db (dismiss_finding i f u n l db)"
| "exec_text h (WaiveFinding i f u n ve s l) db = keep db (waive_finding i f u n ve s l db)"
| "exec_text h (ApplyFinding i u f l b n) db = keep_snd db (apply_finding h i u f l b n db)"
| "exec_text h (WriteLedger cl fs ev) db = db\<lparr>claims := cl, fact_stages := fs, evidence := ev\<rparr>"

fun exec_draft :: "(pystr \<Rightarrow> string) \<Rightarrow> draft_op \<Rightarrow> draft_db \<Rightarrow> draft_db" where
  "exec_draft h (Project x) db = exec_project h x db"
| "exec_draft h (Input x) db = exec_input x db"
| "exec_draft h (Compiling x) db = exec_compile x db"
| "exec_draft h (Text x) db = exec_text h x db"

definition run_draft :: "(pystr \<Rightarrow> string) \<Rightarrow> draft_op list \<Rightarrow> draft_db \<Rightarrow> draft_db" where
  "run_draft h ops db = fold (exec_draft h) ops db"

definition empty_draft_db :: draft_db where
  "empty_draft_db = \<lparr>drafts = [], inputs = [], revisions = [], djobs = [], findings = [],
     claims = [], fact_stages = [], evidence = [], next_draft = 1, next_input = 1,
     next_revision = 1, next_job = 1, next_finding = 1\<rparr>"

end
