(* ===== verification/Draft_Invariants.thy ===== *)
theory Draft_Invariants
  imports Draft_Room
begin

text \<open>
  What every operation of the Draft Room keeps: the Ready pointer, the one current revision
  and the one active compile of a draft, immutable revisions, replayable compile requests.
  The operations are taken apart into single table writes, each of which is a \<open>safe_step\<close>;
  safe steps compose.
\<close>

section \<open>The invariant\<close>

definition calm :: "draft_row \<Rightarrow> bool" where
  "calm d \<longleftrightarrow> dr_status d \<noteq> SReady \<and> dr_ready_rev d = None"

text \<open>The approval of a draft, read against the revisions and the jobs.\<close>

definition approved_revision :: "revision_row list \<Rightarrow> nat \<Rightarrow> nat \<Rightarrow> bool" where
  "approved_revision vs i r \<longleftrightarrow>
     (\<exists>v \<in> set vs. rv_id v = r \<and> rv_draft v = i \<and> rv_current v \<and> fact_current v)"

definition no_active_compile :: "draft_job list \<Rightarrow> nat \<Rightarrow> bool" where
  "no_active_compile js i \<longleftrightarrow> (\<forall>j \<in> set js. active_compile j \<longrightarrow> dj_draft j \<noteq> i)"

definition ready_ok :: "draft_db \<Rightarrow> draft_row \<Rightarrow> bool" where
  "ready_ok db d \<longleftrightarrow>
     (case dr_ready_rev d of
        None \<Rightarrow> dr_status d \<noteq> SReady
      | Some r \<Rightarrow> dr_status d = SReady \<and> approved_revision (revisions db) (dr_id d) r
           \<and> no_active_compile (djobs db) (dr_id d))"

definition drafts_wf :: "draft_db \<Rightarrow> bool" where
  "drafts_wf db \<longleftrightarrow> distinct (map dr_id (drafts db))
     \<and> (\<forall>d \<in> set (drafts db). dr_id d < next_draft db)"

definition revisions_wf :: "draft_db \<Rightarrow> bool" where
  "revisions_wf db \<longleftrightarrow> distinct (map rv_id (revisions db))
     \<and> (\<forall>v \<in> set (revisions db). rv_id v < next_revision db \<and> rv_draft v < next_draft db)
     \<and> (\<forall>v \<in> set (revisions db). \<forall>v' \<in> set (revisions db). rv_draft v = rv_draft v' \<longrightarrow>
          (rv_no v = rv_no v' \<or> rv_current v \<and> rv_current v') \<longrightarrow> rv_id v = rv_id v')"

definition jobs_wf :: "draft_db \<Rightarrow> bool" where
  "jobs_wf db \<longleftrightarrow> distinct (map dj_id (djobs db))
     \<and> (\<forall>j \<in> set (djobs db). dj_id j < next_job db \<and> dj_draft j < next_draft db
          \<and> (dj_type j = Compile \<longrightarrow> dj_input j = None))
     \<and> (\<forall>j \<in> set (djobs db). \<forall>j' \<in> set (djobs db).
          active_compile j \<and> active_compile j' \<and> dj_draft j = dj_draft j' \<longrightarrow> dj_id j = dj_id j')
     \<and> (\<forall>j \<in> set (djobs db). \<forall>j' \<in> set (djobs db).
          dj_key j \<noteq> None \<and> dj_key j = dj_key j' \<and> dj_owner j = dj_owner j' \<longrightarrow> dj_id j = dj_id j')"

definition tables_wf :: "draft_db \<Rightarrow> bool" where
  "tables_wf db \<longleftrightarrow> drafts_wf db \<and> revisions_wf db \<and> jobs_wf db"

definition draft_inv :: "draft_db \<Rightarrow> bool" where
  "draft_inv db \<longleftrightarrow> tables_wf db \<and> (\<forall>d \<in> set (drafts db). ready_ok db d)"

section \<open>Safe steps\<close>

definition draft_exists :: "draft_db \<Rightarrow> nat \<Rightarrow> bool" where
  "draft_exists db i \<longleftrightarrow> i \<in> dr_id ` set (drafts db)"

definition same_text :: "revision_row \<Rightarrow> revision_row \<Rightarrow> bool" where
  "same_text v v' \<longleftrightarrow> rv_id v' = rv_id v \<and> rv_draft v' = rv_draft v \<and> rv_no v' = rv_no v
     \<and> rv_content v' = rv_content v \<and> rv_sha v' = rv_sha v \<and> rv_parent v' = rv_parent v
     \<and> rv_job v' = rv_job v \<and> rv_source v' = rv_source v \<and> rv_by v' = rv_by v"

definition same_request :: "draft_job \<Rightarrow> draft_job \<Rightarrow> bool" where
  "same_request j j' \<longleftrightarrow> dj_id j' = dj_id j \<and> dj_draft j' = dj_draft j \<and> dj_owner j' = dj_owner j
     \<and> dj_type j' = dj_type j \<and> dj_input j' = dj_input j \<and> dj_key j' = dj_key j
     \<and> dj_fingerprint j' = dj_fingerprint j"

definition approvals_kept :: "draft_db \<Rightarrow> draft_db \<Rightarrow> bool" where
  "approvals_kept db db' \<longleftrightarrow> (\<forall>d' \<in> set (drafts db'). calm d' \<or>
     (\<exists>d \<in> set (drafts db). dr_id d = dr_id d' \<and> dr_status d = dr_status d'
        \<and> dr_ready_rev d = dr_ready_rev d' \<and> (ready_ok db d \<longrightarrow> ready_ok db' d')))"

definition history_kept :: "draft_db \<Rightarrow> draft_db \<Rightarrow> bool" where
  "history_kept db db' \<longleftrightarrow> next_draft db \<le> next_draft db'
     \<and> (\<forall>i. draft_exists db' i \<longrightarrow> draft_exists db i \<or> next_draft db \<le> i)
     \<and> (\<forall>v \<in> set (revisions db). draft_exists db' (rv_draft v) \<longrightarrow>
          (\<exists>v' \<in> set (revisions db'). same_text v v'))
     \<and> (\<forall>j \<in> set (djobs db). dj_type j = Compile \<longrightarrow> draft_exists db' (dj_draft j) \<longrightarrow>
          (\<exists>j' \<in> set (djobs db'). same_request j j'))"

definition safe_step :: "draft_db \<Rightarrow> draft_db \<Rightarrow> bool" where
  "safe_step db db' \<longleftrightarrow> tables_wf db' \<and> approvals_kept db db' \<and> history_kept db db'"

lemma drafts_wfD:
  assumes "drafts_wf db"
  shows "distinct (map dr_id (drafts db))" and "d \<in> set (drafts db) \<Longrightarrow> dr_id d < next_draft db"
  using assms unfolding drafts_wf_def by blast+

lemma revisions_wfD:
  assumes "revisions_wf db"
  shows "distinct (map rv_id (revisions db))"
    and "v \<in> set (revisions db) \<Longrightarrow> rv_id v < next_revision db"
    and "v \<in> set (revisions db) \<Longrightarrow> rv_draft v < next_draft db"
  using assms unfolding revisions_wf_def by blast+

lemma jobs_wfD:
  assumes "jobs_wf db"
  shows "distinct (map dj_id (djobs db))"
    and "j \<in> set (djobs db) \<Longrightarrow> dj_id j < next_job db"
    and "j \<in> set (djobs db) \<Longrightarrow> dj_draft j < next_draft db"
    and "j \<in> set (djobs db) \<Longrightarrow> dj_type j = Compile \<longrightarrow> dj_input j = None"
  using assms unfolding jobs_wf_def by blast+

text \<open>Fewer rows and later counters keep the tables well formed.\<close>

lemma revisions_wf_mono:
  assumes wf: "revisions_wf db" and "distinct (map rv_id (revisions db'))"
    and sub: "set (revisions db') \<subseteq> set (revisions db)"
    and n: "next_revision db \<le> next_revision db'" "next_draft db \<le> next_draft db'"
  shows "revisions_wf db'"
proof -
  have "rv_id v < next_revision db' \<and> rv_draft v < next_draft db'" if "v \<in> set (revisions db')" for v
    using revisions_wfD(2,3) [OF wf, of v] that sub n by auto
  moreover have "\<forall>v \<in> set (revisions db'). \<forall>v' \<in> set (revisions db'). rv_draft v = rv_draft v' \<longrightarrow>
          (rv_no v = rv_no v' \<or> rv_current v \<and> rv_current v') \<longrightarrow> rv_id v = rv_id v'"
    using wf sub unfolding revisions_wf_def by blast
  ultimately show ?thesis using assms(2) unfolding revisions_wf_def by blast
qed

lemma jobs_wf_mono:
  assumes wf: "jobs_wf db" and "distinct (map dj_id (djobs db'))"
    and sub: "set (djobs db') \<subseteq> set (djobs db)"
    and n: "next_job db \<le> next_job db'" "next_draft db \<le> next_draft db'"
  shows "jobs_wf db'"
proof -
  have "dj_id j < next_job db' \<and> dj_draft j < next_draft db'
      \<and> (dj_type j = Compile \<longrightarrow> dj_input j = None)" if "j \<in> set (djobs db')" for j
    using jobs_wfD(2-4) [OF wf, of j] that sub n by auto
  moreover have "\<forall>j \<in> set (djobs db'). \<forall>j' \<in> set (djobs db').
      active_compile j \<and> active_compile j' \<and> dj_draft j = dj_draft j' \<longrightarrow> dj_id j = dj_id j'"
    using wf sub unfolding jobs_wf_def by blast
  moreover have "\<forall>j \<in> set (djobs db'). \<forall>j' \<in> set (djobs db').
      dj_key j \<noteq> None \<and> dj_key j = dj_key j' \<and> dj_owner j = dj_owner j' \<longrightarrow> dj_id j = dj_id j'"
    using wf sub unfolding jobs_wf_def by blast
  ultimately show ?thesis using assms(2) unfolding jobs_wf_def by blast
qed

lemma same_text_refl [simp]: "same_text v v"
  by (simp add: same_text_def)

lemma same_request_refl [simp]: "same_request j j"
  by (simp add: same_request_def)

lemma same_text_trans: "same_text u v \<Longrightarrow> same_text v w \<Longrightarrow> same_text u w"
  by (simp add: same_text_def)

lemma same_request_trans: "same_request u v \<Longrightarrow> same_request v w \<Longrightarrow> same_request u w"
  by (simp add: same_request_def)

lemma same_text_ex: "v \<in> S \<Longrightarrow> \<exists>v' \<in> S. same_text v v'"
  by (rule bexI [of _ v]) simp_all

lemma same_request_ex: "j \<in> S \<Longrightarrow> \<exists>j' \<in> S. same_request j j'"
  by (rule bexI [of _ j]) simp_all

lemma safe_step_refl: "draft_inv db \<Longrightarrow> safe_step db db"
  by (auto simp: safe_step_def draft_inv_def approvals_kept_def history_kept_def
      intro: same_text_ex same_request_ex)

lemma safe_step_inv:
  assumes "draft_inv db" and "safe_step db db'"
  shows "draft_inv db'"
proof -
  have "ready_ok db' d'" if d: "d' \<in> set (drafts db')" for d'
  proof -
    from assms(2) d have "calm d' \<or> (\<exists>d \<in> set (drafts db). ready_ok db d \<longrightarrow> ready_ok db' d')"
      by (auto simp: safe_step_def approvals_kept_def)
    with assms(1) show ?thesis by (auto simp: calm_def ready_ok_def draft_inv_def)
  qed
  with assms(2) show ?thesis by (simp add: draft_inv_def safe_step_def)
qed

lemma approvals_kept_trans:
  assumes "approvals_kept a b" and "approvals_kept b c"
  shows "approvals_kept a c"
  unfolding approvals_kept_def
proof
  fix d' assume "d' \<in> set (drafts c)"
  with assms(2) consider "calm d'" | d where "d \<in> set (drafts b)" "dr_id d = dr_id d'"
      "dr_status d = dr_status d'" "dr_ready_rev d = dr_ready_rev d'"
      "ready_ok b d \<longrightarrow> ready_ok c d'"
    by (auto simp: approvals_kept_def)
  then show "calm d' \<or> (\<exists>d \<in> set (drafts a). dr_id d = dr_id d' \<and> dr_status d = dr_status d'
        \<and> dr_ready_rev d = dr_ready_rev d' \<and> (ready_ok a d \<longrightarrow> ready_ok c d'))"
  proof cases
    case 2
    with assms(1) show ?thesis unfolding approvals_kept_def calm_def by metis
  qed simp
qed

lemma history_kept_trans:
  assumes "history_kept a b" and "history_kept b c" and "tables_wf a"
  shows "history_kept a c"
proof -
  have ex: "draft_exists b i" if "draft_exists c i" and "i < next_draft a" for i
    using assms(1,2) that by (auto simp: history_kept_def dest!: spec [of _ i])
  have "\<exists>v' \<in> set (revisions c). same_text v v'"
    if "v \<in> set (revisions a)" and "draft_exists c (rv_draft v)" for v
  proof -
    have "rv_draft v < next_draft a"
      using assms(3) that(1) by (simp add: tables_wf_def revisions_wf_def)
    with assms(1) that ex obtain u where u: "u \<in> set (revisions b)" "same_text v u"
      unfolding history_kept_def by blast
    with assms(2) that(2) obtain w where "w \<in> set (revisions c)" "same_text u w"
      unfolding history_kept_def same_text_def by metis
    with u show ?thesis using same_text_trans by blast
  qed
  moreover have "\<exists>j' \<in> set (djobs c). same_request j j'"
    if "j \<in> set (djobs a)" and "dj_type j = Compile" and "draft_exists c (dj_draft j)" for j
  proof -
    have "dj_draft j < next_draft a"
      using assms(3) that(1) by (simp add: tables_wf_def jobs_wf_def)
    with assms(1) that ex obtain u where u: "u \<in> set (djobs b)" "same_request j u"
      unfolding history_kept_def by blast
    with assms(2) that(2,3) obtain w where "w \<in> set (djobs c)" "same_request u w"
      unfolding history_kept_def same_request_def by metis
    with u show ?thesis using same_request_trans by blast
  qed
  moreover have "draft_exists a i \<or> next_draft a \<le> i" if "draft_exists c i" for i
    using assms(1) ex [OF that] unfolding history_kept_def by (meson not_less)
  ultimately show ?thesis using assms(1,2) by (auto simp: history_kept_def)
qed

lemma safe_step_trans:
  assumes "draft_inv a" and "safe_step a b" and "safe_step b c"
  shows "safe_step a c"
  using assms approvals_kept_trans history_kept_trans
  by (auto simp: safe_step_def draft_inv_def)

section \<open>Single writes\<close>

lemma ready_ok_cong:
  assumes "dr_id d' = dr_id d" and "dr_status d' = dr_status d"
    and "dr_ready_rev d' = dr_ready_rev d" and "ready_ok db d"
    and "\<And>r. approved_revision (revisions db) (dr_id d) r \<Longrightarrow>
           dr_ready_rev d = Some r \<Longrightarrow> approved_revision (revisions db') (dr_id d) r"
    and "no_active_compile (djobs db) (dr_id d) \<Longrightarrow> dr_ready_rev d \<noteq> None \<Longrightarrow>
           no_active_compile (djobs db') (dr_id d)"
  shows "ready_ok db' d'"
  using assms by (auto simp: ready_ok_def split: option.splits)

lemma approvals_kept_same:
  assumes "drafts db' = drafts db"
    and "\<And>d. d \<in> set (drafts db) \<Longrightarrow> ready_ok db d \<Longrightarrow> ready_ok db' d"
  shows "approvals_kept db db'"
  unfolding approvals_kept_def assms(1) using assms(2) by blast

lemma history_kept_same:
  assumes "drafts db' = drafts db" and "next_draft db' = next_draft db"
    and "\<And>v. v \<in> set (revisions db) \<Longrightarrow> \<exists>v' \<in> set (revisions db'). same_text v v'"
    and "\<And>j. j \<in> set (djobs db) \<Longrightarrow> \<exists>j' \<in> set (djobs db'). same_request j j'"
  shows "history_kept db db'"
  unfolding history_kept_def draft_exists_def assms(1,2) using assms(3,4) by blast

text \<open>Writes to the other tables touch nothing of this.\<close>

lemma safe_other:
  assumes "draft_inv db" and "drafts db' = drafts db" and "revisions db' = revisions db"
    and "djobs db' = djobs db" and "next_draft db' = next_draft db"
    and "next_revision db' = next_revision db" and "next_job db' = next_job db"
  shows "safe_step db db'"
proof -
  have ok: "ready_ok db' d = ready_ok db d" for d
    unfolding ready_ok_def assms(3,4) ..
  show ?thesis
    using safe_step_refl [OF assms(1)]
    unfolding safe_step_def tables_wf_def drafts_wf_def revisions_wf_def jobs_wf_def
      approvals_kept_def history_kept_def draft_exists_def ok assms(2-) .
qed

text \<open>A row of \<open>drafts\<close> changes nothing about its approval, or loses it.\<close>

definition approval_write :: "draft_row \<Rightarrow> draft_row \<Rightarrow> bool" where
  "approval_write d d' \<longleftrightarrow> dr_id d' = dr_id d
     \<and> (calm d' \<or> dr_status d' = dr_status d \<and> dr_ready_rev d' = dr_ready_rev d)"

lemma safe_update_drafts:
  assumes inv: "draft_inv db"
    and f: "\<And>d. d \<in> set (drafts db) \<Longrightarrow> p d \<Longrightarrow> approval_write d (f d)"
  shows "safe_step db (update_drafts p f db)"
proof -
  let ?db = "update_drafts p f db"
  have ids: "map dr_id (drafts ?db) = map dr_id (drafts db)"
    using f by (auto simp: update_drafts_def update_rows_def approval_write_def)
  then have img: "dr_id ` set (drafts ?db) = dr_id ` set (drafts db)"
    by (metis list.set_map)
  have "(\<forall>d \<in> set (drafts ?db). dr_id d < next_draft db)
      \<longleftrightarrow> (\<forall>i \<in> dr_id ` set (drafts ?db). i < next_draft db)" by blast
  then have "drafts_wf ?db"
    using inv ids by (simp add: img draft_inv_def tables_wf_def drafts_wf_def)
      (simp add: update_drafts_def)
  moreover have "revisions_wf ?db = revisions_wf db" and "jobs_wf ?db = jobs_wf db"
    by (simp_all add: revisions_wf_def jobs_wf_def update_drafts_def)
  ultimately have "tables_wf ?db"
    using inv by (simp add: draft_inv_def tables_wf_def)
  moreover have "approvals_kept db ?db"
    unfolding approvals_kept_def
  proof
    fix d' assume "d' \<in> set (drafts ?db)"
    then obtain d where d: "d \<in> set (drafts db)" "d' = (if p d then f d else d)"
      by (auto simp: update_drafts_def set_update_rows)
    have w: "approval_write d d'" using f d by (auto simp: approval_write_def)
    have "calm d' \<or> (dr_status d' = dr_status d \<and> dr_ready_rev d' = dr_ready_rev d
        \<and> (ready_ok db d \<longrightarrow> ready_ok ?db d'))"
    proof (cases "calm d'")
      case False
      with w have "dr_id d' = dr_id d" "dr_status d' = dr_status d" "dr_ready_rev d' = dr_ready_rev d"
        by (auto simp: approval_write_def)
      then show ?thesis
        using ready_ok_cong [of d' d db ?db] by (simp add: update_drafts_def)
    qed simp
    then show "calm d' \<or> (\<exists>d \<in> set (drafts db). dr_id d = dr_id d' \<and> dr_status d = dr_status d'
        \<and> dr_ready_rev d = dr_ready_rev d' \<and> (ready_ok db d \<longrightarrow> ready_ok ?db d'))"
      using d(1) w unfolding approval_write_def by (metis (no_types))
  qed
  moreover have "history_kept db ?db"
    using img by (auto simp: history_kept_def draft_exists_def update_drafts_def
        intro: same_text_ex same_request_ex)
  ultimately show ?thesis by (simp add: safe_step_def)
qed

lemma jobs_wf_active:
  "jobs_wf db \<Longrightarrow> j \<in> set (djobs db) \<Longrightarrow> j' \<in> set (djobs db) \<Longrightarrow> active_compile j \<Longrightarrow>
     active_compile j' \<Longrightarrow> dj_draft j = dj_draft j' \<Longrightarrow> dj_id j = dj_id j'"
  unfolding jobs_wf_def by blast

lemma jobs_wf_key:
  "jobs_wf db \<Longrightarrow> j \<in> set (djobs db) \<Longrightarrow> j' \<in> set (djobs db) \<Longrightarrow> dj_key j = Some k \<Longrightarrow>
     dj_key j' = Some k \<Longrightarrow> dj_owner j = dj_owner j' \<Longrightarrow> dj_id j = dj_id j'"
  unfolding jobs_wf_def by fastforce

text \<open>A job keeps its identity and does not become active again.\<close>

definition job_write :: "draft_job \<Rightarrow> draft_job \<Rightarrow> bool" where
  "job_write j j' \<longleftrightarrow> same_request j j' \<and> (active_job j' \<longrightarrow> active_job j)"

lemma safe_map_jobs:
  assumes inv: "draft_inv db"
    and g: "\<And>j. j \<in> set (djobs db) \<Longrightarrow> job_write j (g j)"
  shows "safe_step db (db\<lparr>djobs := map g (djobs db)\<rparr>)"
proof -
  let ?db = "db\<lparr>djobs := map g (djobs db)\<rparr>"
  have ids: "map dj_id (map g (djobs db)) = map dj_id (djobs db)"
    using g by (auto simp: job_write_def same_request_def)
  have act: "active_compile (g j) \<Longrightarrow> active_compile j" if "j \<in> set (djobs db)" for j
    using g [OF that] by (auto simp: job_write_def same_request_def active_compile_def)
  note same = g [unfolded job_write_def same_request_def]
  have nac: "no_active_compile (djobs db) i \<Longrightarrow> no_active_compile (djobs ?db) i" for i
    using act same by (auto simp: no_active_compile_def)
  have wf: "jobs_wf db" using inv by (simp add: draft_inv_def tables_wf_def)
  have "jobs_wf ?db"
    unfolding jobs_wf_def
  proof (intro conjI)
    show "distinct (map dj_id (djobs ?db))"
      using jobs_wfD(1) [OF wf] ids by (simp del: map_map)
    show "\<forall>j \<in> set (djobs ?db). dj_id j < next_job ?db \<and> dj_draft j < next_draft ?db
          \<and> (dj_type j = Compile \<longrightarrow> dj_input j = None)"
      using jobs_wfD(2-4) [OF wf] same by simp
    show "\<forall>j \<in> set (djobs ?db). \<forall>j' \<in> set (djobs ?db).
        active_compile j \<and> active_compile j' \<and> dj_draft j = dj_draft j' \<longrightarrow> dj_id j = dj_id j'"
    proof (clarsimp)
      fix a b assume a: "a \<in> set (djobs db)" and b: "b \<in> set (djobs db)"
        and "active_compile (g a)" "active_compile (g b)" "dj_draft (g a) = dj_draft (g b)"
      then have "active_compile a" "active_compile b" "dj_draft a = dj_draft b"
        using act same [OF a] same [OF b] a b by simp_all
      then show "dj_id (g a) = dj_id (g b)"
        using jobs_wf_active [OF wf a b] same [OF a] same [OF b] by simp
    qed
    show "\<forall>j \<in> set (djobs ?db). \<forall>j' \<in> set (djobs ?db).
        dj_key j \<noteq> None \<and> dj_key j = dj_key j' \<and> dj_owner j = dj_owner j' \<longrightarrow> dj_id j = dj_id j'"
    proof (clarsimp)
      fix a b y assume a: "a \<in> set (djobs db)" and b: "b \<in> set (djobs db)"
        and "dj_key (g a) = Some y" "dj_key (g b) = Some y" "dj_owner (g a) = dj_owner (g b)"
      then have "dj_key a = Some y" "dj_key b = Some y" "dj_owner a = dj_owner b"
        using same [OF a] same [OF b] by simp_all
      then show "dj_id (g a) = dj_id (g b)"
        using jobs_wf_key [OF wf a b] same [OF a] same [OF b] by simp
    qed
  qed
  moreover have "drafts_wf ?db = drafts_wf db" and "revisions_wf ?db = revisions_wf db"
    by (simp_all add: drafts_wf_def revisions_wf_def)
  ultimately have "tables_wf ?db"
    using inv by (simp add: draft_inv_def tables_wf_def)
  moreover have "approvals_kept db ?db"
  proof (rule approvals_kept_same)
    fix d assume ok: "ready_ok db d"
    show "ready_ok ?db d"
      by (rule ready_ok_cong [OF _ _ _ ok]) (use nac [of "dr_id d"] in simp_all)
  qed simp
  moreover have "history_kept db ?db"
    by (rule history_kept_same) (use g in \<open>auto simp: job_write_def intro: same_text_ex\<close>)
  ultimately show ?thesis by (simp add: safe_step_def)
qed

lemma safe_update_jobs:
  assumes "draft_inv db"
    and "\<And>j. j \<in> set (djobs db) \<Longrightarrow> p j \<Longrightarrow> job_write j (f j)"
  shows "safe_step db (update_jobs p f db)"
  using safe_map_jobs [OF assms(1), of "\<lambda>j. if p j then f j else j"] assms(2)
  by (simp add: update_jobs_def update_rows_def job_write_def)

text \<open>A new job: if it is a compile, the draft has neither another nor an approval.\<close>

lemma safe_add_job:
  assumes inv: "draft_inv db" and j: "dj_id j = next_job db" "dj_draft j < next_draft db"
    and ty: "dj_type j = Compile \<Longrightarrow> dj_input j = None"
    and act: "active_compile j \<Longrightarrow> no_active_compile (djobs db) (dj_draft j)
      \<and> (\<forall>d \<in> set (drafts db). dr_id d = dj_draft j \<longrightarrow> dr_ready_rev d = None)"
    and key: "\<And>x j'. dj_key j = Some x \<Longrightarrow> j' \<in> set (djobs db) \<Longrightarrow> dj_key j' = Some x \<Longrightarrow>
      dj_owner j' \<noteq> dj_owner j"
  shows "safe_step db (add_job j db)"
proof -
  let ?db = "add_job j db"
  have wf: "jobs_wf db" using inv by (simp add: draft_inv_def tables_wf_def)
  have lt: "dj_id k < next_job db" "dj_draft k < next_draft db"
      "dj_type k = Compile \<longrightarrow> dj_input k = None" if "k \<in> set (djobs db)" for k
    using wf that by (simp_all add: jobs_wf_def)
  have "jobs_wf ?db"
    unfolding jobs_wf_def
  proof (intro conjI)
    show "distinct (map dj_id (djobs ?db))"
      using jobs_wfD(1) [OF wf] j(1) lt(1) by (force simp: add_job_def)
    show "\<forall>k \<in> set (djobs ?db). dj_id k < next_job ?db \<and> dj_draft k < next_draft ?db
          \<and> (dj_type k = Compile \<longrightarrow> dj_input k = None)"
      using lt(1) [THEN less_SucI] lt(2,3) j ty by (auto simp: add_job_def)
    show "\<forall>a \<in> set (djobs ?db). \<forall>b \<in> set (djobs ?db).
        active_compile a \<and> active_compile b \<and> dj_draft a = dj_draft b \<longrightarrow> dj_id a = dj_id b"
    proof (intro ballI impI, elim conjE)
      fix a b assume m: "a \<in> set (djobs ?db)" "b \<in> set (djobs ?db)"
        and ab: "active_compile a" "active_compile b" "dj_draft a = dj_draft b"
      have new: "k \<in> set (djobs db) \<or> k = j" if "k \<in> set (djobs ?db)" for k
        using that by (auto simp: add_job_def)
      from new [OF m(1)] new [OF m(2)] show "dj_id a = dj_id b"
      proof (elim disjE)
        assume "a \<in> set (djobs db)" and "b \<in> set (djobs db)"
        then show ?thesis using jobs_wf_active [OF wf] ab by blast
      next
        assume a: "a \<in> set (djobs db)" and b: "b = j"
        then have "no_active_compile (djobs db) (dj_draft j)" using act ab(2) by blast
        then show ?thesis using a b ab unfolding no_active_compile_def by blast
      next
        assume a: "a = j" and b: "b \<in> set (djobs db)"
        then have "no_active_compile (djobs db) (dj_draft j)" using act ab(1) by blast
        then show ?thesis using a b ab(2) ab(3) [symmetric] unfolding no_active_compile_def by blast
      qed simp
    qed
    show "\<forall>a \<in> set (djobs ?db). \<forall>b \<in> set (djobs ?db).
        dj_key a \<noteq> None \<and> dj_key a = dj_key b \<and> dj_owner a = dj_owner b \<longrightarrow> dj_id a = dj_id b"
    proof (intro ballI impI, elim conjE)
      fix a b assume m: "a \<in> set (djobs ?db)" "b \<in> set (djobs ?db)"
        and ab: "dj_key a \<noteq> None" "dj_key a = dj_key b" "dj_owner a = dj_owner b"
      have new: "k \<in> set (djobs db) \<or> k = j" if "k \<in> set (djobs ?db)" for k
        using that by (auto simp: add_job_def)
      from new [OF m(1)] new [OF m(2)] show "dj_id a = dj_id b"
        using jobs_wf_key [OF wf, of a b] ab key [of _ a] key [of _ b] by fastforce
    qed
  qed
  moreover have "drafts_wf ?db = drafts_wf db" and "revisions_wf ?db = revisions_wf db"
    by (simp_all add: drafts_wf_def revisions_wf_def add_job_def)
  ultimately have "tables_wf ?db"
    using inv by (simp add: draft_inv_def tables_wf_def)
  moreover have "approvals_kept db ?db"
  proof (rule approvals_kept_same)
    fix d assume d: "d \<in> set (drafts db)" and ok: "ready_ok db d"
    show "ready_ok ?db d"
      by (rule ready_ok_cong [OF _ _ _ ok])
        (use act d in \<open>auto simp: add_job_def no_active_compile_def\<close>)
  qed (simp add: add_job_def)
  moreover have "history_kept db ?db"
    by (rule history_kept_same) (auto simp: add_job_def intro: same_text_ex same_request_ex)
  ultimately show ?thesis by (simp add: safe_step_def)
qed

text \<open>Writes to revisions spare the current, fact-checked revision of an approved draft.\<close>

definition unapproved :: "draft_db \<Rightarrow> nat \<Rightarrow> bool" where
  "unapproved db i \<longleftrightarrow> (\<forall>d \<in> set (drafts db). dr_id d = i \<longrightarrow> dr_ready_rev d = None)"

lemma safe_map_revisions:
  assumes inv: "draft_inv db"
    and same: "\<And>v. v \<in> set (revisions db) \<Longrightarrow> same_text v (g v)"
    and other: "\<And>v. v \<in> set (revisions db) \<Longrightarrow> \<not> unapproved db (rv_draft v) \<Longrightarrow> g v = v"
    and one: "\<And>v v'. v \<in> set (revisions db) \<Longrightarrow> v' \<in> set (revisions db) \<Longrightarrow>
      rv_draft v = rv_draft v' \<Longrightarrow> rv_current (g v) \<Longrightarrow> rv_current (g v') \<Longrightarrow> rv_id v = rv_id v'"
  shows "safe_step db (db\<lparr>revisions := map g (revisions db)\<rparr>)"
proof -
  let ?db = "db\<lparr>revisions := map g (revisions db)\<rparr>"
  note s = same [unfolded same_text_def]
  have wf: "revisions_wf db" using inv by (simp add: draft_inv_def tables_wf_def)
  have ids: "map rv_id (map g (revisions db)) = map rv_id (revisions db)"
    using s by simp
  have no: "rv_id v = rv_id v'" if "v \<in> set (revisions db)" "v' \<in> set (revisions db)"
      "rv_draft v = rv_draft v'" "rv_no v = rv_no v'" for v v'
    using wf that unfolding revisions_wf_def by blast
  have "revisions_wf ?db"
    unfolding revisions_wf_def
  proof (intro conjI)
    show "distinct (map rv_id (revisions ?db))"
      using revisions_wfD(1) [OF wf] ids by (simp del: map_map)
    show "\<forall>v \<in> set (revisions ?db). rv_id v < next_revision ?db \<and> rv_draft v < next_draft ?db"
      using revisions_wfD(2,3) [OF wf] s by simp
    show "\<forall>v \<in> set (revisions ?db). \<forall>v' \<in> set (revisions ?db). rv_draft v = rv_draft v' \<longrightarrow>
          (rv_no v = rv_no v' \<or> rv_current v \<and> rv_current v') \<longrightarrow> rv_id v = rv_id v'"
    proof (intro ballI impI)
      fix v v' assume "v \<in> set (revisions ?db)" "v' \<in> set (revisions ?db)"
        and e: "rv_draft v = rv_draft v'" "rv_no v = rv_no v' \<or> rv_current v \<and> rv_current v'"
      then obtain a b where a: "a \<in> set (revisions db)" and b: "b \<in> set (revisions db)"
        and v: "v = g a" "v' = g b" by auto
      note d = e(1) [unfolded v] and c = e(2) [unfolded v]
      have "rv_draft a = rv_draft b" using d s [OF a] s [OF b] by simp
      then have "rv_id a = rv_id b"
        using c no [OF a b] one [OF a b] s [OF a] s [OF b] by auto
      then show "rv_id v = rv_id v'" using v s [OF a] s [OF b] by simp
    qed
  qed
  moreover have "drafts_wf ?db = drafts_wf db" and "jobs_wf ?db = jobs_wf db"
    by (simp_all add: drafts_wf_def jobs_wf_def)
  ultimately have "tables_wf ?db"
    using inv by (simp add: draft_inv_def tables_wf_def)
  moreover have "approvals_kept db ?db"
  proof (rule approvals_kept_same)
    fix d assume d: "d \<in> set (drafts db)" and ok: "ready_ok db d"
    show "ready_ok ?db d"
    proof (rule ready_ok_cong [OF _ _ _ ok])
      fix r assume "approved_revision (revisions db) (dr_id d) r" and r: "dr_ready_rev d = Some r"
      then obtain v where v: "v \<in> set (revisions db)" "rv_id v = r" "rv_draft v = dr_id d"
          "rv_current v" "fact_current v"
        by (auto simp: approved_revision_def)
      have "\<not> unapproved db (rv_draft v)" using d r v(3) by (auto simp: unapproved_def)
      then have "g v = v" using other v(1) by blast
      then have "v \<in> set (revisions ?db)" using v(1) by (simp add: rev_image_eqI)
      then show "approved_revision (revisions ?db) (dr_id d) r"
        using v unfolding approved_revision_def by blast
    qed simp_all
  qed simp
  moreover have "history_kept db ?db"
    by (rule history_kept_same) (use same in \<open>auto intro: same_request_ex\<close>)
  ultimately show ?thesis by (simp add: safe_step_def)
qed

lemma max_fold_le: "x \<in> set xs \<union> {a} \<Longrightarrow> x \<le> fold max xs (a :: nat)"
proof (induction xs arbitrary: a x)
  case (Cons y xs)
  have "max y a \<le> fold max xs (max y a)" by (rule Cons.IH) simp
  moreover have "x \<le> fold max xs (max y a)" if "x \<in> set xs" by (rule Cons.IH) (simp add: that)
  ultimately show ?case using Cons.prems by auto
qed simp

lemma next_revision_no_gt:
  "v \<in> set (revisions db) \<Longrightarrow> rv_draft v = i \<Longrightarrow> rv_no v < next_revision_no db i"
  using max_fold_le [of "rv_no v" "map rv_no (filter (\<lambda>v. rv_draft v = i) (revisions db))" 0]
  by (auto simp: next_revision_no_def less_Suc_eq_le)

lemma safe_add_revision:
  assumes inv: "draft_inv db" and v: "rv_id v = next_revision db" "rv_draft v < next_draft db"
    and no: "\<And>u. u \<in> set (revisions db) \<Longrightarrow> rv_draft u = rv_draft v \<Longrightarrow> rv_no u < rv_no v"
    and cur: "\<And>u. u \<in> set (revisions db) \<Longrightarrow> rv_draft u = rv_draft v \<Longrightarrow> rv_current v \<Longrightarrow>
      \<not> rv_current u"
  shows "safe_step db (add_revision v db)"
proof -
  let ?db = "add_revision v db"
  have wf: "revisions_wf db" using inv by (simp add: draft_inv_def tables_wf_def)
  note d = revisions_wfD [OF wf]
  have uniq: "rv_id a = rv_id b" if "a \<in> set (revisions db)" "b \<in> set (revisions db)"
      "rv_draft a = rv_draft b" "rv_no a = rv_no b \<or> rv_current a \<and> rv_current b" for a b
    using wf that unfolding revisions_wf_def by blast
  have "revisions_wf ?db"
    unfolding revisions_wf_def
  proof (intro conjI)
    show "distinct (map rv_id (revisions ?db))"
      using d(1,2) v(1) by (force simp: add_revision_def)
    show "\<forall>u \<in> set (revisions ?db). rv_id u < next_revision ?db \<and> rv_draft u < next_draft ?db"
      using d(2) [THEN less_SucI] d(3) v by (auto simp: add_revision_def)
    show "\<forall>a \<in> set (revisions ?db). \<forall>b \<in> set (revisions ?db). rv_draft a = rv_draft b \<longrightarrow>
          (rv_no a = rv_no b \<or> rv_current a \<and> rv_current b) \<longrightarrow> rv_id a = rv_id b"
    proof (intro ballI impI)
      fix a b assume m: "a \<in> set (revisions ?db)" "b \<in> set (revisions ?db)"
        and e: "rv_draft a = rv_draft b" "rv_no a = rv_no b \<or> rv_current a \<and> rv_current b"
      have new: "u \<in> set (revisions db) \<or> u = v" if "u \<in> set (revisions ?db)" for u
        using that by (auto simp: add_revision_def)
      from new [OF m(1)] new [OF m(2)] show "rv_id a = rv_id b"
        using uniq [of a b] e no [of a] no [of b] cur [of a] cur [of b] by fastforce
    qed
  qed
  moreover have "drafts_wf ?db = drafts_wf db" and "jobs_wf ?db = jobs_wf db"
    by (simp_all add: drafts_wf_def jobs_wf_def add_revision_def)
  ultimately have "tables_wf ?db"
    using inv by (simp add: draft_inv_def tables_wf_def)
  moreover have "approvals_kept db ?db"
  proof (rule approvals_kept_same)
    fix d assume ok: "ready_ok db d"
    show "ready_ok ?db d"
      by (rule ready_ok_cong [OF _ _ _ ok]) (auto simp: add_revision_def approved_revision_def)
  qed (simp add: add_revision_def)
  moreover have "history_kept db ?db"
    by (rule history_kept_same) (auto simp: add_revision_def intro: same_text_ex same_request_ex)
  ultimately show ?thesis by (simp add: safe_step_def)
qed

text \<open>Deletions: what is left keeps its rows.\<close>

lemma history_kept_filter:
  assumes "next_draft db \<le> next_draft db'"
    and "\<And>i. draft_exists db' i \<Longrightarrow> draft_exists db i \<or> next_draft db \<le> i"
    and "\<And>v. v \<in> set (revisions db) \<Longrightarrow> draft_exists db' (rv_draft v) \<Longrightarrow> v \<in> set (revisions db')"
    and "\<And>j. j \<in> set (djobs db) \<Longrightarrow> dj_type j = Compile \<Longrightarrow> draft_exists db' (dj_draft j) \<Longrightarrow>
           j \<in> set (djobs db')"
  shows "history_kept db db'"
  unfolding history_kept_def using assms same_text_refl same_request_refl by blast

lemma safe_delete_draft:
  assumes inv: "draft_inv db"
    and i: "\<And>d. d \<in> set (drafts db) \<Longrightarrow> dr_id d = i \<Longrightarrow> p d"
    and p: "\<And>d. p d \<Longrightarrow> dr_id d = i"
    and db': "drafts db' = filter (\<lambda>d. \<not> p d) (drafts db)"
      "revisions db' = filter (\<lambda>v. rv_draft v \<noteq> i) (revisions db)"
      "djobs db' = filter (\<lambda>j. dj_draft j \<noteq> i) (djobs db)"
      "next_draft db' = next_draft db" "next_revision db' = next_revision db"
      "next_job db' = next_job db"
  shows "safe_step db db'"
proof -
  have wf: "drafts_wf db" "revisions_wf db" "jobs_wf db"
    using inv by (simp_all add: draft_inv_def tables_wf_def)
  have "drafts_wf db'" using drafts_wfD [OF wf(1)] by (simp add: drafts_wf_def db' distinct_map_filter)
  moreover have "revisions_wf db'"
    by (rule revisions_wf_mono [OF wf(2)])
      (use revisions_wfD(1) [OF wf(2)] in \<open>auto simp: db' distinct_map_filter\<close>)
  moreover have "jobs_wf db'"
    by (rule jobs_wf_mono [OF wf(3)])
      (use jobs_wfD(1) [OF wf(3)] in \<open>auto simp: db' distinct_map_filter\<close>)
  moreover have "approvals_kept db db'"
    unfolding approvals_kept_def
  proof
    fix d' assume "d' \<in> set (drafts db')"
    then have d: "d' \<in> set (drafts db)" "dr_id d' \<noteq> i" using i by (auto simp: db')
    have "ready_ok db d' \<longrightarrow> ready_ok db' d'"
    proof
      assume ok: "ready_ok db d'"
      show "ready_ok db' d'"
        by (rule ready_ok_cong [OF _ _ _ ok])
          (use d(2) in \<open>auto simp: db' approved_revision_def no_active_compile_def\<close>)
    qed
    with d(1) show "calm d' \<or> (\<exists>d \<in> set (drafts db). dr_id d = dr_id d' \<and> dr_status d = dr_status d'
        \<and> dr_ready_rev d = dr_ready_rev d' \<and> (ready_ok db d \<longrightarrow> ready_ok db' d'))" by blast
  qed
  moreover have "history_kept db db'"
    by (rule history_kept_filter) (use i in \<open>auto simp: draft_exists_def db'\<close>)
  ultimately show ?thesis by (simp add: safe_step_def tables_wf_def)
qed

lemma safe_delete_parse_jobs:
  assumes inv: "draft_inv db"
  shows "safe_step db (db\<lparr>inputs := xs, djobs := filter (\<lambda>j. dj_input j \<noteq> Some n) (djobs db)\<rparr>)"
    (is "safe_step db ?db")
proof -
  have wf: "jobs_wf db" using inv by (simp add: draft_inv_def tables_wf_def)
  have "jobs_wf ?db"
    by (rule jobs_wf_mono [OF wf]) (use jobs_wfD(1) [OF wf] in \<open>auto simp: distinct_map_filter\<close>)
  moreover have "drafts_wf ?db = drafts_wf db" and "revisions_wf ?db = revisions_wf db"
    by (simp_all add: drafts_wf_def revisions_wf_def)
  ultimately have "tables_wf ?db" using inv by (simp add: draft_inv_def tables_wf_def)
  moreover have "approvals_kept db ?db"
  proof (rule approvals_kept_same)
    fix d assume ok: "ready_ok db d"
    show "ready_ok ?db d"
      by (rule ready_ok_cong [OF _ _ _ ok]) (auto simp: no_active_compile_def)
  qed simp
  moreover have "history_kept db ?db"
    by (rule history_kept_filter) (use jobs_wfD(4) [OF wf] in \<open>auto simp: draft_exists_def\<close>)
  ultimately show ?thesis by (simp add: safe_step_def)
qed

lemma safe_create_draft:
  assumes inv: "draft_inv db" and d: "dr_id d = next_draft db" "calm d"
  shows "safe_step db (db\<lparr>drafts := drafts db @ [d], next_draft := Suc (next_draft db)\<rparr>)"
    (is "safe_step db ?db")
proof -
  have wf: "drafts_wf db" "revisions_wf db" "jobs_wf db"
    using inv by (simp_all add: draft_inv_def tables_wf_def)
  have "drafts_wf ?db"
    using drafts_wfD [OF wf(1)] d(1) by (force simp: drafts_wf_def intro: less_SucI)
  moreover have "revisions_wf ?db"
    by (rule revisions_wf_mono [OF wf(2)]) (use revisions_wfD(1) [OF wf(2)] in simp_all)
  moreover have "jobs_wf ?db"
    by (rule jobs_wf_mono [OF wf(3)]) (use jobs_wfD(1) [OF wf(3)] in simp_all)
  moreover have "approvals_kept db ?db"
  proof -
    have "ready_ok ?db e = ready_ok db e" for e
      by (simp add: ready_ok_def split: option.split)
    then show ?thesis using d(2) unfolding approvals_kept_def by auto
  qed
  moreover have "history_kept db ?db"
    by (rule history_kept_filter) (use d(1) in \<open>auto simp: draft_exists_def\<close>)
  ultimately show ?thesis by (simp add: safe_step_def tables_wf_def)
qed

text \<open>Replacing the current revision of a draft that is not approved.\<close>

lemma current_unique:
  assumes "revisions_wf db" and "v \<in> set (revisions db)" and "v' \<in> set (revisions db)"
    and "rv_draft v = rv_draft v'" and "rv_current v" and "rv_current v'"
  shows "v = v'"
proof -
  have "rv_id v = rv_id v'" using assms unfolding revisions_wf_def by blast
  with distinct_key_eq [OF revisions_wfD(1) [OF assms(1)] assms(2,3)] show ?thesis .
qed

definition retire :: "revision_row \<Rightarrow> revision_row" where
  "retire v = v\<lparr>rv_current := False\<rparr>"

lemma retire_simps [simp]:
  "rv_id (retire v) = rv_id v" "rv_draft (retire v) = rv_draft v" "rv_no (retire v) = rv_no v"
  "\<not> rv_current (retire v)" "same_text v (retire v)"
  by (simp_all add: retire_def same_text_def)

lemma safe_retire:
  assumes inv: "draft_inv db" and un: "unapproved db i"
    and p: "\<And>v. v \<in> set (revisions db) \<Longrightarrow> p v \<Longrightarrow> rv_draft v = i"
  shows "safe_step db (update_revisions p retire db)"
proof -
  have wf: "revisions_wf db" using inv by (simp add: draft_inv_def tables_wf_def)
  have "safe_step db (db\<lparr>revisions := map (\<lambda>v. if p v then retire v else v) (revisions db)\<rparr>)"
  proof (rule safe_map_revisions [OF inv])
    fix v v' assume "v \<in> set (revisions db)" "v' \<in> set (revisions db)" "rv_draft v = rv_draft v'"
      "rv_current (if p v then retire v else v)" "rv_current (if p v' then retire v' else v')"
    then show "rv_id v = rv_id v'"
      using current_unique [OF wf] by (auto split: if_splits)
  qed (use p un in auto)
  then show ?thesis by (simp add: update_revisions_def update_rows_def)
qed

lemma safe_replace_current:
  assumes inv: "draft_inv db" and un: "unapproved db i" and i: "i < next_draft db"
    and p: "\<And>u. u \<in> set (revisions db) \<Longrightarrow> p u \<Longrightarrow> rv_draft u = i"
    and all: "\<And>u. u \<in> set (revisions db) \<Longrightarrow> rv_draft u = i \<Longrightarrow> rv_current u \<Longrightarrow> p u"
    and v: "rv_id v = next_revision db" "rv_draft v = i" "rv_no v = next_revision_no db i"
  shows "safe_step db (add_revision v (update_revisions p retire db))"
proof -
  let ?db = "update_revisions p retire db"
  have s: "safe_step db ?db" by (rule safe_retire [OF inv un p])
  have mem: "\<exists>w \<in> set (revisions db). u = (if p w then retire w else w)"
    if "u \<in> set (revisions ?db)" for u
    using that by (auto simp: update_revisions_def set_update_rows)
  have "safe_step ?db (add_revision v ?db)"
  proof (rule safe_add_revision [OF safe_step_inv [OF inv s]])
    show "rv_no u < rv_no v" if u: "u \<in> set (revisions ?db)" "rv_draft u = rv_draft v" for u
      using mem [OF u(1)] u(2) next_revision_no_gt [of _ db i] v by (auto split: if_splits)
    show "\<not> rv_current u" if u: "u \<in> set (revisions ?db)" "rv_draft u = rv_draft v" for u
    proof -
      obtain w where w: "w \<in> set (revisions db)" "u = (if p w then retire w else w)"
        using mem [OF u(1)] by blast
      then show ?thesis using all [OF w(1)] u(2) v(2) by (cases "p w") auto
    qed
  qed (use v i in \<open>simp_all add: update_revisions_def\<close>)
  with s show ?thesis by (rule safe_step_trans [OF inv])
qed

lemma safe_publish:
  assumes inv: "draft_inv db" and un: "unapproved db i"
    and r: "\<And>v. v \<in> set (revisions db) \<Longrightarrow> rv_id v = r \<Longrightarrow> rv_draft v = i"
  shows "safe_step db (update_revisions (\<lambda>v. rv_id v = r) (\<lambda>v. v\<lparr>rv_current := True\<rparr>)
           (update_revisions (\<lambda>v. rv_draft v = i \<and> rv_current v) retire db))"
    (is "safe_step db ?db")
proof -
  have wf: "revisions_wf db" using inv by (simp add: draft_inv_def tables_wf_def)
  let ?g = "\<lambda>v. if rv_id v = r then v\<lparr>rv_current := True\<rparr>
                else if rv_draft v = i \<and> rv_current v then retire v else v"
  have eq: "?db = db\<lparr>revisions := map ?g (revisions db)\<rparr>"
    by (auto simp: update_revisions_def update_rows_def retire_def)
  show ?thesis
    unfolding eq
  proof (rule safe_map_revisions [OF inv])
    fix v v' assume v: "v \<in> set (revisions db)" "v' \<in> set (revisions db)" "rv_draft v = rv_draft v'"
      and c: "rv_current (?g v)" "rv_current (?g v')"
    show "rv_id v = rv_id v'"
    proof (cases "rv_draft v = i")
      case True
      then show ?thesis using v(3) c by (auto split: if_splits)
    next
      case False
      then have "rv_current v \<and> rv_current v'" using c v r by (auto split: if_splits)
      then show ?thesis using current_unique [OF wf v] by simp
    qed
  next
    fix v assume "v \<in> set (revisions db)" "\<not> unapproved db (rv_draft v)"
    then show "?g v = v" using un r by auto
  qed (simp add: same_text_def retire_def)
qed

end
