(* ===== verification/Draft_Steps.thy ===== *)
theory Draft_Steps
  imports Draft_Invariants
begin

text \<open>
  Every Draft Room operation is a safe step: one lemma per operation in \<open>safe_ops\<close>, the
  exact condition of the mark-ready request, and the invariant of any run.
\<close>

section \<open>Operations are safe steps\<close>

named_theorems safe_ops \<open>each operation of the Draft Room is a safe step\<close>

lemma locked_draftD:
  "locked_draft db i u l = Inr d \<Longrightarrow> d \<in> set (drafts db) \<and> dr_id d = i \<and> dr_owner d = u
     \<and> (\<forall>x. l = Some x \<longrightarrow> dr_lock d = x)"
  by (auto simp: locked_draft_def draft_at_def split: option.splits if_splits dest!: find_SomeD)

lemma approval_write_simps [simp]:
  "approval_write d (bump_lock d') = approval_write d d'"
  "dr_ready_rev (clear_ready d) = None" "dr_status (clear_ready d) = dr_status d"
  "dr_id (clear_ready d) = dr_id d" "dr_id (bump_lock d) = dr_id d"
  "dr_status (bump_lock d) = dr_status d" "dr_ready_rev (bump_lock d) = dr_ready_rev d"
  by (simp_all add: approval_write_def bump_lock_def clear_ready_def calm_def)

lemma approval_write_clear:
  "dr_status d' \<noteq> SReady \<Longrightarrow> dr_id d' = dr_id d \<Longrightarrow> approval_write d (clear_ready d')"
  by (simp add: approval_write_def calm_def)

lemma approval_write_same:
  "dr_id d' = dr_id d \<Longrightarrow> dr_status d' = dr_status d \<Longrightarrow> dr_ready_rev d' = dr_ready_rev d \<Longrightarrow>
     approval_write d d'"
  by (simp add: approval_write_def)

text \<open>A draft that is not ready has no pointer, so moving it to a status but Ready is safe.\<close>

lemma inv_not_ready:
  "draft_inv db \<Longrightarrow> d \<in> set (drafts db) \<Longrightarrow> dr_status d \<noteq> SReady \<Longrightarrow> dr_ready_rev d = None"
  by (force simp: draft_inv_def ready_ok_def split: option.splits)

lemma inv_wfD:
  "draft_inv db \<Longrightarrow> drafts_wf db" "draft_inv db \<Longrightarrow> revisions_wf db" "draft_inv db \<Longrightarrow> jobs_wf db"
  by (simp_all add: draft_inv_def tables_wf_def)

lemma inv_draft_unique:
  "draft_inv db \<Longrightarrow> d \<in> set (drafts db) \<Longrightarrow> d' \<in> set (drafts db) \<Longrightarrow> dr_id d = dr_id d' \<Longrightarrow> d = d'"
  by (rule distinct_key_eq [OF drafts_wfD(1) [OF inv_wfD(1)]])

lemma draft_status_ofD:
  assumes "draft_inv db" and "draft_status_of db i = Some s" and "d \<in> set (drafts db)"
    and "dr_id d = i"
  shows "dr_status d = s"
proof -
  from assms(2) obtain e where f: "find (\<lambda>d. dr_id d = i) (drafts db) = Some e" and e: "dr_status e = s"
    by (auto simp: draft_status_of_def)
  have "d = e" using inv_draft_unique [OF assms(1,3)] find_SomeD [OF f] assms(4) by metis
  with e show ?thesis by simp
qed

lemma safe_move_draft_status:
  assumes "draft_inv db" and "draft_status_of db i = Some s" and "s \<noteq> SReady" and "t \<noteq> SReady"
  shows "safe_step db (update_drafts (\<lambda>d. dr_id d = i) (\<lambda>d. d\<lparr>dr_status := t\<rparr>) db)"
proof (rule safe_update_drafts [OF assms(1)])
  fix d assume d: "d \<in> set (drafts db)" "dr_id d = i"
  then have "dr_ready_rev d = None"
    using draft_status_ofD [OF assms(1,2)] assms(3) inv_not_ready [OF assms(1)] by auto
  then show "approval_write d (d\<lparr>dr_status := t\<rparr>)"
    using assms(4) by (simp add: approval_write_def calm_def)
qed

lemma safe_update_inputs: "draft_inv db \<Longrightarrow> safe_step db (update_inputs p f db)"
  by (rule safe_other) (simp_all add: update_inputs_def)

lemma safe_update_findings: "draft_inv db \<Longrightarrow> safe_step db (update_findings p f db)"
  by (rule safe_other) (simp_all add: update_findings_def)

lemma safe_add_finding: "draft_inv db \<Longrightarrow> safe_step db (add_finding f db)"
  by (rule safe_other) (simp_all add: add_finding_def)

lemma job_write_same:
  "same_request j j' \<Longrightarrow> (active_job j' \<longrightarrow> active_job j) \<Longrightarrow> job_write j j'"
  by (simp add: job_write_def)

text \<open>Projects.\<close>

lemma create_draft_safe [safe_ops]:
  assumes "draft_inv db" and "create_draft v u t m ti b db = Inr db'"
  shows "safe_step db db'"
  using assms safe_create_draft [OF assms(1)]
  by (auto simp: create_draft_def Let_def calm_def split: if_splits)

lemma invalidate_ready_safe:
  assumes "draft_inv db" and "invalidate_ready d u db = Inr db'"
  shows "safe_step db db'"
  using assms by (auto simp: invalidate_ready_def split: if_splits
      intro!: safe_update_drafts approval_write_clear)

lemma update_draft_safe [safe_ops]:
  assumes inv: "draft_inv db" and e: "update_draft i u l t b ti db = Inr db'"
  shows "safe_step db db'"
proof -
  let ?db = "update_drafts (draft_at i u) (\<lambda>d. bump_lock (d\<lparr>dr_title := coalesce (map_option py_strip t) (dr_title d),
        dr_brief := coalesce b (dr_brief d), dr_tier := coalesce ti (dr_tier d)\<rparr>)) db"
  have s: "safe_step db ?db"
    by (rule safe_update_drafts [OF inv]) (simp add: approval_write_same)
  from e have "db' = ?db \<or> (\<exists>d. invalidate_ready d u ?db = Inr db')"
    by (auto simp: update_draft_def Let_def split: if_splits sum.splits)
  then show ?thesis
    using s safe_step_trans [OF inv s] invalidate_ready_safe [OF safe_step_inv [OF inv s]] by blast
qed

lemma archive_draft_safe [safe_ops]:
  assumes "draft_inv db" and "archive_draft i u l db = Inr db'"
  shows "safe_step db db'"
  using assms by (auto simp: archive_draft_def split: if_splits sum.splits
      intro!: safe_update_drafts approval_write_clear)

lemma restore_draft_safe [safe_ops]:
  assumes "draft_inv db" and "restore_draft i u l db = Inr db'"
  shows "safe_step db db'"
  using assms by (auto simp: restore_draft_def Let_def split: if_splits sum.splits
      intro!: safe_update_drafts approval_write_clear)

lemma delete_draft_row_safe [safe_ops]:
  assumes inv: "draft_inv db" and e: "delete_draft_row i u db = Inr db'"
  shows "safe_step db db'"
proof -
  from e obtain d where d: "d \<in> set (drafts db)" "draft_at i u d"
    by (auto simp: delete_draft_row_def split: if_splits option.splits dest!: find_SomeD)
  have "draft_at i u d'" if "d' \<in> set (drafts db)" "dr_id d' = i" for d'
    using inv_draft_unique [OF inv d(1) that(1)] d(2) that(2) by (auto simp: draft_at_def)
  with e show ?thesis
    by (intro safe_delete_draft [OF inv, of i "draft_at i u"])
      (auto simp: delete_draft_row_def draft_at_def split: if_splits)
qed

lemma cancel_pending_jobs_safe [safe_ops]:
  assumes "draft_inv db" and "cancel_pending_jobs i u db = Inr (n, db')"
  shows "safe_step db db'"
  using assms safe_update_jobs [OF assms(1)]
  by (auto simp: cancel_pending_jobs_def Let_def update_jobs_def job_write_def same_request_def
      active_job_def split: sum.splits)

text \<open>Inputs and parse jobs.\<close>

lemma reserve_input_safe [safe_ops]:
  assumes "draft_inv db" and "reserve_input i u r a d s sh m mb db = Inr (n, db')"
  shows "safe_step db db'"
  by (rule safe_other [OF assms(1)])
    (use assms(2) in \<open>auto simp: reserve_input_def Let_def split: if_splits sum.splits\<close>)

lemma update_input_metadata_safe [safe_ops]:
  assumes inv: "draft_inv db" and e: "update_input_metadata i u n r a d c sp db = Inr db'"
  shows "safe_step db db'"
proof -
  from e obtain p f d where "db' = update_inputs p f db
      \<or> invalidate_ready d u (update_inputs p f db) = Inr db'"
    by (auto simp: update_input_metadata_def Let_def split: if_splits sum.splits option.splits)
  then show ?thesis
    using safe_update_inputs [OF inv] safe_step_trans [OF inv safe_update_inputs [OF inv]]
      invalidate_ready_safe [OF safe_step_inv [OF inv safe_update_inputs [OF inv]]] by blast
qed

lemma set_input_parse_status_safe [safe_ops]:
  assumes "draft_inv db" and "set_input_parse_status n t x e al db = Inr db'"
  shows "safe_step db db'"
  using assms safe_update_inputs [OF assms(1)]
  by (auto simp: set_input_parse_status_def split: if_splits option.splits)

lemma delete_input_row_safe [safe_ops]:
  assumes "draft_inv db" and "delete_input_row i u n be db = Inr db'"
  shows "safe_step db db'"
  using assms safe_delete_parse_jobs [OF assms(1)]
  by (auto simp: delete_input_row_def split: if_splits sum.splits)

lemma insert_parse_job_safe:
  assumes inv: "draft_inv db" and d: "d \<in> set (drafts db)"
    and e: "insert_parse_job d n p a now db = Inr db'"
  shows "safe_step db db'"
proof -
  have "dr_id d < next_draft db"
    using drafts_wfD(2) [OF inv_wfD(1) [OF inv] d] .
  with e show ?thesis
    by (auto simp: insert_parse_job_def fresh_draft_job_def active_compile_def split: if_splits
        intro!: safe_add_job [OF inv])
qed

lemma enqueue_parse_job_safe [safe_ops]:
  assumes "draft_inv db" and "enqueue_parse_job i u n now db = Inr db'"
  shows "safe_step db db'"
  using assms by (auto simp: enqueue_parse_job_def split: if_splits sum.splits
      dest!: locked_draftD intro: insert_parse_job_safe)

lemma retry_parse_job_safe [safe_ops]:
  assumes inv: "draft_inv db" and e: "retry_parse_job i u j now db = Inr db'"
  shows "safe_step db db'"
proof -
  from e obtain d n a p f where d: "d \<in> set (drafts db)"
    and "insert_parse_job d n (Some j) a now (update_inputs p f db) = Inr db'"
    by (auto simp: retry_parse_job_def split: if_splits sum.splits option.splits
        dest!: locked_draftD)
  moreover have "d \<in> set (drafts (update_inputs p f db))" using d by (simp add: update_inputs_def)
  ultimately show ?thesis
    using safe_step_trans [OF inv safe_update_inputs [OF inv]]
      insert_parse_job_safe [OF safe_step_inv [OF inv safe_update_inputs [OF inv]]] by blast
qed

lemma recover_input_safe [safe_ops]:
  assumes "draft_inv db"
  shows "safe_step db (snd (enqueue_parse_job_for_recovery n now db))"
  using safe_step_refl [OF assms]
  by (auto simp: enqueue_parse_job_for_recovery_def split: option.splits sum.splits
      dest!: find_SomeD intro: insert_parse_job_safe [OF assms])

text \<open>Claims, cancellation and status writes.\<close>

lemma claim_job_safe:
  assumes "draft_inv db" and "claim_job ty w now db = Some (c, db')"
  shows "safe_step db db'"
  using assms(2)
  by (auto simp: claim_job_def Let_def job_write_def same_request_def active_job_def
      split: list.splits option.splits intro!: safe_update_jobs [OF assms(1)])

lemma claim_next_parse_job_safe [safe_ops]:
  assumes "draft_inv db"
  shows "safe_step db (snd (claim_next_parse_job w now db))"
  using safe_step_refl [OF assms] claim_job_safe [OF assms]
  by (auto simp: claim_next_parse_job_def split: option.splits)

lemma mark_draft_running_safe: "draft_inv db \<Longrightarrow> safe_step db (mark_draft_running i db)"
  by (auto simp: mark_draft_running_def safe_step_refl intro: safe_move_draft_status)

lemma claim_next_compile_job_safe [safe_ops]:
  assumes inv: "draft_inv db"
  shows "safe_step db (snd (claim_next_compile_job w now db))"
proof (cases "claim_job Compile w now db")
  case None
  then show ?thesis using safe_step_refl [OF inv] by (simp add: claim_next_compile_job_def)
next
  case (Some r)
  obtain c db' where r: "r = (c, db')" by (cases r)
  have s: "safe_step db db'" using claim_job_safe [OF inv] Some r by simp
  then show ?thesis
    using safe_step_trans [OF inv s mark_draft_running_safe [OF safe_step_inv [OF inv s]]]
    by (simp add: claim_next_compile_job_def Some r)
qed

lemma set_job_status_safe [safe_ops]:
  assumes inv: "draft_inv db" and e: "set_job_status j t er al w now db = Inr db'"
  shows "safe_step db db'"
proof -
  from e obtain r where r: "r \<in> set (djobs db)" "dj_id r = j"
    and ok: "transition_ok (dj_status r) t job_transitions job_recovery_transitions al"
    and db': "db' = update_jobs (job_fence j w)
       (\<lambda>r. r\<lparr>dj_status := t, dj_error := er, dj_heartbeat := Some now\<rparr>) db"
    by (auto simp: set_job_status_def split: option.splits if_splits dest!: find_SomeD)
  have act: "active_job r" if "t = DPending \<or> t = DRunning"
    using ok that by (cases "dj_status r") (auto simp: transition_ok_def active_job_def)
  have "x = r" if "x \<in> set (djobs db)" "job_fence j w x" for x
    by (rule distinct_key_eq [OF jobs_wfD(1) [OF inv_wfD(3) [OF inv]]])
      (use that r in \<open>simp_all add: job_fence_def\<close>)
  then show ?thesis
    unfolding db' using act
    by (intro safe_update_jobs [OF inv])
      (auto simp: job_write_def same_request_def active_job_def)
qed

lemma request_job_cancel_safe [safe_ops]:
  assumes inv: "draft_inv db" and e: "request_job_cancel i u j db = Inr db'"
  shows "safe_step db db'"
proof -
  let ?c = "update_jobs (\<lambda>r. dj_id r = j)
              (\<lambda>r. r\<lparr>dj_status := DCancelled, dj_cancel_requested := True\<rparr>) db"
  let ?q = "update_jobs (\<lambda>r. dj_id r = j) (\<lambda>r. r\<lparr>dj_cancel_requested := True\<rparr>) db"
  have c: "safe_step db ?c" and q: "safe_step db ?q"
    by (auto intro!: safe_update_jobs [OF inv] simp: job_write_def same_request_def active_job_def)
  have st: "draft_status_of ?c i = draft_status_of db i"
    by (simp add: draft_status_of_def update_jobs_def)
  have m: "safe_step ?c (update_drafts (\<lambda>d. dr_id d = i) (\<lambda>d. d\<lparr>dr_status := SCancelled\<rparr>) ?c)"
    if "draft_status_of db i \<in> {Some SQueued, Some SRunning}"
    using that st safe_move_draft_status [OF safe_step_inv [OF inv c]] by auto
  from e have "db' = ?c \<or> db' = ?q \<or> draft_status_of db i \<in> {Some SQueued, Some SRunning}
      \<and> db' = update_drafts (\<lambda>d. dr_id d = i) (\<lambda>d. d\<lparr>dr_status := SCancelled\<rparr>) ?c"
    by (auto simp: request_job_cancel_def Let_def split: sum.splits option.splits if_splits)
  then show ?thesis using c q safe_step_trans [OF inv c m] by blast
qed

text \<open>Recovery and settlement.\<close>

lemma settle_draft_after_lost_compile_safe:
  assumes "draft_inv db" and "settle_draft_after_lost_compile i t al db = Inr db'"
    and "t \<noteq> SReady"
  shows "safe_step db db'"
  using assms safe_step_refl [OF assms(1)]
  by (auto simp: settle_draft_after_lost_compile_def split: option.splits if_splits
      intro: safe_move_draft_status)

lemma settle_at_cap_safe [safe_ops]:
  assumes inv: "draft_inv db" and e: "settle_expired_job_at_lease_cap j i ty db = Inr db'"
  shows "safe_step db db'"
proof -
  let ?d = "update_jobs (\<lambda>r. dj_id r = j \<and> dj_status r = DRunning)
            (\<lambda>r. r\<lparr>dj_status := DFailed, dj_error := Some ''lease_attempt_cap_exceeded'',
                  dj_heartbeat := None, dj_worker := None\<rparr>) db"
  have s: "safe_step db ?d"
    by (auto intro!: safe_update_jobs [OF inv] simp: job_write_def same_request_def active_job_def)
  from e have "settle_draft_after_lost_compile i SFailed False ?d = Inr db' \<or> db' = ?d
      \<or> (\<exists>p f. db' = update_inputs p f ?d)"
    by (auto simp: settle_expired_job_at_lease_cap_def Let_def split: job_type.splits option.splits)
  then show ?thesis
    using s safe_step_trans [OF inv s] safe_update_inputs [OF safe_step_inv [OF inv s]]
      settle_draft_after_lost_compile_safe [OF safe_step_inv [OF inv s]] by blast
qed

text \<open>A row that a sweep found running stays fit for settling: it is still active.\<close>

lemma orphansD:
  "r \<in> set (orphans ty c now db) \<Longrightarrow> r \<in> set (djobs db) \<and> active_job r \<and> dj_type r = ty"
  by (simp add: orphans_def active_job_def)

lemma settle_job_write:
  "\<not> (s = DPending \<or> s = DRunning) \<Longrightarrow> job_write j (j\<lparr>dj_status := s\<rparr>)"
  "\<not> (s = DPending \<or> s = DRunning) \<Longrightarrow> job_write j (j\<lparr>dj_status := s, dj_error := er\<rparr>)"
  "active_job j \<Longrightarrow> job_write j (j\<lparr>dj_status := s, dj_error := er\<rparr>)"
  by (auto simp: job_write_def same_request_def active_job_def)

definition row_active :: "draft_db \<Rightarrow> draft_job \<Rightarrow> bool" where
  "row_active db r \<longleftrightarrow> (\<forall>j \<in> set (djobs db). dj_id j = dj_id r \<longrightarrow> active_job j)"

definition settles_row :: "draft_job \<Rightarrow> draft_db \<Rightarrow> draft_db \<Rightarrow> bool" where
  "settles_row r db db' \<longleftrightarrow> safe_step db db'
     \<and> (\<forall>j \<in> set (djobs db'). dj_id j \<noteq> dj_id r \<longrightarrow> j \<in> set (djobs db))"

lemma safe_sweep:
  assumes step: "\<And>r acc. ok acc \<Longrightarrow> draft_inv (tab acc) \<Longrightarrow> row_active (tab acc) r \<Longrightarrow>
      ok (g r acc) \<and> settles_row r (tab acc) (tab (g r acc))"
    and "ok acc" and "draft_inv (tab acc)" and "distinct (map dj_id rs)"
    and "\<forall>r \<in> set rs. row_active (tab acc) r"
  shows "ok (fold g rs acc) \<and> safe_step (tab acc) (tab (fold g rs acc))"
  using assms(2-)
proof (induction rs arbitrary: acc)
  case Nil
  then show ?case by (simp add: safe_step_refl)
next
  case (Cons r rs)
  have s: "ok (g r acc)" "settles_row r (tab acc) (tab (g r acc))"
    using step Cons.prems by auto
  have "row_active (tab (g r acc)) x" if x: "x \<in> set rs" for x
    unfolding row_active_def
  proof (intro ballI impI)
    fix j assume j: "j \<in> set (djobs (tab (g r acc)))" "dj_id j = dj_id x"
    then have "dj_id j \<noteq> dj_id r" using Cons.prems(3) x by (auto simp: image_iff)
    then show "active_job j"
      using s(2) j Cons.prems(4) x by (auto simp: settles_row_def row_active_def)
  qed
  then have "ok (fold g rs (g r acc)) \<and> safe_step (tab (g r acc)) (tab (fold g rs (g r acc)))"
    using Cons s safe_step_inv [OF Cons.prems(2)] by (auto simp: settles_row_def)
  then show ?case
    using s(2) safe_step_trans [OF Cons.prems(2)] by (auto simp: settles_row_def)
qed

lemma orphans_sweep:
  assumes "draft_inv db"
  shows "distinct (map dj_id (orphans ty c now db))"
    and "\<forall>r \<in> set (orphans ty c now db). row_active db r"
proof -
  note d = jobs_wfD(1) [OF inv_wfD(3) [OF assms]]
  show "distinct (map dj_id (orphans ty c now db))"
    using d by (simp add: orphans_def distinct_map_filter)
  show "\<forall>r \<in> set (orphans ty c now db). row_active db r"
    unfolding row_active_def using distinct_key_eq [OF d] orphansD by blast
qed

lemma settle_one_job:
  assumes "draft_inv db" and "row_active db r"
    and "\<And>j. active_job j \<Longrightarrow> job_write j (f j)" and "\<And>j. dj_id (f j) = dj_id j"
  shows "settles_row r db (update_jobs (\<lambda>j. dj_id j = dj_id r) f db)"
  unfolding settles_row_def
  using assms by (auto simp: row_active_def update_jobs_def set_update_rows split: if_splits
      intro!: safe_update_jobs [unfolded update_jobs_def])

lemma settles_row_inputs:
  assumes "draft_inv db" and "settles_row r db db'"
  shows "settles_row r db (update_inputs p f db')"
proof -
  have "draft_inv db'" using assms safe_step_inv by (auto simp: settles_row_def)
  then show ?thesis
    using assms safe_step_trans [OF assms(1) _ safe_update_inputs, of db' p f]
    by (auto simp: settles_row_def update_inputs_def)
qed

lemma recover_parse_row_settles:
  assumes "draft_inv db" and "row_active db r"
  shows "settles_row r db (snd (recover_parse_row r st (n, db)))"
  unfolding recover_parse_row_def Let_def
  by (auto intro!: settle_one_job settles_row_inputs assms simp: job_write_def same_request_def
      active_job_def)

lemma recover_orphaned_parse_jobs_safe [safe_ops]:
  assumes "draft_inv db"
  shows "safe_step db (snd (recover_orphaned_parse_jobs c now db))"
proof -
  let ?st = "\<lambda>r. case dj_input r of None \<Rightarrow> None
      | Some n \<Rightarrow> map_option in_status (find (\<lambda>x. in_id x = n) (inputs db))"
  have "True \<and> safe_step (snd (0 :: nat, db)) (snd (fold (\<lambda>r. recover_parse_row r (?st r))
      (orphans ParseInput c now db) (0, db)))"
  proof (rule safe_sweep [where ok = "\<lambda>_. True" and tab = snd])
    fix r :: draft_job and acc :: "nat \<times> draft_db"
    assume "draft_inv (snd acc)" and "row_active (snd acc) r"
    then show "True \<and> settles_row r (snd acc) (snd (recover_parse_row r (?st r) acc))"
      using recover_parse_row_settles by (cases acc) simp
  qed (use orphans_sweep [OF assms] assms in simp_all)
  then show ?thesis by (simp add: recover_orphaned_parse_jobs_def)
qed

definition sweep_ok :: "draft_error + nat \<times> draft_db \<Rightarrow> bool" where
  "sweep_ok acc \<longleftrightarrow> (\<exists>n db. acc = Inr (n, db))"

lemma settle_draft_after_lost_compile_ok:
  assumes "t = SCancelled \<or> t = SQueued \<and> al"
  shows "\<exists>db'. settle_draft_after_lost_compile i t al db = Inr db' \<and> djobs db' = djobs db"
  using assms by (auto simp: settle_draft_after_lost_compile_def transition_ok_def update_drafts_def
      split: option.splits)

lemma recover_compile_row_settles:
  assumes inv: "draft_inv db" and act: "row_active db r"
  shows "\<exists>n' db'. recover_compile_row r (Inr (n, db)) = Inr (n', db') \<and> settles_row r db db'"
proof -
  have settled: "settles_row r db db''"
    if w: "settles_row r db db'" and e: "settle_draft_after_lost_compile i t al db' = Inr db''"
      and t: "t \<noteq> SReady" and j: "djobs db'' = djobs db'" for db' db'' i t al
  proof -
    have "draft_inv db'" using w inv safe_step_inv by (auto simp: settles_row_def)
    with w e t j show ?thesis
      using safe_step_trans [OF inv] settle_draft_after_lost_compile_safe
      unfolding settles_row_def by metis
  qed
  have c: "settles_row r db (update_jobs (\<lambda>j. dj_id j = dj_id r) (\<lambda>j. j\<lparr>dj_status := DCancelled\<rparr>) db)"
    and p: "settles_row r db (update_jobs (\<lambda>j. dj_id j = dj_id r)
              (\<lambda>j. j\<lparr>dj_status := DPending, dj_error := Some ''worker_restart''\<rparr>) db)"
    by (auto intro!: settle_one_job inv act simp: job_write_def same_request_def active_job_def)
  show ?thesis
    using settled [OF c] settled [OF p]
      settle_draft_after_lost_compile_ok [of SCancelled False "dj_draft r"]
      settle_draft_after_lost_compile_ok [of SQueued True "dj_draft r"]
    by (cases "dj_cancel_requested r") (fastforce simp: recover_compile_row_def)+
qed

lemma recover_orphaned_compile_jobs_safe [safe_ops]:
  assumes inv: "draft_inv db" and e: "recover_orphaned_compile_jobs c now db = Inr (n, db')"
  shows "safe_step db db'"
proof -
  let ?tab = "\<lambda>acc :: draft_error + nat \<times> draft_db. case acc of Inl _ \<Rightarrow> db | Inr (_, d) \<Rightarrow> d"
  have "sweep_ok (recover_orphaned_compile_jobs c now db)
      \<and> safe_step (?tab (Inr (0, db))) (?tab (recover_orphaned_compile_jobs c now db))"
    unfolding recover_orphaned_compile_jobs_def
  proof (rule safe_sweep [where ok = sweep_ok and tab = ?tab])
    fix r :: draft_job and acc :: "draft_error + nat \<times> draft_db"
    assume "sweep_ok acc" and a: "draft_inv (?tab acc)" "row_active (?tab acc) r"
    then obtain n d where acc: "acc = Inr (n, d)" by (auto simp: sweep_ok_def)
    with a obtain n' d' where "recover_compile_row r acc = Inr (n', d')" "settles_row r d d'"
      using recover_compile_row_settles [of d r n] by auto
    with acc show "sweep_ok (recover_compile_row r acc)
        \<and> settles_row r (?tab acc) (?tab (recover_compile_row r acc))"
      by (simp add: sweep_ok_def)
  qed (use orphans_sweep [OF inv] inv in \<open>simp_all add: sweep_ok_def\<close>)
  then show ?thesis using e by simp
qed

lemma move_draft_safe:
  "draft_inv db \<Longrightarrow> t \<noteq> SReady \<Longrightarrow> safe_step db (move_draft i t db)"
  by (auto simp: move_draft_def safe_step_refl intro: safe_move_draft_status)

lemma settle_then_move_safe:
  assumes inv: "draft_inv db" and s: "set_job_status j t er False w now db = Inr db1"
    and "ds \<noteq> SReady"
  shows "safe_step db (move_draft i ds db1)"
proof -
  have "safe_step db db1" by (rule set_job_status_safe [OF inv s])
  then show ?thesis
    using safe_step_trans [OF inv] move_draft_safe safe_step_inv [OF inv] assms(3) by blast
qed

lemma persist_settlement_safe:
  assumes inv: "draft_inv db" and e: "persist_settlement js ds j i er w now db = Inr db'"
    and "ds \<noteq> SReady"
  shows "safe_step db db'"
  using e move_draft_safe [OF inv assms(3)] settle_then_move_safe [OF inv _ assms(3)]
  by (auto simp: persist_settlement_def split: sum.splits draft_error.splits)

lemma persist_failure_safe [safe_ops]:
  "draft_inv db \<Longrightarrow> persist_failure j i c w now db = Inr db' \<Longrightarrow> safe_step db db'"
  unfolding persist_failure_def by (erule persist_settlement_safe, assumption) simp

lemma persist_cancelled_safe [safe_ops]:
  "draft_inv db \<Longrightarrow> persist_cancelled j i w now db = Inr db' \<Longrightarrow> safe_step db db'"
  unfolding persist_cancelled_def by (erule persist_settlement_safe, assumption) simp

lemma persist_completed_safe [safe_ops]:
  "draft_inv db \<Longrightarrow> persist_completed j w now db = Inr db' \<Longrightarrow> safe_step db db'"
  unfolding persist_completed_def by (rule set_job_status_safe)

lemma fail_compile_job_safe [safe_ops]:
  assumes "draft_inv db"
  shows "safe_step db (fail_compile_job j i c w now db)"
  using move_draft_safe [OF assms] settle_then_move_safe [OF assms]
  by (auto simp: fail_compile_job_def split: sum.splits)

lemma commit_parse_success_safe [safe_ops]:
  assumes inv: "draft_inv db" and e: "commit_parse_success j n x w now db = Inr (b, db')"
  shows "safe_step db db'"
proof -
  from e obtain p f q g where db': "db' = update_jobs p f (update_inputs q g db)"
    and f: "\<And>r. job_write r (f r)"
    by (auto simp: commit_parse_success_def Let_def job_write_def same_request_def active_job_def
        split: if_splits)
  note s = safe_update_inputs [OF inv, of q g]
  show ?thesis
    unfolding db' by (rule safe_step_trans [OF inv s])
      (auto intro!: safe_update_jobs f safe_step_inv [OF inv s])
qed

lemma draft_exists_lt:
  assumes "draft_inv db" and "draft_status_of db i = Some s"
  shows "i < next_draft db"
proof -
  obtain d where "find (\<lambda>d. dr_id d = i) (drafts db) = Some d"
    using assms(2) by (auto simp: draft_status_of_def)
  from find_SomeD [OF this] drafts_wfD(2) [OF inv_wfD(1) [OF assms(1)], of d]
  show ?thesis by simp
qed

lemma status_update_drafts:
  assumes "draft_status_of db i = Some s"
  shows "draft_status_of (update_drafts (\<lambda>d. dr_id d = i) (\<lambda>d. d\<lparr>dr_status := t\<rparr>) db) i = Some t"
proof -
  have f: "find (\<lambda>d. dr_id d = i) (update_rows (\<lambda>d. dr_id d = i) (\<lambda>d. d\<lparr>dr_status := t\<rparr>) ds)
      = map_option (\<lambda>d. d\<lparr>dr_status := t\<rparr>) (find (\<lambda>d. dr_id d = i) ds)" for ds
    by (induction ds) auto
  from assms obtain d where "find (\<lambda>d. dr_id d = i) (drafts db) = Some d"
    by (auto simp: draft_status_of_def)
  then show ?thesis by (simp add: draft_status_of_def update_drafts_def f)
qed

lemma unapproved_status:
  assumes "draft_inv db" and "draft_status_of db i = Some s" and "s \<noteq> SReady"
  shows "unapproved db i"
  using draft_status_ofD [OF assms(1,2)] inv_not_ready [OF assms(1)] assms(3)
  by (auto simp: unapproved_def)

lemma schedule_compile_retry_safe [safe_ops]:
  assumes inv: "draft_inv db" and e: "schedule_compile_retry j i now db = Inr (b, db')"
    and own: "list_all (\<lambda>r. dj_id r = j \<longrightarrow> dj_draft r = i) (djobs db)"
  shows "safe_step db db'"
proof -
  let ?d = "update_drafts (\<lambda>d. dr_id d = i) (\<lambda>d. d\<lparr>dr_status := SQueued\<rparr>) db"
  show ?thesis
  proof (cases "draft_status_of db i = Some SFailed")
    case False
    then show ?thesis using e safe_step_refl [OF inv] by (simp add: schedule_compile_retry_def)
  next
    case True
    have s: "safe_step db ?d" by (rule safe_move_draft_status [OF inv True]) simp_all
    have st: "draft_status_of ?d i = Some SQueued" by (rule status_update_drafts [OF True])
    have un: "unapproved ?d i"
      by (rule unapproved_status [OF safe_step_inv [OF inv s] st]) simp
    show ?thesis
    proof (cases "find (\<lambda>r. dj_id r = j) (djobs db)")
      case None
      then show ?thesis using e s True by (simp add: schedule_compile_retry_def)
    next
      case (Some r)
      let ?n = "(fresh_draft_job (next_job db) (dj_draft r) (dj_owner r) Compile now)
                       \<lparr>dj_parent := Some j, dj_attempt_no := dj_attempt_no r + 1,
                        dj_retry_count := dj_retry_count r + 1,
                        dj_fingerprint := dj_fingerprint r, dj_snapshot := dj_snapshot r\<rparr>"
      have n: "\<not> has_active_compile db (dj_draft r)" "db' = add_job ?n ?d"
        using e Some True by (auto simp: schedule_compile_retry_def split: if_splits)
      have i: "dj_draft r = i" using find_SomeD [OF Some] own by (auto simp: list_all_iff)
      have "safe_step ?d (add_job ?n ?d)"
      proof (rule safe_add_job [OF safe_step_inv [OF inv s]])
        show "dj_draft ?n < next_draft ?d"
          using draft_exists_lt [OF inv True] i by (simp add: fresh_draft_job_def update_drafts_def)
        show "no_active_compile (djobs ?d) (dj_draft ?n)
            \<and> (\<forall>d \<in> set (drafts ?d). dr_id d = dj_draft ?n \<longrightarrow> dr_ready_rev d = None)"
          using n(1) un i by (auto simp: fresh_draft_job_def no_active_compile_def unapproved_def
              has_active_compile_def list_ex_iff update_drafts_def)
      qed (simp_all add: fresh_draft_job_def update_drafts_def)
      then show ?thesis unfolding n(2) by (rule safe_step_trans [OF inv s])
    qed
  qed
qed

text \<open>Revisions.\<close>

lemma find_draft_at:
  "draft_inv db \<Longrightarrow> d \<in> set (drafts db) \<Longrightarrow> dr_id d = i \<Longrightarrow> dr_owner d = u \<Longrightarrow>
     d' \<in> set (drafts db) \<Longrightarrow> dr_id d' = i \<longleftrightarrow> draft_at i u d'"
  using inv_draft_unique by (fastforce simp: draft_at_def)

text \<open>The three writers of a current revision clear the approval of their draft first.\<close>

definition to_review :: "draft_row \<Rightarrow> draft_row" where
  "to_review d = bump_lock (clear_ready (d\<lparr>dr_status := SNeedsReview\<rparr>))"

lemma to_review_simps [simp]:
  "dr_id (to_review d) = dr_id d" "dr_ready_rev (to_review d) = None"
  "dr_status (to_review d) = SNeedsReview" "approval_write d' (to_review d) \<longleftrightarrow> dr_id d = dr_id d'"
  by (auto simp: to_review_def approval_write_def calm_def clear_ready_def bump_lock_def)

lemma to_review_safe:
  assumes inv: "draft_inv db" and all: "\<And>d. d \<in> set (drafts db) \<Longrightarrow> dr_id d = i \<Longrightarrow> p d"
  shows "safe_step db (update_drafts p to_review db)"
    and "unapproved (update_drafts p to_review db) i"
proof -
  show "safe_step db (update_drafts p to_review db)" by (rule safe_update_drafts [OF inv]) simp
  show "unapproved (update_drafts p to_review db) i"
    using all by (auto simp: unapproved_def update_drafts_def set_update_rows)
qed

lemma replace_current_safe:
  assumes inv: "draft_inv db" and d: "d \<in> set (drafts db)" "dr_id d = i" "dr_owner d = u"
    and p: "\<And>v. v \<in> set (revisions db) \<Longrightarrow> p v \<longleftrightarrow> rv_draft v = i \<and> rv_current v"
    and v: "rv_id v = next_revision db" "rv_draft v = i" "rv_no v = next_revision_no db i"
  shows "safe_step db (update_drafts (draft_at i u) to_review
           (add_revision v (update_revisions p retire db)))"
proof -
  let ?d = "update_drafts (draft_at i u) to_review db"
  note r = to_review_safe [OF inv, of i "draft_at i u"] find_draft_at [OF inv d]
  have s: "safe_step db ?d" and un: "unapproved ?d i" using r by auto
  have "safe_step ?d (add_revision v (update_revisions p retire ?d))"
  proof (rule safe_replace_current [OF safe_step_inv [OF inv s] un])
    show "i < next_draft ?d"
      using drafts_wfD(2) [OF inv_wfD(1) [OF inv] d(1)] d(2) by (simp add: update_drafts_def)
  qed (use p v in \<open>auto simp: update_drafts_def next_revision_no_def\<close>)
  then have "safe_step db (add_revision v (update_revisions p retire ?d))"
    by (rule safe_step_trans [OF inv s])
  then show ?thesis by (cases db) (simp add: update_drafts_def add_revision_def update_revisions_def)
qed

lemma write_names:
  "(\<lambda>d. bump_lock (clear_ready (d\<lparr>dr_status := SNeedsReview\<rparr>))) = to_review"
  "(\<lambda>v. v\<lparr>rv_current := False\<rparr>) = retire"
  by (simp_all add: fun_eq_iff to_review_def retire_def)

lemma current_revisionD:
  "current_revision db i = Some v \<Longrightarrow> v \<in> set (revisions db) \<and> rv_draft v = i \<and> rv_current v"
  by (auto simp: current_revision_def dest: find_SomeD)

lemma is_current_iff:
  assumes "draft_inv db" and "v \<in> set (revisions db)"
  shows "map_option rv_id (current_revision db i) = Some (rv_id v)
    \<longleftrightarrow> rv_draft v = i \<and> rv_current v"
proof (cases "current_revision db i")
  case None
  then show ?thesis using assms(2) by (auto simp: current_revision_def dest: find_NoneD)
next
  case (Some u)
  note u = current_revisionD [OF Some]
  note wf = inv_wfD(2) [OF assms(1)]
  show ?thesis
    using Some u current_unique [OF wf assms(2), of u]
      distinct_key_eq [OF revisions_wfD(1) [OF wf] _ assms(2), of u] by auto
qed

lemma create_manual_revision_safe [safe_ops]:
  assumes inv: "draft_inv db" and e: "create_manual_revision h i u l b x db = Inr db'"
  shows "safe_step db db'"
proof -
  let ?c = "map_option rv_id (current_revision db i)"
  from e obtain d where d: "d \<in> set (drafts db)" "dr_id d = i" "dr_owner d = u"
    and db': "db' = update_drafts (draft_at i u) to_review
        (add_revision (manual_revision h i u ?c x db)
          (update_revisions (\<lambda>v. ?c = Some (rv_id v)) retire db))"
    by (auto simp: create_manual_revision_def Let_def write_names
        split: sum.splits if_splits dest!: locked_draftD)
  show ?thesis
    unfolding db' by (rule replace_current_safe [OF inv d])
      (use is_current_iff [OF inv] in \<open>auto simp: manual_revision_def\<close>)
qed

lemma commit_revision_safe [safe_ops]:
  assumes inv: "draft_inv db" and e: "commit_revision i u j x sh f so db = Inr (r, db')"
  shows "safe_step db db'"
proof -
  from e obtain d v where d: "find (draft_at i u) (drafts db) = Some d"
    and v: "db' = add_revision v db" "rv_id v = next_revision db" "rv_draft v = i"
      "rv_no v = next_revision_no db i" "\<not> rv_current v"
    by (auto simp: commit_revision_def split: option.splits if_splits)
  have "i < next_draft db"
    using find_SomeD [OF d] drafts_wfD(2) [OF inv_wfD(1) [OF inv], of d] by (simp add: draft_at_def)
  then show ?thesis
    unfolding v(1) by (intro safe_add_revision [OF inv]) (auto simp: v next_revision_no_gt)
qed

lemma publish_revision_safe [safe_ops]:
  assumes inv: "draft_inv db" and e: "publish_revision i j r db = Inr db'"
    and own: "list_ex (\<lambda>v. rv_id v = r \<and> rv_draft v = i \<and> rv_job v = Some j) (revisions db)"
  shows "safe_step db db'"
proof -
  let ?d = "update_drafts (\<lambda>d. dr_id d = i) to_review db"
  let ?v = "\<lambda>db. update_revisions (\<lambda>v. rv_id v = r) (\<lambda>v. v\<lparr>rv_current := True\<rparr>)
           (update_revisions (\<lambda>v. rv_draft v = i \<and> rv_current v) retire db)"
  let ?j = "update_jobs (\<lambda>x. dj_id x = j) (\<lambda>x. x\<lparr>dj_output := Some r\<rparr>)"
  note s = to_review_safe [OF inv, of i "\<lambda>d. dr_id d = i"]
  have d: "safe_step db ?d" and un: "unapproved ?d i" using s by auto
  have "safe_step ?d (?v ?d)"
  proof (rule safe_publish [OF safe_step_inv [OF inv d] un])
    fix v assume v: "v \<in> set (revisions ?d)" "rv_id v = r"
    from own obtain u where "u \<in> set (revisions db)" "rv_id u = r" "rv_draft u = i"
      by (auto simp: list_ex_iff)
    then show "rv_draft v = i"
      using v distinct_key_eq [OF revisions_wfD(1) [OF inv_wfD(2) [OF inv]], of u v]
      by (simp add: update_drafts_def)
  qed
  then have v: "safe_step db (?v ?d)" by (rule safe_step_trans [OF inv d])
  have "safe_step (?v ?d) (?j (?v ?d))"
    by (rule safe_update_jobs [OF safe_step_inv [OF inv v]])
      (auto simp: job_write_def same_request_def active_job_def)
  then have "safe_step db (?j (?v ?d))" by (rule safe_step_trans [OF inv v])
  moreover have "db' = ?j (?v ?d)"
    using e by (cases db) (auto simp: publish_revision_def write_names update_drafts_def
        update_revisions_def update_jobs_def split: if_splits)
  ultimately show ?thesis by simp
qed

lemma insert_finding_safe [safe_ops]:
  assumes "draft_inv db" and "insert_finding h i r j ru ve c s w su a b db = Inr (n, db')"
  shows "safe_step db db'"
  using assms(2) safe_add_finding [OF assms(1)]
  by (auto simp: insert_finding_def Let_def split: if_splits option.splits sum.splits)

lemma safe_findings_bump:
  assumes "draft_inv db"
  shows "safe_step db (update_drafts p bump_lock (update_findings q f db))"
  by (rule safe_step_trans [OF assms safe_update_findings [OF assms]])
    (auto intro!: safe_update_drafts safe_step_inv [OF assms safe_update_findings [OF assms]]
      simp: approval_write_same)

lemma dismiss_finding_safe [safe_ops]:
  assumes "draft_inv db" and "dismiss_finding i f u n l db = Inr db'"
  shows "safe_step db db'"
  using assms(2) safe_findings_bump [OF assms(1)]
  by (auto simp: dismiss_finding_def split: sum.splits option.splits if_splits)

lemma waive_finding_safe [safe_ops]:
  assumes "draft_inv db" and "waive_finding i f u n v s l db = Inr db'"
  shows "safe_step db db'"
  using assms(2) safe_findings_bump [OF assms(1)]
  by (auto simp: waive_finding_def split: sum.splits option.splits if_splits)

text \<open>What a successful apply has checked, and the tables it leaves.\<close>

lemma apply_findingD:
  assumes "apply_finding h i u f l b n db = Inr (r, db')"
  obtains d x v s e suggestion where "d \<in> set (drafts db)" "dr_id d = i" "dr_owner d = u"
    "dr_lock d = l" "dr_status d \<in> {SDraft, SNeedsReview, SReady, SFailed, SCancelled}"
    "\<not> has_active_compile db i"
    "find (finding_at f i) (findings db) = Some x" "fn_status x = FOpen"
    "fn_suggestion x = Some suggestion" "fn_start x = Some s" "fn_end x = Some e"
    "current_revision db i = Some v" "b = Some (rv_id v)" "fn_revision x = Some (rv_id v)"
    "0 \<le> s" "s < e" "e \<le> int (length (rv_content v))"
    "fn_span_sha x = None \<or> fn_span_sha x = Some (h (py_slice (rv_content v) s e))"
    "r = next_revision db"
    "db' = update_drafts (draft_at i u) to_review
        (update_findings (\<lambda>x. fn_id x = f)
          (\<lambda>x. x\<lparr>fn_status := FApplied, fn_resolved_by := Some u, fn_note := n\<rparr>)
        (add_revision (manual_revision h i u (Some (rv_id v))
            (splice (rv_content v) s e suggestion) db)
        (update_revisions (\<lambda>w. rv_id w = rv_id v) retire db)))"
  using assms
  by (auto simp: apply_finding_def write_names dest!: locked_draftD
      split: sum.splits option.splits if_splits)

lemma apply_finding_safe [safe_ops]:
  assumes inv: "draft_inv db" and e: "apply_finding h i u f l b n db = Inr (r, db')"
  shows "safe_step db db'"
  using e
proof (rule apply_findingD)
  fix d x v s en suggestion
  assume d: "d \<in> set (drafts db)" "dr_id d = i" "dr_owner d = u"
    and v: "current_revision db i = Some v"
    and db': "db' = update_drafts (draft_at i u) to_review
        (update_findings (\<lambda>x. fn_id x = f)
          (\<lambda>x. x\<lparr>fn_status := FApplied, fn_resolved_by := Some u, fn_note := n\<rparr>)
        (add_revision (manual_revision h i u (Some (rv_id v))
            (splice (rv_content v) s en suggestion) db)
        (update_revisions (\<lambda>w. rv_id w = rv_id v) retire db)))"
  let ?db = "update_drafts (draft_at i u) to_review
        (add_revision (manual_revision h i u (Some (rv_id v))
            (splice (rv_content v) s en suggestion) db)
        (update_revisions (\<lambda>w. rv_id w = rv_id v) retire db))"
  have s: "safe_step db ?db"
  proof (rule replace_current_safe [OF inv d])
    fix w assume "w \<in> set (revisions db)"
    from is_current_iff [OF inv this, of i] v
    show "rv_id w = rv_id v \<longleftrightarrow> rv_draft w = i \<and> rv_current w" by (simp, metis)
  qed (simp_all add: manual_revision_def)
  have "db' = update_findings (\<lambda>x. fn_id x = f)
          (\<lambda>x. x\<lparr>fn_status := FApplied, fn_resolved_by := Some u, fn_note := n\<rparr>) ?db"
    unfolding db' by (cases db) (simp add: update_drafts_def update_findings_def add_revision_def
        update_revisions_def)
  then show ?thesis
    using safe_step_trans [OF inv s safe_update_findings [OF safe_step_inv [OF inv s]]] by simp
qed

text \<open>Compile requests and approval.\<close>

lemma mem_update_drafts:
  assumes "d \<in> set (drafts (update_drafts p f db))"
  obtains e where "e \<in> set (drafts db)" and "d = (if p e then f e else e)"
proof -
  have "d \<in> (\<lambda>e. if p e then f e else e) ` set (drafts db)"
    using assms by (simp add: update_drafts_def set_update_rows del: if_image_distrib)
  then show thesis using that by blast
qed

lemma enqueue_compile_safe [safe_ops]:
  assumes inv: "draft_inv db"
    and e: "enqueue_compile i u l b k fp sn p a now db = Inr (res, db')"
  shows "safe_step db db'"
proof (cases "db' = db")
  case True
  then show ?thesis by (simp add: safe_step_refl [OF inv])
next
  case False
  let ?hit = "\<lambda>d. dr_id d = i"
  let ?clear = "\<lambda>d. clear_ready (d\<lparr>dr_status := SNeedsReview\<rparr>)"
  let ?j = "(fresh_draft_job (next_job db) i u Compile now) \<lparr>dj_parent := p, dj_attempt_no := a,
       dj_key := k, dj_base := b, dj_fingerprint := Some fp, dj_snapshot := sn\<rparr>"
  from e False obtain d db1 where f: "find (draft_at i u) (drafts db) = Some d"
    and key: "k = None \<or> find (\<lambda>j. dj_owner j = u \<and> dj_key j = k) (djobs db) = None"
    and act: "\<not> has_active_job db i"
    and db1: "db1 = (if dr_status d = SReady \<or> dr_ready_rev d \<noteq> None
                     then update_drafts ?hit ?clear db else db)"
    and db': "db' = update_drafts (draft_at i u) (\<lambda>d. bump_lock (d\<lparr>dr_status := SQueued\<rparr>))
                (add_job ?j db1)"
    by (auto simp: enqueue_compile_def Let_def split: option.splits if_splits)
  have d: "d \<in> set (drafts db)" "dr_id d = i" "dr_owner d = u"
    using find_SomeD [OF f] by (auto simp: draft_at_def)
  have s1: "safe_step db db1"
    unfolding db1 by (auto intro!: safe_update_drafts [OF inv] safe_step_refl [OF inv]
        approval_write_clear)
  note inv1 = safe_step_inv [OF inv s1]
  have un: "dr_ready_rev e = None" if "e \<in> set (drafts db1)" "dr_id e = i" for e
  proof (cases "dr_status d = SReady \<or> dr_ready_rev d \<noteq> None")
    case True
    then have "db1 = update_drafts ?hit ?clear db" by (simp add: db1)
    then have m: "e \<in> set (drafts (update_drafts ?hit ?clear db))" using that(1) by (simp only:)
    obtain e' where "e = (if ?hit e' then ?clear e' else e')"
      by (rule mem_update_drafts [OF m])
    then show ?thesis using that(2) by (cases "?hit e'") simp_all
  next
    case False
    then have "e \<in> set (drafts db)" using that by (simp add: db1)
    from inv_draft_unique [OF inv this d(1)] that(2) d(2) have "e = d" by simp
    then show ?thesis using False by simp
  qed
  have same: "djobs db1 = djobs db" "next_job db1 = next_job db" "next_draft db1 = next_draft db"
    by (simp_all add: db1 update_drafts_def)
  have s2: "safe_step db1 (add_job ?j db1)"
  proof (rule safe_add_job [OF inv1])
    show "dj_draft ?j < next_draft db1"
      using drafts_wfD(2) [OF inv_wfD(1) [OF inv] d(1)] d(2) same by (simp add: fresh_draft_job_def)
    show "no_active_compile (djobs db1) (dj_draft ?j)
        \<and> (\<forall>e \<in> set (drafts db1). dr_id e = dj_draft ?j \<longrightarrow> dr_ready_rev e = None)"
      using act un same by (auto simp: fresh_draft_job_def no_active_compile_def has_active_job_def
          list_ex_iff active_compile_def)
    show "dj_owner j' \<noteq> dj_owner ?j"
      if "dj_key ?j = Some x" "j' \<in> set (djobs db1)" "dj_key j' = Some x" for x j'
      using key that same find_NoneD [of _ "djobs db" j'] by (auto simp: fresh_draft_job_def)
  qed (simp_all add: fresh_draft_job_def same)
  have "safe_step (add_job ?j db1) db'"
    unfolding db'
  proof (rule safe_update_drafts [OF safe_step_inv [OF inv1 s2]])
    fix e assume "e \<in> set (drafts (add_job ?j db1))" and "draft_at i u e"
    then show "approval_write e (bump_lock (e\<lparr>dr_status := SQueued\<rparr>))"
      using un by (simp add: add_job_def draft_at_def approval_write_def calm_def)
  qed
  then show ?thesis
    using safe_step_trans [OF inv s1 s2] safe_step_trans [OF inv] by blast
qed

lemma apply_evidence_invalidation_safe [safe_ops]:
  assumes inv: "draft_inv db" and e: "apply_evidence_invalidation i r j re db = Inr (b, db')"
  shows "safe_step db db'"
proof -
  let ?hit = "\<lambda>v. rv_id v = r \<and> rv_draft v = i \<and> rv_fact v \<noteq> FactInvalidated"
  let ?stale = "\<lambda>v. v\<lparr>rv_fact := FactInvalidated\<rparr>"
  let ?p = "\<lambda>d. dr_id d = i \<and> dr_status d = SReady"
  define db1 where "db1 = (if draft_status_of db i = Some SReady
      then update_drafts ?p to_review db else db)"
  have s1: "safe_step db db1"
    by (auto simp: db1_def intro!: safe_update_drafts [OF inv] safe_step_refl [OF inv])
  have un: "unapproved db1 i"
    unfolding unapproved_def
  proof (intro ballI impI)
    fix d assume d: "d \<in> set (drafts db1)" "dr_id d = i"
    show "dr_ready_rev d = None"
    proof (cases "draft_status_of db i = Some SReady")
      case True
      then have "db1 = update_drafts ?p to_review db" by (simp add: db1_def)
      then have m: "d \<in> set (drafts (update_drafts ?p to_review db))" using d(1) by (simp only:)
      obtain e where e: "e \<in> set (drafts db)" "d = (if ?p e then to_review e else e)"
        by (rule mem_update_drafts [OF m])
      then have "dr_id e = i" using d(2) by (cases "?p e") simp_all
      then have "?p e" using draft_status_ofD [OF inv True e(1)] by simp
      then show ?thesis using e(2) by simp
    next
      case False
      then have m: "d \<in> set (drafts db)" using d by (simp add: db1_def)
      have "find (\<lambda>d. dr_id d = i) (drafts db) = Some d"
        using find_unique_key [OF drafts_wfD(1) [OF inv_wfD(1) [OF inv]] m] d(2) by simp
      then have "dr_status d \<noteq> SReady" using False by (simp add: draft_status_of_def)
      then show ?thesis using inv_not_ready [OF inv m] by simp
    qed
  qed
  have s2: "safe_step db1 (update_revisions ?hit ?stale db1)"
  proof -
    have "safe_step db1 (db1\<lparr>revisions :=
        map (\<lambda>v. if ?hit v then ?stale v else v) (revisions db1)\<rparr>)"
    proof (rule safe_map_revisions [OF safe_step_inv [OF inv s1]])
      fix v v' assume v: "v \<in> set (revisions db1)" "v' \<in> set (revisions db1)"
          "rv_draft v = rv_draft v'"
        and c: "rv_current (if ?hit v then ?stale v else v)"
          "rv_current (if ?hit v' then ?stale v' else v')"
      have "rv_current v" and "rv_current v'" using c by (simp_all split: if_splits)
      from current_unique [OF inv_wfD(2) [OF safe_step_inv [OF inv s1]] v this]
      show "rv_id v = rv_id v'" by simp
    qed (use un in \<open>auto simp: same_text_def\<close>)
    then show ?thesis by (simp add: update_revisions_def update_rows_def)
  qed
  have s: "safe_step db (update_revisions ?hit ?stale db1)" by (rule safe_step_trans [OF inv s1 s2])
  obtain f where "db' = update_revisions ?hit ?stale db1
      \<or> db' = add_finding f (update_revisions ?hit ?stale db1)"
    using e by (cases db) (auto simp: apply_evidence_invalidation_def Let_def write_names db1_def
        update_revisions_def update_drafts_def add_finding_def split: if_splits)
  then show ?thesis
    using s safe_step_trans [OF inv s safe_add_finding [OF safe_step_inv [OF inv s]]] by blast
qed

lemma enforce_evidence_freshness_safe:
  assumes "draft_inv db"
  shows "safe_step db (snd (enforce_evidence_freshness fr i r j db))"
proof -
  let ?g = "\<lambda>reason db. case apply_evidence_invalidation i r (Some j) reason db of
              Inl _ \<Rightarrow> db | Inr (_, db') \<Rightarrow> db'"
  have g: "safe_step db (?g x db)" if "draft_inv db" for x db
    using apply_evidence_invalidation_safe [OF that] safe_step_refl [OF that]
    by (auto split: sum.splits)
  have "safe_step db (fold ?g xs db)" if "draft_inv db" for xs db
    using that
  proof (induction xs arbitrary: db)
    case Nil
    then show ?case by (simp add: safe_step_refl)
  next
    case (Cons x xs)
    note s = g [OF Cons.prems, of x]
    have "safe_step (?g x db) (fold ?g xs (?g x db))"
      by (rule Cons.IH [OF safe_step_inv [OF Cons.prems s]])
    then show ?case using safe_step_trans [OF Cons.prems s] by simp
  qed
  then show ?thesis using assms by (simp add: enforce_evidence_freshness_def Let_def)
qed

text \<open>The Ready policy, stated over the tables.\<close>

definition ready_policy ::
  "(pystr \<Rightarrow> string) \<Rightarrow> freshness \<Rightarrow> draft_db \<Rightarrow> nat \<Rightarrow> nat \<Rightarrow> nat \<Rightarrow> int \<Rightarrow> bool \<Rightarrow> bool" where
  "ready_policy h fresh db i u r lock ack \<longleftrightarrow>
     (\<exists>d \<in> set (drafts db). dr_id d = i \<and> dr_owner d = u \<and> dr_lock d = lock
        \<and> dr_status d = SNeedsReview)
     \<and> (\<forall>j \<in> set (djobs db). dj_draft j = i \<longrightarrow> \<not> active_job j)
     \<and> (\<exists>v \<in> set (revisions db). rv_id v = r \<and> rv_draft v = i \<and> rv_current v \<and> fact_current v
        \<and> (\<exists>j. rv_job v = Some j \<and> fact_candidate db j = Some (Some (rv_sha v))
             \<and> fresh j = (False, False))
        \<and> (\<forall>f \<in> set (findings db). fn_draft f = i \<and> fn_revision f = Some r
             \<and> fn_severity f = ''blocker'' \<longrightarrow> fn_status f \<noteq> FOpen
             \<and> (fn_status f = FWaived \<longrightarrow> waiver_error h (rv_content v) f = None))
        \<and> (rv_source_only v \<longrightarrow> ack))
     \<and> (\<forall>(r', st) \<in> set (claims db). r' = r \<longrightarrow>
          st \<notin> {''contradicted'', ''unsupported'', ''ambiguous'', ''stale''})"

definition approve :: "nat \<Rightarrow> nat \<Rightarrow> draft_row \<Rightarrow> draft_row" where
  "approve u r d = bump_lock (d\<lparr>dr_status := SReady, dr_ready_rev := Some r, dr_ready_by := Some u\<rparr>)"

lemma find_draft_eq:
  assumes inv: "draft_inv db" and d: "d \<in> set (drafts db)" "dr_id d = i" "dr_owner d = u"
  shows "find (draft_at i u) (drafts db) = Some d"
proof -
  have "find (draft_at i u) (drafts db) = find (\<lambda>x. dr_id x = dr_id d) (drafts db)"
    by (rule find_cong [OF refl]) (use find_draft_at [OF inv d] d(2) in simp)
  then show ?thesis using find_unique_key [OF drafts_wfD(1) [OF inv_wfD(1) [OF inv]] d(1)] by simp
qed

lemma map_filter_Nil_iff: "List.map_filter f xs = [] \<longleftrightarrow> (\<forall>x \<in> set xs. f x = None)"
  by (induction xs) (auto simp: List.map_filter_def)

lemma freshness_current:
  "fst (enforce_evidence_freshness fr i r j db) = [] \<longleftrightarrow> fr j = (False, False)"
  by (cases "fr j") (simp add: enforce_evidence_freshness_def Let_def freshness_reasons_def)

lemma mark_ready_cases:
  assumes inv: "draft_inv db"
  shows "if ready_policy h fr db i u r l a
     then mark_ready h fr i u r l a db = (Inr (), update_drafts (draft_at i u) (approve u r) db)
     else \<exists>e. fst (mark_ready h fr i u r l a db) = Inl e
            \<and> safe_step db (snd (mark_ready h fr i u r l a db))"
proof (cases "locked_draft db i u (Some l)")
  case (Inl e)
  have "\<not> ready_policy h fr db i u r l a"
  proof
    assume "ready_policy h fr db i u r l a"
    then obtain d where d: "d \<in> set (drafts db)" "dr_id d = i" "dr_owner d = u" "dr_lock d = l"
      by (auto simp: ready_policy_def)
    have "find (draft_at i u) (drafts db) = Some d" by (rule find_draft_eq [OF inv d(1-3)])
    with Inl d(4) show False by (simp add: locked_draft_def)
  qed
  then show ?thesis using Inl safe_step_refl [OF inv] by (simp add: mark_ready_def)
next
  case (Inr d)
  note d = locked_draftD [OF Inr]
  have only: "d' = d" if "d' \<in> set (drafts db)" "dr_id d' = i" for d'
    using inv_draft_unique [OF inv that(1), of d] d that(2) by simp
  have dp: "(\<exists>d \<in> set (drafts db). dr_id d = i \<and> dr_owner d = u \<and> dr_lock d = l
        \<and> dr_status d = SNeedsReview) \<longleftrightarrow> dr_status d = SNeedsReview"
    using d only by blast
  show ?thesis
  proof (cases "find (\<lambda>v. rv_id v = r \<and> rv_draft v = i) (revisions db)")
    case None
    then have "\<not> ready_policy h fr db i u r l a"
      using find_NoneD [OF None] by (auto simp: ready_policy_def)
    then show ?thesis
      using Inr None safe_step_refl [OF inv] by (simp add: mark_ready_def Let_def)
  next
    case (Some v)
    note v = find_SomeD [OF Some]
    have only_v: "w = v" if "w \<in> set (revisions db)" "rv_id w = r" for w
      using distinct_key_eq [OF revisions_wfD(1) [OF inv_wfD(2) [OF inv]] that(1), of v] v that(2)
      by simp
    have pol: "ready_policy h fr db i u r l a \<longleftrightarrow> dr_status d = SNeedsReview
        \<and> \<not> has_active_job db i \<and> rv_current v \<and> fact_current v
        \<and> (\<exists>j. rv_job v = Some j \<and> fact_candidate db j = Some (Some (rv_sha v))
             \<and> fr j = (False, False))
        \<and> blockers db i r FOpen = []
        \<and> List.map_filter (waiver_error h (rv_content v)) (blockers db i r FWaived) = []
        \<and> (rv_source_only v \<longrightarrow> a) \<and> blocking_claims db r = 0"
    proof -
      have "(\<exists>w \<in> set (revisions db). rv_id w = r \<and> rv_draft w = i \<and> Q w) \<longleftrightarrow> Q v" for Q
        using v only_v by blast
      note this [of "\<lambda>v. rv_current v \<and> fact_current v \<and> (\<exists>j. rv_job v = Some j
             \<and> fact_candidate db j = Some (Some (rv_sha v)) \<and> fr j = (False, False))
          \<and> (\<forall>f \<in> set (findings db). fn_draft f = i \<and> fn_revision f = Some r
             \<and> fn_severity f = ''blocker'' \<longrightarrow> fn_status f \<noteq> FOpen
             \<and> (fn_status f = FWaived \<longrightarrow> waiver_error h (rv_content v) f = None))
          \<and> (rv_source_only v \<longrightarrow> a)"]
      moreover have "(\<forall>j \<in> set (djobs db). dj_draft j = i \<longrightarrow> \<not> active_job j) \<longleftrightarrow> \<not> has_active_job db i"
        by (auto simp: has_active_job_def list_ex_iff)
      moreover have "(\<forall>f \<in> set (findings db). fn_draft f = i \<and> fn_revision f = Some r
             \<and> fn_severity f = ''blocker'' \<longrightarrow> fn_status f \<noteq> FOpen
             \<and> (fn_status f = FWaived \<longrightarrow> waiver_error h (rv_content v) f = None))
          \<longleftrightarrow> blockers db i r FOpen = []
            \<and> List.map_filter (waiver_error h (rv_content v)) (blockers db i r FWaived) = []"
        by (auto simp: blockers_def filter_empty_conv map_filter_Nil_iff)
      moreover have "(\<forall>(r', st) \<in> set (claims db). r' = r \<longrightarrow>
          st \<notin> {''contradicted'', ''unsupported'', ''ambiguous'', ''stale''}) \<longleftrightarrow> blocking_claims db r = 0"
        by (auto simp: blocking_claims_def filter_empty_conv)
      ultimately show ?thesis unfolding ready_policy_def dp by argo
    qed
    show ?thesis
    proof (cases "rv_job v")
      case None
      then show ?thesis
        unfolding pol using Inr Some safe_step_refl [OF inv] by (simp add: mark_ready_def Let_def)
    next
      case (Some j)
      obtain rs db' where fe: "enforce_evidence_freshness fr i r j db = (rs, db')"
        by (cases "enforce_evidence_freshness fr i r j db")
      have rs: "rs = [] \<longleftrightarrow> fr j = (False, False)"
        using freshness_current [of fr i r j db] fe by simp
      have s: "safe_step db db'" using enforce_evidence_freshness_safe [OF inv, of fr i r j] fe by simp
      show ?thesis
        unfolding pol
        using Inr \<open>find _ _ = Some v\<close> Some fe rs s safe_step_refl [OF inv]
        by (auto simp: mark_ready_def Let_def approve_def [abs_def] split: list.splits)
    qed
  qed
qed

section \<open>Runs\<close>

lemma keep_safe:
  "draft_inv db \<Longrightarrow> (\<And>db'. res = Inr db' \<Longrightarrow> safe_step db db') \<Longrightarrow> safe_step db (keep db res)"
  by (cases res) (simp_all add: keep_def safe_step_refl)

lemma keep_snd_safe:
  "draft_inv db \<Longrightarrow> (\<And>x db'. res = Inr (x, db') \<Longrightarrow> safe_step db db') \<Longrightarrow>
     safe_step db (keep_snd db res)"
  by (cases res) (auto simp: keep_snd_def safe_step_refl)

lemma exec_input_safe: "draft_inv db \<Longrightarrow> safe_step db (exec_input x db)"
  by (cases x) (auto intro!: keep_safe keep_snd_safe intro: safe_ops)

lemma exec_compile_safe: "draft_inv db \<Longrightarrow> safe_step db (exec_compile x db)"
  by (cases x) (auto intro!: keep_safe keep_snd_safe intro: safe_ops safe_step_refl)

lemma exec_text_safe: "draft_inv db \<Longrightarrow> safe_step db (exec_text h x db)"
  by (cases x) (auto intro!: keep_safe keep_snd_safe intro: safe_ops safe_step_refl safe_other)

definition marks_ready ::
  "(pystr \<Rightarrow> string) \<Rightarrow> draft_op \<Rightarrow> draft_db \<Rightarrow> nat \<Rightarrow> nat \<Rightarrow> nat \<Rightarrow> bool" where
  "marks_ready h op db i u r \<longleftrightarrow> (\<exists>fr l a. op = Project (MarkReady fr i u r l a)
     \<and> ready_policy h fr db i u r l a)"

lemma exec_draft_cases:
  assumes "draft_inv db"
  shows "safe_step db (exec_draft h op db)
    \<or> (\<exists>i u r. marks_ready h op db i u r
         \<and> exec_draft h op db = update_drafts (draft_at i u) (approve u r) db)"
proof (cases op)
  case (Project x)
  show ?thesis
  proof (cases x)
    case (MarkReady fr i u r l a)
    then show ?thesis
      using Project mark_ready_cases [OF assms, of h fr i u r l a]
      by (auto simp: marks_ready_def split: if_splits)
  qed (use Project assms in \<open>auto intro!: keep_safe keep_snd_safe intro: safe_ops\<close>)
qed (use assms exec_input_safe exec_compile_safe exec_text_safe in auto)

text \<open>Approving a draft that meets the policy keeps the invariant and the history.\<close>

lemma approve_inv:
  assumes inv: "draft_inv db" and pol: "ready_policy h fr db i u r l a"
  defines "db' \<equiv> update_drafts (draft_at i u) (approve u r) db"
  shows "draft_inv db'" and "history_kept db db'"
proof -
  have eq: "revisions db' = revisions db" "djobs db' = djobs db" "next_draft db' = next_draft db"
    "next_revision db' = next_revision db" "next_job db' = next_job db"
    by (simp_all add: db'_def update_drafts_def)
  have ids: "map dr_id (drafts db') = map dr_id (drafts db)"
    by (simp add: db'_def update_drafts_def map_key_update_rows approve_def)
  then have img: "dr_id ` set (drafts db') = dr_id ` set (drafts db)" by (metis list.set_map)
  have "drafts_wf db'"
    unfolding drafts_wf_def eq
  proof
    show "distinct (map dr_id (drafts db'))" using drafts_wfD(1) [OF inv_wfD(1) [OF inv]] ids by simp
    have "\<forall>n \<in> dr_id ` set (drafts db'). n < next_draft db"
      unfolding img using drafts_wfD(2) [OF inv_wfD(1) [OF inv]] by blast
    then show "\<forall>d \<in> set (drafts db'). dr_id d < next_draft db" by blast
  qed
  moreover have "revisions_wf db' = revisions_wf db" and "jobs_wf db' = jobs_wf db"
    by (simp_all only: revisions_wf_def jobs_wf_def eq)
  ultimately have wf: "tables_wf db'" using inv by (simp add: draft_inv_def tables_wf_def)
  have "ready_ok db' d'" if m: "d' \<in> set (drafts db')" for d'
  proof -
    obtain d where d: "d \<in> set (drafts db)" "d' = (if draft_at i u d then approve u r d else d)"
      by (rule mem_update_drafts [OF m [unfolded db'_def]])
    show ?thesis
    proof (cases "draft_at i u d")
      case True
      then have "dr_status d' = SReady" "dr_ready_rev d' = Some r" "dr_id d' = i"
        using d(2) by (simp_all add: approve_def bump_lock_def draft_at_def)
      then show ?thesis
        using pol by (auto simp: ready_ok_def ready_policy_def approved_revision_def eq
            no_active_compile_def active_compile_def)
    next
      case False
      then have "ready_ok db d'" using inv d by (simp add: draft_inv_def)
      then show ?thesis unfolding ready_ok_def eq .
    qed
  qed
  with wf show "draft_inv db'" by (simp add: draft_inv_def)
  show "history_kept db db'"
    unfolding history_kept_def draft_exists_def img eq
    using same_text_refl same_request_refl by blast
qed

lemma exec_draft_inv:
  assumes "draft_inv db"
  shows "draft_inv (exec_draft h op db)" and "history_kept db (exec_draft h op db)"
  using exec_draft_cases [OF assms, of h op] safe_step_inv [OF assms] approve_inv [OF assms]
  by (auto simp: marks_ready_def safe_step_def)

lemma empty_draft_inv: "draft_inv empty_draft_db"
  by (simp add: empty_draft_db_def draft_inv_def tables_wf_def drafts_wf_def revisions_wf_def
      jobs_wf_def)

lemma run_draft_inv:
  assumes "draft_inv db"
  shows "draft_inv (run_draft h ops db) \<and> history_kept db (run_draft h ops db)"
  using assms
proof (induction ops arbitrary: db)
  case Nil
  then show ?case by (auto simp: run_draft_def intro: history_kept_filter)
next
  case (Cons op ops)
  note s = exec_draft_inv [OF Cons.prems, of h op]
  have "draft_inv (run_draft h ops (exec_draft h op db))
      \<and> history_kept (exec_draft h op db) (run_draft h ops (exec_draft h op db))"
    by (rule Cons.IH [OF s(1)])
  then show ?case
    using history_kept_trans [OF s(2)] Cons.prems by (simp add: run_draft_def draft_inv_def)
qed

lemma run_draft_append: "run_draft h (xs @ ys) db = run_draft h ys (run_draft h xs db)"
  by (simp add: run_draft_def)

end
