(* ===== verification/Draft_Sample.thy ===== *)
theory Draft_Sample
  imports Draft_Steps
begin

text \<open>
  A concrete project, row by row, from its creation to a stored revision, and the databases
  of the runs that the properties are applied to.
\<close>

lemma run_draft_Nil [simp]: "run_draft h [] db = db"
  by (simp add: run_draft_def)

lemma run_draft_Cons [simp]: "run_draft h (op # ops) db = run_draft h ops (exec_draft h op db)"
  by (simp add: run_draft_def)

definition sample_draft :: draft_row where
  "sample_draft = \<lparr>dr_id = 1, dr_vault = 1, dr_owner = 7, dr_title = [84], dr_mode = ''rewrite'',
     dr_status = SDraft, dr_tier = ''standard'', dr_brief = '''', dr_lock = 1,
     dr_ready_rev = None, dr_ready_by = None, dr_archived = False\<rparr>"

definition sample_input :: input_row where
  "sample_input = \<lparr>in_id = 1, in_draft = 1, in_role = ''manuscript'', in_authority = ''primary'',
     in_as_of = None, in_size = 10, in_sha = ''s'', in_text = None, in_status = IPending,
     in_error = None, in_locked_spans = ''[]''\<rparr>"

definition sample_job :: draft_job where
  "sample_job = (fresh_draft_job 1 1 7 Compile 0)
     \<lparr>dj_key := Some ''k'', dj_fingerprint := Some ''fp'', dj_snapshot := [1]\<rparr>"

definition sample_revision :: revision_row where
  "sample_revision = \<lparr>rv_id = 1, rv_draft = 1, rv_parent = None, rv_job = Some 1, rv_no = 1,
     rv_source = ''pipeline'', rv_content = [65, 66], rv_sha = ''h'', rv_source_only = False,
     rv_fact = FactPassed, rv_current = False, rv_by = Some 7\<rparr>"

definition sample_base :: draft_db where
  "sample_base = empty_draft_db\<lparr>drafts := [sample_draft],
     inputs := [sample_input\<lparr>in_status := IReady, in_text := Some [65]\<rparr>],
     next_draft := 2, next_input := 2\<rparr>"

definition sample_at :: "draft_status \<Rightarrow> int \<Rightarrow> draft_job \<Rightarrow> draft_db" where
  "sample_at st l j = sample_base\<lparr>drafts := [sample_draft\<lparr>dr_status := st, dr_lock := l\<rparr>],
     djobs := [j], next_job := 2\<rparr>"

definition sample_claimed :: draft_job where
  "sample_claimed = sample_job\<lparr>dj_status := DRunning, dj_heartbeat := Some 0,
     dj_worker := Some ''w'', dj_generation := 1, dj_attempts := 1\<rparr>"

lemmas sample_defs = sample_draft_def sample_input_def sample_job_def sample_revision_def
  sample_base_def sample_at_def sample_claimed_def empty_draft_db_def fresh_draft_job_def

definition upload_ops :: "draft_op list" where
  "upload_ops = [Project (CreateDraft 1 7 [84] ''rewrite'' ''standard'' ''''),
     Input (ReserveInput 1 7 ''manuscript'' ''primary'' None 10 ''s'' 5 100),
     Input (SetParseStatus 1 IParsing None None False),
     Input (SetParseStatus 1 IReady (Some [65]) None False)]"

definition compile_ops :: "draft_op list" where
  "compile_ops = [Compiling (EnqueueCompile 1 7 1 None (Some ''k'') ''fp'' [1] None 1 0),
     Compiling (ClaimCompile (Some ''w'') 0)]"

lemma upload_run: "run_draft h upload_ops empty_draft_db = sample_base"
proof -
  let ?d = "empty_draft_db\<lparr>drafts := [sample_draft], next_draft := 2\<rparr>"
  let ?i = "\<lambda>st. ?d\<lparr>inputs := [sample_input\<lparr>in_status := st\<rparr>], next_input := 2\<rparr>"
  have "exec_draft h (Project (CreateDraft 1 7 [84] ''rewrite'' ''standard'' '''')) empty_draft_db = ?d"
    by (simp add: keep_def create_draft_def sample_defs Let_def valid_title_def py_strip_def
        draft_tiers_def py_isspace_def)
  moreover have "exec_draft h (Input (ReserveInput 1 7 ''manuscript'' ''primary'' None 10 ''s'' 5 100)) ?d
      = ?i IPending"
    by (simp add: keep_snd_def reserve_input_def sample_defs Let_def input_roles_def
        input_authorities_def locked_draft_def draft_at_def has_active_compile_def)
  moreover have "exec_draft h (Input (SetParseStatus 1 IParsing None None False)) (?i IPending)
      = ?i IParsing"
    by (simp add: keep_def set_input_parse_status_def sample_defs transition_ok_def
        update_inputs_def)
  moreover have "exec_draft h (Input (SetParseStatus 1 IReady (Some [65]) None False)) (?i IParsing)
      = sample_base"
    by (simp add: keep_def set_input_parse_status_def sample_defs transition_ok_def
        update_inputs_def)
  ultimately show ?thesis unfolding upload_ops_def run_draft_Cons run_draft_Nil by simp
qed

lemma enqueue_sample:
  "enqueue_compile 1 7 1 None (Some ''k'') ''fp'' [1] None 1 0 sample_base
     = Inr ((1, True), sample_at SQueued 2 sample_job)"
  by (simp add: enqueue_compile_def sample_defs draft_at_def Let_def has_active_job_def
      current_revision_def update_drafts_def add_job_def bump_lock_def)

lemma claim_sample:
  "claim_next_compile_job (Some ''w'') 0 (sample_at SQueued 2 sample_job)
     = (Some sample_claimed, sample_at SRunning 2 sample_claimed)"
  by (simp add: claim_next_compile_job_def claim_job_def sample_defs Let_def update_jobs_def
      mark_draft_running_def draft_status_of_def update_drafts_def)

lemma compile_run:
  "run_draft h (upload_ops @ compile_ops) empty_draft_db = sample_at SRunning 2 sample_claimed"
  by (simp add: run_draft_append upload_run compile_ops_def enqueue_sample claim_sample keep_snd_def
      del: One_nat_def)

text \<open>The worker disappears, the janitor hands the job back.\<close>

definition lost_ops :: "draft_op list" where
  "lost_ops = upload_ops @ compile_ops @ [Compiling (RecoverCompile (Some 300) 1000)]"

definition sample_lost :: draft_job where
  "sample_lost = sample_claimed\<lparr>dj_status := DPending, dj_error := Some ''worker_restart''\<rparr>"

lemma lost_run: "run_draft h lost_ops empty_draft_db = sample_at SQueued 2 sample_lost"
proof -
  have "exec_draft h (Compiling (RecoverCompile (Some 300) 1000)) (sample_at SRunning 2 sample_claimed)
      = sample_at SQueued 2 sample_lost"
    by (simp add: keep_snd_def recover_orphaned_compile_jobs_def orphans_def lease_expired_def
        recover_compile_row_def settle_draft_after_lost_compile_def draft_status_of_def
        transition_ok_def update_jobs_def update_drafts_def sample_defs sample_lost_def)
  then show ?thesis using compile_run [of h] by (simp add: lost_ops_def run_draft_append)
qed

text \<open>The compile runs to its end, and the draft is approved.\<close>

definition stored_ops :: "draft_op list" where
  "stored_ops = upload_ops @ compile_ops
     @ [Text (CommitRevision 1 7 1 [65, 66] ''h'' FactPassed False)]"

definition published_ops :: "draft_op list" where
  "published_ops = stored_ops @ [Text (PublishRevision 1 1 1),
     Compiling (PersistCompleted 1 (Some ''w'') 5), Text (WriteLedger [] [(1, 1, Some ''h'')] [])]"

definition sample_done :: draft_job where
  "sample_done = sample_claimed\<lparr>dj_status := DCompleted, dj_heartbeat := Some 5,
     dj_output := Some 1\<rparr>"

definition sample_stored :: "draft_status \<Rightarrow> int \<Rightarrow> draft_job \<Rightarrow> revision_row \<Rightarrow> draft_db" where
  "sample_stored st l j v = (sample_at st l j)\<lparr>revisions := [v], next_revision := 2\<rparr>"

definition sample_published :: draft_db where
  "sample_published = (sample_stored SNeedsReview 3 sample_done
     (sample_revision\<lparr>rv_current := True\<rparr>))\<lparr>fact_stages := [(1, 1, Some ''h'')]\<rparr>"

lemma stored_run:
  "run_draft h stored_ops empty_draft_db = sample_stored SRunning 2 sample_claimed sample_revision"
proof -
  have "exec_draft h (Text (CommitRevision 1 7 1 [65, 66] ''h'' FactPassed False))
      (sample_at SRunning 2 sample_claimed)
    = sample_stored SRunning 2 sample_claimed sample_revision"
    by (simp add: keep_snd_def commit_revision_def draft_at_def add_revision_def sample_stored_def
        next_revision_no_def current_revision_def sample_defs)
  then show ?thesis
    using compile_run [of h] by (simp add: stored_ops_def run_draft_append del: One_nat_def)
qed

lemma published_run: "run_draft h published_ops empty_draft_db = sample_published"
proof -
  let ?p = "sample_stored SNeedsReview 3 (sample_claimed\<lparr>dj_output := Some 1\<rparr>)
              (sample_revision\<lparr>rv_current := True\<rparr>)"
  let ?c = "sample_stored SNeedsReview 3 sample_done (sample_revision\<lparr>rv_current := True\<rparr>)"
  have "exec_draft h (Text (PublishRevision 1 1 1))
      (sample_stored SRunning 2 sample_claimed sample_revision) = ?p"
    by (simp add: keep_def publish_revision_def draft_status_of_def update_jobs_def
        update_drafts_def update_revisions_def bump_lock_def clear_ready_def sample_stored_def
        sample_defs)
  moreover have "exec_draft h (Compiling (PersistCompleted 1 (Some ''w'') 5)) ?p = ?c"
    by (simp add: keep_def persist_completed_def set_job_status_def transition_ok_def
        job_fence_def rowcount_def update_jobs_def sample_stored_def sample_defs sample_done_def)
  moreover have "exec_draft h (Text (WriteLedger [] [(1, 1, Some ''h'')] [])) ?c = sample_published"
    by (simp add: sample_published_def sample_stored_def sample_defs)
  ultimately show ?thesis
    using stored_run [of h] by (simp add: published_ops_def run_draft_append del: One_nat_def)
qed

text \<open>The owner approves; or applies a finding; or archives after the lease cap.\<close>

definition approve_op :: draft_op where
  "approve_op = Project (MarkReady (\<lambda>_. (False, False)) 1 7 1 3 False)"

definition sample_ready :: draft_row where
  "sample_ready = sample_draft\<lparr>dr_status := SReady, dr_lock := 4, dr_ready_rev := Some 1,
     dr_ready_by := Some 7\<rparr>"

lemma approve_sample:
  "exec_draft h approve_op sample_published = sample_published\<lparr>drafts := [sample_ready]\<rparr>"
  by (simp add: approve_op_def mark_ready_def locked_draft_def draft_at_def has_active_job_def
      active_job_def fact_current_def fact_candidate_def blockers_def blocking_claims_def
      enforce_evidence_freshness_def freshness_reasons_def update_drafts_def bump_lock_def
      sample_published_def sample_stored_def sample_done_def sample_ready_def sample_defs
      Let_def List.map_filter_def)

definition finding_ops :: "draft_op list" where
  "finding_ops = published_ops @ [Text (InsertFinding 1 (Some 1) (Some 1) ''spelling'' ''1'' ''style''
     ''warning'' True (Some [67]) (Some 0) (Some 1))]"

definition sample_finding :: "string \<Rightarrow> finding_row" where
  "sample_finding sha = (fresh_finding 1 1 (Some 1) (Some 1) ''spelling'' ''1'' ''warning'' True)
     \<lparr>fn_suggestion := Some [67], fn_start := Some 0, fn_end := Some 1, fn_span_sha := Some sha\<rparr>"

lemma finding_run:
  "run_draft h finding_ops empty_draft_db
     = sample_published\<lparr>findings := [sample_finding (h [65])], next_finding := 2\<rparr>"
proof -
  have "exec_draft h (Text (InsertFinding 1 (Some 1) (Some 1) ''spelling'' ''1'' ''style''
       ''warning'' True (Some [67]) (Some 0) (Some 1))) sample_published
      = sample_published\<lparr>findings := [sample_finding (h [65])], next_finding := 2\<rparr>"
    by (simp add: keep_snd_def insert_finding_def finding_categories_def draft_status_of_def
        validate_claim_span_def py_slice_def add_finding_def sample_finding_def
        sample_published_def sample_stored_def sample_done_def sample_defs fresh_finding_def Let_def)
  then show ?thesis
    using published_run [of h] by (simp add: finding_ops_def run_draft_append del: One_nat_def)
qed

definition archived_ops :: "draft_op list" where
  "archived_ops = stored_ops @ [Compiling (SettleAtCap 1 1 Compile), Project (ArchiveDraft 1 7 2)]"

lemma archived_run:
  "draft_status_of (run_draft h archived_ops empty_draft_db) 1 = Some SArchived"
proof -
  let ?j = "sample_claimed\<lparr>dj_status := DFailed, dj_error := Some ''lease_attempt_cap_exceeded'',
      dj_heartbeat := None, dj_worker := None\<rparr>"
  have "exec_draft h (Compiling (SettleAtCap 1 1 Compile))
      (sample_stored SRunning 2 sample_claimed sample_revision)
    = sample_stored SFailed 2 ?j sample_revision"
    by (simp add: keep_def settle_expired_job_at_lease_cap_def settle_draft_after_lost_compile_def
        draft_status_of_def transition_ok_def update_jobs_def update_drafts_def Let_def
        sample_stored_def sample_defs)
  moreover have "draft_status_of (exec_draft h (Project (ArchiveDraft 1 7 2))
      (sample_stored SFailed 2 ?j sample_revision)) 1 = Some SArchived"
    by (simp add: keep_def archive_draft_def locked_draft_def draft_at_def draft_move_ok_def
        transition_ok_def has_active_job_def active_job_def update_drafts_def draft_status_of_def
        bump_lock_def clear_ready_def sample_stored_def sample_defs)
  ultimately show ?thesis
    using stored_run [of h] by (simp add: archived_ops_def run_draft_append del: One_nat_def)
qed

end
