(* ===== verification/Draft_Properties.thy ===== *)
theory Draft_Properties
  imports Draft_Sample
begin

text \<open>
  What the safe steps give for the Draft Room: the Ready pointer and its single writer, the
  splice of a finding, immutable history, the replay of compile requests, and two ways in
  which a worker that has lost its job still writes to the draft.
\<close>

section \<open>Properties\<close>

text \<open>
  C1 After any sequence of operations of owners, workers and janitors, ids are unique, a
  draft has at most one current revision and at most one active compile, revision numbers
  of a draft are unique, idempotency keys are unique per owner, and the Ready pointer is set
  exactly when the draft is ready: then it names the draft's current, fact-checked revision
  and no compile of the draft is active.
\<close>

theorem draft_room_invariant: "draft_inv (run_draft h ops empty_draft_db)"
  using run_draft_inv [OF empty_draft_inv] by blast

text \<open>
  C2 Nothing but the owner's mark-ready request makes a draft ready, and it does so only for
  a revision that meets the whole policy at that moment: whatever operation turned a draft
  ready or moved its pointer was that request, on that draft, for that revision.
\<close>

theorem ready_only_by_policy:
  assumes "db = run_draft h ops empty_draft_db" and "d' \<in> set (drafts (exec_draft h op db))"
    and "dr_status d' = SReady"
    and "\<not> (\<exists>d \<in> set (drafts db). dr_id d = dr_id d' \<and> dr_status d = SReady
           \<and> dr_ready_rev d = dr_ready_rev d')"
  shows "\<exists>fr r l a. op = Project (MarkReady fr (dr_id d') (dr_owner d') r l a)
     \<and> ready_policy h fr db (dr_id d') (dr_owner d') r l a \<and> dr_ready_rev d' = Some r"
proof -
  have inv: "draft_inv db" using run_draft_inv [OF empty_draft_inv] assms(1) by blast
  from exec_draft_cases [OF inv, of h op] show ?thesis
  proof (elim disjE exE conjE)
    assume "safe_step db (exec_draft h op db)"
    then have "calm d' \<or> (\<exists>d \<in> set (drafts db). dr_id d = dr_id d' \<and> dr_status d = dr_status d'
        \<and> dr_ready_rev d = dr_ready_rev d')"
      using assms(2) unfolding safe_step_def approvals_kept_def by blast
    then show ?thesis using assms(3,4) by (auto simp: calm_def)
  next
    fix i u r
    assume m: "marks_ready h op db i u r"
      and e: "exec_draft h op db = update_drafts (draft_at i u) (approve u r) db"
    obtain d where d: "d \<in> set (drafts db)" "d' = (if draft_at i u d then approve u r d else d)"
      by (rule mem_update_drafts [OF assms(2) [unfolded e]])
    then have "draft_at i u d" using assms(3,4) by (auto split: if_splits)
    then have "dr_id d' = i" "dr_owner d' = u" "dr_ready_rev d' = Some r"
      using d(2) by (simp_all add: approve_def bump_lock_def draft_at_def)
    then show ?thesis using m by (auto simp: marks_ready_def)
  qed
qed

text \<open>
  C13 The mark-ready route is exact. In every reachable database, with the draft read in any
  earlier one, it succeeds if and only if the feature is on, the caller owns the draft and may
  read its vault, and draft, revision, fact check, findings, waivers, claims and evidence meet
  the policy (\<open>ready_policy\<close>); then it makes the draft ready with a pointer to the revision and
  changes nothing else. A claim on the revision with a blocking verdict refuses the request
  whatever its resolution is, as the comment in the transaction says, and not only while it
  is open, as item 8 of the docstring of the route has it.
\<close>

theorem mark_ready_exact:
  "let db0 = run_draft h ops0 empty_draft_db; db = run_draft h ops db0;
       res = mark_revision_ready enabled may_read h fr i u r l a db0 db in
     (fst res = Inr () \<longleftrightarrow>
        enabled \<and> (\<exists>d \<in> set (drafts db0). dr_id d = i \<and> dr_owner d = u \<and> may_read (dr_vault d))
        \<and> ready_policy h fr db i u r l a)
     \<and> (if fst res = Inr () then snd res = update_drafts (draft_at i u) (approve u r) db
        else \<exists>code. fst res = Inl (Http code))"
proof -
  let ?old = "run_draft h ops0 empty_draft_db"
  let ?db = "run_draft h ops ?old"
  have inv0: "draft_inv ?old" using run_draft_inv [OF empty_draft_inv] by blast
  have inv: "draft_inv ?db" using run_draft_inv [OF inv0] by blast
  note cases = mark_ready_cases [OF inv, of h fr i u r l a]
  show ?thesis
  proof (cases "find (draft_at i u) (drafts ?old)")
    case None
    then have "\<not> (\<exists>d \<in> set (drafts ?old). dr_id d = i \<and> dr_owner d = u)"
      using find_NoneD [OF None] by (auto simp: draft_at_def)
    then show ?thesis using None by (auto simp: Let_def mark_revision_ready_def map_store_error_def)
  next
    case (Some d)
    have d: "d \<in> set (drafts ?old)" "dr_id d = i" "dr_owner d = u"
      using find_SomeD [OF Some] by (simp_all add: draft_at_def)
    have "d' = d" if "d' \<in> set (drafts ?old)" "dr_id d' = i" for d'
      using inv_draft_unique [OF inv0 that(1) d(1)] d(2) that(2) by simp
    then have "(\<exists>d \<in> set (drafts ?old). dr_id d = i \<and> dr_owner d = u \<and> may_read (dr_vault d))
        \<longleftrightarrow> may_read (dr_vault d)"
      using d by blast
    then show ?thesis using Some cases
      by (cases "mark_ready h fr i u r l a ?db")
        (auto simp: Let_def mark_revision_ready_def map_store_error_def split: if_splits sum.splits)
  qed
qed

lemma current_revision_eq:
  assumes "draft_inv db" and "v \<in> set (revisions db)" and "rv_draft v = i" and "rv_current v"
  shows "current_revision db i = Some v"
proof (cases "current_revision db i")
  case None
  then show ?thesis using assms(2-4) by (auto simp: current_revision_def dest: find_NoneD)
next
  case (Some u)
  from current_revisionD [OF Some] current_unique [OF inv_wfD(2) [OF assms(1)] assms(2), of u] assms
  show ?thesis using Some by simp
qed

text \<open>
  Applying a finding splices exactly its span: the finding was open, raised against the
  current revision and its span text is unchanged; afterwards the current revision is a new
  one, child of the old, whose text is the old text with the span replaced by the
  suggestion and nothing else, not fact-checked; the finding is applied and the draft is
  back in review without a Ready pointer.
\<close>

theorem apply_finding_splices:
  assumes "db = run_draft h ops empty_draft_db"
    and "apply_finding h i u f l b n db = Inr (r, db')"
  shows "\<exists>x v s e t w. find (finding_at f i) (findings db) = Some x \<and> fn_status x = FOpen
     \<and> fn_start x = Some (int s) \<and> fn_end x = Some (int e) \<and> fn_suggestion x = Some t
     \<and> current_revision db i = Some v \<and> fn_revision x = Some (rv_id v)
     \<and> s < e \<and> e \<le> length (rv_content v)
     \<and> (\<forall>sha. fn_span_sha x = Some sha \<longrightarrow> h (take (e - s) (drop s (rv_content v))) = sha)
     \<and> current_revision db' i = Some w \<and> rv_id w = r \<and> rv_parent w = Some (rv_id v)
     \<and> rv_content w = take s (rv_content v) @ t @ drop e (rv_content v)
     \<and> rv_no v < rv_no w \<and> rv_fact w = NotRun
     \<and> (\<exists>y \<in> set (findings db'). finding_at f i y \<and> fn_status y = FApplied)
     \<and> (\<exists>d \<in> set (drafts db'). dr_id d = i \<and> dr_status d = SNeedsReview \<and> dr_ready_rev d = None)"
  using assms(2)
proof (rule apply_findingD)
  fix d x v s e t
  assume d: "d \<in> set (drafts db)" "dr_id d = i" "dr_owner d = u"
    and x: "find (finding_at f i) (findings db) = Some x" "fn_status x = FOpen"
      "fn_suggestion x = Some t" "fn_start x = Some s" "fn_end x = Some e"
      "fn_revision x = Some (rv_id v)"
    and v: "current_revision db i = Some v"
    and sp: "0 \<le> s" "s < e" "e \<le> int (length (rv_content v))"
      "fn_span_sha x = None \<or> fn_span_sha x = Some (h (py_slice (rv_content v) s e))"
    and r: "r = next_revision db"
    and db': "db' = update_drafts (draft_at i u) to_review
        (update_findings (\<lambda>x. fn_id x = f)
          (\<lambda>x. x\<lparr>fn_status := FApplied, fn_resolved_by := Some u, fn_note := n\<rparr>)
        (add_revision (manual_revision h i u (Some (rv_id v))
            (splice (rv_content v) s e t) db)
        (update_revisions (\<lambda>w. rv_id w = rv_id v) retire db)))"
  let ?w = "manual_revision h i u (Some (rv_id v)) (splice (rv_content v) s e t) db"
  have inv: "draft_inv db" using run_draft_inv [OF empty_draft_inv] assms(1) by blast
  have inv': "draft_inv db'"
    using apply_finding_safe [OF inv assms(2)] safe_step_inv [OF inv] by blast
  have "current_revision db' i = Some ?w"
    by (rule current_revision_eq [OF inv'])
      (simp_all add: db' update_drafts_def update_findings_def add_revision_def manual_revision_def)
  moreover have "\<exists>y \<in> set (findings db'). finding_at f i y \<and> fn_status y = FApplied"
    using in_update_rows [of x "findings db" "\<lambda>x. fn_id x = f"
        "\<lambda>x. x\<lparr>fn_status := FApplied, fn_resolved_by := Some u, fn_note := n\<rparr>"] find_SomeD [OF x(1)]
    by (intro bexI [of _ "x\<lparr>fn_status := FApplied, fn_resolved_by := Some u, fn_note := n\<rparr>"])
      (auto simp: db' update_drafts_def update_findings_def add_revision_def update_revisions_def
        finding_at_def)
  moreover have "\<exists>d \<in> set (drafts db'). dr_id d = i \<and> dr_status d = SNeedsReview
      \<and> dr_ready_rev d = None"
    using in_update_rows [OF d(1), of "draft_at i u" to_review] d
    by (intro bexI [of _ "to_review d"])
      (auto simp: db' update_drafts_def update_findings_def add_revision_def update_revisions_def
        draft_at_def)
  moreover have "rv_no v < rv_no ?w"
    using next_revision_no_gt current_revisionD [OF v] by (simp add: manual_revision_def)
  moreover have "py_slice (rv_content v) s e = take (nat e - nat s) (drop (nat s) (rv_content v))"
    using sp(1-3) by (simp add: py_slice_def Let_def)
  ultimately show ?thesis
    using x v sp r
    by (intro exI [of _ x] exI [of _ v] exI [of _ "nat s"] exI [of _ "nat e"] exI [of _ t]
        exI [of _ ?w]) (auto simp: manual_revision_def splice_def)
qed

text \<open>
  C30 A revision, once stored, is immutable: as long as its draft exists it stays in every
  later database with the same number, text, digest, parent, job, source and author,
  whatever anyone does in between.
\<close>

theorem revisions_immutable:
  assumes "v \<in> set (revisions (run_draft h xs empty_draft_db))"
    and "draft_exists (run_draft h (xs @ ys) empty_draft_db) (rv_draft v)"
  shows "\<exists>v' \<in> set (revisions (run_draft h (xs @ ys) empty_draft_db)). same_text v v'"
proof -
  have "draft_inv (run_draft h xs empty_draft_db)" using run_draft_inv [OF empty_draft_inv] by blast
  then have "history_kept (run_draft h xs empty_draft_db) (run_draft h (xs @ ys) empty_draft_db)"
    unfolding run_draft_append using run_draft_inv by blast
  then show ?thesis using assms unfolding history_kept_def by blast
qed

text \<open>The row a successful request leaves, and what a key finds.\<close>

lemma enqueue_compile_row:
  assumes "enqueue_compile i u l b (Some k) fp sn p a now db = Inr ((j, True), db')"
  shows "\<exists>r \<in> set (djobs db'). dj_id r = j \<and> dj_draft r = i \<and> dj_owner r = u
     \<and> dj_type r = Compile \<and> dj_key r = Some k \<and> dj_fingerprint r = Some fp"
  using assms
  by (auto simp: enqueue_compile_def Let_def add_job_def update_drafts_def fresh_draft_job_def
      split: option.splits if_splits)

lemma find_key_eq:
  assumes inv: "draft_inv db" and r: "r \<in> set (djobs db)" "dj_owner r = u" "dj_key r = Some k"
  shows "find (\<lambda>j. dj_owner j = u \<and> dj_key j = Some k) (djobs db) = Some r"
proof (cases "find (\<lambda>j. dj_owner j = u \<and> dj_key j = Some k) (djobs db)")
  case None
  then show ?thesis using r by (auto dest: find_NoneD)
next
  case (Some s)
  from find_SomeD [OF Some] have s: "s \<in> set (djobs db)" "dj_owner s = u" "dj_key s = Some k" by auto
  then have "dj_id s = dj_id r" using jobs_wf_key [OF inv_wfD(3) [OF inv] s(1) r(1)] r by simp
  then have "s = r" using distinct_key_eq [OF jobs_wfD(1) [OF inv_wfD(3) [OF inv]] s(1) r(1)] by simp
  with Some show ?thesis by simp
qed

text \<open>
  A compile request is idempotent under its key: once a request with key \<open>k\<close> has
  created job \<open>j\<close>, then after any further operations, as long as the draft exists, the same
  key with the same fingerprint returns job \<open>j\<close> and changes nothing, whatever lock version,
  base or state the draft has by then; with another fingerprint, or for another draft of
  the owner, it is refused.
\<close>

theorem compile_replay:
  assumes "db = run_draft h xs empty_draft_db"
    and "enqueue_compile i u l b (Some k) fp sn p a now db = Inr ((j, True), db1)"
    and "db2 = run_draft h ys db1" and "draft_exists db2 i"
    and "find (draft_at i' u) (drafts db2) \<noteq> None"
  shows "enqueue_compile i' u l' b' (Some k) fp' sn' p' a' now' db2
    = (if i' = i \<and> fp' = fp then Inr ((j, False), db2)
       else Inl (Conflict ''idempotency_key_conflict''))"
proof -
  have inv: "draft_inv db" using run_draft_inv [OF empty_draft_inv] assms(1) by blast
  have inv1: "draft_inv db1" using enqueue_compile_safe [OF inv assms(2)] safe_step_inv [OF inv] by blast
  have inv2: "draft_inv db2" and kept: "history_kept db1 db2"
    using run_draft_inv [OF inv1] assms(3) by auto
  obtain r where r: "r \<in> set (djobs db1)" "dj_id r = j" "dj_draft r = i" "dj_owner r = u"
    "dj_type r = Compile" "dj_key r = Some k" "dj_fingerprint r = Some fp"
    using enqueue_compile_row [OF assms(2)] by blast
  have "draft_exists db2 (dj_draft r)" using assms(4) r(3) by simp
  then obtain s where s: "s \<in> set (djobs db2)" "same_request r s"
    using kept r(1,5) unfolding history_kept_def by blast
  then have f: "find (\<lambda>j. dj_owner j = u \<and> dj_key j = Some k) (djobs db2) = Some s"
    using r by (intro find_key_eq [OF inv2]) (simp_all add: same_request_def)
  have eq: "dj_id s = j" "dj_draft s = i" "dj_fingerprint s = Some fp"
    using s(2) r by (simp_all add: same_request_def)
  show ?thesis using assms(5) f eq by (auto simp: enqueue_compile_def)
qed

section \<open>Workers that have lost their job\<close>

lemma draft_status_of_set_status:
  "draft_status_of (update_drafts (\<lambda>d. dr_id d = i) (\<lambda>d. d\<lparr>dr_status := t\<rparr>) db) i
     = map_option (\<lambda>_. t) (draft_status_of db i)"
  by (cases "find (\<lambda>d. dr_id d = i) (drafts db)")
    (auto simp: draft_status_of_def update_drafts_def find_map_update_rows dest: find_SomeD)

lemma drafts_after_claim:
  "drafts (snd (claim_next_compile_job w now db)) = drafts db
   \<or> (\<exists>n. draft_status_of db n = Some SQueued \<and> drafts (snd (claim_next_compile_job w now db))
        = update_rows (\<lambda>d. dr_id d = n) (\<lambda>d. d\<lparr>dr_status := SRunning\<rparr>) (drafts db))"
proof (cases "claim_job Compile w now db")
  case None
  then show ?thesis by (simp add: claim_next_compile_job_def)
next
  case (Some p)
  obtain c db' where p: "p = (c, db')" by (cases p)
  then have "drafts db' = drafts db"
    using Some by (auto simp: claim_job_def Let_def update_jobs_def split: list.splits option.splits)
  then show ?thesis
    using Some p by (auto simp: claim_next_compile_job_def mark_draft_running_def draft_status_of_def
        update_drafts_def)
qed

text \<open>
  A worker whose compile was reclaimed while it was away and who then reports a failure
  fails the draft all the same: the job is pending again, so the transition check of
  \<open>set_job_status\<close> raises before its fence is evaluated, the error is swallowed and the
  queued draft becomes failed while its pending job stays. Whoever claims that job next
  cannot store a revision.
\<close>

theorem reclaimed_compile_failure_moves_draft:
  assumes "find (\<lambda>r. dj_id r = j) (djobs db) = Some r" and "dj_status r = DPending"
    and "draft_status_of db i = Some SQueued"
  shows "\<exists>db'. persist_failure j i code w now db = Inr db' \<and> djobs db' = djobs db
     \<and> draft_status_of db' i = Some SFailed
     \<and> commit_revision i u k text sha verdict so (snd (claim_next_compile_job w' now' db'))
         = Inl CompileFailure"
proof -
  let ?db = "update_drafts (\<lambda>d. dr_id d = i) (\<lambda>d. d\<lparr>dr_status := SFailed\<rparr>) db"
  let ?c = "snd (claim_next_compile_job w' now' ?db)"
  have st: "draft_status_of ?db i = Some SFailed"
    using assms(3) by (simp add: draft_status_of_set_status)
  have F: "dr_status d = SFailed" if "d \<in> set (drafts ?db)" "dr_id d = i" for d
    by (rule mem_update_drafts [OF that(1)]) (use that(2) in \<open>simp split: if_splits\<close>)
  have "dr_status d = SFailed" if d: "d \<in> set (drafts ?c)" "dr_id d = i" for d
    using drafts_after_claim [of w' now' ?db]
  proof (elim disjE exE conjE)
    assume "drafts ?c = drafts ?db"
    with F d show ?thesis by simp
  next
    fix n
    assume n: "draft_status_of ?db n = Some SQueued"
      and c: "drafts ?c = update_rows (\<lambda>d. dr_id d = n) (\<lambda>d. d\<lparr>dr_status := SRunning\<rparr>) (drafts ?db)"
    obtain e where e: "e \<in> set (drafts ?db)"
      "d = (if dr_id e = n then e\<lparr>dr_status := SRunning\<rparr> else e)"
      using d(1) unfolding c set_update_rows by blast
    have "n \<noteq> i" using n st by auto
    with e d(2) have "d = e" by (auto split: if_splits)
    with F [OF e(1)] d(2) show ?thesis by simp
  qed
  then have "commit_revision i u k text sha verdict so ?c = Inl CompileFailure"
    by (auto simp: commit_revision_def draft_at_def split: option.splits dest!: find_SomeD)
  moreover have "persist_failure j i code w now db = Inr ?db"
    using assms by (simp add: persist_failure_def persist_settlement_def set_job_status_def
        transition_ok_def move_draft_def)
  ultimately show ?thesis using st by (simp add: update_drafts_def)
qed

text \<open>
  Publication is not fenced: it makes the stored revision current and moves the draft to
  review whatever the draft's status, without asking whether the job still runs. A draft
  that was archived after its job had been settled comes back to review with its archive
  mark still set, and restoring it, the operation that clears the mark, is refused.
\<close>

theorem publish_ignores_job_and_status:
  assumes "draft_status_of db i = Some s"
  shows "\<exists>db'. publish_revision i j r db = Inr db' \<and> draft_status_of db' i = Some SNeedsReview
     \<and> map dr_archived (drafts db') = map dr_archived (drafts db)
     \<and> (\<forall>u l db''. restore_draft i u l db' \<noteq> Inr db'')"
proof -
  let ?p = "\<lambda>d. bump_lock (clear_ready (d\<lparr>dr_status := SNeedsReview\<rparr>))"
  obtain db' where e: "publish_revision i j r db = Inr db'"
    using assms by (simp add: publish_revision_def)
  have dr: "drafts db' = update_rows (\<lambda>d. dr_id d = i) ?p (drafts db)"
    using e assms by (auto simp: publish_revision_def update_jobs_def update_drafts_def
        update_revisions_def)
  have m: "dr_status d \<noteq> SArchived" if d: "d \<in> set (drafts db')" "dr_id d = i" for d
  proof -
    obtain x where "d = (if dr_id x = i then ?p x else x)"
      using d(1) unfolding dr set_update_rows by blast
    then show ?thesis using d(2) by (auto split: if_splits)
  qed
  have "restore_draft i u l db' \<noteq> Inr db''" for u l db''
    using m by (auto simp: restore_draft_def Let_def split: sum.splits if_splits
        dest!: locked_draftD)
  moreover have "draft_status_of db' i = Some SNeedsReview"
    using assms find_SomeD by (fastforce simp: draft_status_of_def dr find_map_update_rows)
  moreover have "map dr_archived (drafts db') = map dr_archived (drafts db)"
    unfolding dr by (rule map_key_update_rows) (simp add: bump_lock_def clear_ready_def)
  ultimately show ?thesis using e by blast
qed

section \<open>Witnesses\<close>

theorem ready_only_by_policy_witness:
  "\<exists>fr r l a. approve_op = Project (MarkReady fr (dr_id sample_ready) (dr_owner sample_ready) r l a)
     \<and> ready_policy (\<lambda>_. ''h'') fr sample_published (dr_id sample_ready) (dr_owner sample_ready) r l a
     \<and> dr_ready_rev sample_ready = Some r"
proof (rule ready_only_by_policy [OF published_run [symmetric]])
  show "sample_ready \<in> set (drafts (exec_draft (\<lambda>_. ''h'') approve_op sample_published))"
    by (simp add: approve_sample)
  show "dr_status sample_ready = SReady" by (simp add: sample_ready_def)
  show "\<not> (\<exists>d \<in> set (drafts sample_published). dr_id d = dr_id sample_ready
      \<and> dr_status d = SReady \<and> dr_ready_rev d = dr_ready_rev sample_ready)"
    by (simp add: sample_published_def sample_stored_def sample_at_def)
qed

theorem apply_finding_splices_witness:
  "\<exists>db'. apply_finding (\<lambda>_. ''h'') 1 7 1 3 (Some 1) None
       (sample_published\<lparr>findings := [sample_finding ''h''], next_finding := 2\<rparr>) = Inr (2, db')
     \<and> (\<exists>w. current_revision db' 1 = Some w \<and> rv_content w = [67, 66])"
proof -
  let ?db = "sample_published\<lparr>findings := [sample_finding ''h''], next_finding := 2\<rparr>"
  have r: "?db = run_draft (\<lambda>_. ''h'') finding_ops empty_draft_db" by (simp add: finding_run)
  obtain db' where a: "apply_finding (\<lambda>_. ''h'') 1 7 1 3 (Some 1) None ?db = Inr (2, db')"
    by (simp add: apply_finding_def locked_draft_def draft_at_def has_active_compile_def
        active_compile_def active_job_def current_revision_def finding_at_def py_slice_def
        sample_finding_def fresh_finding_def sample_published_def sample_stored_def
        sample_done_def sample_defs Let_def)
  have "current_revision ?db 1 = Some (sample_revision\<lparr>rv_current := True\<rparr>)"
    "find (finding_at 1 1) (findings ?db) = Some (sample_finding ''h'')"
    by (simp_all add: current_revision_def sample_published_def sample_stored_def
        sample_defs finding_at_def sample_finding_def fresh_finding_def)
  then show ?thesis
    using apply_finding_splices [OF r a] a
    by (auto simp: sample_finding_def fresh_finding_def sample_revision_def)
qed

theorem revisions_immutable_witness:
  "\<exists>v' \<in> set (revisions (run_draft (\<lambda>_. ''h'')
       (stored_ops @ [Text (PublishRevision 1 1 1), Compiling (PersistCompleted 1 (Some ''w'') 5),
          Text (WriteLedger [] [(1, 1, Some ''h'')] [])]) empty_draft_db)).
     same_text sample_revision v'"
proof (rule revisions_immutable)
  show "sample_revision \<in> set (revisions (run_draft (\<lambda>_. ''h'') stored_ops empty_draft_db))"
    by (simp add: stored_run sample_stored_def)
  have "draft_exists sample_published (rv_draft sample_revision)"
    by (simp add: draft_exists_def sample_published_def sample_stored_def sample_defs)
  then show "draft_exists (run_draft (\<lambda>_. ''h'') (stored_ops @
      [Text (PublishRevision 1 1 1), Compiling (PersistCompleted 1 (Some ''w'') 5),
       Text (WriteLedger [] [(1, 1, Some ''h'')] [])]) empty_draft_db) (rv_draft sample_revision)"
    unfolding published_ops_def [symmetric] published_run .
qed

theorem compile_replay_witness:
  "enqueue_compile 1 7 99 None (Some ''k'') ''fp'' [] None 1 0 (sample_at SRunning 2 sample_claimed)
     = Inr ((1, False), sample_at SRunning 2 sample_claimed)"
proof -
  have "enqueue_compile 1 7 99 None (Some ''k'') ''fp'' [] None 1 0 (sample_at SRunning 2 sample_claimed)
     = (if (1 :: nat) = 1 \<and> ''fp'' = ''fp'' then Inr ((1, False), sample_at SRunning 2 sample_claimed)
        else Inl (Conflict ''idempotency_key_conflict''))"
  proof (rule compile_replay [OF upload_run [symmetric] enqueue_sample])
    show "sample_at SRunning 2 sample_claimed
        = run_draft (\<lambda>_. []) [Compiling (ClaimCompile (Some ''w'') 0)] (sample_at SQueued 2 sample_job)"
      by (simp add: claim_sample del: One_nat_def)
  qed (simp_all add: draft_exists_def draft_at_def sample_defs)
  then show ?thesis by simp
qed

theorem reclaimed_compile_failure_moves_draft_witness:
  "\<exists>db'. persist_failure 1 1 ''internal_error'' (Some ''w'') 1001
       (run_draft (\<lambda>_. ''h'') lost_ops empty_draft_db) = Inr db'
     \<and> draft_status_of db' 1 = Some SFailed"
  using reclaimed_compile_failure_moves_draft
    [of 1 "run_draft (\<lambda>_. ''h'') lost_ops empty_draft_db" sample_lost 1 "''internal_error''"
        "Some ''w''" 1001 7 1 "[]" "''''" FactPassed False "Some ''w2''" 1002]
  unfolding lost_run by (auto simp: draft_status_of_def sample_lost_def sample_defs)

theorem publish_ignores_job_and_status_witness:
  "\<exists>db'. publish_revision 1 1 1 (run_draft (\<lambda>_. ''h'') archived_ops empty_draft_db) = Inr db'
     \<and> draft_status_of db' 1 = Some SNeedsReview"
  using publish_ignores_job_and_status [OF archived_run] by blast

end
