(* ===== verification/Text_Scan.thy ===== *)
theory Text_Scan
  imports Prelude
begin

text \<open>
  What the text components use of Python's \<open>str\<close> and \<open>re\<close>: decimal digits, \<open>str(n)\<close> and
  \<open>int(s)\<close>, \<open>str.find\<close>, and the left-to-right scan behind \<open>re.sub\<close> and \<open>re.finditer\<close>.
  A regular expression is a function that gives the length of its match at the head of a
  text, 0 for none; no pattern here matches the empty string.
\<close>

section \<open>Decimal digits\<close>

text \<open>
  \<open>\d\<close> matches the category Nd of Unicode 14 (Python 3.11): blocks of ten digits each,
  given by the code point of their zero.
\<close>

definition digit_zeros :: "nat list" where
  "digit_zeros =
     [48, 1632, 1776, 1984, 2406, 2534, 2662, 2790, 2918, 3046, 3174, 3302, 3430, 3558, 3664,
      3792, 3872, 4160, 4240, 6112, 6160, 6470, 6608, 6784, 6800, 6992, 7088, 7232, 7248, 42528,
      43216, 43264, 43472, 43504, 43600, 44016, 65296, 66720, 68912, 69734, 69872, 69942, 70096,
      70384, 70736, 70864, 71248, 71360, 71472, 71904, 72016, 72784, 73040, 73120, 92768, 92864,
      93008, 120782, 120792, 120802, 120812, 120822, 123200, 123632, 125264, 130032]"

definition digit_value :: "nat \<Rightarrow> nat option" where
  "digit_value c = map_option (\<lambda>z. c - z) (find (\<lambda>z. z \<le> c \<and> c \<le> z + 9) digit_zeros)"

definition py_isdecimal :: "nat \<Rightarrow> bool" where
  "py_isdecimal c \<longleftrightarrow> digit_value c \<noteq> None"

text \<open>\<open>str(n)\<close> of a non-negative integer, and \<open>int(s)\<close> of a string of decimal digits.\<close>

fun dec :: "nat \<Rightarrow> pystr" where
  "dec n = (if n < 10 then [48 + n] else dec (n div 10) @ [48 + n mod 10])"

declare dec.simps [simp del]

definition py_int :: "pystr \<Rightarrow> nat" where
  "py_int ds = foldl (\<lambda>n c. 10 * n + the (digit_value c)) 0 ds"

lemma digit_value_ascii [simp]: "n < 10 \<Longrightarrow> digit_value (48 + n) = Some n"
  by (simp add: digit_value_def digit_zeros_def)

lemma dec_digits: "c \<in> set (dec n) \<Longrightarrow> 48 \<le> c \<and> c \<le> 57"
proof (induction n arbitrary: c rule: dec.induct)
  case (1 n)
  show ?case
  proof (cases "n < 10")
    case True
    with 1 show ?thesis by (simp add: dec.simps [of n])
  next
    case False
    have "n mod 10 < 10" by simp
    with 1 False show ?thesis by (auto simp: dec.simps [of n])
  qed
qed

lemma dec_isdecimal: "c \<in> set (dec n) \<Longrightarrow> py_isdecimal c"
  using dec_digits [of c n] digit_value_ascii [of "c - 48"] by (auto simp: py_isdecimal_def)

lemma dec_nonempty [simp]: "dec n \<noteq> []"
  by (simp add: dec.simps [of n])

lemma py_int_dec [simp]: "py_int (dec n) = n"
proof (induction n rule: dec.induct)
  case (1 n)
  show ?case
  proof (cases "n < 10")
    case True
    then show ?thesis by (simp add: dec.simps [of n] py_int_def)
  next
    case False
    with 1 have "py_int (dec (n div 10)) = n div 10" by simp
    then show ?thesis using False
      by (simp add: dec.simps [of n] py_int_def)
  qed
qed

text \<open>Control characters, brackets and blanks are no digits.\<close>

lemma not_decimal_small: "c < 48 \<Longrightarrow> \<not> py_isdecimal c"
  by (auto simp: py_isdecimal_def digit_value_def digit_zeros_def find_None_iff)

lemma not_decimal_punct: "57 < c \<Longrightarrow> c < 1632 \<Longrightarrow> \<not> py_isdecimal c"
  by (auto simp: py_isdecimal_def digit_value_def digit_zeros_def find_None_iff)

section \<open>Substrings\<close>

text \<open>\<open>s.find(p)\<close>, with \<open>None\<close> for -1.\<close>

fun find_sub :: "pystr \<Rightarrow> pystr \<Rightarrow> nat option" where
  "find_sub p s =
     (if take (length p) s = p then Some 0
      else case s of [] \<Rightarrow> None | _ # t \<Rightarrow> map_option Suc (find_sub p t))"

declare find_sub.simps [simp del]

definition py_in :: "pystr \<Rightarrow> pystr \<Rightarrow> bool" where
  "py_in p s \<longleftrightarrow> find_sub p s \<noteq> None"

lemma find_sub_SomeD: "find_sub p s = Some i \<Longrightarrow> take (length p) (drop i s) = p"
proof (induction s arbitrary: i)
  case Nil
  then show ?case by (auto simp: find_sub.simps [of p] split: if_splits)
next
  case (Cons c s)
  then show ?case by (auto simp: find_sub.simps [of p "c # s"] split: if_splits)
qed

lemma find_sub_least:
  "find_sub p s = Some i \<Longrightarrow> j < i \<Longrightarrow> take (length p) (drop j s) \<noteq> p"
proof (induction s arbitrary: i j)
  case Nil
  then show ?case by (auto simp: find_sub.simps [of p] split: if_splits)
next
  case (Cons c s)
  then show ?case
    by (cases j) (auto simp: find_sub.simps [of p "c # s"] split: if_splits)
qed

lemma find_sub_NoneD: "find_sub p s = None \<Longrightarrow> take (length p) (drop j s) \<noteq> p"
proof (induction s arbitrary: j)
  case Nil
  then show ?case by (auto simp: find_sub.simps [of p] split: if_splits)
next
  case (Cons c s)
  then show ?case
    by (cases j) (auto simp: find_sub.simps [of p "c # s"] split: if_splits)
qed

section \<open>The scan of a regular expression\<close>

datatype piece = Lit nat | Hit pystr

function scan :: "(pystr \<Rightarrow> nat) \<Rightarrow> pystr \<Rightarrow> piece list" where
  "scan m [] = []"
| "scan m (c # cs) =
     (if m (c # cs) = 0 then Lit c # scan m cs
      else Hit (take (m (c # cs)) (c # cs)) # scan m (drop (m (c # cs)) (c # cs)))"
  by pat_completeness auto
termination by (relation "measure (length \<circ> snd)") auto

fun piece_text :: "piece \<Rightarrow> pystr" where
  "piece_text (Lit c) = [c]"
| "piece_text (Hit h) = h"

fun hits :: "piece list \<Rightarrow> pystr list" where
  "hits [] = []"
| "hits (Lit c # ps) = hits ps"
| "hits (Hit h # ps) = h # hits ps"

lemma scan_text: "concat (map piece_text (scan m xs)) = xs"
  by (induction m xs rule: scan.induct) (auto simp del: drop_Cons' take_Cons')

lemma hits_append [simp]: "hits (ps @ qs) = hits ps @ hits qs"
  by (induction ps rule: hits.induct) auto

lemma hits_map_Lit [simp]: "hits (map Lit xs) = []"
  by (induction xs) auto

lemma scan_lits:
  assumes "\<And>ys zs. xs = ys @ zs \<Longrightarrow> zs \<noteq> [] \<Longrightarrow> m (zs @ r) = 0"
  shows "scan m (xs @ r) = map Lit xs @ scan m r"
  using assms
proof (induction xs)
  case (Cons c cs)
  have "m (c # cs @ r) = 0" using Cons.prems [of "[]" "c # cs"] by simp
  moreover have "scan m (cs @ r) = map Lit cs @ scan m r"
    by (rule Cons.IH) (use Cons.prems [of "c # _"] in simp)
  ultimately show ?case by simp
qed simp

section \<open>Dashes\<close>

text \<open>\<open>re.sub\<close> of the runs of characters in \<open>p\<close> by a dash.\<close>

function dash_runs :: "(nat \<Rightarrow> bool) \<Rightarrow> pystr \<Rightarrow> pystr" where
  "dash_runs p [] = []"
| "dash_runs p (c # cs) = (if p c then 45 # dash_runs p (dropWhile p cs) else c # dash_runs p cs)"
  by pat_completeness auto
termination
  by (relation "measure (\<lambda>(p, s). length s)") (auto simp: le_imp_less_Suc length_dropWhile_le)

text \<open>The same with another character in place of each run.\<close>

function squash :: "nat \<Rightarrow> (nat \<Rightarrow> bool) \<Rightarrow> pystr \<Rightarrow> pystr" where
  "squash r p [] = []"
| "squash r p (c # cs) = (if p c then r # squash r p (dropWhile p cs) else c # squash r p cs)"
  by pat_completeness auto
termination
  by (relation "measure (\<lambda>(r, p, s). length s)") (auto simp: le_imp_less_Suc length_dropWhile_le)

definition strip_dashes :: "pystr \<Rightarrow> pystr" where
  "strip_dashes s = rev (dropWhile (\<lambda>c. c = 45) (rev (dropWhile (\<lambda>c. c = 45) s)))"

lemma dash_runs_chars: "c \<in> set (dash_runs p s) \<Longrightarrow> c = 45 \<or> c \<in> set s \<and> \<not> p c"
  by (induction p s rule: dash_runs.induct) (auto split: if_splits dest: set_dropWhileD)

lemma strip_dashes_subset: "set (strip_dashes s) \<subseteq> set s"
  unfolding strip_dashes_def by (auto dest!: set_dropWhileD)

section \<open>Splitting and joining\<close>

text \<open>\<open>s.split(c)\<close> for a one-character separator, and \<open>c.join(xs)\<close>.\<close>

fun py_split :: "nat \<Rightarrow> pystr \<Rightarrow> pystr list" where
  "py_split c [] = [[]]"
| "py_split c (x # xs) =
     (if x = c then [] # py_split c xs
      else (x # hd (py_split c xs)) # tl (py_split c xs))"

fun py_join :: "pystr \<Rightarrow> pystr list \<Rightarrow> pystr" where
  "py_join sep [] = []"
| "py_join sep [x] = x"
| "py_join sep (x # y # r) = x @ sep @ py_join sep (y # r)"

lemma py_split_nonempty [simp]: "py_split c s \<noteq> []"
  by (cases s) auto

lemma py_join_Cons: "xs \<noteq> [] \<Longrightarrow> py_join sep (x # xs) = x @ sep @ py_join sep xs"
  by (cases xs) auto

lemma py_join_append:
  "xs \<noteq> [] \<Longrightarrow> ys \<noteq> [] \<Longrightarrow> py_join sep (xs @ ys) = py_join sep xs @ sep @ py_join sep ys"
proof (induction xs)
  case (Cons x xs)
  then show ?case by (cases "xs = []") (simp_all add: py_join_Cons)
qed simp

lemma py_join_split [simp]: "py_join [c] (py_split c s) = s"
proof (induction s)
  case (Cons x s)
  obtain y ys where y: "py_split c s = y # ys" by (cases "py_split c s") auto
  have "py_join [c] ((x # y) # ys) = x # py_join [c] (y # ys)" by (cases ys) auto
  with Cons y show ?case by (simp add: py_join_Cons)
qed simp

lemma py_split_pieces: "y \<in> set (py_split c s) \<Longrightarrow> c \<notin> set y"
proof (induction s arbitrary: y)
  case (Cons x s)
  obtain z zs where "py_split c s = z # zs" by (cases "py_split c s") auto
  with Cons show ?case by (auto split: if_splits)
qed simp

lemma py_split_append:
  "py_split c (s @ c # t) = py_split c s @ py_split c t"
  by (induction s) auto

lemma py_split_no_sep: "c \<notin> set s \<Longrightarrow> py_split c s = [s]"
  by (induction s) auto

lemma py_split_join:
  "xs \<noteq> [] \<Longrightarrow> \<forall>x \<in> set xs. c \<notin> set x \<Longrightarrow> py_split c (py_join [c] xs) = xs"
  by (induction "[c]" xs rule: py_join.induct) (auto simp: py_split_append py_split_no_sep)

section \<open>Duplicates\<close>

text \<open>Removing duplicates as \<open>dict.fromkeys\<close> does, keeping first occurrences in order.\<close>

fun py_dedup :: "'a list \<Rightarrow> 'a list" where
  "py_dedup [] = []"
| "py_dedup (x # xs) = x # filter (\<lambda>y. y \<noteq> x) (py_dedup xs)"

lemma set_py_dedup [simp]: "set (py_dedup xs) = set xs"
  by (induction xs) auto

lemma distinct_py_dedup [simp]: "distinct (py_dedup xs)"
  by (induction xs) auto

lemma py_dedup_Nil_iff [simp]: "py_dedup xs = [] \<longleftrightarrow> xs = []"
  by (cases xs) auto

end
