(* ===== verification/Citation_Validator.thy ===== *)
theory Citation_Validator
  imports Text_Scan
begin

text \<open>
  \<^verbatim>\<open>backend/app/services/citation_validator.py\<close>: validation and repair of the
  \<open>[S1]\<close>-style citations of an answer before it is stored. The lexical-overlap scores of
  the same file are not modelled.
\<close>

section \<open>Patterns\<close>

text \<open>\<open>_CITATION_RE\<close>: an opening bracket, one of S M W K D, decimal digits, a closing bracket.\<close>

definition citation_kinds :: "nat list" where
  "citation_kinds = [83, 77, 87, 75, 68]"

definition citation_at :: "pystr \<Rightarrow> nat" where
  "citation_at s =
     (case s of
        a # p # rest \<Rightarrow>
          (let ds = takeWhile py_isdecimal rest
           in if a = 91 \<and> p \<in> set citation_kinds \<and> ds \<noteq> [] \<and> take 1 (drop (length ds) rest) = [93]
              then length ds + 3 else 0)
      | _ \<Rightarrow> 0)"

text \<open>The label of a match, prefix and digits.\<close>

definition label_of :: "pystr \<Rightarrow> pystr" where
  "label_of h = take (length h - 2) (drop 1 h)"

text \<open>\<open>_CODE_SPAN_RE\<close>: the four alternatives in order, the first that matches wins.\<close>

definition fenced :: "pystr \<Rightarrow> pystr \<Rightarrow> nat" where
  "fenced f s =
     (if take (length f) s = f then
        (case find_sub f (drop (length f) s) of None \<Rightarrow> 0 | Some i \<Rightarrow> i + 2 * length f)
      else 0)"

definition inline_span :: "pystr \<Rightarrow> nat" where
  "inline_span s =
     (case s of
        a # rest \<Rightarrow>
          (let body = takeWhile (\<lambda>c. c \<noteq> 96 \<and> c \<noteq> 10) rest
           in if a = 96 \<and> take 1 (drop (length body) rest) = [96] then length body + 2 else 0)
      | [] \<Rightarrow> 0)"

definition first_match :: "nat list \<Rightarrow> nat" where
  "first_match ks = (case filter (\<lambda>k. k \<noteq> 0) ks of [] \<Rightarrow> 0 | k # _ \<Rightarrow> k)"

definition code_span_at :: "pystr \<Rightarrow> nat" where
  "code_span_at s = first_match
     [fenced (replicate 3 96) s, fenced (replicate 3 126) s, fenced (replicate 4 126) s,
      inline_span s]"

text \<open>\<open>_CODE_PLACEHOLDER_RE\<close>: NUL, decimal digits, SOH.\<close>

definition placeholder_at :: "pystr \<Rightarrow> nat" where
  "placeholder_at s =
     (case s of
        a # rest \<Rightarrow>
          (let ds = takeWhile py_isdecimal rest
           in if a = 0 \<and> ds \<noteq> [] \<and> take 1 (drop (length ds) rest) = [1] then length ds + 2 else 0)
      | [] \<Rightarrow> 0)"

section \<open>Code regions\<close>

fun mask_pieces :: "nat \<Rightarrow> piece list \<Rightarrow> pystr \<times> pystr list" where
  "mask_pieces n [] = ([], [])"
| "mask_pieces n (Lit c # ps) = (case mask_pieces n ps of (t, spans) \<Rightarrow> (c # t, spans))"
| "mask_pieces n (Hit h # ps) =
     (case mask_pieces (Suc n) ps of (t, spans) \<Rightarrow> (0 # dec n @ 1 # t, h # spans))"

definition mask_code_regions :: "pystr \<Rightarrow> pystr \<times> pystr list" where
  "mask_code_regions text = mask_pieces 0 (scan code_span_at text)"

text \<open>\<open>None\<close> is the \<open>IndexError\<close> of a placeholder whose number has no span.\<close>

fun unmask_pieces :: "pystr list \<Rightarrow> piece list \<Rightarrow> pystr option" where
  "unmask_pieces spans [] = Some []"
| "unmask_pieces spans (Lit c # ps) = map_option ((#) c) (unmask_pieces spans ps)"
| "unmask_pieces spans (Hit h # ps) =
     (let i = py_int (label_of h)
      in if i < length spans then map_option ((@) (spans ! i)) (unmask_pieces spans ps) else None)"

definition unmask_code_regions :: "pystr \<Rightarrow> pystr list \<Rightarrow> pystr option" where
  "unmask_code_regions text spans = unmask_pieces spans (scan placeholder_at text)"

section \<open>Registries\<close>

text \<open>
  What is known of one kind of evidence: how many items there are and, unless the caller
  gives none, the actual set of their labels.
\<close>

type_synonym evidence = "nat \<times> pystr list option"

record registry =
  reg_source :: evidence
  reg_memory :: evidence
  reg_wiki :: evidence
  reg_kms :: evidence
  reg_draft :: evidence

definition labels_from_count :: "nat \<Rightarrow> nat \<Rightarrow> pystr list" where
  "labels_from_count prefix n = map (\<lambda>i. prefix # dec i) [1..<n + 1]"

definition family_labels :: "nat \<Rightarrow> evidence \<Rightarrow> pystr list" where
  "family_labels prefix e = (case snd e of Some ls \<Rightarrow> ls | None \<Rightarrow> labels_from_count prefix (fst e))"

definition is_valid :: "registry \<Rightarrow> pystr \<Rightarrow> bool" where
  "is_valid reg label \<longleftrightarrow>
     (case label of [] \<Rightarrow> False
      | p # _ \<Rightarrow> p = 83 \<and> label \<in> set (family_labels 83 (reg_source reg))
          \<or> p = 77 \<and> label \<in> set (family_labels 77 (reg_memory reg))
          \<or> p = 87 \<and> label \<in> set (family_labels 87 (reg_wiki reg))
          \<or> p = 75 \<and> label \<in> set (family_labels 75 (reg_kms reg))
          \<or> p = 68 \<and> label \<in> set (family_labels 68 (reg_draft reg)))"

definition has_evidence :: "registry \<Rightarrow> bool" where
  "has_evidence reg \<longleftrightarrow>
     0 < fst (reg_source reg) \<or> 0 < fst (reg_memory reg) \<or> 0 < fst (reg_wiki reg)
     \<or> 0 < fst (reg_kms reg) \<or> 0 < fst (reg_draft reg)
     \<or> family_labels 83 (reg_source reg) \<noteq> [] \<or> family_labels 77 (reg_memory reg) \<noteq> []
     \<or> family_labels 87 (reg_wiki reg) \<noteq> [] \<or> family_labels 75 (reg_kms reg) \<noteq> []
     \<or> family_labels 68 (reg_draft reg) \<noteq> []"

text \<open>
  \<open>_labels_from_items\<close>: items whose label is no string carry \<open>None\<close>. The \<open>$\<close> of
  \<open>_LABEL_FORMAT_RE\<close> also matches before one final newline.
\<close>

definition label_format :: "nat \<Rightarrow> pystr \<Rightarrow> bool" where
  "label_format prefix l \<longleftrightarrow>
     (case l of [] \<Rightarrow> False
      | p # rest \<Rightarrow>
          (let ds = takeWhile py_isdecimal rest; tail = drop (length ds) rest
           in p = prefix \<and> p \<in> set citation_kinds \<and> ds \<noteq> [] \<and> (tail = [] \<or> tail = [10])))"

definition labels_from_items :: "nat \<Rightarrow> pystr option list \<Rightarrow> pystr list" where
  "labels_from_items prefix items =
     py_dedup (filter (label_format prefix) (List.map_filter (\<lambda>x. x) items))"

section \<open>Validation and repair\<close>

text \<open>
  \<open>str.lower\<close>, exact for the characters whose lower case has an ASCII letter: no refusal
  phrase contains any other character.
\<close>

definition py_lower :: "pystr \<Rightarrow> pystr" where
  "py_lower s = concat (map (\<lambda>c. if 65 \<le> c \<and> c \<le> 90 then [c + 32]
     else if c = 304 then [105, 775] else if c = 8490 then [107] else [c]) s)"

definition refusal_phrases :: "pystr list" where
  "refusal_phrases =
     [lit ''not available in the retrieved'', lit ''not available in the provided context'',
      lit ''not available in the provided documents'', lit ''i don'' @ 39 # lit ''t have enough'',
      lit ''no relevant'', lit ''the retrieved documents'']"

definition looks_factual :: "pystr \<Rightarrow> bool" where
  "looks_factual content \<longleftrightarrow>
     80 \<le> length content
     \<and> \<not> list_ex (\<lambda>p. py_in p (py_lower content)) refusal_phrases
     \<and> 2 \<le> length (filter (\<lambda>c. c = 46 \<or> c = 33 \<or> c = 63) content)"

text \<open>
  \<open>(?<=\S)[ \t]{2,}\<close> replaced by one blank, and blanks before punctuation dropped. The
  look-behind reads the original text; \<open>prev\<close> is the character before.
\<close>

definition blank :: "nat \<Rightarrow> bool" where
  "blank c \<longleftrightarrow> c = 32 \<or> c = 9"

function tidy_runs :: "nat option \<Rightarrow> pystr \<Rightarrow> pystr" where
  "tidy_runs prev [] = []"
| "tidy_runs prev (c # cs) =
     (let run = takeWhile blank (c # cs)
      in if (case prev of None \<Rightarrow> False | Some p \<Rightarrow> \<not> py_isspace p) \<and> 2 \<le> length run
         then 32 # tidy_runs (Some (last run)) (dropWhile blank (c # cs))
         else c # tidy_runs (Some c) cs)"
  by pat_completeness auto
termination
proof (relation "measure (length \<circ> snd)", goal_cases)
  case (2 prev c cs x)
  then have "blank c" by (auto split: if_splits)
  then show ?case by (simp add: length_dropWhile_le le_imp_less_Suc)
qed simp_all

definition closing_punct :: "nat \<Rightarrow> bool" where
  "closing_punct c \<longleftrightarrow> c \<in> {46, 44, 59, 58, 33, 63}"

fun tidy_punct :: "pystr \<Rightarrow> pystr" where
  "tidy_punct [] = []"
| "tidy_punct (c # cs) =
     (case dropWhile blank cs of
        [] \<Rightarrow> c # tidy_punct cs
      | d # _ \<Rightarrow> if blank c \<and> closing_punct d then tidy_punct cs else c # tidy_punct cs)"

record citation_result =
  repaired_content :: pystr
  valid_citations :: "pystr list"
  invalid_citations :: "pystr list"
  invalid_stripped :: bool
  res_has_evidence :: bool
  has_any_citation :: bool
  uncited_factual_warning :: bool
  invalid_wiki_citations :: "pystr list"
  invalid_kms_citations :: "pystr list"
  invalid_draft_citations :: "pystr list"

definition of_kind :: "nat \<Rightarrow> pystr list \<Rightarrow> pystr list" where
  "of_kind p ls = filter (\<lambda>l. take 1 l = [p]) ls"

text \<open>The replacement: a valid citation stays, an invalid one becomes nothing.\<close>

fun strip_invalid :: "(pystr \<Rightarrow> bool) \<Rightarrow> piece list \<Rightarrow> pystr" where
  "strip_invalid ok [] = []"
| "strip_invalid ok (Lit c # ps) = c # strip_invalid ok ps"
| "strip_invalid ok (Hit h # ps) = (if ok (label_of h) then h else []) @ strip_invalid ok ps"

definition found_labels :: "pystr \<Rightarrow> pystr list" where
  "found_labels text = map label_of (hits (scan citation_at text))"

definition validate_and_repair_citations :: "registry \<Rightarrow> pystr \<Rightarrow> citation_result option" where
  "validate_and_repair_citations reg content =
     (if content = [] then
        Some \<lparr>repaired_content = [], valid_citations = [], invalid_citations = [],
          invalid_stripped = False,
          res_has_evidence = (0 < fst (reg_source reg) \<or> 0 < fst (reg_memory reg)
            \<or> 0 < fst (reg_wiki reg) \<or> 0 < fst (reg_kms reg) \<or> 0 < fst (reg_draft reg)),
          has_any_citation = False, uncited_factual_warning = False,
          invalid_wiki_citations = [], invalid_kms_citations = [], invalid_draft_citations = []\<rparr>
      else
        (case mask_code_regions content of (masked, spans) \<Rightarrow>
           let found = found_labels masked;
               valid = filter (is_valid reg) found;
               invalid = filter (\<lambda>l. \<not> is_valid reg l) found;
               stripped = strip_invalid (is_valid reg) (scan citation_at masked);
               tidied = (if invalid \<noteq> [] then tidy_punct (tidy_runs None stripped) else stripped)
           in case unmask_code_regions (py_strip tidied) spans of
                None \<Rightarrow> None
              | Some repaired \<Rightarrow>
                  Some \<lparr>repaired_content = repaired, valid_citations = py_dedup valid,
                    invalid_citations = py_dedup invalid, invalid_stripped = (invalid \<noteq> []),
                    res_has_evidence = has_evidence reg, has_any_citation = (valid \<noteq> []),
                    uncited_factual_warning =
                      (has_evidence reg \<and> valid = [] \<and> looks_factual repaired),
                    invalid_wiki_citations = py_dedup (of_kind 87 invalid),
                    invalid_kms_citations = py_dedup (of_kind 75 invalid),
                    invalid_draft_citations = py_dedup (of_kind 68 invalid)\<rparr>))"

text \<open>The items of the five lists, each by its label.\<close>

definition repair_against_sources_and_memories ::
  "pystr option list \<Rightarrow> pystr option list \<Rightarrow> pystr option list \<Rightarrow> pystr option list
   \<Rightarrow> pystr option list \<Rightarrow> pystr \<Rightarrow> citation_result option" where
  "repair_against_sources_and_memories sources memories wiki kms drafts =
     (let family = (\<lambda>p items. (length (labels_from_items p items), Some (labels_from_items p items)))
      in validate_and_repair_citations
           \<lparr>reg_source = family 83 sources, reg_memory = family 77 memories,
            reg_wiki = family 87 wiki, reg_kms = family 75 kms, reg_draft = family 68 drafts\<rparr>)"

text \<open>The parsers read the raw text, code included.\<close>

definition parse_citations :: "pystr \<Rightarrow> pystr list \<times> pystr list" where
  "parse_citations content =
     (py_dedup (of_kind 83 (found_labels content)), py_dedup (of_kind 77 (found_labels content)))"

definition parse_wiki_citations :: "pystr \<Rightarrow> pystr list" where
  "parse_wiki_citations content = py_dedup (of_kind 87 (found_labels content))"

definition parse_kms_citations :: "pystr \<Rightarrow> pystr list" where
  "parse_kms_citations content = py_dedup (of_kind 75 (found_labels content))"

definition parse_draft_citations :: "pystr \<Rightarrow> pystr list" where
  "parse_draft_citations content = py_dedup (of_kind 68 (found_labels content))"

section \<open>Text around code\<close>

text \<open>
  The text before the first code span, and each span with the text after it; \<open>weave\<close> puts
  them together again. Masked text has the same shape, with placeholders for the spans.
\<close>

fun code_split :: "piece list \<Rightarrow> pystr \<times> (pystr \<times> pystr) list" where
  "code_split [] = ([], [])"
| "code_split (Lit c # ps) = (case code_split ps of (t, r) \<Rightarrow> (c # t, r))"
| "code_split (Hit h # ps) = (case code_split ps of (t, r) \<Rightarrow> ([], (h, t) # r))"

definition weave :: "(pystr \<times> pystr) list \<Rightarrow> pystr" where
  "weave r = concat (map (\<lambda>(h, t). h @ t) r)"

definition placeholder :: "nat \<Rightarrow> pystr" where
  "placeholder n = 0 # dec n @ [1]"

fun numbered :: "nat \<Rightarrow> (pystr \<times> pystr) list \<Rightarrow> (pystr \<times> pystr) list" where
  "numbered n [] = []"
| "numbered n ((h, t) # r) = (placeholder n, t) # numbered (Suc n) r"

lemma weave_simps [simp]: "weave [] = []" "weave ((h, t) # r) = h @ t @ weave r"
  by (simp_all add: weave_def)

lemma numbered_map:
  "numbered n (map (\<lambda>(h, t). (h, f t)) r) = map (\<lambda>(h, t). (h, f t)) (numbered n r)"
  by (induction n r rule: numbered.induct) auto

lemma numbered_texts [simp]: "map snd (numbered n r) = map snd r"
  by (induction n r rule: numbered.induct) auto

lemma code_split_text:
  "concat (map piece_text ps) = fst (code_split ps) @ weave (snd (code_split ps))"
  by (induction ps rule: code_split.induct) (auto split: prod.splits)

lemma mask_pieces_split:
  "mask_pieces n ps = (fst (code_split ps) @ weave (numbered n (snd (code_split ps))),
     map fst (snd (code_split ps)))"
  by (induction n ps rule: mask_pieces.induct) (auto simp: placeholder_def split: prod.splits)

lemma code_split_spans:
  "h \<in> fst ` set (snd (code_split (scan m s))) \<Longrightarrow> \<exists>c cs. 0 < m (c # cs) \<and> h = take (m (c # cs)) (c # cs)"
proof (induction m s rule: scan.induct)
  case (2 m c cs)
  then show ?case by (auto split: prod.splits if_splits)
qed simp

text \<open>A code span starts and ends with a backtick or a tilde.\<close>

definition solid :: "pystr \<Rightarrow> bool" where
  "solid h \<longleftrightarrow> h \<noteq> [] \<and> \<not> py_isspace (hd h) \<and> \<not> py_isspace (last h)"

lemma fenced_solid:
  assumes k: "0 < fenced (replicate (Suc m) q) s" and q: "\<not> py_isspace q"
  shows "solid (take (fenced (replicate (Suc m) q) s) s)"
proof -
  let ?f = "replicate (Suc m) q"
  obtain i where p: "take (Suc m) s = ?f" and i: "find_sub ?f (drop (Suc m) s) = Some i"
    and k': "fenced ?f s = i + 2 * Suc m"
    using k by (auto simp: fenced_def split: if_splits option.splits)
  from find_sub_SomeD [OF i] have e: "take (Suc m) (drop (i + Suc m) s) = ?f"
    by (simp add: add.commute)
  have t: "take (i + 2 * Suc m) s = take (i + Suc m) s @ ?f"
    using take_add [of "i + Suc m" "Suc m" s] e by (simp add: mult_2 add.assoc)
  have "hd s = q" using p by (cases s) auto
  moreover have ne: "s \<noteq> []" using p by auto
  ultimately have "hd (take (i + 2 * Suc m) s) = q" by simp
  moreover have "last ?f = q" by (induction m) auto
  then have "last (take (i + 2 * Suc m) s) = q" unfolding t by (simp add: last_append)
  moreover have "take (i + 2 * Suc m) s \<noteq> []" using ne by simp
  ultimately show ?thesis unfolding k' solid_def using q by simp
qed

lemma inline_solid:
  assumes "0 < inline_span s"
  shows "solid (take (inline_span s) s)"
proof -
  obtain rest where s: "s = 96 # rest" and
    e: "take 1 (drop (length (takeWhile (\<lambda>c. c \<noteq> 96 \<and> c \<noteq> 10) rest)) rest) = [96]"
    using assms by (auto simp: inline_span_def Let_def split: list.splits if_splits)
  let ?b = "takeWhile (\<lambda>c. c \<noteq> 96 \<and> c \<noteq> 10) rest"
  have "take (length ?b + 1) rest = ?b @ [96]"
    unfolding take_add e by (simp add: takeWhile_eq_take [symmetric])
  then have "take (length ?b + 2) s = 96 # ?b @ [96]" by (simp add: s)
  moreover have "inline_span s = length ?b + 2" using e by (simp add: inline_span_def s)
  ultimately show ?thesis by (simp add: solid_def py_isspace_def)
qed

lemma code_span_solid:
  assumes "0 < code_span_at s"
  shows "solid (take (code_span_at s) s)"
proof -
  have "code_span_at s \<in> {fenced (replicate 3 96) s, fenced (replicate 3 126) s,
      fenced (replicate 4 126) s, inline_span s}"
    using assms by (auto simp: code_span_at_def first_match_def split: if_splits)
  then show ?thesis
    using assms fenced_solid [of 2 96 s] fenced_solid [of 2 126 s] fenced_solid [of 3 126 s]
      inline_solid [of s]
    by (auto simp: numeral_eq_Suc py_isspace_def simp del: replicate.simps)
qed

lemma code_spans_solid: "(h, t) \<in> set (snd (code_split (scan code_span_at s))) \<Longrightarrow> solid h"
  using code_split_spans [of h code_span_at s] code_span_solid by force

lemma placeholder_solid: "solid (placeholder n)"
  by (simp add: solid_def placeholder_def py_isspace_def)

lemma numbered_solid: "(h, t) \<in> set (numbered n r) \<Longrightarrow> solid h"
  by (induction n r rule: numbered.induct) (auto simp: placeholder_solid)

section \<open>Every step of the repair works around the placeholders\<close>

lemma takeWhile_NUL: "\<not> P z \<Longrightarrow> takeWhile P (xs @ z # r) = takeWhile P xs"
  by (induction xs) auto

lemma dropWhile_NUL: "\<not> P z \<Longrightarrow> dropWhile P (xs @ z # r) = dropWhile P xs @ z # r"
  by (induction xs) auto

lemma citation_at_NUL:
  "t \<noteq> [] \<Longrightarrow> citation_at (t @ 0 # r) = citation_at t"
proof -
  assume "t \<noteq> []"
  then consider a where "t = [a]" | a p rest where "t = a # p # rest" by (cases t; cases "tl t") auto
  then show ?thesis
  proof cases
    case 1
    then show ?thesis by (simp add: citation_at_def citation_kinds_def)
  next
    case 2
    have z: "\<not> py_isdecimal 0" by (rule not_decimal_small) simp
    have "take 1 (drop (length (takeWhile py_isdecimal rest)) (rest @ 0 # r)) = [93]
        \<longleftrightarrow> take 1 (drop (length (takeWhile py_isdecimal rest)) rest) = [93]"
      using length_takeWhile_le [of py_isdecimal rest]
      by (cases "length (takeWhile py_isdecimal rest) < length rest")
        (auto simp: drop_append dest: le_neq_implies_less)
    then show ?thesis using takeWhile_NUL [of py_isdecimal 0 rest r, OF z] by (simp add: 2 citation_at_def Let_def)
  qed
qed

lemma citation_at_length: "citation_at s \<le> length s"
proof -
  have "length (takeWhile py_isdecimal rest) + 1 \<le> length rest"
    if "take 1 (drop (length (takeWhile py_isdecimal rest)) rest) = [93]" for rest
    using that by (metis One_nat_def Suc_eq_plus1 Suc_leI drop_all leI length_takeWhile_le
        list.distinct(1) take_Nil)
  then show ?thesis by (auto simp: citation_at_def Let_def split: list.splits)
qed

lemma scan_citation_NUL:
  "scan citation_at (t @ 0 # r) = scan citation_at t @ Lit 0 # scan citation_at r"
proof (induction citation_at t rule: scan.induct)
  case 1
  have "citation_at (0 # r) = 0" by (simp add: citation_at_def split: list.split)
  then show ?case by simp
next
  case (2 c cs)
  have e: "citation_at (c # cs @ 0 # r) = citation_at (c # cs)"
    using citation_at_NUL [of "c # cs" r] by simp
  show ?case
  proof (cases "citation_at (c # cs) = 0")
    case True
    with 2(1) e show ?thesis by simp
  next
    case False
    have l: "citation_at (c # cs) \<le> length (c # cs)" by (rule citation_at_length)
    then have "take (citation_at (c # cs)) (c # cs @ 0 # r) = take (citation_at (c # cs)) (c # cs)"
      and "drop (citation_at (c # cs)) (c # cs @ 0 # r) = drop (citation_at (c # cs)) (c # cs) @ 0 # r"
      using take_append [of "citation_at (c # cs)" "c # cs" "0 # r"]
        drop_append [of "citation_at (c # cs)" "c # cs" "0 # r"] by simp_all
    with 2(2) [OF False] False e show ?thesis by (simp del: take_Cons drop_Cons)
  qed
qed

lemma scan_citation_digits:
  "\<forall>c \<in> set ds. c \<noteq> 91 \<Longrightarrow> scan citation_at (ds @ r) = map Lit ds @ scan citation_at r"
proof (induction ds)
  case (Cons c ds)
  then have "citation_at (c # ds @ r) = 0" by (simp add: citation_at_def split: list.split)
  with Cons show ?case by simp
qed simp

lemma scan_citation_weave:
  "scan citation_at (t @ weave (numbered n r))
     = scan citation_at t
       @ concat (map (\<lambda>(h, t). map Lit h @ scan citation_at t) (numbered n r))"
proof (induction n r arbitrary: t rule: numbered.induct)
  case (2 n h u r)
  have "\<forall>c \<in> set (dec n @ [1]). c \<noteq> 91" using dec_digits by fastforce
  from scan_citation_digits [OF this] 2 show ?case
    by (simp add: placeholder_def scan_citation_NUL)
qed simp

lemma strip_invalid_append [simp]:
  "strip_invalid ok (ps @ qs) = strip_invalid ok ps @ strip_invalid ok qs"
  by (induction ok ps rule: strip_invalid.induct) auto

lemma strip_invalid_map_Lit [simp]: "strip_invalid ok (map Lit xs) = xs"
  by (induction xs) auto

definition stripped :: "(pystr \<Rightarrow> bool) \<Rightarrow> pystr \<Rightarrow> pystr" where
  "stripped ok t = strip_invalid ok (scan citation_at t)"

lemma stripped_weave:
  "stripped ok (t @ weave (numbered n r))
     = stripped ok t @ weave (map (\<lambda>(h, t). (h, stripped ok t)) (numbered n r))"
proof -
  have "strip_invalid ok (concat (map (\<lambda>(h, t). map Lit h @ scan citation_at t) q))
      = weave (map (\<lambda>(h, t). (h, stripped ok t)) q)" for q
    by (induction q) (auto simp: stripped_def)
  then show ?thesis by (simp add: stripped_def scan_citation_weave)
qed

lemma found_labels_weave:
  "found_labels (t @ weave (numbered n r)) = found_labels t @ concat (map (\<lambda>(h, t). found_labels t) r)"
proof -
  have "map label_of (hits (concat (map (\<lambda>(h, t). map Lit h @ scan citation_at t) (numbered n r))))
      = concat (map (\<lambda>(h, t). found_labels t) r)"
    by (induction n r rule: numbered.induct) (auto simp: found_labels_def)
  then show ?thesis by (simp add: found_labels_def scan_citation_weave)
qed

lemma tidy_runs_NUL: "tidy_runs p (t @ 0 # r) = tidy_runs p t @ 0 # tidy_runs (Some 0) r"
proof (induction p t rule: tidy_runs.induct)
  case (1 p)
  show ?case by (simp add: blank_def)
next
  case (2 p c cs)
  have tw: "takeWhile blank (c # cs @ 0 # r) = takeWhile blank (c # cs)"
    using takeWhile_NUL [of blank 0 "c # cs" r] by (simp add: blank_def)
  have dw: "dropWhile blank (c # cs @ 0 # r) = dropWhile blank (c # cs) @ 0 # r"
    using dropWhile_NUL [of blank 0 "c # cs" r] by (simp add: blank_def)
  show ?case
  proof (cases "(case p of None \<Rightarrow> False | Some p \<Rightarrow> \<not> py_isspace p)
      \<and> 2 \<le> length (takeWhile blank (c # cs))")
    case True
    with 2(1) [OF refl True] show ?thesis
      unfolding append_Cons tidy_runs.simps Let_def tw dw by simp
  next
    case False
    with 2(2) [OF refl False] show ?thesis
      unfolding append_Cons tidy_runs.simps Let_def tw dw by auto
  qed
qed

lemma tidy_runs_solid: "\<forall>c \<in> set ds. \<not> blank c \<Longrightarrow> ds \<noteq> [] \<Longrightarrow>
   tidy_runs p (ds @ r) = ds @ tidy_runs (Some (last ds)) r"
  by (induction ds arbitrary: p) auto

lemma placeholder_no_blank: "\<forall>c \<in> set (dec n @ [1]). \<not> blank c"
  using dec_digits by (fastforce simp: blank_def)

lemma tidy_runs_weave:
  "tidy_runs p (t @ weave (numbered n r))
     = tidy_runs p t @ weave (map (\<lambda>(h, t). (h, tidy_runs (Some 1) t)) (numbered n r))"
proof (induction n r arbitrary: p t rule: numbered.induct)
  case (2 n h u r)
  show ?case using tidy_runs_solid [OF placeholder_no_blank, of n "Some 0"] 2
    by (simp add: placeholder_def tidy_runs_NUL)
qed simp

lemma tidy_punct_NUL: "tidy_punct (t @ 0 # r) = tidy_punct t @ 0 # tidy_punct r"
proof (induction t)
  case Nil
  show ?case by (simp add: blank_def split: list.split)
next
  case (Cons c cs)
  have e: "dropWhile blank (cs @ 0 # r) = dropWhile blank cs @ 0 # r"
    by (rule dropWhile_NUL) (simp add: blank_def)
  show ?case
    unfolding append_Cons tidy_punct.simps Cons e
    by (cases "dropWhile blank cs") (simp_all add: closing_punct_def del: dropWhile_eq_Nil_conv)
qed

lemma tidy_punct_solid: "\<forall>c \<in> set ds. \<not> blank c \<Longrightarrow> tidy_punct (ds @ r) = ds @ tidy_punct r"
  by (induction ds) (auto split: list.splits)

lemma tidy_punct_weave:
  "tidy_punct (t @ weave (numbered n r))
     = tidy_punct t @ weave (map (\<lambda>(h, t). (h, tidy_punct t)) (numbered n r))"
proof (induction n r arbitrary: t rule: numbered.induct)
  case (2 n h u r)
  show ?case using tidy_punct_solid [OF placeholder_no_blank, of n] 2
    by (simp add: placeholder_def tidy_punct_NUL)
qed simp

section \<open>Stripping and unmasking\<close>

lemma label_of_placeholder: "label_of (placeholder n) = dec n"
  by (simp add: label_of_def placeholder_def)

lemma placeholder_at_placeholder: "placeholder_at (placeholder n @ r) = length (placeholder n)"
proof -
  have "\<not> py_isdecimal 1" by (rule not_decimal_small) simp
  from takeWhile_NUL [of py_isdecimal 1 "dec n" r, OF this]
  have "takeWhile py_isdecimal (dec n @ 1 # r) = dec n"
    using dec_isdecimal by (simp add: takeWhile_eq_all_conv)
  then show ?thesis by (simp add: placeholder_at_def placeholder_def Let_def)
qed

lemma scan_placeholder_text:
  assumes "0 \<notin> set t"
  shows "scan placeholder_at (t @ r) = map Lit t @ scan placeholder_at r"
proof (rule scan_lits)
  fix ys zs assume t: "t = ys @ zs" "zs \<noteq> []"
  then have "hd zs \<noteq> 0" using assms by (cases zs) auto
  with t show "placeholder_at (zs @ r) = 0" by (cases zs) (auto simp: placeholder_at_def)
qed

lemma scan_placeholder_hit:
  "scan placeholder_at (placeholder n @ r) = Hit (placeholder n) # scan placeholder_at r"
proof -
  obtain p where p: "placeholder n = 0 # p" by (simp add: placeholder_def)
  show ?thesis using placeholder_at_placeholder [of n r] by (simp add: p)
qed

lemma unmask_lits [simp]:
  "unmask_pieces spans (map Lit t @ ps) = map_option ((@) t) (unmask_pieces spans ps)"
  by (induction t) (auto simp: option.map_comp comp_def option.map_ident)

lemma unmask_weave:
  assumes "0 \<notin> set t" and "\<forall>(h, u) \<in> set r. 0 \<notin> set u" and "drop k spans = map fst r"
  shows "unmask_code_regions (t @ weave (numbered k r)) spans = Some (t @ weave r)"
  using assms
proof (induction k r arbitrary: t rule: numbered.induct)
  case (1 n)
  then show ?case using scan_placeholder_text [of t "[]"]
    by (simp add: unmask_code_regions_def unmask_lits [of spans t "[]", simplified])
next
  case (2 k h u r)
  then have d: "drop k spans = h # map fst r" by simp
  then have k: "k < length spans" "spans ! k = h"
    by (metis drop_eq_Nil2 list.distinct(1) not_less) (rule nth_via_drop [OF d])
  have "drop (Suc k) spans = map fst r" using d by (metis drop_Suc list.sel(3) tl_drop)
  with 2 have "unmask_code_regions (u @ weave (numbered (Suc k) r)) spans = Some (u @ weave r)"
    by (simp del: drop_Suc)
  then show ?case
    using scan_placeholder_text [OF 2(2), of "placeholder k @ u @ weave (numbered (Suc k) r)"] k
    by (simp add: unmask_code_regions_def scan_placeholder_hit label_of_placeholder)
qed

definition rstrip :: "pystr \<Rightarrow> pystr" where
  "rstrip s = rev (dropWhile py_isspace (rev s))"

fun rstrip_tail :: "(pystr \<times> pystr) list \<Rightarrow> (pystr \<times> pystr) list" where
  "rstrip_tail [] = []"
| "rstrip_tail [(h, t)] = [(h, rstrip t)]"
| "rstrip_tail (x # y # r) = x # rstrip_tail (y # r)"

lemma rstrip_keep: "\<not> py_isspace c \<Longrightarrow> rstrip (xs @ c # ys) = xs @ c # rstrip ys"
  using dropWhile_NUL [of py_isspace c "rev ys" "rev xs"] by (simp add: rstrip_def)

lemma rstrip_solid: "solid h \<Longrightarrow> rstrip (xs @ h @ ys) = xs @ h @ rstrip ys"
  using rstrip_keep [of "last h" "xs @ butlast h" ys] append_butlast_last_id [of h]
  by (metis append.assoc append_Cons append_Nil solid_def)

lemma rstrip_weave:
  "\<forall>(h, u) \<in> set r. solid h \<Longrightarrow>
     rstrip (t @ weave r) = (if r = [] then rstrip t else t @ weave (rstrip_tail r))"
proof (induction r arbitrary: t rule: rstrip_tail.induct)
  case (3 x y r)
  obtain h u where x: "x = (h, u)" by (cases x)
  have "rstrip (u @ weave (y # r)) = u @ weave (rstrip_tail (y # r))" using 3 by simp
  with 3(2) show ?case by (simp add: x rstrip_solid)
qed (auto simp: rstrip_solid)

lemma lstrip_weave:
  "\<forall>(h, u) \<in> set r. solid h \<Longrightarrow> r \<noteq> [] \<Longrightarrow>
     dropWhile py_isspace (t @ weave r) = dropWhile py_isspace t @ weave r"
proof -
  assume a: "\<forall>(h, u) \<in> set r. solid h" "r \<noteq> []"
  then obtain h u r' where r: "r = (h, u) # r'" "solid h" by (cases r) auto
  then obtain c h' where "h = c # h'" "\<not> py_isspace c" by (cases h) (auto simp: solid_def)
  then show ?thesis using dropWhile_NUL [of py_isspace c t] by (simp add: r(1))
qed

lemma py_strip_rstrip: "py_strip s = rstrip (dropWhile py_isspace s)"
  by (simp add: py_strip_def rstrip_def)

lemma py_strip_weave:
  "\<forall>(h, u) \<in> set r. solid h \<Longrightarrow> r \<noteq> [] \<Longrightarrow>
     py_strip (t @ weave r) = dropWhile py_isspace t @ weave (rstrip_tail r)"
  by (simp add: py_strip_rstrip lstrip_weave rstrip_weave)

lemma numbered_rstrip_tail: "rstrip_tail (numbered n r) = numbered n (rstrip_tail r)"
proof (induction r arbitrary: n rule: rstrip_tail.induct)
  case (3 x y r)
  obtain h u h' u' where "x = (h, u)" "y = (h', u')" by (cases x; cases y)
  with 3 show ?case by simp
qed simp_all

lemma rstrip_tail_fst: "map fst (rstrip_tail r) = map fst r"
  by (induction r rule: rstrip_tail.induct) auto

lemma set_rstrip: "set (rstrip t) \<subseteq> set t"
  using set_dropWhileD by (fastforce simp: rstrip_def)

lemma rstrip_tail_NUL:
  "\<forall>(h, u) \<in> set r. 0 \<notin> set u \<Longrightarrow> \<forall>(h, u) \<in> set (rstrip_tail r). 0 \<notin> set u"
  using set_rstrip by (induction r rule: rstrip_tail.induct) fastforce+

text \<open>Stripping the masked text and putting the code back is stripping the text.\<close>

lemma unmask_strip:
  assumes "0 \<notin> set t" and "\<forall>(h, u) \<in> set r. 0 \<notin> set u" and "\<forall>(h, u) \<in> set r. solid h"
  shows "unmask_code_regions (py_strip (t @ weave (numbered 0 r))) (map fst r)
    = Some (py_strip (t @ weave r))"
proof (cases "r = []")
  case True
  have "0 \<notin> set (py_strip t)"
    using assms(1) set_rstrip [of "dropWhile py_isspace t"] set_dropWhileD
    by (fastforce simp: py_strip_rstrip)
  with True show ?thesis using unmask_weave [of "py_strip t" "[]" 0 "[]"] by simp
next
  case False
  then have n: "numbered 0 r \<noteq> []" by (cases r) auto
  have "0 \<notin> set (dropWhile py_isspace t)" using assms(1) set_dropWhileD by fastforce
  from unmask_weave [OF this rstrip_tail_NUL [OF assms(2)], of 0 "map fst r"]
  show ?thesis
    using numbered_solid py_strip_weave [OF _ n, of t] py_strip_weave [OF assms(3) False, of t]
    by (fastforce simp: numbered_rstrip_tail rstrip_tail_fst)
qed

section \<open>The repair\<close>

definition clean :: "bool \<Rightarrow> registry \<Rightarrow> nat option \<Rightarrow> pystr \<Rightarrow> pystr" where
  "clean tidy reg prev t =
     (if tidy then tidy_punct (tidy_runs prev (stripped (is_valid reg) t))
      else stripped (is_valid reg) t)"

lemma stripped_numbered:
  "stripped ok (t @ weave (numbered n r))
     = stripped ok t @ weave (numbered n (map (\<lambda>(h, t). (h, stripped ok t)) r))"
  by (simp add: stripped_weave numbered_map)

lemma tidy_runs_numbered:
  "tidy_runs p (t @ weave (numbered n r))
     = tidy_runs p t @ weave (numbered n (map (\<lambda>(h, t). (h, tidy_runs (Some 1) t)) r))"
  by (simp add: tidy_runs_weave numbered_map)

lemma tidy_punct_numbered:
  "tidy_punct (t @ weave (numbered n r))
     = tidy_punct t @ weave (numbered n (map (\<lambda>(h, t). (h, tidy_punct t)) r))"
  by (simp add: tidy_punct_weave numbered_map)

lemma set_strip_invalid: "set (strip_invalid ok ps) \<subseteq> set (concat (map piece_text ps))"
  by (induction ok ps rule: strip_invalid.induct) auto

lemma set_stripped: "set (stripped ok t) \<subseteq> set t"
  using set_strip_invalid [of ok "scan citation_at t"] by (simp only: stripped_def scan_text)

lemma set_tidy_runs: "set (tidy_runs p t) \<subseteq> insert 32 (set t)"
proof (induction p t rule: tidy_runs.induct)
  case (2 p c cs)
  have "set (dropWhile blank (c # cs)) \<subseteq> set (c # cs)" using set_dropWhileD by fastforce
  with 2 show ?case unfolding tidy_runs.simps Let_def
    by (cases "(case p of None \<Rightarrow> False | Some p \<Rightarrow> \<not> py_isspace p)
        \<and> 2 \<le> length (takeWhile blank (c # cs))") (simp only: if_True if_False simp_thms set_simps, blast)+
qed simp

lemma set_tidy_punct: "set (tidy_punct t) \<subseteq> set t"
  by (induction t) (auto split: list.splits)

lemma clean_NUL: "0 \<notin> set t \<Longrightarrow> 0 \<notin> set (clean tidy reg prev t)"
proof -
  let ?s = "stripped (is_valid reg) t"
  have s: "set ?s \<subseteq> set t" by (rule set_stripped)
  have "set (tidy_punct (tidy_runs prev ?s)) \<subseteq> insert 32 (set t)"
    using set_tidy_punct [of "tidy_runs prev ?s"] set_tidy_runs [of prev ?s] s by blast
  with s have "set (clean tidy reg prev t) \<subseteq> insert 32 (set t)"
    by (cases tidy) (auto simp only: clean_def if_True if_False)
  then show "0 \<notin> set t \<Longrightarrow> 0 \<notin> set (clean tidy reg prev t)" by auto
qed

lemma stripped_valid:
  assumes "\<forall>l \<in> set (found_labels t). ok l"
  shows "stripped ok t = t"
proof -
  have "\<forall>h \<in> set (hits ps). ok (label_of h) \<Longrightarrow> strip_invalid ok ps = concat (map piece_text ps)" for ps
    by (induction ok ps rule: strip_invalid.induct) auto
  then show ?thesis using assms by (simp add: stripped_def found_labels_def scan_text)
qed

lemma code_texts_NUL:
  assumes "0 \<notin> set s" and "code_split (scan code_span_at s) = (t, r)"
  shows "s = t @ weave r" and "0 \<notin> set t" and "\<forall>(h, u) \<in> set r. 0 \<notin> set u"
    and "\<forall>(h, u) \<in> set r. solid h"
proof -
  show s: "s = t @ weave r"
    using code_split_text [of "scan code_span_at s"] assms(2) by (simp add: scan_text)
  have "set u \<subseteq> set (weave q)" if "(h, u) \<in> set q" for h u q
    using that by (auto simp: weave_def)
  then show "0 \<notin> set t" and "\<forall>(h, u) \<in> set r. 0 \<notin> set u"
    using assms(1) unfolding s by auto
  show "\<forall>(h, u) \<in> set r. solid h" using code_spans_solid [of _ _ s] assms(2) by auto
qed

lemma mask_code_regions_split:
  "code_split (scan code_span_at s) = (t, r) \<Longrightarrow>
     mask_code_regions s = (t @ weave (numbered 0 r), map fst r)"
  by (simp add: mask_code_regions_def mask_pieces_split)

text \<open>
  C34 Masking the code regions of an answer and putting them back gives the answer, for any
  text without the NUL character that marks a placeholder.
\<close>

theorem mask_unmask_roundtrip:
  assumes "0 \<notin> set content" and "mask_code_regions content = (masked, spans)"
  shows "unmask_code_regions masked spans = Some content"
proof -
  obtain t r where e: "code_split (scan code_span_at content) = (t, r)" by (cases "code_split (scan code_span_at content)")
  note c = code_texts_NUL [OF assms(1) e]
  from unmask_weave [OF c(2,3), of 0 "map fst r"] show ?thesis
    using assms(2) mask_code_regions_split [OF e] c(1) by simp
qed

lemma repair_pieces:
  assumes "0 \<notin> set content" and "content \<noteq> []"
    and "code_split (scan code_span_at content) = (t, r)"
    and "found = found_labels t @ concat (map (\<lambda>(h, u). found_labels u) r)"
    and "tidy \<longleftrightarrow> (\<exists>l \<in> set found. \<not> is_valid reg l)"
  shows "content = t @ weave r \<and> (\<exists>res. validate_and_repair_citations reg content = Some res
     \<and> repaired_content res = py_strip (clean tidy reg None t
         @ weave (map (\<lambda>(h, u). (h, clean tidy reg (Some 1) u)) r))
     \<and> valid_citations res = py_dedup (filter (is_valid reg) found)
     \<and> invalid_citations res = py_dedup (filter (\<lambda>l. \<not> is_valid reg l) found)
     \<and> invalid_stripped res = tidy)"
proof -
  note c = code_texts_NUL [OF assms(1,3)]
  let ?m = "t @ weave (numbered 0 r)" and ?ok = "is_valid reg"
  let ?r = "map (\<lambda>(h, u). (h, clean tidy reg (Some 1) u)) r"
  have found: "found_labels ?m = found" by (simp add: found_labels_weave assms(4))
  have inv: "filter (\<lambda>l. \<not> ?ok l) found \<noteq> [] \<longleftrightarrow> tidy"
    by (auto simp: assms(5) filter_empty_conv)
  have cleaned: "(if tidy then tidy_punct (tidy_runs None (stripped ?ok ?m)) else stripped ?ok ?m)
      = clean tidy reg None t @ weave (numbered 0 ?r)"
    by (cases tidy) (simp_all add: clean_def stripped_numbered tidy_runs_numbered
        tidy_punct_numbered comp_def case_prod_unfold)
  have f: "map fst ?r = map fst r" by auto
  have "unmask_code_regions (py_strip (clean tidy reg None t @ weave (numbered 0 ?r))) (map fst ?r)
      = Some (py_strip (clean tidy reg None t @ weave ?r))"
    by (rule unmask_strip) (use c clean_NUL in auto)
  note u = this [unfolded f]
  have "validate_and_repair_citations reg content = Some
    \<lparr>repaired_content = py_strip (clean tidy reg None t @ weave ?r),
     valid_citations = py_dedup (filter ?ok found),
     invalid_citations = py_dedup (filter (\<lambda>l. \<not> ?ok l) found), invalid_stripped = tidy,
     res_has_evidence = has_evidence reg, has_any_citation = (filter ?ok found \<noteq> []),
     uncited_factual_warning = (has_evidence reg \<and> filter ?ok found = []
       \<and> looks_factual (py_strip (clean tidy reg None t @ weave ?r))),
     invalid_wiki_citations = py_dedup (of_kind 87 (filter (\<lambda>l. \<not> ?ok l) found)),
     invalid_kms_citations = py_dedup (of_kind 75 (filter (\<lambda>l. \<not> ?ok l) found)),
     invalid_draft_citations = py_dedup (of_kind 68 (filter (\<lambda>l. \<not> ?ok l) found))\<rparr>"
    unfolding validate_and_repair_citations_def mask_code_regions_split [OF assms(3)] prod.case
      Let_def found stripped_def [symmetric] inv cleaned u option.case
    using assms(2) by (simp only: if_False)
  with c(1) show ?thesis by simp
qed

text \<open>
  C14 The repair works on the text around code and on nothing else. For a non-empty answer
  without NUL characters the masked implementation, which scans and tidies the whole answer
  with placeholders in it, leaves every code span byte for byte as it was and repairs each
  stretch of text between two code spans by itself: its invalid citations are removed, and
  its white space is tidied if any stretch of the answer has an invalid citation. The ends of
  the result are stripped. The citations it reports are those of the text around code, in
  order of first occurrence, the valid ones being those registered.
\<close>

theorem repair_outside_code:
  assumes "0 \<notin> set content" and "content \<noteq> []"
    and "code_split (scan code_span_at content) = (t, r)"
    and "found = found_labels t @ concat (map (\<lambda>(h, u). found_labels u) r)"
    and "tidy \<longleftrightarrow> (\<exists>l \<in> set found. \<not> is_valid reg l)"
  shows "content = t @ weave r \<and> (\<exists>res. validate_and_repair_citations reg content = Some res
     \<and> repaired_content res = py_strip (clean tidy reg None t
         @ weave (map (\<lambda>(h, u). (h, clean tidy reg (Some 1) u)) r))
     \<and> valid_citations res = py_dedup (filter (is_valid reg) found)
     \<and> invalid_citations res = py_dedup (filter (\<lambda>l. \<not> is_valid reg l) found)
     \<and> invalid_stripped res = tidy)"
  using assms by (rule repair_pieces)

section \<open>Citations that survive\<close>

lemma decimal_plain:
  assumes "py_isdecimal c"
  shows "c \<noteq> 0" "c \<noteq> 91" "c \<noteq> 93" "c \<noteq> 96" "c \<noteq> 126" "\<not> blank c"
proof -
  have "48 \<le> c \<and> (c \<le> 57 \<or> 1632 \<le> c)"
    using assms not_decimal_small [of c] not_decimal_punct [of c] by (meson not_le)
  then show "c \<noteq> 0" "c \<noteq> 91" "c \<noteq> 93" "c \<noteq> 96" "c \<noteq> 126" "\<not> blank c"
    by (auto simp: blank_def)
qed

lemma scan_no_code: "96 \<notin> set s \<Longrightarrow> 126 \<notin> set s \<Longrightarrow> scan code_span_at s = map Lit s"
proof (induction s)
  case (Cons c cs)
  have "code_span_at (c # cs) = 0"
    using Cons.prems by (auto simp: code_span_at_def first_match_def fenced_def inline_span_def
        numeral_eq_Suc)
  with Cons show ?case by simp
qed simp

lemma code_split_Lits: "code_split (map Lit s) = (s, [])"
  by (induction s) auto

lemma code_split_no_code:
  "96 \<notin> set s \<Longrightarrow> 126 \<notin> set s \<Longrightarrow> code_split (scan code_span_at s) = (s, [])"
  by (simp only: scan_no_code code_split_Lits not_False_eq_True)

lemma citation_at_citation:
  assumes "p \<in> set citation_kinds" and "ds \<noteq> []" and "\<forall>c \<in> set ds. py_isdecimal c"
  shows "citation_at (91 # p # ds @ 93 # r) = length ds + 3"
proof -
  have "\<not> py_isdecimal 93" by (rule not_decimal_punct) simp_all
  from takeWhile_NUL [of py_isdecimal 93 ds r, OF this] assms(3)
  have "takeWhile py_isdecimal (ds @ 93 # r) = ds" by (simp add: takeWhile_eq_all_conv)
  then show ?thesis using assms(1,2) by (simp add: citation_at_def)
qed

lemma no_blank_tidy: "\<forall>c \<in> set s. \<not> blank c \<Longrightarrow> tidy_punct (tidy_runs prev s) = s"
proof -
  assume s: "\<forall>c \<in> set s. \<not> blank c"
  then have "tidy_runs prev s = s"
    using tidy_runs_solid [OF s, of prev "[]"] by (cases "s = []") auto
  then show ?thesis using tidy_punct_solid [OF s, of "[]"] by simp
qed

text \<open>
  Stripping one invalid citation can put together another: around the citation that is
  removed, an unfinished bracket closes over it. The repair does not look again, so the
  answer it returns carries, as if it had been checked, exactly the citation it rejected.
\<close>

theorem nested_citation_survives:
  assumes "p \<in> set citation_kinds" and "ds \<noteq> []" and "\<forall>c \<in> set ds. py_isdecimal c"
    and "\<not> is_valid reg (p # ds)"
  shows "\<exists>res. validate_and_repair_citations reg (91 # p # (91 # p # ds @ [93]) @ ds @ [93]) = Some res
     \<and> invalid_citations res = [p # ds] \<and> repaired_content res = 91 # p # ds @ [93]"
proof -
  let ?cite = "91 # p # ds @ [93]"
  let ?s = "91 # p # ?cite @ ds @ [93]"
  have p: "p \<noteq> 0 \<and> p \<noteq> 91 \<and> p \<noteq> 96 \<and> p \<noteq> 126 \<and> \<not> blank p"
    using assms(1) by (auto simp: citation_kinds_def blank_def)
  note d = decimal_plain [OF assms(3) [rule_format]]
  have n: "\<not> py_isdecimal 91" by (rule not_decimal_punct) simp_all
  have "citation_at (p # ?cite @ ds @ [93]) = 0" "citation_at ?s = 0"
    using p n by (auto simp: citation_at_def)
  moreover have "scan citation_at (ds @ [93]) = map Lit (ds @ [93])"
    using scan_citation_digits [of "ds @ [93]" "[]"] d(2) by auto
  ultimately have scan: "scan citation_at ?s = Lit 91 # Lit p # Hit ?cite # map Lit (ds @ [93])"
    using citation_at_citation [OF assms(1-3), of "ds @ [93]"] by (simp add: numeral_3_eq_3)
  have lab: "label_of ?cite = p # ds" by (simp add: label_of_def)
  have st: "stripped (is_valid reg) ?s = ?cite"
    using scan lab assms(4) unfolding stripped_def by (simp del: map_append append_Cons)
  have found: "found_labels ?s = [p # ds]"
    using scan lab unfolding found_labels_def by (simp del: map_append append_Cons)
  have "code_split (scan code_span_at ?s) = (?s, [])"
    by (rule code_split_no_code) (use p d(4,5) in auto)
  from repair_pieces [OF _ _ this, of "[p # ds]" True reg]
  have "\<exists>res. validate_and_repair_citations reg ?s = Some res \<and> invalid_citations res = [p # ds]
      \<and> repaired_content res = py_strip (clean True reg None ?s)"
    using p d(1) assms(4) found by auto
  moreover have "clean True reg None ?s = ?cite"
    unfolding clean_def if_True st using p d(6) by (intro no_blank_tidy) (auto simp: blank_def)
  moreover have "py_strip ?cite = ?cite" by (simp add: py_strip_def py_isspace_def)
  ultimately show ?thesis by simp
qed

section \<open>Two details of the masking\<close>

text \<open>The alternative for fences of four tildes is never the one that matches.\<close>

lemma four_tilde_fence_unreachable:
  "code_span_at s = first_match
     [fenced (replicate 3 96) s, fenced (replicate 3 126) s, inline_span s]"
proof (cases "fenced (replicate 4 126) s = 0")
  case True
  then show ?thesis by (simp add: code_span_at_def first_match_def)
next
  case False
  then obtain i where p: "take 4 s = replicate 4 126"
    and i: "find_sub (replicate 4 126) (drop 4 s) = Some i"
    by (auto simp: fenced_def split: if_splits option.splits)
  have "take 3 s = replicate 3 126"
    using arg_cong [OF p, of "take 3"] by (simp add: numeral_eq_Suc)
  moreover have "take 3 (drop (Suc i) (drop 3 s)) = replicate 3 126"
    using arg_cong [OF find_sub_SomeD [OF i], of "take 3"] by (simp add: numeral_eq_Suc)
  then have "find_sub (replicate 3 126) (drop 3 s) \<noteq> None"
    using find_sub_NoneD [of "replicate 3 126" "drop 3 s" "Suc i"] by auto
  ultimately have "fenced (replicate 3 126) s \<noteq> 0" by (auto simp: fenced_def)
  then show ?thesis by (simp add: code_span_at_def first_match_def)
qed

text \<open>A placeholder that the answer itself contains makes the repair raise.\<close>

lemma literal_placeholder_raises: "validate_and_repair_citations reg (placeholder n) = None"
proof -
  have c: "96 \<notin> set (placeholder n)" "126 \<notin> set (placeholder n)" "\<forall>c \<in> set (placeholder n). c \<noteq> 91"
    using dec_digits [of _ n] by (fastforce simp: placeholder_def)+
  have m: "mask_code_regions (placeholder n) = (placeholder n, [])"
    using mask_code_regions_split [OF code_split_no_code [OF c(1,2)]] by simp
  have sc: "scan citation_at (placeholder n) = map Lit (placeholder n)"
    using scan_citation_digits [OF c(3), of "[]"] by simp
  have "py_strip (placeholder n) = placeholder n"
    by (simp add: py_strip_def placeholder_def py_isspace_def)
  moreover have "unmask_code_regions (placeholder n) [] = None"
    using scan_placeholder_hit [of n "[]"]
    by (simp add: unmask_code_regions_def label_of_placeholder)
  moreover have "placeholder n \<noteq> []" by (simp add: placeholder_def)
  ultimately show ?thesis
    by (simp add: validate_and_repair_citations_def m found_labels_def sc Let_def
        strip_invalid_map_Lit)
qed

section \<open>Witnesses\<close>

definition sample_registry :: registry where
  "sample_registry = \<lparr>reg_source = (1, None), reg_memory = (0, None), reg_wiki = (0, None),
     reg_kms = (0, None), reg_draft = (0, None)\<rparr>"

lemma sample_labels: "is_valid sample_registry l \<longleftrightarrow> l = [83, 49]"
  by (auto simp: is_valid_def sample_registry_def family_labels_def labels_from_count_def
      dec.simps [of "Suc 0"] split: list.splits)

theorem nested_citation_survives_witness:
  "\<exists>res. validate_and_repair_citations sample_registry [91, 83, 91, 83, 57, 93, 57, 93] = Some res
     \<and> invalid_citations res = [[83, 57]] \<and> repaired_content res = [91, 83, 57, 93]"
  using nested_citation_survives [of 83 "[57]" sample_registry] digit_value_ascii [of 9]
  by (simp add: citation_kinds_def sample_labels py_isdecimal_def)

text \<open>An answer with the same citation in inline code and after it.\<close>

theorem mask_unmask_roundtrip_witness:
  "unmask_code_regions [0, 48, 1, 32, 91, 83, 57, 93] [[96, 91, 83, 57, 93, 96]]
     = Some [96, 91, 83, 57, 93, 96, 32, 91, 83, 57, 93]"
  by (rule mask_unmask_roundtrip)
    (simp_all add: mask_code_regions_def code_span_at_def first_match_def fenced_def
      inline_span_def numeral_eq_Suc dec.simps [of 0])

theorem repair_outside_code_witness:
  "\<exists>res. validate_and_repair_citations sample_registry
       [96, 91, 83, 57, 93, 96, 32, 91, 83, 57, 93] = Some res
     \<and> repaired_content res = [96, 91, 83, 57, 93, 96] \<and> invalid_citations res = [[83, 57]]"
proof -
  let ?s = "[96, 91, 83, 57, 93, 96, 32, 91, 83, 57, 93] :: pystr"
  have split: "code_split (scan code_span_at ?s)
      = ([], [([96, 91, 83, 57, 93, 96], [32, 91, 83, 57, 93])])"
    by (simp add: code_span_at_def first_match_def fenced_def inline_span_def numeral_eq_Suc)
  have d: "py_isdecimal 57" using digit_value_ascii [of 9] by (simp add: py_isdecimal_def)
  have "citation_at [91, 83, 57, 93] = 4" "citation_at [32, 91, 83, 57, 93] = 0"
    using citation_at_citation [of 83 "[57]" "[]"] d by (simp_all add: citation_kinds_def citation_at_def)
  then have sc: "scan citation_at [32, 91, 83, 57, 93] = [Lit 32, Hit [91, 83, 57, 93]]"
    by simp
  have found: "found_labels [32, 91, 83, 57, 93] = [[83, 57]]" "found_labels [] = []"
    unfolding found_labels_def sc by (simp_all add: label_of_def)
  have "clean True sample_registry (Some 1) [32, 91, 83, 57, 93] = [32]"
    "clean True sample_registry None [] = []"
    unfolding clean_def if_True stripped_def sc by (simp_all add: sample_labels label_of_def blank_def)
  moreover have "py_strip [96, 91, 83, 57, 93, 96, 32] = [96, 91, 83, 57, 93, 96]"
    by (simp add: py_strip_def py_isspace_def)
  ultimately show ?thesis
    using repair_outside_code [OF _ _ split, of "[[83, 57]]" True sample_registry] found
    by (auto simp: sample_labels)
qed

end
