(* ===== verification/Canvas_Store.thy ===== *)
theory Canvas_Store
  imports Text_Scan
begin

text \<open>
  The versioned canvas: \<^verbatim>\<open>backend/app/services/canvas_store.py\<close> and the routes of
  \<^verbatim>\<open>api/routes/canvas.py\<close>. The policy's answer for the artifact's vault, SHA-256 and the
  model's reply are parameters; feature flag, rate limit and CSRF check come before.
\<close>

section \<open>Rows\<close>

datatype origin = Created | UserEdit | ModelEdit | Restored

record artifact =
  ar_id :: nat
  ar_uid :: string
  ar_session :: nat
  ar_message :: "nat option"
  ar_turn :: "string option"
  ar_kind :: string
  ar_name :: pystr
  ar_language :: "string option"
  ar_vault :: "nat option"
  ar_current :: nat
  ar_refs :: string
  ar_by :: "nat option"

text \<open>\<open>model_edit_json\<close>: start line, end line, instruction, base version.\<close>

type_synonym model_edit = "int \<times> int \<times> pystr \<times> nat"

record version =
  vn_id :: nat
  vn_artifact :: nat
  vn_no :: nat
  vn_name :: "pystr option"
  vn_content :: pystr
  vn_sha :: string
  vn_origin :: origin
  vn_edit :: "model_edit option"
  vn_by :: "nat option"

text \<open>Sessions carry their vault, messages their session and turn.\<close>

record canvas_db =
  sessions :: "(nat \<times> nat option) list"
  messages :: "(nat \<times> nat \<times> string option) list"
  artifacts :: "artifact list"
  versions :: "version list"
  next_artifact :: nat
  next_version :: nat

section \<open>The store\<close>

definition get_by_uid :: "canvas_db \<Rightarrow> string \<Rightarrow> artifact option" where
  "get_by_uid db uid = find (\<lambda>a. ar_uid a = uid) (artifacts db)"

definition get_by_id :: "canvas_db \<Rightarrow> nat \<Rightarrow> artifact option" where
  "get_by_id db i = find (\<lambda>a. ar_id a = i) (artifacts db)"

definition list_for_session :: "canvas_db \<Rightarrow> nat \<Rightarrow> artifact list" where
  "list_for_session db s = rev (sort_key ar_id (filter (\<lambda>a. ar_session a = s) (artifacts db)))"

definition list_versions :: "canvas_db \<Rightarrow> nat \<Rightarrow> version list" where
  "list_versions db i = sort_key vn_no (filter (\<lambda>v. vn_artifact v = i) (versions db))"

definition get_version :: "canvas_db \<Rightarrow> nat \<Rightarrow> nat \<Rightarrow> version option" where
  "get_version db i n = find (\<lambda>v. vn_artifact v = i \<and> vn_no v = n) (versions db)"

text \<open>\<open>None\<close> is the \<open>IntegrityError\<close> of a uid already used or a session that is gone.\<close>

definition create_artifact ::
  "(pystr \<Rightarrow> string) \<Rightarrow> string \<Rightarrow> nat \<Rightarrow> string \<Rightarrow> pystr \<Rightarrow> pystr \<Rightarrow> string option \<Rightarrow> nat option
   \<Rightarrow> string option \<Rightarrow> nat option \<Rightarrow> nat option \<Rightarrow> string \<Rightarrow> canvas_db \<Rightarrow> canvas_db option" where
  "create_artifact sha uid session kind name content language message turn vault by refs db =
     (if get_by_uid db uid \<noteq> None \<or> session \<notin> fst ` set (sessions db) then None
      else Some (db\<lparr>
        artifacts := artifacts db @
          [\<lparr>ar_id = next_artifact db, ar_uid = uid, ar_session = session, ar_message = message,
            ar_turn = turn, ar_kind = kind, ar_name = name, ar_language = language,
            ar_vault = vault, ar_current = 1, ar_refs = refs, ar_by = by\<rparr>],
        versions := versions db @
          [\<lparr>vn_id = next_version db, vn_artifact = next_artifact db, vn_no = 1, vn_name = Some name,
            vn_content = content, vn_sha = sha content, vn_origin = Created, vn_edit = None,
            vn_by = by\<rparr>],
        next_artifact := Suc (next_artifact db), next_version := Suc (next_version db)\<rparr>))"

text \<open>
  \<open>append_version\<close> is one \<open>BEGIN IMMEDIATE\<close> transaction, except that a forced save on a
  stale base rolls it back and begins a second one: \<open>RetryForced\<close> marks the point between
  the two, where other writers can run. \<open>StoreError\<close> is a violated UNIQUE constraint.
\<close>

datatype append_result =
  Appended nat | VersionConflict | VersionLimit | RetryForced | StoreError

record new_version =
  nv_content :: pystr
  nv_origin :: origin
  nv_name :: "pystr option"
  nv_by :: "nat option"
  nv_edit :: "model_edit option"

definition version_row :: "(pystr \<Rightarrow> string) \<Rightarrow> nat \<Rightarrow> nat \<Rightarrow> nat \<Rightarrow> new_version \<Rightarrow> version" where
  "version_row sha k i n nv =
     \<lparr>vn_id = k, vn_artifact = i, vn_no = n, vn_name = nv_name nv, vn_content = nv_content nv,
      vn_sha = sha (nv_content nv), vn_origin = nv_origin nv,
      vn_edit = (if nv_origin nv = ModelEdit then nv_edit nv else None), vn_by = nv_by nv\<rparr>"

definition insert_version ::
  "(pystr \<Rightarrow> string) \<Rightarrow> nat \<Rightarrow> nat \<Rightarrow> new_version \<Rightarrow> canvas_db \<Rightarrow> append_result \<times> canvas_db" where
  "insert_version sha i n nv db =
     (if get_version db i n \<noteq> None then (StoreError, db)
      else (Appended n, db\<lparr>
        artifacts := update_rows (\<lambda>a. ar_id a = i) (\<lambda>a. a\<lparr>ar_current := n\<rparr>) (artifacts db),
        versions := versions db @ [version_row sha (next_version db) i n nv],
        next_version := Suc (next_version db)\<rparr>))"

text \<open>Append at current + 1, whatever the caller's base.\<close>

definition append_at_current ::
  "(pystr \<Rightarrow> string) \<Rightarrow> nat \<Rightarrow> new_version \<Rightarrow> canvas_db \<Rightarrow> append_result \<times> canvas_db" where
  "append_at_current sha i nv db =
     (case get_by_id db i of
        None \<Rightarrow> (VersionConflict, db)
      | Some a \<Rightarrow> insert_version sha i (ar_current a + 1) nv db)"

definition version_count :: "canvas_db \<Rightarrow> nat \<Rightarrow> nat" where
  "version_count db i = length (filter (\<lambda>v. vn_artifact v = i) (versions db))"

definition append_version ::
  "(pystr \<Rightarrow> string) \<Rightarrow> nat \<Rightarrow> nat \<Rightarrow> new_version \<Rightarrow> nat option \<Rightarrow> bool \<Rightarrow> canvas_db
   \<Rightarrow> append_result \<times> canvas_db" where
  "append_version sha max_versions i nv base force db =
     (if max_versions \<le> version_count db i then (VersionLimit, db)
      else case base of
        None \<Rightarrow> append_at_current sha i nv db
      | Some b \<Rightarrow>
          if rowcount (\<lambda>a. ar_id a = i \<and> ar_current a = b) (artifacts db) = 0
          then (if force then RetryForced else VersionConflict, db)
          else insert_version sha i (b + 1) nv db)"

text \<open>Deleting a chat session cascades to its artifacts and their versions.\<close>

definition delete_session :: "nat \<Rightarrow> canvas_db \<Rightarrow> canvas_db" where
  "delete_session s db = db\<lparr>
     sessions := filter (\<lambda>x. fst x \<noteq> s) (sessions db),
     messages := filter (\<lambda>m. fst (snd m) \<noteq> s) (messages db),
     artifacts := filter (\<lambda>a. ar_session a \<noteq> s) (artifacts db),
     versions := filter (\<lambda>v. \<forall>a \<in> set (artifacts db). ar_id a = vn_artifact v \<longrightarrow> ar_session a \<noteq> s)
       (versions db)\<rparr>"

section \<open>The routes\<close>

datatype canvas_error = CanvasError nat string

text \<open>UTF-8 length; \<open>None\<close> is the error of encoding a surrogate.\<close>

fun utf8_length :: "pystr \<Rightarrow> nat option" where
  "utf8_length [] = Some 0"
| "utf8_length (c # s) =
     (if 55296 \<le> c \<and> c \<le> 57343 then None
      else map_option ((+) (if c < 128 then 1 else if c < 2048 then 2 else if c < 65536 then 3 else 4))
             (utf8_length s))"

definition check_content :: "nat \<Rightarrow> pystr \<Rightarrow> canvas_error option" where
  "check_content max_kb content =
     (if py_strip content = [] then Some (CanvasError 422 ''canvas_content_required'')
      else case utf8_length content of
        None \<Rightarrow> Some (CanvasError 500 '''')
      | Some n \<Rightarrow> if n > max_kb * 1024 then Some (CanvasError 413 ''canvas_artifact_too_large'')
                 else None)"

definition create_session_artifact ::
  "(pystr \<Rightarrow> string) \<Rightarrow> nat \<Rightarrow> (nat option \<Rightarrow> bool) \<Rightarrow> string \<Rightarrow> nat \<Rightarrow> string \<Rightarrow> pystr \<Rightarrow> pystr
   \<Rightarrow> string option \<Rightarrow> nat option \<Rightarrow> string option \<Rightarrow> nat option \<Rightarrow> string \<Rightarrow> canvas_db
   \<Rightarrow> canvas_error + canvas_db" where
  "create_session_artifact sha max_kb may_write uid session kind name content language message
      client_turn user refs db =
     (if kind \<notin> {''code'', ''document''} then Inl (CanvasError 422 ''canvas_invalid_kind'')
      else case check_content max_kb content of
        Some e \<Rightarrow> Inl e
      | None \<Rightarrow>
          if length refs > 8192 then Inl (CanvasError 422 ''canvas_source_refs_too_large'')
          else (case find (\<lambda>s. fst s = session) (sessions db) of
             None \<Rightarrow> Inl (CanvasError 404 ''canvas_session_not_found'')
           | Some (_, vault) \<Rightarrow>
               if \<not> may_write vault then Inl (CanvasError 403 '''')
               else (case (case message of
                         None \<Rightarrow> Some client_turn
                       | Some m \<Rightarrow> map_option (snd \<circ> snd)
                           (find (\<lambda>x. fst x = m \<and> fst (snd x) = session) (messages db))) of
                    None \<Rightarrow> Inl (CanvasError 404 ''canvas_message_not_found'')
                  | Some turn \<Rightarrow>
                      (case create_artifact sha uid session kind name content language message turn
                              vault user refs db of
                         None \<Rightarrow> Inl (CanvasError 500 '''')
                       | Some db' \<Rightarrow> Inr db'))))"

text \<open>What the append's result is turned into; the forced retry reads the later database.\<close>

definition append_response ::
  "append_result \<times> canvas_db \<Rightarrow> canvas_error + nat \<times> canvas_db" where
  "append_response r =
     (case r of
        (Appended n, db) \<Rightarrow> Inr (n, db)
      | (VersionConflict, _) \<Rightarrow> Inl (CanvasError 409 ''canvas_version_conflict'')
      | (VersionLimit, _) \<Rightarrow> Inl (CanvasError 413 ''canvas_version_limit_reached'')
      | _ \<Rightarrow> Inl (CanvasError 500 ''''))"

definition authorized ::
  "(nat option \<Rightarrow> bool) \<Rightarrow> string \<Rightarrow> canvas_db \<Rightarrow> canvas_error + artifact" where
  "authorized may uid db =
     (case get_by_uid db uid of
        None \<Rightarrow> Inl (CanvasError 404 ''canvas_artifact_not_found'')
      | Some a \<Rightarrow> if may (ar_vault a) then Inr a else Inl (CanvasError 403 ''''))"

definition user_version :: "pystr \<Rightarrow> pystr option \<Rightarrow> nat option \<Rightarrow> new_version" where
  "user_version content name user =
     \<lparr>nv_content = content, nv_origin = UserEdit, nv_name = name, nv_by = user, nv_edit = None\<rparr>"

text \<open>\<open>db'\<close> is the database the second transaction of a forced save finds.\<close>

definition save_canvas_version ::
  "(pystr \<Rightarrow> string) \<Rightarrow> nat \<Rightarrow> nat \<Rightarrow> (nat option \<Rightarrow> bool) \<Rightarrow> string \<Rightarrow> pystr \<Rightarrow> pystr option
   \<Rightarrow> nat option \<Rightarrow> nat \<Rightarrow> bool \<Rightarrow> canvas_db \<Rightarrow> canvas_db \<Rightarrow> canvas_error + nat \<times> canvas_db" where
  "save_canvas_version sha max_kb max_versions may_write uid content name user base force db db' =
     (case check_content max_kb content of
        Some e \<Rightarrow> Inl e
      | None \<Rightarrow>
          (case authorized may_write uid db of
             Inl e \<Rightarrow> Inl e
           | Inr a \<Rightarrow>
               (case append_version sha max_versions (ar_id a) (user_version content name user)
                       (Some base) force db of
                  (RetryForced, _) \<Rightarrow> append_response
                     (append_at_current sha (ar_id a) (user_version content name user) db')
                | r \<Rightarrow> append_response r)))"

definition restore_canvas_version ::
  "(pystr \<Rightarrow> string) \<Rightarrow> nat \<Rightarrow> (nat option \<Rightarrow> bool) \<Rightarrow> string \<Rightarrow> nat \<Rightarrow> nat \<Rightarrow> nat option
   \<Rightarrow> canvas_db \<Rightarrow> canvas_error + nat \<times> canvas_db" where
  "restore_canvas_version sha max_versions may_write uid n base user db =
     (case authorized may_write uid db of
        Inl e \<Rightarrow> Inl e
      | Inr a \<Rightarrow>
          (case get_version db (ar_id a) n of
             None \<Rightarrow> Inl (CanvasError 404 ''canvas_version_not_found'')
           | Some h \<Rightarrow> append_response (append_version sha max_versions (ar_id a)
               \<lparr>nv_content = vn_content h, nv_origin = Restored, nv_name = vn_name h,
                nv_by = user, nv_edit = None\<rparr> (Some base) False db)))"

text \<open>\<open>_strip_markdown_fences\<close>: only whole first and last fence lines go.\<close>

definition fence :: pystr where
  "fence = [96, 96, 96]"

definition last_filled :: "pystr list \<Rightarrow> nat" where
  "last_filled lines =
     (case filter (\<lambda>k. py_strip (lines ! k) \<noteq> []) (rev [0..<length lines]) of
        [] \<Rightarrow> 0 | k # _ \<Rightarrow> k)"

definition strip_markdown_fences :: "pystr \<Rightarrow> pystr" where
  "strip_markdown_fences text =
     (let lines = py_split 10 text; l = last_filled lines
      in if 2 \<le> length lines \<and> take 3 (lines ! 0) = fence \<and> py_strip (lines ! l) = fence
         then py_join [10] (take (l - 1) (drop 1 lines)) else text)"

definition selected_lines :: "pystr \<Rightarrow> nat \<Rightarrow> nat \<Rightarrow> pystr" where
  "selected_lines content s e = py_join [10] (drop (s - 1) (take e (py_split 10 content)))"

definition splice_lines :: "pystr \<Rightarrow> nat \<Rightarrow> nat \<Rightarrow> pystr \<Rightarrow> pystr" where
  "splice_lines content s e replacement =
     (let lines = py_split 10 content
      in py_join [10] (take (s - 1) lines @ py_split 10 replacement @ drop e lines))"

text \<open>
  The model's reply: \<open>None\<close> when the call fails or no client is configured, else the text
  and whether it was cut off. The new text, or the error, of a range edit.
\<close>

definition edit_range_content ::
  "nat \<Rightarrow> pystr \<Rightarrow> int \<Rightarrow> int \<Rightarrow> (pystr \<times> bool) option \<Rightarrow> canvas_error + pystr" where
  "edit_range_content max_kb content start_line end_line reply =
     (if \<not> (1 \<le> start_line \<and> start_line \<le> end_line \<and> end_line \<le> int (length (py_split 10 content)))
      then Inl (CanvasError 422 ''canvas_invalid_range'')
      else case reply of
        None \<Rightarrow> Inl (CanvasError 502 ''canvas_model_unavailable'')
      | Some (text, truncated) \<Rightarrow>
          if truncated then Inl (CanvasError 502 ''canvas_model_truncated'')
          else (let r = strip_markdown_fences text;
                    new = splice_lines content (nat start_line) (nat end_line) r
                in if py_strip r = []
                      \<and> py_strip (selected_lines content (nat start_line) (nat end_line)) \<noteq> []
                      \<and> py_strip new \<noteq> []
                   then Inl (CanvasError 422 ''canvas_empty_model_reply'')
                   else case check_content max_kb new of Some e \<Rightarrow> Inl e | None \<Rightarrow> Inr new))"

text \<open>The base is read in \<open>db\<close>; after the model's answer the append finds \<open>db'\<close>.\<close>

definition edit_canvas_range ::
  "(pystr \<Rightarrow> string) \<Rightarrow> nat \<Rightarrow> nat \<Rightarrow> (nat option \<Rightarrow> bool) \<Rightarrow> string \<Rightarrow> int \<Rightarrow> int \<Rightarrow> pystr \<Rightarrow> nat
   \<Rightarrow> nat option \<Rightarrow> (pystr \<times> bool) option \<Rightarrow> canvas_db \<Rightarrow> canvas_db
   \<Rightarrow> canvas_error + nat \<times> canvas_db" where
  "edit_canvas_range sha max_kb max_versions may_write uid start_line end_line instruction base user
      reply db db' =
     (if py_strip instruction = [] then Inl (CanvasError 422 ''canvas_instruction_required'')
      else case authorized may_write uid db of
        Inl e \<Rightarrow> Inl e
      | Inr a \<Rightarrow>
          (case get_version db (ar_id a) base of
             None \<Rightarrow> Inl (CanvasError 404 ''canvas_version_not_found'')
           | Some v \<Rightarrow>
               (case edit_range_content max_kb (vn_content v) start_line end_line reply of
                  Inl e \<Rightarrow> Inl e
                | Inr new \<Rightarrow> append_response (append_version sha max_versions (ar_id a)
                    \<lparr>nv_content = new, nv_origin = ModelEdit, nv_name = None, nv_by = user,
                     nv_edit = Some (start_line, end_line, instruction, base)\<rparr>
                    (Some base) False db'))))"

text \<open>The reads: detail, one version (as for the download), history, manifest.\<close>

definition get_canvas_artifact ::
  "(nat option \<Rightarrow> bool) \<Rightarrow> string \<Rightarrow> canvas_db \<Rightarrow> canvas_error + artifact \<times> version option" where
  "get_canvas_artifact may_read uid db =
     (case authorized may_read uid db of
        Inl e \<Rightarrow> Inl e | Inr a \<Rightarrow> Inr (a, get_version db (ar_id a) (ar_current a)))"

definition get_canvas_version ::
  "(nat option \<Rightarrow> bool) \<Rightarrow> string \<Rightarrow> nat \<Rightarrow> canvas_db \<Rightarrow> canvas_error + artifact \<times> version" where
  "get_canvas_version may_read uid n db =
     (case authorized may_read uid db of
        Inl e \<Rightarrow> Inl e
      | Inr a \<Rightarrow>
          (case get_version db (ar_id a) n of
             None \<Rightarrow> Inl (CanvasError 404 ''canvas_version_not_found'')
           | Some v \<Rightarrow> Inr (a, v)))"

definition list_canvas_versions ::
  "(nat option \<Rightarrow> bool) \<Rightarrow> string \<Rightarrow> canvas_db \<Rightarrow> canvas_error + version list" where
  "list_canvas_versions may_read uid db =
     (case authorized may_read uid db of
        Inl e \<Rightarrow> Inl e | Inr a \<Rightarrow> Inr (list_versions db (ar_id a)))"

definition export_canvas_manifest ::
  "(nat option \<Rightarrow> bool) \<Rightarrow> string \<Rightarrow> nat option \<Rightarrow> canvas_db
   \<Rightarrow> canvas_error + artifact \<times> version" where
  "export_canvas_manifest may_read uid n db =
     (case authorized may_read uid db of
        Inl e \<Rightarrow> Inl e
      | Inr a \<Rightarrow>
          (case get_version db (ar_id a) (case n of None \<Rightarrow> ar_current a | Some k \<Rightarrow> k) of
             None \<Rightarrow> Inl (CanvasError 404 ''canvas_version_not_found'')
           | Some v \<Rightarrow> Inr (a, v)))"

section \<open>Sequences of operations\<close>

text \<open>
  Every write of the four tables; \<open>ForcedAppend\<close> is the second transaction of a forced save,
  which may come any time after the first.
\<close>

datatype canvas_op =
  NewSession nat "nat option"
| NewMessage nat nat "string option"
| CreateArtifact string nat string pystr pystr "string option" "nat option" "string option"
    "nat option" "nat option" string
| Append nat new_version "nat option" bool
| ForcedAppend nat new_version
| DeleteSession nat

fun exec_canvas :: "(pystr \<Rightarrow> string) \<Rightarrow> nat \<Rightarrow> canvas_op \<Rightarrow> canvas_db \<Rightarrow> canvas_db" where
  "exec_canvas sha m (NewSession s v) db =
     (if s \<in> fst ` set (sessions db) then db else db\<lparr>sessions := sessions db @ [(s, v)]\<rparr>)"
| "exec_canvas sha m (NewMessage x s t) db = db\<lparr>messages := messages db @ [(x, s, t)]\<rparr>"
| "exec_canvas sha m (CreateArtifact uid s k n c l me t v by refs) db =
     (case create_artifact sha uid s k n c l me t v by refs db of None \<Rightarrow> db | Some db' \<Rightarrow> db')"
| "exec_canvas sha m (Append i nv b f) db = snd (append_version sha m i nv b f db)"
| "exec_canvas sha m (ForcedAppend i nv) db = snd (append_at_current sha i nv db)"
| "exec_canvas sha m (DeleteSession s) db = delete_session s db"

definition run_canvas :: "(pystr \<Rightarrow> string) \<Rightarrow> nat \<Rightarrow> canvas_op list \<Rightarrow> canvas_db \<Rightarrow> canvas_db" where
  "run_canvas sha m ops db = fold (exec_canvas sha m) ops db"

definition empty_canvas :: canvas_db where
  "empty_canvas = \<lparr>sessions = [], messages = [], artifacts = [], versions = [],
     next_artifact = 1, next_version = 1\<rparr>"

section \<open>The history of an artifact\<close>

definition history :: "canvas_db \<Rightarrow> nat \<Rightarrow> version list" where
  "history db i = filter (\<lambda>v. vn_artifact v = i) (versions db)"

text \<open>
  Ids and uids are unique, every version has its artifact, and the versions of an artifact,
  in the order they were stored, are numbered from 1 to the artifact's current version.
\<close>

definition canvas_inv :: "canvas_db \<Rightarrow> bool" where
  "canvas_inv db \<longleftrightarrow>
     distinct (map ar_id (artifacts db)) \<and> distinct (map ar_uid (artifacts db))
     \<and> (\<forall>a \<in> set (artifacts db). ar_id a < next_artifact db)
     \<and> (\<forall>v \<in> set (versions db). vn_artifact v \<in> ar_id ` set (artifacts db))
     \<and> (\<forall>a \<in> set (artifacts db). map vn_no (history db (ar_id a)) = [1..<ar_current a + 1])"

lemma canvas_invD:
  assumes "canvas_inv db"
  shows "distinct (map ar_id (artifacts db))" "distinct (map ar_uid (artifacts db))"
    "a \<in> set (artifacts db) \<Longrightarrow> ar_id a < next_artifact db"
    "v \<in> set (versions db) \<Longrightarrow> vn_artifact v \<in> ar_id ` set (artifacts db)"
    "a \<in> set (artifacts db) \<Longrightarrow> map vn_no (history db (ar_id a)) = [1..<ar_current a + 1]"
  using assms unfolding canvas_inv_def by blast+

lemma history_simps [simp]:
  "history (db\<lparr>sessions := x\<rparr>) i = history db i" "history (db\<lparr>messages := y\<rparr>) i = history db i"
  by (simp_all add: history_def)

lemma get_by_idD: "get_by_id db i = Some a \<Longrightarrow> a \<in> set (artifacts db) \<and> ar_id a = i"
  by (auto simp: get_by_id_def dest: find_SomeD)

lemma get_by_id_eq:
  assumes "canvas_inv db" and "a \<in> set (artifacts db)"
  shows "get_by_id db (ar_id a) = Some a"
  unfolding get_by_id_def by (rule find_unique_key [OF canvas_invD(1) [OF assms(1)] assms(2)])

lemma get_version_None_iff:
  "get_version db i n = None \<longleftrightarrow> n \<notin> set (map vn_no (history db i))"
  by (auto simp: get_version_def history_def find_None_iff)

lemma version_count_history: "version_count db i = length (history db i)"
  by (simp add: version_count_def history_def)

lemma inv_count:
  "canvas_inv db \<Longrightarrow> a \<in> set (artifacts db) \<Longrightarrow> version_count db (ar_id a) = ar_current a"
  using arg_cong [OF canvas_invD(5), of db a length] by (simp add: version_count_history)

text \<open>Inserting the next version of an artifact.\<close>

lemma insert_version_eq:
  assumes "insert_version sha i n nv db = (r, db')"
  obtains "r = StoreError" "db' = db"
  | v where "r = Appended n" "get_version db i n = None" "vn_artifact v = i" "vn_no v = n"
      "vn_content v = nv_content nv"
      "artifacts db' = update_rows (\<lambda>a. ar_id a = i) (\<lambda>a. a\<lparr>ar_current := n\<rparr>) (artifacts db)"
      "versions db' = versions db @ [v]" "next_artifact db' = next_artifact db"
proof (cases "get_version db i n = None")
  case True
  with assms show ?thesis
    by (intro that(2) [of "version_row sha (next_version db) i n nv"])
      (auto simp: insert_version_def version_row_def)
qed (use assms that(1) in \<open>auto simp: insert_version_def\<close>)

lemma insert_version_inv:
  assumes inv: "canvas_inv db" and a: "a \<in> set (artifacts db)"
    and e: "insert_version sha (ar_id a) (ar_current a + 1) nv db = (r, db')"
  shows "r = Appended (ar_current a + 1) \<and> canvas_inv db'
    \<and> (\<exists>v. history db' (ar_id a) = history db (ar_id a) @ [v] \<and> vn_no v = ar_current a + 1
         \<and> vn_content v = nv_content nv)
    \<and> (\<forall>j. j \<noteq> ar_id a \<longrightarrow> history db' j = history db j)
    \<and> artifacts db' = update_rows (\<lambda>x. ar_id x = ar_id a) (\<lambda>x. x\<lparr>ar_current := ar_current a + 1\<rparr>)
        (artifacts db)"
  using e
proof (cases rule: insert_version_eq)
  case 1
  have "get_version db (ar_id a) (ar_current a + 1) = None"
    using canvas_invD(5) [OF inv a] by (simp add: get_version_None_iff del: set_map)
  with e 1 show ?thesis by (simp add: insert_version_def)
next
  case (2 v)
  let ?n = "ar_current a + 1"
  have arts: "artifacts db' = update_rows (\<lambda>x. ar_id x = ar_id a) (\<lambda>x. x\<lparr>ar_current := ?n\<rparr>) (artifacts db)"
    by (rule 2)
  have ids: "map ar_id (artifacts db') = map ar_id (artifacts db)"
    and uids: "map ar_uid (artifacts db') = map ar_uid (artifacts db)"
    unfolding arts by (simp_all add: map_key_update_rows)
  then have img: "ar_id ` set (artifacts db') = ar_id ` set (artifacts db)" by (metis set_map)
  have h: "history db' (ar_id a) = history db (ar_id a) @ [v]"
    and h': "\<forall>j. j \<noteq> ar_id a \<longrightarrow> history db' j = history db j"
    using 2 by (auto simp: history_def)
  have "map vn_no (history db' (ar_id b)) = [1..<ar_current b + 1]" if b: "b \<in> set (artifacts db')" for b
  proof -
    obtain c where c: "c \<in> set (artifacts db)"
      "b = (if ar_id c = ar_id a then c\<lparr>ar_current := ?n\<rparr> else c)"
      using b unfolding arts set_update_rows by blast
    show ?thesis
    proof (cases "ar_id c = ar_id a")
      case True
      then have "ar_id b = ar_id a" "ar_current b = ?n" using c(2) by simp_all
      then show ?thesis using h canvas_invD(5) [OF inv a] 2(4) by simp
    next
      case False
      then show ?thesis using c h' canvas_invD(5) [OF inv c(1)] by simp
    qed
  qed
  moreover have "\<forall>k \<in> ar_id ` set (artifacts db'). k < next_artifact db'"
    unfolding img 2(8) using canvas_invD(3) [OF inv] by blast
  then have "\<forall>b \<in> set (artifacts db'). ar_id b < next_artifact db'" by blast
  moreover have "\<forall>w \<in> set (versions db'). vn_artifact w \<in> ar_id ` set (artifacts db')"
    using canvas_invD(4) [OF inv] a 2 img by auto
  ultimately have "canvas_inv db'"
    using canvas_invD(1,2) [OF inv] unfolding canvas_inv_def ids uids by blast
  with 2 h h' arts show ?thesis by blast
qed

lemma append_at_current_cases:
  assumes inv: "canvas_inv db" and e: "append_at_current sha i nv db = (r, db')"
  obtains "r = VersionConflict" "db' = db" "get_by_id db i = None"
  | a where "a \<in> set (artifacts db)" "ar_id a = i" "r = Appended (ar_current a + 1)"
      "insert_version sha i (ar_current a + 1) nv db = (r, db')"
proof (cases "get_by_id db i")
  case None
  with e that(1) show ?thesis by (simp add: append_at_current_def)
next
  case (Some a)
  from get_by_idD [OF Some] have a: "a \<in> set (artifacts db)" "ar_id a = i" by auto
  have "insert_version sha i (ar_current a + 1) nv db = (r, db')"
    using e Some by (simp add: append_at_current_def)
  with a that(2) [OF a] insert_version_inv [OF inv a(1), of sha nv r db'] show ?thesis by simp
qed

text \<open>An append leaves everything alone or stores the next version of one artifact.\<close>

lemma append_version_cases:
  assumes inv: "canvas_inv db" and e: "append_version sha m i nv b f db = (r, db')"
  obtains "\<forall>n. r \<noteq> Appended n" "db' = db"
  | a where "a \<in> set (artifacts db)" "ar_id a = i" "r = Appended (ar_current a + 1)"
      "ar_current a < m" "b = None \<or> b = Some (ar_current a)"
      "insert_version sha i (ar_current a + 1) nv db = (r, db')"
proof (cases "m \<le> version_count db i")
  case True
  with e that(1) show ?thesis by (simp add: append_version_def)
next
  case False
  show ?thesis
  proof (cases b)
    case None
    with e False have "append_at_current sha i nv db = (r, db')" by (simp add: append_version_def)
    from inv this show ?thesis
    proof (cases rule: append_at_current_cases)
      case 1
      show ?thesis by (rule that(1)) (simp_all add: 1)
    next
      case (2 a)
      with that(2) [of a] None False inv_count [OF inv 2(1)] show ?thesis by simp
    qed
  next
    case (Some k)
    show ?thesis
    proof (cases "rowcount (\<lambda>a. ar_id a = i \<and> ar_current a = k) (artifacts db) = 0")
      case True
      with e False Some that(1) show ?thesis by (auto simp: append_version_def split: if_splits)
    next
      case hit: False
      then obtain a where a: "a \<in> set (artifacts db)" "ar_id a = i" "ar_current a = k"
        by (auto simp: rowcount_def filter_empty_conv)
      have ins: "insert_version sha i (k + 1) nv db = (r, db')"
        using e False hit Some by (simp add: append_version_def)
      show ?thesis
        using that(2) [OF a(1,2)] ins a insert_version_inv [OF inv a(1), of sha nv r db'] Some False
          inv_count [OF inv a(1)] by auto
    qed
  qed
qed

section \<open>Runs\<close>

definition artifact_ids :: "canvas_db \<Rightarrow> nat set" where
  "artifact_ids db = ar_id ` set (artifacts db)"

text \<open>Ids are not reused and histories only grow, while the artifact exists.\<close>

definition evolves :: "canvas_db \<Rightarrow> canvas_db \<Rightarrow> bool" where
  "evolves db db' \<longleftrightarrow> next_artifact db \<le> next_artifact db'
     \<and> (\<forall>i \<in> artifact_ids db'. i < next_artifact db \<longrightarrow> i \<in> artifact_ids db)
     \<and> (\<forall>i \<in> artifact_ids db'. i \<in> artifact_ids db \<longrightarrow> (\<exists>w. history db' i = history db i @ w))"

lemma evolves_refl: "evolves db db"
  by (simp add: evolves_def)

lemma evolves_trans:
  assumes "canvas_inv a" and ab: "evolves a b" and bc: "evolves b c"
  shows "evolves a c"
proof -
  have lt: "i < next_artifact a" if "i \<in> artifact_ids a" for i
    using that canvas_invD(3) [OF assms(1)] by (auto simp: artifact_ids_def)
  have b: "i \<in> artifact_ids b" if "i \<in> artifact_ids c" "i < next_artifact a" for i
    using that ab bc unfolding evolves_def by (meson order.strict_trans2)
  have "\<exists>w. history c i = history a i @ w"
    if ic: "i \<in> artifact_ids c" and ia: "i \<in> artifact_ids a" for i
  proof -
    have ib: "i \<in> artifact_ids b" using b [OF ic lt [OF ia]] .
    obtain v where v: "history b i = history a i @ v" using ib ia ab unfolding evolves_def by blast
    obtain w where "history c i = history b i @ w" using ib ic bc unfolding evolves_def by blast
    with v show ?thesis by simp
  qed
  then show ?thesis
    using ab bc b unfolding evolves_def by (meson order.trans order.strict_trans2)
qed

lemma insert_version_evolves:
  assumes "canvas_inv db" and "a \<in> set (artifacts db)"
    and "insert_version sha (ar_id a) (ar_current a + 1) nv db = (r, db')"
  shows "canvas_inv db' \<and> evolves db db'"
proof -
  note i = insert_version_inv [OF assms]
  then have ids: "artifact_ids db' = artifact_ids db"
    unfolding artifact_ids_def by (metis (no_types, lifting) artifact.select_convs(1)
        artifact.surjective artifact.update_convs(10) map_key_update_rows set_map)
  have nx: "next_artifact db' = next_artifact db"
    using assms(3) by (auto simp: insert_version_def split: if_splits)
  have "\<exists>w. history db' j = history db j @ w" for j
    using i by (cases "j = ar_id a") auto
  then show ?thesis using i by (simp add: evolves_def ids nx)
qed

lemma append_evolves:
  assumes inv: "canvas_inv db"
  shows "canvas_inv (snd (append_version sha m i nv b f db))
    \<and> evolves db (snd (append_version sha m i nv b f db))"
    and "canvas_inv (snd (append_at_current sha i nv db))
    \<and> evolves db (snd (append_at_current sha i nv db))"
proof -
  obtain r db' where e: "append_version sha m i nv b f db = (r, db')"
    by (cases "append_version sha m i nv b f db")
  from inv e have "canvas_inv db' \<and> evolves db db'"
  proof (cases rule: append_version_cases)
    case (2 a)
    then show ?thesis using insert_version_evolves [OF inv 2(1)] by blast
  qed (use inv evolves_refl in auto)
  with e show "canvas_inv (snd (append_version sha m i nv b f db))
    \<and> evolves db (snd (append_version sha m i nv b f db))" by simp
next
  obtain r db' where e: "append_at_current sha i nv db = (r, db')"
    by (cases "append_at_current sha i nv db")
  from inv e have "canvas_inv db' \<and> evolves db db'"
  proof (cases rule: append_at_current_cases)
    case (2 a)
    then show ?thesis using insert_version_evolves [OF inv 2(1)] by blast
  qed (use inv evolves_refl in auto)
  with e show "canvas_inv (snd (append_at_current sha i nv db))
    \<and> evolves db (snd (append_at_current sha i nv db))" by simp
qed

lemma create_artifact_evolves:
  assumes inv: "canvas_inv db"
    and e: "create_artifact sha uid s k n c l me t v by refs db = Some db'"
  shows "canvas_inv db' \<and> evolves db db'"
proof -
  let ?i = "next_artifact db"
  obtain a w where uid: "uid \<notin> ar_uid ` set (artifacts db)"
    and arts: "artifacts db' = artifacts db @ [a]" and a: "ar_id a = ?i" "ar_uid a = uid" "ar_current a = 1"
    and vers: "versions db' = versions db @ [w]" and w: "vn_artifact w = ?i" "vn_no w = 1"
    and nx: "next_artifact db' = Suc ?i"
  proof -
    from e have "uid \<notin> ar_uid ` set (artifacts db)"
      by (auto simp: create_artifact_def get_by_uid_def find_None_iff split: if_splits)
    with e show ?thesis by (intro that) (auto simp: create_artifact_def split: if_splits)
  qed
  have fresh: "?i \<notin> ar_id ` set (artifacts db)" using canvas_invD(3) [OF inv] by fastforce
  then have h0: "history db ?i = []"
    using canvas_invD(4) [OF inv] by (force simp: history_def filter_empty_conv)
  then have h: "history db' ?i = [w]" "\<And>j. j \<noteq> ?i \<Longrightarrow> history db' j = history db j"
    using w h0 by (auto simp: history_def vers)
  have "map vn_no (history db' (ar_id b)) = [1..<ar_current b + 1]" if "b \<in> set (artifacts db')" for b
  proof (cases "b = a")
    case True
    then show ?thesis using h(1) a w by simp
  next
    case False
    then have b: "b \<in> set (artifacts db)" using that by (simp add: arts)
    then have "ar_id b \<noteq> ?i" using fresh by (metis image_eqI)
    then show ?thesis using h(2) canvas_invD(5) [OF inv b] by simp
  qed
  moreover have "\<forall>b \<in> set (artifacts db'). ar_id b < next_artifact db'"
    using canvas_invD(3) [OF inv] a by (auto simp: arts nx less_Suc_eq)
  moreover have "\<forall>u \<in> set (versions db'). vn_artifact u \<in> ar_id ` set (artifacts db')"
    using canvas_invD(4) [OF inv] a w by (auto simp: arts vers)
  moreover have "distinct (map ar_id (artifacts db'))" "distinct (map ar_uid (artifacts db'))"
    using canvas_invD(1,2) [OF inv] fresh uid a by (auto simp: arts)
  ultimately have "canvas_inv db'" unfolding canvas_inv_def by blast
  moreover have "\<exists>w. history db' j = history db j @ w" for j
    using h(2) h0 by (cases "j = ?i") auto
  then have "evolves db db'"
    using a by (auto simp: evolves_def artifact_ids_def arts nx)
  ultimately show ?thesis by simp
qed

lemma filter_filter_same: "(\<And>x. p x \<Longrightarrow> q x) \<Longrightarrow> filter p (filter q xs) = filter p xs"
  by (induction xs) auto

lemma delete_session_evolves:
  assumes inv: "canvas_inv db"
  shows "canvas_inv (delete_session s db) \<and> evolves db (delete_session s db)"
proof -
  let ?db = "delete_session s db"
  have arts: "set (artifacts ?db) = {a \<in> set (artifacts db). ar_session a \<noteq> s}"
    by (simp add: delete_session_def)
  have vers: "versions ?db = filter (\<lambda>v. \<forall>a \<in> set (artifacts db).
      ar_id a = vn_artifact v \<longrightarrow> ar_session a \<noteq> s) (versions db)"
    by (simp add: delete_session_def)
  have h: "history ?db (ar_id a) = history db (ar_id a)" if a: "a \<in> set (artifacts ?db)" for a
  proof -
    have "ar_session b \<noteq> s" if "b \<in> set (artifacts db)" "ar_id b = ar_id a" for b
      using distinct_key_eq [OF canvas_invD(1) [OF inv] that(1), of a] a that(2) arts by auto
    then show ?thesis unfolding history_def vers by (intro filter_filter_same) simp
  qed
  have "vn_artifact v \<in> ar_id ` set (artifacts ?db)" if "v \<in> set (versions ?db)" for v
    using that canvas_invD(4) [OF inv, of v] unfolding arts by (auto simp: delete_session_def)
  moreover have "distinct (map ar_id (artifacts ?db))" "distinct (map ar_uid (artifacts ?db))"
    using canvas_invD(1,2) [OF inv] by (simp_all add: delete_session_def distinct_map_filter)
  moreover have "\<forall>a \<in> set (artifacts ?db). ar_id a < next_artifact ?db"
    using canvas_invD(3) [OF inv] by (simp add: delete_session_def)
  moreover have "\<forall>a \<in> set (artifacts ?db). map vn_no (history ?db (ar_id a)) = [1..<ar_current a + 1]"
    using canvas_invD(5) [OF inv] h arts by auto
  ultimately have "canvas_inv ?db" unfolding canvas_inv_def by blast
  moreover have "evolves db ?db"
    using h arts by (auto simp: evolves_def artifact_ids_def delete_session_def)
  ultimately show ?thesis by simp
qed

lemma exec_canvas_evolves:
  assumes inv: "canvas_inv db"
  shows "canvas_inv (exec_canvas sha m op db) \<and> evolves db (exec_canvas sha m op db)"
proof (cases op)
  case (CreateArtifact uid s k n c l me t v w refs)
  then show ?thesis
    using create_artifact_evolves [OF inv] inv evolves_refl by (auto split: option.splits)
qed (use inv append_evolves [OF inv] delete_session_evolves [OF inv] evolves_refl in
    \<open>auto simp: canvas_inv_def evolves_def artifact_ids_def\<close>)

lemma run_canvas_evolves:
  "canvas_inv db \<Longrightarrow> canvas_inv (run_canvas sha m ops db) \<and> evolves db (run_canvas sha m ops db)"
proof (induction ops arbitrary: db)
  case Nil
  then show ?case by (simp add: run_canvas_def evolves_refl)
next
  case (Cons op ops)
  have s: "canvas_inv (exec_canvas sha m op db)" "evolves db (exec_canvas sha m op db)"
    using exec_canvas_evolves [OF Cons.prems] by auto
  from Cons.IH [OF s(1)] evolves_trans [OF Cons.prems s(2)] show ?case
    by (simp add: run_canvas_def)
qed

lemma empty_canvas_inv: "canvas_inv empty_canvas"
  by (simp add: canvas_inv_def empty_canvas_def)

lemma run_canvas_append: "run_canvas sha m (xs @ ys) db = run_canvas sha m ys (run_canvas sha m xs db)"
  by (simp add: run_canvas_def)

section \<open>Properties\<close>

text \<open>
  C29 Version history is complete and append-only: in every reachable database the versions
  of an artifact are numbered 1, 2, .. up to its current version without gap or duplicate,
  in the order they were stored, and after any further operations, as long as the artifact
  exists, its history is the old one followed by new versions.
\<close>

theorem canvas_history:
  assumes "a \<in> set (artifacts (run_canvas sha m xs empty_canvas))"
  shows "map vn_no (history (run_canvas sha m xs empty_canvas) (ar_id a)) = [1..<ar_current a + 1]
    \<and> (ar_id a \<in> artifact_ids (run_canvas sha m (xs @ ys) empty_canvas) \<longrightarrow>
        (\<exists>new. history (run_canvas sha m (xs @ ys) empty_canvas) (ar_id a)
          = history (run_canvas sha m xs empty_canvas) (ar_id a) @ new))"
proof -
  let ?db = "run_canvas sha m xs empty_canvas"
  have inv: "canvas_inv ?db" using run_canvas_evolves [OF empty_canvas_inv] by blast
  have "evolves ?db (run_canvas sha m (xs @ ys) empty_canvas)"
    unfolding run_canvas_append using run_canvas_evolves [OF inv] by blast
  then show ?thesis
    using canvas_invD(5) [OF inv] assms unfolding evolves_def artifact_ids_def by blast
qed

lemma history_length_mono:
  assumes "canvas_inv db" and "canvas_inv db'" and "evolves db db'"
    and "a \<in> set (artifacts db)" and "a' \<in> set (artifacts db')" and "ar_id a' = ar_id a"
  shows "ar_current a \<le> ar_current a'"
proof -
  obtain w where "history db' (ar_id a) = history db (ar_id a) @ w"
    using assms(3-6) by (force simp: evolves_def artifact_ids_def)
  then have "length (history db (ar_id a)) \<le> length (history db' (ar_id a))" by simp
  then show ?thesis
    using inv_count [OF assms(1,4)] inv_count [OF assms(2,5)] assms(6)
    by (simp add: version_count_history)
qed

text \<open>
  No save is lost: once an unforced save based on version \<open>b\<close> has been stored, no other
  unforced save based on \<open>b\<close> ever succeeds, whatever happens in between; the one that did
  is version \<open>b + 1\<close> with the content it was given.
\<close>

theorem one_save_per_base:
  assumes "db = run_canvas sha m xs empty_canvas"
    and "append_version sha m i nv (Some b) False db = (Appended n, db1)"
    and "db2 = run_canvas sha m ys db1"
  shows "n = b + 1 \<and> (\<exists>v. get_version db1 i n = Some v \<and> vn_content v = nv_content nv)
     \<and> fst (append_version sha m i nv' (Some b) False db2) \<in> {VersionConflict, VersionLimit}"
proof -
  have inv: "canvas_inv db" using run_canvas_evolves [OF empty_canvas_inv] assms(1) by blast
  from inv assms(2) show ?thesis
  proof (cases rule: append_version_cases)
    case (2 a)
    note i = insert_version_inv [OF inv 2(1), of sha nv "Appended n" db1, unfolded 2(2), OF 2(6)]
    let ?a = "a\<lparr>ar_current := b + 1\<rparr>"
    have b: "b = ar_current a" "n = b + 1" using 2 by simp_all
    have inv1: "canvas_inv db1" using i by blast
    have a1: "?a \<in> set (artifacts db1)"
      using in_update_rows [OF 2(1), of "\<lambda>x. ar_id x = i" "\<lambda>x. x\<lparr>ar_current := ar_current a + 1\<rparr>"] i 2(2) b
      by auto
    obtain v where v: "history db1 i = history db i @ [v]" "vn_no v = n" "vn_content v = nv_content nv"
      using i b by blast
    have "distinct (map vn_no (history db1 i))"
      using canvas_invD(5) [OF inv1 a1] 2(2) by simp
    then have d: "distinct (map vn_no (history db1 i))" .
    have "get_version db1 i n = Some v"
    proof -
      have "get_version db1 i n \<noteq> None" using v by (simp add: get_version_None_iff)
      then obtain u where u: "get_version db1 i n = Some u" by blast
      then have "u \<in> set (history db1 i)" "vn_no u = n"
        by (auto simp: get_version_def history_def dest: find_SomeD)
      moreover have "v \<in> set (history db1 i)" using v by simp
      ultimately have "u = v"
        using distinct_key_eq [OF d] v(2) by metis
      with u show ?thesis by simp
    qed
    moreover have "fst (append_version sha m i nv' (Some b) False db2) \<in> {VersionConflict, VersionLimit}"
    proof -
      have r: "canvas_inv db2" "evolves db1 db2"
        using run_canvas_evolves [OF inv1] assms(3) by auto
      have "\<not> (ar_id a' = i \<and> ar_current a' = b)" if "a' \<in> set (artifacts db2)" for a'
        using history_length_mono [OF inv1 r a1 that] 2(2) by auto
      then have "rowcount (\<lambda>a. ar_id a = i \<and> ar_current a = b) (artifacts db2) = 0"
        by (simp add: rowcount_def filter_empty_conv)
      then show ?thesis by (simp add: append_version_def)
    qed
    ultimately show ?thesis using v(3) b(2) by blast
  qed simp
qed

text \<open>
  A range edit touches nothing but the range: when it succeeds the lines of the new text
  are the lines before the range, the lines of the model's reply without a wrapping fence,
  and the lines after the range, every line outside the range byte for byte as it was.
\<close>

theorem range_edit_keeps_other_lines:
  assumes "edit_range_content max_kb content s e reply = Inr new"
  shows "\<exists>text. reply = Some (text, False)
     \<and> 1 \<le> s \<and> s \<le> e \<and> e \<le> int (length (py_split 10 content))
     \<and> py_split 10 new = take (nat s - 1) (py_split 10 content)
         @ py_split 10 (strip_markdown_fences text) @ drop (nat e) (py_split 10 content)"
proof -
  obtain t where r: "1 \<le> s" "s \<le> e" "e \<le> int (length (py_split 10 content))"
    "reply = Some (t, False)"
    "new = splice_lines content (nat s) (nat e) (strip_markdown_fences t)"
    using assms by (auto simp: edit_range_content_def Let_def split: if_splits option.splits)
  have "py_split 10 new = take (nat s - 1) (py_split 10 content)
      @ py_split 10 (strip_markdown_fences t) @ drop (nat e) (py_split 10 content)"
    unfolding r(5) splice_lines_def Let_def
  proof (rule py_split_join)
    show "\<forall>x \<in> set (take (nat s - 1) (py_split 10 content)
        @ py_split 10 (strip_markdown_fences t) @ drop (nat e) (py_split 10 content)). 10 \<notin> set x"
      using py_split_pieces in_set_takeD in_set_dropD by (metis UnE set_append)
  qed simp
  with r show ?thesis by blast
qed

text \<open>
  The cap on versions does not bound a history: a forced save checks it in a transaction
  that it then rolls back, and appends in a second one without checking again. Any number of
  forced saves that pass the check together, one version below the cap, all append.
\<close>

theorem forced_saves_overshoot_cap:
  assumes "db = run_canvas sha m xs empty_canvas" and "a \<in> set (artifacts db)"
    and "ar_current a < m" and "b \<noteq> ar_current a"
  shows "append_version sha m (ar_id a) nv (Some b) True db = (RetryForced, db)
     \<and> version_count (((\<lambda>db. snd (append_at_current sha (ar_id a) nv db)) ^^ k) db) (ar_id a)
         = ar_current a + k"
proof -
  let ?step = "\<lambda>db. snd (append_at_current sha (ar_id a) nv db)"
  have inv: "canvas_inv db" using run_canvas_evolves [OF empty_canvas_inv] assms(1) by blast
  have "canvas_inv ((?step ^^ k) db)
    \<and> (\<exists>c \<in> set (artifacts ((?step ^^ k) db)). ar_id c = ar_id a \<and> ar_current c = ar_current a + k)"
  proof (induction k)
    case 0
    then show ?case using inv assms(2) by auto
  next
    case (Suc k)
    then obtain c where i: "canvas_inv ((?step ^^ k) db)" and c: "c \<in> set (artifacts ((?step ^^ k) db))"
      "ar_id c = ar_id a" "ar_current c = ar_current a + k" by blast
    obtain r db' where e: "insert_version sha (ar_id c) (ar_current c + 1) nv ((?step ^^ k) db) = (r, db')"
      by (cases "insert_version sha (ar_id c) (ar_current c + 1) nv ((?step ^^ k) db)")
    have "?step ((?step ^^ k) db) = db'"
      using get_by_id_eq [OF i c(1)] e c(2) by (simp add: append_at_current_def)
    moreover note insert_version_inv [OF i c(1) e]
    moreover have "c\<lparr>ar_current := ar_current c + 1\<rparr> \<in> set (update_rows (\<lambda>x. ar_id x = ar_id c)
        (\<lambda>x. x\<lparr>ar_current := ar_current c + 1\<rparr>) (artifacts ((?step ^^ k) db)))"
      using in_update_rows [OF c(1), of "\<lambda>x. ar_id x = ar_id c"] by fastforce
    ultimately have "canvas_inv ((?step ^^ Suc k) db)"
      "c\<lparr>ar_current := ar_current c + 1\<rparr> \<in> set (artifacts ((?step ^^ Suc k) db))"
      by simp_all
    then show ?case using c by (intro conjI bexI [of _ "c\<lparr>ar_current := ar_current c + 1\<rparr>"]) simp_all
  qed
  then have "version_count ((?step ^^ k) db) (ar_id a) = ar_current a + k"
    using inv_count by metis
  moreover have "ar_current a' \<noteq> b" if "a' \<in> set (artifacts db)" "ar_id a' = ar_id a" for a'
    using distinct_key_eq [OF canvas_invD(1) [OF inv] that(1) assms(2) that(2)] assms(4) by simp
  then have "rowcount (\<lambda>x. ar_id x = ar_id a \<and> ar_current x = b) (artifacts db) = 0"
    by (auto simp: rowcount_def filter_empty_conv)
  then have "append_version sha m (ar_id a) nv (Some b) True db = (RetryForced, db)"
    using inv_count [OF inv assms(2)] assms(3) by (simp add: append_version_def)
  ultimately show ?thesis by blast
qed

section \<open>Witnesses\<close>

definition sample_version :: "pystr \<Rightarrow> new_version" where
  "sample_version c = \<lparr>nv_content = c, nv_origin = UserEdit, nv_name = None, nv_by = Some 7, nv_edit = None\<rparr>"

definition sample_ops :: "canvas_op list" where
  "sample_ops = [NewSession 1 (Some 3),
     CreateArtifact ''cav_1'' 1 ''code'' [109] [97] None None None (Some 3) (Some 7) ''[]''
     , Append 1 (sample_version [98]) (Some 1) False]"

definition sample_artifact :: artifact where
  "sample_artifact = \<lparr>ar_id = 1, ar_uid = ''cav_1'', ar_session = 1, ar_message = None,
     ar_turn = None, ar_kind = ''code'', ar_name = [109], ar_language = None, ar_vault = Some 3,
     ar_current = 2, ar_refs = ''[]'', ar_by = Some 7\<rparr>"

lemmas canvas_eval = run_canvas_def sample_ops_def empty_canvas_def create_artifact_def
  get_by_uid_def append_version_def version_count_def insert_version_def get_version_def
  version_row_def rowcount_def sample_version_def

lemma sample_artifacts:
  "artifacts (run_canvas (\<lambda>_. ''h'') 3 sample_ops empty_canvas) = [sample_artifact]"
  by (simp add: canvas_eval sample_artifact_def)

theorem canvas_history_witness:
  "\<exists>new. history (run_canvas (\<lambda>_. ''h'') 3 (sample_ops @ [Append 1 (sample_version [99]) None False])
        empty_canvas) (ar_id sample_artifact)
     = history (run_canvas (\<lambda>_. ''h'') 3 sample_ops empty_canvas) (ar_id sample_artifact) @ new"
proof -
  have "sample_artifact \<in> set (artifacts (run_canvas (\<lambda>_. ''h'') 3 sample_ops empty_canvas))"
    by (simp add: sample_artifacts)
  moreover have "ar_id sample_artifact \<in> artifact_ids (run_canvas (\<lambda>_. ''h'') 3
      (sample_ops @ [Append 1 (sample_version [99]) None False]) empty_canvas)"
    by (simp add: canvas_eval sample_artifact_def artifact_ids_def append_at_current_def get_by_id_def)
  ultimately show ?thesis using canvas_history by blast
qed

theorem one_save_per_base_witness:
  "let db = run_canvas (\<lambda>_. ''h'') 9 sample_ops empty_canvas;
       r = append_version (\<lambda>_. ''h'') 9 1 (sample_version [99]) (Some 2) False db
   in fst r = Appended 3 \<and> fst (append_version (\<lambda>_. ''h'') 9 1 (sample_version [100]) (Some 2) False (snd r))
        \<in> {VersionConflict, VersionLimit}"
proof -
  let ?db = "run_canvas (\<lambda>_. ''h'') 9 sample_ops empty_canvas"
  obtain db1 where e: "append_version (\<lambda>_. ''h'') 9 1 (sample_version [99]) (Some 2) False ?db
      = (Appended 3, db1)"
    by (simp add: canvas_eval)
  have "db1 = run_canvas (\<lambda>_. ''h'') 9 [] db1" by (simp add: run_canvas_def)
  from one_save_per_base [OF refl e this, of "sample_version [100]"] show ?thesis
    unfolding Let_def e fst_conv snd_conv by blast
qed

theorem range_edit_keeps_other_lines_witness:
  "py_split 10 [65, 10, 68, 10, 69, 10, 67]
     = take (nat 2 - 1) (py_split 10 [65, 10, 66, 10, 67])
       @ py_split 10 (strip_markdown_fences [68, 10, 69]) @ drop (nat 2) (py_split 10 [65, 10, 66, 10, 67])"
proof -
  have "edit_range_content 512 [65, 10, 66, 10, 67] 2 2 (Some ([68, 10, 69], False))
      = Inr [65, 10, 68, 10, 69, 10, 67]"
    by (simp add: edit_range_content_def strip_markdown_fences_def fence_def splice_lines_def
        check_content_def py_strip_def py_isspace_def Let_def)
  from range_edit_keeps_other_lines [OF this] show ?thesis by auto
qed

theorem forced_saves_overshoot_cap_witness:
  "version_count (((\<lambda>db. snd (append_at_current (\<lambda>_. ''h'') 1 (sample_version [99]) db)) ^^ 2)
     (run_canvas (\<lambda>_. ''h'') 3 sample_ops empty_canvas)) 1 = 4"
  using forced_saves_overshoot_cap
    [OF refl, of sample_artifact "\<lambda>_. ''h''" 3 sample_ops 1 "sample_version [99]" 2]
  by (simp add: sample_artifacts) (simp add: sample_artifact_def)

end
