(* ===== verification/Chunking.thy ===== *)
theory Chunking
  imports Text_Scan
begin

text \<open>
  \<^verbatim>\<open>backend/app/services/chunking.py\<close>: what happens to the chunks of a document after the
  third-party partitioner, the grouping of sentences of the embedding chunker, and the parent
  windows. The partitioner's chunks and the breakpoints computed from the embeddings are
  inputs.
\<close>

section \<open>Chunks\<close>

datatype meta_value = MText string | MNum nat | MFlag bool | MNone

type_synonym metadata = "string \<rightharpoonup> meta_value"

record chunk =
  ck_text :: pystr
  ck_metadata :: metadata
  ck_index :: nat
  ck_uid :: "string option"
  ck_original :: "nat list"
  ck_raw :: "pystr option"
  ck_window_start :: "int option"
  ck_window_end :: "int option"
  ck_position :: "nat option"

definition processed_chunk :: "pystr \<Rightarrow> metadata \<Rightarrow> nat \<Rightarrow> nat list \<Rightarrow> chunk" where
  "processed_chunk text metadata i original =
     \<lparr>ck_text = text, ck_metadata = metadata, ck_index = i, ck_uid = None, ck_original = original,
      ck_raw = None, ck_window_start = None, ck_window_end = None, ck_position = None\<rparr>"

section \<open>Merging chunks split inside code or tables\<close>

definition code_fence :: pystr where
  "code_fence = [96, 96, 96]"

text \<open>\<open>text.count(p)\<close>: occurrences that do not overlap.\<close>

definition py_count :: "pystr \<Rightarrow> pystr \<Rightarrow> nat" where
  "py_count p s = length (hits (scan (\<lambda>t. if take (length p) t = p then length p else 0) s))"

definition in_code_block :: "pystr \<Rightarrow> bool" where
  "in_code_block text \<longleftrightarrow> py_count code_fence text mod 2 = 1"

definition in_table :: "pystr \<Rightarrow> bool" where
  "in_table text \<longleftrightarrow> take 1 (py_strip (last (py_split 10 text))) = [124]"

definition chunk_origin :: "chunk \<Rightarrow> nat list" where
  "chunk_origin c = (if ck_original c = [] then [ck_index c] else ck_original c)"

text \<open>One turn of the loop, in its two halves: merge with the pending chunk, then decide.\<close>

definition merge_pending :: "nat \<Rightarrow> chunk \<Rightarrow> chunk \<Rightarrow> chunk option" where
  "merge_pending max_merge p c =
     (let text = ck_text p @ [10] @ ck_text c
      in if length text \<le> max_merge
         then Some (processed_chunk text ((ck_metadata p ++ ck_metadata c)(''merged'' \<mapsto> MFlag True))
                (ck_index p) (ck_original p @ chunk_origin c))
         else None)"

definition post_step ::
  "nat \<Rightarrow> chunk list \<times> chunk option \<Rightarrow> chunk \<Rightarrow> chunk list \<times> chunk option" where
  "post_step max_merge acc c =
     (case acc of (merged, pending) \<Rightarrow>
        let (merged1, pending1) = (case pending of
               None \<Rightarrow> (merged, None)
             | Some p \<Rightarrow> (case merge_pending max_merge p c of
                            Some q \<Rightarrow> (merged, Some q)
                          | None \<Rightarrow> (merged @ [p], None)));
            text = (case pending1 of None \<Rightarrow> ck_text c | Some q \<Rightarrow> ck_text q)
        in if in_code_block text \<or> in_table text
           then (merged1, Some (case pending1 of
                    Some q \<Rightarrow> q
                  | None \<Rightarrow> processed_chunk text (ck_metadata c) (ck_index c) (chunk_origin c)))
           else (case pending1 of Some q \<Rightarrow> (merged1 @ [q], None)
                                | None \<Rightarrow> (merged1 @ [c], None)))"

definition reindex :: "chunk list \<Rightarrow> chunk list" where
  "reindex cs = map (\<lambda>(i, c). c\<lparr>ck_index := i\<rparr>) (enumerate 0 cs)"

definition merge_chunks :: "nat \<Rightarrow> chunk list \<Rightarrow> chunk list" where
  "merge_chunks max_merge cs =
     (case foldl (post_step max_merge) ([], None) cs of
        (merged, None) \<Rightarrow> merged | (merged, Some p) \<Rightarrow> merged @ [p])"

definition post_process_chunks :: "nat \<Rightarrow> chunk list \<Rightarrow> chunk list" where
  "post_process_chunks max_merge cs = reindex (merge_chunks max_merge cs)"

section \<open>Sentences\<close>

text \<open>
  \<open>re.split(r"(?<=[.!?])\s+(?=[A-Z])", ..)\<close>: white space between a sentence end and an upper
  case letter. \<open>prev\<close> is the character before.
\<close>

definition sentence_end :: "nat option \<Rightarrow> bool" where
  "sentence_end prev \<longleftrightarrow> prev = Some 46 \<or> prev = Some 33 \<or> prev = Some 63"

definition upper_next :: "pystr \<Rightarrow> bool" where
  "upper_next s \<longleftrightarrow> (case s of [] \<Rightarrow> False | c # _ \<Rightarrow> 65 \<le> c \<and> c \<le> 90)"

function split_at_ends :: "nat option \<Rightarrow> pystr \<Rightarrow> pystr list" where
  "split_at_ends prev [] = [[]]"
| "split_at_ends prev (c # cs) =
     (if sentence_end prev \<and> py_isspace c \<and> upper_next (dropWhile py_isspace cs)
      then [] # split_at_ends None (dropWhile py_isspace cs)
      else (c # hd (split_at_ends (Some c) cs)) # tl (split_at_ends (Some c) cs))"
  by pat_completeness auto
termination
  by (relation "measure (length \<circ> snd)") (auto simp: length_dropWhile_le le_imp_less_Suc)

definition split_into_sentences :: "pystr \<Rightarrow> pystr list" where
  "split_into_sentences text =
     filter (\<lambda>s. s \<noteq> []) (map py_strip (split_at_ends None (py_strip text)))"

text \<open>Grouping at the breakpoints; the length counted is that of the sentences alone.\<close>

fun group_sentences ::
  "nat \<Rightarrow> nat list \<Rightarrow> nat \<Rightarrow> pystr list \<Rightarrow> pystr list \<Rightarrow> pystr list" where
  "group_sentences max_size bps i current [] =
     (if current = [] then [] else [py_join [32] current])"
| "group_sentences max_size bps i current (s # ss) =
     (let n = sum_list (map length current)
      in if (0 < i \<and> i - 1 \<in> set bps \<or> 0 < n \<and> max_size < n + length s) \<and> current \<noteq> []
         then py_join [32] current # group_sentences max_size bps (Suc i) [s] ss
         else group_sentences max_size bps (Suc i) (current @ [s]) ss)"

definition merge_step :: "nat \<Rightarrow> nat \<Rightarrow> pystr list \<Rightarrow> pystr \<Rightarrow> pystr list" where
  "merge_step min_size max_merge merged text =
     (if merged \<noteq> [] \<and> (length (last merged) < min_size \<or> length text < min_size)
         \<and> length (last merged @ [32] @ text) \<le> max_merge
      then butlast merged @ [last merged @ [32] @ text]
      else merged @ [text])"

definition merge_fragments :: "nat \<Rightarrow> nat \<Rightarrow> pystr list \<Rightarrow> pystr list" where
  "merge_fragments min_size max_merge texts = foldl (merge_step min_size max_merge) [] texts"

text \<open>
  The text embedded for each sentence, and the metadata of a chunk. The embedding service and
  the reading of breakpoints from the embeddings (floating point) are parameters. A text of at
  most one sentence, and a failure of the service, go to the other chunker (\<open>None\<close>).
\<close>

definition sentence_windows :: "nat \<Rightarrow> pystr list \<Rightarrow> pystr list" where
  "sentence_windows w ss =
     map (\<lambda>i. py_join [32] (drop (Suc i - w) (take (min (length ss) (i + w)) ss)))
       [0..<length ss]"

definition semantic_metadata :: "string option \<Rightarrow> nat \<Rightarrow> nat \<Rightarrow> metadata" where
  "semantic_metadata title i n =
     [''section_title'' \<mapsto> (case title of None \<Rightarrow> MNone | Some s \<Rightarrow> MText s),
      ''chunk_index'' \<mapsto> MNum i, ''total_chunks'' \<mapsto> MNum n,
      ''element_type'' \<mapsto> MText ''SemanticChunk'']"

record chunker =
  min_chunk_size :: nat
  max_chunk_size :: nat
  window_size :: nat
  max_merge_chars :: nat

definition embedding_chunk_text ::
  "chunker \<Rightarrow> (pystr list \<Rightarrow> 'v list option) \<Rightarrow> ('v list \<Rightarrow> nat list) \<Rightarrow> string option \<Rightarrow> pystr
     \<Rightarrow> chunk list option" where
  "embedding_chunk_text k embed_batch breakpoints title text =
     (let sentences = split_into_sentences text
      in if length sentences \<le> 1 then None
         else case embed_batch (sentence_windows (window_size k) sentences) of
           None \<Rightarrow> None
         | Some vs \<Rightarrow>
             let texts = merge_fragments (min_chunk_size k) (max_merge_chars k)
                           (group_sentences (max_chunk_size k) (breakpoints vs) 0 [] sentences)
             in Some (map (\<lambda>(i, t).
                  processed_chunk t (semantic_metadata title i (length texts)) i [])
                  (enumerate 0 texts)))"

section \<open>Parent windows\<close>

definition find_from :: "pystr \<Rightarrow> pystr \<Rightarrow> nat \<Rightarrow> nat option" where
  "find_from p s k = map_option ((+) k) (find_sub p (drop k s))"

text \<open>\<open>chunk.raw_text or chunk.text or ""\<close>, stripped.\<close>

definition search_text :: "chunk \<Rightarrow> pystr" where
  "search_text c = py_strip (case ck_raw c of None \<Rightarrow> ck_text c | Some r \<Rightarrow> if r = [] then ck_text c else r)"

definition locate :: "pystr \<Rightarrow> pystr \<Rightarrow> nat \<Rightarrow> nat option" where
  "locate p source cursor =
     (case find_from p source cursor of
        Some i \<Rightarrow> Some i
      | None \<Rightarrow> if 0 < cursor then find_from p source 0 else None)"

definition parent_window :: "int \<Rightarrow> int \<Rightarrow> int \<Rightarrow> int \<Rightarrow> int \<times> int" where
  "parent_window half doc_len idx chunk_end =
     (let mid = (idx + chunk_end) div 2;
          s = max 0 (mid - half);
          e = min doc_len (mid + half)
      in (if idx < s then max 0 (idx - 100) else s,
          if chunk_end > e then min doc_len (chunk_end + 100) else e))"

definition window_step :: "int \<Rightarrow> pystr \<Rightarrow> nat \<Rightarrow> chunk \<Rightarrow> nat \<Rightarrow> chunk \<times> nat" where
  "window_step half source position c cursor =
     (let c1 = c\<lparr>ck_position := Some position\<rparr>; p = search_text c
      in if p = [] then (c1, cursor)
         else case locate p source cursor of
           None \<Rightarrow> (c1, cursor)
         | Some i \<Rightarrow>
             (case parent_window half (int (length source)) (int i) (int (i + length p)) of
                (s, e) \<Rightarrow> (c1\<lparr>ck_window_start := Some s, ck_window_end := Some e\<rparr>, i + length p)))"

fun window_loop :: "int \<Rightarrow> pystr \<Rightarrow> nat \<Rightarrow> nat \<Rightarrow> chunk list \<Rightarrow> chunk list" where
  "window_loop half source position cursor [] = []"
| "window_loop half source position cursor (c # cs) =
     (case window_step half source position c cursor of
        (d, cursor') \<Rightarrow> d # window_loop half source (Suc position) cursor' cs)"

definition compute_parent_windows :: "chunk list \<Rightarrow> pystr \<Rightarrow> int \<Rightarrow> chunk list" where
  "compute_parent_windows chunks source window_chars =
     (if chunks = [] \<or> source = [] then chunks
      else window_loop (window_chars div 2) source 0 0 chunks)"

section \<open>What merging keeps\<close>

definition open_chunk :: "pystr \<Rightarrow> bool" where
  "open_chunk text \<longleftrightarrow> in_code_block text \<or> in_table text"

definition pending_list :: "chunk list \<times> chunk option \<Rightarrow> chunk list" where
  "pending_list acc = fst acc @ (case snd acc of None \<Rightarrow> [] | Some p \<Rightarrow> [p])"

text \<open>
  An open chunk is handed on only when its neighbour does not fit. \<open>sealed\<close> is what holds
  between two turns: this of every two neighbours, and a finished list does not end in an open
  chunk.
\<close>

definition overflows :: "nat \<Rightarrow> pystr \<Rightarrow> pystr \<Rightarrow> bool" where
  "overflows m s t \<longleftrightarrow> (open_chunk s \<longrightarrow> m < length s + 1 + length t)"

definition sealed :: "nat \<Rightarrow> chunk list \<times> chunk option \<Rightarrow> bool" where
  "sealed m acc \<longleftrightarrow>
     successively (overflows m) (map ck_text (pending_list acc))
     \<and> (snd acc = None \<longrightarrow> fst acc \<noteq> [] \<longrightarrow> \<not> open_chunk (ck_text (last (fst acc))))"

lemma post_step_cases:
  obtains
    (merge) ms p q where "acc = (ms, Some p)" "merge_pending m p c = Some q"
      "post_step m acc c = (if open_chunk (ck_text q) then (ms, Some q) else (ms @ [q], None))"
  | (overflow) ms p q where "acc = (ms, Some p)" "merge_pending m p c = None"
      "post_step m acc c = (if open_chunk (ck_text c) then (ms @ [p], Some q) else (ms @ [p, c], None))"
      "ck_text q = ck_text c"
  | (plain) ms q where "acc = (ms, None)"
      "post_step m acc c = (if open_chunk (ck_text c) then (ms, Some q) else (ms @ [c], None))"
      "ck_text q = ck_text c"
proof -
  obtain ms o' where acc: "acc = (ms, o')" by (cases acc)
  show thesis
  proof (cases o')
    case None
    show thesis
      by (rule plain [of ms "processed_chunk (ck_text c) (ck_metadata c) (ck_index c) (chunk_origin c)"])
        (simp_all add: acc None post_step_def open_chunk_def processed_chunk_def)
  next
    case (Some p)
    show thesis
    proof (cases "merge_pending m p c")
      case None
      show thesis
        by (rule overflow [of ms p "processed_chunk (ck_text c) (ck_metadata c) (ck_index c) (chunk_origin c)"])
          (simp_all add: acc Some None post_step_def open_chunk_def processed_chunk_def)
    next
      case (Some q)
      with \<open>o' = Some p\<close> show thesis
        by (intro merge [of ms p q]) (simp_all add: acc post_step_def open_chunk_def)
    qed
  qed
qed

lemma merge_pending_SomeD:
  "merge_pending m p c = Some q \<Longrightarrow>
     ck_text q = ck_text p @ [10] @ ck_text c \<and> length (ck_text q) \<le> m"
  by (auto simp: merge_pending_def Let_def processed_chunk_def split: if_splits)

lemma merge_pending_NoneD:
  "merge_pending m p c = None \<Longrightarrow> m < length (ck_text p) + 1 + length (ck_text c)"
  by (auto simp: merge_pending_def Let_def split: if_splits)

lemma py_join_merge_last:
  "py_join sep (xs @ [a @ sep @ b]) = py_join sep (xs @ [a, b])"
  by (cases "xs = []") (simp_all add: py_join_append)

lemma post_step_text:
  "py_join [10] (map ck_text (pending_list (post_step m acc c)))
     = py_join [10] (map ck_text (pending_list acc) @ [ck_text c])"
proof (cases rule: post_step_cases [of acc m c])
  case (merge ms p q)
  then show ?thesis
    using py_join_merge_last [of "[10]" "map ck_text ms" "ck_text p" "ck_text c"]
    by (auto simp: pending_list_def dest!: merge_pending_SomeD)
qed (auto simp: pending_list_def)

lemma post_step_nonempty: "pending_list (post_step m acc c) \<noteq> []"
  by (cases rule: post_step_cases [of acc m c]) (auto simp: pending_list_def)

lemma post_step_sources:
  assumes "ck_text ` set (pending_list acc) \<subseteq> {t. length t \<le> m} \<union> T"
  shows "ck_text ` set (pending_list (post_step m acc c))
           \<subseteq> {t. length t \<le> m} \<union> insert (ck_text c) T"
  by (cases rule: post_step_cases [of acc m c])
    (use assms in \<open>auto simp: pending_list_def dest!: merge_pending_SomeD split: if_splits\<close>)

lemma successively_snoc:
  "successively P (xs @ [x]) \<longleftrightarrow> successively P xs \<and> (xs = [] \<or> P (last xs) x)"
  by (auto simp: successively_append_iff)

lemma overflows_mono: "overflows m s t \<Longrightarrow> length t \<le> length u \<Longrightarrow> overflows m s u"
  by (auto simp: overflows_def)

lemma post_step_sealed:
  assumes s: "sealed m acc"
  shows "sealed m (post_step m acc c)"
proof (cases rule: post_step_cases [of acc m c])
  case (merge ms p q)
  have q: "ck_text q = ck_text p @ [10] @ ck_text c" using merge by (blast dest: merge_pending_SomeD)
  have "successively (overflows m) (map ck_text ms @ [ck_text q])"
    using s merge(1) q overflows_mono [of m _ "ck_text p" "ck_text q"]
    by (auto simp: sealed_def pending_list_def successively_snoc)
  then show ?thesis using merge(3) by (auto simp: sealed_def pending_list_def)
next
  case (overflow ms p q)
  have "overflows m (ck_text p) (ck_text c)"
    using merge_pending_NoneD [OF overflow(2)] by (simp add: overflows_def)
  then have "successively (overflows m) ((map ck_text ms @ [ck_text p]) @ [ck_text c])"
    using s overflow(1) by (subst successively_snoc) (auto simp: sealed_def pending_list_def)
  then show ?thesis using overflow(3,4) by (auto simp: sealed_def pending_list_def)
next
  case (plain ms q)
  have "ms = [] \<or> overflows m (last (map ck_text ms)) (ck_text c)"
    using s plain(1) by (cases "ms = []") (simp_all add: sealed_def overflows_def last_map)
  then have "successively (overflows m) (map ck_text ms @ [ck_text c])"
    using s plain(1) by (subst successively_snoc) (auto simp: sealed_def pending_list_def)
  then show ?thesis using plain(2,3) by (auto simp: sealed_def pending_list_def)
qed

lemma merge_chunks_pending: "merge_chunks m cs = pending_list (foldl (post_step m) ([], None) cs)"
  by (simp add: merge_chunks_def pending_list_def split: prod.splits option.splits)

lemma post_fold:
  "(pending_list (foldl (post_step m) ([], None) cs) = [] \<longleftrightarrow> cs = [])
   \<and> py_join [10] (map ck_text (pending_list (foldl (post_step m) ([], None) cs)))
       = py_join [10] (map ck_text cs)
   \<and> ck_text ` set (pending_list (foldl (post_step m) ([], None) cs))
       \<subseteq> {t. length t \<le> m} \<union> ck_text ` set cs
   \<and> sealed m (foldl (post_step m) ([], None) cs)"
proof (induction cs rule: rev_induct)
  case Nil
  show ?case by (simp add: pending_list_def sealed_def)
next
  case (snoc c cs)
  let ?acc = "foldl (post_step m) ([], None) cs"
  have "py_join [10] (map ck_text (pending_list ?acc) @ [ck_text c])
      = py_join [10] (map ck_text cs @ [ck_text c])"
    using snoc.IH by (cases "cs = []") (simp_all add: py_join_append)
  with snoc.IH show ?case
    using post_step_text [of m ?acc c] post_step_sealed [of m ?acc c]
      post_step_sources [of ?acc m "ck_text ` set cs" c] post_step_nonempty [of m ?acc c] by simp
qed

lemma texts_reindex [simp]: "map ck_text (reindex cs) = map ck_text cs"
  by (rule nth_equalityI) (simp_all add: reindex_def nth_enumerate_eq)

lemma index_reindex [simp]: "map ck_index (reindex cs) = [0..<length cs]"
  by (rule nth_equalityI) (simp_all add: reindex_def nth_enumerate_eq)

lemma length_reindex [simp]: "length (reindex cs) = length cs"
  by (simp add: reindex_def)

lemma post_process_texts:
  "map ck_text (post_process_chunks m cs)
     = map ck_text (pending_list (foldl (post_step m) ([], None) cs))"
  by (simp add: post_process_chunks_def merge_chunks_pending)

text \<open>
  C33 Merging the chunks that were cut inside code or tables deletes nothing: joined by line
  ends, the chunks after it read as the chunks before it, in the same order and numbered from
  0. A merged chunk has at most \<open>max_merge_chars\<close> characters, and a chunk that ends inside
  code or a table is left so only where it is the last or joining its neighbour would exceed
  the limit.
\<close>

theorem merging_keeps_text:
  "py_join [10] (map ck_text (post_process_chunks m cs)) = py_join [10] (map ck_text cs)
   \<and> map ck_index (post_process_chunks m cs) = [0..<length (post_process_chunks m cs)]
   \<and> ck_text ` set (post_process_chunks m cs) \<subseteq> {t. length t \<le> m} \<union> ck_text ` set cs
   \<and> successively (overflows m) (map ck_text (post_process_chunks m cs))"
proof -
  have "ck_text ` set (post_process_chunks m cs) = set (map ck_text (post_process_chunks m cs))"
    by simp
  moreover have "map ck_index (post_process_chunks m cs) = [0..<length (post_process_chunks m cs)]"
    by (simp add: post_process_chunks_def)
  ultimately show ?thesis using post_fold [of m cs]
    by (simp add: post_process_texts sealed_def del: set_map) simp
qed

text \<open>
  When the neighbour does not fit, the count of fences starts again at 0 in the next chunk: the
  chunk that closes the block is taken to open one, and the prose after it is joined to it.
\<close>

lemma fence_parity_restarts:
  "map ck_text (post_process_chunks 8
     (map (\<lambda>t. processed_chunk t Map.empty 0 [])
       [code_fence @ [97, 97, 97, 97], [98, 98, 98, 98], code_fence, [112]]))
   = [code_fence @ [97, 97, 97, 97], [98, 98, 98, 98], code_fence @ [10, 112]]"
  by code_simp

section \<open>What the grouping of sentences keeps\<close>

definition squash :: "pystr \<Rightarrow> pystr" where
  "squash s = filter (\<lambda>c. \<not> py_isspace c) s"

lemma squash_append [simp]: "squash (s @ t) = squash s @ squash t"
  by (simp add: squash_def)

lemma squash_Nil [simp]: "squash [] = []"
  by (simp add: squash_def)

lemma squash_blank [simp]: "squash (32 # s) = squash s"
  by (simp add: squash_def py_isspace_def)

lemma squash_Cons: "squash (c # s) = (if py_isspace c then squash s else c # squash s)"
  by (simp add: squash_def)

lemma squash_rev: "squash (rev s) = rev (squash s)"
  by (simp add: squash_def rev_filter)

lemma squash_dropWhile [simp]: "squash (dropWhile py_isspace s) = squash s"
  by (induction s) (simp_all add: squash_def)

lemma squash_strip [simp]: "squash (py_strip s) = squash s"
  by (simp add: py_strip_def squash_rev)

lemma squash_join: "squash (py_join [32] xs) = concat (map squash xs)"
  by (induction "[32::nat]" xs rule: py_join.induct) simp_all

lemma split_at_ends_nonempty [simp]: "split_at_ends prev s \<noteq> []"
  by (cases s) auto

lemma split_at_ends_squash: "concat (map squash (split_at_ends prev s)) = squash s"
proof (induction prev s rule: split_at_ends.induct)
  case (2 prev c cs)
  show ?case
  proof (cases "sentence_end prev \<and> py_isspace c \<and> upper_next (dropWhile py_isspace cs)")
    case True
    with 2 show ?thesis by (simp add: squash_Cons)
  next
    case False
    obtain y ys where y: "split_at_ends (Some c) cs = y # ys"
      by (cases "split_at_ends (Some c) cs") auto
    have "squash y @ concat (map squash ys) = squash cs" using 2(2) [OF False] y by simp
    moreover have "split_at_ends prev (c # cs) = (c # y) # ys"
      by (simp only: split_at_ends.simps if_not_P [OF False] y list.sel)
    ultimately show ?thesis by (simp add: squash_Cons)
  qed
qed simp

lemma concat_squash_filter: "concat (map squash (filter (\<lambda>s. s \<noteq> []) xs)) = concat (map squash xs)"
  by (induction xs) auto

lemma sentences_squash: "concat (map squash (split_into_sentences text)) = squash text"
proof -
  have "map squash (map py_strip xs) = map squash xs" for xs by simp
  then show ?thesis
    by (simp only: split_into_sentences_def concat_squash_filter split_at_ends_squash squash_strip)
qed

lemma group_sentences_squash:
  "concat (map squash (group_sentences m bps i current ss))
     = concat (map squash current) @ concat (map squash ss)"
  by (induction m bps i current ss rule: group_sentences.induct) (simp_all add: squash_join Let_def)

lemma group_sentences_nonempty: "current \<noteq> [] \<or> ss \<noteq> [] \<Longrightarrow> group_sentences m bps i current ss \<noteq> []"
  by (induction m bps i current ss rule: group_sentences.induct) (simp_all add: Let_def)

lemma merge_step_squash:
  "concat (map squash (merge_step mn mx merged t)) = concat (map squash merged) @ squash t"
  by (cases merged rule: rev_cases) (simp_all add: merge_step_def)

lemma merge_step_nonempty: "merge_step mn mx merged t \<noteq> []"
  by (simp add: merge_step_def)

lemma merge_fragments_squash:
  "concat (map squash (merge_fragments mn mx ts)) = concat (map squash ts)"
  unfolding merge_fragments_def
  by (induction ts rule: rev_induct) (simp_all add: merge_step_squash)

lemma merge_fragments_nonempty: "ts \<noteq> [] \<Longrightarrow> merge_fragments mn mx ts \<noteq> []"
  by (cases ts rule: rev_cases) (simp_all add: merge_fragments_def merge_step_nonempty)

text \<open>
  Semantic chunking regroups the text and deletes none of it: whatever the embeddings
  and the breakpoints are, the chunks read, up to white space, as the text; there is at least
  one, and they are numbered from 0.
\<close>

theorem semantic_chunking_keeps_text:
  assumes "embedding_chunk_text k embed_batch breakpoints title text = Some cs"
  shows "concat (map (squash \<circ> ck_text) cs) = squash text
    \<and> cs \<noteq> [] \<and> map ck_index cs = [0..<length cs]"
proof -
  let ?ss = "split_into_sentences text"
  obtain vs where l: "\<not> length ?ss \<le> 1"
    and cs: "cs = map (\<lambda>(i, t). processed_chunk t (semantic_metadata title i (length (merge_fragments
        (min_chunk_size k) (max_merge_chars k)
        (group_sentences (max_chunk_size k) (breakpoints vs) 0 [] ?ss)))) i [])
      (enumerate 0 (merge_fragments (min_chunk_size k) (max_merge_chars k)
        (group_sentences (max_chunk_size k) (breakpoints vs) 0 [] ?ss)))"
    using assms by (auto simp: embedding_chunk_text_def Let_def split: if_splits option.splits)
  let ?ts = "merge_fragments (min_chunk_size k) (max_merge_chars k)
    (group_sentences (max_chunk_size k) (breakpoints vs) 0 [] ?ss)"
  have "map ck_text cs = ?ts" and "map ck_index cs = [0..<length cs]"
    by (rule nth_equalityI; simp add: cs nth_enumerate_eq processed_chunk_def)+
  moreover have "?ts \<noteq> []" using l by (intro merge_fragments_nonempty group_sentences_nonempty) auto
  moreover have "concat (map squash ?ts) = squash text"
    by (simp add: merge_fragments_squash group_sentences_squash sentences_squash)
  ultimately show ?thesis by (metis list.map_comp map_is_Nil_conv)
qed

section \<open>What a parent window contains\<close>

definition window_of :: "chunk \<Rightarrow> int option \<times> int option" where
  "window_of c = (ck_window_start c, ck_window_end c)"

definition covers :: "pystr \<Rightarrow> pystr \<Rightarrow> int option \<times> int option \<Rightarrow> bool" where
  "covers source p w \<longleftrightarrow>
     (\<exists>i s e. w = (Some s, Some e) \<and> take (length p) (drop i source) = p
        \<and> 0 \<le> s \<and> s \<le> int i \<and> int (i + length p) \<le> e \<and> e \<le> int (length source))"

lemma parent_window_covers:
  assumes "parent_window half (int n) (int i) (int e) = (a, b)" "i \<le> e" "e \<le> n"
  shows "0 \<le> a \<and> a \<le> int i \<and> int e \<le> b \<and> b \<le> int n"
  using assms by (auto simp: parent_window_def Let_def split: if_splits)

lemma find_from_SomeD:
  "find_from p s k = Some i \<Longrightarrow> take (length p) (drop i s) = p"
  by (auto simp: find_from_def add.commute dest: find_sub_SomeD)

lemma locate_SomeD: "locate p s k = Some i \<Longrightarrow> take (length p) (drop i s) = p"
  by (auto simp: locate_def dest: find_from_SomeD split: option.splits if_splits)

lemma occurrence_bound: "take (length p) (drop i s) = p \<Longrightarrow> p \<noteq> [] \<Longrightarrow> i + length p \<le> length s"
proof -
  assume t: "take (length p) (drop i s) = p" and n: "p \<noteq> []"
  have "min (length s - i) (length p) = length p" using arg_cong [OF t, of length] by simp
  moreover have "0 < length p" using n by simp
  ultimately show ?thesis by linarith
qed

lemma search_text_update [simp]: "search_text (c\<lparr>ck_position := x\<rparr>) = search_text c"
  by (cases "ck_raw c") (simp_all add: search_text_def)

lemma window_step_cases:
  "fst (window_step half source position c k) = c\<lparr>ck_position := Some position\<rparr>
   \<or> covers source (search_text c) (window_of (fst (window_step half source position c k)))
     \<and> fst (window_step half source position c k)
         = c\<lparr>ck_position := Some position,
             ck_window_start := ck_window_start (fst (window_step half source position c k)),
             ck_window_end := ck_window_end (fst (window_step half source position c k))\<rparr>"
proof (cases "search_text c = [] \<or> locate (search_text c) source k = None")
  case True
  then show ?thesis by (auto simp: window_step_def Let_def)
next
  case False
  then obtain i where i: "locate (search_text c) source k = Some i" and n: "search_text c \<noteq> []" by auto
  obtain s e where w: "parent_window half (int (length source)) (int i)
      (int (i + length (search_text c))) = (s, e)" by (metis surj_pair)
  note t = locate_SomeD [OF i]
  have "covers source (search_text c) (Some s, Some e)"
    using parent_window_covers [OF w] occurrence_bound [OF t n] t unfolding covers_def by auto
  then show ?thesis using i n w by (simp add: window_step_def Let_def window_of_def)
qed

lemma window_loop_steps:
  "length (window_loop half source pos k cs) = length cs
   \<and> list_all2 (\<lambda>c d. ck_text d = ck_text c \<and>
        (window_of d = window_of c \<or> covers source (search_text c) (window_of d)))
       cs (window_loop half source pos k cs)
   \<and> map ck_position (window_loop half source pos k cs) = map Some [pos..<pos + length cs]"
proof (induction cs arbitrary: pos k)
  case (Cons c cs)
  obtain d k' where d: "window_step half source pos c k = (d, k')" by (metis surj_pair)
  have "d = c\<lparr>ck_position := Some pos\<rparr> \<or> covers source (search_text c) (window_of d)
     \<and> d = c\<lparr>ck_position := Some pos, ck_window_start := ck_window_start d, ck_window_end := ck_window_end d\<rparr>"
    using window_step_cases [of half source pos c k] by (simp add: d)
  then have "ck_text d = ck_text c \<and> ck_position d = Some pos \<and>
      (window_of d = window_of c \<or> covers source (search_text c) (window_of d))"
    by (metis (no_types, lifting) chunk.select_convs chunk.surjective chunk.update_convs window_of_def)
  with Cons.IH [of "Suc pos" k'] show ?case by (simp add: d upt_conv_Cons del: upt_Suc)
qed simp

text \<open>
  Parent windows, whatever the requested width: the chunks keep their texts and get
  consecutive positions, and where a chunk gets a window, the window lies inside the source and
  contains a whole occurrence of the chunk's text. A chunk that is not found keeps the window
  it had.
\<close>

theorem parent_window_contains_chunk:
  "list_all2 (\<lambda>c d. ck_text d = ck_text c \<and>
        (window_of d = window_of c \<or> covers source (search_text c) (window_of d)))
      cs (compute_parent_windows cs source w)
   \<and> map ck_position (compute_parent_windows cs source w)
       = (if source = [] then map ck_position cs else map Some [0..<length cs])"
proof (cases "cs = [] \<or> source = []")
  case True
  then show ?thesis by (auto simp: compute_parent_windows_def list_all2_same)
next
  case False
  with window_loop_steps [of "w div 2" source 0 0 cs] show ?thesis
    by (simp add: compute_parent_windows_def)
qed

section \<open>Example\<close>

definition sample_chunker :: chunker where
  "sample_chunker = \<lparr>min_chunk_size = 2, max_chunk_size = 4, window_size = 2, max_merge_chars = 8\<rparr>"

text \<open>\<open>Ab. C! D\<close>\<close>

definition sample_text :: pystr where
  "sample_text = [65, 98, 46, 32, 67, 33, 32, 32, 68]"

lemma sample_sentences [simp]: "split_into_sentences sample_text = [[65, 98, 46], [67, 33], [68]]"
  by (simp add: split_into_sentences_def sample_text_def py_strip_def py_isspace_def
      sentence_end_def upper_next_def)

lemma sample_chunks:
  "embedding_chunk_text sample_chunker (Some :: pystr list \<Rightarrow> pystr list option) (\<lambda>_. [0]) None sample_text
     = Some [processed_chunk [65, 98, 46] (semantic_metadata None 0 2) 0 [],
             processed_chunk [67, 33, 32, 68] (semantic_metadata None 1 2) 1 []]"
  by (simp add: embedding_chunk_text_def sample_chunker_def merge_fragments_def merge_step_def
      eval_nat_numeral)

theorem semantic_chunking_keeps_text_witness:
  "concat (map (squash \<circ> ck_text)
     [processed_chunk [65, 98, 46] (semantic_metadata None 0 2) 0 [],
      processed_chunk [67, 33, 32, 68] (semantic_metadata None 1 2) 1 []]) = squash sample_text"
  using semantic_chunking_keeps_text [OF sample_chunks] by blast

end
