(* ===== verification/User_Accounts.thy ===== *)
theory User_Accounts
  imports Vault_Membership
begin

text \<open>
  Accounts, refresh sessions and access tokens:
  \<^verbatim>\<open>backend/app/api/routes/auth.py\<close>, the account routes of \<^verbatim>\<open>api/routes/users.py\<close>, the token
  functions of \<^verbatim>\<open>services/auth_service.py\<close>, \<open>_resolve_active_user\<close> of
  \<^verbatim>\<open>api/deps.py\<close> and \<^verbatim>\<open>security/recovery_routes.py\<close>. Times are microseconds. A handler
  that reads a row and writes later takes the row as an argument, so that other requests can
  run in between. Password hashing, digests and the decoding of JWTs are parameters.
\<close>

section \<open>Tables\<close>

record user_row =
  us_id :: nat
  us_name :: pystr
  us_password :: string
  us_full_name :: pystr
  us_role :: string
  us_active :: bool
  us_must_change :: bool
  us_failed :: nat
  us_locked :: "int option"
  us_pwd_changed :: int

record session_row =
  ss_id :: nat
  ss_user :: nat
  ss_hash :: string
  ss_expires :: int

text \<open>A denied access token; its expiry in seconds.\<close>

record denied_row =
  dn_jti :: string
  dn_user :: int
  dn_expires :: int

text \<open>What \<open>_resolve_active_user\<close> returns, and caches in its process for a while.\<close>

record user_view =
  vw_id :: nat
  vw_name :: pystr
  vw_full_name :: pystr
  vw_role :: string
  vw_active :: bool
  vw_must_change :: bool
  vw_pwd_changed :: int

text \<open>
  \<open>access\<close> holds the tables of the vault permissions; its \<open>users\<close> column repeats id and
  \<open>is_active\<close>. \<open>default_vault\<close> is the vault named Default. The audit log keeps event and
  user. The tables are shared by all server processes; every process has its own cache of
  active users, and \<open>here\<close> is the process that works on the request at hand.
\<close>

record accounts =
  user_rows :: "user_row list"
  session_rows :: "session_row list"
  denied_rows :: "denied_row list"
  active_users :: "nat \<Rightarrow> nat \<rightharpoonup> user_view \<times> int"
  here :: nat
  audit_log :: "(string \<times> nat option) list"
  next_user :: nat
  next_session :: nat
  next_vault :: nat
  default_vault :: "nat option"
  access :: authz_db

record claims =
  cl_type :: string
  cl_jti :: "string option"
  cl_sub :: "int option"
  cl_iat :: int
  cl_exp :: int
  cl_fpt :: "string option"

datatype token_error = TokenExpired | TokenInvalid

text \<open>
  Settings and foreign functions: passlib's verification, whether a stored hash wants an
  upgrade, \<open>str.isdigit\<close> and \<open>str.isupper\<close> of a character, SHA-256, PyJWT's decoding of a
  token at a time, and the comparison of a token with the configured admin secret.
\<close>

record 'tok env =
  env_users_enabled :: bool
  env_verify :: "pystr \<Rightarrow> string \<Rightarrow> bool"
  env_rehash :: "string \<Rightarrow> bool"
  env_isdigit :: "nat \<Rightarrow> bool"
  env_isupper :: "nat \<Rightarrow> bool"
  env_sha :: "string \<Rightarrow> string"
  env_decode :: "int \<Rightarrow> 'tok \<Rightarrow> token_error + claims"
  env_admin_secret :: "'tok \<Rightarrow> bool"
  env_cache_ttl :: int

section \<open>Roles and passwords\<close>

definition valid_roles :: "string list" where
  "valid_roles = [''superadmin'', ''admin'', ''member'', ''viewer'']"

definition assert_can_assign_role :: "string \<Rightarrow> string option \<Rightarrow> string \<Rightarrow> http_error option" where
  "assert_can_assign_role actor_role target_role new_role =
     (if new_role \<notin> set valid_roles then Some (Http 400)
      else if actor_role = ''superadmin'' then None
      else case target_role of
        Some r \<Rightarrow> if new_role = r then None else Some (Http 403)
      | None \<Rightarrow> if new_role \<notin> {''member'', ''viewer''} then Some (Http 403) else None)"

definition assert_can_modify_target :: "string \<Rightarrow> string \<Rightarrow> http_error option" where
  "assert_can_modify_target actor_role target_role =
     (if target_role = ''superadmin'' \<and> actor_role \<noteq> ''superadmin'' then Some (Http 403) else None)"

definition password_strength_check :: "'tok env \<Rightarrow> pystr \<Rightarrow> bool" where
  "password_strength_check env pw \<longleftrightarrow>
     pw \<noteq> [] \<and> length pw \<le> 128 \<and> py_strip pw = pw \<and> 8 \<le> length pw
     \<and> list_ex (env_isdigit env) pw \<and> list_ex (env_isupper env) pw"

section \<open>Rows\<close>

definition find_user :: "accounts \<Rightarrow> nat \<Rightarrow> user_row option" where
  "find_user db i = find (\<lambda>r. us_id r = i) (user_rows db)"

definition find_name :: "accounts \<Rightarrow> pystr \<Rightarrow> user_row option" where
  "find_name db name = find (\<lambda>r. nocase (us_name r) = nocase name) (user_rows db)"

definition set_user :: "nat \<Rightarrow> (user_row \<Rightarrow> user_row) \<Rightarrow> accounts \<Rightarrow> accounts" where
  "set_user i f db = db\<lparr>user_rows := update_rows (\<lambda>r. us_id r = i) f (user_rows db)\<rparr>"

definition record_event :: "string \<Rightarrow> nat option \<Rightarrow> accounts \<Rightarrow> accounts" where
  "record_event ev u db = db\<lparr>audit_log := audit_log db @ [(ev, u)]\<rparr>"

definition set_cache :: "nat \<Rightarrow> nat \<Rightarrow> (user_view \<times> int) option \<Rightarrow> accounts \<Rightarrow> accounts" where
  "set_cache p i x db = db\<lparr>active_users := (active_users db)(p := (active_users db p)(i := x))\<rparr>"

definition invalidate_active_user_cache :: "nat \<Rightarrow> accounts \<Rightarrow> accounts" where
  "invalidate_active_user_cache i db = set_cache (here db) i None db"

definition insert_session :: "nat \<Rightarrow> string \<Rightarrow> int \<Rightarrow> accounts \<Rightarrow> accounts" where
  "insert_session i h expires db = db\<lparr>
     session_rows := session_rows db @
       [\<lparr>ss_id = next_session db, ss_user = i, ss_hash = h, ss_expires = expires\<rparr>],
     next_session := Suc (next_session db)\<rparr>"

definition delete_sessions :: "(session_row \<Rightarrow> bool) \<Rightarrow> accounts \<Rightarrow> accounts" where
  "delete_sessions p db = db\<lparr>session_rows := filter (\<lambda>s. \<not> p s) (session_rows db)\<rparr>"

definition insert_user ::
  "pystr \<Rightarrow> string \<Rightarrow> pystr \<Rightarrow> string \<Rightarrow> bool \<Rightarrow> accounts \<Rightarrow> accounts" where
  "insert_user name password full_name role must_change db = db\<lparr>
     user_rows := user_rows db @
       [\<lparr>us_id = next_user db, us_name = name, us_password = password, us_full_name = full_name,
         us_role = role, us_active = True, us_must_change = must_change, us_failed = 0,
         us_locked = None, us_pwd_changed = 0\<rparr>],
     next_user := Suc (next_user db),
     access := (access db)\<lparr>users := users (access db) @ [(next_user db, True)]\<rparr>\<rparr>"

text \<open>The Default vault is made when it is missing; \<open>INSERT OR IGNORE\<close> of the membership.\<close>

definition ensure_default_vault :: "accounts \<Rightarrow> accounts" where
  "ensure_default_vault db =
     (case default_vault db of
        Some _ \<Rightarrow> db
      | None \<Rightarrow> db\<lparr>default_vault := Some (next_vault db), next_vault := Suc (next_vault db),
          access := (access db)\<lparr>vaults := vaults (access db) @
            [\<lparr>vlt_id = next_vault db, vlt_visibility = ''private'', vlt_org = None\<rparr>]\<rparr>\<rparr>)"

definition assign_user_to_default_vault :: "nat \<Rightarrow> accounts \<Rightarrow> accounts" where
  "assign_user_to_default_vault i db =
     (let db1 = ensure_default_vault db; v = the (default_vault db1)
      in if list_ex (member_at v i) (vault_members (access db1)) then db1
         else db1\<lparr>access := (access db1)\<lparr>vault_members := vault_members (access db1) @
           [\<lparr>vm_vault = v, vm_user = i, vm_permission = ''read'', vm_granted_by = None\<rparr>]\<rparr>\<rparr>)"

section \<open>Access tokens\<close>

definition seconds :: "int \<Rightarrow> int" where
  "seconds t = t div 1000000"

definition access_token_minutes :: int where
  "access_token_minutes = 15"

definition create_access_token :: "string \<Rightarrow> string option \<Rightarrow> int \<Rightarrow> nat \<Rightarrow> claims" where
  "create_access_token jti fpt now i =
     \<lparr>cl_type = ''access'', cl_jti = Some jti, cl_sub = Some (int i), cl_iat = seconds now,
      cl_exp = seconds (now + access_token_minutes * 60 * 1000000), cl_fpt = fpt\<rparr>"

definition refresh_expiry :: "int \<Rightarrow> int" where
  "refresh_expiry now = now + 30 * 24 * 3600 * 1000000"

definition deny_access_token :: "string \<Rightarrow> int \<Rightarrow> int \<Rightarrow> accounts \<Rightarrow> accounts" where
  "deny_access_token jti i expires db = db\<lparr>denied_rows :=
     filter (\<lambda>d. dn_jti d \<noteq> jti) (denied_rows db) @
       [\<lparr>dn_jti = jti, dn_user = i, dn_expires = expires\<rparr>]\<rparr>"

definition is_access_token_denied :: "string \<Rightarrow> accounts \<Rightarrow> bool" where
  "is_access_token_denied jti db \<longleftrightarrow> list_ex (\<lambda>d. dn_jti d = jti) (denied_rows db)"

definition purge_expired_denied_tokens :: "int \<Rightarrow> accounts \<Rightarrow> accounts" where
  "purge_expired_denied_tokens now db =
     db\<lparr>denied_rows := filter (\<lambda>d. \<not> dn_expires d < seconds now) (denied_rows db)\<rparr>"

section \<open>Who is asking\<close>

text \<open>\<open>path\<close> without trailing slashes, router-local spelling made absolute.\<close>

definition canonical_path :: "string \<Rightarrow> string" where
  "canonical_path path =
     (let p = rev (dropWhile (\<lambda>c. c = CHR ''/'') (rev path));
          q = (if p = [] then ''/'' else p)
      in if take 5 q \<noteq> ''/api/'' \<and> take 6 q = ''/auth/'' then ''/api'' @ q else q)"

definition recovery_exempt :: "string \<Rightarrow> string option" where
  "recovery_exempt path =
     map_of [(''/api/auth/change-password'', ''POST''), (''/api/auth/login'', ''POST''),
             (''/api/auth/me'', ''GET'')] path"

text \<open>The method is given in upper case.\<close>

definition is_recovery_exempt :: "string \<Rightarrow> string \<Rightarrow> bool" where
  "is_recovery_exempt http_method path \<longleftrightarrow> recovery_exempt (canonical_path path) = Some http_method"

definition user_view_of :: "user_row \<Rightarrow> user_view" where
  "user_view_of r = \<lparr>vw_id = us_id r, vw_name = us_name r, vw_full_name = us_full_name r,
     vw_role = us_role r, vw_active = us_active r, vw_must_change = us_must_change r,
     vw_pwd_changed = us_pwd_changed r\<rparr>"

definition cached_user :: "'tok env \<Rightarrow> nat \<Rightarrow> int \<Rightarrow> nat \<Rightarrow> accounts \<Rightarrow> user_view option" where
  "cached_user env p now i db =
     (if 0 < env_cache_ttl env
      then (case active_users db p i of Some (v, e) \<Rightarrow> if now < e then Some v else None | None \<Rightarrow> None)
      else None)"

text \<open>
  The entry that had expired when the cache was asked is gone; a view that was read from the
  database is written back, unless an entry has come in meanwhile.
\<close>

definition drop_expired :: "'tok env \<Rightarrow> int \<Rightarrow> nat \<Rightarrow> accounts \<Rightarrow> accounts" where
  "drop_expired env asked i db =
     (case active_users db (here db) i of
        Some (v, e) \<Rightarrow> if 0 < env_cache_ttl env \<and> e \<le> asked then set_cache (here db) i None db else db
      | None \<Rightarrow> db)"

definition write_back :: "'tok env \<Rightarrow> int \<Rightarrow> nat \<Rightarrow> user_view \<Rightarrow> accounts \<Rightarrow> accounts" where
  "write_back env now i v db =
     (if 0 < env_cache_ttl env \<and> active_users db (here db) i = None
      then set_cache (here db) i (Some (v, now + env_cache_ttl env)) db else db)"

text \<open>
  The cached view, or the row. The cache was asked at time \<open>asked\<close> in the state \<open>db0\<close>, where
  the row was read too; the rest runs at \<open>now\<close> in the present state.
\<close>

definition load_user ::
  "'tok env \<Rightarrow> int \<Rightarrow> accounts \<Rightarrow> int \<Rightarrow> nat \<Rightarrow> accounts \<Rightarrow> user_view option \<times> accounts" where
  "load_user env asked db0 now i db =
     (case cached_user env (here db) asked i db0 of
        Some v \<Rightarrow> (Some v, db)
      | None \<Rightarrow>
          let db1 = drop_expired env asked i db
          in (case find_user db0 i of
                None \<Rightarrow> (None, db1)
              | Some r \<Rightarrow> (Some (user_view_of r), write_back env now i (user_view_of r) db1)))"

text \<open>The checks on the claims before the user is read.\<close>

definition accept_claims :: "string \<Rightarrow> claims \<Rightarrow> accounts \<Rightarrow> nat option" where
  "accept_claims fingerprint c db =
     (if cl_type c \<noteq> ''access'' then None
      else if (case cl_jti c of None \<Rightarrow> False | Some j \<Rightarrow> j \<noteq> '''' \<and> is_access_token_denied j db) then None
      else if (case cl_fpt c of None \<Rightarrow> False | Some f \<Rightarrow> f \<noteq> fingerprint) then None
      else case cl_sub c of
        None \<Rightarrow> None
      | Some i \<Rightarrow> if i \<le> 0 then None else Some (nat i))"

text \<open>Without user accounts the admin secret is the only credential.\<close>

definition single_admin :: user_view where
  "single_admin = \<lparr>vw_id = 0, vw_name = lit ''admin'', vw_full_name = lit ''Admin'',
     vw_role = ''superadmin'', vw_active = True, vw_must_change = False, vw_pwd_changed = 0\<rparr>"

text \<open>
  The row a handler works with: the one in the database, or one read earlier, before other
  requests ran.
\<close>

definition read_row :: "'a option \<Rightarrow> 'a \<Rightarrow> 'a" where
  "read_row snap current = (case snap of None \<Rightarrow> current | Some r \<Rightarrow> r)"

text \<open>
  The token is checked, the cache asked and the row read at a time and in a state \<open>snap\<close>, which
  is the present one when nothing runs in between; the view is written back and checked now.
\<close>

definition resolve_active_user ::
  "'tok env \<Rightarrow> int \<Rightarrow> string \<Rightarrow> string \<Rightarrow> string \<Rightarrow> 'tok option \<Rightarrow> (int \<times> accounts) option \<Rightarrow> accounts
     \<Rightarrow> (http_error + user_view) \<times> accounts" where
  "resolve_active_user env now fingerprint http_method path token snap db =
     (let (asked, db0) = read_row snap (now, db)
      in case token of
        None \<Rightarrow> (Inl (Http 401), db)
      | Some t \<Rightarrow>
          if \<not> env_users_enabled env
          then (if env_admin_secret env t then Inr single_admin else Inl (Http 403), db)
          else (case env_decode env asked t of
             Inl _ \<Rightarrow> (Inl (Http 401), db)
           | Inr c \<Rightarrow>
               (case accept_claims fingerprint c db0 of
                  None \<Rightarrow> (Inl (Http 401), db)
                | Some i \<Rightarrow>
                    (case load_user env asked db0 now i db of
                       (None, db1) \<Rightarrow> (Inl (Http 401), db1)
                     | (Some v, db1) \<Rightarrow>
                         if \<not> vw_active v then (Inl (Http 401), db1)
                         else if vw_must_change v \<and> \<not> is_recovery_exempt http_method path
                           then (Inl (Http 403), db1)
                         else if 0 < vw_pwd_changed v \<and> cl_iat c < seconds (vw_pwd_changed v)
                           then (Inl (Http 401), invalidate_active_user_cache i db1)
                         else (Inr v, db1)))))"

section \<open>Registration and login\<close>

definition register ::
  "'tok env \<Rightarrow> int \<Rightarrow> pystr \<Rightarrow> pystr \<Rightarrow> pystr \<Rightarrow> string \<Rightarrow> string \<Rightarrow> accounts
     \<Rightarrow> (http_error + nat) \<times> accounts" where
  "register env now name password full_name hashed h db =
     (if 255 < length name \<or> 128 < length password \<or> 255 < length full_name then (Inl (Http 422), db)
      else if \<not> env_users_enabled env then (Inl (Http 403), db)
      else if name = [] \<or> length (py_strip name) < 3 then (Inl (Http 400), db)
      else if \<not> password_strength_check env password then (Inl (Http 400), db)
      else if find_name db name \<noteq> None then (Inl (Http 409), db)
      else let role = (if user_rows db = [] then ''superadmin'' else ''member'');
               i = next_user db
           in (Inr i, record_event ''user.register'' (Some i)
                (insert_session i h (refresh_expiry now)
                  (assign_user_to_default_vault i
                    (insert_user name hashed full_name role False db)))))"

definition max_failed_attempts :: nat where
  "max_failed_attempts = 5"

definition lockout_period :: int where
  "lockout_period = 15 * 60 * 1000000"

text \<open>\<open>_record_failed_attempt_db\<close>: 0 when the user is gone.\<close>

definition record_failed_attempt :: "int \<Rightarrow> nat \<Rightarrow> accounts \<Rightarrow> nat \<times> accounts" where
  "record_failed_attempt now i db =
     (case find_user db i of
        None \<Rightarrow> (0, db)
      | Some r \<Rightarrow>
          let fresh = us_failed r + 1
          in (fresh, set_user i (\<lambda>r. r\<lparr>us_failed := us_failed r + 1,
                us_locked := (if max_failed_attempts \<le> fresh then Some (now + lockout_period)
                              else us_locked r)\<rparr>) db))"

text \<open>\<open>_login_create_session\<close>: a user deleted meanwhile violates the foreign key.\<close>

definition login_create_session ::
  "int \<Rightarrow> nat \<Rightarrow> string \<Rightarrow> string option \<Rightarrow> accounts \<Rightarrow> accounts option" where
  "login_create_session now i h new_hash db =
     (if find_user db i = None then None
      else Some (set_user i (\<lambda>r. r\<lparr>us_failed := 0, us_locked := None,
              us_password := (case new_hash of None \<Rightarrow> us_password r | Some p \<Rightarrow> p)\<rparr>)
            (delete_sessions (\<lambda>s. ss_user s = i \<and> ss_expires s < now)
              (insert_session i h (refresh_expiry now) db))))"

text \<open>
  The rest of a login after its row has been read. \<open>rehashed\<close> is the new hash an outdated
  one is replaced by.
\<close>

definition login_respond ::
  "'tok env \<Rightarrow> int \<Rightarrow> user_row option \<Rightarrow> pystr \<Rightarrow> string \<Rightarrow> string \<Rightarrow> accounts
     \<Rightarrow> (http_error + nat) \<times> accounts" where
  "login_respond env now snap password rehashed h db =
     (case snap of
        None \<Rightarrow> (Inl (Http 401), record_event ''auth.login_failed'' None db)
      | Some r \<Rightarrow>
          if \<not> us_active r
          then (Inl (Http 403), record_event ''auth.login_failed'' (Some (us_id r)) db)
          else if (case us_locked r of None \<Rightarrow> False | Some l \<Rightarrow> now < l)
          then (Inl (Http 423), record_event ''auth.login_failed'' (Some (us_id r)) db)
          else if \<not> env_verify env password (us_password r)
          then (case record_failed_attempt now (us_id r) db of
                  (fresh, db1) \<Rightarrow>
                    (Inl (Http (if max_failed_attempts \<le> fresh then 423 else 401)),
                     record_event ''auth.login_failed'' (Some (us_id r)) db1))
          else (case login_create_session now (us_id r) h
                       (if env_rehash env (us_password r) then Some rehashed else None) db of
                  None \<Rightarrow> (Inl (Http 500), db)
                | Some db1 \<Rightarrow>
                    (Inr (us_id r), record_event ''auth.login_success'' (Some (us_id r)) db1)))"

definition login ::
  "'tok env \<Rightarrow> int \<Rightarrow> pystr \<Rightarrow> pystr \<Rightarrow> string \<Rightarrow> string \<Rightarrow> user_row option option \<Rightarrow> accounts
     \<Rightarrow> (http_error + nat) \<times> accounts" where
  "login env now name password rehashed h snap db =
     (if 255 < length name \<or> 128 < length password then (Inl (Http 422), db)
      else login_respond env now (read_row snap (find_name db name)) password rehashed h db)"

section \<open>Refresh and logout\<close>

definition find_session :: "accounts \<Rightarrow> string \<Rightarrow> (session_row \<times> user_row) option" where
  "find_session db h =
     (case find (\<lambda>s. ss_hash s = h) (session_rows db) of
        None \<Rightarrow> None
      | Some s \<Rightarrow> map_option (Pair s) (find_user db (ss_user s)))"

text \<open>
  What a rotation does when the session it read is gone, or the insertion fails: the family
  is deleted, and the deletion committed by the audit event. When the audit fails it is
  rolled back.
\<close>

definition revoke_family :: "bool \<Rightarrow> nat \<Rightarrow> accounts \<Rightarrow> accounts" where
  "revoke_family audit_ok i db =
     invalidate_active_user_cache i
       (if audit_ok
        then record_event ''auth.refresh_reuse_detected'' (Some i)
               (delete_sessions (\<lambda>s. ss_user s = i) db)
        else db)"

definition rotate_refresh_token ::
  "int \<Rightarrow> bool \<Rightarrow> nat \<Rightarrow> string \<Rightarrow> nat \<Rightarrow> string \<Rightarrow> accounts \<Rightarrow> (http_error + nat) \<times> accounts" where
  "rotate_refresh_token now audit_ok sid h i new_h db =
     (if \<not> list_ex (\<lambda>s. ss_id s = sid \<and> ss_hash s = h) (session_rows db)
          \<or> find_user db i = None
      then (Inl (Http 401), revoke_family audit_ok i db)
      else (Inr i, delete_sessions (\<lambda>s. ss_id s = sid)
                     (insert_session i new_h (refresh_expiry now) db)))"

definition refresh_respond ::
  "int \<Rightarrow> bool \<Rightarrow> (session_row \<times> user_row) option \<Rightarrow> string \<Rightarrow> accounts
     \<Rightarrow> (http_error + nat) \<times> accounts" where
  "refresh_respond now audit_ok snap new_h db =
     (case snap of
        None \<Rightarrow> (Inl (Http 401), db)
      | Some (s, r) \<Rightarrow>
          if ss_expires s < now then (Inl (Http 401), delete_sessions (\<lambda>x. ss_id x = ss_id s) db)
          else if \<not> us_active r then (Inl (Http 403), db)
          else rotate_refresh_token now audit_ok (ss_id s) (ss_hash s) (us_id r) new_h db)"

definition refresh ::
  "'tok env \<Rightarrow> int \<Rightarrow> bool \<Rightarrow> string option \<Rightarrow> string \<Rightarrow> (session_row \<times> user_row) option option
     \<Rightarrow> accounts \<Rightarrow> (http_error + nat) \<times> accounts" where
  "refresh env now audit_ok token new_h snap db =
     (case token of
        None \<Rightarrow> (Inl (Http 401), db)
      | Some t \<Rightarrow>
          if t = '''' then (Inl (Http 401), db)
          else refresh_respond now audit_ok (read_row snap (find_session db (env_sha env t))) new_h db)"

text \<open>Denying the access token is best effort; only a token that decodes is denied.\<close>

definition logout_access ::
  "'tok env \<Rightarrow> int \<Rightarrow> 'tok option \<Rightarrow> accounts \<Rightarrow> accounts" where
  "logout_access env now bearer db =
     (case bearer of
        None \<Rightarrow> db
      | Some t \<Rightarrow>
          (case env_decode env now t of
             Inl _ \<Rightarrow> db
           | Inr c \<Rightarrow>
               (case (cl_jti c, cl_sub c) of
                  (Some j, Some i) \<Rightarrow>
                    if j \<noteq> '''' \<and> i \<noteq> 0
                    then purge_expired_denied_tokens now (deny_access_token j i (cl_exp c) db)
                    else db
                | _ \<Rightarrow> db)))"

definition logout ::
  "'tok env \<Rightarrow> int \<Rightarrow> 'tok option \<Rightarrow> string option \<Rightarrow> accounts \<Rightarrow> accounts" where
  "logout env now bearer refresh_token db =
     (let db1 = logout_access env now bearer db
      in case refresh_token of
           None \<Rightarrow> record_event ''auth.logout'' None db1
         | Some t \<Rightarrow>
             if t = '''' then record_event ''auth.logout'' None db1
             else record_event ''auth.logout'' (map_option (us_id \<circ> snd) (find_session db1 (env_sha env t)))
                    (delete_sessions (\<lambda>s. ss_hash s = env_sha env t) db1))"

section \<open>The caller's own account\<close>

text \<open>\<open>actor\<close> is the resolved caller; \<open>now\<close> is the time read for the password epoch.\<close>

definition change_password ::
  "'tok env \<Rightarrow> int \<Rightarrow> user_view \<Rightarrow> pystr \<Rightarrow> pystr \<Rightarrow> string \<Rightarrow> string \<Rightarrow> accounts
     \<Rightarrow> (http_error + nat) \<times> accounts" where
  "change_password env now actor current new hashed h db =
     (if 128 < length current \<or> 128 < length new then (Inl (Http 422), db)
      else case find_user db (vw_id actor) of
        None \<Rightarrow> (Inl (Http 404), db)
      | Some r \<Rightarrow>
          if \<not> env_verify env current (us_password r) then (Inl (Http 400), db)
          else if env_verify env new (us_password r) then (Inl (Http 400), db)
          else if \<not> password_strength_check env new then (Inl (Http 400), db)
          else (Inr (us_id r),
            record_event ''auth.password_changed'' (Some (us_id r))
              (invalidate_active_user_cache (us_id r)
                (insert_session (us_id r) h (refresh_expiry now)
                  (delete_sessions (\<lambda>s. ss_user s = us_id r)
                    (set_user (us_id r) (\<lambda>r. r\<lparr>us_password := hashed, us_must_change := False,
                       us_pwd_changed := now\<rparr>) db))))))"

definition update_me :: "user_view \<Rightarrow> pystr option \<Rightarrow> accounts \<Rightarrow> (http_error + nat) \<times> accounts" where
  "update_me actor full_name db =
     (case full_name of
        None \<Rightarrow> (Inl (Http 400), db)
      | Some f \<Rightarrow>
          if 255 < length f then (Inl (Http 422), db)
          else if find_user db (vw_id actor) = None then (Inl (Http 500), db)
          else (Inr (vw_id actor),
            invalidate_active_user_cache (vw_id actor)
              (set_user (vw_id actor) (\<lambda>r. r\<lparr>us_full_name := f\<rparr>) db)))"

definition list_sessions :: "int \<Rightarrow> user_view \<Rightarrow> accounts \<Rightarrow> session_row list" where
  "list_sessions now actor db =
     filter (\<lambda>s. ss_user s = vw_id actor \<and> now < ss_expires s) (session_rows db)"

definition revoke_session :: "user_view \<Rightarrow> nat \<Rightarrow> accounts \<Rightarrow> (http_error + nat) \<times> accounts" where
  "revoke_session actor sid db =
     (if \<not> list_ex (\<lambda>s. ss_id s = sid \<and> ss_user s = vw_id actor) (session_rows db)
      then (Inl (Http 404), db)
      else (Inr sid, record_event ''auth.session_revoked'' (Some (vw_id actor))
             (delete_sessions (\<lambda>s. ss_id s = sid) db)))"

definition revoke_all_sessions ::
  "'tok env \<Rightarrow> int \<Rightarrow> user_view \<Rightarrow> string option \<Rightarrow> string \<Rightarrow> accounts
     \<Rightarrow> (http_error + nat) \<times> accounts" where
  "revoke_all_sessions env now actor token new_h db =
     (case token of
        None \<Rightarrow> (Inl (Http 401), db)
      | Some t \<Rightarrow>
          if t = '''' then (Inl (Http 401), db)
          else (case find (\<lambda>s. ss_hash s = env_sha env t \<and> ss_user s = vw_id actor) (session_rows db) of
              None \<Rightarrow> (Inl (Http 401), db)
            | Some cur \<Rightarrow>
                let db1 = delete_sessions (\<lambda>s. ss_user s = vw_id actor \<and> ss_id s \<noteq> ss_id cur) db
                in (Inr (ss_id cur), record_event ''auth.sessions_revoked'' (Some (vw_id actor))
                     (db1\<lparr>session_rows := update_rows (\<lambda>s. ss_id s = ss_id cur)
                        (\<lambda>s. s\<lparr>ss_hash := new_h, ss_expires := refresh_expiry now\<rparr>)
                        (session_rows db1)\<rparr>))))"

section \<open>Administration of accounts\<close>

definition require_level :: "nat \<Rightarrow> user_view \<Rightarrow> bool" where
  "require_level n actor \<longleftrightarrow> n \<le> role_level (vw_role actor)"

definition username_ok :: "pystr \<Rightarrow> bool" where
  "username_ok name \<longleftrightarrow> 3 \<le> length name \<and> length name \<le> 255 \<and> 3 \<le> length (py_strip name)"

definition create_user ::
  "'tok env \<Rightarrow> user_view \<Rightarrow> pystr \<Rightarrow> pystr \<Rightarrow> pystr \<Rightarrow> string \<Rightarrow> string \<Rightarrow> accounts
     \<Rightarrow> (http_error + nat) \<times> accounts" where
  "create_user env actor name password full_name role hashed db =
     (if \<not> require_level 3 actor then (Inl (Http 403), db)
      else if \<not> username_ok name \<or> length password < 8 \<or> 128 < length password \<or> 255 < length full_name
      then (Inl (Http 422), db)
      else case assert_can_assign_role (vw_role actor) None role of
        Some e \<Rightarrow> (Inl e, db)
      | None \<Rightarrow>
          if \<not> password_strength_check env password then (Inl (Http 400), db)
          else if find_name db name \<noteq> None then (Inl (Http 400), db)
          else (Inr (next_user db), record_event ''user.created'' (Some (next_user db))
                 (assign_user_to_default_vault (next_user db)
                   (insert_user name hashed full_name role True db))))"

text \<open>The guard of the statements that take an active superadmin away.\<close>

definition active_superadmins :: "accounts \<Rightarrow> nat" where
  "active_superadmins db = rowcount (\<lambda>r. us_role r = ''superadmin'' \<and> us_active r) (user_rows db)"

record user_patch =
  up_name :: "pystr option"
  up_full_name :: "pystr option"
  up_role :: "string option"

definition apply_patch :: "user_patch \<Rightarrow> user_row \<Rightarrow> user_row" where
  "apply_patch b r = r\<lparr>
     us_name := (case up_name b of None \<Rightarrow> us_name r | Some n \<Rightarrow> n),
     us_full_name := (case up_full_name b of None \<Rightarrow> us_full_name r | Some f \<Rightarrow> f),
     us_role := (case up_role b of None \<Rightarrow> us_role r | Some x \<Rightarrow> x)\<rparr>"

definition role_patch_error :: "user_view \<Rightarrow> nat \<Rightarrow> string \<Rightarrow> string option \<Rightarrow> http_error option" where
  "role_patch_error actor i target_role new_role =
     (case new_role of
        None \<Rightarrow> None
      | Some x \<Rightarrow>
          if i = vw_id actor then Some (Http 400)
          else assert_can_assign_role (vw_role actor) (Some target_role) x)"

definition name_taken :: "accounts \<Rightarrow> nat \<Rightarrow> pystr option \<Rightarrow> bool" where
  "name_taken db i name =
     (case name of None \<Rightarrow> False
      | Some n \<Rightarrow> list_ex (\<lambda>r. nocase (us_name r) = nocase n \<and> us_id r \<noteq> i) (user_rows db))"

text \<open>
  \<open>update_user\<close> after the target row \<open>snap\<close> has been read: checks on it, then one guarded
  statement. The re-binding of organisation invites is left out.
\<close>

definition update_user_respond ::
  "user_view \<Rightarrow> nat \<Rightarrow> user_patch \<Rightarrow> user_row option \<Rightarrow> accounts
     \<Rightarrow> (http_error + nat) \<times> accounts" where
  "update_user_respond actor i b snap db =
     (case snap of
        None \<Rightarrow> (Inl (Http 404), db)
      | Some t \<Rightarrow>
          (case assert_can_modify_target (vw_role actor) (us_role t) of
             Some e \<Rightarrow> (Inl e, db)
           | None \<Rightarrow>
               if name_taken db i (up_name b) then (Inl (Http 409), db)
               else (case role_patch_error actor i (us_role t) (up_role b) of
                  Some e \<Rightarrow> (Inl e, db)
                | None \<Rightarrow>
                    if up_name b = None \<and> up_full_name b = None \<and> up_role b = None
                    then (Inr i, db)
                    else if up_role b \<noteq> None \<and> us_role t = ''superadmin''
                      \<and> up_role b \<noteq> Some ''superadmin'' \<and> us_active t
                      \<and> (find_user db i = None \<or> active_superadmins db \<le> 1)
                    then (Inl (Http 400), db)
                    else ((if find_user db i = None then Inl (Http 404) else Inr i),
                          record_event ''user.updated'' (Some i)
                            (invalidate_active_user_cache i (set_user i (apply_patch b) db))))))"

definition update_user ::
  "user_view \<Rightarrow> nat \<Rightarrow> user_patch \<Rightarrow> user_row option option \<Rightarrow> accounts
     \<Rightarrow> (http_error + nat) \<times> accounts" where
  "update_user actor i b snap db =
     (if \<not> require_level 3 actor then (Inl (Http 403), db)
      else if (case up_name b of None \<Rightarrow> False | Some n \<Rightarrow> \<not> username_ok n)
         \<or> (case up_full_name b of None \<Rightarrow> False | Some f \<Rightarrow> 255 < length f)
      then (Inl (Http 422), db)
      else update_user_respond actor i b (read_row snap (find_user db i)) db)"

definition admin_reset_password ::
  "'tok env \<Rightarrow> int \<Rightarrow> user_view \<Rightarrow> nat \<Rightarrow> pystr \<Rightarrow> string \<Rightarrow> accounts
     \<Rightarrow> (http_error + nat) \<times> accounts" where
  "admin_reset_password env now actor i new hashed db =
     (if \<not> require_level 3 actor then (Inl (Http 403), db)
      else if 128 < length new then (Inl (Http 422), db)
      else case find_user db i of
        None \<Rightarrow> (Inl (Http 404), db)
      | Some t \<Rightarrow>
          (case assert_can_modify_target (vw_role actor) (us_role t) of
             Some e \<Rightarrow> (Inl e, db)
           | None \<Rightarrow>
               if \<not> password_strength_check env new then (Inl (Http 400), db)
               else (Inr i, record_event ''user.password_reset'' (Some i)
                      (invalidate_active_user_cache i
                        (delete_sessions (\<lambda>s. ss_user s = i)
                          (set_user i (\<lambda>r. r\<lparr>us_password := hashed, us_must_change := True,
                             us_failed := 0, us_locked := None, us_pwd_changed := now\<rparr>) db))))))"

definition update_user_role_respond ::
  "nat \<Rightarrow> string \<Rightarrow> user_row option \<Rightarrow> accounts \<Rightarrow> (http_error + nat) \<times> accounts" where
  "update_user_role_respond i role snap db =
     (case snap of
        None \<Rightarrow> (Inl (Http 404), db)
      | Some t \<Rightarrow>
          if us_role t = ''superadmin'' \<and> role \<noteq> ''superadmin''
             \<and> (find_user db i = None \<or> active_superadmins db \<le> 1)
          then (Inl (Http 400), db)
          else (Inr i, record_event ''user.role_updated'' (Some i)
                 (invalidate_active_user_cache i (set_user i (\<lambda>r. r\<lparr>us_role := role\<rparr>) db))))"

definition update_user_role ::
  "user_view \<Rightarrow> nat \<Rightarrow> string \<Rightarrow> user_row option option \<Rightarrow> accounts
     \<Rightarrow> (http_error + nat) \<times> accounts" where
  "update_user_role actor i role snap db =
     (if \<not> require_level 4 actor then (Inl (Http 403), db)
      else case assert_can_assign_role (vw_role actor) None role of
        Some e \<Rightarrow> (Inl e, db)
      | None \<Rightarrow> update_user_role_respond i role (read_row snap (find_user db i)) db)"

definition set_active :: "nat \<Rightarrow> bool \<Rightarrow> accounts \<Rightarrow> accounts" where
  "set_active i on db = (set_user i (\<lambda>r. r\<lparr>us_active := on\<rparr>) db)
     \<lparr>access := (access db)\<lparr>users :=
        map (\<lambda>(u, a). (u, if u = i then on else a)) (users (access db))\<rparr>\<rparr>"

definition update_user_active_respond ::
  "user_view \<Rightarrow> nat \<Rightarrow> bool \<Rightarrow> user_row option \<Rightarrow> accounts \<Rightarrow> (http_error + nat) \<times> accounts" where
  "update_user_active_respond actor i on snap db =
     (case snap of
        None \<Rightarrow> (Inl (Http 404), db)
      | Some t \<Rightarrow>
          (case assert_can_modify_target (vw_role actor) (us_role t) of
             Some e \<Rightarrow> (Inl e, db)
           | None \<Rightarrow>
               if us_role t = ''superadmin'' \<and> \<not> on \<and> us_active t
                  \<and> (find_user db i = None \<or> active_superadmins db \<le> 1)
               then (Inl (Http 400), db)
               else (Inr i, record_event ''user.active_updated'' (Some i)
                      (invalidate_active_user_cache i
                        ((if on then id else delete_sessions (\<lambda>s. ss_user s = i))
                          (set_active i on db))))))"

definition update_user_active ::
  "user_view \<Rightarrow> nat \<Rightarrow> bool \<Rightarrow> user_row option option \<Rightarrow> accounts
     \<Rightarrow> (http_error + nat) \<times> accounts" where
  "update_user_active actor i on snap db =
     (if \<not> require_level 3 actor then (Inl (Http 403), db)
      else if i = vw_id actor \<and> \<not> on then (Inl (Http 400), db)
      else update_user_active_respond actor i on (read_row snap (find_user db i)) db)"

section \<open>Deleting an account\<close>

definition owns_organization :: "authz_db \<Rightarrow> nat \<Rightarrow> bool" where
  "owns_organization az i \<longleftrightarrow>
     list_ex (\<lambda>(org, u, role). u = i \<and> role = ''owner'') (org_member_rows az)"

definition vaults_orphaned_by_user_delete :: "authz_db \<Rightarrow> nat \<Rightarrow> nat list" where
  "vaults_orphaned_by_user_delete az i =
     (let direct = [vm_vault r. r \<leftarrow> vault_members az, vm_user r = i \<and> vm_permission r = ''admin''];
          derived = [vga_vault a. a \<leftarrow> group_access az, (g, u) \<leftarrow> group_members az,
            (g', org) \<leftarrow> groups az,
            vga_group a = g \<and> g' = g \<and> u = i \<and> vga_permission a = ''admin'' \<and> in_org az org i]
      in filter (\<lambda>v. direct_vault_admin_ids az v (Some i)
                    \<union> group_derived_vault_admin_ids az v (Some i) None = {})
           (sort (remdups (direct @ derived))))"

text \<open>The cascades of the foreign keys on the permission tables.\<close>

definition delete_user_grants :: "nat \<Rightarrow> authz_db \<Rightarrow> authz_db" where
  "delete_user_grants i az =
     (let keep = (\<lambda>g. if g = Some i then None else g)
      in az\<lparr>users := filter (\<lambda>(u, _). u \<noteq> i) (users az),
            vault_members := map (\<lambda>r. r\<lparr>vm_granted_by := keep (vm_granted_by r)\<rparr>)
              (filter (\<lambda>r. vm_user r \<noteq> i) (vault_members az)),
            group_access := map (\<lambda>a. a\<lparr>vga_granted_by := keep (vga_granted_by a)\<rparr>) (group_access az),
            group_members := filter (\<lambda>(_, u). u \<noteq> i) (group_members az),
            org_member_rows := filter (\<lambda>(_, u, _). u \<noteq> i) (org_member_rows az)\<rparr>)"

definition delete_user_rows :: "nat \<Rightarrow> accounts \<Rightarrow> accounts" where
  "delete_user_rows i db = (delete_sessions (\<lambda>s. ss_user s = i) db)
     \<lparr>user_rows := filter (\<lambda>r. us_id r \<noteq> i) (user_rows db),
      access := delete_user_grants i (access db)\<rparr>"

text \<open>\<open>az\<close> holds the tables the refusals before the transaction read.\<close>

definition delete_user ::
  "user_view \<Rightarrow> nat \<Rightarrow> (user_row option \<times> authz_db) option \<Rightarrow> accounts
     \<Rightarrow> (http_error + nat) \<times> accounts" where
  "delete_user actor i snap db =
     (if \<not> require_level 4 actor then (Inl (Http 403), db)
      else case read_row snap (find_user db i, access db) of
        (None, _) \<Rightarrow> (Inl (Http 404), db)
      | (Some t, az) \<Rightarrow>
          if i = vw_id actor then (Inl (Http 400), db)
          else if owns_organization az i \<or> vaults_orphaned_by_user_delete az i \<noteq> []
          then (Inl (Http 400), db)
          else if owns_organization (access db) i
            \<or> vaults_orphaned_by_user_delete (access db) i \<noteq> []
          then (Inl (Http 400), db)
          else if us_role t = ''superadmin'' \<and> (find_user db i = None \<or> active_superadmins db \<le> 1)
          then (Inl (Http 400), db)
          else (Inr i, record_event ''user.deleted'' (Some i)
                 (invalidate_active_user_cache i (delete_user_rows i db))))"

section \<open>Sequences of requests\<close>

datatype 'tok account_op =
    Register int pystr pystr pystr string string
  | Login int pystr pystr string string "user_row option option"
  | Refresh int bool "string option" string "(session_row \<times> user_row) option option"
  | Logout int "'tok option" "string option"
  | Resolve int string string string "'tok option" "(int \<times> accounts) option"
  | ChangePassword int user_view pystr pystr string string
  | UpdateMe user_view "pystr option"
  | RevokeSession user_view nat
  | RevokeAll int user_view "string option" string
  | CreateUser user_view pystr pystr pystr string string
  | UpdateUser user_view nat user_patch "user_row option option"
  | ResetPassword int user_view nat pystr string
  | UpdateRole user_view nat string "user_row option option"
  | UpdateActive user_view nat bool "user_row option option"
  | DeleteUser user_view nat "(user_row option \<times> authz_db) option"
  | Schedule nat   \<comment> \<open>the process that works on the next requests\<close>

fun exec_account :: "'tok env \<Rightarrow> 'tok account_op \<Rightarrow> accounts \<Rightarrow> accounts" where
  "exec_account env (Register t n p f pw h) db = snd (register env t n p f pw h db)"
| "exec_account env (Login t n p pw h snap) db = snd (login env t n p pw h snap db)"
| "exec_account env (Refresh t ok tok h snap) db = snd (refresh env t ok tok h snap db)"
| "exec_account env (Logout t b tok) db = logout env t b tok db"
| "exec_account env (Resolve t fp m path tok snap) db = snd (resolve_active_user env t fp m path tok snap db)"
| "exec_account env (ChangePassword t a cur new pw h) db = snd (change_password env t a cur new pw h db)"
| "exec_account env (UpdateMe a f) db = snd (update_me a f db)"
| "exec_account env (RevokeSession a s) db = snd (revoke_session a s db)"
| "exec_account env (RevokeAll t a tok h) db = snd (revoke_all_sessions env t a tok h db)"
| "exec_account env (CreateUser a n p f r pw) db = snd (create_user env a n p f r pw db)"
| "exec_account env (UpdateUser a i b snap) db = snd (update_user a i b snap db)"
| "exec_account env (ResetPassword t a i new pw) db = snd (admin_reset_password env t a i new pw db)"
| "exec_account env (UpdateRole a i r snap) db = snd (update_user_role a i r snap db)"
| "exec_account env (UpdateActive a i on snap) db = snd (update_user_active a i on snap db)"
| "exec_account env (DeleteUser a i snap) db = snd (delete_user a i snap db)"
| "exec_account env (Schedule p) db = db\<lparr>here := p\<rparr>"

definition run_accounts :: "'tok env \<Rightarrow> 'tok account_op list \<Rightarrow> accounts \<Rightarrow> accounts" where
  "run_accounts env ops db = fold (exec_account env) ops db"

text \<open>A request whose reads and writes are one step.\<close>

fun serial :: "'tok account_op \<Rightarrow> bool" where
  "serial (UpdateUser a i b snap) \<longleftrightarrow> snap = None"
| "serial (UpdateRole a i r snap) \<longleftrightarrow> snap = None"
| "serial (UpdateActive a i on snap) \<longleftrightarrow> snap = None"
| "serial (DeleteUser a i snap) \<longleftrightarrow> snap = None"
| "serial _ \<longleftrightarrow> True"

definition empty_accounts :: accounts where
  "empty_accounts = \<lparr>user_rows = [], session_rows = [], denied_rows = [], active_users = (\<lambda>_. Map.empty), here = 0,
     audit_log = [], next_user = 1, next_session = 1, next_vault = 1, default_vault = None,
     access = \<lparr>vaults = [], vault_members = [], group_access = [], group_members = [], groups = [],
       organizations = [], org_member_rows = [], users = [], removed_flags = []\<rparr>\<rparr>"

end
