(* ===== verification/Organizations.thy ===== *)
theory Organizations
  imports User_Accounts Text_Scan
begin

text \<open>
  Organisations, their members, invitations and groups:
  \<^verbatim>\<open>backend/app/api/routes/organizations.py\<close>, the creation and renaming of groups in
  \<^verbatim>\<open>api/routes/groups.py\<close>, and the two replacement routes of \<^verbatim>\<open>api/routes/users.py\<close>
  (\<open>update_user_organizations\<close>, \<open>update_user_groups\<close>). Most handlers check once
  on what they read and again inside the write transaction; the first reading is the argument
  \<open>snap\<close>, a state that may be older than the one the transaction runs on.
\<close>

section \<open>State\<close>

record org_row =
  og_id :: nat
  og_name :: pystr
  og_slug :: string

record invite_row =
  iv_id :: nat
  iv_org :: nat
  iv_email :: pystr
  iv_hash :: string
  iv_role :: string
  iv_expires :: int
  iv_accepted :: bool
  iv_revoked :: bool

record workspace =
  acc :: accounts
  org_rows :: "org_row list"
  invites :: "invite_row list"
  group_names :: "(nat \<times> pystr) list"
  next_org :: nat
  next_invite :: nat
  next_group :: nat

text \<open>\<open>str.lower\<close>, and the SHA-256 digests in hexadecimal of a name and of a token.\<close>

record text_env =
  tx_lower :: "pystr \<Rightarrow> pystr"
  tx_digest :: "pystr \<Rightarrow> string"
  tx_sha :: "string \<Rightarrow> string"

definition perms :: "workspace \<Rightarrow> authz_db" where
  "perms ws = access (acc ws)"

definition set_perms :: "(authz_db \<Rightarrow> authz_db) \<Rightarrow> workspace \<Rightarrow> workspace" where
  "set_perms f ws = ws\<lparr>acc := (acc ws)\<lparr>access := f (access (acc ws))\<rparr>\<rparr>"

definition principal_of :: "user_view \<Rightarrow> principal" where
  "principal_of v = \<lparr>p_id = UserId (vw_id v), p_role = vw_role v\<rparr>"

definition org_admin :: "workspace \<Rightarrow> nat \<Rightarrow> user_view \<Rightarrow> bool" where
  "org_admin ws org actor = is_org_admin_or_owner (perms ws) org (principal_of actor)"

definition org_exists :: "workspace \<Rightarrow> nat \<Rightarrow> bool" where
  "org_exists ws org \<longleftrightarrow> org \<in> set (organizations (perms ws))"

definition active_user :: "workspace \<Rightarrow> nat \<Rightarrow> bool" where
  "active_user ws u \<longleftrightarrow> list_ex (\<lambda>r. us_id r = u \<and> us_active r) (user_rows (acc ws))"

definition org_member :: "authz_db \<Rightarrow> nat \<Rightarrow> nat \<Rightarrow> bool" where
  "org_member az org u \<longleftrightarrow> list_ex (\<lambda>(o', u', _). o' = org \<and> u' = u) (org_member_rows az)"

definition insert_org_member :: "nat \<Rightarrow> nat \<Rightarrow> string \<Rightarrow> authz_db \<Rightarrow> authz_db" where
  "insert_org_member org u role az = az\<lparr>org_member_rows := org_member_rows az @ [(org, u, role)]\<rparr>"

section \<open>Slugs\<close>

definition slug_char :: "nat \<Rightarrow> bool" where
  "slug_char c \<longleftrightarrow> 97 \<le> c \<and> c \<le> 122 \<or> 48 \<le> c \<and> c \<le> 57"

definition generate_org_slug :: "text_env \<Rightarrow> pystr \<Rightarrow> string" where
  "generate_org_slug tx name =
     (let slug = dash_runs (\<lambda>c. c = 45)
            (strip_dashes (dash_runs (\<lambda>c. \<not> slug_char c) (py_strip (tx_lower tx name))))
      in take 50 (if slug = [] then ''org-'' @ take 12 (tx_digest tx name) else map char_of slug))"

section \<open>Organisations\<close>

text \<open>The UNIQUE constraints on name and slug, for the row \<open>i\<close>.\<close>

definition org_conflict :: "workspace \<Rightarrow> nat option \<Rightarrow> pystr \<Rightarrow> string \<Rightarrow> bool" where
  "org_conflict ws i name slug \<longleftrightarrow>
     list_ex (\<lambda>r. Some (og_id r) \<noteq> i \<and> (nocase (og_name r) = nocase name \<or> og_slug r = slug)) (org_rows ws)"

text \<open>The slug, or the slug with a suffix when the first one does not fit.\<close>

definition free_slug :: "text_env \<Rightarrow> workspace \<Rightarrow> nat option \<Rightarrow> pystr \<Rightarrow> string option" where
  "free_slug tx ws i name =
     (if \<not> org_conflict ws i name (generate_org_slug tx name) then Some (generate_org_slug tx name)
      else if \<not> org_conflict ws i name (generate_org_slug tx name @ ''-2'') then Some (generate_org_slug tx name @ ''-2'')
      else None)"

definition create_organization ::
  "text_env \<Rightarrow> user_view \<Rightarrow> pystr \<Rightarrow> workspace \<Rightarrow> (http_error + nat) \<times> workspace" where
  "create_organization tx actor name ws =
     (if name = [] \<or> 255 < length name then (Inl (Http 422), ws)
      else if \<not> require_level 3 actor then (Inl (Http 403), ws)
      else if find_user (acc ws) (vw_id actor) = None then (Inl (Http 409), ws)
      else case free_slug tx ws None name of
        None \<Rightarrow> (Inl (Http 409), ws)
      | Some slug \<Rightarrow>
          (Inr (next_org ws),
           (set_perms (\<lambda>az. insert_org_member (next_org ws) (vw_id actor) ''owner''
                 (az\<lparr>organizations := organizations az @ [next_org ws]\<rparr>)) ws)
             \<lparr>org_rows := org_rows ws @ [\<lparr>og_id = next_org ws, og_name = name, og_slug = slug\<rparr>],
              next_org := Suc (next_org ws)\<rparr>))"

text \<open>A new description changes nothing the model keeps; \<open>described\<close> says that there is one.\<close>

definition update_organization ::
  "text_env \<Rightarrow> user_view \<Rightarrow> nat \<Rightarrow> pystr option \<Rightarrow> bool \<Rightarrow> workspace option \<Rightarrow> workspace
     \<Rightarrow> (http_error + nat) \<times> workspace" where
  "update_organization tx actor org name described snap ws =
     (let ws0 = read_row snap ws
      in if (case name of None \<Rightarrow> False | Some n \<Rightarrow> n = [] \<or> 255 < length n) then (Inl (Http 422), ws)
      else if \<not> require_level 2 actor then (Inl (Http 403), ws)
      else if \<not> org_exists ws0 org then (Inl (Http 404), ws)
      else if \<not> org_admin ws0 org actor then (Inl (Http 403), ws)
      else if name = None \<and> \<not> described then (Inl (Http 400), ws)
      else if \<not> org_admin ws org actor then (Inl (Http 403), ws)
      else case name of
        None \<Rightarrow> (Inr org, ws)
      | Some n \<Rightarrow>
          (case free_slug tx ws (Some org) n of
             None \<Rightarrow> (Inl (Http 409), ws)
           | Some slug \<Rightarrow>
               (Inr org, ws\<lparr>org_rows := update_rows (\<lambda>r. og_id r = org)
                  (\<lambda>r. r\<lparr>og_name := n, og_slug := slug\<rparr>) (org_rows ws)\<rparr>)))"

section \<open>Members\<close>

text \<open>The checks of \<open>add_org_member\<close> that run before and inside the transaction.\<close>

definition add_member_error :: "workspace \<Rightarrow> user_view \<Rightarrow> nat \<Rightarrow> nat \<Rightarrow> string \<Rightarrow> http_error option" where
  "add_member_error ws actor org u role =
     (if \<not> org_admin ws org actor then Some (Http 403)
      else if \<not> active_user ws u then Some (Http 404)
      else if role = ''owner'' \<and> org_role (perms ws) org (vw_id actor) \<noteq> Some ''owner''
        then Some (Http 403)
      else if org_member (perms ws) org u then Some (Http 409)
      else None)"

definition add_org_member ::
  "user_view \<Rightarrow> nat \<Rightarrow> nat \<Rightarrow> string \<Rightarrow> workspace option \<Rightarrow> workspace
     \<Rightarrow> (http_error + nat) \<times> workspace" where
  "add_org_member actor org u role snap ws =
     (let ws0 = read_row snap ws
      in if u = 0 \<or> role \<notin> {''owner'', ''admin'', ''member''} then (Inl (Http 422), ws)
      else if \<not> require_level 2 actor then (Inl (Http 403), ws)
      else if \<not> org_exists ws0 org then (Inl (Http 404), ws)
      else case add_member_error ws0 actor org u role of
        Some e \<Rightarrow> (Inl e, ws)
      | None \<Rightarrow>
          (case add_member_error ws actor org u role of
             Some e \<Rightarrow> (Inl e, ws)
           | None \<Rightarrow> (Inr u, set_perms (insert_org_member org u role) ws)))"

definition set_member_role :: "nat \<Rightarrow> nat \<Rightarrow> string \<Rightarrow> authz_db \<Rightarrow> authz_db" where
  "set_member_role org u role az = az\<lparr>org_member_rows :=
     map (\<lambda>(o', u', r). (o', u', if o' = org \<and> u' = u \<and> r \<noteq> ''owner'' then role else r))
       (org_member_rows az)\<rparr>"

definition update_org_member_role ::
  "user_view \<Rightarrow> nat \<Rightarrow> nat \<Rightarrow> string \<Rightarrow> workspace option \<Rightarrow> workspace
     \<Rightarrow> (http_error + nat) \<times> workspace" where
  "update_org_member_role actor org u role snap ws =
     (let ws0 = read_row snap ws
      in if role \<notin> {''owner'', ''admin'', ''member''} then (Inl (Http 422), ws)
      else if \<not> require_level 2 actor then (Inl (Http 403), ws)
      else if \<not> org_exists ws0 org then (Inl (Http 404), ws)
      else if \<not> org_admin ws0 org actor then (Inl (Http 403), ws)
      else if org_role (perms ws0) org u = None then (Inl (Http 404), ws)
      else if org_role (perms ws0) org u = Some ''owner'' then (Inl (Http 403), ws)
      else if role = ''owner'' then (Inl (Http 403), ws)
      else if \<not> org_admin ws org actor then (Inl (Http 403), ws)
      else if org_role (perms ws) org u = None then (Inl (Http 404), ws)
      else if org_role (perms ws) org u = Some ''owner'' then (Inl (Http 403), ws)
      else (Inr u, set_perms (set_member_role org u role) ws))"

text \<open>Every owner becomes an admin, then the new one owner.\<close>

definition move_ownership :: "nat \<Rightarrow> nat \<Rightarrow> authz_db \<Rightarrow> authz_db" where
  "move_ownership org u az = az\<lparr>org_member_rows :=
     map (\<lambda>(o', u', r). (o', u', if o' = org \<and> u' = u then ''owner''
            else if o' = org \<and> r = ''owner'' then ''admin'' else r))
       (org_member_rows az)\<rparr>"

definition may_transfer :: "workspace \<Rightarrow> user_view \<Rightarrow> nat \<Rightarrow> bool" where
  "may_transfer ws actor org \<longleftrightarrow>
     vw_role actor = ''superadmin'' \<or> org_role (perms ws) org (vw_id actor) = Some ''owner''"

definition transfer_ownership ::
  "user_view \<Rightarrow> nat \<Rightarrow> nat \<Rightarrow> workspace option \<Rightarrow> workspace \<Rightarrow> (http_error + nat) \<times> workspace" where
  "transfer_ownership actor org u snap ws =
     (let ws0 = read_row snap ws
      in if u = 0 then (Inl (Http 422), ws)
      else if \<not> require_level 2 actor then (Inl (Http 403), ws)
      else if \<not> org_exists ws0 org then (Inl (Http 404), ws)
      else if \<not> may_transfer ws0 actor org then (Inl (Http 403), ws)
      else if u = vw_id actor then (Inl (Http 400), ws)
      else if \<not> (active_user ws0 u \<and> org_member (perms ws0) org u) then (Inl (Http 400), ws)
      else if \<not> may_transfer ws actor org then (Inl (Http 403), ws)
      else if \<not> (active_user ws u \<and> org_member (perms ws) org u) then (Inl (Http 400), ws)
      else (Inr u, set_perms (move_ownership org u) ws))"

section \<open>Invitations\<close>

text \<open>The pattern of \<open>validate_email\<close>; \<open>$\<close> also matches before a final newline.\<close>

definition plain :: "pystr \<Rightarrow> bool" where
  "plain s \<longleftrightarrow> s \<noteq> [] \<and> list_all (\<lambda>c. c \<noteq> 64 \<and> \<not> py_isspace c) s"

definition invite_identifier :: "pystr \<Rightarrow> bool" where
  "invite_identifier email =
     (let s = (if email \<noteq> [] \<and> last email = 10 then butlast email else email);
          local = takeWhile (\<lambda>c. c \<noteq> 64) s; domain = tl (dropWhile (\<lambda>c. c \<noteq> 64) s)
      in (plain s \<and> 3 \<le> length s)
         \<or> (64 \<in> set s \<and> plain local \<and> plain domain \<and> 46 \<in> set (butlast (tl domain))))"

definition redeemable_error :: "text_env \<Rightarrow> workspace \<Rightarrow> pystr \<Rightarrow> http_error option" where
  "redeemable_error tx ws email =
     (case find_name (acc ws) (tx_lower tx email) of
        None \<Rightarrow> if 64 \<in> set email then Some (Http 400) else None
      | Some r \<Rightarrow> if role_level (us_role r) < 2 then Some (Http 400) else None)"

definition days :: "nat \<Rightarrow> int" where
  "days n = int n * 24 * 3600 * 1000000"

text \<open>\<open>h\<close> is the hash of the new token.\<close>

definition create_org_invite ::
  "text_env \<Rightarrow> int \<Rightarrow> user_view \<Rightarrow> nat \<Rightarrow> pystr \<Rightarrow> string \<Rightarrow> nat option \<Rightarrow> string
     \<Rightarrow> workspace option \<Rightarrow> workspace \<Rightarrow> (http_error + nat) \<times> workspace" where
  "create_org_invite tx now actor org email role expires_in h snap ws =
     (let ws0 = read_row snap ws; address = tx_lower tx email
      in if email = [] \<or> 255 < length email \<or> \<not> invite_identifier email
           \<or> role \<notin> {''admin'', ''member''}
           \<or> (case expires_in of None \<Rightarrow> False | Some n \<Rightarrow> n < 1 \<or> 30 < n)
      then (Inl (Http 422), ws)
      else if \<not> require_level 2 actor then (Inl (Http 403), ws)
      else if \<not> org_exists ws0 org then (Inl (Http 404), ws)
      else if \<not> org_admin ws0 org actor then (Inl (Http 403), ws)
      else case redeemable_error tx ws0 address of
        Some e \<Rightarrow> (Inl e, ws)
      | None \<Rightarrow>
          if \<not> org_admin ws org actor then (Inl (Http 403), ws)
          else (case redeemable_error tx ws address of
            Some e \<Rightarrow> (Inl e, ws)
          | None \<Rightarrow>
              (case expires_in of
                 None \<Rightarrow> (Inl (Http 500), ws)
               | Some n \<Rightarrow>
                   if list_ex (\<lambda>v. iv_hash v = h) (invites ws) then (Inl (Http 500), ws)
                   else (Inr (next_invite ws),
                     ws\<lparr>invites := invites ws @ [\<lparr>iv_id = next_invite ws, iv_org = org,
                          iv_email = tx_lower tx address, iv_hash = h, iv_role = role,
                          iv_expires = now + days n, iv_accepted = False, iv_revoked = False\<rparr>],
                        next_invite := Suc (next_invite ws)\<rparr>))))"

definition find_invite :: "workspace \<Rightarrow> nat \<Rightarrow> nat \<Rightarrow> invite_row option" where
  "find_invite ws org i = find (\<lambda>v. iv_id v = i \<and> iv_org v = org) (invites ws)"

definition set_invite :: "nat \<Rightarrow> (invite_row \<Rightarrow> invite_row) \<Rightarrow> workspace \<Rightarrow> workspace" where
  "set_invite i f ws = ws\<lparr>invites := update_rows (\<lambda>v. iv_id v = i) f (invites ws)\<rparr>"

text \<open>The checks on the stored invite, before and inside the transaction.\<close>

definition resend_error :: "text_env \<Rightarrow> workspace \<Rightarrow> nat \<Rightarrow> nat \<Rightarrow> http_error option" where
  "resend_error tx ws org i =
     (case find_invite ws org i of
        None \<Rightarrow> Some (Http 404)
      | Some v \<Rightarrow>
          if iv_revoked v \<or> iv_accepted v then Some (Http 400) else redeemable_error tx ws (iv_email v))"

definition resend_org_invite ::
  "text_env \<Rightarrow> int \<Rightarrow> user_view \<Rightarrow> nat \<Rightarrow> nat \<Rightarrow> string \<Rightarrow> workspace option \<Rightarrow> workspace
     \<Rightarrow> (http_error + nat) \<times> workspace" where
  "resend_org_invite tx now actor org i h snap ws =
     (let ws0 = read_row snap ws
      in if \<not> require_level 2 actor then (Inl (Http 403), ws)
      else if \<not> org_exists ws0 org then (Inl (Http 404), ws)
      else if \<not> org_admin ws0 org actor then (Inl (Http 403), ws)
      else case resend_error tx ws0 org i of
        Some e \<Rightarrow> (Inl e, ws)
      | None \<Rightarrow>
          if \<not> org_admin ws org actor then (Inl (Http 403), ws)
          else (case resend_error tx ws org i of
            Some e \<Rightarrow> (Inl e, ws)
          | None \<Rightarrow>
              if list_ex (\<lambda>v. iv_hash v = h \<and> iv_id v \<noteq> i) (invites ws) then (Inl (Http 500), ws)
              else (Inr i, set_invite i (\<lambda>v. v\<lparr>iv_hash := h, iv_expires := now + days 7\<rparr>) ws)))"

definition revoke_error :: "workspace \<Rightarrow> nat \<Rightarrow> nat \<Rightarrow> http_error option" where
  "revoke_error ws org i =
     (case find_invite ws org i of
        None \<Rightarrow> Some (Http 404)
      | Some v \<Rightarrow> if iv_revoked v then Some (Http 400) else None)"

definition revoke_org_invite ::
  "user_view \<Rightarrow> nat \<Rightarrow> nat \<Rightarrow> workspace option \<Rightarrow> workspace \<Rightarrow> (http_error + nat) \<times> workspace" where
  "revoke_org_invite actor org i snap ws =
     (let ws0 = read_row snap ws
      in if \<not> require_level 2 actor then (Inl (Http 403), ws)
      else if \<not> org_exists ws0 org then (Inl (Http 404), ws)
      else if \<not> org_admin ws0 org actor then (Inl (Http 403), ws)
      else case revoke_error ws0 org i of
        Some e \<Rightarrow> (Inl e, ws)
      | None \<Rightarrow>
          if \<not> org_admin ws org actor then (Inl (Http 403), ws)
          else (case revoke_error ws org i of
            Some e \<Rightarrow> (Inl e, ws)
          | None \<Rightarrow> (Inr i, set_invite i (\<lambda>v. v\<lparr>iv_revoked := True\<rparr>) ws)))"

text \<open>All checks on the invite are made on the first reading only.\<close>

definition accept_org_invite ::
  "text_env \<Rightarrow> int \<Rightarrow> user_view \<Rightarrow> string \<Rightarrow> workspace option \<Rightarrow> workspace
     \<Rightarrow> (http_error + nat) \<times> workspace" where
  "accept_org_invite tx now actor token snap ws =
     (let ws0 = read_row snap ws
      in if \<not> require_level 2 actor then (Inl (Http 403), ws)
      else case find (\<lambda>v. iv_hash v = tx_sha tx token) (invites ws0) of
        None \<Rightarrow> (Inl (Http 400), ws)
      | Some v \<Rightarrow>
          if iv_expires v < now \<or> iv_revoked v \<or> iv_accepted v then (Inl (Http 400), ws)
          else (case find_user (acc ws0) (vw_id actor) of
            None \<Rightarrow> (Inl (Http 403), ws)
          | Some r \<Rightarrow>
              if tx_lower tx (us_name r) \<noteq> tx_lower tx (iv_email v) then (Inl (Http 403), ws)
              else if org_member (perms ws0) (iv_org v) (vw_id actor) then (Inl (Http 409), ws)
              else if org_member (perms ws) (iv_org v) (vw_id actor) then (Inl (Http 409), ws)
              else if \<not> org_exists ws (iv_org v) \<or> find_user (acc ws) (vw_id actor) = None
                then (Inl (Http 500), ws)
              else (Inr (iv_id v), set_invite (iv_id v) (\<lambda>v. v\<lparr>iv_accepted := True\<rparr>)
                     (set_perms (insert_org_member (iv_org v) (vw_id actor) (iv_role v)) ws))))"

text \<open>
  The end of \<open>update_user\<close>: pending invites to the new name are revoked, those of the user
  follow the rename.
\<close>

definition pending :: "invite_row \<Rightarrow> bool" where
  "pending v \<longleftrightarrow> \<not> iv_accepted v \<and> \<not> iv_revoked v"

definition rebind_invites :: "text_env \<Rightarrow> pystr \<Rightarrow> pystr \<Rightarrow> invite_row list \<Rightarrow> invite_row list" where
  "rebind_invites tx old new ivs =
     update_rows (\<lambda>v. nocase (iv_email v) = nocase (tx_lower tx old) \<and> pending v)
       (\<lambda>v. v\<lparr>iv_email := tx_lower tx new\<rparr>)
       (update_rows (\<lambda>v. nocase (iv_email v) = nocase (tx_lower tx new) \<and> pending v
            \<and> nocase (iv_email v) \<noteq> nocase (tx_lower tx old))
          (\<lambda>v. v\<lparr>iv_revoked := True\<rparr>) ivs)"

text \<open>The handler has come to its commit when it has written its audit event.\<close>

definition committed :: "accounts \<Rightarrow> accounts \<Rightarrow> bool" where
  "committed db db' \<longleftrightarrow> length (audit_log db) < length (audit_log db')"

definition rename_user ::
  "text_env \<Rightarrow> user_view \<Rightarrow> nat \<Rightarrow> user_patch \<Rightarrow> user_row option option \<Rightarrow> workspace
     \<Rightarrow> (http_error + nat) \<times> workspace" where
  "rename_user tx actor i b snap ws =
     (case update_user actor i b snap (acc ws) of (res, acc1) \<Rightarrow>
        (res, (case (read_row snap (find_user (acc ws) i), up_name b) of
           (Some t, Some new) \<Rightarrow>
             if committed (acc ws) acc1 \<and> new \<noteq> us_name t
             then ws\<lparr>acc := acc1, invites := rebind_invites tx (us_name t) new (invites ws)\<rparr>
             else ws\<lparr>acc := acc1\<rparr>
         | _ \<Rightarrow> ws\<lparr>acc := acc1\<rparr>)))"

section \<open>Replacing a user's memberships\<close>

definition orgs_of :: "authz_db \<Rightarrow> nat \<Rightarrow> nat list" where
  "orgs_of az u = map fst (filter (\<lambda>(_, u', _). u' = u) (org_member_rows az))"

text \<open>
  The caller's organisations, or None for a superadmin, when the caller may touch the user.
\<close>

definition replace_scope ::
  "workspace \<Rightarrow> user_view \<Rightarrow> nat \<Rightarrow> http_error + nat list option" where
  "replace_scope ws actor u =
     (case find_user (acc ws) u of
        None \<Rightarrow> Inl (Http 404)
      | Some t \<Rightarrow>
          (case assert_can_modify_target (vw_role actor) (us_role t) of
             Some e \<Rightarrow> Inl e
           | None \<Rightarrow>
               if vw_role actor = ''superadmin'' then Inr None
               else if set (orgs_of (perms ws) u) \<inter> set (orgs_of (perms ws) (vw_id actor)) = {}
               then Inl (Http 403)
               else Inr (Some (orgs_of (perms ws) (vw_id actor)))))"

definition resolved_memberships ::
  "(nat \<times> string) list option \<Rightarrow> nat list option \<Rightarrow> string \<Rightarrow> (nat \<times> string) list" where
  "resolved_memberships memberships org_ids role =
     (case memberships of Some ms \<Rightarrow> ms
      | None \<Rightarrow> (case org_ids of None \<Rightarrow> [] | Some os \<Rightarrow> map (\<lambda>o'. (o', role)) os))"

definition insert_missing_member :: "nat \<Rightarrow> nat \<times> string \<Rightarrow> authz_db \<Rightarrow> authz_db" where
  "insert_missing_member u m az =
     (if org_member az (fst m) u then az else insert_org_member (fst m) u (snd m) az)"

text \<open>
  The transaction: rows that are not an owner's go, within the caller's organisations when
  \<open>scoped\<close>; the new ones come; group memberships of organisations that were dropped go.
\<close>

definition drop_memberships :: "bool \<Rightarrow> nat \<Rightarrow> nat \<Rightarrow> authz_db \<Rightarrow> authz_db" where
  "drop_memberships scoped caller u az = az\<lparr>org_member_rows :=
     filter (\<lambda>(org, u', r). \<not> (u' = u \<and> r \<noteq> ''owner'' \<and> (scoped \<longrightarrow> org \<in> set (orgs_of az caller))))
       (org_member_rows az)\<rparr>"

definition replace_user_orgs ::
  "bool \<Rightarrow> nat \<Rightarrow> nat \<Rightarrow> (nat \<times> string) list \<Rightarrow> authz_db \<Rightarrow> authz_db" where
  "replace_user_orgs scoped caller u ms az =
     (let before_orgs = [org. (org, u', r) \<leftarrow> org_member_rows az, u' = u \<and> r \<noteq> ''owner''];
          az1 = fold (insert_missing_member u) ms (drop_memberships scoped caller u az);
          dropped = filter (\<lambda>org. org \<notin> set (orgs_of az1 u)) before_orgs
      in az1\<lparr>group_members := filter (\<lambda>(g, u'). \<not> (u' = u \<and> list_ex (\<lambda>org. (g, org) \<in> set (groups az1)) dropped))
           (group_members az1)\<rparr>)"

text \<open>A foreign key that no longer holds when the transaction inserts is an error 500.\<close>

definition update_user_organizations ::
  "user_view \<Rightarrow> nat \<Rightarrow> (nat \<times> string) list option \<Rightarrow> nat list option \<Rightarrow> string
     \<Rightarrow> workspace option \<Rightarrow> workspace \<Rightarrow> (http_error + nat) \<times> workspace" where
  "update_user_organizations actor u memberships org_ids role snap ws =
     (let ws0 = read_row snap ws; ms = resolved_memberships memberships org_ids role
      in if \<not> require_level 3 actor then (Inl (Http 403), ws)
      else if memberships = None \<and> org_ids = None then (Inl (Http 422), ws)
      else case replace_scope ws0 actor u of
        Inl e \<Rightarrow> (Inl e, ws)
      | Inr caller_orgs \<Rightarrow>
          if \<not> list_all (\<lambda>m. snd m \<in> {''admin'', ''member''}) ms then (Inl (Http 400), ws)
          else if \<not> list_all (\<lambda>m. org_exists ws0 (fst m)) ms then (Inl (Http 400), ws)
          else if (case caller_orgs of None \<Rightarrow> False
                   | Some os \<Rightarrow> \<not> list_all (\<lambda>m. fst m \<in> set os) ms) then (Inl (Http 403), ws)
          else if ms \<noteq> [] \<and> (find_user (acc ws) u = None \<or> \<not> list_all (\<lambda>m. org_exists ws (fst m)) ms)
            then (Inl (Http 500), ws)
          else (case guarded_transaction (user_derived_admin_vault_ids u)
                  (replace_user_orgs (caller_orgs \<noteq> None) (vw_id actor) u ms) (perms ws) of
              Inl e \<Rightarrow> (Inl e, ws)
            | Inr az \<Rightarrow> (Inr u, set_perms (\<lambda>_. az) ws)))"

definition replace_user_groups ::
  "nat list option \<Rightarrow> nat \<Rightarrow> nat list \<Rightarrow> authz_db \<Rightarrow> authz_db" where
  "replace_user_groups caller_orgs u gs az = az\<lparr>group_members :=
     filter (\<lambda>(g, u'). \<not> (u' = u \<and> (case caller_orgs of None \<Rightarrow> True
         | Some os \<Rightarrow> list_ex (\<lambda>org. (g, org) \<in> set (groups az)) os))) (group_members az)
     @ map (\<lambda>g. (g, u)) (dict_fromkeys gs)\<rparr>"

text \<open>A membership outside the caller's scope that is asked for again violates UNIQUE.\<close>

definition user_groups_conflict :: "nat list option \<Rightarrow> nat \<Rightarrow> nat list \<Rightarrow> authz_db \<Rightarrow> bool" where
  "user_groups_conflict caller_orgs u gs az \<longleftrightarrow>
     list_ex (\<lambda>g. (g, u) \<in> set (group_members (replace_user_groups caller_orgs u [] az))) gs"

definition update_user_groups ::
  "user_view \<Rightarrow> nat \<Rightarrow> nat list \<Rightarrow> workspace option \<Rightarrow> workspace \<Rightarrow> (http_error + nat) \<times> workspace" where
  "update_user_groups actor u gs snap ws =
     (let ws0 = read_row snap ws
      in if \<not> require_level 3 actor then (Inl (Http 403), ws)
      else case replace_scope ws0 actor u of
        Inl e \<Rightarrow> (Inl e, ws)
      | Inr caller_orgs \<Rightarrow>
          if \<not> list_all (\<lambda>g. group_org (perms ws0) g \<noteq> None) gs then (Inl (Http 400), ws)
          else if (case caller_orgs of None \<Rightarrow> False
                   | Some os \<Rightarrow> \<not> list_all (\<lambda>g. the (group_org (perms ws0) g) \<in> set os) gs)
            then (Inl (Http 403), ws)
          else if \<not> list_all (\<lambda>g. org_member (perms ws0) (the (group_org (perms ws0) g)) u) gs
            then (Inl (Http 400), ws)
          else if gs \<noteq> [] \<and> (find_user (acc ws) u = None
              \<or> \<not> list_all (\<lambda>g. group_org (perms ws) g \<noteq> None) gs
              \<or> user_groups_conflict caller_orgs u gs (perms ws))
            then (Inl (Http 500), ws)
          else (case guarded_transaction (user_derived_admin_vault_ids u)
                  (replace_user_groups caller_orgs u gs) (perms ws) of
              Inl e \<Rightarrow> (Inl e, ws)
            | Inr az \<Rightarrow> (Inr u, set_perms (\<lambda>_. az) ws)))"

section \<open>Groups\<close>

definition group_name_ok :: "pystr \<Rightarrow> bool" where
  "group_name_ok name \<longleftrightarrow> 2 \<le> length (py_strip name) \<and> length name \<le> 100"

definition group_name_taken :: "workspace \<Rightarrow> nat option \<Rightarrow> nat \<Rightarrow> pystr \<Rightarrow> bool" where
  "group_name_taken ws i org name \<longleftrightarrow>
     list_ex (\<lambda>(g, n). Some g \<noteq> i \<and> n = name \<and> group_org (perms ws) g = Some org) (group_names ws)"

text \<open>\<open>get_user_primary_org\<close> raises for several organisations.\<close>

definition group_target :: "workspace \<Rightarrow> user_view \<Rightarrow> nat option \<Rightarrow> nat option" where
  "group_target ws actor org =
     (case org of Some i \<Rightarrow> if i = 0 then None else Some i
      | None \<Rightarrow> (case orgs_of (perms ws) (vw_id actor) of [i] \<Rightarrow> if i = 0 then None else Some i | _ \<Rightarrow> None))"

definition create_group ::
  "user_view \<Rightarrow> pystr \<Rightarrow> nat option \<Rightarrow> workspace option \<Rightarrow> workspace \<Rightarrow> (http_error + nat) \<times> workspace" where
  "create_group actor name org snap ws =
     (let ws0 = read_row snap ws
      in if \<not> require_level 3 actor then (Inl (Http 403), ws)
      else if \<not> group_name_ok name then (Inl (Http 422), ws)
      else if \<not> evaluate_policy (perms ws0) (principal_of actor) ''group'' (Some 0) ''create''
        then (Inl (Http 403), ws)
      else case group_target ws0 actor org of
        None \<Rightarrow> (Inl (Http 400), ws)
      | Some i \<Rightarrow>
          if \<not> org_exists ws0 i then (Inl (Http 404), ws)
          else if vw_role actor \<noteq> ''superadmin'' \<and> \<not> org_member (perms ws0) i (vw_id actor)
            then (Inl (Http 403), ws)
          else if \<not> org_exists ws i \<or> group_name_taken ws None i name then (Inl (Http 500), ws)
          else (Inr (next_group ws),
            (set_perms (\<lambda>az. az\<lparr>groups := groups az @ [(next_group ws, i)]\<rparr>) ws)
              \<lparr>group_names := group_names ws @ [(next_group ws, name)], next_group := Suc (next_group ws)\<rparr>))"

definition update_group ::
  "user_view \<Rightarrow> nat \<Rightarrow> pystr option \<Rightarrow> bool \<Rightarrow> workspace option \<Rightarrow> workspace
     \<Rightarrow> (http_error + nat) \<times> workspace" where
  "update_group actor g name described snap ws =
     (let ws0 = read_row snap ws
      in if \<not> require_level 3 actor then (Inl (Http 403), ws)
      else if (case name of None \<Rightarrow> False | Some n \<Rightarrow> \<not> group_name_ok n) then (Inl (Http 422), ws)
      else case group_org (perms ws0) g of
        None \<Rightarrow> (Inl (Http 404), ws)
      | Some org \<Rightarrow>
          if \<not> may_manage_group (perms ws0) (principal_of actor) g ''update'' org then (Inl (Http 403), ws)
          else if name = None \<and> \<not> described then (Inr g, ws)
          else if group_org (perms ws) g = None then (Inl (Http 404), ws)
          else (case name of
            None \<Rightarrow> (Inr g, ws)
          | Some n \<Rightarrow>
              if group_name_taken ws (Some g) (the (group_org (perms ws) g)) n then (Inl (Http 500), ws)
              else (Inr g, ws\<lparr>group_names := map (\<lambda>(g', n'). (g', if g' = g then n else n')) (group_names ws)\<rparr>)))"

section \<open>Sequences of requests\<close>

datatype org_op =
    CreateOrg user_view pystr
  | UpdateOrg user_view nat "pystr option" bool "workspace option"
  | AddOrgMember user_view nat nat string "workspace option"
  | UpdateOrgMember user_view nat nat string "workspace option"
  | TransferOwnership user_view nat nat "workspace option"
  | CreateInvite int user_view nat pystr string "nat option" string "workspace option"
  | ResendInvite int user_view nat nat string "workspace option"
  | RevokeInvite user_view nat nat "workspace option"
  | AcceptInvite int user_view string "workspace option"
  | ReplaceOrgs user_view nat "(nat \<times> string) list option" "nat list option" string "workspace option"
  | ReplaceGroups user_view nat "nat list" "workspace option"
  | CreateGroup user_view pystr "nat option" "workspace option"
  | UpdateGroup user_view nat "pystr option" bool "workspace option"

fun exec_org :: "text_env \<Rightarrow> org_op \<Rightarrow> workspace \<Rightarrow> (http_error + nat) \<times> workspace" where
  "exec_org tx (CreateOrg a n) ws = create_organization tx a n ws"
| "exec_org tx (UpdateOrg a i n d s) ws = update_organization tx a i n d s ws"
| "exec_org tx (AddOrgMember a i u r s) ws = add_org_member a i u r s ws"
| "exec_org tx (UpdateOrgMember a i u r s) ws = update_org_member_role a i u r s ws"
| "exec_org tx (TransferOwnership a i u s) ws = transfer_ownership a i u s ws"
| "exec_org tx (CreateInvite t a i e r d h s) ws = create_org_invite tx t a i e r d h s ws"
| "exec_org tx (ResendInvite t a i v h s) ws = resend_org_invite tx t a i v h s ws"
| "exec_org tx (RevokeInvite a i v s) ws = revoke_org_invite a i v s ws"
| "exec_org tx (AcceptInvite t a tok s) ws = accept_org_invite tx t a tok s ws"
| "exec_org tx (ReplaceOrgs a u ms os r s) ws = update_user_organizations a u ms os r s ws"
| "exec_org tx (ReplaceGroups a u gs s) ws = update_user_groups a u gs s ws"
| "exec_org tx (CreateGroup a n i s) ws = create_group a n i s ws"
| "exec_org tx (UpdateGroup a g n d s) ws = update_group a g n d s ws"

text \<open>
  The foreign keys of the rows this theory adds, when organisations or groups have been
  deleted.
\<close>

definition cascade :: "workspace \<Rightarrow> workspace" where
  "cascade ws = ws\<lparr>org_rows := filter (\<lambda>r. org_exists ws (og_id r)) (org_rows ws),
     invites := filter (\<lambda>v. org_exists ws (iv_org v)) (invites ws),
     group_names := filter (\<lambda>(g, _). group_org (perms ws) g \<noteq> None) (group_names ws)\<rparr>"

definition account_request :: "text_env \<Rightarrow> 'tok env \<Rightarrow> 'tok account_op \<Rightarrow> workspace \<Rightarrow> workspace" where
  "account_request tx env c ws =
     (case c of
        UpdateUser a i b snap \<Rightarrow> snd (rename_user tx a i b snap ws)
      | _ \<Rightarrow> ws\<lparr>acc := exec_account env c (acc ws)\<rparr>)"

definition access_request :: "principal \<Rightarrow> access_op \<Rightarrow> workspace \<Rightarrow> workspace" where
  "access_request p c ws =
     (case apply_access p c (perms ws) of
        Inl _ \<Rightarrow> ws
      | Inr az \<Rightarrow> cascade (set_perms (\<lambda>_. az) ws))"

datatype 'tok request =
    Account "'tok account_op"
  | Access principal access_op
  | Org org_op

fun exec_request :: "text_env \<Rightarrow> 'tok env \<Rightarrow> 'tok request \<Rightarrow> workspace \<Rightarrow> workspace" where
  "exec_request tx env (Account c) ws = account_request tx env c ws"
| "exec_request tx env (Access p c) ws = access_request p c ws"
| "exec_request tx env (Org c) ws = snd (exec_org tx c ws)"

definition run_requests :: "text_env \<Rightarrow> 'tok env \<Rightarrow> 'tok request list \<Rightarrow> workspace \<Rightarrow> workspace" where
  "run_requests tx env cs ws = fold (exec_request tx env) cs ws"

definition empty_workspace :: workspace where
  "empty_workspace = \<lparr>acc = empty_accounts, org_rows = [], invites = [], group_names = [],
     next_org = 1, next_invite = 1, next_group = 1\<rparr>"

end
