(* ===== verification/Account_Invariants.thy ===== *)
theory Account_Invariants
  imports User_Accounts
begin

text \<open>
  What every sequence of account requests keeps: unique ids and names, valid roles, sessions
  of existing users only, caches that hold a view under its own id; how long a refresh token
  and an active superadmin survive.
\<close>

section \<open>How the primitives change the tables\<close>

lemma record_event_fields [simp]:
  "user_rows (record_event ev u db) = user_rows db"
  "session_rows (record_event ev u db) = session_rows db"
  "denied_rows (record_event ev u db) = denied_rows db"
  "active_users (record_event ev u db) = active_users db"
  "here (record_event ev u db) = here db"
  "next_user (record_event ev u db) = next_user db"
  "next_session (record_event ev u db) = next_session db"
  "access (record_event ev u db) = access db"
  by (simp_all add: record_event_def)

lemma set_cache_fields [simp]:
  "user_rows (set_cache p i x db) = user_rows db"
  "session_rows (set_cache p i x db) = session_rows db"
  "denied_rows (set_cache p i x db) = denied_rows db"
  "active_users (set_cache p i x db) = (active_users db)(p := (active_users db p)(i := x))"
  "here (set_cache p i x db) = here db"
  "audit_log (set_cache p i x db) = audit_log db"
  "next_user (set_cache p i x db) = next_user db"
  "next_session (set_cache p i x db) = next_session db"
  "access (set_cache p i x db) = access db"
  by (simp_all add: set_cache_def)

lemma invalidate_fields [simp]:
  "user_rows (invalidate_active_user_cache i db) = user_rows db"
  "session_rows (invalidate_active_user_cache i db) = session_rows db"
  "denied_rows (invalidate_active_user_cache i db) = denied_rows db"
  "active_users (invalidate_active_user_cache i db) =
     (active_users db)(here db := (active_users db (here db))(i := None))"
  "here (invalidate_active_user_cache i db) = here db"
  "next_user (invalidate_active_user_cache i db) = next_user db"
  "next_session (invalidate_active_user_cache i db) = next_session db"
  "access (invalidate_active_user_cache i db) = access db"
  by (simp_all add: invalidate_active_user_cache_def)

lemma insert_session_fields [simp]:
  "user_rows (insert_session i h e db) = user_rows db"
  "session_rows (insert_session i h e db) = session_rows db @
     [\<lparr>ss_id = next_session db, ss_user = i, ss_hash = h, ss_expires = e\<rparr>]"
  "denied_rows (insert_session i h e db) = denied_rows db"
  "active_users (insert_session i h e db) = active_users db"
  "here (insert_session i h e db) = here db"
  "next_user (insert_session i h e db) = next_user db"
  "next_session (insert_session i h e db) = Suc (next_session db)"
  "access (insert_session i h e db) = access db"
  by (simp_all add: insert_session_def)

lemma delete_sessions_fields [simp]:
  "user_rows (delete_sessions p db) = user_rows db"
  "session_rows (delete_sessions p db) = filter (\<lambda>s. \<not> p s) (session_rows db)"
  "denied_rows (delete_sessions p db) = denied_rows db"
  "active_users (delete_sessions p db) = active_users db"
  "here (delete_sessions p db) = here db"
  "next_user (delete_sessions p db) = next_user db"
  "next_session (delete_sessions p db) = next_session db"
  "access (delete_sessions p db) = access db"
  by (simp_all add: delete_sessions_def)

lemma set_user_fields [simp]:
  "user_rows (set_user i f db) = update_rows (\<lambda>r. us_id r = i) f (user_rows db)"
  "session_rows (set_user i f db) = session_rows db"
  "denied_rows (set_user i f db) = denied_rows db"
  "active_users (set_user i f db) = active_users db"
  "here (set_user i f db) = here db"
  "next_user (set_user i f db) = next_user db"
  "next_session (set_user i f db) = next_session db"
  "access (set_user i f db) = access db"
  by (simp_all add: set_user_def)

lemma set_active_fields [simp]:
  "user_rows (set_active i on db) = update_rows (\<lambda>r. us_id r = i) (\<lambda>r. r\<lparr>us_active := on\<rparr>) (user_rows db)"
  "session_rows (set_active i on db) = session_rows db"
  "denied_rows (set_active i on db) = denied_rows db"
  "active_users (set_active i on db) = active_users db"
  "here (set_active i on db) = here db"
  "next_user (set_active i on db) = next_user db"
  "next_session (set_active i on db) = next_session db"
  "users (access (set_active i on db)) = map (\<lambda>(u, a). (u, if u = i then on else a)) (users (access db))"
  by (simp_all add: set_active_def)

lemma assign_default_fields [simp]:
  "user_rows (assign_user_to_default_vault i db) = user_rows db"
  "session_rows (assign_user_to_default_vault i db) = session_rows db"
  "denied_rows (assign_user_to_default_vault i db) = denied_rows db"
  "active_users (assign_user_to_default_vault i db) = active_users db"
  "here (assign_user_to_default_vault i db) = here db"
  "next_user (assign_user_to_default_vault i db) = next_user db"
  "next_session (assign_user_to_default_vault i db) = next_session db"
  "users (access (assign_user_to_default_vault i db)) = users (access db)"
  by (simp_all add: assign_user_to_default_vault_def ensure_default_vault_def Let_def
      split: option.splits)

definition new_user_row :: "nat \<Rightarrow> pystr \<Rightarrow> string \<Rightarrow> pystr \<Rightarrow> string \<Rightarrow> bool \<Rightarrow> user_row" where
  "new_user_row i name password full_name role must_change =
     \<lparr>us_id = i, us_name = name, us_password = password, us_full_name = full_name,
      us_role = role, us_active = True, us_must_change = must_change, us_failed = 0,
      us_locked = None, us_pwd_changed = 0\<rparr>"

lemma insert_user_fields [simp]:
  "user_rows (insert_user n p f r m db) = user_rows db @ [new_user_row (next_user db) n p f r m]"
  "session_rows (insert_user n p f r m db) = session_rows db"
  "denied_rows (insert_user n p f r m db) = denied_rows db"
  "active_users (insert_user n p f r m db) = active_users db"
  "here (insert_user n p f r m db) = here db"
  "next_user (insert_user n p f r m db) = Suc (next_user db)"
  "next_session (insert_user n p f r m db) = next_session db"
  "users (access (insert_user n p f r m db)) = users (access db) @ [(next_user db, True)]"
  by (simp_all add: insert_user_def new_user_row_def)

lemma delete_user_rows_fields [simp]:
  "user_rows (delete_user_rows i db) = filter (\<lambda>r. us_id r \<noteq> i) (user_rows db)"
  "session_rows (delete_user_rows i db) = filter (\<lambda>s. ss_user s \<noteq> i) (session_rows db)"
  "denied_rows (delete_user_rows i db) = denied_rows db"
  "active_users (delete_user_rows i db) = active_users db"
  "here (delete_user_rows i db) = here db"
  "next_user (delete_user_rows i db) = next_user db"
  "next_session (delete_user_rows i db) = next_session db"
  "access (delete_user_rows i db) = delete_user_grants i (access db)"
  "users (delete_user_grants i az) = filter (\<lambda>(u, _). u \<noteq> i) (users az)"
  by (simp_all add: delete_user_rows_def delete_user_grants_def Let_def)

lemma deny_fields [simp]:
  "user_rows (deny_access_token j i e db) = user_rows db"
  "session_rows (deny_access_token j i e db) = session_rows db"
  "active_users (deny_access_token j i e db) = active_users db"
  "here (deny_access_token j i e db) = here db"
  "next_user (deny_access_token j i e db) = next_user db"
  "next_session (deny_access_token j i e db) = next_session db"
  "access (deny_access_token j i e db) = access db"
  "user_rows (purge_expired_denied_tokens now db) = user_rows db"
  "session_rows (purge_expired_denied_tokens now db) = session_rows db"
  "active_users (purge_expired_denied_tokens now db) = active_users db"
  "here (purge_expired_denied_tokens now db) = here db"
  "next_user (purge_expired_denied_tokens now db) = next_user db"
  "next_session (purge_expired_denied_tokens now db) = next_session db"
  "access (purge_expired_denied_tokens now db) = access db"
  by (simp_all add: deny_access_token_def purge_expired_denied_tokens_def)

section \<open>The invariant\<close>

definition users_ok :: "user_row list \<Rightarrow> nat \<Rightarrow> bool" where
  "users_ok rs n \<longleftrightarrow> distinct (map us_id rs) \<and> distinct (map (nocase \<circ> us_name) rs)
     \<and> (\<forall>r \<in> set rs. us_id r < n \<and> us_role r \<in> set valid_roles
          \<and> (max_failed_attempts \<le> us_failed r \<longrightarrow> us_locked r \<noteq> None))"

definition sessions_ok :: "nat set \<Rightarrow> session_row list \<Rightarrow> nat \<Rightarrow> bool" where
  "sessions_ok ids ss n \<longleftrightarrow> distinct (map ss_id ss)
     \<and> (\<forall>s \<in> set ss. ss_id s < n \<and> ss_user s \<in> ids)"

definition keyed_caches :: "(nat \<Rightarrow> nat \<rightharpoonup> user_view \<times> int) \<Rightarrow> bool" where
  "keyed_caches c \<longleftrightarrow> (\<forall>p i v e. c p i = Some (v, e) \<longrightarrow> vw_id v = i)"

definition mirrored :: "user_row list \<Rightarrow> authz_db \<Rightarrow> bool" where
  "mirrored rs az \<longleftrightarrow> users az = map (\<lambda>r. (us_id r, us_active r)) rs"

definition accounts_inv :: "accounts \<Rightarrow> bool" where
  "accounts_inv db \<longleftrightarrow> users_ok (user_rows db) (next_user db)
     \<and> sessions_ok (us_id ` set (user_rows db)) (session_rows db) (next_session db)
     \<and> keyed_caches (active_users db) \<and> mirrored (user_rows db) (access db)"

lemma find_user_SomeD: "find_user db i = Some r \<Longrightarrow> r \<in> set (user_rows db) \<and> us_id r = i"
  by (auto simp: find_user_def dest: find_SomeD)

lemma find_user_id: "find_user db i \<noteq> None \<longleftrightarrow> i \<in> us_id ` set (user_rows db)"
proof
  assume "find_user db i \<noteq> None"
  then obtain r where "find_user db i = Some r" by blast
  then have "r \<in> set (user_rows db)" "us_id r = i" using find_user_SomeD by blast+
  then show "i \<in> us_id ` set (user_rows db)" by blast
next
  assume "i \<in> us_id ` set (user_rows db)"
  then obtain r where "r \<in> set (user_rows db)" "us_id r = i" by blast
  then show "find_user db i \<noteq> None" unfolding find_user_def
    using find_NoneD [of "\<lambda>r. us_id r = i" "user_rows db" r] by fast
qed

lemma ids_update_rows:
  assumes "\<And>r. us_id (f r) = us_id r"
  shows "us_id ` set (update_rows p f rs) = us_id ` set rs"
  unfolding set_update_rows image_image by (rule image_cong) (simp_all add: assms)

lemma users_ok_update:
  assumes "users_ok rs n" and "\<And>r. us_id (f r) = us_id r"
    and "\<And>r. r \<in> set rs \<Longrightarrow> us_id r = i \<Longrightarrow> us_role (f r) \<in> set valid_roles
        \<and> (max_failed_attempts \<le> us_failed (f r) \<longrightarrow> us_locked (f r) \<noteq> None)"
    and "\<And>r r'. r \<in> set rs \<Longrightarrow> r' \<in> set rs \<Longrightarrow> us_id r = i \<Longrightarrow> us_id r' \<noteq> i \<Longrightarrow>
        nocase (us_name (f r)) \<noteq> nocase (us_name r')"
  shows "users_ok (update_rows (\<lambda>r. us_id r = i) f rs) n"
proof -
  have ids: "distinct (map us_id rs)" and names: "distinct (map (nocase \<circ> us_name) rs)"
    using assms(1) by (auto simp: users_ok_def)
  have "distinct (map (nocase \<circ> us_name) (update_rows (\<lambda>r. us_id r = i) f rs))"
  proof (rule distinct_map_update_one [OF names])
    show "r = r'" if "r \<in> set rs" "r' \<in> set rs" "us_id r = i" "us_id r' = i" for r r'
      using distinct_key_eq [OF ids that(1,2)] that by simp
  qed (use assms(4) in auto)
  moreover have "distinct (map us_id (update_rows (\<lambda>r. us_id r = i) f rs))"
    using ids by (simp add: map_key_update_rows assms(2))
  ultimately show ?thesis using assms(1,3) assms(2)
    by (auto simp: users_ok_def set_update_rows)
qed

lemma users_ok_update_same_name:
  assumes ok: "users_ok rs n" and "\<And>r. us_id (f r) = us_id r" and same: "\<And>r. us_name (f r) = us_name r"
    and "\<And>r. r \<in> set rs \<Longrightarrow> us_id r = i \<Longrightarrow> us_role (f r) \<in> set valid_roles
        \<and> (max_failed_attempts \<le> us_failed (f r) \<longrightarrow> us_locked (f r) \<noteq> None)"
  shows "users_ok (update_rows (\<lambda>r. us_id r = i) f rs) n"
proof (rule users_ok_update [OF assms(1,2,4)])
  fix r r' assume m: "r \<in> set rs" "r' \<in> set rs" "us_id r = i" "us_id r' \<noteq> i"
  have "distinct (map (nocase \<circ> us_name) rs)" using ok by (simp add: users_ok_def)
  from distinct_key_eq [OF this m(1,2)] m(3,4)
  show "nocase (us_name (f r)) \<noteq> nocase (us_name r')" by (auto simp: same)
qed

lemma keyed_forget [intro]: "keyed_caches c \<Longrightarrow> keyed_caches (c(p := (c p)(i := None)))"
  by (auto simp: keyed_caches_def)

lemma mirrored_update:
  assumes "mirrored rs az" and "\<And>r. us_id (f r) = us_id r" and "\<And>r. us_active (f r) = us_active r"
  shows "mirrored (update_rows p f rs) az"
  using assms by (simp add: mirrored_def update_rows_def)

section \<open>The primitives keep the invariant\<close>

lemma sessions_ok_filter: "sessions_ok ids ss n \<Longrightarrow> sessions_ok ids (filter p ss) n"
  by (auto simp: sessions_ok_def distinct_map_filter_key)

lemma sessions_ok_insert:
  "sessions_ok ids ss n \<Longrightarrow> i \<in> ids \<Longrightarrow>
     sessions_ok ids (ss @ [\<lparr>ss_id = n, ss_user = i, ss_hash = h, ss_expires = e\<rparr>]) (Suc n)"
  by (auto simp: sessions_ok_def less_Suc_eq)

lemma invalidate_inside:
  "invalidate_active_user_cache i (insert_session j h e db)
     = insert_session j h e (invalidate_active_user_cache i db)"
  "invalidate_active_user_cache i (delete_sessions p db)
     = delete_sessions p (invalidate_active_user_cache i db)"
  by (simp_all add: invalidate_active_user_cache_def set_cache_def insert_session_def delete_sessions_def)

lemma inv_record [inv_intros]: "accounts_inv db \<Longrightarrow> accounts_inv (record_event ev u db)"
  by (simp add: accounts_inv_def)

lemma inv_invalidate [inv_intros]:
  "accounts_inv db \<Longrightarrow> accounts_inv (invalidate_active_user_cache i db)"
  by (simp add: accounts_inv_def keyed_forget)

lemma inv_delete_sessions [inv_intros]: "accounts_inv db \<Longrightarrow> accounts_inv (delete_sessions p db)"
  by (simp add: accounts_inv_def sessions_ok_filter)

lemma find_user_fields [simp]:
  "find_user (insert_session i h e db) j = find_user db j"
  "find_user (delete_sessions p db) j = find_user db j"
  "find_user (record_event ev u db) j = find_user db j"
  "find_user (invalidate_active_user_cache i db) j = find_user db j"
  "find_user (assign_user_to_default_vault i db) j = find_user db j"
  by (simp_all add: find_user_def)

lemma find_user_set_user:
  "(\<And>r. us_id (f r) = us_id r) \<Longrightarrow> find_user (set_user i f db) j = None \<longleftrightarrow> find_user db j = None"
  unfolding find_user_def set_user_fields by (subst find_map_update_rows) simp_all

lemma inv_insert_session [inv_intros]:
  "accounts_inv db \<Longrightarrow> find_user db i \<noteq> None \<Longrightarrow> accounts_inv (insert_session i h e db)"
  unfolding find_user_id by (simp add: accounts_inv_def sessions_ok_insert)

lemma inv_touch:
  assumes "accounts_inv db" and "\<And>r. us_id (f r) = us_id r" and "\<And>r. us_active (f r) = us_active r"
    and "users_ok (update_rows (\<lambda>r. us_id r = i) f (user_rows db)) (next_user db)"
  shows "accounts_inv (invalidate_active_user_cache i (set_user i f db))"
  using assms(1,4) mirrored_update [of _ _ f]
  by (simp add: accounts_inv_def ids_update_rows keyed_forget assms(2,3))

lemma inv_touch_row:
  assumes "accounts_inv db" and "\<And>r. us_id (f r) = us_id r" and "\<And>r. us_active (f r) = us_active r"
    and "\<And>r. us_name (f r) = us_name r"
    and "\<And>r. r \<in> set (user_rows db) \<Longrightarrow> us_id r = i \<Longrightarrow> us_role (f r) \<in> set valid_roles
        \<and> (max_failed_attempts \<le> us_failed (f r) \<longrightarrow> us_locked (f r) \<noteq> None)"
  shows "accounts_inv (invalidate_active_user_cache i (set_user i f db))"
  by (rule inv_touch [OF assms(1-3)], rule users_ok_update_same_name)
    (use assms in \<open>auto simp: accounts_inv_def\<close>)

lemma inv_set_invisible:
  assumes "accounts_inv db" and "\<And>r. user_view_of (f r) = user_view_of r"
    and "\<And>r. r \<in> set (user_rows db) \<Longrightarrow> us_id r = i \<Longrightarrow>
        max_failed_attempts \<le> us_failed (f r) \<longrightarrow> us_locked (f r) \<noteq> None"
  shows "accounts_inv (set_user i f db)"
proof -
  have same: "us_id (f r) = us_id r" "us_active (f r) = us_active r" "us_name (f r) = us_name r"
      "us_role (f r) = us_role r" for r
    using assms(2) [of r] by (auto simp: user_view_of_def)
  have "users_ok (update_rows (\<lambda>r. us_id r = i) f (user_rows db)) (next_user db)"
    by (rule users_ok_update_same_name)
      (use assms(1,3) same in \<open>auto simp: accounts_inv_def users_ok_def\<close>)
  then show ?thesis
    using assms(1) mirrored_update [of _ _ f] assms(2)
    by (simp add: accounts_inv_def ids_update_rows same)
qed

lemma inv_new_user:
  assumes inv: "accounts_inv db" and "find_name db n = None" and "r \<in> set valid_roles"
  shows "accounts_inv (assign_user_to_default_vault j (insert_user n p f r m db))"
proof -
  have "nocase (us_name x) \<noteq> nocase n" if "x \<in> set (user_rows db)" for x
    using find_NoneD [OF assms(2) [unfolded find_name_def] that] .
  then have "nocase n \<notin> (nocase \<circ> us_name) ` set (user_rows db)" by fastforce
  then have "users_ok (user_rows db @ [new_user_row (next_user db) n p f r m]) (Suc (next_user db))"
    using inv assms(3)
    by (fastforce simp: accounts_inv_def users_ok_def new_user_row_def less_Suc_eq max_failed_attempts_def)
  then show ?thesis using inv
    by (auto simp: accounts_inv_def sessions_ok_def mirrored_def new_user_row_def)
qed

lemma find_new_user: "find_user (insert_user n p f r m db) (next_user db) \<noteq> None"
  unfolding find_user_id by (simp add: new_user_row_def)

lemma inv_delete_rows:
  assumes "accounts_inv db"
  shows "accounts_inv (invalidate_active_user_cache i (delete_user_rows i db))"
proof -
  have "users_ok (filter (\<lambda>r. us_id r \<noteq> i) (user_rows db)) (next_user db)"
    using assms by (auto simp: accounts_inv_def users_ok_def distinct_map_filter_key)
  moreover have "keyed_caches (active_users db)" using assms by (simp add: accounts_inv_def)
  moreover have "sessions_ok (us_id ` set (filter (\<lambda>r. us_id r \<noteq> i) (user_rows db)))
      (filter (\<lambda>s. ss_user s \<noteq> i) (session_rows db)) (next_session db)"
    using assms by (fastforce simp: accounts_inv_def sessions_ok_def distinct_map_filter_key)
  moreover have "mirrored (filter (\<lambda>r. us_id r \<noteq> i) (user_rows db)) (delete_user_grants i (access db))"
    using assms by (simp add: accounts_inv_def mirrored_def filter_map comp_def)
  ultimately show ?thesis by (simp add: accounts_inv_def keyed_forget)
qed

lemma inv_set_active:
  assumes "accounts_inv db"
  shows "accounts_inv (invalidate_active_user_cache i (set_active i on db))"
proof -
  let ?f = "\<lambda>r. r\<lparr>us_active := on\<rparr>"
  have "users_ok (update_rows (\<lambda>r. us_id r = i) ?f (user_rows db)) (next_user db)"
    by (rule users_ok_update_same_name) (use assms in \<open>auto simp: accounts_inv_def users_ok_def\<close>)
  moreover have "mirrored (update_rows (\<lambda>r. us_id r = i) ?f (user_rows db)) (access (set_active i on db))"
    using assms by (simp add: accounts_inv_def mirrored_def update_rows_def)
  ultimately show ?thesis using assms by (simp add: accounts_inv_def ids_update_rows keyed_forget)
qed

lemma inv_deny [inv_intros]:
  "accounts_inv db \<Longrightarrow> accounts_inv (deny_access_token j i e db)"
  "accounts_inv db \<Longrightarrow> accounts_inv (purge_expired_denied_tokens now db)"
  by (simp_all add: accounts_inv_def)

text \<open>The resolution of a caller writes nothing but the cache of its process.\<close>

lemma cache_write_fields [simp]:
  "user_rows (drop_expired env s i db) = user_rows db" "user_rows (write_back env now i v db) = user_rows db"
  "session_rows (drop_expired env s i db) = session_rows db" "session_rows (write_back env now i v db) = session_rows db"
  "denied_rows (drop_expired env s i db) = denied_rows db" "denied_rows (write_back env now i v db) = denied_rows db"
  "here (drop_expired env s i db) = here db" "here (write_back env now i v db) = here db"
  "audit_log (drop_expired env s i db) = audit_log db" "audit_log (write_back env now i v db) = audit_log db"
  "next_user (drop_expired env s i db) = next_user db" "next_user (write_back env now i v db) = next_user db"
  "next_session (drop_expired env s i db) = next_session db" "next_session (write_back env now i v db) = next_session db"
  "access (drop_expired env s i db) = access db" "access (write_back env now i v db) = access db"
  by (simp_all add: drop_expired_def write_back_def split: option.split prod.split)

lemma load_user_fields [simp]:
  "user_rows (snd (load_user env s db0 now i db)) = user_rows db"
  "session_rows (snd (load_user env s db0 now i db)) = session_rows db"
  "denied_rows (snd (load_user env s db0 now i db)) = denied_rows db"
  "here (snd (load_user env s db0 now i db)) = here db"
  "next_user (snd (load_user env s db0 now i db)) = next_user db"
  "next_session (snd (load_user env s db0 now i db)) = next_session db"
  "access (snd (load_user env s db0 now i db)) = access db"
  by (simp_all add: load_user_def Let_def split: option.split)

text \<open>How a resolution ends: no state, the state after the row was loaded, or that one with the entry removed.\<close>

lemma resolve_state_cases:
  obtains (unread) "snd (resolve_active_user env now fp m path tok snap db) = db"
  | (loaded) s db0 i where "read_row snap (now, db) = (s, db0)"
      "snd (resolve_active_user env now fp m path tok snap db) = snd (load_user env s db0 now i db)"
  | (dropped) s db0 i where "read_row snap (now, db) = (s, db0)"
      "snd (resolve_active_user env now fp m path tok snap db)
        = invalidate_active_user_cache i (snd (load_user env s db0 now i db))"
proof -
  obtain s db0 where r: "read_row snap (now, db) = (s, db0)" by fastforce
  show thesis
  proof (cases "\<exists>t c i. tok = Some t \<and> env_users_enabled env \<and> env_decode env s t = Inr c \<and> accept_claims fp c db0 = Some i")
    case False
    then have "snd (resolve_active_user env now fp m path tok snap db) = db"
      by (simp add: resolve_active_user_def r split: option.split sum.split)
    then show ?thesis by (rule unread)
  next
    case True
    then obtain t c i where t: "tok = Some t" "env_users_enabled env" "env_decode env s t = Inr c" "accept_claims fp c db0 = Some i"
      by blast
    obtain x db1 where l: "load_user env s db0 now i db = (x, db1)" by fastforce
    then have "snd (resolve_active_user env now fp m path tok snap db)
        \<in> {db1, invalidate_active_user_cache i db1}"
      by (cases x) (simp_all add: resolve_active_user_def r t)
    then show ?thesis using loaded [OF r, of i] dropped [OF r, of i] l by auto
  qed
qed

lemma resolve_fields [simp]:
  "user_rows (snd (resolve_active_user env now fp m path tok snap db)) = user_rows db"
  "session_rows (snd (resolve_active_user env now fp m path tok snap db)) = session_rows db"
  "denied_rows (snd (resolve_active_user env now fp m path tok snap db)) = denied_rows db"
  "here (snd (resolve_active_user env now fp m path tok snap db)) = here db"
  "next_user (snd (resolve_active_user env now fp m path tok snap db)) = next_user db"
  "next_session (snd (resolve_active_user env now fp m path tok snap db)) = next_session db"
  "access (snd (resolve_active_user env now fp m path tok snap db)) = access db"
  by (cases rule: resolve_state_cases [of env now fp m path tok snap db]; simp)+

lemma load_user_keyed:
  assumes "keyed_caches (active_users db)"
  shows "keyed_caches (active_users (snd (load_user env s db0 now i db)))"
proof -
  have d: "keyed_caches (active_users (drop_expired env s i db))"
    using assms by (auto simp: drop_expired_def split: option.split prod.split)
  have "keyed_caches (active_users (write_back env now i (user_view_of r) (drop_expired env s i db)))"
    if "find_user db0 i = Some r" for r
    using d find_user_SomeD [OF that] by (auto simp: write_back_def keyed_caches_def user_view_of_def)
  with assms d show ?thesis by (simp add: load_user_def Let_def split: option.split)
qed

section \<open>Every request keeps it\<close>

lemma register_inv: "accounts_inv db \<Longrightarrow> accounts_inv (snd (register env t n p f pw h db))"
  using find_new_user
  by (auto simp: register_def Let_def valid_roles_def intro!: inv_record inv_insert_session inv_new_user)

lemma record_failed_attempt_inv:
  assumes inv: "accounts_inv db" and res: "record_failed_attempt now i db = (n, db')"
  shows "accounts_inv db'"
proof (cases "find_user db i")
  case None
  with assms show ?thesis by (simp add: record_failed_attempt_def)
next
  case (Some r)
  have one: "x = r" if "x \<in> set (user_rows db)" "us_id x = i" for x
    using that find_user_SomeD [OF Some] inv distinct_key_eq [of us_id "user_rows db" x r]
    by (auto simp: accounts_inv_def users_ok_def)
  have "accounts_inv (set_user i (\<lambda>r. r\<lparr>us_failed := us_failed r + 1, us_locked := l r\<rparr>) db)"
    if "max_failed_attempts \<le> us_failed r + 1 \<longrightarrow> l r \<noteq> None" for l
    by (rule inv_set_invisible [OF inv]) (use that one in \<open>auto simp: user_view_of_def\<close>)
  with Some res show ?thesis by (auto simp: record_failed_attempt_def Let_def)
qed

lemma login_create_session_inv:
  "accounts_inv db \<Longrightarrow> login_create_session now i h new db = Some db' \<Longrightarrow> accounts_inv db'"
  by (auto simp: login_create_session_def user_view_of_def max_failed_attempts_def split: if_splits
      intro!: inv_set_invisible inv_delete_sessions inv_insert_session)

lemma login_inv: "accounts_inv db \<Longrightarrow> accounts_inv (snd (login env t n p pw h snap db))"
  by (auto simp: login_def login_respond_def split: option.splits prod.splits
      intro: inv_record login_create_session_inv record_failed_attempt_inv)

lemma revoke_family_inv: "accounts_inv db \<Longrightarrow> accounts_inv (revoke_family ok i db)"
  by (simp add: revoke_family_def inv_intros)

lemma refresh_inv: "accounts_inv db \<Longrightarrow> accounts_inv (snd (refresh env t ok tok h snap db))"
  by (auto simp: refresh_def refresh_respond_def rotate_refresh_token_def split: option.splits
      intro: inv_delete_sessions inv_insert_session revoke_family_inv)

lemma logout_inv: "accounts_inv db \<Longrightarrow> accounts_inv (logout env t b tok db)"
  by (auto simp: logout_def logout_access_def Let_def split: option.splits sum.splits
      intro: inv_intros)

lemma load_user_inv: "accounts_inv db \<Longrightarrow> accounts_inv (snd (load_user env s db0 now i db))"
  using load_user_keyed [of db env s db0 now i] by (simp add: accounts_inv_def)

lemma resolve_inv:
  "accounts_inv db \<Longrightarrow> accounts_inv (snd (resolve_active_user env t fp m path tok snap db))"
  by (cases rule: resolve_state_cases [of env t fp m path tok snap db])
    (simp_all add: load_user_inv inv_invalidate)

lemma inv_rowD:
  assumes "accounts_inv db" and "r \<in> set (user_rows db)"
  shows "us_role r \<in> set valid_roles \<and> (max_failed_attempts \<le> us_failed r \<longrightarrow> us_locked r \<noteq> None)"
  using assms by (simp add: accounts_inv_def users_ok_def)

text \<open>A touched row that keeps name, role and lock.\<close>

lemma inv_touch_plain:
  assumes "accounts_inv db" and "\<And>r. us_id (f r) = us_id r" and "\<And>r. us_active (f r) = us_active r"
    and "\<And>r. us_name (f r) = us_name r" and "\<And>r. us_role (f r) = us_role r"
    and "\<And>r. us_failed (f r) = us_failed r \<and> us_locked (f r) = us_locked r \<or> us_failed (f r) = 0"
  shows "accounts_inv (invalidate_active_user_cache i (set_user i f db))"
proof (rule inv_touch_row [OF assms(1-4)])
  fix r assume "r \<in> set (user_rows db)"
  from inv_rowD [OF assms(1) this] assms(5,6) [of r]
  show "us_role (f r) \<in> set valid_roles \<and> (max_failed_attempts \<le> us_failed (f r) \<longrightarrow> us_locked (f r) \<noteq> None)"
    by (auto simp: max_failed_attempts_def)
qed

lemma change_password_inv:
  assumes "accounts_inv db"
  shows "accounts_inv (snd (change_password env t a cur new pw h db))"
proof -
  have "accounts_inv (insert_session i h e (delete_sessions p (invalidate_active_user_cache i
      (set_user i (\<lambda>r. r\<lparr>us_password := pw, us_must_change := False, us_pwd_changed := t\<rparr>) db))))"
    if "find_user db i \<noteq> None" for i e p
    using that
    by (intro inv_insert_session inv_delete_sessions inv_touch_plain assms) (simp_all add: find_user_set_user)
  moreover have "find_user db (us_id r) \<noteq> None" if "find_user db j = Some r" for j r
    using that find_user_SomeD [OF that] by simp
  ultimately show ?thesis using assms
    by (auto simp: change_password_def invalidate_inside split: option.splits intro!: inv_record)
qed

lemma update_me_inv: "accounts_inv db \<Longrightarrow> accounts_inv (snd (update_me a f db))"
  by (auto simp: update_me_def split: option.splits intro!: inv_touch_plain)

lemma revoke_session_inv: "accounts_inv db \<Longrightarrow> accounts_inv (snd (revoke_session a s db))"
  by (simp add: revoke_session_def inv_intros)

lemma revoke_all_inv:
  assumes "accounts_inv db"
  shows "accounts_inv (snd (revoke_all_sessions env t a tok h db))"
proof -
  have "accounts_inv (db\<lparr>session_rows := update_rows p (\<lambda>s. s\<lparr>ss_hash := x, ss_expires := e\<rparr>) (session_rows db)\<rparr>)"
    if "accounts_inv db" for db p x e
    using that by (auto simp: accounts_inv_def sessions_ok_def map_key_update_rows set_update_rows)
  then show ?thesis using assms
    by (simp add: revoke_all_sessions_def Let_def inv_record inv_delete_sessions
        del: delete_sessions_fields split: option.split)
qed

lemma assigned_role_valid: "assert_can_assign_role x y r = None \<Longrightarrow> r \<in> set valid_roles"
  unfolding assert_can_assign_role_def by (cases "r \<in> set valid_roles") simp_all

lemma create_user_inv: "accounts_inv db \<Longrightarrow> accounts_inv (snd (create_user env a n p f r pw db))"
  by (auto simp: create_user_def split: option.splits dest: assigned_role_valid
      intro!: inv_record inv_new_user)

lemma update_user_respond_cases:
  obtains (kept) "snd (update_user_respond a i b snap db) = db"
  | (patched) t where "snap = Some t" "\<not> name_taken db i (up_name b)"
      "role_patch_error a i (us_role t) (up_role b) = None"
      "assert_can_modify_target (vw_role a) (us_role t) = None"
      "\<not> (up_role b \<noteq> None \<and> us_role t = ''superadmin'' \<and> up_role b \<noteq> Some ''superadmin''
          \<and> us_active t \<and> (find_user db i = None \<or> active_superadmins db \<le> 1))"
      "snd (update_user_respond a i b snap db)
         = record_event ''user.updated'' (Some i)
             (invalidate_active_user_cache i (set_user i (apply_patch b) db))"
proof (cases snap)
  case None
  then show thesis by (intro kept) (simp add: update_user_respond_def)
next
  case (Some t)
  show thesis
  proof (cases "assert_can_modify_target (vw_role a) (us_role t)")
    case (Some e)
    with \<open>snap = Some t\<close> show thesis by (intro kept) (simp add: update_user_respond_def)
  next
    case m: None
    show thesis
    proof (cases "role_patch_error a i (us_role t) (up_role b)")
      case (Some e)
      with \<open>snap = Some t\<close> m show thesis by (intro kept) (simp add: update_user_respond_def)
    next
      case None
      note defs = update_user_respond_def \<open>snap = Some t\<close> m None option.case
      show thesis
      proof (cases "name_taken db i (up_name b)
          \<or> up_name b = None \<and> up_full_name b = None \<and> up_role b = None
          \<or> (up_role b \<noteq> None \<and> us_role t = ''superadmin'' \<and> up_role b \<noteq> Some ''superadmin''
            \<and> us_active t \<and> (find_user db i = None \<or> active_superadmins db \<le> 1))")
        case True
        then show thesis by (intro kept) (unfold defs, elim disjE conjE; simp)
      next
        case False
        then have c: "\<not> name_taken db i (up_name b)"
            "\<not> (up_name b = None \<and> up_full_name b = None \<and> up_role b = None)"
            "\<not> (up_role b \<noteq> None \<and> us_role t = ''superadmin'' \<and> up_role b \<noteq> Some ''superadmin''
               \<and> us_active t \<and> (find_user db i = None \<or> active_superadmins db \<le> 1))"
          by blast+
        show thesis
          by (rule patched [OF \<open>snap = Some t\<close> c(1) None m c(3)])
            (simp only: defs if_not_P [OF c(1)] if_not_P [OF c(2)] if_not_P [OF c(3)] snd_conv)
      qed
    qed
  qed
qed

lemma update_user_inv:
  assumes inv: "accounts_inv db"
  shows "accounts_inv (snd (update_user a i b snap db))"
proof -
  have "accounts_inv (invalidate_active_user_cache i (set_user i (apply_patch b) db))"
    if n: "\<not> name_taken db i (up_name b)" and r: "role_patch_error a i x (up_role b) = None" for x
  proof (rule inv_touch [OF inv])
    show "users_ok (update_rows (\<lambda>r. us_id r = i) (apply_patch b) (user_rows db)) (next_user db)"
    proof (rule users_ok_update)
      show "users_ok (user_rows db) (next_user db)" using inv by (simp add: accounts_inv_def)
    next
      fix q assume "q \<in> set (user_rows db)"
      from inv_rowD [OF inv this] r
      show "us_role (apply_patch b q) \<in> set valid_roles \<and>
          (max_failed_attempts \<le> us_failed (apply_patch b q) \<longrightarrow> us_locked (apply_patch b q) \<noteq> None)"
        by (auto simp: apply_patch_def role_patch_error_def dest: assigned_role_valid
            split: option.splits if_splits)
    next
      fix q q' assume m: "q \<in> set (user_rows db)" "q' \<in> set (user_rows db)" "us_id q = i" "us_id q' \<noteq> i"
      have "distinct (map (nocase \<circ> us_name) (user_rows db))"
        using inv by (simp add: accounts_inv_def users_ok_def)
      from distinct_key_eq [OF this m(1,2)] m n
      show "nocase (us_name (apply_patch b q)) \<noteq> nocase (us_name q')"
        by (auto simp: apply_patch_def name_taken_def list_ex_iff split: option.splits)
    qed (simp add: apply_patch_def)
  qed (simp_all add: apply_patch_def)
  then have "accounts_inv (snd (update_user_respond a i b s db))" for s
    by (cases rule: update_user_respond_cases [of a i b s db]) (use inv in \<open>auto intro: inv_record\<close>)
  then show ?thesis using inv by (simp add: update_user_def)
qed

lemma admin_reset_inv:
  "accounts_inv db \<Longrightarrow> accounts_inv (snd (admin_reset_password env t a i new pw db))"
  by (auto simp: admin_reset_password_def invalidate_inside split: option.splits
      intro!: inv_record inv_delete_sessions inv_touch_plain)

lemma update_role_inv:
  assumes inv: "accounts_inv db"
  shows "accounts_inv (snd (update_user_role a i role snap db))"
proof -
  have "accounts_inv (invalidate_active_user_cache i (set_user i (\<lambda>r. r\<lparr>us_role := role\<rparr>) db))"
    if "role \<in> set valid_roles"
    by (rule inv_touch_row [OF inv]) (use that inv_rowD [OF inv] in auto)
  then show ?thesis using inv
    by (auto simp: update_user_role_def update_user_role_respond_def
        split: option.splits dest: assigned_role_valid intro!: inv_record)
qed

lemma update_active_inv:
  assumes "accounts_inv db"
  shows "accounts_inv (snd (update_user_active a i on snap db))"
  using inv_set_active [OF assms, of i on] assms
  by (auto simp: update_user_active_def update_user_active_respond_def invalidate_inside
      split: option.splits intro!: inv_record inv_delete_sessions)

lemma delete_user_inv:
  "accounts_inv db \<Longrightarrow> accounts_inv (snd (delete_user a i snap db))"
  by (auto simp: delete_user_def split: option.splits prod.splits intro!: inv_record inv_delete_rows)

lemmas request_inv = register_inv login_inv refresh_inv logout_inv resolve_inv change_password_inv
  update_me_inv revoke_session_inv revoke_all_inv create_user_inv update_user_inv admin_reset_inv
  update_role_inv update_active_inv delete_user_inv

lemma schedule_inv: "accounts_inv db \<Longrightarrow> accounts_inv (db\<lparr>here := p\<rparr>)"
  by (simp add: accounts_inv_def)

lemma exec_account_inv: "accounts_inv db \<Longrightarrow> accounts_inv (exec_account env c db)"
  by (cases c) (simp_all add: request_inv schedule_inv)

lemma run_accounts_inv: "accounts_inv db \<Longrightarrow> accounts_inv (run_accounts env ops db)"
  unfolding run_accounts_def by (induction ops arbitrary: db) (simp_all add: exec_account_inv)

lemma empty_accounts_inv: "accounts_inv empty_accounts"
  by (simp add: accounts_inv_def empty_accounts_def users_ok_def sessions_ok_def keyed_caches_def mirrored_def)

section \<open>An active superadmin remains\<close>

definition superadmin_row :: "user_row \<Rightarrow> bool" where
  "superadmin_row r \<longleftrightarrow> us_role r = ''superadmin'' \<and> us_active r"

definition has_superadmin :: "accounts \<Rightarrow> bool" where
  "has_superadmin db \<longleftrightarrow> (\<exists>r \<in> set (user_rows db). superadmin_row r)"

lemma active_superadmins_filter:
  "active_superadmins db = length (filter superadmin_row (user_rows db))"
proof -
  have "superadmin_row = (\<lambda>r. us_role r = ''superadmin'' \<and> us_active r)"
    by (simp add: fun_eq_iff superadmin_row_def)
  then show ?thesis by (simp add: active_superadmins_def rowcount_def)
qed

lemma has_superadmin_mono:
  "has_superadmin db \<Longrightarrow> set (user_rows db) \<subseteq> set (user_rows db') \<Longrightarrow> has_superadmin db'"
  by (auto simp: has_superadmin_def)

lemma has_superadmin_same:
  "user_rows db' = user_rows db \<Longrightarrow> has_superadmin db' = has_superadmin db"
  by (simp add: has_superadmin_def)

lemma has_superadmin_update:
  assumes "has_superadmin db" and "user_rows db' = update_rows p f (user_rows db)"
    and "\<And>r. r \<in> set (user_rows db) \<Longrightarrow> p r \<Longrightarrow> superadmin_row r \<Longrightarrow> superadmin_row (f r)"
  shows "has_superadmin db'"
proof -
  obtain r where r: "r \<in> set (user_rows db)" "superadmin_row r"
    using assms(1) by (auto simp: has_superadmin_def)
  from in_update_rows [OF r(1), of p f] assms(2,3) r show ?thesis
    unfolding has_superadmin_def by (intro bexI [of _ "if p r then f r else r"]) auto
qed

lemma another_superadmin:
  assumes "distinct (map us_id (user_rows db))" and "\<not> active_superadmins db \<le> 1"
  shows "\<exists>r \<in> set (user_rows db). us_id r \<noteq> i \<and> superadmin_row r"
proof (rule ccontr)
  assume none: "\<not> ?thesis"
  let ?s = "filter superadmin_row (user_rows db)"
  have d: "distinct (map us_id ?s)" using assms(1) by (rule distinct_map_filter_key)
  have "set (map us_id ?s) \<subseteq> {i}" using none by auto
  then have "card (set (map us_id ?s)) \<le> card {i}" by (intro card_mono) auto
  with d have "length (map us_id ?s) \<le> 1" by (simp only: distinct_card) simp
  with assms(2) show False by (simp add: active_superadmins_filter)
qed

text \<open>A guarded change of one row, and a change of a row that takes no superadmin away.\<close>

lemma has_superadmin_touch:
  assumes inv: "accounts_inv db" and has: "has_superadmin db"
    and rows: "user_rows db' = update_rows (\<lambda>r. us_id r = i) f (user_rows db)"
    and guard: "\<not> active_superadmins db \<le> 1
      \<or> (\<forall>t. find_user db i = Some t \<longrightarrow> superadmin_row t \<longrightarrow> superadmin_row (f t))"
  shows "has_superadmin db'"
proof (cases "active_superadmins db \<le> 1")
  case False
  have "distinct (map us_id (user_rows db))" using inv by (simp add: accounts_inv_def users_ok_def)
  from another_superadmin [OF this False, of i]
  obtain r where "r \<in> set (user_rows db)" "us_id r \<noteq> i" "superadmin_row r" by blast
  with in_update_rows [of r "user_rows db" "\<lambda>r. us_id r = i" f] show ?thesis
    unfolding has_superadmin_def rows by auto
next
  case True
  have d: "distinct (map us_id (user_rows db))" using inv by (simp add: accounts_inv_def users_ok_def)
  show ?thesis
  proof (rule has_superadmin_update [OF has rows])
    fix r assume r: "r \<in> set (user_rows db)" "us_id r = i" "superadmin_row r"
    have "find_user db i = Some r" using find_unique_key [OF d r(1)] r(2) by (simp add: find_user_def)
    with guard True r(3) show "superadmin_row (f r)" by blast
  qed
qed

lemma update_user_superadmin:
  assumes inv: "accounts_inv db" and has: "has_superadmin db"
  shows "has_superadmin (snd (update_user a i b None db))"
proof -
  have "has_superadmin (snd (update_user_respond a i b (find_user db i) db))"
  proof (cases rule: update_user_respond_cases [of a i b "find_user db i" db])
    case kept
    then show ?thesis using has by simp
  next
    case (patched t)
    show ?thesis unfolding patched(6)
    proof (rule has_superadmin_touch [OF inv has])
      show "\<not> active_superadmins db \<le> 1
        \<or> (\<forall>t. find_user db i = Some t \<longrightarrow> superadmin_row t \<longrightarrow> superadmin_row (apply_patch b t))"
        using patched(1,5) by (auto simp: superadmin_row_def apply_patch_def split: option.splits)
    qed simp
  qed
  then show ?thesis using has by (simp add: update_user_def read_row_def)
qed

lemma update_role_superadmin:
  assumes inv: "accounts_inv db" and has: "has_superadmin db"
  shows "has_superadmin (snd (update_user_role a i role None db))"
proof -
  have "has_superadmin (record_event ev u (invalidate_active_user_cache i
      (set_user i (\<lambda>r. r\<lparr>us_role := role\<rparr>) db)))"
    if "find_user db i = Some t" "\<not> (us_role t = ''superadmin'' \<and> role \<noteq> ''superadmin''
        \<and> active_superadmins db \<le> 1)" for ev u t
    by (rule has_superadmin_touch [OF inv has, of _ i "\<lambda>r. r\<lparr>us_role := role\<rparr>"])
      (use that in \<open>auto simp: superadmin_row_def\<close>)
  then show ?thesis using has
    by (simp add: update_user_role_def update_user_role_respond_def read_row_def split: option.split)
qed

lemma update_active_superadmin:
  assumes inv: "accounts_inv db" and has: "has_superadmin db"
  shows "has_superadmin (snd (update_user_active a i on None db))"
proof -
  let ?f = "\<lambda>r. r\<lparr>us_active := on\<rparr>"
  have ok: "has_superadmin db'"
    if "user_rows db' = update_rows (\<lambda>r. us_id r = i) ?f (user_rows db)" and "find_user db i = Some t"
      and "\<not> (us_role t = ''superadmin'' \<and> \<not> on \<and> us_active t \<and> active_superadmins db \<le> 1)" for db' t
    by (rule has_superadmin_touch [OF inv has that(1)]) (use that in \<open>auto simp: superadmin_row_def\<close>)
  show ?thesis using has
    by (auto simp: update_user_active_def update_user_active_respond_def read_row_def
        split: option.split intro: ok)
qed

lemma delete_user_superadmin:
  assumes inv: "accounts_inv db" and has: "has_superadmin db"
  shows "has_superadmin (snd (delete_user a i None db))"
proof -
  have d: "distinct (map us_id (user_rows db))" using inv by (simp add: accounts_inv_def users_ok_def)
  have "\<exists>r \<in> set (user_rows db). us_id r \<noteq> i \<and> superadmin_row r"
    if t: "find_user db i = Some t" and g: "\<not> (us_role t = ''superadmin'' \<and> active_superadmins db \<le> 1)" for t
  proof (cases "active_superadmins db \<le> 1")
    case False
    then show ?thesis by (rule another_superadmin [OF d])
  next
    case True
    obtain r where r: "r \<in> set (user_rows db)" "superadmin_row r" using has by (auto simp: has_superadmin_def)
    have "us_id r \<noteq> i"
    proof
      assume "us_id r = i"
      then have "find_user db i = Some r" using find_unique_key [OF d r(1)] by (simp add: find_user_def)
      with t g True r(2) show False by (simp add: superadmin_row_def)
    qed
    with r show ?thesis by blast
  qed
  then have "has_superadmin (record_event ev u (invalidate_active_user_cache i (delete_user_rows i db)))"
    if "find_user db i = Some t" "\<not> (us_role t = ''superadmin'' \<and> active_superadmins db \<le> 1)" for ev u t
    using that by (auto simp: has_superadmin_def)
  then show ?thesis using has
    by (auto simp: delete_user_def read_row_def split: option.split)
qed

text \<open>The other requests change no role and no activity.\<close>

definition keeps_standing :: "accounts \<Rightarrow> accounts \<Rightarrow> bool" where
  "keeps_standing db db' \<longleftrightarrow> (\<exists>new. map (\<lambda>r. (us_role r, us_active r)) (user_rows db')
     = map (\<lambda>r. (us_role r, us_active r)) (user_rows db) @ new)"

lemma keeps_standing_superadmin:
  assumes "keeps_standing db db'" and "has_superadmin db"
  shows "has_superadmin db'"
proof -
  obtain r where r: "r \<in> set (user_rows db)" "us_role r = ''superadmin''" "us_active r"
    using assms(2) by (auto simp: has_superadmin_def superadmin_row_def)
  obtain new where "map (\<lambda>r. (us_role r, us_active r)) (user_rows db')
      = map (\<lambda>r. (us_role r, us_active r)) (user_rows db) @ new"
    using assms(1) by (auto simp: keeps_standing_def)
  moreover have "(''superadmin'', True) \<in> set (map (\<lambda>r. (us_role r, us_active r)) (user_rows db) @ new)"
    using r by force
  ultimately have "(''superadmin'', True) \<in> set (map (\<lambda>r. (us_role r, us_active r)) (user_rows db'))"
    by simp
  then show ?thesis by (auto simp: has_superadmin_def superadmin_row_def)
qed

lemma keeps_standing_rows:
  "map (\<lambda>r. (us_role r, us_active r)) (user_rows db')
     = map (\<lambda>r. (us_role r, us_active r)) (user_rows db) \<Longrightarrow> keeps_standing db db'"
  by (simp add: keeps_standing_def)

lemma standing_update:
  "(\<And>r. us_role (f r) = us_role r \<and> us_active (f r) = us_active r) \<Longrightarrow>
     map (\<lambda>r. (us_role r, us_active r)) (update_rows p f rs) = map (\<lambda>r. (us_role r, us_active r)) rs"
  by (rule map_key_update_rows) simp

lemma plain_requests_standing:
  "keeps_standing db (snd (register env t n p f pw h db))"
  "keeps_standing db (snd (create_user env a n p f r pw db))"
  by (simp_all add: keeps_standing_def register_def create_user_def Let_def split: option.split)

lemma same_rows_requests:
  "user_rows (logout env t b tok db) = user_rows db"
  "user_rows (snd (resolve_active_user env t fp m path access_tok snap db)) = user_rows db"
  "user_rows (snd (refresh env t ok tok h rs db)) = user_rows db"
  "user_rows (snd (revoke_session a s db)) = user_rows db"
  "user_rows (snd (revoke_all_sessions env t a tok h db)) = user_rows db"
  by (auto simp: logout_def logout_access_def refresh_def refresh_respond_def
      rotate_refresh_token_def revoke_family_def revoke_session_def revoke_all_sessions_def Let_def
      split: option.split sum.split prod.split)

lemma quiet_requests_standing:
  "keeps_standing db (logout env t b tok db)"
  "keeps_standing db (snd (resolve_active_user env t fp m path access_tok snap db))"
  "keeps_standing db (snd (refresh env t ok tok h rs db))"
  "keeps_standing db (snd (revoke_session a s db))"
  "keeps_standing db (snd (revoke_all_sessions env t a tok h db))"
  by (rule keeps_standing_rows, simp only: same_rows_requests)+

lemma touching_requests_standing:
  "keeps_standing db (snd (login env t n p pw h snap db))"
  "keeps_standing db (snd (change_password env t a cur new pw h db))"
  "keeps_standing db (snd (update_me a fn db))"
  "keeps_standing db (snd (admin_reset_password env t a i new pw db))"
  by (rule keeps_standing_rows,
      simp add: login_def login_respond_def record_failed_attempt_def login_create_session_def
        change_password_def update_me_def admin_reset_password_def Let_def standing_update
        split: option.split)+

lemma schedule_superadmin [simp]: "has_superadmin (db\<lparr>here := p\<rparr>) = has_superadmin db"
  by (simp add: has_superadmin_def)

lemma exec_account_superadmin:
  "accounts_inv db \<Longrightarrow> has_superadmin db \<Longrightarrow> serial c \<Longrightarrow> has_superadmin (exec_account env c db)"
  by (cases c)
    (simp_all add: update_user_superadmin update_role_superadmin update_active_superadmin
      delete_user_superadmin
      keeps_standing_superadmin [OF plain_requests_standing(1)]
      keeps_standing_superadmin [OF plain_requests_standing(2)]
      keeps_standing_superadmin [OF quiet_requests_standing(1)]
      keeps_standing_superadmin [OF quiet_requests_standing(2)]
      keeps_standing_superadmin [OF quiet_requests_standing(3)]
      keeps_standing_superadmin [OF quiet_requests_standing(4)]
      keeps_standing_superadmin [OF quiet_requests_standing(5)]
      keeps_standing_superadmin [OF touching_requests_standing(1)]
      keeps_standing_superadmin [OF touching_requests_standing(2)]
      keeps_standing_superadmin [OF touching_requests_standing(3)]
      keeps_standing_superadmin [OF touching_requests_standing(4)])

lemma run_accounts_superadmin:
  "accounts_inv db \<Longrightarrow> has_superadmin db \<Longrightarrow> list_all serial ops \<Longrightarrow>
     has_superadmin (run_accounts env ops db)"
  unfolding run_accounts_def
  by (induction ops arbitrary: db) (simp_all add: exec_account_inv exec_account_superadmin)

end
