(* ===== verification/Account_Sample.thy ===== *)
theory Account_Sample
  imports Account_Invariants
begin

text \<open>
  A small database and toy instances of the foreign functions, on which the theorems about
  accounts are applied: a superadmin 1, two members 2 and 3, a session of 2, and a vault that
  2 and 3 administer.
\<close>

text \<open>Passwords are stored in the clear, a token is its second of issue.\<close>

definition sample_claims :: "nat \<Rightarrow> claims" where
  "sample_claims n = \<lparr>cl_type = ''access'', cl_jti = Some (replicate n CHR ''i'' @ ''d''),
     cl_sub = Some 2, cl_iat = int n, cl_exp = int n + 900, cl_fpt = None\<rparr>"

definition sample_env :: "nat env" where
  "sample_env = \<lparr>env_users_enabled = True, env_verify = (\<lambda>p s. map of_char s = p),
     env_rehash = (\<lambda>s. False), env_isdigit = (\<lambda>c. 48 \<le> c \<and> c \<le> 57),
     env_isupper = (\<lambda>c. 65 \<le> c \<and> c \<le> 90), env_sha = (\<lambda>s. CHR ''#'' # s),
     env_decode = (\<lambda>now n. if now < cl_exp (sample_claims n) * 1000000
       then Inr (sample_claims n) else Inl TokenExpired),
     env_admin_secret = (\<lambda>n. False), env_cache_ttl = 30 * 1000000\<rparr>"

definition sample_user :: "nat \<Rightarrow> string \<Rightarrow> user_row" where
  "sample_user i role = \<lparr>us_id = i, us_name = [100 + i], us_password = ''Old'', us_full_name = [],
     us_role = role, us_active = True, us_must_change = False, us_failed = 0, us_locked = None,
     us_pwd_changed = 0\<rparr>"

definition sample_session :: session_row where
  "sample_session = \<lparr>ss_id = 1, ss_user = 2, ss_hash = ''#t'', ss_expires = 9000000\<rparr>"

definition sample_access :: authz_db where
  "sample_access = \<lparr>vaults = [\<lparr>vlt_id = 1, vlt_visibility = ''private'', vlt_org = None\<rparr>],
     vault_members =
       [\<lparr>vm_vault = 1, vm_user = 2, vm_permission = ''admin'', vm_granted_by = None\<rparr>,
        \<lparr>vm_vault = 1, vm_user = 3, vm_permission = ''admin'', vm_granted_by = None\<rparr>],
     group_access = [], group_members = [], groups = [], organizations = [],
     org_member_rows = [], users = [(1, True), (2, True), (3, True)], removed_flags = []\<rparr>"

definition sample_accounts :: accounts where
  "sample_accounts = \<lparr>user_rows = [sample_user 1 ''superadmin'', sample_user 2 ''member'',
       sample_user 3 ''member''],
     session_rows = [sample_session], denied_rows = [], active_users = (\<lambda>_. Map.empty), here = 0, audit_log = [],
     next_user = 4, next_session = 2, next_vault = 2, default_vault = None,
     access = sample_access\<rparr>"

definition sample_root :: user_view where
  "sample_root = user_view_of (sample_user 1 ''superadmin'')"

lemma sample_user_fields [simp]:
  "us_id (sample_user i r) = i" "us_name (sample_user i r) = [100 + i]"
  "us_password (sample_user i r) = ''Old''" "us_role (sample_user i r) = r"
  "us_active (sample_user i r)" "us_must_change (sample_user i r) = False"
  "us_failed (sample_user i r) = 0"
  "us_locked (sample_user i r) = None" "us_pwd_changed (sample_user i r) = 0"
  by (simp_all add: sample_user_def)

lemma sample_root_fields [simp]:
  "vw_id sample_root = 1" "vw_role sample_root = ''superadmin''"
  by (simp_all add: sample_root_def user_view_of_def)

lemma sample_claims_fields [simp]:
  "cl_type (sample_claims n) = ''access''"
  "cl_jti (sample_claims n) = Some (replicate n CHR ''i'' @ ''d'')"
  "cl_sub (sample_claims n) = Some 2" "cl_iat (sample_claims n) = int n"
  "cl_exp (sample_claims n) = int n + 900" "cl_fpt (sample_claims n) = None"
  by (simp_all add: sample_claims_def)

lemma sample_env_fields [simp]:
  "env_users_enabled sample_env"
  "env_verify sample_env p s \<longleftrightarrow> map of_char s = p" "env_sha sample_env s = CHR ''#'' # s"
  "env_rehash sample_env s = False" "env_cache_ttl sample_env = 30000000"
  "env_isdigit sample_env c \<longleftrightarrow> 48 \<le> c \<and> c \<le> 57" "env_isupper sample_env c \<longleftrightarrow> 65 \<le> c \<and> c \<le> 90"
  by (simp_all add: sample_env_def)

lemma sample_decode:
  "env_decode sample_env now n = Inr c \<longleftrightarrow> now < (int n + 900) * 1000000 \<and> c = sample_claims n"
  by (auto simp: sample_env_def)

lemma sample_accounts_fields [simp]:
  "user_rows sample_accounts
     = [sample_user 1 ''superadmin'', sample_user 2 ''member'', sample_user 3 ''member'']"
  "session_rows sample_accounts = [sample_session]" "next_session sample_accounts = 2"
  "next_user sample_accounts = 4" "active_users sample_accounts = (\<lambda>_. Map.empty)" "here sample_accounts = 0"
  "access sample_accounts = sample_access" "denied_rows sample_accounts = []"
  by (simp_all add: sample_accounts_def)

lemma sample_find_user:
  "find_user sample_accounts 1 = Some (sample_user 1 ''superadmin'')"
  "find_user sample_accounts 2 = Some (sample_user 2 ''member'')"
  "find_user sample_accounts 3 = Some (sample_user 3 ''member'')"
  by (simp_all add: find_user_def)

lemma sample_find_name: "find_name sample_accounts [102] = Some (sample_user 2 ''member'')"
  by (simp add: find_name_def nocase_def nocase_char_def)

lemma sample_inv: "accounts_inv sample_accounts"
  by (simp add: accounts_inv_def users_ok_def sessions_ok_def keyed_caches_def mirrored_def
      sample_session_def sample_access_def valid_roles_def max_failed_attempts_def nocase_def nocase_char_def)

text \<open>A password that passes the strength check: \<open>New12345\<close>.\<close>

definition sample_new :: pystr where
  "sample_new = [78, 101, 119, 49, 50, 51, 52, 53]"

lemma sample_new_strong: "password_strength_check sample_env sample_new" "length sample_new = 8"
    "sample_new \<noteq> map of_char ''Old''"
  by (simp_all add: password_strength_check_def sample_new_def py_strip_def py_isspace_def)

definition sample_reset :: "nat account_op" where
  "sample_reset = ResetPassword 5000000 sample_root 2 sample_new ''New12345''"

lemma sample_reset_ok:
  "fst (admin_reset_password sample_env 5000000 sample_root 2 sample_new ''New12345'' sample_accounts) = Inr 2"
  by (simp add: admin_reset_password_def sample_new_strong sample_find_user require_level_def
      role_level_def nocase_def lit_def nocase_char_def assert_can_modify_target_def)

end
