(* ===== verification/Account_Properties.thy ===== *)
theory Account_Properties
  imports Account_Sample
begin

text \<open>
  The properties of accounts, sessions and tokens, with their witnesses.
\<close>

section \<open>Refresh tokens\<close>

definition token_hashes :: "accounts \<Rightarrow> string set" where
  "token_hashes db = ss_hash ` set (session_rows db)"

text \<open>The hashes a request may store.\<close>

fun minted :: "'tok account_op \<Rightarrow> string set" where
  "minted (Register t n p f pw h) = {h}"
| "minted (Login t n p pw h snap) = {h}"
| "minted (Refresh t ok tok h snap) = {h}"
| "minted (ChangePassword t a cur new pw h) = {h}"
| "minted (RevokeAll t a tok h) = {h}"
| "minted _ = {}"

lemma hashes_updated:
  "ss_hash ` set (update_rows p (\<lambda>s. s\<lparr>ss_hash := h, ss_expires := e\<rparr>) ss) \<subseteq> insert h (ss_hash ` set ss)"
  by (auto simp: set_update_rows)

lemma login_hashes: "token_hashes (snd (login env t n p pw h snap db)) \<subseteq> insert h (token_hashes db)"
  by (auto simp: token_hashes_def login_def login_respond_def record_failed_attempt_def Let_def
      login_create_session_def split: option.splits if_splits prod.splits)

lemma refresh_hashes: "token_hashes (snd (refresh env t ok tok h snap db)) \<subseteq> insert h (token_hashes db)"
  by (auto simp: token_hashes_def refresh_def refresh_respond_def rotate_refresh_token_def
      revoke_family_def split: option.splits if_splits)

lemma register_hashes: "token_hashes (snd (register env t n p f pw h db)) \<subseteq> insert h (token_hashes db)"
  by (auto simp: token_hashes_def register_def Let_def)

lemma change_password_hashes:
  "token_hashes (snd (change_password env t a cur new pw h db)) \<subseteq> insert h (token_hashes db)"
  by (auto simp: token_hashes_def change_password_def split: option.splits if_splits)

lemma revoke_all_hashes:
  "token_hashes (snd (revoke_all_sessions env t a tok h db)) \<subseteq> insert h (token_hashes db)"
proof (cases "\<exists>x cur. tok = Some x \<and> x \<noteq> '''' \<and>
    find (\<lambda>s. ss_hash s = env_sha env x \<and> ss_user s = vw_id a) (session_rows db) = Some cur")
  case True
  then obtain x cur where x: "tok = Some x" "x \<noteq> ''''"
    "find (\<lambda>s. ss_hash s = env_sha env x \<and> ss_user s = vw_id a) (session_rows db) = Some cur" by blast
  let ?ss = "filter (\<lambda>s. \<not> (ss_user s = vw_id a \<and> ss_id s \<noteq> ss_id cur)) (session_rows db)"
  have "token_hashes (snd (revoke_all_sessions env t a tok h db))
      = ss_hash ` set (update_rows (\<lambda>s. ss_id s = ss_id cur)
          (\<lambda>s. s\<lparr>ss_hash := h, ss_expires := refresh_expiry t\<rparr>) ?ss)"
    by (simp add: token_hashes_def revoke_all_sessions_def Let_def x)
  also have "\<dots> \<subseteq> insert h (ss_hash ` set ?ss)" by (rule hashes_updated)
  also have "\<dots> \<subseteq> insert h (token_hashes db)" by (auto simp: token_hashes_def)
  finally show ?thesis .
next
  case False
  then show ?thesis
    by (auto simp: revoke_all_sessions_def Let_def split: option.splits)
qed

lemma quiet_requests_hashes:
  "token_hashes (logout env t b tok db) \<subseteq> token_hashes db"
  "token_hashes (snd (resolve_active_user env t fp m path access_tok us0 db)) \<subseteq> token_hashes db"
  "token_hashes (snd (update_me a fn db)) \<subseteq> token_hashes db"
  "token_hashes (snd (revoke_session a s db)) \<subseteq> token_hashes db"
  "token_hashes (snd (create_user env a n p f r pw db)) \<subseteq> token_hashes db"
  "token_hashes (snd (admin_reset_password env t a i new pw db)) \<subseteq> token_hashes db"
  "token_hashes (snd (update_user_role a i role us db)) \<subseteq> token_hashes db"
  "token_hashes (snd (update_user_active a i on us db)) \<subseteq> token_hashes db"
  "token_hashes (snd (delete_user a i ds db)) \<subseteq> token_hashes db"
  by (auto simp: token_hashes_def logout_def logout_access_def update_me_def
      revoke_session_def create_user_def admin_reset_password_def update_user_role_def
      update_user_role_respond_def update_user_active_def update_user_active_respond_def
      delete_user_def Let_def split: option.splits sum.splits if_splits prod.splits)

lemma update_user_hashes: "token_hashes (snd (update_user a i b snap db)) \<subseteq> token_hashes db"
proof -
  have "token_hashes (snd (update_user_respond a i b s db)) \<subseteq> token_hashes db" for s
    by (cases rule: update_user_respond_cases [of a i b s db]) (simp_all add: token_hashes_def)
  then show ?thesis by (simp add: update_user_def)
qed

lemma token_hashes_here [simp]: "token_hashes (db\<lparr>here := p\<rparr>) = token_hashes db"
  by (simp add: token_hashes_def)

lemma exec_account_hashes: "token_hashes (exec_account env c db) \<subseteq> minted c \<union> token_hashes db"
  by (cases c) (simp_all add: login_hashes refresh_hashes register_hashes change_password_hashes
      revoke_all_hashes update_user_hashes quiet_requests_hashes)

lemma dead_hash_stays_dead:
  "h \<notin> token_hashes db \<Longrightarrow> h \<notin> \<Union> (minted ` set ops) \<Longrightarrow> h \<notin> token_hashes (run_accounts env ops db)"
  unfolding run_accounts_def
proof (induction ops arbitrary: db)
  case (Cons c ops)
  have "h \<notin> token_hashes (exec_account env c db)"
    using exec_account_hashes [of env c db] Cons.prems by auto
  then show ?case using Cons by simp
qed simp

lemma find_hash_None: "h \<notin> token_hashes db \<Longrightarrow> find (\<lambda>s. ss_hash s = h) (session_rows db) = None"
  by (force simp: token_hashes_def find_None_iff)

text \<open>A dead token is refused, also by a request that read its session while it was alive.\<close>

lemma dead_token_refused:
  assumes "env_sha env tok \<notin> token_hashes db"
    and "\<And>s r. snap = Some (Some (s, r)) \<Longrightarrow> ss_hash s = env_sha env tok"
  shows "fst (refresh env now ok (Some tok) h snap db) \<in> {Inl (Http 401), Inl (Http 403)}"
proof -
  have f: "find_session db (env_sha env tok) = None"
    using find_hash_None [OF assms(1)] by (simp add: find_session_def)
  have "\<not> list_ex (\<lambda>x. ss_id x = j \<and> ss_hash x = env_sha env tok) (session_rows db)" for j
    using assms(1) unfolding token_hashes_def list_ex_iff by force
  with f assms(2) show ?thesis
    by (auto simp: refresh_def refresh_respond_def rotate_refresh_token_def read_row_def
        split: option.splits)
qed

section \<open>Revocation\<close>

text \<open>A successful request after which none of the user's old refresh tokens is left.\<close>

fun revokes_tokens :: "'tok env \<Rightarrow> 'tok account_op \<Rightarrow> nat \<Rightarrow> accounts \<Rightarrow> bool" where
  "revokes_tokens env (ChangePassword t a cur new pw h) u db \<longleftrightarrow>
     fst (change_password env t a cur new pw h db) = Inr u"
| "revokes_tokens env (ResetPassword t a i new pw) u db \<longleftrightarrow>
     i = u \<and> fst (admin_reset_password env t a i new pw db) = Inr i"
| "revokes_tokens env (UpdateActive a i on snap) u db \<longleftrightarrow>
     i = u \<and> \<not> on \<and> fst (update_user_active a i on snap db) = Inr i"
| "revokes_tokens env (DeleteUser a i snap) u db \<longleftrightarrow> i = u \<and> fst (delete_user a i snap db) = Inr i"
| "revokes_tokens env _ u db \<longleftrightarrow> False"

lemma revokes_tokens_sessions:
  assumes "revokes_tokens env c u db" and "h \<notin> minted c"
    and "\<And>s. s \<in> set (session_rows db) \<Longrightarrow> ss_hash s = h \<Longrightarrow> ss_user s = u"
  shows "h \<notin> token_hashes (exec_account env c db)"
  using assms
  by (cases c)
    (auto simp: token_hashes_def change_password_def admin_reset_password_def update_user_active_def
      update_user_active_respond_def delete_user_def image_iff
      split: option.splits if_splits prod.splits)

text \<open>
  C9 A revoked refresh token never works again. Once a password change, an administrator's
  password reset, a deactivation or a deletion of user \<open>u\<close> has succeeded, every refresh
  with a token of \<open>u\<close> from before is refused, whatever requests follow, and also when the
  refresh read the session before the revocation and writes after it.
\<close>

theorem revoked_tokens_stay_dead:
  assumes "revokes_tokens env c u db"
    and "\<And>s. s \<in> set (session_rows db) \<Longrightarrow> ss_hash s = env_sha env tok \<Longrightarrow> ss_user s = u"
    and "env_sha env tok \<notin> \<Union> (minted ` set (c # ops))"
    and "\<And>s r. snap = Some (Some (s, r)) \<Longrightarrow> ss_hash s = env_sha env tok"
  shows "fst (refresh env now ok (Some tok) h snap (run_accounts env ops (exec_account env c db)))
    \<in> {Inl (Http 401), Inl (Http 403)}"
proof (rule dead_token_refused [OF _ assms(4)])
  have "env_sha env tok \<notin> token_hashes (exec_account env c db)"
    using revokes_tokens_sessions [OF assms(1) _ assms(2)] assms(3) by simp
  then show "env_sha env tok \<notin> token_hashes (run_accounts env ops (exec_account env c db))"
    using assms(3) by (intro dead_hash_stays_dead) auto
qed

theorem revoked_tokens_stay_dead_witness:
  "fst (refresh sample_env 7000000 True (Some ''t'') ''#new'' None
     (run_accounts sample_env [] (exec_account sample_env sample_reset sample_accounts)))
   \<in> {Inl (Http 401), Inl (Http 403)}"
  by (rule revoked_tokens_stay_dead [where u = 2])
    (simp_all add: sample_reset_def sample_reset_ok sample_session_def)

section \<open>Rotation\<close>

lemma refresh_successD:
  assumes "fst (refresh env t ok (Some tok) new_h None db) = Inr u"
  obtains s r where "find (\<lambda>s. ss_hash s = env_sha env tok) (session_rows db) = Some s"
    "ss_user s = u" "tok \<noteq> ''''" "find_user db u = Some r" "us_active r" "\<not> ss_expires s < t"
    "snd (refresh env t ok (Some tok) new_h None db)
       = delete_sessions (\<lambda>x. ss_id x = ss_id s) (insert_session u new_h (refresh_expiry t) db)"
proof -
  from assms have ne: "tok \<noteq> ''''" by (auto simp: refresh_def split: if_splits)
  show thesis
  proof (cases "find (\<lambda>s. ss_hash s = env_sha env tok) (session_rows db)")
    case None
    with assms ne show thesis
      by (simp add: refresh_def refresh_respond_def find_session_def read_row_def)
  next
    case (Some s)
    show thesis
    proof (cases "find_user db (ss_user s)")
      case None
      with assms ne Some show thesis
        by (simp add: refresh_def refresh_respond_def find_session_def read_row_def)
    next
      case r: (Some r)
      have i: "us_id r = ss_user s" using find_user_SomeD [OF r] by simp
      from assms ne Some r show thesis
        by (intro that [of s r])
          (auto simp: refresh_def refresh_respond_def find_session_def read_row_def
            rotate_refresh_token_def i split: if_splits)
    qed
  qed
qed

lemma rotated_hash_dead:
  assumes "distinct (map ss_hash (session_rows db))" and "new_h \<noteq> env_sha env tok"
    and "fst (refresh env t ok (Some tok) new_h None db) = Inr u"
  shows "env_sha env tok \<notin> token_hashes (snd (refresh env t ok (Some tok) new_h None db))"
proof -
  from assms(3) obtain s where s: "find (\<lambda>s. ss_hash s = env_sha env tok) (session_rows db) = Some s"
    "snd (refresh env t ok (Some tok) new_h None db)
       = delete_sessions (\<lambda>x. ss_id x = ss_id s) (insert_session u new_h (refresh_expiry t) db)"
    by (rule refresh_successD) blast
  have "x = s" if "x \<in> set (session_rows db)" "ss_hash x = env_sha env tok" for x
    using distinct_key_eq [OF assms(1) that(1)] find_SomeD [OF s(1)] that(2) by auto
  then show ?thesis using assms(2) unfolding s(2) by (auto simp: token_hashes_def)
qed

text \<open>
  A refresh token works once, and its theft goes unnoticed. After a rotation every later
  use of the old token is refused, but where the old token is presented again once the
  rotation is over, the request changes nothing: the session the rotation created is kept,
  although the administrator's guide says that a replay of a rotated token revokes the whole
  family. Only a request that read the session before the rotation and writes after it finds
  the reuse, and then all sessions of the user are deleted.
\<close>

theorem replay_keeps_family:
  assumes "accounts_inv db" and "distinct (map ss_hash (session_rows db))"
    and "new_h \<noteq> env_sha env tok"
    and "refresh env t1 ok1 (Some tok) new_h None db = (Inr u, db1)"
    and "env_sha env tok \<notin> \<Union> (minted ` set ops)" and "db2 = run_accounts env ops db1"
  shows "refresh env t2 ok2 (Some tok) h2 None db2 = (Inl (Http 401), db2)
    \<and> new_h \<in> token_hashes db1
    \<and> refresh env t1 True (Some tok) h2 (Some (find_session db (env_sha env tok))) db1
        = (Inl (Http 401), revoke_family True u db1)
    \<and> u \<notin> ss_user ` set (session_rows (revoke_family True u db1))"
proof -
  have f: "fst (refresh env t1 ok1 (Some tok) new_h None db) = Inr u"
    and d1: "db1 = snd (refresh env t1 ok1 (Some tok) new_h None db)"
    by (simp_all add: assms(4))
  from f obtain s r where s: "find (\<lambda>s. ss_hash s = env_sha env tok) (session_rows db) = Some s"
      "ss_user s = u" "tok \<noteq> ''''" "find_user db u = Some r" "us_active r" "\<not> ss_expires s < t1"
      "db1 = delete_sessions (\<lambda>x. ss_id x = ss_id s) (insert_session u new_h (refresh_expiry t1) db)"
    unfolding d1 by (rule refresh_successD) blast
  have hs: "ss_hash s = env_sha env tok" and ms: "s \<in> set (session_rows db)"
    using find_SomeD [OF s(1)] by simp_all
  have dead1: "env_sha env tok \<notin> token_hashes db1"
    unfolding d1 by (rule rotated_hash_dead [OF assms(2,3) f])
  have "env_sha env tok \<notin> token_hashes db2"
    unfolding assms(6) by (rule dead_hash_stays_dead [OF dead1 assms(5)])
  then have "refresh env t2 ok2 (Some tok) h2 None db2 = (Inl (Http 401), db2)"
    using find_hash_None [of "env_sha env tok" db2]
    by (simp add: refresh_def refresh_respond_def find_session_def read_row_def)
  moreover have "find_session db (env_sha env tok) = Some (s, r)"
    using s by (simp add: find_session_def)
  moreover have "us_id r = u" using find_user_SomeD [OF s(4)] by simp
  moreover have "\<not> list_ex (\<lambda>x. ss_id x = ss_id s \<and> ss_hash x = env_sha env tok) (session_rows db1)"
    using dead1 unfolding token_hashes_def list_ex_iff by force
  moreover have "ss_id s \<noteq> next_session db"
    using assms(1) ms by (auto simp: accounts_inv_def sessions_ok_def)
  then have "new_h \<in> token_hashes db1" by (simp add: s(7) token_hashes_def)
  ultimately show ?thesis using s(3,5,6) hs
    by (auto simp: refresh_def refresh_respond_def read_row_def rotate_refresh_token_def revoke_family_def)
qed

definition sample_rotated :: accounts where
  "sample_rotated = snd (refresh sample_env 5000000 True (Some ''t'') ''#new'' None sample_accounts)"

lemma sample_rotation:
  "refresh sample_env 5000000 True (Some ''t'') ''#new'' None sample_accounts = (Inr 2, sample_rotated)"
proof -
  have "fst (refresh sample_env 5000000 True (Some ''t'') ''#new'' None sample_accounts) = Inr 2"
    by (simp add: refresh_def refresh_respond_def read_row_def find_session_def sample_session_def
        sample_find_user rotate_refresh_token_def)
  then show ?thesis by (simp add: sample_rotated_def prod_eq_iff)
qed

theorem replay_keeps_family_witness:
  "refresh sample_env 6000000 True (Some ''t'') ''#two'' None sample_rotated = (Inl (Http 401), sample_rotated)
   \<and> ''#new'' \<in> token_hashes sample_rotated
   \<and> refresh sample_env 5000000 True (Some ''t'') ''#two''
       (Some (find_session sample_accounts (env_sha sample_env ''t''))) sample_rotated
     = (Inl (Http 401), revoke_family True 2 sample_rotated)
   \<and> 2 \<notin> ss_user ` set (session_rows (revoke_family True 2 sample_rotated))"
  by (rule replay_keeps_family [where ops = "[]", OF sample_inv _ _ sample_rotation])
    (simp_all add: run_accounts_def sample_session_def)

section \<open>Lockout\<close>

lemma find_name_SomeD:
  "find_name db n = Some r \<Longrightarrow> r \<in> set (user_rows db) \<and> nocase (us_name r) = nocase n"
  by (auto simp: find_name_def dest: find_SomeD)

lemma find_name_id:
  assumes "accounts_inv db" and "find_name db n = Some r"
  shows "find_user db (us_id r) = Some r"
  using assms find_name_SomeD [OF assms(2)] find_unique_key [of us_id "user_rows db" r]
  by (simp add: find_user_def accounts_inv_def users_ok_def)

lemma find_name_set_user:
  assumes "\<And>r. us_name (f r) = us_name r"
  shows "find_name (set_user i f db) n = map_option (\<lambda>r. if us_id r = i then f r else r) (find_name db n)"
  unfolding find_name_def set_user_fields
  using find_map_update_rows [of "\<lambda>r. nocase (us_name r)" f "nocase n" "\<lambda>r. us_id r = i"] assms by simp

lemma find_name_record [simp]: "find_name (record_event ev u db) n = find_name db n"
  by (simp add: find_name_def)

definition lock_after :: "int \<Rightarrow> nat \<Rightarrow> int option \<Rightarrow> int option" where
  "lock_after t n old = (if max_failed_attempts \<le> n then Some (t + lockout_period) else old)"

definition lock_open :: "int \<Rightarrow> user_row \<Rightarrow> bool" where
  "lock_open now r \<longleftrightarrow> (case us_locked r of None \<Rightarrow> True | Some l \<Rightarrow> l \<le> now)"

text \<open>A login of an active user, by the state of the lock and the password.\<close>

lemma login_locked:
  assumes "find_name db n = Some r" "us_active r" "\<not> lock_open now r"
    "length n \<le> 255" "length p \<le> 128"
  shows "fst (login env now n p pw h None db) = Inl (Http 423)
    \<and> user_rows (snd (login env now n p pw h None db)) = user_rows db"
  using assms by (auto simp: login_def login_respond_def read_row_def lock_open_def split: option.splits)

lemma login_wrong:
  assumes "accounts_inv db" "find_name db n = Some r" "us_active r" "lock_open now r"
    "length n \<le> 255" "length p \<le> 128" "\<not> env_verify env p (us_password r)"
  shows "fst (login env now n p pw h None db)
      = Inl (Http (if max_failed_attempts \<le> us_failed r + 1 then 423 else 401))
    \<and> find_name (snd (login env now n p pw h None db)) n
      = Some (r\<lparr>us_failed := us_failed r + 1, us_locked := lock_after now (us_failed r + 1) (us_locked r)\<rparr>)"
  using assms find_name_id [OF assms(1,2)]
  by (simp add: login_def login_respond_def read_row_def record_failed_attempt_def Let_def lock_open_def
      lock_after_def find_name_set_user split: option.splits)

lemma login_right:
  assumes "accounts_inv db" "find_name db n = Some r" "us_active r" "lock_open now r"
    "length n \<le> 255" "length p \<le> 128" "env_verify env p (us_password r)"
  shows "fst (login env now n p pw h None db) = Inr (us_id r)"
  using assms find_name_id [OF assms(1,2)]
  by (auto simp: login_def login_respond_def read_row_def login_create_session_def lock_open_def
      split: option.splits)

definition attempts :: "'tok env \<Rightarrow> pystr \<Rightarrow> string \<Rightarrow> string \<Rightarrow> (int \<times> pystr) list \<Rightarrow> accounts \<Rightarrow> accounts" where
  "attempts env n pw h xs db = run_accounts env (map (\<lambda>(t, p). Login t n p pw h None) xs) db"

lemma attempts_fail:
  assumes "accounts_inv db" "find_name db n = Some r" "us_active r" "us_failed r = 0" "us_locked r = None"
    "length n \<le> 255" "\<forall>(t, p) \<in> set xs. length p \<le> 128 \<and> \<not> env_verify env p (us_password r)"
    "length xs \<le> max_failed_attempts"
  shows "find_name (attempts env n pw h xs db) n
    = Some (r\<lparr>us_failed := length xs, us_locked := lock_after (fst (last xs)) (length xs) None\<rparr>)"
  using assms(7,8)
proof (induction xs rule: rev_induct)
  case Nil
  have "r\<lparr>us_failed := 0, us_locked := None\<rparr> = r" using assms(4,5) by simp
  then show ?case using assms(2)
    by (simp add: attempts_def run_accounts_def lock_after_def max_failed_attempts_def)
next
  case (snoc x xs)
  obtain t p where x: "x = (t, p)" by (cases x)
  let ?db = "attempts env n pw h xs db"
  have small: "\<not> max_failed_attempts \<le> length xs" using snoc.prems(2) by simp
  have "accounts_inv ?db" unfolding attempts_def by (rule run_accounts_inv [OF assms(1)])
  moreover have "find_name ?db n = Some (r\<lparr>us_failed := length xs, us_locked := None\<rparr>)"
    using snoc small by (simp add: lock_after_def)
  ultimately have "find_name (snd (login env t n p pw h None ?db)) n
      = Some (r\<lparr>us_failed := length xs + 1, us_locked := lock_after t (length xs + 1) None\<rparr>)"
    using login_wrong [of ?db n _ t p env pw h] snoc.prems(1) assms(3,6) x
    by (simp add: lock_open_def)
  then show ?case by (simp add: attempts_def run_accounts_def x)
qed

text \<open>
  C12 The lockout is exact. After fewer than five wrong passwords in a row the right one is
  accepted; after the fifth every login, with whatever password, is refused with 423 and
  changes no account until 15 minutes have passed, then the right password is accepted. Since
  the counter is not reset by the time, a single wrong one then has the answer 423, writes a new lock
  of 15 minutes, and every login before its end is refused with 423 again.
\<close>

theorem lockout_exact:
  assumes "accounts_inv db" "find_name db n = Some r" "us_active r" "us_failed r = 0" "us_locked r = None"
    "length n \<le> 255" "\<forall>(t, p) \<in> set xs. length p \<le> 128 \<and> \<not> env_verify env p (us_password r)"
    "length xs \<le> max_failed_attempts" "length q \<le> 128"
  shows "(if length xs < max_failed_attempts \<or> fst (last xs) + lockout_period \<le> now
      then env_verify env q (us_password r) \<longrightarrow>
          fst (login env now n q pw h None (attempts env n pw h xs db)) = Inr (us_id r)
      else fst (login env now n q pw h None (attempts env n pw h xs db)) = Inl (Http 423)
        \<and> user_rows (snd (login env now n q pw h None (attempts env n pw h xs db)))
            = user_rows (attempts env n pw h xs db))
    \<and> (length xs = max_failed_attempts \<and> \<not> env_verify env q (us_password r) \<longrightarrow>
        fst (login env now n q pw h None (attempts env n pw h xs db)) = Inl (Http 423)
        \<and> (fst (last xs) + lockout_period \<le> now \<longrightarrow>
             find_name (snd (login env now n q pw h None (attempts env n pw h xs db))) n
               = Some (r\<lparr>us_failed := length xs + 1, us_locked := Some (now + lockout_period)\<rparr>)
             \<and> (\<forall>now' q'. now' < now + lockout_period \<longrightarrow> length q' \<le> 128 \<longrightarrow>
                  fst (login env now' n q' pw h None
                    (snd (login env now n q pw h None (attempts env n pw h xs db)))) = Inl (Http 423))))"
proof -
  let ?db = "attempts env n pw h xs db"
  let ?r = "r\<lparr>us_failed := length xs, us_locked := lock_after (fst (last xs)) (length xs) None\<rparr>"
  have inv: "accounts_inv ?db" unfolding attempts_def by (rule run_accounts_inv [OF assms(1)])
  have f: "find_name ?db n = Some ?r" by (rule attempts_fail [OF assms(1-8)])
  have l: "lock_open now ?r \<longleftrightarrow> length xs < max_failed_attempts \<or> fst (last xs) + lockout_period \<le> now"
    using assms(8) by (auto simp: lock_open_def lock_after_def)
  show ?thesis
  proof (cases "lock_open now ?r")
    case True
    note right = login_right [OF inv f _ True assms(6,9), of env pw h]
    note wrong = login_wrong [OF inv f _ True assms(6,9), of env pw h]
    have again: "find_name (snd (login env now n q pw h None ?db)) n
          = Some (r\<lparr>us_failed := length xs + 1, us_locked := Some (now + lockout_period)\<rparr>)"
      if "length xs = max_failed_attempts" "\<not> env_verify env q (us_password r)"
      using wrong that assms(3) by (simp add: lock_after_def)
    have "fst (login env now' n q' pw h None (snd (login env now n q pw h None ?db))) = Inl (Http 423)"
      if "length xs = max_failed_attempts" "\<not> env_verify env q (us_password r)"
        "now' < now + lockout_period" "length q' \<le> 128" for now' q'
      using login_locked [OF again [OF that(1,2)], of now' q' env pw h] that(3,4) assms(3,6)
      by (simp add: lock_open_def)
    with again right wrong l True assms(3) show ?thesis by simp
  next
    case False
    with l login_locked [OF f _ False assms(6,9), of env pw h] assms(3) show ?thesis by simp
  qed
qed

theorem lockout_exact_witness:
  "fst (login sample_env 6000000 [102] (map of_char ''Old'') [] ''#x'' None
     (attempts sample_env [102] [] ''#x'' (replicate 5 (5000000, [])) sample_accounts)) = Inl (Http 423)"
  using lockout_exact [OF sample_inv sample_find_name, of "replicate 5 (5000000, [])" sample_env
      "map of_char ''Old''" 6000000 "[]" "''#x''"]
  by (simp add: max_failed_attempts_def lockout_period_def)

section \<open>Access tokens after a logout\<close>

fun logout_time :: "'tok account_op \<Rightarrow> int option" where
  "logout_time (Logout t b tok) = Some t"
| "logout_time _ = None"

definition denied_until :: "string \<Rightarrow> int \<Rightarrow> accounts \<Rightarrow> bool" where
  "denied_until j e db \<longleftrightarrow> (\<exists>d \<in> set (denied_rows db). dn_jti d = j \<and> dn_expires d = e)"

lemma denied_until_deny:
  assumes "denied_until j e db" and "k = j \<Longrightarrow> e' = e"
  shows "denied_until j e (deny_access_token k i e' db)"
  using assms by (cases "k = j") (auto simp: denied_until_def deny_access_token_def)

lemma denied_until_purge:
  "denied_until j e db \<Longrightarrow> seconds now \<le> e \<Longrightarrow> denied_until j e (purge_expired_denied_tokens now db)"
  by (auto simp: denied_until_def purge_expired_denied_tokens_def)

lemma logout_denied_rows:
  "denied_rows (logout env t b tok db) = denied_rows (logout_access env t b db)"
  by (simp add: logout_def Let_def split: option.split)

lemma denied_until_logout:
  assumes "denied_until j e db" and "seconds t \<le> e"
    and "\<And>t x c. env_decode env t x = Inr c \<Longrightarrow> cl_jti c = Some j \<Longrightarrow> cl_exp c = e"
  shows "denied_until j e (logout env t b tok db)"
proof -
  have "denied_until j e (logout_access env t b db)"
    using assms
    by (auto simp: logout_access_def intro!: denied_until_purge denied_until_deny
        split: option.splits sum.splits)
  then show ?thesis by (simp add: denied_until_def logout_denied_rows)
qed

lemma other_requests_denied:
  "denied_rows (snd (register env t n p f pw h db)) = denied_rows db"
  "denied_rows (snd (login env t n p pw h us db)) = denied_rows db"
  "denied_rows (snd (refresh env t ok tok h rs db)) = denied_rows db"
  "denied_rows (snd (resolve_active_user env t fp m path access_tok us0 db)) = denied_rows db"
  "denied_rows (snd (change_password env t a cur new pw h db)) = denied_rows db"
  "denied_rows (snd (update_me a fn db)) = denied_rows db"
  "denied_rows (snd (revoke_session a s db)) = denied_rows db"
  "denied_rows (snd (revoke_all_sessions env t a tok h db)) = denied_rows db"
  "denied_rows (snd (create_user env a n p f r pw db)) = denied_rows db"
  "denied_rows (snd (admin_reset_password env t a i new pw db)) = denied_rows db"
  "denied_rows (snd (update_user_role a i role us db)) = denied_rows db"
  "denied_rows (snd (update_user_active a i on us db)) = denied_rows db"
  "denied_rows (snd (delete_user a i ds db)) = denied_rows db"
  by (auto simp: register_def login_def login_respond_def record_failed_attempt_def Let_def
      login_create_session_def refresh_def refresh_respond_def rotate_refresh_token_def
      revoke_family_def change_password_def update_me_def revoke_session_def
      revoke_all_sessions_def create_user_def admin_reset_password_def update_user_role_def
      update_user_role_respond_def update_user_active_def update_user_active_respond_def
      delete_user_def
      split: option.split sum.split prod.split)

lemma update_user_denied: "denied_rows (snd (update_user a i b snap db)) = denied_rows db"
proof -
  have "denied_rows (snd (update_user_respond a i b s db)) = denied_rows db" for s
    by (cases rule: update_user_respond_cases [of a i b s db]) simp_all
  then show ?thesis by (simp add: update_user_def)
qed

lemma denied_until_run:
  assumes "denied_until j e db"
    and jti: "\<And>t x c. env_decode env t x = Inr c \<Longrightarrow> cl_jti c = Some j \<Longrightarrow> cl_exp c = e"
    and "\<And>c t. c \<in> set ops \<Longrightarrow> logout_time c = Some t \<Longrightarrow> seconds t \<le> e"
  shows "denied_until j e (run_accounts env ops db)"
  using assms(1,3)
proof (induction ops arbitrary: db)
  case Nil
  then show ?case by (simp add: run_accounts_def)
next
  case (Cons c ops)
  have "denied_until j e (exec_account env c db)"
  proof (cases "\<exists>t b tok. c = Logout t b tok")
    case True
    then obtain t b tok where c: "c = Logout t b tok" by blast
    have "seconds t \<le> e" using Cons.prems(2) [of c t] c by simp
    with Cons.prems(1) jti show ?thesis unfolding c by (simp add: denied_until_logout)
  next
    case False
    then have "denied_rows (exec_account env c db) = denied_rows db"
      by (cases c) (simp_all add: other_requests_denied update_user_denied)
    with Cons.prems(1) show ?thesis by (simp add: denied_until_def)
  qed
  moreover have "seconds t \<le> e" if "d \<in> set ops" "logout_time d = Some t" for d t
    by (rule Cons.prems(2) [of d t]) (simp_all add: that)
  ultimately have "denied_until j e (run_accounts env ops (exec_account env c db))"
    by (rule Cons.IH)
  then show ?case by (simp add: run_accounts_def)
qed

text \<open>
  A logged-out access token is never accepted again: neither while its denial is stored nor
  after the purge of expired denials. Of the JWT library this uses that an expired token is
  not decoded, and of the code that tokens with the same id have the same expiry.
\<close>

theorem logged_out_token_refused:
  assumes enabled: "env_users_enabled env"
    and expiry: "\<And>t x c. env_decode env t x = Inr c \<Longrightarrow> t < cl_exp c * 1000000"
    and dec: "env_decode env t tok = Inr c" "cl_jti c = Some j" "j \<noteq> []" "cl_sub c = Some i" "i \<noteq> 0"
    and jti: "\<And>t x d. env_decode env t x = Inr d \<Longrightarrow> cl_jti d = Some j \<Longrightarrow> cl_exp d = cl_exp c"
    and same: "\<And>t d. env_decode env t tok = Inr d \<Longrightarrow> d = c"
    and times: "\<And>d t. d \<in> set ops \<Longrightarrow> logout_time d = Some t \<Longrightarrow> t \<le> now"
  shows "fst (resolve_active_user env now fp m path (Some tok) None
    (run_accounts env ops (logout env t (Some tok) rt db))) = Inl (Http 401)"
proof (cases "env_decode env now tok")
  case (Inl e)
  then show ?thesis using enabled by (simp add: resolve_active_user_def read_row_def)
next
  case (Inr d)
  have d: "d = c" using same [OF Inr] .
  have "now < cl_exp c * 1000000" using expiry [OF Inr] by (simp add: d)
  then have e: "seconds s \<le> cl_exp c" if "s \<le> now" for s
    using that unfolding seconds_def by linarith
  have "seconds t \<le> cl_exp c" using expiry [OF dec(1)] unfolding seconds_def by linarith
  moreover have "denied_until j (cl_exp c) (deny_access_token j i (cl_exp c) db)"
    by (simp add: denied_until_def deny_access_token_def)
  ultimately have "denied_until j (cl_exp c)
      (purge_expired_denied_tokens t (deny_access_token j i (cl_exp c) db))"
    by (simp add: denied_until_purge)
  moreover have "logout_access env t (Some tok) db
      = purge_expired_denied_tokens t (deny_access_token j i (cl_exp c) db)"
    using dec by (simp add: logout_access_def)
  ultimately have "denied_until j (cl_exp c) (logout env t (Some tok) rt db)"
    by (simp add: denied_until_def logout_denied_rows)
  then have "denied_until j (cl_exp c) (run_accounts env ops (logout env t (Some tok) rt db))"
    using jti e times by (intro denied_until_run) blast+
  then have "is_access_token_denied j (run_accounts env ops (logout env t (Some tok) rt db))"
    by (auto simp: denied_until_def is_access_token_denied_def list_ex_iff)
  then show ?thesis using Inr enabled dec(2,3)
    by (simp add: resolve_active_user_def read_row_def accept_claims_def d)
qed

theorem logged_out_token_refused_witness:
  "fst (resolve_active_user sample_env 8000000 [] ''GET'' ''/x'' (Some 5) None
     (run_accounts sample_env [] (logout sample_env 7000000 (Some 5) None sample_accounts))) = Inl (Http 401)"
  by (rule logged_out_token_refused [where c = "sample_claims 5" and i = 2])
    (auto simp: sample_decode)

section \<open>Access tokens after a password change\<close>

fun password_time :: "'tok account_op \<Rightarrow> int option" where
  "password_time (ChangePassword t a cur new pw h) = Some t"
| "password_time (ResetPassword t a i new pw) = Some t"
| "password_time _ = None"

definition epoch_from :: "nat \<Rightarrow> int \<Rightarrow> accounts \<Rightarrow> bool" where
  "epoch_from u t db \<longleftrightarrow> u < next_user db
     \<and> (\<forall>r \<in> set (user_rows db). us_id r = u \<longrightarrow> t \<le> us_pwd_changed r)"

lemma epoch_from_same:
  "user_rows db' = user_rows db \<Longrightarrow> next_user db' = next_user db \<Longrightarrow> epoch_from u t db \<Longrightarrow> epoch_from u t db'"
  by (simp add: epoch_from_def)

lemma epoch_from_update:
  assumes "epoch_from u t db" and "user_rows db' = update_rows p f (user_rows db)"
    and "next_user db' = next_user db" and "\<And>r. us_id (f r) = us_id r"
    and "\<And>r. us_pwd_changed (f r) = us_pwd_changed r \<or> t \<le> us_pwd_changed (f r)"
  shows "epoch_from u t db'"
proof -
  have "t \<le> us_pwd_changed (f r)" if "t \<le> us_pwd_changed r" for r
    using assms(5) [of r] that by auto
  with assms(1) show ?thesis by (auto simp: epoch_from_def assms(2-4) set_update_rows)
qed

lemma epoch_from_append:
  "epoch_from u t db \<Longrightarrow> user_rows db' = user_rows db @ [new_user_row (next_user db) n p f r m] \<Longrightarrow>
     next_user db' = Suc (next_user db) \<Longrightarrow> epoch_from u t db'"
  by (auto simp: epoch_from_def new_user_row_def)

lemma epoch_from_filter:
  "epoch_from u t db \<Longrightarrow> user_rows db' = filter p (user_rows db) \<Longrightarrow> next_user db' = next_user db \<Longrightarrow>
     epoch_from u t db'"
  by (auto simp: epoch_from_def)

lemma same_next_requests:
  "next_user (logout env t b tok db) = next_user db"
  "next_user (snd (resolve_active_user env t fp m path access_tok us0 db)) = next_user db"
  "next_user (snd (refresh env t ok tok h rs db)) = next_user db"
  "next_user (snd (revoke_session a s db)) = next_user db"
  "next_user (snd (revoke_all_sessions env t a tok h db)) = next_user db"
  by (auto simp: logout_def logout_access_def refresh_def refresh_respond_def
      rotate_refresh_token_def revoke_family_def revoke_session_def revoke_all_sessions_def Let_def
      split: option.split sum.split prod.split)

lemma quiet_requests_epoch:
  assumes "epoch_from u e db"
  shows "epoch_from u e (logout env t b tok db)"
    "epoch_from u e (snd (resolve_active_user env t fp m path access_tok us0 db))"
    "epoch_from u e (snd (refresh env t ok tok h rs db))"
    "epoch_from u e (snd (revoke_session a s db))"
    "epoch_from u e (snd (revoke_all_sessions env t a tok h db))"
  using assms by (simp_all add: epoch_from_def same_rows_requests same_next_requests)

lemma login_epoch:
  assumes "epoch_from u e db"
  shows "epoch_from u e (snd (login env t n p pw h snap db))"
proof -
  have s: "epoch_from u e (set_user i f db')"
    if "user_rows db' = user_rows db" "next_user db' = next_user db"
      "\<And>r. us_id (f r) = us_id r" "\<And>r. us_pwd_changed (f r) = us_pwd_changed r" for i f db'
    by (rule epoch_from_update [OF assms, of _ "\<lambda>r. us_id r = i" f]) (use that in simp_all)
  have r: "epoch_from u e db' \<Longrightarrow> epoch_from u e (record_event ev x db')" for ev x db'
    by (simp add: epoch_from_def)
  show ?thesis using assms
    by (simp add: login_def login_respond_def record_failed_attempt_def login_create_session_def Let_def
        split: option.split) (auto intro!: r s)
qed

lemma touching_requests_epoch:
  assumes "epoch_from u e db"
  shows "epoch_from u e (snd (register env t n p f pw h db))"
    "e \<le> t' \<Longrightarrow> epoch_from u e (snd (change_password env t' a cur new pw' h' db))"
    "epoch_from u e (snd (update_me a fn db))"
    "epoch_from u e (snd (create_user env a n p f r pw db))"
    "e \<le> t' \<Longrightarrow> epoch_from u e (snd (admin_reset_password env t' a i new pw' db))"
    "epoch_from u e (snd (update_user_role a i role us db))"
    "epoch_from u e (snd (update_user_active a i on us db))"
    "epoch_from u e (snd (delete_user a i ds db))"
  using assms
  by (auto simp: register_def Let_def change_password_def update_me_def create_user_def
      admin_reset_password_def update_user_role_def update_user_role_respond_def
      update_user_active_def update_user_active_respond_def delete_user_def
      split: option.split prod.split
      intro: epoch_from_append [OF assms] epoch_from_update [OF assms] epoch_from_filter [OF assms])

lemma update_user_epoch:
  assumes "epoch_from u e db"
  shows "epoch_from u e (snd (update_user a i b snap db))"
proof -
  have "epoch_from u e (snd (update_user_respond a i b s db))" for s
  proof (cases rule: update_user_respond_cases [of a i b s db])
    case kept
    then show ?thesis using assms by simp
  next
    case patched
    show ?thesis unfolding patched(6)
      by (rule epoch_from_update [OF assms, of _ "\<lambda>r. us_id r = i" "apply_patch b"])
        (simp_all add: apply_patch_def)
  qed
  then show ?thesis using assms by (simp add: update_user_def)
qed

lemma epoch_from_schedule [simp]: "epoch_from u e (db\<lparr>here := p\<rparr>) = epoch_from u e db"
  by (simp add: epoch_from_def)

lemma epoch_from_exec:
  assumes "epoch_from u e db" and "\<And>t. password_time c = Some t \<Longrightarrow> e \<le> t"
  shows "epoch_from u e (exec_account env c db)"
  using assms(2)
  by (cases c) (simp_all add: assms(1) quiet_requests_epoch [OF assms(1)] login_epoch [OF assms(1)]
      touching_requests_epoch [OF assms(1)] update_user_epoch [OF assms(1)])

lemma epoch_from_run:
  "epoch_from u e db \<Longrightarrow> (\<And>c t. c \<in> set ops \<Longrightarrow> password_time c = Some t \<Longrightarrow> e \<le> t) \<Longrightarrow>
     epoch_from u e (run_accounts env ops db)"
  unfolding run_accounts_def
proof (induction ops arbitrary: db)
  case (Cons c ops)
  have "epoch_from u e (exec_account env c db)"
    by (rule epoch_from_exec [OF Cons.prems(1)]) (rule Cons.prems(2) [of c], simp_all)
  then have "epoch_from u e (fold (exec_account env) ops (exec_account env c db))"
    by (rule Cons.IH) (rule Cons.prems(2), simp_all)
  then show ?case by simp
qed simp

text \<open>A successful change of \<open>u\<close>'s password at \<open>t\<close>.\<close>

fun sets_password :: "'tok env \<Rightarrow> 'tok account_op \<Rightarrow> nat \<Rightarrow> int \<Rightarrow> accounts \<Rightarrow> bool" where
  "sets_password env (ChangePassword t a cur new pw h) u t' db \<longleftrightarrow>
     t' = t \<and> fst (change_password env t a cur new pw h db) = Inr u"
| "sets_password env (ResetPassword t a i new pw) u t' db \<longleftrightarrow>
     t' = t \<and> i = u \<and> fst (admin_reset_password env t a i new pw db) = Inr i"
| "sets_password env _ u t' db \<longleftrightarrow> False"

lemma epoch_from_set:
  assumes "accounts_inv db" and "find_user db u = Some r" and "\<And>x. us_id (f x) = us_id x"
    and "\<And>x. us_pwd_changed (f x) = t" and "user_rows db' = update_rows (\<lambda>x. us_id x = u) f (user_rows db)"
    and "next_user db' = next_user db"
  shows "epoch_from u t db'"
proof -
  have "us_id r < next_user db" using find_user_SomeD [OF assms(2)] assms(1)
    unfolding accounts_inv_def users_ok_def by blast
  then have "u < next_user db" using find_user_SomeD [OF assms(2)] by simp
  moreover have "t \<le> us_pwd_changed x" if x: "x \<in> set (user_rows db')" "us_id x = u" for x
  proof -
    obtain y where "x = (if us_id y = u then f y else y)"
      using x(1) unfolding assms(5) set_update_rows by blast
    with x(2) show ?thesis by (cases "us_id y = u") (simp_all add: assms(4))
  qed
  ultimately show ?thesis unfolding epoch_from_def assms(6) by blast
qed

lemma sets_password_epoch:
  assumes inv: "accounts_inv db" and ok: "sets_password env c u t db"
  shows "epoch_from u t (exec_account env c db)"
proof (cases c)
  case (ChangePassword t' a cur new pw h)
  with ok obtain r where r: "find_user db (vw_id a) = Some r" "us_id r = u" "t' = t"
      "fst (change_password env t' a cur new pw h db) = Inr u"
    by (auto simp: change_password_def split: option.splits if_splits)
  then have "find_user db u = Some r" using find_user_SomeD [OF r(1)] by simp
  then show ?thesis unfolding ChangePassword exec_account.simps
    by (rule epoch_from_set [OF inv, where f = "\<lambda>r. r\<lparr>us_password := pw, us_must_change := False,
        us_pwd_changed := t\<rparr>"])
      (use r in \<open>auto simp: change_password_def split: if_splits\<close>)
next
  case (ResetPassword t' a i new pw)
  with ok obtain r where r: "find_user db u = Some r" "i = u" "t' = t"
      "fst (admin_reset_password env t' a u new pw db) = Inr u"
    by (auto simp: admin_reset_password_def split: option.splits if_splits)
  then show ?thesis unfolding ResetPassword exec_account.simps
    by (intro epoch_from_set [OF inv r(1), where f = "\<lambda>r. r\<lparr>us_password := pw, us_must_change := True,
        us_failed := 0, us_locked := None, us_pwd_changed := t\<rparr>"])
      (auto simp: admin_reset_password_def split: if_splits option.splits)
qed (use ok in simp_all)

subsection \<open>What the caches still hold\<close>

text \<open>Only a resolution puts something into a cache; every other request at most removes.\<close>

definition cache_shrinks :: "accounts \<Rightarrow> accounts \<Rightarrow> bool" where
  "cache_shrinks db db' \<longleftrightarrow>
     (\<forall>p i. active_users db' p i = active_users db p i \<or> active_users db' p i = None)"

lemma cache_shrinks_same: "active_users db' = active_users db \<Longrightarrow> cache_shrinks db db'"
  by (simp add: cache_shrinks_def)

lemma cache_shrinks_invalidate:
  "active_users db' = active_users db \<Longrightarrow> cache_shrinks db (invalidate_active_user_cache i db')"
  by (simp add: cache_shrinks_def)

lemma cache_shrinks_record [simp]:
  "cache_shrinks db (record_event ev u db') = cache_shrinks db db'"
  "cache_shrinks db (insert_session i h e db') = cache_shrinks db db'"
  "cache_shrinks db (delete_sessions q db') = cache_shrinks db db'"
  by (simp_all add: cache_shrinks_def)

lemma requests_shrink:
  "cache_shrinks db (snd (register env t n p f pw h db))"
  "cache_shrinks db (snd (login env t n p pw h us db))"
  "cache_shrinks db (snd (refresh env t ok tok h rs db))"
  "cache_shrinks db (logout env t b rt db)"
  "cache_shrinks db (snd (change_password env t a cur new pw h db))"
  "cache_shrinks db (snd (update_me a fn db))"
  "cache_shrinks db (snd (revoke_session a s db))"
  "cache_shrinks db (snd (revoke_all_sessions env t a tok h db))"
  "cache_shrinks db (snd (create_user env a n p f r pw db))"
  "cache_shrinks db (snd (admin_reset_password env t a i new pw db))"
  "cache_shrinks db (snd (update_user_role a i role us db))"
  "cache_shrinks db (snd (update_user_active a i on us db))"
  "cache_shrinks db (snd (delete_user a i ds db))"
  by (auto simp: register_def login_def login_respond_def record_failed_attempt_def Let_def
      login_create_session_def refresh_def refresh_respond_def rotate_refresh_token_def
      revoke_family_def logout_def logout_access_def change_password_def update_me_def revoke_session_def
      revoke_all_sessions_def create_user_def admin_reset_password_def update_user_role_def
      update_user_role_respond_def update_user_active_def update_user_active_respond_def delete_user_def
      cache_shrinks_invalidate cache_shrinks_same
      split: option.split sum.split prod.split)

lemma update_user_shrinks: "cache_shrinks db (snd (update_user a i b snap db))"
proof -
  have "cache_shrinks db (snd (update_user_respond a i b s db))" for s
    by (cases rule: update_user_respond_cases [of a i b s db])
      (simp_all add: cache_shrinks_same cache_shrinks_invalidate)
  then show ?thesis by (simp add: update_user_def cache_shrinks_same)
qed

lemma exec_shrinks:
  assumes "\<nexists>s fp m path tok snap. c = Resolve s fp m path tok snap"
  shows "cache_shrinks db (exec_account env c db)"
proof (cases c)
  case (Resolve s fp m path tok snap)
  with assms show ?thesis by blast
qed (simp_all add: requests_shrink update_user_shrinks cache_shrinks_same)

text \<open>
  A view from before \<open>t\<close> is in the cache of process \<open>p\<close> only until \<open>B p\<close>. A resolution that has
  read the row before \<open>t\<close> writes such a view at the time \<open>s\<close> of its second half: \<open>late_reads\<close>
  says that these, too, expire by \<open>B\<close>.
\<close>

definition stale_until :: "nat \<Rightarrow> int \<Rightarrow> (nat \<Rightarrow> int) \<Rightarrow> accounts \<Rightarrow> bool" where
  "stale_until u t B db \<longleftrightarrow>
     (\<forall>p v e. active_users db p u = Some (v, e) \<longrightarrow> vw_pwd_changed v < t \<longrightarrow> e \<le> B p)"

definition row_before :: "nat \<Rightarrow> int \<Rightarrow> accounts \<Rightarrow> bool" where
  "row_before u t db \<longleftrightarrow> (case find_user db u of None \<Rightarrow> False | Some r \<Rightarrow> us_pwd_changed r < t)"

fun late_reads :: "'tok env \<Rightarrow> nat \<Rightarrow> int \<Rightarrow> (nat \<Rightarrow> int) \<Rightarrow> 'tok account_op list \<Rightarrow> accounts \<Rightarrow> bool" where
  "late_reads env u t B [] db = True"
| "late_reads env u t B (Resolve s fp m path tok (Some (asked, db0)) # ops) db =
     ((row_before u t db0 \<longrightarrow> s + env_cache_ttl env \<le> B (here db))
      \<and> late_reads env u t B ops (exec_account env (Resolve s fp m path tok (Some (asked, db0))) db))"
| "late_reads env u t B (c # ops) db = late_reads env u t B ops (exec_account env c db)"

lemma late_reads_Cons: "late_reads env u t B (c # ops) db \<Longrightarrow> late_reads env u t B ops (exec_account env c db)"
  by (cases "(env, u, t, B, c # ops, db)" rule: late_reads.cases) auto

lemma stale_until_shrinks:
  assumes "stale_until u t B db" and "cache_shrinks db db'"
  shows "stale_until u t B db'"
  unfolding stale_until_def
proof (intro allI impI)
  fix p v e assume "active_users db' p u = Some (v, e)" "vw_pwd_changed v < t"
  moreover from this(1) have "active_users db p u = Some (v, e)"
    using assms(2) unfolding cache_shrinks_def by (metis option.distinct(1))
  ultimately show "e \<le> B p" using assms(1) unfolding stale_until_def by blast
qed

lemma stale_until_load:
  assumes "stale_until u t B db" and "row_before u t db0 \<longrightarrow> now + env_cache_ttl env \<le> B (here db)"
  shows "stale_until u t B (snd (load_user env asked db0 now i db))"
proof -
  have d: "stale_until u t B (drop_expired env asked i db)"
    using assms(1) by (auto simp: stale_until_def drop_expired_def split: option.split)
  have "stale_until u t B (write_back env now i (user_view_of r) (drop_expired env asked i db))"
    if "find_user db0 i = Some r" for r
    using d assms(2) that
    by (auto simp: stale_until_def write_back_def user_view_of_def row_before_def)
  with assms(1) d show ?thesis by (simp add: load_user_def Let_def split: option.split)
qed

lemma stale_until_resolve:
  assumes "stale_until u t B db"
    and "\<And>asked db0. read_row snap (now, db) = (asked, db0) \<Longrightarrow> row_before u t db0
      \<Longrightarrow> now + env_cache_ttl env \<le> B (here db)"
  shows "stale_until u t B (snd (resolve_active_user env now fp m path tok snap db))"
proof (cases rule: resolve_state_cases [of env now fp m path tok snap db])
  case (loaded s db0 i)
  have "stale_until u t B (snd (load_user env s db0 now i db))"
    using stale_until_load [OF assms(1)] assms(2) [OF loaded(1)] by blast
  then show ?thesis unfolding loaded(2) .
next
  case (dropped s db0 i)
  have "stale_until u t B (snd (load_user env s db0 now i db))"
    using stale_until_load [OF assms(1)] assms(2) [OF dropped(1)] by blast
  then show ?thesis unfolding dropped(2)
    by (rule stale_until_shrinks) (simp add: cache_shrinks_invalidate)
qed (use assms(1) in simp)

lemma epoch_row: "epoch_from u t db \<Longrightarrow> \<not> row_before u t db"
  using find_user_SomeD [of db u] by (auto simp: row_before_def epoch_from_def split: option.split)

lemma stale_until_run:
  assumes "stale_until u t B db" and "epoch_from u t db" and "late_reads env u t B ops db"
    and "\<And>d s. d \<in> set ops \<Longrightarrow> password_time d = Some s \<Longrightarrow> t \<le> s"
  shows "stale_until u t B (run_accounts env ops db)"
  using assms
  unfolding run_accounts_def
proof (induction ops arbitrary: db)
  case (Cons c ops)
  let ?db = "exec_account env c db"
  have "stale_until u t B ?db"
  proof (cases "\<exists>s fp m path tok snap. c = Resolve s fp m path tok snap")
    case True
    then obtain s fp m path tok snap where c: "c = Resolve s fp m path tok snap" by blast
    have "s + env_cache_ttl env \<le> B (here db)"
      if "read_row snap (s, db) = (asked, db0)" "row_before u t db0" for asked db0
    proof (cases snap)
      case None
      then show ?thesis using that epoch_row [OF Cons.prems(2)] by (simp add: read_row_def)
    next
      case (Some x)
      then show ?thesis using that Cons.prems(3) unfolding c by (cases x) (simp add: read_row_def)
    qed
    then show ?thesis unfolding c exec_account.simps by (rule stale_until_resolve [OF Cons.prems(1)])
  next
    case False
    then have "cache_shrinks db ?db" by (rule exec_shrinks)
    then show ?thesis by (rule stale_until_shrinks [OF Cons.prems(1)])
  qed
  moreover have "epoch_from u t ?db"
    by (rule epoch_from_exec [OF Cons.prems(2)]) (rule Cons.prems(4) [of c], simp_all)
  moreover have "late_reads env u t B ops ?db" by (rule late_reads_Cons [OF Cons.prems(3)])
  ultimately have "stale_until u t B (fold (exec_account env) ops ?db)"
    by (rule Cons.IH) (rule Cons.prems(4), simp_all)
  then show ?case by simp
qed simp

text \<open>The change itself clears the cache of its own process.\<close>

lemma sets_password_clears:
  assumes "sets_password env c u t db"
  shows "active_users (exec_account env c db) = (active_users db)(here db := (active_users db (here db))(u := None))"
  using assms find_user_SomeD [of db]
  by (cases c) (auto simp: change_password_def admin_reset_password_def split: option.splits if_splits)

text \<open>
  C10 Access tokens from before a password change. Let a change or an administrator's reset of
  \<open>u\<close>'s password succeed at time \<open>t\<close> in one of the server's processes, and any requests follow in
  any of them. A request that then presents a token issued in an earlier second is refused on
  every route, from the time \<open>B p\<close> on in process \<open>p\<close>, when a view of \<open>u\<close> read before the change
  stays in the cache of \<open>p\<close> no longer than \<open>B p\<close>: one that was in the cache of another process at
  the change, and one that a resolution writes back whose read preceded the change. In the
  process that made the change this is at once if no such resolution was under way.
\<close>

theorem old_access_tokens_refused:
  assumes "env_users_enabled env" and "accounts_inv db" and "sets_password env c u t db" and "0 < t"
    and later: "\<And>d s. d \<in> set ops \<Longrightarrow> password_time d = Some s \<Longrightarrow> t \<le> s"
    and others: "\<And>p v e. p \<noteq> here db \<Longrightarrow> active_users db p u = Some (v, e) \<Longrightarrow> vw_pwd_changed v < t
      \<Longrightarrow> e \<le> B p"
    and late: "late_reads env u t B ops (exec_account env c db)"
    and tok: "\<And>d. env_decode env asked tok = Inr d \<Longrightarrow> cl_sub d = Some (int u) \<and> cl_iat d < seconds t"
    and "B (here db2) \<le> asked"
  shows "\<exists>e. fst (resolve_active_user env now fp m path (Some tok)
    (Some (asked, run_accounts env ops (exec_account env c db))) db2) = Inl e"
proof (cases "env_decode env asked tok")
  case (Inl e)
  then show ?thesis using assms(1) by (simp add: resolve_active_user_def read_row_def)
next
  case (Inr d)
  let ?db1 = "exec_account env c db" and ?db0 = "run_accounts env ops (exec_account env c db)"
  have sub: "cl_sub d = Some (int u)" and iat: "cl_iat d < seconds t" using tok [OF Inr] by simp_all
  have ep1: "epoch_from u t ?db1" by (rule sets_password_epoch [OF assms(2,3)])
  have ep: "epoch_from u t ?db0" by (rule epoch_from_run [OF ep1 later])
  have "stale_until u t B ?db1"
    using others unfolding stale_until_def sets_password_clears [OF assms(3)] by auto
  then have st: "stale_until u t B ?db0" using ep1 late later by (rule stale_until_run)
  have "0 < vw_pwd_changed v \<and> cl_iat d < seconds (vw_pwd_changed v)"
    if l: "load_user env asked ?db0 now u db2 = (Some v, db')" for v db'
  proof -
    have "t \<le> vw_pwd_changed v"
    proof (cases "cached_user env (here db2) asked u ?db0")
      case (Some v')
      then obtain e where "active_users ?db0 (here db2) u = Some (v, e)" "asked < e"
        using l by (auto simp: load_user_def cached_user_def split: if_splits option.splits)
      then show ?thesis using st assms(9) unfolding stale_until_def by fastforce
    next
      case None
      then obtain r where "find_user ?db0 u = Some r" "v = user_view_of r"
        using l by (auto simp: load_user_def Let_def split: option.splits)
      then show ?thesis using ep find_user_SomeD by (auto simp: epoch_from_def user_view_of_def)
    qed
    moreover from this have "seconds t \<le> seconds (vw_pwd_changed v)"
      unfolding seconds_def by (rule zdiv_mono1) simp
    ultimately show ?thesis using assms(4) iat by linarith
  qed
  then show ?thesis
    by (auto simp: resolve_active_user_def read_row_def assms(1) Inr accept_claims_def sub
        split: option.split prod.split)
qed

text \<open>A request that has read the row before the reset and goes on after it.\<close>

definition sample_late :: "nat account_op" where
  "sample_late = Resolve 6000000 [] ''GET'' ''/x'' (Some 4) (Some (4500000, sample_accounts))"

theorem old_access_tokens_refused_witness:
  "\<exists>e. fst (resolve_active_user sample_env 41000000 [] ''GET'' ''/x'' (Some 4)
     (Some (40000000, run_accounts sample_env [sample_late] (exec_account sample_env sample_reset sample_accounts)))
     sample_accounts) = Inl e"
  by (rule old_access_tokens_refused [where u = 2 and t = 5000000 and B = "\<lambda>_. 36000000"])
    (simp_all add: sample_inv sample_reset_def sample_reset_ok sample_decode seconds_def sample_late_def)

text \<open>
  Until then the old token is good: that request has put the old view back into the cache,
  which the reset had cleared, and the next ones are served from there. With several processes
  the view in the cache of another process does the same without any such request.
\<close>

lemma old_view_served:
  assumes "active_users db (here db) 2 = Some (user_view_of (sample_user 2 ''member''), 36000000)"
    and "denied_rows db = []"
  shows "\<exists>v. fst (resolve_active_user sample_env 7000000 [] ''GET'' ''/x'' (Some 4) None db) = Inr v"
proof -
  have d: "env_decode sample_env 7000000 4 = Inr (sample_claims 4)" by (simp add: sample_decode)
  have "accept_claims [] (sample_claims 4) db = Some 2"
    by (simp add: accept_claims_def is_access_token_denied_def assms(2))
  moreover have "load_user sample_env 7000000 db 7000000 2 db = (Some (user_view_of (sample_user 2 ''member'')), db)"
    by (simp add: load_user_def cached_user_def assms(1))
  ultimately show ?thesis
    by (simp add: resolve_active_user_def read_row_def d user_view_of_def)
qed

lemma sample_reset_state:
  "find_user db 2 = find_user sample_accounts 2 \<Longrightarrow> active_users (exec_account sample_env sample_reset db)
     = (active_users db)(here db := (active_users db (here db))(2 := None))
   \<and> here (exec_account sample_env sample_reset db) = here db
   \<and> denied_rows (exec_account sample_env sample_reset db) = denied_rows db"
  by (simp add: sample_reset_def admin_reset_password_def sample_new_strong sample_find_user require_level_def
      role_level_def nocase_def lit_def nocase_char_def assert_can_modify_target_def)

text \<open>A resolution that has read the row at \<open>s\<close> puts the view into the empty cache at \<open>now\<close>.\<close>

lemma sample_resolve_state:
  assumes "read_row snap (now, db) = (s, db0)" and "s < 900000000" and "active_users db (here db) 2 = None"
    and "active_users db0 (here db) 2 = None" and "find_user db0 2 = find_user sample_accounts 2"
    and "denied_rows db0 = []"
  shows "snd (resolve_active_user sample_env now [] ''GET'' ''/x'' (Some 4) snap db)
    = set_cache (here db) 2 (Some (user_view_of (sample_user 2 ''member''), now + 30000000)) db"
proof -
  have d: "env_decode sample_env s 4 = Inr (sample_claims 4)" using assms(2) by (simp add: sample_decode)
  have "accept_claims [] (sample_claims 4) db0 = Some 2"
    by (simp add: accept_claims_def is_access_token_denied_def assms(6))
  moreover have "load_user sample_env s db0 now 2 db = (Some (user_view_of (sample_user 2 ''member'')),
      set_cache (here db) 2 (Some (user_view_of (sample_user 2 ''member''), now + 30000000)) db)"
    by (simp add: load_user_def cached_user_def drop_expired_def write_back_def assms(3-5) sample_find_user)
  ultimately show ?thesis
    by (simp add: resolve_active_user_def assms(1) d user_view_of_def)
qed

lemma stale_view_outlives_reset:
  "\<exists>v. fst (resolve_active_user sample_env 7000000 [] ''GET'' ''/x'' (Some 4) None
     (run_accounts sample_env [sample_late] (exec_account sample_env sample_reset sample_accounts))) = Inr v"
proof -
  let ?db1 = "exec_account sample_env sample_reset sample_accounts"
  note r = sample_reset_state [of sample_accounts, OF refl]
  have "exec_account sample_env sample_late ?db1
      = set_cache 0 2 (Some (user_view_of (sample_user 2 ''member''), 36000000)) ?db1"
    using r sample_resolve_state [of "Some (4500000, sample_accounts)" 6000000 ?db1 4500000 sample_accounts]
    by (simp add: sample_late_def read_row_def)
  then show ?thesis using r
    by (intro old_view_served) (simp_all add: run_accounts_def set_cache_def)
qed

lemma other_process_serves_old_view:
  "\<exists>v. fst (resolve_active_user sample_env 7000000 [] ''GET'' ''/x'' (Some 4) None
     (run_accounts sample_env [Schedule 1, Resolve 6000000 [] ''GET'' ''/x'' (Some 4) None, Schedule 0,
        sample_reset, Schedule 1] sample_accounts)) = Inr v"
proof -
  let ?db1 = "sample_accounts\<lparr>here := 1\<rparr>"
  have f: "find_user (db\<lparr>here := p\<rparr>) i = find_user db i" for db p i by (simp add: find_user_def)
  have "exec_account sample_env (Resolve 6000000 [] ''GET'' ''/x'' (Some 4) None) ?db1
      = set_cache 1 2 (Some (user_view_of (sample_user 2 ''member''), 36000000)) ?db1"
    using sample_resolve_state [of None 6000000 ?db1 6000000 ?db1] by (simp add: read_row_def f)
  moreover note sample_reset_state [of "(set_cache 1 2 (Some (user_view_of (sample_user 2 ''member''), 36000000)) ?db1)\<lparr>here := 0\<rparr>"]
  ultimately show ?thesis
    by (intro old_view_served) (simp_all add: run_accounts_def f set_cache_def find_user_def)
qed

section \<open>Vaults keep an admin\<close>

lemma keeps_admins_refl: "keeps_admins az az"
  by (simp add: keeps_admins_def)

lemma keeps_admins_grown:
  assumes "set (vault_members az) \<subseteq> set (vault_members az')"
    and "group_access az' = group_access az" "group_members az' = group_members az"
    and "groups az' = groups az" "org_member_rows az' = org_member_rows az"
  shows "keeps_admins az az'"
  by (rule keeps_admins_mono) (use assms in \<open>auto simp: direct_admin_def group_admin_def\<close>)

lemma assign_default_keeps:
  "keeps_admins (access db) (access (assign_user_to_default_vault i (insert_user n p f r m db)))"
  by (rule keeps_admins_grown)
    (auto simp: assign_user_to_default_vault_def ensure_default_vault_def insert_user_def Let_def
      split: option.splits)

lemma set_active_keeps: "keeps_admins (access db) (access (set_active i on db))"
  by (rule keeps_admins_grown) (simp_all add: set_active_def)

lemma direct_admin_delete:
  "direct_admin (delete_user_grants i az) v u \<longleftrightarrow> u \<noteq> i \<and> direct_admin az v u"
  by (auto simp: direct_admin_def delete_user_grants_def Let_def)

lemma group_admin_delete:
  "group_admin (delete_user_grants i az) v g org u \<longleftrightarrow> u \<noteq> i \<and> group_admin az v g org u"
  by (auto simp: group_admin_def delete_user_grants_def Let_def)

lemma in_org_iff: "in_org az org u \<longleftrightarrow> (\<exists>role. (org, u, role) \<in> set (org_member_rows az))"
  unfolding in_org_def using in_org_members [of org u az] by auto

lemma group_ids_excl_user:
  "group_derived_vault_admin_ids az v (Some i) None = group_derived_vault_admin_ids az v None None - {i}"
  by (auto simp: group_admin_iff)

lemma direct_ids_excl_user:
  "direct_vault_admin_ids az v (Some i) = direct_vault_admin_ids az v None - {i}"
  by (auto simp: direct_ids_iff)

lemma admins_excl_user:
  "direct_vault_admin_ids az v (Some i) \<union> group_derived_vault_admin_ids az v (Some i) None
     = effective_admins az v - {i}"
  unfolding group_ids_excl_user direct_ids_excl_user effective_admins_def by blast

lemma derived_candidates:
  "v \<in> set [vga_vault a. a \<leftarrow> group_access az, (g, u) \<leftarrow> group_members az, (g', org) \<leftarrow> groups az,
      vga_group a = g \<and> g' = g \<and> u = i \<and> vga_permission a = ''admin'' \<and> in_org az org i]
   \<longleftrightarrow> (\<exists>a \<in> set (group_access az). \<exists>org. vga_vault a = v \<and> (vga_group a, i) \<in> set (group_members az)
      \<and> (vga_group a, org) \<in> set (groups az) \<and> in_org az org i \<and> vga_permission a = ''admin'')"
  by (auto simp: Bex_def)

lemma group_candidate:
  assumes "group_admin az v g org i"
  shows "v \<in> set [vga_vault a. a \<leftarrow> group_access az, (g, u) \<leftarrow> group_members az,
      (g', org) \<leftarrow> groups az, vga_group a = g \<and> g' = g \<and> u = i \<and> vga_permission a = ''admin'' \<and> in_org az org i]"
  using assms unfolding derived_candidates unfolding group_admin_def in_org_iff by blast

lemma orphan_candidate:
  assumes "i \<in> effective_admins az v" and "vaults_orphaned_by_user_delete az i = []"
  shows "\<exists>u. u \<noteq> i \<and> u \<in> effective_admins az v"
proof -
  let ?direct = "[vm_vault r. r \<leftarrow> vault_members az, vm_user r = i \<and> vm_permission r = ''admin'']"
  let ?derived = "[vga_vault a. a \<leftarrow> group_access az, (g, u) \<leftarrow> group_members az, (g', org) \<leftarrow> groups az,
      vga_group a = g \<and> g' = g \<and> u = i \<and> vga_permission a = ''admin'' \<and> in_org az org i]"
  have "v \<in> set ?direct" if "direct_admin az v i" using that unfolding direct_admin_def by force
  then have "v \<in> set (?direct @ ?derived)"
    using assms(1) group_candidate unfolding effective_admins_iff set_append by blast
  then have "v \<in> set (sort (remdups (?direct @ ?derived)))" by (simp only: set_sort set_remdups)
  with assms(2) have "effective_admins az v - {i} \<noteq> {}"
    unfolding vaults_orphaned_by_user_delete_def Let_def filter_empty_conv admins_excl_user by blast
  then show ?thesis by blast
qed

lemma delete_user_grants_keeps:
  assumes "vaults_orphaned_by_user_delete az i = []"
  shows "keeps_admins az (delete_user_grants i az)"
proof (rule keeps_adminsI)
  fix v u assume "u \<in> effective_admins az v"
  then obtain w where "w \<noteq> i" "w \<in> effective_admins az v"
    using orphan_candidate [OF _ assms, of v] by (cases "u = i") blast+
  then have "w \<in> effective_admins (delete_user_grants i az) v"
    by (simp add: effective_admins_iff direct_admin_delete group_admin_delete)
  then show "effective_admins (delete_user_grants i az) v \<noteq> {}" by blast
qed

lemma same_access_requests:
  "access (snd (login env t n p pw h snap db)) = access db"
  "access (snd (refresh env t ok tok h rs db)) = access db"
  "access (logout env t b tok db) = access db"
  "access (snd (resolve_active_user env t fp m path access_tok us0 db)) = access db"
  "access (snd (change_password env t a cur new pw h db)) = access db"
  "access (snd (update_me a fn db)) = access db"
  "access (snd (revoke_session a s db)) = access db"
  "access (snd (revoke_all_sessions env t a tok h db)) = access db"
  "access (snd (admin_reset_password env t a i new pw db)) = access db"
  "access (snd (update_user_role a i role us db)) = access db"
  by (auto simp: login_def login_respond_def record_failed_attempt_def Let_def
      login_create_session_def refresh_def refresh_respond_def rotate_refresh_token_def
      revoke_family_def logout_def logout_access_def change_password_def
      update_me_def revoke_session_def revoke_all_sessions_def admin_reset_password_def
      update_user_role_def update_user_role_respond_def
      split: option.split sum.split prod.split)

lemma update_user_access: "access (snd (update_user a i b snap db)) = access db"
proof -
  have "access (snd (update_user_respond a i b s db)) = access db" for s
    by (cases rule: update_user_respond_cases [of a i b s db]) simp_all
  then show ?thesis by (simp add: update_user_def)
qed

text \<open>What a request may do to the permission tables.\<close>

lemma exec_account_access:
  assumes "P (access db)"
    and "\<And>n p f r m. P (access (assign_user_to_default_vault (next_user db) (insert_user n p f r m db)))"
    and "\<And>i on. P (access (set_active i on db))"
    and "\<And>i. vaults_orphaned_by_user_delete (access db) i = [] \<Longrightarrow> \<not> owns_organization (access db) i
        \<Longrightarrow> P (delete_user_grants i (access db))"
  shows "P (access (exec_account env c db))"
proof -
  have "P (access (snd (register env t n p f pw h db)))" for t n p f pw h
    using assms(1,2) by (simp add: register_def Let_def)
  moreover have "P (access (snd (create_user env a n p f r pw db)))" for a n p f r pw
    using assms(1,2) by (simp add: create_user_def split: option.split)
  moreover have "P (access (snd (update_user_active a i on us db)))" for a i on us
    using assms(1,3) by (simp add: update_user_active_def update_user_active_respond_def split: option.split)
  moreover have "P (access (snd (delete_user a i ds db)))" for a i ds
    using assms(1,4) by (simp add: delete_user_def split: option.split prod.split)
  ultimately show ?thesis using assms(1)
    by (cases c) (simp_all add: same_access_requests update_user_access)
qed

lemma exec_account_keeps: "keeps_admins (access db) (access (exec_account env c db))"
  by (rule exec_account_access)
    (simp_all add: keeps_admins_refl assign_default_keeps set_active_keeps delete_user_grants_keeps)

lemma run_accounts_keeps: "keeps_admins (access db) (access (run_accounts env ops db))"
  unfolding run_accounts_def
proof (induction ops arbitrary: db)
  case (Cons c ops)
  from Cons.IH [of "exec_account env c db"] exec_account_keeps [of db env c]
  show ?case by (simp add: keeps_admins_def)
qed (simp add: keeps_admins_refl)

text \<open>
  No account request takes a vault's last admin away. Whatever registrations, role
  changes, deactivations and deletions run, and in whatever order their reads and writes
  interleave, a vault with an admin, direct or through a group, keeps one.
\<close>

theorem account_requests_never_orphan:
  assumes "effective_admins (access db) v \<noteq> {}"
  shows "effective_admins (access (run_accounts env ops db)) v \<noteq> {}"
  using run_accounts_keeps [of db env ops] assms by (simp add: keeps_admins_def)

theorem account_requests_never_orphan_witness:
  "effective_admins (access (run_accounts sample_env
     [DeleteUser sample_root 2 None, DeleteUser sample_root 3 None] sample_accounts)) 1 \<noteq> {}"
proof (rule account_requests_never_orphan)
  have "2 \<in> effective_admins (access sample_accounts) 1"
    by (simp add: effective_admins_iff direct_admin_def sample_access_def)
  then show "effective_admins (access sample_accounts) 1 \<noteq> {}" by blast
qed

section \<open>The type of the tables\<close>

text \<open>
  From the empty database on, every sequence of account requests, interleaved as it may be,
  leaves well-formed tables: ids and case-folded names are unique, every role is one of the
  four, a counter of five failures comes with a lock, every session belongs to a user, every
  cached view has the id it is cached under, and the permission tables list the same users.
\<close>

theorem accounts_well_formed: "accounts_inv (run_accounts env ops empty_accounts)"
  by (rule run_accounts_inv [OF empty_accounts_inv])

section \<open>Superadmins\<close>

text \<open>
  C11 Requests that run one after the other never leave the system without an active
  superadmin.
\<close>

theorem superadmin_never_lost:
  assumes "accounts_inv db" and "0 < active_superadmins db" and "list_all serial ops"
  shows "0 < active_superadmins (run_accounts env ops db)"
proof -
  have "has_superadmin db" using assms(2)
    by (auto simp: has_superadmin_def active_superadmins_filter filter_empty_conv)
  then have "has_superadmin (run_accounts env ops db)" by (rule run_accounts_superadmin [OF assms(1) _ assms(3)])
  then show ?thesis by (auto simp: has_superadmin_def active_superadmins_filter filter_empty_conv)
qed

theorem superadmin_never_lost_witness:
  "0 < active_superadmins (run_accounts sample_env
     [UpdateRole sample_root 1 ''member'' None] sample_accounts)"
  by (rule superadmin_never_lost [OF sample_inv])
    (simp_all add: active_superadmins_filter superadmin_row_def)

text \<open>
  Without that order they can: the guard of \<open>update_user\<close> looks at the role the handler read
  before. A superadmin promotes user 2, who demotes the superadmin, while an older edit of 2
  that repeats the role \<open>member\<close> still waits for its write.
\<close>

definition sample_race :: "nat account_op list" where
  "sample_race =
     [UpdateRole sample_root 2 ''superadmin'' None,
      UpdateRole (user_view_of (sample_user 2 ''superadmin'')) 1 ''member'' None,
      UpdateUser sample_root 2 \<lparr>up_name = None, up_full_name = None, up_role = Some ''member''\<rparr>
        (Some (find_user sample_accounts 2))]"

lemma superadmin_lost_by_stale_read:
  "0 < active_superadmins sample_accounts
   \<and> active_superadmins (run_accounts sample_env sample_race sample_accounts) = 0"
proof -
  let ?two = "user_view_of (sample_user 2 ''superadmin'')"
  let ?b = "\<lparr>up_name = None, up_full_name = None, up_role = Some ''member''\<rparr>"
  note levels = require_level_def role_level_def nocase_def lit_def nocase_char_def assert_can_assign_role_def valid_roles_def
    update_rows_def user_view_of_def
  define d1 where "d1 = snd (update_user_role sample_root 2 ''superadmin'' None sample_accounts)"
  define d2 where "d2 = snd (update_user_role ?two 1 ''member'' None d1)"
  define d3 where "d3 = snd (update_user sample_root 2 ?b (Some (find_user sample_accounts 2)) d2)"
  have r1: "user_rows d1 = [sample_user 1 ''superadmin'', (sample_user 2 ''member'')\<lparr>us_role := ''superadmin''\<rparr>,
      sample_user 3 ''member'']"
    by (simp add: d1_def update_user_role_def update_user_role_respond_def read_row_def
        sample_find_user levels)
  have f1: "find_user d1 1 = Some (sample_user 1 ''superadmin'')" "active_superadmins d1 = 2"
    by (simp_all add: find_user_def r1 active_superadmins_filter superadmin_row_def)
  have r2: "user_rows d2 = [(sample_user 1 ''superadmin'')\<lparr>us_role := ''member''\<rparr>,
      (sample_user 2 ''member'')\<lparr>us_role := ''superadmin''\<rparr>, sample_user 3 ''member'']"
    by (simp add: d2_def update_user_role_def update_user_role_respond_def read_row_def f1 [unfolded One_nat_def] levels r1)
  have "active_superadmins d3 = 0"
    by (simp add: d3_def update_user_def update_user_respond_def read_row_def sample_find_user levels
        assert_can_modify_target_def name_taken_def role_patch_error_def active_superadmins_filter
        superadmin_row_def r2 apply_patch_def)
  moreover have "run_accounts sample_env sample_race sample_accounts = d3"
    by (simp add: run_accounts_def sample_race_def d1_def d2_def d3_def)
  ultimately show ?thesis by (simp add: active_superadmins_filter superadmin_row_def)
qed

end
