(* ===== verification/Org_Invariants.thy ===== *)
theory Org_Invariants
  imports Organizations Account_Properties
begin

text \<open>
  What every interleaving of account, permission and organisation requests keeps: unique
  memberships with valid references, an owner for every organisation, an admin for every
  vault that had one.
\<close>

section \<open>The permission tables\<close>

definition member_of :: "nat \<times> nat \<times> string \<Rightarrow> nat \<times> nat" where
  "member_of m = (fst m, fst (snd m))"

definition org_ok :: "authz_db \<Rightarrow> bool" where
  "org_ok az \<longleftrightarrow> distinct (map member_of (org_member_rows az)) \<and> distinct (organizations az)
     \<and> distinct (map fst (groups az))
     \<and> (\<forall>(org, u, r) \<in> set (org_member_rows az). org \<in> set (organizations az)
          \<and> u \<in> fst ` set (users az) \<and> r \<in> {''owner'', ''admin'', ''member''})
     \<and> (\<forall>org \<in> set (organizations az). \<exists>u. (org, u, ''owner'') \<in> set (org_member_rows az))
     \<and> (\<forall>(g, org) \<in> set (groups az). org \<in> set (organizations az))"

lemma member_of_simps [simp]: "member_of (org, u, r) = (org, u)"
  by (simp add: member_of_def)

lemma org_okI:
  assumes "distinct (map member_of (org_member_rows az))" and "distinct (organizations az)"
    and "distinct (map fst (groups az))"
    and "\<And>org u r. (org, u, r) \<in> set (org_member_rows az) \<Longrightarrow> org \<in> set (organizations az)
        \<and> u \<in> fst ` set (users az) \<and> r \<in> {''owner'', ''admin'', ''member''}"
    and "\<And>org. org \<in> set (organizations az) \<Longrightarrow> \<exists>u. (org, u, ''owner'') \<in> set (org_member_rows az)"
    and "\<And>g org. (g, org) \<in> set (groups az) \<Longrightarrow> org \<in> set (organizations az)"
  shows "org_ok az"
  unfolding org_ok_def using assms(1-3) assms(4-6) by (intro conjI) (auto simp del: insert_iff)

lemma org_ok_distinct:
  "org_ok az \<Longrightarrow> distinct (map member_of (org_member_rows az))"
  "org_ok az \<Longrightarrow> distinct (organizations az)" "org_ok az \<Longrightarrow> distinct (map fst (groups az))"
  by (simp_all add: org_ok_def)

lemma org_ok_rowD:
  assumes "org_ok az" and "(org, u, r) \<in> set (org_member_rows az)"
  shows "org \<in> set (organizations az)" and "u \<in> fst ` set (users az)"
    and "r \<in> {''owner'', ''admin'', ''member''}"
proof -
  have "\<forall>(org, u, r) \<in> set (org_member_rows az). org \<in> set (organizations az)
      \<and> u \<in> fst ` set (users az) \<and> r \<in> {''owner'', ''admin'', ''member''}"
    using assms(1) unfolding org_ok_def by blast
  from bspec [OF this assms(2)] show "org \<in> set (organizations az)" "u \<in> fst ` set (users az)"
    "r \<in> {''owner'', ''admin'', ''member''}" by simp_all
qed

lemma org_ok_ownerD:
  "org_ok az \<Longrightarrow> org \<in> set (organizations az) \<Longrightarrow> \<exists>u. (org, u, ''owner'') \<in> set (org_member_rows az)"
  by (simp add: org_ok_def)

lemma org_ok_groupD: "org_ok az \<Longrightarrow> (g, org) \<in> set (groups az) \<Longrightarrow> org \<in> set (organizations az)"
  by (auto simp: org_ok_def)

text \<open>Rows taken out, as long as every organisation that stays keeps an owner.\<close>

lemma org_ok_filter_members:
  assumes ok: "org_ok az" and "org_member_rows az' = filter p (org_member_rows az)"
    and "\<And>org u r. (org, u, r) \<in> set (org_member_rows az) \<Longrightarrow> p (org, u, r) \<Longrightarrow>
        org \<in> set (organizations az') \<and> u \<in> fst ` set (users az')"
    and "\<And>org. org \<in> set (organizations az') \<Longrightarrow>
        \<exists>u. (org, u, ''owner'') \<in> set (org_member_rows az) \<and> p (org, u, ''owner'')"
    and "groups az' = filter q (groups az)" and "distinct (organizations az')"
    and "\<And>g org. (g, org) \<in> set (groups az) \<Longrightarrow> q (g, org) \<Longrightarrow> org \<in> set (organizations az')"
  shows "org_ok az'"
proof (rule org_okI)
  show "distinct (map member_of (org_member_rows az'))" "distinct (map fst (groups az'))"
    unfolding assms(2,5) by (intro distinct_map_filter_key org_ok_distinct ok)+
  show "distinct (organizations az')" by (rule assms(6))
  fix org u r assume "(org, u, r) \<in> set (org_member_rows az')"
  then have m: "(org, u, r) \<in> set (org_member_rows az)" "p (org, u, r)" unfolding assms(2) by simp_all
  from assms(3) [OF m] org_ok_rowD(3) [OF ok m(1)]
  show "org \<in> set (organizations az') \<and> u \<in> fst ` set (users az') \<and> r \<in> {''owner'', ''admin'', ''member''}"
    by blast
next
  fix org assume "org \<in> set (organizations az')"
  from assms(4) [OF this] show "\<exists>u. (org, u, ''owner'') \<in> set (org_member_rows az')"
    unfolding assms(2) by auto
next
  fix g org assume "(g, org) \<in> set (groups az')"
  then show "org \<in> set (organizations az')" unfolding assms(5) using assms(7) [of g org] by simp
qed

lemma org_ok_role_unique:
  assumes "org_ok az" and "(org, u, r) \<in> set (org_member_rows az)" and "(org, u, r') \<in> set (org_member_rows az)"
  shows "r = r'"
proof -
  have "distinct (map member_of (org_member_rows az))" using assms(1) by (simp add: org_ok_def)
  from distinct_key_eq [OF this assms(2,3)] show ?thesis by simp
qed

lemma org_role_SomeD: "org_role az org u = Some r \<Longrightarrow> (org, u, r) \<in> set (org_member_rows az)"
  by (auto simp: org_role_def dest!: find_SomeD)

lemma org_role_None_iff: "org_role az org u = None \<longleftrightarrow> (\<forall>r. (org, u, r) \<notin> set (org_member_rows az))"
  by (auto simp: org_role_def find_None_iff)

lemma org_role_iff:
  assumes "org_ok az"
  shows "org_role az org u = Some r \<longleftrightarrow> (org, u, r) \<in> set (org_member_rows az)"
proof
  assume r: "(org, u, r) \<in> set (org_member_rows az)"
  then obtain r' where "org_role az org u = Some r'"
    using org_role_None_iff [of az org u] by (cases "org_role az org u") auto
  with org_ok_role_unique [OF assms r org_role_SomeD [OF this]] show "org_role az org u = Some r" by simp
qed (rule org_role_SomeD)

lemma org_member_iff: "org_member az org u \<longleftrightarrow> (\<exists>r. (org, u, r) \<in> set (org_member_rows az))"
  by (auto simp: org_member_def list_ex_iff)

lemma org_ok_same:
  assumes "org_ok az" and "org_member_rows az' = org_member_rows az" and "organizations az' = organizations az"
    and "groups az' = groups az" and "fst ` set (users az) \<subseteq> fst ` set (users az')"
  shows "org_ok az'"
  using assms by (auto simp: org_ok_def)

lemma org_ok_drop_group:
  assumes "org_ok az" and "org_member_rows az' = org_member_rows az" and "organizations az' = organizations az"
    and "groups az' = filter p (groups az)" and "users az' = users az"
  shows "org_ok az'"
  using assms by (auto simp: org_ok_def distinct_map_filter_key)

lemma org_ok_delete_user:
  assumes ok: "org_ok az" and no: "\<not> owns_organization az i"
  shows "org_ok (delete_user_grants i az)"
proof (rule org_ok_filter_members [OF ok, where p = "\<lambda>(_, u, _). u \<noteq> i" and q = "\<lambda>_. True"])
  have o: "(org, i, ''owner'') \<notin> set (org_member_rows az)" for org
    using no by (auto simp: owns_organization_def list_ex_iff)
  show "\<exists>u. (org, u, ''owner'') \<in> set (org_member_rows az) \<and> (case (org, u, ''owner'') of (_, u, _) \<Rightarrow> u \<noteq> i)"
    if m: "org \<in> set (organizations (delete_user_grants i az))" for org
  proof -
    obtain u where "(org, u, ''owner'') \<in> set (org_member_rows az)"
      using org_ok_ownerD [OF ok, of org] m by (auto simp: delete_user_grants_def Let_def)
    with o [of org] show ?thesis by (cases "u = i") auto
  qed
  show "org \<in> set (organizations (delete_user_grants i az)) \<and> u \<in> fst ` set (users (delete_user_grants i az))"
    if "(org, u, r) \<in> set (org_member_rows az)" "case (org, u, r) of (_, u, _) \<Rightarrow> u \<noteq> i" for org u r
    using org_ok_rowD(1,2) [OF ok that(1)] that(2) by (force simp: delete_user_grants_def Let_def)
qed (use ok in \<open>auto simp: delete_user_grants_def Let_def org_ok_distinct org_ok_groupD\<close>)

lemma org_ok_remove_member:
  assumes ok: "org_ok az" and role: "org_role az org u = Some r" "r \<noteq> ''owner''"
  shows "org_ok (delete_org_member_rows org u az)"
proof (rule org_ok_filter_members [OF ok, where p = "\<lambda>(o', u', _). \<not> (o' = org \<and> u' = u)" and q = "\<lambda>_. True"])
  have n: "(org, u, ''owner'') \<notin> set (org_member_rows az)"
    using org_ok_role_unique [OF ok org_role_SomeD [OF role(1)]] role(2) by blast
  show "\<exists>w. (o', w, ''owner'') \<in> set (org_member_rows az)
      \<and> (case (o', w, ''owner'') of (o', u', _) \<Rightarrow> \<not> (o' = org \<and> u' = u))"
    if m: "o' \<in> set (organizations (delete_org_member_rows org u az))" for o'
  proof -
    obtain w where "(o', w, ''owner'') \<in> set (org_member_rows az)"
      using org_ok_ownerD [OF ok, of o'] m by (auto simp: delete_org_member_rows_def)
    with n show ?thesis by (cases "o' = org \<and> w = u") auto
  qed
qed (use ok in \<open>auto simp: delete_org_member_rows_def org_ok_distinct org_ok_groupD org_ok_rowD(1,2)\<close>)

lemma org_ok_delete_org:
  assumes ok: "org_ok az"
  shows "org_ok (delete_org_rows org az)"
proof (rule org_ok_filter_members [OF ok, where p = "\<lambda>(o', _). o' \<noteq> org" and q = "\<lambda>(_, o'). o' \<noteq> org"])
  show "\<exists>w. (o', w, ''owner'') \<in> set (org_member_rows az) \<and> (case (o', w, ''owner'') of (o', _) \<Rightarrow> o' \<noteq> org)"
    if m: "o' \<in> set (organizations (delete_org_rows org az))" for o'
    using org_ok_ownerD [OF ok, of o'] m by (auto simp: delete_org_rows_def Let_def)
qed (use ok in \<open>auto simp: delete_org_rows_def Let_def org_ok_distinct org_ok_groupD org_ok_rowD(1,2)\<close>)

lemma org_ok_add_member:
  assumes ok: "org_ok az" and rows: "org_member_rows az' = org_member_rows az @ [(org, u, r)]"
    and orgs: "set (organizations az) \<subseteq> set (organizations az')" "distinct (organizations az')"
    and new: "\<And>x. x \<in> set (organizations az') \<Longrightarrow> x \<notin> set (organizations az) \<Longrightarrow> x = org \<and> r = ''owner''"
    and refs: "org \<in> set (organizations az')" "u \<in> fst ` set (users az)" "r \<in> {''owner'', ''admin'', ''member''}"
    and fresh: "\<not> org_member az org u" and same: "users az' = users az" "groups az' = groups az"
  shows "org_ok az'"
proof (rule org_okI)
  have "(org, u) \<notin> member_of ` set (org_member_rows az)"
  proof
    assume "(org, u) \<in> member_of ` set (org_member_rows az)"
    then obtain r' where "(org, u, r') \<in> set (org_member_rows az)" by (auto simp: member_of_def)
    with fresh show False unfolding org_member_iff by blast
  qed
  then show "distinct (map member_of (org_member_rows az'))"
    using org_ok_distinct(1) [OF ok] by (simp add: rows)
  show "distinct (organizations az')" "distinct (map fst (groups az'))"
    using orgs(2) org_ok_distinct(3) [OF ok] by (simp_all add: same)
  fix x w s assume "(x, w, s) \<in> set (org_member_rows az')"
  then consider "(x, w, s) \<in> set (org_member_rows az)" | "x = org" "w = u" "s = r" by (auto simp: rows)
  then show "x \<in> set (organizations az') \<and> w \<in> fst ` set (users az') \<and> s \<in> {''owner'', ''admin'', ''member''}"
    using org_ok_rowD [OF ok] orgs(1) refs unfolding same by cases blast+
next
  fix x assume x: "x \<in> set (organizations az')"
  show "\<exists>w. (x, w, ''owner'') \<in> set (org_member_rows az')"
    using new [OF x] org_ok_ownerD [OF ok, of x] by (cases "x \<in> set (organizations az)") (auto simp: rows)
next
  fix g x assume "(g, x) \<in> set (groups az')"
  then show "x \<in> set (organizations az')" using org_ok_groupD [OF ok] orgs(1) unfolding same by blast
qed

lemma org_ok_insert_member:
  assumes "org_ok az" and "org \<in> set (organizations az)" and "u \<in> fst ` set (users az)"
    and "r \<in> {''owner'', ''admin'', ''member''}" and "\<not> org_member az org u"
  shows "org_ok (insert_org_member org u r az)"
  by (rule org_ok_add_member [OF assms(1), of _ org u r])
    (use assms in \<open>simp_all add: insert_org_member_def org_ok_distinct\<close>)

lemma org_ok_create:
  assumes ok: "org_ok az" and new: "org \<notin> set (organizations az)" and u: "u \<in> fst ` set (users az)"
  shows "org_ok (insert_org_member org u ''owner'' (az\<lparr>organizations := organizations az @ [org]\<rparr>))"
proof (rule org_ok_add_member [OF ok, of _ org u "''owner''"])
  show "\<not> org_member az org u" using new org_ok_rowD(1) [OF ok] unfolding org_member_iff by blast
qed (use new u in \<open>auto simp: insert_org_member_def org_ok_distinct(2) [OF ok]\<close>)

lemma org_ok_map_roles:
  assumes ok: "org_ok az" and valid: "\<And>o' u' r. r \<in> {''owner'', ''admin'', ''member''} \<Longrightarrow>
      f o' u' r \<in> {''owner'', ''admin'', ''member''}"
    and owner: "\<And>o' u'. (o', u', ''owner'') \<in> set (org_member_rows az) \<Longrightarrow>
      \<exists>w r. (o', w, r) \<in> set (org_member_rows az) \<and> f o' w r = ''owner''"
  shows "org_ok (az\<lparr>org_member_rows := map (\<lambda>(o', u', r). (o', u', f o' u' r)) (org_member_rows az)\<rparr>)"
    (is "org_ok ?az")
proof (rule org_okI)
  have keys: "map member_of (org_member_rows ?az) = map member_of (org_member_rows az)"
    by (simp add: comp_def case_prod_beta member_of_def)
  show "distinct (map member_of (org_member_rows ?az))" unfolding keys by (rule org_ok_distinct(1) [OF ok])
  show "distinct (organizations ?az)" "distinct (map fst (groups ?az))"
    using org_ok_distinct(2,3) [OF ok] by simp_all
  fix x w s assume "(x, w, s) \<in> set (org_member_rows ?az)"
  then obtain r where r: "(x, w, r) \<in> set (org_member_rows az)" "s = f x w r" by auto
  from org_ok_rowD [OF ok r(1)] valid
  show "x \<in> set (organizations ?az) \<and> w \<in> fst ` set (users ?az) \<and> s \<in> {''owner'', ''admin'', ''member''}"
    unfolding r(2) by simp
next
  fix x assume "x \<in> set (organizations ?az)"
  then obtain u where "(x, u, ''owner'') \<in> set (org_member_rows az)" using org_ok_ownerD [OF ok] by auto
  from owner [OF this] obtain w r where "(x, w, r) \<in> set (org_member_rows az)" "f x w r = ''owner''" by blast
  then show "\<exists>w. (x, w, ''owner'') \<in> set (org_member_rows ?az)" by force
next
  fix g x assume "(g, x) \<in> set (groups ?az)"
  then show "x \<in> set (organizations ?az)" using org_ok_groupD [OF ok] by simp
qed

lemma org_ok_member_role:
  assumes "org_ok az" and "r \<in> {''admin'', ''member''}"
  shows "org_ok (set_member_role org u r az)"
  unfolding set_member_role_def
proof (rule org_ok_map_roles [OF assms(1)])
  fix o' u' assume "(o', u', ''owner'') \<in> set (org_member_rows az)"
  then show "\<exists>w s. (o', w, s) \<in> set (org_member_rows az)
      \<and> (if o' = org \<and> w = u \<and> s \<noteq> ''owner'' then r else s) = ''owner''"
    by (intro exI [of _ u'] exI [of _ "''owner''"]) simp
qed (use assms(2) in auto)

lemma org_ok_transfer:
  assumes "org_ok az" and "org_member az org u"
  shows "org_ok (move_ownership org u az)"
  unfolding move_ownership_def
proof (rule org_ok_map_roles [OF assms(1)])
  fix o' u' assume m: "(o', u', ''owner'') \<in> set (org_member_rows az)"
  obtain r where r: "(org, u, r) \<in> set (org_member_rows az)" using assms(2) by (auto simp: org_member_iff)
  show "\<exists>w s. (o', w, s) \<in> set (org_member_rows az)
      \<and> (if o' = org \<and> w = u then ''owner'' else if o' = org \<and> s = ''owner'' then ''admin'' else s) = ''owner''"
  proof (cases "o' = org")
    case True
    with r show ?thesis by (intro exI [of _ u] exI [of _ r]) simp
  next
    case False
    with m show ?thesis by (intro exI [of _ u'] exI [of _ "''owner''"]) simp
  qed
qed auto

lemma org_ok_add_group:
  assumes "org_ok az" and "org \<in> set (organizations az)" and "g \<notin> fst ` set (groups az)"
  shows "org_ok (az\<lparr>groups := groups az @ [(g, org)]\<rparr>)"
  using assms by (auto simp: org_ok_def)

text \<open>The replacement keeps owners and adds valid rows.\<close>

lemma drop_memberships_ok:
  assumes ok: "org_ok az"
  shows "org_ok (drop_memberships scoped caller u az)"
  unfolding drop_memberships_def
proof (rule org_ok_filter_members [OF ok, where q = "\<lambda>_. True"])
  show "\<exists>w. (x, w, ''owner'') \<in> set (org_member_rows az) \<and> (case (x, w, ''owner'') of
      (org, u', r) \<Rightarrow> \<not> (u' = u \<and> r \<noteq> ''owner'' \<and> (scoped \<longrightarrow> org \<in> set (orgs_of az caller))))"
    if "x \<in> set (organizations (az\<lparr>org_member_rows := rows\<rparr>))" for x rows
    using org_ok_ownerD [OF ok, of x] that by simp
qed (use ok in \<open>auto simp: org_ok_distinct org_ok_groupD org_ok_rowD(1,2)\<close>)

lemma insert_missing_ok:
  assumes "org_ok az" and "fst m \<in> set (organizations az)" and "u \<in> fst ` set (users az)"
    and "snd m \<in> {''admin'', ''member''}"
  shows "org_ok (insert_missing_member u m az)"
  using assms org_ok_insert_member [of az "fst m" u "snd m"] by (auto simp: insert_missing_member_def)

lemma insert_missing_fields [simp]:
  "organizations (insert_missing_member u m az) = organizations az"
  "users (insert_missing_member u m az) = users az"
  "groups (insert_missing_member u m az) = groups az"
  "group_members (insert_missing_member u m az) = group_members az"
  "vault_members (insert_missing_member u m az) = vault_members az"
  "group_access (insert_missing_member u m az) = group_access az"
  by (simp_all add: insert_missing_member_def insert_org_member_def)

lemma insert_missing_fold_fields [simp]:
  "organizations (fold (insert_missing_member u) ms az) = organizations az"
  "users (fold (insert_missing_member u) ms az) = users az"
  "groups (fold (insert_missing_member u) ms az) = groups az"
  "group_members (fold (insert_missing_member u) ms az) = group_members az"
  "vault_members (fold (insert_missing_member u) ms az) = vault_members az"
  "group_access (fold (insert_missing_member u) ms az) = group_access az"
  by (induction ms arbitrary: az) simp_all

lemma drop_memberships_fields [simp]:
  "organizations (drop_memberships scoped caller u az) = organizations az"
  "users (drop_memberships scoped caller u az) = users az"
  "groups (drop_memberships scoped caller u az) = groups az"
  "group_members (drop_memberships scoped caller u az) = group_members az"
  "vault_members (drop_memberships scoped caller u az) = vault_members az"
  "group_access (drop_memberships scoped caller u az) = group_access az"
  by (simp_all add: drop_memberships_def)

lemma insert_missing_fold_ok:
  "org_ok az \<Longrightarrow> ms = [] \<or> u \<in> fst ` set (users az) \<Longrightarrow>
     \<forall>m \<in> set ms. fst m \<in> set (organizations az) \<and> snd m \<in> {''admin'', ''member''} \<Longrightarrow>
     org_ok (fold (insert_missing_member u) ms az)"
proof (induction ms arbitrary: az)
  case (Cons m ms)
  have "org_ok (insert_missing_member u m az)"
    using Cons.prems by (intro insert_missing_ok) auto
  then have "org_ok (fold (insert_missing_member u) ms (insert_missing_member u m az))"
    by (rule Cons.IH) (use Cons.prems in auto)
  then show ?case by simp
qed simp

lemma replace_user_orgs_ok:
  assumes "org_ok az" and "ms = [] \<or> u \<in> fst ` set (users az)"
    and "\<forall>m \<in> set ms. fst m \<in> set (organizations az) \<and> snd m \<in> {''admin'', ''member''}"
  shows "org_ok (replace_user_orgs scoped caller u ms az)"
proof -
  have "org_ok (fold (insert_missing_member u) ms (drop_memberships scoped caller u az))"
    by (rule insert_missing_fold_ok [OF drop_memberships_ok [OF assms(1)]]) (use assms in simp_all)
  then show ?thesis by (rule org_ok_same) (simp_all add: replace_user_orgs_def Let_def)
qed

section \<open>Account and permission requests on the tables\<close>

lemma insert_access_fold_fields [simp]:
  "organizations (fold (insert_access v gb) items az) = organizations az"
  "users (fold (insert_access v gb) items az) = users az"
  "groups (fold (insert_access v gb) items az) = groups az"
  "org_member_rows (fold (insert_access v gb) items az) = org_member_rows az"
  by (induction items arbitrary: az) (simp_all add: insert_access_def)

lemma insert_group_access_fold_fields [simp]:
  "organizations (fold (insert_group_access g gb) items az) = organizations az"
  "users (fold (insert_group_access g gb) items az) = users az"
  "groups (fold (insert_group_access g gb) items az) = groups az"
  "org_member_rows (fold (insert_group_access g gb) items az) = org_member_rows az"
  by (induction items arbitrary: az) (simp_all add: insert_group_access_def insert_access_def)

definition same_orgs :: "authz_db \<Rightarrow> authz_db \<Rightarrow> bool" where
  "same_orgs az az' \<longleftrightarrow> organizations az' = organizations az \<and> users az' = users az
     \<and> groups az' = groups az \<and> org_member_rows az' = org_member_rows az"

lemma vault_routes_same_orgs:
  "add_vault_member p v u perm az = Inr az' \<Longrightarrow> same_orgs az az'"
  "update_vault_member p v u perm az = Inr az' \<Longrightarrow> same_orgs az az'"
  "remove_vault_member p v u az = Inr az' \<Longrightarrow> same_orgs az az'"
  "grant_vault_group_access p v g perm az = Inr az' \<Longrightarrow> same_orgs az az'"
  "update_vault_group_access p v g perm az = Inr az' \<Longrightarrow> same_orgs az az'"
  "revoke_vault_group_access p v g az = Inr az' \<Longrightarrow> same_orgs az az'"
  by (auto simp: same_orgs_def add_vault_member_def update_vault_member_def remove_vault_member_def
      grant_vault_group_access_def update_vault_group_access_def revoke_vault_group_access_def
      set_member_permission_def delete_member_def set_removed_flag_def insert_access_def
      set_access_permission_def delete_access_def split: if_splits option.splits)

lemma bulk_routes_same_orgs:
  "update_vault_groups p v acs gs az = Inr az' \<Longrightarrow> same_orgs az az'"
  "update_group_members p g us az = Inr az' \<Longrightarrow> same_orgs az az'"
  "update_group_vaults p g acs vs az = Inr az' \<Longrightarrow> same_orgs az az'"
  by (auto simp: same_orgs_def update_vault_groups_def update_group_members_def
      update_group_vaults_def replace_group_members_def replace_group_vaults_def Let_def
      dest!: guarded_transaction_result split: if_splits option.splits)

definition shrinks :: "authz_db \<Rightarrow> authz_db \<Rightarrow> bool" where
  "shrinks az az' \<longleftrightarrow> users az' = users az
     \<and> (\<exists>p. organizations az' = filter p (organizations az)) \<and> (\<exists>q. groups az' = filter q (groups az))"

lemma same_orgs_shrinks: "same_orgs az az' \<Longrightarrow> shrinks az az'"
  unfolding same_orgs_def shrinks_def by (intro conjI exI [of _ "\<lambda>_. True"]) simp_all

lemma same_orgs_ok: "same_orgs az az' \<Longrightarrow> org_ok az \<Longrightarrow> org_ok az'"
  by (rule org_ok_same) (auto simp: same_orgs_def)

lemma delete_group_org:
  assumes "org_ok az" and "delete_group p g az = Inr az'"
  shows "org_ok az' \<and> shrinks az az'"
proof -
  have az': "az' = delete_group_rows g az"
    using assms(2) by (auto simp: delete_group_def dest: guarded_transaction_result split: if_splits option.splits)
  have f: "groups az' = filter (\<lambda>(g', _). g' \<noteq> g) (groups az)" by (simp add: az' delete_group_rows_def)
  have "org_ok az'"
    by (rule org_ok_drop_group [OF assms(1) _ _ f]) (simp_all add: az' delete_group_rows_def)
  moreover have "organizations az' = filter (\<lambda>_. True) (organizations az)" "users az' = users az"
    by (simp_all add: az' delete_group_rows_def)
  ultimately show ?thesis using f unfolding shrinks_def by blast
qed

lemma remove_org_member_org:
  assumes ok: "org_ok az" and "remove_org_member p org u az = Inr az'"
  shows "org_ok az' \<and> shrinks az az'"
proof -
  obtain r where r: "org_role az org u = Some r" "r \<noteq> ''owner''" and az': "az' = delete_org_member_rows org u az"
    using assms(2) by (auto simp: remove_org_member_def dest: guarded_transaction_result split: if_splits option.splits)
  have "organizations az' = filter (\<lambda>_. True) (organizations az)" "groups az' = filter (\<lambda>_. True) (groups az)"
    "users az' = users az"
    by (simp_all add: az' delete_org_member_rows_def)
  then show ?thesis using org_ok_remove_member [OF ok r] unfolding shrinks_def az' by blast
qed

lemma delete_organization_org:
  assumes ok: "org_ok az" and "delete_organization p org az = Inr az'"
  shows "org_ok az' \<and> shrinks az az'"
proof -
  have az': "az' = delete_org_rows org az"
    using assms(2) by (auto simp: delete_organization_def dest: guarded_transaction_result split: if_splits)
  have "organizations az' = filter (\<lambda>o'. o' \<noteq> org) (organizations az)"
    "groups az' = filter (\<lambda>(_, o'). o' \<noteq> org) (groups az)" "users az' = users az"
    by (simp_all add: az' delete_org_rows_def Let_def)
  then show ?thesis using org_ok_delete_org [OF ok] unfolding shrinks_def az' by blast
qed

lemma apply_access_org:
  assumes "org_ok az" and "apply_access p c az = Inr az'"
  shows "org_ok az' \<and> shrinks az az'"
proof -
  have "same_orgs az az' \<Longrightarrow> ?thesis" using assms(1) same_orgs_ok same_orgs_shrinks by blast
  then show ?thesis using assms
    by (cases c) (auto dest: vault_routes_same_orgs bulk_routes_same_orgs delete_group_org
        remove_org_member_org delete_organization_org)
qed

lemma assign_default_wf:
  assumes "access_wf (access db)"
  shows "access_wf (access (assign_user_to_default_vault i db))"
  using assms
  by (auto simp: assign_user_to_default_vault_def ensure_default_vault_def Let_def access_wf_def
      member_key_def member_at_def list_ex_iff split: option.split)

lemma account_access_wf:
  "access_wf (access db) \<Longrightarrow> access_wf (access (set_active i on db))"
  "access_wf (access db) \<Longrightarrow> access_wf (access (insert_user n p f r m db))"
  by (simp_all add: set_active_def insert_user_def access_wf_def)

lemma delete_user_grants_wf: "access_wf az \<Longrightarrow> access_wf (delete_user_grants i az)"
proof -
  have "member_key \<circ> (\<lambda>r. r\<lparr>vm_granted_by := k r\<rparr>) = member_key" for k
    by (simp add: member_key_def fun_eq_iff)
  moreover have "access_key \<circ> (\<lambda>r. r\<lparr>vga_granted_by := k r\<rparr>) = access_key" for k
    by (simp add: access_key_def fun_eq_iff)
  ultimately show "access_wf az \<Longrightarrow> access_wf (delete_user_grants i az)"
    by (simp add: access_wf_def delete_user_grants_def Let_def distinct_map_filter_key)
qed

lemma assign_default_orgs [simp]:
  "organizations (access (assign_user_to_default_vault i db)) = organizations (access db)"
  "groups (access (assign_user_to_default_vault i db)) = groups (access db)"
  "org_member_rows (access (assign_user_to_default_vault i db)) = org_member_rows (access db)"
  by (simp_all add: assign_user_to_default_vault_def ensure_default_vault_def Let_def split: option.split)

lemma insert_user_orgs [simp]:
  "organizations (access (insert_user n p f r m db)) = organizations (access db)"
  "groups (access (insert_user n p f r m db)) = groups (access db)"
  "org_member_rows (access (insert_user n p f r m db)) = org_member_rows (access db)"
  "organizations (access (set_active i on db)) = organizations (access db)"
  "groups (access (set_active i on db)) = groups (access db)"
  "org_member_rows (access (set_active i on db)) = org_member_rows (access db)"
  "organizations (delete_user_grants i az) = organizations az"
  "groups (delete_user_grants i az) = groups az"
  by (simp_all add: insert_user_def set_active_def delete_user_grants_def Let_def)

lemma exec_account_perms:
  assumes "access_wf (access db)" and "org_ok (access db)"
  shows "access_wf (access (exec_account env c db)) \<and> org_ok (access (exec_account env c db))
    \<and> organizations (access (exec_account env c db)) = organizations (access db)
    \<and> groups (access (exec_account env c db)) = groups (access db)"
proof (rule exec_account_access)
  fix n p f r m
  have "org_ok (access (assign_user_to_default_vault (next_user db) (insert_user n p f r m db)))"
    by (rule org_ok_same [OF assms(2)]) auto
  then show "access_wf (access (assign_user_to_default_vault (next_user db) (insert_user n p f r m db)))
      \<and> org_ok (access (assign_user_to_default_vault (next_user db) (insert_user n p f r m db)))
      \<and> organizations (access (assign_user_to_default_vault (next_user db) (insert_user n p f r m db)))
        = organizations (access db)
      \<and> groups (access (assign_user_to_default_vault (next_user db) (insert_user n p f r m db))) = groups (access db)"
    using assms(1) by (simp add: assign_default_wf account_access_wf)
next
  fix i on
  have "fst ` set (users (access (set_active i on db))) = fst ` set (users (access db))" by force
  then have "org_ok (access (set_active i on db))"
    by (intro org_ok_same [OF assms(2)]) simp_all
  then show "access_wf (access (set_active i on db)) \<and> org_ok (access (set_active i on db))
      \<and> organizations (access (set_active i on db)) = organizations (access db)
      \<and> groups (access (set_active i on db)) = groups (access db)"
    using assms(1) by (simp add: account_access_wf)
qed (use assms in \<open>simp_all add: delete_user_grants_wf org_ok_delete_user\<close>)

section \<open>Slugs\<close>

lemma set_dropWhile_keeps: "x \<in> set s \<Longrightarrow> \<not> p x \<Longrightarrow> x \<in> set (dropWhile p s)"
  by (induction s) auto

lemma org_slug_shape:
  "generate_org_slug tx name \<noteq> []" "length (generate_org_slug tx name) \<le> 50"
  by (simp_all add: generate_org_slug_def Let_def)

text \<open>The slug of a name with letters or digits has only lower case letters, digits and dashes.\<close>

lemma org_slug_chars:
  assumes "ch \<in> set (generate_org_slug tx name)"
    and "\<not> list_all (\<lambda>c. c = 45) (dash_runs (\<lambda>c. \<not> slug_char c) (py_strip (tx_lower tx name)))"
  shows "\<exists>c. ch = char_of c \<and> (slug_char c \<or> c = 45)"
proof -
  let ?s = "dash_runs (\<lambda>c. \<not> slug_char c) (py_strip (tx_lower tx name))"
  let ?d = "dash_runs (\<lambda>c. c = 45) (strip_dashes ?s)"
  obtain x where x: "x \<in> set ?s" "x \<noteq> 45" using assms(2) by (auto simp: list_all_iff)
  have "\<exists>y \<in> set (dropWhile (\<lambda>c. c = 45) ?s). y \<noteq> 45"
    using set_dropWhile_keeps [OF x(1), of "\<lambda>c. c = 45"] x(2) by blast
  then have "strip_dashes ?s \<noteq> []" by (auto simp: strip_dashes_def dropWhile_eq_Nil_conv)
  then have "?d \<noteq> []" by (cases "strip_dashes ?s") simp_all
  then have "ch \<in> set (map char_of ?d)"
    using assms(1) by (auto simp: generate_org_slug_def Let_def dest: in_set_takeD)
  then obtain c where "ch = char_of c" "c \<in> set ?d" by auto
  then show ?thesis using dash_runs_chars [of c "\<lambda>c. c = 45" "strip_dashes ?s"] strip_dashes_subset [of ?s]
      dash_runs_chars [of c "\<lambda>c. \<not> slug_char c"] by blast
qed

text \<open>Names that differ only in punctuation have the same slug.\<close>

lemma org_slug_not_injective:
  assumes "\<And>s. tx_lower tx s = nocase s"
  shows "generate_org_slug tx [97, 32, 98] = generate_org_slug tx [97, 45, 98]"
  by (simp add: generate_org_slug_def strip_dashes_def Let_def assms nocase_def nocase_char_def py_strip_def py_isspace_def slug_char_def)

end
