(* ===== verification/Org_Requests.thy ===== *)
theory Org_Requests
  imports Org_Invariants
begin

text \<open>
  The invariant of the whole workspace, for every request: accounts and permission tables,
  and the names, slugs, invitations and groups of the organisations.
\<close>

section \<open>The invariant\<close>

definition orgs_ok :: "org_row list \<Rightarrow> nat list \<Rightarrow> nat \<Rightarrow> bool" where
  "orgs_ok rs orgs n \<longleftrightarrow> map og_id rs = orgs \<and> distinct (map (nocase \<circ> og_name) rs)
     \<and> distinct (map og_slug rs) \<and> (\<forall>org \<in> set orgs. org < n)"

definition groups_ok :: "(nat \<times> pystr) list \<Rightarrow> (nat \<times> nat) list \<Rightarrow> nat \<Rightarrow> bool" where
  "groups_ok names gs n \<longleftrightarrow> map fst names = map fst gs \<and> (\<forall>g \<in> fst ` set gs. g < n)"

definition invites_ok :: "invite_row list \<Rightarrow> nat list \<Rightarrow> nat \<Rightarrow> bool" where
  "invites_ok ivs orgs n \<longleftrightarrow> distinct (map iv_id ivs) \<and> distinct (map iv_hash ivs)
     \<and> (\<forall>v \<in> set ivs. iv_id v < n \<and> iv_org v \<in> set orgs \<and> iv_role v \<in> {''admin'', ''member''})"

definition ws_inv :: "workspace \<Rightarrow> bool" where
  "ws_inv ws \<longleftrightarrow> accounts_inv (acc ws) \<and> access_wf (perms ws) \<and> org_ok (perms ws)
     \<and> orgs_ok (org_rows ws) (organizations (perms ws)) (next_org ws)
     \<and> groups_ok (group_names ws) (groups (perms ws)) (next_group ws)
     \<and> invites_ok (invites ws) (organizations (perms ws)) (next_invite ws)"

lemma ws_invD:
  assumes "ws_inv ws"
  shows "accounts_inv (acc ws)" "access_wf (perms ws)" "org_ok (perms ws)"
    "orgs_ok (org_rows ws) (organizations (perms ws)) (next_org ws)"
    "groups_ok (group_names ws) (groups (perms ws)) (next_group ws)"
    "invites_ok (invites ws) (organizations (perms ws)) (next_invite ws)"
  using assms by (simp_all add: ws_inv_def)

lemma set_perms_fields [simp]:
  "perms (set_perms f ws) = f (perms ws)" "org_rows (set_perms f ws) = org_rows ws"
  "invites (set_perms f ws) = invites ws" "group_names (set_perms f ws) = group_names ws"
  "next_org (set_perms f ws) = next_org ws" "next_invite (set_perms f ws) = next_invite ws"
  "next_group (set_perms f ws) = next_group ws"
  "user_rows (acc (set_perms f ws)) = user_rows (acc ws)"
  "session_rows (acc (set_perms f ws)) = session_rows (acc ws)"
  "find_user (acc (set_perms f ws)) i = find_user (acc ws) i"
  by (simp_all add: set_perms_def perms_def find_user_def)

lemma perms_updates [simp]:
  "perms (ws\<lparr>org_rows := x1\<rparr>) = perms ws" "perms (ws\<lparr>invites := x2\<rparr>) = perms ws"
  "perms (ws\<lparr>group_names := x3\<rparr>) = perms ws" "perms (ws\<lparr>next_org := x4\<rparr>) = perms ws"
  "perms (ws\<lparr>next_invite := x5\<rparr>) = perms ws" "perms (ws\<lparr>next_group := x6\<rparr>) = perms ws"
  "perms (ws\<lparr>acc := x7\<rparr>) = access x7"
  by (simp_all add: perms_def)

lemma accounts_inv_set_perms:
  "accounts_inv (acc ws) \<Longrightarrow> users (f (perms ws)) = users (perms ws) \<Longrightarrow> accounts_inv (acc (set_perms f ws))"
  by (simp add: accounts_inv_def set_perms_def perms_def mirrored_def)

lemma user_known:
  assumes "ws_inv ws" and "find_user (acc ws) u \<noteq> None"
  shows "u \<in> fst ` set (users (perms ws))"
proof -
  have "users (perms ws) = map (\<lambda>r. (us_id r, us_active r)) (user_rows (acc ws))"
    using assms(1) by (simp add: ws_inv_def accounts_inv_def mirrored_def perms_def)
  then show ?thesis using assms(2) unfolding find_user_id by force
qed

lemma active_user_known: "ws_inv ws \<Longrightarrow> active_user ws u \<Longrightarrow> u \<in> fst ` set (users (perms ws))"
  by (rule user_known, assumption, unfold find_user_id) (auto simp: active_user_def list_ex_iff)

text \<open>A change of the permission tables that keeps users, organisations and groups.\<close>

lemma ws_inv_perms:
  assumes "ws_inv ws" and "org_ok (f (perms ws))" and "access_wf (f (perms ws))"
    and "users (f (perms ws)) = users (perms ws)" and "organizations (f (perms ws)) = organizations (perms ws)"
    and "groups (f (perms ws)) = groups (perms ws)"
  shows "ws_inv (set_perms f ws)"
  using ws_invD [OF assms(1)] assms(2-6) by (simp add: ws_inv_def accounts_inv_set_perms)

lemma ws_inv_invites:
  "ws_inv ws \<Longrightarrow> invites_ok ivs (organizations (perms ws)) (next_invite ws) \<Longrightarrow> ws_inv (ws\<lparr>invites := ivs\<rparr>)"
  by (simp add: ws_inv_def)

lemma invites_ok_update:
  assumes "invites_ok ivs orgs n" and "\<And>v. iv_id (f v) = iv_id v \<and> iv_org (f v) = iv_org v
      \<and> iv_role (f v) = iv_role v \<and> iv_hash (f v) = iv_hash v"
  shows "invites_ok (update_rows p f ivs) orgs n"
  using assms by (auto simp: invites_ok_def map_key_update_rows set_update_rows)

lemma ws_inv_set_invite:
  assumes "ws_inv ws" and "\<And>v. iv_id (f v) = iv_id v \<and> iv_org (f v) = iv_org v
      \<and> iv_role (f v) = iv_role v \<and> iv_hash (f v) = iv_hash v"
  shows "ws_inv (set_invite i f ws)"
  unfolding set_invite_def
  by (rule ws_inv_invites [OF assms(1)], rule invites_ok_update [OF ws_invD(6) [OF assms(1)] assms(2)])

section \<open>Organisations\<close>

lemma free_slug_SomeD: "free_slug tx ws i name = Some slug \<Longrightarrow> \<not> org_conflict ws i name slug"
  by (auto simp: free_slug_def split: if_splits)

lemma create_organization_inv:
  assumes inv: "ws_inv ws"
  shows "ws_inv (snd (create_organization tx actor name ws))"
proof (cases "find_user (acc ws) (vw_id actor) \<noteq> None \<and> free_slug tx ws None name \<noteq> None")
  case True
  then obtain slug where slug: "free_slug tx ws None name = Some slug" by blast
  let ?n = "next_org ws"
  let ?f = "\<lambda>az. insert_org_member ?n (vw_id actor) ''owner'' (az\<lparr>organizations := organizations az @ [?n]\<rparr>)"
  let ?ws = "(set_perms ?f ws)\<lparr>org_rows := org_rows ws @ [\<lparr>og_id = ?n, og_name = name, og_slug = slug\<rparr>],
      next_org := Suc ?n\<rparr>"
  have new: "?n \<notin> set (organizations (perms ws))" using ws_invD(4) [OF inv] by (auto simp: orgs_ok_def)
  have "org_ok (?f (perms ws))"
    by (rule org_ok_create [OF ws_invD(3) [OF inv] new]) (use user_known [OF inv] True in simp)
  moreover have "\<not> org_conflict ws None name slug" by (rule free_slug_SomeD [OF slug])
  then have "orgs_ok (org_rows ws @ [\<lparr>og_id = ?n, og_name = name, og_slug = slug\<rparr>])
      (organizations (perms ws) @ [?n]) (Suc ?n)"
    using ws_invD(4) [OF inv] new
    by (auto simp: orgs_ok_def org_conflict_def list_ex_iff less_Suc_eq)
  moreover have "invites_ok (invites ws) (organizations (perms ws) @ [?n]) (next_invite ws)"
    using ws_invD(6) [OF inv] by (auto simp: invites_ok_def)
  ultimately have "ws_inv ?ws"
    using ws_invD [OF inv] accounts_inv_set_perms [of ws ?f]
    by (simp add: ws_inv_def insert_org_member_def access_wf_def)
  then show ?thesis using inv slug by (simp add: create_organization_def)
next
  case False
  then show ?thesis using inv by (auto simp: create_organization_def)
qed

lemma update_organization_inv:
  assumes inv: "ws_inv ws"
  shows "ws_inv (snd (update_organization tx actor org name described snap ws))"
proof -
  have "ws_inv (ws\<lparr>org_rows := update_rows (\<lambda>r. og_id r = org) (\<lambda>r. r\<lparr>og_name := n, og_slug := slug\<rparr>) (org_rows ws)\<rparr>)"
    if s: "free_slug tx ws (Some org) n = Some slug" for n slug
  proof -
    let ?rs = "org_rows ws"
    note ok = ws_invD(4) [OF inv, unfolded orgs_ok_def]
    have free: "nocase n \<noteq> nocase (og_name r) \<and> slug \<noteq> og_slug r" if "r \<in> set ?rs" "og_id r \<noteq> org" for r
      using free_slug_SomeD [OF s] that by (auto simp: org_conflict_def list_ex_iff)
    have ids: "distinct (map og_id ?rs)" using ok org_ok_distinct(2) [OF ws_invD(3) [OF inv]] by simp
    have one: "r = r'" if "r \<in> set ?rs" "r' \<in> set ?rs" "og_id r = org" "og_id r' = org" for r r'
      using distinct_key_eq [OF ids that(1,2)] that by simp
    let ?new = "update_rows (\<lambda>r. og_id r = org) (\<lambda>r. r\<lparr>og_name := n, og_slug := slug\<rparr>) ?rs"
    have "distinct (map (nocase \<circ> og_name) ?new)"
      by (rule distinct_map_update_one) (use ok one free in auto)
    moreover have "distinct (map og_slug ?new)"
      by (rule distinct_map_update_one) (use ok one free in auto)
    moreover have "map og_id ?new = map og_id ?rs" by (rule map_key_update_rows) simp
    ultimately have "orgs_ok ?new (organizations (perms ws)) (next_org ws)" using ok by (simp add: orgs_ok_def)
    then show ?thesis using ws_invD [OF inv] by (simp add: ws_inv_def)
  qed
  then show ?thesis using inv by (simp add: update_organization_def Let_def split: option.split)
qed

section \<open>Members\<close>

lemma access_wf_orgs [simp]:
  "access_wf (insert_org_member org u r az) = access_wf az"
  "access_wf (set_member_role org u r az) = access_wf az"
  "access_wf (move_ownership org u az) = access_wf az"
  by (simp_all add: access_wf_def insert_org_member_def set_member_role_def move_ownership_def)

lemma org_fields [simp]:
  "users (insert_org_member org u r az) = users az" "organizations (insert_org_member org u r az) = organizations az"
  "groups (insert_org_member org u r az) = groups az" "users (set_member_role org u r az) = users az"
  "organizations (set_member_role org u r az) = organizations az" "groups (set_member_role org u r az) = groups az"
  "users (move_ownership org u az) = users az" "organizations (move_ownership org u az) = organizations az"
  "groups (move_ownership org u az) = groups az"
  by (simp_all add: insert_org_member_def set_member_role_def move_ownership_def)

lemma org_admin_exists:
  assumes "ws_inv ws" and "org_admin ws org actor"
  shows "org \<in> set (organizations (perms ws))"
proof -
  obtain r where "org_role (perms ws) org (vw_id actor) = Some r"
    using assms(2) by (auto simp: org_admin_def is_org_admin_or_owner_def principal_of_def)
  from org_ok_rowD(1) [OF ws_invD(3) [OF assms(1)] org_role_SomeD [OF this]] show ?thesis .
qed

lemma add_org_member_inv:
  assumes inv: "ws_inv ws"
  shows "ws_inv (snd (add_org_member actor org u role snap ws))"
proof -
  have "ws_inv (set_perms (insert_org_member org u role) ws)"
    if e: "add_member_error ws actor org u role = None" and r: "role \<in> {''owner'', ''admin'', ''member''}"
  proof -
    have c: "org_admin ws org actor" "active_user ws u" "\<not> org_member (perms ws) org u"
      using e by (auto simp: add_member_error_def split: if_splits)
    have "org_ok (insert_org_member org u role (perms ws))"
      by (rule org_ok_insert_member [OF ws_invD(3) [OF inv] org_admin_exists [OF inv c(1)]
            active_user_known [OF inv c(2)] r c(3)])
    then show ?thesis using ws_invD(2) [OF inv] by (intro ws_inv_perms [OF inv]) simp_all
  qed
  then show ?thesis using inv by (auto simp: add_org_member_def Let_def split: option.split)
qed

lemma update_org_member_inv:
  assumes inv: "ws_inv ws"
  shows "ws_inv (snd (update_org_member_role actor org u role snap ws))"
proof -
  have "ws_inv (set_perms (set_member_role org u role) ws)" if "role \<in> {''admin'', ''member''}"
    using ws_invD(2) [OF inv] org_ok_member_role [OF ws_invD(3) [OF inv] that]
    by (intro ws_inv_perms [OF inv]) simp_all
  then show ?thesis using inv by (auto simp: update_org_member_role_def Let_def)
qed

lemma transfer_inv:
  assumes inv: "ws_inv ws"
  shows "ws_inv (snd (transfer_ownership actor org u snap ws))"
proof -
  have "ws_inv (set_perms (move_ownership org u) ws)" if "org_member (perms ws) org u"
    using ws_invD(2) [OF inv] org_ok_transfer [OF ws_invD(3) [OF inv] that]
    by (intro ws_inv_perms [OF inv]) simp_all
  then show ?thesis using inv by (simp add: transfer_ownership_def Let_def)
qed

section \<open>Invitations\<close>

lemma create_invite_inv:
  assumes inv: "ws_inv ws"
  shows "ws_inv (snd (create_org_invite tx now actor org email role days' h snap ws))"
proof -
  have "ws_inv (ws\<lparr>invites := invites ws @ [\<lparr>iv_id = next_invite ws, iv_org = org, iv_email = e,
      iv_hash = h, iv_role = role, iv_expires = t, iv_accepted = False, iv_revoked = False\<rparr>],
      next_invite := Suc (next_invite ws)\<rparr>)"
    if "org_admin ws org actor" "role \<in> {''admin'', ''member''}" "\<not> list_ex (\<lambda>v. iv_hash v = h) (invites ws)"
    for e t
  proof -
    have "invites_ok (invites ws @ [\<lparr>iv_id = next_invite ws, iv_org = org, iv_email = e,
        iv_hash = h, iv_role = role, iv_expires = t, iv_accepted = False, iv_revoked = False\<rparr>])
        (organizations (perms ws)) (Suc (next_invite ws))"
      using ws_invD(6) [OF inv] org_admin_exists [OF inv that(1)] that(2,3)
      by (auto simp: invites_ok_def list_ex_iff less_Suc_eq)
    then show ?thesis using ws_invD [OF inv] by (simp add: ws_inv_def)
  qed
  then show ?thesis using inv by (auto simp: create_org_invite_def Let_def split: option.split)
qed

lemma find_inviteD: "find_invite ws org i = Some v \<Longrightarrow> v \<in> set (invites ws) \<and> iv_id v = i \<and> iv_org v = org"
  by (auto simp: find_invite_def dest: find_SomeD)

lemma resend_invite_inv:
  assumes inv: "ws_inv ws"
  shows "ws_inv (snd (resend_org_invite tx now actor org i h snap ws))"
proof -
  have "ws_inv (set_invite i (\<lambda>v. v\<lparr>iv_hash := h, iv_expires := t\<rparr>) ws)"
    if free: "\<not> list_ex (\<lambda>v. iv_hash v = h \<and> iv_id v \<noteq> i) (invites ws)" for t
    unfolding set_invite_def
  proof (rule ws_inv_invites [OF inv])
    let ?new = "update_rows (\<lambda>v. iv_id v = i) (\<lambda>v. v\<lparr>iv_hash := h, iv_expires := t\<rparr>) (invites ws)"
    note ok = ws_invD(6) [OF inv, unfolded invites_ok_def]
    have "distinct (map iv_id (invites ws))" using ok by blast
    then have one: "v = w" if "v \<in> set (invites ws)" "w \<in> set (invites ws)" "iv_id v = i" "iv_id w = i" for v w
      using distinct_key_eq [of iv_id "invites ws" v w] that by simp
    have other: "h \<noteq> iv_hash w" if "w \<in> set (invites ws)" "iv_id w \<noteq> i" for w
      using free that by (auto simp: list_ex_iff)
    have "distinct (map iv_hash ?new)"
      by (rule distinct_map_update_one) (use ok one other in auto)
    moreover have "map iv_id ?new = map iv_id (invites ws)" by (rule map_key_update_rows) simp
    ultimately show "invites_ok ?new (organizations (perms ws)) (next_invite ws)"
      using ok by (auto simp: invites_ok_def set_update_rows)
  qed
  then show ?thesis using inv by (auto simp: resend_org_invite_def Let_def split: option.split)
qed

lemma revoke_invite_inv:
  assumes inv: "ws_inv ws"
  shows "ws_inv (snd (revoke_org_invite actor org i snap ws))"
  using inv ws_inv_set_invite [OF inv, of "\<lambda>v. v\<lparr>iv_revoked := True\<rparr>" i]
  by (auto simp: revoke_org_invite_def Let_def split: option.split)

lemma perms_invite [simp]: "perms (set_invite i f ws) = perms ws"
  by (simp add: set_invite_def)

lemma perms_cascade [simp]: "perms (cascade ws) = perms ws"
  by (simp add: cascade_def)

text \<open>A reading the code may have made before: any earlier state satisfied the invariant.\<close>

fun org_snap :: "org_op \<Rightarrow> workspace option" where
  "org_snap (CreateOrg a n) = None"
| "org_snap (UpdateOrg a i n d s) = s"
| "org_snap (AddOrgMember a i u r s) = s"
| "org_snap (UpdateOrgMember a i u r s) = s"
| "org_snap (TransferOwnership a i u s) = s"
| "org_snap (CreateInvite t a i e r d h s) = s"
| "org_snap (ResendInvite t a i v h s) = s"
| "org_snap (RevokeInvite a i v s) = s"
| "org_snap (AcceptInvite t a tok s) = s"
| "org_snap (ReplaceOrgs a u ms os r s) = s"
| "org_snap (ReplaceGroups a u gs s) = s"
| "org_snap (CreateGroup a n i s) = s"
| "org_snap (UpdateGroup a g n d s) = s"

definition sound_snap :: "workspace option \<Rightarrow> bool" where
  "sound_snap snap \<longleftrightarrow> (\<forall>ws0. snap = Some ws0 \<longrightarrow> ws_inv ws0)"

lemma read_row_inv: "sound_snap snap \<Longrightarrow> ws_inv ws \<Longrightarrow> ws_inv (read_row snap ws)"
  by (simp add: sound_snap_def read_row_def split: option.split)

text \<open>A redemption that went through.\<close>

lemma accept_successD:
  assumes "fst (accept_org_invite tx now actor token snap ws) = Inr i"
  obtains v r where "find (\<lambda>v. iv_hash v = tx_sha tx token) (invites (read_row snap ws)) = Some v"
    "iv_id v = i" "\<not> iv_expires v < now" "\<not> iv_revoked v" "\<not> iv_accepted v"
    "find_user (acc (read_row snap ws)) (vw_id actor) = Some r"
    "tx_lower tx (us_name r) = tx_lower tx (iv_email v)"
    "\<not> org_member (perms ws) (iv_org v) (vw_id actor)" "org_exists ws (iv_org v)"
    "find_user (acc ws) (vw_id actor) \<noteq> None"
    "snd (accept_org_invite tx now actor token snap ws)
       = set_invite i (\<lambda>v. v\<lparr>iv_accepted := True\<rparr>)
           (set_perms (insert_org_member (iv_org v) (vw_id actor) (iv_role v)) ws)"
    "require_level 2 actor" "\<not> org_member (perms (read_row snap ws)) (iv_org v) (vw_id actor)"
proof (cases "find (\<lambda>v. iv_hash v = tx_sha tx token) (invites (read_row snap ws))")
  case None
  with assms show thesis by (simp add: accept_org_invite_def Let_def split: if_splits)
next
  case (Some v)
  show thesis
  proof (cases "find_user (acc (read_row snap ws)) (vw_id actor)")
    case None
    with assms Some show thesis by (simp add: accept_org_invite_def Let_def split: if_splits)
  next
    case r: (Some r)
    show thesis
      by (rule that [of v r])
        (use assms Some r in \<open>auto simp: accept_org_invite_def Let_def split: if_splits\<close>)
  qed
qed

lemma accept_failure: "fst (accept_org_invite tx now actor token snap ws) = Inl e \<Longrightarrow>
    snd (accept_org_invite tx now actor token snap ws) = ws"
  by (auto simp: accept_org_invite_def Let_def split: option.splits if_splits)

lemma accept_invite_inv:
  assumes inv: "ws_inv ws" and snap: "sound_snap snap"
  shows "ws_inv (snd (accept_org_invite tx now actor token snap ws))"
proof (cases "fst (accept_org_invite tx now actor token snap ws)")
  case (Inl e)
  then show ?thesis using inv accept_failure by metis
next
  case (Inr i)
  then obtain v r where a: "find (\<lambda>v. iv_hash v = tx_sha tx token) (invites (read_row snap ws)) = Some v"
    "\<not> org_member (perms ws) (iv_org v) (vw_id actor)" "org_exists ws (iv_org v)"
    "find_user (acc ws) (vw_id actor) \<noteq> None"
    "snd (accept_org_invite tx now actor token snap ws)
       = set_invite i (\<lambda>v. v\<lparr>iv_accepted := True\<rparr>)
           (set_perms (insert_org_member (iv_org v) (vw_id actor) (iv_role v)) ws)"
    by (rule accept_successD)
  have "v \<in> set (invites (read_row snap ws))" using find_SomeD [OF a(1)] by blast
  with ws_invD(6) [OF read_row_inv [OF snap inv]]
  have role: "iv_role v \<in> {''owner'', ''admin'', ''member''}" by (auto simp: invites_ok_def)
  have "org_ok (insert_org_member (iv_org v) (vw_id actor) (iv_role v) (perms ws))"
    by (rule org_ok_insert_member [OF ws_invD(3) [OF inv] _ user_known [OF inv a(4)] role a(2)])
      (use a(3) in \<open>simp add: org_exists_def\<close>)
  then have "ws_inv (set_perms (insert_org_member (iv_org v) (vw_id actor) (iv_role v)) ws)"
    using ws_invD(2) [OF inv] by (intro ws_inv_perms [OF inv]) simp_all
  then show ?thesis unfolding a(5) by (rule ws_inv_set_invite) simp
qed

section \<open>Replacements and groups\<close>

lemma access_wf_same:
  "access_wf az \<Longrightarrow> vault_members az' = vault_members az \<Longrightarrow> group_access az' = group_access az \<Longrightarrow> access_wf az'"
  by (simp add: access_wf_def)

lemma replace_orgs_inv:
  assumes inv: "ws_inv ws"
  shows "ws_inv (snd (update_user_organizations actor u ms' os role snap ws))"
proof -
  have "ws_inv (set_perms (\<lambda>_. az) ws)"
    if g: "guarded_transaction c (replace_user_orgs scoped caller u ms) (perms ws) = Inr az"
      and roles: "list_all (\<lambda>m. snd m \<in> {''admin'', ''member''}) ms"
      and refs: "\<not> (ms \<noteq> [] \<and> (find_user (acc ws) u = None \<or> \<not> list_all (\<lambda>m. org_exists ws (fst m)) ms))"
    for c scoped caller ms az
  proof -
    have az: "az = replace_user_orgs scoped caller u ms (perms ws)" by (rule guarded_transaction_result [OF g])
    have "org_ok az" unfolding az
      by (rule replace_user_orgs_ok [OF ws_invD(3) [OF inv]])
        (use roles refs user_known [OF inv, of u] in \<open>auto simp: list_all_iff org_exists_def\<close>)
    moreover have "access_wf az"
      by (rule access_wf_same [OF ws_invD(2) [OF inv]]) (simp_all add: az replace_user_orgs_def Let_def)
    moreover have "users az = users (perms ws)" "organizations az = organizations (perms ws)"
        "groups az = groups (perms ws)"
      by (simp_all add: az replace_user_orgs_def Let_def)
    ultimately show ?thesis by (intro ws_inv_perms [OF inv]) simp_all
  qed
  then show ?thesis using inv
    by (simp add: update_user_organizations_def Let_def split: sum.split)
qed

lemma replace_groups_inv:
  assumes inv: "ws_inv ws"
  shows "ws_inv (snd (update_user_groups actor u gs snap ws))"
proof -
  have "ws_inv (set_perms (\<lambda>_. az) ws)"
    if g: "guarded_transaction c (replace_user_groups os u gs) (perms ws) = Inr az" for c os az
  proof -
    have az: "az = replace_user_groups os u gs (perms ws)" by (rule guarded_transaction_result [OF g])
    have "org_ok az"
      by (rule org_ok_same [OF ws_invD(3) [OF inv]]) (simp_all add: az replace_user_groups_def)
    moreover have "access_wf az"
      by (rule access_wf_same [OF ws_invD(2) [OF inv]]) (simp_all add: az replace_user_groups_def)
    ultimately show ?thesis by (intro ws_inv_perms [OF inv]) (simp_all add: az replace_user_groups_def)
  qed
  then show ?thesis using inv by (simp add: update_user_groups_def Let_def split: sum.split)
qed

lemma create_group_inv:
  assumes inv: "ws_inv ws"
  shows "ws_inv (snd (create_group actor name org snap ws))"
proof -
  let ?g = "next_group ws"
  have "ws_inv ((set_perms (\<lambda>az. az\<lparr>groups := groups az @ [(?g, i)]\<rparr>) ws)
      \<lparr>group_names := group_names ws @ [(?g, name)], next_group := Suc ?g\<rparr>)"
    if "org_exists ws i" for i
  proof -
    have new: "?g \<notin> fst ` set (groups (perms ws))" using ws_invD(5) [OF inv] by (auto simp: groups_ok_def)
    have "org_ok ((perms ws)\<lparr>groups := groups (perms ws) @ [(?g, i)]\<rparr>)"
      by (rule org_ok_add_group [OF ws_invD(3) [OF inv] _ new]) (use that in \<open>simp add: org_exists_def\<close>)
    moreover have "groups_ok (group_names ws @ [(?g, name)]) (groups (perms ws) @ [(?g, i)]) (Suc ?g)"
      using ws_invD(5) [OF inv] by (auto simp: groups_ok_def)
    ultimately show ?thesis
      using ws_invD [OF inv] accounts_inv_set_perms [of ws "\<lambda>az. az\<lparr>groups := groups az @ [(?g, i)]\<rparr>"]
      by (simp add: ws_inv_def access_wf_def)
  qed
  then show ?thesis using inv by (simp add: create_group_def Let_def split: option.split)
qed

lemma update_group_inv:
  assumes inv: "ws_inv ws"
  shows "ws_inv (snd (update_group actor g name described snap ws))"
proof -
  have "fst \<circ> (\<lambda>(g', n'). (g', if g' = g then n else n')) = fst" for n :: pystr
    by (simp add: fun_eq_iff)
  then have "ws_inv (ws\<lparr>group_names := map (\<lambda>(g', n'). (g', if g' = g then n else n')) (group_names ws)\<rparr>)" for n
    using ws_invD [OF inv] unfolding ws_inv_def groups_ok_def by simp
  then show ?thesis using inv by (simp add: update_group_def Let_def split: option.split)
qed

section \<open>Every request\<close>

lemma exec_org_inv: "ws_inv ws \<Longrightarrow> sound_snap (org_snap c) \<Longrightarrow> ws_inv (snd (exec_org tx c ws))"
  by (cases c) (simp_all add: create_organization_inv update_organization_inv add_org_member_inv
      update_org_member_inv transfer_inv create_invite_inv resend_invite_inv revoke_invite_inv
      accept_invite_inv replace_orgs_inv replace_groups_inv create_group_inv update_group_inv)

lemma filter_key_image:
  assumes "distinct (map k xs)"
  shows "filter (\<lambda>i. i \<in> k ` set (filter p xs)) (map k xs) = map k (filter p xs)"
proof -
  have "k x \<in> k ` set (filter p xs) \<longleftrightarrow> p x" if "x \<in> set xs" for x
  proof
    assume "k x \<in> k ` set (filter p xs)"
    then obtain y where "y \<in> set xs" "p y" "k x = k y" by auto
    with distinct_key_eq [OF assms that, of y] show "p x" by simp
  qed (use that in auto)
  then have "filter ((\<lambda>i. i \<in> k ` set (filter p xs)) \<circ> k) xs = filter p xs"
    by (intro filter_cong) simp_all
  then show ?thesis by (simp only: filter_map)
qed

lemma group_org_Some_iff: "group_org az g \<noteq> None \<longleftrightarrow> g \<in> fst ` set (groups az)"
  by (simp add: group_org_def map_of_eq_None_iff)

lemma access_request_inv:
  assumes inv: "ws_inv ws"
  shows "ws_inv (access_request p c ws)"
proof (cases "apply_access p c (perms ws)")
  case (Inl e)
  then show ?thesis using inv by (simp add: access_request_def)
next
  case (Inr az)
  have wf: "access_wf az" by (rule apply_access_wf [OF ws_invD(2) [OF inv] Inr])
  have org: "org_ok az" and s: "shrinks (perms ws) az" using apply_access_org [OF ws_invD(3) [OF inv] Inr] by simp_all
  then obtain q r where az: "users az = users (perms ws)" "organizations az = filter q (organizations (perms ws))"
      "groups az = filter r (groups (perms ws))" by (auto simp: shrinks_def)
  note os = ws_invD(4) [OF inv, unfolded orgs_ok_def] and gs = ws_invD(5) [OF inv, unfolded groups_ok_def]
  have d: "distinct (map fst (groups (perms ws)))" by (rule org_ok_distinct(3) [OF ws_invD(3) [OF inv]])
  have "map og_id (filter (\<lambda>x. og_id x \<in> set (organizations az)) (org_rows ws))
      = filter (\<lambda>i. i \<in> set (organizations az)) (map og_id (org_rows ws))"
    by (simp add: filter_map comp_def)
  also have "\<dots> = organizations az" using os by (simp add: az(2)) (rule filter_cong, auto)
  finally have "orgs_ok (filter (\<lambda>x. og_id x \<in> set (organizations az)) (org_rows ws)) (organizations az) (next_org ws)"
    using os by (auto simp: orgs_ok_def distinct_map_filter_key az(2))
  moreover have "map fst (filter (\<lambda>(g, _). g \<in> fst ` set (groups az)) (group_names ws))
      = filter (\<lambda>g. g \<in> fst ` set (groups az)) (map fst (group_names ws))"
    by (simp add: filter_map comp_def case_prod_unfold)
  then have "map fst (filter (\<lambda>(g, _). g \<in> fst ` set (groups az)) (group_names ws)) = map fst (groups az)"
    using gs filter_key_image [OF d, of r] by (simp only: az(3))
  then have "groups_ok (filter (\<lambda>(g, _). g \<in> fst ` set (groups az)) (group_names ws)) (groups az) (next_group ws)"
    using gs by (auto simp: groups_ok_def az(3))
  moreover have "invites_ok (filter (\<lambda>v. iv_org v \<in> set (organizations az)) (invites ws)) (organizations az) (next_invite ws)"
    using ws_invD(6) [OF inv] by (auto simp: invites_ok_def distinct_map_filter_key)
  moreover have "accounts_inv (acc (set_perms (\<lambda>_. az) ws))"
    by (rule accounts_inv_set_perms [OF ws_invD(1) [OF inv]]) (rule az(1))
  ultimately have "ws_inv (cascade (set_perms (\<lambda>_. az) ws))"
    using wf org by (simp add: ws_inv_def cascade_def org_exists_def group_org_Some_iff del: not_None_eq)
  then show ?thesis by (simp add: access_request_def Inr)
qed

lemma rebind_ok: "invites_ok ivs orgs n \<Longrightarrow> invites_ok (rebind_invites tx old new ivs) orgs n"
  by (simp add: rebind_invites_def invites_ok_update)

lemma with_accounts_inv:
  assumes inv: "ws_inv ws" and "accounts_inv db" and "access db = access (acc ws)"
    and "invites_ok ivs (organizations (perms ws)) (next_invite ws)"
  shows "ws_inv (ws\<lparr>acc := db, invites := ivs\<rparr>)" "ws_inv (ws\<lparr>acc := db\<rparr>)"
  using ws_invD [OF inv] assms(2-4) by (simp_all add: ws_inv_def perms_def)

lemma rename_user_inv:
  assumes inv: "ws_inv ws"
  shows "ws_inv (snd (rename_user tx a i b snap ws))"
  using with_accounts_inv [OF inv update_user_inv [OF ws_invD(1) [OF inv]] update_user_access, of _ a i b snap]
    rebind_ok [OF ws_invD(6) [OF inv]] ws_invD(6) [OF inv]
  by (auto simp: rename_user_def split: prod.split option.split)

lemma account_request_inv:
  assumes inv: "ws_inv ws"
  shows "ws_inv (account_request tx env c ws)"
proof (cases "\<exists>a i b snap. c = UpdateUser a i b snap")
  case True
  then show ?thesis using rename_user_inv [OF inv] by (auto simp: account_request_def)
next
  case False
  then have r: "account_request tx env c ws = ws\<lparr>acc := exec_account env c (acc ws)\<rparr>"
    by (cases c) (simp_all add: account_request_def)
  have "access_wf (access (acc ws))" "org_ok (access (acc ws))"
    using ws_invD(2,3) [OF inv] by (simp_all add: perms_def)
  from exec_account_perms [OF this, of env c] exec_account_inv [OF ws_invD(1) [OF inv], of env c] ws_invD [OF inv]
  show ?thesis unfolding r by (simp add: ws_inv_def perms_def)
qed

fun request_snap :: "'tok request \<Rightarrow> workspace option" where
  "request_snap (Org c) = org_snap c"
| "request_snap _ = None"

lemma exec_request_inv: "ws_inv ws \<Longrightarrow> sound_snap (request_snap c) \<Longrightarrow> ws_inv (exec_request tx env c ws)"
  by (cases c) (simp_all add: exec_org_inv access_request_inv account_request_inv)

lemma run_requests_inv:
  "ws_inv ws \<Longrightarrow> (\<And>c. c \<in> set cs \<Longrightarrow> sound_snap (request_snap c)) \<Longrightarrow> ws_inv (run_requests tx env cs ws)"
  unfolding run_requests_def by (induction cs arbitrary: ws) (simp_all add: exec_request_inv)

lemma empty_workspace_inv: "ws_inv empty_workspace"
  by (simp add: ws_inv_def empty_workspace_def perms_def empty_accounts_inv)
    (simp add: empty_accounts_def access_wf_def org_ok_def orgs_ok_def groups_ok_def invites_ok_def)

end
