(* ===== verification/Org_Sample.thy ===== *)
theory Org_Sample
  imports Org_Requests Account_Sample
begin

text \<open>
  A concrete run from the empty database, on which the theorems about organisations are
  applied: two users register, the first makes an organisation and invites the second.
\<close>

definition sample_tx :: text_env where
  "sample_tx = \<lparr>tx_lower = nocase, tx_digest = (\<lambda>s. map char_of s), tx_sha = (\<lambda>s. CHR ''#'' # s)\<rparr>"

lemma sample_tx_fields [simp]:
  "tx_lower sample_tx = nocase" "tx_sha sample_tx s = CHR ''#'' # s"
  by (simp_all add: sample_tx_def)

text \<open>The names \<open>roo\<close> and \<open>bob\<close>.\<close>

definition org_user :: "nat \<Rightarrow> pystr \<Rightarrow> string \<Rightarrow> user_row" where
  "org_user i name role = \<lparr>us_id = i, us_name = name, us_password = ''New12345'', us_full_name = [],
     us_role = role, us_active = True, us_must_change = False, us_failed = 0, us_locked = None,
     us_pwd_changed = 0\<rparr>"

definition org_root :: user_view where
  "org_root = user_view_of (org_user 1 [114, 111, 111] ''superadmin'')"

definition org_bob :: user_view where
  "org_bob = user_view_of (org_user 2 [98, 111, 98] ''member'')"

definition default_member :: "nat \<Rightarrow> string \<Rightarrow> nat option \<Rightarrow> member_row" where
  "default_member u perm by = \<lparr>vm_vault = 1, vm_user = u, vm_permission = perm, vm_granted_by = by\<rparr>"

definition register_root :: "nat request" where
  "register_root = Account (Register 0 [114, 111, 111] sample_new [] ''New12345'' ''#a'')"

definition register_bob :: "nat request" where
  "register_bob = Account (Register 0 [98, 111, 98] sample_new [] ''New12345'' ''#b'')"

definition create_acme :: "nat request" where
  "create_acme = Org (CreateOrg org_root [65, 99, 109, 101])"

definition invite_bob :: "nat request" where
  "invite_bob = Org (CreateInvite 0 org_root 1 [98, 111, 98] ''member'' (Some 7) ''#i'' None)"

definition sample_session_of :: "nat \<Rightarrow> string \<Rightarrow> session_row" where
  "sample_session_of i h = \<lparr>ss_id = i, ss_user = i, ss_hash = h, ss_expires = 2592000000000\<rparr>"

definition registered :: accounts where
  "registered = \<lparr>user_rows = [org_user 1 [114, 111, 111] ''superadmin'', org_user 2 [98, 111, 98] ''member''],
     session_rows = [sample_session_of 1 ''#a'', sample_session_of 2 ''#b''], denied_rows = [],
     active_users = (\<lambda>_. Map.empty), here = 0, audit_log = [(''user.register'', Some 1), (''user.register'', Some 2)],
     next_user = 3, next_session = 3, next_vault = 2, default_vault = Some 1,
     access = \<lparr>vaults = [\<lparr>vlt_id = 1, vlt_visibility = ''private'', vlt_org = None\<rparr>],
       vault_members = [default_member 1 ''read'' None, default_member 2 ''read'' None],
       group_access = [], group_members = [], groups = [], organizations = [],
       org_member_rows = [], users = [(1, True), (2, True)], removed_flags = []\<rparr>\<rparr>"

definition founded :: workspace where
  "founded = \<lparr>acc = registered\<lparr>access := (access registered)\<lparr>organizations := [1],
       org_member_rows := [(1, 1, ''owner'')]\<rparr>\<rparr>,
     org_rows = [\<lparr>og_id = 1, og_name = [65, 99, 109, 101], og_slug = ''acme''\<rparr>],
     invites = [], group_names = [], next_org = 2, next_invite = 1, next_group = 1\<rparr>"

definition bobs_invite :: invite_row where
  "bobs_invite = \<lparr>iv_id = 1, iv_org = 1, iv_email = [98, 111, 98], iv_hash = ''#i'',
     iv_role = ''member'', iv_expires = 604800000000, iv_accepted = False, iv_revoked = False\<rparr>"

definition invited :: workspace where
  "invited = founded\<lparr>invites := [bobs_invite], next_invite := 2\<rparr>"

lemma run_register:
  "exec_request sample_tx sample_env register_bob (exec_request sample_tx sample_env register_root empty_workspace)
     = empty_workspace\<lparr>acc := registered\<rparr>"
  by (simp add: register_root_def register_bob_def account_request_def register_def empty_workspace_def
      empty_accounts_def sample_new_strong sample_new_def [symmetric] find_name_def py_strip_def py_isspace_def
      insert_user_def assign_user_to_default_vault_def ensure_default_vault_def Let_def nocase_def nocase_char_def
      insert_session_def record_event_def refresh_expiry_def registered_def org_user_def sample_session_of_def
      default_member_def member_at_def)

lemma acme_slug: "generate_org_slug sample_tx [65, 99, 109, 101] = ''acme''"
  by code_simp

lemma org_user_fields [simp]:
  "us_id (org_user i n r) = i" "us_name (org_user i n r) = n" "us_role (org_user i n r) = r"
  "us_active (org_user i n r)"
  by (simp_all add: org_user_def)

lemma org_root_fields [simp]: "vw_id org_root = 1" "vw_role org_root = ''superadmin''"
  by (simp_all add: org_root_def user_view_of_def)

lemma org_bob_fields [simp]: "vw_id org_bob = 2" "vw_role org_bob = ''member''"
  by (simp_all add: org_bob_def user_view_of_def)

lemma sample_levels: "require_level 2 org_root" "require_level 3 org_root" "require_level 2 org_bob"
    "role_level ''member'' = 2"
  by (simp_all add: require_level_def role_level_def nocase_def lit_def nocase_char_def)

lemma run_create: "exec_request sample_tx sample_env create_acme (empty_workspace\<lparr>acc := registered\<rparr>) = founded"
  by (simp add: create_acme_def create_organization_def empty_workspace_def sample_levels
      registered_def find_user_def free_slug_def org_conflict_def acme_slug
      set_perms_def insert_org_member_def founded_def)

lemma founded_facts:
  "org_exists founded 1" "org_admin founded 1 org_root" "find_name (acc founded) [98, 111, 98] = Some (org_user 2 [98, 111, 98] ''member'')"
  by (simp_all add: org_exists_def perms_def founded_def org_admin_def is_org_admin_or_owner_def org_role_def
      principal_of_def find_name_def registered_def nocase_def nocase_char_def)

lemma bob_redeemable: "redeemable_error sample_tx founded [98, 111, 98] = None"
  by (simp add: redeemable_error_def founded_facts nocase_def nocase_char_def sample_levels)

lemma run_invite: "exec_request sample_tx sample_env invite_bob founded = invited"
proof -
  have "nocase [98, 111, 98] = [98, 111, 98]" "invite_identifier [98, 111, 98]"
    by (simp_all add: nocase_def nocase_char_def invite_identifier_def plain_def py_isspace_def)
  then show ?thesis
    using founded_facts by (simp add: invite_bob_def create_org_invite_def sample_levels Let_def read_row_def
      bob_redeemable invited_def days_def bobs_invite_def) (simp add: founded_def)
qed

text \<open>Bob joins, or his invitation is revoked, or he is renamed to \<open>bib\<close>.\<close>

lemma invited_fields [simp]:
  "perms invited = perms founded" "acc invited = acc founded" "invites invited = [bobs_invite]"
  "org_exists invited i = org_exists founded i"
  by (simp_all add: invited_def perms_def org_exists_def)

lemma founded_users:
  "find_user (acc founded) 1 = Some (org_user 1 [114, 111, 111] ''superadmin'')"
  "find_user (acc founded) 2 = Some (org_user 2 [98, 111, 98] ''member'')"
  by (simp_all add: founded_def registered_def find_user_def)

lemma founded_perms:
  "organizations (perms founded) = [1]" "org_member_rows (perms founded) = [(1, 1, ''owner'')]"
  "groups (perms founded) = []" "group_members (perms founded) = []" "group_access (perms founded) = []"
  "vault_members (perms founded) = [default_member 1 ''read'' None, default_member 2 ''read'' None]"
  "users (perms founded) = [(1, True), (2, True)]"
  "vaults (perms founded) = [\<lparr>vlt_id = 1, vlt_visibility = ''private'', vlt_org = None\<rparr>]"
  by (simp_all add: founded_def registered_def perms_def)

lemma bobs_invite_fields [simp]:
  "iv_id bobs_invite = 1" "iv_org bobs_invite = 1" "iv_email bobs_invite = [98, 111, 98]"
  "iv_hash bobs_invite = ''#i''" "iv_role bobs_invite = ''member''" "iv_expires bobs_invite = 604800000000"
  "\<not> iv_accepted bobs_invite" "\<not> iv_revoked bobs_invite"
  by (simp_all add: bobs_invite_def)

definition revoke_bob :: "nat request" where
  "revoke_bob = Org (RevokeInvite org_root 1 1 None)"

definition revoked :: workspace where
  "revoked = invited\<lparr>invites := [bobs_invite\<lparr>iv_revoked := True\<rparr>]\<rparr>"

lemma revoked_fields [simp]:
  "acc revoked = acc founded" "invites revoked = [bobs_invite\<lparr>iv_revoked := True\<rparr>]"
  "perms revoked = perms founded" "org_exists revoked i = org_exists founded i"
  by (simp_all add: revoked_def perms_def org_exists_def)

lemma root_admin: "org_admin invited 1 org_root"
  using founded_facts(2) by (simp add: org_admin_def)

lemma run_revoke: "exec_request sample_tx sample_env revoke_bob invited = revoked"
  using founded_facts(1) root_admin
  by (simp add: revoke_bob_def revoke_org_invite_def Let_def read_row_def sample_levels
      revoke_error_def find_invite_def set_invite_def revoked_def)

definition accept_bob :: "workspace option \<Rightarrow> workspace \<Rightarrow> (http_error + nat) \<times> workspace" where
  "accept_bob snap ws = accept_org_invite sample_tx 1000 org_bob ''i'' snap ws"

definition joined :: workspace where
  "joined = set_invite 1 (\<lambda>v. v\<lparr>iv_accepted := True\<rparr>) (set_perms (insert_org_member 1 2 ''member'') invited)"

lemma run_accept: "accept_bob None invited = (Inr 1, joined)"
  using founded_facts(1)
  by (simp add: accept_bob_def accept_org_invite_def Let_def read_row_def sample_levels founded_users
      org_member_def founded_perms joined_def)

text \<open>The same request, when the invitation has been revoked after its checks.\<close>

lemma run_stale_accept:
  "accept_bob (Some invited) revoked
     = (Inr 1, set_invite 1 (\<lambda>v. v\<lparr>iv_accepted := True\<rparr>) (set_perms (insert_org_member 1 2 ''member'') revoked))"
  using founded_facts(1)
  by (simp add: accept_bob_def accept_org_invite_def Let_def read_row_def sample_levels founded_users
      org_member_def founded_perms)

lemma stale_accept_role: "org_role (perms (snd (accept_bob (Some invited) revoked))) 1 2 = Some ''member''"
  by (simp add: run_stale_accept insert_org_member_def founded_perms org_role_def)

definition bib_patch :: user_patch where
  "bib_patch = \<lparr>up_name = Some [98, 105, 98], up_full_name = None, up_role = None\<rparr>"

definition make_admin :: "nat request" where
  "make_admin = Access (principal_of org_root) (UpdateMember 1 1 ''admin'')"

lemma run_make_admin:
  "perms (exec_request sample_tx sample_env make_admin invited)
     = set_member_permission 1 1 ''admin'' (Some 1) (perms founded)"
proof -
  have "apply_access (principal_of org_root) (UpdateMember 1 1 ''admin'') (perms founded)
      = Inr (set_member_permission 1 1 ''admin'' (Some 1) (perms founded))"
    by (simp add: update_vault_member_def valid_permission_def require_vault_permission_def
      evaluate_policy_def principal_of_def founded_perms vault_exists_def default_member_def member_at_def
      granted_by_known_def user_exists_def resolve_granted_by_def)
  then show ?thesis by (simp add: make_admin_def access_request_def)
qed

definition renamed_accounts :: accounts where
  "renamed_accounts = record_event ''user.updated'' (Some 2)
     (invalidate_active_user_cache 2 (set_user 2 (apply_patch bib_patch) (acc founded)))"

lemma run_update: "update_user org_root 2 bib_patch None (acc founded) = (Inr 2, renamed_accounts)"
proof -
  have "\<not> name_taken (acc founded) 2 (Some [98, 105, 98])"
    by (simp add: name_taken_def founded_def registered_def nocase_def nocase_char_def)
  then show ?thesis
    by (simp add: update_user_def sample_levels read_row_def founded_users update_user_respond_def
      bib_patch_def username_ok_def py_strip_def py_isspace_def assert_can_modify_target_def
      role_patch_error_def renamed_accounts_def)
qed

definition renamed :: workspace where
  "renamed = invited\<lparr>acc := renamed_accounts, invites := [bobs_invite\<lparr>iv_email := [98, 105, 98]\<rparr>]\<rparr>"

lemma run_rename: "rename_user sample_tx org_root 2 bib_patch None invited = (Inr 2, renamed)"
proof -
  have "committed (acc founded) renamed_accounts"
    by (simp add: committed_def renamed_accounts_def record_event_def invalidate_active_user_cache_def set_user_def)
  then show ?thesis
    by (simp add: rename_user_def run_update read_row_def founded_users renamed_def)
      (simp add: bib_patch_def rebind_invites_def pending_def nocase_def nocase_char_def)
qed

lemma renamed_user: "\<exists>r. find_user renamed_accounts 2 = Some r \<and> us_name r = [98, 105, 98]"
  by (simp add: renamed_accounts_def founded_def registered_def find_user_def apply_patch_def bib_patch_def)

lemma renamed_perms [simp]: "perms renamed = perms founded" "org_exists renamed i = org_exists founded i"
  by (simp_all add: renamed_def renamed_accounts_def perms_def org_exists_def record_event_def
      invalidate_active_user_cache_def set_user_def)

lemma renamed_fields [simp]:
  "acc renamed = renamed_accounts" "invites renamed = [bobs_invite\<lparr>iv_email := [98, 105, 98]\<rparr>]"
  by (simp_all add: renamed_def)

lemma renamed_accepts: "fst (accept_bob None renamed) = Inr 1"
proof -
  obtain r where "find_user renamed_accounts 2 = Some r" "us_name r = [98, 105, 98]" using renamed_user by blast
  then show ?thesis using founded_facts(1)
    by (simp add: accept_bob_def accept_org_invite_def Let_def read_row_def sample_levels
      org_member_def founded_perms)
qed

text \<open>A group of the organisation, with its owner in it.\<close>

definition create_team :: "nat request" where
  "create_team = Org (CreateGroup org_root [97, 98] (Some 1) None)"

definition join_team :: "nat request" where
  "join_team = Org (ReplaceGroups org_root 1 [1] None)"

definition team :: workspace where
  "team = (set_perms (\<lambda>az. az\<lparr>groups := [(1, 1)]\<rparr>) founded)\<lparr>group_names := [(1, [97, 98])], next_group := 2\<rparr>"

lemma run_team: "exec_request sample_tx sample_env create_team founded = team"
proof -
  have "set_perms (\<lambda>az. az\<lparr>groups := groups az @ [(1, 1)]\<rparr>) founded = set_perms (\<lambda>az. az\<lparr>groups := [(1, 1)]\<rparr>) founded"
    by (simp add: set_perms_def founded_def registered_def)
  then show ?thesis using founded_facts(1)
    by (simp add: create_team_def create_group_def Let_def read_row_def sample_levels group_name_ok_def
      py_strip_def py_isspace_def evaluate_policy_def principal_of_def group_target_def
      group_name_taken_def team_def) (simp add: founded_def)
qed

lemma team_perms:
  "groups (perms team) = [(1, 1)]" "group_members (perms team) = []" "group_access (perms team) = []"
  "org_member_rows (perms team) = [(1, 1, ''owner'')]" "find_user (acc team) 1 = find_user (acc founded) 1"
  by (simp_all add: team_def perms_def set_perms_def founded_def registered_def find_user_def)

lemma run_join: "group_members (perms (exec_request sample_tx sample_env join_team team)) = [(1, 1)]"
proof -
  have "user_derived_admin_vault_ids 1 (perms team) = []"
    by (simp add: user_derived_admin_vault_ids_def team_perms)
  moreover have "find_user (acc team) 1 = Some (org_user 1 [114, 111, 111] ''superadmin'')"
    by (simp add: team_perms founded_users del: One_nat_def)
  ultimately show ?thesis
    by (simp add: join_team_def update_user_groups_def Let_def read_row_def sample_levels replace_scope_def
      team_perms founded_users assert_can_modify_target_def group_org_def org_member_def user_groups_conflict_def
      replace_user_groups_def guarded_transaction_def covered_vault_ids_def dict_fromkeys_def)
qed

end
