(* ===== verification/Org_Properties.thy ===== *)
theory Org_Properties
  imports Org_Sample
begin

text \<open>
  The properties of organisations and invitations, over all interleavings of account,
  permission and organisation requests.
\<close>

section \<open>Interleavings\<close>

text \<open>
  The states of a run, the newest first. A request runs on the newest one; what it read
  before its transaction may come from any state since the start.
\<close>

inductive history :: "text_env \<Rightarrow> 'tok env \<Rightarrow> workspace list \<Rightarrow> bool" for tx env where
  start: "history tx env [empty_workspace]"
| request: "history tx env tr \<Longrightarrow> (\<And>s. request_snap c = Some s \<Longrightarrow> s \<in> set tr) \<Longrightarrow>
    history tx env (exec_request tx env c (hd tr) # tr)"

inductive_cases history_ConsE: "history tx env (ws # tr)"

lemma history_nonempty: "history tx env tr \<Longrightarrow> tr \<noteq> []"
  by (cases rule: history.cases) auto

lemma history_inv: "history tx env tr \<Longrightarrow> ws \<in> set tr \<Longrightarrow> ws_inv ws"
proof (induction arbitrary: ws rule: history.induct)
  case start
  then show ?case by (simp add: empty_workspace_inv)
next
  case (request tr c)
  have "ws_inv (hd tr)" by (rule request.IH) (use history_nonempty [OF request.hyps(1)] in simp)
  moreover have "sound_snap (request_snap c)"
    using request.hyps(2) request.IH by (auto simp: sound_snap_def)
  ultimately have "ws_inv (exec_request tx env c (hd tr))" by (rule exec_request_inv)
  then show ?case using request.prems request.IH by auto
qed

text \<open>The sample run, up to the invitation.\<close>

definition before_invite :: "workspace list" where
  "before_invite = [founded, empty_workspace\<lparr>acc := registered\<rparr>,
     exec_request sample_tx sample_env register_root empty_workspace, empty_workspace]"

lemma sample_snaps [simp]:
  "request_snap register_root = None" "request_snap register_bob = None" "request_snap create_acme = None"
  "request_snap invite_bob = None" "request_snap revoke_bob = None" "request_snap create_team = None"
  "request_snap join_team = None" "request_snap make_admin = None"
  by (simp_all add: register_root_def register_bob_def create_acme_def invite_bob_def revoke_bob_def
      create_team_def join_team_def make_admin_def)

lemma history_next:
  "history tx env tr \<Longrightarrow> request_snap c = None \<Longrightarrow> history tx env (exec_request tx env c (hd tr) # tr)"
  by (rule history.request) simp_all

lemma sample_history: "history sample_tx sample_env (invited # before_invite)"
proof -
  note history_next [OF history_next [OF history_next [OF history_next [OF history.start]]],
      of register_root register_bob create_acme invite_bob sample_tx sample_env]
  then show ?thesis by (simp add: run_register run_create run_invite before_invite_def)
qed

lemma sample_ws_inv: "ws_inv invited"
  by (rule history_inv [OF sample_history]) simp

text \<open>
  A relation that every request establishes from each sound state holds between a state and
  every later one.
\<close>

lemma history_preserved:
  assumes step: "\<And>c ws. ws_inv ws \<Longrightarrow> sound_snap (request_snap c) \<Longrightarrow> P ws \<Longrightarrow> P (exec_request tx env c ws)"
    and "history tx env (newer @ older)" and "older \<noteq> []" and "P (hd older)" and "ws \<in> set newer"
  shows "P ws"
  using assms(2,5)
proof (induction newer arbitrary: ws)
  case (Cons n newer)
  show ?case
  proof (cases "ws \<in> set newer")
    case True
    from Cons.prems(1) have "history tx env (newer @ older)"
      using \<open>older \<noteq> []\<close> by (auto elim: history_ConsE)
    from Cons.IH [OF this True] show ?thesis .
  next
    case False
    then have ws: "ws = n" using Cons.prems(2) by simp
    from Cons.prems(1) obtain c where h: "history tx env (newer @ older)"
        "n = exec_request tx env c (hd (newer @ older))" "\<And>s. request_snap c = Some s \<Longrightarrow> s \<in> set (newer @ older)"
      using \<open>older \<noteq> []\<close> by (auto elim: history_ConsE)
    have "P (hd (newer @ older))"
      using Cons.IH [OF h(1), of "hd newer"] assms(4) by (cases newer) auto
    moreover have "ws_inv (hd (newer @ older))"
      by (rule history_inv [OF h(1)]) (use \<open>older \<noteq> []\<close> in \<open>cases newer; simp\<close>)
    moreover have "sound_snap (request_snap c)"
      unfolding sound_snap_def using history_inv [OF h(1) h(3)] by blast
    ultimately show ?thesis unfolding ws h(2) by (intro step)
  qed
qed simp

text \<open>
  C4 Whatever account, permission and organisation requests run, and however their readings
  and transactions interleave, the workspace stays well formed: unique memberships of
  existing users in existing organisations with valid roles, an owner for every organisation,
  unique names, slugs, ids and invite tokens, and no row that refers to something deleted.
\<close>

theorem workspace_well_formed:
  assumes "history tx env tr" and "ws \<in> set tr"
  shows "ws_inv ws"
  by (rule history_inv [OF assms])

theorem workspace_well_formed_witness: "ws_inv invited"
  using workspace_well_formed [OF sample_history, of invited] by simp

text \<open>
  Every organisation always has an owner, who is an existing user.
\<close>

theorem organizations_keep_owner:
  assumes "history tx env tr" and "ws \<in> set tr" and "org_exists ws org"
  shows "\<exists>u. org_role (perms ws) org u = Some ''owner'' \<and> find_user (acc ws) u \<noteq> None"
proof -
  have inv: "ws_inv ws" by (rule history_inv [OF assms(1,2)])
  obtain u where u: "(org, u, ''owner'') \<in> set (org_member_rows (perms ws))"
    using org_ok_ownerD [OF ws_invD(3) [OF inv]] assms(3) by (auto simp: org_exists_def)
  have "users (perms ws) = map (\<lambda>r. (us_id r, us_active r)) (user_rows (acc ws))"
    using ws_invD(1) [OF inv] by (simp add: accounts_inv_def mirrored_def perms_def)
  with org_ok_rowD(2) [OF ws_invD(3) [OF inv] u] have "find_user (acc ws) u \<noteq> None"
    unfolding find_user_id by force
  with u org_role_iff [OF ws_invD(3) [OF inv]] show ?thesis by blast
qed

theorem organizations_keep_owner_witness:
  "\<exists>u. org_role (perms invited) 1 u = Some ''owner'' \<and> find_user (acc invited) u \<noteq> None"
  using organizations_keep_owner [OF sample_history, of invited 1] founded_facts(1) by simp

section \<open>Vaults keep an admin\<close>

lemma in_fold_insert_missing:
  "m \<in> set (org_member_rows az) \<Longrightarrow> m \<in> set (org_member_rows (fold (insert_missing_member u) ms az))"
  by (induction ms arbitrary: az) (simp_all add: insert_missing_member_def insert_org_member_def)

lemma replace_user_orgs_others:
  assumes "w \<noteq> u"
  shows "(org, w, r) \<in> set (org_member_rows az) \<Longrightarrow>
      (org, w, r) \<in> set (org_member_rows (replace_user_orgs scoped caller u ms az))"
    "(g, w) \<in> set (group_members az) \<Longrightarrow> (g, w) \<in> set (group_members (replace_user_orgs scoped caller u ms az))"
  using assms by (simp_all add: replace_user_orgs_def Let_def in_fold_insert_missing drop_memberships_def)

lemma replace_user_orgs_fields [simp]:
  "vault_members (replace_user_orgs scoped caller u ms az) = vault_members az"
  "group_access (replace_user_orgs scoped caller u ms az) = group_access az"
  "groups (replace_user_orgs scoped caller u ms az) = groups az"
  by (simp_all add: replace_user_orgs_def Let_def)

interpretation user_org_replacement:
  guarded_mutation "user_derived_admin_vault_ids u" "replace_user_orgs scoped caller u ms" for u scoped caller ms
proof (rule guarded_mutationI)
  fix az v g org w
  assume a: "group_admin az v g org w" and c: "v \<notin> set (user_derived_admin_vault_ids u az)"
  then have w: "w \<noteq> u" by (auto simp: group_admin_def user_derived_admin_vault_ids_def)
  show "group_admin (replace_user_orgs scoped caller u ms az) v g org w"
    using a replace_user_orgs_others [OF w] unfolding group_admin_def replace_user_orgs_fields by blast
qed (simp add: direct_admin_def)

interpretation user_group_replacement:
  guarded_mutation "user_derived_admin_vault_ids u" "replace_user_groups caller_orgs u gs" for u caller_orgs gs
proof (rule guarded_mutationI)
  fix az v g org w
  assume a: "group_admin az v g org w" and c: "v \<notin> set (user_derived_admin_vault_ids u az)"
  then have w: "w \<noteq> u" by (auto simp: group_admin_def user_derived_admin_vault_ids_def)
  show "group_admin (replace_user_groups caller_orgs u gs az) v g org w"
    using a w unfolding group_admin_def replace_user_groups_def by auto
qed (simp add: direct_admin_def replace_user_groups_def)

lemma member_changes_keep:
  "keeps_admins az (insert_org_member org u r az)"
  "keeps_admins az (insert_org_member org u r (az\<lparr>organizations := os\<rparr>))"
  "keeps_admins az (set_member_role org u r az)" "keeps_admins az (move_ownership org u az)"
  "keeps_admins az (az\<lparr>groups := groups az @ gs\<rparr>)"
  by (rule keeps_admins_mono, force simp: direct_admin_def insert_org_member_def set_member_role_def
      move_ownership_def, force simp: group_admin_def insert_org_member_def set_member_role_def
      move_ownership_def)+

lemma accept_keeps: "keeps_admins (perms ws) (perms (snd (accept_org_invite tx now actor token snap ws)))"
  by (auto simp: accept_org_invite_def Let_def keeps_admins_refl member_changes_keep split: option.split)

lemma exec_org_keeps: "keeps_admins (perms ws) (perms (snd (exec_org tx c ws)))"
  by (cases c)
    (auto simp: create_organization_def update_organization_def add_org_member_def
      update_org_member_role_def transfer_ownership_def create_org_invite_def resend_org_invite_def
      revoke_org_invite_def accept_keeps update_user_organizations_def update_user_groups_def
      create_group_def update_group_def Let_def keeps_admins_refl member_changes_keep
      intro: user_org_replacement.guarded_keeps user_group_replacement.guarded_keeps
      split: option.split sum.split)

lemma rename_user_acc: "acc (snd (rename_user tx a i b snap ws)) = snd (update_user a i b snap (acc ws))"
  by (simp add: rename_user_def split: prod.split option.split)

lemma account_request_acc: "acc (account_request tx env c ws) = exec_account env c (acc ws)"
  by (cases c) (simp_all add: account_request_def rename_user_acc)

lemma exec_request_keeps:
  assumes "ws_inv ws"
  shows "keeps_admins (perms ws) (perms (exec_request tx env c ws))"
proof (cases c)
  case (Account c)
  then show ?thesis using exec_account_keeps [of "acc ws" env c] by (simp add: perms_def account_request_acc)
next
  case (Access p c)
  then show ?thesis using apply_access_keeps [OF ws_invD(2) [OF assms]]
    by (simp add: access_request_def keeps_admins_refl split: sum.split)
qed (simp add: exec_org_keeps)

text \<open>
  C5 No vault loses its last admin. Once a vault has an admin, direct or through a group, it
  has one in every later state, whatever requests of all three kinds run.
\<close>

theorem workspace_never_orphans:
  assumes "history tx env (newer @ older)" and "older \<noteq> []"
    and "effective_admins (perms (hd older)) v \<noteq> {}" and "ws \<in> set newer"
  shows "effective_admins (perms ws) v \<noteq> {}"
proof (rule history_preserved [where P = "\<lambda>ws. effective_admins (perms ws) v \<noteq> {}", OF _ assms])
  fix c ws assume "ws_inv ws" and "effective_admins (perms ws) v \<noteq> {}"
  with exec_request_keeps [of ws tx env c]
  show "effective_admins (perms (exec_request tx env c ws)) v \<noteq> {}" by (simp add: keeps_admins_def)
qed

theorem workspace_never_orphans_witness:
  "effective_admins (perms (exec_request sample_tx sample_env revoke_bob
     (exec_request sample_tx sample_env make_admin invited))) 1 \<noteq> {}"
proof -
  let ?ws = "exec_request sample_tx sample_env make_admin invited"
  have h: "history sample_tx sample_env (?ws # invited # before_invite)"
    using history_next [OF sample_history, of make_admin] by simp
  have "(1::nat) \<in> effective_admins (perms ?ws) 1"
    unfolding run_make_admin
    by (simp add: effective_admins_iff direct_admin_def set_member_permission_def founded_perms
        default_member_def member_at_def)
  then show ?thesis
    using workspace_never_orphans [where newer = "[exec_request sample_tx sample_env revoke_bob ?ws]"
        and older = "?ws # invited # before_invite" and v = 1] history_next [OF h, of revoke_bob] by auto
qed

section \<open>Invitations\<close>

lemma invite_unique:
  assumes "ws_inv ws" and "v \<in> set (invites ws)" and "w \<in> set (invites ws)" and "iv_id v = iv_id w"
  shows "v = w"
  using distinct_key_eq [of iv_id "invites ws" v w] ws_invD(6) [OF assms(1)] assms(2-4)
  by (simp add: invites_ok_def)

lemma invite_by_hash:
  assumes "ws_inv ws" and "v \<in> set (invites ws)"
  shows "find (\<lambda>w. iv_hash w = iv_hash v) (invites ws) = Some v"
  using find_unique_key [of iv_hash "invites ws" v] ws_invD(6) [OF assms(1)] assms(2)
  by (simp add: invites_ok_def)

definition redeemable :: "text_env \<Rightarrow> int \<Rightarrow> user_view \<Rightarrow> string \<Rightarrow> nat \<Rightarrow> workspace \<Rightarrow> bool" where
  "redeemable tx now actor token i ws \<longleftrightarrow> (\<exists>v \<in> set (invites ws). \<exists>r. iv_id v = i
     \<and> iv_hash v = tx_sha tx token \<and> pending v \<and> now \<le> iv_expires v
     \<and> find_user (acc ws) (vw_id actor) = Some r \<and> tx_lower tx (us_name r) = tx_lower tx (iv_email v)
     \<and> \<not> org_member (perms ws) (iv_org v) (vw_id actor))"

lemma accept_redeemable:
  assumes inv: "ws_inv ws" and lev: "require_level 2 actor" and "redeemable tx now actor token i ws"
  shows "fst (accept_org_invite tx now actor token None ws) = Inr i"
proof -
  obtain v r where v: "v \<in> set (invites ws)" "iv_id v = i" "iv_hash v = tx_sha tx token" "pending v"
      "now \<le> iv_expires v" "find_user (acc ws) (vw_id actor) = Some r"
      "tx_lower tx (us_name r) = tx_lower tx (iv_email v)" "\<not> org_member (perms ws) (iv_org v) (vw_id actor)"
    using assms(3) by (auto simp: redeemable_def)
  have "find (\<lambda>w. iv_hash w = tx_sha tx token) (invites ws) = Some v"
    using invite_by_hash [OF inv v(1)] v(3) by simp
  moreover have "org_exists ws (iv_org v)"
    using ws_invD(6) [OF inv] v(1) by (auto simp: invites_ok_def org_exists_def)
  ultimately show ?thesis using v lev
    by (simp add: accept_org_invite_def Let_def read_row_def pending_def)
qed

lemma accept_redeemed:
  assumes "ws_inv ws" and "fst (accept_org_invite tx now actor token None ws) = Inr i"
  shows "require_level 2 actor \<and> redeemable tx now actor token i ws"
  using assms(2)
proof (rule accept_successD)
  fix v r
  assume "find (\<lambda>v. iv_hash v = tx_sha tx token) (invites (read_row None ws)) = Some v"
  then have "v \<in> set (invites ws)" "iv_hash v = tx_sha tx token" using find_SomeD by (fastforce simp: read_row_def)+
  moreover assume "iv_id v = i" "\<not> iv_expires v < now" "\<not> iv_revoked v" "\<not> iv_accepted v"
    "find_user (acc (read_row None ws)) (vw_id actor) = Some r" "tx_lower tx (us_name r) = tx_lower tx (iv_email v)"
    "\<not> org_member (perms ws) (iv_org v) (vw_id actor)" "require_level 2 actor"
  ultimately show ?thesis unfolding redeemable_def pending_def read_row_def
    by (intro conjI bexI [of _ v] exI [of _ r]) simp_all
qed

text \<open>What the transaction of the handler itself still asks of the present state.\<close>

definition admits :: "user_view \<Rightarrow> nat \<Rightarrow> workspace \<Rightarrow> workspace \<Rightarrow> bool" where
  "admits actor i ws0 ws \<longleftrightarrow> find_user (acc ws) (vw_id actor) \<noteq> None
     \<and> (\<exists>v \<in> set (invites ws0). iv_id v = i \<and> org_exists ws (iv_org v)
          \<and> \<not> org_member (perms ws) (iv_org v) (vw_id actor))"

lemma accept_iff:
  assumes inv: "ws_inv (read_row snap ws)"
  shows "fst (accept_org_invite tx now actor token snap ws) = Inr i \<longleftrightarrow>
    require_level 2 actor \<and> redeemable tx now actor token i (read_row snap ws) \<and> admits actor i (read_row snap ws) ws"
proof
  let ?ws0 = "read_row snap ws"
  assume "fst (accept_org_invite tx now actor token snap ws) = Inr i"
  then show "require_level 2 actor \<and> redeemable tx now actor token i ?ws0 \<and> admits actor i ?ws0 ws"
  proof (rule accept_successD)
    fix v r
    assume "find (\<lambda>v. iv_hash v = tx_sha tx token) (invites ?ws0) = Some v"
    then have "v \<in> set (invites ?ws0)" "iv_hash v = tx_sha tx token" using find_SomeD by fastforce+
    moreover assume "iv_id v = i" "\<not> iv_expires v < now" "\<not> iv_revoked v" "\<not> iv_accepted v"
      "find_user (acc ?ws0) (vw_id actor) = Some r" "tx_lower tx (us_name r) = tx_lower tx (iv_email v)"
      "\<not> org_member (perms ?ws0) (iv_org v) (vw_id actor)" "require_level 2 actor"
    moreover assume "\<not> org_member (perms ws) (iv_org v) (vw_id actor)" "org_exists ws (iv_org v)"
      "find_user (acc ws) (vw_id actor) \<noteq> None"
    ultimately show ?thesis unfolding redeemable_def pending_def admits_def
      by (intro conjI bexI [of _ v] exI [of _ r]) simp_all
  qed
next
  let ?ws0 = "read_row snap ws"
  assume r: "require_level 2 actor \<and> redeemable tx now actor token i ?ws0 \<and> admits actor i ?ws0 ws"
  then obtain v r where v: "v \<in> set (invites ?ws0)" "iv_id v = i" "iv_hash v = tx_sha tx token" "pending v"
      "now \<le> iv_expires v" "find_user (acc ?ws0) (vw_id actor) = Some r"
      "tx_lower tx (us_name r) = tx_lower tx (iv_email v)" "\<not> org_member (perms ?ws0) (iv_org v) (vw_id actor)"
    by (auto simp: redeemable_def)
  from r obtain w where w: "w \<in> set (invites ?ws0)" "iv_id w = i" "org_exists ws (iv_org w)"
      "\<not> org_member (perms ws) (iv_org w) (vw_id actor)" "find_user (acc ws) (vw_id actor) \<noteq> None"
    by (auto simp: admits_def)
  have "w = v" using invite_unique [OF inv w(1) v(1)] w(2) v(2) by simp
  moreover have "find (\<lambda>x. iv_hash x = tx_sha tx token) (invites ?ws0) = Some v"
    using invite_by_hash [OF inv v(1)] v(3) by simp
  ultimately show "fst (accept_org_invite tx now actor token snap ws) = Inr i"
    using v w r by (simp add: accept_org_invite_def Let_def pending_def)
qed

text \<open>
  C6 When an invitation is redeemed, exactly, for an accept whose checks ran on the present
  state or on any earlier one (\<open>snap\<close>): the caller has at least the role member (viewer
  accounts are refused); in the state that was read the token belonged to an invitation
  neither expired, revoked nor used, the caller's account had the invited name and was not in
  the organisation; and at the time of the transaction the account and the organisation exist
  and the account is still no member - the invitation is not looked at again. The account then
  has the invited role and the invitation is used.
\<close>

theorem accept_exact:
  fixes tx :: text_env and now :: int and actor :: user_view and token :: string
  assumes "ws_inv ws" and "sound_snap snap"
  defines "ws0 \<equiv> read_row snap ws" and "res \<equiv> accept_org_invite tx now actor token snap ws"
  shows "(fst res = Inr i \<longleftrightarrow>
      require_level 2 actor \<and> redeemable tx now actor token i ws0 \<and> admits actor i ws0 ws)
    \<and> (fst res = Inr i \<longrightarrow>
        (\<exists>v \<in> set (invites ws0). iv_id v = i
          \<and> org_role (perms (snd res)) (iv_org v) (vw_id actor) = Some (iv_role v))
        \<and> (\<forall>v \<in> set (invites ws). iv_id v = i \<longrightarrow> v\<lparr>iv_accepted := True\<rparr> \<in> set (invites (snd res))))"
proof (intro conjI impI)
  have "ws_inv (read_row snap ws)" by (rule read_row_inv [OF assms(2,1)])
  then show "fst res = Inr i \<longleftrightarrow>
      require_level 2 actor \<and> redeemable tx now actor token i ws0 \<and> admits actor i ws0 ws"
    unfolding res_def ws0_def by (rule accept_iff)
next
  assume ok: "fst res = Inr i"
  then obtain v where v: "find (\<lambda>v. iv_hash v = tx_sha tx token) (invites ws0) = Some v" "iv_id v = i"
    and ws': "snd res = set_invite i (\<lambda>v. v\<lparr>iv_accepted := True\<rparr>)
          (set_perms (insert_org_member (iv_org v) (vw_id actor) (iv_role v)) ws)"
    unfolding res_def ws0_def by (rule accept_successD)
  have "ws_inv (snd res)" unfolding res_def by (rule accept_invite_inv [OF assms(1,2)])
  moreover have "(iv_org v, vw_id actor, iv_role v) \<in> set (org_member_rows (perms (snd res)))"
    unfolding ws' by (simp add: insert_org_member_def)
  ultimately have "org_role (perms (snd res)) (iv_org v) (vw_id actor) = Some (iv_role v)"
    using org_role_iff [OF ws_invD(3)] by blast
  then show "\<exists>v \<in> set (invites ws0). iv_id v = i
      \<and> org_role (perms (snd res)) (iv_org v) (vw_id actor) = Some (iv_role v)"
    using find_SomeD [OF v(1)] v(2) by blast
  show "\<forall>v \<in> set (invites ws). iv_id v = i \<longrightarrow> v\<lparr>iv_accepted := True\<rparr> \<in> set (invites (snd res))"
    unfolding ws' set_invite_def by (force simp: set_update_rows)
qed

theorem accept_exact_witness:
  "(1, 2, ''member'') \<in> set (org_member_rows (perms (snd (accept_bob None invited))))
   \<and> (\<exists>v \<in> set (invites (snd (accept_bob None invited))). iv_id v = 1 \<and> iv_accepted v)"
proof -
  have ok: "fst (accept_org_invite sample_tx 1000 org_bob ''i'' None invited) = Inr 1"
    using run_accept by (simp add: accept_bob_def)
  have snap: "sound_snap None" by (simp add: sound_snap_def)
  obtain v where v: "v \<in> set (invites invited)" "iv_id v = 1"
      "org_role (perms (snd (accept_bob None invited))) (iv_org v) (vw_id org_bob) = Some (iv_role v)"
      "v\<lparr>iv_accepted := True\<rparr> \<in> set (invites (snd (accept_bob None invited)))"
    using accept_exact [OF sample_ws_inv snap, of sample_tx 1000 org_bob "''i''" 1] ok
    unfolding accept_bob_def read_row_def by auto
  have "ws_inv (snd (accept_bob None invited))"
    unfolding accept_bob_def by (rule accept_invite_inv [OF sample_ws_inv snap])
  from org_role_iff [OF ws_invD(3) [OF this]] v show ?thesis by force
qed

text \<open>
  C8 An invitation can be redeemed after it was revoked: whatever became of it, and of the
  name of the account, since the handler has checked them, the transaction goes through when
  the organisation and the account still exist and the account is not a member yet.
\<close>

theorem stale_accept_redeems:
  assumes "require_level 2 actor" and "redeemable tx now actor token i ws0" and "ws_inv ws0"
    and "v \<in> set (invites ws0)" and "iv_id v = i"
    and "org_exists ws (iv_org v)" and "find_user (acc ws) (vw_id actor) \<noteq> None"
    and "\<not> org_member (perms ws) (iv_org v) (vw_id actor)"
  shows "fst (accept_org_invite tx now actor token (Some ws0) ws) = Inr i
    \<and> org_member (perms (snd (accept_org_invite tx now actor token (Some ws0) ws))) (iv_org v) (vw_id actor)"
proof -
  obtain w r where w: "w \<in> set (invites ws0)" "iv_id w = i" "iv_hash w = tx_sha tx token" "pending w"
      "now \<le> iv_expires w" "find_user (acc ws0) (vw_id actor) = Some r"
      "tx_lower tx (us_name r) = tx_lower tx (iv_email w)" "\<not> org_member (perms ws0) (iv_org w) (vw_id actor)"
    using assms(2) by (auto simp: redeemable_def)
  have "w = v" using invite_unique [OF assms(3) w(1) assms(4)] w(2) assms(5) by simp
  moreover have "find (\<lambda>x. iv_hash x = tx_sha tx token) (invites ws0) = Some w"
    using invite_by_hash [OF assms(3) w(1)] w(3) by simp
  ultimately show ?thesis using assms w
    by (simp add: accept_org_invite_def Let_def read_row_def pending_def insert_org_member_def org_member_def)
qed

theorem stale_accept_redeems_witness:
  "revoked = exec_request sample_tx sample_env revoke_bob invited
   \<and> fst (accept_bob (Some invited) revoked) = Inr 1
   \<and> org_member (perms (snd (accept_bob (Some invited) revoked))) 1 2"
proof -
  have "redeemable sample_tx 1000 org_bob ''i'' 1 invited"
    using accept_redeemed [OF sample_ws_inv, of sample_tx 1000 org_bob "''i''" 1] run_accept
    by (simp add: accept_bob_def)
  then have "fst (accept_bob (Some invited) revoked) = Inr 1
      \<and> org_member (perms (snd (accept_bob (Some invited) revoked))) (iv_org bobs_invite) (vw_id org_bob)"
    unfolding accept_bob_def using founded_facts(1)
    by (intro stale_accept_redeems [OF _ _ sample_ws_inv])
      (simp_all add: sample_levels founded_users org_member_def founded_perms)
  then show ?thesis by (simp add: run_revoke)
qed

text \<open>
  Addresses are compared after \<open>str.lower\<close>, while usernames are unique under
  SQLite's \<open>NOCASE\<close> only: of two users with names that differ but fall together in
  lower case, such as one with the Kelvin sign for a k, either can redeem what was addressed
  to the other.
\<close>

lemma lower_homoglyph_redeems:
  assumes inv: "ws_inv ws" and "v \<in> set (invites ws)" and "pending v" and "now \<le> iv_expires v"
    and "iv_hash v = tx_sha tx token" and "iv_email v = tx_lower tx name" and "tx_lower tx (tx_lower tx name) = tx_lower tx name"
    and "find_user (acc ws) (vw_id actor) = Some r" and "tx_lower tx (us_name r) = tx_lower tx name"
    and "nocase (us_name r) \<noteq> nocase name"
    and "require_level 2 actor" and "\<not> org_member (perms ws) (iv_org v) (vw_id actor)"
  shows "fst (accept_org_invite tx now actor token None ws) = Inr (iv_id v)"
  by (rule accept_redeemable [OF inv assms(11)]) (use assms in \<open>auto simp: redeemable_def\<close>)

text \<open>A closed invitation stays closed, and its id is not given again.\<close>

definition closed_id :: "nat \<Rightarrow> workspace \<Rightarrow> bool" where
  "closed_id i ws \<longleftrightarrow> i < next_invite ws \<and> (\<forall>v \<in> set (invites ws). iv_id v = i \<longrightarrow> \<not> pending v)"

lemma closed_id_image:
  assumes "closed_id i ws" and "next_invite ws \<le> next_invite ws'"
    and "\<And>v'. v' \<in> set (invites ws') \<Longrightarrow> iv_id v' = i \<Longrightarrow> pending v' \<Longrightarrow>
        \<exists>v \<in> set (invites ws). iv_id v = iv_id v' \<and> pending v"
  shows "closed_id i ws'"
  using assms unfolding closed_id_def by fastforce

lemma closed_id_same:
  "closed_id i ws \<Longrightarrow> invites ws' = invites ws \<Longrightarrow> next_invite ws' = next_invite ws \<Longrightarrow> closed_id i ws'"
  by (simp add: closed_id_def)

lemma closed_id_update:
  assumes "closed_id i ws" and "\<And>v. iv_id (f v) = iv_id v"
    and "\<And>v. p v \<Longrightarrow> pending (f v) \<Longrightarrow> pending v"
    and "invites ws' = update_rows p f (invites ws)" and "next_invite ws' = next_invite ws"
  shows "closed_id i ws'"
proof (rule closed_id_image [OF assms(1)])
  fix v' assume "v' \<in> set (invites ws')" and p: "pending v'"
  then obtain v where v: "v \<in> set (invites ws)" "v' = (if p v then f v else v)"
    unfolding assms(4) set_update_rows by blast
  then show "\<exists>v \<in> set (invites ws). iv_id v = iv_id v' \<and> pending v"
    using p assms(2,3) [of v] by (intro bexI [OF _ v(1)]) (cases "p v"; simp)
qed (simp add: assms(5))

lemma closed_id_create:
  "closed_id i ws \<Longrightarrow> invites ws' = invites ws @ [v] \<Longrightarrow> iv_id v = next_invite ws \<Longrightarrow>
     next_invite ws' = Suc (next_invite ws) \<Longrightarrow> closed_id i ws'"
  by (auto simp: closed_id_def)

lemma resend_closed:
  assumes inv: "ws_inv ws" and closed: "closed_id i ws"
  shows "closed_id i (snd (resend_org_invite tx now actor org j h snap ws))"
proof (cases "i = j")
  case True
  have "resend_error tx ws org i \<noteq> None"
  proof
    assume none: "resend_error tx ws org i = None"
    then obtain v where v: "find_invite ws org i = Some v" "\<not> iv_revoked v" "\<not> iv_accepted v"
      by (auto simp: resend_error_def split: option.splits if_splits)
    with find_inviteD [OF v(1)] closed show False by (auto simp: closed_id_def pending_def)
  qed
  then show ?thesis using closed True
    by (auto simp: resend_org_invite_def Let_def split: option.split)
next
  case False
  have "closed_id i (set_invite j f ws)" if "\<And>v. iv_id (f v) = iv_id v" for f
    using closed that False unfolding closed_id_def set_invite_def
    by (auto simp: set_update_rows)
  then show ?thesis using closed by (auto simp: resend_org_invite_def Let_def split: option.split)
qed

lemma accept_closed:
  assumes "closed_id i ws"
  shows "closed_id i (snd (accept_org_invite tx now actor token snap ws))"
proof (cases "fst (accept_org_invite tx now actor token snap ws)")
  case (Inl e)
  then show ?thesis using assms accept_failure by metis
next
  case (Inr j)
  then show ?thesis
  proof (rule accept_successD)
    fix v
    assume ws': "snd (accept_org_invite tx now actor token snap ws) = set_invite j (\<lambda>v. v\<lparr>iv_accepted := True\<rparr>)
        (set_perms (insert_org_member (iv_org v) (vw_id actor) (iv_role v)) ws)"
    show ?thesis unfolding ws'
      by (rule closed_id_update [OF assms, where f = "\<lambda>v. v\<lparr>iv_accepted := True\<rparr>" and p = "\<lambda>v. iv_id v = j"])
        (simp_all add: set_invite_def pending_def)
  qed
qed

lemma quiet_org_closed:
  assumes "closed_id i ws"
  shows "closed_id i (snd (create_organization tx a n ws))"
    "closed_id i (snd (update_organization tx a org name d snap ws))"
    "closed_id i (snd (add_org_member a org u role snap ws))"
    "closed_id i (snd (update_org_member_role a org u role snap ws))"
    "closed_id i (snd (transfer_ownership a org u snap ws))"
    "closed_id i (snd (update_user_organizations a u ms os role snap ws))"
    "closed_id i (snd (update_user_groups a u gs snap ws))"
    "closed_id i (snd (create_group a n org' snap ws))"
    "closed_id i (snd (update_group a g name d snap ws))"
  by (rule closed_id_same [OF assms]; simp add: create_organization_def update_organization_def
      add_org_member_def update_org_member_role_def transfer_ownership_def update_user_organizations_def
      update_user_groups_def create_group_def update_group_def Let_def split: option.split sum.split)+

lemma revoke_closed:
  assumes "closed_id i ws"
  shows "closed_id i (snd (revoke_org_invite a org j snap ws))"
proof -
  have "closed_id i (set_invite j (\<lambda>v. v\<lparr>iv_revoked := True\<rparr>) ws)"
    by (rule closed_id_update [OF assms, where f = "\<lambda>v. v\<lparr>iv_revoked := True\<rparr>" and p = "\<lambda>v. iv_id v = j"])
      (simp_all add: set_invite_def pending_def)
  then show ?thesis using assms by (auto simp: revoke_org_invite_def Let_def split: option.split)
qed

lemma create_invite_closed:
  assumes "closed_id i ws"
  shows "closed_id i (snd (create_org_invite tx now a org e role d h snap ws))"
  using assms closed_id_create [OF assms]
  by (auto simp: create_org_invite_def Let_def split: option.split)

lemma rebind_closed:
  assumes "closed_id i ws" and "invites ws' = rebind_invites tx old new (invites ws)"
    and "next_invite ws' = next_invite ws"
  shows "closed_id i ws'"
proof -
  let ?p = "\<lambda>v. nocase (iv_email v) = nocase (tx_lower tx new) \<and> pending v \<and> nocase (iv_email v) \<noteq> nocase (tx_lower tx old)"
  have "closed_id i (ws\<lparr>invites := update_rows ?p (\<lambda>v. v\<lparr>iv_revoked := True\<rparr>) (invites ws)\<rparr>)"
    by (rule closed_id_update [OF assms(1), where f = "\<lambda>v. v\<lparr>iv_revoked := True\<rparr>" and p = ?p]) simp_all
  then show ?thesis
    by (rule closed_id_update [where f = "\<lambda>v. v\<lparr>iv_email := tx_lower tx new\<rparr>"])
      (simp_all add: assms rebind_invites_def)
qed

lemma exec_request_closed:
  assumes inv: "ws_inv ws" and closed: "closed_id i ws"
  shows "closed_id i (exec_request tx env c ws)"
proof (cases c)
  case (Org c)
  then show ?thesis
    by (cases c) (simp_all add: quiet_org_closed [OF closed] accept_closed [OF closed]
        resend_closed [OF inv closed] revoke_closed [OF closed] create_invite_closed [OF closed])
next
  case (Access p c)
  have "closed_id i (cascade (set_perms (\<lambda>_. az) ws))" for az
    using closed by (simp add: closed_id_def cascade_def)
  then show ?thesis using Access closed by (simp add: access_request_def split: sum.split)
next
  case (Account c)
  have "closed_id i (snd (rename_user tx a j b snap ws))" for a j b snap
    using closed rebind_closed [OF closed] closed_id_same [OF closed]
    by (auto simp: rename_user_def split: prod.split option.split)
  then show ?thesis using Account closed_id_same [OF closed]
    by (cases c) (simp_all add: account_request_def)
qed

text \<open>
  C7 A revoked or used invitation is never redeemed, whatever happens afterwards, by any
  request that reads it after it was closed; in particular a token works once.
\<close>

theorem closed_invite_never_redeemed:
  assumes h: "history tx env (newer @ older)" and old: "older \<noteq> []" and v: "v \<in> set (invites (hd older))" "\<not> pending v"
    and snap: "\<And>s. snap = Some s \<Longrightarrow> s \<in> insert (hd older) (set newer)"
  shows "fst (accept_org_invite tx now actor token snap (hd (newer @ older))) \<noteq> Inr (iv_id v)"
proof
  have inv: "ws_inv (hd older)" by (rule history_inv [OF h]) (use old in simp)
  have c0: "closed_id (iv_id v) (hd older)"
    unfolding closed_id_def
  proof (intro conjI ballI impI)
    show "iv_id v < next_invite (hd older)" using ws_invD(6) [OF inv] v(1) by (simp add: invites_ok_def)
    fix w assume w: "w \<in> set (invites (hd older))" "iv_id w = iv_id v"
    show "\<not> pending w" using invite_unique [OF inv w(1) v(1) w(2)] v(2) by simp
  qed
  have closed: "closed_id (iv_id v) s" if "s \<in> insert (hd older) (set newer)" for s
    using that c0 history_preserved [where P = "closed_id (iv_id v)", OF _ h old c0, of s] exec_request_closed by blast
  assume "fst (accept_org_invite tx now actor token snap (hd (newer @ older))) = Inr (iv_id v)"
  then show False
  proof (rule accept_successD)
    let ?s = "read_row snap (hd (newer @ older))"
    fix w assume w: "find (\<lambda>v. iv_hash v = tx_sha tx token) (invites ?s) = Some w" "iv_id w = iv_id v"
      "\<not> iv_revoked w" "\<not> iv_accepted w"
    have "hd (newer @ older) \<in> insert (hd older) (set newer)" by (cases newer) simp_all
    then have "closed_id (iv_id v) ?s" using closed snap by (cases snap) (auto simp: read_row_def)
    with find_SomeD [OF w(1)] w(2-4) show False by (auto simp: closed_id_def pending_def)
  qed
qed

theorem closed_invite_never_redeemed_witness:
  "fst (accept_bob None revoked) \<noteq> Inr 1"
  using closed_invite_never_redeemed [of sample_tx sample_env "[]" "revoked # invited # before_invite"
      "bobs_invite\<lparr>iv_revoked := True\<rparr>" None 1000 org_bob "''i''"]
    history_next [OF sample_history, of revoke_bob]
  by (simp add: accept_bob_def run_revoke pending_def)

section \<open>Renaming\<close>

lemma rebind_pending:
  assumes "v' \<in> set (rebind_invites tx old new ivs)" and "pending v'"
    and "nocase (iv_email v') = nocase (tx_lower tx new)"
  shows "\<exists>v \<in> set ivs. iv_id v = iv_id v' \<and> nocase (iv_email v) = nocase (tx_lower tx old)"
proof -
  let ?r = "\<lambda>v. nocase (iv_email v) = nocase (tx_lower tx new) \<and> pending v \<and> nocase (iv_email v) \<noteq> nocase (tx_lower tx old)"
  let ?m = "\<lambda>v. nocase (iv_email v) = nocase (tx_lower tx old) \<and> pending v"
  obtain v w where v: "v \<in> set ivs" "w = (if ?r v then v\<lparr>iv_revoked := True\<rparr> else v)"
      "v' = (if ?m w then w\<lparr>iv_email := tx_lower tx new\<rparr> else w)"
    using assms(1) unfolding rebind_invites_def set_update_rows by blast
  have ids: "iv_id v = iv_id v'" "iv_email w = iv_email v" unfolding v(2,3) by simp_all
  have "nocase (iv_email v) = nocase (tx_lower tx old)"
  proof (cases "?m w")
    case True
    then show ?thesis using ids(2) by simp
  next
    case False
    then have w: "v' = w" using v(3) by (simp only: if_False)
    have "\<not> ?r v"
    proof
      assume "?r v"
      from v(2) have "w = v\<lparr>iv_revoked := True\<rparr>" unfolding if_P [OF \<open>?r v\<close>] .
      then show False using assms(2) w by (simp add: pending_def)
    qed
    from v(2) have "w = v" unfolding if_not_P [OF \<open>\<not> ?r v\<close>] .
    then have "v' = v" using w by simp
    then show ?thesis using \<open>\<not> ?r v\<close> assms(2,3) by blast
  qed
  then show ?thesis using v(1) ids(1) by blast
qed

text \<open>Stored addresses are in lower case.\<close>

definition lowered :: "text_env \<Rightarrow> invite_row list \<Rightarrow> bool" where
  "lowered tx ivs \<longleftrightarrow> (\<forall>v \<in> set ivs. tx_lower tx (iv_email v) = iv_email v)"

lemma lowered_update:
  "lowered tx ivs \<Longrightarrow> (\<And>v. tx_lower tx (iv_email v) = iv_email v \<Longrightarrow> tx_lower tx (iv_email (f v)) = iv_email (f v)) \<Longrightarrow>
     lowered tx (update_rows p f ivs)"
  by (auto simp: lowered_def set_update_rows)

lemma lowered_org:
  assumes "lowered tx (invites ws)" and idem: "\<And>s. tx_lower tx (tx_lower tx s) = tx_lower tx s"
  shows "lowered tx (invites (snd (exec_org tx c ws)))"
proof -
  have s: "lowered tx (invites (set_invite i f w))" if "lowered tx (invites w)" "\<And>v. iv_email (f v) = iv_email v" for i f w
    unfolding set_invite_def using lowered_update [OF that(1), of f] that(2) by simp
  have "lowered tx (invites (snd (accept_org_invite tx now actor token snap ws)))" for now actor token snap
    using assms(1) by (auto simp: accept_org_invite_def Let_def split: option.split intro!: s)
  moreover have "lowered tx (invites (snd (create_org_invite tx now a org e role d h snap ws)))" for now a org e role d h snap
    using assms by (auto simp: create_org_invite_def Let_def lowered_def split: option.split)
  moreover have "lowered tx (invites (snd (resend_org_invite tx now a org i h snap ws)))" for now a org i h snap
    using assms(1) by (auto simp: resend_org_invite_def Let_def split: option.split intro!: s)
  moreover have "lowered tx (invites (snd (revoke_org_invite a org i snap ws)))" for a org i snap
    using assms(1) by (auto simp: revoke_org_invite_def Let_def split: option.split intro!: s)
  ultimately show ?thesis using assms(1)
    by (cases c) (simp_all add: create_organization_def update_organization_def
      add_org_member_def update_org_member_role_def transfer_ownership_def update_user_organizations_def
      update_user_groups_def create_group_def update_group_def Let_def split: option.split sum.split)
qed

lemma lowered_rebind:
  assumes "lowered tx ivs" and "\<And>s. tx_lower tx (tx_lower tx s) = tx_lower tx s"
  shows "lowered tx (rebind_invites tx old new ivs)"
  unfolding rebind_invites_def by (intro lowered_update assms(1)) (simp_all add: assms(2))

lemma lowered_exec:
  assumes "lowered tx (invites ws)" and idem: "\<And>s. tx_lower tx (tx_lower tx s) = tx_lower tx s"
  shows "lowered tx (invites (exec_request tx env c ws))"
proof (cases c)
  case (Account c)
  have "lowered tx (invites (snd (rename_user tx a i b snap ws)))" for a i b snap
    using assms lowered_rebind [OF assms] by (simp add: rename_user_def split: prod.split option.split)
  then show ?thesis using Account assms(1) by (cases c) (simp_all add: account_request_def)
next
  case (Access p c)
  then show ?thesis using assms(1)
    by (auto simp: access_request_def cascade_def lowered_def split: sum.split)
qed (simp add: lowered_org [OF assms])

lemma history_lowered:
  assumes "history tx env tr" and "\<And>s. tx_lower tx (tx_lower tx s) = tx_lower tx s"
  shows "ws \<in> set tr \<Longrightarrow> lowered tx (invites ws)"
  using assms(1)
proof (induction arbitrary: ws rule: history.induct)
  case start
  then show ?case by (simp add: lowered_def empty_workspace_def)
next
  case (request tr c)
  then have "lowered tx (invites (hd tr))" using history_nonempty [OF request.hyps(1)] by simp
  then show ?case using request lowered_exec [OF _ assms(2)] by auto
qed

lemma rename_successD:
  assumes ok: "fst (update_user a i b None db) = Inr j" and t: "find_user db i = Some t" and n: "up_name b = Some new"
  shows "snd (update_user a i b None db) = record_event ''user.updated'' (Some i)
      (invalidate_active_user_cache i (set_user i (apply_patch b) db))"
proof -
  have r: "fst (update_user_respond a i b (Some t) db) = Inr j"
    and e: "snd (update_user a i b None db) = snd (update_user_respond a i b (Some t) db)"
    using ok t by (auto simp: update_user_def read_row_def split: if_splits)
  have m: "assert_can_modify_target (vw_role a) (us_role t) = None"
    using r by (cases "assert_can_modify_target (vw_role a) (us_role t)") (simp_all add: update_user_respond_def)
  have nt: "\<not> name_taken db i (up_name b)" using r m by (auto simp: update_user_respond_def)
  have re: "role_patch_error a i (us_role t) (up_role b) = None"
    using r m nt by (cases "role_patch_error a i (us_role t) (up_role b)") (simp_all add: update_user_respond_def)
  show ?thesis using r m nt re n t
    unfolding e update_user_respond_def by (auto split: if_splits)
qed

text \<open>
  Renaming an account does not capture other people's invitations: right after the rename
  of a user it can redeem only invitations that were addressed to its old name, since pending
  ones to the new name are revoked. Of \<open>str.lower\<close> this needs that it is idempotent.
\<close>

theorem rename_cannot_capture:
  assumes idem: "\<And>s. tx_lower tx (tx_lower tx s) = tx_lower tx s"
    and h: "history tx env (ws # tr)" and t: "find_user (acc ws) i = Some t"
    and ren: "rename_user tx a i b None ws = (Inr k, ws')" "up_name b = Some new" "new \<noteq> us_name t"
    and acc: "fst (accept_org_invite tx now actor token None ws') = Inr j" "vw_id actor = i"
  shows "\<exists>v \<in> set (invites ws). iv_id v = j \<and> nocase (iv_email v) = nocase (tx_lower tx (us_name t))"
proof -
  have inv: "ws_inv ws" by (rule history_inv [OF h]) simp
  have low: "lowered tx (invites ws)" by (rule history_lowered [OF h idem]) simp
  have ws': "ws' = snd (rename_user tx a i b None ws)" by (simp add: ren(1))
  have "fst (update_user a i b None (acc ws)) = Inr k"
    using ren(1) by (simp add: rename_user_def split: prod.splits)
  from rename_successD [OF this t ren(2)]
  have s: "snd (update_user a i b None (acc ws)) = record_event ''user.updated'' (Some i)
      (invalidate_active_user_cache i (set_user i (apply_patch b) (acc ws)))" .
  have a': "acc ws' = snd (update_user a i b None (acc ws))" unfolding ws' by (rule rename_user_acc)
  have "committed (acc ws) (snd (update_user a i b None (acc ws)))"
    unfolding s by (simp add: committed_def record_event_def invalidate_active_user_cache_def set_user_def)
  then have ivs: "invites ws' = rebind_invites tx (us_name t) new (invites ws)"
    unfolding ws' using t ren(2,3)
    by (auto simp: rename_user_def read_row_def case_prod_unfold split: prod.split)
  have "find_user (acc ws') i = Some (apply_patch b t)"
  proof -
    have "find_user (set_user i (apply_patch b) (acc ws)) i = Some (apply_patch b t)"
      using t unfolding find_user_def set_user_fields
      by (subst find_map_update_rows) (auto simp: apply_patch_def dest: find_SomeD)
    then show ?thesis unfolding a' s by (simp add: find_user_def)
  qed
  then have name: "us_name r = new" if "find_user (acc ws') i = Some r" for r
    using that ren(2) by (auto simp: apply_patch_def)
  have "ws_inv ws'" unfolding ws' by (rule rename_user_inv [OF inv])
  from accept_redeemed [OF this acc(1)] obtain v' r where
    v': "v' \<in> set (invites ws')" "iv_id v' = j" "pending v'"
      "find_user (acc ws') i = Some r" "tx_lower tx (us_name r) = tx_lower tx (iv_email v')"
    by (auto simp: redeemable_def acc(2))
  have "tx_lower tx (iv_email v') = iv_email v'"
    using lowered_rebind [OF low idem] v'(1) unfolding ivs lowered_def by blast
  then have "nocase (iv_email v') = nocase (tx_lower tx new)" using v'(5) name [OF v'(4)] by simp
  from rebind_pending [OF v'(1) [unfolded ivs] v'(3) this] v'(2) show ?thesis by simp
qed

theorem rename_cannot_capture_witness:
  "\<exists>v \<in> set (invites invited). iv_id v = 1 \<and> nocase (iv_email v) = nocase (tx_lower sample_tx [98, 111, 98])"
proof -
  have "\<exists>v \<in> set (invites invited). iv_id v = 1
      \<and> nocase (iv_email v) = nocase (tx_lower sample_tx (us_name (org_user 2 [98, 111, 98] ''member'')))"
    by (rule rename_cannot_capture [where new = "[98, 105, 98]" and now = 1000 and actor = org_bob
        and token = "''i''", OF _ sample_history _ run_rename])
      (use renamed_accepts in \<open>simp_all add: nocase_idem founded_users bib_patch_def accept_bob_def\<close>)
  then show ?thesis by simp
qed

section \<open>Groups stay within their organisations\<close>

definition within_orgs :: "authz_db \<Rightarrow> bool" where
  "within_orgs az \<longleftrightarrow> (\<forall>(g, u) \<in> set (group_members az). \<exists>org. (g, org) \<in> set (groups az) \<and> org_member az org u)"

lemma within_orgsI:
  "(\<And>g u. (g, u) \<in> set (group_members az) \<Longrightarrow> \<exists>org. (g, org) \<in> set (groups az) \<and> org_member az org u) \<Longrightarrow> within_orgs az"
  by (auto simp: within_orgs_def)

lemma within_orgsE:
  assumes "within_orgs az" and "(g, u) \<in> set (group_members az)"
  obtains org where "(g, org) \<in> set (groups az)" "org_member az org u"
  using assms by (auto simp: within_orgs_def)

text \<open>Memberships of groups may go; those of organisations only where no group needs them.\<close>

lemma within_orgs_step:
  assumes "within_orgs az" and "set (group_members az') \<subseteq> set (group_members az)"
    and "\<And>g u org. (g, u) \<in> set (group_members az') \<Longrightarrow> (g, org) \<in> set (groups az) \<Longrightarrow> org_member az org u \<Longrightarrow>
        (g, org) \<in> set (groups az') \<and> org_member az' org u"
  shows "within_orgs az'"
proof (rule within_orgsI)
  fix g u assume m: "(g, u) \<in> set (group_members az')"
  then have "(g, u) \<in> set (group_members az)" using assms(2) by blast
  with assms(1) obtain org where "(g, org) \<in> set (groups az)" "org_member az org u" by (rule within_orgsE)
  with assms(3) [OF m] show "\<exists>org. (g, org) \<in> set (groups az') \<and> org_member az' org u" by blast
qed

lemma within_orgs_same:
  "within_orgs az \<Longrightarrow> group_members az' = group_members az \<Longrightarrow> groups az' = groups az \<Longrightarrow>
     org_member_rows az' = org_member_rows az \<Longrightarrow> within_orgs az'"
  by (simp add: within_orgs_def org_member_def)

lemma account_within:
  assumes "within_orgs (access db)"
  shows "within_orgs (access (exec_account env c db))"
proof (rule exec_account_access [where P = within_orgs])
  show "within_orgs (access (assign_user_to_default_vault (next_user db) (insert_user n p f r m db)))" for n p f r m
    by (rule within_orgs_same [OF assms])
      (simp_all add: assign_user_to_default_vault_def ensure_default_vault_def insert_user_def Let_def split: option.split)
  show "within_orgs (access (set_active i on db))" for i on
    by (rule within_orgs_same [OF assms]) (simp_all add: set_active_def)
  show "within_orgs (delete_user_grants i (access db))" for i
    by (rule within_orgs_step [OF assms]) (auto simp: delete_user_grants_def Let_def org_member_iff)
qed (rule assms)

lemma insert_access_fold_members [simp]:
  "group_members (fold (insert_access v gb) items az) = group_members az"
  "group_members (fold (insert_group_access g gb) items az) = group_members az"
  by (induction items arbitrary: az) (simp_all add: insert_access_def insert_group_access_def)

lemma vault_routes_members:
  "add_vault_member p v u perm az = Inr az' \<Longrightarrow> group_members az' = group_members az"
  "update_vault_member p v u perm az = Inr az' \<Longrightarrow> group_members az' = group_members az"
  "remove_vault_member p v u az = Inr az' \<Longrightarrow> group_members az' = group_members az"
  "grant_vault_group_access p v g perm az = Inr az' \<Longrightarrow> group_members az' = group_members az"
  "update_vault_group_access p v g perm az = Inr az' \<Longrightarrow> group_members az' = group_members az"
  "revoke_vault_group_access p v g az = Inr az' \<Longrightarrow> group_members az' = group_members az"
  "update_vault_groups p v acs gs az = Inr az' \<Longrightarrow> group_members az' = group_members az"
  "update_group_vaults p g acs vs az = Inr az' \<Longrightarrow> group_members az' = group_members az"
  by (auto simp: add_vault_member_def update_vault_member_def remove_vault_member_def
      grant_vault_group_access_def update_vault_group_access_def revoke_vault_group_access_def
      set_member_permission_def delete_member_def set_removed_flag_def insert_access_def
      set_access_permission_def delete_access_def update_vault_groups_def update_group_vaults_def
      replace_group_vaults_def Let_def
      dest!: guarded_transaction_result split: if_splits option.splits)

lemma within_same_orgs: "within_orgs az \<Longrightarrow> same_orgs az az' \<Longrightarrow> group_members az' = group_members az \<Longrightarrow> within_orgs az'"
  by (rule within_orgs_same) (simp_all add: same_orgs_def)

lemma in_org_member: "in_org az org u \<longleftrightarrow> org_member az org u"
  by (simp add: in_org_iff org_member_iff)

lemma access_within:
  assumes ok: "org_ok az" and w: "within_orgs az" and "apply_access p c az = Inr az'"
  shows "within_orgs az'"
proof (cases c)
  case (DeleteGroup g)
  then have "az' = delete_group_rows g az"
    using assms(3) by (auto simp: delete_group_def dest: guarded_transaction_result split: if_splits option.splits)
  then show ?thesis using w by (auto intro!: within_orgs_step [OF w] simp: delete_group_rows_def org_member_def)
next
  case (ReplaceGroupMembers g us)
  then obtain org where az': "az' = replace_group_members g us az" and g: "group_org az g = Some org"
      and us: "\<forall>u \<in> set us. org_member az org u"
    using assms(3) by (auto simp: update_group_members_def list_all_iff in_org_member
        dest: guarded_transaction_result split: if_splits option.splits)
  have "(g, org) \<in> set (groups az)" using g by (simp add: group_org_def map_of_SomeD)
  show ?thesis
  proof (rule within_orgsI)
    fix h u assume "(h, u) \<in> set (group_members az')"
    then consider "(h, u) \<in> set (group_members az)" | "h = g" "u \<in> set us"
      by (auto simp: az' replace_group_members_def)
    then have "\<exists>org. (h, org) \<in> set (groups az) \<and> org_member az org u"
      using w us \<open>(g, org) \<in> set (groups az)\<close> by cases (blast elim: within_orgsE)+
    then show "\<exists>org. (h, org) \<in> set (groups az') \<and> org_member az' org u"
      by (simp add: az' replace_group_members_def org_member_iff)
  qed
next
  case (RemoveOrgMember org u)
  then have az': "az' = delete_org_member_rows org u az"
    using assms(3) by (auto simp: remove_org_member_def dest: guarded_transaction_result split: if_splits option.splits)
  show ?thesis unfolding az'
    by (rule within_orgs_step [OF w]) (auto simp: delete_org_member_rows_def org_member_iff)
next
  case (DeleteOrganization org)
  then have az': "az' = delete_org_rows org az"
    using assms(3) by (auto simp: delete_organization_def dest: guarded_transaction_result split: if_splits)
  show ?thesis unfolding az'
    by (rule within_orgs_step [OF w]) (force simp: delete_org_rows_def Let_def org_member_iff)+
qed (use assms in \<open>auto dest: vault_routes_members vault_routes_same_orgs bulk_routes_same_orgs
      intro: within_same_orgs [OF w]\<close>)



lemma within_orgs_more:
  assumes "within_orgs az" and "group_members az' = group_members az" and "set (groups az) \<subseteq> set (groups az')"
    and "\<And>org u. org_member az org u \<Longrightarrow> org_member az' org u"
  shows "within_orgs az'"
  by (rule within_orgs_step [OF assms(1)]) (use assms in auto)

lemma org_members_grow:
  "org_member az org w \<Longrightarrow> org_member (insert_org_member i u r az) org w"
  "org_member az org w \<Longrightarrow> org_member (insert_org_member i u r (az\<lparr>organizations := os\<rparr>)) org w"
  "org_member az org w \<Longrightarrow> org_member (set_member_role i u r az) org w"
  "org_member az org w \<Longrightarrow> org_member (move_ownership i u az) org w"
  by (force simp: org_member_iff insert_org_member_def set_member_role_def move_ownership_def)+

lemma member_changes_within:
  assumes "within_orgs az"
  shows "within_orgs (insert_org_member i u r az)" "within_orgs (set_member_role i u r az)"
    "within_orgs (insert_org_member i u r (az\<lparr>organizations := os\<rparr>))"
    "within_orgs (move_ownership i u az)" "within_orgs (az\<lparr>groups := groups az @ gs\<rparr>)"
proof -
  note grow = within_orgs_more [OF assms]
  show "within_orgs (insert_org_member i u r az)"
    by (rule grow [OF _ _ org_members_grow(1)]) (simp_all add: insert_org_member_def)
  show "within_orgs (set_member_role i u r az)"
    by (rule grow [OF _ _ org_members_grow(3)]) (simp_all add: set_member_role_def)
  show "within_orgs (insert_org_member i u r (az\<lparr>organizations := os\<rparr>))"
    by (rule grow [OF _ _ org_members_grow(2)]) (simp_all add: insert_org_member_def)
  show "within_orgs (move_ownership i u az)"
    by (rule grow [OF _ _ org_members_grow(4)]) (simp_all add: move_ownership_def)
  show "within_orgs (az\<lparr>groups := groups az @ gs\<rparr>)" by (rule grow) (auto simp: org_member_def)
qed

lemma orgs_of_iff: "org \<in> set (orgs_of az u) \<longleftrightarrow> org_member az org u"
  by (force simp: orgs_of_def org_member_iff)

lemma fold_insert_members:
  "group_members (fold (insert_missing_member u) ms az) = group_members az"
  "groups (fold (insert_missing_member u) ms az) = groups az"
  by (induction ms arbitrary: az) (simp_all add: insert_missing_member_def insert_org_member_def)

lemma replace_user_orgs_within:
  assumes "within_orgs az"
  shows "within_orgs (replace_user_orgs scoped caller u ms az)"
proof -
  let ?az1 = "fold (insert_missing_member u) ms (drop_memberships scoped caller u az)"
  let ?az = "replace_user_orgs scoped caller u ms az"
  have gs: "groups ?az1 = groups az" "group_members ?az1 = group_members az"
    by (simp_all add: fold_insert_members drop_memberships_def)
  have rows: "org_member_rows ?az = org_member_rows ?az1" by (simp add: replace_user_orgs_def Let_def)
  show ?thesis
  proof (rule within_orgs_step [OF assms])
    show "set (group_members ?az) \<subseteq> set (group_members az)"
      by (auto simp: replace_user_orgs_def Let_def gs)
    fix g w org assume g: "(g, w) \<in> set (group_members ?az)" "(g, org) \<in> set (groups az)" "org_member az org w"
    then obtain r where r: "(org, w, r) \<in> set (org_member_rows az)" by (auto simp: org_member_iff)
    have "org_member ?az org w"
    proof (cases "w = u \<and> r \<noteq> ''owner''")
      case True
      then have "org \<in> set (orgs_of ?az1 u)"
        using g(1,2) r by (force simp: replace_user_orgs_def Let_def gs list_ex_iff)
      then show ?thesis using True rows by (simp add: orgs_of_iff org_member_def)
    next
      case False
      then have "(org, w, r) \<in> set (org_member_rows (drop_memberships scoped caller u az))"
        using r by (auto simp: drop_memberships_def)
      from in_fold_insert_missing [OF this] show ?thesis unfolding org_member_iff rows by blast
    qed
    then show "(g, org) \<in> set (groups ?az) \<and> org_member ?az org w" using g(2) by simp
  qed
qed

lemma replace_user_groups_within:
  assumes "within_orgs az" and "\<And>g. g \<in> set gs \<Longrightarrow> \<exists>org. (g, org) \<in> set (groups az) \<and> org_member az org u"
  shows "within_orgs (replace_user_groups caller_orgs u gs az)"
proof (rule within_orgsI)
  fix g w assume "(g, w) \<in> set (group_members (replace_user_groups caller_orgs u gs az))"
  then have "(g, w) \<in> set (group_members az) \<or> g \<in> set gs \<and> w = u"
    by (auto simp: replace_user_groups_def)
  then have "\<exists>org. (g, org) \<in> set (groups az) \<and> org_member az org w"
    using assms by (blast elim: within_orgsE)
  then show "\<exists>org. (g, org) \<in> set (groups (replace_user_groups caller_orgs u gs az))
      \<and> org_member (replace_user_groups caller_orgs u gs az) org w"
    by (simp add: replace_user_groups_def org_member_def)
qed

lemma user_groups_doneD:
  assumes "snd (update_user_groups actor u gs None ws) \<noteq> ws"
  obtains scope az where
    "guarded_transaction (user_derived_admin_vault_ids u) (replace_user_groups scope u gs) (perms ws) = Inr az"
    "snd (update_user_groups actor u gs None ws) = set_perms (\<lambda>_. az) ws"
    "\<And>g. g \<in> set gs \<Longrightarrow> group_org (perms ws) g \<noteq> None
       \<and> org_member (perms ws) (the (group_org (perms ws) g)) u"
proof -
  have lev: "require_level 3 actor" using assms by (cases "require_level 3 actor") (simp_all add: update_user_groups_def)
  obtain scope where s: "replace_scope ws actor u = Inr scope"
    using assms lev by (cases "replace_scope ws actor u") (simp_all add: update_user_groups_def Let_def read_row_def)
  let ?g = "guarded_transaction (user_derived_admin_vault_ids u) (replace_user_groups scope u gs) (perms ws)"
  have gs: "list_all (\<lambda>g. group_org (perms ws) g \<noteq> None) gs"
      "list_all (\<lambda>g. org_member (perms ws) (the (group_org (perms ws) g)) u) gs"
    using assms lev s by (simp_all add: update_user_groups_def Let_def read_row_def split: if_splits)
  have "snd (update_user_groups actor u gs None ws) = (case ?g of Inl _ \<Rightarrow> ws | Inr az \<Rightarrow> set_perms (\<lambda>_. az) ws)"
    using assms lev s by (simp add: update_user_groups_def Let_def read_row_def split: if_splits sum.splits)
  then obtain az where "?g = Inr az" "snd (update_user_groups actor u gs None ws) = set_perms (\<lambda>_. az) ws"
    using assms by (cases ?g) simp_all
  then show thesis using that gs by (simp add: list_all_iff)
qed

lemma user_groups_within:
  assumes "within_orgs (perms ws)"
  shows "within_orgs (perms (snd (update_user_groups actor u gs None ws)))"
proof (cases "snd (update_user_groups actor u gs None ws) = ws")
  case False
  then show ?thesis
  proof (rule user_groups_doneD)
    fix scope az
    assume az: "guarded_transaction (user_derived_admin_vault_ids u) (replace_user_groups scope u gs) (perms ws) = Inr az"
        "snd (update_user_groups actor u gs None ws) = set_perms (\<lambda>_. az) ws"
      and gs: "\<And>g. g \<in> set gs \<Longrightarrow> group_org (perms ws) g \<noteq> None
        \<and> org_member (perms ws) (the (group_org (perms ws) g)) u"
    have "az = replace_user_groups scope u gs (perms ws)" using guarded_transaction_result [OF az(1)] .
    moreover have "\<exists>org. (g, org) \<in> set (groups (perms ws)) \<and> org_member (perms ws) org u" if "g \<in> set gs" for g
      using gs [OF that] by (force simp: group_org_def dest: map_of_SomeD)
    ultimately show ?thesis using az(2) replace_user_groups_within [OF assms] by simp
  qed
qed (simp add: assms)

lemma user_orgs_within:
  assumes "within_orgs (perms ws)"
  shows "within_orgs (perms (snd (update_user_organizations actor u memberships org_ids role snap ws)))"
  using assms by (auto simp: update_user_organizations_def Let_def intro: replace_user_orgs_within
      dest!: guarded_transaction_result split: sum.split)

lemma accept_within:
  "within_orgs (perms ws) \<Longrightarrow> within_orgs (perms (snd (accept_org_invite tx now actor token snap ws)))"
  by (auto simp: accept_org_invite_def Let_def member_changes_within split: option.split)

lemma org_within:
  assumes "within_orgs (perms ws)" and "org_snap c = None"
  shows "within_orgs (perms (snd (exec_org tx c ws)))"
  using assms
  by (cases c)
    (auto simp: create_organization_def update_organization_def add_org_member_def
      update_org_member_role_def transfer_ownership_def create_org_invite_def resend_org_invite_def
      revoke_org_invite_def accept_within user_orgs_within user_groups_within
      create_group_def update_group_def Let_def member_changes_within
      split: option.split sum.split)

lemma request_within:
  assumes inv: "ws_inv ws" and w: "within_orgs (perms ws)" and c: "request_snap c = None"
  shows "within_orgs (perms (exec_request tx env c ws))"
proof (cases c)
  case (Account d)
  then show ?thesis using account_within [of "acc ws" env d] w by (simp add: perms_def account_request_acc)
next
  case (Access p d)
  then show ?thesis using access_within [OF ws_invD(3) [OF inv] w] w
    by (auto simp: access_request_def split: sum.split)
next
  case (Org d)
  then show ?thesis using org_within [OF w] c by simp
qed

text \<open>
  Requests that run one after the other keep every group within its organisation: who is
  in a group is a member of the organisation of the group, so removing a member from an
  organisation, or replacing someone's organisations, leaves no group access behind.
\<close>

theorem groups_within_orgs:
  assumes "list_all (\<lambda>c. request_snap c = None) cs"
    and "(g, u) \<in> set (group_members (perms (run_requests tx env cs empty_workspace)))"
  shows "\<exists>org. (g, org) \<in> set (groups (perms (run_requests tx env cs empty_workspace)))
    \<and> org_member (perms (run_requests tx env cs empty_workspace)) org u"
proof -
  have "ws_inv ws \<and> within_orgs (perms ws) \<Longrightarrow> list_all (\<lambda>c. request_snap c = None) cs \<Longrightarrow>
      within_orgs (perms (fold (exec_request tx env) cs ws))" for ws
  proof (induction cs arbitrary: ws)
    case (Cons c cs)
    have "sound_snap (request_snap c)" using Cons.prems(2) by (simp add: sound_snap_def)
    then show ?case using Cons.IH [of "exec_request tx env c ws"] Cons.prems
      by (simp add: request_within exec_request_inv)
  qed simp
  from this [OF _ assms(1)] have "within_orgs (perms (run_requests tx env cs empty_workspace))"
    unfolding run_requests_def using empty_workspace_inv
    by (simp add: within_orgs_def empty_workspace_def perms_def empty_accounts_def)
  with assms(2) show ?thesis by (blast elim: within_orgsE)
qed

theorem groups_within_orgs_witness:
  "\<exists>org. (1, org) \<in> set (groups (perms (exec_request sample_tx sample_env join_team team)))
     \<and> org_member (perms (exec_request sample_tx sample_env join_team team)) org 1"
  using groups_within_orgs [of "[register_root, register_bob, create_acme, create_team, join_team]" 1 1 sample_tx sample_env]
  by (simp add: run_requests_def run_register run_create run_team run_join [unfolded One_nat_def])

end
