(* ===== verification/Wiki_Pages.thy ===== *)
theory Wiki_Pages
  imports Complex_Main Interleaving Text_Scan
begin

text \<open>
  Wiki pages: \<^verbatim>\<open>backend/app/services/wiki_store.py\<close>, the pages with their versions,
  links, attachments and activity log, and the routes of \<^verbatim>\<open>api/routes/wiki.py\<close> that change
  them. Timestamps and the creator are left out; the lower-case mapping of Python and the
  class \<open>\w\<close> are parameters. The request models accept only the page types and statuses
  that the schema allows. A summary of NULL is the empty text, as it is read everywhere.
  The hook that marks the evidence of drafts as stale belongs to the Draft Room.
\<close>

section \<open>State\<close>

record wiki_page =
  wp_id :: nat
  wp_vault :: nat
  wp_parent :: "nat option"
  wp_slug :: pystr
  wp_title :: pystr
  wp_type :: string
  wp_markdown :: pystr
  wp_summary :: pystr
  wp_status :: string
  wp_confidence :: rat
  wp_version :: nat

record page_version =
  pv_id :: nat
  pv_page :: nat
  pv_vault :: nat
  pv_title :: pystr
  pv_markdown :: pystr
  pv_summary :: pystr
  pv_status :: string
  pv_confidence :: rat
  pv_editor :: "nat option"

record page_link =
  pl_source :: nat
  pl_target :: nat
  pl_vault :: nat
  pl_text :: pystr

record page_file =
  pf_page :: nat
  pf_file :: nat
  pf_vault :: nat

text \<open>\<open>wiki_files\<close> are the ids and vaults of the table \<open>files\<close>.\<close>

record wiki_db =
  wiki_pages :: "wiki_page list"
  page_versions :: "page_version list"
  page_links :: "page_link list"
  page_files :: "page_file list"
  wiki_files :: "(nat \<times> nat) list"
  wiki_activity :: "(nat \<times> string \<times> nat \<times> nat option) list"
  next_page :: nat
  next_page_version :: nat

record word_env =
  we_lower :: "pystr \<Rightarrow> pystr"
  we_word :: "nat \<Rightarrow> bool"

datatype wiki_error = WikiIntegrity | VersionConflict

section \<open>Slugs and links\<close>

definition normalize_slug :: "word_env \<Rightarrow> pystr \<Rightarrow> pystr" where
  "normalize_slug env text =
     (let t1 = py_strip (we_lower env text);
          t2 = filter (\<lambda>c. we_word env c \<or> py_isspace c \<or> c = 45) t1;
          t3 = dash_runs (\<lambda>c. py_isspace c \<or> c = 95) t2
      in strip_dashes (dash_runs (\<lambda>c. c = 45) t3))"

text \<open>The match of \<open>\[\[([^\]]+)\]\]\<close> at the start of a text, and its group.\<close>

definition link_at :: "pystr \<Rightarrow> nat" where
  "link_at s =
     (let body = takeWhile (\<lambda>c. c \<noteq> 93) (drop 2 s)
      in if take 2 s = [91, 91] \<and> body \<noteq> [] \<and> take 2 (drop (2 + length body) s) = [93, 93]
         then length body + 4 else 0)"

definition link_targets :: "pystr \<Rightarrow> pystr list" where
  "link_targets markdown = map (\<lambda>h. take (length h - 4) (drop 2 h)) (hits (scan link_at markdown))"

text \<open>Slug and text of a target, which \<open>partition('|')\<close> takes apart.\<close>

definition parsed_target :: "word_env \<Rightarrow> pystr \<Rightarrow> pystr \<times> pystr" where
  "parsed_target env raw =
     (let target_part = takeWhile (\<lambda>c. c \<noteq> 124) raw;
          display_part = tl (dropWhile (\<lambda>c. c \<noteq> 124) raw)
      in (normalize_slug env (py_strip target_part),
          if py_strip display_part \<noteq> [] then py_strip display_part else py_strip target_part))"

definition parsed_links :: "word_env \<Rightarrow> pystr \<Rightarrow> (pystr \<times> pystr) list" where
  "parsed_links env markdown = filter (\<lambda>(slug, _). slug \<noteq> []) (map (parsed_target env) (link_targets markdown))"

section \<open>Pages\<close>

definition get_page :: "nat \<Rightarrow> wiki_db \<Rightarrow> wiki_page option" where
  "get_page i db = find (\<lambda>p. wp_id p = i) (wiki_pages db)"

definition page_at :: "nat \<Rightarrow> nat \<Rightarrow> wiki_page \<Rightarrow> bool" where
  "page_at i v p \<longleftrightarrow> wp_id p = i \<and> wp_vault p = v"

definition slug_taken :: "nat option \<Rightarrow> nat \<Rightarrow> pystr \<Rightarrow> wiki_db \<Rightarrow> bool" where
  "slug_taken i v slug db \<longleftrightarrow>
     list_ex (\<lambda>p. Some (wp_id p) \<noteq> i \<and> wp_vault p = v \<and> wp_slug p = slug) (wiki_pages db)"

definition log_activity :: "nat \<Rightarrow> string \<Rightarrow> nat \<Rightarrow> nat option \<Rightarrow> wiki_db \<Rightarrow> wiki_db" where
  "log_activity v action i user db = db\<lparr>wiki_activity := wiki_activity db @ [(v, action, i, user)]\<rparr>"

text \<open>The first transaction of \<open>create_page\<close>; the parent's foreign key is checked.\<close>

definition insert_page ::
  "word_env \<Rightarrow> nat \<Rightarrow> pystr \<Rightarrow> string \<Rightarrow> pystr option \<Rightarrow> pystr \<Rightarrow> pystr \<Rightarrow> string \<Rightarrow> rat \<Rightarrow> nat option
     \<Rightarrow> wiki_db \<Rightarrow> (wiki_error + nat) \<times> wiki_db" where
  "insert_page env v title ty slug markdown summary status confidence parent db =
     (let s = normalize_slug env (case slug of None \<Rightarrow> title | Some t \<Rightarrow> if t = [] then title else t)
      in if slug_taken None v s db \<or> (case parent of None \<Rightarrow> False | Some p \<Rightarrow> get_page p db = None)
         then (Inl WikiIntegrity, db)
         else (Inr (next_page db),
           db\<lparr>wiki_pages := wiki_pages db @ [\<lparr>wp_id = next_page db, wp_vault = v, wp_parent = parent,
                wp_slug = s, wp_title = title, wp_type = ty, wp_markdown = markdown, wp_summary = summary,
                wp_status = status, wp_confidence = confidence, wp_version = 1\<rparr>],
              next_page := Suc (next_page db)\<rparr>))"

text \<open>
  \<open>INSERT OR IGNORE\<close> of the links in document order. IGNORE covers UNIQUE(source, target),
  not the foreign keys.
\<close>

definition insert_link :: "nat \<Rightarrow> nat \<Rightarrow> nat \<times> pystr \<Rightarrow> page_link list \<Rightarrow> page_link list" where
  "insert_link i v lk ls =
     (if fst lk = i \<or> list_ex (\<lambda>l. pl_source l = i \<and> pl_target l = fst lk) ls then ls
      else ls @ [\<lparr>pl_source = i, pl_target = fst lk, pl_vault = v, pl_text = snd lk\<rparr>])"

definition resolve_links :: "word_env \<Rightarrow> nat \<Rightarrow> pystr \<Rightarrow> wiki_db \<Rightarrow> (nat \<times> pystr) list" where
  "resolve_links env v markdown db =
     [(wp_id p, text). (slug, text) \<leftarrow> parsed_links env markdown,
        p \<leftarrow> (case find (\<lambda>p. wp_vault p = v \<and> wp_slug p = slug) (wiki_pages db) of None \<Rightarrow> [] | Some p \<Rightarrow> [p])]"

text \<open>\<open>snap\<close> is the state in which the slugs were looked up.\<close>

definition sync_page_links ::
  "word_env \<Rightarrow> nat \<Rightarrow> nat \<Rightarrow> pystr \<Rightarrow> wiki_db \<Rightarrow> wiki_db \<Rightarrow> (wiki_error + wiki_db)" where
  "sync_page_links env i v markdown snap db =
     (let resolved = filter (\<lambda>lk. fst lk \<noteq> i) (resolve_links env v markdown snap)
      in if list_ex (\<lambda>lk. get_page (fst lk) db = None) resolved
            \<or> (resolved \<noteq> [] \<and> get_page i db = None) then Inl WikiIntegrity
         else Inr (db\<lparr>page_links := fold (insert_link i v) resolved
                (filter (\<lambda>l. \<not> (pl_source l = i \<and> pl_vault l = v)) (page_links db))\<rparr>))"

text \<open>The rest of \<open>create_page\<close>, two more transactions.\<close>

definition finish_create ::
  "word_env \<Rightarrow> nat \<Rightarrow> nat \<Rightarrow> pystr \<Rightarrow> nat option \<Rightarrow> wiki_db \<Rightarrow> wiki_db \<Rightarrow> (wiki_error + nat) \<times> wiki_db" where
  "finish_create env i v markdown user snap db =
     (let db1 = log_activity v ''page_created'' i user db
      in if markdown = [] then (Inr i, db1)
         else (case sync_page_links env i v markdown snap db1 of
                 Inl e \<Rightarrow> (Inl e, db1) | Inr db2 \<Rightarrow> (Inr i, db2)))"

section \<open>Updates\<close>

record page_patch =
  pp_title :: "pystr option"
  pp_type :: "string option"
  pp_markdown :: "pystr option"
  pp_summary :: "pystr option"
  pp_status :: "string option"
  pp_confidence :: "rat option"
  pp_slug :: "pystr option"
  pp_parent :: "nat option option"

definition patch_empty :: "page_patch \<Rightarrow> bool" where
  "patch_empty b \<longleftrightarrow> pp_title b = None \<and> pp_type b = None \<and> pp_markdown b = None \<and> pp_summary b = None
     \<and> pp_status b = None \<and> pp_confidence b = None \<and> pp_slug b = None \<and> pp_parent b = None"

definition new_slug :: "word_env \<Rightarrow> page_patch \<Rightarrow> pystr option" where
  "new_slug env b =
     map_option (normalize_slug env) (case pp_slug b of Some s \<Rightarrow> Some s
       | None \<Rightarrow> map_option (normalize_slug env) (pp_title b))"

definition patched :: "word_env \<Rightarrow> page_patch \<Rightarrow> wiki_page \<Rightarrow> wiki_page" where
  "patched env b p = p\<lparr>
     wp_title := (case pp_title b of None \<Rightarrow> wp_title p | Some x \<Rightarrow> x),
     wp_type := (case pp_type b of None \<Rightarrow> wp_type p | Some x \<Rightarrow> x),
     wp_markdown := (case pp_markdown b of None \<Rightarrow> wp_markdown p | Some x \<Rightarrow> x),
     wp_summary := (case pp_summary b of None \<Rightarrow> wp_summary p | Some x \<Rightarrow> x),
     wp_status := (case pp_status b of None \<Rightarrow> wp_status p | Some x \<Rightarrow> x),
     wp_confidence := (case pp_confidence b of None \<Rightarrow> wp_confidence p | Some x \<Rightarrow> x),
     wp_slug := (case new_slug env b of None \<Rightarrow> wp_slug p | Some x \<Rightarrow> x),
     wp_parent := (case pp_parent b of None \<Rightarrow> wp_parent p | Some x \<Rightarrow> x),
     wp_version := Suc (wp_version p)\<rparr>"

text \<open>The snapshot of a page as it was read.\<close>

definition snapshot_of :: "nat \<Rightarrow> nat option \<Rightarrow> wiki_page \<Rightarrow> page_version" where
  "snapshot_of n user p = \<lparr>pv_id = n, pv_page = wp_id p, pv_vault = wp_vault p, pv_title = wp_title p,
     pv_markdown = wp_markdown p, pv_summary = wp_summary p, pv_status = wp_status p,
     pv_confidence = wp_confidence p, pv_editor = user\<rparr>"

definition save_version :: "nat \<Rightarrow> nat \<Rightarrow> nat option \<Rightarrow> wiki_db \<Rightarrow> wiki_db \<Rightarrow> wiki_db" where
  "save_version i v user snap db =
     (case find (page_at i v) (wiki_pages snap) of
        None \<Rightarrow> db
      | Some p \<Rightarrow> db\<lparr>page_versions := page_versions db @ [snapshot_of (next_page_version db) user p],
                    next_page_version := Suc (next_page_version db)\<rparr>)"

text \<open>
  \<open>update_page\<close>: the version is read in the state \<open>seen\<close>, the row for the snapshot in the
  state \<open>copied\<close>, both before the first write takes the lock; the UPDATE is pinned to the
  version that was read. The snapshot's foreign key asks for the page. A collision of the slug
  or a missing parent is an IntegrityError, after which the connection is rolled back. An
  update of nothing returns the page.
\<close>

definition update_page ::
  "word_env \<Rightarrow> nat \<Rightarrow> nat \<Rightarrow> nat option \<Rightarrow> nat option \<Rightarrow> page_patch \<Rightarrow> wiki_db \<Rightarrow> wiki_db \<Rightarrow> wiki_db
     \<Rightarrow> (wiki_error + nat option) \<times> wiki_db" where
  "update_page env i v expected user b seen copied db =
     (if patch_empty b then (Inr (map_option wp_id (get_page i db)), db)
      else case find (page_at i v) (wiki_pages seen) of
        None \<Rightarrow> (Inr None, db)
      | Some p \<Rightarrow>
          if expected \<noteq> None \<and> expected \<noteq> Some (wp_version p) then (Inl VersionConflict, db)
          else (let pinned = (\<lambda>q. page_at i v q \<and> wp_version q = wp_version p);
                    db1 = save_version i v user copied db
            in if find (page_at i v) (wiki_pages copied) \<noteq> None \<and> get_page i db = None
               then (Inl WikiIntegrity, db)
               else if rowcount pinned (wiki_pages db) = 0 then (Inl VersionConflict, db)
               else if (case new_slug env b of None \<Rightarrow> False | Some s \<Rightarrow> slug_taken (Some i) v s db)
                   \<or> (case pp_parent b of Some (Some q) \<Rightarrow> get_page q db = None | _ \<Rightarrow> False)
               then (Inl WikiIntegrity, db)
               else let db2 = log_activity v ''page_updated'' i user
                        (db1\<lparr>wiki_pages := update_rows pinned (patched env b) (wiki_pages db1)\<rparr>)
               in (case pp_markdown b of
                     None \<Rightarrow> (Inr (Some i), db2)
                   | Some m \<Rightarrow> (case sync_page_links env i v m db2 db2 of
                         Inl e \<Rightarrow> (Inl e, db) | Inr db3 \<Rightarrow> (Inr (Some i), db3)))))"

text \<open>The foreign keys: children lose their parent, everything else of the page goes.\<close>

definition delete_page :: "nat \<Rightarrow> nat \<Rightarrow> wiki_db \<Rightarrow> bool \<times> wiki_db" where
  "delete_page i v db =
     (if rowcount (page_at i v) (wiki_pages db) = 0 then (False, db)
      else (True, log_activity v ''page_deleted'' i None (db\<lparr>
        wiki_pages := update_rows (\<lambda>p. wp_parent p = Some i) (\<lambda>p. p\<lparr>wp_parent := None\<rparr>)
          (filter (\<lambda>p. wp_id p \<noteq> i) (wiki_pages db)),
        page_versions := filter (\<lambda>w. pv_page w \<noteq> i) (page_versions db),
        page_links := filter (\<lambda>l. pl_source l \<noteq> i \<and> pl_target l \<noteq> i) (page_links db),
        page_files := filter (\<lambda>a. pf_page a \<noteq> i) (page_files db)\<rparr>)))"

text \<open>
  The bulk operations are one transaction, and any error rolls all of it back. The first write
  takes the lock; until then an update still works on what it has read, \<open>seen\<close> and \<open>copied\<close>
  of its page.
\<close>

fun bulk_update ::
  "word_env \<Rightarrow> (nat \<times> wiki_db \<times> wiki_db) list \<Rightarrow> nat \<Rightarrow> page_patch \<Rightarrow> bool \<Rightarrow> wiki_db
     \<Rightarrow> wiki_error + (nat list \<times> wiki_db)" where
  "bulk_update env [] v b locked db = Inr ([], db)"
| "bulk_update env ((i, seen, copied) # is) v b locked db =
     (case update_page env i v None None b (if locked then db else seen) (if locked then db else copied) db of
        (Inl e, _) \<Rightarrow> Inl e
      | (Inr r, db1) \<Rightarrow>
          (case bulk_update env is v b (locked \<or> r \<noteq> None) db1 of
             Inl e \<Rightarrow> Inl e
           | Inr (done, db2) \<Rightarrow> Inr ((case r of None \<Rightarrow> done | Some j \<Rightarrow> j # done), db2)))"

definition bulk_update_pages ::
  "word_env \<Rightarrow> (nat \<times> wiki_db \<times> wiki_db) list \<Rightarrow> nat \<Rightarrow> page_patch \<Rightarrow> wiki_db
     \<Rightarrow> (wiki_error + nat list) \<times> wiki_db" where
  "bulk_update_pages env is v b db =
     (case bulk_update env is v b False db of Inl e \<Rightarrow> (Inl e, db) | Inr (done, db1) \<Rightarrow> (Inr done, db1))"

definition bulk_delete_pages :: "nat list \<Rightarrow> nat \<Rightarrow> wiki_db \<Rightarrow> nat \<times> wiki_db" where
  "bulk_delete_pages is v db =
     fold (\<lambda>i (n, db). case delete_page i v db of (deleted, db1) \<Rightarrow> (if deleted then Suc n else n, db1)) is (0, db)"

section \<open>Attachments\<close>

definition attach_file :: "nat \<Rightarrow> nat \<Rightarrow> nat \<Rightarrow> wiki_db \<Rightarrow> (wiki_error + page_file) \<times> wiki_db" where
  "attach_file i f v db =
     (if get_page i db = None \<or> f \<notin> fst ` set (wiki_files db)
         \<or> list_ex (\<lambda>a. pf_page a = i \<and> pf_file a = f) (page_files db)
      then (Inl WikiIntegrity, db)
      else (let a = \<lparr>pf_page = i, pf_file = f, pf_vault = v\<rparr>
            in (Inr a, db\<lparr>page_files := page_files db @ [a]\<rparr>)))"

text \<open>The route: only the page is compared with the vault; every IntegrityError is a 409.\<close>

definition attach_file_to_page ::
  "nat \<Rightarrow> nat \<Rightarrow> nat \<Rightarrow> wiki_db \<Rightarrow> (http_error + page_file) \<times> wiki_db" where
  "attach_file_to_page i f v db =
     (case get_page i db of
        None \<Rightarrow> (Inl (Http 404), db)
      | Some p \<Rightarrow>
          if wp_vault p \<noteq> v then (Inl (Http 403), db)
          else (case attach_file i f v db of
             (Inl _, db1) \<Rightarrow> (Inl (Http 409), db1) | (Inr a, db1) \<Rightarrow> (Inr a, db1)))"

definition detach_file :: "nat \<Rightarrow> nat \<Rightarrow> nat \<Rightarrow> wiki_db \<Rightarrow> bool \<times> wiki_db" where
  "detach_file i f v db =
     (let p = (\<lambda>a. pf_page a = i \<and> pf_file a = f \<and> pf_vault a = v)
      in (rowcount p (page_files db) \<noteq> 0, db\<lparr>page_files := filter (\<lambda>a. \<not> p a) (page_files db)\<rparr>))"

section \<open>Requests\<close>

datatype page_op =
    InsertPage nat pystr string "pystr option" pystr pystr string rat "nat option"
  | FinishCreate nat nat pystr "nat option" wiki_db
  | UpdatePage nat nat "nat option" "nat option" page_patch wiki_db wiki_db
  | DeletePage nat nat
  | BulkUpdate "(nat \<times> wiki_db \<times> wiki_db) list" nat page_patch
  | BulkDelete "nat list" nat
  | AttachFile nat nat nat
  | DetachFile nat nat nat

fun exec_page :: "word_env \<Rightarrow> page_op \<Rightarrow> wiki_db \<Rightarrow> wiki_db" where
  "exec_page env (InsertPage v t ty s m su st c p) db = snd (insert_page env v t ty s m su st c p db)"
| "exec_page env (FinishCreate i v m u snap) db = snd (finish_create env i v m u snap db)"
| "exec_page env (UpdatePage i v e u b seen copied) db = snd (update_page env i v e u b seen copied db)"
| "exec_page env (DeletePage i v) db = snd (delete_page i v db)"
| "exec_page env (BulkUpdate is v b) db = snd (bulk_update_pages env is v b db)"
| "exec_page env (BulkDelete is v) db = snd (bulk_delete_pages is v db)"
| "exec_page env (AttachFile i f v) db = snd (attach_file_to_page i f v db)"
| "exec_page env (DetachFile i f v) db = snd (detach_file i f v db)"

text \<open>
  What a request may have read: earlier states, the row for the snapshot not before the
  version. \<open>create_page\<close> goes on with a page it has inserted.
\<close>

definition read_before :: "wiki_db \<Rightarrow> wiki_db \<Rightarrow> wiki_db list \<Rightarrow> bool" where
  "read_before seen copied tr \<longleftrightarrow> (\<exists>n m. m \<le> n \<and> n < length tr \<and> seen = tr ! n \<and> copied = tr ! m)"

fun page_allowed :: "page_op \<Rightarrow> wiki_db list \<Rightarrow> bool" where
  "page_allowed (UpdatePage i v e u b seen copied) tr \<longleftrightarrow> read_before seen copied tr"
| "page_allowed (BulkUpdate is v b) tr \<longleftrightarrow> (\<forall>(i, seen, copied) \<in> set is. read_before seen copied tr)"
| "page_allowed (FinishCreate i v m u snap) tr \<longleftrightarrow>
     snap \<in> set tr \<and> (\<exists>db \<in> set tr. \<exists>p \<in> set (wiki_pages db). page_at i v p)"
| "page_allowed _ tr \<longleftrightarrow> True"

definition empty_wiki :: "(nat \<times> nat) list \<Rightarrow> wiki_db" where
  "empty_wiki fs = \<lparr>wiki_pages = [], page_versions = [], page_links = [], page_files = [],
     wiki_files = fs, wiki_activity = [], next_page = 1, next_page_version = 1\<rparr>"

abbreviation wiki_trace :: "word_env \<Rightarrow> (nat \<times> nat) list \<Rightarrow> wiki_db list \<Rightarrow> bool" where
  "wiki_trace env fs \<equiv> trace (exec_page env) page_allowed (empty_wiki fs)"

end
