(* ===== verification/Wiki_Page_Invariants.thy ===== *)
theory Wiki_Page_Invariants
  imports Wiki_Pages
begin

text \<open>
  What the requests on wiki pages keep, whatever they have read before: well-formed tables,
  and a history that holds every content a page ever had.
\<close>

section \<open>The tables of pages and versions\<close>

definition versions_of :: "wiki_db \<Rightarrow> nat \<Rightarrow> page_version list" where
  "versions_of db i = filter (\<lambda>w. pv_page w = i) (page_versions db)"

definition pages_ok :: "wiki_db \<Rightarrow> bool" where
  "pages_ok db \<longleftrightarrow> distinct (map wp_id (wiki_pages db))
     \<and> distinct (map (\<lambda>p. (wp_vault p, wp_slug p)) (wiki_pages db))
     \<and> (\<forall>p \<in> set (wiki_pages db). wp_id p < next_page db
          \<and> wp_version p = Suc (length (versions_of db (wp_id p)))
          \<and> (\<forall>q. wp_parent p = Some q \<longrightarrow> q \<in> wp_id ` set (wiki_pages db)))
     \<and> (\<forall>w \<in> set (page_versions db). pv_page w \<in> wp_id ` set (wiki_pages db))"

lemma pages_okI:
  assumes "distinct (map wp_id (wiki_pages db))" and "distinct (map (\<lambda>p. (wp_vault p, wp_slug p)) (wiki_pages db))"
    and "\<And>p. p \<in> set (wiki_pages db) \<Longrightarrow> wp_id p < next_page db"
    and "\<And>p. p \<in> set (wiki_pages db) \<Longrightarrow> wp_version p = Suc (length (versions_of db (wp_id p)))"
    and "\<And>p q. p \<in> set (wiki_pages db) \<Longrightarrow> wp_parent p = Some q \<Longrightarrow> q \<in> wp_id ` set (wiki_pages db)"
    and "\<And>w. w \<in> set (page_versions db) \<Longrightarrow> pv_page w \<in> wp_id ` set (wiki_pages db)"
  shows "pages_ok db"
  using assms by (simp add: pages_ok_def)

lemma pages_okD:
  assumes "pages_ok db"
  shows "distinct (map wp_id (wiki_pages db))" "distinct (map (\<lambda>p. (wp_vault p, wp_slug p)) (wiki_pages db))"
    "\<And>p. p \<in> set (wiki_pages db) \<Longrightarrow> wp_id p < next_page db"
    "\<And>p. p \<in> set (wiki_pages db) \<Longrightarrow> wp_version p = Suc (length (versions_of db (wp_id p)))"
    "\<And>p q. p \<in> set (wiki_pages db) \<Longrightarrow> wp_parent p = Some q \<Longrightarrow> q \<in> wp_id ` set (wiki_pages db)"
    "\<And>w. w \<in> set (page_versions db) \<Longrightarrow> pv_page w \<in> wp_id ` set (wiki_pages db)"
  using assms by (auto simp: pages_ok_def)

lemma page_unique:
  "pages_ok db \<Longrightarrow> p \<in> set (wiki_pages db) \<Longrightarrow> q \<in> set (wiki_pages db) \<Longrightarrow> wp_id p = wp_id q \<Longrightarrow> p = q"
  using distinct_key_eq [OF pages_okD(1)] by blast

lemma get_page_iff: "get_page i db \<noteq> None \<longleftrightarrow> i \<in> wp_id ` set (wiki_pages db)"
  by (auto simp: get_page_def find_None_iff)

lemma get_page_None: "get_page i db = None \<longleftrightarrow> i \<notin> wp_id ` set (wiki_pages db)"
  using get_page_iff by blast

lemma pages_ok_same:
  "pages_ok db \<Longrightarrow> wiki_pages db' = wiki_pages db \<Longrightarrow> page_versions db' = page_versions db \<Longrightarrow>
     next_page db' = next_page db \<Longrightarrow> pages_ok db'"
  by (simp add: pages_ok_def versions_of_def)

section \<open>Histories\<close>

definition page_content :: "wiki_page \<Rightarrow> pystr \<times> pystr \<times> pystr \<times> string \<times> rat" where
  "page_content p = (wp_title p, wp_markdown p, wp_summary p, wp_status p, wp_confidence p)"

definition version_content :: "page_version \<Rightarrow> pystr \<times> pystr \<times> pystr \<times> string \<times> rat" where
  "version_content w = (pv_title w, pv_markdown w, pv_summary w, pv_status w, pv_confidence w)"

text \<open>\<open>t\<close> comes after \<open>s\<close>.\<close>

definition page_history :: "wiki_db \<Rightarrow> wiki_db \<Rightarrow> bool" where
  "page_history s t \<longleftrightarrow> next_page s \<le> next_page t
     \<and> (\<forall>q \<in> set (wiki_pages t). wp_id q < next_page s \<longrightarrow>
          (\<exists>p \<in> set (wiki_pages s). wp_id p = wp_id q)
          \<and> (\<exists>ws. versions_of t (wp_id q) = versions_of s (wp_id q) @ ws))
     \<and> (\<forall>p \<in> set (wiki_pages s). \<forall>q \<in> set (wiki_pages t). wp_id p = wp_id q \<longrightarrow>
          wp_vault p = wp_vault q \<and> wp_version p \<le> wp_version q
          \<and> (wp_version p = wp_version q \<longrightarrow> page_content p = page_content q)
          \<and> (wp_version p < wp_version q \<longrightarrow>
               version_content (versions_of t (wp_id p) ! (wp_version p - 1)) = page_content p))"

lemma page_historyI:
  assumes "next_page s \<le> next_page t"
    and "\<And>q. q \<in> set (wiki_pages t) \<Longrightarrow> wp_id q < next_page s \<Longrightarrow> \<exists>p \<in> set (wiki_pages s). wp_id p = wp_id q"
    and "\<And>q. q \<in> set (wiki_pages t) \<Longrightarrow> wp_id q < next_page s \<Longrightarrow>
        \<exists>ws. versions_of t (wp_id q) = versions_of s (wp_id q) @ ws"
    and "\<And>p q. p \<in> set (wiki_pages s) \<Longrightarrow> q \<in> set (wiki_pages t) \<Longrightarrow> wp_id p = wp_id q \<Longrightarrow>
        wp_vault p = wp_vault q \<and> wp_version p \<le> wp_version q"
    and "\<And>p q. p \<in> set (wiki_pages s) \<Longrightarrow> q \<in> set (wiki_pages t) \<Longrightarrow> wp_id p = wp_id q \<Longrightarrow>
        wp_version p = wp_version q \<Longrightarrow> page_content p = page_content q"
    and "\<And>p q. p \<in> set (wiki_pages s) \<Longrightarrow> q \<in> set (wiki_pages t) \<Longrightarrow> wp_id p = wp_id q \<Longrightarrow>
        wp_version p < wp_version q \<Longrightarrow>
        version_content (versions_of t (wp_id p) ! (wp_version p - 1)) = page_content p"
  shows "page_history s t"
  using assms by (simp add: page_history_def)

lemma page_historyD:
  assumes "page_history s t"
  shows "next_page s \<le> next_page t"
    "\<And>q. q \<in> set (wiki_pages t) \<Longrightarrow> wp_id q < next_page s \<Longrightarrow> \<exists>p \<in> set (wiki_pages s). wp_id p = wp_id q"
    "\<And>q. q \<in> set (wiki_pages t) \<Longrightarrow> wp_id q < next_page s \<Longrightarrow>
        \<exists>ws. versions_of t (wp_id q) = versions_of s (wp_id q) @ ws"
    "\<And>p q. p \<in> set (wiki_pages s) \<Longrightarrow> q \<in> set (wiki_pages t) \<Longrightarrow> wp_id p = wp_id q \<Longrightarrow>
        wp_vault p = wp_vault q \<and> wp_version p \<le> wp_version q"
    "\<And>p q. p \<in> set (wiki_pages s) \<Longrightarrow> q \<in> set (wiki_pages t) \<Longrightarrow> wp_id p = wp_id q \<Longrightarrow>
        wp_version p = wp_version q \<Longrightarrow> page_content p = page_content q"
    "\<And>p q. p \<in> set (wiki_pages s) \<Longrightarrow> q \<in> set (wiki_pages t) \<Longrightarrow> wp_id p = wp_id q \<Longrightarrow>
        wp_version p < wp_version q \<Longrightarrow>
        version_content (versions_of t (wp_id p) ! (wp_version p - 1)) = page_content p"
  using assms by (auto simp: page_history_def)

lemma page_history_refl:
  assumes "pages_ok db"
  shows "page_history db db"
proof -
  have u: "p = q" if "p \<in> set (wiki_pages db)" "q \<in> set (wiki_pages db)" "wp_id p = wp_id q" for p q
    by (rule page_unique [OF assms that])
  show ?thesis
  proof (rule page_historyI)
    fix p q assume "p \<in> set (wiki_pages db)" "q \<in> set (wiki_pages db)" "wp_id p = wp_id q"
    then have "p = q" by (rule u)
    then show "wp_vault p = wp_vault q \<and> wp_version p \<le> wp_version q" "page_content p = page_content q"
      "wp_version p < wp_version q \<Longrightarrow>
         version_content (versions_of db (wp_id p) ! (wp_version p - 1)) = page_content p"
      by simp_all
  next
    fix q assume "q \<in> set (wiki_pages db)"
    then show "\<exists>p \<in> set (wiki_pages db). wp_id p = wp_id q" by (intro bexI [of _ q]) simp_all
    show "\<exists>ws. versions_of db (wp_id q) = versions_of db (wp_id q) @ ws" by (rule exI [of _ "[]"]) simp
  qed simp
qed

lemma page_history_cong:
  assumes "wiki_pages t' = wiki_pages t" and "page_versions t' = page_versions t" and "next_page t' = next_page t"
  shows "page_history s t' \<longleftrightarrow> page_history s t"
  unfolding page_history_def versions_of_def assms ..

lemma page_history_same:
  "pages_ok db \<Longrightarrow> wiki_pages db' = wiki_pages db \<Longrightarrow> page_versions db' = page_versions db \<Longrightarrow>
     next_page db' = next_page db \<Longrightarrow> page_history db db'"
  using page_history_refl [of db] page_history_cong [of db' db db] by blast

lemma page_history_trans:
  assumes ok: "pages_ok s" "pages_ok t" and st: "page_history s t" and tu: "page_history t u"
  shows "page_history s u"
proof (rule page_historyI)
  show "next_page s \<le> next_page u" using page_historyD(1) [OF st] page_historyD(1) [OF tu] by simp
next
  fix r assume r: "r \<in> set (wiki_pages u)" "wp_id r < next_page s"
  then have "wp_id r < next_page t" using page_historyD(1) [OF st] by simp
  from page_historyD(2) [OF tu r(1) this] obtain q where q: "q \<in> set (wiki_pages t)" "wp_id q = wp_id r" by blast
  from page_historyD(3) [OF tu r(1) \<open>wp_id r < next_page t\<close>]
  obtain ws where ws: "versions_of u (wp_id r) = versions_of t (wp_id r) @ ws" by blast
  have qs: "wp_id q < next_page s" using q r by simp
  from page_historyD(2) [OF st q(1) this] q show "\<exists>p \<in> set (wiki_pages s). wp_id p = wp_id r" by simp
  from page_historyD(3) [OF st q(1) qs] q ws
  show "\<exists>ws. versions_of u (wp_id r) = versions_of s (wp_id r) @ ws" by force
next
  fix p r assume pr: "p \<in> set (wiki_pages s)" "r \<in> set (wiki_pages u)" "wp_id p = wp_id r"
  have "wp_id r < next_page s" using pages_okD(3) [OF ok(1) pr(1)] pr(3) by simp
  then have rt: "wp_id r < next_page t" using page_historyD(1) [OF st] by simp
  from page_historyD(2) [OF tu pr(2) this] obtain q where q: "q \<in> set (wiki_pages t)" "wp_id q = wp_id r" by blast
  from page_historyD(3) [OF tu pr(2) rt]
  obtain ws where ws: "versions_of u (wp_id r) = versions_of t (wp_id r) @ ws" by blast
  note pq = page_historyD(4-6) [OF st pr(1) q(1)] and qr = page_historyD(4-6) [OF tu q(1) pr(2)]
  have ids: "wp_id p = wp_id q" using pr(3) q(2) by simp
  show "wp_vault p = wp_vault r \<and> wp_version p \<le> wp_version r" using pq(1) [OF ids] qr(1) [OF q(2)] by simp
  show "page_content p = page_content r" if "wp_version p = wp_version r"
    using that pq(1,2) [OF ids] qr(1,2) [OF q(2)] by simp
  show "version_content (versions_of u (wp_id p) ! (wp_version p - 1)) = page_content p"
    if "wp_version p < wp_version r"
  proof (cases "wp_version p < wp_version q")
    case True
    have "wp_version q = Suc (length (versions_of t (wp_id r)))" using pages_okD(4) [OF ok(2) q(1)] q(2) by simp
    moreover have "0 < wp_version p" using pages_okD(4) [OF ok(1) pr(1)] by simp
    ultimately have "wp_version p - 1 < length (versions_of t (wp_id r))" using True by simp
    then have "versions_of u (wp_id p) ! (wp_version p - 1) = versions_of t (wp_id p) ! (wp_version p - 1)"
      unfolding pr(3) ws by (simp add: nth_append)
    then show ?thesis using pq(3) [OF ids True] by simp
  next
    case False
    then have "wp_version p = wp_version q" using pq(1) [OF ids] by simp
    then show ?thesis using that pq(2) [OF ids] qr(3) [OF q(2)] ids by simp
  qed
qed

section \<open>One request\<close>

abbreviation good_step :: "wiki_db \<Rightarrow> wiki_db \<Rightarrow> bool" where
  "good_step db db' \<equiv> pages_ok db' \<and> page_history db db'"

lemma good_step_refl: "pages_ok db \<Longrightarrow> good_step db db"
  by (simp add: page_history_refl)

lemma good_step_same:
  "pages_ok db \<Longrightarrow> wiki_pages db' = wiki_pages db \<Longrightarrow> page_versions db' = page_versions db \<Longrightarrow>
     next_page db' = next_page db \<Longrightarrow> good_step db db'"
  by (simp add: pages_ok_same page_history_same)

lemma good_step_trans: "pages_ok s \<Longrightarrow> good_step s t \<Longrightarrow> good_step t u \<Longrightarrow> good_step s u"
  using page_history_trans by blast

lemma log_activity_fields [simp]:
  "wiki_pages (log_activity v a i u db) = wiki_pages db" "page_versions (log_activity v a i u db) = page_versions db"
  "next_page (log_activity v a i u db) = next_page db" "page_links (log_activity v a i u db) = page_links db"
  "page_files (log_activity v a i u db) = page_files db" "wiki_files (log_activity v a i u db) = wiki_files db"
  by (simp_all add: log_activity_def)

lemma sync_fields:
  assumes "sync_page_links env i v m snap db = Inr db'"
  shows "wiki_pages db' = wiki_pages db" "page_versions db' = page_versions db" "next_page db' = next_page db"
    "page_files db' = page_files db" "wiki_files db' = wiki_files db"
  using assms by (auto simp: sync_page_links_def Let_def split: if_splits)

lemma insert_page_good:
  assumes ok: "pages_ok db"
  shows "good_step db (snd (insert_page env v title ty slug m su st c parent db))"
proof (cases "fst (insert_page env v title ty slug m su st c parent db)")
  case (Inl e)
  then have "snd (insert_page env v title ty slug m su st c parent db) = db"
    by (auto simp: insert_page_def Let_def split: if_splits)
  then show ?thesis using good_step_refl [OF ok] by simp
next
  case (Inr i)
  let ?s = "normalize_slug env (case slug of None \<Rightarrow> title | Some t \<Rightarrow> if t = [] then title else t)"
  let ?p = "\<lparr>wp_id = next_page db, wp_vault = v, wp_parent = parent, wp_slug = ?s, wp_title = title, wp_type = ty,
      wp_markdown = m, wp_summary = su, wp_status = st, wp_confidence = c, wp_version = 1\<rparr>"
  let ?db = "db\<lparr>wiki_pages := wiki_pages db @ [?p], next_page := Suc (next_page db)\<rparr>"
  have e: "snd (insert_page env v title ty slug m su st c parent db) = ?db" "\<not> slug_taken None v ?s db"
      "\<And>q. parent = Some q \<Longrightarrow> q \<in> wp_id ` set (wiki_pages db)"
    using Inr by (auto simp: insert_page_def get_page_None Let_def split: if_splits)
  have new: "next_page db \<notin> wp_id ` set (wiki_pages db)" using pages_okD(3) [OF ok] by fastforce
  have vs: "versions_of ?db j = versions_of db j" for j by (simp add: versions_of_def)
  have none: "versions_of db (next_page db) = []"
    using pages_okD(6) [OF ok] new by (force simp: versions_of_def filter_empty_conv)
  have "pages_ok ?db"
  proof (rule pages_okI)
    show "distinct (map wp_id (wiki_pages ?db))" using pages_okD(1) [OF ok] new by auto
    show "distinct (map (\<lambda>p. (wp_vault p, wp_slug p)) (wiki_pages ?db))"
      using pages_okD(2) [OF ok] e(2) by (auto simp: slug_taken_def list_ex_iff)
    show "q \<in> wp_id ` set (wiki_pages ?db)" if "p \<in> set (wiki_pages ?db)" "wp_parent p = Some q" for p q
      using that pages_okD(5) [OF ok] e(3) by auto
    show "wp_version p = Suc (length (versions_of ?db (wp_id p)))" if "p \<in> set (wiki_pages ?db)" for p
      unfolding vs using that pages_okD(4) [OF ok] none by auto
  qed (use pages_okD(3,6) [OF ok] in \<open>auto simp: less_SucI\<close>)
  moreover have "page_history db ?db"
  proof (rule page_historyI)
    fix q assume q: "q \<in> set (wiki_pages ?db)" "wp_id q < next_page db"
    then show "\<exists>p \<in> set (wiki_pages db). wp_id p = wp_id q" by auto
    show "\<exists>ws. versions_of ?db (wp_id q) = versions_of db (wp_id q) @ ws"
      unfolding vs by (rule exI [of _ "[]"]) simp
  next
    fix p q assume p: "p \<in> set (wiki_pages db)" "q \<in> set (wiki_pages ?db)" "wp_id p = wp_id q"
    have "wp_id p \<noteq> next_page db" using new p(1) by (metis imageI)
    then have "q \<noteq> ?p" using p(3) by auto
    then have "q \<in> set (wiki_pages db)" using p(2) by simp
    with p page_unique [OF ok] have "p = q" by blast
    then show "wp_vault p = wp_vault q \<and> wp_version p \<le> wp_version q" "page_content p = page_content q"
      "wp_version p < wp_version q \<Longrightarrow>
         version_content (versions_of ?db (wp_id p) ! (wp_version p - 1)) = page_content p"
      by simp_all
  qed simp
  ultimately show ?thesis unfolding e(1) by blast
qed

lemma patched_fields [simp]:
  "wp_id (patched env b p) = wp_id p" "wp_vault (patched env b p) = wp_vault p"
  "wp_version (patched env b p) = Suc (wp_version p)"
  by (simp_all add: patched_def)

lemma snapshot_fields [simp]:
  "pv_page (snapshot_of n u p) = wp_id p" "version_content (snapshot_of n u p) = page_content p"
  by (simp_all add: snapshot_of_def version_content_def page_content_def)

text \<open>The write of an update, when the snapshot has the content of the row.\<close>

lemma bump_good:
  assumes ok: "pages_ok db" and q0: "q0 \<in> set (wiki_pages db)" "page_at i v q0"
    and c: "wp_id c = i" "page_content c = page_content q0"
    and pages: "wiki_pages db' = update_rows (\<lambda>q. q = q0) (patched env b) (wiki_pages db)"
    and vers: "page_versions db' = page_versions db @ [snapshot_of n user c]"
    and next_same: "next_page db' = next_page db"
    and slug: "\<And>s. new_slug env b = Some s \<Longrightarrow> \<not> slug_taken (Some i) v s db"
    and parent: "\<And>q. pp_parent b = Some (Some q) \<Longrightarrow> q \<in> wp_id ` set (wiki_pages db)"
  shows "good_step db db'"
proof -
  have i: "wp_id q0 = i" "wp_vault q0 = v" using q0(2) by (simp_all add: page_at_def)
  have one: "q = q0" if "q \<in> set (wiki_pages db)" "wp_id q = i" for q
    using page_unique [OF ok that(1) q0(1)] that(2) i(1) by simp
  have ids: "map wp_id (wiki_pages db') = map wp_id (wiki_pages db)"
    unfolding pages by (rule map_key_update_rows) simp
  have idset: "wp_id ` set (wiki_pages db') = wp_id ` set (wiki_pages db)" using ids by (metis set_map)
  have vs: "versions_of db' j = (if j = i then versions_of db j @ [snapshot_of n user c] else versions_of db j)" for j
    using c(1) by (simp add: versions_of_def vers)
  have rows: "\<exists>q \<in> set (wiki_pages db). r = (if q = q0 then patched env b q else q)" if "r \<in> set (wiki_pages db')" for r
    using that unfolding pages set_update_rows by auto
  have "pages_ok db'"
  proof (rule pages_okI)
    show "distinct (map wp_id (wiki_pages db'))" unfolding ids by (rule pages_okD(1) [OF ok])
    show "distinct (map (\<lambda>p. (wp_vault p, wp_slug p)) (wiki_pages db'))"
      unfolding pages
    proof (rule distinct_map_update_one [OF pages_okD(2) [OF ok]])
      fix r r' assume r: "r \<in> set (wiki_pages db)" "r' \<in> set (wiki_pages db)" "r = q0" "r' \<noteq> q0"
      have "(wp_vault r, wp_slug r) \<noteq> (wp_vault r', wp_slug r')"
        using distinct_key_eq [OF pages_okD(2) [OF ok] r(1,2)] r(3,4) by blast
      moreover have "wp_id r' \<noteq> i" using one r by blast
      ultimately show "(wp_vault (patched env b r), wp_slug (patched env b r)) \<noteq> (wp_vault r', wp_slug r')"
        using slug r(2,3) i by (auto simp: patched_def slug_taken_def list_ex_iff split: option.split)
    qed simp
    fix r assume r: "r \<in> set (wiki_pages db')"
    then obtain q where q: "q \<in> set (wiki_pages db)" "r = (if q = q0 then patched env b q else q)" using rows by blast
    have idr: "wp_id r = wp_id q" using q(2) by simp
    show "wp_id r < next_page db'" using pages_okD(3) [OF ok q(1)] idr next_same by simp
    show "wp_version r = Suc (length (versions_of db' (wp_id r)))"
    proof (cases "q = q0")
      case True
      then show ?thesis using pages_okD(4) [OF ok q(1)] i(1) q(2) by (simp add: vs)
    next
      case False
      then have "wp_id q \<noteq> i" "r = q" using one [OF q(1)] q(2) by auto
      then show ?thesis using pages_okD(4) [OF ok q(1)] by (simp add: vs)
    qed
    show "k \<in> wp_id ` set (wiki_pages db')" if "wp_parent r = Some k" for k
      unfolding idset using that pages_okD(5) [OF ok q(1)] parent q(2)
      by (cases "pp_parent b"; cases "q = q0") (auto simp: patched_def)
  next
    fix w assume "w \<in> set (page_versions db')"
    then show "pv_page w \<in> wp_id ` set (wiki_pages db')"
      unfolding idset vers using pages_okD(6) [OF ok] q0(1) i(1) c(1) by auto
  qed
  moreover have "page_history db db'"
  proof (rule page_historyI)
    fix r assume r: "r \<in> set (wiki_pages db')"
    then show "\<exists>p \<in> set (wiki_pages db). wp_id p = wp_id r" using idset by (metis imageE imageI)
    show "\<exists>ws. versions_of db' (wp_id r) = versions_of db (wp_id r) @ ws"
      unfolding vs by (rule exI [of _ "if wp_id r = i then [snapshot_of n user c] else []"]) simp
  next
    fix p r assume pr: "p \<in> set (wiki_pages db)" "r \<in> set (wiki_pages db')" "wp_id p = wp_id r"
    obtain q where q: "q \<in> set (wiki_pages db)" "r = (if q = q0 then patched env b q else q)" using rows pr(2) by blast
    have "p = q" by (rule page_unique [OF ok pr(1) q(1)]) (use pr(3) q(2) in simp)
    then have r: "r = (if p = q0 then patched env b p else p)" using q(2) by simp
    show "wp_vault p = wp_vault r \<and> wp_version p \<le> wp_version r" unfolding r by simp
    show "page_content p = page_content r" if "wp_version p = wp_version r"
      using that unfolding r by (simp split: if_splits)
    show "version_content (versions_of db' (wp_id p) ! (wp_version p - 1)) = page_content p"
      if "wp_version p < wp_version r"
    proof -
      have "p = q0" using that unfolding r by (simp split: if_splits)
      then show ?thesis using pages_okD(4) [OF ok pr(1)] i(1) c(2) by (simp add: vs nth_append)
    qed
  qed (simp add: next_same)
  ultimately show ?thesis by blast
qed

lemma delete_page_good:
  assumes ok: "pages_ok db"
  shows "good_step db (snd (delete_page i v db))"
proof (cases "rowcount (page_at i v) (wiki_pages db) = 0")
  case True
  then show ?thesis using good_step_refl [OF ok] by (simp add: delete_page_def)
next
  case False
  let ?db = "snd (delete_page i v db)"
  let ?f = "\<lambda>p. if wp_parent p = Some i then p\<lparr>wp_parent := None\<rparr> else p"
  have pages: "wiki_pages ?db = map ?f (filter (\<lambda>p. wp_id p \<noteq> i) (wiki_pages db))"
      "page_versions ?db = filter (\<lambda>w. pv_page w \<noteq> i) (page_versions db)" "next_page ?db = next_page db"
    using False by (simp_all add: delete_page_def update_rows_def)
  have vs: "versions_of ?db j = versions_of db j" if "j \<noteq> i" for j
    unfolding versions_of_def pages filter_filter by (rule filter_cong) (use that in auto)
  have f: "wp_id (?f p) = wp_id p" "wp_vault (?f p) = wp_vault p" "wp_slug (?f p) = wp_slug p"
      "wp_version (?f p) = wp_version p" "page_content (?f p) = page_content p" for p
    by (simp_all add: page_content_def)
  have rows: "\<exists>q \<in> set (wiki_pages db). wp_id q \<noteq> i \<and> r = ?f q" if "r \<in> set (wiki_pages ?db)" for r
    using that unfolding pages by auto
  have idset: "wp_id ` set (wiki_pages ?db) = wp_id ` set (wiki_pages db) - {i}"
    unfolding pages set_map image_image f by auto
  have "pages_ok ?db"
  proof (rule pages_okI)
    show "distinct (map wp_id (wiki_pages ?db))"
      unfolding pages map_map comp_def f by (rule distinct_map_filter [OF pages_okD(1) [OF ok]])
    show "distinct (map (\<lambda>p. (wp_vault p, wp_slug p)) (wiki_pages ?db))"
      unfolding pages map_map comp_def f by (rule distinct_map_filter [OF pages_okD(2) [OF ok]])
    fix r assume "r \<in> set (wiki_pages ?db)"
    then obtain q where q: "q \<in> set (wiki_pages db)" "wp_id q \<noteq> i" "r = ?f q" using rows by blast
    show "wp_id r < next_page ?db" using pages_okD(3) [OF ok q(1)] unfolding q(3) f pages .
    show "wp_version r = Suc (length (versions_of ?db (wp_id r)))"
      using pages_okD(4) [OF ok q(1)] unfolding q(3) f by (simp add: vs q(2))
    show "k \<in> wp_id ` set (wiki_pages ?db)" if "wp_parent r = Some k" for k
      unfolding idset using that pages_okD(5) [OF ok q(1)] unfolding q(3) by (simp split: if_splits)
  next
    fix w assume "w \<in> set (page_versions ?db)"
    then have "w \<in> set (page_versions db)" "pv_page w \<noteq> i" by (simp_all add: pages(2))
    then show "pv_page w \<in> wp_id ` set (wiki_pages ?db)" unfolding idset using pages_okD(6) [OF ok] by simp
  qed
  moreover have "page_history db ?db"
  proof (rule page_historyI)
    fix r assume "r \<in> set (wiki_pages ?db)"
    then obtain q where q: "q \<in> set (wiki_pages db)" "wp_id q \<noteq> i" "r = ?f q" using rows by blast
    then show "\<exists>p \<in> set (wiki_pages db). wp_id p = wp_id r" unfolding q(3) f by blast
    show "\<exists>ws. versions_of ?db (wp_id r) = versions_of db (wp_id r) @ ws"
      unfolding q(3) f vs [OF q(2)] by (rule exI [of _ "[]"]) simp
  next
    fix p r assume pr: "p \<in> set (wiki_pages db)" "r \<in> set (wiki_pages ?db)" "wp_id p = wp_id r"
    obtain q where q: "q \<in> set (wiki_pages db)" "r = ?f q" using rows pr(2) by blast
    have "p = q" by (rule page_unique [OF ok pr(1) q(1)]) (use pr(3) in \<open>simp only: q(2) f\<close>)
    then have "r = ?f p" using q(2) by blast
    then show "wp_vault p = wp_vault r \<and> wp_version p \<le> wp_version r" "page_content p = page_content r"
      "wp_version p < wp_version r \<Longrightarrow>
         version_content (versions_of ?db (wp_id p) ! (wp_version p - 1)) = page_content p"
      by (simp_all only: f order_refl)
  qed (simp add: pages)
  ultimately show ?thesis by blast
qed

section \<open>Updates\<close>

abbreviation update_write :: "word_env \<Rightarrow> nat \<Rightarrow> nat \<Rightarrow> nat option \<Rightarrow> page_patch \<Rightarrow> nat \<Rightarrow> wiki_db \<Rightarrow> wiki_db \<Rightarrow> wiki_db" where
  "update_write env i v u b n copied db \<equiv>
     log_activity v ''page_updated'' i u ((save_version i v u copied db)\<lparr>wiki_pages :=
       update_rows (\<lambda>q. page_at i v q \<and> wp_version q = n) (patched env b) (wiki_pages db)\<rparr>)"

lemma save_version_fields [simp]:
  "wiki_pages (save_version i v u copied db) = wiki_pages db" "next_page (save_version i v u copied db) = next_page db"
  "page_links (save_version i v u copied db) = page_links db" "page_files (save_version i v u copied db) = page_files db"
  "wiki_files (save_version i v u copied db) = wiki_files db"
  by (simp_all add: save_version_def split: option.split)

lemma update_page_cases:
  assumes "update_page env i v e u b seen copied db = (r, db')"
  obtains (same) "db' = db" "patch_empty b \<or> r = Inr None \<or> r = Inl VersionConflict \<or> r = Inl WikiIntegrity"
  | (written) p q where "r = Inr (Some i)" "\<not> patch_empty b" "find (page_at i v) (wiki_pages seen) = Some p"
      "e = None \<or> e = Some (wp_version p)" "q \<in> set (wiki_pages db)" "page_at i v q" "wp_version q = wp_version p"
      "\<And>s. new_slug env b = Some s \<Longrightarrow> \<not> slug_taken (Some i) v s db"
      "\<And>k. pp_parent b = Some (Some k) \<Longrightarrow> k \<in> wp_id ` set (wiki_pages db)"
      "case pp_markdown b of None \<Rightarrow> db' = update_write env i v u b (wp_version p) copied db
       | Some m \<Rightarrow> sync_page_links env i v m (update_write env i v u b (wp_version p) copied db)
           (update_write env i v u b (wp_version p) copied db) = Inr db'"
proof (cases "patch_empty b")
  case True
  then show ?thesis using assms same by (simp add: update_page_def)
next
  case ne: False
  show ?thesis
  proof (cases "find (page_at i v) (wiki_pages seen)")
    case None
    then show ?thesis using assms ne same by (simp add: update_page_def)
  next
    case (Some p)
    let ?pin = "\<lambda>q. page_at i v q \<and> wp_version q = wp_version p"
    let ?w = "update_write env i v u b (wp_version p) copied db"
    let ?bad = "(case new_slug env b of None \<Rightarrow> False | Some s \<Rightarrow> slug_taken (Some i) v s db)
                   \<or> (case pp_parent b of Some (Some q) \<Rightarrow> get_page q db = None | _ \<Rightarrow> False)"
    have eq: "(r, db') = (if e \<noteq> None \<and> e \<noteq> Some (wp_version p) then (Inl VersionConflict, db)
        else if find (page_at i v) (wiki_pages copied) \<noteq> None \<and> get_page i db = None then (Inl WikiIntegrity, db)
        else if rowcount ?pin (wiki_pages db) = 0 then (Inl VersionConflict, db)
        else if ?bad then (Inl WikiIntegrity, db)
        else (case pp_markdown b of None \<Rightarrow> (Inr (Some i), ?w)
              | Some m \<Rightarrow> (case sync_page_links env i v m ?w ?w of Inl x \<Rightarrow> (Inl x, db) | Inr db3 \<Rightarrow> (Inr (Some i), db3))))"
      unfolding assms [symmetric] update_page_def if_not_P [OF ne] Some option.case Let_def save_version_fields ..
    have sync_err: "x = WikiIntegrity" if "sync_page_links env i v m ?w ?w = Inl x" for m x
      using that by (auto simp: sync_page_links_def Let_def split: if_splits)
    show ?thesis
    proof (cases "(e \<noteq> None \<and> e \<noteq> Some (wp_version p)) \<or> (find (page_at i v) (wiki_pages copied) \<noteq> None \<and> get_page i db = None)
        \<or> rowcount ?pin (wiki_pages db) = 0 \<or> ?bad")
      case True
      then have "db' = db" "r = Inl VersionConflict \<or> r = Inl WikiIntegrity" using eq by (simp_all only: split: if_splits) simp_all
      then show ?thesis using same by blast
    next
      case False
      then have eq': "(r, db') = (case pp_markdown b of None \<Rightarrow> (Inr (Some i), ?w)
              | Some m \<Rightarrow> (case sync_page_links env i v m ?w ?w of Inl x \<Rightarrow> (Inl x, db) | Inr db3 \<Rightarrow> (Inr (Some i), db3)))"
        using eq by (simp only: de_Morgan_disj if_False simp_thms)
      from False obtain q where q: "q \<in> set (wiki_pages db)" "page_at i v q" "wp_version q = wp_version p"
        by (auto simp: table_simps)
      have g: "e = None \<or> e = Some (wp_version p)"
          "\<And>s. new_slug env b = Some s \<Longrightarrow> \<not> slug_taken (Some i) v s db"
          "\<And>k. pp_parent b = Some (Some k) \<Longrightarrow> k \<in> wp_id ` set (wiki_pages db)"
        using False get_page_iff by auto
      show ?thesis
      proof (cases "pp_markdown b")
        case None
        then show ?thesis using eq' by (intro written [OF _ ne Some g(1) q g(2,3)]) simp_all
      next
        case md: (Some m)
        show ?thesis
        proof (cases "sync_page_links env i v m ?w ?w")
          case (Inl x)
          then show ?thesis using eq' md sync_err same by simp
        next
          case (Inr db3)
          then show ?thesis using eq' md by (intro written [OF _ ne Some g(1) q g(2,3)]) simp_all
        qed
      qed
    qed
  qed
qed

lemma find_page_at: "find (page_at i v) ps = Some p \<Longrightarrow> p \<in> set ps \<and> page_at i v p"
  by (auto simp: find_Some_iff)

lemma find_page_at_ex: "q \<in> set ps \<Longrightarrow> page_at i v q \<Longrightarrow> \<exists>p. find (page_at i v) ps = Some p"
  by (cases "find (page_at i v) ps") (auto simp: find_None_iff)

lemma pinned_row:
  assumes "pages_ok db" "q \<in> set (wiki_pages db)" "page_at i v q" "wp_version q = n"
  shows "update_rows (\<lambda>r. page_at i v r \<and> wp_version r = n) f (wiki_pages db)
    = update_rows (\<lambda>r. r = q) f (wiki_pages db)"
proof -
  have "(page_at i v r \<and> wp_version r = n) = (r = q)" if r: "r \<in> set (wiki_pages db)" for r
    using page_unique [OF assms(1) r assms(2)] assms(3,4) by (auto simp: page_at_def)
  then show ?thesis unfolding update_rows_def by (intro map_cong) simp_all
qed

text \<open>
  Whatever was read: when the pinned row is there, the snapshot taken before it has its
  content, since no version of a page has two contents.
\<close>

lemma update_page_good:
  assumes ok: "pages_ok seen" "pages_ok copied" "pages_ok db"
    and hist: "page_history seen copied" "page_history copied db" "page_history seen db"
  shows "good_step db (snd (update_page env i v e u b seen copied db))"
proof -
  obtain r db' where upd: "update_page env i v e u b seen copied db = (r, db')" by fastforce
  then show ?thesis
  proof (cases rule: update_page_cases)
    case same
    then show ?thesis using good_step_refl [OF ok(3)] upd by simp
  next
    case (written p q)
    have p: "p \<in> set (wiki_pages seen)" "page_at i v p" using find_page_at [OF written(3)] by simp_all
    have i: "wp_id p = i" "wp_id q = i" "wp_vault q = v" using p(2) written(6) by (simp_all add: page_at_def)
    have "wp_id q < next_page copied"
      using pages_okD(3) [OF ok(1) p(1)] page_historyD(1) [OF hist(1)] i by simp
    from page_historyD(2) [OF hist(2) written(5) this] obtain c0 where
      c0: "c0 \<in> set (wiki_pages copied)" "wp_id c0 = wp_id q" by blast
    then have "page_at i v c0"
      using page_historyD(4) [OF hist(2) c0(1) written(5) c0(2)] i by (simp add: page_at_def)
    from find_page_at_ex [OF c0(1) this] obtain c where c: "find (page_at i v) (wiki_pages copied) = Some c" by blast
    have c': "c \<in> set (wiki_pages copied)" "wp_id c = i" using find_page_at [OF c] by (simp_all add: page_at_def)
    have "wp_version p \<le> wp_version c" "wp_version c \<le> wp_version q"
      using page_historyD(4) [OF hist(1) p(1) c'(1)] page_historyD(4) [OF hist(2) c'(1) written(5)] i c'(2) by simp_all
    then have "page_content c = page_content q"
      using page_historyD(5) [OF hist(2) c'(1) written(5)] i c'(2) written(7) by simp
    note bump = bump_good [OF ok(3) written(5,6) c'(2) this _ _ _ written(8,9), where n = "next_page_version db" and user = u]
    let ?w = "update_write env i v u b (wp_version p) copied db"
    have w: "good_step db ?w"
      by (rule bump) (simp_all add: pinned_row [OF ok(3) written(5,6,7)] save_version_def c)
    show ?thesis
    proof (cases "pp_markdown b")
      case None
      then show ?thesis using written(10) w upd by simp
    next
      case (Some m)
      then have "sync_page_links env i v m ?w ?w = Inr db'" using written(10) by simp
      note f = sync_fields(1-3) [OF this]
      have "good_step ?w db'" by (rule good_step_same) (use w f in simp_all)
      then show ?thesis using good_step_trans [OF ok(3) w] upd by simp
    qed
  qed
qed

definition sound_reads :: "wiki_db \<Rightarrow> wiki_db \<Rightarrow> wiki_db \<Rightarrow> bool" where
  "sound_reads seen copied db \<longleftrightarrow> pages_ok seen \<and> pages_ok copied \<and> page_history seen copied
     \<and> page_history copied db \<and> page_history seen db"

lemma sound_update_good:
  "pages_ok db \<Longrightarrow> sound_reads seen copied db \<Longrightarrow> good_step db (snd (update_page env i v e u b seen copied db))"
  using update_page_good unfolding sound_reads_def by blast

lemma sound_reads_now: "pages_ok db \<Longrightarrow> sound_reads db db db"
  unfolding sound_reads_def using page_history_refl by blast

lemma update_page_None: "update_page env i v e u b seen copied db = (Inr None, db') \<Longrightarrow> db' = db"
  by (erule update_page_cases) simp_all

lemma bulk_update_good:
  "pages_ok db \<Longrightarrow> locked \<or> (\<forall>(i, seen, copied) \<in> set is. sound_reads seen copied db) \<Longrightarrow>
     bulk_update env is v b locked db = Inr (done, db') \<Longrightarrow> good_step db db'"
proof (induction env "is" v b locked db arbitrary: "done" rule: bulk_update.induct)
  case (1 env v b locked db)
  then show ?case using good_step_refl by simp
next
  case (2 env i seen copied "is" v b locked db)
  let ?s = "if locked then db else seen" and ?c = "if locked then db else copied"
  from "2.prems"(3) obtain r db1 d where u: "update_page env i v None None b ?s ?c db = (Inr r, db1)"
      and more: "bulk_update env is v b (locked \<or> r \<noteq> None) db1 = Inr (d, db')"
    by (auto split: prod.splits sum.splits option.splits)
  have "sound_reads ?s ?c db" using sound_reads_now [OF "2.prems"(1)] "2.prems"(2) by auto
  from sound_update_good [OF "2.prems"(1) this, of env i v None None b]
  have one: "good_step db db1" unfolding u by simp
  have "(locked \<or> r \<noteq> None) \<or> (\<forall>(i, seen, copied) \<in> set is. sound_reads seen copied db1)"
  proof (cases r)
    case None
    then have "db1 = db" using update_page_None u by blast
    then show ?thesis using "2.prems"(2) by auto
  qed simp
  with "2.IH" [OF u [symmetric] refl _ this more] one have "good_step db1 db'" by blast
  with one show ?case using good_step_trans [OF "2.prems"(1)] by blast
qed

lemma bulk_delete_good:
  assumes "pages_ok db"
  shows "good_step db (snd (bulk_delete_pages is v db))"
proof -
  have "pages_ok d \<Longrightarrow> good_step d (snd (fold (\<lambda>i (n, db). case delete_page i v db of
      (deleted, db1) \<Rightarrow> (if deleted then Suc n else n, db1)) is (n, d)))" for n d
  proof (induction "is" arbitrary: n d)
    case (Cons i "is")
    obtain x d1 where d1: "delete_page i v d = (x, d1)" by fastforce
    have one: "good_step d d1" using delete_page_good [OF Cons.prems, of i v] d1 by simp
    then have "pages_ok d1" by blast
    from Cons.IH [OF this] good_step_trans [OF Cons.prems one] show ?case by (simp add: d1)
  qed (simp add: good_step_refl)
  then show ?thesis using assms by (simp add: bulk_delete_pages_def)
qed

lemma attach_fields [simp]:
  "wiki_pages (snd (attach_file i f v db)) = wiki_pages db" "page_versions (snd (attach_file i f v db)) = page_versions db"
  "next_page (snd (attach_file i f v db)) = next_page db" "page_links (snd (attach_file i f v db)) = page_links db"
  by (simp_all add: attach_file_def Let_def)

lemma attach_route_fields [simp]:
  "wiki_pages (snd (attach_file_to_page i f v db)) = wiki_pages db"
  "page_versions (snd (attach_file_to_page i f v db)) = page_versions db"
  "next_page (snd (attach_file_to_page i f v db)) = next_page db"
  "page_links (snd (attach_file_to_page i f v db)) = page_links db"
proof -
  have "snd (attach_file_to_page i f v db) = db \<or> snd (attach_file_to_page i f v db) = snd (attach_file i f v db)"
    by (simp add: attach_file_to_page_def split: option.split prod.split sum.split)
  then show "wiki_pages (snd (attach_file_to_page i f v db)) = wiki_pages db"
    "page_versions (snd (attach_file_to_page i f v db)) = page_versions db"
    "next_page (snd (attach_file_to_page i f v db)) = next_page db"
    "page_links (snd (attach_file_to_page i f v db)) = page_links db"
    using attach_fields [of i f v db] by presburger+
qed

lemma finish_create_fields [simp]:
  "wiki_pages (snd (finish_create env i v m u snap db)) = wiki_pages db"
  "page_versions (snd (finish_create env i v m u snap db)) = page_versions db"
  "next_page (snd (finish_create env i v m u snap db)) = next_page db"
  using sync_fields by (auto simp: finish_create_def Let_def split: sum.split)

lemma exec_page_good:
  assumes "tr \<noteq> []" and "\<And>s. s \<in> set tr \<Longrightarrow> pages_ok s"
    and "\<And>n m. m \<le> n \<Longrightarrow> n < length tr \<Longrightarrow> page_history (tr ! n) (tr ! m)" and "page_allowed c tr"
  shows "good_step (hd tr) (exec_page env c (hd tr))"
proof -
  have hd: "hd tr = tr ! 0" using assms(1) by (simp add: hd_conv_nth)
  have ok: "pages_ok (hd tr)" using assms(1,2) by simp
  have sound: "sound_reads seen copied (hd tr)" if reads: "read_before seen copied tr" for seen copied
  proof -
    obtain n m where "m \<le> n" "n < length tr" "seen = tr ! n" "copied = tr ! m"
      using reads by (auto simp: read_before_def)
    then show ?thesis using assms(2,3) by (simp add: sound_reads_def hd)
  qed
  show ?thesis
  proof (cases c)
    case (UpdatePage i v e u b seen copied)
    then show ?thesis using sound_update_good [OF ok sound] assms(4) by simp
  next
    case (BulkUpdate "is" v b)
    have "False \<or> (\<forall>(i, seen, copied) \<in> set is. sound_reads seen copied (hd tr))"
      using assms(4) sound unfolding BulkUpdate by auto
    note good = bulk_update_good [OF ok this]
    show ?thesis unfolding BulkUpdate exec_page.simps bulk_update_pages_def
      using good good_step_refl [OF ok] by (auto split: sum.split)
  next
    case (FinishCreate i v m u snap)
    have "good_step (hd tr) (snd (finish_create env i v m u snap (hd tr)))"
      by (rule good_step_same) (use assms(1,2) in simp_all)
    then show ?thesis using FinishCreate by simp
  next
    case (AttachFile i f v)
    have "good_step (hd tr) (snd (attach_file_to_page i f v (hd tr)))"
      by (rule good_step_same) (use assms(1,2) in simp_all)
    then show ?thesis using AttachFile by simp
  next
    case (DetachFile i f v)
    have "good_step (hd tr) (snd (detach_file i f v (hd tr)))"
      by (rule good_step_same) (use assms(1,2) in \<open>simp_all add: detach_file_def Let_def\<close>)
    then show ?thesis using DetachFile by simp
  qed (use assms(1,2) insert_page_good delete_page_good bulk_delete_good in simp_all)
qed

interpretation wr: monotone_run "exec_page env" page_allowed "empty_wiki fs" pages_ok page_history for env fs
proof unfold_locales
  show "pages_ok (empty_wiki fs)" by (rule pages_okI) (simp_all add: empty_wiki_def)
  show "page_history s s" if "pages_ok s" for s by (rule page_history_refl [OF that])
  show "page_history s u" if "pages_ok s" "pages_ok t" "page_history s t" "page_history t u" for s t u
    by (rule page_history_trans [OF that])
  show "good_step (hd tr) (exec_page env c (hd tr))"
    if "tr \<noteq> []" "\<And>s. s \<in> set tr \<Longrightarrow> pages_ok s"
      "\<And>n m. m \<le> n \<Longrightarrow> n < length tr \<Longrightarrow> page_history (tr ! n) (tr ! m)" "page_allowed c tr" for tr c
    by (rule exec_page_good [OF that])
qed

section \<open>Links\<close>

definition page_keys :: "wiki_db \<Rightarrow> (nat \<times> nat) set" where
  "page_keys db = (\<lambda>p. (wp_id p, wp_vault p)) ` set (wiki_pages db)"

abbreviation ends :: "page_link \<Rightarrow> nat \<times> nat" where
  "ends l \<equiv> (pl_source l, pl_target l)"

definition links_ok :: "wiki_db \<Rightarrow> bool" where
  "links_ok db \<longleftrightarrow> distinct (map ends (page_links db))
     \<and> (\<forall>l \<in> set (page_links db). (pl_source l, pl_vault l) \<in> page_keys db
          \<and> (pl_target l, pl_vault l) \<in> page_keys db \<and> pl_source l \<noteq> pl_target l)"

lemma links_ok_same:
  "links_ok db \<Longrightarrow> page_keys db \<subseteq> page_keys db' \<Longrightarrow> page_links db' = page_links db \<Longrightarrow> links_ok db'"
  by (auto simp: links_ok_def)

lemma links_ok_keep:
  assumes "links_ok db" and "page_keys db' = page_keys db" and "page_links db' = page_links db"
  shows "links_ok db'"
  using links_ok_same [OF assms(1) _ assms(3)] assms(2) by simp

lemma page_keys_id: "(j, v) \<in> page_keys db \<Longrightarrow> get_page j db \<noteq> None"
  unfolding get_page_iff page_keys_def by force

lemma page_keys_unique: "pages_ok db \<Longrightarrow> (j, v) \<in> page_keys db \<Longrightarrow> (j, w) \<in> page_keys db \<Longrightarrow> v = w"
  using page_unique by (fastforce simp: page_keys_def)

text \<open>A page that is still there is in the vault it was in.\<close>

lemma page_keys_history:
  assumes "page_history s t" "(j, v) \<in> page_keys s" "get_page j t \<noteq> None"
  shows "(j, v) \<in> page_keys t"
proof -
  obtain p where p: "p \<in> set (wiki_pages s)" "wp_id p = j" "wp_vault p = v" using assms(2) by (auto simp: page_keys_def)
  obtain q where q: "q \<in> set (wiki_pages t)" "wp_id q = j" using assms(3) unfolding get_page_iff by blast
  have "wp_vault q = v" using page_historyD(4) [OF assms(1) p(1) q(1)] p q by simp
  then show ?thesis using q by (force simp: page_keys_def)
qed

lemma insert_link_ends:
  assumes "fst lk \<noteq> i"
  shows "distinct (map ends ls) \<Longrightarrow> distinct (map ends (insert_link i v lk ls))"
    and "l \<in> set (insert_link i v lk ls) \<Longrightarrow>
      l \<in> set ls \<or> (pl_source l = i \<and> pl_vault l = v \<and> pl_target l = fst lk)"
    and "(i, j) \<in> ends ` set (insert_link i v lk ls) \<longleftrightarrow> (i, j) \<in> ends ` set ls \<or> j = fst lk"
  using assms by (auto simp: insert_link_def list_ex_iff split: if_splits)

lemma insert_links:
  assumes "\<And>lk. lk \<in> set rs \<Longrightarrow> fst lk \<noteq> i" and "distinct (map ends ls)"
  shows "distinct (map ends (fold (insert_link i v) rs ls))
    \<and> (\<forall>l \<in> set (fold (insert_link i v) rs ls).
         l \<in> set ls \<or> (pl_source l = i \<and> pl_vault l = v \<and> pl_target l \<in> fst ` set rs))
    \<and> (\<forall>j. (i, j) \<in> ends ` set (fold (insert_link i v) rs ls) \<longleftrightarrow> (i, j) \<in> ends ` set ls \<or> j \<in> fst ` set rs)"
  using assms
proof (induction rs arbitrary: ls)
  case (Cons lk rs)
  have i: "fst lk \<noteq> i" and rest: "\<And>lk. lk \<in> set rs \<Longrightarrow> fst lk \<noteq> i" using Cons.prems(1) by auto
  note one = insert_link_ends [OF i]
  note IH = Cons.IH [OF rest one(1) [OF Cons.prems(2)]]
  show ?case unfolding fold.simps comp_def
  proof (intro conjI ballI allI)
    show "distinct (map ends (fold (insert_link i v) rs (insert_link i v lk ls)))" using IH by blast
    show "l \<in> set ls \<or> (pl_source l = i \<and> pl_vault l = v \<and> pl_target l \<in> fst ` set (lk # rs))"
      if "l \<in> set (fold (insert_link i v) rs (insert_link i v lk ls))" for l
      using IH that one(2) [of l v ls] by auto
    fix j
    have "(i, j) \<in> ends ` set (fold (insert_link i v) rs (insert_link i v lk ls)) \<longleftrightarrow>
        (i, j) \<in> ends ` set (insert_link i v lk ls) \<or> j \<in> fst ` set rs" using IH by blast
    then show "(i, j) \<in> ends ` set (fold (insert_link i v) rs (insert_link i v lk ls)) \<longleftrightarrow>
        (i, j) \<in> ends ` set ls \<or> j \<in> fst ` set (lk # rs)"
      unfolding one(3) by (simp add: disj_ac)
  qed
qed simp

lemma resolve_links_iff:
  "lk \<in> set (resolve_links env v m db) \<longleftrightarrow> (\<exists>sl p. (sl, snd lk) \<in> set (parsed_links env m)
     \<and> find (\<lambda>p. wp_vault p = v \<and> wp_slug p = sl) (wiki_pages db) = Some p \<and> fst lk = wp_id p)"
  unfolding resolve_links_def by (cases lk) (force split: option.splits)

lemma resolve_links_keys:
  assumes "lk \<in> set (resolve_links env v m db)"
  shows "(fst lk, v) \<in> page_keys db"
proof -
  obtain sl p where f: "find (\<lambda>p. wp_vault p = v \<and> wp_slug p = sl) (wiki_pages db) = Some p" "fst lk = wp_id p"
    using assms by (auto simp: resolve_links_iff)
  then have "p \<in> set (wiki_pages db)" "wp_vault p = v" by (auto simp: find_Some_iff)
  then show ?thesis using f(2) by (auto simp: page_keys_def)
qed

lemma sync_links_ok:
  assumes sync: "sync_page_links env i v m snap db = Inr db'" and ok: "links_ok db"
    and src: "get_page i db \<noteq> None \<Longrightarrow> (i, v) \<in> page_keys db"
    and tgt: "\<And>j. (j, v) \<in> page_keys snap \<Longrightarrow> get_page j db \<noteq> None \<Longrightarrow> (j, v) \<in> page_keys db"
  shows "links_ok db'"
proof -
  let ?rs = "filter (\<lambda>lk. fst lk \<noteq> i) (resolve_links env v m snap)"
  let ?ls = "filter (\<lambda>l. \<not> (pl_source l = i \<and> pl_vault l = v)) (page_links db)"
  have links: "page_links db' = fold (insert_link i v) ?rs ?ls"
      and there: "\<And>lk. lk \<in> set ?rs \<Longrightarrow> get_page (fst lk) db \<noteq> None" "?rs \<noteq> [] \<Longrightarrow> get_page i db \<noteq> None"
    using sync by (auto simp: sync_page_links_def Let_def list_ex_iff split: if_splits)
  have keys: "page_keys db' = page_keys db" using sync_fields(1) [OF sync] by (simp add: page_keys_def)
  have d: "distinct (map ends ?ls)"
    using ok by (simp add: links_ok_def distinct_map_filter)
  have ne: "fst lk \<noteq> i" if "lk \<in> set ?rs" for lk using that by simp
  note ins = insert_links [OF ne d, where v = v]
  have "(pl_source l, pl_vault l) \<in> page_keys db \<and> (pl_target l, pl_vault l) \<in> page_keys db
      \<and> pl_source l \<noteq> pl_target l" if "l \<in> set (page_links db')" for l
  proof -
    from ins that[unfolded links]
    consider "l \<in> set ?ls" | "pl_source l = i" "pl_vault l = v" "pl_target l \<in> fst ` set ?rs" by blast
    then show ?thesis
    proof cases
      case 1
      then show ?thesis using ok by (simp add: links_ok_def)
    next
      case 2
      from 2(3) obtain lk where lk: "lk \<in> set ?rs" "fst lk = pl_target l" by auto
      have key: "lk \<in> set (resolve_links env v m snap)" using lk(1) by simp
      have t: "(pl_target l, v) \<in> page_keys db"
        using tgt [OF resolve_links_keys [OF key] there(1) [OF lk(1)]] lk(2) by simp
      have "get_page i db \<noteq> None" using there(2) lk(1) by fastforce
      then show ?thesis using src t 2(1,2) ne [OF lk(1)] lk(2) by simp
    qed
  qed
  moreover have "distinct (map ends (page_links db'))"
    unfolding links using ins by blast
  ultimately show ?thesis unfolding links_ok_def keys by blast
qed

lemma update_write_links:
  assumes "links_ok db"
  shows "links_ok (update_write env i v u b n copied db)" "page_keys (update_write env i v u b n copied db) = page_keys db"
proof -
  show keys: "page_keys (update_write env i v u b n copied db) = page_keys db"
  proof -
    have "set (wiki_pages (update_write env i v u b n copied db))
        = (\<lambda>q. if page_at i v q \<and> wp_version q = n then patched env b q else q) ` set (wiki_pages db)"
      by (simp add: set_update_rows)
    then show ?thesis unfolding page_keys_def by (simp only: image_image) (rule image_cong, simp_all)
  qed
  show "links_ok (update_write env i v u b n copied db)" by (rule links_ok_keep [OF assms keys]) simp
qed

lemma update_page_links_ok:
  assumes ok: "links_ok db"
  shows "links_ok (snd (update_page env i v e u b seen copied db))"
proof -
  obtain r db' where upd: "update_page env i v e u b seen copied db = (r, db')" by fastforce
  then show ?thesis
  proof (cases rule: update_page_cases)
    case same
    then show ?thesis using ok upd by simp
  next
    case (written p q)
    let ?w = "update_write env i v u b (wp_version p) copied db"
    note w = update_write_links [OF ok, where env = env and i = i and v = v and u = u and b = b and n = "wp_version p" and copied = copied]
    show ?thesis
    proof (cases "pp_markdown b")
      case None
      then show ?thesis using written(10) w(1) upd by simp
    next
      case (Some m)
      then have sync: "sync_page_links env i v m ?w ?w = Inr db'" using written(10) by simp
      have "(i, v) \<in> page_keys ?w" unfolding w(2) using written(5,6) by (force simp: page_keys_def page_at_def)
      then have "links_ok db'" by (intro sync_links_ok [OF sync w(1)])
      then show ?thesis using upd by simp
    qed
  qed
qed

lemma bulk_update_links:
  "links_ok db \<Longrightarrow> bulk_update env is v b locked db = Inr (done, db') \<Longrightarrow> links_ok db'"
proof (induction env "is" v b locked db arbitrary: "done" rule: bulk_update.induct)
  case (2 env i seen copied "is" v b locked db)
  let ?s = "if locked then db else seen" and ?c = "if locked then db else copied"
  from "2.prems"(2) obtain r db1 d where u: "update_page env i v None None b ?s ?c db = (Inr r, db1)"
      and more: "bulk_update env is v b (locked \<or> r \<noteq> None) db1 = Inr (d, db')"
    by (auto split: prod.splits sum.splits option.splits)
  have "links_ok db1" using update_page_links_ok [OF "2.prems"(1), of env i v None None b ?s ?c] u by simp
  from "2.IH" [OF u [symmetric] refl this more] show ?case .
qed simp

lemma delete_page_links:
  assumes ok: "links_ok db"
  shows "links_ok (snd (delete_page i v db))"
proof (cases "rowcount (page_at i v) (wiki_pages db) = 0")
  case True
  then show ?thesis using ok by (simp add: delete_page_def)
next
  case False
  let ?db = "snd (delete_page i v db)"
  have links: "page_links ?db = filter (\<lambda>l. pl_source l \<noteq> i \<and> pl_target l \<noteq> i) (page_links db)"
    using False by (simp add: delete_page_def)
  have keys: "page_keys ?db = {k \<in> page_keys db. fst k \<noteq> i}"
  proof -
    let ?f = "\<lambda>p. if wp_parent p = Some i then p\<lparr>wp_parent := None\<rparr> else p"
    have "wiki_pages ?db = map ?f (filter (\<lambda>p. wp_id p \<noteq> i) (wiki_pages db))"
      using False by (simp add: delete_page_def update_rows_def)
    moreover have "(wp_id (?f p), wp_vault (?f p)) = (wp_id p, wp_vault p)" for p by simp
    ultimately show ?thesis unfolding page_keys_def by (simp only: set_map image_image) auto
  qed
  show ?thesis using ok unfolding links_ok_def links keys by (simp add: distinct_map_filter)
qed

lemma bulk_delete_links:
  assumes "links_ok db"
  shows "links_ok (snd (bulk_delete_pages is v db))"
proof -
  have "links_ok d \<Longrightarrow> links_ok (snd (fold (\<lambda>i (n, db). case delete_page i v db of
      (deleted, db1) \<Rightarrow> (if deleted then Suc n else n, db1)) is (n, d)))" for n d
  proof (induction "is" arbitrary: n d)
    case (Cons i "is")
    obtain x d1 where d1: "delete_page i v d = (x, d1)" by fastforce
    then have "links_ok d1" using delete_page_links [OF Cons.prems, of i v] by simp
    then show ?case using Cons.IH by (simp add: d1)
  qed simp
  then show ?thesis using assms by (simp add: bulk_delete_pages_def)
qed

lemma insert_page_links:
  "links_ok db \<Longrightarrow> links_ok (snd (insert_page env v title ty slug m su st c parent db))"
  by (erule links_ok_same) (auto simp: insert_page_def page_keys_def Let_def)

lemma finish_create_links:
  assumes tr: "wiki_trace env fs tr" and al: "page_allowed (FinishCreate i v m u snap) tr" and ok: "links_ok (hd tr)"
  shows "links_ok (snd (finish_create env i v m u snap (hd tr)))"
proof -
  let ?d = "log_activity v ''page_created'' i u (hd tr)"
  have d: "page_keys ?d = page_keys (hd tr)" "get_page j ?d = get_page j (hd tr)" for j
    by (simp_all add: page_keys_def get_page_def)
  have okd: "links_ok ?d" by (rule links_ok_keep [OF ok d(1)]) simp
  have kept: "(j, v) \<in> page_keys ?d" if "s \<in> set tr" "(j, v) \<in> page_keys s" "get_page j ?d \<noteq> None" for s j
  proof -
    from that(1) obtain n where "n < length tr" "s = tr ! n" by (metis in_set_conv_nth)
    then have "page_history s (hd tr)" using wr.run_mono [OF tr, of 0 n] trace_nonempty [OF tr] by (simp add: hd_conv_nth)
    then show ?thesis using page_keys_history that(2,3) unfolding d by blast
  qed
  from al obtain s where s: "snap \<in> set tr" "s \<in> set tr" "(i, v) \<in> page_keys s" by (force simp: page_keys_def page_at_def)
  show ?thesis
  proof (cases "sync_page_links env i v m snap ?d")
    case (Inl x)
    then show ?thesis using okd by (simp add: finish_create_def Let_def)
  next
    case (Inr d')
    have "links_ok d'" by (rule sync_links_ok [OF Inr okd kept [OF s(2,3)] kept [OF s(1)]])
    then show ?thesis using okd Inr by (simp add: finish_create_def Let_def)
  qed
qed

lemma exec_page_links:
  assumes tr: "wiki_trace env fs tr" and al: "page_allowed c tr" and ok: "links_ok (hd tr)"
  shows "links_ok (exec_page env c (hd tr))"
proof (cases c)
  case (BulkUpdate "is" v b)
  then show ?thesis using ok bulk_update_links by (auto simp: bulk_update_pages_def split: sum.split)
next
  case (FinishCreate i v m u snap)
  then show ?thesis using finish_create_links [OF tr _ ok] al by simp
next
  case (AttachFile i f v)
  then show ?thesis using links_ok_keep [OF ok] by (simp add: page_keys_def)
next
  case (DetachFile i f v)
  then show ?thesis using links_ok_keep [OF ok] by (simp add: page_keys_def detach_file_def Let_def)
qed (use ok insert_page_links update_page_links_ok delete_page_links bulk_delete_links in simp_all)

lemma run_links_ok:
  assumes "wiki_trace env fs tr"
  shows "s \<in> set tr \<Longrightarrow> links_ok s"
proof (rule trace_invariant [where P = links_ok, OF assms])
  show "links_ok (empty_wiki fs)" by (simp add: links_ok_def empty_wiki_def)
  show "links_ok (exec_page env c (hd tr))"
    if "wiki_trace env fs tr" "\<And>s. s \<in> set tr \<Longrightarrow> links_ok s" "page_allowed c tr" for c tr
    by (rule exec_page_links [OF that(1,3) that(2) [OF trace_hd [OF that(1)]]])
qed

lemma found_slug:
  assumes "pages_ok db"
  shows "find (\<lambda>p. wp_vault p = v \<and> wp_slug p = sl) (wiki_pages db) = Some p \<longleftrightarrow>
    p \<in> set (wiki_pages db) \<and> wp_vault p = v \<and> wp_slug p = sl"
proof -
  have u: "p = q" if "p \<in> set (wiki_pages db)" "q \<in> set (wiki_pages db)" "wp_vault p = wp_vault q" "wp_slug p = wp_slug q" for p q
    using distinct_key_eq [OF pages_okD(2) [OF assms] that(1,2)] that(3,4) by simp
  show ?thesis
  proof (cases "find (\<lambda>p. wp_vault p = v \<and> wp_slug p = sl) (wiki_pages db)")
    case None
    then have "\<not> (q \<in> set (wiki_pages db) \<and> wp_vault q = v \<and> wp_slug q = sl)" for q by (auto simp: find_None_iff)
    then show ?thesis using None by simp
  next
    case (Some q)
    then have "q \<in> set (wiki_pages db)" "wp_vault q = v" "wp_slug q = sl" by (auto simp: find_Some_iff)
    then show ?thesis using Some u by auto
  qed
qed

end
