(* ===== verification/Wiki_Page_Properties.thy ===== *)
theory Wiki_Page_Properties
  imports Wiki_Page_Invariants
begin

text \<open>
  The properties of wiki pages over all runs, and a run in which each is observed.
\<close>

section \<open>Effects of an update\<close>

lemma update_page_version:
  assumes "update_page env i v (Some n) u b seen copied db = (Inr (Some i), t)" "\<not> patch_empty b"
  shows "\<exists>p \<in> set (wiki_pages t). wp_id p = i \<and> wp_version p = Suc n"
  using assms(1)
proof (cases rule: update_page_cases)
  case same
  then show ?thesis using assms(2) by simp
next
  case (written p q)
  let ?w = "update_write env i v u b (wp_version p) copied db"
  have n: "wp_version p = n" using written(4) by simp
  have "patched env b q \<in> set (wiki_pages ?w)"
    using in_update_rows [OF written(5), of "\<lambda>q. page_at i v q \<and> wp_version q = wp_version p" "patched env b"]
      written(6,7) by simp
  moreover have "wiki_pages t = wiki_pages ?w"
    using written(10) sync_fields(1) by (cases "pp_markdown b") auto
  ultimately show ?thesis using written(6,7) n by (intro bexI [of _ "patched env b q"]) (simp_all add: page_at_def)
qed

lemma sync_targets:
  assumes sync: "sync_page_links env i v m snap db = Inr db'" and d: "distinct (map ends (page_links db))"
    and mine: "\<And>l. l \<in> set (page_links db) \<Longrightarrow> pl_source l = i \<Longrightarrow> pl_vault l = v"
    and snap: "wiki_pages snap = wiki_pages db'" and ok: "pages_ok db'"
  shows "(\<exists>l \<in> set (page_links db'). pl_source l = i \<and> pl_target l = j) \<longleftrightarrow>
    j \<noteq> i \<and> (\<exists>p \<in> set (wiki_pages db'). wp_id p = j \<and> wp_vault p = v \<and> wp_slug p \<in> fst ` set (parsed_links env m))"
proof -
  let ?rs = "filter (\<lambda>lk. fst lk \<noteq> i) (resolve_links env v m snap)"
  let ?ls = "filter (\<lambda>l. \<not> (pl_source l = i \<and> pl_vault l = v)) (page_links db)"
  have links: "page_links db' = fold (insert_link i v) ?rs ?ls"
    using sync by (auto simp: sync_page_links_def Let_def split: if_splits)
  have "(i, j) \<in> ends ` set (page_links db') \<longleftrightarrow> (i, j) \<in> ends ` set ?ls \<or> j \<in> fst ` set ?rs"
    unfolding links using insert_links [of ?rs i ?ls v] distinct_map_filter [OF d] by simp
  also have "(i, j) \<in> ends ` set ?ls \<longleftrightarrow> False" using mine by auto
  also have "j \<in> fst ` set ?rs \<longleftrightarrow> j \<noteq> i \<and> j \<in> fst ` set (resolve_links env v m snap)" by auto
  also have "j \<in> fst ` set (resolve_links env v m snap) \<longleftrightarrow>
      (\<exists>p \<in> set (wiki_pages db'). wp_id p = j \<and> wp_vault p = v \<and> wp_slug p \<in> fst ` set (parsed_links env m))"
    (is "?L \<longleftrightarrow> ?R")
  proof
    assume ?L
    then obtain lk where lk: "lk \<in> set (resolve_links env v m snap)" "fst lk = j" by auto
    then show ?R unfolding resolve_links_iff snap found_slug [OF ok] by force
  next
    assume ?R
    then obtain p tx where p: "p \<in> set (wiki_pages db')" "wp_id p = j" "wp_vault p = v"
        "(wp_slug p, tx) \<in> set (parsed_links env m)" by auto
    then have "(j, tx) \<in> set (resolve_links env v m snap)"
      unfolding resolve_links_iff snap found_slug [OF ok] by (intro exI [of _ "wp_slug p"] exI [of _ p]) simp
    then show ?L by force
  qed
  finally have "(i, j) \<in> ends ` set (page_links db') \<longleftrightarrow> j \<noteq> i \<and>
      (\<exists>p \<in> set (wiki_pages db'). wp_id p = j \<and> wp_vault p = v \<and> wp_slug p \<in> fst ` set (parsed_links env m))" by simp
  then show ?thesis by force
qed

section \<open>Properties\<close>

text \<open>
  C21 In every run of page requests, with any interleaving of their reads and writes, the tables stay
  well-formed: ids are unique, a slug is used once per vault, parents exist, a page's version is one
  more than the number of its stored versions, which belong to existing pages; a link joins two
  different pages of its own vault, once.
\<close>

theorem wiki_tables_ok:
  assumes "wiki_trace env fs tr" and "db \<in> set tr"
  shows "pages_ok db \<and> links_ok db"
  using wr.run_ok [OF assms] run_links_ok [OF assms] ..

text \<open>
  C19 The history of a page is complete. When a page was seen at some version, and a later state
  still has the page: it is in the same vault; at the same version its content is the same; at a
  higher version, the content seen is the stored version of that number.
\<close>

theorem page_history_complete:
  assumes "wiki_trace env fs (newer @ s # older)" and "t \<in> set newer"
    and "p \<in> set (wiki_pages s)" "q \<in> set (wiki_pages t)" "wp_id p = wp_id q"
  shows "wp_vault p = wp_vault q \<and> wp_version p \<le> wp_version q
    \<and> (if wp_version p = wp_version q then page_content p = page_content q
       else version_content (versions_of t (wp_id p) ! (wp_version p - 1)) = page_content p)"
proof -
  have "page_history s t" by (rule wr.later [OF assms(1)]) (use assms(2) in simp)
  from page_historyD(4-6) [OF this assms(3-5)] show ?thesis by (cases "wp_version p = wp_version q") auto
qed

text \<open>
  C20 No update is lost: once an update that expected version \<open>n\<close> of a page has been written, no
  other update expecting \<open>n\<close> is, however early it has read the page.
\<close>

theorem no_lost_update:
  assumes tr: "wiki_trace env fs (newer @ t # older)"
    and first: "update_page env i v (Some n) u b seen copied (hd older) = (Inr (Some i), t)"
      "\<not> patch_empty b" "page_allowed (UpdatePage i v (Some n) u b seen copied) older" "older \<noteq> []"
    and second: "\<not> patch_empty b'"
      "page_allowed (UpdatePage i v' (Some n) u' b' seen' copied') (newer @ t # older)"
  shows "fst (update_page env i v' (Some n) u' b' seen' copied' (hd (newer @ t # older))) \<noteq> Inr (Some i)
    \<and> snd (update_page env i v' (Some n) u' b' seen' copied' (hd (newer @ t # older))) = hd (newer @ t # older)"
proof -
  let ?h = "hd (newer @ t # older)"
  have hist: "page_history t ?h" by (rule wr.later [OF tr]) (cases newer; simp)
  obtain p where p: "p \<in> set (wiki_pages t)" "wp_id p = i" "wp_version p = Suc n"
    using update_page_version [OF first(1,2)] by blast
  obtain r db' where upd: "update_page env i v' (Some n) u' b' seen' copied' ?h = (r, db')" by fastforce
  then show ?thesis
  proof (cases rule: update_page_cases)
    case same
    then show ?thesis using upd second(1) by auto
  next
    case (written p' q)
    have "wp_id p = wp_id q" "wp_version q = n" using written(4,6,7) p(2) by (simp_all add: page_at_def)
    then show ?thesis using page_historyD(4) [OF hist p(1) written(5)] p(3) by simp
  qed
qed

text \<open>
  C22 After an update that sets the text of a page, its links are the other pages of the vault whose
  slug is the normalised target of a \<^verbatim>\<open>[[...]]\<close> in the text, and no others.
\<close>

theorem update_page_syncs_links:
  assumes tr: "wiki_trace env fs tr" and al: "page_allowed (UpdatePage i v e u b seen copied) tr"
    and upd: "update_page env i v e u b seen copied (hd tr) = (Inr (Some i), db')"
    and md: "pp_markdown b = Some m"
  shows "(\<exists>l \<in> set (page_links db'). pl_source l = i \<and> pl_target l = j) \<longleftrightarrow>
    j \<noteq> i \<and> (\<exists>p \<in> set (wiki_pages db'). wp_id p = j \<and> wp_vault p = v \<and> wp_slug p \<in> fst ` set (parsed_links env m))"
proof -
  have step: "wiki_trace env fs (db' # tr)"
    using trace_step [OF tr al] upd by simp
  have ok: "pages_ok db'" by (rule wr.run_ok [OF step]) simp
  have links: "links_ok (hd tr)" by (rule run_links_ok [OF tr trace_hd [OF tr]])
  have okp: "pages_ok (hd tr)" by (rule wr.run_ok [OF tr trace_hd [OF tr]])
  have "\<not> patch_empty b" using md by (simp add: patch_empty_def)
  with upd show ?thesis
  proof (cases rule: update_page_cases)
    case same
    then show ?thesis using \<open>\<not> patch_empty b\<close> by simp
  next
    case (written p q)
    let ?w = "update_write env i v u b (wp_version p) copied (hd tr)"
    have sync: "sync_page_links env i v m ?w ?w = Inr db'" using written(10) md by simp
    have w: "wiki_pages ?w = wiki_pages db'" using sync_fields(1) [OF sync] by simp
    have "(i, v) \<in> page_keys (hd tr)" using written(5,6) by (force simp: page_keys_def page_at_def)
    then have mine: "pl_vault l = v" if "l \<in> set (page_links (hd tr))" "pl_source l = i" for l
      using links that page_keys_unique [OF okp] by (auto simp: links_ok_def)
    show ?thesis using sync_targets [OF sync _ _ w ok, of j] mine links by (simp add: links_ok_def)
  qed
qed

section \<open>A run\<close>

text \<open>
  Two pages \<open>a\<close> and \<open>b\<close> of vault 1, then an update of the first with the text \<open>[[b]] [[a]]\<close>.
  A second editor has read the same version.
\<close>

definition plain_words :: word_env where
  "plain_words = \<lparr>we_lower = (\<lambda>t. t), we_word = (\<lambda>c. 97 \<le> c \<and> c \<le> 122)\<rparr>"

definition link_text :: pystr where
  "link_text = [91, 91, 98, 93, 93, 32, 91, 91, 97, 93, 93]"

definition edit_of :: "pystr \<Rightarrow> page_patch" where
  "edit_of m = \<lparr>pp_title = None, pp_type = None, pp_markdown = Some m, pp_summary = None, pp_status = None,
     pp_confidence = None, pp_slug = None, pp_parent = None\<rparr>"

definition insert_of :: "pystr \<Rightarrow> page_op" where
  "insert_of title = InsertPage 1 title ''manual'' None [] [] ''draft'' 0 None"

definition sample_page :: "nat \<Rightarrow> pystr \<Rightarrow> pystr \<Rightarrow> nat \<Rightarrow> wiki_page" where
  "sample_page i t m n = \<lparr>wp_id = i, wp_vault = 1, wp_parent = None, wp_slug = t, wp_title = t,
     wp_type = ''manual'', wp_markdown = m, wp_summary = [], wp_status = ''draft'', wp_confidence = 0,
     wp_version = n\<rparr>"

definition wiki0 :: wiki_db where "wiki0 = empty_wiki [(7, 2)]"

definition wiki1 :: wiki_db where
  "wiki1 = wiki0\<lparr>wiki_pages := [sample_page 1 [97] [] 1], next_page := 2\<rparr>"

definition wiki2 :: wiki_db where
  "wiki2 = wiki1\<lparr>wiki_pages := [sample_page 1 [97] [] 1, sample_page 2 [98] [] 1], next_page := 3\<rparr>"

definition wiki3 :: wiki_db where
  "wiki3 = wiki2\<lparr>wiki_pages := [sample_page 1 [97] link_text 2, sample_page 2 [98] [] 1],
     page_versions := [snapshot_of 1 None (sample_page 1 [97] [] 1)], next_page_version := 2,
     page_links := [\<lparr>pl_source = 1, pl_target = 2, pl_vault = 1, pl_text = [98]\<rparr>],
     wiki_activity := [(1, ''page_updated'', 1, None)]\<rparr>"

lemma sample_page_fields [simp]:
  "wp_id (sample_page i t m n) = i" "wp_vault (sample_page i t m n) = 1" "wp_parent (sample_page i t m n) = None"
  "wp_slug (sample_page i t m n) = t" "wp_version (sample_page i t m n) = n"
  by (simp_all add: sample_page_def)

lemma sample_slugs: "normalize_slug plain_words [97] = [97]" "normalize_slug plain_words [98] = [98]"
  by (simp_all add: normalize_slug_def plain_words_def py_strip_def py_isspace_def strip_dashes_def Let_def)

lemma sample_links: "parsed_links plain_words link_text = [([98], [98]), ([97], [97])]"
  by (simp add: parsed_links_def link_targets_def link_text_def link_at_def parsed_target_def
      sample_slugs py_strip_def py_isspace_def Let_def)

lemma sample_inserts:
  "exec_page plain_words (insert_of [97]) wiki0 = wiki1" "exec_page plain_words (insert_of [98]) wiki1 = wiki2"
  by (simp_all add: insert_of_def insert_page_def wiki0_def wiki1_def wiki2_def empty_wiki_def sample_slugs
      slug_taken_def sample_page_def Let_def)

lemma sample_patch:
  "new_slug plain_words (edit_of m) = None" "pp_parent (edit_of m) = None" "pp_markdown (edit_of m) = Some m"
  "\<not> patch_empty (edit_of m)" "patched plain_words (edit_of m) (sample_page i t m' n) = sample_page i t m (Suc n)"
  by (simp_all add: edit_of_def new_slug_def patch_empty_def patched_def sample_page_def)

lemma wiki3_written:
  "update_page plain_words 1 1 (Some 1) None (edit_of link_text) wiki2 wiki2 wiki2 = (Inr (Some 1), wiki3)"
  by (simp add: update_page_def sample_patch wiki1_def wiki0_def wiki2_def empty_wiki_def page_at_def get_page_def
      rowcount_def save_version_def sync_page_links_def resolve_links_def sample_links insert_link_def
      log_activity_def wiki3_def Let_def numeral_2_eq_2)

lemma wiki_step:
  "wiki_trace env fs (s # tr) \<Longrightarrow> page_allowed c (s # tr) \<Longrightarrow> wiki_trace env fs (exec_page env c s # s # tr)"
  by (drule (1) trace_step) simp

lemma read_newest:
  assumes "s \<in> set tr"
  shows "page_allowed (UpdatePage i v e u b s s) tr"
  using assms by (auto simp: in_set_conv_nth read_before_def)

lemma wiki_run: "wiki_trace plain_words [(7, 2)] [wiki3, wiki2, wiki1, wiki0]"
proof -
  have 0: "wiki_trace plain_words [(7, 2)] [wiki0]" unfolding wiki0_def by (rule trace_start)
  have 1: "wiki_trace plain_words [(7, 2)] [wiki1, wiki0]"
    using wiki_step [OF 0, of "insert_of [97]"] by (simp only: sample_inserts) (simp add: insert_of_def)
  have 2: "wiki_trace plain_words [(7, 2)] [wiki2, wiki1, wiki0]"
    using wiki_step [OF 1, of "insert_of [98]"] by (simp only: sample_inserts) (simp add: insert_of_def)
  have "page_allowed (UpdatePage 1 1 (Some 1) None (edit_of link_text) wiki2 wiki2) [wiki2, wiki1, wiki0]"
    by (rule read_newest) simp
  from wiki_step [OF 2 this] show ?thesis by (simp only: exec_page.simps wiki3_written snd_conv)
qed

lemma wiki_tables_ok_witness: "pages_ok wiki3 \<and> links_ok wiki3 \<and> length (page_links wiki3) = 1"
proof -
  have "length (page_links wiki3) = 1" by (simp add: wiki3_def)
  then show ?thesis using wiki_tables_ok [OF wiki_run, of wiki3] by simp
qed

lemma page_history_complete_witness:
  "version_content (versions_of wiki3 1 ! 0) = page_content (sample_page 1 [97] [] 1)
     \<and> sample_page 1 [97] link_text 2 \<in> set (wiki_pages wiki3)"
proof -
  have run: "wiki_trace plain_words [(7, 2)] ([wiki3] @ wiki2 # [wiki1, wiki0])" using wiki_run by simp
  have "sample_page 1 [97] [] 1 \<in> set (wiki_pages wiki2)" "sample_page 1 [97] link_text 2 \<in> set (wiki_pages wiki3)"
    by (simp_all add: wiki2_def wiki3_def)
  from page_history_complete [OF run _ this] this show ?thesis by simp
qed

lemma no_lost_update_witness:
  "snd (update_page plain_words 1 1 (Some 1) (Some 9) (edit_of [120]) wiki2 wiki2 wiki3) = wiki3"
proof -
  have run: "wiki_trace plain_words [(7, 2)] ([] @ wiki3 # [wiki2, wiki1, wiki0])" using wiki_run by simp
  have first: "update_page plain_words 1 1 (Some 1) None (edit_of link_text) wiki2 wiki2 (hd [wiki2, wiki1, wiki0])
      = (Inr (Some 1), wiki3)" by (simp only: list.sel wiki3_written)
  have al: "page_allowed (UpdatePage 1 1 (Some 1) None (edit_of link_text) wiki2 wiki2) [wiki2, wiki1, wiki0]"
    by (rule read_newest) simp
  have al': "page_allowed (UpdatePage 1 1 (Some 1) (Some 9) (edit_of [120]) wiki2 wiki2) ([] @ [wiki3, wiki2, wiki1, wiki0])"
    by (rule read_newest) simp
  from no_lost_update [OF run first sample_patch(4) al _ sample_patch(4) al'] show ?thesis by simp
qed

lemma update_page_syncs_links_witness:
  "\<exists>l \<in> set (page_links wiki3). pl_source l = 1 \<and> pl_target l = 2"
proof -
  have run: "wiki_trace plain_words [(7, 2)] [wiki2, wiki1, wiki0]"
    using trace_suffix [of _ _ _ "[wiki3]" "[wiki2, wiki1, wiki0]"] wiki_run by simp
  have upd: "update_page plain_words 1 1 (Some 1) None (edit_of link_text) wiki2 wiki2 (hd [wiki2, wiki1, wiki0])
      = (Inr (Some 1), wiki3)" by (simp only: list.sel wiki3_written)
  have al: "page_allowed (UpdatePage 1 1 (Some 1) None (edit_of link_text) wiki2 wiki2) [wiki2, wiki1, wiki0]"
    by (rule read_newest) simp
  have "sample_page 2 [98] [] 1 \<in> set (wiki_pages wiki3)" by (simp add: wiki3_def)
  then have "\<exists>p \<in> set (wiki_pages wiki3). wp_id p = 2 \<and> wp_vault p = 1
      \<and> wp_slug p \<in> fst ` set (parsed_links plain_words link_text)"
    by (intro bexI [of _ "sample_page 2 [98] [] 1"]) (simp_all add: sample_links)
  then show ?thesis using update_page_syncs_links [OF run al upd sample_patch(3), of 2] by simp
qed

text \<open>The attachment of a file of another vault is accepted.\<close>

lemma attach_crosses_vaults:
  "fst (attach_file_to_page 1 7 1 wiki3) = Inr \<lparr>pf_page = 1, pf_file = 7, pf_vault = 1\<rparr> \<and> (7, 2) \<in> set (wiki_files wiki3)"
  by (simp add: attach_file_to_page_def attach_file_def get_page_def wiki3_def wiki2_def wiki1_def wiki0_def empty_wiki_def Let_def)


text \<open>A page may become its own parent.\<close>

lemma parent_unchecked:
  "\<exists>db'. update_page plain_words 1 1 None None (edit_of []\<lparr>pp_parent := Some (Some 1), pp_markdown := None\<rparr>) wiki1 wiki1 wiki1
      = (Inr (Some 1), db') \<and> map wp_parent (wiki_pages db') = [Some 1]"
  by (simp add: update_page_def patch_empty_def new_slug_def edit_of_def wiki1_def wiki0_def empty_wiki_def page_at_def
      get_page_def rowcount_def save_version_def log_activity_def patched_def Let_def)

end
