(* ===== verification/Wiki_Claims.thy ===== *)
theory Wiki_Claims
  imports Wiki_Pages
begin

text \<open>
  Wiki claims, their sources and the lint findings about them:
  \<^verbatim>\<open>backend/app/services/wiki_store.py\<close>, and \<open>_find_or_create_claim\<close> of
  \<^verbatim>\<open>services/wiki_compiler.py\<close>. Claim type, subject, predicate, object, creator and the
  times of updates are left out; \<open>html.unescape\<close> is a parameter.
\<close>

section \<open>State\<close>

datatype claim_status = CActive | CContradicted | CSuperseded | CUnverified | CArchived | CNeedsReview

datatype lint_status = LOpen | LAcknowledged | LResolved | LDismissed | LAutoResolved

record claim =
  cl_id :: nat
  cl_vault :: nat
  cl_page :: "nat option"
  cl_text :: pystr
  cl_norm :: pystr
  cl_source_type :: string
  cl_status :: claim_status
  cl_confidence :: rat

record claim_source =
  cs_claim :: nat
  cs_kind :: string
  cs_file :: "nat option"
  cs_memory :: "nat option"
  cs_label :: "pystr option"
  cs_quote :: "pystr option"

record lint_row =
  fd_id :: nat
  fd_vault :: nat
  fd_type :: string
  fd_severity :: string
  fd_title :: pystr
  fd_details :: pystr
  fd_pages :: "nat list"
  fd_claims :: "nat list"
  fd_status :: lint_status
  fd_origin :: string
  fd_created :: int

record claims_db =
  claims :: "claim list"
  claim_sources :: "claim_source list"
  lint_rows :: "lint_row list"
  next_claim :: nat
  next_lint :: nat

section \<open>Claims and their sources\<close>

definition normalize_claim_text :: "word_env \<Rightarrow> pystr \<Rightarrow> pystr" where
  "normalize_claim_text env text =
     py_strip (squash 32 py_isspace
       (filter (\<lambda>c. we_word env c \<or> py_isspace c) (py_strip (we_lower env text))))"

definition claim_at :: "nat \<Rightarrow> nat \<Rightarrow> claim \<Rightarrow> bool" where
  "claim_at i v c \<longleftrightarrow> cl_id c = i \<and> cl_vault c = v"

definition find_claim_by_text :: "nat \<Rightarrow> pystr \<Rightarrow> claims_db \<Rightarrow> claim option" where
  "find_claim_by_text v t db = find (\<lambda>c. cl_vault c = v \<and> cl_text c = t) (claims db)"

definition find_claim_by_normalized_text :: "word_env \<Rightarrow> nat \<Rightarrow> pystr \<Rightarrow> claims_db \<Rightarrow> claim option" where
  "find_claim_by_normalized_text env v t db =
     (let n = normalize_claim_text env t
      in if n = [] then None else find (\<lambda>c. cl_vault c = v \<and> cl_norm c = n) (claims db))"

definition sources_of :: "nat \<Rightarrow> claims_db \<Rightarrow> claim_source list" where
  "sources_of i db = filter (\<lambda>s. cs_claim s = i) (claim_sources db)"

definition attach_source :: "claim_source \<Rightarrow> claims_db \<Rightarrow> claims_db" where
  "attach_source s db = db\<lparr>claim_sources := claim_sources db @ [s]\<rparr>"

text \<open>The claim and its sources are one transaction; a text is there once per vault.\<close>

definition create_claim ::
  "word_env \<Rightarrow> nat \<Rightarrow> pystr \<Rightarrow> string \<Rightarrow> nat option \<Rightarrow> claim_status \<Rightarrow> rat \<Rightarrow> (nat \<Rightarrow> claim_source) list
     \<Rightarrow> claims_db \<Rightarrow> (wiki_error + nat) \<times> claims_db" where
  "create_claim env v t kind page status conf srcs db =
     (if find_claim_by_text v t db \<noteq> None then (Inl WikiIntegrity, db)
      else (let i = next_claim db;
                c = \<lparr>cl_id = i, cl_vault = v, cl_page = page, cl_text = t, cl_norm = normalize_claim_text env t,
                     cl_source_type = kind, cl_status = status, cl_confidence = conf\<rparr>
            in (Inr i, fold (\<lambda>s. attach_source (s i)) srcs
                 (db\<lparr>claims := claims db @ [c], next_claim := Suc i\<rparr>))))"

definition delete_claim :: "nat \<Rightarrow> nat \<Rightarrow> claims_db \<Rightarrow> bool \<times> claims_db" where
  "delete_claim i v db =
     (if rowcount (claim_at i v) (claims db) = 0 then (False, db)
      else (True, db\<lparr>claims := filter (\<lambda>c. \<not> claim_at i v c) (claims db),
              claim_sources := filter (\<lambda>s. cs_claim s \<noteq> i) (claim_sources db)\<rparr>))"

definition reactivate_claim_if_superseded :: "nat \<Rightarrow> claims_db \<Rightarrow> bool \<times> claims_db" where
  "reactivate_claim_if_superseded i db =
     (let p = (\<lambda>c. cl_id c = i \<and> cl_status c = CSuperseded)
      in if rowcount p (claims db) = 0 then (False, db)
         else (True, db\<lparr>claims := update_rows p (\<lambda>c. c\<lparr>cl_status := CActive\<rparr>) (claims db),
                 lint_rows := filter (\<lambda>r. \<not> (fd_status r = LOpen \<and> fd_type r = ''stale'' \<and> i \<in> set (fd_claims r)))
                   (lint_rows db)\<rparr>))"

text \<open>\<open>_find_or_create_claim\<close>: \<open>new_source\<close> is the source that is attached if none matches it.\<close>

definition source_matches :: "claim_source \<Rightarrow> claim_source \<Rightarrow> bool" where
  "source_matches s n \<longleftrightarrow>
     (if cs_kind n = ''document'' then cs_file s = cs_file n
      else if cs_kind n = ''memory'' then cs_memory s = cs_memory n
      else cs_label s = cs_label n)"

definition promoted :: "claim \<Rightarrow> claim_status \<Rightarrow> string \<Rightarrow> rat \<Rightarrow> claims_db \<Rightarrow> claims_db" where
  "promoted c status kind conf db =
     (if cl_status c = CUnverified \<and> status = CActive
      then db\<lparr>claims := update_rows (\<lambda>r. cl_id r = cl_id c)
             (\<lambda>r. r\<lparr>cl_status := CActive, cl_source_type := kind, cl_confidence := conf\<rparr>) (claims db)\<rparr>
      else if cl_status c = CSuperseded \<and> status = CActive
      then snd (reactivate_claim_if_superseded (cl_id c) db)
      else db)"

definition find_or_create_claim ::
  "word_env \<Rightarrow> nat \<Rightarrow> pystr \<Rightarrow> string \<Rightarrow> nat option \<Rightarrow> claim_status \<Rightarrow> rat \<Rightarrow> (nat \<Rightarrow> claim_source)
     \<Rightarrow> (nat \<Rightarrow> claim_source) list \<Rightarrow> claims_db \<Rightarrow> (wiki_error + nat \<times> bool) \<times> claims_db" where
  "find_or_create_claim env v t kind page status conf new_source srcs db =
     (case (case find_claim_by_text v t db of None \<Rightarrow> find_claim_by_normalized_text env v t db | Some c \<Rightarrow> Some c) of
        None \<Rightarrow>
          (case create_claim env v t kind page status conf srcs db of
             (Inl e, db1) \<Rightarrow> (Inl e, db1) | (Inr i, db1) \<Rightarrow> (Inr (i, True), db1))
      | Some c \<Rightarrow>
          (let n = new_source (cl_id c); db1 = promoted c status kind conf db
           in (Inr (cl_id c, False),
               if list_ex (\<lambda>s. cs_kind s = cs_kind n \<and> source_matches s n) (sources_of (cl_id c) db)
               then db1 else attach_source n db1)))"

section \<open>Lint rows\<close>

definition insert_lint :: "(nat \<Rightarrow> lint_row) \<Rightarrow> claims_db \<Rightarrow> claims_db" where
  "insert_lint f db = db\<lparr>lint_rows := lint_rows db @ [f (next_lint db)], next_lint := Suc (next_lint db)\<rparr>"

definition stale_lint :: "nat \<Rightarrow> string \<Rightarrow> string \<Rightarrow> pystr \<Rightarrow> nat list \<Rightarrow> claim \<Rightarrow> int \<Rightarrow> nat \<Rightarrow> lint_row" where
  "stale_lint v ty severity title pages c now i = \<lparr>fd_id = i, fd_vault = v, fd_type = ty, fd_severity = severity,
     fd_title = title, fd_details = take 200 (cl_text c), fd_pages = pages, fd_claims = [cl_id c],
     fd_status = LOpen, fd_origin = ''invalidation'', fd_created = now\<rparr>"

section \<open>Deleted sources\<close>

text \<open>
  The loop of \<open>mark_claims_stale_by_file\<close> and \<open>_by_memory\<close>, over the distinct claims of the
  source; \<open>mine\<close> are its rows.
\<close>

definition mark_claim_stale ::
  "(claim_source \<Rightarrow> bool) \<Rightarrow> pystr \<Rightarrow> pystr \<Rightarrow> nat \<Rightarrow> int \<Rightarrow> nat \<Rightarrow> nat \<times> nat \<times> claims_db \<Rightarrow> nat \<times> nat \<times> claims_db" where
  "mark_claim_stale mine stale weak v now i = (\<lambda>(n, m, db).
     (case find (claim_at i v) (claims db) of
        None \<Rightarrow> (n, m, db)
      | Some c \<Rightarrow>
          if list_ex (\<lambda>s. \<not> mine s) (sources_of i db)
          then (n, Suc m, insert_lint (stale_lint v ''weak_provenance'' ''low'' weak [] c now) db)
          else (Suc n, m, insert_lint (stale_lint v ''stale'' ''medium'' stale [] c now)
                 (db\<lparr>claims := update_rows (\<lambda>r. cl_id r = i) (\<lambda>r. r\<lparr>cl_status := CSuperseded\<rparr>) (claims db)\<rparr>))))"

definition mark_claims_stale ::
  "(claim_source \<Rightarrow> bool) \<Rightarrow> pystr \<Rightarrow> pystr \<Rightarrow> nat \<Rightarrow> int \<Rightarrow> claims_db \<Rightarrow> (nat \<times> nat) \<times> claims_db" where
  "mark_claims_stale mine stale weak v now db =
     (case fold (mark_claim_stale mine stale weak v now)
        (py_dedup (map cs_claim (filter mine (claim_sources db)))) (0, 0, db) of
        (n, m, db1) \<Rightarrow> ((n, m), db1))"

definition mark_claims_stale_by_file :: "nat \<Rightarrow> nat \<Rightarrow> int \<Rightarrow> claims_db \<Rightarrow> (nat \<times> nat) \<times> claims_db" where
  "mark_claims_stale_by_file f = mark_claims_stale (\<lambda>s. cs_file s = Some f)
     (lit ''Claim stale: source document deleted (file_id='' @ dec f @ lit '')'')
     (lit ''Weak provenance: source document deleted (file_id='' @ dec f @ lit '')'')"

definition mark_claims_stale_by_memory :: "nat \<Rightarrow> nat \<Rightarrow> int \<Rightarrow> claims_db \<Rightarrow> (nat \<times> nat) \<times> claims_db" where
  "mark_claims_stale_by_memory m = mark_claims_stale (\<lambda>s. cs_memory s = Some m)
     (lit ''Claim stale: source memory edited/deleted (memory_id='' @ dec m @ lit '')'')
     (lit ''Weak provenance: source memory edited/deleted (memory_id='' @ dec m @ lit '')'')"

section \<open>Recompiled sources\<close>

text \<open>
  When one quote of the file still is in the text: literally, HTML-unescaped, or normalised,
  always between token boundaries.
\<close>

definition spaced :: "pystr \<Rightarrow> pystr" where
  "spaced s = [32] @ s @ [32]"

definition quote_present :: "word_env \<Rightarrow> (pystr \<Rightarrow> pystr) \<Rightarrow> pystr \<Rightarrow> pystr \<Rightarrow> bool" where
  "quote_present env unescape text q \<longleftrightarrow>
     py_in (spaced q) (spaced text)
     \<or> (unescape q \<noteq> q \<and> py_in (spaced (unescape q)) (spaced text))
     \<or> (normalize_claim_text env q \<noteq> []
        \<and> py_in (spaced (normalize_claim_text env q)) (spaced (normalize_claim_text env text)))"

definition quotes_of :: "nat \<Rightarrow> nat \<Rightarrow> claims_db \<Rightarrow> pystr list" where
  "quotes_of i f db =
     filter (\<lambda>q. py_strip q \<noteq> []) (map (\<lambda>s. case cs_quote s of None \<Rightarrow> [] | Some q \<Rightarrow> q)
       (filter (\<lambda>s. cs_file s = Some f) (sources_of i db)))"

text \<open>The text is evidence against a claim: some quote has words, and no quote is present.\<close>

definition quotes_gone :: "word_env \<Rightarrow> (pystr \<Rightarrow> pystr) \<Rightarrow> pystr \<Rightarrow> pystr list \<Rightarrow> bool" where
  "quotes_gone env unescape text qs \<longleftrightarrow> normalize_claim_text env text \<noteq> []
     \<and> \<not> list_ex (quote_present env unescape text) qs
     \<and> list_ex (\<lambda>q. normalize_claim_text env q \<noteq> []) qs"

definition independent_source :: "nat \<Rightarrow> claim_source \<Rightarrow> bool" where
  "independent_source f s \<longleftrightarrow> cs_file s \<noteq> Some f
     \<and> \<not> (cs_kind s = ''manual'' \<and> cs_label s = Some (lit ''chat_synthesis''))"

definition insert_recompile_finding_once ::
  "nat \<Rightarrow> string \<Rightarrow> string \<Rightarrow> pystr \<Rightarrow> claim \<Rightarrow> nat \<Rightarrow> int \<Rightarrow> claims_db \<Rightarrow> claims_db" where
  "insert_recompile_finding_once v ty severity title c page now db =
     (if list_ex (\<lambda>r. fd_vault r = v \<and> fd_type r = ty \<and> fd_title r = title) (lint_rows db) then db
      else insert_lint (stale_lint v ty severity title [page] c now) db)"

definition recompile_title :: "string \<Rightarrow> nat \<Rightarrow> nat \<Rightarrow> pystr" where
  "recompile_title what f i = lit what @ lit '': source content changed in recompile (file_id='' @ dec f
     @ lit '', claim_id='' @ dec i @ lit '')''"

definition supersede_claim ::
  "word_env \<Rightarrow> (pystr \<Rightarrow> pystr) \<Rightarrow> nat \<Rightarrow> nat \<Rightarrow> nat \<Rightarrow> nat set \<Rightarrow> pystr \<Rightarrow> int \<Rightarrow> nat
     \<Rightarrow> nat \<times> nat \<times> claims_db \<Rightarrow> nat \<times> nat \<times> claims_db" where
  "supersede_claim env unescape f v page keep text now i = (\<lambda>(n, m, db).
     (case find (claim_at i v) (claims db) of
        None \<Rightarrow> (n, m, db)
      | Some c \<Rightarrow>
          if i \<in> keep \<or> cl_status c \<noteq> CActive \<or> quotes_of i f db = []
             \<or> \<not> quotes_gone env unescape text (quotes_of i f db) then (n, m, db)
          else if list_ex (independent_source f) (sources_of i db)
          then (n, Suc m, insert_recompile_finding_once v ''weak_provenance'' ''low''
                  (recompile_title ''Weak provenance'' f i) c page now db)
          else (Suc n, m, insert_recompile_finding_once v ''stale'' ''medium'' (recompile_title ''Claim stale'' f i)
                  c page now (db\<lparr>claims := update_rows (\<lambda>r. claim_at i v r \<and> cl_status r = CActive)
                    (\<lambda>r. r\<lparr>cl_status := CSuperseded\<rparr>) (claims db)\<rparr>))))"

definition bound_claims :: "nat \<Rightarrow> nat \<Rightarrow> nat \<Rightarrow> claims_db \<Rightarrow> nat list" where
  "bound_claims f v page db = py_dedup (filter (\<lambda>i.
     list_ex (\<lambda>c. cl_id c = i \<and> cl_page c = Some page \<and> cl_vault c = v) (claims db))
       (map cs_claim (filter (\<lambda>s. cs_file s = Some f) (claim_sources db))))"

definition supersede_unrederived_file_claims ::
  "word_env \<Rightarrow> (pystr \<Rightarrow> pystr) \<Rightarrow> nat \<Rightarrow> nat \<Rightarrow> nat \<Rightarrow> nat set \<Rightarrow> pystr \<Rightarrow> int \<Rightarrow> claims_db
     \<Rightarrow> (nat \<times> nat) \<times> claims_db" where
  "supersede_unrederived_file_claims env unescape f v page keep text now db =
     (case fold (supersede_claim env unescape f v page keep text now) (bound_claims f v page db) (0, 0, db) of
        (n, m, db1) \<Rightarrow> ((n, m), db1))"

section \<open>Lint runs\<close>

record lint_spec =
  sp_type :: string
  sp_title :: pystr
  sp_severity :: string
  sp_details :: pystr
  sp_pages :: "nat list"
  sp_claims :: "nat list"

definition lint_fingerprint :: "word_env \<Rightarrow> string \<Rightarrow> pystr \<Rightarrow> nat list \<Rightarrow> string \<times> nat list \<times> pystr" where
  "lint_fingerprint env ty title pages =
     (ty, sort (remdups (filter (\<lambda>p. p \<noteq> 0) pages)), squash 32 py_isspace (we_lower env (py_strip title)))"

definition row_lint_fingerprint :: "word_env \<Rightarrow> lint_row \<Rightarrow> string \<times> nat list \<times> pystr" where
  "row_lint_fingerprint env r = lint_fingerprint env (fd_type r) (fd_title r) (fd_pages r)"

definition spec_fingerprint :: "word_env \<Rightarrow> lint_spec \<Rightarrow> string \<times> nat list \<times> pystr" where
  "spec_fingerprint env s = lint_fingerprint env (sp_type s) (sp_title s) (sp_pages s)"

fun user_terminal :: "lint_status \<Rightarrow> bool" where
  "user_terminal LDismissed = True"
| "user_terminal LResolved = True"
| "user_terminal LAcknowledged = True"
| "user_terminal _ = False"

definition update_lint_finding :: "nat \<Rightarrow> nat \<Rightarrow> lint_status \<Rightarrow> claims_db \<Rightarrow> (unit + bool) \<times> claims_db" where
  "update_lint_finding i v status db =
     (if \<not> user_terminal status then (Inl (), db)
      else (let p = (\<lambda>r. fd_id r = i \<and> fd_vault r = v)
            in (Inr (rowcount p (lint_rows db) \<noteq> 0),
                db\<lparr>lint_rows := update_rows p (\<lambda>r. r\<lparr>fd_status := status\<rparr>) (lint_rows db)\<rparr>)))"

text \<open>\<open>setdefault\<close> per key: the first of each key, in order.\<close>

fun first_per :: "('a \<Rightarrow> 'k) \<Rightarrow> 'a list \<Rightarrow> 'a list" where
  "first_per k [] = []"
| "first_per k (x # xs) = x # filter (\<lambda>y. k y \<noteq> k x) (first_per k xs)"

definition same_payload :: "lint_spec \<Rightarrow> lint_row \<Rightarrow> bool" where
  "same_payload s r \<longleftrightarrow> fd_severity r = sp_severity s \<and> fd_details r = sp_details s
     \<and> fd_pages r = sp_pages s \<and> fd_claims r = sp_claims s"

definition with_payload :: "lint_spec \<Rightarrow> lint_row \<Rightarrow> lint_row" where
  "with_payload s r = r\<lparr>fd_severity := sp_severity s, fd_details := sp_details s,
     fd_pages := sp_pages s, fd_claims := sp_claims s\<rparr>"

definition lint_newer :: "lint_row \<Rightarrow> lint_row \<Rightarrow> bool" where
  "lint_newer r m \<longleftrightarrow> fd_created m < fd_created r \<or> fd_created m = fd_created r \<and> fd_id m < fd_id r"

fun newest :: "lint_row list \<Rightarrow> lint_row \<Rightarrow> lint_row" where
  "newest [] m = m"
| "newest (r # rs) m = newest rs (if lint_newer r m then r else m)"

definition fresh_lint :: "nat \<Rightarrow> string \<Rightarrow> int \<Rightarrow> lint_spec \<Rightarrow> nat \<Rightarrow> lint_row" where
  "fresh_lint v origin now s i = \<lparr>fd_id = i, fd_vault = v, fd_type = sp_type s, fd_severity = sp_severity s,
     fd_title = sp_title s, fd_details = sp_details s, fd_pages = sp_pages s, fd_claims = sp_claims s,
     fd_status = LOpen, fd_origin = origin, fd_created = now\<rparr>"

definition set_lint :: "nat \<Rightarrow> nat \<Rightarrow> (lint_row \<Rightarrow> lint_row) \<Rightarrow> claims_db \<Rightarrow> claims_db" where
  "set_lint i v f db = db\<lparr>lint_rows := update_rows (\<lambda>r. fd_id r = i \<and> fd_vault r = v) f (lint_rows db)\<rparr>"

text \<open>
  One detected finding, rules 1 to 4. The rows are those of \<open>snap\<close>, which is read before the
  transaction; the writes go to the present state.
\<close>

definition reconcile_one ::
  "word_env \<Rightarrow> nat \<Rightarrow> string \<Rightarrow> int \<Rightarrow> claims_db \<Rightarrow> lint_spec \<Rightarrow> nat list \<times> claims_db \<Rightarrow> nat list \<times> claims_db" where
  "reconcile_one env v origin now snap s = (\<lambda>(result, db).
     (let hits = filter (\<lambda>r. fd_vault r = v \<and> row_lint_fingerprint env r = spec_fingerprint env s) (lint_rows snap);
          open_rows = filter (\<lambda>r. fd_status r = LOpen) hits;
          flippable = filter (\<lambda>r. fd_status r = LAutoResolved \<and> fd_origin r = origin) hits;
          inserted = (result @ [next_lint db], insert_lint (fresh_lint v origin now s) db)
      in if open_rows \<noteq> [] then
           (result @ [fd_id (hd open_rows)],
            if same_payload s (hd open_rows) then db else set_lint (fd_id (hd open_rows)) v (with_payload s) db)
         else if list_ex (\<lambda>r. user_terminal (fd_status r)) hits then (result, db)
         else if flippable \<noteq> [] then
           (let i = fd_id (newest (tl flippable) (hd flippable))
            in if list_ex (\<lambda>r. fd_id r = i) (lint_rows db)
               then (result @ [i], set_lint i v (\<lambda>r. with_payload s (r\<lparr>fd_status := LOpen\<rparr>)) db)
               else inserted)
         else inserted))"

definition auto_resolve :: "word_env \<Rightarrow> nat \<Rightarrow> lint_spec list \<Rightarrow> claims_db \<Rightarrow> claims_db \<Rightarrow> claims_db" where
  "auto_resolve env v specs snap db =
     (let gone = filter (\<lambda>r. fd_vault r = v \<and> fd_status r = LOpen \<and> fd_origin r = ''linter''
            \<and> row_lint_fingerprint env r \<notin> spec_fingerprint env ` set specs) (lint_rows snap)
      in fold (\<lambda>r. set_lint (fd_id r) v (\<lambda>x. x\<lparr>fd_status := LAutoResolved\<rparr>)) gone db)"

definition upsert_lint_findings ::
  "word_env \<Rightarrow> nat \<Rightarrow> lint_spec list \<Rightarrow> string \<Rightarrow> int \<Rightarrow> claims_db \<Rightarrow> claims_db \<Rightarrow> nat list \<times> claims_db" where
  "upsert_lint_findings env v specs origin now snap db =
     (case fold (reconcile_one env v origin now snap) (first_per (spec_fingerprint env) specs) ([], db) of
        (result, db1) \<Rightarrow> (result, if origin = ''linter'' then auto_resolve env v specs snap db1 else db1))"

end
