(* ===== verification/Wiki_Lint.thy ===== *)
theory Wiki_Lint
  imports Wiki_Claims
begin

text \<open>
  Lint runs (\<open>upsert_lint_findings\<close>): what a run leaves of every fingerprint, that a second run
  with the same detections changes nothing, and what a disposition by a user outlives.
\<close>

section \<open>Rows of a fingerprint\<close>

definition lint_ok :: "claims_db \<Rightarrow> bool" where
  "lint_ok db \<longleftrightarrow> distinct (map fd_id (lint_rows db)) \<and> (\<forall>r \<in> set (lint_rows db). fd_id r < next_lint db)"

definition rows_for :: "word_env \<Rightarrow> nat \<Rightarrow> string \<times> nat list \<times> pystr \<Rightarrow> claims_db \<Rightarrow> lint_row list" where
  "rows_for env v fp db = filter (\<lambda>r. fd_vault r = v \<and> row_lint_fingerprint env r = fp) (lint_rows db)"

abbreviation open_for :: "word_env \<Rightarrow> nat \<Rightarrow> string \<times> nat list \<times> pystr \<Rightarrow> claims_db \<Rightarrow> lint_row list" where
  "open_for env v fp db \<equiv> filter (\<lambda>r. fd_status r = LOpen) (rows_for env v fp db)"

definition disposed :: "claims_db \<Rightarrow> lint_row list" where
  "disposed db = filter (\<lambda>r. user_terminal (fd_status r)) (lint_rows db)"

definition foreign :: "nat \<Rightarrow> claims_db \<Rightarrow> lint_row list" where
  "foreign v db = filter (\<lambda>r. fd_vault r \<noteq> v) (lint_rows db)"

lemma lint_okD: "lint_ok db \<Longrightarrow> r \<in> set (lint_rows db) \<Longrightarrow> q \<in> set (lint_rows db) \<Longrightarrow> fd_id r = fd_id q \<Longrightarrow> r = q"
  unfolding lint_ok_def using distinct_key_eq by metis

lemma user_terminal_simps [simp]: "\<not> user_terminal LOpen" "\<not> user_terminal LAutoResolved"
  by simp_all

lemma payload_fields [simp]:
  "fd_id (with_payload s r) = fd_id r" "fd_vault (with_payload s r) = fd_vault r" "fd_status (with_payload s r) = fd_status r"
  "fd_origin (with_payload s r) = fd_origin r" "fd_created (with_payload s r) = fd_created r"
  "same_payload s (with_payload s r)"
  by (simp_all add: with_payload_def same_payload_def)

lemma fresh_fields [simp]:
  "fd_id (fresh_lint v o' now s i) = i" "fd_vault (fresh_lint v o' now s i) = v" "fd_status (fresh_lint v o' now s i) = LOpen"
  "same_payload s (fresh_lint v o' now s i)" "row_lint_fingerprint env (fresh_lint v o' now s i) = spec_fingerprint env s"
  "fd_origin (fresh_lint v o' now s i) = o'"
  by (simp_all add: fresh_lint_def same_payload_def row_lint_fingerprint_def spec_fingerprint_def)

lemma fingerprint_with_payload:
  "row_lint_fingerprint env r = spec_fingerprint env s \<Longrightarrow>
     row_lint_fingerprint env (with_payload s r) = spec_fingerprint env s"
  by (auto simp: row_lint_fingerprint_def spec_fingerprint_def lint_fingerprint_def with_payload_def)

lemma fingerprint_status [simp]: "row_lint_fingerprint env (r\<lparr>fd_status := x\<rparr>) = row_lint_fingerprint env r"
  by (simp add: row_lint_fingerprint_def)

lemma rows_forD: "r \<in> set (rows_for env v fp db) \<Longrightarrow>
    r \<in> set (lint_rows db) \<and> fd_vault r = v \<and> row_lint_fingerprint env r = fp"
  by (simp add: rows_for_def)

section \<open>Writes\<close>

lemma set_lint_fields [simp]:
  "lint_rows (set_lint i v f db) = update_rows (\<lambda>r. fd_id r = i \<and> fd_vault r = v) f (lint_rows db)"
  "next_lint (set_lint i v f db) = next_lint db"
  by (simp_all add: set_lint_def)

lemma insert_lint_fields [simp]:
  "lint_rows (insert_lint g db) = lint_rows db @ [g (next_lint db)]" "next_lint (insert_lint g db) = Suc (next_lint db)"
  "claims (insert_lint g db) = claims db" "claim_sources (insert_lint g db) = claim_sources db"
  by (simp_all add: insert_lint_def)

text \<open>A write to one row that keeps its id, vault and fingerprint.\<close>

definition lint_write :: "word_env \<Rightarrow> nat \<Rightarrow> nat \<Rightarrow> (lint_row \<Rightarrow> lint_row) \<Rightarrow> claims_db \<Rightarrow> bool" where
  "lint_write env i v f db \<longleftrightarrow> (\<forall>r \<in> set (lint_rows db). fd_id r = i \<and> fd_vault r = v \<longrightarrow>
     fd_id (f r) = i \<and> fd_vault (f r) = v \<and> row_lint_fingerprint env (f r) = row_lint_fingerprint env r)"

lemma filter_update_rows:
  assumes "\<And>r. r \<in> set rs \<Longrightarrow> p r \<Longrightarrow> q (f r) = q r"
  shows "filter q (update_rows p f rs) = update_rows p f (filter q rs)"
  using assms by (induction rs) (auto simp: update_rows_def)

lemma set_lint_ok:
  assumes "lint_ok db" and "lint_write env i v f db"
  shows "lint_ok (set_lint i v f db)"
proof -
  have "map fd_id (lint_rows (set_lint i v f db)) = map fd_id (lint_rows db)"
    using assms(2) by (auto simp: lint_write_def update_rows_def)
  moreover from this have "fd_id ` set (lint_rows (set_lint i v f db)) = fd_id ` set (lint_rows db)" by (metis set_map)
  ultimately show ?thesis using assms(1) unfolding lint_ok_def by (metis (no_types) imageE imageI set_lint_fields(2))
qed

lemma rows_for_set_lint:
  assumes "lint_write env i v f db"
  shows "rows_for env v fp (set_lint i v f db) = map (\<lambda>r. if fd_id r = i then f r else r) (rows_for env v fp db)"
proof -
  have "rows_for env v fp (set_lint i v f db)
      = update_rows (\<lambda>r. fd_id r = i \<and> fd_vault r = v) f (rows_for env v fp db)"
    unfolding rows_for_def set_lint_fields
    by (rule filter_update_rows) (use assms in \<open>auto simp: lint_write_def\<close>)
  also have "\<dots> = map (\<lambda>r. if fd_id r = i then f r else r) (rows_for env v fp db)"
    unfolding update_rows_def by (rule map_cong) (auto dest: rows_forD)
  finally show ?thesis .
qed

lemma rows_for_insert:
  "rows_for env v fp (insert_lint g db) = rows_for env v fp db
     @ (if fd_vault (g (next_lint db)) = v \<and> row_lint_fingerprint env (g (next_lint db)) = fp then [g (next_lint db)] else [])"
  by (simp add: rows_for_def)

lemma foreign_set_lint:
  assumes "lint_write env i v f db"
  shows "foreign v (set_lint i v f db) = foreign v db"
proof -
  have "foreign v (set_lint i v f db) = update_rows (\<lambda>r. fd_id r = i \<and> fd_vault r = v) f (foreign v db)"
    unfolding foreign_def set_lint_fields
    by (rule filter_update_rows) (use assms in \<open>auto simp: lint_write_def\<close>)
  also have "\<dots> = foreign v db" by (rule update_rows_none) (simp add: foreign_def)
  finally show ?thesis .
qed

lemma disposed_set_lint:
  assumes "\<And>r. r \<in> set (lint_rows db) \<Longrightarrow> fd_id r = i \<Longrightarrow> fd_vault r = v \<Longrightarrow>
      \<not> user_terminal (fd_status r) \<and> \<not> user_terminal (fd_status (f r))"
  shows "disposed (set_lint i v f db) = disposed db"
proof -
  have "disposed (set_lint i v f db) = update_rows (\<lambda>r. fd_id r = i \<and> fd_vault r = v) f (disposed db)"
    unfolding disposed_def set_lint_fields by (rule filter_update_rows) (use assms in auto)
  also have "\<dots> = disposed db" by (rule update_rows_none) (use assms in \<open>auto simp: disposed_def\<close>)
  finally show ?thesis .
qed

lemma insert_lint_ok: "lint_ok db \<Longrightarrow> fd_id (g (next_lint db)) = next_lint db \<Longrightarrow> lint_ok (insert_lint g db)"
  by (auto simp: lint_ok_def less_SucI)

section \<open>One detection\<close>

lemma newest_in: "newest rs m \<in> set (m # rs)"
  by (induction rs arbitrary: m) (auto split: if_splits)

text \<open>Where a detection of \<open>s\<close> has come to rest; \<open>out\<close> is what the run reports for it.\<close>

definition settled :: "word_env \<Rightarrow> nat \<Rightarrow> lint_spec \<Rightarrow> nat list \<Rightarrow> claims_db \<Rightarrow> bool" where
  "settled env v s out db \<longleftrightarrow> (case open_for env v (spec_fingerprint env s) db of
       [] \<Rightarrow> out = [] \<and> list_ex (\<lambda>r. user_terminal (fd_status r)) (rows_for env v (spec_fingerprint env s) db)
     | r # _ \<Rightarrow> out = [fd_id r] \<and> same_payload s r)"

definition reconciled :: "word_env \<Rightarrow> nat \<Rightarrow> lint_spec \<Rightarrow> claims_db \<Rightarrow> claims_db \<Rightarrow> bool" where
  "reconciled env v s db db' \<longleftrightarrow> lint_ok db' \<and> disposed db' = disposed db \<and> foreign v db' = foreign v db
     \<and> (\<forall>fp. fp \<noteq> spec_fingerprint env s \<longrightarrow> rows_for env v fp db' = rows_for env v fp db)
     \<and> (open_for env v (spec_fingerprint env s) db' = [] \<longleftrightarrow>
          open_for env v (spec_fingerprint env s) db = []
          \<and> list_ex (\<lambda>r. user_terminal (fd_status r)) (rows_for env v (spec_fingerprint env s) db))
     \<and> length (open_for env v (spec_fingerprint env s) db') \<le> max 1 (length (open_for env v (spec_fingerprint env s) db))"

lemma reconcile_snap:
  assumes "rows_for env v (spec_fingerprint env s) snap = rows_for env v (spec_fingerprint env s) db"
  shows "reconcile_one env v origin now snap s x = reconcile_one env v origin now db s x"
  using assms unfolding reconcile_one_def rows_for_def by simp

lemma settled_again:
  assumes "settled env v s out db"
  shows "reconcile_one env v origin now db s (res, db) = (res @ out, db)"
proof (cases "open_for env v (spec_fingerprint env s) db")
  case Nil
  then show ?thesis using assms by (simp add: settled_def reconcile_one_def rows_for_def Let_def)
next
  case (Cons r rs)
  then show ?thesis using assms by (simp add: settled_def reconcile_one_def rows_for_def [symmetric] Let_def)
qed

lemma open_hd:
  assumes "open_for env v fp db = r # rs"
  shows "fd_status r = LOpen" "r \<in> set (rows_for env v fp db)"
proof -
  have "r \<in> set (open_for env v fp db)" unfolding assms by simp
  then show "fd_status r = LOpen" "r \<in> set (rows_for env v fp db)" by simp_all
qed

lemma filter_one: "distinct xs \<Longrightarrow> r \<in> set xs \<Longrightarrow> filter (\<lambda>x. x = r) xs = [r]"
  by (induction xs) (auto simp: filter_empty_conv)

text \<open>A write to the one row \<open>r\<close> of the fingerprint that is, or becomes, its first open row.\<close>

lemma write_reconciles:
  assumes ok: "lint_ok db" and r: "r \<in> set (rows_for env v (spec_fingerprint env s) db)"
    and f: "f r = with_payload s (r\<lparr>fd_status := LOpen\<rparr>)"
    and first: "(\<exists>rs. open_for env v (spec_fingerprint env s) db = r # rs)
      \<or> (open_for env v (spec_fingerprint env s) db = [] \<and> fd_status r = LAutoResolved
          \<and> \<not> list_ex (\<lambda>r. user_terminal (fd_status r)) (rows_for env v (spec_fingerprint env s) db))"
  shows "reconciled env v s db (set_lint (fd_id r) v f db) \<and> settled env v s [fd_id r] (set_lint (fd_id r) v f db)"
proof -
  let ?fp = "spec_fingerprint env s" and ?db = "set_lint (fd_id r) v f db"
  let ?g = "\<lambda>x. if fd_id x = fd_id r then f x else x"
  note in_rows = rows_forD [OF r]
  have one: "x = r" if "x \<in> set (lint_rows db)" "fd_id x = fd_id r" for x
    by (rule lint_okD [OF ok that(1) _ that(2)]) (use in_rows in blast)
  have fr: "fd_id (f r) = fd_id r" "fd_vault (f r) = v" "row_lint_fingerprint env (f r) = ?fp" "fd_status (f r) = LOpen"
      "same_payload s (f r)"
    using in_rows fingerprint_with_payload [of env "r\<lparr>fd_status := LOpen\<rparr>" s] by (simp_all add: f)
  have st: "fd_status r = LOpen \<or> fd_status r = LAutoResolved"
    using first open_hd(1) by blast
  have w: "lint_write env (fd_id r) v f db"
    unfolding lint_write_def
  proof (intro ballI impI)
    fix x assume "x \<in> set (lint_rows db)" "fd_id x = fd_id r \<and> fd_vault x = v"
    then have "x = r" using one by blast
    then show "fd_id (f x) = fd_id r \<and> fd_vault (f x) = v \<and> row_lint_fingerprint env (f x) = row_lint_fingerprint env x"
      using fr in_rows by simp
  qed
  have rows: "rows_for env v fp ?db = map ?g (rows_for env v fp db)" for fp by (rule rows_for_set_lint [OF w])
  have other: "rows_for env v fp ?db = rows_for env v fp db" if "fp \<noteq> ?fp" for fp
  proof -
    have "?g x = x" if "x \<in> set (rows_for env v fp db)" for x
      using one [of x] rows_forD [OF that] in_rows \<open>fp \<noteq> ?fp\<close> by auto
    then show ?thesis unfolding rows by (rule map_idI)
  qed
  have "disposed ?db = disposed db"
  proof (rule disposed_set_lint)
    fix x assume "x \<in> set (lint_rows db)" "fd_id x = fd_id r"
    then have "x = r" by (rule one)
    then show "\<not> user_terminal (fd_status x) \<and> \<not> user_terminal (fd_status (f x))" using st fr(4) by auto
  qed
  moreover have "foreign v ?db = foreign v db" by (rule foreign_set_lint [OF w])
  moreover have "lint_ok ?db" by (rule set_lint_ok [OF ok w])
  moreover have opens: "\<exists>rs'. open_for env v ?fp ?db = f r # rs' \<and> length rs' \<le> length (open_for env v ?fp db) - 1"
  proof -
    have g: "?g x = (if x = r then f r else x)" if "x \<in> set (rows_for env v ?fp db)" for x
      using one [of x] rows_forD [OF that] by auto
    have eq: "open_for env v ?fp ?db = map ?g (filter (\<lambda>x. fd_status (?g x) = LOpen) (rows_for env v ?fp db))"
      unfolding rows filter_map comp_def ..
    have sel: "filter (\<lambda>x. fd_status (?g x) = LOpen) (rows_for env v ?fp db)
        = filter (\<lambda>x. x = r \<or> fd_status x = LOpen) (rows_for env v ?fp db)"
      by (rule filter_cong [OF refl]) (use g fr(4) in auto)
    from first show ?thesis
    proof
      assume "\<exists>rs. open_for env v ?fp db = r # rs"
      then obtain rs where rs: "open_for env v ?fp db = r # rs" by blast
      then have "fd_status r = LOpen" by (rule open_hd)
      then have "filter (\<lambda>x. x = r \<or> fd_status x = LOpen) (rows_for env v ?fp db) = r # rs"
        unfolding rs [symmetric] by (intro filter_cong) auto
      then have "open_for env v ?fp ?db = f r # map ?g rs" unfolding eq sel by simp
      then show ?thesis using rs by simp
    next
      assume a: "open_for env v ?fp db = [] \<and> fd_status r = LAutoResolved
          \<and> \<not> list_ex (\<lambda>r. user_terminal (fd_status r)) (rows_for env v ?fp db)"
      have "distinct (rows_for env v ?fp db)"
        using ok by (simp add: lint_ok_def rows_for_def distinct_map)
      then have "filter (\<lambda>x. x = r) (rows_for env v ?fp db) = [r]" using r by (rule filter_one)
      moreover have "filter (\<lambda>x. x = r \<or> fd_status x = LOpen) (rows_for env v ?fp db) = filter (\<lambda>x. x = r) (rows_for env v ?fp db)"
        using a by (intro filter_cong) (auto simp: filter_empty_conv)
      ultimately have "open_for env v ?fp ?db = [f r]" unfolding eq sel by simp
      then show ?thesis by simp
    qed
  qed
  moreover have "open_for env v ?fp db = [] \<Longrightarrow> \<not> list_ex (\<lambda>r. user_terminal (fd_status r)) (rows_for env v ?fp db)"
    using first by force
  ultimately show ?thesis using other fr(1,5) unfolding reconciled_def settled_def by force
qed

lemma insert_reconciles:
  assumes ok: "lint_ok db" and none: "open_for env v (spec_fingerprint env s) db = []"
      "\<not> list_ex (\<lambda>r. user_terminal (fd_status r)) (rows_for env v (spec_fingerprint env s) db)"
  shows "reconciled env v s db (insert_lint (fresh_lint v origin now s) db)
    \<and> settled env v s [next_lint db] (insert_lint (fresh_lint v origin now s) db)"
  using none insert_lint_ok [OF ok, of "fresh_lint v origin now s"]
  by (simp add: reconciled_def settled_def rows_for_insert disposed_def foreign_def)

lemma keep_reconciles:
  assumes "lint_ok db" and "settled env v s out db"
  shows "reconciled env v s db db"
  using assms by (auto simp: reconciled_def settled_def split: list.splits)

lemma reconcile_one_step:
  assumes ok: "lint_ok db"
  shows "\<exists>out db'. reconcile_one env v origin now db s (res, db) = (res @ out, db')
    \<and> reconciled env v s db db' \<and> settled env v s out db'"
proof (cases "open_for env v (spec_fingerprint env s) db")
  case (Cons r rs)
  note r = open_hd [OF Cons]
  show ?thesis
  proof (cases "same_payload s r")
    case True
    then have "settled env v s [fd_id r] db" using Cons by (simp add: settled_def)
    with keep_reconciles [OF ok this] settled_again [OF this] show ?thesis by blast
  next
    case False
    have "with_payload s r = with_payload s (r\<lparr>fd_status := LOpen\<rparr>)" using r(1) by (cases r) simp
    from write_reconciles [where f = "with_payload s", OF ok r(2) this] Cons
    have "reconciled env v s db (set_lint (fd_id r) v (with_payload s) db)"
      "settled env v s [fd_id r] (set_lint (fd_id r) v (with_payload s) db)" by auto
    moreover have "reconcile_one env v origin now db s (res, db) = (res @ [fd_id r], set_lint (fd_id r) v (with_payload s) db)"
      using Cons False by (simp add: reconcile_one_def rows_for_def [symmetric] Let_def)
    ultimately show ?thesis by blast
  qed
next
  case Nil
  let ?rows = "rows_for env v (spec_fingerprint env s) db"
  let ?fl = "filter (\<lambda>r. fd_status r = LAutoResolved \<and> fd_origin r = origin) ?rows"
  show ?thesis
  proof (cases "list_ex (\<lambda>r. user_terminal (fd_status r)) ?rows")
    case True
    then have "settled env v s [] db" using Nil by (simp add: settled_def)
    with keep_reconciles [OF ok this] settled_again [OF this] show ?thesis by blast
  next
    case False
    note fresh = insert_reconciles [OF ok Nil False, of origin now]
    show ?thesis
    proof (cases "?fl")
      case Nil2: Nil
      then have "reconcile_one env v origin now db s (res, db) = (res @ [next_lint db], insert_lint (fresh_lint v origin now s) db)"
        using Nil False by (simp add: reconcile_one_def rows_for_def [symmetric] Let_def)
      then show ?thesis using fresh by blast
    next
      case (Cons a as)
      let ?n = "newest as a"
      have n: "?n \<in> set ?rows" "fd_status ?n = LAutoResolved"
        using newest_in [of as a] unfolding Cons [symmetric] by simp_all
      then have "list_ex (\<lambda>r. fd_id r = fd_id ?n) (lint_rows db)" by (auto simp: list_ex_iff dest: rows_forD)
      then have "reconcile_one env v origin now db s (res, db)
          = (res @ [fd_id ?n], set_lint (fd_id ?n) v (\<lambda>r. with_payload s (r\<lparr>fd_status := LOpen\<rparr>)) db)"
        using Nil False Cons by (simp add: reconcile_one_def rows_for_def [symmetric] Let_def)
      moreover from write_reconciles [where f = "\<lambda>r. with_payload s (r\<lparr>fd_status := LOpen\<rparr>)", OF ok n(1) refl] Nil False n(2)
      have "reconciled env v s db (set_lint (fd_id ?n) v (\<lambda>r. with_payload s (r\<lparr>fd_status := LOpen\<rparr>)) db)"
        "settled env v s [fd_id ?n] (set_lint (fd_id ?n) v (\<lambda>r. with_payload s (r\<lparr>fd_status := LOpen\<rparr>)) db)"
        by blast+
      ultimately show ?thesis by blast
    qed
  qed
qed

section \<open>All detections of a run\<close>

lemma settled_cong:
  "rows_for env v (spec_fingerprint env s) db' = rows_for env v (spec_fingerprint env s) db \<Longrightarrow>
     settled env v s out db' = settled env v s out db"
  unfolding settled_def by (simp cong: list.case_cong)

definition run_result :: "word_env \<Rightarrow> nat \<Rightarrow> lint_spec list \<Rightarrow> claims_db \<Rightarrow> claims_db \<Rightarrow> bool" where
  "run_result env v ss db db' \<longleftrightarrow> lint_ok db' \<and> disposed db' = disposed db \<and> foreign v db' = foreign v db
     \<and> (\<forall>fp. fp \<notin> spec_fingerprint env ` set ss \<longrightarrow> rows_for env v fp db' = rows_for env v fp db)
     \<and> (\<forall>fp \<in> spec_fingerprint env ` set ss.
          (open_for env v fp db' = [] \<longleftrightarrow> open_for env v fp db = []
             \<and> list_ex (\<lambda>r. user_terminal (fd_status r)) (rows_for env v fp db))
          \<and> length (open_for env v fp db') \<le> max 1 (length (open_for env v fp db)))"

lemma reconcile_all:
  assumes "lint_ok db" and "distinct (map (spec_fingerprint env) ss)"
    and "\<And>s. s \<in> set ss \<Longrightarrow> rows_for env v (spec_fingerprint env s) snap = rows_for env v (spec_fingerprint env s) db"
  shows "\<exists>outs db'. fold (reconcile_one env v origin now snap) ss (res, db) = (res @ concat outs, db')
    \<and> run_result env v ss db db' \<and> list_all2 (\<lambda>s out. settled env v s out db') ss outs"
  using assms
proof (induction ss arbitrary: res db)
  case Nil
  then show ?case by (intro exI [of _ "[]"]) (simp add: run_result_def)
next
  case (Cons s ss)
  let ?fp = "spec_fingerprint env"
  obtain out db1 where one: "reconcile_one env v origin now db s (res, db) = (res @ out, db1)"
      "reconciled env v s db db1" "settled env v s out db1"
    using reconcile_one_step [OF Cons.prems(1)] by blast
  have step: "reconcile_one env v origin now snap s (res, db) = (res @ out, db1)"
    using reconcile_snap [OF Cons.prems(3) [of s]] one(1) by simp
  have new: "?fp t \<noteq> ?fp s" if "t \<in> set ss" for t
  proof -
    have "?fp t \<in> ?fp ` set ss" using that by simp
    then show ?thesis using Cons.prems(2) by auto
  qed
  have ok1: "lint_ok db1" and same: "rows_for env v fp db1 = rows_for env v fp db" if "fp \<noteq> ?fp s" for fp
    using one(2) that unfolding reconciled_def by blast+
  have ok1: "lint_ok db1" using one(2) unfolding reconciled_def by blast
  have "rows_for env v (?fp t) snap = rows_for env v (?fp t) db1" if "t \<in> set ss" for t
    using Cons.prems(3) [of t] same [OF new [OF that]] that by simp
  from Cons.IH [OF ok1 _ this, of "res @ out"] Cons.prems(2)
  obtain outs db' where rest: "fold (reconcile_one env v origin now snap) ss (res @ out, db1) = ((res @ out) @ concat outs, db')"
      "run_result env v ss db1 db'" "list_all2 (\<lambda>s out. settled env v s out db') ss outs" by auto
  have unseen: "?fp s \<notin> ?fp ` set ss" using new by force
  then have kept: "rows_for env v (?fp s) db' = rows_for env v (?fp s) db1"
    using rest(2) unfolding run_result_def by blast
  have "run_result env v (s # ss) db db'"
    unfolding run_result_def
  proof (intro conjI allI impI ballI)
    show "lint_ok db'" "disposed db' = disposed db" "foreign v db' = foreign v db"
      using rest(2) one(2) unfolding run_result_def reconciled_def by metis+
    show "rows_for env v fp db' = rows_for env v fp db" if "fp \<notin> ?fp ` set (s # ss)" for fp
    proof -
      have "fp \<notin> ?fp ` set ss" "fp \<noteq> ?fp s" using that by auto
      then show ?thesis using rest(2) same unfolding run_result_def by metis
    qed
    fix fp assume fp: "fp \<in> ?fp ` set (s # ss)"
    have "(open_for env v fp db' = [] \<longleftrightarrow> open_for env v fp db = []
             \<and> list_ex (\<lambda>r. user_terminal (fd_status r)) (rows_for env v fp db))
          \<and> length (open_for env v fp db') \<le> max 1 (length (open_for env v fp db))"
    proof (cases "fp = ?fp s")
      case True
      then show ?thesis using one(2) unfolding True kept reconciled_def by blast
    next
      case False
      then have "fp \<in> ?fp ` set ss" using fp by auto
      then show ?thesis using rest(2) unfolding same [OF False, symmetric] run_result_def by blast
    qed
    then show "open_for env v fp db' = [] \<longleftrightarrow> open_for env v fp db = []
             \<and> list_ex (\<lambda>r. user_terminal (fd_status r)) (rows_for env v fp db)"
      "length (open_for env v fp db') \<le> max 1 (length (open_for env v fp db))" by blast+
  qed
  moreover have "settled env v s out db'" using one(3) settled_cong [OF kept] by simp
  ultimately show ?case using step rest(1,3) by (intro exI [of _ "out # outs"] exI [of _ db']) simp
qed

lemma settled_fold:
  "list_all2 (\<lambda>s out. settled env v s out db) ss outs \<Longrightarrow>
     fold (reconcile_one env v origin now db) ss (res, db) = (res @ concat outs, db)"
  by (induction arbitrary: res rule: list_all2_induct) (simp_all add: settled_again)

section \<open>The resolve pass\<close>

lemma fold_set_lint:
  assumes "\<And>x. fd_id (f x) = fd_id x" "\<And>x. fd_vault (f x) = fd_vault x" "\<And>x. f (f x) = f x"
  shows "fold (\<lambda>r. set_lint (fd_id r) v f) rs db
    = db\<lparr>lint_rows := update_rows (\<lambda>x. fd_vault x = v \<and> fd_id x \<in> fd_id ` set rs) f (lint_rows db)\<rparr>"
proof (induction rs arbitrary: db)
  case Nil
  then show ?case by (simp add: update_rows_def)
next
  case (Cons r rs)
  have "update_rows (\<lambda>x. fd_vault x = v \<and> fd_id x \<in> fd_id ` set rs) f (update_rows (\<lambda>x. fd_id x = fd_id r \<and> fd_vault x = v) f xs)
      = update_rows (\<lambda>x. fd_vault x = v \<and> fd_id x \<in> fd_id ` set (r # rs)) f xs" for xs
    unfolding update_rows_def map_map by (rule map_cong) (auto simp: assms)
  then show ?case using Cons.IH [of "set_lint (fd_id r) v f db"] by (simp add: set_lint_def)
qed

definition lost :: "word_env \<Rightarrow> nat \<Rightarrow> lint_spec list \<Rightarrow> lint_row \<Rightarrow> bool" where
  "lost env v specs r \<longleftrightarrow> fd_vault r = v \<and> fd_status r = LOpen \<and> fd_origin r = ''linter''
     \<and> row_lint_fingerprint env r \<notin> spec_fingerprint env ` set specs"

lemma auto_resolve_rows:
  assumes ok: "lint_ok db1"
    and same: "\<And>fp. fp \<notin> spec_fingerprint env ` set specs \<Longrightarrow> rows_for env v fp db1 = rows_for env v fp db"
  shows "auto_resolve env v specs db db1
    = db1\<lparr>lint_rows := update_rows (lost env v specs) (\<lambda>x. x\<lparr>fd_status := LAutoResolved\<rparr>) (lint_rows db1)\<rparr>"
proof -
  let ?gone = "filter (lost env v specs) (lint_rows db)"
  have both: "r \<in> set (lint_rows db) \<longleftrightarrow> r \<in> set (lint_rows db1)"
    if "fd_vault r = v" "row_lint_fingerprint env r \<notin> spec_fingerprint env ` set specs" for r
  proof -
    have "r \<in> set (rows_for env v (row_lint_fingerprint env r) db) \<longleftrightarrow> r \<in> set (rows_for env v (row_lint_fingerprint env r) db1)"
      using same [OF that(2)] by simp
    then show ?thesis using that(1) by (simp add: rows_for_def)
  qed
  have "fd_vault x = v \<and> fd_id x \<in> fd_id ` set ?gone \<longleftrightarrow> lost env v specs x" if x: "x \<in> set (lint_rows db1)" for x
  proof
    assume "fd_vault x = v \<and> fd_id x \<in> fd_id ` set ?gone"
    then obtain g where g: "g \<in> set (lint_rows db)" "lost env v specs g" "fd_id x = fd_id g" by auto
    then have "g \<in> set (lint_rows db1)" using both [of g] by (simp add: lost_def)
    then have "x = g" using lint_okD [OF ok x _ g(3)] by blast
    then show "lost env v specs x" using g(2) by simp
  next
    assume "lost env v specs x"
    then show "fd_vault x = v \<and> fd_id x \<in> fd_id ` set ?gone" using both [of x] x by (auto simp: lost_def)
  qed
  then have "update_rows (\<lambda>x. fd_vault x = v \<and> fd_id x \<in> fd_id ` set ?gone) f (lint_rows db1)
      = update_rows (lost env v specs) f (lint_rows db1)" for f
    unfolding update_rows_def by (intro map_cong) simp_all
  then show ?thesis
    unfolding auto_resolve_def Let_def lost_def [symmetric] by (subst fold_set_lint) simp_all
qed

lemma first_per_facts:
  "set (map k (first_per k xs)) = set (map k xs)" "distinct (map k (first_per k xs))" "set (first_per k xs) \<subseteq> set xs"
proof (induction xs)
  case (Cons x xs)
  { case 1
    have "k ` set (first_per k xs) = k ` set xs" using Cons.IH(1) by simp
    moreover have "k ` {y \<in> set (first_per k xs). k y \<noteq> k x} = k ` set (first_per k xs) - {k x}" by auto
    ultimately show ?case by auto }
  { case 2 show ?case using Cons.IH(2) by (auto simp: distinct_map_filter) }
  { case 3 show ?case using Cons.IH(3) by auto }
qed simp_all

text \<open>What a run on the present rows leaves, for each fingerprint of its vault.\<close>

lemma upsert_result:
  assumes ok: "lint_ok db" and run: "upsert_lint_findings env v specs origin now db db = (res, db')"
  obtains outs db1 where "run_result env v (first_per (spec_fingerprint env) specs) db db1"
    "list_all2 (\<lambda>s out. settled env v s out db1) (first_per (spec_fingerprint env) specs) outs" "res = concat outs"
    "db' = (if origin = ''linter''
       then db1\<lparr>lint_rows := update_rows (lost env v specs) (\<lambda>x. x\<lparr>fd_status := LAutoResolved\<rparr>) (lint_rows db1)\<rparr> else db1)"
proof -
  let ?ss = "first_per (spec_fingerprint env) specs"
  obtain outs db1 where 1: "fold (reconcile_one env v origin now db) ?ss ([], db) = (concat outs, db1)"
      "run_result env v ?ss db db1" "list_all2 (\<lambda>s out. settled env v s out db1) ?ss outs"
    using reconcile_all [OF ok first_per_facts(2), of env specs v db origin now "[]"] by auto
  have "lint_ok db1" and "rows_for env v fp db1 = rows_for env v fp db" if "fp \<notin> spec_fingerprint env ` set specs" for fp
    using 1(2) that first_per_facts(1) [of "spec_fingerprint env" specs] unfolding run_result_def set_map by metis+
  then have "auto_resolve env v specs db db1
    = db1\<lparr>lint_rows := update_rows (lost env v specs) (\<lambda>x. x\<lparr>fd_status := LAutoResolved\<rparr>) (lint_rows db1)\<rparr>"
    using 1(2) auto_resolve_rows [of db1 env specs v db] unfolding run_result_def by blast
  then show ?thesis using that [OF 1(2,3)] run 1(1) by (simp add: upsert_lint_findings_def split: if_splits)
qed

lemma resolved_rows:
  fixes env :: word_env and v :: nat and specs :: "lint_spec list"
  assumes "lint_ok db"
  defines "db' \<equiv> db\<lparr>lint_rows := update_rows (lost env v specs) (\<lambda>x. x\<lparr>fd_status := LAutoResolved\<rparr>) (lint_rows db)\<rparr>"
  shows "lint_ok db'" "disposed db' = disposed db" "foreign v db' = foreign v db"
    "rows_for env v fp db' = (if fp \<in> spec_fingerprint env ` set specs then rows_for env v fp db
       else map (\<lambda>r. if fd_status r = LOpen \<and> fd_origin r = ''linter'' then r\<lparr>fd_status := LAutoResolved\<rparr> else r)
         (rows_for env v fp db))"
proof -
  let ?f = "\<lambda>x. x\<lparr>fd_status := LAutoResolved\<rparr>"
  have ids: "map fd_id (lint_rows db') = map fd_id (lint_rows db)"
    unfolding db'_def by (simp add: map_key_update_rows)
  then have "fd_id ` set (lint_rows db') = fd_id ` set (lint_rows db)" by (metis set_map)
  moreover have "next_lint db' = next_lint db" by (simp add: db'_def)
  moreover have "fd_id r < next_lint db" if "fd_id r \<in> fd_id ` set (lint_rows db)" for r
    using that assms(1) by (auto simp: lint_ok_def)
  ultimately show "lint_ok db'" using assms(1) ids unfolding lint_ok_def by (simp del: set_map) blast
  have rows: "lint_rows db' = update_rows (lost env v specs) ?f (lint_rows db)" by (simp add: db'_def)
  have "disposed db' = update_rows (lost env v specs) ?f (disposed db)"
    unfolding disposed_def rows by (rule filter_update_rows) (simp add: lost_def)
  also have "\<dots> = disposed db" by (rule update_rows_none) (auto simp: disposed_def lost_def)
  finally show "disposed db' = disposed db" .
  have "foreign v db' = update_rows (lost env v specs) ?f (foreign v db)"
    unfolding foreign_def rows by (rule filter_update_rows) simp
  also have "\<dots> = foreign v db" by (rule update_rows_none) (auto simp: foreign_def lost_def)
  finally show "foreign v db' = foreign v db" .
  have "rows_for env v fp db' = update_rows (lost env v specs) ?f (rows_for env v fp db)"
    unfolding rows_for_def rows by (rule filter_update_rows) simp
  also have "\<dots> = (if fp \<in> spec_fingerprint env ` set specs then rows_for env v fp db
       else map (\<lambda>r. if fd_status r = LOpen \<and> fd_origin r = ''linter'' then r\<lparr>fd_status := LAutoResolved\<rparr> else r)
         (rows_for env v fp db))"
  proof (cases "fp \<in> spec_fingerprint env ` set specs")
    case True
    then show ?thesis by (simp add: update_rows_none lost_def rows_for_def)
  next
    case False
    then have "lost env v specs r \<longleftrightarrow> fd_status r = LOpen \<and> fd_origin r = ''linter''" if "r \<in> set (rows_for env v fp db)" for r
      using rows_forD [OF that] by (simp add: lost_def)
    then show ?thesis unfolding update_rows_def if_not_P [OF False] by (intro map_cong) simp_all
  qed
  finally show "rows_for env v fp db' = (if fp \<in> spec_fingerprint env ` set specs then rows_for env v fp db
       else map (\<lambda>r. if fd_status r = LOpen \<and> fd_origin r = ''linter'' then r\<lparr>fd_status := LAutoResolved\<rparr> else r)
         (rows_for env v fp db))" .
qed

section \<open>Properties\<close>

lemma lint_run_effect:
  assumes "lint_ok db" and "upsert_lint_findings env v specs origin now db db = (res, db')"
  shows "(if fp \<in> spec_fingerprint env ` set specs
       then (open_for env v fp db' = [] \<longleftrightarrow> open_for env v fp db = [] \<and> list_ex (\<lambda>r. user_terminal (fd_status r)) (rows_for env v fp db))
         \<and> length (open_for env v fp db') \<le> max 1 (length (open_for env v fp db))
       else open_for env v fp db' = filter (\<lambda>r. \<not> (origin = ''linter'' \<and> fd_origin r = ''linter'')) (open_for env v fp db))
     \<and> disposed db' = disposed db \<and> foreign v db' = foreign v db \<and> lint_ok db'"
proof -
  obtain outs db1 where 1: "run_result env v (first_per (spec_fingerprint env) specs) db db1"
    "db' = (if origin = ''linter''
       then db1\<lparr>lint_rows := update_rows (lost env v specs) (\<lambda>x. x\<lparr>fd_status := LAutoResolved\<rparr>) (lint_rows db1)\<rparr> else db1)"
    by (rule upsert_result [OF assms])
  have fps: "spec_fingerprint env ` set (first_per (spec_fingerprint env) specs) = spec_fingerprint env ` set specs"
    using first_per_facts(1) [of "spec_fingerprint env" specs] by simp
  have ok1: "lint_ok db1" using 1(1) unfolding run_result_def by blast
  note r = resolved_rows [OF ok1, where env = env and v = v and specs = specs]
  have keep: "disposed db' = disposed db" "foreign v db' = foreign v db" "lint_ok db'"
    using 1 r(1-3) unfolding run_result_def by (simp_all split: if_splits)
  show ?thesis
  proof (cases "fp \<in> spec_fingerprint env ` set specs")
    case True
    then have "rows_for env v fp db' = rows_for env v fp db1" using 1(2) r(4) by simp
    then show ?thesis using 1(1) True keep unfolding run_result_def fps by auto
  next
    case False
    then have same: "rows_for env v fp db1 = rows_for env v fp db" using 1(1) unfolding run_result_def fps by blast
    have "open_for env v fp db' = filter (\<lambda>r. \<not> (origin = ''linter'' \<and> fd_origin r = ''linter'')) (open_for env v fp db)"
    proof (cases "origin = ''linter''")
      case True
      have "filter (\<lambda>r. fd_status r = LOpen) (map (\<lambda>r. if fd_status r = LOpen \<and> fd_origin r = ''linter''
          then r\<lparr>fd_status := LAutoResolved\<rparr> else r) rs) = filter (\<lambda>r. \<not> fd_origin r = ''linter'') (filter (\<lambda>r. fd_status r = LOpen) rs)"
        for rs by (induction rs) auto
      then show ?thesis using 1(2) r(4) False same True by simp
    next
      case False
      then show ?thesis using 1(2) same by simp
    qed
    then show ?thesis using False keep by simp
  qed
qed

text \<open>
  C23 After a lint run the open rows of the vault are what they should be, for every fingerprint: a
  detected one has an open row, at most one unless there were more before, except when it had none
  and a user has disposed of one; an undetected one keeps its open rows, except that a run of the
  linter closes those of the linter. No row that a user has disposed of, and no row of another
  vault, changes.
\<close>

theorem lint_run_exact:
  assumes "lint_ok db" and "upsert_lint_findings env v specs origin now db db = (res, db')"
  shows "(if fp \<in> spec_fingerprint env ` set specs
       then (open_for env v fp db' = [] \<longleftrightarrow> open_for env v fp db = [] \<and> list_ex (\<lambda>r. user_terminal (fd_status r)) (rows_for env v fp db))
         \<and> length (open_for env v fp db') \<le> max 1 (length (open_for env v fp db))
       else open_for env v fp db' = filter (\<lambda>r. \<not> (origin = ''linter'' \<and> fd_origin r = ''linter'')) (open_for env v fp db))
     \<and> disposed db' = disposed db \<and> foreign v db' = foreign v db"
  using lint_run_effect [OF assms] by blast

text \<open>
  Lint runs are idempotent: repeated later with the same detections and origin, a run reports
  the same rows and changes nothing.
\<close>

theorem lint_run_idempotent:
  assumes "lint_ok db" and "upsert_lint_findings env v specs origin now db db = (res, db')"
  shows "upsert_lint_findings env v specs origin later db' db' = (res, db')"
proof -
  let ?ss = "first_per (spec_fingerprint env) specs"
  obtain outs db1 where 1: "run_result env v ?ss db db1" "list_all2 (\<lambda>s out. settled env v s out db1) ?ss outs" "res = concat outs"
    "db' = (if origin = ''linter''
       then db1\<lparr>lint_rows := update_rows (lost env v specs) (\<lambda>x. x\<lparr>fd_status := LAutoResolved\<rparr>) (lint_rows db1)\<rparr> else db1)"
    by (rule upsert_result [OF assms])
  have ok1: "lint_ok db1" using 1(1) unfolding run_result_def by blast
  note r = resolved_rows [OF ok1, where env = env and v = v and specs = specs]
  have "settled env v s out db' = settled env v s out db1" if "s \<in> set ?ss" for s out
  proof (rule settled_cong)
    have "spec_fingerprint env s \<in> spec_fingerprint env ` set specs" using that first_per_facts(3) [of "spec_fingerprint env" specs] by auto
    then show "rows_for env v (spec_fingerprint env s) db' = rows_for env v (spec_fingerprint env s) db1"
      using 1(4) r(4) by simp
  qed
  then have "list_all2 (\<lambda>s out. settled env v s out db') ?ss outs"
    using 1(2) by (auto simp: list_all2_conv_all_nth)
  from settled_fold [OF this, of origin later "[]"]
  have again: "fold (reconcile_one env v origin later db') ?ss ([], db') = (res, db')" using 1(3) by simp
  have "auto_resolve env v specs db' db' = db'" if "origin = ''linter''"
  proof -
    have rows: "lint_rows db' = map (\<lambda>r. if lost env v specs r then r\<lparr>fd_status := LAutoResolved\<rparr> else r) (lint_rows db1)"
      using 1(4) that by (simp add: update_rows_def)
    have "\<not> lost env v specs x" if x: "x \<in> set (lint_rows db')" for x
    proof -
      obtain y where "x = (if lost env v specs y then y\<lparr>fd_status := LAutoResolved\<rparr> else y)"
        using x unfolding rows set_map by (rule imageE)
      then show ?thesis by (cases "lost env v specs y") (simp_all add: lost_def)
    qed
    then have "filter (lost env v specs) (lint_rows db') = []" by (simp add: filter_empty_conv)
    then show ?thesis unfolding auto_resolve_def Let_def lost_def [symmetric] by simp
  qed
  then show ?thesis using again by (simp add: upsert_lint_findings_def)
qed

text \<open>
  Sequences of lint runs and dispositions. A run works with rows it has read before its
  transaction.
\<close>

datatype lint_op = LintRun nat "lint_spec list" string int claims_db | Dispose nat nat lint_status

fun exec_lint :: "word_env \<Rightarrow> lint_op \<Rightarrow> claims_db \<Rightarrow> claims_db" where
  "exec_lint env (LintRun v specs origin now snap) db = snd (upsert_lint_findings env v specs origin now snap db)"
| "exec_lint env (Dispose i v status) db = snd (update_lint_finding i v status db)"

text \<open>Every run has read one of the states \<open>seen\<close> since the last disposition before it.\<close>

fun reads_since_disposition :: "word_env \<Rightarrow> lint_op list \<Rightarrow> claims_db list \<Rightarrow> claims_db \<Rightarrow> bool" where
  "reads_since_disposition env [] seen db = True"
| "reads_since_disposition env (LintRun v specs origin now snap # ops) seen db =
     (let db' = exec_lint env (LintRun v specs origin now snap) db
      in snap \<in> set seen \<and> reads_since_disposition env ops (db' # seen) db')"
| "reads_since_disposition env (Dispose i v status # ops) seen db =
     (let db' = exec_lint env (Dispose i v status) db in reads_since_disposition env ops [db'] db')"

definition suppressed :: "word_env \<Rightarrow> nat \<Rightarrow> string \<times> nat list \<times> pystr \<Rightarrow> claims_db \<Rightarrow> bool" where
  "suppressed env v fp db \<longleftrightarrow> open_for env v fp db = []
     \<and> (\<exists>r \<in> set (disposed db). fd_vault r = v \<and> row_lint_fingerprint env r = fp)"

lemma suppressed_rows:
  "(\<exists>r \<in> set (disposed db). fd_vault r = v \<and> row_lint_fingerprint env r = fp)
     \<longleftrightarrow> list_ex (\<lambda>r. user_terminal (fd_status r)) (rows_for env v fp db)"
  by (auto simp: disposed_def rows_for_def list_ex_iff)

lemma rows_for_foreign: "v \<noteq> w \<Longrightarrow> rows_for env v fp db = filter (\<lambda>r. fd_vault r = v \<and> row_lint_fingerprint env r = fp) (foreign w db)"
  unfolding rows_for_def foreign_def filter_filter by (rule filter_cong) auto

text \<open>
  What every write of a run does: it disposes of no row and touches none that is disposed of,
  keeps id, vault and fingerprint of every row, and opens no row of a suppressed fingerprint.
\<close>

definition kept_rows :: "word_env \<Rightarrow> claims_db \<Rightarrow> claims_db \<Rightarrow> bool" where
  "kept_rows env db db' \<longleftrightarrow> (\<forall>r \<in> set (lint_rows db). \<exists>r' \<in> set (lint_rows db'). fd_id r' = fd_id r
     \<and> fd_vault r' = fd_vault r \<and> row_lint_fingerprint env r' = row_lint_fingerprint env r)"

definition soft :: "word_env \<Rightarrow> claims_db \<Rightarrow> claims_db \<Rightarrow> bool" where
  "soft env db db' \<longleftrightarrow> lint_ok db' \<and> disposed db' = disposed db \<and> kept_rows env db db'
     \<and> (\<forall>v fp. suppressed env v fp db \<longrightarrow> suppressed env v fp db')"

definition descends :: "word_env \<Rightarrow> claims_db \<Rightarrow> claims_db \<Rightarrow> bool" where
  "descends env snap db \<longleftrightarrow> lint_ok snap \<and> disposed db = disposed snap \<and> kept_rows env snap db"

lemma kept_rows_refl [simp]: "kept_rows env db db"
  by (auto simp: kept_rows_def)

lemma kept_rows_trans: "kept_rows env a b \<Longrightarrow> kept_rows env b c \<Longrightarrow> kept_rows env a c"
  unfolding kept_rows_def by metis

lemma soft_refl [simp]: "lint_ok db \<Longrightarrow> soft env db db"
  by (simp add: soft_def)

lemma soft_trans: "soft env a b \<Longrightarrow> soft env b c \<Longrightarrow> soft env a c"
  using kept_rows_trans unfolding soft_def by metis

lemma descends_soft: "descends env snap db \<Longrightarrow> soft env db db' \<Longrightarrow> descends env snap db'"
  using kept_rows_trans unfolding soft_def descends_def by metis

text \<open>A row that was not disposed of in the reading is not disposed of now, with the same fingerprint.\<close>

lemma descends_row:
  assumes "lint_ok db" and "descends env snap db" and "r \<in> set (lint_rows snap)" and "\<not> user_terminal (fd_status r)"
    and "x \<in> set (lint_rows db)" and "fd_id x = fd_id r"
  shows "\<not> user_terminal (fd_status x) \<and> row_lint_fingerprint env x = row_lint_fingerprint env r \<and> fd_vault x = fd_vault r"
proof -
  obtain r' where r': "r' \<in> set (lint_rows db)" "fd_id r' = fd_id r" "fd_vault r' = fd_vault r"
      "row_lint_fingerprint env r' = row_lint_fingerprint env r"
    using assms(2,3) by (auto simp: descends_def kept_rows_def)
  have "x = r'" by (rule lint_okD [OF assms(1,5) r'(1)]) (simp add: assms(6) r'(2))
  moreover have "\<not> user_terminal (fd_status x)"
  proof
    assume "user_terminal (fd_status x)"
    then have "x \<in> set (disposed db)" using assms(5) by (simp add: disposed_def)
    then have "x \<in> set (disposed snap)" using assms(2) by (simp add: descends_def)
    then have x: "x \<in> set (lint_rows snap)" "user_terminal (fd_status x)" by (simp_all add: disposed_def)
    have "x = r" by (rule lint_okD [OF _ x(1) assms(3,6)]) (use assms(2) in \<open>simp add: descends_def\<close>)
    then show False using x(2) assms(4) by simp
  qed
  ultimately show ?thesis using r' by simp
qed

lemma soft_set_lint:
  assumes ok: "lint_ok db"
    and f: "\<And>r. r \<in> set (lint_rows db) \<Longrightarrow> fd_id r = i \<Longrightarrow> fd_vault r = v \<Longrightarrow> fd_id (f r) = i \<and> fd_vault (f r) = v
      \<and> row_lint_fingerprint env (f r) = row_lint_fingerprint env r
      \<and> \<not> user_terminal (fd_status r) \<and> \<not> user_terminal (fd_status (f r))
      \<and> (fd_status (f r) = LOpen \<longrightarrow> fd_status r = LOpen \<or> \<not> suppressed env v (row_lint_fingerprint env r) db)"
  shows "soft env db (set_lint i v f db)"
proof -
  let ?db = "set_lint i v f db"
  have w: "lint_write env i v f db" unfolding lint_write_def using f by blast
  have d: "disposed ?db = disposed db" by (rule disposed_set_lint) (use f in blast)
  have "kept_rows env db ?db"
    unfolding kept_rows_def
  proof
    fix r assume r: "r \<in> set (lint_rows db)"
    let ?r = "if fd_id r = i \<and> fd_vault r = v then f r else r"
    have "?r \<in> set (lint_rows ?db)"
      using in_update_rows [OF r, of "\<lambda>r. fd_id r = i \<and> fd_vault r = v" f] by simp
    moreover have "fd_id ?r = fd_id r \<and> fd_vault ?r = fd_vault r
        \<and> row_lint_fingerprint env ?r = row_lint_fingerprint env r"
      using f [OF r] by simp
    ultimately show "\<exists>r' \<in> set (lint_rows ?db). fd_id r' = fd_id r
        \<and> fd_vault r' = fd_vault r \<and> row_lint_fingerprint env r' = row_lint_fingerprint env r" by blast
  qed
  moreover have "suppressed env u fp ?db" if sup: "suppressed env u fp db" for u fp
  proof -
    have "\<not> (fd_vault x = u \<and> row_lint_fingerprint env x = fp \<and> fd_status x = LOpen)" if x: "x \<in> set (lint_rows ?db)" for x
    proof -
      obtain y where y: "y \<in> set (lint_rows db)" "x = (if fd_id y = i \<and> fd_vault y = v then f y else y)"
        using x by (auto simp: set_update_rows)
      have "\<not> (fd_vault y = u \<and> row_lint_fingerprint env y = fp \<and> fd_status y = LOpen)"
        using sup y(1) by (auto simp: suppressed_def rows_for_def filter_empty_conv)
      then show ?thesis using f [OF y(1)] y(2) sup by (auto split: if_splits)
    qed
    then have "open_for env u fp ?db = []" unfolding rows_for_def filter_empty_conv by auto
    then show ?thesis using sup d by (simp add: suppressed_def)
  qed
  ultimately show ?thesis using set_lint_ok [OF ok w] d by (simp add: soft_def)
qed

lemma soft_insert:
  assumes "lint_ok db" and "\<not> suppressed env v (spec_fingerprint env s) db"
  shows "soft env db (insert_lint (fresh_lint v origin now s) db)"
proof -
  have "kept_rows env db (insert_lint (fresh_lint v origin now s) db)" by (auto simp: kept_rows_def)
  moreover have "suppressed env u fp (insert_lint (fresh_lint v origin now s) db)" if "suppressed env u fp db" for u fp
    using that assms(2) by (auto simp: suppressed_def rows_for_insert disposed_def)
  ultimately show ?thesis using insert_lint_ok [OF assms(1), of "fresh_lint v origin now s"]
    by (simp add: soft_def disposed_def)
qed

lemma reconcile_soft:
  assumes ok: "lint_ok db" and d: "descends env snap db"
  shows "soft env db (snd (reconcile_one env v origin now snap s (res, db)))"
proof -
  let ?fp = "spec_fingerprint env s"
  let ?hits = "rows_for env v ?fp snap"
  let ?fl = "filter (\<lambda>r. fd_status r = LAutoResolved \<and> fd_origin r = origin) ?hits"
  have row: "\<not> user_terminal (fd_status x) \<and> row_lint_fingerprint env x = ?fp \<and> fd_vault x = v"
    if "r \<in> set ?hits" "\<not> user_terminal (fd_status r)" "x \<in> set (lint_rows db)" "fd_id x = fd_id r" for r x
    using descends_row [OF ok d _ that(2-4)] rows_forD [OF that(1)] by simp
  have payload: "soft env db (set_lint (fd_id r) v (with_payload s) db)"
    if r: "r \<in> set ?hits" "\<not> user_terminal (fd_status r)" for r
    using row [OF r] fingerprint_with_payload by (intro soft_set_lint [OF ok]) auto
  have free: "\<not> suppressed env v ?fp db" if "\<not> list_ex (\<lambda>r. user_terminal (fd_status r)) ?hits"
    using that suppressed_rows [of snap v env ?fp] d by (simp add: suppressed_def descends_def)
  have reopen: "soft env db (set_lint (fd_id r) v (\<lambda>r. with_payload s (r\<lparr>fd_status := LOpen\<rparr>)) db)"
    if r: "r \<in> set ?hits" "\<not> user_terminal (fd_status r)" "\<not> list_ex (\<lambda>r. user_terminal (fd_status r)) ?hits" for r
    using row [OF r(1,2)] fingerprint_with_payload [of env _ s] free [OF r(3)]
    by (intro soft_set_lint [OF ok]) auto
  show ?thesis
  proof (cases "open_for env v ?fp snap")
    case (Cons r rs)
    note r = open_hd [OF Cons]
    then have "soft env db (set_lint (fd_id r) v (with_payload s) db)" using payload by simp
    then show ?thesis using Cons ok
      by (simp add: reconcile_one_def rows_for_def [symmetric] Let_def)
  next
    case Nil
    show ?thesis
    proof (cases "list_ex (\<lambda>r. user_terminal (fd_status r)) ?hits")
      case True
      then show ?thesis using Nil ok by (simp add: reconcile_one_def rows_for_def [symmetric] Let_def)
    next
      case False
      note ins = soft_insert [OF ok free [OF False], of origin now]
      show ?thesis
      proof (cases ?fl)
        case Nil2: Nil
        then show ?thesis using Nil False ins by (simp add: reconcile_one_def rows_for_def [symmetric] Let_def)
      next
        case (Cons a as)
        have "newest as a \<in> set ?fl" using newest_in [of as a] unfolding Cons .
        then have "newest as a \<in> set ?hits" "\<not> user_terminal (fd_status (newest as a))" by auto
        from reopen [OF this False] show ?thesis using Nil False ins Cons
          by (simp add: reconcile_one_def rows_for_def [symmetric] Let_def)
      qed
    qed
  qed
qed

lemma reconcile_all_soft:
  assumes "lint_ok db" and "descends env snap db"
  shows "soft env db (snd (fold (reconcile_one env v origin now snap) ss (res, db)))"
  using assms
proof (induction ss arbitrary: res db)
  case (Cons s ss)
  obtain res1 db1 where one: "reconcile_one env v origin now snap s (res, db) = (res1, db1)" by fastforce
  have s: "soft env db db1" using reconcile_soft [OF Cons.prems, of v origin now s res] one by simp
  then have "soft env db1 (snd (fold (reconcile_one env v origin now snap) ss (res1, db1)))"
    using Cons.IH descends_soft [OF Cons.prems(2) s] by (simp add: soft_def)
  then show ?case using soft_trans [OF s] one by simp
qed simp

lemma auto_resolve_soft:
  assumes "lint_ok db" and "descends env snap db" and "\<And>r. r \<in> set gone \<Longrightarrow> r \<in> set (lint_rows snap) \<and> fd_status r = LOpen"
  shows "soft env db (fold (\<lambda>r. set_lint (fd_id r) v (\<lambda>x. x\<lparr>fd_status := LAutoResolved\<rparr>)) gone db)"
  using assms
proof (induction gone arbitrary: db)
  case (Cons r gone)
  have "r \<in> set (lint_rows snap)" "\<not> user_terminal (fd_status r)" using Cons.prems(3) [of r] by simp_all
  note row = descends_row [OF Cons.prems(1,2) this]
  have s: "soft env db (set_lint (fd_id r) v (\<lambda>x. x\<lparr>fd_status := LAutoResolved\<rparr>) db)"
    using row by (intro soft_set_lint [OF Cons.prems(1)]) auto
  then have "lint_ok (set_lint (fd_id r) v (\<lambda>x. x\<lparr>fd_status := LAutoResolved\<rparr>) db)" by (simp add: soft_def)
  from Cons.IH [OF this descends_soft [OF Cons.prems(2) s]] Cons.prems(3) soft_trans [OF s]
  show ?case by simp
qed simp

lemma run_soft:
  assumes "lint_ok db" and "descends env snap db"
  shows "soft env db (exec_lint env (LintRun v specs origin now snap) db)"
proof -
  obtain res db1 where 1: "fold (reconcile_one env v origin now snap) (first_per (spec_fingerprint env) specs) ([], db) = (res, db1)"
    by fastforce
  have s: "soft env db db1"
    using reconcile_all_soft [OF assms, of v origin now "first_per (spec_fingerprint env) specs" "[]"] 1 by simp
  have "soft env db1 (auto_resolve env v specs snap db1)"
    unfolding auto_resolve_def Let_def using s descends_soft [OF assms(2) s]
    by (intro auto_resolve_soft) (auto simp: soft_def)
  then show ?thesis using s soft_trans [OF s] 1 by (simp add: upsert_lint_findings_def)
qed

lemma exec_dispose:
  assumes ok: "lint_ok db"
  shows "lint_ok (exec_lint env (Dispose i w status) db)"
    and "fd_id ` set (disposed db) \<subseteq> fd_id ` set (disposed (exec_lint env (Dispose i w status) db))"
    and "suppressed env v fp db \<Longrightarrow> suppressed env v fp (exec_lint env (Dispose i w status) db)"
proof -
  let ?db = "exec_lint env (Dispose i w status) db" and ?f = "\<lambda>r. r\<lparr>fd_status := status\<rparr>"
  let ?p = "\<lambda>r. fd_id r = i \<and> fd_vault r = w"
  consider "?db = db" | "user_terminal status" "?db = set_lint i w ?f db"
    by (cases "user_terminal status") (simp_all add: update_lint_finding_def set_lint_def Let_def)
  then have "lint_ok ?db \<and> fd_id ` set (disposed db) \<subseteq> fd_id ` set (disposed ?db)
      \<and> (suppressed env v fp db \<longrightarrow> suppressed env v fp ?db)"
  proof cases
    case 2
    have w: "lint_write env i w ?f db" by (simp add: lint_write_def)
    have rows: "lint_rows ?db = map (\<lambda>r. if ?p r then ?f r else r) (lint_rows db)" unfolding 2(2) by (simp add: update_rows_def)
    have dis: "(if ?p r then ?f r else r) \<in> set (disposed ?db)" if "r \<in> set (disposed db)" for r
      using that 2(1) unfolding disposed_def rows by auto
    have "open_for env v fp ?db = []" if "open_for env v fp db = []"
      using that 2(1) unfolding rows_for_def rows by (auto simp: filter_empty_conv)
    moreover have "\<exists>r \<in> set (disposed ?db). fd_vault r = v \<and> row_lint_fingerprint env r = fp"
      if "r \<in> set (disposed db)" "fd_vault r = v" "row_lint_fingerprint env r = fp" for r
      using dis [OF that(1)] that(2,3) by (intro bexI [of _ "if ?p r then ?f r else r"]) auto
    moreover have "fd_id ` set (disposed db) \<subseteq> fd_id ` set (disposed ?db)"
    proof
      fix k assume "k \<in> fd_id ` set (disposed db)"
      then obtain r where "r \<in> set (disposed db)" "k = fd_id r" by blast
      then show "k \<in> fd_id ` set (disposed ?db)"
        using dis [of r] by (intro image_eqI [of _ _ "if ?p r then ?f r else r"]) auto
    qed
    moreover have "lint_ok ?db" unfolding 2(2) by (rule set_lint_ok [OF ok w])
    ultimately show ?thesis unfolding suppressed_def by blast
  qed (use ok in simp)
  then show "lint_ok ?db" "fd_id ` set (disposed db) \<subseteq> fd_id ` set (disposed ?db)"
    "suppressed env v fp db \<Longrightarrow> suppressed env v fp ?db" by blast+
qed

lemma dispositions_kept:
  assumes "lint_ok db" and "reads_since_disposition env ops seen db" and "\<forall>x \<in> set seen. descends env x db"
  shows "fd_id ` set (disposed db) \<subseteq> fd_id ` set (disposed (fold (exec_lint env) ops db))
    \<and> (suppressed env v fp db \<longrightarrow> suppressed env v fp (fold (exec_lint env) ops db))"
  using assms
proof (induction ops arbitrary: db seen)
  case (Cons c ops)
  let ?db = "exec_lint env c db"
  have "\<exists>seen'. lint_ok ?db \<and> fd_id ` set (disposed db) \<subseteq> fd_id ` set (disposed ?db)
      \<and> (suppressed env v fp db \<longrightarrow> suppressed env v fp ?db)
      \<and> reads_since_disposition env ops seen' ?db \<and> (\<forall>x \<in> set seen'. descends env x ?db)"
  proof (cases c)
    case (LintRun w specs origin now snap)
    then have r: "snap \<in> set seen" "reads_since_disposition env ops (?db # seen) ?db"
      using Cons.prems(2) by (simp_all add: Let_def)
    have s: "soft env db ?db" using run_soft [OF Cons.prems(1)] Cons.prems(3) r(1) LintRun by simp
    then have "\<forall>x \<in> set (?db # seen). descends env x ?db"
      using Cons.prems(3) descends_soft [OF _ s] by (simp add: soft_def) (simp add: descends_def)
    moreover have "suppressed env v fp db \<longrightarrow> suppressed env v fp ?db" using s unfolding soft_def by blast
    moreover have "lint_ok ?db" "disposed ?db = disposed db" using s unfolding soft_def by blast+
    ultimately show ?thesis using r(2) by (intro exI [of _ "?db # seen"]) simp
  next
    case (Dispose i w status)
    note d = exec_dispose [OF Cons.prems(1), where env = env and i = i and w = w and status = status]
    have "reads_since_disposition env ops [?db] ?db" using Cons.prems(2) Dispose by (simp add: Let_def)
    then show ?thesis using d unfolding Dispose by (intro exI [of _ "[exec_lint env (Dispose i w status) db]"]) (simp add: descends_def)
  qed
  then obtain seen' where one: "lint_ok ?db" "fd_id ` set (disposed db) \<subseteq> fd_id ` set (disposed ?db)"
      "suppressed env v fp db \<longrightarrow> suppressed env v fp ?db" "reads_since_disposition env ops seen' ?db"
      "\<forall>x \<in> set seen'. descends env x ?db" by blast
  note rest = Cons.IH [OF one(1,4,5)]
  show ?case using subset_trans [OF one(2) conjunct1 [OF rest]] conjunct2 [OF rest] one(3) by simp
qed simp

text \<open>
  C24 What a user has disposed of stays disposed of. Let lint runs of any producer on any vault and
  dispositions by users follow one another, every run with rows that it has read in any state since
  the last disposition before it: a row that a user has disposed of is never open or closed
  automatically, and a fingerprint with such a row and no open row never gets one. Only a run that
  has read before a disposition can undo it (\<open>stale_lint_run_overwrites_disposition\<close>).
\<close>

theorem dispositions_survive:
  assumes "lint_ok db" and "reads_since_disposition env ops [db] db"
  shows "fd_id ` set (disposed db) \<subseteq> fd_id ` set (disposed (fold (exec_lint env) ops db))
    \<and> (suppressed env v fp db \<longrightarrow> suppressed env v fp (fold (exec_lint env) ops db))"
  using assms by (intro dispositions_kept [where seen = "[db]"]) (simp_all add: descends_def)

section \<open>Runs on old readings\<close>

definition row_keys :: "claims_db \<Rightarrow> (nat \<times> nat) set" where
  "row_keys db = (\<lambda>r. (fd_id r, fd_vault r)) ` set (lint_rows db)"

lemma row_keys_set_lint:
  assumes "\<And>r. fd_id (f r) = fd_id r" "\<And>r. fd_vault (f r) = fd_vault r"
  shows "row_keys (set_lint i v f db) = row_keys db"
  unfolding row_keys_def set_lint_fields set_update_rows image_image by (rule image_cong [OF refl]) (simp add: assms)

lemma reconcile_keeps_keys:
  "row_keys db \<subseteq> row_keys (snd (reconcile_one env v origin now snap s (res, db)))"
proof -
  have "row_keys db \<subseteq> row_keys (insert_lint g db)" for g by (auto simp: row_keys_def)
  moreover have "row_keys (set_lint i v (with_payload s) db) = row_keys db"
      "row_keys (set_lint i v (\<lambda>r. with_payload s (r\<lparr>fd_status := LOpen\<rparr>)) db) = row_keys db" for i
    by (rule row_keys_set_lint; simp)+
  ultimately show ?thesis by (simp add: reconcile_one_def Let_def)
qed

lemma reconcile_all_keeps_keys:
  "row_keys db \<subseteq> row_keys (snd (fold (reconcile_one env v origin now snap) ss (res, db)))"
proof (induction ss arbitrary: res db)
  case (Cons s ss)
  obtain res1 db1 where one: "reconcile_one env v origin now snap s (res, db) = (res1, db1)" by fastforce
  then have "row_keys db \<subseteq> row_keys db1" using reconcile_keeps_keys [of db env v origin now snap s res] by simp
  also have "\<dots> \<subseteq> row_keys (snd (fold (reconcile_one env v origin now snap) ss (res1, db1)))" by (rule Cons.IH)
  finally show ?case using one by simp
qed simp

text \<open>
  A run of the linter that has read the rows before its transaction closes, as resolved
  automatically, a row that a user has disposed of in between; from that status the next
  detection reopens it.
\<close>

lemma stale_lint_run_overwrites_disposition:
  assumes "r \<in> set (lint_rows db)" and "lost env v specs r" and "user_terminal status"
  shows "\<exists>r' \<in> set (lint_rows (snd (upsert_lint_findings env v specs ''linter'' now db
      (exec_lint env (Dispose (fd_id r) v status) db)))). fd_id r' = fd_id r \<and> fd_status r' = LAutoResolved"
proof -
  let ?f = "\<lambda>x. x\<lparr>fd_status := LAutoResolved\<rparr>"
  let ?gone = "filter (lost env v specs) (lint_rows db)"
  let ?db1 = "exec_lint env (Dispose (fd_id r) v status) db"
  let ?all = "fold (reconcile_one env v ''linter'' now db) (first_per (spec_fingerprint env) specs) ([], ?db1)"
  have "?db1 = set_lint (fd_id r) v (\<lambda>r. r\<lparr>fd_status := status\<rparr>) db"
    using assms(3) by (simp add: update_lint_finding_def set_lint_def Let_def)
  then have "row_keys ?db1 = row_keys db" using row_keys_set_lint by simp
  moreover have "(fd_id r, v) \<in> row_keys db" using assms(1,2) by (force simp: row_keys_def lost_def)
  ultimately have "(fd_id r, v) \<in> row_keys (snd ?all)" using reconcile_all_keeps_keys by blast
  then obtain x where x: "x \<in> set (lint_rows (snd ?all))" "fd_id x = fd_id r" "fd_vault x = v" by (auto simp: row_keys_def)
  have "auto_resolve env v specs db (snd ?all) = (snd ?all)\<lparr>lint_rows :=
      update_rows (\<lambda>x. fd_vault x = v \<and> fd_id x \<in> fd_id ` set ?gone) ?f (lint_rows (snd ?all))\<rparr>"
    unfolding auto_resolve_def Let_def lost_def [symmetric] by (rule fold_set_lint) simp_all
  then have rows: "lint_rows (snd (upsert_lint_findings env v specs ''linter'' now db ?db1))
      = update_rows (\<lambda>x. fd_vault x = v \<and> fd_id x \<in> fd_id ` set ?gone) ?f (lint_rows (snd ?all))"
    by (simp add: upsert_lint_findings_def case_prod_unfold)
  have "fd_vault x = v \<and> fd_id x \<in> fd_id ` set ?gone" using x assms(1,2) by auto
  then have "?f x \<in> set (lint_rows (snd (upsert_lint_findings env v specs ''linter'' now db ?db1)))"
    using in_update_rows [OF x(1), of "\<lambda>x. fd_vault x = v \<and> fd_id x \<in> fd_id ` set ?gone" ?f] unfolding rows by (simp only: if_True simp_thms)
  then show ?thesis using x(2) by (intro bexI [of _ "?f x"]) simp_all
qed

section \<open>A run\<close>

definition lint_words :: word_env where
  "lint_words = \<lparr>we_lower = (\<lambda>t. t), we_word = (\<lambda>c. 97 \<le> c \<and> c \<le> 122)\<rparr>"

definition orphan_spec :: lint_spec where
  "orphan_spec = \<lparr>sp_type = ''orphan'', sp_title = [97], sp_severity = ''medium'', sp_details = [], sp_pages = [], sp_claims = [5]\<rparr>"

definition orphan_row :: "lint_status \<Rightarrow> lint_row" where
  "orphan_row st = (fresh_lint 1 ''linter'' 10 orphan_spec 1)\<lparr>fd_status := st\<rparr>"

definition lint_with :: "lint_status \<Rightarrow> claims_db" where
  "lint_with st = \<lparr>claims = [], claim_sources = [], lint_rows = [orphan_row st], next_claim = 1, next_lint = 2\<rparr>"

lemma orphan_row_fields [simp]:
  "fd_id (orphan_row st) = 1" "fd_vault (orphan_row st) = 1" "fd_status (orphan_row st) = st"
  "fd_origin (orphan_row st) = ''linter''" "row_lint_fingerprint env (orphan_row st) = spec_fingerprint env orphan_spec"
  "(orphan_row st)\<lparr>fd_status := st'\<rparr> = orphan_row st'" "same_payload orphan_spec (orphan_row st)"
  "with_payload orphan_spec (orphan_row st) = orphan_row st"
  by (simp_all add: orphan_row_def) (simp_all add: fresh_lint_def same_payload_def with_payload_def)

lemma lint_with_ok: "lint_ok (lint_with st)"
  by (simp add: lint_ok_def lint_with_def)

lemma run_nothing:
  "upsert_lint_findings lint_words 1 [] ''linter'' 20 (lint_with LOpen) (lint_with LOpen) = ([], lint_with LAutoResolved)"
  by (simp add: upsert_lint_findings_def auto_resolve_def lint_with_def set_lint_def update_rows_def)

lemma run_detects:
  "upsert_lint_findings lint_words 1 [orphan_spec] ''linter'' 30 (lint_with LAutoResolved) (lint_with LAutoResolved)
     = ([1], lint_with LOpen)"
  by (simp add: upsert_lint_findings_def auto_resolve_def lint_with_def set_lint_def update_rows_def reconcile_one_def
      orphan_row_fields [unfolded One_nat_def])

lemma lint_run_exact_witness:
  "open_for lint_words 1 (spec_fingerprint lint_words orphan_spec) (lint_with LAutoResolved) = []
     \<and> disposed (lint_with LAutoResolved) = disposed (lint_with LOpen)"
  using lint_run_exact [OF lint_with_ok run_nothing, of "spec_fingerprint lint_words orphan_spec"]
  by (simp add: rows_for_def lint_with_def)

lemma lint_run_idempotent_witness:
  "upsert_lint_findings lint_words 1 [orphan_spec] ''linter'' 99 (lint_with LOpen) (lint_with LOpen) = ([1], lint_with LOpen)"
  by (rule lint_run_idempotent [OF lint_with_ok run_detects])

text \<open>Two runs of the linter that have both read the rows before either of them wrote.\<close>

lemma dispositions_survive_witness:
  "suppressed lint_words 1 (spec_fingerprint lint_words orphan_spec)
     (fold (exec_lint lint_words) [LintRun 1 [] ''linter'' 20 (lint_with LDismissed),
        LintRun 1 [orphan_spec] ''linter'' 30 (lint_with LDismissed)] (lint_with LDismissed))"
proof -
  have "suppressed lint_words 1 (spec_fingerprint lint_words orphan_spec) (lint_with LDismissed)"
    by (simp add: suppressed_def disposed_def rows_for_def lint_with_def)
  moreover have "reads_since_disposition lint_words [LintRun 1 [] ''linter'' 20 (lint_with LDismissed),
      LintRun 1 [orphan_spec] ''linter'' 30 (lint_with LDismissed)] [lint_with LDismissed] (lint_with LDismissed)"
    by (simp add: Let_def del: exec_lint.simps)
  ultimately show ?thesis using dispositions_survive [OF lint_with_ok] by blast
qed

lemma stale_lint_run_overwrites_disposition_witness:
  "\<exists>r' \<in> set (lint_rows (snd (upsert_lint_findings lint_words 1 [] ''linter'' 20 (lint_with LOpen)
      (exec_lint lint_words (Dispose 1 1 LDismissed) (lint_with LOpen))))). fd_id r' = 1 \<and> fd_status r' = LAutoResolved"
proof -
  have "orphan_row LOpen \<in> set (lint_rows (lint_with LOpen))" "lost lint_words 1 [] (orphan_row LOpen)" "user_terminal LDismissed"
    by (simp_all add: lint_with_def lost_def)
  from stale_lint_run_overwrites_disposition [OF this, of 20] show ?thesis unfolding orphan_row_fields .
qed

end
