(* ===== verification/Wiki_Claim_Properties.thy ===== *)
theory Wiki_Claim_Properties
  imports Wiki_Claims
begin

text \<open>
  Which claims the passes over claims supersede: when a source is deleted, and when a document is
  compiled again. Both passes go over the claims of the source one by one; \<open>claim_pass\<close> is what
  they share.
\<close>

section \<open>Passes over claims\<close>

abbreviation db_of :: "nat \<times> nat \<times> claims_db \<Rightarrow> claims_db" where
  "db_of x \<equiv> snd (snd x)"

definition supersede_where :: "(claim \<Rightarrow> bool) \<Rightarrow> claim list \<Rightarrow> claim list" where
  "supersede_where p = update_rows p (\<lambda>c. c\<lparr>cl_status := CSuperseded\<rparr>)"

locale claim_pass =
  fixes visit :: "nat \<Rightarrow> nat \<times> nat \<times> claims_db \<Rightarrow> nat \<times> nat \<times> claims_db"
    and hit :: "claims_db \<Rightarrow> claim \<Rightarrow> bool"
  assumes visit_claims: "distinct (map cl_id (claims (db_of x))) \<Longrightarrow>
      claims (db_of (visit i x)) = supersede_where (\<lambda>c. cl_id c = i \<and> hit (db_of x) c) (claims (db_of x))"
    and visit_sources: "claim_sources (db_of (visit i x)) = claim_sources (db_of x)"
    and hit_sources: "claim_sources db' = claim_sources db \<Longrightarrow> hit db' c = hit db c"
begin

lemma pass:
  "distinct (map cl_id (claims (db_of x))) \<Longrightarrow> distinct js \<Longrightarrow>
     claims (db_of (fold visit js x)) = supersede_where (\<lambda>c. cl_id c \<in> set js \<and> hit (db_of x) c) (claims (db_of x))
     \<and> claim_sources (db_of (fold visit js x)) = claim_sources (db_of x)"
proof (induction js arbitrary: x)
  case Nil
  then show ?case by (simp add: supersede_where_def update_rows_none)
next
  case (Cons i js)
  note one = visit_claims [OF Cons.prems(1), of i] visit_sources [of i x]
  have ids: "map cl_id (claims (db_of (visit i x))) = map cl_id (claims (db_of x))"
    unfolding one(1) supersede_where_def by (rule map_key_update_rows) simp
  have h: "hit (db_of (visit i x)) c = hit (db_of x) c" for c by (rule hit_sources [OF one(2)])
  have comp: "supersede_where (\<lambda>c. cl_id c \<in> set js \<and> hit (db_of x) c) (supersede_where (\<lambda>c. cl_id c = i \<and> hit (db_of x) c) cs)
      = supersede_where (\<lambda>c. cl_id c \<in> set (i # js) \<and> hit (db_of x) c) cs" for cs
    unfolding supersede_where_def update_rows_def map_map using Cons.prems(2) by (intro map_cong) auto
  from Cons.IH [of "visit i x"] Cons.prems ids show ?case by (simp add: h one comp)
qed

end

lemma find_claim_at:
  assumes "distinct (map cl_id cs)"
  shows "find (claim_at i v) cs = Some c \<longleftrightarrow> c \<in> set cs \<and> claim_at i v c"
proof (cases "find (claim_at i v) cs")
  case None
  then have "\<not> (c \<in> set cs \<and> claim_at i v c)" by (auto simp: find_None_iff)
  then show ?thesis using None by simp
next
  case (Some d)
  then have d: "d \<in> set cs" "claim_at i v d" by (auto simp: find_Some_iff)
  then show ?thesis using Some distinct_key_eq [OF assms, of c d] by (auto simp: claim_at_def)
qed

lemma supersede_none: "(\<And>c. c \<in> set cs \<Longrightarrow> \<not> p c) \<Longrightarrow> supersede_where p cs = cs"
  unfolding supersede_where_def by (rule update_rows_none) blast

lemma supersede_cong: "(\<And>c. c \<in> set cs \<Longrightarrow> p c = q c) \<Longrightarrow> supersede_where p cs = supersede_where q cs"
  unfolding supersede_where_def update_rows_def by (intro map_cong) simp_all

lemma insert_lint_claims [simp]:
  "claims (insert_lint g db) = claims db" "claim_sources (insert_lint g db) = claim_sources db"
  by (simp_all add: insert_lint_def)

section \<open>Deleted sources\<close>

definition only_source :: "(claim_source \<Rightarrow> bool) \<Rightarrow> nat \<Rightarrow> claims_db \<Rightarrow> claim \<Rightarrow> bool" where
  "only_source mine v db c \<longleftrightarrow> cl_vault c = v \<and> (\<forall>s \<in> set (sources_of (cl_id c) db). mine s)"

lemma mark_visit:
  assumes d: "distinct (map cl_id (claims (db_of x)))"
  shows "claims (db_of (mark_claim_stale mine stale weak v now i x))
      = supersede_where (\<lambda>c. cl_id c = i \<and> only_source mine v (db_of x) c) (claims (db_of x))"
proof -
  obtain n m db where x: "x = (n, m, db)" by (cases x) auto
  show ?thesis
  proof (cases "find (claim_at i v) (claims db)")
    case None
    then have "\<not> claim_at i v c" if "c \<in> set (claims db)" for c using that by (auto simp: find_None_iff)
    then have "supersede_where (\<lambda>c. cl_id c = i \<and> only_source mine v db c) (claims db) = claims db"
      by (intro supersede_none) (auto simp: claim_at_def only_source_def)
    then show ?thesis using None by (simp add: x mark_claim_stale_def)
  next
    case (Some c)
    then have c: "c \<in> set (claims db)" "cl_id c = i" "cl_vault c = v"
      using find_claim_at [of "claims db" i v c] d by (auto simp: x claim_at_def)
    have one: "e = c" if "e \<in> set (claims db)" "cl_id e = i" for e
      using distinct_key_eq [of cl_id "claims db" e c] d that c by (simp add: x)
    show ?thesis
    proof (cases "list_ex (\<lambda>s. \<not> mine s) (sources_of i db)")
      case True
      then have "supersede_where (\<lambda>e. cl_id e = i \<and> only_source mine v db e) (claims db) = claims db"
        by (intro supersede_none) (auto simp: only_source_def list_ex_iff)
      then show ?thesis using Some True by (simp add: x mark_claim_stale_def)
    next
      case False
      then have "supersede_where (\<lambda>e. cl_id e = i \<and> only_source mine v db e) (claims db) = supersede_where (\<lambda>e. cl_id e = i) (claims db)"
        using one c(3) by (intro supersede_cong) (auto simp: only_source_def list_ex_iff)
      then show ?thesis using Some False by (simp add: x mark_claim_stale_def supersede_where_def)
    qed
  qed
qed

interpretation deleted: claim_pass "mark_claim_stale mine stale weak v now" "only_source mine v" for mine stale weak v now
proof unfold_locales
  show "claims (db_of (mark_claim_stale mine stale weak v now i x))
      = supersede_where (\<lambda>c. cl_id c = i \<and> only_source mine v (db_of x) c) (claims (db_of x))"
    if "distinct (map cl_id (claims (db_of x)))" for x i by (rule mark_visit [OF that])
  show "claim_sources (db_of (mark_claim_stale mine stale weak v now i x)) = claim_sources (db_of x)" for x i
    by (cases x) (simp add: mark_claim_stale_def split: option.split)
  show "only_source mine v db' c = only_source mine v db c" if "claim_sources db' = claim_sources db" for db db' c
    by (simp add: only_source_def sources_of_def that)
qed

lemma mark_stale_claims:
  assumes "distinct (map cl_id (claims db))"
  shows "claims (snd (mark_claims_stale mine stale weak v now db))
      = supersede_where (\<lambda>c. list_ex mine (sources_of (cl_id c) db) \<and> only_source mine v db c) (claims db)"
    and "claim_sources (snd (mark_claims_stale mine stale weak v now db)) = claim_sources db"
proof -
  let ?is = "py_dedup (map cs_claim (filter mine (claim_sources db)))"
  have "db_of (fold (mark_claim_stale mine stale weak v now) ?is (0, 0, db)) = snd (mark_claims_stale mine stale weak v now db)"
    by (simp add: mark_claims_stale_def case_prod_unfold)
  note p = deleted.pass [where x = "(0, 0, db)" and js = ?is and mine = mine and v = v and stale = stale and weak = weak and now = now, unfolded this]
  have "cl_id c \<in> set ?is \<longleftrightarrow> list_ex mine (sources_of (cl_id c) db)" for c
    by (simp add: sources_of_def list_ex_iff image_iff) metis
  then have eq: "(\<lambda>c. cl_id c \<in> set ?is \<and> only_source mine v db c)
      = (\<lambda>c. list_ex mine (sources_of (cl_id c) db) \<and> only_source mine v db c)" by blast
  show "claims (snd (mark_claims_stale mine stale weak v now db))
      = supersede_where (\<lambda>c. list_ex mine (sources_of (cl_id c) db) \<and> only_source mine v db c) (claims db)"
    "claim_sources (snd (mark_claims_stale mine stale weak v now db)) = claim_sources db"
    using p assms unfolding snd_conv eq by (simp_all only: distinct_py_dedup)
qed

section \<open>Recompiled documents\<close>

definition underived :: "word_env \<Rightarrow> (pystr \<Rightarrow> pystr) \<Rightarrow> nat \<Rightarrow> nat \<Rightarrow> nat set \<Rightarrow> pystr \<Rightarrow> claims_db \<Rightarrow> claim \<Rightarrow> bool" where
  "underived env unescape f v keep cur db c \<longleftrightarrow> cl_vault c = v \<and> cl_id c \<notin> keep \<and> cl_status c = CActive
     \<and> quotes_of (cl_id c) f db \<noteq> [] \<and> quotes_gone env unescape cur (quotes_of (cl_id c) f db)
     \<and> \<not> list_ex (independent_source f) (sources_of (cl_id c) db)"

lemma insert_once_claims [simp]:
  "claims (insert_recompile_finding_once v ty severity title c page now db) = claims db"
  "claim_sources (insert_recompile_finding_once v ty severity title c page now db) = claim_sources db"
  by (simp_all add: insert_recompile_finding_once_def)

lemma supersede_visit:
  assumes d: "distinct (map cl_id (claims (db_of x)))"
  shows "claims (db_of (supersede_claim env unescape f v page keep cur now i x))
      = supersede_where (\<lambda>c. cl_id c = i \<and> underived env unescape f v keep cur (db_of x) c) (claims (db_of x))"
proof -
  obtain n m db where x: "x = (n, m, db)" by (cases x) auto
  let ?hit = "\<lambda>c. cl_id c = i \<and> underived env unescape f v keep cur db c"
  show ?thesis
  proof (cases "find (claim_at i v) (claims db)")
    case None
    then have "\<not> claim_at i v c" if "c \<in> set (claims db)" for c using that by (auto simp: find_None_iff)
    then have "supersede_where ?hit (claims db) = claims db"
      by (intro supersede_none) (auto simp: claim_at_def underived_def)
    then show ?thesis using None by (simp add: x supersede_claim_def)
  next
    case (Some c)
    then have c: "c \<in> set (claims db)" "cl_id c = i" "cl_vault c = v"
      using find_claim_at [of "claims db" i v c] d by (auto simp: x claim_at_def)
    have one: "e = c" if "e \<in> set (claims db)" "cl_id e = i" for e
      using distinct_key_eq [of cl_id "claims db" e c] d that c by (simp add: x)
    let ?skip = "i \<in> keep \<or> cl_status c \<noteq> CActive \<or> quotes_of i f db = [] \<or> \<not> quotes_gone env unescape cur (quotes_of i f db)"
    let ?other = "list_ex (independent_source f) (sources_of i db)"
    show ?thesis
    proof (cases "?skip \<or> ?other")
      case True
      have "\<not> ?hit e" if e: "e \<in> set (claims db)" for e
      proof
        assume h: "?hit e"
        then have "e = c" using one [OF e] by blast
        then show False using h True c(2) unfolding underived_def by blast
      qed
      then have "supersede_where ?hit (claims db) = claims db" by (rule supersede_none)
      then show ?thesis using Some True by (cases ?skip) (simp_all add: x supersede_claim_def)
    next
      case False
      then have "supersede_where ?hit (claims db) = supersede_where (\<lambda>e. claim_at i v e \<and> cl_status e = CActive) (claims db)"
      proof (intro supersede_cong)
        fix e assume e: "e \<in> set (claims db)"
        show "?hit e = (claim_at i v e \<and> cl_status e = CActive)"
          using one [OF e] c False unfolding underived_def claim_at_def by blast
      qed
      then show ?thesis using Some False by (simp add: x supersede_claim_def supersede_where_def)
    qed
  qed
qed

interpretation recompiled: claim_pass "supersede_claim env unescape f v page keep cur now"
    "underived env unescape f v keep cur" for env unescape f v page keep cur now
proof unfold_locales
  show "claims (db_of (supersede_claim env unescape f v page keep cur now i x))
      = supersede_where (\<lambda>c. cl_id c = i \<and> underived env unescape f v keep cur (db_of x) c) (claims (db_of x))"
    if "distinct (map cl_id (claims (db_of x)))" for x i by (rule supersede_visit [OF that])
  show "claim_sources (db_of (supersede_claim env unescape f v page keep cur now i x)) = claim_sources (db_of x)" for x i
    by (cases x) (simp add: supersede_claim_def split: option.split)
  show "underived env unescape f v keep cur db' c = underived env unescape f v keep cur db c"
    if "claim_sources db' = claim_sources db" for db db' c
    by (simp add: underived_def quotes_of_def sources_of_def that)
qed

section \<open>Properties\<close>

text \<open>
  C25 The deletion of a document supersedes exactly the claims of its vault that have sources, all
  of them in this document. Nothing else happens to claims, and their sources stay stored.
\<close>

theorem file_deletion_exact:
  assumes "distinct (map cl_id (claims db))"
  shows "claims (snd (mark_claims_stale_by_file f v now db)) =
      map (\<lambda>c. if cl_vault c = v \<and> sources_of (cl_id c) db \<noteq> [] \<and> (\<forall>s \<in> set (sources_of (cl_id c) db). cs_file s = Some f)
               then c\<lparr>cl_status := CSuperseded\<rparr> else c) (claims db)
    \<and> claim_sources (snd (mark_claims_stale_by_file f v now db)) = claim_sources db"
proof -
  let ?mine = "\<lambda>s. cs_file s = Some f"
  have eq: "list_ex ?mine (sources_of (cl_id c) db) \<and> only_source ?mine v db c \<longleftrightarrow>
      cl_vault c = v \<and> sources_of (cl_id c) db \<noteq> [] \<and> (\<forall>s \<in> set (sources_of (cl_id c) db). cs_file s = Some f)" for c
    by (cases "sources_of (cl_id c) db") (auto simp: only_source_def)
  show ?thesis unfolding mark_claims_stale_by_file_def mark_stale_claims [OF assms] eq supersede_where_def update_rows_def by simp
qed

text \<open>
  A claim with sources in two documents is never superseded, also not when both, or all
  documents, are deleted one after the other.
\<close>

lemma two_files_never_superseded:
  assumes "distinct (map cl_id (claims db))" and "c \<in> set (claims db)"
    and "s \<in> set (sources_of (cl_id c) db)" "t \<in> set (sources_of (cl_id c) db)" "cs_file s \<noteq> cs_file t"
  shows "c \<in> set (claims (fold (\<lambda>f d. snd (mark_claims_stale_by_file f v now d)) fs db))"
  using assms
proof (induction fs arbitrary: db)
  case (Cons f fs)
  let ?d = "snd (mark_claims_stale_by_file f v now db)"
  note m = mark_stale_claims [OF Cons.prems(1), folded mark_claims_stale_by_file_def]
  have "\<not> only_source (\<lambda>s. cs_file s = Some f) v db c" using Cons.prems(3-5) unfolding only_source_def by metis
  then have "c \<in> set (claims ?d)" unfolding mark_claims_stale_by_file_def m(1) supersede_where_def
    using in_update_rows [OF Cons.prems(2)] by (metis (no_types, lifting))
  moreover have "distinct (map cl_id (claims ?d))"
    unfolding mark_claims_stale_by_file_def m(1) supersede_where_def using Cons.prems(1) by (simp add: map_key_update_rows)
  moreover have "sources_of (cl_id c) ?d = sources_of (cl_id c) db"
    by (simp add: sources_of_def mark_claims_stale_by_file_def m(2))
  ultimately show ?case using Cons.IH [of ?d] Cons.prems(3-5) by simp
qed simp

text \<open>
  C26 Compiling a document again supersedes exactly the active claims of its page that were not
  derived again, have a quote of the document, have lost every such quote from its text (one
  of them with words), and have no independent source. Everything else stays as it is.
\<close>

theorem recompile_supersedes_exactly:
  assumes "distinct (map cl_id (claims db))"
  shows "claims (snd (supersede_unrederived_file_claims env unescape f v page keep cur now db)) =
      map (\<lambda>c. if cl_page c = Some page \<and> cl_vault c = v \<and> cl_status c = CActive \<and> cl_id c \<notin> keep
                 \<and> quotes_of (cl_id c) f db \<noteq> [] \<and> quotes_gone env unescape cur (quotes_of (cl_id c) f db)
                 \<and> \<not> list_ex (independent_source f) (sources_of (cl_id c) db)
               then c\<lparr>cl_status := CSuperseded\<rparr> else c) (claims db)"
proof -
  let ?js = "bound_claims f v page db"
  have js: "cl_id c \<in> set ?js \<longleftrightarrow> cl_page c = Some page \<and> cl_vault c = v" if "c \<in> set (claims db)" "quotes_of (cl_id c) f db \<noteq> []" for c
  proof -
    have "\<exists>s \<in> set (claim_sources db). cs_claim s = cl_id c \<and> cs_file s = Some f"
      using that(2) by (auto simp: quotes_of_def sources_of_def filter_empty_conv)
    moreover have "list_ex (\<lambda>e. cl_id e = cl_id c \<and> cl_page e = Some page \<and> cl_vault e = v) (claims db)
        \<longleftrightarrow> cl_page c = Some page \<and> cl_vault c = v"
    proof -
      have "e = c" if "e \<in> set (claims db)" "cl_id e = cl_id c" for e
        using distinct_key_eq [OF assms that(1) \<open>c \<in> set (claims db)\<close> that(2)] .
      then show ?thesis using that(1) unfolding list_ex_iff by blast
    qed
    ultimately show ?thesis by (auto simp: bound_claims_def image_iff)
  qed
  have "db_of (fold (supersede_claim env unescape f v page keep cur now) ?js (0, 0, db))
      = snd (supersede_unrederived_file_claims env unescape f v page keep cur now db)"
    by (simp add: supersede_unrederived_file_claims_def case_prod_unfold)
  with recompiled.pass [where x = "(0, 0, db)" and js = ?js and env = env and unescape = unescape and f = f and v = v
      and page = page and keep = keep and cur = cur and now = now] assms
  have "claims (snd (supersede_unrederived_file_claims env unescape f v page keep cur now db))
      = supersede_where (\<lambda>c. cl_id c \<in> set ?js \<and> underived env unescape f v keep cur db c) (claims db)"
    by (simp add: bound_claims_def)
  also have "\<dots> = supersede_where (\<lambda>c. cl_page c = Some page \<and> cl_vault c = v \<and> cl_status c = CActive \<and> cl_id c \<notin> keep
                 \<and> quotes_of (cl_id c) f db \<noteq> [] \<and> quotes_gone env unescape cur (quotes_of (cl_id c) f db)
                 \<and> \<not> list_ex (independent_source f) (sources_of (cl_id c) db)) (claims db)"
    using js by (intro supersede_cong) (auto simp: underived_def)
  finally show ?thesis by (simp add: supersede_where_def update_rows_def)
qed

section \<open>A run\<close>

definition claim_words :: word_env where
  "claim_words = \<lparr>we_lower = (\<lambda>t. t), we_word = (\<lambda>c. 97 \<le> c \<and> c \<le> 122)\<rparr>"

definition sample_claim :: "nat \<Rightarrow> pystr \<Rightarrow> claim_status \<Rightarrow> claim" where
  "sample_claim i t st = \<lparr>cl_id = i, cl_vault = 1, cl_page = Some 3, cl_text = t, cl_norm = t,
     cl_source_type = ''document'', cl_status = st, cl_confidence = 0\<rparr>"

definition sample_source :: "nat \<Rightarrow> nat \<Rightarrow> pystr \<Rightarrow> claim_source" where
  "sample_source i f q = \<lparr>cs_claim = i, cs_kind = ''document'', cs_file = Some f, cs_memory = None,
     cs_label = None, cs_quote = Some q\<rparr>"

definition sample_claims :: claims_db where
  "sample_claims = \<lparr>claims = [sample_claim 1 [97] CActive, sample_claim 2 [98] CActive],
     claim_sources = [sample_source 1 7 [97], sample_source 2 7 [98], sample_source 2 8 [98]],
     lint_rows = [], next_claim = 3, next_lint = 1\<rparr>"

lemma sample_claim_fields [simp]:
  "cl_id (sample_claim i t st) = i" "cl_vault (sample_claim i t st) = 1" "cl_page (sample_claim i t st) = Some 3"
  "cl_status (sample_claim i t st) = st" "(sample_claim i t st)\<lparr>cl_status := st'\<rparr> = sample_claim i t st'"
  "cs_claim (sample_source i f q) = i" "cs_file (sample_source i f q) = Some f" "cs_kind (sample_source i f q) = ''document''"
  "cs_quote (sample_source i f q) = Some q"
  by (simp_all add: sample_claim_def sample_source_def)

lemma sample_claims_distinct: "distinct (map cl_id (claims sample_claims))"
  by (simp add: sample_claims_def)

lemma sample_sources:
  "sources_of 1 sample_claims = [sample_source 1 7 [97]]"
  "sources_of 2 sample_claims = [sample_source 2 7 [98], sample_source 2 8 [98]]"
  by (simp_all add: sources_of_def sample_claims_def)

lemma file_deletion_exact_witness:
  "claims (snd (mark_claims_stale_by_file 7 1 5 sample_claims)) = [sample_claim 1 [97] CSuperseded, sample_claim 2 [98] CActive]"
proof -
  have "claims sample_claims = [sample_claim 1 [97] CActive, sample_claim 2 [98] CActive]" by (simp add: sample_claims_def)
  with file_deletion_exact [OF sample_claims_distinct, of 7 1 5] show ?thesis by (simp add: sample_sources [unfolded One_nat_def])
qed

lemma sample_quote_gone: "quotes_gone claim_words (\<lambda>q. q) [120] [[97]]"
  by (simp add: quotes_gone_def quote_present_def normalize_claim_text_def claim_words_def py_strip_def py_isspace_def
      spaced_def py_in_def find_sub.simps)

lemma recompile_supersedes_exactly_witness:
  "claims (snd (supersede_unrederived_file_claims claim_words (\<lambda>q. q) 7 1 3 {2} [120] 5 sample_claims))
     = [sample_claim 1 [97] CSuperseded, sample_claim 2 [98] CActive]"
proof -
  have c: "claims sample_claims = [sample_claim 1 [97] CActive, sample_claim 2 [98] CActive]" by (simp add: sample_claims_def)
  have q: "quotes_of 1 7 sample_claims = [[97]]"
    unfolding quotes_of_def sample_sources by (simp add: py_strip_def py_isspace_def)
  show ?thesis
    unfolding recompile_supersedes_exactly [OF sample_claims_distinct] c
    using sample_quote_gone by (simp add: q [unfolded One_nat_def] sample_sources [unfolded One_nat_def] independent_source_def)
qed

text \<open>The second claim keeps its status when both its documents are deleted.\<close>

lemma both_files_deleted:
  "sample_claim 2 [98] CActive \<in> set (claims (fold (\<lambda>f d. snd (mark_claims_stale_by_file f 1 5 d)) [7, 8] sample_claims))"
proof -
  have "sample_claim 2 [98] CActive \<in> set (claims sample_claims)" by (simp add: sample_claims_def)
  from two_files_never_superseded [OF sample_claims_distinct this, of "sample_source 2 7 [98]" "sample_source 2 8 [98]" 1 5 "[7, 8]"]
  show ?thesis by (simp add: sample_sources del: fold.simps)
qed

end
