(* ===== verification/Retrieval.thy ===== *)
theory Retrieval
  imports Complex_Main "HOL-Library.Product_Lexorder" "HOL-Library.Sublist" Text_Scan
begin

text \<open>
  The retrieval of passages: \<^verbatim>\<open>backend/app/services/document_retrieval.py\<close>, the filter by
  relevance, the caps per document and the expansion by neighbouring chunks. Scores are
  rationals that are only compared; the vector store is a parameter; of the metadata of a
  chunk only the identity and the position are kept.
\<close>

section \<open>Data\<close>

record chunk_record =
  rc_id :: pystr
  rc_file :: pystr
  rc_text :: pystr
  rc_distance :: "rat option"
  rc_fts :: "rat option"
  rc_score :: "rat option"
  rc_rerank :: "rat option"
  rc_uid :: pystr
  rc_scale :: "pystr option"
  rc_index :: pystr

record rag_source =
  so_text :: pystr
  so_file :: pystr
  so_score :: rat
  so_fts :: bool
  so_chunk_id :: pystr
  so_uid :: pystr
  so_scale :: "pystr option"
  so_index :: pystr

record retrieval_config =
  rt_threshold :: "rat option"
  rt_relevance :: "rat option"
  rt_top_k :: nat
  rt_window :: int
  rt_dedup :: bool
  rt_chunk_cap :: nat
  rt_doc_cap :: nat

section \<open>Chunk ids\<close>

definition is_hash8 :: "pystr \<Rightarrow> bool" where
  "is_hash8 s \<longleftrightarrow> length s = 8
     \<and> list_all (\<lambda>c. (48 \<le> c \<and> c \<le> 57) \<or> (97 \<le> c \<and> c \<le> 102)) s \<and> list_ex (\<lambda>c. 97 \<le> c \<and> c \<le> 102) s"

definition extract_reupload_hash :: "pystr \<Rightarrow> pystr \<Rightarrow> pystr option" where
  "extract_reupload_hash chunk_id file =
     (let n = length file + 1
      in if take n chunk_id \<noteq> file @ [95] then None
         else (let candidate = hd (py_split 95 (drop n chunk_id))
               in if is_hash8 candidate then Some candidate else None))"

definition strip_reupload_hash :: "pystr \<Rightarrow> pystr" where
  "strip_reupload_hash uid =
     (let parts = py_split 95 uid; n = length parts
      in if 4 \<le> n \<and> is_hash8 (parts ! (n - 3))
         then py_join [95] (take (n - 3) parts @ drop (n - 2) parts) else uid)"

text \<open>
  \<open>int(s)\<close>: white space around, a sign, and decimal digits, in which single underscores may
  stand. \<open>None\<close> is a \<open>ValueError\<close>.
\<close>

definition py_to_int :: "pystr \<Rightarrow> int option" where
  "py_to_int s =
     (let t = py_strip s;
          (neg, u) = (case t of [] \<Rightarrow> (False, []) | c # r \<Rightarrow> if c = 45 then (True, r) else if c = 43 then (False, r) else (False, t))
      in if list_all (\<lambda>p. p \<noteq> [] \<and> list_all py_isdecimal p) (py_split 95 u)
         then Some ((if neg then -1 else 1) * int (py_int (concat (py_split 95 u)))) else None)"

definition normalize_uid :: "pystr \<Rightarrow> pystr" where
  "normalize_uid uid0 =
     (let uid = strip_reupload_hash uid0; parts = py_split 95 uid; n = length parts
      in if 3 \<le> n \<and> py_to_int (parts ! (n - 1)) \<noteq> None \<and> py_to_int (parts ! (n - 2)) \<noteq> None
         then py_join [95] (take (n - 2) parts) @ [95] @ parts ! (n - 1) else uid)"

section \<open>The relevance filter\<close>

definition row_value :: "chunk_record \<Rightarrow> rat \<times> bool" where
  "row_value r = (case rc_distance r of Some d \<Rightarrow> (d, False)
     | None \<Rightarrow> (case rc_fts r of Some x \<Rightarrow> (x, True)
       | None \<Rightarrow> (case rc_score r of Some x \<Rightarrow> (x, False) | None \<Rightarrow> (1, False))))"

definition score_floor :: rat where
  "score_floor = 1 / 2"

definition skipped :: "retrieval_config \<Rightarrow> bool \<Rightarrow> chunk_record \<Rightarrow> bool" where
  "skipped cfg reranked r \<longleftrightarrow> \<not> reranked \<and>
     (case (case rt_threshold cfg of None \<Rightarrow> rt_relevance cfg | Some t \<Rightarrow> Some t) of
        None \<Rightarrow> False
      | Some t \<Rightarrow> if rc_distance r \<noteq> None then fst (row_value r) > t
                  else fst (row_value r) < (if rt_threshold cfg = None then t else score_floor))"

definition visible :: "pystr list option \<Rightarrow> chunk_record \<Rightarrow> bool" where
  "visible indexed r \<longleftrightarrow> (case indexed of None \<Rightarrow> True | Some ids \<Rightarrow> rc_file r = [] \<or> rc_file r \<in> set ids)"

definition source_of :: "bool \<Rightarrow> chunk_record \<Rightarrow> rag_source" where
  "source_of reranked r =
     (let (score, fts) = (case rc_rerank r of
            Some x \<Rightarrow> if reranked \<and> 0 \<le> x \<and> x \<le> 1 then (x, False) else row_value r
          | None \<Rightarrow> row_value r)
      in \<lparr>so_text = rc_text r, so_file = rc_file r, so_score = score, so_fts = fts,
          so_chunk_id = rc_id r, so_uid = rc_uid r, so_scale = rc_scale r, so_index = rc_index r\<rparr>)"

fun group_dedup :: "nat \<Rightarrow> nat \<Rightarrow> (pystr \<Rightarrow> nat) \<Rightarrow> pystr list \<Rightarrow> rag_source list \<Rightarrow> rag_source list" where
  "group_dedup cap docs count seen [] = []"
| "group_dedup cap docs count seen (s # ss) =
     (let f = so_file s
      in if cap \<le> count f then group_dedup cap docs count seen ss
         else if docs \<le> length seen \<and> f \<notin> set seen then group_dedup cap docs count seen ss
         else s # group_dedup cap docs (count(f := count f + 1)) (if f \<in> set seen then seen else f # seen) ss)"

definition group_aware_dedup :: "nat \<Rightarrow> nat \<Rightarrow> rag_source list \<Rightarrow> rag_source list" where
  "group_aware_dedup cap docs ss = group_dedup cap docs (\<lambda>_. 0) [] ss"

section \<open>Neighbouring chunks\<close>

definition parse_chunk_index :: "pystr \<Rightarrow> int option" where
  "parse_chunk_index s = py_to_int (last (py_split 95 s))"

definition group_key :: "rag_source \<Rightarrow> pystr" where
  "group_key s = (case so_scale s of None \<Rightarrow> so_file s
     | Some sc \<Rightarrow> if sc = lit ''default'' then so_file s else so_file s @ [95] @ sc)"

definition group_parts :: "pystr \<Rightarrow> pystr \<times> pystr" where
  "group_parts key =
     (let parts = py_split 95 key
      in if 2 \<le> length parts then (py_join [95] (butlast parts), last parts) else (key, lit ''default''))"

definition chunk_uid :: "pystr option \<Rightarrow> pystr \<times> pystr \<Rightarrow> nat \<Rightarrow> pystr" where
  "chunk_uid hash = (\<lambda>(file, scale) i.
     (case hash of
        Some h \<Rightarrow> py_join [95] [file, h, scale, dec i]
      | None \<Rightarrow> if scale \<noteq> lit ''default'' then py_join [95] [file, scale, dec i] else py_join [95] [file, dec i]))"

definition window_of :: "int \<Rightarrow> int \<Rightarrow> nat list" where
  "window_of w i = [nat (max 0 (i - w))..<nat (i + w + 1)]"

definition group_uids :: "int \<Rightarrow> pystr \<Rightarrow> rag_source list \<Rightarrow> pystr list option" where
  "group_uids w key ss =
     (let fs = group_parts key;
          hash = List.find (\<lambda>h. h \<noteq> None) (map (\<lambda>s. extract_reupload_hash (so_chunk_id s) (fst fs)) ss)
      in if list_ex (\<lambda>s. parse_chunk_index (so_index s) = None) ss then None
         else Some (concat (map (\<lambda>s. map (chunk_uid (case hash of None \<Rightarrow> None | Some h \<Rightarrow> h) fs)
                (window_of w (the (parse_chunk_index (so_index s))))) ss)))"

text \<open>\<open>None\<close> is the \<open>ValueError\<close> of an index that is no number.\<close>

definition uids_to_fetch :: "int \<Rightarrow> rag_source list \<Rightarrow> pystr list option" where
  "uids_to_fetch w ss =
     (let groups = map (\<lambda>k. group_uids w k (filter (\<lambda>s. group_key s = k) ss)) (py_dedup (map group_key ss))
      in if list_ex (\<lambda>g. g = None) groups then None else Some (concat (map the groups)))"

definition source_uid :: "rag_source \<Rightarrow> pystr" where
  "source_uid s =
     (if so_chunk_id s \<noteq> [] then so_chunk_id s else if so_uid s \<noteq> [] then so_uid s
      else (case so_scale s of
              Some sc \<Rightarrow> if sc \<noteq> [] \<and> sc \<noteq> lit ''default'' then py_join [95] [so_file s, sc, so_index s]
                         else py_join [95] [so_file s, so_index s]
            | None \<Rightarrow> py_join [95] [so_file s, so_index s]))"

fun originals :: "rag_source list \<Rightarrow> pystr list \<Rightarrow> rag_source list \<times> pystr list" where
  "originals [] seen = ([], seen)"
| "originals (s # ss) seen =
     (let u = normalize_uid (source_uid s)
      in if u \<in> set seen then originals ss seen
         else (case originals ss (u # seen) of (out, seen') \<Rightarrow> (s # out, seen')))"

text \<open>The scale, the file and the index that the code takes from the uid of a fetched chunk.\<close>

definition uid_parts :: "pystr \<Rightarrow> (pystr \<times> pystr option) option" where
  "uid_parts uid =
     (let parts = py_split 95 uid; n = length parts
      in if n \<le> 1 \<or> py_to_int (last parts) = None then None
         else if 3 \<le> n then Some (py_join [95] (take (n - 2) parts), Some (parts ! (n - 2)))
         else Some (hd parts, None))"

definition neighbour :: "pystr \<times> pystr option \<Rightarrow> chunk_record \<Rightarrow> rag_source" where
  "neighbour = (\<lambda>(file, scale) r.
     \<lparr>so_text = rc_text r, so_file = (if rc_file r = [] then file else rc_file r), so_score = fst (row_value r),
      so_fts = snd (row_value r), so_chunk_id = rc_id r, so_uid = rc_uid r,
      so_scale = (case scale of None \<Rightarrow> rc_scale r | Some sc \<Rightarrow> if sc = [] then rc_scale r else Some sc),
      so_index = rc_index r\<rparr>)"

fun add_neighbours :: "(pystr \<Rightarrow> chunk_record option) \<Rightarrow> pystr list \<Rightarrow> pystr list \<Rightarrow> rag_source list" where
  "add_neighbours lookup [] seen = []"
| "add_neighbours lookup (u # us) seen =
     (if normalize_uid u \<in> set seen then add_neighbours lookup us seen
      else (case uid_parts u of
              None \<Rightarrow> add_neighbours lookup us seen
            | Some fs \<Rightarrow>
                (case lookup u of
                   None \<Rightarrow> add_neighbours lookup us seen
                 | Some r \<Rightarrow> neighbour fs r # add_neighbours lookup us (normalize_uid u # seen))))"

definition adjacent_lookup :: "chunk_record list \<Rightarrow> pystr \<Rightarrow> chunk_record option" where
  "adjacent_lookup rs u = (if u = [] then None else List.find (\<lambda>r. rc_id r = u) (rev rs))"

definition file_rank :: "rag_source list \<Rightarrow> pystr \<Rightarrow> nat" where
  "file_rank ss f = length (takeWhile (\<lambda>s. so_file s \<noteq> f) ss)"

definition reading_index :: "rag_source \<Rightarrow> int" where
  "reading_index s = (case py_to_int (so_index s) of None \<Rightarrow> 0 | Some i \<Rightarrow> i)"

text \<open>
  \<open>fetch\<close> is \<open>get_chunks_by_uid\<close>, \<open>None\<close> its \<open>VectorStoreError\<close>. The file id in the sort key
  decides nothing: different files have different ranks.
\<close>

definition expand_window ::
  "retrieval_config \<Rightarrow> (pystr list \<Rightarrow> chunk_record list option) option \<Rightarrow> rag_source list \<Rightarrow> rag_source list option" where
  "expand_window cfg store ss =
     (case store of
        None \<Rightarrow> Some ss
      | Some fetch \<Rightarrow>
          if ss = [] then Some ss
          else (case uids_to_fetch (rt_window cfg) ss of
             None \<Rightarrow> None
           | Some us \<Rightarrow>
               if us = [] then Some ss
               else (let rs = (case fetch us of None \<Rightarrow> [] | Some rs \<Rightarrow> rs);
                         (kept, seen) = originals ss [];
                         all = kept @ add_neighbours (adjacent_lookup rs) us seen
                     in Some (take (rt_top_k cfg) (sort_key (\<lambda>s. (file_rank all (so_file s), reading_index s)) all)))))"

definition filter_relevant ::
  "retrieval_config \<Rightarrow> (pystr list \<Rightarrow> chunk_record list option) option \<Rightarrow> nat option \<Rightarrow> bool \<Rightarrow> pystr list option
     \<Rightarrow> chunk_record list \<Rightarrow> (rag_source list \<times> bool) option" where
  "filter_relevant cfg store top_k reranked indexed rs =
     (let ss = map (source_of reranked) (filter (\<lambda>r. visible indexed r \<and> \<not> skipped cfg reranked r) rs);
          ss1 = (if rt_dedup cfg then group_aware_dedup (rt_chunk_cap cfg) (rt_doc_cap cfg) ss else ss)
      in map_option (\<lambda>out. ((case top_k of None \<Rightarrow> out | Some k \<Rightarrow> take k out), rs \<noteq> [] \<and> out = []))
           (if 0 < rt_window cfg then expand_window cfg store ss1 else Some ss1))"

section \<open>The caps per document\<close>

lemma group_dedup_files:
  assumes "0 < cap" and "distinct seen" and "\<And>f. 0 < count f \<longleftrightarrow> f \<in> set seen"
  shows "filter (\<lambda>s. so_file s = f) (group_dedup cap docs count seen ss) =
    (if f \<in> set seen \<or> f \<in> set (take (docs - length seen) (filter (\<lambda>g. g \<notin> set seen) (py_dedup (map so_file ss))))
     then take (cap - count f) (filter (\<lambda>s. so_file s = f) ss) else [])"
  using assms
proof (induction cap docs count seen ss rule: group_dedup.induct)
  case (1 cap docs count seen)
  then show ?case by simp
next
  case (2 cap docs count seen s ss)
  let ?g = "so_file s"
  let ?new = "\<lambda>ds xs. filter (\<lambda>g. g \<notin> set ds) (py_dedup (map so_file xs))"
  have drop: "?new seen (s # ss) = (if ?g \<in> set seen then ?new seen ss else ?g # ?new (?g # seen) ss)"
    by (simp add: filter_filter) (intro conjI impI filter_cong; auto)
  consider (full) "cap \<le> count ?g" | (closed) "\<not> cap \<le> count ?g" "docs \<le> length seen" "?g \<notin> set seen"
    | (again) "\<not> cap \<le> count ?g" "?g \<in> set seen" | (opened) "\<not> cap \<le> count ?g" "length seen < docs" "?g \<notin> set seen"
    by fastforce
  then show ?case
  proof cases
    case full
    then have "?g \<in> set seen" using "2.prems"(1) "2.prems"(3) [of ?g] by fastforce
    then show ?thesis using "2.IH"(1) [OF refl full "2.prems"] full unfolding drop by (cases "f = ?g") auto
  next
    case closed
    then show ?thesis using "2.IH"(2) [OF refl closed(1) _ "2.prems"] by auto
  next
    case again
    have c: "(0 < (count(?g := count ?g + 1)) f) = (f \<in> set seen)" for f using "2.prems"(3) [of f] again by auto
    have g: "\<not> (docs \<le> length seen \<and> ?g \<notin> set seen)" using again by blast
    note IH = "2.IH"(3) [OF refl again(1) g "2.prems"(1), unfolded if_P [OF again(2)], OF "2.prems"(2) c]
    show ?thesis using IH again unfolding drop by (cases "f = ?g") (auto simp: Let_def fun_upd_def take_Cons' Suc_diff_Suc)
  next
    case opened
    have c: "(0 < (count(?g := count ?g + 1)) f) = (f \<in> set (?g # seen))" for f using "2.prems"(3) [of f] opened by auto
    have g: "\<not> (docs \<le> length seen \<and> ?g \<notin> set seen)" using opened by auto
    have d: "distinct (?g # seen)" using "2.prems"(2) opened by simp
    have zero: "count ?g = 0" using "2.prems"(3) [of ?g] opened(3) by simp
    note IH = "2.IH"(3) [OF refl opened(1) g "2.prems"(1), unfolded if_not_P [OF opened(3)], OF d c]
    obtain k where k: "docs - length seen = Suc k" using opened(2) by (metis Suc_diff_Suc)
    then have k': "docs - length (?g # seen) = k" by simp
    show ?thesis using IH opened zero k k' unfolding drop by (cases "f = ?g") (auto simp: Let_def fun_upd_def take_Cons' gr0_conv_Suc)
  qed
qed

lemma group_dedup_subseq: "subseq (group_dedup cap docs count seen ss) ss"
  by (induction cap docs count seen ss rule: group_dedup.induct) (auto simp: Let_def fun_upd_def)

lemma group_aware_dedup_files:
  assumes "0 < cap"
  shows "filter (\<lambda>s. so_file s = f) (group_aware_dedup cap docs ss) =
      (if f \<in> set (take docs (py_dedup (map so_file ss))) then take cap (filter (\<lambda>s. so_file s = f) ss) else [])"
  using group_dedup_files [OF assms, of "[]" "\<lambda>_. 0" f docs ss] by (simp add: group_aware_dedup_def)

text \<open>
  C27 Without a window the filter looks at the visible and relevant rows. With the policy of
  caps per document on, the list is, of each of the first \<open>rt_doc_cap\<close> documents among them,
  exactly the first \<open>rt_chunk_cap\<close> passages, and nothing of the others, in the order of the
  ranking - also when the caller gives no \<open>top_k\<close>, for which the docstring promises every
  surviving source; with the policy off it is all of them. A given \<open>top_k\<close> cuts that list, and
  the flag is raised exactly when rows came in and the list is empty: nothing is returned in
  place of rows that were all filtered out.
\<close>

theorem filter_relevant_exact:
  assumes "rt_window cfg \<le> 0" "rt_dedup cfg \<longrightarrow> 0 < rt_chunk_cap cfg"
    and "ss = map (source_of reranked) (filter (\<lambda>r. visible indexed r \<and> \<not> skipped cfg reranked r) rs)"
  shows "\<exists>out. filter_relevant cfg store top_k reranked indexed rs =
      Some (case top_k of None \<Rightarrow> out | Some k \<Rightarrow> take k out, rs \<noteq> [] \<and> out = [])
    \<and> (if rt_dedup cfg
       then subseq out ss \<and> (\<forall>f. filter (\<lambda>s. so_file s = f) out =
              (if f \<in> set (take (rt_doc_cap cfg) (py_dedup (map so_file ss)))
               then take (rt_chunk_cap cfg) (filter (\<lambda>s. so_file s = f) ss) else []))
       else out = ss)"
proof (cases "rt_dedup cfg")
  case True
  then have "filter_relevant cfg store top_k reranked indexed rs =
      (let out = group_aware_dedup (rt_chunk_cap cfg) (rt_doc_cap cfg) ss
       in Some (case top_k of None \<Rightarrow> out | Some k \<Rightarrow> take k out, rs \<noteq> [] \<and> out = []))"
    using assms(1) by (simp add: filter_relevant_def Let_def assms(3))
  moreover have "subseq (group_aware_dedup (rt_chunk_cap cfg) (rt_doc_cap cfg) ss) ss"
    unfolding group_aware_dedup_def by (rule group_dedup_subseq)
  ultimately show ?thesis using group_aware_dedup_files assms(2) True unfolding Let_def by auto
next
  case False
  then show ?thesis using assms(1) by (simp add: filter_relevant_def Let_def assms(3))
qed

section \<open>The window around the hits\<close>

abbreviation norm_uid :: "rag_source \<Rightarrow> pystr" where
  "norm_uid s \<equiv> normalize_uid (source_uid s)"

lemma originals_facts:
  "originals ss seen = (out, seen') \<Longrightarrow> set out \<subseteq> set ss \<and> distinct (map norm_uid out)
     \<and> set (map norm_uid out) \<inter> set seen = {} \<and> set seen' = set seen \<union> norm_uid ` set out
     \<and> norm_uid ` set ss \<subseteq> set seen'"
proof (induction ss arbitrary: seen out seen')
  case (Cons s ss)
  show ?case
  proof (cases "norm_uid s \<in> set seen")
    case True
    then have "originals ss seen = (out, seen')" using Cons.prems by simp
    from Cons.IH [OF this] True show ?thesis by auto
  next
    case False
    then obtain out1 where 1: "originals ss (norm_uid s # seen) = (out1, seen')" "out = s # out1"
      using Cons.prems by (auto simp: Let_def split: prod.splits)
    from Cons.IH [OF 1(1)] False 1(2) show ?thesis by auto
  qed
qed simp

definition found_for :: "(pystr \<Rightarrow> chunk_record option) \<Rightarrow> pystr list \<Rightarrow> rag_source \<Rightarrow> bool" where
  "found_for lookup us s \<longleftrightarrow> so_chunk_id s \<in> set us \<and> (\<exists>fs r. lookup (so_chunk_id s) = Some r \<and> s = neighbour fs r)"

lemma add_neighbours_facts:
  assumes "\<And>u r. lookup u = Some r \<Longrightarrow> rc_id r = u \<and> u \<noteq> []"
  shows "distinct (map norm_uid (add_neighbours lookup us seen))
    \<and> set (map norm_uid (add_neighbours lookup us seen)) \<inter> set seen = {}
    \<and> (\<forall>s \<in> set (add_neighbours lookup us seen). found_for lookup us s)"
proof (induction us arbitrary: seen)
  case (Cons u us)
  have more: "found_for lookup us s \<Longrightarrow> found_for lookup (u # us) s" for s by (auto simp: found_for_def)
  show ?case
  proof (cases "normalize_uid u \<in> set seen")
    case True
    then show ?thesis using Cons.IH [of seen] more by auto
  next
    case new: False
    show ?thesis
    proof (cases "uid_parts u")
      case None
      then show ?thesis using Cons.IH [of seen] new more by auto
    next
      case fs: (Some fs)
      show ?thesis
      proof (cases "lookup u")
        case None
        then show ?thesis using Cons.IH [of seen] new fs more by auto
      next
        case r: (Some r)
        let ?n = "neighbour fs r"
        have id: "so_chunk_id ?n = u" "norm_uid ?n = normalize_uid u"
          using assms [OF r] by (simp_all add: neighbour_def source_uid_def split: prod.split)
        have "found_for lookup (u # us) ?n" unfolding found_for_def using r id(1) by (intro conjI exI [of _ fs] exI [of _ r]) simp_all
        then show ?thesis using Cons.IH [of "normalize_uid u # seen"] new fs r id more by auto
      qed
    qed
  qed
qed simp

lemma find_in: "List.find P xs = Some x \<Longrightarrow> x \<in> set xs \<and> P x"
  by (induction xs) (auto split: if_splits)

lemma adjacent_lookup_id: "adjacent_lookup rs u = Some r \<Longrightarrow> rc_id r = u \<and> u \<noteq> [] \<and> r \<in> set rs"
  by (auto simp: adjacent_lookup_def split: if_splits dest!: find_in)

text \<open>The ids that are fetched are those of the chunks around a hit, in its document and scale.\<close>

definition near_hit :: "int \<Rightarrow> rag_source list \<Rightarrow> pystr \<Rightarrow> bool" where
  "near_hit w ss u \<longleftrightarrow> (\<exists>s \<in> set ss. \<exists>i j hash. parse_chunk_index (so_index s) = Some i \<and> \<bar>int j - i\<bar> \<le> w
     \<and> u = chunk_uid hash (group_parts (group_key s)) j)"

lemma window_of_near: "j \<in> set (window_of w i) \<Longrightarrow> \<bar>int j - i\<bar> \<le> w"
  unfolding window_of_def by auto

lemma group_uids_near:
  assumes "group_uids w k ss = Some us" "u \<in> set us" "\<And>s. s \<in> set ss \<Longrightarrow> group_key s = k"
  shows "near_hit w ss u"
proof -
  define hash where "hash = (case List.find (\<lambda>h. h \<noteq> None) (map (\<lambda>s. extract_reupload_hash (so_chunk_id s)
      (fst (group_parts k))) ss) of None \<Rightarrow> None | Some h \<Rightarrow> h)"
  have ok: "\<not> list_ex (\<lambda>s. parse_chunk_index (so_index s) = None) ss"
    and us: "us = concat (map (\<lambda>s. map (chunk_uid hash (group_parts k)) (window_of w (the (parse_chunk_index (so_index s))))) ss)"
    using assms(1) by (simp_all only: group_uids_def Let_def hash_def split: if_splits) simp_all
  from us assms(2) obtain s j where s: "s \<in> set ss" "j \<in> set (window_of w (the (parse_chunk_index (so_index s))))"
      "u = chunk_uid hash (group_parts k) j" by auto
  from ok s(1) obtain i where "parse_chunk_index (so_index s) = Some i" by (auto simp: list_ex_iff)
  with s(2,3) have "parse_chunk_index (so_index s) = Some i" "j \<in> set (window_of w i)"
      "u = chunk_uid hash (group_parts k) j" by simp_all
  then show ?thesis using s(1) assms(3) [OF s(1)] window_of_near unfolding near_hit_def by blast
qed

lemma near_hit_mono: "near_hit w ss u \<Longrightarrow> set ss \<subseteq> set ts \<Longrightarrow> near_hit w ts u"
  unfolding near_hit_def by blast

lemma uids_to_fetch_near:
  assumes "uids_to_fetch w ss = Some us" "u \<in> set us"
  shows "near_hit w ss u"
proof -
  let ?g = "\<lambda>k. group_uids w k (filter (\<lambda>s. group_key s = k) ss)"
  let ?ks = "py_dedup (map group_key ss)"
  have ok: "\<not> list_ex (\<lambda>g. g = None) (map ?g ?ks)" and us: "us = concat (map the (map ?g ?ks))"
    using assms(1) by (simp_all only: uids_to_fetch_def Let_def split: if_splits) simp_all
  from us assms(2) obtain k where k: "k \<in> set ?ks" "u \<in> set (the (?g k))" by auto
  from ok k(1) have "?g k \<noteq> None" unfolding list_ex_iff by force
  with k(2) obtain g where "?g k = Some g" "u \<in> set g" by (cases "?g k") simp_all
  then have "near_hit w (filter (\<lambda>s. group_key s = k) ss) u" by (rule group_uids_near) simp
  then show ?thesis by (rule near_hit_mono) auto
qed

lemma sorted_sort_take: "sorted (map f (take k (sort_key f xs)))"
  unfolding take_map [symmetric] by (rule sorted_wrt_take) simp

text \<open>The first hit of each key is kept.\<close>

lemma originals_first:
  "originals ss seen = (out, seen') \<Longrightarrow> ss = pre @ s # post \<Longrightarrow> norm_uid s \<notin> norm_uid ` set pre
   \<Longrightarrow> norm_uid s \<notin> set seen \<Longrightarrow> s \<in> set out"
proof (induction ss arbitrary: seen out seen' pre)
  case (Cons x xs)
  show ?case
  proof (cases pre)
    case Nil
    then show ?thesis using Cons.prems by (auto simp: Let_def split: prod.splits if_splits)
  next
    case (Cons y ys)
    note pre = Cons
    then have xs: "xs = ys @ s # post" "x = y" using Cons.prems(2) by simp_all
    show ?thesis
    proof (cases "norm_uid x \<in> set seen")
      case True
      then show ?thesis using Cons.IH [of seen out seen' ys] Cons.prems xs pre by auto
    next
      case False
      then obtain o1 where "originals xs (norm_uid x # seen) = (o1, seen')" "out = x # o1"
        using Cons.prems(1) by (auto simp: Let_def split: prod.splits)
      then show ?thesis using Cons.IH [of "norm_uid x # seen" o1 seen' ys] Cons.prems(3,4) xs pre by auto
    qed
  qed
qed simp

text \<open>
  C28 What the expansion returns: at most \<open>top_k\<close> passages, no two with the same key; each is
  a hit, or the record the store has for the id of a chunk within the window of a hit, in its
  document and scale; documents come in the order of their best hits and each is read from
  front to back. When everything fits into \<open>top_k\<close> the key of every hit is there, by the best
  hit that has it. The key is \<open>normalize_uid\<close>, without hash and numeric scale: hits that share
  it, such as \<open>1_512_3\<close> and \<open>1_1024_3\<close>, become one passage, while \<open>1_3\<close> and
  \<open>1_abc12345_default_3\<close> have different keys, against the docstring
  (\<open>normalize_uid_formats\<close>).
\<close>

theorem expand_window_sound:
  assumes "expand_window cfg (Some fetch) ss = Some out" and "uids_to_fetch (rt_window cfg) ss = Some us" "us \<noteq> []"
  shows "\<exists>more. length out \<le> rt_top_k cfg \<and> distinct (map norm_uid out)
    \<and> set out \<subseteq> set (fst (originals ss []) @ more)
    \<and> (\<forall>s \<in> set more. near_hit (rt_window cfg) ss (so_chunk_id s)
         \<and> (\<exists>rs r fs. fetch us = Some rs \<and> r \<in> set rs \<and> rc_id r = so_chunk_id s \<and> s = neighbour fs r))
    \<and> sorted (map (\<lambda>s. (file_rank (fst (originals ss []) @ more) (so_file s), reading_index s)) out)
    \<and> (length (fst (originals ss []) @ more) \<le> rt_top_k cfg \<longrightarrow>
         norm_uid ` set ss \<subseteq> norm_uid ` set out
         \<and> (\<forall>pre s post. ss = pre @ s # post \<longrightarrow> norm_uid s \<notin> norm_uid ` set pre \<longrightarrow> s \<in> set out))"
proof -
  obtain kept seen where o: "originals ss [] = (kept, seen)" by fastforce
  note of = originals_facts [OF o]
  define rs where "rs = (case fetch us of None \<Rightarrow> [] | Some rs \<Rightarrow> rs)"
  define more where "more = add_neighbours (adjacent_lookup rs) us seen"
  let ?f = "\<lambda>s. (file_rank (kept @ more) (so_file s), reading_index s)"
  have "ss \<noteq> []" using assms(2,3) by (auto simp: uids_to_fetch_def Let_def)
  then have out: "out = take (rt_top_k cfg) (sort_key ?f (kept @ more))"
    using assms by (simp add: expand_window_def o rs_def more_def Let_def)
  have nf: "distinct (map norm_uid more) \<and> set (map norm_uid more) \<inter> set seen = {}
      \<and> (\<forall>s \<in> set more. found_for (adjacent_lookup rs) us s)"
    unfolding more_def by (rule add_neighbours_facts) (use adjacent_lookup_id in blast)
  have "distinct (map norm_uid (kept @ more))" using of nf by auto
  then have d: "distinct (map norm_uid (sort_key ?f (kept @ more)))"
    by (metis distinct_sort distinct_map set_sort)
  have near: "near_hit (rt_window cfg) ss (so_chunk_id s)
      \<and> (\<exists>rs r fs. fetch us = Some rs \<and> r \<in> set rs \<and> rc_id r = so_chunk_id s \<and> s = neighbour fs r)" if "s \<in> set more" for s
  proof -
    from nf that obtain fs r where r: "so_chunk_id s \<in> set us" "adjacent_lookup rs (so_chunk_id s) = Some r" "s = neighbour fs r"
      unfolding found_for_def by blast
    from adjacent_lookup_id [OF r(2)] have "rc_id r = so_chunk_id s" "r \<in> set rs" by simp_all
    moreover from this(2) have "fetch us = Some rs" by (cases "fetch us") (simp_all add: rs_def)
    ultimately show ?thesis using uids_to_fetch_near [OF assms(2) r(1)] r(3) by blast
  qed
  have all: "norm_uid ` set ss \<subseteq> norm_uid ` set out
      \<and> (\<forall>pre s post. ss = pre @ s # post \<longrightarrow> norm_uid s \<notin> norm_uid ` set pre \<longrightarrow> s \<in> set out)"
    if "length (kept @ more) \<le> rt_top_k cfg"
  proof -
    have "set out = set kept \<union> set more" unfolding out using that by simp
    moreover have "norm_uid ` set ss \<subseteq> norm_uid ` set kept" using of by auto
    moreover have "s \<in> set kept" if "ss = pre @ s # post" "norm_uid s \<notin> norm_uid ` set pre" for pre s post
      using originals_first [OF o that] by simp
    ultimately show ?thesis by (intro conjI allI impI) (blast, simp)
  qed
  have "length out \<le> rt_top_k cfg" "set out \<subseteq> set (kept @ more)" "distinct (map norm_uid out)" "sorted (map ?f out)"
    unfolding out using set_take_subset [of "rt_top_k cfg" "sort_key ?f (kept @ more)"] d sorted_sort_take
    by (simp_all add: take_map [symmetric])
  moreover have "\<forall>s \<in> set more. near_hit (rt_window cfg) ss (so_chunk_id s)
      \<and> (\<exists>rs r fs. fetch us = Some rs \<and> r \<in> set rs \<and> rc_id r = so_chunk_id s \<and> s = neighbour fs r)"
    using near by (rule ballI)
  ultimately show ?thesis using impI [OF all] unfolding o fst_conv by (intro exI [of _ more] conjI)
qed

section \<open>Chunk ids of the three formats\<close>

lemma py_to_int_dec [simp]: "py_to_int (dec n) = Some (int n)"
proof -
  have d: "48 \<le> c \<and> c \<le> 57" if "c \<in> set (dec n)" for c using that by (rule dec_digits)
  have sp: "\<not> py_isspace c" if "c \<in> set (dec n)" for c using d [OF that] by (auto simp: py_isspace_def)
  have "dropWhile py_isspace xs = xs" if "set xs \<subseteq> set (dec n)" for xs
    using that sp by (cases xs) auto
  then have strip: "py_strip (dec n) = dec n" by (simp add: py_strip_def)
  obtain c r where cr: "dec n = c # r" by (cases "dec n") simp_all
  then have "c \<noteq> 45" "c \<noteq> 43" using d [of c] by auto
  moreover have "py_split 95 (dec n) = [dec n]" using d [of 95] by (intro py_split_no_sep) auto
  moreover have "list_all py_isdecimal (dec n)" using dec_isdecimal by (auto simp: list_all_iff)
  ultimately show ?thesis using strip cr py_int_dec [of n] by (simp add: py_to_int_def)
qed

lemma py_to_int_default: "py_to_int (lit ''default'') = None"
  using not_decimal_punct [of 100] by (simp add: py_to_int_def py_strip_def py_isspace_def lit_def)

lemma hash8_no_separator: "is_hash8 h \<Longrightarrow> 95 \<notin> set h"
  by (auto simp: is_hash8_def list_all_iff)

lemma dec_no_separator: "95 \<notin> set (dec n)"
  using dec_digits [of 95 n] by auto

lemma split_uid:
  "xs \<noteq> [] \<Longrightarrow> \<forall>x \<in> set xs. 95 \<notin> set x \<Longrightarrow> py_split 95 (py_join [95] xs) = xs"
  by (rule py_split_join)

lemma normalize_parts:
  assumes "\<forall>x \<in> set [a, b, c]. 95 \<notin> set x"
  shows "normalize_uid (py_join [95] [a, b, c]) =
    (if py_to_int b \<noteq> None \<and> py_to_int c \<noteq> None then py_join [95] [a, c] else py_join [95] [a, b, c])"
proof -
  have "py_split 95 (py_join [95] [a, b, c]) = [a, b, c]" by (rule split_uid [OF _ assms]) simp
  then show ?thesis by (simp add: normalize_uid_def strip_reupload_hash_def Let_def)
qed

lemma normalize_hash:
  assumes "\<forall>x \<in> set [a, h, b, c]. 95 \<notin> set x" and "is_hash8 h"
  shows "normalize_uid (py_join [95] [a, h, b, c]) = normalize_uid (py_join [95] [a, b, c])"
proof -
  have "py_split 95 (py_join [95] [a, h, b, c]) = [a, h, b, c]" by (rule split_uid [OF _ assms(1)]) simp
  moreover have "py_split 95 (py_join [95] [a, b, c]) = [a, b, c]" by (rule split_uid) (use assms(1) in auto)
  ultimately show ?thesis using assms(2)
    by (simp add: normalize_uid_def strip_reupload_hash_def Let_def del: py_join.simps)
qed

text \<open>
  One chunk, one key: whatever the format of its id - without scale, with a numeric scale, or
  with the hash of its upload before it - the deduplication sees \<open>file_index\<close>. Only the scale
  \<open>default\<close> of an id with a hash stays in the key.
\<close>

theorem normalize_uid_formats:
  assumes "95 \<notin> set file" and "is_hash8 h"
  shows "normalize_uid (py_join [95] [file, dec i]) = py_join [95] [file, dec i]
    \<and> normalize_uid (py_join [95] [file, dec scale, dec i]) = py_join [95] [file, dec i]
    \<and> normalize_uid (py_join [95] [file, h, dec scale, dec i]) = py_join [95] [file, dec i]
    \<and> normalize_uid (py_join [95] [file, h, lit ''default'', dec i]) = py_join [95] [file, lit ''default'', dec i]"
proof -
  have d: "95 \<notin> set (lit ''default'')" by (simp add: lit_def)
  note seps = assms(1) hash8_no_separator [OF assms(2)] dec_no_separator d
  have "py_split 95 (py_join [95] [file, dec i]) = [file, dec i]" by (rule split_uid) (simp_all add: seps)
  then have f1: "normalize_uid (py_join [95] [file, dec i]) = py_join [95] [file, dec i]"
    by (simp add: normalize_uid_def strip_reupload_hash_def Let_def)
  have f2: "normalize_uid (py_join [95] [file, x, dec i]) = (if py_to_int x \<noteq> None then py_join [95] [file, dec i] else py_join [95] [file, x, dec i])"
    if "95 \<notin> set x" for x using normalize_parts [where a = "file" and b = "x" and c = "dec i"] seps that by simp
  have f3: "normalize_uid (py_join [95] [file, h, x, dec i]) = normalize_uid (py_join [95] [file, x, dec i])"
    if "95 \<notin> set x" for x by (rule normalize_hash [OF _ assms(2)]) (use seps that in simp)
  show ?thesis using f1 f2 [OF dec_no_separator [of scale]] f2 [OF d] f3 [OF dec_no_separator [of scale]] f3 [OF d]
    by (simp add: py_to_int_default)
qed

lemma normalize_uid_formats_witness:
  "normalize_uid (py_join [95] [dec 1, lit ''abc12345'', dec 512, dec 3]) = py_join [95] [dec 1, dec 3]
   \<and> normalize_uid (py_join [95] [dec 1, lit ''abc12345'', lit ''default'', dec 3]) \<noteq> py_join [95] [dec 1, dec 3]"
proof -
  have "is_hash8 (lit ''abc12345'')" by (simp add: is_hash8_def lit_def)
  from normalize_uid_formats [OF dec_no_separator [of 1] this, of 3 512] show ?thesis
    by (simp add: lit_def dec.simps)
qed

section \<open>The example\<close>

text \<open>
  Two documents, the first in three chunks; both have a hit in the chunk 1 and the chunk 0,
  \<open>retrieval_top_k\<close> is 3 and the window 1.
\<close>

definition sample_cfg :: "int \<Rightarrow> retrieval_config" where
  "sample_cfg w = \<lparr>rt_threshold = Some (3 / 4), rt_relevance = None, rt_top_k = 3, rt_window = w,
     rt_dedup = True, rt_chunk_cap = 1, rt_doc_cap = 2\<rparr>"

definition row :: "nat \<Rightarrow> nat \<Rightarrow> rat option \<Rightarrow> chunk_record" where
  "row f i d = \<lparr>rc_id = py_join [95] [dec f, dec i], rc_file = dec f, rc_text = [], rc_distance = d,
     rc_fts = None, rc_score = None, rc_rerank = None, rc_uid = [], rc_scale = None, rc_index = dec i\<rparr>"

definition sample_rows :: "chunk_record list" where
  "sample_rows = [row 1 1 (Some (1 / 10)), row 1 0 (Some (2 / 10)), row 2 0 (Some (3 / 10)), row 3 0 (Some (9 / 10))]"

definition sample_store :: "pystr list \<Rightarrow> chunk_record list option" where
  "sample_store us = Some (filter (\<lambda>r. rc_id r \<in> set us)
     [row 1 0 None, row 1 1 None, row 1 2 None, row 2 0 None, row 3 0 None])"

lemma skipped_row: "skipped (sample_cfg w) False (row f i (Some d)) \<longleftrightarrow> 3 / 4 < d"
  unfolding skipped_def sample_cfg_def row_def by (simp add: row_value_def)

lemma sample_relevant:
  "map (source_of False) (filter (\<lambda>r. visible None r \<and> \<not> skipped (sample_cfg w) False r) sample_rows) =
   map (source_of False) (take 3 sample_rows)"
  by (simp add: sample_rows_def visible_def skipped_row)

lemma filter_relevant_exact_witness:
  "\<exists>out. filter_relevant (sample_cfg 0) None None False None sample_rows = Some (out, False)
     \<and> filter (\<lambda>s. so_file s = dec 1) out = [source_of False (row 1 1 (Some (1 / 10)))]
     \<and> filter (\<lambda>s. so_file s = dec 2) out = [source_of False (row 2 0 (Some (3 / 10)))]
     \<and> filter (\<lambda>s. so_file s = dec 3) out = []"
proof -
  have c: "rt_window (sample_cfg 0) \<le> 0" "rt_dedup (sample_cfg 0) \<longrightarrow> 0 < rt_chunk_cap (sample_cfg 0)"
    by (simp_all add: sample_cfg_def)
  from filter_relevant_exact [OF c sample_relevant [symmetric], of None None]
  obtain out where out: "filter_relevant (sample_cfg 0) None None False None sample_rows = Some (out, sample_rows \<noteq> [] \<and> out = [])"
    "\<And>f. filter (\<lambda>s. so_file s = f) out =
        (if f \<in> set (take 2 (py_dedup (map so_file (map (source_of False) (take 3 sample_rows)))))
         then take 1 (filter (\<lambda>s. so_file s = f) (map (source_of False) (take 3 sample_rows))) else [])"
    by (auto simp: sample_cfg_def)
  have f: "so_file (source_of False (row f i d)) = dec f" for f i d
    by (simp add: source_of_def row_def split: prod.split)
  have "filter (\<lambda>s. so_file s = dec 1) out = [source_of False (row 1 1 (Some (1 / 10)))]"
    "filter (\<lambda>s. so_file s = dec 2) out = [source_of False (row 2 0 (Some (3 / 10)))]"
    "filter (\<lambda>s. so_file s = dec 3) out = []"
    unfolding out(2) by (simp_all add: sample_rows_def f dec.simps)
  moreover from this have "out \<noteq> []" by auto
  moreover from this have "filter_relevant (sample_cfg 0) None None False None sample_rows = Some (out, False)"
    using out(1) by simp
  ultimately show ?thesis by blast
qed

section \<open>The wire\<close>

definition sanitize_wire_filename :: "pystr option \<Rightarrow> pystr" where
  "sanitize_wire_filename name =
     (case name of
        None \<Rightarrow> lit ''Unknown document''
      | Some n \<Rightarrow>
          if n = [] then lit ''Unknown document''
          else (let base = last (py_split 47 (map (\<lambda>c. if c = 92 then 47 else c) n))
                in if base = [] then lit ''Unknown document'' else base))"

text \<open>No path goes out: no separator of either kind, and never an empty name.\<close>

lemma wire_filename_no_path:
  "sanitize_wire_filename name \<noteq> [] \<and> 47 \<notin> set (sanitize_wire_filename name) \<and> 92 \<notin> set (sanitize_wire_filename name)"
proof -
  have "x \<in> set s" if "x \<in> set (last (py_split c s))" for x c and s :: pystr
  proof -
    have "\<Union> (set ` set (py_split c s)) \<subseteq> set s" for c and s :: pystr
    proof (induction s)
      case (Cons y s)
      obtain z zs where "py_split c s = z # zs" by (cases "py_split c s") auto
      with Cons show ?case by auto
    qed simp
    moreover have "last (py_split c s) \<in> set (py_split c s)" by (rule last_in_set) simp
    ultimately show ?thesis using that by blast
  qed
  then have "92 \<notin> set (last (py_split 47 (map (\<lambda>c. if c = 92 then 47 else c) n)))" for n
    by (fastforce split: if_splits)
  moreover have "47 \<notin> set (last (py_split 47 s))" for s by (rule py_split_pieces [of _ 47 s]) simp
  ultimately show ?thesis by (auto simp: sanitize_wire_filename_def Let_def lit_def split: option.split)
qed

section \<open>The window of the example\<close>

abbreviation uid_of :: "nat \<Rightarrow> nat \<Rightarrow> pystr" where
  "uid_of f i \<equiv> py_join [95] [dec f, dec i]"

definition sample_hits :: "rag_source list" where
  "sample_hits = map (source_of False) [row 1 1 (Some (1 / 10)), row 2 0 (Some (3 / 10))]"

lemma source_of_row:
  "so_file (source_of False (row f i d)) = dec f" "so_index (source_of False (row f i d)) = dec i"
  "so_chunk_id (source_of False (row f i d)) = uid_of f i" "so_scale (source_of False (row f i d)) = None"
  by (simp_all add: source_of_def row_def split: prod.split)

lemma split_two: "py_split 95 (uid_of f i) = [dec f, dec i]"
  by (rule split_uid) (simp_all add: dec_no_separator)

lemma split_one: "py_split 95 (dec i) = [dec i]"
  by (rule py_split_no_sep) (rule dec_no_separator)

lemma normalize_two: "normalize_uid (uid_of f i) = uid_of f i"
  unfolding normalize_uid_def strip_reupload_hash_def split_two by (simp add: Let_def split_two del: py_join.simps)

lemma norm_uid_row: "norm_uid (source_of False (row f i d)) = uid_of f i"
  using normalize_two [of f i] by (simp add: source_uid_def source_of_row)

lemma uid_of_eq: "uid_of f i = uid_of g j \<longleftrightarrow> f = g \<and> i = j"
  by (metis split_two list.inject py_int_dec)

lemma group_of_row: "group_key (source_of False (row f i d)) = dec f" "group_parts (dec f) = (dec f, lit ''default'')"
  by (simp_all add: group_key_def source_of_row group_parts_def split_one)

lemma no_hash: "extract_reupload_hash (uid_of f i) (dec f) = None"
proof -
  have "hd (py_split 95 (dec i)) = dec i" by (simp add: split_one)
  moreover have "\<not> is_hash8 (dec i)"
    using dec_digits [of _ i] by (fastforce simp: is_hash8_def list_ex_iff)
  ultimately show ?thesis by (simp add: extract_reupload_hash_def Let_def)
qed

lemma row_uids:
  "group_uids w (dec f) [source_of False (row f i d)] = Some (map (\<lambda>j. uid_of f j) (window_of w (int i)))"
  by (simp add: group_uids_def group_of_row source_of_row parse_chunk_index_def split_one no_hash [simplified] chunk_uid_def Let_def)

lemma sample_uids: "uids_to_fetch 1 sample_hits = Some [uid_of 1 0, uid_of 1 1, uid_of 1 2, uid_of 2 0, uid_of 2 1]"
proof -
  have d: "dec 2 \<noteq> dec 1" by (simp add: dec.simps)
  have w: "window_of 1 1 = [0, 1, 2]" "window_of 1 0 = [0, 1]" by (simp_all add: window_of_def upt_rec)
  show ?thesis using row_uids [of 1 1 1 "Some (1 / 10)"] row_uids [of 1 2 0 "Some (3 / 10)"] d d [symmetric]
    by (simp add: uids_to_fetch_def sample_hits_def group_of_row w Let_def del: One_nat_def)
qed

lemma sample_originals: "originals sample_hits [] = (sample_hits, [uid_of 2 0, uid_of 1 1])"
  using uid_of_eq [of 2 0 1 1] norm_uid_row by (simp add: sample_hits_def Let_def del: py_join.simps One_nat_def)

lemma neighbour_row: "neighbour (dec f, None) (row f i None) = source_of False (row f i None)"
  by (simp add: neighbour_def source_of_def row_def row_value_def)

lemma uid_parts_two: "uid_parts (uid_of f i) = Some (dec f, None)"
  unfolding uid_parts_def split_two by (simp add: Let_def)

lemma rc_id_row: "rc_id (row f i d) = uid_of f i"
  by (simp add: row_def)

lemma uid_of_nonempty: "uid_of f i \<noteq> []"
  by simp

definition sample_found :: "chunk_record list" where
  "sample_found = [row 1 0 None, row 1 1 None, row 1 2 None, row 2 0 None]"

lemma sample_fetch: "sample_store [uid_of 1 0, uid_of 1 1, uid_of 1 2, uid_of 2 0, uid_of 2 1] = Some sample_found"
  by (simp only: sample_store_def sample_found_def filter.simps rc_id_row list.set insert_iff uid_of_eq empty_iff) simp

lemma sample_lookup:
  "adjacent_lookup sample_found (uid_of 1 0) = Some (row 1 0 None)"
  "adjacent_lookup sample_found (uid_of 1 2) = Some (row 1 2 None)"
  "adjacent_lookup sample_found (uid_of 2 1) = None"
  unfolding adjacent_lookup_def sample_found_def
  by (simp_all only: rev.simps append.simps find.simps rc_id_row uid_of_eq uid_of_nonempty) simp_all

lemma sample_neighbours:
  "add_neighbours (adjacent_lookup sample_found) [uid_of 1 0, uid_of 1 1, uid_of 1 2, uid_of 2 0, uid_of 2 1] [uid_of 2 0, uid_of 1 1]
   = [source_of False (row 1 0 None), source_of False (row 1 2 None)]"
  by (simp only: add_neighbours.simps normalize_two list.set insert_iff uid_of_eq empty_iff uid_parts_two sample_lookup
      option.simps neighbour_row if_True if_False simp_thms) simp

lemma reading_index_row: "reading_index (source_of False (row f i d)) = int i"
  by (simp add: reading_index_def source_of_row)

text \<open>
  The neighbours of the best document push the only hit of the second out of the answer: the
  cap on the total is applied after the grouping by document, also when the caller gave none.
\<close>

lemma neighbours_displace_hit:
  "expand_window (sample_cfg 1) (Some sample_store) sample_hits
   = Some (map (source_of False) [row 1 0 None, row 1 1 (Some (1 / 10)), row 1 2 None])"
proof -
  have d: "dec 2 \<noteq> dec 1" by (simp add: dec.simps)
  let ?all = "map (source_of False) [row 1 1 (Some (1 / 10)), row 2 0 (Some (3 / 10)), row 1 0 None, row 1 2 None]"
  have all: "sample_hits @ [source_of False (row 1 0 None), source_of False (row 1 2 None)] = ?all"
    by (simp add: sample_hits_def)
  have r: "file_rank ?all (dec 1) = 0" "file_rank ?all (dec 2) = 1"
    using d by (simp_all add: file_rank_def source_of_row)
  have "take 3 (sort_key (\<lambda>s. (file_rank ?all (so_file s), reading_index s)) ?all)
      = map (source_of False) [row 1 0 None, row 1 1 (Some (1 / 10)), row 1 2 None]"
    by (simp add: sort_key_def source_of_row reading_index_row r [simplified] less_eq_prod_def)
  moreover have "sample_hits \<noteq> []" "rt_window (sample_cfg 1) = 1" "rt_top_k (sample_cfg 1) = 3"
    by (simp_all add: sample_hits_def sample_cfg_def)
  ultimately show ?thesis
    by (simp only: expand_window_def sample_uids sample_fetch sample_originals sample_neighbours all
        Let_def option.case if_False simp_thms list.distinct case_prod_conv)
qed

lemma expand_window_sound_witness:
  "\<exists>out. expand_window (sample_cfg 1) (Some sample_store) sample_hits = Some out \<and> length out \<le> 3
     \<and> distinct (map norm_uid out)"
proof -
  have w: "rt_window (sample_cfg 1) = 1" "rt_top_k (sample_cfg 1) = 3" by (simp_all add: sample_cfg_def)
  from expand_window_sound [OF neighbours_displace_hit, unfolded w, OF sample_uids]
  have "length (map (source_of False) [row 1 0 None, row 1 1 (Some (1 / 10)), row 1 2 None]) \<le> 3
    \<and> distinct (map norm_uid (map (source_of False) [row 1 0 None, row 1 1 (Some (1 / 10)), row 1 2 None]))"
    by blast
  then show ?thesis using neighbours_displace_hit by blast
qed

end
