(* ===== verification/Service_Accounts.thy ===== *)
theory Service_Accounts
  imports Interleaving Text_Scan
begin

text \<open>
  Service-account keys: \<^verbatim>\<open>backend/app/api/routes/service_accounts.py\<close>,
  \<^verbatim>\<open>lookup_service_account\<close> of \<^verbatim>\<open>models/database.py\<close>, and the guards
  \<^verbatim>\<open>require_scope\<close>, \<^verbatim>\<open>require_auth\<close>, \<^verbatim>\<open>require_service_account\<close> of
  \<^verbatim>\<open>security/__init__.py\<close> with the second path of
  \<^verbatim>\<open>get_current_user_or_service_account\<close> of \<^verbatim>\<open>api/deps.py\<close>. The digest,
  \<open>str.lower\<close> and the random part of a key are parameters. A timestamp is an integer; the
  text of an expiry that does not parse is \<open>Unreadable\<close>. The fallback of the lookup to the table without grace columns is not
  modelled. A request that reads before it writes takes
  the state it read as an argument of its own.
\<close>

section \<open>Data\<close>

datatype grace = Unbounded | Until int | Unreadable

record service_account =
  sa_id :: nat
  sa_name :: pystr
  sa_hash :: pystr
  sa_scopes :: pystr
  sa_created :: int
  sa_rotated :: "int option"
  sa_revoked :: "int option"
  sa_creator :: pystr
  sa_prev :: "pystr option"
  sa_grace :: grace

record service_db =
  sa_rows :: "service_account list"
  sa_next :: nat

record key_text =
  kt_sha :: "pystr \<Rightarrow> pystr"
  kt_lower :: "pystr \<Rightarrow> pystr"

definition rotation_grace :: int where
  "rotation_grace = 24 * 60 * 60"

definition service_key_prefix :: pystr where
  "service_key_prefix = lit ''sak_''"

definition generate_service_key :: "key_text \<Rightarrow> pystr \<Rightarrow> pystr \<times> pystr" where
  "generate_service_key kt random = (let raw = service_key_prefix @ random in (raw, kt_sha kt raw))"

definition scope_list :: "pystr \<Rightarrow> pystr list" where
  "scope_list s = filter (\<lambda>x. x \<noteq> []) (map py_strip (py_split 44 s))"

section \<open>Requests\<close>

definition create_service_account ::
  "key_text \<Rightarrow> int \<Rightarrow> pystr \<Rightarrow> pystr \<Rightarrow> pystr list \<Rightarrow> pystr \<Rightarrow> service_db \<Rightarrow> (http_error + pystr) \<times> service_db" where
  "create_service_account kt now creator name scopes random db =
     (if py_strip name = [] then (Inl (Http 400), db)
      else if scopes = [] then (Inl (Http 400), db)
      else if list_ex (\<lambda>s. py_strip s = []) scopes then (Inl (Http 400), db)
      else (case generate_service_key kt random of (raw, h) \<Rightarrow>
        if list_ex (\<lambda>r. sa_hash r = h) (sa_rows db) then (Inl (Http 409), db)
        else (Inr raw, db\<lparr>sa_rows := sa_rows db @ [\<lparr>sa_id = sa_next db, sa_name = py_strip name, sa_hash = h,
                 sa_scopes = py_join [44] scopes, sa_created = now, sa_rotated = None, sa_revoked = None,
                 sa_creator = creator, sa_prev = None, sa_grace = Unbounded\<rparr>],
               sa_next := sa_next db + 1\<rparr>)))"

text \<open>A hash that another row has already fails the \<open>UPDATE\<close>; nothing catches that error.\<close>

definition rotate_service_account_key ::
  "key_text \<Rightarrow> int \<Rightarrow> nat \<Rightarrow> pystr \<Rightarrow> service_db \<Rightarrow> (http_error + pystr) \<times> service_db" where
  "rotate_service_account_key kt now i random db =
     (case generate_service_key kt random of (raw, h) \<Rightarrow>
        let hit = (\<lambda>r. sa_id r = i \<and> sa_revoked r = None)
        in if rowcount hit (sa_rows db) = 0
           then (Inl (Http (if list_ex (\<lambda>r. sa_id r = i) (sa_rows db) then 400 else 404)), db)
           else if list_ex (\<lambda>r. sa_hash r = h \<and> sa_id r \<noteq> i) (sa_rows db) then (Inl (Http 500), db)
           else (Inr raw, db\<lparr>sa_rows := update_rows hit
                  (\<lambda>r. r\<lparr>sa_prev := Some (sa_hash r), sa_grace := Until (now + rotation_grace), sa_hash := h,
                         sa_rotated := Some now\<rparr>) (sa_rows db)\<rparr>))"

definition revoke_service_account ::
  "int \<Rightarrow> nat \<Rightarrow> service_db \<Rightarrow> service_db \<Rightarrow> (http_error + int) \<times> service_db" where
  "revoke_service_account now i seen db =
     (case List.find (\<lambda>r. sa_id r = i) (sa_rows seen) of
        None \<Rightarrow> (Inl (Http 404), db)
      | Some r \<Rightarrow>
          if sa_revoked r \<noteq> None then (Inl (Http 400), db)
          else (Inr now, db\<lparr>sa_rows := update_rows (\<lambda>r. sa_id r = i) (\<lambda>r. r\<lparr>sa_revoked := Some now\<rparr>) (sa_rows db)\<rparr>))"

definition list_service_accounts :: "service_db \<Rightarrow> (nat \<times> pystr \<times> pystr list \<times> int option) list" where
  "list_service_accounts db = map (\<lambda>r. (sa_id r, sa_name r, scope_list (sa_scopes r), sa_revoked r)) (sa_rows db)"

definition has_key :: "pystr \<Rightarrow> service_account \<Rightarrow> bool" where
  "has_key h r \<longleftrightarrow> sa_hash r = h \<or> sa_prev r = Some h"

definition retire_previous :: "nat \<Rightarrow> service_db \<Rightarrow> service_db" where
  "retire_previous i db = db\<lparr>sa_rows := update_rows (\<lambda>r. sa_id r = i \<and> sa_prev r \<noteq> None)
     (\<lambda>r. r\<lparr>sa_prev := None, sa_grace := Unbounded\<rparr>) (sa_rows db)\<rparr>"

definition lookup_service_account ::
  "int \<Rightarrow> pystr \<Rightarrow> service_db \<Rightarrow> service_db \<Rightarrow> (service_account option \<times> bool) \<times> service_db" where
  "lookup_service_account now h seen db =
     (case List.find (has_key h) (sa_rows seen) of
        None \<Rightarrow> ((None, False), db)
      | Some r \<Rightarrow>
          if sa_prev r = Some h then
            (case sa_grace r of
               Unbounded \<Rightarrow> ((Some r, True), db)
             | Unreadable \<Rightarrow> ((None, False), db)
             | Until e \<Rightarrow> if e < now then ((None, False), db) else ((Some r, True), db))
          else if sa_prev r \<noteq> None then ((Some r, False), retire_previous (sa_id r) db)
          else ((Some r, False), db))"

section \<open>Guards\<close>

text \<open>The credential of an \<open>Authorization\<close> header, if it is a bearer header with one.\<close>

definition bearer_token :: "key_text \<Rightarrow> pystr option \<Rightarrow> pystr option" where
  "bearer_token kt header =
     (case header of
        None \<Rightarrow> None
      | Some a \<Rightarrow>
          if a = [] \<or> take 7 (kt_lower kt a) \<noteq> lit ''bearer '' then None
          else (case dropWhile (\<lambda>c. c \<noteq> 32) a of
                  [] \<Rightarrow> None
                | _ # rest \<Rightarrow> if py_strip rest = [] then None else Some (py_strip rest)))"

text \<open>A string with a lone surrogate has no UTF-8 encoding; then the comparison is false.\<close>

definition encodable :: "pystr \<Rightarrow> bool" where
  "encodable s \<longleftrightarrow> list_all (\<lambda>c. \<not> (55296 \<le> c \<and> c \<le> 57343)) s"

definition constant_time_equals :: "pystr option \<Rightarrow> pystr option \<Rightarrow> bool" where
  "constant_time_equals l r =
     (case (l, r) of (Some a, Some b) \<Rightarrow> encodable a \<and> encodable b \<and> a = b | _ \<Rightarrow> False)"

definition require_scope ::
  "key_text \<Rightarrow> pystr \<Rightarrow> (pystr \<times> pystr list) list \<Rightarrow> pystr \<Rightarrow> pystr option \<Rightarrow> http_error + pystr" where
  "require_scope kt secret scopes scope header =
     (case bearer_token kt header of
        None \<Rightarrow> Inl (Http 401)
      | Some token \<Rightarrow>
          if secret = [] then Inl (Http 503)
          else if \<not> constant_time_equals (Some token) (Some secret) then Inl (Http 403)
          else (let granted = (case map_of scopes token of None \<Rightarrow> [] | Some ss \<Rightarrow> ss)
                in if kt_lower kt scope \<in> set (map (kt_lower kt) granted) then Inr token else Inl (Http 403)))"

definition require_auth :: "key_text \<Rightarrow> pystr \<Rightarrow> pystr option \<Rightarrow> http_error option" where
  "require_auth kt secret header =
     (if secret = [] then Some (Http 401)
      else (case bearer_token kt header of
              None \<Rightarrow> Some (Http 401)
            | Some token \<Rightarrow> if constant_time_equals (Some token) (Some secret) then None else Some (Http 403)))"

definition require_service_account ::
  "key_text \<Rightarrow> int \<Rightarrow> pystr list \<Rightarrow> pystr option \<Rightarrow> service_db \<Rightarrow> service_db
     \<Rightarrow> (http_error + (nat \<times> pystr \<times> pystr list)) \<times> service_db" where
  "require_service_account kt now required header seen db =
     (case bearer_token kt header of
        None \<Rightarrow> (Inl (Http 401), db)
      | Some raw \<Rightarrow>
          (case lookup_service_account now (kt_sha kt raw) seen db of
             ((None, _), db') \<Rightarrow> (Inl (Http 401), db')
           | ((Some r, _), db') \<Rightarrow>
               if sa_revoked r \<noteq> None then (Inl (Http 401), db')
               else if list_ex (\<lambda>s. kt_lower kt s \<notin> set (map (kt_lower kt) (scope_list (sa_scopes r)))) required
                 then (Inl (Http 403), db')
               else (Inr (sa_id r, sa_name r, scope_list (sa_scopes r)), db')))"

text \<open>The path of \<open>get_current_user_or_service_account\<close> for a caller who is no user.\<close>

definition service_reader ::
  "key_text \<Rightarrow> int \<Rightarrow> pystr option \<Rightarrow> service_db \<Rightarrow> service_db
     \<Rightarrow> (http_error + (nat \<times> pystr \<times> pystr list)) \<times> service_db" where
  "service_reader kt now header seen db =
     (case bearer_token kt header of
        None \<Rightarrow> (Inl (Http 401), db)
      | Some raw \<Rightarrow>
          if take 4 raw \<noteq> service_key_prefix then (Inl (Http 401), db)
          else (case lookup_service_account now (kt_sha kt raw) seen db of
             ((None, _), db') \<Rightarrow> (Inl (Http 401), db')
           | ((Some r, _), db') \<Rightarrow>
               if sa_revoked r \<noteq> None then (Inl (Http 401), db')
               else (let ss = map (kt_lower kt) (scope_list (sa_scopes r))
                     in if lit ''documents:read'' \<notin> set ss then (Inl (Http 403), db')
                        else (Inr (sa_id r, sa_name r, py_dedup ss), db'))))"

section \<open>Runs\<close>

datatype service_call =
    Create int pystr pystr "pystr list" pystr
  | Rotate int nat pystr
  | Revoke int nat service_db
  | Authenticate int "pystr list" "pystr option" service_db
  | Read_documents int "pystr option" service_db

fun exec_call :: "key_text \<Rightarrow> service_call \<Rightarrow> service_db \<Rightarrow> service_db" where
  "exec_call kt (Create now creator name scopes random) db = snd (create_service_account kt now creator name scopes random db)"
| "exec_call kt (Rotate now i random) db = snd (rotate_service_account_key kt now i random db)"
| "exec_call kt (Revoke now i seen) db = snd (revoke_service_account now i seen db)"
| "exec_call kt (Authenticate now required header seen) db = snd (require_service_account kt now required header seen db)"
| "exec_call kt (Read_documents now header seen) db = snd (service_reader kt now header seen db)"

fun reading :: "service_call \<Rightarrow> service_db option" where
  "reading (Revoke now i seen) = Some seen"
| "reading (Authenticate now required header seen) = Some seen"
| "reading (Read_documents now header seen) = Some seen"
| "reading _ = None"

text \<open>The hash of the key that a call issues, and of the key with which it is made.\<close>

fun issued :: "key_text \<Rightarrow> service_call \<Rightarrow> pystr option" where
  "issued kt (Create now creator name scopes random) = Some (snd (generate_service_key kt random))"
| "issued kt (Rotate now i random) = Some (snd (generate_service_key kt random))"
| "issued kt _ = None"

fun presented :: "key_text \<Rightarrow> service_call \<Rightarrow> pystr option" where
  "presented kt (Authenticate now required header seen) = map_option (kt_sha kt) (bearer_token kt header)"
| "presented kt (Read_documents now header seen) =
     (case bearer_token kt header of
        None \<Rightarrow> None
      | Some raw \<Rightarrow> if take 4 raw = service_key_prefix then Some (kt_sha kt raw) else None)"
| "presented kt _ = None"

lemma guards_look_up:
  "snd (require_service_account kt now required header seen db) =
     (case bearer_token kt header of None \<Rightarrow> db | Some raw \<Rightarrow> snd (lookup_service_account now (kt_sha kt raw) seen db))"
  "snd (service_reader kt now header seen db) =
     (case bearer_token kt header of None \<Rightarrow> db | Some raw \<Rightarrow>
        if take 4 raw = service_key_prefix then snd (lookup_service_account now (kt_sha kt raw) seen db) else db)"
  by (auto simp: require_service_account_def service_reader_def Let_def split: option.splits prod.splits)

lemma lookup_writes:
  "snd (lookup_service_account now h seen db) = db
   \<or> (\<exists>r \<in> set (sa_rows seen). has_key h r \<and> sa_prev r \<noteq> Some h \<and> sa_prev r \<noteq> None
        \<and> snd (lookup_service_account now h seen db) = retire_previous (sa_id r) db)"
  using find_SomeD [of "has_key h" "sa_rows seen"]
  by (auto simp: lookup_service_account_def split: option.splits grace.splits)

text \<open>Whatever a call reads, it leaves the table, adds a row, or changes some rows as here.\<close>

definition rotated :: "pystr \<Rightarrow> int \<Rightarrow> service_account \<Rightarrow> service_account" where
  "rotated h now r = r\<lparr>sa_prev := Some (sa_hash r), sa_grace := Until (now + rotation_grace), sa_hash := h, sa_rotated := Some now\<rparr>"

lemma rotate_cases:
  assumes "rotate_service_account_key kt now i random db = (res, db')"
  shows "db' = db \<and> (\<exists>e. res = Inl e)
    \<or> (\<exists>raw h. generate_service_key kt random = (raw, h) \<and> res = Inr raw
       \<and> (\<exists>r \<in> set (sa_rows db). sa_id r = i \<and> sa_revoked r = None)
       \<and> (\<forall>r \<in> set (sa_rows db). sa_hash r = h \<longrightarrow> sa_id r = i)
       \<and> db' = db\<lparr>sa_rows := update_rows (\<lambda>r. sa_id r = i \<and> sa_revoked r = None) (rotated h now) (sa_rows db)\<rparr>)"
proof -
  obtain raw h where g: "generate_service_key kt random = (raw, h)" by (cases "generate_service_key kt random") auto
  show ?thesis
  proof (cases "rowcount (\<lambda>r. sa_id r = i \<and> sa_revoked r = None) (sa_rows db) = 0
      \<or> list_ex (\<lambda>r. sa_hash r = h \<and> sa_id r \<noteq> i) (sa_rows db)")
    case True
    then show ?thesis using assms unfolding rotate_service_account_key_def g
      by (auto simp: Let_def split: if_splits)
  next
    case False
    then have "\<exists>r \<in> set (sa_rows db). sa_id r = i \<and> sa_revoked r = None"
      "\<forall>r \<in> set (sa_rows db). sa_hash r = h \<longrightarrow> sa_id r = i"
      by (auto simp: rowcount_zero list_ex_iff)
    moreover have "res = Inr raw \<and> db' = db\<lparr>sa_rows := update_rows (\<lambda>r. sa_id r = i \<and> sa_revoked r = None) (rotated h now) (sa_rows db)\<rparr>"
      using False assms unfolding rotate_service_account_key_def g rotated_def by (auto simp: Let_def)
    ultimately show ?thesis using g by blast
  qed
qed

lemma exec_call_cases:
  obtains (same) "exec_call kt c db = db"
  | (new) r where "issued kt c = Some (sa_hash r)" "sa_id r = sa_next db" "sa_prev r = None"
      "exec_call kt c db = db\<lparr>sa_rows := sa_rows db @ [r], sa_next := sa_next db + 1\<rparr>"
  | (rotate) now i random h where "c = Rotate now i random" "issued kt c = Some h"
      "exec_call kt c db = db\<lparr>sa_rows := update_rows (\<lambda>r. sa_id r = i \<and> sa_revoked r = None) (rotated h now) (sa_rows db)\<rparr>"
  | (revoke) now i seen where "c = Revoke now i seen"
      "exec_call kt c db = db\<lparr>sa_rows := update_rows (\<lambda>r. sa_id r = i) (\<lambda>r. r\<lparr>sa_revoked := Some now\<rparr>) (sa_rows db)\<rparr>"
  | (retire) h seen r where "presented kt c = Some h" "reading c = Some seen" "r \<in> set (sa_rows seen)" "has_key h r"
      "sa_prev r \<noteq> Some h" "sa_prev r \<noteq> None" "exec_call kt c db = retire_previous (sa_id r) db"
proof (cases c)
  case (Create now creator name scopes random)
  obtain raw h where g: "generate_service_key kt random = (raw, h)" by (cases "generate_service_key kt random") auto
  show thesis
  proof (cases "py_strip name = [] \<or> scopes = [] \<or> list_ex (\<lambda>s. py_strip s = []) scopes \<or> list_ex (\<lambda>r. sa_hash r = h) (sa_rows db)")
    case True
    then have "exec_call kt c db = db" unfolding Create exec_call.simps create_service_account_def g by auto
    then show thesis by (rule same)
  next
    case False
    show thesis
      by (rule new [of "\<lparr>sa_id = sa_next db, sa_name = py_strip name, sa_hash = h, sa_scopes = py_join [44] scopes,
            sa_created = now, sa_rotated = None, sa_revoked = None, sa_creator = creator, sa_prev = None, sa_grace = Unbounded\<rparr>"])
        (use False g in \<open>simp_all add: Create create_service_account_def\<close>)
  qed
next
  case (Rotate now i random)
  obtain res db' where r: "rotate_service_account_key kt now i random db = (res, db')" by fastforce
  from rotate_cases [OF this] show thesis
  proof (elim disjE exE conjE)
    assume "db' = db"
    then show thesis using r by (intro same) (simp add: Rotate)
  next
    fix raw h
    assume "generate_service_key kt random = (raw, h)"
      "db' = db\<lparr>sa_rows := update_rows (\<lambda>r. sa_id r = i \<and> sa_revoked r = None) (rotated h now) (sa_rows db)\<rparr>"
    then show thesis using r by (intro rotate [of now i random h]) (simp_all add: Rotate)
  qed
next
  case (Revoke now i seen)
  show thesis
  proof (cases "snd (revoke_service_account now i seen db) = db")
    case True
    then show thesis by (intro same) (simp add: Revoke)
  next
    case False
    then have "snd (revoke_service_account now i seen db) =
        db\<lparr>sa_rows := update_rows (\<lambda>r. sa_id r = i) (\<lambda>r. r\<lparr>sa_revoked := Some now\<rparr>) (sa_rows db)\<rparr>"
      by (auto simp: revoke_service_account_def split: option.splits if_splits)
    then show thesis by (intro revoke [of now i seen]) (simp_all add: Revoke)
  qed
next
  case (Authenticate now required header seen)
  show thesis
  proof (cases "bearer_token kt header")
    case None
    then show thesis by (intro same) (simp add: Authenticate guards_look_up)
  next
    case (Some raw)
    then have e: "exec_call kt c db = snd (lookup_service_account now (kt_sha kt raw) seen db)"
      by (simp add: Authenticate guards_look_up)
    from lookup_writes [of now "kt_sha kt raw" seen db] show thesis
      by (elim disjE bexE conjE) (use Some e same retire [of "kt_sha kt raw" seen] in \<open>simp_all add: Authenticate\<close>)
  qed
next
  case (Read_documents now header seen)
  show thesis
  proof (cases "\<exists>raw. bearer_token kt header = Some raw \<and> take 4 raw = service_key_prefix")
    case False
    then show thesis by (intro same) (auto simp: Read_documents guards_look_up split: option.split)
  next
    case True
    then obtain raw where b: "bearer_token kt header = Some raw" "take 4 raw = service_key_prefix" by blast
    then have e: "exec_call kt c db = snd (lookup_service_account now (kt_sha kt raw) seen db)"
      by (simp add: Read_documents guards_look_up)
    from lookup_writes [of now "kt_sha kt raw" seen db] show thesis
      by (elim disjE bexE conjE) (use b e same retire [of "kt_sha kt raw" seen] in \<open>simp_all add: Read_documents\<close>)
  qed
qed

text \<open>Ids are unique and a key belongs to one account, as long as no call issues it again.\<close>

definition service_ok :: "service_db \<Rightarrow> bool" where
  "service_ok db \<longleftrightarrow> distinct (map sa_id (sa_rows db)) \<and> (\<forall>r \<in> set (sa_rows db). sa_id r < sa_next db)"

definition sole_key :: "pystr \<Rightarrow> nat \<Rightarrow> service_db \<Rightarrow> bool" where
  "sole_key h i db \<longleftrightarrow> (\<forall>r \<in> set (sa_rows db). has_key h r \<longrightarrow> sa_id r = i)"

lemma map_id_update: "(\<And>r. sa_id (f r) = sa_id r) \<Longrightarrow> map sa_id (update_rows p f rs) = map sa_id rs"
  by (rule map_key_update_rows) simp

lemma service_ok_step: "service_ok db \<Longrightarrow> service_ok (exec_call kt c db)"
proof (cases rule: exec_call_cases [of kt c db])
  case (new r)
  assume "service_ok db"
  then show ?thesis using new(2) by (auto simp: service_ok_def new(4))
next
  case (rotate now i random h)
  assume "service_ok db"
  then show ?thesis
    by (auto simp: service_ok_def rotate(3) map_id_update rotated_def set_update_rows)
next
  case (revoke now i seen)
  assume "service_ok db"
  then show ?thesis by (auto simp: service_ok_def revoke(2) map_id_update set_update_rows)
next
  case (retire h seen r)
  assume "service_ok db"
  then show ?thesis by (auto simp: service_ok_def retire(7) retire_previous_def map_id_update set_update_rows)
qed simp

lemma sole_key_step:
  "sole_key h i db \<Longrightarrow> issued kt c \<noteq> Some h \<Longrightarrow> sole_key h i (exec_call kt c db)"
proof (cases rule: exec_call_cases [of kt c db])
  case (new r)
  assume "sole_key h i db" "issued kt c \<noteq> Some h"
  then show ?thesis using new(1,3) by (auto simp: sole_key_def new(4) has_key_def)
next
  case (rotate now j random h')
  assume "sole_key h i db" "issued kt c \<noteq> Some h"
  then show ?thesis using rotate(2)
    by (auto simp: sole_key_def rotate(3) has_key_def set_update_rows rotated_def)
next
  case (revoke now j seen)
  assume "sole_key h i db"
  then show ?thesis by (auto simp: sole_key_def revoke(2) has_key_def set_update_rows)
next
  case (retire h' seen r)
  assume "sole_key h i db"
  then show ?thesis by (auto simp: sole_key_def retire(7) retire_previous_def has_key_def set_update_rows)
qed simp

section \<open>Revoked accounts\<close>

definition revoked_inv :: "pystr \<Rightarrow> nat \<Rightarrow> service_db \<Rightarrow> bool" where
  "revoked_inv h i db \<longleftrightarrow> sole_key h i db \<and> i < sa_next db
     \<and> (\<forall>r \<in> set (sa_rows db). sa_id r = i \<longrightarrow> sa_revoked r \<noteq> None)"

lemma revoked_inv_step:
  assumes "revoked_inv h i db" and "issued kt c \<noteq> Some h"
  shows "revoked_inv h i (exec_call kt c db)"
proof -
  have sole: "sole_key h i (exec_call kt c db)"
    using assms by (intro sole_key_step) (simp_all add: revoked_inv_def)
  have rv: "sa_revoked r \<noteq> None" if "r \<in> set (sa_rows db)" "sa_id r = i" for r
    using assms(1) that by (simp add: revoked_inv_def)
  have lt: "i < sa_next db" using assms(1) by (simp add: revoked_inv_def)
  show ?thesis
  proof (cases rule: exec_call_cases [of kt c db])
    case same
    then show ?thesis using assms(1) by simp
  next
    case (new r)
    then show ?thesis using sole lt rv by (auto simp: revoked_inv_def)
  next
    case (rotate now j random h')
    have "sa_revoked (if sa_id r = j \<and> sa_revoked r = None then rotated h' now r else r) \<noteq> None"
      if "r \<in> set (sa_rows db)" "sa_id r = i" for r using rv [OF that] by auto
    then show ?thesis using sole lt rotate by (fastforce simp: revoked_inv_def set_update_rows rotated_def)
  next
    case (revoke now j seen)
    then show ?thesis using sole lt rv by (auto simp: revoked_inv_def set_update_rows)
  next
    case (retire h' seen r)
    then show ?thesis using sole lt rv by (auto simp: revoked_inv_def set_update_rows retire_previous_def)
  qed
qed

lemma revoked_refused:
  assumes "revoked_inv (kt_sha kt raw) i seen" and "bearer_token kt header = Some raw"
  shows "fst (require_service_account kt now required header seen db) = Inl (Http 401)
    \<and> fst (service_reader kt now header seen db) = Inl (Http 401)"
proof -
  have "sa_revoked r \<noteq> None" if "List.find (has_key (kt_sha kt raw)) (sa_rows seen) = Some r" for r
    using find_SomeD [OF that] assms(1) by (simp add: revoked_inv_def sole_key_def)
  then have "fst (fst (lookup_service_account now (kt_sha kt raw) seen db)) = Some r \<Longrightarrow> sa_revoked r \<noteq> None" for r
    by (auto simp: lookup_service_account_def split: option.splits grace.splits if_splits)
  then show ?thesis using assms(2)
    by (auto simp: require_service_account_def service_reader_def split: prod.splits option.splits)
qed

text \<open>The runs after a state: calls read one of the states since, and none issues the key \<open>h\<close>.\<close>

definition reads_run :: "service_call \<Rightarrow> service_db list \<Rightarrow> bool" where
  "reads_run c tr \<longleftrightarrow> (case reading c of None \<Rightarrow> True | Some seen \<Rightarrow> seen \<in> set tr)"

definition never_issues :: "key_text \<Rightarrow> pystr \<Rightarrow> service_call \<Rightarrow> service_db list \<Rightarrow> bool" where
  "never_issues kt h c tr \<longleftrightarrow> reads_run c tr \<and> issued kt c \<noteq> Some h"

text \<open>
  C17 Once the revocation of a service account is stored, its current and its previous key are
  refused by both guards in every later state, whatever keys are created, rotated, revoked and
  used meanwhile, unless the very key is issued again.
\<close>

theorem revoked_service_key_dead:
  assumes "service_ok s" and "r \<in> set (sa_rows s)" and "sa_revoked r \<noteq> None"
    and "has_key (kt_sha kt raw) r" and "sole_key (kt_sha kt raw) (sa_id r) s"
    and "trace (exec_call kt) (never_issues kt (kt_sha kt raw)) s tr" and "seen \<in> set tr"
    and "bearer_token kt header = Some raw"
  shows "fst (require_service_account kt now required header seen db) = Inl (Http 401)
    \<and> fst (service_reader kt now header seen db) = Inl (Http 401)"
proof -
  have "x = r" if "x \<in> set (sa_rows s)" "sa_id x = sa_id r" for x
    using assms(1,2) that distinct_key_eq [of sa_id "sa_rows s"] by (simp add: service_ok_def)
  then have init: "revoked_inv (kt_sha kt raw) (sa_id r) s"
    using assms(1,2,3,5) by (auto simp: revoked_inv_def service_ok_def)
  have "revoked_inv (kt_sha kt raw) (sa_id r) seen"
  proof (rule trace_invariant [where P = "revoked_inv (kt_sha kt raw) (sa_id r)", OF assms(6) init _ assms(7)])
    fix c tr
    assume tr: "trace (exec_call kt) (never_issues kt (kt_sha kt raw)) s tr"
      and ok: "\<And>t. t \<in> set tr \<Longrightarrow> revoked_inv (kt_sha kt raw) (sa_id r) t"
      and "never_issues kt (kt_sha kt raw) c tr"
    then have "issued kt c \<noteq> Some (kt_sha kt raw)" by (simp add: never_issues_def)
    then show "revoked_inv (kt_sha kt raw) (sa_id r) (exec_call kt c (hd tr))"
      using ok [OF trace_hd [OF tr]] by (intro revoked_inv_step)
  qed
  then show ?thesis using assms(8) by (rule revoked_refused)
qed

section \<open>Rotation\<close>

definition exec_logged :: "key_text \<Rightarrow> service_call \<Rightarrow> service_call list \<times> service_db \<Rightarrow> service_call list \<times> service_db" where
  "exec_logged kt c x = (c # fst x, exec_call kt c (snd x))"

text \<open>Calls that neither rotate nor revoke the account \<open>i\<close> nor issue one of its two keys again.\<close>

definition leaves_account :: "key_text \<Rightarrow> pystr \<Rightarrow> pystr \<Rightarrow> nat \<Rightarrow> service_call \<Rightarrow> (service_call list \<times> service_db) list \<Rightarrow> bool" where
  "leaves_account kt h0 h1 i c tr \<longleftrightarrow> (case reading c of None \<Rightarrow> True | Some seen \<Rightarrow> seen \<in> snd ` set tr)
     \<and> issued kt c \<noteq> Some h0 \<and> issued kt c \<noteq> Some h1
     \<and> (case c of Rotate now j random \<Rightarrow> j \<noteq> i | Revoke now j seen \<Rightarrow> j \<noteq> i | _ \<Rightarrow> True)"

definition used :: "key_text \<Rightarrow> pystr \<Rightarrow> service_call list \<Rightarrow> bool" where
  "used kt h log \<longleftrightarrow> list_ex (\<lambda>c. presented kt c = Some h) log"

definition in_grace :: "key_text \<Rightarrow> pystr \<Rightarrow> pystr \<Rightarrow> int \<Rightarrow> service_account \<Rightarrow> service_call list \<Rightarrow> service_account \<Rightarrow> bool" where
  "in_grace kt h0 h1 e r0 log r \<longleftrightarrow> sa_hash r = h1 \<and> sa_revoked r = None \<and> sa_name r = sa_name r0 \<and> sa_scopes r = sa_scopes r0
     \<and> (if used kt h1 log then sa_prev r = None else sa_prev r = Some h0 \<and> sa_grace r = Until e)"

definition grace_inv :: "key_text \<Rightarrow> pystr \<Rightarrow> pystr \<Rightarrow> int \<Rightarrow> service_account \<Rightarrow> service_call list \<times> service_db \<Rightarrow> bool" where
  "grace_inv kt h0 h1 e r0 x \<longleftrightarrow> (let i = sa_id r0; db = snd x in
     sole_key h0 i db \<and> sole_key h1 i db \<and> i < sa_next db \<and> (\<exists>r \<in> set (sa_rows db). sa_id r = i)
     \<and> (\<forall>r \<in> set (sa_rows db). sa_id r = i \<longrightarrow> in_grace kt h0 h1 e r0 (fst x) r))"

lemma grace_invD:
  assumes "grace_inv kt h0 h1 e r0 (log, db)"
  shows "sole_key h0 (sa_id r0) db" "sole_key h1 (sa_id r0) db" "sa_id r0 < sa_next db"
    "\<exists>r \<in> set (sa_rows db). sa_id r = sa_id r0"
    "\<And>r. r \<in> set (sa_rows db) \<Longrightarrow> sa_id r = sa_id r0 \<Longrightarrow> in_grace kt h0 h1 e r0 log r"
  using assms by (simp_all add: grace_inv_def Let_def)

lemma find_exists: "\<exists>r \<in> set rs. P r \<Longrightarrow> \<exists>r. List.find P rs = Some r"
  by (induction rs) auto

lemma find_new_key:
  assumes "grace_inv kt h0 h1 e r0 (log, db)"
  obtains r where "List.find (has_key h1) (sa_rows db) = Some r" "r \<in> set (sa_rows db)" "sa_id r = sa_id r0"
    "in_grace kt h0 h1 e r0 log r"
proof -
  from grace_invD(4,5) [OF assms] have "\<exists>r \<in> set (sa_rows db). has_key h1 r"
    unfolding has_key_def in_grace_def by blast
  from find_exists [OF this] obtain r where r: "List.find (has_key h1) (sa_rows db) = Some r" by blast
  with find_SomeD [OF r] grace_invD(2,5) [OF assms] show thesis
    by (intro that [of r]) (auto simp: sole_key_def)
qed

lemma lookup_new_key:
  assumes "grace_inv kt h0 h1 e r0 (log, seen)" and "h0 \<noteq> h1"
  shows "\<exists>r. fst (lookup_service_account now h1 seen db) = (Some r, False) \<and> sa_id r = sa_id r0
    \<and> in_grace kt h0 h1 e r0 log r
    \<and> snd (lookup_service_account now h1 seen db) = (if used kt h1 log then db else retire_previous (sa_id r0) db)"
proof -
  obtain r where r: "List.find (has_key h1) (sa_rows seen) = Some r" "sa_id r = sa_id r0" "in_grace kt h0 h1 e r0 log r"
    using find_new_key [OF assms(1)] by metis
  then show ?thesis using assms(2) by (auto simp: lookup_service_account_def in_grace_def)
qed

lemma lookup_old_key:
  assumes "grace_inv kt h0 h1 e r0 (log, seen)" and "h0 \<noteq> h1"
  shows "if used kt h1 log \<or> e < now then fst (fst (lookup_service_account now h0 seen db)) = None
    else \<exists>r. fst (fst (lookup_service_account now h0 seen db)) = Some r \<and> sa_id r = sa_id r0 \<and> in_grace kt h0 h1 e r0 log r"
proof (cases "List.find (has_key h0) (sa_rows seen)")
  case None
  have "used kt h1 log"
  proof (rule ccontr)
    assume "\<not> used kt h1 log"
    moreover obtain r where "r \<in> set (sa_rows seen)" "sa_id r = sa_id r0" using grace_invD(4) [OF assms(1)] by blast
    ultimately have "r \<in> set (sa_rows seen)" "has_key h0 r"
      using grace_invD(5) [OF assms(1)] by (simp_all add: in_grace_def has_key_def)
    then show False using find_NoneD [OF None] by blast
  qed
  then show ?thesis using None by (simp add: lookup_service_account_def)
next
  case (Some r)
  from find_SomeD [OF this] grace_invD(1,5) [OF assms(1)] have r: "sa_id r = sa_id r0" "in_grace kt h0 h1 e r0 log r" "has_key h0 r"
    by (auto simp: sole_key_def)
  then have "\<not> used kt h1 log" "sa_prev r = Some h0" "sa_grace r = Until e"
    using assms(2) by (auto simp: in_grace_def has_key_def split: if_splits)
  then show ?thesis using Some r(1,2) by (simp add: lookup_service_account_def)
qed

lemma in_grace_cong:
  "used kt h1 (c # log) = used kt h1 log \<Longrightarrow> in_grace kt h0 h1 e r0 (c # log) r = in_grace kt h0 h1 e r0 log r"
  by (simp add: in_grace_def)

lemma exec_new_key:
  assumes "presented kt c = Some h" "reading c = Some seen"
  shows "\<exists>now. exec_call kt c db = snd (lookup_service_account now h seen db)"
  using assms by (cases c) (auto simp: guards_look_up split: option.splits if_splits)

lemma presented_reads: "presented kt c = Some h \<Longrightarrow> \<exists>seen. reading c = Some seen"
  by (cases c) auto

lemma grace_update:
  assumes inv: "grace_inv kt h0 h1 e r0 (log, db)" and sole: "sole_key h0 (sa_id r0) db'" "sole_key h1 (sa_id r0) db'"
    and rows: "sa_rows db' = update_rows p f (sa_rows db)" "sa_next db' = sa_next db" "\<And>r. sa_id (f r) = sa_id r"
    and keep: "\<And>r. sa_id r = sa_id r0 \<Longrightarrow> in_grace kt h0 h1 e r0 log r \<Longrightarrow> in_grace kt h0 h1 e r0 log' (if p r then f r else r)"
  shows "grace_inv kt h0 h1 e r0 (log', db')"
proof -
  note D = grace_invD [OF inv]
  from D(4) obtain r where r: "r \<in> set (sa_rows db)" "sa_id r = sa_id r0" by blast
  have "sa_id (if p r then f r else r) = sa_id r0" using r(2) rows(3) by simp
  then have ex: "\<exists>r \<in> set (sa_rows db'). sa_id r = sa_id r0"
    using in_update_rows [OF r(1), of p f] unfolding rows(1) by blast
  have "in_grace kt h0 h1 e r0 log' x" if x: "x \<in> set (sa_rows db')" "sa_id x = sa_id r0" for x
  proof -
    from x(1) obtain y where y: "y \<in> set (sa_rows db)" "x = (if p y then f y else y)"
      unfolding rows(1) set_update_rows by blast
    then have "sa_id y = sa_id r0" using x(2) rows(3) [of y] by (simp split: if_splits)
    from keep [OF this D(5) [OF y(1) this]] show ?thesis using y(2) by simp
  qed
  then show ?thesis using ex D(3) rows(2) sole by (simp add: grace_inv_def Let_def)
qed

lemma grace_step:
  assumes inv: "grace_inv kt h0 h1 e r0 (log, db)" and "h0 \<noteq> h1"
    and quiet: "leaves_account kt h0 h1 (sa_id r0) c tr"
    and seen: "\<And>s. reading c = Some s \<Longrightarrow> \<exists>l. grace_inv kt h0 h1 e r0 (l, s) \<and> set l \<subseteq> set log"
  shows "grace_inv kt h0 h1 e r0 (exec_logged kt c (log, db))"
proof -
  let ?i = "sa_id r0"
  note D = grace_invD [OF inv]
  have sole: "sole_key h0 ?i (exec_call kt c db)" "sole_key h1 ?i (exec_call kt c db)"
    using D(1,2) quiet by (auto intro!: sole_key_step simp: leaves_account_def)
  show ?thesis
  proof (cases "presented kt c = Some h1")
    case True
    then obtain s where s: "reading c = Some s" using presented_reads by blast
    then obtain l where l: "grace_inv kt h0 h1 e r0 (l, s)" "set l \<subseteq> set log" using seen by blast
    obtain now where e: "exec_call kt c db = snd (lookup_service_account now h1 s db)" using exec_new_key [OF True s] by blast
    from lookup_new_key [OF l(1) assms(2), of now db]
    have c: "exec_call kt c db = (if used kt h1 l then db else retire_previous ?i db)" unfolding e by blast
    have u: "used kt h1 l \<Longrightarrow> used kt h1 log" using l(2) by (auto simp: used_def list_ex_iff)
    have u': "used kt h1 (c # log)" using True by (simp add: used_def)
    show ?thesis
    proof (cases "used kt h1 l")
      case True
      then show ?thesis using D sole c u u'
        by (auto simp: grace_inv_def Let_def exec_logged_def in_grace_def)
    next
      case False
      then have "exec_call kt c db = retire_previous ?i db" using c by simp
      then show ?thesis unfolding exec_logged_def fst_conv snd_conv
        by (intro grace_update [where p = "\<lambda>r. sa_id r = ?i \<and> sa_prev r \<noteq> None" and f = "\<lambda>r. r\<lparr>sa_prev := None, sa_grace := Unbounded\<rparr>", OF inv sole])
            (auto simp: retire_previous_def in_grace_def u')
    qed
  next
    case False
    then have u: "used kt h1 (c # log) = used kt h1 log" by (simp add: used_def)
    show ?thesis
    proof (cases rule: exec_call_cases [of kt c db])
      case same
      then show ?thesis using D sole by (simp add: grace_inv_def Let_def exec_logged_def in_grace_cong [OF u])
    next
      case (new r)
      then show ?thesis using D sole by (auto simp: grace_inv_def Let_def exec_logged_def in_grace_cong [OF u])
    next
      case (rotate now j random h')
      then have "j \<noteq> ?i" using quiet by (simp add: leaves_account_def)
      then show ?thesis unfolding exec_logged_def fst_conv snd_conv
        by (intro grace_update [where p = "\<lambda>r. sa_id r = j \<and> sa_revoked r = None" and f = "rotated h' now", OF inv sole])
          (auto simp: in_grace_cong [OF u] rotated_def rotate(3))
    next
      case (revoke now j s)
      then have "j \<noteq> ?i" using quiet by (simp add: leaves_account_def)
      then show ?thesis unfolding exec_logged_def fst_conv snd_conv
        by (intro grace_update [where p = "\<lambda>r. sa_id r = j" and f = "\<lambda>r. r\<lparr>sa_revoked := Some now\<rparr>", OF inv sole])
          (auto simp: in_grace_cong [OF u] revoke(2))
    next
      case (retire h s r)
      from seen [OF retire(2)] obtain l where l: "grace_inv kt h0 h1 e r0 (l, s)" by blast
      have "sa_id r \<noteq> ?i"
      proof
        assume "sa_id r = ?i"
        then have "in_grace kt h0 h1 e r0 l r" using grace_invD(5) [OF l] retire(3) by simp
        then show False using retire(1,4,5) False by (auto simp: in_grace_def has_key_def)
      qed
      then show ?thesis unfolding exec_logged_def fst_conv snd_conv
        by (intro grace_update [where p = "\<lambda>x. sa_id x = sa_id r \<and> sa_prev x \<noteq> None" and f = "\<lambda>r. r\<lparr>sa_prev := None, sa_grace := Unbounded\<rparr>", OF inv sole])
          (auto simp: in_grace_cong [OF u] retire(7) retire_previous_def)
    qed
  qed
qed

text \<open>The runs after a rotation keep the invariant, and their logs only grow.\<close>

interpretation rotation: monotone_run "exec_logged kt" "leaves_account kt h0 h1 (sa_id r0)" init
  "\<lambda>x. h0 \<noteq> h1 \<and> grace_inv kt h0 h1 e r0 init \<longrightarrow> grace_inv kt h0 h1 e r0 x" "\<lambda>x y. set (fst x) \<subseteq> set (fst y)"
  for kt h0 h1 e r0 init
proof
  fix tr c
  assume ne: "tr \<noteq> []"
    and ok: "\<And>s. s \<in> set tr \<Longrightarrow> h0 \<noteq> h1 \<and> grace_inv kt h0 h1 e r0 init \<longrightarrow> grace_inv kt h0 h1 e r0 s"
    and ord: "\<And>n m. m \<le> n \<Longrightarrow> n < length tr \<Longrightarrow> set (fst (tr ! n)) \<subseteq> set (fst (tr ! m))"
    and quiet: "leaves_account kt h0 h1 (sa_id r0) c tr"
  obtain log db where x: "hd tr = (log, db)" by fastforce
  have "grace_inv kt h0 h1 e r0 (exec_logged kt c (log, db))" if h: "h0 \<noteq> h1" "grace_inv kt h0 h1 e r0 init"
  proof (rule grace_step [OF _ h(1) quiet])
    show "grace_inv kt h0 h1 e r0 (log, db)" using ok [OF hd_in_set [OF ne]] h x by simp
    fix s
    assume "reading c = Some s"
    then have "s \<in> snd ` set tr" using quiet by (simp add: leaves_account_def)
    then obtain l where l: "(l, s) \<in> set tr" by auto
    then obtain n where n: "n < length tr" "tr ! n = (l, s)" by (meson in_set_conv_nth)
    have "set l \<subseteq> set log" using ord [of 0 n] n x ne by (simp add: hd_conv_nth)
    then show "\<exists>l. grace_inv kt h0 h1 e r0 (l, s) \<and> set l \<subseteq> set log" using ok [OF l] h by blast
  qed
  then show "(h0 \<noteq> h1 \<and> grace_inv kt h0 h1 e r0 init \<longrightarrow> grace_inv kt h0 h1 e r0 (exec_logged kt c (hd tr)))
      \<and> set (fst (hd tr)) \<subseteq> set (fst (exec_logged kt c (hd tr)))"
    using x by (auto simp: exec_logged_def)
qed auto

text \<open>What a guard answers to a valid key of the account \<open>r\<close>.\<close>

definition admit :: "key_text \<Rightarrow> pystr list \<Rightarrow> service_account \<Rightarrow> http_error + (nat \<times> pystr \<times> pystr list)" where
  "admit kt required r =
     (if list_ex (\<lambda>s. kt_lower kt s \<notin> set (map (kt_lower kt) (scope_list (sa_scopes r)))) required
      then Inl (Http 403) else Inr (sa_id r, sa_name r, scope_list (sa_scopes r)))"

lemma require_found:
  assumes "bearer_token kt header = Some raw" and "fst (fst (lookup_service_account now (kt_sha kt raw) seen db)) = Some r"
    and "sa_revoked r = None" "sa_id r = sa_id r0" "sa_name r = sa_name r0" "sa_scopes r = sa_scopes r0"
  shows "fst (require_service_account kt now required header seen db) = admit kt required r0"
  using assms by (auto simp: require_service_account_def admit_def split: prod.split)

lemma require_unknown:
  assumes "bearer_token kt header = Some raw" and "fst (fst (lookup_service_account now (kt_sha kt raw) seen db)) = None"
  shows "fst (require_service_account kt now required header seen db) = Inl (Http 401)"
  using assms by (auto simp: require_service_account_def split: prod.split option.split)

lemma rotated_id: "sa_id (rotated h now r) = sa_id r"
  by (simp add: rotated_def)

lemma rotation_init:
  assumes "service_ok db0" and "r0 \<in> set (sa_rows db0)" and "sole_key (sa_hash r0) (sa_id r0) db0"
    and "rotate_service_account_key kt t0 (sa_id r0) random db0 = (Inr raw, db1)"
    and "\<forall>r \<in> set (sa_rows db0). \<not> has_key (kt_sha kt raw) r"
  shows "grace_inv kt (sa_hash r0) (kt_sha kt raw) (t0 + rotation_grace) r0 ([], db1)"
proof -
  let ?i = "sa_id r0" and ?h = "kt_sha kt raw" and ?p = "\<lambda>r. sa_id r = sa_id r0 \<and> sa_revoked r = None"
  have one: "x = r0" if "x \<in> set (sa_rows db0)" "sa_id x = ?i" for x
    using assms(1,2) that distinct_key_eq [of sa_id "sa_rows db0"] by (simp add: service_ok_def)
  from rotate_cases [OF assms(4)] obtain raw' h where rot: "generate_service_key kt random = (raw', h)" "raw = raw'"
      "\<exists>r \<in> set (sa_rows db0). sa_id r = ?i \<and> sa_revoked r = None"
      "db1 = db0\<lparr>sa_rows := update_rows ?p (rotated h t0) (sa_rows db0)\<rparr>"
    by auto
  have h: "h = ?h" using rot(1,2) by (auto simp: generate_service_key_def Let_def)
  have alive: "sa_revoked r0 = None" using rot(3) one by blast
  have fresh: "?h \<noteq> sa_hash r0" using assms(2,5) by (auto simp: has_key_def)
  have "snd (rotate_service_account_key kt t0 ?i random db0) = db1" using assms(4) by simp
  then have "exec_call kt (Rotate t0 ?i random) db0 = db1" by simp
  moreover have "issued kt (Rotate t0 ?i random) \<noteq> Some (sa_hash r0)" using rot(1) h fresh by simp
  ultimately have s0: "sole_key (sa_hash r0) ?i db1" using sole_key_step [OF assms(3)] by metis
  have s1: "sole_key ?h ?i db1"
    using assms(5) rotated_id by (auto simp: rot(4) sole_key_def set_update_rows)
  have at: "in_grace kt (sa_hash r0) ?h (t0 + rotation_grace) r0 [] r" if "r \<in> set (sa_rows db1)" "sa_id r = ?i" for r
  proof -
    from that(1) obtain x where x: "x \<in> set (sa_rows db0)" "r = (if ?p x then rotated h t0 x else x)"
      unfolding rot(4) by (auto simp: set_update_rows)
    then have "sa_id x = ?i" using that(2) by (simp add: rotated_def split: if_splits)
    then have "x = r0" using one x(1) by blast
    then have "r = rotated h t0 r0" using x(2) alive by simp
    then show ?thesis by (simp add: in_grace_def rotated_def used_def h alive)
  qed
  have "rotated h t0 r0 \<in> set (sa_rows db1)" using in_update_rows [OF assms(2), of ?p "rotated h t0"] alive by (simp add: rot(4))
  moreover have "sa_id (rotated h t0 r0) = ?i" by (simp add: rotated_def)
  moreover have "?i < sa_next db1" using assms(1,2) by (simp add: rot(4) service_ok_def)
  ultimately show ?thesis using s0 s1 at unfolding grace_inv_def Let_def fst_conv snd_conv by blast
qed

text \<open>
  C18 The rotation of a key in use, exactly. After it let any calls run that neither rotate nor
  revoke this account nor issue one of its two keys again, each with a reading of any state
  since the rotation. Then for every such reading the new key is good; the old one is good for
  24 hours, up to and including the last second, unless the new key has been used. Another
  rotation ends the grace at once (\<open>second_rotation_ends_grace\<close>, against the docstring of the
  route), and so can a use of the rotated key that read the account before the rotation
  (\<open>stale_use_ends_fresh_grace\<close>).
\<close>

theorem rotation_grace_exact:
  assumes "service_ok db0" and "r0 \<in> set (sa_rows db0)" and "sole_key (sa_hash r0) (sa_id r0) db0"
    and "rotate_service_account_key kt t0 (sa_id r0) random db0 = (Inr new, db1)"
    and "\<forall>r \<in> set (sa_rows db0). \<not> has_key (kt_sha kt new) r"
    and "trace (exec_logged kt) (leaves_account kt (sa_hash r0) (kt_sha kt new) (sa_id r0)) ([], db1) tr"
    and "(log, seen) \<in> set tr"
    and "bearer_token kt new_header = Some new" and "bearer_token kt old_header = Some old" and "kt_sha kt old = sa_hash r0"
  shows "fst (require_service_account kt now required new_header seen db) = admit kt required r0
    \<and> fst (require_service_account kt now required old_header seen db) =
      (if used kt (kt_sha kt new) log \<or> t0 + 24 * 60 * 60 < now then Inl (Http 401) else admit kt required r0)"
proof -
  let ?h0 = "sa_hash r0" and ?h1 = "kt_sha kt new" and ?e = "t0 + rotation_grace"
  have ne: "?h0 \<noteq> ?h1" using assms(2,5) by (auto simp: has_key_def)
  have "grace_inv kt ?h0 ?h1 ?e r0 (log, seen)"
    using rotation.run_ok [OF assms(6,7), of ?e] rotation_init [OF assms(1-5)] ne by blast
  note new = lookup_new_key [OF this ne] and old = lookup_old_key [OF this ne]
  have "fst (require_service_account kt now required new_header seen db) = admit kt required r0"
  proof -
    from new [of now db] obtain r where "fst (fst (lookup_service_account now ?h1 seen db)) = Some r" "sa_id r = sa_id r0"
      "in_grace kt ?h0 ?h1 ?e r0 log r" by auto
    then show ?thesis by (intro require_found [where r = r, OF assms(8)]) (simp_all add: in_grace_def)
  qed
  moreover have "fst (require_service_account kt now required old_header seen db) =
      (if used kt ?h1 log \<or> ?e < now then Inl (Http 401) else admit kt required r0)"
  proof (cases "used kt ?h1 log \<or> ?e < now")
    case True
    then show ?thesis using old [of now db] assms(10) by (simp add: require_unknown [OF assms(9)])
  next
    case False
    then obtain r where "fst (fst (lookup_service_account now ?h0 seen db)) = Some r" "sa_id r = sa_id r0"
      "in_grace kt ?h0 ?h1 ?e r0 log r" using old [of now db] by auto
    then show ?thesis using False assms(10)
      by (simp add: in_grace_def require_found [where r = r, OF assms(9)])
  qed
  ultimately show ?thesis by (simp add: rotation_grace_def)
qed

section \<open>Examples\<close>

text \<open>An account with the key \<open>sak_0\<close>; the digest of the example is the identity.\<close>

definition plain_text :: key_text where
  "plain_text = \<lparr>kt_sha = (\<lambda>s. s), kt_lower = (\<lambda>s. s)\<rparr>"

definition sample_account :: service_account where
  "sample_account = \<lparr>sa_id = 1, sa_name = [], sa_hash = lit ''sak_0'', sa_scopes = lit ''documents:read'', sa_created = 0,
     sa_rotated = None, sa_revoked = None, sa_creator = [], sa_prev = None, sa_grace = Unbounded\<rparr>"

definition sample_db :: "service_account \<Rightarrow> service_db" where
  "sample_db r = \<lparr>sa_rows = [r], sa_next = 2\<rparr>"

lemma sample_bearer:
  "bearer_token plain_text (Some (lit ''bearer sak_0'')) = Some (lit ''sak_0'')"
  "bearer_token plain_text (Some (lit ''bearer sak_1'')) = Some (lit ''sak_1'')"
  by (simp_all add: bearer_token_def plain_text_def lit_def py_strip_def py_isspace_def)

lemma sample_rotate:
  assumes "sa_revoked r = None" "sa_id r = 1"
  shows "rotate_service_account_key plain_text t 1 random (sample_db r) =
    (Inr (service_key_prefix @ random), sample_db (rotated (service_key_prefix @ random) t r))"
  using assms by (simp add: rotate_service_account_key_def generate_service_key_def plain_text_def sample_db_def rowcount_def rotated_def Let_def)

lemma sample_key: "service_key_prefix @ lit [c] = lit (''sak_'' @ [c])"
  by (simp add: service_key_prefix_def lit_def)

lemma rotation_grace_exact_witness:
  "\<exists>db1. rotate_service_account_key plain_text 0 1 (lit ''1'') (sample_db sample_account) = (Inr (lit ''sak_1''), db1)
    \<and> fst (require_service_account plain_text 86400 [] (Some (lit ''bearer sak_0'')) db1 db1) = admit plain_text [] sample_account
    \<and> fst (require_service_account plain_text 86401 [] (Some (lit ''bearer sak_0'')) db1 db1) = Inl (Http 401)
    \<and> fst (require_service_account plain_text 86401 [] (Some (lit ''bearer sak_1'')) db1 db1) = admit plain_text [] sample_account"
proof -
  let ?r = sample_account
  have s: "sa_revoked ?r = None" "sa_id ?r = 1" "sa_hash ?r = lit ''sak_0''" "sa_prev ?r = None" by (simp_all add: sample_account_def)
  obtain db1 where r: "rotate_service_account_key plain_text 0 1 (lit ''1'') (sample_db ?r) = (Inr (lit ''sak_1''), db1)"
    using sample_rotate [OF s(1,2), of 0 "lit ''1''"] sample_key by simp
  have ne: "lit ''sak_0'' \<noteq> lit ''sak_1''" by (simp add: lit_def)
  have h: "kt_sha plain_text x = x" for x by (simp add: plain_text_def)
  have ok: "service_ok (sample_db ?r)" "?r \<in> set (sa_rows (sample_db ?r))" "sole_key (sa_hash ?r) (sa_id ?r) (sample_db ?r)"
    by (simp_all add: sample_db_def service_ok_def sole_key_def s)
  have fresh: "\<forall>x \<in> set (sa_rows (sample_db ?r)). \<not> has_key (kt_sha plain_text (lit ''sak_1'')) x"
    using ne s by (simp add: sample_db_def has_key_def h)
  have rot: "rotate_service_account_key plain_text 0 (sa_id ?r) (lit ''1'') (sample_db ?r) = (Inr (lit ''sak_1''), db1)"
    using r s(2) by simp
  note exact = rotation_grace_exact [OF ok rot fresh trace_start _ sample_bearer(2) sample_bearer(1), where log = "[]" and seen = db1 and required = "[]" and db = db1]
  have "kt_sha plain_text (lit ''sak_0'') = sa_hash ?r" by (simp add: h s)
  from exact [OF _ this, of 86400] exact [OF _ this, of 86401] show ?thesis
    using r by (simp add: used_def)
qed

lemma revoked_service_key_dead_witness:
  "let s = sample_db (sample_account\<lparr>sa_revoked := Some 5\<rparr>)
   in fst (require_service_account plain_text 6 [] (Some (lit ''bearer sak_0'')) s s) = Inl (Http 401)
    \<and> fst (service_reader plain_text 6 (Some (lit ''bearer sak_0'')) s s) = Inl (Http 401)"
proof -
  let ?r = "sample_account\<lparr>sa_revoked := Some 5\<rparr>"
  have h: "kt_sha plain_text x = x" for x by (simp add: plain_text_def)
  have ok: "service_ok (sample_db ?r)" "?r \<in> set (sa_rows (sample_db ?r))" "sa_revoked ?r \<noteq> None"
    "has_key (kt_sha plain_text (lit ''sak_0'')) ?r" "sole_key (kt_sha plain_text (lit ''sak_0'')) (sa_id ?r) (sample_db ?r)"
    by (simp_all add: sample_db_def service_ok_def sole_key_def has_key_def h sample_account_def)
  from revoked_service_key_dead [OF ok trace_start _ sample_bearer(1), of "sample_db ?r" 6 "[]" "sample_db ?r"]
  show ?thesis by (simp add: Let_def)
qed

text \<open>
  A second rotation ends the grace of the key in use at once, although the new key was never
  used and the grace is not over.
\<close>

lemma second_rotation_ends_grace:
  assumes "rotate_service_account_key plain_text 0 1 (lit ''1'') (sample_db sample_account) = (k1, db1)"
    and "rotate_service_account_key plain_text 1 1 (lit ''2'') db1 = (k2, db2)"
  shows "fst (fst (lookup_service_account 2 (lit ''sak_0'') db1 db1)) \<noteq> None
    \<and> fst (fst (lookup_service_account 2 (lit ''sak_0'') db2 db2)) = None"
proof -
  have 1: "db1 = sample_db (rotated (lit ''sak_1'') 0 sample_account)"
    using assms(1) sample_rotate [of sample_account 0 "lit ''1''"] sample_key by (simp add: sample_account_def)
  have 2: "db2 = sample_db (rotated (lit ''sak_2'') 1 (rotated (lit ''sak_1'') 0 sample_account))"
    using assms(2) sample_rotate [of "rotated (lit ''sak_1'') 0 sample_account" 1 "lit ''2''"] sample_key
    unfolding 1 by (simp add: sample_account_def rotated_def)
  show ?thesis unfolding 1 2
    by (simp add: lookup_service_account_def sample_db_def rotated_def sample_account_def has_key_def rotation_grace_def lit_def)
qed

text \<open>
  A use of the key \<open>sak_1\<close> that has read the row before it is rotated to \<open>sak_2\<close>, and writes
  after it, clears the grace that this rotation gave to \<open>sak_1\<close>: the key is refused, although
  \<open>sak_2\<close> was never used.
\<close>

lemma stale_use_ends_fresh_grace:
  assumes "db1 = sample_db (rotated (lit ''sak_1'') 0 sample_account)"
    and "rotate_service_account_key plain_text 1 1 (lit ''2'') db1 = (k2, db2)"
    and "lookup_service_account 2 (lit ''sak_1'') db1 db2 = ((found, via), db3)"
  shows "fst (fst (lookup_service_account 2 (lit ''sak_1'') db2 db2)) \<noteq> None
    \<and> found \<noteq> None \<and> fst (fst (lookup_service_account 3 (lit ''sak_1'') db3 db3)) = None"
proof -
  have 2: "db2 = sample_db (rotated (lit ''sak_2'') 1 (rotated (lit ''sak_1'') 0 sample_account))"
    using assms(2) sample_rotate [of "rotated (lit ''sak_1'') 0 sample_account" 1 "lit ''2''"] sample_key
    unfolding assms(1) by (simp add: sample_account_def rotated_def)
  show ?thesis using assms(3) unfolding assms(1) 2
    by (auto simp: lookup_service_account_def sample_db_def rotated_def sample_account_def has_key_def rotation_grace_def
        retire_previous_def lit_def)
qed

end
