(* ===== verification/Csrf_Store.thy ===== *)
theory Csrf_Store
  imports "HOL-Library.DAList" Text_Scan
begin

text \<open>
  The stores of CSRF tokens of \<^verbatim>\<open>backend/app/security/__init__.py\<close>: the one in memory and
  the one in SQLite, and the contract \<open>token_store\<close> that both keep. Times are integers; the
  digest is a parameter. The value of an entry is always \<open>"1"\<close> and is not stored; of a row of
  the table only the primary key and the expiry are kept, as \<open>created_at\<close> is never read.
\<close>

section \<open>In memory\<close>

text \<open>A dictionary from keys to expiry times, in the order of insertion.\<close>

type_synonym mem_store = "(pystr, int) alist"

definition csrf_max_size :: nat where
  "csrf_max_size = 10000"

definition mem_cleanup :: "int \<Rightarrow> mem_store \<Rightarrow> mem_store" where
  "mem_cleanup now st = DAList.filter (\<lambda>p. \<not> snd p < now) st"

definition oldest_key :: "mem_store \<Rightarrow> pystr" where
  "oldest_key st =
     (let ps = DAList.impl_of st in fst (foldl (\<lambda>b p. if snd p < snd b then p else b) (hd ps) (tl ps)))"

definition mem_setex :: "int \<Rightarrow> pystr \<Rightarrow> int \<Rightarrow> mem_store \<Rightarrow> mem_store" where
  "mem_setex now k ttl st =
     (let st1 = (if csrf_max_size \<le> size st then mem_cleanup now st else st);
          st2 = (if csrf_max_size \<le> size st1 then DAList.delete (oldest_key st1) st1 else st1)
      in DAList.update k (now + ttl) st2)"

definition mem_get :: "int \<Rightarrow> pystr \<Rightarrow> mem_store \<Rightarrow> bool \<times> mem_store" where
  "mem_get now k st =
     (case DAList.lookup st k of
        None \<Rightarrow> (False, st)
      | Some e \<Rightarrow> if e < now then (False, DAList.delete k st) else (True, st))"

definition mem_expire :: "int \<Rightarrow> pystr \<Rightarrow> int \<Rightarrow> mem_store \<Rightarrow> mem_store" where
  "mem_expire now k ttl st = (if DAList.lookup st k = None then st else DAList.update k (now + ttl) st)"

definition mem_delete :: "pystr \<Rightarrow> mem_store \<Rightarrow> mem_store" where
  "mem_delete k st = DAList.delete k st"

section \<open>In SQLite\<close>

type_synonym sql_store = "pystr \<Rightarrow> int option"

definition sql_cleanup :: "int \<Rightarrow> sql_store \<Rightarrow> sql_store" where
  "sql_cleanup now t = (\<lambda>h. case t h of None \<Rightarrow> None | Some e \<Rightarrow> if e \<le> now then None else Some e)"

definition sql_setex :: "(pystr \<Rightarrow> pystr) \<Rightarrow> int \<Rightarrow> pystr \<Rightarrow> int \<Rightarrow> sql_store \<Rightarrow> sql_store" where
  "sql_setex sha now k ttl t = (sql_cleanup now t)(sha k := Some (now + ttl))"

definition row_live :: "sql_store \<Rightarrow> int \<Rightarrow> pystr \<Rightarrow> bool" where
  "row_live t now h \<longleftrightarrow> (case t h of None \<Rightarrow> False | Some e \<Rightarrow> now < e)"

text \<open>A row of an older version, under the key itself, is moved to its digest when it is read.\<close>

definition sql_get :: "(pystr \<Rightarrow> pystr) \<Rightarrow> int \<Rightarrow> pystr \<Rightarrow> sql_store \<Rightarrow> bool \<times> sql_store" where
  "sql_get sha now k t =
     (if row_live t now (sha k) then (True, t)
      else if row_live t now k then (True, (t(sha k := t k))(k := None))
      else (False, t))"

definition sql_expire :: "(pystr \<Rightarrow> pystr) \<Rightarrow> int \<Rightarrow> pystr \<Rightarrow> int \<Rightarrow> sql_store \<Rightarrow> sql_store" where
  "sql_expire sha now k ttl t = (\<lambda>h. if (h = sha k \<or> h = k) \<and> t h \<noteq> None then Some (now + ttl) else t h)"

definition sql_delete :: "(pystr \<Rightarrow> pystr) \<Rightarrow> pystr \<Rightarrow> sql_store \<Rightarrow> sql_store" where
  "sql_delete sha k t = (\<lambda>h. if h = sha k \<or> h = k then None else t h)"

section \<open>The contract\<close>

text \<open>
  What the manager relies on: \<open>stored s k\<close>, some entry for the key, \<open>live s t k\<close>, one that a
  read at \<open>t\<close> finds, and \<open>same\<close>, keys that one entry serves. No operation makes another key
  live, an entry lives at most \<open>ttl\<close> after it was set or extended, and a deleted key is gone.
\<close>

locale token_store =
  fixes setex :: "int \<Rightarrow> 'k \<Rightarrow> int \<Rightarrow> 's \<Rightarrow> 's" and get :: "int \<Rightarrow> 'k \<Rightarrow> 's \<Rightarrow> bool \<times> 's"
    and expire :: "int \<Rightarrow> 'k \<Rightarrow> int \<Rightarrow> 's \<Rightarrow> 's" and delete :: "'k \<Rightarrow> 's \<Rightarrow> 's"
    and live :: "'s \<Rightarrow> int \<Rightarrow> 'k \<Rightarrow> bool" and stored :: "'s \<Rightarrow> 'k \<Rightarrow> bool" and same :: "'k \<Rightarrow> 'k \<Rightarrow> bool"
  assumes get_live: "fst (get now k s) = live s now k"
    and live_stored: "live s t k \<Longrightarrow> stored s k"
    and live_antimono: "live s t k \<Longrightarrow> t' \<le> t \<Longrightarrow> live s t' k"
    and same_refl: "same k k"
    and setex_live: "live (setex now k ttl s) t k' \<Longrightarrow> live s t k' \<or> same k k' \<and> t \<le> now + ttl"
    and setex_stored: "stored (setex now k ttl s) k' \<Longrightarrow> stored s k' \<or> same k k'"
    and setex_holds: "now \<le> t \<Longrightarrow> t < now + ttl \<Longrightarrow> live (setex now k ttl s) t k"
    and get_keeps: "live (snd (get now k s)) t k' \<Longrightarrow> live s t k' \<or> same k k' \<and> live s t k \<and> live s now k"
    and get_stored: "stored (snd (get now k s)) k' \<Longrightarrow> stored s k' \<or> same k k' \<and> stored s k"
    and get_holds: "live s t k \<Longrightarrow> live s now k \<Longrightarrow> live (snd (get now k s)) t k"
    and expire_live: "live (expire now k ttl s) t k' \<Longrightarrow> live s t k' \<or> same k k' \<and> t \<le> now + ttl \<and> stored s k'"
    and expire_stored: "stored (expire now k ttl s) k' \<Longrightarrow> stored s k'"
    and expire_holds: "live s now k \<Longrightarrow> t < now + ttl \<Longrightarrow> live (expire now k ttl s) t k"
    and delete_gone: "\<not> stored (delete k s) k"
    and delete_live: "live (delete k s) t k' \<Longrightarrow> live s t k'"
    and delete_stored: "stored (delete k s) k' \<Longrightarrow> stored s k'"
begin

lemma deleted_not_found: "\<not> fst (get t k (delete k s))"
  using get_live live_stored delete_gone by blast

end

section \<open>Both stores keep it\<close>

definition mem_live :: "mem_store \<Rightarrow> int \<Rightarrow> pystr \<Rightarrow> bool" where
  "mem_live st t k \<longleftrightarrow> (case DAList.lookup st k of None \<Rightarrow> False | Some e \<Rightarrow> t \<le> e)"

definition mem_stored :: "mem_store \<Rightarrow> pystr \<Rightarrow> bool" where
  "mem_stored st k \<longleftrightarrow> DAList.lookup st k \<noteq> None"

lemma lookup_entry: "DAList.lookup st k = Some e \<longleftrightarrow> (k, e) \<in> set (DAList.impl_of st)"
  by (simp add: DAList.lookup.rep_eq)

lemma lookup_cleanup: "DAList.lookup (mem_cleanup now st) k = Some e \<Longrightarrow> DAList.lookup st k = Some e"
  by (simp add: lookup_entry mem_cleanup_def DAList.filter.rep_eq)

lemma lookup_setex:
  "DAList.lookup (mem_setex now k ttl st) k' = Some e \<Longrightarrow> k' = k \<and> e = now + ttl \<or> DAList.lookup st k' = Some e"
  by (auto simp: mem_setex_def Let_def DAList.lookup_update split: if_splits dest: lookup_cleanup)

lemma lookup_setex_same: "DAList.lookup (mem_setex now k ttl st) k = Some (now + ttl)"
  by (simp add: mem_setex_def Let_def)

interpretation memory: token_store mem_setex mem_get mem_expire mem_delete mem_live mem_stored "(=)"
proof
  fix now t t' ttl :: int and k k' :: pystr and s :: mem_store
  show "fst (mem_get now k s) = mem_live s now k"
    by (auto simp: mem_get_def mem_live_def split: option.split)
  show "mem_live s t k \<Longrightarrow> mem_stored s k" "mem_live s t k \<Longrightarrow> t' \<le> t \<Longrightarrow> mem_live s t' k" "k = k"
    by (auto simp: mem_live_def mem_stored_def split: option.splits)
  show "mem_live (mem_setex now k ttl s) t k' \<Longrightarrow> mem_live s t k' \<or> k = k' \<and> t \<le> now + ttl"
    by (auto simp: mem_live_def split: option.splits dest: lookup_setex)
  show "mem_stored (mem_setex now k ttl s) k' \<Longrightarrow> mem_stored s k' \<or> k = k'"
    by (auto simp: mem_stored_def dest: lookup_setex)
  show "now \<le> t \<Longrightarrow> t < now + ttl \<Longrightarrow> mem_live (mem_setex now k ttl s) t k"
    by (simp add: mem_live_def lookup_setex_same)
  show "mem_live (snd (mem_get now k s)) t k' \<Longrightarrow> mem_live s t k' \<or> k = k' \<and> mem_live s t k \<and> mem_live s now k"
    by (auto simp: mem_live_def mem_get_def split: option.splits if_splits)
  show "mem_stored (snd (mem_get now k s)) k' \<Longrightarrow> mem_stored s k' \<or> k = k' \<and> mem_stored s k"
    by (auto simp: mem_stored_def mem_get_def split: option.splits if_splits)
  show "mem_live s t k \<Longrightarrow> mem_live s now k \<Longrightarrow> mem_live (snd (mem_get now k s)) t k"
    by (auto simp: mem_live_def mem_get_def split: option.splits if_splits)
  show "mem_live (mem_expire now k ttl s) t k' \<Longrightarrow> mem_live s t k' \<or> k = k' \<and> t \<le> now + ttl \<and> mem_stored s k'"
    by (auto simp: mem_live_def mem_stored_def mem_expire_def DAList.lookup_update split: option.splits if_splits)
  show "mem_stored (mem_expire now k ttl s) k' \<Longrightarrow> mem_stored s k'"
    by (auto simp: mem_stored_def mem_expire_def DAList.lookup_update split: if_splits)
  show "mem_live s now k \<Longrightarrow> t < now + ttl \<Longrightarrow> mem_live (mem_expire now k ttl s) t k"
    by (auto simp: mem_live_def mem_expire_def split: option.splits)
  show "\<not> mem_stored (mem_delete k s) k" by (simp add: mem_stored_def mem_delete_def)
  show "mem_live (mem_delete k s) t k' \<Longrightarrow> mem_live s t k'"
    by (auto simp: mem_live_def mem_delete_def split: option.splits if_splits)
  show "mem_stored (mem_delete k s) k' \<Longrightarrow> mem_stored s k'"
    by (auto simp: mem_stored_def mem_delete_def split: if_splits)
qed

definition sql_live :: "(pystr \<Rightarrow> pystr) \<Rightarrow> sql_store \<Rightarrow> int \<Rightarrow> pystr \<Rightarrow> bool" where
  "sql_live sha t now k \<longleftrightarrow> row_live t now (sha k) \<or> row_live t now k"

definition sql_stored :: "(pystr \<Rightarrow> pystr) \<Rightarrow> sql_store \<Rightarrow> pystr \<Rightarrow> bool" where
  "sql_stored sha t k \<longleftrightarrow> t (sha k) \<noteq> None \<or> t k \<noteq> None"

text \<open>Keys that share a row: equal, of equal digests, or one the digest of the other.\<close>

definition share_row :: "(pystr \<Rightarrow> pystr) \<Rightarrow> pystr \<Rightarrow> pystr \<Rightarrow> bool" where
  "share_row sha k k' \<longleftrightarrow> k = k' \<or> sha k = sha k' \<or> sha k = k' \<or> sha k' = k"

interpretation sqlite: token_store "sql_setex sha" "sql_get sha" "sql_expire sha" "sql_delete sha" "sql_live sha"
  "sql_stored sha" "share_row sha" for sha
proof
  fix now t t' ttl :: int and k k' :: pystr and s :: sql_store
  show "fst (sql_get sha now k s) = sql_live sha s now k"
    by (simp add: sql_get_def sql_live_def)
  show "sql_live sha s t k \<Longrightarrow> sql_stored sha s k" "sql_live sha s t k \<Longrightarrow> t' \<le> t \<Longrightarrow> sql_live sha s t' k" "share_row sha k k"
    by (auto simp: sql_live_def sql_stored_def row_live_def share_row_def split: option.splits)
  show "sql_live sha (sql_setex sha now k ttl s) t k' \<Longrightarrow> sql_live sha s t k' \<or> share_row sha k k' \<and> t \<le> now + ttl"
    by (auto simp: sql_live_def sql_setex_def sql_cleanup_def row_live_def share_row_def split: option.splits if_splits)
  show "sql_stored sha (sql_setex sha now k ttl s) k' \<Longrightarrow> sql_stored sha s k' \<or> share_row sha k k'"
    by (auto simp: sql_stored_def sql_setex_def sql_cleanup_def share_row_def split: option.splits if_splits)
  show "now \<le> t \<Longrightarrow> t < now + ttl \<Longrightarrow> sql_live sha (sql_setex sha now k ttl s) t k"
    by (simp add: sql_live_def sql_setex_def row_live_def)
  show "sql_live sha (snd (sql_get sha now k s)) t k'
      \<Longrightarrow> sql_live sha s t k' \<or> share_row sha k k' \<and> sql_live sha s t k \<and> sql_live sha s now k"
    by (auto simp: sql_live_def sql_get_def row_live_def share_row_def split: option.splits if_splits)
  show "sql_stored sha (snd (sql_get sha now k s)) k' \<Longrightarrow> sql_stored sha s k' \<or> share_row sha k k' \<and> sql_stored sha s k"
    by (auto simp: sql_stored_def sql_get_def share_row_def split: if_splits)
  show "sql_live sha s t k \<Longrightarrow> sql_live sha s now k \<Longrightarrow> sql_live sha (snd (sql_get sha now k s)) t k"
    by (auto simp: sql_live_def sql_get_def row_live_def split: option.splits if_splits)
  show "sql_live sha (sql_expire sha now k ttl s) t k'
      \<Longrightarrow> sql_live sha s t k' \<or> share_row sha k k' \<and> t \<le> now + ttl \<and> sql_stored sha s k'"
    by (auto simp: sql_live_def sql_expire_def sql_stored_def row_live_def share_row_def split: option.splits if_splits)
  show "sql_stored sha (sql_expire sha now k ttl s) k' \<Longrightarrow> sql_stored sha s k'"
    by (auto simp: sql_stored_def sql_expire_def split: if_splits)
  show "sql_live sha s now k \<Longrightarrow> t < now + ttl \<Longrightarrow> sql_live sha (sql_expire sha now k ttl s) t k"
    by (auto simp: sql_live_def sql_expire_def row_live_def split: option.splits)
  show "\<not> sql_stored sha (sql_delete sha k s) k" by (simp add: sql_stored_def sql_delete_def)
  show "sql_live sha (sql_delete sha k s) t k' \<Longrightarrow> sql_live sha s t k'"
    by (auto simp: sql_live_def sql_delete_def row_live_def split: option.splits if_splits)
  show "sql_stored sha (sql_delete sha k s) k' \<Longrightarrow> sql_stored sha s k'"
    by (auto simp: sql_stored_def sql_delete_def split: if_splits)
qed

section \<open>Stores that forget nothing\<close>

text \<open>The store in memory evicts; the one in SQLite also keeps every live entry of other keys.\<close>

locale lasting_store = token_store +
  assumes setex_lasts: "live s t k' \<Longrightarrow> now \<le> t \<Longrightarrow> \<not> same k k' \<Longrightarrow> live (setex now k ttl s) t k'"
    and get_lasts: "live s t k' \<Longrightarrow> now \<le> t \<Longrightarrow> k = k' \<or> \<not> same k k' \<Longrightarrow> live (snd (get now k s)) t k'"
    and expire_lasts: "live s t k' \<Longrightarrow> t < now + ttl \<Longrightarrow> live (expire now k ttl s) t k'"
    and delete_lasts: "live s t k' \<Longrightarrow> \<not> same k k' \<Longrightarrow> live (delete k s) t k'"
begin

text \<open>A read that finds the entry and the extension after it.\<close>

lemma used_lasts:
  assumes "live s t k'" and "now \<le> t" and "k = k' \<or> \<not> same k k'" and "t < now + ttl"
  shows "live (expire now k ttl (snd (get now k s))) t k'"
  using expire_lasts [OF get_lasts [OF assms(1-3)] assms(4)] .

end

interpretation sqlite: lasting_store "sql_setex sha" "sql_get sha" "sql_expire sha" "sql_delete sha" "sql_live sha"
  "sql_stored sha" "share_row sha" for sha
proof
  fix now t ttl :: int and k k' :: pystr and s :: sql_store
  show "sql_live sha s t k' \<Longrightarrow> now \<le> t \<Longrightarrow> \<not> share_row sha k k' \<Longrightarrow> sql_live sha (sql_setex sha now k ttl s) t k'"
    by (auto simp: sql_live_def sql_setex_def sql_cleanup_def row_live_def share_row_def split: option.splits if_splits)
  show "sql_live sha s t k' \<Longrightarrow> now \<le> t \<Longrightarrow> k = k' \<or> \<not> share_row sha k k' \<Longrightarrow> sql_live sha (snd (sql_get sha now k s)) t k'"
    by (auto simp: sql_live_def sql_get_def row_live_def share_row_def split: option.splits if_splits)
  show "sql_live sha s t k' \<Longrightarrow> t < now + ttl \<Longrightarrow> sql_live sha (sql_expire sha now k ttl s) t k'"
    by (auto simp: sql_live_def sql_expire_def row_live_def split: option.splits if_splits)
  show "sql_live sha s t k' \<Longrightarrow> \<not> share_row sha k k' \<Longrightarrow> sql_live sha (sql_delete sha k s) t k'"
    by (auto simp: sql_live_def sql_delete_def row_live_def share_row_def split: option.splits if_splits)
qed

end
