(* ===== verification/Csrf_Manager.thy ===== *)
theory Csrf_Manager
  imports Csrf_Store Interleaving
begin

text \<open>
  \<open>CSRFManager\<close> and \<open>csrf_protect\<close> of \<^verbatim>\<open>backend/app/security/__init__.py\<close>. The Redis server is
  a parameter, a state with the four operations the manager sends; so are the digest,
  \<open>urlsplit\<close>, \<open>unquote\<close> and \<open>str.lower\<close>. A request runs on its own; what
  its calls to Redis, SQLite and the clocks give is in its environment.
\<close>

section \<open>The manager\<close>

datatype fallback = Sqlite_store | Memory_store mem_store

record 'r redis_ops =
  rd_setex :: "int \<Rightarrow> pystr \<Rightarrow> int \<Rightarrow> 'r \<Rightarrow> 'r"
  rd_get :: "int \<Rightarrow> pystr \<Rightarrow> 'r \<Rightarrow> bool \<times> 'r"
  rd_expire :: "int \<Rightarrow> pystr \<Rightarrow> int \<Rightarrow> 'r \<Rightarrow> 'r"
  rd_delete :: "pystr \<Rightarrow> 'r \<Rightarrow> 'r"

text \<open>
  \<open>mg_client\<close> tells whether there is a Redis client; \<open>mg_db\<close> is the table in the database
  that all workers share, and outlives the choice of a store.
\<close>

record 'r csrf_manager =
  mg_redis :: 'r
  mg_db :: sql_store
  mg_client :: bool
  mg_fallback :: "fallback option"
  mg_use :: bool
  mg_next_ping :: int

record csrf_config =
  cc_ttl :: int
  cc_db_path :: pystr
  cc_sha :: "pystr \<Rightarrow> pystr"

text \<open>
  A call to a store succeeds, fails, or is carried out and still fails, its answer lost.
\<close>

datatype outcome = Done | Failed | Lost

record csrf_env =
  ce_now :: int
  ce_mono :: int
  ce_ping :: bool
  ce_init :: bool
  ce_outcome :: "nat \<Rightarrow> outcome"

definition recovery_ping_interval :: int where
  "recovery_ping_interval = 30"

definition csrf_key :: "pystr \<Rightarrow> pystr" where
  "csrf_key token = lit ''csrf:'' @ token"

definition init_fallback_store :: "csrf_config \<Rightarrow> csrf_env \<Rightarrow> fallback" where
  "init_fallback_store cfg env =
     (if cc_db_path cfg \<noteq> [] \<and> ce_init env then Sqlite_store else Memory_store DAList.empty)"

text \<open>\<open>client\<close>: whether \<open>from_url\<close> gave a client; with an empty URL it is not called.\<close>

definition new_manager :: "csrf_config \<Rightarrow> csrf_env \<Rightarrow> pystr \<Rightarrow> bool \<Rightarrow> 'r \<Rightarrow> sql_store \<Rightarrow> 'r csrf_manager" where
  "new_manager cfg env redis_url client r db =
     (let up = redis_url \<noteq> [] \<and> client \<and> ce_ping env
      in \<lparr>mg_redis = r, mg_db = db, mg_client = (redis_url \<noteq> [] \<and> client),
          mg_fallback = (if up then None else Some (init_fallback_store cfg env)), mg_use = (\<not> up), mg_next_ping = 0\<rparr>)"

definition check_redis_available :: "csrf_env \<Rightarrow> 'r csrf_manager \<Rightarrow> 'r csrf_manager" where
  "check_redis_available env m =
     (if mg_use m \<and> mg_client m then
        if ce_mono env < mg_next_ping m then m
        else if ce_ping env then m\<lparr>mg_use := False, mg_fallback := None, mg_next_ping := 0\<rparr>
        else m\<lparr>mg_next_ping := ce_mono env + recovery_ping_interval\<rparr>
      else m)"

definition engage_fallback :: "csrf_config \<Rightarrow> csrf_env \<Rightarrow> 'r csrf_manager \<Rightarrow> 'r csrf_manager" where
  "engage_fallback cfg env m =
     (if mg_use m then m
      else m\<lparr>mg_fallback := (case mg_fallback m of None \<Rightarrow> Some (init_fallback_store cfg env) | f \<Rightarrow> f), mg_use := True\<rparr>)"

text \<open>\<open>_get_store()\<close>, and what a call to it does: \<open>None\<close> is the 503 of a manager without store.\<close>

datatype store_kind = On_fallback fallback | On_redis

definition get_store :: "'r csrf_manager \<Rightarrow> store_kind option" where
  "get_store m =
     (case (mg_use m, mg_fallback m) of
        (True, Some f) \<Rightarrow> Some (On_fallback f)
      | _ \<Rightarrow> if mg_client m then Some On_redis else None)"

definition store_setex :: "'r redis_ops \<Rightarrow> csrf_config \<Rightarrow> int \<Rightarrow> pystr \<Rightarrow> store_kind \<Rightarrow> 'r csrf_manager \<Rightarrow> 'r csrf_manager" where
  "store_setex ops cfg now k s m =
     (case s of
        On_redis \<Rightarrow> m\<lparr>mg_redis := rd_setex ops now k (cc_ttl cfg) (mg_redis m)\<rparr>
      | On_fallback Sqlite_store \<Rightarrow> m\<lparr>mg_db := sql_setex (cc_sha cfg) now k (cc_ttl cfg) (mg_db m)\<rparr>
      | On_fallback (Memory_store st) \<Rightarrow> m\<lparr>mg_fallback := Some (Memory_store (mem_setex now k (cc_ttl cfg) st))\<rparr>)"

definition store_get :: "'r redis_ops \<Rightarrow> csrf_config \<Rightarrow> int \<Rightarrow> pystr \<Rightarrow> store_kind \<Rightarrow> 'r csrf_manager \<Rightarrow> bool \<times> 'r csrf_manager" where
  "store_get ops cfg now k s m =
     (case s of
        On_redis \<Rightarrow> (case rd_get ops now k (mg_redis m) of (b, r) \<Rightarrow> (b, m\<lparr>mg_redis := r\<rparr>))
      | On_fallback Sqlite_store \<Rightarrow> (case sql_get (cc_sha cfg) now k (mg_db m) of (b, t) \<Rightarrow> (b, m\<lparr>mg_db := t\<rparr>))
      | On_fallback (Memory_store st) \<Rightarrow> (case mem_get now k st of (b, st') \<Rightarrow> (b, m\<lparr>mg_fallback := Some (Memory_store st')\<rparr>)))"

definition store_expire :: "'r redis_ops \<Rightarrow> csrf_config \<Rightarrow> int \<Rightarrow> pystr \<Rightarrow> store_kind \<Rightarrow> 'r csrf_manager \<Rightarrow> 'r csrf_manager" where
  "store_expire ops cfg now k s m =
     (case s of
        On_redis \<Rightarrow> m\<lparr>mg_redis := rd_expire ops now k (cc_ttl cfg) (mg_redis m)\<rparr>
      | On_fallback Sqlite_store \<Rightarrow> m\<lparr>mg_db := sql_expire (cc_sha cfg) now k (cc_ttl cfg) (mg_db m)\<rparr>
      | On_fallback (Memory_store st) \<Rightarrow> m\<lparr>mg_fallback := Some (Memory_store (mem_expire now k (cc_ttl cfg) st))\<rparr>)"

definition store_delete :: "'r redis_ops \<Rightarrow> csrf_config \<Rightarrow> pystr \<Rightarrow> store_kind \<Rightarrow> 'r csrf_manager \<Rightarrow> 'r csrf_manager" where
  "store_delete ops cfg k s m =
     (case s of
        On_redis \<Rightarrow> m\<lparr>mg_redis := rd_delete ops k (mg_redis m)\<rparr>
      | On_fallback Sqlite_store \<Rightarrow> m\<lparr>mg_db := sql_delete (cc_sha cfg) k (mg_db m)\<rparr>
      | On_fallback (Memory_store st) \<Rightarrow> m\<lparr>mg_fallback := Some (Memory_store (mem_delete k st))\<rparr>)"

text \<open>The store in memory does not fail.\<close>

definition call_outcome :: "csrf_env \<Rightarrow> nat \<Rightarrow> store_kind \<Rightarrow> outcome" where
  "call_outcome env n s = (case s of On_fallback (Memory_store _) \<Rightarrow> Done | _ \<Rightarrow> ce_outcome env n)"

definition attempt :: "csrf_env \<Rightarrow> nat \<Rightarrow> store_kind \<Rightarrow> ('r csrf_manager \<Rightarrow> 'r csrf_manager) \<Rightarrow> 'r csrf_manager
    \<Rightarrow> bool \<times> 'r csrf_manager" where
  "attempt env n s f m =
     (case call_outcome env n s of Done \<Rightarrow> (True, f m) | Failed \<Rightarrow> (False, m) | Lost \<Rightarrow> (False, f m))"

definition generate_token ::
  "'r redis_ops \<Rightarrow> csrf_config \<Rightarrow> csrf_env \<Rightarrow> pystr \<Rightarrow> 'r csrf_manager \<Rightarrow> (http_error + pystr) \<times> 'r csrf_manager" where
  "generate_token ops cfg env token m0 =
     (let m = check_redis_available env m0; set = store_setex ops cfg (ce_now env) (csrf_key token)
      in case get_store m of
           None \<Rightarrow> (Inl (Http 503), m)
         | Some s \<Rightarrow>
             (case attempt env 0 s (set s) m of
                (True, m1) \<Rightarrow> (Inr token, m1)
              | (False, m1) \<Rightarrow>
                  (let m2 = engage_fallback cfg env m1
                   in case get_store m2 of
                        None \<Rightarrow> (Inl (Http 503), m2)
                      | Some s2 \<Rightarrow>
                          (case attempt env 1 s2 (set s2) m2 of
                             (True, m3) \<Rightarrow> (Inr token, m3)
                           | (False, m3) \<Rightarrow> (Inl (Http 503), m3)))))"

text \<open>A read: \<open>None\<close> when it failed.\<close>

definition attempt_get :: "'r redis_ops \<Rightarrow> csrf_config \<Rightarrow> csrf_env \<Rightarrow> nat \<Rightarrow> pystr \<Rightarrow> store_kind \<Rightarrow> 'r csrf_manager
    \<Rightarrow> bool option \<times> 'r csrf_manager" where
  "attempt_get ops cfg env n k s m =
     (case (call_outcome env n s, store_get ops cfg (ce_now env) k s m) of
        (Done, (b, m')) \<Rightarrow> (Some b, m') | (Failed, _) \<Rightarrow> (None, m) | (Lost, (b, m')) \<Rightarrow> (None, m'))"

definition extend_token :: "'r redis_ops \<Rightarrow> csrf_config \<Rightarrow> csrf_env \<Rightarrow> pystr \<Rightarrow> bool \<Rightarrow> 'r csrf_manager
    \<Rightarrow> (http_error + bool) \<times> 'r csrf_manager" where
  "extend_token ops cfg env k found m =
     (if \<not> found then (Inr False, m)
      else (case get_store m of
              None \<Rightarrow> (Inl (Http 503), m)
            | Some s \<Rightarrow> (Inr True, snd (attempt env 2 s (store_expire ops cfg (ce_now env) k s) m))))"

definition validate_token ::
  "'r redis_ops \<Rightarrow> csrf_config \<Rightarrow> csrf_env \<Rightarrow> pystr \<Rightarrow> 'r csrf_manager \<Rightarrow> (http_error + bool) \<times> 'r csrf_manager" where
  "validate_token ops cfg env token m0 =
     (if token = [] then (Inr False, m0)
      else (let m = check_redis_available env m0; k = csrf_key token
            in case get_store m of
                 None \<Rightarrow> (Inl (Http 503), m)
               | Some s \<Rightarrow>
                   (case attempt_get ops cfg env 0 k s m of
                      (Some b, m1) \<Rightarrow> extend_token ops cfg env k b m1
                    | (None, m1) \<Rightarrow>
                        (let m2 = engage_fallback cfg env m1
                         in case get_store m2 of
                              None \<Rightarrow> (Inl (Http 503), m2)
                            | Some s2 \<Rightarrow>
                                (case attempt_get ops cfg env 1 k s2 m2 of
                                   (Some b, m3) \<Rightarrow> extend_token ops cfg env k b m3
                                 | (None, m3) \<Rightarrow> (Inl (Http 503), m3))))))"

definition revoke_token ::
  "'r redis_ops \<Rightarrow> csrf_config \<Rightarrow> csrf_env \<Rightarrow> pystr \<Rightarrow> 'r csrf_manager \<Rightarrow> http_error option \<times> 'r csrf_manager" where
  "revoke_token ops cfg env token m =
     (case get_store m of
        None \<Rightarrow> (Some (Http 503), m)
      | Some s \<Rightarrow> (None, snd (attempt env 0 s (store_delete ops cfg (csrf_key token) s) m)))"

section \<open>The guard of the routes\<close>

record csrf_request =
  cq_origin :: pystr
  cq_referer :: pystr
  cq_cookie :: pystr
  cq_token :: pystr

record url_text =
  ut_split :: "pystr \<Rightarrow> (pystr \<times> pystr) option"
  ut_unquote :: "pystr \<Rightarrow> pystr"
  ut_lower :: "pystr \<Rightarrow> pystr"

text \<open>\<open>ut_split\<close> gives scheme and authority; \<open>None\<close> is its \<open>ValueError\<close>.\<close>

definition ends_with :: "pystr \<Rightarrow> pystr \<Rightarrow> bool" where
  "ends_with suffix s \<longleftrightarrow> length suffix \<le> length s \<and> drop (length s - length suffix) s = suffix"

definition normalize_origin :: "url_text \<Rightarrow> pystr \<Rightarrow> pystr option" where
  "normalize_origin ut value =
     (case ut_split ut (py_strip value) of
        None \<Rightarrow> None
      | Some (scheme0, netloc0) \<Rightarrow>
          if scheme0 = [] \<or> netloc0 = [] then None
          else (let scheme = ut_lower ut scheme0; netloc = ut_lower ut netloc0;
                    short = (if scheme = lit ''https'' \<and> ends_with (lit '':443'') netloc
                                \<or> scheme = lit ''http'' \<and> ends_with (lit '':80'') netloc
                             then py_join [58] (butlast (py_split 58 netloc)) else netloc)
                in Some (scheme @ lit ''://'' @ short)))"

definition csrf_allowed_origins :: "url_text \<Rightarrow> pystr list \<Rightarrow> pystr list option" where
  "csrf_allowed_origins ut configured =
     (if list_ex (\<lambda>o'. py_strip o' = lit ''*'') configured then None
      else (let allowed = List.map_filter (normalize_origin ut) configured
            in if allowed = [] then None else Some allowed))"

definition csrf_origin_ok :: "url_text \<Rightarrow> pystr list \<Rightarrow> csrf_request \<Rightarrow> bool" where
  "csrf_origin_ok ut configured rq =
     (let source = (if cq_origin rq \<noteq> [] then cq_origin rq else cq_referer rq)
      in source = [] \<or> (case csrf_allowed_origins ut configured of
           None \<Rightarrow> True
         | Some allowed \<Rightarrow> (case normalize_origin ut source of None \<Rightarrow> False | Some v \<Rightarrow> v \<in> set allowed)))"

definition csrf_cookie_name :: pystr where
  "csrf_cookie_name = lit ''X-CSRF-Token''"

definition cookie_candidates :: "url_text \<Rightarrow> pystr \<Rightarrow> pystr \<Rightarrow> pystr list" where
  "cookie_candidates ut header name =
     (let n = length name + 1
      in map (\<lambda>p. ut_unquote ut (drop n p)) (filter (\<lambda>p. take n p = name @ [61]) (map py_strip (py_split 59 header))))"

text \<open>\<open>bypass\<close> is the switch of the test harness; \<open>None\<close>, an application without a manager.\<close>

definition csrf_protect ::
  "'r redis_ops \<Rightarrow> csrf_config \<Rightarrow> url_text \<Rightarrow> pystr list \<Rightarrow> csrf_env \<Rightarrow> bool \<Rightarrow> csrf_request \<Rightarrow> 'r csrf_manager option
     \<Rightarrow> (http_error + pystr) \<times> 'r csrf_manager option" where
  "csrf_protect ops cfg ut configured env bypass rq mo =
     (if bypass then (Inr (lit ''test-bypass''), mo)
      else if \<not> csrf_origin_ok ut configured rq then (Inl (Http 403), mo)
      else (case mo of
              None \<Rightarrow> (Inl (Http 503), None)
            | Some m \<Rightarrow>
                (let cookies = cookie_candidates ut (cq_cookie rq) csrf_cookie_name
                 in if cookies = [] \<or> cq_token rq = [] then (Inl (Http 403), mo)
                    else if cq_token rq \<noteq> hd cookies then (Inl (Http 403), mo)
                    else (case validate_token ops cfg env (cq_token rq) m of
                            (Inl e, m') \<Rightarrow> (Inl e, Some m')
                          | (Inr False, m') \<Rightarrow> (Inl (Http 403), Some m')
                          | (Inr True, m') \<Rightarrow> (Inr (cq_token rq), Some m')))))"

section \<open>What one call can make valid\<close>

text \<open>Digests that never meet a key or each other on the keys of tokens.\<close>

definition collision_free :: "(pystr \<Rightarrow> pystr) \<Rightarrow> bool" where
  "collision_free sha \<longleftrightarrow> (\<forall>a b. share_row sha (csrf_key a) (csrf_key b) \<longrightarrow> a = b)"

definition live_at :: "('r \<Rightarrow> int \<Rightarrow> pystr \<Rightarrow> bool) \<Rightarrow> csrf_config \<Rightarrow> 'r csrf_manager \<Rightarrow> int \<Rightarrow> pystr \<Rightarrow> bool" where
  "live_at rlive cfg m t token \<longleftrightarrow> rlive (mg_redis m) t (csrf_key token) \<or> sql_live (cc_sha cfg) (mg_db m) t (csrf_key token)
     \<or> (\<exists>st. mg_fallback m = Some (Memory_store st) \<and> mem_live st t (csrf_key token))"

definition stored_at :: "('r \<Rightarrow> pystr \<Rightarrow> bool) \<Rightarrow> csrf_config \<Rightarrow> 'r csrf_manager \<Rightarrow> pystr \<Rightarrow> bool" where
  "stored_at rstored cfg m token \<longleftrightarrow> rstored (mg_redis m) (csrf_key token) \<or> sql_stored (cc_sha cfg) (mg_db m) (csrf_key token)
     \<or> (\<exists>st. mg_fallback m = Some (Memory_store st) \<and> mem_stored st (csrf_key token))"

definition redis_ok :: "'r redis_ops \<Rightarrow> ('r \<Rightarrow> int \<Rightarrow> pystr \<Rightarrow> bool) \<Rightarrow> ('r \<Rightarrow> pystr \<Rightarrow> bool) \<Rightarrow> bool" where
  "redis_ok ops rlive rstored \<longleftrightarrow>
     token_store (rd_setex ops) (rd_get ops) (rd_expire ops) (rd_delete ops) rlive rstored (=)"

text \<open>From \<open>m\<close> to \<open>m'\<close> no entry appears but for tokens of \<open>G\<close>, and no life but that of \<open>E\<close>.\<close>

definition bounded :: "('r \<Rightarrow> int \<Rightarrow> pystr \<Rightarrow> bool) \<Rightarrow> ('r \<Rightarrow> pystr \<Rightarrow> bool) \<Rightarrow> csrf_config \<Rightarrow> (pystr \<Rightarrow> int \<Rightarrow> bool) \<Rightarrow> (pystr \<Rightarrow> bool)
    \<Rightarrow> 'r csrf_manager \<Rightarrow> 'r csrf_manager \<Rightarrow> bool" where
  "bounded rlive rstored cfg E G m m' \<longleftrightarrow>
     (\<forall>x t. live_at rlive cfg m' t x \<longrightarrow> live_at rlive cfg m t x \<or> E x t)
     \<and> (\<forall>x. stored_at rstored cfg m' x \<longrightarrow> stored_at rstored cfg m x \<or> G x)"

abbreviation no_life :: "pystr \<Rightarrow> int \<Rightarrow> bool" where
  "no_life \<equiv> \<lambda>_ _. False"

abbreviation no_entry :: "pystr \<Rightarrow> bool" where
  "no_entry \<equiv> \<lambda>_. False"

abbreviation life_of :: "csrf_config \<Rightarrow> csrf_env \<Rightarrow> pystr \<Rightarrow> pystr \<Rightarrow> int \<Rightarrow> bool" where
  "life_of cfg env token \<equiv> \<lambda>x t. x = token \<and> t \<le> ce_now env + cc_ttl cfg"

lemma bounded_refl: "bounded rlive rstored cfg E G m m"
  by (simp add: bounded_def)

lemma bounded_trans:
  "bounded rlive rstored cfg E G m1 m2 \<Longrightarrow> bounded rlive rstored cfg E G m2 m3 \<Longrightarrow> bounded rlive rstored cfg E G m1 m3"
  unfolding bounded_def by blast

lemma bounded_weaken:
  "bounded rlive rstored cfg no_life no_entry m m' \<Longrightarrow> bounded rlive rstored cfg E G m m'"
  unfolding bounded_def by blast

lemma check_bounded: "bounded rlive rstored cfg E G m (check_redis_available env m)"
  by (auto simp: bounded_def check_redis_available_def live_at_def stored_at_def)

lemma engage_bounded: "bounded rlive rstored cfg E G m (engage_fallback cfg env m)"
  by (auto simp: bounded_def engage_fallback_def init_fallback_store_def live_at_def stored_at_def mem_live_def mem_stored_def
      split: option.splits if_splits)

lemma get_store_memory: "get_store m = Some (On_fallback f) \<Longrightarrow> mg_fallback m = Some f"
  by (auto simp: get_store_def split: bool.splits option.splits if_splits)

lemma setex_bounded:
  assumes "redis_ok ops rlive rstored" and "collision_free (cc_sha cfg)" and "get_store m = Some s"
  shows "bounded rlive rstored cfg (life_of cfg env token) (\<lambda>x. x = token) m
    (store_setex ops cfg (ce_now env) (csrf_key token) s m)"
proof -
  note R = assms(1) [unfolded redis_ok_def]
  have key: "csrf_key a = csrf_key b \<longleftrightarrow> a = b" for a b by (simp add: csrf_key_def)
  have same: "share_row (cc_sha cfg) (csrf_key a) (csrf_key b) \<Longrightarrow> a = b" for a b
    using assms(2) by (simp add: collision_free_def)
  show ?thesis
  proof (cases s)
    case On_redis
    then show ?thesis using token_store.setex_live [OF R] token_store.setex_stored [OF R]
      by (fastforce simp: bounded_def store_setex_def live_at_def stored_at_def key)
  next
    case (On_fallback f)
    show ?thesis
    proof (cases f)
      case Sqlite_store
      then show ?thesis using sqlite.setex_live sqlite.setex_stored same unfolding On_fallback
        by (fastforce simp: bounded_def store_setex_def live_at_def stored_at_def)
    next
      case (Memory_store st)
      then show ?thesis using memory.setex_live memory.setex_stored get_store_memory [OF assms(3) [unfolded On_fallback]]
        unfolding On_fallback by (fastforce simp: bounded_def store_setex_def live_at_def stored_at_def key)
    qed
  qed
qed

lemma expire_bounded:
  assumes "redis_ok ops rlive rstored" and "collision_free (cc_sha cfg)" and "get_store m = Some s"
  shows "bounded rlive rstored cfg (life_of cfg env token) no_entry m
    (store_expire ops cfg (ce_now env) (csrf_key token) s m)"
proof -
  note R = assms(1) [unfolded redis_ok_def]
  have key: "csrf_key a = csrf_key b \<longleftrightarrow> a = b" for a b by (simp add: csrf_key_def)
  have same: "share_row (cc_sha cfg) (csrf_key a) (csrf_key b) \<Longrightarrow> a = b" for a b
    using assms(2) by (simp add: collision_free_def)
  show ?thesis
  proof (cases s)
    case On_redis
    then show ?thesis using token_store.expire_live [OF R] token_store.expire_stored [OF R]
      by (fastforce simp: bounded_def store_expire_def live_at_def stored_at_def key)
  next
    case (On_fallback f)
    show ?thesis
    proof (cases f)
      case Sqlite_store
      then show ?thesis using sqlite.expire_live sqlite.expire_stored same unfolding On_fallback
        by (fastforce simp: bounded_def store_expire_def live_at_def stored_at_def)
    next
      case (Memory_store st)
      then show ?thesis using memory.expire_live memory.expire_stored get_store_memory [OF assms(3) [unfolded On_fallback]]
        unfolding On_fallback by (fastforce simp: bounded_def store_expire_def live_at_def stored_at_def key)
    qed
  qed
qed

lemma delete_bounded:
  assumes "redis_ok ops rlive rstored" and "get_store m = Some s"
  shows "bounded rlive rstored cfg E G m (store_delete ops cfg k s m)"
proof -
  note R = assms(1) [unfolded redis_ok_def]
  show ?thesis
  proof (cases s)
    case On_redis
    then show ?thesis using token_store.delete_live [OF R] token_store.delete_stored [OF R]
      by (fastforce simp: bounded_def store_delete_def live_at_def stored_at_def)
  next
    case (On_fallback f)
    then show ?thesis
      using sqlite.delete_live sqlite.delete_stored memory.delete_live memory.delete_stored get_store_memory [OF assms(2) [unfolded On_fallback]]
      by (cases f) (fastforce simp: bounded_def store_delete_def live_at_def stored_at_def)+
  qed
qed

lemma get_bounded:
  assumes "redis_ok ops rlive rstored" and "collision_free (cc_sha cfg)" and "get_store m = Some s"
    and "store_get ops cfg now (csrf_key token) s m = (b, m')"
  shows "bounded rlive rstored cfg no_life no_entry m m' \<and> (b \<longrightarrow> live_at rlive cfg m now token)"
proof -
  note R = assms(1) [unfolded redis_ok_def]
  have key: "csrf_key a = csrf_key b \<longleftrightarrow> a = b" for a b by (simp add: csrf_key_def)
  have same: "share_row (cc_sha cfg) (csrf_key a) (csrf_key b) \<Longrightarrow> a = b" for a b
    using assms(2) by (simp add: collision_free_def)
  show ?thesis
  proof (cases s)
    case On_redis
    obtain r where r: "rd_get ops now (csrf_key token) (mg_redis m) = (b, r)" "m' = m\<lparr>mg_redis := r\<rparr>"
      using assms(4) On_redis by (auto simp: store_get_def split: prod.splits)
    then show ?thesis
      using token_store.get_live [OF R, of now "csrf_key token" "mg_redis m"] token_store.get_keeps [OF R, of now "csrf_key token" "mg_redis m"]
        token_store.get_stored [OF R, of now "csrf_key token" "mg_redis m"]
      by (fastforce simp: bounded_def live_at_def stored_at_def)
  next
    case (On_fallback f)
    show ?thesis
    proof (cases f)
      case Sqlite_store
      obtain t where t: "sql_get (cc_sha cfg) now (csrf_key token) (mg_db m) = (b, t)" "m' = m\<lparr>mg_db := t\<rparr>"
        using assms(4) On_fallback Sqlite_store by (auto simp: store_get_def split: prod.splits)
      then show ?thesis
        using sqlite.get_live [of "cc_sha cfg" now "csrf_key token" "mg_db m"] sqlite.get_keeps [of "cc_sha cfg" now "csrf_key token" "mg_db m"]
          sqlite.get_stored [of "cc_sha cfg" now "csrf_key token" "mg_db m"] same
        by (fastforce simp: bounded_def live_at_def stored_at_def)
    next
      case (Memory_store st)
      obtain st' where t: "mem_get now (csrf_key token) st = (b, st')" "m' = m\<lparr>mg_fallback := Some (Memory_store st')\<rparr>"
        using assms(4) On_fallback Memory_store by (auto simp: store_get_def split: prod.splits)
      then show ?thesis
        using memory.get_live [of now "csrf_key token" st] memory.get_keeps [of now "csrf_key token" st]
          memory.get_stored [of now "csrf_key token" st] get_store_memory [OF assms(3) [unfolded On_fallback]] Memory_store
        by (fastforce simp: bounded_def live_at_def stored_at_def)
    qed
  qed
qed

section \<open>What a request can make valid\<close>

lemma attempt_bounded:
  assumes "bounded rlive rstored cfg E G m (f m)"
  shows "bounded rlive rstored cfg E G m (snd (attempt env n s f m))"
  using assms by (simp add: attempt_def bounded_refl split: outcome.split)

lemma generate_bounded:
  assumes "redis_ok ops rlive rstored" and "collision_free (cc_sha cfg)"
  shows "bounded rlive rstored cfg (life_of cfg env token) (\<lambda>x. x = token) m (snd (generate_token ops cfg env token m))"
proof -
  let ?B = "bounded rlive rstored cfg (life_of cfg env token) (\<lambda>x. x = token)"
  let ?m = "check_redis_available env m" and ?set = "store_setex ops cfg (ce_now env) (csrf_key token)"
  have set: "?B m1 (snd (attempt env n s (?set s) m1))" if "get_store m1 = Some s" for m1 n s
    by (rule attempt_bounded) (rule setex_bounded [OF assms that])
  have e: "?B m1 (engage_fallback cfg env m1)" for m1 by (rule engage_bounded)
  show ?thesis
  proof (cases "get_store ?m")
    case None
    then show ?thesis by (simp add: generate_token_def check_bounded)
  next
    case s: (Some s)
    obtain ok m1 where 1: "attempt env 0 s (?set s) ?m = (ok, m1)" by fastforce
    have b1: "?B m m1" using bounded_trans [OF check_bounded set [OF s, of 0]] 1 by simp
    show ?thesis
    proof (cases ok)
      case True
      then show ?thesis using b1 1 s by (simp add: generate_token_def Let_def)
    next
      case False
      let ?m2 = "engage_fallback cfg env m1"
      have b2: "?B m ?m2" using bounded_trans [OF b1 e] .
      show ?thesis
      proof (cases "get_store ?m2")
        case None
        then show ?thesis using b2 1 s False by (simp add: generate_token_def Let_def)
      next
        case s2: (Some s2)
        obtain ok2 m3 where 3: "attempt env 1 s2 (?set s2) ?m2 = (ok2, m3)" by fastforce
        have "?B m m3" using bounded_trans [OF b2 set [OF s2, of 1]] 3 by simp
        then show ?thesis using 1 3 s s2 False by (simp add: generate_token_def Let_def split: bool.split)
      qed
    qed
  qed
qed

lemma attempt_get_bounded:
  assumes "redis_ok ops rlive rstored" and "collision_free (cc_sha cfg)" and "get_store m = Some s"
    and "attempt_get ops cfg env n (csrf_key token) s m = (res, m')"
  shows "bounded rlive rstored cfg no_life no_entry m m' \<and> (res = Some True \<longrightarrow> live_at rlive cfg m (ce_now env) token)"
proof -
  obtain b m1 where g: "store_get ops cfg (ce_now env) (csrf_key token) s m = (b, m1)" by fastforce
  from get_bounded [OF assms(1-3) g] assms(4) g show ?thesis
    by (auto simp: attempt_get_def bounded_refl split: outcome.splits)
qed

lemma extend_bounded:
  assumes "redis_ok ops rlive rstored" and "collision_free (cc_sha cfg)"
    and "extend_token ops cfg env (csrf_key token) b m = (res, m')"
  shows "bounded rlive rstored cfg (if res = Inr True then life_of cfg env token else no_life) no_entry m m' \<and> (res = Inr True \<longrightarrow> b)"
proof (cases "b \<and> get_store m \<noteq> None")
  case False
  then show ?thesis using assms(3) by (auto simp: extend_token_def bounded_refl split: if_splits option.splits)
next
  case True
  then obtain s where s: "get_store m = Some s" by blast
  have "bounded rlive rstored cfg (life_of cfg env token) no_entry m
      (snd (attempt env 2 s (store_expire ops cfg (ce_now env) (csrf_key token) s) m))"
    by (rule attempt_bounded) (rule expire_bounded [OF assms(1,2) s])
  then show ?thesis using assms(3) True s by (auto simp: extend_token_def)
qed

lemma validate_bounded:
  assumes "redis_ok ops rlive rstored" and "collision_free (cc_sha cfg)"
    and "validate_token ops cfg env token m = (res, m')"
  shows "bounded rlive rstored cfg (if res = Inr True then life_of cfg env token else no_life) no_entry m m'
    \<and> (res = Inr True \<longrightarrow> live_at rlive cfg m (ce_now env) token)"
proof -
  let ?E = "if res = Inr True then life_of cfg env token else no_life"
  let ?B = "bounded rlive rstored cfg ?E no_entry" and ?N = "bounded rlive rstored cfg no_life no_entry"
  let ?m = "check_redis_available env m" and ?get = "\<lambda>n. attempt_get ops cfg env n (csrf_key token)"
  have earlier: "live_at rlive cfg m t token" if "?N m m1" "live_at rlive cfg m1 t token" for m1 t
    using that by (auto simp: bounded_def)
  have close: "?B m m' \<and> (res = Inr True \<longrightarrow> live_at rlive cfg m (ce_now env) token)"
    if "?N m m0" "get_store m0 = Some s" "?get n s m0 = (Some b, m1)" "extend_token ops cfg env (csrf_key token) b m1 = (res, m')"
    for m0 s n b m1
  proof -
    note g = attempt_get_bounded [OF assms(1,2) that(2,3)] and x = extend_bounded [OF assms(1,2) that(4)]
    have "?N m m1" using bounded_trans [OF that(1)] g by blast
    then have "?B m m'" using bounded_trans [OF bounded_weaken] x by blast
    moreover have "live_at rlive cfg m (ce_now env) token" if "res = Inr True"
      using earlier [OF \<open>?N m m0\<close>] g x that by blast
    ultimately show ?thesis by blast
  qed
  have n: "?N m ?m" by (rule check_bounded)
  show ?thesis
  proof (cases "token = []")
    case True
    then show ?thesis using assms(3) by (auto simp: validate_token_def bounded_refl)
  next
    case token: False
    show ?thesis
    proof (cases "get_store ?m")
      case None
      then show ?thesis using assms(3) token bounded_weaken [OF n] by (auto simp: validate_token_def Let_def)
    next
      case s: (Some s)
      obtain r1 m1 where 1: "?get 0 s ?m = (r1, m1)" by fastforce
      show ?thesis
      proof (cases r1)
        case (Some b)
        then show ?thesis using close [OF n s, of 0] 1 assms(3) token s by (simp add: validate_token_def Let_def)
      next
        case None
        let ?m2 = "engage_fallback cfg env m1"
        have "?N m m1" using bounded_trans [OF n] attempt_get_bounded [OF assms(1,2) s 1] by blast
        then have n2: "?N m ?m2" using bounded_trans engage_bounded by blast
        show ?thesis
        proof (cases "get_store ?m2")
          case none: None
          then show ?thesis using assms(3) token s 1 None bounded_weaken [OF n2] by (auto simp: validate_token_def Let_def)
        next
          case s2: (Some s2)
          obtain r3 m3 where 3: "?get 1 s2 ?m2 = (r3, m3)" by fastforce
          show ?thesis
          proof (cases r3)
            case (Some b)
            then show ?thesis using close [OF n2 s2, of 1] 1 3 None assms(3) token s s2 by (simp add: validate_token_def Let_def)
          next
            case none: None
            have "?N m m3" using bounded_trans [OF n2] attempt_get_bounded [OF assms(1,2) s2 3] by blast
            then show ?thesis using assms(3) token s s2 1 3 None none bounded_weaken
              by (auto simp: validate_token_def Let_def)
          qed
        qed
      qed
    qed
  qed
qed

section \<open>Runs\<close>

datatype csrf_call = Generate_csrf csrf_env pystr | Validate_csrf csrf_env pystr | Revoke_csrf csrf_env pystr

datatype csrf_event = Generated int pystr | Validated int pystr

text \<open>A run notes the tokens that are generated and those that are found valid, with the times.\<close>

fun csrf_step :: "'r redis_ops \<Rightarrow> csrf_config \<Rightarrow> csrf_call \<Rightarrow> csrf_event list \<times> 'r csrf_manager
    \<Rightarrow> csrf_event list \<times> 'r csrf_manager" where
  "csrf_step ops cfg (Generate_csrf env token) (log, m) =
     (Generated (ce_now env) token # log, snd (generate_token ops cfg env token m))"
| "csrf_step ops cfg (Validate_csrf env token) (log, m) =
     (case validate_token ops cfg env token m of
        (res, m') \<Rightarrow> (if res = Inr True then Validated (ce_now env) token # log else log, m'))"
| "csrf_step ops cfg (Revoke_csrf env token) (log, m) = (log, snd (revoke_token ops cfg env token m))"

definition csrf_run :: "'r redis_ops \<Rightarrow> csrf_config \<Rightarrow> csrf_call list \<Rightarrow> 'r csrf_manager \<Rightarrow> csrf_event list \<times> 'r csrf_manager" where
  "csrf_run ops cfg cs m = fold (csrf_step ops cfg) cs ([], m)"

definition token_life :: "csrf_config \<Rightarrow> csrf_event list \<Rightarrow> pystr \<Rightarrow> int \<Rightarrow> bool" where
  "token_life cfg log x t \<longleftrightarrow>
     (\<exists>t0. (Generated t0 x \<in> set log \<or> Validated t0 x \<in> set log) \<and> t \<le> t0 + cc_ttl cfg)"

definition csrf_inv :: "('r \<Rightarrow> int \<Rightarrow> pystr \<Rightarrow> bool) \<Rightarrow> ('r \<Rightarrow> pystr \<Rightarrow> bool) \<Rightarrow> csrf_config \<Rightarrow> csrf_event list \<times> 'r csrf_manager \<Rightarrow> bool" where
  "csrf_inv rlive rstored cfg x \<longleftrightarrow>
     (\<forall>k. stored_at rstored cfg (snd x) k \<longrightarrow> (\<exists>t0. Generated t0 k \<in> set (fst x)))
     \<and> (\<forall>k t. live_at rlive cfg (snd x) t k \<longrightarrow> token_life cfg (fst x) k t)"

lemma csrf_inv_bounded:
  assumes "csrf_inv rlive rstored cfg (log, m)" and "bounded rlive rstored cfg E G m m'" and "set log \<subseteq> set log'"
    and "\<And>k. G k \<Longrightarrow> \<exists>t0. Generated t0 k \<in> set log'" and "\<And>k t. E k t \<Longrightarrow> token_life cfg log' k t"
  shows "csrf_inv rlive rstored cfg (log', m')"
proof -
  have "token_life cfg log k t \<Longrightarrow> token_life cfg log' k t" for k t using assms(3) by (auto simp: token_life_def)
  then show ?thesis using assms unfolding csrf_inv_def bounded_def fst_conv snd_conv by blast
qed

lemma csrf_inv_step:
  assumes ok: "redis_ok ops rlive rstored" "collision_free (cc_sha cfg)" and inv: "csrf_inv rlive rstored cfg (log, m)"
  shows "csrf_inv rlive rstored cfg (csrf_step ops cfg c (log, m))"
proof (cases c)
  case (Generate_csrf env token)
  show ?thesis unfolding Generate_csrf csrf_step.simps
    by (rule csrf_inv_bounded [OF inv generate_bounded [OF ok]]) (auto simp: token_life_def)
next
  case (Validate_csrf env token)
  obtain res m' where v: "validate_token ops cfg env token m = (res, m')" by fastforce
  note b = validate_bounded [OF ok v, THEN conjunct1]
  show ?thesis unfolding Validate_csrf csrf_step.simps v prod.case
    by (rule csrf_inv_bounded [OF inv b]) (auto simp: token_life_def split: if_splits)
next
  case (Revoke_csrf env token)
  have "bounded rlive rstored cfg no_life no_entry m (snd (revoke_token ops cfg env token m))"
    by (auto simp: revoke_token_def bounded_refl split: option.split intro!: attempt_bounded delete_bounded [OF ok(1)])
  then show ?thesis unfolding Revoke_csrf csrf_step.simps by (rule csrf_inv_bounded [OF inv]) auto
qed

lemma csrf_inv_run:
  assumes ok: "redis_ok ops rlive rstored" "collision_free (cc_sha cfg)"
  shows "csrf_inv rlive rstored cfg x \<Longrightarrow> csrf_inv rlive rstored cfg (fold (csrf_step ops cfg) cs x)"
proof (induction cs arbitrary: x)
  case (Cons c cs)
  show ?case using Cons.IH [OF csrf_inv_step [OF ok, of "fst x" "snd x" c]] Cons.prems by simp
qed simp

lemma live_is_stored:
  "redis_ok ops rlive rstored \<Longrightarrow> live_at rlive cfg m t x \<Longrightarrow> stored_at rstored cfg m x"
  using token_store.live_stored memory.live_stored sqlite.live_stored
  unfolding redis_ok_def live_at_def stored_at_def by meson

lemma csrf_protect_accepts:
  assumes "csrf_protect ops cfg ut configured env False rq (Some m) = (Inr token, mo)"
  shows "csrf_origin_ok ut configured rq \<and> cookie_candidates ut (cq_cookie rq) csrf_cookie_name \<noteq> [] \<and> token \<noteq> []
    \<and> token = cq_token rq \<and> hd (cookie_candidates ut (cq_cookie rq) csrf_cookie_name) = token
    \<and> (\<exists>m'. validate_token ops cfg env token m = (Inr True, m'))"
  using assms by (auto simp: csrf_protect_def Let_def split: if_splits prod.splits sum.splits bool.splits)

text \<open>
  C15 With stores that hold no token at start, a digest without collisions and a Redis that
  keeps its contract (\<open>redis_ok\<close>), a state-changing request passes the CSRF guard only if its
  origin is not foreign, the header repeats the first cookie of the name, and the token was
  generated by this application and generated or used at most \<open>ttl\<close> before: after any run,
  through any failures, failovers and recoveries of Redis and SQLite. It is the first cookie
  only: the docstring of \<open>_cookie_candidates\<close> promises a match with any transmitted value.
\<close>

theorem csrf_accepts_only_issued:
  assumes "redis_ok ops rlive rstored" and "collision_free (cc_sha cfg)"
    and "\<forall>x. \<not> rstored r (csrf_key x)" and "\<forall>x. \<not> sql_stored (cc_sha cfg) db (csrf_key x)"
    and "csrf_run ops cfg cs (new_manager cfg env0 url client r db) = (log, m)"
    and "csrf_protect ops cfg ut configured env False rq (Some m) = (Inr token, mo)"
  shows "csrf_origin_ok ut configured rq \<and> token = cq_token rq \<and> token \<noteq> []
    \<and> (\<exists>rest. cookie_candidates ut (cq_cookie rq) csrf_cookie_name = token # rest)
    \<and> (\<exists>t0. Generated t0 token \<in> set log)
    \<and> (\<exists>t0. (Generated t0 token \<in> set log \<or> Validated t0 token \<in> set log) \<and> ce_now env \<le> t0 + cc_ttl cfg)"
proof -
  let ?m0 = "new_manager cfg env0 url client r db" and ?cookies = "cookie_candidates ut (cq_cookie rq) csrf_cookie_name"
  have empty: "\<not> stored_at rstored cfg ?m0 x" for x
    using assms(3,4) by (auto simp: stored_at_def new_manager_def init_fallback_store_def mem_stored_def Let_def split: if_splits)
  then have "\<not> live_at rlive cfg ?m0 t x" for t x using live_is_stored [OF assms(1)] by blast
  then have "csrf_inv rlive rstored cfg ([], ?m0)" using empty by (simp add: csrf_inv_def)
  from csrf_inv_run [OF assms(1,2) this, of cs] have inv: "csrf_inv rlive rstored cfg (log, m)"
    using assms(5) by (simp add: csrf_run_def)
  from csrf_protect_accepts [OF assms(6)] obtain m' where v: "validate_token ops cfg env token m = (Inr True, m')"
    and a: "csrf_origin_ok ut configured rq" "?cookies \<noteq> []" "token \<noteq> []" "token = cq_token rq" "hd ?cookies = token"
    by blast
  have "live_at rlive cfg m (ce_now env) token" using validate_bounded [OF assms(1,2) v] by simp
  moreover from this have "stored_at rstored cfg m token" by (rule live_is_stored [OF assms(1)])
  ultimately have "\<exists>t0. Generated t0 token \<in> set log" "token_life cfg log token (ce_now env)"
    using inv by (auto simp: csrf_inv_def)
  moreover have "?cookies = token # tl ?cookies" using a(2,5) by (metis list.collapse)
  ultimately show ?thesis using a unfolding token_life_def by blast
qed

section \<open>Without Redis\<close>

definition keeps_token :: "csrf_config \<Rightarrow> int \<Rightarrow> pystr \<Rightarrow> 'r csrf_manager \<Rightarrow> bool" where
  "keeps_token cfg t token m \<longleftrightarrow> mg_use m \<and> \<not> mg_client m \<and> mg_fallback m = Some Sqlite_store
     \<and> sql_live (cc_sha cfg) (mg_db m) t (csrf_key token)"

abbreviation on_sqlite :: store_kind where
  "on_sqlite \<equiv> On_fallback Sqlite_store"

lemma without_redis:
  assumes "mg_use m" "\<not> mg_client m" "mg_fallback m = Some Sqlite_store"
  shows "check_redis_available env m = m" "engage_fallback cfg env m = m" "get_store m = Some on_sqlite"
  using assms by (simp_all add: check_redis_available_def engage_fallback_def get_store_def)

lemma keeps_tokenD:
  assumes "keeps_token cfg t token m"
  shows "check_redis_available env m = m" "engage_fallback cfg' env m = m" "get_store m = Some on_sqlite"
  using without_redis [of m] assms by (simp_all add: keeps_token_def)

lemma attempt_keeps:
  "keeps_token cfg t token m \<Longrightarrow> keeps_token cfg t token (f m) \<Longrightarrow> keeps_token cfg t token (snd (attempt env n s f m))"
  by (simp add: attempt_def split: outcome.split)

fun call_time :: "csrf_call \<Rightarrow> int" where
  "call_time (Generate_csrf env x) = ce_now env"
| "call_time (Validate_csrf env x) = ce_now env"
| "call_time (Revoke_csrf env x) = ce_now env"

fun leaves_token :: "pystr \<Rightarrow> csrf_call \<Rightarrow> bool" where
  "leaves_token token (Generate_csrf env x) = (x \<noteq> token)"
| "leaves_token token (Validate_csrf env x) = True"
| "leaves_token token (Revoke_csrf env x) = (x \<noteq> token)"

lemma store_keeps:
  assumes "keeps_token cfg t token m" and "collision_free (cc_sha cfg)" and "now \<le> t" and "t < now + cc_ttl cfg"
  shows "x \<noteq> token \<Longrightarrow> keeps_token cfg t token (store_setex ops cfg now (csrf_key x) on_sqlite m)"
    and "x \<noteq> token \<Longrightarrow> keeps_token cfg t token (store_delete ops cfg (csrf_key x) on_sqlite m)"
    and "keeps_token cfg t token (snd (store_get ops cfg now (csrf_key x) on_sqlite m))"
    and "keeps_token cfg t token (store_expire ops cfg now (csrf_key x) on_sqlite m)"
proof -
  have diff: "x = token \<or> \<not> share_row (cc_sha cfg) (csrf_key x) (csrf_key token)"
    using assms(2) by (auto simp: collision_free_def)
  have m: "mg_use m" "\<not> mg_client m" "mg_fallback m = Some Sqlite_store"
    and live: "sql_live (cc_sha cfg) (mg_db m) t (csrf_key token)"
    using assms(1) by (simp_all add: keeps_token_def)
  show "x \<noteq> token \<Longrightarrow> keeps_token cfg t token (store_setex ops cfg now (csrf_key x) on_sqlite m)"
    using sqlite.setex_lasts [OF live assms(3)] diff m by (simp add: keeps_token_def store_setex_def)
  show "x \<noteq> token \<Longrightarrow> keeps_token cfg t token (store_delete ops cfg (csrf_key x) on_sqlite m)"
    using sqlite.delete_lasts [OF live] diff m by (simp add: keeps_token_def store_delete_def)
  show "keeps_token cfg t token (snd (store_get ops cfg now (csrf_key x) on_sqlite m))"
    using sqlite.get_lasts [OF live assms(3), of "csrf_key x"] diff m by (auto simp: keeps_token_def store_get_def split: prod.split)
  show "keeps_token cfg t token (store_expire ops cfg now (csrf_key x) on_sqlite m)"
    using sqlite.expire_lasts [OF live assms(4)] m by (simp add: keeps_token_def store_expire_def)
qed

lemma attempt_get_keeps:
  assumes "keeps_token cfg t token m" and "collision_free (cc_sha cfg)" and "ce_now env \<le> t" and "t < ce_now env + cc_ttl cfg"
    and "attempt_get ops cfg env n (csrf_key x) on_sqlite m = (res, m')"
  shows "keeps_token cfg t token m'"
proof -
  obtain b m1 where g: "store_get ops cfg (ce_now env) (csrf_key x) on_sqlite m = (b, m1)" by fastforce
  then have "keeps_token cfg t token m1" using store_keeps(3) [OF assms(1-4), of ops x] by simp
  then show ?thesis using assms(1,5) g by (auto simp: attempt_get_def split: outcome.splits)
qed

lemma extend_keeps:
  assumes "keeps_token cfg t token m" and "collision_free (cc_sha cfg)" and "ce_now env \<le> t" and "t < ce_now env + cc_ttl cfg"
  shows "keeps_token cfg t token (snd (extend_token ops cfg env (csrf_key x) b m))"
  using assms(1) keeps_tokenD(3) [OF assms(1)]
    attempt_keeps [where f = "store_expire ops cfg (ce_now env) (csrf_key x) on_sqlite", OF assms(1) store_keeps(4) [OF assms(1-4)]]
  by (simp add: extend_token_def)

lemma step_keeps:
  assumes k: "keeps_token cfg t token m" and cf: "collision_free (cc_sha cfg)"
    and time: "call_time c \<le> t" "t < call_time c + cc_ttl cfg" and leave: "leaves_token token c"
  shows "keeps_token cfg t token (snd (csrf_step ops cfg c (log, m)))"
proof (cases c)
  case (Generate_csrf env x)
  then have tm: "ce_now env \<le> t" "t < ce_now env + cc_ttl cfg" and x: "x \<noteq> token" using time leave by simp_all
  have set: "keeps_token cfg t token (snd (attempt env n on_sqlite (store_setex ops cfg (ce_now env) (csrf_key x) on_sqlite) m1))"
    if "keeps_token cfg t token m1" for m1 n using attempt_keeps [where f = "store_setex ops cfg (ce_now env) (csrf_key x) on_sqlite", OF that store_keeps(1) [OF that cf tm x]] .
  obtain ok m1 where 1: "attempt env 0 on_sqlite (store_setex ops cfg (ce_now env) (csrf_key x) on_sqlite) m = (ok, m1)" by fastforce
  have k1: "keeps_token cfg t token m1" using set [OF k, of 0] 1 by simp
  obtain ok2 m2 where 2: "attempt env 1 on_sqlite (store_setex ops cfg (ce_now env) (csrf_key x) on_sqlite) m1 = (ok2, m2)" by fastforce
  have "keeps_token cfg t token m2" using set [OF k1, of 1] 2 by simp
  then show ?thesis using k1 1 2 keeps_tokenD [OF k] keeps_tokenD [OF k1]
    by (simp add: Generate_csrf generate_token_def Let_def split: bool.split)
next
  case (Validate_csrf env x)
  then have tm: "ce_now env \<le> t" "t < ce_now env + cc_ttl cfg" using time by simp_all
  obtain r1 m1 where 1: "attempt_get ops cfg env 0 (csrf_key x) on_sqlite m = (r1, m1)" by fastforce
  have k1: "keeps_token cfg t token m1" by (rule attempt_get_keeps [OF k cf tm 1])
  obtain r2 m2 where 2: "attempt_get ops cfg env 1 (csrf_key x) on_sqlite m1 = (r2, m2)" by fastforce
  have k2: "keeps_token cfg t token m2" by (rule attempt_get_keeps [OF k1 cf tm 2])
  have ext: "keeps_token cfg t token (snd (extend_token ops cfg env (csrf_key x) b mm))" if "keeps_token cfg t token mm" for b mm
    by (rule extend_keeps [OF that cf tm])
  have "keeps_token cfg t token (snd (validate_token ops cfg env x m))"
    using k k1 k2 ext 1 2 keeps_tokenD [OF k] keeps_tokenD [OF k1]
    by (simp add: validate_token_def Let_def split: option.split)
  then show ?thesis by (cases "validate_token ops cfg env x m") (simp add: Validate_csrf)
next
  case (Revoke_csrf env x)
  then have "ce_now env \<le> t" "t < ce_now env + cc_ttl cfg" "x \<noteq> token" using time leave by simp_all
  then show ?thesis using attempt_keeps [where f = "store_delete ops cfg (csrf_key x) on_sqlite", OF k store_keeps(2) [OF k cf]] keeps_tokenD [OF k]
    by (simp add: Revoke_csrf revoke_token_def)
qed

lemma run_keeps:
  assumes "collision_free (cc_sha cfg)"
    and "\<forall>c \<in> set cs. call_time c \<le> t \<and> t < call_time c + cc_ttl cfg \<and> leaves_token token c"
  shows "keeps_token cfg t token (snd x) \<Longrightarrow> keeps_token cfg t token (snd (fold (csrf_step ops cfg) cs x))"
  using assms(2)
proof (induction cs arbitrary: x)
  case (Cons c cs)
  have "keeps_token cfg t token (snd (csrf_step ops cfg c (fst x, snd x)))"
    by (rule step_keeps [OF Cons.prems(1) assms(1)]) (use Cons.prems(2) in simp_all)
  then show ?case using Cons.IH Cons.prems(2) by simp
qed simp

text \<open>
  C16 Without Redis a generated token is good for \<open>ttl\<close>, whatever other tokens are generated, used
  and revoked meanwhile, by any worker and with any failures of the database, as long as its own
  check reaches the database.
\<close>

theorem csrf_token_lasts:
  assumes "collision_free (cc_sha cfg)" and "mg_use m0" "\<not> mg_client m0" "mg_fallback m0 = Some Sqlite_store"
    and "generate_token ops cfg env0 token m0 = (Inr token, m1)" and "token \<noteq> []"
    and "\<forall>c \<in> set cs. ce_now env0 \<le> call_time c \<and> call_time c \<le> ce_now env \<and> leaves_token token c"
    and "csrf_run ops cfg cs m1 = (log, m)"
    and "ce_now env0 \<le> ce_now env" "ce_now env < ce_now env0 + cc_ttl cfg" and "ce_outcome env 0 = Done"
  shows "fst (validate_token ops cfg env token m) = Inr True"
proof -
  let ?t = "ce_now env" and ?set = "store_setex ops cfg (ce_now env0) (csrf_key token) on_sqlite"
  have holds: "keeps_token cfg ?t token (?set mm)" if "mg_use mm" "\<not> mg_client mm" "mg_fallback mm = Some Sqlite_store" for mm
    using sqlite.setex_holds [OF assms(9,10)] that by (simp add: keeps_token_def store_setex_def)
  have failed: "mg_use mm \<and> \<not> mg_client mm \<and> mg_fallback mm = Some Sqlite_store"
    if "attempt env0 0 on_sqlite ?set m0 = (ok, mm)" for ok mm
    using that assms(2-4) by (auto simp: attempt_def store_setex_def split: outcome.splits)
  have done1: "mm = ?set mm0" if "attempt env0 n on_sqlite ?set mm0 = (True, mm)" for n mm mm0
    using that by (simp add: attempt_def split: outcome.splits)
  obtain ok m2 where 1: "attempt env0 0 on_sqlite ?set m0 = (ok, m2)" by fastforce
  note f = failed [OF 1]
  have "keeps_token cfg ?t token m1"
  proof (cases ok)
    case True
    then have "m1 = m2" using assms(5) 1 without_redis [OF assms(2-4)] by (simp add: generate_token_def Let_def)
    then show ?thesis using done1 [of 0 m0 m2] 1 True holds [OF assms(2-4)] by simp
  next
    case False
    obtain ok3 m3 where 3: "attempt env0 1 on_sqlite ?set m2 = (ok3, m3)" by fastforce
    have "ok3 \<and> m1 = m3" using assms(5) 1 3 False without_redis [OF assms(2-4)] without_redis [of m2] f
      by (auto simp: generate_token_def Let_def split: bool.splits)
    then show ?thesis using done1 [of 1 m2 m3] 3 f holds [of m2] by simp
  qed
  then have k: "keeps_token cfg ?t token m"
    using run_keeps [OF assms(1), of cs ?t token "([], m1)" ops] assms(7,8,10) by (fastforce simp: csrf_run_def)
  obtain b m2 where g: "store_get ops cfg ?t (csrf_key token) on_sqlite m = (b, m2)" by fastforce
  have "b" using g k sqlite.get_live [of "cc_sha cfg" ?t "csrf_key token" "mg_db m"]
    by (auto simp: store_get_def keeps_token_def split: prod.splits)
  moreover have "keeps_token cfg ?t token m2" using store_keeps(3) [OF k assms(1), of ?t ops token] g assms(9,10) by simp
  ultimately show ?thesis using g assms(6,11) keeps_tokenD [OF k] keeps_tokenD [of cfg ?t token m2]
    by (simp add: validate_token_def attempt_get_def call_outcome_def extend_token_def Let_def)
qed

section \<open>What failover and cookies cost\<close>

text \<open>
  A token revoked while the fallback is in use is good again once Redis is back, if it was
  issued there before: the revocation is stored in the fallback only.
\<close>

lemma revocation_forgotten:
  assumes "mg_use m" "mg_client m" "mg_fallback m = Some f" and "ce_ping env" "mg_next_ping m \<le> ce_mono env" "ce_outcome env 0 = Done"
    and "fst (rd_get ops (ce_now env) (csrf_key token) (mg_redis m))" and "token \<noteq> []"
  shows "fst (validate_token ops cfg env token (snd (revoke_token ops cfg env' token m))) = Inr True"
proof -
  let ?m = "snd (revoke_token ops cfg env' token m)"
  have "mg_use ?m \<and> mg_client ?m \<and> mg_redis ?m = mg_redis m \<and> mg_next_ping ?m = mg_next_ping m"
    using assms(1-3) by (simp add: revoke_token_def get_store_def attempt_def store_delete_def split: outcome.split fallback.split)
  then show ?thesis using assms(4-8)
    by (auto simp: validate_token_def check_redis_available_def get_store_def attempt_get_def call_outcome_def store_get_def
        extend_token_def Let_def split: prod.split)
qed

lemma later_cookie_refused:
  assumes "cookie_candidates ut (cq_cookie rq) csrf_cookie_name = c # rest" and "cq_token rq \<in> set rest" "cq_token rq \<noteq> c"
  shows "fst (csrf_protect ops cfg ut configured env False rq (Some m)) = Inl (Http 403)"
  using assms by (simp add: csrf_protect_def Let_def)

section \<open>The example\<close>

text \<open>No Redis, a database, tokens that live 900 seconds; the digest puts a NUL before the key.\<close>

definition sample_config :: csrf_config where
  "sample_config = \<lparr>cc_ttl = 900, cc_db_path = [47], cc_sha = (\<lambda>s. 0 # s)\<rparr>"

definition sample_env :: "int \<Rightarrow> csrf_env" where
  "sample_env t = \<lparr>ce_now = t, ce_mono = t, ce_ping = False, ce_init = True, ce_outcome = (\<lambda>_. Done)\<rparr>"

definition sample_redis :: "mem_store redis_ops" where
  "sample_redis = \<lparr>rd_setex = mem_setex, rd_get = mem_get, rd_expire = mem_expire, rd_delete = mem_delete\<rparr>"

definition sample_manager :: "mem_store csrf_manager" where
  "sample_manager = new_manager sample_config (sample_env 0) [] False DAList.empty (\<lambda>_. None)"

definition sample_urls :: url_text where
  "sample_urls = \<lparr>ut_split = (\<lambda>_. None), ut_unquote = (\<lambda>s. s), ut_lower = (\<lambda>s. s)\<rparr>"

definition csrf_sample_request :: csrf_request where
  "csrf_sample_request = \<lparr>cq_origin = [], cq_referer = [], cq_cookie = lit ''a=b'' @ 59 # lit '' X-CSRF-Token=t'', cq_token = lit ''t''\<rparr>"

lemma sample_cookies: "cookie_candidates sample_urls (cq_cookie csrf_sample_request) csrf_cookie_name = [lit ''t'']"
proof -
  have "py_split 59 (lit ''a=b'') = [lit ''a=b'']" "py_split 59 (lit '' X-CSRF-Token=t'') = [lit '' X-CSRF-Token=t'']"
    by (rule py_split_no_sep, simp add: lit_def)+
  moreover have "py_strip (lit ''a=b'') = lit ''a=b''" "py_strip (lit '' X-CSRF-Token=t'') = lit ''X-CSRF-Token=t''"
    by (simp_all add: lit_def py_strip_def py_isspace_def)
  ultimately show ?thesis
    by (simp add: cookie_candidates_def csrf_sample_request_def py_split_append)
      (simp add: sample_urls_def csrf_cookie_name_def lit_def)
qed

lemma sample_redis_ok: "redis_ok sample_redis mem_live mem_stored"
  unfolding redis_ok_def sample_redis_def using memory.token_store_axioms by simp

lemma sample_collision_free: "collision_free (cc_sha sample_config)"
  by (auto simp: collision_free_def share_row_def sample_config_def csrf_key_def lit_def)

lemma sample_manager_simps: "mg_use sample_manager" "\<not> mg_client sample_manager" "mg_fallback sample_manager = Some Sqlite_store"
  "mg_db sample_manager = (\<lambda>_. None)"
  by (simp_all add: sample_manager_def new_manager_def init_fallback_store_def sample_config_def sample_env_def Let_def)

lemma sample_generate:
  "generate_token sample_redis sample_config (sample_env 0) x sample_manager =
   (Inr x, sample_manager\<lparr>mg_db := sql_setex (cc_sha sample_config) 0 (csrf_key x) 900 (\<lambda>_. None)\<rparr>)"
  using sample_manager_simps
  by (simp add: generate_token_def without_redis attempt_def call_outcome_def store_setex_def sample_env_def sample_config_def Let_def)

lemma csrf_token_lasts_witness:
  "fst (validate_token sample_redis sample_config (sample_env 899) (lit ''t'')
     (snd (generate_token sample_redis sample_config (sample_env 0) (lit ''t'') sample_manager))) = Inr True"
proof -
  let ?m = "snd (generate_token sample_redis sample_config (sample_env 0) (lit ''t'') sample_manager)"
  have g: "generate_token sample_redis sample_config (sample_env 0) (lit ''t'') sample_manager = (Inr (lit ''t''), ?m)"
    by (simp add: sample_generate)
  have r: "csrf_run sample_redis sample_config [] ?m = ([], ?m)" by (simp add: csrf_run_def)
  show ?thesis
    by (rule csrf_token_lasts [OF sample_collision_free sample_manager_simps(1-3) g _ _ r])
      (simp_all add: sample_env_def sample_config_def lit_def)
qed

lemma csrf_accepts_only_issued_witness:
  "\<exists>log m mo. csrf_run sample_redis sample_config [Generate_csrf (sample_env 0) (lit ''t'')] sample_manager = (log, m)
     \<and> csrf_protect sample_redis sample_config sample_urls [] (sample_env 899) False csrf_sample_request (Some m) = (Inr (lit ''t''), mo)
     \<and> (\<exists>t0. Generated t0 (lit ''t'') \<in> set log)"
proof -
  let ?m = "sample_manager\<lparr>mg_db := sql_setex (cc_sha sample_config) 0 (csrf_key (lit ''t'')) 900 (\<lambda>_. None)\<rparr>"
  have run: "csrf_run sample_redis sample_config [Generate_csrf (sample_env 0) (lit ''t'')] sample_manager
      = ([Generated 0 (lit ''t'')], ?m)"
    by (simp add: csrf_run_def sample_generate) (simp add: sample_env_def)
  have k: "keeps_token sample_config 899 (lit ''t'') ?m"
    using sample_manager_simps sqlite.setex_holds [of 0 899 900] by (simp add: keeps_token_def)
  have "fst (store_get sample_redis sample_config 899 (csrf_key (lit ''t'')) on_sqlite ?m)"
    using k sqlite.get_live [of "cc_sha sample_config" 899 "csrf_key (lit ''t'')" "mg_db ?m"]
    by (auto simp: store_get_def keeps_token_def split: prod.split)
  then obtain m1 where g: "store_get sample_redis sample_config 899 (csrf_key (lit ''t'')) on_sqlite ?m = (True, m1)"
    by (metis prod.collapse)
  have k1: "keeps_token sample_config 899 (lit ''t'') m1"
    using store_keeps(3) [OF k sample_collision_free, of 899 sample_redis "lit ''t''"] g by (simp add: sample_config_def)
  have "fst (validate_token sample_redis sample_config (sample_env 899) (lit ''t'') ?m) = Inr True"
    using g keeps_tokenD [OF k] keeps_tokenD [OF k1]
    by (simp add: validate_token_def attempt_get_def call_outcome_def extend_token_def sample_env_def lit_def Let_def)
  then obtain m2 where v: "validate_token sample_redis sample_config (sample_env 899) (lit ''t'') ?m = (Inr True, m2)"
    by (metis prod.collapse)
  have "cookie_candidates sample_urls (cq_cookie csrf_sample_request) csrf_cookie_name = [lit ''t'']"
    by (rule sample_cookies)
  then have p: "csrf_protect sample_redis sample_config sample_urls [] (sample_env 899) False csrf_sample_request (Some ?m) = (Inr (lit ''t''), Some m2)"
    using v by (simp add: csrf_protect_def csrf_origin_ok_def csrf_sample_request_def Let_def) (simp add: lit_def)
  have empty: "\<forall>x. \<not> mem_stored DAList.empty (csrf_key x)" "\<forall>x. \<not> sql_stored (cc_sha sample_config) (\<lambda>_. None) (csrf_key x)"
    by (simp_all add: mem_stored_def sql_stored_def)
  from csrf_accepts_only_issued [OF sample_redis_ok sample_collision_free empty run [unfolded sample_manager_def] p [unfolded sample_manager_def]]
  show ?thesis using run p by blast
qed

end
