(* ===== verification/Spec2Isabelle.thy ===== *)
theory Spec2Isabelle
  imports Prelude Fencing Interleaving Circuit_Breaker Job_Lease Admission_Store Authz_Policy Vault_Membership
    Folder_Store Tag_Store Prompt_Store Enrichment_State Draft_Properties
    Citation_Validator Canvas_Store Chunking Org_Properties Wiki_Page_Properties
    Wiki_Lint Wiki_Claim_Properties Retrieval Service_Accounts Csrf_Manager
begin

text \<open>
  A verification development for the backend of KnowledgeVault, a document vault with
  retrieval-augmented answers (FastAPI over SQLite, Redis and LanceDB; sources under
  \<^verbatim>\<open>backend/app/\<close>).

  \<^bold>\<open>The program.\<close> Users belong to organisations and groups, which hold rights on
  vaults. Vaults hold documents, filed in folders and tagged. Documents are chunked, enriched
  and embedded by background workers; answers are written over retrieved chunks and cite
  them. Drafts are compiled, checked and approved in the Draft Room, texts are edited in the
  Canvas. What ties the parts together is one SQLite database, written by requests that first
  read and check and then write in a transaction, and by workers that hold a job by a lease.

  \<^bold>\<open>Conventions.\<close> A table is a list of records in insertion order, an id comes from a
  counter that only grows (AUTOINCREMENT). A handler is a function from its arguments and the
  state to a result and the state; every \<open>HTTPException\<close> and every exception is a value
  (\<open>Inl\<close>), and so is the 500 of a constraint that fails in the database. Where a handler
  reads outside the transaction it writes in, the reading is an argument of its own (\<open>snap\<close>,
  None for "at the same time"), so that interleavings are sequences of steps in which
  readings may be old. Python text is a list of code points (\<open>pystr\<close>) where its characters
  matter and a \<open>string\<close> where it is compared only. Python integers are \<open>int\<close> or
  \<open>nat\<close>, clocks are \<open>int\<close> microseconds or \<open>rat\<close> seconds. Functions that are
  not in the sources (hashes, JWT decoding, \<open>str.lower\<close> outside ASCII, embeddings, model
  replies, the partitioner) are parameters; what a theorem needs of them is a premise of it.

  \<^bold>\<open>Theories and sources.\<close>

  \<^item> \<open>Prelude\<close>, \<open>Text_Scan\<close>: text, tables and errors; what the text components use
    of \<open>str\<close> and \<open>re\<close>. \<open>Fencing\<close>: the contract \<open>fenced_store\<close> of tables
    whose writers must hold what they write.

  \<^item> \<open>Job_Lease\<close> (\<^verbatim>\<open>services/job_lease.py\<close>): the jobs table, claim, heartbeat,
    complete, fail, requeue, cancel and the janitor's reclaim. Ownership invariant; a worker
    whose lease was settled can write nothing more; at most one active job per path; a job
    whose workers all die is handed out no more often than its cap and then failed, whatever
    else runs on the table.

  \<^item> \<open>Circuit_Breaker\<close> (\<^verbatim>\<open>services/circuit_breaker.py\<close>): the breaker as a step
    relation over calls that begin and end in any order.

  \<^item> \<open>Admission_Store\<close> (\<^verbatim>\<open>services/admission.py\<close>): the in-process and the Redis
    store of budgets, both interpretations of \<open>admission_store\<close>; budgets are never
    exceeded; the Redis store, whose scripts round each expiry to fourteen digits
    (\<open>lua_number\<close>), gives the answers of the other one as long as no call falls into the
    rounding of an expiry.

  \<^item> \<open>Authz_Policy\<close> (\<^verbatim>\<open>services/authz_policy.py\<close>, \<^verbatim>\<open>api/deps.py\<close>): the
    evaluator of vault permissions, exact for every kind of principal, and the inventory of
    effective admins.
    \<open>Vault_Membership\<close> (\<^verbatim>\<open>api/routes/vault_members.py\<close>, \<^verbatim>\<open>vaults.py\<close>,
    \<^verbatim>\<open>groups.py\<close>, \<^verbatim>\<open>organizations.py\<close>): every route that can take an admin grant
    away, and the guard they share, the locale \<open>guarded_mutation\<close>, interpreted for each
    bulk change.

  \<^item> \<open>User_Accounts\<close>, \<open>Account_Invariants\<close>, \<open>Account_Properties\<close>
    (\<^verbatim>\<open>api/routes/auth.py\<close>, \<^verbatim>\<open>api/routes/users.py\<close>,
    \<^verbatim>\<open>services/auth_service.py\<close>, \<^verbatim>\<open>api/deps.py\<close>): registration, lockout, refresh
    rotation, logout, password changes, roles, deactivation and deletion, and the resolution
    of a caller. Every server process has its own cache of active users; a resolution reads in
    one state and writes its view back in a later one, so that old views may come back.

  \<^item> \<open>Organizations\<close>, \<open>Org_Invariants\<close>, \<open>Org_Requests\<close>, \<open>Org_Properties\<close>
    (\<^verbatim>\<open>api/routes/organizations.py\<close>, \<^verbatim>\<open>groups.py\<close>, \<^verbatim>\<open>users.py\<close>,
    \<^verbatim>\<open>utils/slug.py\<close>): organisations, invitations and groups, and the composition of
    their requests with the account and permission requests over one \<open>workspace\<close>. The
    inductive \<open>history\<close> generates all interleavings; \<open>workspace_well_formed\<close> and
    \<open>workspace_never_orphans\<close> hold in all of them.

  \<^item> \<open>Folder_Store\<close>, \<open>Tag_Store\<close>, \<open>Prompt_Store\<close>, \<open>Enrichment_State\<close>
    (\<^verbatim>\<open>services/folder_store.py\<close>, \<^verbatim>\<open>tag_store.py\<close>, \<^verbatim>\<open>prompt_store.py\<close>,
    \<^verbatim>\<open>ab_testing.py\<close>, \<^verbatim>\<open>enrichment_state.py\<close>): the folder forest, tags, prompt
    versions, and the stages of document enrichment, which are fenced by the fingerprint of
    their input (the second interpretation of \<open>fenced_store\<close>).

  \<^item> \<open>Draft_Room\<close>, \<open>Draft_Invariants\<close>, \<open>Draft_Steps\<close>, \<open>Draft_Properties\<close>
    (\<^verbatim>\<open>services/draft_store.py\<close>, \<^verbatim>\<open>draft_pipeline.py\<close>,
    \<^verbatim>\<open>draft_job_processor.py\<close>, \<^verbatim>\<open>draft_evidence_freshness.py\<close>,
    \<^verbatim>\<open>api/routes/draft_room.py\<close>): drafts, revisions, findings, compile jobs and the
    approval policy, with the route of mark-ready around its transaction. Every operation is a
    sequence of single table writes, each a \<open>safe_step\<close>.

  \<^item> \<open>Canvas_Store\<close> (\<^verbatim>\<open>services/canvas_store.py\<close>, \<^verbatim>\<open>api/routes/canvas.py\<close>):
    versioned texts with optimistic locking and edits of line ranges.

  \<^item> \<open>Citation_Validator\<close> (\<^verbatim>\<open>services/citation_validator.py\<close>) and
    \<open>Chunking\<close> (\<^verbatim>\<open>services/chunking.py\<close>): citations outside code spans, merging of
    chunks, parent windows.

  \<^item> \<open>Interleaving\<close>: runs of requests whose readings may be old, and the locale
    \<open>monotone_run\<close> of runs that keep an invariant and only go up in a preorder.
    \<open>Wiki_Pages\<close>, \<open>Wiki_Page_Invariants\<close>, \<open>Wiki_Page_Properties\<close>
    (\<^verbatim>\<open>services/wiki_store.py\<close>, \<^verbatim>\<open>api/routes/wiki.py\<close>): pages, their versions,
    links and attachments; each statement of a request that reads before the first write reads
    an arbitrary earlier state. \<open>page_history\<close> is the preorder: tables stay well-formed, the
    stored history is complete, no update is lost, and links follow the text.

  \<^item> \<open>Wiki_Claims\<close>, \<open>Wiki_Lint\<close>, \<open>Wiki_Claim_Properties\<close>
    (\<^verbatim>\<open>services/wiki_store.py\<close>, \<^verbatim>\<open>services/wiki_compiler.py\<close>): claims and their
    sources, the passes that supersede claims (the locale \<open>claim_pass\<close>, interpreted for the
    deletion of a source and for the recompilation of a document), and the reconciliation of
    lint findings by fingerprint: exact, idempotent, and respecting what users disposed of as
    long as a run has read its rows since the last disposition.

  \<^item> \<open>Retrieval\<close> (\<^verbatim>\<open>services/document_retrieval.py\<close>): the filter by distance or
    score, the caps per document, and the expansion by neighbouring chunks, with the vector
    store as a parameter. What comes back is exact without a window; with one it is sound: no
    key twice, only chunks near a hit, documents by rank and each in reading order.

  \<^item> \<open>Service_Accounts\<close> (\<^verbatim>\<open>api/routes/service_accounts.py\<close>,
    \<^verbatim>\<open>models/database.py\<close>, \<^verbatim>\<open>security/__init__.py\<close>, \<^verbatim>\<open>api/deps.py\<close>): the keys of
    service accounts and the bearer guards. \<open>exec_call_cases\<close> says what a call may do to the
    table; runs are those of \<open>Interleaving\<close>, and the rotation is an instance of
    \<open>monotone_run\<close> with the calls so far as log.

  \<^item> \<open>Csrf_Store\<close>, \<open>Csrf_Manager\<close> (\<^verbatim>\<open>security/__init__.py\<close>): CSRF tokens. Both
    fallback stores keep the contract \<open>token_store\<close>, which a Redis server is assumed to keep;
    \<open>lasting_store\<close> adds what only the SQLite store does. \<open>bounded\<close> says what one request can
    make valid, through failures and failover; the guard of the routes rests on it.

  The theories named \<open>_Sample\<close> hold concrete states and the steps between them; the
  theorems named \<open>_witness\<close> apply a property there.

  \<^bold>\<open>Bounds and fuel.\<close> There is no fuel: every recursion is structural or ends by a measure,
  also the breadth-first walk of the folder tree (\<open>descendant_walk_closure\<close>). Limits of the code (five failed logins,
  fifteen minutes, thirty days, version caps) are its constants or its settings as arguments.

  \<^bold>\<open>Not modelled.\<close> HTTP parsing, the setting of cookies and read views; field lengths of
  descriptions; the contents of audit rows (their order is kept); LanceDB, model servers and
  everything that needs them; the conversion of documents by third-party packages; wall
  clock drift between processes; SQLite's own failures (but for the CSRF
  store). Scores
  of passages are rationals that are only compared. Reads of different tables by one handler before its transaction
  are one reading. Schema migrations, configuration and start-up are not modelled; the
  constraints of the schema are written into the operations.
\<close>

end
